(* ===== verification/Prelude.thy ===== *)
theory Prelude
  imports Main "HOL-Library.Word" "HOL-Library.Sublist"
begin

text \<open>
  Shared vocabulary of the development: machine-integer bounds and saturating arithmetic,
  the text operations of Rust's standard library that the client uses (\<open>trim\<close>,
  \<open>to_lowercase\<close>, \<open>contains\<close>, \<open>find\<close>, \<open>strip_prefix\<close>, \<open>split\<close>, integer formatting), a JSON
  value type, and the generic lemmas on lists, maps and options that several components use.

  Text. A \<open>string\<close> (list of \<open>char\<close>) stands for a Rust string whose code points are
  below 256; on that range whitespace and lower-casing are those of Unicode, exactly.
  Text whose length in code points matters (the chunkers) is a list of code points of
  type \<open>nat\<close> instead, and has its own functions in the theory that uses it.
\<close>

named_theorems str_simps "evaluation of the text operations on concrete strings"

section \<open>Machine integers\<close>

definition u32_max :: nat where "u32_max = 4294967295"
definition u64_max :: nat where "u64_max = 18446744073709551615"

text \<open>\<open>saturating_add\<close>, \<open>saturating_mul\<close> and \<open>saturating_pow\<close> of an unsigned type with the given largest value.\<close>

definition sat_add :: "nat \<Rightarrow> nat \<Rightarrow> nat \<Rightarrow> nat" where
  "sat_add mx a b = min mx (a + b)"

definition sat_mul :: "nat \<Rightarrow> nat \<Rightarrow> nat \<Rightarrow> nat" where
  "sat_mul mx a b = min mx (a * b)"

definition sat_pow :: "nat \<Rightarrow> nat \<Rightarrow> nat \<Rightarrow> nat" where
  "sat_pow mx a b = min mx (a ^ b)"

lemma sat_add_le_top [simp]: "sat_add mx a b \<le> mx"
  by (simp add: sat_add_def)

lemma sat_add_exact: "a + b \<le> mx \<Longrightarrow> sat_add mx a b = a + b"
  by (simp add: sat_add_def)

section \<open>Text of the standard library\<close>

text \<open>\<open>char::is_whitespace\<close> below U+0100.\<close>

definition is_ws :: "char \<Rightarrow> bool" where
  "is_ws c \<longleftrightarrow> c \<in> {CHR 0x09, CHR 0x0A, CHR 0x0B, CHR 0x0C, CHR 0x0D, CHR 0x20, CHR 0x85, CHR 0xA0}"

definition trim_by :: "('a \<Rightarrow> bool) \<Rightarrow> 'a list \<Rightarrow> 'a list" where
  "trim_by p s = rev (dropWhile p (rev (dropWhile p s)))"

definition trim :: "string \<Rightarrow> string" where
  "trim s = trim_by is_ws s"

lemma set_trim: "set (trim s) \<subseteq> set s"
  by (metis set_dropWhileD set_rev subsetI trim_by_def trim_def)

lemma dropWhile_trim_idem: "dropWhile p (dropWhile p s) = dropWhile p s"
  by (induction s) auto

lemma dropWhile_id: "(s = [] \<or> \<not> p (hd s)) \<Longrightarrow> dropWhile p s = s"
  by (cases s) auto

lemma trim_by_idem [simp]: "trim_by p (trim_by p s) = trim_by p s"
proof -
  let ?a = "dropWhile p s"
  let ?b = "dropWhile p (rev ?a)"
  have hd: "rev ?b = [] \<or> \<not> p (hd (rev ?b))"
  proof (cases "?b = []")
    case False
    then have "rev ?b \<noteq> []" by simp
    moreover have "prefix (rev ?b) ?a"
      by (metis rev_rev_ident suffix_dropWhile suffix_to_prefix)
    ultimately obtain x xs ys where "rev ?b = x # xs" "?a = x # ys"
      by (cases "rev ?b"; cases ?a) auto
    moreover from this(2) have "\<not> p (hd ?a)" by (metis hd_dropWhile list.distinct(1))
    ultimately show ?thesis by simp
  qed simp
  then have "dropWhile p (rev ?b) = rev ?b" by (rule dropWhile_id)
  then show ?thesis by (simp add: trim_by_def dropWhile_trim_idem)
qed

lemma trim_idem [simp]: "trim (trim s) = trim s"
  by (simp add: trim_def)

text \<open>\<open>to_lowercase\<close> below U+0100: A to Z and the Latin-1 capitals (all but U+00D7).\<close>

definition lower_char :: "char \<Rightarrow> char" where
  "lower_char c = (let n = of_char c :: nat in
     if 65 \<le> n \<and> n \<le> 90 \<or> 192 \<le> n \<and> n \<le> 222 \<and> n \<noteq> 215 then char_of (n + 32) else c)"

definition to_lowercase :: "string \<Rightarrow> string" where
  "to_lowercase s = map lower_char s"

text \<open>\<open>str::find\<close> with a string pattern: the index of the first occurrence.\<close>

fun find_sub :: "'a list \<Rightarrow> 'a list \<Rightarrow> nat option" where
  "find_sub pat [] = (if pat = [] then Some 0 else None)"
| "find_sub pat (x # xs) =
     (if prefix pat (x # xs) then Some 0 else map_option Suc (find_sub pat xs))"

definition str_contains :: "'a list \<Rightarrow> 'a list \<Rightarrow> bool" where
  "str_contains s pat \<longleftrightarrow> find_sub pat s \<noteq> None"

definition strip_pfx :: "'a list \<Rightarrow> 'a list \<Rightarrow> 'a list option" where
  "strip_pfx pat s = (if prefix pat s then Some (drop (length pat) s) else None)"

text \<open>\<open>str::split\<close> with a non-empty pattern, and its inverse.\<close>

function split_on :: "'a list \<Rightarrow> 'a list \<Rightarrow> 'a list list" where
  "split_on d s =
     (if d = [] then [s]
      else case find_sub d s of
        None \<Rightarrow> [s]
      | Some i \<Rightarrow> take i s # split_on d (drop (i + length d) s))"
  by pat_completeness auto

lemma find_sub_Some_split:
  "find_sub pat s = Some i \<Longrightarrow> i + length pat \<le> length s \<and> take (length pat) (drop i s) = pat"
proof (induction pat s arbitrary: i rule: find_sub.induct)
  case (1 pat)
  then show ?case by (simp split: if_splits)
next
  case (2 pat x xs)
  show ?case
  proof (cases "prefix pat (x # xs)")
    case True
    with 2 have "i = 0" by simp
    moreover from True obtain r where "x # xs = pat @ r" by (auto simp: prefix_def)
    ultimately show ?thesis by simp
  next
    case False
    with 2 obtain j where "find_sub pat xs = Some j" "i = Suc j" by auto
    with 2 False show ?thesis by auto
  qed
qed

termination split_on
proof (relation "measure (\<lambda>(d, s). length s)", goal_cases)
  case (2 d s i)
  then have "i + length d \<le> length s" using find_sub_Some_split by fastforce
  with 2 show ?case by (cases d) auto
qed simp

declare split_on.simps [simp del]

fun join_with :: "'a list \<Rightarrow> 'a list list \<Rightarrow> 'a list" where
  "join_with d [] = []"
| "join_with d [p] = p"
| "join_with d (p # q # ps) = p @ d @ join_with d (q # ps)"

lemma join_with_Cons: "ps \<noteq> [] \<Longrightarrow> join_with d (p # ps) = p @ d @ join_with d ps"
  by (cases ps) auto

lemma split_on_not_Nil [simp]: "split_on d s \<noteq> []"
  by (subst split_on.simps) (simp split: option.split)

lemma join_split_on: "join_with d (split_on d s) = s"
proof (induction d s rule: split_on.induct)
  case (1 d s)
  show ?case
  proof (cases "d = [] \<or> find_sub d s = None")
    case True
    then show ?thesis by (subst split_on.simps) auto
  next
    case False
    then obtain i where i: "find_sub d s = Some i" and d: "d \<noteq> []" by auto
    from find_sub_Some_split [OF i] have s: "s = take i s @ d @ drop (i + length d) s"
      by (metis append_take_drop_id drop_drop add.commute)
    from 1 i d have "join_with d (split_on d (drop (i + length d) s)) = drop (i + length d) s"
      by simp
    with i d s show ?thesis by (subst split_on.simps) (simp add: join_with_Cons)
  qed
qed

lemma find_sub_None_iff: "find_sub pat s = None \<longleftrightarrow> (\<forall>pre post. s \<noteq> pre @ pat @ post)"
proof (induction pat s rule: find_sub.induct)
  case (1 pat)
  then show ?case by simp
next
  case (2 pat x xs)
  show ?case
  proof (cases "prefix pat (x # xs)")
    case True
    then have "\<exists>post. x # xs = [] @ pat @ post" by (auto simp: prefix_def)
    with True show ?thesis by (metis find_sub.simps(2) option.distinct(1))
  next
    case False
    have "(\<forall>pre post. x # xs \<noteq> pre @ pat @ post) \<longleftrightarrow> (\<forall>pre post. xs \<noteq> pre @ pat @ post)"
    proof
      assume "\<forall>pre post. x # xs \<noteq> pre @ pat @ post"
      then show "\<forall>pre post. xs \<noteq> pre @ pat @ post" by (metis append_Cons)
    next
      assume r: "\<forall>pre post. xs \<noteq> pre @ pat @ post"
      show "\<forall>pre post. x # xs \<noteq> pre @ pat @ post"
      proof (intro allI notI)
        fix pre post assume "x # xs = pre @ pat @ post"
        with False r show False by (cases pre) (auto simp: prefix_def)
      qed
    qed
    with False 2 show ?thesis by simp
  qed
qed

lemma str_contains_iff: "str_contains s pat \<longleftrightarrow> (\<exists>pre post. s = pre @ pat @ post)"
  by (simp add: str_contains_def find_sub_None_iff)

lemma find_SomeD: "find p xs = Some x \<Longrightarrow> x \<in> set xs \<and> p x"
  by (auto simp: find_Some_iff)

text \<open>\<open>str::replace\<close>; the program never replaces the empty text.\<close>

definition replace_all :: "'a list \<Rightarrow> 'a list \<Rightarrow> 'a list \<Rightarrow> 'a list" where
  "replace_all pat rep s = join_with rep (split_on pat s)"

lemma replace_all_absent: "\<not> str_contains s pat \<Longrightarrow> replace_all pat rep s = s"
  by (subst (asm) str_contains_def) (simp add: replace_all_def split_on.simps [of pat s])

lemma replace_all_first: "pat \<noteq> [] \<Longrightarrow> replace_all pat rep (pat @ s) = rep @ replace_all pat rep s"
proof -
  assume "pat \<noteq> []"
  then have "find_sub pat (pat @ s) = Some 0" by (cases pat) auto
  with \<open>pat \<noteq> []\<close> show ?thesis
    by (simp add: replace_all_def split_on.simps [of pat "pat @ s"] join_with_Cons)
qed

lemma replace_all_self: "pat \<noteq> [] \<Longrightarrow> replace_all pat rep pat = rep"
  using replace_all_first [of pat rep "[]"] by (simp add: replace_all_def split_on.simps [of pat "[]"])

section \<open>Formatting integers\<close>

fun fmt_nat :: "nat \<Rightarrow> string" where
  "fmt_nat n = (if n < 10 then [char_of (48 + n)] else fmt_nat (n div 10) @ [char_of (48 + n mod 10)])"

declare fmt_nat.simps [simp del]

definition fmt_int :: "int \<Rightarrow> string" where
  "fmt_int i = (if i < 0 then CHR ''-'' # fmt_nat (nat (- i)) else fmt_nat (nat i))"

fun dec_value :: "string \<Rightarrow> nat" where
  "dec_value s = foldl (\<lambda>a c. 10 * a + (of_char c - 48)) 0 s"

lemma dec_value_fmt_nat: "dec_value (fmt_nat n) = n"
proof (induction n rule: fmt_nat.induct)
  case (1 n)
  show ?case
  proof (cases "n < 10")
    case True
    then show ?thesis by (subst fmt_nat.simps) simp
  next
    case False
    with 1 show ?thesis by (subst fmt_nat.simps) simp
  qed
qed

lemma fmt_nat_inject [simp]: "fmt_nat a = fmt_nat b \<longleftrightarrow> a = b"
  by (metis dec_value_fmt_nat)

definition is_digit :: "char \<Rightarrow> bool" where
  "is_digit c \<longleftrightarrow> 48 \<le> (of_char c :: nat) \<and> (of_char c :: nat) \<le> 57"

lemma fmt_nat_digits: "c \<in> set (fmt_nat n) \<Longrightarrow> is_digit c"
proof (induction n rule: fmt_nat.induct)
  case (1 n)
  show ?case
  proof (cases "n < 10")
    case True
    with 1 show ?thesis by (subst (asm) fmt_nat.simps) (auto simp: is_digit_def)
  next
    case False
    with 1 show ?thesis by (subst (asm) (2) fmt_nat.simps) (auto simp: is_digit_def)
  qed
qed

lemma fmt_nat_no_minus [simp]: "CHR ''-'' \<notin> set (fmt_nat n)" "CHR ''|'' \<notin> set (fmt_nat n)"
  using fmt_nat_digits by (force simp: is_digit_def)+

lemma fmt_nat_not_Cons_minus [simp]: "fmt_nat n \<noteq> CHR ''-'' # s" "CHR ''-'' # s \<noteq> fmt_nat n"
  by (metis fmt_nat_no_minus(1) list.set_intros(1))+

lemma fmt_int_inject [simp]: "fmt_int a = fmt_int b \<longleftrightarrow> a = b"
  by (auto simp: fmt_int_def)

lemma fmt_int_no_bar [simp]: "CHR ''|'' \<notin> set (fmt_int i)"
  by (auto simp: fmt_int_def)

section \<open>Separators\<close>

lemma sep_append_inject:
  assumes "c \<notin> set xs" "c \<notin> set ys"
  shows "xs @ c # us = ys @ c # vs \<longleftrightarrow> xs = ys \<and> us = vs"
  using assms
proof (induction xs arbitrary: ys)
  case Nil
  then show ?case by (cases ys) auto
next
  case (Cons x xs)
  then show ?case by (cases ys) auto
qed

lemma sep_append_prefix:
  assumes "c \<notin> set xs" "c \<notin> set ys"
  shows "prefix (xs @ c # us) (ys @ c # vs) \<longleftrightarrow> xs = ys \<and> prefix us vs"
  using assms
proof (induction xs arbitrary: ys)
  case Nil
  then show ?case by (cases ys) auto
next
  case (Cons x xs)
  then show ?case by (cases ys) auto
qed

section \<open>Maps\<close>

text \<open>\<open>HashMap::retain\<close>.\<close>

definition map_retain :: "('k \<Rightarrow> 'v \<Rightarrow> bool) \<Rightarrow> ('k \<rightharpoonup> 'v) \<Rightarrow> ('k \<rightharpoonup> 'v)" where
  "map_retain p m = (\<lambda>k. case m k of None \<Rightarrow> None | Some v \<Rightarrow> if p k v then Some v else None)"

lemma map_retain_Some: "map_retain p m k = Some v \<longleftrightarrow> m k = Some v \<and> p k v"
  by (auto simp: map_retain_def split: option.splits)

lemma map_retain_None: "map_retain p m k = None \<longleftrightarrow> (\<forall>v. m k = Some v \<longrightarrow> \<not> p k v)"
  by (auto simp: map_retain_def split: option.splits)

section \<open>JSON values\<close>

text \<open>
  \<open>serde_json::Value\<close> over a type of texts. A number is an integer or, with the text that \<open>Display\<close> gives
  it, a floating-point number; the members of an object are in the order of the map.
\<close>

datatype 't json =
    JNull
  | JBool bool
  | JInt int
  | JNum 't
  | JString 't
  | JArray "'t json list"
  | JObject "('t \<times> 't json) list"

fun is_object :: "'t json \<Rightarrow> bool" where
  "is_object (JObject ms) = True"
| "is_object _ = False"

end
