(* ===== verification/TextChunks.thy ===== *)
theory TextChunks
  imports Prelude
begin

text \<open>
  The plain-text chunker of \<open>component_rt/runner/chunking.rs\<close>: a text longer than the
  provider's limit is split by paragraph, sentence or character, every piece is translated on its own, and
  the translations are joined again.

  A text is a list of code points, because the limit counts \<open>chars()\<close>. Sizes are \<open>nat\<close>:
  \<open>max_chars as usize\<close> is the identity on the 64-bit targets, and an index never exceeds the
  length of a text in memory.
\<close>

section \<open>Chunks\<close>

type_synonym utext = "nat list"

text \<open>An ASCII literal as a text.\<close>

definition cps :: "string \<Rightarrow> utext" where
  "cps s = map of_char s"

record text_chunk =
  ctext :: utext
  separator_after :: utext

definition plain_chunk :: "utext \<Rightarrow> text_chunk" where
  "plain_chunk t = \<lparr>ctext = t, separator_after = []\<rparr>"

lemma plain_chunk_sel [simp]: "ctext (plain_chunk t) = t" "separator_after (plain_chunk t) = []"
  by (simp_all add: plain_chunk_def)

text \<open>\<open>char::is_whitespace\<close>: the Unicode property White_Space.\<close>

definition is_ws_cp :: "nat \<Rightarrow> bool" where
  "is_ws_cp c \<longleftrightarrow> 9 \<le> c \<and> c \<le> 13 \<or> c = 32 \<or> c = 133 \<or> c = 160 \<or> c = 5760
     \<or> 8192 \<le> c \<and> c \<le> 8202 \<or> c = 8232 \<or> c = 8233 \<or> c = 8239 \<or> c = 8287 \<or> c = 12288"

text \<open>The sentence ends: U+3002, U+FF01, U+FF1F, full stop, exclamation and question mark, newline.\<close>

definition is_sentence_end :: "nat \<Rightarrow> bool" where
  "is_sentence_end c \<longleftrightarrow> c \<in> {12290, 65281, 65311, 46, 33, 63, 10}"

section \<open>Splitting by characters\<close>

text \<open>The last white space in the second half of the window decides where to cut.\<close>

definition char_split_at :: "utext \<Rightarrow> nat \<Rightarrow> nat \<Rightarrow> nat \<Rightarrow> nat" where
  "char_split_at chars mx start ed =
     (case find (\<lambda>i. is_ws_cp (chars ! i)) (rev [start + mx div 2 ..< ed]) of
        Some i \<Rightarrow> i + 1
      | None \<Rightarrow> ed)"

lemma char_split_at_bounds:
  assumes "start + mx div 2 \<le> ed" "start < ed"
  shows "start < char_split_at chars mx start ed \<and> char_split_at chars mx start ed \<le> ed"
proof (cases "find (\<lambda>i. is_ws_cp (chars ! i)) (rev [start + mx div 2 ..< ed])")
  case None
  with assms show ?thesis by (simp add: char_split_at_def)
next
  case (Some i)
  then have "i \<in> set (rev [start + mx div 2 ..< ed])" by (blast dest: find_SomeD)
  with Some show ?thesis by (auto simp: char_split_at_def)
qed

text \<open>The loop runs with a positive limit only (the caller returns early on 0).\<close>

function chars_loop :: "utext \<Rightarrow> nat \<Rightarrow> nat \<Rightarrow> text_chunk list" where
  "chars_loop chars mx start =
     (if start < length chars \<and> 0 < mx then
        let ed = min (start + mx) (length chars) in
        if length chars \<le> ed then [plain_chunk (drop start chars)]
        else let split_at = char_split_at chars mx start ed in
          plain_chunk (take (split_at - start) (drop start chars)) # chars_loop chars mx split_at
      else [])"
  by pat_completeness auto
termination
proof (relation "measure (\<lambda>(chars, mx, start). length chars - start)", goal_cases)
  case (2 chars mx start ed split_at)
  then have "start < split_at" using char_split_at_bounds [of start mx ed chars] by simp
  with 2 show ?case by simp
qed simp

declare chars_loop.simps [simp del]

definition split_by_chars :: "utext \<Rightarrow> nat \<Rightarrow> text_chunk list" where
  "split_by_chars input mx =
     (if mx = 0 then [plain_chunk input]
      else let chunks = chars_loop input mx 0 in
        if chunks = [] then [plain_chunk input] else chunks)"

section \<open>Splitting by sentences\<close>

fun sentences_of :: "utext \<Rightarrow> utext \<Rightarrow> utext list" where
  "sentences_of [] current_sentence = (if current_sentence = [] then [] else [current_sentence])"
| "sentences_of (ch # cs) current_sentence =
     (if is_sentence_end ch then (current_sentence @ [ch]) # sentences_of cs []
      else sentences_of cs (current_sentence @ [ch]))"

fun sentence_loop :: "nat \<Rightarrow> utext list \<Rightarrow> utext \<Rightarrow> text_chunk list" where
  "sentence_loop mx [] current = (if current \<noteq> [] then [plain_chunk current] else [])"
| "sentence_loop mx (sentence # ss) current =
     (if length current + length sentence \<le> mx then sentence_loop mx ss (current @ sentence)
      else (if current \<noteq> [] then [plain_chunk current] else []) @
        (if mx < length sentence then split_by_chars sentence mx @ sentence_loop mx ss []
         else sentence_loop mx ss sentence))"

definition split_by_sentence :: "utext \<Rightarrow> nat \<Rightarrow> text_chunk list" where
  "split_by_sentence input mx =
     (let chunks = sentence_loop mx (sentences_of input []) [] in
      if chunks = [] then [plain_chunk input] else chunks)"

section \<open>Splitting by a delimiter\<close>

text \<open>The pieces of an oversized part: only the last one carries the part's delimiter.\<close>

fun relabel_last :: "utext \<Rightarrow> text_chunk list \<Rightarrow> text_chunk list" where
  "relabel_last sep [] = []"
| "relabel_last sep [c] = [c\<lparr>separator_after := sep\<rparr>]"
| "relabel_last sep (c # d # cs) = c # relabel_last sep (d # cs)"

fun delimiter_loop :: "utext \<Rightarrow> nat \<Rightarrow> utext list \<Rightarrow> utext \<Rightarrow> text_chunk list" where
  "delimiter_loop d mx [] current = (if current \<noteq> [] then [plain_chunk current] else [])"
| "delimiter_loop d mx (part # parts) current =
     (if length current + (if current = [] then 0 else length d) + length part \<le> mx
      then delimiter_loop d mx parts ((if current \<noteq> [] then current @ d else current) @ part)
      else (if current \<noteq> [] then [\<lparr>ctext = current, separator_after = d\<rparr>] else []) @
        (if mx < length part
         then relabel_last (if parts \<noteq> [] then d else []) (split_by_sentence part mx)
                @ delimiter_loop d mx parts []
         else delimiter_loop d mx parts part))"

definition split_by_delimiter :: "utext \<Rightarrow> nat \<Rightarrow> utext \<Rightarrow> text_chunk list" where
  "split_by_delimiter input mx d =
     (let chunks = delimiter_loop d mx (split_on d input) [] in
      if chunks = [] then [plain_chunk input] else chunks)"

section \<open>The strategy switch and the join\<close>

definition split_text_by_strategy ::
  "utext \<Rightarrow> nat \<Rightarrow> string \<Rightarrow> utext \<Rightarrow> text_chunk list" where
  "split_text_by_strategy input mx strategy custom_separator =
     (if mx = 0 \<or> length input \<le> mx then [plain_chunk input]
      else if strategy = ''paragraph''
        then split_by_delimiter input mx (if custom_separator = [] then [10, 10] else custom_separator)
      else if strategy = ''sentence'' then split_by_sentence input mx
      else if strategy = ''chars'' then split_by_chars input mx
      else [plain_chunk input])"

fun merge_translated_chunks :: "(text_chunk \<times> utext) list \<Rightarrow> utext" where
  "merge_translated_chunks [] = []"
| "merge_translated_chunks [(c, t)] = t"
| "merge_translated_chunks ((c, t) # r # rs) = t @ separator_after c @ merge_translated_chunks (r # rs)"

section \<open>Translating the chunks\<close>

text \<open>
  \<open>provider i t\<close> is the outcome of the provider call for chunk \<open>i\<close> (the durable job
  identity of the call carries the index); the first error ends the loop.
\<close>

fun translate_chunks ::
  "(nat \<Rightarrow> utext \<Rightarrow> 'e + utext) \<Rightarrow> nat \<Rightarrow> text_chunk list \<Rightarrow> 'e + (text_chunk \<times> utext) list" where
  "translate_chunks provider i [] = Inr []"
| "translate_chunks provider i (c # cs) =
     (case provider i (ctext c) of
        Inl e \<Rightarrow> Inl e
      | Inr t \<Rightarrow> (case translate_chunks provider (Suc i) cs of
          Inl e \<Rightarrow> Inl e
        | Inr r \<Rightarrow> Inr ((c, t) # r)))"

text \<open>
  The body of \<open>translate_text_with_constraints_with_env\<close> after the split; \<open>whole\<close> is the
  unchunked provider call and \<open>validate\<close> the token check of \<open>content_safety.rs\<close>
  (the error, if any).
\<close>

definition translate_split ::
  "(nat \<Rightarrow> utext \<Rightarrow> 'e + utext) \<Rightarrow> (utext \<Rightarrow> 'e + utext) \<Rightarrow> (utext \<Rightarrow> utext \<Rightarrow> 'e option)
     \<Rightarrow> utext \<Rightarrow> text_chunk list \<Rightarrow> 'e + utext" where
  "translate_split provider whole validate input chunks =
     (if length chunks \<le> 1 then whole input
      else case translate_chunks provider 0 chunks of
        Inl e \<Rightarrow> Inl e
      | Inr results \<Rightarrow>
          (let translated = merge_translated_chunks results in
           case validate input translated of Some e \<Rightarrow> Inl e | None \<Rightarrow> Inr translated))"

definition translate_text_with_constraints ::
  "(nat \<Rightarrow> utext \<Rightarrow> 'e + utext) \<Rightarrow> (utext \<Rightarrow> 'e + utext) \<Rightarrow> (utext \<Rightarrow> utext \<Rightarrow> 'e option)
     \<Rightarrow> utext \<Rightarrow> nat \<Rightarrow> string \<Rightarrow> utext \<Rightarrow> 'e + utext" where
  "translate_text_with_constraints provider whole validate input mx strategy sep =
     translate_split provider whole validate input (split_text_by_strategy input mx strategy sep)"

section \<open>Joining\<close>

text \<open>Joining the untranslated chunks.\<close>

definition rejoin :: "text_chunk list \<Rightarrow> utext" where
  "rejoin cs = merge_translated_chunks (map (\<lambda>c. (c, ctext c)) cs)"

text \<open>The join with the last separator included.\<close>

definition full_join :: "text_chunk list \<Rightarrow> utext" where
  "full_join cs = concat (map (\<lambda>c. ctext c @ separator_after c) cs)"

lemma full_join_simps [simp]:
  "full_join [] = []" "full_join (c # cs) = ctext c @ separator_after c @ full_join cs"
  "full_join (cs @ ds) = full_join cs @ full_join ds"
  by (simp_all add: full_join_def)

lemma rejoin_simps [simp]: "rejoin [] = []" "rejoin [c] = ctext c"
  by (simp_all add: rejoin_def)

lemma rejoin_Cons: "cs \<noteq> [] \<Longrightarrow> rejoin (c # cs) = ctext c @ separator_after c @ rejoin cs"
  by (cases cs) (simp_all add: rejoin_def)

lemma rejoin_append:
  "ds \<noteq> [] \<Longrightarrow> rejoin (cs @ ds) = full_join cs @ rejoin ds"
proof (induction cs)
  case Nil
  then show ?case by simp
next
  case (Cons c cs)
  then show ?case by (simp add: rejoin_Cons)
qed

lemma rejoin_plain: "\<forall>c \<in> set cs. separator_after c = [] \<Longrightarrow> rejoin cs = full_join cs"
proof (induction cs)
  case (Cons c cs)
  then show ?case by (cases "cs = []") (simp_all add: rejoin_Cons)
qed simp


section \<open>The character loop\<close>

lemma chars_loop_step:
  assumes "start < length chars" "0 < mx" "\<not> length chars \<le> start + mx"
    and "split_at = char_split_at chars mx start (start + mx)"
  shows "chars_loop chars mx start =
           plain_chunk (take (split_at - start) (drop start chars)) # chars_loop chars mx split_at"
    and "start < split_at" "split_at \<le> start + mx"
  using assms char_split_at_bounds [of start mx "start + mx" chars]
  by (simp_all add: chars_loop.simps [of chars mx start] Let_def min_def)

lemma chars_loop_last:
  "start < length chars \<Longrightarrow> 0 < mx \<Longrightarrow> length chars \<le> start + mx \<Longrightarrow>
   chars_loop chars mx start = [plain_chunk (drop start chars)]"
  by (simp add: chars_loop.simps [of chars mx start] Let_def)

lemma chars_loop_end: "length chars \<le> start \<Longrightarrow> chars_loop chars mx start = []"
  by (simp add: chars_loop.simps [of chars mx start])

definition chunk_fits :: "nat \<Rightarrow> text_chunk \<Rightarrow> bool" where
  "chunk_fits mx c \<longleftrightarrow> ctext c \<noteq> [] \<and> length (ctext c) \<le> mx"

lemma chars_loop_both:
  assumes "0 < mx"
  shows "full_join (chars_loop chars mx start) = drop start chars
    \<and> (\<forall>c \<in> set (chars_loop chars mx start). chunk_fits mx c \<and> separator_after c = [])"
  using assms
proof (induction chars mx start rule: chars_loop.induct)
  case (1 chars mx start)
  note pos = "1.prems"
  let ?s = "char_split_at chars mx start (start + mx)"
  consider "length chars \<le> start" | "start < length chars" "length chars \<le> start + mx"
    | "start < length chars" "\<not> length chars \<le> start + mx" by linarith
  then show ?case
  proof cases
    case 3
    note step = chars_loop_step [OF 3(1) pos 3(2) refl]
    have ih: "full_join (chars_loop chars mx ?s) = drop ?s chars"
      "\<forall>c \<in> set (chars_loop chars mx ?s). chunk_fits mx c \<and> separator_after c = []"
      using "1.IH" [of "start + mx" ?s] 3 pos by (simp_all add: min_def)
    have "take (?s - start) (drop start chars) @ drop ?s chars = drop start chars"
      using step(2) by (metis append_take_drop_id drop_drop le_add_diff_inverse2 less_imp_le_nat)
    moreover have "chunk_fits mx (plain_chunk (take (?s - start) (drop start chars)))"
      using step(2,3) 3 by (simp add: chunk_fits_def)
    ultimately show ?thesis using ih by (simp add: step(1))
  qed (use pos in \<open>simp_all add: chars_loop_end chars_loop_last chunk_fits_def\<close>)
qed

lemmas chars_loop_correct =
  chars_loop_both [THEN conjunct1] chars_loop_both [THEN conjunct2]

lemma chars_loop_Nil_iff: "0 < mx \<Longrightarrow> chars_loop chars mx 0 = [] \<longleftrightarrow> chars = []"
  using chars_loop_correct(1) [of mx chars 0] by (cases chars) (auto simp: chars_loop_end)

lemma split_by_chars_join: "full_join (split_by_chars input mx) = input"
  by (simp add: split_by_chars_def Let_def chars_loop_correct)

lemma split_by_chars_plain: "c \<in> set (split_by_chars input mx) \<Longrightarrow> separator_after c = []"
  using chars_loop_correct(2) [of mx input 0]
  by (auto simp: split_by_chars_def Let_def split: if_splits)

lemma split_by_chars_fits:
  "0 < mx \<Longrightarrow> input \<noteq> [] \<Longrightarrow> c \<in> set (split_by_chars input mx) \<Longrightarrow> chunk_fits mx c"
  using chars_loop_correct(2) [of mx input 0]
  by (auto simp: split_by_chars_def Let_def chars_loop_Nil_iff)

section \<open>The sentence loop\<close>

lemma concat_sentences_of: "concat (sentences_of s cur) = cur @ s"
  by (induction s cur rule: sentences_of.induct) auto

lemma sentences_of_not_Nil: "x \<in> set (sentences_of s cur) \<Longrightarrow> x \<noteq> []"
  by (induction s cur rule: sentences_of.induct) (auto split: if_splits)

lemma sentence_loop_join: "full_join (sentence_loop mx ss cur) = cur @ concat ss"
  by (induction mx ss cur rule: sentence_loop.induct) (auto simp: split_by_chars_join)

lemma sentence_loop_plain: "c \<in> set (sentence_loop mx ss cur) \<Longrightarrow> separator_after c = []"
  by (induction mx ss cur rule: sentence_loop.induct) (auto dest: split_by_chars_plain split: if_splits)

lemma sentence_loop_fits:
  assumes "0 < mx" "length cur \<le> mx" "\<forall>s \<in> set ss. s \<noteq> []" "c \<in> set (sentence_loop mx ss cur)"
  shows "chunk_fits mx c"
  using assms
proof (induction mx ss cur rule: sentence_loop.induct)
  case (1 mx current)
  then show ?case by (auto simp: chunk_fits_def split: if_splits)
next
  case (2 mx sentence ss current)
  have cur: "current \<noteq> [] \<Longrightarrow> chunk_fits mx (plain_chunk current)"
    using "2.prems"(2) by (simp add: chunk_fits_def)
  consider "length current + length sentence \<le> mx"
    | "mx < length sentence" "\<not> length current + length sentence \<le> mx"
    | "length sentence \<le> mx" "\<not> length current + length sentence \<le> mx" by linarith
  then show ?case
  proof cases
    case 1
    with 2 show ?thesis by simp
  next
    case 2
    with "2.prems" cur show ?thesis
      using "2.IH"(2) split_by_chars_fits [of mx sentence c] by (auto split: if_splits)
  next
    case 3
    with "2.prems" cur show ?thesis
      using "2.IH"(3) by (auto split: if_splits)
  qed
qed

lemma sentence_loop_Nil_iff: "sentence_loop mx ss cur = [] \<Longrightarrow> cur = [] \<and> concat ss = []"
  using sentence_loop_join [of mx ss cur] by simp

lemma split_by_sentence_join: "full_join (split_by_sentence input mx) = input"
  by (simp add: split_by_sentence_def Let_def sentence_loop_join concat_sentences_of)

lemma split_by_sentence_plain: "c \<in> set (split_by_sentence input mx) \<Longrightarrow> separator_after c = []"
  by (auto simp: split_by_sentence_def Let_def dest: sentence_loop_plain split: if_splits)

lemma split_by_sentence_fits:
  assumes "0 < mx" "input \<noteq> []" "c \<in> set (split_by_sentence input mx)"
  shows "chunk_fits mx c"
proof -
  have "sentence_loop mx (sentences_of input []) [] \<noteq> []"
    using assms(2) sentence_loop_join [of mx "sentences_of input []" "[]"]
    by (auto simp: concat_sentences_of)
  with assms show ?thesis
    using sentence_loop_fits [of mx "[]" "sentences_of input []" c]
    by (simp add: split_by_sentence_def Let_def sentences_of_not_Nil)
qed

lemma split_by_sentence_not_Nil [simp]: "split_by_sentence input mx \<noteq> []"
  by (simp add: split_by_sentence_def Let_def)

lemma split_by_chars_not_Nil [simp]: "split_by_chars input mx \<noteq> []"
  by (simp add: split_by_chars_def Let_def)

section \<open>The delimiter loop\<close>

lemma relabel_last_Nil_iff [simp]: "relabel_last sep cs = [] \<longleftrightarrow> cs = []"
  by (induction sep cs rule: relabel_last.induct) auto

lemma relabel_last_texts: "map ctext (relabel_last sep cs) = map ctext cs"
  by (induction sep cs rule: relabel_last.induct) auto

lemma relabel_last_join:
  "cs \<noteq> [] \<Longrightarrow> (\<forall>c \<in> set cs. separator_after c = []) \<Longrightarrow>
   full_join (relabel_last sep cs) = full_join cs @ sep"
  by (induction sep cs rule: relabel_last.induct) auto

lemma relabel_last_rejoin: "rejoin (relabel_last sep cs) = rejoin cs"
proof (induction sep cs rule: relabel_last.induct)
  case (3 sep c d cs)
  then show ?case by (simp add: rejoin_Cons)
qed simp_all

lemma split_by_sentence_rejoin: "rejoin (split_by_sentence s mx) = s"
  using split_by_sentence_plain [of _ s mx]
  by (simp add: rejoin_plain split_by_sentence_join)

lemma split_by_chars_rejoin: "rejoin (split_by_chars s mx) = s"
  using split_by_chars_plain [of _ s mx] by (simp add: rejoin_plain split_by_chars_join)

lemma chunk_fits_relabel:
  assumes "\<forall>c \<in> set cs. chunk_fits mx c" "c \<in> set (relabel_last sep cs)"
  shows "chunk_fits mx c"
proof -
  have "ctext c \<in> set (map ctext cs)"
    using assms(2) by (metis imageI list.set_map relabel_last_texts)
  with assms(1) show ?thesis by (auto simp: chunk_fits_def)
qed

text \<open>The pending text followed by the parts still to come.\<close>

definition pending :: "utext \<Rightarrow> utext list \<Rightarrow> utext list" where
  "pending current parts = (if current = [] then parts else current # parts)"

lemma delimiter_loop_Nil_iff:
  assumes "[] \<notin> set parts"
  shows "delimiter_loop d mx parts current = [] \<longleftrightarrow> parts = [] \<and> current = []"
  using assms by (induction d mx parts current rule: delimiter_loop.induct) auto

lemma delimiter_loop_rejoin:
  assumes "[] \<notin> set parts"
  shows "rejoin (delimiter_loop d mx parts current) = join_with d (pending current parts)"
  using assms
proof (induction d mx parts current rule: delimiter_loop.induct)
  case (1 d mx current)
  then show ?case by (simp add: pending_def)
next
  case (2 d mx part parts current)
  then have part: "part \<noteq> []" "[] \<notin> set parts" by auto
  show ?case
  proof (cases "length current + (if current = [] then 0 else length d) + length part \<le> mx")
    case True
    with 2 part show ?thesis
      by (cases "parts = []") (auto simp: pending_def join_with_Cons)
  next
    case False
    let ?rest = "if mx < length part
         then relabel_last (if parts \<noteq> [] then d else []) (split_by_sentence part mx)
                @ delimiter_loop d mx parts []
         else delimiter_loop d mx parts part"
    have nonempty: "?rest \<noteq> []" using part by (simp add: delimiter_loop_Nil_iff)
    have "rejoin ?rest = join_with d (part # parts)"
    proof (cases "mx < length part")
      case True
      have plain: "\<forall>c \<in> set (split_by_sentence part mx). separator_after c = []"
        by (blast dest: split_by_sentence_plain)
      show ?thesis
      proof (cases "parts = []")
        case True
        with \<open>mx < length part\<close> show ?thesis
          by (simp add: relabel_last_rejoin split_by_sentence_rejoin)
      next
        case nonlast: False
        then have "delimiter_loop d mx parts [] \<noteq> []" using part by (simp add: delimiter_loop_Nil_iff)
        with True False nonlast 2 part plain show ?thesis
          by (simp add: rejoin_append relabel_last_join split_by_sentence_join join_with_Cons pending_def)
      qed
    next
      case small: False
      with False 2 part show ?thesis by (simp add: pending_def)
    qed
    with False nonempty show ?thesis
      by (auto simp: pending_def rejoin_Cons join_with_Cons)
  qed
qed

lemma delimiter_loop_fits:
  assumes "0 < mx" "length current \<le> mx" "c \<in> set (delimiter_loop d mx parts current)"
  shows "chunk_fits mx c"
  using assms
proof (induction d mx parts current rule: delimiter_loop.induct)
  case (1 d mx current)
  then show ?case by (auto simp: chunk_fits_def split: if_splits)
next
  case (2 d mx part parts current)
  show ?case
  proof (cases "length current + (if current = [] then 0 else length d) + length part \<le> mx")
    case True
    have "length ((if current \<noteq> [] then current @ d else current) @ part) \<le> mx"
      using True by (cases "current = []") simp_all
    with True 2 show ?thesis by (simp del: append_assoc)
  next
    case False
    have cur: "current \<noteq> [] \<Longrightarrow> chunk_fits mx \<lparr>ctext = current, separator_after = d\<rparr>"
      using "2.prems"(2) by (simp add: chunk_fits_def)
    have sub: "mx < length part \<Longrightarrow> x \<in> set (relabel_last sep (split_by_sentence part mx))
      \<Longrightarrow> chunk_fits mx x" for x sep
      using chunk_fits_relabel [of "split_by_sentence part mx" mx x sep]
        split_by_sentence_fits [of mx part] "2.prems"(1) by fastforce
    have "c \<in> set (if current \<noteq> [] then [\<lparr>ctext = current, separator_after = d\<rparr>] else [])
      \<or> mx < length part \<and> c \<in> set (relabel_last (if parts \<noteq> [] then d else []) (split_by_sentence part mx))
      \<or> mx < length part \<and> c \<in> set (delimiter_loop d mx parts [])
      \<or> \<not> mx < length part \<and> c \<in> set (delimiter_loop d mx parts part)"
      using False "2.prems"(3) by (auto split: if_splits)
    then show ?thesis
      using cur sub "2.IH"(2,3) False "2.prems"(1) by (auto split: if_splits)
  qed
qed

lemma delimiter_loop_text:
  "current \<noteq> [] \<or> (\<exists>p \<in> set parts. p \<noteq> []) \<Longrightarrow> delimiter_loop d mx parts current \<noteq> []"
  by (induction d mx parts current rule: delimiter_loop.induct) auto

lemma split_on_prefix: "d \<noteq> [] \<Longrightarrow> split_on d (d @ s) = [] # split_on d s"
proof -
  assume d: "d \<noteq> []"
  then have "find_sub d (d @ s) = Some 0" by (cases d) simp_all
  with d show ?thesis by (subst split_on.simps) simp
qed

text \<open>Nothing stands between two adjacent delimiters, or outside the outer ones.\<close>

definition no_blank_part :: "utext \<Rightarrow> utext \<Rightarrow> bool" where
  "no_blank_part d s \<longleftrightarrow> [] \<notin> set (split_on d s)"

definition some_part :: "utext \<Rightarrow> utext \<Rightarrow> bool" where
  "some_part d s \<longleftrightarrow> (\<exists>p \<in> set (split_on d s). p \<noteq> [])"

lemma split_by_delimiter_rejoin:
  "no_blank_part d s \<Longrightarrow> rejoin (split_by_delimiter s mx d) = s"
  by (simp add: no_blank_part_def split_by_delimiter_def Let_def delimiter_loop_rejoin pending_def
      join_split_on)

lemma split_by_delimiter_fits:
  "0 < mx \<Longrightarrow> some_part d s \<Longrightarrow> c \<in> set (split_by_delimiter s mx d) \<Longrightarrow> chunk_fits mx c"
  using delimiter_loop_text [of "[]" "split_on d s" d mx]
    delimiter_loop_fits [of mx "[]" c d "split_on d s"]
  by (simp add: some_part_def split_by_delimiter_def Let_def)

lemma split_by_delimiter_not_Nil [simp]: "split_by_delimiter s mx d \<noteq> []"
  by (simp add: split_by_delimiter_def Let_def)

lemma split_by_delimiter_prefix:
  "d \<noteq> [] \<Longrightarrow> some_part d s \<Longrightarrow> split_by_delimiter (d @ s) mx d = split_by_delimiter s mx d"
  using delimiter_loop_text [of "[]" "split_on d s" d mx]
  by (simp add: some_part_def split_by_delimiter_def Let_def split_on_prefix)

section \<open>The contract of a splitter\<close>

text \<open>
  What the translation loop needs of a splitter: a chunk at least, and texts that join to the input on the
  inputs that are \<open>ok\<close>. The clients are the plain-text and the rich-HTML translation.
\<close>

lemma translate_chunks_identity:
  "translate_chunks (\<lambda>i t. Inr t) n cs = Inr (map (\<lambda>c. (c, ctext c)) cs)"
  by (induction cs arbitrary: n) simp_all

lemma translate_chunks_ok:
  "translate_chunks provider n cs = Inr r \<longleftrightarrow>
     map fst r = cs \<and> (\<forall>i < length cs. provider (n + i) (ctext (cs ! i)) = Inr (snd (r ! i)))"
proof (induction cs arbitrary: n r)
  case Nil
  then show ?case by auto
next
  case (Cons c cs)
  have "translate_chunks provider n (c # cs) = Inr r \<longleftrightarrow>
    (\<exists>t r'. r = (c, t) # r' \<and> provider n (ctext c) = Inr t \<and> translate_chunks provider (Suc n) cs = Inr r')"
    by (auto split: sum.splits)
  then show ?case
    by (cases r) (auto simp: Cons.IH All_less_Suc2)
qed

lemma translate_chunks_error:
  "translate_chunks provider n cs = Inl e \<longleftrightarrow>
     (\<exists>k < length cs. provider (n + k) (ctext (cs ! k)) = Inl e
        \<and> (\<forall>i < k. \<exists>t. provider (n + i) (ctext (cs ! i)) = Inr t))"
proof (induction cs arbitrary: n)
  case Nil
  then show ?case by simp
next
  case (Cons c cs)
  show ?case
  proof (cases "provider n (ctext c)")
    case (Inl a)
    then show ?thesis by (auto simp: less_Suc_eq_0_disj)
  next
    case (Inr t)
    then have "translate_chunks provider n (c # cs) = Inl e \<longleftrightarrow> translate_chunks provider (Suc n) cs = Inl e"
      by (simp split: sum.split)
    with Inr show ?thesis by (simp add: Cons.IH Ex_less_Suc2 All_less_Suc2)
  qed
qed

text \<open>All the provider calls return; call \<open>k\<close> is the first that fails.\<close>

definition calls_return ::
  "(nat \<Rightarrow> utext \<Rightarrow> 'e + utext) \<Rightarrow> text_chunk list \<Rightarrow> (text_chunk \<times> utext) list \<Rightarrow> bool" where
  "calls_return provider cs r \<longleftrightarrow>
     map fst r = cs \<and> (\<forall>i < length cs. provider i (ctext (cs ! i)) = Inr (snd (r ! i)))"

definition first_failure ::
  "(nat \<Rightarrow> utext \<Rightarrow> 'e + utext) \<Rightarrow> text_chunk list \<Rightarrow> 'e \<Rightarrow> bool" where
  "first_failure provider cs e \<longleftrightarrow>
     (\<exists>k < length cs. provider k (ctext (cs ! k)) = Inl e
        \<and> (\<forall>i < k. \<exists>t. provider i (ctext (cs ! i)) = Inr t))"

lemma translate_chunks_results:
  "translate_chunks provider 0 cs = Inr r \<longleftrightarrow> calls_return provider cs r"
  "translate_chunks provider 0 cs = Inl e \<longleftrightarrow> first_failure provider cs e"
  using translate_chunks_ok [of provider 0 cs r] translate_chunks_error [of provider 0 cs e]
  by (simp_all add: calls_return_def first_failure_def)

locale lossless_splitter =
  fixes split :: "utext \<Rightarrow> text_chunk list" and ok :: "utext \<Rightarrow> bool"
  assumes split_not_Nil: "split s \<noteq> []"
    and split_rejoin: "ok s \<Longrightarrow> rejoin (split s) = s"
begin

lemma translate_identity:
  assumes "ok s" "validate s s = None"
  shows "translate_split (\<lambda>i t. Inr t) (\<lambda>t. Inr t) validate s (split s) = Inr s"
  using assms split_rejoin [of s]
  by (simp add: translate_split_def translate_chunks_identity rejoin_def)

lemma translate_single:
  "ok s \<Longrightarrow> length (split s) = 1 \<Longrightarrow> ctext (hd (split s)) = s"
  using split_rejoin [of s] by (cases "split s") auto

end

interpretation sentence_lossless: lossless_splitter "\<lambda>s. split_by_sentence s mx" "\<lambda>s. True" for mx
  by unfold_locales (simp_all add: split_by_sentence_rejoin)

interpretation chars_lossless: lossless_splitter "\<lambda>s. split_by_chars s mx" "\<lambda>s. True" for mx
  by unfold_locales (simp_all add: split_by_chars_rejoin)

interpretation delimiter_lossless:
  lossless_splitter "\<lambda>s. split_by_delimiter s mx d" "no_blank_part d" for mx d
  by unfold_locales (simp_all add: split_by_delimiter_rejoin)

text \<open>The delimiter of the paragraph strategy.\<close>

definition paragraph_delimiter :: "utext \<Rightarrow> utext" where
  "paragraph_delimiter sep = (if sep = [] then [10, 10] else sep)"

interpretation strategy_lossless: lossless_splitter
  "\<lambda>s. split_text_by_strategy s mx strategy sep"
  "\<lambda>s. strategy = ''paragraph'' \<longrightarrow> no_blank_part (paragraph_delimiter sep) s" for mx strategy sep
  by unfold_locales
    (auto simp: split_text_by_strategy_def paragraph_delimiter_def split_by_sentence_rejoin
      split_by_chars_rejoin split_by_delimiter_rejoin)

section \<open>Properties\<close>

lemma blank_parts_skipped: "list_all (\<lambda>p. p = []) parts \<Longrightarrow> delimiter_loop d mx parts [] = []"
  by (induction parts) auto

lemma split_by_delimiter_blank: "\<not> some_part d s \<Longrightarrow> split_by_delimiter s mx d = [plain_chunk s]"
  using blank_parts_skipped [of "split_on d s" d mx]
  by (auto simp: split_by_delimiter_def some_part_def list_all_iff)

text \<open>
  C40: When a text is cut, and that then no chunk exceeds the provider's limit. A text longer than a positive
  \<open>max_input_chars\<close> is cut by the sentence and the chars strategy, and by the paragraph strategy when it has a
  character outside the delimiters: into non-empty chunks of at most that many characters. In every other case (no
  limit, a text within it, another strategy, a text of delimiters only) it is sent whole, in the last two cases although it
  exceeds the limit.
\<close>

theorem text_chunks_bounded:
  "if 0 < mx \<and> mx < length input
      \<and> (strategy \<in> {''sentence'', ''chars''} \<or> strategy = ''paragraph'' \<and> some_part (paragraph_delimiter sep) input)
   then list_all (\<lambda>c. ctext c \<noteq> [] \<and> length (ctext c) \<le> mx) (split_text_by_strategy input mx strategy sep)
   else split_text_by_strategy input mx strategy sep = [plain_chunk input]"
proof (cases "0 < mx \<and> mx < length input
      \<and> (strategy \<in> {''sentence'', ''chars''} \<or> strategy = ''paragraph'' \<and> some_part (paragraph_delimiter sep) input)")
  case True
  then have "input \<noteq> []" by auto
  with True have "chunk_fits mx c" if "c \<in> set (split_text_by_strategy input mx strategy sep)" for c
    using that split_by_sentence_fits [of mx input c] split_by_chars_fits [of mx input c]
      split_by_delimiter_fits [of mx "paragraph_delimiter sep" input c]
    by (auto simp: split_text_by_strategy_def paragraph_delimiter_def)
  with True show ?thesis by (auto simp: chunk_fits_def list_all_iff)
next
  case False
  have "split_text_by_strategy input mx strategy sep = [plain_chunk input]"
  proof (cases "mx = 0 \<or> length input \<le> mx")
    case True
    then show ?thesis by (simp add: split_text_by_strategy_def)
  next
    case long: False
    with False have "strategy \<noteq> ''sentence''" "strategy \<noteq> ''chars''"
      "strategy = ''paragraph'' \<Longrightarrow> \<not> some_part (paragraph_delimiter sep) input" by auto
    then show ?thesis
      using split_by_delimiter_blank [of "paragraph_delimiter sep" input mx]
      by (simp add: split_text_by_strategy_def paragraph_delimiter_def)
  qed
  with False show ?thesis by (simp only: if_False)
qed

theorem text_chunks_bounded_witness:
  "list_all (\<lambda>c. ctext c \<noteq> [] \<and> length (ctext c) \<le> 6)
    (split_text_by_strategy (cps ''One. Two. Three'') 6 ''sentence'' [])
   \<and> split_text_by_strategy [10, 10, 10, 10] 3 ''paragraph'' [] = [plain_chunk [10, 10, 10, 10]]"
proof
  show "list_all (\<lambda>c. ctext c \<noteq> [] \<and> length (ctext c) \<le> 6)
      (split_text_by_strategy (cps ''One. Two. Three'') 6 ''sentence'' [])"
    using text_chunks_bounded [of 6 "cps ''One. Two. Three''" "''sentence''" "[]"] by (simp add: cps_def)
  have "split_on [10, 10] [10, 10, 10, 10] = [[], [], [] :: utext]" by (simp add: split_on.simps)
  then show "split_text_by_strategy [10, 10, 10, 10] 3 ''paragraph'' [] = [plain_chunk [10, 10, 10, 10]]"
    using text_chunks_bounded [of 3 "[10, 10, 10, 10]" "''paragraph''" "[]"]
    by (simp add: some_part_def paragraph_delimiter_def)
qed

text \<open>
  Chunking loses nothing. When the provider returns every chunk unchanged, the translation of the
  whole text is the text itself, for every limit and every strategy; the paragraph strategy needs
  that no two delimiters touch and that none stands at an end.
\<close>

theorem chunked_translation_lossless:
  assumes "strategy = ''paragraph'' \<longrightarrow> no_blank_part (paragraph_delimiter sep) input"
    and "validate input input = None"
  shows "translate_text_with_constraints (\<lambda>i t. Inr t) (\<lambda>t. Inr t) validate input mx strategy sep = Inr input"
  using strategy_lossless.translate_identity assms
  by (simp add: translate_text_with_constraints_def)

theorem chunked_translation_lossless_witness:
  "translate_text_with_constraints (\<lambda>i t. Inr t) (\<lambda>t. Inr t) (\<lambda>a b. None :: string option)
     (cps ''ab--cd--efghij'') 4 ''paragraph'' (cps ''--'') = Inr (cps ''ab--cd--efghij'')"
  using chunked_translation_lossless [of "''paragraph''" "cps ''--''" "cps ''ab--cd--efghij''"
    "\<lambda>a b. None :: string option" 4]
  by (simp add: no_blank_part_def paragraph_delimiter_def cps_def split_on.simps)

text \<open>
  The outcome of a chunked translation. With two chunks or more the result is the join of the
  translations, chunk \<open>i\<close> translated by provider call \<open>i\<close>, and the joined text passed the token check. An
  error is that of the first failing call (the calls before it succeeded, none after it is made),
  or that of the token check after all calls succeeded.
\<close>

theorem chunked_translation_outcome:
  assumes "chunks = split_text_by_strategy input mx strategy sep" "1 < length chunks"
  shows "(translate_text_with_constraints provider whole validate input mx strategy sep = Inr out \<longleftrightarrow>
      (\<exists>r. calls_return provider chunks r \<and> out = merge_translated_chunks r \<and> validate input out = None))
    \<and> (translate_text_with_constraints provider whole validate input mx strategy sep = Inl e \<longleftrightarrow>
      first_failure provider chunks e
      \<or> (\<exists>r. calls_return provider chunks r \<and> validate input (merge_translated_chunks r) = Some e))"
proof -
  have "translate_text_with_constraints provider whole validate input mx strategy sep =
    (case translate_chunks provider 0 chunks of Inl e \<Rightarrow> Inl e | Inr r \<Rightarrow>
      (case validate input (merge_translated_chunks r) of Some e \<Rightarrow> Inl e
       | None \<Rightarrow> Inr (merge_translated_chunks r)))"
    using assms
    by (simp add: translate_text_with_constraints_def translate_split_def Let_def split: sum.split)
  then show ?thesis
    by (auto simp: translate_chunks_results [symmetric] split: sum.splits option.splits)
qed

theorem chunked_translation_outcome_witness:
  "translate_text_with_constraints (\<lambda>i t. if i = 1 then Inl ''quota'' else Inr t) Inr (\<lambda>a b. None)
     (cps ''One. Two. Three.'') 6 ''sentence'' [] = Inl ''quota''"
proof -
  have "length (split_text_by_strategy (cps ''One. Two. Three.'') 6 ''sentence'' []) = 4"
    by (simp add: split_text_by_strategy_def split_by_sentence_def is_sentence_end_def cps_def
        split_by_chars_def chars_loop.simps char_split_at_def is_ws_cp_def upt_rec)
  then show ?thesis
    using chunked_translation_outcome [OF refl, of "cps ''One. Two. Three.''" 6 "''sentence''" "[]"
      "\<lambda>i t. if i = 1 then Inl ''quota'' else Inr t" Inr "\<lambda>a b. None" undefined "''quota''"]
    by (simp add: first_failure_def)
qed

text \<open>
  The paragraph strategy drops what the input has before its first paragraph. A text that
  starts with the delimiter is cut into the same chunks as the text without it, so with two chunks
  or more the translation by an identity provider has lost the delimiter.
\<close>

theorem paragraph_drops_leading_delimiter:
  assumes "some_part (paragraph_delimiter sep) s" "no_blank_part (paragraph_delimiter sep) s"
    and "0 < mx" "mx < length s"
    and "1 < length (split_text_by_strategy s mx ''paragraph'' sep)"
    and "\<forall>a b. validate a b = None"
  shows "translate_text_with_constraints (\<lambda>i t. Inr t) (\<lambda>t. Inr t) validate
    (paragraph_delimiter sep @ s) mx ''paragraph'' sep = Inr s"
proof -
  have "paragraph_delimiter sep \<noteq> []" by (simp add: paragraph_delimiter_def)
  then have same: "split_text_by_strategy (paragraph_delimiter sep @ s) mx ''paragraph'' sep
    = split_text_by_strategy s mx ''paragraph'' sep"
    using split_by_delimiter_prefix assms(1,3,4)
    by (simp add: split_text_by_strategy_def paragraph_delimiter_def)
  with assms(2,5,6) strategy_lossless.split_rejoin [of "''paragraph''" sep s mx] show ?thesis
    by (simp add: translate_text_with_constraints_def translate_split_def
        translate_chunks_identity rejoin_def)
qed

theorem paragraph_drops_leading_delimiter_witness:
  "translate_text_with_constraints (\<lambda>i t. Inr t) (\<lambda>t. Inr t) (\<lambda>a b. None :: string option)
    ([10, 10] @ cps ''abc'' @ [10, 10] @ cps ''def'') 4 ''paragraph'' []
   = Inr (cps ''abc'' @ [10, 10] @ cps ''def'')"
  using paragraph_drops_leading_delimiter [of "[]" "cps ''abc'' @ [10, 10] @ cps ''def''" 4
    "\<lambda>a b. None :: string option"]
  by (simp add: no_blank_part_def some_part_def paragraph_delimiter_def cps_def split_on.simps
      split_text_by_strategy_def split_by_delimiter_def)

end
