(* ===== verification/HtmlChunks.thy ===== *)
theory HtmlChunks
  imports TextChunks
begin

text \<open>
  The rich-HTML chunker of \<open>component_rt/runner/chunking.rs\<close>: two scanners that cut a document
  into top-level blocks (Gutenberg block comments, classic block-level tags), the batching of blocks up to
  the provider's limit, and the recursive split of an oversized block.

  Positions are code-point positions; the source uses byte positions of the same places. The recursion
  of the oversized-block split carries fuel, \<open>None\<close> when it runs out.
\<close>

section \<open>The state of a scan\<close>

record scan_state =
  chunks :: "text_chunk list"
  depth :: nat
  block_start :: "nat option"
  last_end :: nat
  current_block_tag :: "utext option"

definition scan_init :: scan_state where
  "scan_init = \<lparr>chunks = [], depth = 0, block_start = None, last_end = 0, current_block_tag = None\<rparr>"

definition slice :: "'a list \<Rightarrow> nat \<Rightarrow> nat \<Rightarrow> 'a list" where
  "slice xs i j = take (j - i) (drop i xs)"

definition blank :: "utext \<Rightarrow> bool" where
  "blank s \<longleftrightarrow> trim_by is_ws_cp s = []"

text \<open>\<open>chunks.last_mut()\<close>: the text goes to the last chunk, nowhere when there is none.\<close>

fun append_last :: "text_chunk list \<Rightarrow> utext \<Rightarrow> text_chunk list" where
  "append_last [] t = []"
| "append_last [c] t = [c\<lparr>ctext := ctext c @ t\<rparr>]"
| "append_last (c # d # cs) t = c # append_last (d # cs) t"

definition add_outside :: "text_chunk list \<Rightarrow> utext \<Rightarrow> text_chunk list" where
  "add_outside cs t = (if blank t then append_last cs t else cs @ [plain_chunk t])"

definition flush_between :: "utext \<Rightarrow> nat \<Rightarrow> scan_state \<Rightarrow> text_chunk list" where
  "flush_between html i st =
     (if last_end st < i then add_outside (chunks st) (slice html (last_end st) i) else chunks st)"

section \<open>Block events\<close>

text \<open>A self-contained block at \<open>i ..< ed\<close>.\<close>

definition on_single :: "utext \<Rightarrow> nat \<Rightarrow> nat \<Rightarrow> scan_state \<Rightarrow> scan_state" where
  "on_single html i ed st =
     (if depth st = 0 then
        let cs = flush_between html i st in
        st\<lparr>chunks := cs @ [plain_chunk (slice html (if cs = [] then last_end st else i) ed)],
           last_end := ed\<rparr>
      else st)"

definition on_open :: "utext \<Rightarrow> nat \<Rightarrow> utext option \<Rightarrow> scan_state \<Rightarrow> scan_state" where
  "on_open html i tag st =
     (let st' = (if depth st = 0 then
          let cs = flush_between html i st in
          st\<lparr>chunks := cs, block_start := Some (if cs = [] then last_end st else i),
             current_block_tag := tag\<rparr>
        else st) in
      st'\<lparr>depth := Suc (depth st')\<rparr>)"

definition on_close :: "utext \<Rightarrow> nat \<Rightarrow> scan_state \<Rightarrow> scan_state" where
  "on_close html ed st =
     (if 0 < depth st then
        (if depth st = 1 then
           (case block_start st of
              Some start \<Rightarrow> st\<lparr>chunks := chunks st @ [plain_chunk (slice html start ed)],
                               last_end := ed\<rparr>
            | None \<Rightarrow> st)\<lparr>depth := 0, block_start := None, current_block_tag := None\<rparr>
         else st\<lparr>depth := depth st - 1\<rparr>)
      else st)"

definition finish_scan :: "utext \<Rightarrow> scan_state \<Rightarrow> text_chunk list" where
  "finish_scan html st =
     (if last_end st < length html
      then add_outside (chunks st) (drop (last_end st) html) else chunks st)"

section \<open>Gutenberg block comments\<close>

definition is_gutenberg_content :: "utext \<Rightarrow> bool" where
  "is_gutenberg_content html \<longleftrightarrow> str_contains html (cps ''<!-- wp:'')"

definition ends_with_slash :: "utext \<Rightarrow> bool" where
  "ends_with_slash s \<longleftrightarrow> s \<noteq> [] \<and> last s = 47"

definition gutenberg_event :: "utext \<Rightarrow> nat \<Rightarrow> nat \<Rightarrow> utext \<Rightarrow> scan_state \<Rightarrow> scan_state" where
  "gutenberg_event html i comment_end comment_body st =
     (case strip_pfx (cps ''wp:'') comment_body of
        Some rest \<Rightarrow> if ends_with_slash rest then on_single html i comment_end st
                     else on_open html i None st
      | None \<Rightarrow>
        (case strip_pfx (cps ''/wp:'') comment_body of
           Some rest \<Rightarrow> on_close html comment_end st
         | None \<Rightarrow> st))"

function gutenberg_scan :: "utext \<Rightarrow> nat \<Rightarrow> scan_state \<Rightarrow> scan_state" where
  "gutenberg_scan html i st =
     (if i < length html then
        if i + 4 \<le> length html \<and> slice html i (i + 4) = cps ''<!--'' then
          (case find_sub (cps ''-->'') (drop (i + 4) html) of
             Some rel_end \<Rightarrow>
               let comment_end = i + 4 + rel_end + 3;
                   comment_body = trim_by is_ws_cp (slice html (i + 4) (i + 4 + rel_end)) in
               gutenberg_scan html comment_end (gutenberg_event html i comment_end comment_body st)
           | None \<Rightarrow> gutenberg_scan html (i + 1) st)
        else gutenberg_scan html (i + 1) st
      else st)"
  by pat_completeness auto
termination by (relation "measure (\<lambda>(html, i, st). length html - i)") auto

declare gutenberg_scan.simps [simp del]

definition split_gutenberg_top_level_blocks :: "utext \<Rightarrow> text_chunk list" where
  "split_gutenberg_top_level_blocks html = finish_scan html (gutenberg_scan html 0 scan_init)"

section \<open>Classic block-level tags\<close>

definition BLOCK_LEVEL_TAGS :: "utext list" where
  "BLOCK_LEVEL_TAGS = map cps
     [''p'', ''div'', ''h1'', ''h2'', ''h3'', ''h4'', ''h5'', ''h6'', ''figure'', ''figcaption'',
      ''table'', ''thead'', ''tbody'', ''tfoot'', ''tr'', ''ul'', ''ol'', ''li'', ''blockquote'',
      ''pre'', ''section'', ''article'', ''header'', ''footer'', ''nav'', ''aside'', ''main'',
      ''details'', ''summary'', ''hr'', ''br'', ''dl'', ''dt'', ''dd'']"

text \<open>
  \<open>to_lowercase\<close> as far as the comparison with ASCII tags can tell: besides A to Z, U+212A is the only
  code point whose lower case is an ASCII letter alone.
\<close>

definition lower_cp :: "nat \<Rightarrow> nat" where
  "lower_cp c = (if 65 \<le> c \<and> c \<le> 90 then c + 32 else if c = 8490 then 107 else c)"

record html_tag_info =
  tag_name :: utext
  is_closing :: bool
  is_self_closing :: bool
  tag_end :: nat

definition is_ascii_alpha :: "nat \<Rightarrow> bool" where
  "is_ascii_alpha c \<longleftrightarrow> 65 \<le> c \<and> c \<le> 90 \<or> 97 \<le> c \<and> c \<le> 122"

definition parse_html_tag_at :: "utext \<Rightarrow> nat \<Rightarrow> html_tag_info option" where
  "parse_html_tag_at html pos =
     (let rest = drop pos html in
      case find_sub [62] rest of
        None \<Rightarrow> None
      | Some gt \<Rightarrow>
          let tag_content = slice rest 1 gt in
          if tag_content = [] then None
          else
            let closing = (hd tag_content = 47);
                name_part = (if closing then drop 1 tag_content else tag_content);
                name = takeWhile (\<lambda>c. \<not> (is_ws_cp c \<or> c = 47 \<or> c = 62)) name_part in
            if name = [] \<or> \<not> is_ascii_alpha (hd name) then None
            else Some \<lparr>tag_name = name, is_closing = closing,
                       is_self_closing = ends_with_slash tag_content, tag_end = pos + gt + 1\<rparr>)"

lemma parse_html_tag_at_end:
  assumes "parse_html_tag_at html pos = Some info" "pos < length html"
  shows "pos < tag_end info" and "tag_end info \<le> length html"
proof -
  from assms(1) obtain gt where gt: "find_sub [62] (drop pos html) = Some gt" "tag_end info = pos + gt + 1"
    by (auto simp: parse_html_tag_at_def Let_def split: option.splits if_splits)
  with assms(2) find_sub_Some_split [OF gt(1)]
  show "pos < tag_end info" "tag_end info \<le> length html" by auto
qed

definition classic_event :: "utext \<Rightarrow> nat \<Rightarrow> html_tag_info \<Rightarrow> scan_state \<Rightarrow> scan_state" where
  "classic_event html i info st =
     (let tag_lower = map lower_cp (tag_name info) in
      if tag_lower \<in> set BLOCK_LEVEL_TAGS then
        if is_self_closing info \<or> tag_lower = cps ''hr'' \<or> tag_lower = cps ''br''
        then on_single html i (tag_end info) st
        else if is_closing info
        then (if 0 < depth st \<and> current_block_tag st = Some tag_lower
              then on_close html (tag_end info) st else st)
        else on_open html i (Some tag_lower) st
      else st)"

function classic_scan :: "utext \<Rightarrow> nat \<Rightarrow> scan_state \<Rightarrow> scan_state" where
  "classic_scan html i st =
     (if i < length html then
        if html ! i = 60 then
          (case parse_html_tag_at html i of
             Some info \<Rightarrow> classic_scan html (tag_end info) (classic_event html i info st)
           | None \<Rightarrow> classic_scan html (i + 1) st)
        else classic_scan html (i + 1) st
      else st)"
  by pat_completeness auto
termination
  by (relation "measure (\<lambda>(html, i, st). length html - i)") (auto dest: parse_html_tag_at_end)

declare classic_scan.simps [simp del]

definition split_classic_html_blocks :: "utext \<Rightarrow> text_chunk list" where
  "split_classic_html_blocks html =
     (let cs = finish_scan html (classic_scan html 0 scan_init) in
      if cs = [] then [plain_chunk html] else cs)"

section \<open>Batching\<close>

text \<open>\<open>sub\<close> is the split of an oversized block; \<open>None\<close> is its lack of fuel.\<close>

fun batch_loop ::
  "(utext \<Rightarrow> text_chunk list option) \<Rightarrow> nat \<Rightarrow> text_chunk list \<Rightarrow> utext \<Rightarrow> text_chunk list option" where
  "batch_loop sub mx [] current = Some (if current \<noteq> [] then [plain_chunk current] else [])"
| "batch_loop sub mx (c # cs) current =
     (let place =
        (if mx < length (ctext c)
         then (case sub (ctext c) of
                 None \<Rightarrow> None
               | Some s \<Rightarrow> map_option (\<lambda>r. s @ r) (batch_loop sub mx cs []))
         else batch_loop sub mx cs (ctext c)) in
      if current = [] then place
      else if length current + length (ctext c) \<le> mx then batch_loop sub mx cs (current @ ctext c)
      else map_option (\<lambda>r. plain_chunk current # r) place)"

definition batch_html_chunks ::
  "(utext \<Rightarrow> text_chunk list option) \<Rightarrow> nat \<Rightarrow> text_chunk list \<Rightarrow> text_chunk list option" where
  "batch_html_chunks sub mx raw =
     map_option (\<lambda>r. if r = [] then [plain_chunk []] else r) (batch_loop sub mx raw [])"

primrec sub_split_oversized_html_block :: "nat \<Rightarrow> nat \<Rightarrow> utext \<Rightarrow> text_chunk list option" where
  "sub_split_oversized_html_block 0 mx html = None"
| "sub_split_oversized_html_block (Suc fuel) mx html =
     (let inner = split_classic_html_blocks html in
      if 1 < length inner
      then batch_html_chunks (sub_split_oversized_html_block fuel mx) mx inner
      else Some [plain_chunk html])"

definition raw_blocks :: "utext \<Rightarrow> text_chunk list" where
  "raw_blocks html =
     (if is_gutenberg_content html then split_gutenberg_top_level_blocks html
      else split_classic_html_blocks html)"

definition split_rich_html_by_blocks :: "nat \<Rightarrow> utext \<Rightarrow> nat \<Rightarrow> text_chunk list option" where
  "split_rich_html_by_blocks fuel html mx =
     (if html = [] then Some [plain_chunk []]
      else if raw_blocks html = [] then Some [plain_chunk html]
      else if mx = 0 then Some (raw_blocks html)
      else batch_html_chunks (sub_split_oversized_html_block fuel mx) mx (raw_blocks html))"

text \<open>
  \<open>translate_rich_html_blocks_with_env\<close>: \<open>vsource\<close> and \<open>vtranslation\<close> are the two checks of
  \<open>content_safety.rs\<close>; \<open>None\<close> when the split runs out of fuel.
\<close>

definition translate_rich_html_blocks ::
  "nat \<Rightarrow> (nat \<Rightarrow> utext \<Rightarrow> 'e + utext) \<Rightarrow> (utext \<Rightarrow> 'e + utext) \<Rightarrow> (utext \<Rightarrow> 'e option)
     \<Rightarrow> (utext \<Rightarrow> utext \<Rightarrow> 'e option) \<Rightarrow> utext \<Rightarrow> nat \<Rightarrow> ('e + utext) option" where
  "translate_rich_html_blocks fuel provider whole vsource vtranslation html mx =
     (case vsource html of
        Some e \<Rightarrow> Some (Inl e)
      | None \<Rightarrow> map_option
          (\<lambda>cs. translate_split provider
             (\<lambda>t. case whole t of Inl e \<Rightarrow> Inl e
                  | Inr r \<Rightarrow> (case vtranslation t r of Some e \<Rightarrow> Inl e | None \<Rightarrow> Inr r))
             vtranslation html cs)
          (split_rich_html_by_blocks fuel html mx))"

section \<open>What a scan keeps\<close>

definition texts_of :: "text_chunk list \<Rightarrow> utext" where
  "texts_of cs = concat (map ctext cs)"

lemma texts_of_simps [simp]:
  "texts_of [] = []" "texts_of (c # cs) = ctext c @ texts_of cs"
  "texts_of (cs @ ds) = texts_of cs @ texts_of ds"
  by (simp_all add: texts_of_def)

definition solid :: "text_chunk list \<Rightarrow> bool" where
  "solid cs \<longleftrightarrow> (\<forall>c \<in> set cs. ctext c \<noteq> [] \<and> separator_after c = [])"

lemma solid_simps [simp]:
  "solid []" "solid (c # cs) \<longleftrightarrow> ctext c \<noteq> [] \<and> separator_after c = [] \<and> solid cs"
  "solid (cs @ ds) \<longleftrightarrow> solid cs \<and> solid ds"
  by (auto simp: solid_def)

lemma solid_texts_Nil: "solid cs \<Longrightarrow> texts_of cs = [] \<longleftrightarrow> cs = []"
  by (cases cs) auto

lemma solid_rejoin: "solid cs \<Longrightarrow> rejoin cs = texts_of cs"
proof -
  assume s: "solid cs"
  then have "rejoin cs = full_join cs" by (simp add: solid_def rejoin_plain)
  also from s have "\<dots> = texts_of cs" by (induction cs) auto
  finally show ?thesis .
qed

lemma append_last_Nil_iff [simp]: "append_last cs t = [] \<longleftrightarrow> cs = []"
  by (induction cs t rule: append_last.induct) auto

lemma append_last_texts [simp]: "cs \<noteq> [] \<Longrightarrow> texts_of (append_last cs t) = texts_of cs @ t"
  by (induction cs t rule: append_last.induct) auto

lemma append_last_solid [simp]: "solid cs \<Longrightarrow> solid (append_last cs t)"
  by (induction cs t rule: append_last.induct) auto

lemma add_outside_facts:
  "t \<noteq> [] \<Longrightarrow> solid cs \<Longrightarrow> solid (add_outside cs t)"
  "add_outside cs t \<noteq> [] \<Longrightarrow> texts_of (add_outside cs t) = texts_of cs @ t"
  "add_outside cs t = [] \<Longrightarrow> cs = []"
  by (auto simp: add_outside_def split: if_splits)

lemma take_slice: "i \<le> j \<Longrightarrow> take i xs @ slice xs i j = take j xs"
  by (metis le_add_diff_inverse slice_def take_add)

lemma slice_Nil_iff: "j \<le> length xs \<Longrightarrow> slice xs i j = [] \<longleftrightarrow> j \<le> i"
  by (auto simp: slice_def)

definition scan_inv :: "utext \<Rightarrow> nat \<Rightarrow> scan_state \<Rightarrow> bool" where
  "scan_inv html i st \<longleftrightarrow> last_end st \<le> i \<and> i \<le> length html \<and> solid (chunks st)
     \<and> (case block_start st of
          None \<Rightarrow> depth st = 0 \<and> texts_of (chunks st) = take (last_end st) html
        | Some b \<Rightarrow> 0 < depth st \<and> last_end st \<le> b \<and> b < length html \<and> b \<le> i
            \<and> texts_of (chunks st) = take b html \<and> (chunks st = [] \<longrightarrow> last_end st = 0))"

lemma scan_inv_depth: "scan_inv html i st \<Longrightarrow> depth st = 0 \<longleftrightarrow> block_start st = None"
  by (auto simp: scan_inv_def split: option.splits)

lemma scan_inv_init: "scan_inv html 0 scan_init"
  by (simp add: scan_inv_def scan_init_def)

lemma scan_inv_mono: "scan_inv html i st \<Longrightarrow> i \<le> j \<Longrightarrow> j \<le> length html \<Longrightarrow> scan_inv html j st"
  by (auto simp: scan_inv_def split: option.splits)

lemma flush_between_facts:
  assumes "scan_inv html i st" "depth st = 0" "i < length html"
  shows "solid (flush_between html i st)"
    and "flush_between html i st \<noteq> [] \<Longrightarrow> texts_of (flush_between html i st) = take i html"
    and "flush_between html i st = [] \<Longrightarrow> last_end st = 0"
proof -
  have st: "solid (chunks st)" "texts_of (chunks st) = take (last_end st) html" "last_end st \<le> i"
    using assms(1) scan_inv_depth [OF assms(1)] assms(2) by (auto simp: scan_inv_def)
  have sl: "last_end st < i \<Longrightarrow> slice html (last_end st) i \<noteq> []"
    using assms(3) by (simp add: slice_Nil_iff)
  show "solid (flush_between html i st)"
    using st sl by (simp add: flush_between_def add_outside_facts)
  show "flush_between html i st \<noteq> [] \<Longrightarrow> texts_of (flush_between html i st) = take i html"
    using st add_outside_facts(2) [of "chunks st" "slice html (last_end st) i"]
    by (cases "last_end st < i") (simp_all add: flush_between_def take_slice)
  assume "flush_between html i st = []"
  then have "chunks st = []" using add_outside_facts(3) by (auto simp: flush_between_def split: if_splits)
  with st(2) assms(3) show "last_end st = 0" by auto
qed

lemma on_single_inv:
  assumes "scan_inv html i st" "i < ed" "ed \<le> length html"
  shows "scan_inv html ed (on_single html i ed st)"
proof (cases "depth st = 0")
  case True
  then have none: "block_start st = None" using scan_inv_depth [OF assms(1)] by simp
  have i: "i < length html" and nonempty: "html \<noteq> []" using assms by auto
  note f = flush_between_facts [OF assms(1) True i]
  show ?thesis
    using f none True assms nonempty take_slice [of i ed html] take_slice [of 0 ed html]
    by (cases "flush_between html i st = []")
      (simp_all add: on_single_def Let_def scan_inv_def slice_Nil_iff)
next
  case False
  with assms show ?thesis by (simp add: on_single_def scan_inv_mono)
qed

lemma on_open_inv:
  assumes "scan_inv html i st" "i < ed" "ed \<le> length html"
  shows "scan_inv html ed (on_open html i tag st)"
proof (cases "depth st = 0")
  case True
  have i: "i < length html" and nonempty: "html \<noteq> []" using assms by auto
  note f = flush_between_facts [OF assms(1) True i]
  have "last_end st \<le> i" using assms(1) by (simp add: scan_inv_def)
  then show ?thesis
    using f True assms i nonempty
    by (cases "flush_between html i st = []") (simp_all add: on_open_def Let_def scan_inv_def)
next
  case False
  with assms show ?thesis by (auto simp: on_open_def scan_inv_def split: option.splits)
qed

lemma on_close_inv:
  assumes "scan_inv html i st" "i < ed" "ed \<le> length html"
  shows "scan_inv html ed (on_close html ed st)"
proof (cases "depth st = 1")
  case True
  then obtain b where b: "block_start st = Some b" using scan_inv_depth [OF assms(1)] by auto
  with assms have "b < ed" "texts_of (chunks st) = take b html" by (auto simp: scan_inv_def)
  with assms b True show ?thesis
    using take_slice [of b ed html] by (simp add: on_close_def scan_inv_def slice_Nil_iff)
next
  case False
  with assms show ?thesis by (auto simp: on_close_def scan_inv_def split: option.splits)
qed

lemma gutenberg_event_inv:
  assumes "scan_inv html i st" "i < ed" "ed \<le> length html"
  shows "scan_inv html ed (gutenberg_event html i ed body st)"
  using scan_inv_mono [OF assms(1), of ed] on_single_inv [OF assms] on_open_inv [OF assms]
    on_close_inv [OF assms] assms
  by (simp add: gutenberg_event_def split: option.split)

lemma classic_event_inv:
  assumes "scan_inv html i st" "i < tag_end info" "tag_end info \<le> length html"
  shows "scan_inv html (tag_end info) (classic_event html i info st)"
  using scan_inv_mono [OF assms(1), of "tag_end info"] on_single_inv [OF assms] on_open_inv [OF assms]
    on_close_inv [OF assms] assms
  by (simp add: classic_event_def Let_def)

lemma classic_scan_inv:
  "scan_inv html i st \<Longrightarrow> scan_inv html (length html) (classic_scan html i st)"
proof (induction html i st rule: classic_scan.induct)
  case (1 html i st)
  show ?case
  proof (cases "i < length html")
    case True
    have skip: "scan_inv html (i + 1) st" using scan_inv_mono [OF "1.prems", of "i + 1"] True by simp
    show ?thesis
    proof (cases "html ! i = 60")
      case tag: True
      show ?thesis
      proof (cases "parse_html_tag_at html i")
        case None
        with 1 True tag skip show ?thesis by (subst classic_scan.simps) simp
      next
        case (Some info)
        then have "scan_inv html (tag_end info) (classic_event html i info st)"
          using "1.prems" True by (simp add: classic_event_inv parse_html_tag_at_end)
        with 1 True tag Some show ?thesis by (subst classic_scan.simps) simp
      qed
    next
      case False
      with 1 True skip show ?thesis by (subst classic_scan.simps) simp
    qed
  next
    case False
    with "1.prems" show ?thesis
      by (subst classic_scan.simps) (auto simp: scan_inv_def split: option.splits)
  qed
qed

lemma gutenberg_scan_inv:
  "scan_inv html i st \<Longrightarrow> scan_inv html (length html) (gutenberg_scan html i st)"
proof (induction html i st rule: gutenberg_scan.induct)
  case (1 html i st)
  show ?case
  proof (cases "i < length html")
    case True
    have skip: "scan_inv html (i + 1) st" using scan_inv_mono [OF "1.prems", of "i + 1"] True by simp
    show ?thesis
    proof (cases "i + 4 \<le> length html \<and> slice html i (i + 4) = cps ''<!--''")
      case mark: True
      show ?thesis
      proof (cases "find_sub (cps ''-->'') (drop (i + 4) html)")
        case None
        with "1.IH" True mark skip show ?thesis by (subst gutenberg_scan.simps) simp
      next
        case (Some rel)
        have "length (cps ''-->'') = 3" by (simp add: cps_def)
        with find_sub_Some_split [OF Some] conjunct1 [OF mark] have "i + 4 + rel + 3 \<le> length html"
          by simp linarith
        then have "scan_inv html (i + 4 + rel + 3) (gutenberg_event html i (i + 4 + rel + 3) body st)" for body
          by (intro gutenberg_event_inv [OF "1.prems"]) simp_all
        then have "scan_inv html (length html) (gutenberg_scan html (i + 4 + rel + 3)
          (gutenberg_event html i (i + 4 + rel + 3)
            (trim_by is_ws_cp (slice html (i + 4) (i + 4 + rel))) st))"
          using "1.IH"(2) [OF True mark Some refl refl] by blast
        with True mark Some show ?thesis
          by (subst gutenberg_scan.simps) (simp add: Let_def)
      qed
    next
      case False
      with "1.IH"(3) True skip show ?thesis by (subst gutenberg_scan.simps) auto
    qed
  next
    case False
    with "1.prems" show ?thesis
      by (subst gutenberg_scan.simps) (auto simp: scan_inv_def split: option.splits)
  qed
qed

text \<open>Every block that was opened was closed, or the open block starts where the output ends.\<close>

definition closed_scan :: "scan_state \<Rightarrow> bool" where
  "closed_scan st \<longleftrightarrow> (case block_start st of None \<Rightarrow> True | Some b \<Rightarrow> b = last_end st)"

lemma finish_scan_texts:
  assumes "scan_inv html (length html) st" "finish_scan html st \<noteq> []"
  shows "texts_of (finish_scan html st) =
    (case block_start st of None \<Rightarrow> html | Some b \<Rightarrow> take b html @ drop (last_end st) html)"
  using assms add_outside_facts(2) [of "chunks st" "drop (last_end st) html"]
  by (cases "last_end st < length html")
    (auto simp: finish_scan_def scan_inv_def split: option.splits)

lemma finish_scan_solid:
  "scan_inv html (length html) st \<Longrightarrow> solid (finish_scan html st)"
  by (auto simp: finish_scan_def scan_inv_def add_outside_facts)

lemma finish_scan_exact:
  assumes "scan_inv html (length html) st" "finish_scan html st \<noteq> []"
  shows "texts_of (finish_scan html st) = html \<longleftrightarrow> closed_scan st"
proof (cases "block_start st")
  case None
  with assms show ?thesis by (simp add: finish_scan_texts closed_scan_def)
next
  case (Some b)
  with assms(1) have b: "last_end st \<le> b" "b < length html" by (auto simp: scan_inv_def)
  have "take b html @ drop (last_end st) html = html \<longleftrightarrow> b = last_end st"
    using b by (auto dest: arg_cong [where f = length])
  with Some assms show ?thesis by (simp add: finish_scan_texts closed_scan_def)
qed

definition classic_closed :: "utext \<Rightarrow> bool" where
  "classic_closed html = closed_scan (classic_scan html 0 scan_init)"

definition rich_closed :: "utext \<Rightarrow> bool" where
  "rich_closed html =
     (if is_gutenberg_content html then closed_scan (gutenberg_scan html 0 scan_init)
      else classic_closed html)"

lemmas classic_final = classic_scan_inv [OF scan_inv_init]
lemmas gutenberg_final = gutenberg_scan_inv [OF scan_inv_init]

lemma finish_scan_Nil: "finish_scan html st = [] \<Longrightarrow> chunks st = []"
  by (auto simp: finish_scan_def dest: add_outside_facts(3) split: if_splits)

lemma finish_Nil_closed:
  assumes "scan_inv html (length html) st" "finish_scan html st = []"
  shows "closed_scan st"
proof (cases "block_start st")
  case (Some b)
  with assms finish_scan_Nil [OF assms(2)] have "take b html = []" "b < length html" "last_end st = 0"
    by (auto simp: scan_inv_def)
  with Some show ?thesis by (auto simp: closed_scan_def)
qed (simp add: closed_scan_def)

lemma split_classic_texts:
  "texts_of (split_classic_html_blocks html) = html \<longleftrightarrow> classic_closed html"
  using finish_scan_exact [OF classic_final, of html] finish_Nil_closed [OF classic_final, of html]
  by (auto simp: split_classic_html_blocks_def Let_def classic_closed_def)

lemma split_classic_solid: "html \<noteq> [] \<Longrightarrow> solid (split_classic_html_blocks html)"
  using finish_scan_solid [OF classic_final, of html]
  by (simp add: split_classic_html_blocks_def Let_def)

lemma split_classic_not_Nil [simp]: "split_classic_html_blocks html \<noteq> []"
  by (simp add: split_classic_html_blocks_def Let_def)

lemma raw_blocks_texts:
  "raw_blocks html \<noteq> [] \<Longrightarrow> texts_of (raw_blocks html) = html \<longleftrightarrow> rich_closed html"
  using finish_scan_exact [OF gutenberg_final, of html] split_classic_texts [of html]
  by (auto simp: raw_blocks_def rich_closed_def split_gutenberg_top_level_blocks_def)

lemma raw_blocks_solid: "html \<noteq> [] \<Longrightarrow> solid (raw_blocks html)"
  using finish_scan_solid [OF gutenberg_final, of html] split_classic_solid [of html]
  by (simp add: raw_blocks_def split_gutenberg_top_level_blocks_def)

section \<open>Batching keeps the text\<close>

text \<open>A delivered chunk is within the limit, or a block that the classic scanner cannot cut.\<close>

definition deliverable :: "nat \<Rightarrow> text_chunk \<Rightarrow> bool" where
  "deliverable mx c \<longleftrightarrow> ctext c \<noteq> [] \<and> separator_after c = []
     \<and> (length (ctext c) \<le> mx \<or> length (split_classic_html_blocks (ctext c)) = 1)"

definition cuts_into :: "nat \<Rightarrow> utext \<Rightarrow> text_chunk list \<Rightarrow> bool" where
  "cuts_into mx t cs \<longleftrightarrow> texts_of cs = t \<and> (\<forall>c \<in> set cs. deliverable mx c)"

lemma cuts_into_simps [simp]:
  "cuts_into mx [] []"
  "cuts_into mx t [c] \<longleftrightarrow> ctext c = t \<and> deliverable mx c"
  by (auto simp: cuts_into_def)

lemma cuts_into_append: "cuts_into mx s cs \<Longrightarrow> cuts_into mx t ds \<Longrightarrow> cuts_into mx (s @ t) (cs @ ds)"
  by (auto simp: cuts_into_def)

lemma deliverable_plain: "t \<noteq> [] \<Longrightarrow> length t \<le> mx \<Longrightarrow> deliverable mx (plain_chunk t)"
  by (simp add: deliverable_def)

lemma batch_loop_cuts:
  assumes "\<forall>c \<in> set cs. mx < length (ctext c) \<longrightarrow> (\<exists>s. sub (ctext c) = Some s \<and> cuts_into mx (ctext c) s)"
    and "length cur \<le> mx" "solid cs"
  shows "\<exists>r. batch_loop sub mx cs cur = Some r \<and> cuts_into mx (cur @ texts_of cs) r"
  using assms
proof (induction cs arbitrary: cur)
  case Nil
  then show ?case by (simp add: deliverable_plain)
next
  case (Cons c cs)
  define place where "place =
    (if mx < length (ctext c)
     then (case sub (ctext c) of
             None \<Rightarrow> None
           | Some s \<Rightarrow> map_option (\<lambda>r. s @ r) (batch_loop sub mx cs []))
     else batch_loop sub mx cs (ctext c))"
  have "\<exists>r. place = Some r \<and> cuts_into mx (ctext c @ texts_of cs) r"
  proof (cases "mx < length (ctext c)")
    case True
    with Cons.prems(1) obtain s where s: "sub (ctext c) = Some s" "cuts_into mx (ctext c) s" by auto
    from Cons.IH [of "[]"] Cons.prems obtain r
      where r: "batch_loop sub mx cs [] = Some r" "cuts_into mx (texts_of cs) r" by auto
    from True s r show ?thesis by (simp add: place_def cuts_into_append)
  next
    case False
    with Cons show ?thesis by (simp add: place_def)
  qed
  then obtain r where r: "place = Some r" "cuts_into mx (ctext c @ texts_of cs) r" by blast
  have "cur \<noteq> [] \<Longrightarrow> cuts_into mx (cur @ ctext c @ texts_of cs) (plain_chunk cur # r)"
    using cuts_into_append [of mx cur "[plain_chunk cur]"] r(2) Cons.prems(2)
    by (simp add: deliverable_plain)
  moreover have "length cur + length (ctext c) \<le> mx \<Longrightarrow> \<exists>r. batch_loop sub mx cs (cur @ ctext c) = Some r
      \<and> cuts_into mx (cur @ ctext c @ texts_of cs) r"
    using Cons.IH [of "cur @ ctext c"] Cons.prems by simp
  moreover have "batch_loop sub mx (c # cs) cur =
    (if cur = [] then place
     else if length cur + length (ctext c) \<le> mx then batch_loop sub mx cs (cur @ ctext c)
     else map_option (\<lambda>r. plain_chunk cur # r) place)"
    by (simp add: place_def Let_def)
  ultimately show ?case using r by (cases "cur = []") auto
qed

lemma batch_html_chunks_cuts:
  assumes "\<forall>c \<in> set cs. mx < length (ctext c) \<longrightarrow> (\<exists>s. sub (ctext c) = Some s \<and> cuts_into mx (ctext c) s)"
    and "solid cs" "cs \<noteq> []"
  shows "\<exists>r. batch_html_chunks sub mx cs = Some r \<and> cuts_into mx (texts_of cs) r"
proof -
  from batch_loop_cuts [OF assms(1) _ assms(2), of "[]"] obtain r
    where r: "batch_loop sub mx cs [] = Some r" "cuts_into mx (texts_of cs) r" by auto
  moreover have "r \<noteq> []" using r(2) assms(2,3) solid_texts_Nil [of cs] by (auto simp: cuts_into_def)
  ultimately show ?thesis by (simp add: batch_html_chunks_def)
qed

lemma texts_of_member: "c \<in> set cs \<Longrightarrow> length (ctext c) \<le> length (texts_of cs)"
  by (induction cs) auto

lemma texts_of_member_less:
  assumes "solid cs" "1 < length cs" "c \<in> set cs"
  shows "length (ctext c) < length (texts_of cs)"
proof -
  from assms(3) obtain xs ys where cs: "cs = xs @ c # ys" by (auto simp: in_set_conv_decomp)
  with assms(1,2) have "xs \<noteq> [] \<or> ys \<noteq> []" "solid xs" "solid ys" by auto
  then have "texts_of xs \<noteq> [] \<or> texts_of ys \<noteq> []" by (simp add: solid_texts_Nil)
  with cs show ?thesis by auto
qed

text \<open>Every block that the oversized-block split meets is closed.\<close>

function tidy :: "nat \<Rightarrow> utext \<Rightarrow> bool" where
  "tidy mx html \<longleftrightarrow> classic_closed html
     \<and> (\<forall>c \<in> set (split_classic_html_blocks html).
          length (ctext c) < length html \<longrightarrow> mx < length (ctext c) \<longrightarrow> tidy mx (ctext c))"
  by pat_completeness auto
termination by (relation "measure (\<lambda>(mx, html). length html)") auto

declare tidy.simps [simp del]

lemma sub_split_cuts:
  assumes "tidy mx html" "html \<noteq> []" "length html \<le> fuel" "mx < length html"
  shows "\<exists>s. sub_split_oversized_html_block fuel mx html = Some s \<and> cuts_into mx html s"
  using assms
proof (induction fuel arbitrary: html)
  case 0
  then show ?case by simp
next
  case (Suc fuel)
  let ?inner = "split_classic_html_blocks html"
  have closed: "texts_of ?inner = html" and sol: "solid ?inner"
    using Suc.prems(1,2) by (simp_all add: split_classic_texts split_classic_solid tidy.simps [of mx html])
  show ?case
  proof (cases "1 < length ?inner")
    case True
    have "\<exists>s. sub_split_oversized_html_block fuel mx (ctext c) = Some s \<and> cuts_into mx (ctext c) s"
      if c: "c \<in> set ?inner" "mx < length (ctext c)" for c
    proof (rule Suc.IH)
      have less: "length (ctext c) < length html"
        using texts_of_member_less [OF sol True c(1)] closed by simp
      with c Suc.prems(1) show "tidy mx (ctext c)" by (simp add: tidy.simps [of mx html])
      show "length (ctext c) \<le> fuel" using less Suc.prems(3) by simp
    qed (use c in auto)
    then have "\<exists>r. batch_html_chunks (sub_split_oversized_html_block fuel mx) mx ?inner = Some r
        \<and> cuts_into mx (texts_of ?inner) r"
      using sol by (intro batch_html_chunks_cuts) simp_all
    with True closed show ?thesis by simp
  next
    case False
    then have "length ?inner = 1" using split_classic_not_Nil [of html] by (cases ?inner) auto
    with False Suc.prems(2) show ?thesis by (simp add: deliverable_def)
  qed
qed

text \<open>The same of a whole document.\<close>

definition tidy_document :: "nat \<Rightarrow> utext \<Rightarrow> bool" where
  "tidy_document mx html \<longleftrightarrow> rich_closed html
     \<and> (\<forall>c \<in> set (raw_blocks html). mx < length (ctext c) \<longrightarrow> tidy mx (ctext c))"

lemma batch_loop_starved:
  "c \<in> set cs \<Longrightarrow> mx < length (ctext c) \<Longrightarrow> sub (ctext c) = None \<Longrightarrow> batch_loop sub mx cs cur = None"
proof (induction cs arbitrary: cur)
  case (Cons d cs)
  then show ?case by (auto split: option.split)
qed simp

lemma sub_split_starved:
  assumes "c \<in> set (split_classic_html_blocks html)" "ctext c = html"
    and "1 < length (split_classic_html_blocks html)" "mx < length html"
  shows "sub_split_oversized_html_block fuel mx html = None"
proof (induction fuel)
  case (Suc fuel)
  with assms batch_loop_starved [of c "split_classic_html_blocks html" mx
      "sub_split_oversized_html_block fuel mx" "[]"]
  show ?case by (simp add: batch_html_chunks_def)
qed simp

text \<open>Evaluating a scan on a concrete document.\<close>

lemma classic_scan_skip:
  "i < length html \<Longrightarrow> html ! i \<noteq> 60 \<Longrightarrow> classic_scan html i st = classic_scan html (i + 1) st"
  by (subst classic_scan.simps) simp

lemma classic_scan_done: "\<not> i < length html \<Longrightarrow> classic_scan html i st = st"
  by (subst classic_scan.simps) simp

lemma classic_scan_tag:
  "i < length html \<Longrightarrow> html ! i = 60 \<Longrightarrow> parse_html_tag_at html i = Some info \<Longrightarrow>
   classic_scan html i st = classic_scan html (tag_end info) (classic_event html i info st)"
  by (subst classic_scan.simps) simp

lemmas scan_eval = classic_scan_skip classic_scan_done classic_scan_tag
  parse_html_tag_at_def slice_def ends_with_slash_def is_ascii_alpha_def is_ws_cp_def Let_def
  classic_event_def lower_cp_def BLOCK_LEVEL_TAGS_def cps_def
  on_open_def on_close_def on_single_def flush_between_def add_outside_def blank_def trim_by_def
  split_classic_html_blocks_def finish_scan_def plain_chunk_def scan_init_def

lemma unclosed_example:
  "split_classic_html_blocks (cps ''a<p>b'') = [plain_chunk (cps ''a''), plain_chunk (cps ''a<p>b'')]"
  "\<not> is_gutenberg_content (cps ''a<p>b'')"
  "\<not> classic_closed (cps ''a<p>b'')"
proof -
  show *: "split_classic_html_blocks (cps ''a<p>b'') = [plain_chunk (cps ''a''), plain_chunk (cps ''a<p>b'')]"
    by (simp add: scan_eval)
  show "\<not> is_gutenberg_content (cps ''a<p>b'')"
    by (simp add: is_gutenberg_content_def str_contains_def cps_def)
  show "\<not> classic_closed (cps ''a<p>b'')"
    unfolding split_classic_texts [symmetric] * by (simp add: cps_def)
qed

lemma closed_example:
  "split_classic_html_blocks (cps ''<p>a</p><p>b</p>'')
     = [plain_chunk (cps ''<p>a</p>''), plain_chunk (cps ''<p>b</p>'')]"
  "\<not> is_gutenberg_content (cps ''<p>a</p><p>b</p>'')"
  "classic_closed (cps ''<p>a</p><p>b</p>'')"
proof -
  show *: "split_classic_html_blocks (cps ''<p>a</p><p>b</p>'')
     = [plain_chunk (cps ''<p>a</p>''), plain_chunk (cps ''<p>b</p>'')]"
    by (simp add: scan_eval)
  show "\<not> is_gutenberg_content (cps ''<p>a</p><p>b</p>'')"
    by (simp add: is_gutenberg_content_def str_contains_def cps_def)
  show "classic_closed (cps ''<p>a</p><p>b</p>'')"
    unfolding split_classic_texts [symmetric] * by (simp add: cps_def)
qed

section \<open>The splitters meet the contract\<close>

lemma split_classic_rejoin: "classic_closed html \<Longrightarrow> rejoin (split_classic_html_blocks html) = html"
proof (cases "html = []")
  case True
  then show ?thesis
    by (simp add: split_classic_html_blocks_def Let_def finish_scan_def classic_scan_done scan_init_def)
next
  case False
  assume "classic_closed html"
  with False show ?thesis by (simp add: solid_rejoin split_classic_solid split_classic_texts)
qed

interpretation classic_lossless: lossless_splitter split_classic_html_blocks classic_closed
  by unfold_locales (simp_all add: split_classic_rejoin)

lemma split_rich_cuts:
  assumes "tidy_document mx html" "html \<noteq> []" "0 < mx" "length html \<le> fuel"
  shows "\<exists>cs. split_rich_html_by_blocks fuel html mx = Some cs \<and> texts_of cs = html
    \<and> (raw_blocks html \<noteq> [] \<longrightarrow> (\<forall>c \<in> set cs. deliverable mx c)) \<and> solid cs"
proof (cases "raw_blocks html = []")
  case True
  with assms(2) show ?thesis by (simp add: split_rich_html_by_blocks_def)
next
  case False
  have closed: "texts_of (raw_blocks html) = html" and sol: "solid (raw_blocks html)"
    using assms(1,2) False by (simp_all add: tidy_document_def raw_blocks_texts raw_blocks_solid)
  have "\<exists>s. sub_split_oversized_html_block fuel mx (ctext c) = Some s \<and> cuts_into mx (ctext c) s"
    if c: "c \<in> set (raw_blocks html)" "mx < length (ctext c)" for c
  proof (rule sub_split_cuts)
    show "tidy mx (ctext c)" using assms(1) c by (simp add: tidy_document_def)
    show "length (ctext c) \<le> fuel" using texts_of_member [OF c(1)] closed assms(4) by simp
  qed (use c in auto)
  then obtain r where r: "batch_html_chunks (sub_split_oversized_html_block fuel mx) mx (raw_blocks html) = Some r"
    "cuts_into mx html r"
    using batch_html_chunks_cuts [of "raw_blocks html" mx "sub_split_oversized_html_block fuel mx"]
      sol False closed by auto
  moreover have "solid r" using r(2) by (simp add: cuts_into_def solid_def deliverable_def)
  ultimately show ?thesis
    using assms(2,3) False by (simp add: split_rich_html_by_blocks_def cuts_into_def)
qed

text \<open>The chunks of a document, the document itself when the fuel does not suffice.\<close>

definition rich_chunks :: "nat \<Rightarrow> nat \<Rightarrow> utext \<Rightarrow> text_chunk list" where
  "rich_chunks fuel mx html =
     (case split_rich_html_by_blocks fuel html mx of Some cs \<Rightarrow> cs | None \<Rightarrow> [plain_chunk html])"

lemma split_rich_not_Nil: "split_rich_html_by_blocks fuel html mx \<noteq> Some []"
  by (auto simp: split_rich_html_by_blocks_def batch_html_chunks_def split: if_splits)

interpretation rich_lossless: lossless_splitter "rich_chunks fuel mx"
  "\<lambda>html. html \<noteq> [] \<and> tidy_document mx html \<and> 0 < mx \<and> length html \<le> fuel" for fuel mx
proof
  fix s
  show "rich_chunks fuel mx s \<noteq> []"
    using split_rich_not_Nil [of fuel s mx] by (auto simp: rich_chunks_def split: option.split)
  assume "s \<noteq> [] \<and> tidy_document mx s \<and> 0 < mx \<and> length s \<le> fuel"
  then show "rejoin (rich_chunks fuel mx s) = s"
    using split_rich_cuts [of mx s fuel] by (auto simp: rich_chunks_def solid_rejoin)
qed

section \<open>Properties\<close>

text \<open>
  C36: The split of a tidy document ends, and delivers all of it. A document is tidy when its scan leaves no text
  undelivered before an open block, and the same holds of every block longer than the limit, and of the blocks within it
  that are longer in turn. With fuel for the length of the document (the recursion always has enough) the split
  returns chunks whose texts join to the document. Each is non-empty, and within the limit or, however long, a text that
  the classic scanner returns as a single block, which is not cut further.
\<close>

theorem rich_split_complete:
  assumes "tidy_document mx html" "html \<noteq> []" "0 < mx" "length html \<le> fuel" "raw_blocks html \<noteq> []"
  shows "\<exists>cs. split_rich_html_by_blocks fuel html mx = Some cs
    \<and> concat (map ctext cs) = html
    \<and> (\<forall>c \<in> set cs. ctext c \<noteq> []
         \<and> (length (ctext c) \<le> mx \<or> length (split_classic_html_blocks (ctext c)) = 1))"
  using split_rich_cuts [OF assms(1-4)] assms(5) by (auto simp: texts_of_def deliverable_def)

theorem rich_split_complete_witness:
  "\<exists>cs. split_rich_html_by_blocks 16 (cps ''<p>a</p><p>b</p>'') 10 = Some cs
    \<and> concat (map ctext cs) = cps ''<p>a</p><p>b</p>''
    \<and> list_all (\<lambda>c. ctext c \<noteq> []
         \<and> (length (ctext c) \<le> 10 \<or> length (split_classic_html_blocks (ctext c)) = 1)) cs"
  unfolding list_all_iff
  by (rule rich_split_complete)
    (use closed_example in \<open>auto simp: tidy_document_def rich_closed_def raw_blocks_def cps_def\<close>)

text \<open>
  The translation of a closed document by an identity provider is the document: nothing is lost,
  duplicated or reordered between the blocks, whatever the limit.
\<close>

theorem rich_translation_lossless:
  assumes "tidy_document mx html" "html \<noteq> []" "0 < mx" "length html \<le> fuel"
    and "vsource html = None" "vtranslation html html = None"
  shows "translate_rich_html_blocks fuel (\<lambda>i t. Inr t) (\<lambda>t. Inr t) vsource vtranslation html mx
    = Some (Inr html)"
proof -
  obtain cs where cs: "split_rich_html_by_blocks fuel html mx = Some cs"
    using split_rich_cuts [OF assms(1-4)] by blast
  have "rejoin cs = html"
    using rich_lossless.split_rejoin [of html mx fuel] assms(1-4) cs by (simp add: rich_chunks_def)
  with cs assms(5,6) show ?thesis
    by (simp add: translate_rich_html_blocks_def translate_split_def translate_chunks_identity rejoin_def)
qed

theorem rich_translation_lossless_witness:
  "translate_rich_html_blocks 16 (\<lambda>i t. Inr t) (\<lambda>t. Inr t) (\<lambda>h. None :: string option) (\<lambda>a b. None)
     (cps ''<p>a</p><p>b</p>'') 10 = Some (Inr (cps ''<p>a</p><p>b</p>''))"
  by (rule rich_translation_lossless)
    (use closed_example in \<open>auto simp: tidy_document_def rich_closed_def raw_blocks_def cps_def\<close>)

text \<open>The state at the end of the scan that cuts a document into blocks.\<close>

definition final_scan :: "utext \<Rightarrow> scan_state" where
  "final_scan html = (if is_gutenberg_content html then gutenberg_scan html 0 scan_init else classic_scan html 0 scan_init)"

lemma final_scan_inv: "scan_inv html (length html) (final_scan html)"
  by (simp add: final_scan_def classic_final gutenberg_final)

lemma raw_blocks_finish:
  "raw_blocks html \<noteq> [] \<Longrightarrow>
     finish_scan html (final_scan html) \<noteq> [] \<and> raw_blocks html = finish_scan html (final_scan html)
     \<or> finish_scan html (final_scan html) = [] \<and> raw_blocks html = [plain_chunk html]"
  by (auto simp: raw_blocks_def final_scan_def split_gutenberg_top_level_blocks_def split_classic_html_blocks_def Let_def)

text \<open>
  C38: What the blocks of a document join to. When the scan ends outside of a block, they join to the document. When it
  ends inside of one, they join to the text before the opening of this block followed by everything after the end
  of the delivered text, which is not after that opening: the text between the two is delivered twice. So in a document
  in which blocks are found the join is the document exactly when no block is open at the end, or the open block starts
  where the delivered text ends, and otherwise it is longer.
\<close>

theorem raw_blocks_join:
  assumes "raw_blocks html \<noteq> []"
  shows "case block_start (final_scan html) of
      None \<Rightarrow> concat (map ctext (raw_blocks html)) = html
    | Some b \<Rightarrow> last_end (final_scan html) \<le> b \<and> b < length html
        \<and> concat (map ctext (raw_blocks html)) = take b html @ drop (last_end (final_scan html)) html
        \<and> (concat (map ctext (raw_blocks html)) = html \<longleftrightarrow> b = last_end (final_scan html))
        \<and> (b \<noteq> last_end (final_scan html) \<longrightarrow> length html < length (concat (map ctext (raw_blocks html))))"
proof -
  let ?st = "final_scan html"
  note inv = final_scan_inv [of html]
  have join: "concat (map ctext (raw_blocks html)) =
      (case block_start ?st of None \<Rightarrow> html | Some b \<Rightarrow> take b html @ drop (last_end ?st) html)"
  proof (cases "finish_scan html ?st = []")
    case True
    with inv have "closed_scan ?st" "chunks ?st = []" by (simp_all add: finish_Nil_closed finish_scan_Nil)
    with True raw_blocks_finish [OF assms] inv show ?thesis
      by (auto simp: closed_scan_def scan_inv_def split: option.splits)
  next
    case False
    with raw_blocks_finish [OF assms] finish_scan_texts [OF inv] show ?thesis by (simp add: texts_of_def)
  qed
  show ?thesis
  proof (cases "block_start ?st")
    case (Some b)
    with inv have b: "last_end ?st \<le> b" "b < length html" by (auto simp: scan_inv_def)
    with join Some have len: "length (concat (map ctext (raw_blocks html))) = length html + (b - last_end ?st)" by simp
    have "b = last_end ?st" if eq: "concat (map ctext (raw_blocks html)) = html"
      using len [unfolded eq] b(1) by linarith
    then have "concat (map ctext (raw_blocks html)) = html \<longleftrightarrow> b = last_end ?st"
      using join Some by auto
    moreover have "length html < length (concat (map ctext (raw_blocks html)))" if "b \<noteq> last_end ?st"
      using len that b(1) by linarith
    ultimately show ?thesis using Some join b by simp
  qed (simp add: join)
qed

theorem raw_blocks_join_witness:
  "length (cps ''a<p>b'') < length (concat (map ctext (raw_blocks (cps ''a<p>b''))))"
  using raw_blocks_join [of "cps ''a<p>b''"] unclosed_example
  by (auto simp: raw_blocks_def final_scan_def classic_closed_def closed_scan_def split: option.splits)

text \<open>
  C39: The split of an unclosed block may never return. When the classic scanner delivers an oversized
  document again as one of several blocks of itself, the oversized-block split calls itself on the same
  text: no fuel is enough.
\<close>

theorem unclosed_block_never_returns:
  assumes "c \<in> set (split_classic_html_blocks html)" "ctext c = html"
    and "1 < length (split_classic_html_blocks html)" "0 < mx" "mx < length html"
    and "\<not> is_gutenberg_content html"
  shows "\<forall>fuel. split_rich_html_by_blocks fuel html mx = None"
proof
  fix fuel
  have "batch_html_chunks (sub_split_oversized_html_block fuel mx) mx (split_classic_html_blocks html) = None"
    using batch_loop_starved [OF assms(1), of mx "sub_split_oversized_html_block fuel mx"]
      sub_split_starved [OF assms(1-3,5)] assms(2,5) by (simp add: batch_html_chunks_def)
  moreover have "html \<noteq> []" using assms(5) by auto
  ultimately show "split_rich_html_by_blocks fuel html mx = None"
    using assms(4,6) by (simp add: split_rich_html_by_blocks_def raw_blocks_def)
qed

theorem unclosed_block_never_returns_witness:
  "\<forall>fuel. split_rich_html_by_blocks fuel (cps ''a<p>b'') 3 = None"
  by (rule unclosed_block_never_returns [of "plain_chunk (cps ''a<p>b'')"])
    (use unclosed_example in \<open>simp_all add: cps_def\<close>)

end
