(* ===== verification/ContentSafety.thy ===== *)
theory ContentSafety
  imports HtmlChunks "HOL-Library.Multiset"
begin

text \<open>
  The structural checks of \<open>component_rt/content_safety.rs\<close>: the interpolation tokens that a translation must
  keep, the HTML comments and Gutenberg blocks of a rich-HTML value, and the keys that are technical.
  Texts are lists of code points; the byte positions of the source are those of ASCII delimiters. The JSON
  parser (\<open>serde_json\<close>) is an argument: whether a text is a JSON object.
\<close>

section \<open>Interpolation tokens\<close>

definition is_digit_cp :: "nat \<Rightarrow> bool" where
  "is_digit_cp c \<longleftrightarrow> 48 \<le> c \<and> c \<le> 57"

definition skip_one :: "nat \<Rightarrow> utext \<Rightarrow> utext" where
  "skip_one c s = (case s of x # xs \<Rightarrow> (if x = c then xs else s) | [] \<Rightarrow> [])"

text \<open>An argument number ends in a dollar sign; without it the digits are not consumed here.\<close>

definition skip_argument :: "utext \<Rightarrow> utext" where
  "skip_argument s =
     (let r = dropWhile is_digit_cp s in
      if r \<noteq> s \<and> r \<noteq> [] \<and> hd r = 36 then tl r else s)"

definition skip_star :: "utext \<Rightarrow> utext" where
  "skip_star s = (if s \<noteq> [] \<and> hd s = 42 then skip_one 36 (dropWhile is_digit_cp (tl s)) else s)"

definition skip_precision :: "utext \<Rightarrow> utext" where
  "skip_precision s =
     (if s \<noteq> [] \<and> hd s = 46 then skip_one 36 (dropWhile is_digit_cp (skip_one 42 (tl s))) else s)"

text \<open>
  What is left of the text after the conversion that starts at its head, a percent sign: \<open>None\<close> when there is no
  conversion. (The source returns the position of the end.)
\<close>

definition printf_flags :: "nat list" where "printf_flags = [45, 43, 48, 35, 39]"
definition printf_lengths :: utext where "printf_lengths = cps ''hlLjzt''"
definition printf_conversions :: utext where "printf_conversions = cps ''bcdeEfFgGiosuxXaApn''"

definition printf_end :: "utext \<Rightarrow> utext option" where
  "printf_end s =
     (let a = tl s in
      if a \<noteq> [] \<and> hd a = 37 then Some (tl a)
      else
        (let flags = dropWhile (\<lambda>c. c \<in> set printf_flags) (skip_argument a);
             width = dropWhile is_digit_cp flags;
             r = dropWhile (\<lambda>c. c \<in> set printf_lengths) (skip_precision (skip_star width)) in
         if r \<noteq> [] \<and> hd r \<in> set printf_conversions then Some (tl r) else None))"

definition is_ascii_alnum :: "nat \<Rightarrow> bool" where
  "is_ascii_alnum c \<longleftrightarrow> is_digit_cp c \<or> is_ascii_alpha c"

text \<open>The same for a placeholder in single or double braces.\<close>

definition brace_end :: "utext \<Rightarrow> utext option" where
  "brace_end s =
     (let double = (tl s \<noteq> [] \<and> hd (tl s) = 123);
          offset = (if double then 2 else 1);
          close = (if double then [125, 125] else [125]);
          rest = drop offset s in
      case find_sub close rest of
        None \<Rightarrow> None
      | Some n \<Rightarrow>
          let name = trim_by is_ws_cp (take n rest) in
          if name \<noteq> [] \<and> (\<forall>c \<in> set name. is_ascii_alnum c \<or> c \<in> {95, 46, 45})
          then Some (drop (n + length close) rest) else None)"

definition token_end :: "utext \<Rightarrow> utext option" where
  "token_end s =
     (if s = [] then None
      else if hd s = 37 then printf_end s
      else if hd s = 123 then brace_end s
      else None)"

lemma dropWhile_shorter: "length (dropWhile p s) \<le> length s"
  by (rule length_dropWhile_le)

lemma skip_shorter:
  "length (skip_one c s) \<le> length s" "length (skip_argument s) \<le> length s"
  "length (skip_star s) \<le> length s" "length (skip_precision s) \<le> length s"
proof -
  show one: "length (skip_one c s) \<le> length s" for c s
    by (simp add: skip_one_def split: list.split)
  show "length (skip_argument s) \<le> length s"
    using dropWhile_shorter [of is_digit_cp s] by (auto simp: skip_argument_def Let_def)
  have digits: "length (skip_one c (dropWhile is_digit_cp r)) \<le> length r" for c r
    using one [of c "dropWhile is_digit_cp r"] dropWhile_shorter [of is_digit_cp r] by linarith
  show "length (skip_star s) \<le> length s"
    using digits [of 36 "tl s"] by (auto simp: skip_star_def)
  show "length (skip_precision s) \<le> length s"
    using digits [of 36 "skip_one 42 (tl s)"] one [of 42 "tl s"] by (auto simp: skip_precision_def)
qed

lemma token_end_shorter: "token_end s = Some r \<Longrightarrow> length r < length s"
proof -
  assume r: "token_end s = Some r"
  then have s: "s \<noteq> []" by (auto simp: token_end_def)
  have "printf_end s = Some r \<Longrightarrow> length r < length s"
  proof -
    assume p: "printf_end s = Some r"
    define fl where "fl = dropWhile (\<lambda>c. c \<in> set printf_flags) (skip_argument (tl s))"
    define wd where "wd = dropWhile is_digit_cp fl"
    define ln where "ln = dropWhile (\<lambda>c. c \<in> set printf_lengths) (skip_precision (skip_star wd))"
    have "length ln \<le> length (tl s)"
      using skip_shorter(2) [of "tl s"] skip_shorter(3) [of wd] skip_shorter(4) [of "skip_star wd"]
        dropWhile_shorter [of "\<lambda>c. c \<in> set printf_flags" "skip_argument (tl s)"]
        dropWhile_shorter [of is_digit_cp fl]
        dropWhile_shorter [of "\<lambda>c. c \<in> set printf_lengths" "skip_precision (skip_star wd)"]
      unfolding fl_def [symmetric] wd_def [symmetric] ln_def [symmetric] by linarith
    then have "length (tl ln) < length s" using s by (cases s; cases ln) auto
    moreover have "length (tl (tl s)) < length s" using s by (cases s) auto
    moreover from p have "r = tl ln \<or> r = tl (tl s)"
      by (auto simp: printf_end_def fl_def wd_def ln_def Let_def split: if_splits)
    ultimately show ?thesis by auto
  qed
  moreover have "brace_end s = Some r \<Longrightarrow> length r < length s"
    using s by (auto simp: brace_end_def Let_def split: option.splits if_splits)
  ultimately show ?thesis using r by (auto simp: token_end_def split: if_splits)
qed

text \<open>The tokens of a text in their order.\<close>

function scan_tokens :: "utext \<Rightarrow> utext list" where
  "scan_tokens s =
     (if s = [] then []
      else case token_end s of
        Some r \<Rightarrow> take (length s - length r) s # scan_tokens r
      | None \<Rightarrow> scan_tokens (tl s))"
  by pat_completeness auto
termination
  by (relation "measure length") (auto dest: token_end_shorter)

declare scan_tokens.simps [simp del]

definition implicit_printf :: "utext \<Rightarrow> bool" where
  "implicit_printf token \<longleftrightarrow> token \<noteq> [] \<and> hd token = 37 \<and> token \<noteq> [37, 37] \<and> 36 \<notin> set token"

text \<open>The map from tokens to their numbers is a multiset.\<close>

definition interpolation_tokens :: "utext \<Rightarrow> utext multiset \<times> utext list" where
  "interpolation_tokens t = (mset (scan_tokens t), filter implicit_printf (scan_tokens t))"

datatype safety_error =
    PlaceholdersChanged
  | UnterminatedComment nat
  | MismatchedNesting
  | InvalidBlockName
  | InvalidAttributes
  | AttributesNotObject
  | UnclosedBlocks
  | CommentsChanged

definition validate_interpolation_tokens :: "utext \<Rightarrow> utext \<Rightarrow> safety_error option" where
  "validate_interpolation_tokens source translated =
     (if interpolation_tokens source \<noteq> interpolation_tokens translated
      then Some PlaceholdersChanged else None)"

section \<open>HTML comments and Gutenberg blocks\<close>

text \<open>\<open>split_once(char::is_whitespace)\<close> with the whole text and an empty rest when there is none.\<close>

definition split_at_ws :: "utext \<Rightarrow> utext \<times> utext" where
  "split_at_ws s =
     (takeWhile (\<lambda>c. \<not> is_ws_cp c) s, drop 1 (dropWhile (\<lambda>c. \<not> is_ws_cp c) s))"

definition trim_end :: "utext \<Rightarrow> utext" where
  "trim_end s = rev (dropWhile is_ws_cp (rev s))"

text \<open>
  What the body of one comment does to the stack of open blocks. \<open>parse\<close> is the JSON parser: \<open>None\<close> for
  a syntax error, else the value.
\<close>

definition comment_effect ::
  "(utext \<Rightarrow> utext json option) \<Rightarrow> utext \<Rightarrow> utext list \<Rightarrow> safety_error + utext list" where
  "comment_effect parse body stack =
     (case strip_pfx (cps ''/wp:'') body of
        Some rest \<Rightarrow>
          (case stack of
             [] \<Rightarrow> Inl MismatchedNesting
           | name # stack' \<Rightarrow>
               if name \<noteq> trim_by is_ws_cp rest then Inl MismatchedNesting else Inr stack')
      | None \<Rightarrow>
        (case strip_pfx (cps ''wp:'') body of
           None \<Rightarrow> Inr stack
         | Some rest \<Rightarrow>
             let self_closing = ends_with_slash rest;
                 rest' = (if self_closing then trim_end (butlast rest) else rest);
                 (name, attrs) = split_at_ws rest';
                 attrs' = trim_by is_ws_cp attrs in
             if name = [] \<or> \<not> (\<forall>c \<in> set name. is_ascii_alnum c \<or> c \<in> {45, 95, 47})
             then Inl InvalidBlockName
             else if attrs' \<noteq> [] \<and> parse attrs' = None then Inl InvalidAttributes
             else if attrs' \<noteq> [] \<and> \<not> is_object (the (parse attrs')) then Inl AttributesNotObject
             else Inr (if self_closing then stack else name # stack)))"

function comments_loop ::
  "(utext \<Rightarrow> utext json option) \<Rightarrow> utext \<Rightarrow> nat \<Rightarrow> utext list \<Rightarrow> safety_error + utext list" where
  "comments_loop parse html pos stack =
     (case find_sub (cps ''<!--'') (drop pos html) of
        None \<Rightarrow> if stack = [] then Inr [] else Inl UnclosedBlocks
      | Some offset \<Rightarrow>
          (case find_sub (cps ''-->'') (drop (pos + offset + 4) html) of
             None \<Rightarrow> Inl (UnterminatedComment (pos + offset))
           | Some len \<Rightarrow>
               let ed = pos + offset + 4 + len;
                   body = trim_by is_ws_cp (slice html (pos + offset + 4) ed) in
               (case comment_effect parse body stack of
                  Inl e \<Rightarrow> Inl e
                | Inr stack' \<Rightarrow>
                    map_sum id (\<lambda>cs. slice html (pos + offset) (ed + 3) # cs)
                      (comments_loop parse html (ed + 3) stack'))))"
  by pat_completeness auto
termination
proof (relation "measure (\<lambda>(parse, html, pos, stack). length html - pos)", goal_cases)
  case (2 parse html pos stack offset len ed body stack')
  from find_sub_Some_split [OF 2(2)] have "pos + offset + 4 + len + 3 \<le> length html"
    by (auto simp: cps_def)
  with 2(3) show ?case by simp
qed simp

declare comments_loop.simps [simp del]

definition html_comments :: "(utext \<Rightarrow> utext json option) \<Rightarrow> utext \<Rightarrow> safety_error + utext list" where
  "html_comments parse html = comments_loop parse html 0 []"

definition validate_rich_html_source :: "(utext \<Rightarrow> utext json option) \<Rightarrow> utext \<Rightarrow> safety_error option" where
  "validate_rich_html_source parse html =
     (case html_comments parse html of Inl e \<Rightarrow> Some e | Inr cs \<Rightarrow> None)"

definition validate_rich_html_translation ::
  "(utext \<Rightarrow> utext json option) \<Rightarrow> utext \<Rightarrow> utext \<Rightarrow> safety_error option" where
  "validate_rich_html_translation parse source translated =
     (case html_comments parse source of
        Inl e \<Rightarrow> Some e
      | Inr cs \<Rightarrow>
          (case html_comments parse translated of
             Inl e \<Rightarrow> Some e
           | Inr ds \<Rightarrow>
               if cs \<noteq> ds then Some CommentsChanged
               else validate_interpolation_tokens source translated))"

section \<open>The grammar of block comments\<close>

text \<open>
  The specification of the source check: the Gutenberg markers of a document, comment by comment, form
  a well-nested sequence. An ordinary comment has no marker.
\<close>

datatype marker = Opens utext | Closes utext | Void

inductive nested :: "marker list \<Rightarrow> bool" where
  nested_Nil: "nested []"
| nested_Void: "nested ms \<Longrightarrow> nested (Void # ms)"
| nested_Block: "nested ms \<Longrightarrow> nested ns \<Longrightarrow> nested (Opens name # ms @ Closes name # ns)"

text \<open>\<open>None\<close> is a malformed opening comment.\<close>

definition marker_of :: "(utext \<Rightarrow> utext json option) \<Rightarrow> utext \<Rightarrow> marker list option" where
  "marker_of parse body =
     (case strip_pfx (cps ''/wp:'') body of
        Some rest \<Rightarrow> Some [Closes (trim_by is_ws_cp rest)]
      | None \<Rightarrow>
        (case strip_pfx (cps ''wp:'') body of
           None \<Rightarrow> Some []
         | Some rest \<Rightarrow>
             (case comment_effect parse body [] of
                Inl e \<Rightarrow> None
              | Inr [] \<Rightarrow> Some [Void]
              | Inr (name # ns) \<Rightarrow> Some [Opens name])))"

fun run_marker :: "marker \<Rightarrow> utext list \<Rightarrow> utext list option" where
  "run_marker (Opens name) stack = Some (name # stack)"
| "run_marker Void stack = Some stack"
| "run_marker (Closes name) [] = None"
| "run_marker (Closes name) (n # stack) = (if n = name then Some stack else None)"

fun run_markers :: "marker list \<Rightarrow> utext list \<Rightarrow> utext list option" where
  "run_markers [] stack = Some stack"
| "run_markers (m # ms) stack = Option.bind (run_marker m stack) (run_markers ms)"

lemma run_markers_append: "run_markers (ms @ ns) stack = Option.bind (run_markers ms stack) (run_markers ns)"
proof (induction ms arbitrary: stack)
  case (Cons m ms)
  then show ?case by (cases "run_marker m stack") auto
qed simp

lemma nested_runs: "nested ms \<Longrightarrow> run_markers ms stack = Some stack"
  by (induction arbitrary: stack rule: nested.induct) (simp_all add: run_markers_append)

text \<open>The markers that close a stack.\<close>

primrec closes :: "utext list \<Rightarrow> marker list \<Rightarrow> bool" where
  "closes [] ms = nested ms"
| "closes (n # stack) ms = (\<exists>a b. ms = a @ Closes n # b \<and> nested a \<and> closes stack b)"

lemma closes_Void: "closes stack ms \<Longrightarrow> closes stack (Void # ms)"
proof (cases stack)
  case (Cons n st)
  assume "closes stack ms"
  with Cons obtain a b where "ms = a @ Closes n # b" "nested a" "closes st b" by auto
  then have "Void # ms = (Void # a) @ Closes n # b" "nested (Void # a)" "closes st b"
    by (simp_all add: nested_Void)
  then show ?thesis unfolding Cons closes.simps by blast
qed (simp add: nested_Void)

lemma closes_Block: "nested a \<Longrightarrow> closes stack b \<Longrightarrow> closes stack (Opens n # a @ Closes n # b)"
proof (cases stack)
  case (Cons m st)
  assume "nested a" "closes stack b"
  with Cons obtain c d where "b = c @ Closes m # d" "nested c" "closes st d" by auto
  with \<open>nested a\<close> have "Opens n # a @ Closes n # b = (Opens n # a @ Closes n # c) @ Closes m # d"
    "nested (Opens n # a @ Closes n # c)" "closes st d"
    by (simp_all add: nested_Block)
  then show ?thesis unfolding Cons closes.simps by blast
qed (simp add: nested_Block)

lemma run_closes: "run_markers ms stack = Some [] \<Longrightarrow> closes stack ms"
proof (induction ms arbitrary: stack)
  case Nil
  then show ?case by (simp add: nested_Nil)
next
  case (Cons m ms)
  show ?case
  proof (cases m)
    case (Opens n)
    with Cons obtain a b where "ms = a @ Closes n # b" "nested a" "closes stack b" by fastforce
    with Opens show ?thesis by (simp add: closes_Block)
  next
    case (Closes n)
    with Cons.prems obtain st where "stack = n # st" "run_markers ms st = Some []"
      by (cases stack) (auto split: if_splits)
    with Closes Cons.IH [of st] show ?thesis by (auto intro: nested_Nil)
  next
    case Void
    with Cons show ?thesis by (simp add: closes_Void)
  qed
qed

lemma nested_iff_run: "nested ms \<longleftrightarrow> run_markers ms [] = Some []"
  using nested_runs [of ms "[]"] run_closes [of ms "[]"] by auto

lemma effect_is_marker:
  "(\<exists>stack'. comment_effect parse body stack = Inr stack' \<and> P stack') \<longleftrightarrow>
   (\<exists>ms stack'. marker_of parse body = Some ms \<and> run_markers ms stack = Some stack' \<and> P stack')"
proof (cases "strip_pfx (cps ''/wp:'') body")
  case None
  show ?thesis
  proof (cases "strip_pfx (cps ''wp:'') body")
    case (Some rest)
    with None show ?thesis
      by (auto simp: comment_effect_def marker_of_def Let_def split: prod.split if_splits)
  qed (use None in \<open>simp add: comment_effect_def marker_of_def\<close>)
next
  case (Some rest)
  then show ?thesis
    by (cases stack) (auto simp: comment_effect_def marker_of_def)
qed

text \<open>The bodies of the comments from a position on: \<open>None\<close> when one is not terminated.\<close>

function comment_bodies :: "utext \<Rightarrow> nat \<Rightarrow> utext list option" where
  "comment_bodies html pos =
     (case find_sub (cps ''<!--'') (drop pos html) of
        None \<Rightarrow> Some []
      | Some offset \<Rightarrow>
          (case find_sub (cps ''-->'') (drop (pos + offset + 4) html) of
             None \<Rightarrow> None
           | Some len \<Rightarrow>
               map_option (Cons (trim_by is_ws_cp (slice html (pos + offset + 4) (pos + offset + 4 + len))))
                 (comment_bodies html (pos + offset + 4 + len + 3))))"
  by pat_completeness auto
termination
proof (relation "measure (\<lambda>(html, pos). length html - pos)", goal_cases)
  case (2 html pos offset len)
  from find_sub_Some_split [OF 2(2)] have "pos + offset + 4 + len + 3 \<le> length html"
    by (auto simp: cps_def)
  then show ?case by simp
qed simp

declare comment_bodies.simps [simp del]

definition document_markers :: "(utext \<Rightarrow> utext json option) \<Rightarrow> utext \<Rightarrow> nat \<Rightarrow> marker list option" where
  "document_markers parse html pos =
     Option.bind (comment_bodies html pos) (\<lambda>bs. map_option concat (those (map (marker_of parse) bs)))"

lemma document_markers_step:
  assumes "find_sub (cps ''<!--'') (drop pos html) = Some offset"
    and "find_sub (cps ''-->'') (drop (pos + offset + 4) html) = Some len"
  shows "document_markers parse html pos =
    (case marker_of parse (trim_by is_ws_cp (slice html (pos + offset + 4) (pos + offset + 4 + len))) of
       None \<Rightarrow> None
     | Some ms \<Rightarrow> map_option (append ms) (document_markers parse html (pos + offset + 4 + len + 3)))"
  using assms
  by (cases "comment_bodies html (pos + offset + 4 + len + 3)")
    (auto simp: document_markers_def comment_bodies.simps [of html pos] option.map_comp o_def
      split: option.split)

lemma comments_loop_accepts:
  "(\<exists>cs. comments_loop parse html pos stack = Inr cs) \<longleftrightarrow>
   (\<exists>ms. document_markers parse html pos = Some ms \<and> run_markers ms stack = Some [])"
proof (induction parse html pos stack rule: comments_loop.induct)
  case (1 parse html pos stack)
  show ?case
  proof (cases "find_sub (cps ''<!--'') (drop pos html)")
    case None
    then show ?thesis
      by (simp add: comments_loop.simps [of parse html pos] document_markers_def comment_bodies.simps [of html pos])
  next
    case (Some offset)
    note start = this
    show ?thesis
    proof (cases "find_sub (cps ''-->'') (drop (pos + offset + 4) html)")
      case None
      with start show ?thesis
        by (simp add: comments_loop.simps [of parse html pos] document_markers_def comment_bodies.simps [of html pos])
    next
      case (Some len)
      define ed where "ed = pos + offset + 4 + len"
      define body where "body = trim_by is_ws_cp (slice html (pos + offset + 4) ed)"
      have IH: "(\<exists>cs. comments_loop parse html (ed + 3) stack' = Inr cs) \<longleftrightarrow>
          (\<exists>ms. document_markers parse html (ed + 3) = Some ms \<and> run_markers ms stack' = Some [])"
        if "comment_effect parse body stack = Inr stack'" for stack'
        using 1 [OF start Some ed_def body_def that] .
      have "(\<exists>cs. comments_loop parse html pos stack = Inr cs) \<longleftrightarrow>
        (\<exists>stack'. comment_effect parse body stack = Inr stack'
           \<and> (\<exists>cs. comments_loop parse html (ed + 3) stack' = Inr cs))"
        using start Some
        by (auto simp: comments_loop.simps [of parse html pos] ed_def body_def Let_def
            map_sum_def split: sum.splits)
      also have "\<dots> \<longleftrightarrow> (\<exists>stack'. comment_effect parse body stack = Inr stack'
           \<and> (\<exists>ms. document_markers parse html (ed + 3) = Some ms \<and> run_markers ms stack' = Some []))"
        using IH by auto
      also have "\<dots> \<longleftrightarrow> (\<exists>ms stack'. marker_of parse body = Some ms \<and> run_markers ms stack = Some stack'
           \<and> (\<exists>ms'. document_markers parse html (ed + 3) = Some ms' \<and> run_markers ms' stack' = Some []))"
        by (rule effect_is_marker)
      also have "\<dots> \<longleftrightarrow> (\<exists>ms. document_markers parse html pos = Some ms \<and> run_markers ms stack = Some [])"
        using document_markers_step [OF start Some, of parse]
        by (auto simp: ed_def [symmetric] body_def [symmetric] run_markers_append bind_eq_Some_conv
            split: option.split)
      finally show ?thesis .
    qed
  qed
qed

section \<open>The source check and the Gutenberg scanner\<close>

lemma scan_skip:
  assumes "i < length html" "\<not> (i + 4 \<le> length html \<and> slice html i (i + 4) = cps ''<!--'')"
  shows "gutenberg_scan html i st = gutenberg_scan html (i + 1) st"
  unfolding gutenberg_scan.simps [of html i] using assms by argo

lemma length_comment_open: "length (cps ''<!--'') = 4"
  by (simp add: cps_def)

lemma scan_no_comment:
  "find_sub (cps ''<!--'') (drop i html) = None \<Longrightarrow> gutenberg_scan html i st = st"
proof (induction html i st rule: gutenberg_scan.induct)
  case (1 html i st)
  show ?case
  proof (cases "i < length html")
    case True
    then obtain x xs where d: "drop i html = x # xs" "drop (i + 1) html = xs"
      by (metis Cons_nth_drop_Suc Suc_eq_plus1)
    with 1(4) have no: "\<not> prefix (cps ''<!--'') (drop i html)" "find_sub (cps ''<!--'') (drop (i + 1) html) = None"
      by (simp_all split: if_splits)
    have not_here: "\<not> (i + 4 \<le> length html \<and> slice html i (i + 4) = cps ''<!--'')"
      using no(1) by (auto simp: slice_def) (metis take_is_prefix)
    from 1(3) [OF True not_here no(2)] scan_skip [OF True not_here] show ?thesis by simp
  qed (simp add: gutenberg_scan.simps [of html i])
qed

lemma scan_to_comment:
  "find_sub (cps ''<!--'') (drop i html) = Some off \<Longrightarrow>
   gutenberg_scan html i st = gutenberg_scan html (i + off) st
     \<and> i + off + 4 \<le> length html \<and> slice html (i + off) (i + off + 4) = cps ''<!--''"
proof (induction off arbitrary: i)
  case 0
  have "4 \<le> length (drop i html)" "take 4 (drop i html) = cps ''<!--''"
    using find_sub_Some_split [OF 0] unfolding length_comment_open by simp_all
  then show ?case by (auto simp: slice_def)
next
  case (Suc off)
  have "Suc off + 4 \<le> length (drop i html)"
    using find_sub_Some_split [OF Suc.prems] unfolding length_comment_open by simp
  then have len: "i < length html" by simp
  then obtain x xs where d: "drop i html = x # xs" "drop (i + 1) html = xs"
    by (metis Cons_nth_drop_Suc Suc_eq_plus1)
  with Suc.prems have no: "\<not> prefix (cps ''<!--'') (drop i html)"
    and rest: "find_sub (cps ''<!--'') (drop (i + 1) html) = Some off"
    by (auto split: if_splits)
  have not_here: "\<not> (i + 4 \<le> length html \<and> slice html i (i + 4) = cps ''<!--'')"
    using no by (auto simp: slice_def) (metis take_is_prefix)
  from scan_skip [OF len not_here] Suc.IH [OF rest] show ?case by simp
qed

lemma scan_at_comment:
  assumes "find_sub (cps ''<!--'') (drop i html) = Some off"
    and "find_sub (cps ''-->'') (drop (i + off + 4) html) = Some len"
  shows "gutenberg_scan html i st = gutenberg_scan html (i + off + 4 + len + 3)
    (gutenberg_event html (i + off) (i + off + 4 + len + 3)
       (trim_by is_ws_cp (slice html (i + off + 4) (i + off + 4 + len))) st)"
  using scan_to_comment [OF assms(1), of st] assms(2)
  by (simp add: gutenberg_scan.simps [of html "i + off"] Let_def)

lemma event_depths:
  "depth (on_single html i ed st) = depth st"
  "depth (on_open html i tag st) = Suc (depth st)"
  "depth (on_close html ed st) = depth st - 1"
  by (auto simp: on_single_def on_open_def on_close_def Let_def split: option.split)

text \<open>The depth of the scanner is the height of the checker's stack.\<close>

lemma wp_exclusive: "strip_pfx (cps ''/wp:'') body = Some r \<Longrightarrow> strip_pfx (cps ''wp:'') body = None"
  by (cases body) (auto simp: strip_pfx_def cps_def split: if_splits)

lemma event_depth_stack:
  assumes "comment_effect parse body stack = Inr stack'" "depth st = length stack"
  shows "depth (gutenberg_event html i ed body st) = length stack'"
proof (cases "strip_pfx (cps ''/wp:'') body")
  case (Some r)
  with assms wp_exclusive [OF Some] show ?thesis
    by (cases stack) (auto simp: comment_effect_def gutenberg_event_def event_depths split: if_splits)
next
  case None
  with assms show ?thesis
    by (cases "strip_pfx (cps ''wp:'') body")
      (auto simp: comment_effect_def gutenberg_event_def event_depths Let_def split: if_splits prod.splits)
qed

lemma accepted_scan_closes:
  "comments_loop parse html pos stack = Inr cs \<Longrightarrow> depth st = length stack
     \<Longrightarrow> depth (gutenberg_scan html pos st) = 0"
proof (induction parse html pos stack arbitrary: cs st rule: comments_loop.induct)
  case (1 parse html pos stack)
  show ?case
  proof (cases "find_sub (cps ''<!--'') (drop pos html)")
    case None
    with 1(2,3) show ?thesis
      by (simp add: comments_loop.simps [of parse html pos] scan_no_comment split: if_splits)
  next
    case (Some offset)
    note start = this
    with 1(2) obtain len where len: "find_sub (cps ''-->'') (drop (pos + offset + 4) html) = Some len"
      by (cases "find_sub (cps ''-->'') (drop (pos + offset + 4) html)")
        (auto simp: comments_loop.simps [of parse html pos])
    define ed where "ed = pos + offset + 4 + len"
    define body where "body = trim_by is_ws_cp (slice html (pos + offset + 4) ed)"
    obtain stack' cs' where eff: "comment_effect parse body stack = Inr stack'"
      and rest: "comments_loop parse html (ed + 3) stack' = Inr cs'"
      using 1(2) start len
      by (auto simp: comments_loop.simps [of parse html pos] ed_def body_def Let_def map_sum_def
          split: sum.splits)
    from event_depth_stack [OF eff 1(3)]
      1(1) [OF start len ed_def body_def eff rest]
    have "depth (gutenberg_scan html (ed + 3) (gutenberg_event html (pos + offset) (ed + 3) body st)) = 0"
      by blast
    with scan_at_comment [OF start len, of st] show ?thesis by (simp add: ed_def body_def)
  qed
qed

lemma not_blank: "60 \<in> set s \<Longrightarrow> \<not> blank s"
proof
  assume "60 \<in> set s" "blank s"
  then have "trim_by is_ws_cp s = []" by (simp add: blank_def)
  then have "dropWhile is_ws_cp (rev (dropWhile is_ws_cp s)) = []" by (simp add: trim_by_def)
  then have "\<forall>c \<in> set (dropWhile is_ws_cp s). is_ws_cp c" by (simp add: dropWhile_eq_Nil_conv)
  then have "\<forall>c \<in> set s. is_ws_cp c"
    by (metis dropWhile_eq_Nil_conv hd_dropWhile hd_in_set list.set_cases list.set_intros(1))
  with \<open>60 \<in> set s\<close> show False by (auto simp: is_ws_cp_def)
qed

lemma gutenberg_has_bracket: "is_gutenberg_content html \<Longrightarrow> 60 \<in> set html"
  by (auto simp: is_gutenberg_content_def str_contains_iff cps_def)

lemma gutenberg_raw_not_Nil:
  assumes "is_gutenberg_content html" "depth (gutenberg_scan html 0 scan_init) = 0"
  shows "raw_blocks html \<noteq> []"
proof
  let ?st = "gutenberg_scan html 0 scan_init"
  assume "raw_blocks html = []"
  with assms(1) have fin: "finish_scan html ?st = []"
    by (simp add: raw_blocks_def split_gutenberg_top_level_blocks_def)
  from gutenberg_has_bracket [OF assms(1)] have html: "html \<noteq> []" "60 \<in> set html" by auto
  have inv: "scan_inv html (length html) ?st" by (rule gutenberg_final)
  with assms(2) scan_inv_depth [OF inv] have "texts_of (chunks ?st) = take (last_end ?st) html"
    by (simp add: scan_inv_def)
  with finish_scan_Nil [OF fin] html(1) have "last_end ?st = 0" by simp
  with fin finish_scan_Nil [OF fin] html not_blank [OF html(2)] show False
    by (simp add: finish_scan_def add_outside_def)
qed

lemma translate_split_checked:
  assumes "translate_split provider (\<lambda>u. case whole u of Inl e \<Rightarrow> Inl e
      | Inr r \<Rightarrow> (case check u r of Some e \<Rightarrow> Inl e | None \<Rightarrow> Inr r)) check html cs = Inr t"
  shows "check html t = None"
  using assms
  by (cases "length cs \<le> 1"; cases "whole html"; cases "translate_chunks provider 0 cs")
    (auto simp: translate_split_def Let_def split: option.splits)

section \<open>Evaluation on a concrete document\<close>

lemmas safety_eval = comments_loop.simps comment_effect_def cps_def strip_pfx_def slice_def trim_by_def
  is_ws_cp_def split_at_ws_def trim_end_def ends_with_slash_def is_ascii_alnum_def is_ascii_alpha_def
  is_digit_cp_def Let_def

lemma block_example:
  "validate_rich_html_source (\<lambda>t. None) (cps ''<!-- wp:p -->a<!-- /wp:p -->'') = None"
  "is_gutenberg_content (cps ''<!-- wp:p -->a<!-- /wp:p -->'')"
  by (simp add: validate_rich_html_source_def html_comments_def safety_eval)
    (simp add: is_gutenberg_content_def str_contains_def cps_def)

lemmas token_eval = scan_tokens.simps token_end_def printf_end_def brace_end_def printf_flags_def
  printf_lengths_def printf_conversions_def skip_argument_def skip_star_def skip_precision_def skip_one_def
  interpolation_tokens_def validate_interpolation_tokens_def implicit_printf_def

lemma translation_example:
  "translate_rich_html_blocks 1 (\<lambda>i t. Inr t) (\<lambda>t. Inr (cps ''%s{x}ho''))
      (\<lambda>h. map_option id (validate_rich_html_source (\<lambda>t. None) h))
      (\<lambda>s t. map_option id (validate_rich_html_translation (\<lambda>t. None) s t)) (cps ''hi%s{x}'') 0
    = Some (Inr (cps ''%s{x}ho''))"
proof -
  have "validate_rich_html_source (\<lambda>t. None) (cps ''hi%s{x}'') = None"
    by (simp add: validate_rich_html_source_def html_comments_def safety_eval)
  moreover have "validate_rich_html_translation (\<lambda>t. None) (cps ''hi%s{x}'') (cps ''%s{x}ho'') = None"
    by (simp add: validate_rich_html_translation_def html_comments_def safety_eval token_eval)
  moreover have "split_rich_html_by_blocks 1 (cps ''hi%s{x}'') 0 = Some [plain_chunk (cps ''hi%s{x}'')]"
    by (simp add: split_rich_html_by_blocks_def raw_blocks_def is_gutenberg_content_def str_contains_def scan_eval)
  ultimately show ?thesis
    by (simp add: translate_rich_html_blocks_def translate_split_def)
qed

section \<open>Properties\<close>

text \<open>
  C31: The source check is exactly the grammar of Gutenberg documents. A document passes the stack-based
  check when, and only when, every comment is terminated, every opening comment has a valid name and
  JSON-object attributes, and the block markers form a well-nested sequence with matching names.
\<close>

theorem source_check_is_block_grammar:
  "validate_rich_html_source parse html = None \<longleftrightarrow>
   (\<exists>bodies markers. comment_bodies html 0 = Some bodies
      \<and> those (map (marker_of parse) bodies) = Some markers \<and> nested (concat markers))"
proof -
  have "validate_rich_html_source parse html = None \<longleftrightarrow> (\<exists>cs. comments_loop parse html 0 [] = Inr cs)"
    by (auto simp: validate_rich_html_source_def html_comments_def split: sum.split)
  also have "\<dots> \<longleftrightarrow> (\<exists>ms. document_markers parse html 0 = Some ms \<and> nested ms)"
    by (simp add: comments_loop_accepts nested_iff_run)
  finally show ?thesis by (auto simp: document_markers_def bind_eq_Some_conv)
qed

end
