(* ===== verification/PhpSerialized.thy ===== *)
theory PhpSerialized
  imports ContentSafety
begin

text \<open>
  The rest of \<open>component_rt/content_safety.rs\<close>: the keys and strings that are never translated and the
  parser of PHP-serialized values that finds the strings to translate. Texts are lists of code points;
  the lengths that the format declares are UTF-8 byte lengths, and a length that ends inside a character is an
  error as in the source. A position is a code-point position, the source uses the byte position of the
  same place. The URL parser is an argument (the scheme of a text that is a URL).
\<close>

section \<open>Technical keys and strings\<close>

definition technical_names :: "utext list" where
  "technical_names = map cps
     [''id'', ''uuid'', ''guid'', ''key'', ''slug'', ''sku'', ''ref'', ''$ref'', ''@id'', ''reference'',
      ''references'', ''schema'', ''$schema'', ''@context'', ''version'', ''type'', ''@type'',
      ''eltype'', ''widgettype'', ''blockname'', ''mime'', ''mimetype'', ''contenttype'', ''url'',
      ''uri'', ''href'', ''src'', ''path'', ''filename'', ''classname'', ''class'', ''cssclass'',
      ''cssclasses'', ''style'', ''styles'', ''selector'', ''htmltag'', ''tagname'', ''tag'', ''icon'',
      ''lang'', ''language'', ''locale'']"

definition ascii_lower_cp :: "nat \<Rightarrow> nat" where
  "ascii_lower_cp c = (if 65 \<le> c \<and> c \<le> 90 then c + 32 else c)"

text \<open>\<open>rsplit\<close> of the NUL that separates the class of a private PHP property from its name.\<close>

definition last_segment :: "utext \<Rightarrow> utext" where
  "last_segment s = rev (takeWhile (\<lambda>c. c \<noteq> 0) (rev s))"

definition is_technical_key :: "utext \<Rightarrow> bool" where
  "is_technical_key raw =
     (let key = last_segment raw;
          lower = map ascii_lower_cp key;
          normalized = filter (\<lambda>c. c \<noteq> 95 \<and> c \<noteq> 45) lower in
      normalized \<in> set technical_names
      \<or> suffix (cps ''_id'') lower \<or> suffix (cps ''_ids'') lower
      \<or> suffix (cps ''Id'') key \<or> suffix (cps ''ID'') key
      \<or> suffix (cps ''_url'') lower \<or> suffix (cps ''Url'') key \<or> suffix (cps ''URL'') key)"

text \<open>\<open>parse::<f64>\<close>: which texts are numbers of the standard library.\<close>

definition strip_sign :: "utext \<Rightarrow> utext" where
  "strip_sign s = (case s of c # cs \<Rightarrow> if c = 43 \<or> c = 45 then cs else s | [] \<Rightarrow> [])"

definition all_digits :: "utext \<Rightarrow> bool" where
  "all_digits s \<longleftrightarrow> (\<forall>c \<in> set s. is_digit_cp c)"

definition is_exponent :: "utext \<Rightarrow> bool" where
  "is_exponent s \<longleftrightarrow> s = [] \<or> hd s \<in> {69, 101} \<and> strip_sign (tl s) \<noteq> [] \<and> all_digits (strip_sign (tl s))"

definition is_f64 :: "utext \<Rightarrow> bool" where
  "is_f64 raw =
     (let s = strip_sign raw;
          int_part = takeWhile is_digit_cp s;
          r = dropWhile is_digit_cp s;
          frac_part = (if r \<noteq> [] \<and> hd r = 46 then takeWhile is_digit_cp (tl r) else []);
          r' = (if r \<noteq> [] \<and> hd r = 46 then dropWhile is_digit_cp (tl r) else r) in
      map ascii_lower_cp s \<in> {cps ''inf'', cps ''infinity'', cps ''nan''}
      \<or> (int_part \<noteq> [] \<or> frac_part \<noteq> []) \<and> is_exponent r')"

definition dec_cps :: "utext \<Rightarrow> nat" where
  "dec_cps s = foldl (\<lambda>a c. 10 * a + (c - 48)) 0 s"

definition is_i64 :: "utext \<Rightarrow> bool" where
  "is_i64 raw =
     (let s = strip_sign raw in
      s \<noteq> [] \<and> all_digits s
      \<and> dec_cps s \<le> (if raw \<noteq> [] \<and> hd raw = 45 then 9223372036854775808 else 9223372036854775807))"

definition url_schemes :: "utext list" where
  "url_schemes = map cps [''http'', ''https'', ''ftp'', ''file'', ''s3'', ''gs'', ''oss'', ''mailto'', ''tel'', ''data'', ''urn'']"

definition is_technical_string :: "(utext \<Rightarrow> utext option) \<Rightarrow> utext \<Rightarrow> bool" where
  "is_technical_string url_scheme value =
     (let trimmed = trim_by is_ws_cp value in
      trimmed = []
      \<or> (case url_scheme trimmed of Some scheme \<Rightarrow> scheme \<in> set url_schemes | None \<Rightarrow> False)
      \<or> hd trimmed = 35 \<and> \<not> (\<exists>c \<in> set trimmed. is_ws_cp c)
      \<or> prefix (cps ''//'') trimmed
      \<or> is_f64 trimmed)"

section \<open>Byte lengths\<close>

definition utf8_len :: "nat \<Rightarrow> nat" where
  "utf8_len c = (if c < 128 then 1 else if c < 2048 then 2 else if c < 65536 then 3 else 4)"

definition blen :: "utext \<Rightarrow> nat" where
  "blen s = sum_list (map utf8_len s)"

text \<open>The characters of the first \<open>n\<close> bytes: \<open>None\<close> when the text is shorter or the cut is inside a character.\<close>

fun take_bytes :: "nat \<Rightarrow> utext \<Rightarrow> utext option" where
  "take_bytes n [] = (if n = 0 then Some [] else None)"
| "take_bytes n (c # cs) =
     (if n = 0 then Some []
      else if n < utf8_len c then None
      else map_option (Cons c) (take_bytes (n - utf8_len c) cs))"

lemma blen_simps [simp]:
  "blen [] = 0" "blen (c # s) = utf8_len c + blen s" "blen (s @ t) = blen s + blen t"
  by (simp_all add: blen_def)

lemma utf8_len_pos [simp]: "0 < utf8_len c" "utf8_len c \<noteq> 0"
  by (simp_all add: utf8_len_def)

lemma length_le_blen: "length s \<le> blen s"
  by (induction s) (auto simp: utf8_len_def)

lemma take_bytes_blen [simp]: "take_bytes (blen s) (s @ t) = Some s"
proof (induction s)
  case Nil
  then show ?case by (cases t) auto
next
  case (Cons c s)
  then show ?case by simp
qed

lemma take_bytes_Some: "take_bytes n s = Some v \<Longrightarrow> blen v = n \<and> prefix v s"
proof (induction n s arbitrary: v rule: take_bytes.induct)
  case (2 n c cs)
  then show ?case by (auto split: if_splits)
qed (auto split: if_splits)

section \<open>The parser\<close>

datatype php_error =
    NotSerialized
  | TrailingData nat
  | InvalidToken nat
  | InvalidLength nat
  | InvalidStringLength nat
  | InvalidUtf8Length nat
  | InvalidScalar nat
  | InvalidReference nat
  | InvalidKey nat
  | TooDeep
  | InvalidCount
  | InvalidPayloadLength
  | InvalidValue nat

record php_string =
  s_start :: nat
  s_end :: nat
  s_value :: utext
  s_ordinal :: nat
  s_value_id :: nat

record php_value =
  pv_object :: bool
  pv_preserve :: bool
  pv_children :: "nat list"

text \<open>\<open>remaining\<close> is the source from \<open>ppos\<close> on.\<close>

record php_parser =
  remaining :: utext
  ppos :: nat
  ordinal :: nat
  pvalues :: "php_value list"
  pstrings :: "php_string list"

type_synonym 'a php = "php_parser \<Rightarrow> php_error + 'a \<times> php_parser"

definition advance :: "nat \<Rightarrow> php_parser \<Rightarrow> php_parser" where
  "advance n st = st\<lparr>remaining := drop n (remaining st), ppos := ppos st + n\<rparr>"

definition pbind :: "'a php \<Rightarrow> ('a \<Rightarrow> 'b php) \<Rightarrow> 'b php" where
  "pbind m f st = (case m st of Inl e \<Rightarrow> Inl e | Inr (a, st') \<Rightarrow> f a st')"

definition pret :: "'a \<Rightarrow> 'a php" where
  "pret a st = Inr (a, st)"

definition pfail :: "php_error \<Rightarrow> 'a php" where
  "pfail e st = Inl e"

definition pthen :: "'a php \<Rightarrow> 'b php \<Rightarrow> 'b php" where
  "pthen m k = pbind m (\<lambda>_. k)"

definition ptake :: "utext \<Rightarrow> unit php" where
  "ptake expected st =
     (if prefix expected (remaining st) then Inr ((), advance (length expected) st)
      else Inl (InvalidToken (ppos st)))"

definition php_size :: "nat php" where
  "php_size st =
     (let digits = takeWhile is_digit_cp (remaining st) in
      if digits = [] \<or> u64_max < dec_cps digits then Inl (InvalidLength (ppos st))
      else Inr (dec_cps digits, advance (length digits) st))"

text \<open>The text of the given number of bytes.\<close>

definition php_bytes :: "nat \<Rightarrow> php_error \<Rightarrow> php_error \<Rightarrow> utext php" where
  "php_bytes n too_long inside st =
     (if blen (remaining st) < n then Inl too_long
      else case take_bytes n (remaining st) of
        None \<Rightarrow> Inl inside
      | Some v \<Rightarrow> Inr (v, advance (length v) st))"

definition raw_string :: "utext php" where
  "raw_string =
     pbind php_size (\<lambda>size.
     pthen (ptake (cps '':'' @ [34])) (\<lambda>st.
       (pbind (php_bytes size (InvalidStringLength (ppos st)) (InvalidUtf8Length (ppos st))) (\<lambda>v.
        pthen (ptake [34]) (pret v))) st))"

definition scalar_ok :: "nat \<Rightarrow> utext \<Rightarrow> bool" where
  "scalar_ok kind raw =
     (if kind = 98 then raw = [48] \<or> raw = [49]
      else if kind = 105 then is_i64 raw
      else if kind = 100 then
        raw \<in> {cps ''NAN'', cps ''INF'', cps ''-INF''}
        \<or> is_f64 raw \<and> (\<forall>c \<in> set raw. is_digit_cp c \<or> c \<in> {43, 45, 46, 101, 69})
      else False)"

definition php_scalar :: "nat \<Rightarrow> unit php" where
  "php_scalar kind st0 =
     pthen (ptake (cps '':'')) (\<lambda>st.
       (case find_sub [59] (remaining st) of
          None \<Rightarrow> Inl (InvalidScalar (ppos st))
        | Some n \<Rightarrow>
            if scalar_ok kind (take n (remaining st)) then Inr ((), advance (n + 1) st)
            else Inl (InvalidScalar (ppos st)))) (advance 1 st0)"

definition php_reference :: "nat \<Rightarrow> nat php" where
  "php_reference kind st0 =
     pthen (ptake (cps '':'')) (\<lambda>st.
       pbind php_size (\<lambda>vid st'.
         (let limit = length (pvalues st') - (if kind = 114 then 1 else 0) in
          if vid = 0 \<or> limit < vid \<or> kind = 114 \<and> \<not> pv_object (pvalues st' ! (vid - 1))
          then Inl (InvalidReference (ppos st))
          else pthen (ptake (cps '';'')) (pret vid) st')) st) (advance 1 st0)"

definition count_string :: "php_parser \<Rightarrow> php_parser" where
  "count_string st = st\<lparr>ordinal := ordinal st + 1\<rparr>"

definition php_key :: "bool \<Rightarrow> utext option php" where
  "php_key object st =
     (case remaining st of
        [] \<Rightarrow> Inl (InvalidKey (ppos st))
      | c # cs \<Rightarrow>
          if c = 115 then
            pthen (ptake (cps ''s:''))
              (pbind raw_string (\<lambda>key.
               pthen (ptake (cps '';'')) (\<lambda>st'. Inr (Some key, count_string st')))) st
          else if c = 105 \<and> \<not> object then pthen (php_scalar 105) (pret None) st
          else Inl (InvalidKey (ppos st)))"

definition add_child :: "nat \<Rightarrow> nat \<Rightarrow> php_parser \<Rightarrow> php_parser" where
  "add_child vid child st =
     st\<lparr>pvalues := (pvalues st)[vid - 1 :=
       (pvalues st ! (vid - 1))\<lparr>pv_children := pv_children (pvalues st ! (vid - 1)) @ [child]\<rparr>]\<rparr>"

definition mark_preserved :: "nat \<Rightarrow> bool \<Rightarrow> php_parser \<Rightarrow> php_parser" where
  "mark_preserved vid preserve st =
     st\<lparr>pvalues := (pvalues st)[vid - 1 :=
       (pvalues st ! (vid - 1))\<lparr>pv_preserve := pv_preserve (pvalues st ! (vid - 1)) \<or> preserve\<rparr>]\<rparr>"

definition push_value :: "bool \<Rightarrow> bool \<Rightarrow> php_parser \<Rightarrow> php_parser" where
  "push_value object preserve st =
     st\<lparr>pvalues := pvalues st @ [\<lparr>pv_object = object, pv_preserve = preserve, pv_children = []\<rparr>]\<rparr>"

text \<open>
  The members of a container: \<open>value\<close> parses a value one level deeper, \<open>vid\<close> is the container.
\<close>

primrec php_members :: "(bool \<Rightarrow> nat php) \<Rightarrow> bool \<Rightarrow> bool \<Rightarrow> nat \<Rightarrow> nat \<Rightarrow> unit php" where
  "php_members value object preserve vid 0 = pret ()"
| "php_members value object preserve vid (Suc n) =
     pbind (php_key object) (\<lambda>key.
     pbind (value (preserve \<or> (case key of Some k \<Rightarrow> is_technical_key k | None \<Rightarrow> False))) (\<lambda>child st.
     php_members value object preserve vid n (add_child vid child st)))"

definition php_string_value :: "(utext \<Rightarrow> utext option) \<Rightarrow> bool \<Rightarrow> nat \<Rightarrow> unit php" where
  "php_string_value url_scheme preserve vid st0 =
     pthen (ptake (cps ''s:''))
       (pbind raw_string (\<lambda>value.
        pthen (ptake (cps '';'')) (\<lambda>st.
          (let st' = count_string st in
           Inr ((), if \<not> preserve \<and> \<not> is_technical_string url_scheme value
             then st'\<lparr>pstrings := pstrings st' @
               [\<lparr>s_start = ppos st0, s_end = ppos st', s_value = value, s_ordinal = ordinal st', s_value_id = vid\<rparr>]\<rparr>
             else st'))))) st0"

definition php_container :: "(bool \<Rightarrow> nat php) \<Rightarrow> nat \<Rightarrow> bool \<Rightarrow> nat \<Rightarrow> unit php" where
  "php_container value kind preserve vid st0 =
     pthen (ptake (cps '':''))
       (pthen (if kind = 79 then pthen raw_string (ptake (cps '':'')) else pret ())
       (pbind php_size (\<lambda>n.
        pthen (ptake (cps '':{'')) (\<lambda>st.
          if blen (remaining st) < n then Inl InvalidCount
          else pthen (php_members value (kind = 79) preserve vid n) (ptake (cps ''}'')) st)))) (advance 1 st0)"

definition php_custom :: "unit php" where
  "php_custom =
     pthen (ptake (cps ''C:''))
       (pthen raw_string
       (pthen (ptake (cps '':''))
       (pbind php_size (\<lambda>size.
        pthen (ptake (cps '':{''))
       (pthen (php_bytes size InvalidPayloadLength InvalidPayloadLength)
       (ptake (cps ''}'')))))))"

text \<open>
  The body of \<open>value\<close> at one level: \<open>deeper\<close> is the next level.
\<close>

definition php_value_body ::
  "(utext \<Rightarrow> utext option) \<Rightarrow> (bool \<Rightarrow> nat php) \<Rightarrow> bool \<Rightarrow> nat php" where
  "php_value_body url_scheme deeper preserve st0 =
     (let kind = (case remaining st0 of [] \<Rightarrow> 0 | c # _ \<Rightarrow> c) in
      if kind = 82 then
        pbind (php_reference 82) (\<lambda>vid st. Inr (vid, mark_preserved vid preserve st)) st0
      else
        (let st = push_value (kind \<in> {79, 67, 114}) preserve st0;
             vid = length (pvalues st);
             body =
               (if kind = 78 then ptake (cps ''N;'')
                else if kind \<in> {98, 105, 100} then php_scalar kind
                else if kind = 114 then pbind (php_reference 114) (\<lambda>target st'. Inr ((), add_child vid target st'))
                else if kind = 115 then php_string_value url_scheme preserve vid
                else if kind = 97 \<or> kind = 79 then php_container deeper kind preserve vid
                else if kind = 67 then php_custom
                else (\<lambda>st'. Inl (InvalidValue (ppos st')))) in
         pthen body (pret vid) st))"

text \<open>
  \<open>levels\<close> is the number of levels left: the depth of the source is 129 less it, and at depth 129 the
  nesting is too deep.
\<close>

primrec php_value_at :: "(utext \<Rightarrow> utext option) \<Rightarrow> nat \<Rightarrow> bool \<Rightarrow> nat php" where
  "php_value_at url_scheme 0 preserve = pfail TooDeep"
| "php_value_at url_scheme (Suc levels) preserve =
     php_value_body url_scheme (php_value_at url_scheme levels) preserve"

lemma mark_fewer:
  assumes "i < length p" "\<not> p ! i"
  shows "length (filter Not (p[i := True])) < length (filter Not p)"
proof -
  have "filter Not (p[i := True]) = filter Not (take i p) @ filter Not (drop (Suc i) p)"
    using assms(1) by (simp add: upd_conv_take_nth_drop)
  moreover have "filter Not p = filter Not (take i p) @ p ! i # filter Not (drop (Suc i) p)"
    by (subst id_take_nth_drop [OF assms(1)]) (use assms(2) in simp)
  ultimately show ?thesis by simp
qed

text \<open>
  The work list of preserved values, the top of the stack first: \<open>None\<close> would be an index out of bounds.
\<close>

function mark_loop :: "php_value list \<Rightarrow> bool list \<Rightarrow> nat list \<Rightarrow> bool list option" where
  "mark_loop vs preserved [] = Some preserved"
| "mark_loop vs preserved (vid # todo) =
     (if vid = 0 \<or> length preserved < vid \<or> length vs < vid then None
      else if preserved ! (vid - 1) then mark_loop vs preserved todo
      else mark_loop vs (preserved[vid - 1 := True]) (rev (pv_children (vs ! (vid - 1))) @ todo))"
  by pat_completeness auto
termination
  by (relation "measures [\<lambda>(vs, p, todo). length (filter Not p), \<lambda>(vs, p, todo). length todo]")
    (auto intro: mark_fewer)

declare mark_loop.simps [simp del]

definition initially_preserved :: "php_value list \<Rightarrow> nat list" where
  "initially_preserved vs = map Suc (filter (\<lambda>i. pv_preserve (vs ! i)) [0 ..< length vs])"

definition preserved_values :: "php_value list \<Rightarrow> bool list option" where
  "preserved_values vs = mark_loop vs (replicate (length vs) False) (rev (initially_preserved vs))"

definition php_prefixes :: "utext list" where
  "php_prefixes = map cps [''a:'', ''O:'', ''s:'', ''N;'', ''b:'', ''i:'', ''d:'', ''C:'', ''R:'', ''r:'']"

definition php_start :: "utext \<Rightarrow> php_parser" where
  "php_start source = \<lparr>remaining = source, ppos = 0, ordinal = 0, pvalues = [], pstrings = []\<rparr>"

text \<open>\<open>None\<close> would be the index out of bounds of the work list.\<close>

definition php_translatable_strings ::
  "(utext \<Rightarrow> utext option) \<Rightarrow> utext \<Rightarrow> (php_error + php_string list) option" where
  "php_translatable_strings url_scheme source =
     (if \<not> (\<exists>p \<in> set php_prefixes. prefix p source) then Some (Inl NotSerialized)
      else case php_value_at url_scheme 129 False (php_start source) of
        Inl e \<Rightarrow> Some (Inl e)
      | Inr (_, st) \<Rightarrow>
          if remaining st \<noteq> [] then Some (Inl (TrailingData (ppos st)))
          else map_option (\<lambda>preserved. Inr (filter (\<lambda>s. \<not> preserved ! (s_value_id s - 1)) (pstrings st)))
                 (preserved_values (pvalues st)))"

section \<open>What the primitives consume\<close>

lemmas pm_defs = pbind_def pret_def pfail_def pthen_def

lemma pbind_Inr: "pbind m f st = Inr (b, st') \<longleftrightarrow> (\<exists>a st1. m st = Inr (a, st1) \<and> f a st1 = Inr (b, st'))"
  by (auto simp: pbind_def split: sum.splits)

lemma pthen_Inr: "pthen m k st = Inr (b, st') \<longleftrightarrow> (\<exists>a st1. m st = Inr (a, st1) \<and> k st1 = Inr (b, st'))"
  by (simp add: pthen_def pbind_Inr)

lemma pret_Inr: "pret a st = Inr (b, st') \<longleftrightarrow> a = b \<and> st = st'"
  by (auto simp: pret_def)

lemmas p_simps = pbind_Inr pthen_Inr pret_Inr

definition eats :: "utext \<Rightarrow> php_parser \<Rightarrow> php_parser \<Rightarrow> bool" where
  "eats x st st' \<longleftrightarrow> prefix x (remaining st) \<and> st' = advance (length x) st"

lemma eats_trans: "eats x st st1 \<Longrightarrow> eats y st1 st2 \<Longrightarrow> eats (x @ y) st st2"
  by (auto simp: eats_def advance_def prefix_def)

lemma eats_advance1: "eats (c # x) st st' \<longleftrightarrow> (\<exists>cs. remaining st = c # cs) \<and> eats x (advance 1 st) st'"
  by (cases "remaining st") (auto simp: eats_def advance_def)

lemma ptake_eats: "ptake e st = Inr (u, st') \<longleftrightarrow> eats e st st'"
  by (auto simp: ptake_def eats_def)

definition size_digits :: "utext \<Rightarrow> nat \<Rightarrow> bool" where
  "size_digits d n \<longleftrightarrow> d \<noteq> [] \<and> all_digits d \<and> dec_cps d = n \<and> n \<le> u64_max"

lemma php_size_eats:
  "php_size st = Inr (n, st') \<Longrightarrow> \<exists>d. eats d st st' \<and> size_digits d n"
  by (rule exI [of _ "takeWhile is_digit_cp (remaining st)"])
    (auto simp: php_size_def Let_def eats_def size_digits_def all_digits_def takeWhile_is_prefix
      dest: set_takeWhileD split: if_splits)

lemma php_bytes_eats: "php_bytes n e1 e2 st = Inr (v, st') \<Longrightarrow> eats v st st' \<and> blen v = n"
  by (auto simp: php_bytes_def eats_def dest: take_bytes_Some split: if_splits option.splits)

definition quoted :: "utext \<Rightarrow> utext \<Rightarrow> utext" where
  "quoted d v = d @ [58, 34] @ v @ [34]"

lemma raw_string_eats:
  assumes "raw_string st = Inr (v, st')"
  shows "\<exists>d. eats (quoted d v) st st' \<and> size_digits d (blen v)"
proof -
  from assms obtain n st1 st2 st3 where
    n: "php_size st = Inr (n, st1)" and q: "eats [58, 34] st1 st2"
    and v: "eats v st2 st3" "blen v = n" and e: "eats [34] st3 st'"
    by (auto simp: raw_string_def p_simps ptake_eats cps_def dest!: php_bytes_eats)
  from php_size_eats [OF n] obtain d where "eats d st st1" "size_digits d n" by blast
  with q v e show ?thesis unfolding quoted_def by (meson eats_trans)
qed

lemma php_scalar_eats:
  assumes "php_scalar kind st = Inr (u, st')"
  shows "\<exists>c raw. eats (c # 58 # raw @ [59]) st st' \<and> scalar_ok kind raw"
proof -
  from assms obtain st1 n where t: "eats [58] (advance 1 st) st1"
    and n: "find_sub [59] (remaining st1) = Some n" "scalar_ok kind (take n (remaining st1))"
    and st': "st' = advance (n + 1) st1"
    by (auto simp: php_scalar_def p_simps ptake_eats cps_def split: option.splits if_splits)
  have "take (length [59::nat]) (drop n (remaining st1)) = [59]" using find_sub_Some_split [OF n(1)] by blast
  then have "take n (remaining st1) @ [59] = take (n + 1) (remaining st1)"
    using take_add [of n 1 "remaining st1"] by simp
  then have "eats (take n (remaining st1) @ [59]) st1 st'"
    using find_sub_Some_split [OF n(1)] by (simp add: eats_def st' take_is_prefix)
  with t have "eats (58 # take n (remaining st1) @ [59]) (advance 1 st) st'"
    using eats_trans [OF t] by simp
  moreover have "remaining st \<noteq> []" using t by (auto simp: eats_def advance_def)
  ultimately show ?thesis using n(2) by (cases "remaining st") (auto simp: eats_advance1)
qed

lemma php_reference_eats:
  assumes "php_reference kind st = Inr (vid, st')"
  shows "(\<exists>x. eats x st st') \<and> 0 < vid \<and> vid \<le> length (pvalues st)"
proof -
  from assms obtain st1 st2 where t: "eats [58] (advance 1 st) st1"
    and n: "php_size st1 = Inr (vid, st2)" and e: "eats [59] st2 st'"
    and v: "0 < vid" "vid \<le> length (pvalues st2)"
    by (auto simp: php_reference_def p_simps ptake_eats cps_def Let_def split: if_splits)
  from php_size_eats [OF n] obtain d where d: "eats d st1 st2" by blast
  from eats_trans [OF eats_trans [OF t d] e] have x: "eats (([58] @ d) @ [59]) (advance 1 st) st'" .
  moreover have "remaining st \<noteq> []" using t by (auto simp: eats_def advance_def)
  moreover have "pvalues st2 = pvalues st" using t d by (simp add: eats_def advance_def)
  ultimately show ?thesis using v by (cases "remaining st") (auto simp: eats_advance1 intro!: exI [of _ "hd (remaining st) # ([58] @ d) @ [59]"])
qed

text \<open>The text of a serialized string.\<close>

definition string_token :: "utext \<Rightarrow> utext \<Rightarrow> utext" where
  "string_token d v = [115, 58] @ quoted d v @ [59]"

lemma string_token_eats:
  assumes "eats [115, 58] st st1" "raw_string st1 = Inr (v, st2)" "eats [59] st2 st3"
  shows "\<exists>d. eats (string_token d v) st st3 \<and> size_digits d (blen v)"
  using raw_string_eats [OF assms(2)] eats_trans [OF assms(1)] eats_trans [OF _ assms(3)]
  unfolding string_token_def by (metis append_assoc)

lemma php_key_eats:
  assumes "php_key object st = Inr (key, st')"
  shows "\<exists>x st1. eats x st st1 \<and> (st' = st1 \<and> key = None \<or> st' = count_string st1 \<and> key \<noteq> None)"
proof -
  have "(\<exists>st1. php_scalar 105 st = Inr ((), st1) \<and> st' = st1 \<and> key = None)
    \<or> (\<exists>st1 st2 v st3. eats [115, 58] st st1 \<and> raw_string st1 = Inr (v, st2) \<and> eats [59] st2 st3
         \<and> st' = count_string st3 \<and> key = Some v)"
    using assms by (auto simp: php_key_def p_simps ptake_eats cps_def split: list.splits if_splits)
  then show ?thesis using php_scalar_eats string_token_eats by (metis option.distinct(1))
qed

section \<open>What every successful parse keeps\<close>

text \<open>A found string is a string token of the source, and its declared length is the byte length of its value.\<close>

definition exact_leaf :: "utext \<Rightarrow> php_string \<Rightarrow> bool" where
  "exact_leaf src s \<longleftrightarrow> s_end s \<le> length src
     \<and> (\<exists>d. slice src (s_start s) (s_end s) = string_token d (s_value s) \<and> size_digits d (blen (s_value s)))"

text \<open>Found strings in order, between two positions and two ordinals.\<close>

fun leaves_from :: "utext \<Rightarrow> nat \<Rightarrow> nat \<Rightarrow> php_string list \<Rightarrow> nat \<Rightarrow> nat \<Rightarrow> bool" where
  "leaves_from src p k [] q k' \<longleftrightarrow> p \<le> q \<and> k \<le> k'"
| "leaves_from src p k (s # ss) q k' \<longleftrightarrow>
     p \<le> s_start s \<and> exact_leaf src s \<and> k < s_ordinal s \<and> leaves_from src (s_end s) (s_ordinal s) ss q k'"

lemma exact_leaf_order: "exact_leaf src s \<Longrightarrow> s_start s < s_end s"
proof -
  assume "exact_leaf src s"
  then obtain d where "slice src (s_start s) (s_end s) = string_token d (s_value s)"
    by (auto simp: exact_leaf_def)
  then have "slice src (s_start s) (s_end s) \<noteq> []" by (simp add: string_token_def)
  then show ?thesis by (auto simp: slice_def)
qed

lemma leaves_from_weaken: "leaves_from src p k ss q k' \<Longrightarrow> p' \<le> p \<Longrightarrow> j \<le> k \<Longrightarrow> leaves_from src p' j ss q k'"
  by (cases ss) auto

lemma leaves_from_append:
  "leaves_from src p k xs q k' \<Longrightarrow> leaves_from src q k' ys r k'' \<Longrightarrow> leaves_from src p k (xs @ ys) r k''"
  by (induction xs arbitrary: p k) (auto elim: leaves_from_weaken)

definition values_valid :: "php_parser \<Rightarrow> bool" where
  "values_valid st \<longleftrightarrow>
     (\<forall>v \<in> set (pvalues st). \<forall>c \<in> set (pv_children v). 0 < c \<and> c \<le> length (pvalues st))
     \<and> (\<forall>s \<in> set (pstrings st). 0 < s_value_id s \<and> s_value_id s \<le> length (pvalues st))"

definition good :: "utext \<Rightarrow> php_parser \<Rightarrow> bool" where
  "good src st \<longleftrightarrow> ppos st \<le> length src \<and> remaining st = drop (ppos st) src \<and> values_valid st"

definition reaches :: "utext \<Rightarrow> php_parser \<Rightarrow> php_parser \<Rightarrow> bool" where
  "reaches src st st' \<longleftrightarrow> good src st' \<and> length (pvalues st) \<le> length (pvalues st')
     \<and> (\<exists>new. pstrings st' = pstrings st @ new
          \<and> leaves_from src (ppos st) (ordinal st) new (ppos st') (ordinal st'))"

lemma reaches_good: "reaches src st st' \<Longrightarrow> good src st'"
  by (simp add: reaches_def)

lemma reaches_refl: "good src st \<Longrightarrow> reaches src st st"
  by (auto simp: reaches_def intro!: exI [of _ "[]"])

lemma reaches_trans: "reaches src st st1 \<Longrightarrow> reaches src st1 st2 \<Longrightarrow> reaches src st st2"
  by (auto simp: reaches_def intro: leaves_from_append)

lemma eats_fields:
  "eats x st st' \<Longrightarrow> pvalues st' = pvalues st \<and> pstrings st' = pstrings st \<and> ordinal st' = ordinal st
     \<and> ppos st' = ppos st + length x \<and> remaining st = x @ remaining st'"
  by (auto simp: eats_def advance_def prefix_def)

lemma eats_slice:
  assumes "eats x st st'" "good src st"
  shows "slice src (ppos st) (ppos st') = x" and "ppos st' \<le> length src"
    and "remaining st' = drop (ppos st') src"
proof -
  have r: "drop (ppos st) src = x @ remaining st'" "ppos st' = ppos st + length x"
    using assms eats_fields [OF assms(1)] by (auto simp: good_def)
  from r show "slice src (ppos st) (ppos st') = x" by (simp add: slice_def)
  have "length x \<le> length src - ppos st" using arg_cong [OF r(1), of length] by simp
  with r(2) assms(2) show "ppos st' \<le> length src" by (auto simp: good_def)
  have "drop (length x) (drop (ppos st) src) = remaining st'" using r(1) by simp
  with r(2) show "remaining st' = drop (ppos st') src" by (simp add: add.commute)
qed

lemma eats_reaches:
  assumes "eats x st st'" "good src st"
  shows "reaches src st st'"
  using eats_fields [OF assms(1)] eats_slice [OF assms] assms(2)
  by (auto simp: reaches_def good_def values_valid_def intro!: exI [of _ "[]"])

lemma count_reaches: "good src st \<Longrightarrow> reaches src st (count_string st)"
  by (auto simp: reaches_def good_def values_valid_def count_string_def intro!: exI [of _ "[]"])

lemma push_reaches:
  assumes "good src st"
  shows "reaches src st (push_value obj preserve st)"
    and "0 < length (pvalues (push_value obj preserve st))"
  using assms by (fastforce simp: reaches_def good_def values_valid_def push_value_def intro!: exI [of _ "[]"])+

lemma update_valid:
  assumes "\<forall>v \<in> set vs. P v" "i < length vs" "P (f (vs ! i))"
  shows "\<forall>v \<in> set (vs[i := f (vs ! i)]). P v"
  using assms set_update_subset_insert [of vs i "f (vs ! i)"] by auto

lemma child_reaches:
  assumes "good src st" "0 < vid" "vid \<le> length (pvalues st)" "0 < c" "c \<le> length (pvalues st)"
  shows "reaches src st (add_child vid c st)"
proof -
  have "vid - 1 < length (pvalues st)" using assms by linarith
  then have "\<forall>v \<in> set (pvalues (add_child vid c st)). \<forall>k \<in> set (pv_children v). 0 < k \<and> k \<le> length (pvalues st)"
    using assms unfolding add_child_def
    by (simp del: One_nat_def, intro update_valid)
      (auto simp: good_def values_valid_def dest: nth_mem)
  with assms show ?thesis
    by (auto simp: reaches_def good_def values_valid_def add_child_def intro!: exI [of _ "[]"])
qed

lemma mark_reaches:
  assumes "good src st" "0 < vid" "vid \<le> length (pvalues st)"
  shows "reaches src st (mark_preserved vid p st)"
proof -
  have "vid - 1 < length (pvalues st)" using assms by linarith
  then have "\<forall>v \<in> set (pvalues (mark_preserved vid p st)). \<forall>k \<in> set (pv_children v). 0 < k \<and> k \<le> length (pvalues st)"
    using assms unfolding mark_preserved_def
    by (simp del: One_nat_def, intro update_valid)
      (auto simp: good_def values_valid_def dest: nth_mem)
  with assms show ?thesis
    by (auto simp: reaches_def good_def values_valid_def mark_preserved_def intro!: exI [of _ "[]"])
qed

text \<open>A parser of a value: it goes on from any good state, and its result is a value of the new state.\<close>

definition value_parser :: "utext \<Rightarrow> (bool \<Rightarrow> nat php) \<Rightarrow> bool" where
  "value_parser src value \<longleftrightarrow> (\<forall>preserve st c st'. good src st \<longrightarrow> value preserve st = Inr (c, st') \<longrightarrow>
     reaches src st st' \<and> 0 < c \<and> c \<le> length (pvalues st'))"

lemma key_reaches: "good src st \<Longrightarrow> php_key object st = Inr (key, st') \<Longrightarrow> reaches src st st'"
  using php_key_eats [of object st key st'] eats_reaches count_reaches reaches_trans reaches_good by metis

lemma members_reach:
  assumes "value_parser src value"
  shows "good src st \<Longrightarrow> 0 < vid \<Longrightarrow> vid \<le> length (pvalues st) \<Longrightarrow>
    php_members value object preserve vid n st = Inr (u, st') \<Longrightarrow> reaches src st st'"
proof (induction n arbitrary: st)
  case 0
  then show ?case by (auto simp: p_simps reaches_refl)
next
  case (Suc n)
  from Suc.prems(4) obtain key st1 c st2 where
    k: "php_key object st = Inr (key, st1)"
    and v: "value (preserve \<or> (case key of Some k \<Rightarrow> is_technical_key k | None \<Rightarrow> False)) st1 = Inr (c, st2)"
    and rest: "php_members value object preserve vid n (add_child vid c st2) = Inr (u, st')"
    by (auto simp: p_simps)
  have r1: "reaches src st st1" using key_reaches Suc.prems(1) k .
  have "reaches src st1 st2 \<and> 0 < c \<and> c \<le> length (pvalues st2)"
    using assms v reaches_good [OF r1] unfolding value_parser_def by blast
  then have r2: "reaches src st1 st2" and c: "0 < c" "c \<le> length (pvalues st2)" by auto
  from reaches_trans [OF r1 r2] Suc.prems(3) have vid: "vid \<le> length (pvalues st2)"
    by (simp add: reaches_def)
  have r3: "reaches src st2 (add_child vid c st2)"
    using child_reaches [OF reaches_good [OF r2] Suc.prems(2) vid c] .
  have "reaches src (add_child vid c st2) st'"
    by (rule Suc.IH [OF reaches_good [OF r3] Suc.prems(2) _ rest]) (use vid in \<open>simp add: add_child_def\<close>)
  with r1 r2 r3 show ?case by (meson reaches_trans)
qed

lemma string_value_reaches:
  assumes "good src st" "0 < vid" "vid \<le> length (pvalues st)"
    and run: "php_string_value url preserve vid st = Inr (u, st')"
  shows "reaches src st st'"
proof -
  from run obtain st1 v st2 st3 where
    t: "eats [115, 58] st st1" "raw_string st1 = Inr (v, st2)" "eats [59] st2 st3"
    and st': "st' = (if \<not> preserve \<and> \<not> is_technical_string url v
       then (count_string st3)\<lparr>pstrings := pstrings (count_string st3) @
         [\<lparr>s_start = ppos st, s_end = ppos st3, s_value = v, s_ordinal = ordinal st3 + 1, s_value_id = vid\<rparr>]\<rparr>
       else count_string st3)"
    by (auto simp: php_string_value_def p_simps ptake_eats cps_def Let_def count_string_def split: if_splits)
  from string_token_eats [OF t] obtain d where d: "eats (string_token d v) st st3" "size_digits d (blen v)"
    by blast
  note r = eats_reaches [OF d(1) assms(1)]
  show ?thesis
  proof (cases "\<not> preserve \<and> \<not> is_technical_string url v")
    case False
    then have "st' = count_string st3" using st' by auto
    with r count_reaches reaches_trans reaches_good show ?thesis by metis
  next
    case True
    define s where "s = \<lparr>s_start = ppos st, s_end = ppos st3, s_value = v, s_ordinal = ordinal st3 + 1, s_value_id = vid\<rparr>"
    from True st' have st'2: "st' = (count_string st3)\<lparr>pstrings := pstrings st @ [s]\<rparr>"
      using eats_fields [OF d(1)] by (simp add: s_def count_string_def)
    have leaf: "exact_leaf src s"
      using eats_slice [OF d(1) assms(1)] d(2) by (auto simp: exact_leaf_def s_def)
    have "leaves_from src (ppos st) (ordinal st) [s] (ppos st') (ordinal st')"
      using leaf eats_fields [OF d(1)] by (simp add: st'2 s_def count_string_def)
    moreover have "good src st'"
      using reaches_good [OF r] assms(2,3) eats_fields [OF d(1)]
      by (auto simp: st'2 good_def values_valid_def count_string_def s_def)
    ultimately show ?thesis using eats_fields [OF d(1)] by (auto simp: reaches_def st'2 count_string_def)
  qed
qed

lemma container_reaches:
  assumes "value_parser src value" "good src st" "0 < vid" "vid \<le> length (pvalues st)"
    and run: "php_container value kind preserve vid st = Inr (u, st')" and kind: "remaining st \<noteq> []"
  shows "reaches src st st'"
proof -
  from run obtain st1 st2 n st3 st4 st5 where
    t: "eats [58] (advance 1 st) st1"
    and name: "st1 = st2 \<or> (\<exists>v st'. raw_string st1 = Inr (v, st') \<and> eats [58] st' st2)"
    and n: "php_size st2 = Inr (n, st3)" and b: "eats [58, 123] st3 st4"
    and m: "php_members value (kind = 79) preserve vid n st4 = Inr ((), st5)" and e: "eats [125] st5 st'"
    by (auto simp: php_container_def p_simps ptake_eats cps_def split: if_splits) metis+
  from kind obtain c cs where "remaining st = c # cs" by (cases "remaining st") auto
  with t have t': "eats (c # [58]) st st1" by (simp add: eats_advance1)
  obtain x where x: "eats x st1 st2"
  proof (cases "st1 = st2")
    case True
    then have "eats [] st1 st2" by (simp add: eats_def advance_def)
    then show ?thesis by (rule that)
  next
    case False
    with name obtain v st'' where "raw_string st1 = Inr (v, st'')" "eats [58] st'' st2" by blast
    with raw_string_eats eats_trans that show ?thesis by metis
  qed
  from php_size_eats [OF n] obtain d where d: "eats d st2 st3" by blast
  from eats_trans [OF eats_trans [OF eats_trans [OF t' x] d] b]
  have up: "eats ((((c # [58]) @ x) @ d) @ [58, 123]) st st4" .
  note r1 = eats_reaches [OF up assms(2)]
  have "vid \<le> length (pvalues st4)" using assms(4) eats_fields [OF up] by simp
  from members_reach [OF assms(1) reaches_good [OF r1] assms(3) this m]
  have r2: "reaches src st4 st5" .
  from eats_reaches [OF e reaches_good [OF r2]] r1 r2 show ?thesis by (meson reaches_trans)
qed

lemma custom_eats:
  assumes "php_custom st = Inr (u, st')"
  shows "\<exists>x. eats x st st'"
proof -
  from assms obtain st1 v st2 st3 n st4 st5 w st6 where
    a: "eats [67, 58] st st1" and r: "raw_string st1 = Inr (v, st2)" and b: "eats [58] st2 st3"
    and n: "php_size st3 = Inr (n, st4)" and c: "eats [58, 123] st4 st5"
    and w: "eats w st5 st6" and e: "eats [125] st6 st'"
    by (auto simp: php_custom_def p_simps ptake_eats cps_def dest!: php_bytes_eats)
  from raw_string_eats [OF r] obtain y where y: "eats y st1 st2" by blast
  from php_size_eats [OF n] obtain d where d: "eats d st3 st4" by blast
  from eats_trans [OF eats_trans [OF eats_trans [OF eats_trans [OF eats_trans [OF eats_trans [OF a y] b] d] c] w] e]
  show ?thesis by blast
qed

lemma reference_reaches:
  assumes "good src st" "php_reference kind st = Inr (vid, st')"
  shows "reaches src st st'" and "0 < vid" and "vid \<le> length (pvalues st')"
proof -
  from php_reference_eats [OF assms(2)] obtain x where x: "eats x st st'" and v: "0 < vid" "vid \<le> length (pvalues st)"
    by blast
  from eats_reaches [OF x assms(1)] show "reaches src st st'" .
  from v eats_fields [OF x] show "0 < vid" "vid \<le> length (pvalues st')" by auto
qed

lemma value_body_parser:
  assumes "value_parser src deeper"
  shows "value_parser src (php_value_body url deeper)"
  unfolding value_parser_def
proof (intro allI impI)
  fix preserve st0 c st'
  assume g: "good src st0" and run: "php_value_body url deeper preserve st0 = Inr (c, st')"
  define kind where "kind = (case remaining st0 of [] \<Rightarrow> 0 | c # _ \<Rightarrow> c)"
  show "reaches src st0 st' \<and> 0 < c \<and> c \<le> length (pvalues st')"
  proof (cases "kind = 82")
    case True
    with run obtain st1 where r: "php_reference 82 st0 = Inr (c, st1)" and st': "st' = mark_preserved c preserve st1"
      by (auto simp: php_value_body_def Let_def p_simps kind_def [symmetric])
    note ref = reference_reaches [OF g r]
    from mark_reaches [OF reaches_good [OF ref(1)] ref(2,3)] ref st' show ?thesis
      by (auto intro: reaches_trans simp: mark_preserved_def)
  next
    case False
    define st where "st = push_value (kind \<in> {79, 67, 114}) preserve st0"
    define vid where "vid = length (pvalues st)"
    have r0: "reaches src st0 st" and vid: "0 < vid" using push_reaches [OF g] by (simp_all add: st_def vid_def)
    note gst = reaches_good [OF r0]
    have rem: "kind \<noteq> 0 \<Longrightarrow> remaining st \<noteq> []"
      by (auto simp: kind_def st_def push_value_def split: list.splits)
    define body where "body =
      (if kind = 78 then ptake (cps ''N;'')
       else if kind \<in> {98, 105, 100} then php_scalar kind
       else if kind = 114 then pbind (php_reference 114) (\<lambda>target st'. Inr ((), add_child vid target st'))
       else if kind = 115 then php_string_value url preserve vid
       else if kind = 97 \<or> kind = 79 then php_container deeper kind preserve vid
       else if kind = 67 then php_custom
       else (\<lambda>st'. Inl (InvalidValue (ppos st'))))"
    have "php_value_body url deeper preserve st0 = pthen body (pret vid) st"
      unfolding php_value_body_def kind_def [symmetric] Let_def st_def [symmetric] vid_def [symmetric]
        body_def [symmetric] using False by simp
    with run have b: "body st = Inr ((), st')" and c: "c = vid" by (auto simp: p_simps)
    have scalar: "php_scalar kind st = Inr ((), st') \<Longrightarrow> reaches src st st'"
      using php_scalar_eats eats_reaches gst by blast
    have "reaches src st st'"
    proof -
      consider "kind = 78" | "kind \<in> {98, 105, 100}" | "kind = 114" | "kind = 115" | "kind = 97 \<or> kind = 79" | "kind = 67"
        using b by (auto simp: body_def split: if_splits)
      then show ?thesis
      proof cases
        case 1
        with b have "eats (cps ''N;'') st st'" by (simp add: body_def ptake_eats)
        then show ?thesis by (rule eats_reaches [OF _ gst])
      next
        case 2
        with b scalar show ?thesis by (auto simp: body_def)
      next
        case 3
        with b obtain target st1 where t: "php_reference 114 st = Inr (target, st1)"
          and st': "st' = add_child vid target st1" by (auto simp: body_def p_simps)
        note ref = reference_reaches [OF gst t]
        have "vid \<le> length (pvalues st1)" using ref(1) by (simp add: reaches_def vid_def)
        from child_reaches [OF reaches_good [OF ref(1)] vid this ref(2,3)] ref(1) st' show ?thesis
          by (auto intro: reaches_trans)
      next
        case 4
        with b string_value_reaches [OF gst vid] show ?thesis by (auto simp: body_def vid_def)
      next
        case 5
        with b container_reaches [OF assms gst vid _ _ rem] show ?thesis by (auto simp: body_def vid_def)
      next
        case 6
        with b custom_eats eats_reaches [OF _ gst] show ?thesis by (fastforce simp: body_def)
      qed
    qed
    with r0 vid c show ?thesis by (auto simp: reaches_def vid_def intro: leaves_from_append)
  qed
qed

lemma value_at_parser: "value_parser src (php_value_at url levels)"
proof (induction levels)
  case 0
  then show ?case by (simp add: value_parser_def pfail_def)
next
  case (Suc levels)
  from value_body_parser [OF this, of url] show ?case by (simp add: value_parser_def)
qed

lemma start_good: "good src (php_start src)"
  by (simp add: good_def php_start_def values_valid_def)

section \<open>The closure of the preserved values\<close>

definition value_edges :: "php_value list \<Rightarrow> (nat \<times> nat) set" where
  "value_edges vs = {(i, c). 0 < i \<and> i \<le> length vs \<and> c \<in> set (pv_children (vs ! (i - 1)))}"

definition marked :: "bool list \<Rightarrow> nat set" where
  "marked p = {i. 0 < i \<and> i \<le> length p \<and> p ! (i - 1)}"

lemma marked_update: "0 < i \<Longrightarrow> i \<le> length p \<Longrightarrow> marked (p[i - 1 := True]) = insert i (marked p)"
  by (auto simp: marked_def nth_list_update split: if_splits)

lemma mark_loop_closure:
  assumes "\<forall>v \<in> set vs. \<forall>c \<in> set (pv_children v). 0 < c \<and> c \<le> length vs"
  shows "length p = length vs \<Longrightarrow> \<forall>i \<in> set todo. 0 < i \<and> i \<le> length vs \<Longrightarrow>
    \<forall>(i, c) \<in> value_edges vs. i \<in> marked p \<longrightarrow> c \<in> marked p \<or> c \<in> set todo \<Longrightarrow>
    \<exists>p'. mark_loop vs p todo = Some p' \<and> length p' = length vs
      \<and> marked p' = (value_edges vs)\<^sup>* `` (marked p \<union> set todo)"
  using assms
proof (induction vs p todo rule: mark_loop.induct)
  case (1 vs p)
  have "(value_edges vs)\<^sup>* `` marked p \<subseteq> marked p"
  proof (clarify)
    fix i j assume "(i, j) \<in> (value_edges vs)\<^sup>*" "i \<in> marked p"
    then show "j \<in> marked p" by (induction rule: rtrancl_induct) (use 1(3) in auto)
  qed
  with 1 show ?case by (auto simp: mark_loop.simps)
next
  case (2 vs p i todo)
  let ?E = "value_edges vs"
  from 2(4) have i: "0 < i" "i \<le> length vs" by auto
  show ?case
  proof (cases "p ! (i - 1)")
    case True
    then have im: "i \<in> marked p" using i 2(3) by (simp add: marked_def)
    then have "?E\<^sup>* `` (marked p \<union> set (i # todo)) = ?E\<^sup>* `` (marked p \<union> set todo)" by auto
    moreover have "mark_loop vs p (i # todo) = mark_loop vs p todo"
      using i 2(3) True by (simp add: mark_loop.simps)
    moreover have "\<forall>(j, c) \<in> ?E. j \<in> marked p \<longrightarrow> c \<in> marked p \<or> c \<in> set todo"
      using 2(5) im by fastforce
    ultimately show ?thesis using 2(1) [OF _ True 2(3) _ _ 2(6)] i 2(3,4) by simp
  next
    case False
    let ?p = "p[i - 1 := True]" and ?todo = "rev (pv_children (vs ! (i - 1))) @ todo"
    have kids: "\<forall>c \<in> set (pv_children (vs ! (i - 1))). 0 < c \<and> c \<le> length vs \<and> (i, c) \<in> ?E"
      using i 2(6) nth_mem [of "i - 1" vs] by (auto simp: value_edges_def)
    have mp: "marked ?p = insert i (marked p)" by (rule marked_update) (use i 2(3) in simp_all)
    have step: "mark_loop vs p (i # todo) = mark_loop vs ?p ?todo"
      using i 2(3) False by (simp add: mark_loop.simps(2) [of vs p i todo])
    have edges: "\<forall>(j, c) \<in> ?E. j \<in> marked ?p \<longrightarrow> c \<in> marked ?p \<or> c \<in> set ?todo"
      using 2(5) unfolding mp by (auto simp: value_edges_def)
    have "\<exists>p'. mark_loop vs ?p ?todo = Some p' \<and> length p' = length vs
      \<and> marked p' = ?E\<^sup>* `` (marked ?p \<union> set ?todo)"
      by (rule 2(2) [OF _ False _ _ edges 2(6)]) (use i 2(3,4) kids in auto)
    moreover have "?E\<^sup>* `` (marked ?p \<union> set ?todo) = ?E\<^sup>* `` (marked p \<union> set (i # todo))"
    proof
      show "?E\<^sup>* `` (marked ?p \<union> set ?todo) \<subseteq> ?E\<^sup>* `` (marked p \<union> set (i # todo))"
        using kids unfolding mp by (auto intro: converse_rtrancl_into_rtrancl)
      show "?E\<^sup>* `` (marked p \<union> set (i # todo)) \<subseteq> ?E\<^sup>* `` (marked ?p \<union> set ?todo)"
        unfolding mp by auto
    qed
    ultimately show ?thesis by (simp add: step)
  qed
qed

lemma preserved_values_closure:
  assumes "\<forall>v \<in> set vs. \<forall>c \<in> set (pv_children v). 0 < c \<and> c \<le> length vs"
  shows "\<exists>p. preserved_values vs = Some p \<and> length p = length vs
    \<and> (\<forall>j. 0 < j \<and> j \<le> length vs \<longrightarrow>
         p ! (j - 1) = (\<exists>i. 0 < i \<and> i \<le> length vs \<and> pv_preserve (vs ! (i - 1)) \<and> (i, j) \<in> (value_edges vs)\<^sup>*))"
proof -
  let ?p = "replicate (length vs) False"
  have none: "marked ?p = {}" by (auto simp: marked_def)
  have seeds: "set (rev (initially_preserved vs)) = {i. 0 < i \<and> i \<le> length vs \<and> pv_preserve (vs ! (i - 1))}"
  proof (intro set_eqI iffI)
    fix i assume "i \<in> {i. 0 < i \<and> i \<le> length vs \<and> pv_preserve (vs ! (i - 1))}"
    then have "i = Suc (i - 1)" "i - 1 \<in> set (filter (\<lambda>i. pv_preserve (vs ! i)) [0 ..< length vs])" by auto
    then show "i \<in> set (rev (initially_preserved vs))"
      unfolding initially_preserved_def set_rev set_map by blast
  qed (auto simp: initially_preserved_def)
  have "\<exists>p. mark_loop vs ?p (rev (initially_preserved vs)) = Some p \<and> length p = length vs
      \<and> marked p = (value_edges vs)\<^sup>* `` (marked ?p \<union> set (rev (initially_preserved vs)))"
    by (rule mark_loop_closure [OF assms]) (unfold none seeds, auto)
  then obtain p where p: "preserved_values vs = Some p" "length p = length vs"
    and m: "marked p = (value_edges vs)\<^sup>* `` {i. 0 < i \<and> i \<le> length vs \<and> pv_preserve (vs ! (i - 1))}"
    unfolding none seeds preserved_values_def by auto
  have "p ! (j - 1) = (\<exists>i. 0 < i \<and> i \<le> length vs \<and> pv_preserve (vs ! (i - 1)) \<and> (i, j) \<in> (value_edges vs)\<^sup>*)"
    if "0 < j" "j \<le> length vs" for j
  proof -
    have "p ! (j - 1) \<longleftrightarrow> j \<in> marked p" using that p(2) by (simp add: marked_def)
    also have "\<dots> \<longleftrightarrow> (\<exists>i. 0 < i \<and> i \<le> length vs \<and> pv_preserve (vs ! (i - 1)) \<and> (i, j) \<in> (value_edges vs)\<^sup>*)"
      unfolding m by auto
    finally show ?thesis .
  qed
  with p show ?thesis by blast
qed

section \<open>The result for any source\<close>

lemma parse_result:
  assumes "php_value_at url levels False (php_start source) = Inr (vid, st)"
  shows "reaches source (php_start source) st" and "0 < vid"
  using value_at_parser [of source url levels] assms start_good by (auto simp: value_parser_def)

lemma leaves_from_filter: "leaves_from src p k ss q k' \<Longrightarrow> leaves_from src p k (filter P ss) q k'"
proof (induction ss arbitrary: p k)
  case (Cons s ss)
  then have "leaves_from src (s_end s) (s_ordinal s) (filter P ss) q k'" "s_start s < s_end s"
    by (auto dest: exact_leaf_order)
  with Cons.prems show ?case by (auto elim!: leaves_from_weaken)
qed simp

text \<open>The parser never leaves the bounds of its table of values.\<close>

lemma php_translatable_total: "\<exists>r. php_translatable_strings url source = Some r"
proof (cases "php_value_at url 129 False (php_start source)")
  case (Inl e)
  then show ?thesis by (simp add: php_translatable_strings_def)
next
  case (Inr r)
  then obtain vid st where r: "php_value_at url 129 False (php_start source) = Inr (vid, st)" by (cases r) auto
  from parse_result(1) [OF r] have "\<forall>v \<in> set (pvalues st). \<forall>c \<in> set (pv_children v). 0 < c \<and> c \<le> length (pvalues st)"
    by (simp add: reaches_def good_def values_valid_def)
  from preserved_values_closure [OF this] r show ?thesis
    by (auto simp: php_translatable_strings_def)
qed

lemma php_translatable_result:
  assumes "php_translatable_strings url source = Some (Inr strings)"
  shows "\<exists>vid st p. php_value_at url 129 False (php_start source) = Inr (vid, st) \<and> remaining st = []
    \<and> preserved_values (pvalues st) = Some p
    \<and> strings = filter (\<lambda>s. \<not> p ! (s_value_id s - 1)) (pstrings st)"
  using assms
  by (auto simp: php_translatable_strings_def split: if_splits sum.splits prod.splits)

lemma leaves_from_sorted:
  "leaves_from src p k ss q k' \<Longrightarrow>
   sorted_wrt (\<lambda>a b. s_end a \<le> s_start b \<and> s_ordinal a < s_ordinal b) ss
     \<and> (\<forall>s \<in> set ss. p \<le> s_start s \<and> k < s_ordinal s \<and> exact_leaf src s)"
proof (induction ss arbitrary: p k)
  case (Cons s ss)
  then have "leaves_from src (s_end s) (s_ordinal s) ss q k'" by simp
  from Cons.IH [OF this] Cons.prems exact_leaf_order [of src s] show ?case by fastforce
qed simp

lemma strings_in_order:
  assumes "php_translatable_strings url source = Some (Inr strings)"
  shows "\<exists>k. leaves_from source 0 0 strings (length source) k"
proof -
  from php_translatable_result [OF assms] obtain vid st p where
    r: "php_value_at url 129 False (php_start source) = Inr (vid, st)" "remaining st = []"
    and s: "strings = filter (\<lambda>s. \<not> p ! (s_value_id s - 1)) (pstrings st)" by blast
  from parse_result(1) [OF r(1)] have l: "leaves_from source 0 0 (pstrings st) (ppos st) (ordinal st)"
    and q: "ppos st \<le> length source" by (auto simp: reaches_def good_def php_start_def)
  from leaves_from_append [OF leaves_from_filter [OF l], of "[]" "length source" "ordinal st"] q
  show ?thesis unfolding s by auto
qed

section \<open>Properties\<close>

lemma php_value_at_pos: "0 < n \<Longrightarrow> php_value_at url n p = php_value_body url (php_value_at url (n - 1)) p"
  by (cases n) simp_all

lemma php_members_pos: "0 < n \<Longrightarrow> php_members value object p vid n =
     pbind (php_key object) (\<lambda>key.
     pbind (value (p \<or> (case key of Some k \<Rightarrow> is_technical_key k | None \<Rightarrow> False))) (\<lambda>child st.
     php_members value object p vid (n - 1) (add_child vid child st)))"
  by (cases n) simp_all

lemmas php_run = php_value_at_pos php_members_pos php_value_body_def php_container_def php_string_value_def
  pthen_def pbind_def pret_def pfail_def php_size_def php_bytes_def raw_string_def php_key_def ptake_def
  advance_def push_value_def add_child_def count_string_def php_start_def

lemma sample_keys: "is_technical_key (cps ''id'')" "\<not> is_technical_key (cps ''t'')"
  by (simp_all add: is_technical_key_def last_segment_def technical_names_def ascii_lower_cp_def cps_def
        suffix_def Let_def)

lemma sample_text: "\<not> is_technical_string (\<lambda>_. None) (cps ''b'')"
  by (simp add: is_technical_string_def trim_by_def is_ws_cp_def cps_def is_f64_def strip_sign_def
        is_digit_cp_def ascii_lower_cp_def Let_def)

lemma sample_php_strings:
  "php_translatable_strings (\<lambda>_. None) (cps ''a:2:{s:2:\"id\";s:1:\"a\";s:1:\"t\";s:1:\"b\";}'')
    = Some (Inr [\<lparr>s_start = 30, s_end = 38, s_value = cps ''b'', s_ordinal = 4, s_value_id = 3\<rparr>])"
  using sample_keys sample_text
  apply (simp add: php_translatable_strings_def php_run cps_def is_digit_cp_def dec_cps_def u64_max_def
      utf8_len_def Let_def php_prefixes_def preserved_values_def initially_preserved_def upt_rec
      del: php_members.simps(2) php_value_at.simps)
  apply (intro exI [of _ "[False, True, False]"])
  apply (simp add: mark_loop.simps)
  done

text \<open>
  What the parser of serialized values offers is where it says it is. For every accepted source, each
  found string is the complete token of its value at the recorded positions, with the byte length that PHP
  requires; the tokens do not overlap, they come in the order of the source, and their ordinals grow, so
  replacing the tokens one by one is well defined and no two strings share a field path.
\<close>

theorem php_strings_exact:
  assumes "php_translatable_strings url source = Some (Inr strings)"
  shows "list_all (exact_leaf source) strings
    \<and> sorted_wrt (\<lambda>a b. s_end a \<le> s_start b \<and> s_ordinal a < s_ordinal b) strings"
  using strings_in_order [OF assms] leaves_from_sorted [of source 0 0 strings] by (auto simp: list_all_iff)

theorem php_strings_exact_witness:
  "exact_leaf (cps ''a:2:{s:2:\"id\";s:1:\"a\";s:1:\"t\";s:1:\"b\";}'')
    \<lparr>s_start = 30, s_end = 38, s_value = cps ''b'', s_ordinal = 4, s_value_id = 3\<rparr>"
  using php_strings_exact [OF sample_php_strings] by simp

text \<open>
  C30: What must not change is never offered. The offered strings are exactly the parsed strings whose value
  cannot be reached, through children and references, from a value under a technical key or inside a custom
  object: a reference made elsewhere to a protected value protects it too. The marking loop computes
  this closure on any value table the parser builds.
\<close>

theorem php_preserved_never_offered:
  assumes "php_translatable_strings url source = Some (Inr strings)"
  shows "\<exists>root st. php_value_at url 129 False (php_start source) = Inr (root, st) \<and> remaining st = []
    \<and> strings = filter (\<lambda>s. \<not> (\<exists>i. 0 < i \<and> i \<le> length (pvalues st) \<and> pv_preserve (pvalues st ! (i - 1))
        \<and> (i, s_value_id s) \<in> (value_edges (pvalues st))\<^sup>*)) (pstrings st)"
proof -
  from php_translatable_result [OF assms] obtain vid st p where
    r: "php_value_at url 129 False (php_start source) = Inr (vid, st)" "remaining st = []"
    and p: "preserved_values (pvalues st) = Some p"
    and s: "strings = filter (\<lambda>s. \<not> p ! (s_value_id s - 1)) (pstrings st)" by blast
  from parse_result(1) [OF r(1)] have v: "values_valid st" by (simp add: reaches_def good_def)
  from preserved_values_closure [of "pvalues st"] v p
  have "p ! (s_value_id s - 1) = (\<exists>i. 0 < i \<and> i \<le> length (pvalues st) \<and> pv_preserve (pvalues st ! (i - 1))
      \<and> (i, s_value_id s) \<in> (value_edges (pvalues st))\<^sup>*)" if "s \<in> set (pstrings st)" for s
    using that by (auto simp: values_valid_def)
  then have "strings = filter (\<lambda>s. \<not> (\<exists>i. 0 < i \<and> i \<le> length (pvalues st) \<and> pv_preserve (pvalues st ! (i - 1))
      \<and> (i, s_value_id s) \<in> (value_edges (pvalues st))\<^sup>*)) (pstrings st)"
    unfolding s by (intro filter_cong refl) blast
  with r show ?thesis by blast
qed

theorem php_preserved_never_offered_witness:
  "\<exists>root st. php_value_at (\<lambda>_. None) 129 False (php_start (cps ''a:2:{s:2:\"id\";s:1:\"a\";s:1:\"t\";s:1:\"b\";}'')) = Inr (root, st)
    \<and> remaining st = []
    \<and> [\<lparr>s_start = 30, s_end = 38, s_value = cps ''b'', s_ordinal = 4, s_value_id = 3\<rparr>]
      = filter (\<lambda>s. \<not> (\<exists>i. 0 < i \<and> i \<le> length (pvalues st) \<and> pv_preserve (pvalues st ! (i - 1))
        \<and> (i, s_value_id s) \<in> (value_edges (pvalues st))\<^sup>*)) (pstrings st)"
  by (rule php_preserved_never_offered [OF sample_php_strings])

end
