(* ===== verification/StructuredContent.thy ===== *)
theory StructuredContent
  imports PhpSerialized
begin

text \<open>
  The structured fields of \<open>task_engine/pipeline.rs\<close>: the translation of PHP-serialized values and of JSON
  values string by string, the re-encoding of a JSON value as a serialized one, and the dispatch of a field on
  its content format. The provider is an argument; its first argument is the durable identity of the call.
  The parser and the printer of JSON (\<open>serde_json\<close>) are arguments.
\<close>

section \<open>JSON values as PHP\<close>

definition fmt_cps :: "nat \<Rightarrow> utext" where
  "fmt_cps n = cps (fmt_nat n)"

definition fits_i64 :: "int \<Rightarrow> bool" where
  "fits_i64 i \<longleftrightarrow> - 9223372036854775808 \<le> i \<and> i \<le> 9223372036854775807"

definition php_string_token :: "utext \<Rightarrow> utext" where
  "php_string_token s = string_token (fmt_cps (blen s)) s"

fun serialize_json_value_to_php :: "utext json \<Rightarrow> utext"
  and serialize_items :: "nat \<Rightarrow> utext json list \<Rightarrow> utext"
  and serialize_members :: "(utext \<times> utext json) list \<Rightarrow> utext" where
  "serialize_json_value_to_php JNull = cps ''N;''"
| "serialize_json_value_to_php (JBool v) = cps (if v then ''b:1;'' else ''b:0;'')"
| "serialize_json_value_to_php (JInt i) =
     (if fits_i64 i then cps ''i:'' else cps ''d:'') @ cps (fmt_int i) @ cps '';''"
| "serialize_json_value_to_php (JNum t) = cps ''d:'' @ t @ cps '';''"
| "serialize_json_value_to_php (JString s) = php_string_token s"
| "serialize_json_value_to_php (JArray xs) =
     cps ''a:'' @ fmt_cps (length xs) @ cps '':{'' @ serialize_items 0 xs @ cps ''}''"
| "serialize_json_value_to_php (JObject ms) =
     cps ''a:'' @ fmt_cps (length ms) @ cps '':{'' @ serialize_members ms @ cps ''}''"
| "serialize_items idx [] = []"
| "serialize_items idx (x # xs) =
     cps ''i:'' @ fmt_cps idx @ cps '';'' @ serialize_json_value_to_php x @ serialize_items (Suc idx) xs"
| "serialize_members [] = []"
| "serialize_members ((k, x) # ms) =
     php_string_token k @ serialize_json_value_to_php x @ serialize_members ms"

section \<open>Translating the strings of a JSON value\<close>

datatype 'e field_error =
    ProviderFailed 'e
  | JsonTooDeep
  | JsonSyntax
  | PhpDamaged php_error
  | UnsupportedFormat utext

definition MAX_JSON_TRANSLATION_DEPTH :: nat where
  "MAX_JSON_TRANSLATION_DEPTH = 256"

fun ebind :: "'e + 'a \<Rightarrow> ('a \<Rightarrow> 'e + 'b) \<Rightarrow> 'e + 'b" where
  "ebind (Inl e) f = Inl e"
| "ebind (Inr a) f = f a"

definition index_path :: "utext \<Rightarrow> nat \<Rightarrow> utext" where
  "index_path path idx = path @ cps ''['' @ fmt_cps idx @ cps '']''"

definition key_path :: "utext \<Rightarrow> utext \<Rightarrow> utext" where
  "key_path path key = path @ cps ''.'' @ key"

fun translate_json_value ::
  "(utext \<Rightarrow> utext option) \<Rightarrow> (utext \<Rightarrow> utext \<Rightarrow> 'e field_error + utext) \<Rightarrow> nat \<Rightarrow> utext \<Rightarrow> utext json
     \<Rightarrow> 'e field_error + utext json"
  and translate_json_items ::
  "(utext \<Rightarrow> utext option) \<Rightarrow> (utext \<Rightarrow> utext \<Rightarrow> 'e field_error + utext) \<Rightarrow> nat \<Rightarrow> utext \<Rightarrow> nat \<Rightarrow> utext json list
     \<Rightarrow> 'e field_error + utext json list"
  and translate_json_members ::
  "(utext \<Rightarrow> utext option) \<Rightarrow> (utext \<Rightarrow> utext \<Rightarrow> 'e field_error + utext) \<Rightarrow> nat \<Rightarrow> utext \<Rightarrow> (utext \<times> utext json) list
     \<Rightarrow> 'e field_error + (utext \<times> utext json) list" where
  "translate_json_value url provider dep path v =
     (if MAX_JSON_TRANSLATION_DEPTH < dep then Inl JsonTooDeep
      else case v of
        JString s \<Rightarrow>
          if is_technical_string url s then Inr v
          else ebind (provider path s) (\<lambda>t. Inr (JString t))
      | JArray xs \<Rightarrow> ebind (translate_json_items url provider dep path 0 xs) (\<lambda>ys. Inr (JArray ys))
      | JObject ms \<Rightarrow> ebind (translate_json_members url provider dep path ms) (\<lambda>ns. Inr (JObject ns))
      | _ \<Rightarrow> Inr v)"
| "translate_json_items url provider dep path idx [] = Inr []"
| "translate_json_items url provider dep path idx (x # xs) =
     ebind (translate_json_value url provider (dep + 1) (index_path path idx) x) (\<lambda>y.
     ebind (translate_json_items url provider dep path (Suc idx) xs) (\<lambda>ys. Inr (y # ys)))"
| "translate_json_members url provider dep path [] = Inr []"
| "translate_json_members url provider dep path ((k, x) # ms) =
     (if is_technical_key k
      then ebind (translate_json_members url provider dep path ms) (\<lambda>ns. Inr ((k, x) # ns))
      else ebind (translate_json_value url provider (dep + 1) (key_path path k) x) (\<lambda>y.
           ebind (translate_json_members url provider dep path ms) (\<lambda>ns. Inr ((k, y) # ns))))"

definition translate_json_structured ::
  "(utext \<Rightarrow> utext option) \<Rightarrow> (utext \<Rightarrow> utext json option) \<Rightarrow> (utext json \<Rightarrow> utext)
     \<Rightarrow> (utext \<Rightarrow> utext \<Rightarrow> 'e field_error + utext) \<Rightarrow> utext \<Rightarrow> 'e field_error + utext" where
  "translate_json_structured url parse print provider t =
     (case parse t of
        None \<Rightarrow> Inl JsonSyntax
      | Some v \<Rightarrow> ebind (translate_json_value url provider 0 (cps ''$'') v) (\<lambda>w. Inr (print w)))"

section \<open>Translating the strings of a serialized value\<close>

definition php_leaf_path :: "nat \<Rightarrow> utext" where
  "php_leaf_path n = cps ''php_s:'' @ fmt_cps n"

fun php_rewrite ::
  "(utext \<Rightarrow> utext \<Rightarrow> 'e + utext) \<Rightarrow> utext \<Rightarrow> php_string list \<Rightarrow> utext \<Rightarrow> nat \<Rightarrow> 'e + utext \<times> nat" where
  "php_rewrite provider t [] result pos = Inr (result, pos)"
| "php_rewrite provider t (leaf # leaves) result pos =
     ebind (provider (php_leaf_path (s_ordinal leaf)) (s_value leaf)) (\<lambda>translated.
     php_rewrite provider t leaves
       (result @ slice t pos (s_start leaf) @ php_string_token translated) (s_end leaf))"

text \<open>\<open>None\<close> is the index out of bounds that the parser never meets.\<close>

definition translate_serialized_php ::
  "(utext \<Rightarrow> utext option) \<Rightarrow> (utext \<Rightarrow> utext \<Rightarrow> 'e field_error + utext) \<Rightarrow> utext \<Rightarrow> ('e field_error + utext) option" where
  "translate_serialized_php url provider t =
     map_option (\<lambda>r. case r of
         Inl e \<Rightarrow> Inl (PhpDamaged e)
       | Inr strings \<Rightarrow> ebind (php_rewrite provider t strings [] 0) (\<lambda>(result, pos). Inr (result @ drop pos t)))
       (php_translatable_strings url t)"

section \<open>A field by its content format\<close>

definition CANONICAL_CONTENT_FORMATS :: "utext list" where
  "CANONICAL_CONTENT_FORMATS = map cps
     [''plain_text'', ''rich_html'', ''serialized_php'', ''json_structured'', ''slug'', ''code'', ''media_ref'']"

definition normalize_content_format_alias :: "utext \<Rightarrow> utext" where
  "normalize_content_format_alias raw =
     (let n = map lower_cp (trim_by is_ws_cp raw) in
      if n = cps ''text'' \<or> n = cps ''plain'' then cps ''plain_text''
      else if n = cps ''html'' then cps ''rich_html''
      else if n = cps ''json'' then cps ''json_structured''
      else if n = cps ''serialized'' then cps ''serialized_php''
      else n)"

definition get_safe_content_format :: "utext \<Rightarrow> 'e field_error + utext" where
  "get_safe_content_format raw_format =
     (let normalized = normalize_content_format_alias raw_format in
      if normalized = [] then Inr (cps ''plain_text'')
      else if normalized \<in> set CANONICAL_CONTENT_FORMATS then Inr normalized
      else Inl (UnsupportedFormat raw_format))"

definition is_media_text_field :: "utext \<Rightarrow> bool" where
  "is_media_text_field field_name =
     (let lower = map lower_cp field_name in
      str_contains lower (cps ''alt'') \<or> str_contains lower (cps ''caption'') \<or> str_contains lower (cps ''title'')
      \<or> str_contains lower (cps ''description'') \<or> str_contains lower (cps ''excerpt'') \<or> lower = cps ''post_content'')"

text \<open>
  What the translation of a field uses: the URL parser, the JSON parser and printer, the translation of a plain
  text (with chunking) and of a rich-HTML document. The first argument of \<open>f_text\<close> is the identity of the call.
\<close>

record 'e field_env =
  f_url :: "utext \<Rightarrow> utext option"
  f_parse :: "utext \<Rightarrow> utext json option"
  f_print :: "utext json \<Rightarrow> utext"
  f_text :: "utext \<Rightarrow> utext \<Rightarrow> 'e field_error + utext"
  f_html :: "utext \<Rightarrow> 'e field_error + utext"

text \<open>\<open>None\<close> outside is the index out of bounds of the parser, inside a field that is not translated.\<close>

definition translate_field_value ::
  "'e field_env \<Rightarrow> utext \<Rightarrow> utext \<Rightarrow> utext \<Rightarrow> ('e field_error + utext option) option" where
  "translate_field_value env t field_name content_format =
     (if content_format = cps ''code'' then Some (Inr None)
      else if content_format = cps ''media_ref'' then
        Some (if is_media_text_field field_name then ebind (f_text env [] t) (\<lambda>w. Inr (Some w)) else Inr None)
      else if content_format = cps ''plain_text'' \<or> content_format = cps ''slug'' then
        Some (ebind (f_text env [] t) (\<lambda>w. Inr (Some w)))
      else if content_format = cps ''rich_html'' then Some (ebind (f_html env t) (\<lambda>w. Inr (Some w)))
      else if content_format = cps ''serialized_php'' then
        map_option (\<lambda>r. ebind r (\<lambda>w. Inr (Some w))) (translate_serialized_php (f_url env) (f_text env) t)
      else if content_format = cps ''json_structured'' then
        Some (ebind (translate_json_structured (f_url env) (f_parse env) (f_print env) (f_text env) t) (\<lambda>w. Inr (Some w)))
      else Some (Inl (UnsupportedFormat content_format)))"

datatype field_restore_plan = RestoreNone | JsonToSerializedPhp

record normalized_field_input =
  n_text :: utext
  effective_format :: utext
  restore_plan :: field_restore_plan

definition normalize_field_value_for_translation ::
  "(utext json \<Rightarrow> utext) \<Rightarrow> utext json \<Rightarrow> utext \<Rightarrow> normalized_field_input option" where
  "normalize_field_value_for_translation print value content_format =
     (case value of
        JNull \<Rightarrow> None
      | JString s \<Rightarrow>
          if s = [] then None
          else Some \<lparr>n_text = s, effective_format = content_format, restore_plan = RestoreNone\<rparr>
      | _ \<Rightarrow>
          if content_format = cps ''serialized_php''
          then Some \<lparr>n_text = print value, effective_format = cps ''json_structured'', restore_plan = JsonToSerializedPhp\<rparr>
          else Some \<lparr>n_text = print value, effective_format = content_format, restore_plan = RestoreNone\<rparr>)"

definition restore_translated_value_after_translation ::
  "(utext \<Rightarrow> utext json option) \<Rightarrow> utext \<Rightarrow> field_restore_plan \<Rightarrow> utext" where
  "restore_translated_value_after_translation parse translated plan =
     (case plan of
        RestoreNone \<Rightarrow> translated
      | JsonToSerializedPhp \<Rightarrow>
          (case parse translated of Some v \<Rightarrow> serialize_json_value_to_php v | None \<Rightarrow> translated))"

section \<open>Parsing a known text\<close>

lemma cps_inject [simp]: "cps s = cps t \<longleftrightarrow> s = t"
  unfolding cps_def by (rule inj_map_eq_map) (simp add: inj_def)

lemma cps_append: "cps (s @ t) = cps s @ cps t"
  by (simp add: cps_def)

lemma is_digit_of_char: "is_digit_cp (of_char c) = is_digit c"
  by (simp add: is_digit_cp_def is_digit_def)

lemma fmt_cps_digits [simp]: "all_digits (fmt_cps n)"
  using fmt_nat_digits by (auto simp: all_digits_def fmt_cps_def cps_def is_digit_of_char)

lemma fmt_nat_not_Nil [simp]: "fmt_nat n \<noteq> []"
  by (subst fmt_nat.simps) simp

lemma fmt_cps_not_Nil [simp]: "fmt_cps n \<noteq> []"
  by (simp add: fmt_cps_def cps_def)

lemma dec_cps_cps: "dec_cps (cps s) = dec_value s"
  by (simp add: dec_cps_def cps_def foldl_map)

lemma dec_fmt_cps [simp]: "dec_cps (fmt_cps n) = n"
  by (simp add: fmt_cps_def dec_cps_cps dec_value_fmt_nat del: dec_value.simps)

lemma takeWhile_digits:
  "all_digits d \<Longrightarrow> \<not> is_digit_cp c \<Longrightarrow> takeWhile is_digit_cp (d @ c # r) = d"
  by (simp add: all_digits_def takeWhile_append2)

text \<open>A text that is consumed as a whole.\<close>

definition consumes :: "'a php \<Rightarrow> utext \<Rightarrow> utext \<Rightarrow> 'a \<Rightarrow> bool" where
  "consumes m x r a \<longleftrightarrow> (\<forall>st. remaining st = x @ r \<longrightarrow> m st = Inr (a, advance (length x) st))"

lemma advance_fields [simp]:
  "remaining (advance n st) = drop n (remaining st)" "ppos (advance n st) = ppos st + n"
  "ordinal (advance n st) = ordinal st" "pvalues (advance n st) = pvalues st" "pstrings (advance n st) = pstrings st"
  by (simp_all add: advance_def)

lemma advance_advance: "advance n (advance k st) = advance (k + n) st"
  by (simp add: advance_def add.commute)

lemma ptake_consumes: "consumes (ptake e) e r ()"
  by (simp add: consumes_def ptake_def)

lemma pret_consumes: "consumes (pret a) [] r a"
  by (simp add: consumes_def pret_def advance_def)

lemma pbind_consumes:
  assumes "consumes m x (y @ r) a" "consumes (f a) y r b"
  shows "consumes (pbind m f) (x @ y) r b"
  using assms by (auto simp: consumes_def pbind_def advance_advance)

lemma pthen_consumes:
  assumes "consumes m x (y @ r) a" "consumes k y r b"
  shows "consumes (pthen m k) (x @ y) r b"
  unfolding pthen_def using assms by (rule pbind_consumes)

lemma size_consumes:
  assumes "n \<le> u64_max" "\<not> is_digit_cp c"
  shows "consumes php_size (fmt_cps n) (c # r) n"
  using assms by (auto simp: consumes_def php_size_def Let_def takeWhile_digits)

lemma bytes_consumes: "blen v = n \<Longrightarrow> consumes (php_bytes n e1 e2) v r v"
  by (auto simp: consumes_def php_bytes_def)

lemma raw_string_consumes:
  assumes "blen v \<le> u64_max"
  shows "consumes raw_string (quoted (fmt_cps (blen v)) v) r v"
proof -
  have b: "consumes (\<lambda>st. pbind (php_bytes (blen v) (e1 st) (e2 st)) (\<lambda>v. pthen (ptake [34]) (pret v)) st)
      (v @ [34]) r v" for e1 e2 :: "php_parser \<Rightarrow> php_error"
    by (auto simp: consumes_def pbind_def pthen_def php_bytes_def ptake_def pret_def advance_advance)
  have colon: "cps '':'' @ [34] = [58, 34]" by (simp add: cps_def)
  have "consumes raw_string (fmt_cps (blen v) @ ([58, 34] @ (v @ [34]))) r v"
    unfolding raw_string_def colon
  proof (rule pbind_consumes)
    show "consumes php_size (fmt_cps (blen v)) (([58, 34] @ v @ [34]) @ r) (blen v)"
      using size_consumes [OF assms, of 58] by (simp add: is_digit_cp_def)
  qed (intro pthen_consumes, rule ptake_consumes, rule b)
  then show ?thesis by (simp add: quoted_def)
qed

lemma find_sub_single: "c \<notin> set x \<Longrightarrow> find_sub [c] (x @ c # r) = Some (length x)"
  by (induction x) auto

lemma scalar_consumes:
  assumes "59 \<notin> set raw" "scalar_ok kind raw"
  shows "consumes (php_scalar kind) (c # 58 # raw @ [59]) r ()"
  unfolding consumes_def
proof (intro allI impI)
  fix st :: php_parser assume r: "remaining st = (c # 58 # raw @ [59]) @ r"
  have "ptake (cps '':'') (advance 1 st) = Inr ((), advance 2 st)"
    using r by (simp add: ptake_def cps_def advance_advance numeral_2_eq_2)
  moreover have "remaining (advance 2 st) = raw @ 59 # r" using r by (simp add: numeral_2_eq_2)
  ultimately show "php_scalar kind st = Inr ((), advance (length (c # 58 # raw @ [59])) st)"
    using assms find_sub_single [OF assms(1), of r]
    by (simp add: php_scalar_def pthen_def pbind_def advance_advance)
qed

section \<open>Values that the format can carry\<close>

definition php_float :: "utext \<Rightarrow> bool" where
  "php_float t \<longleftrightarrow> is_f64 t \<and> (\<forall>c \<in> set t. is_digit_cp c \<or> c \<in> {43, 45, 46, 101, 69})"

text \<open>The integers of \<open>serde_json\<close>, floating-point numbers in their decimal form, lengths of the machine.\<close>

fun representable :: "utext json \<Rightarrow> bool"
  and representable_items :: "utext json list \<Rightarrow> bool"
  and representable_members :: "(utext \<times> utext json) list \<Rightarrow> bool" where
  "representable JNull = True"
| "representable (JBool v) = True"
| "representable (JInt i) \<longleftrightarrow> - 9223372036854775808 \<le> i \<and> i \<le> 18446744073709551615"
| "representable (JNum t) = php_float t"
| "representable (JString s) \<longleftrightarrow> blen s \<le> u64_max"
| "representable (JArray xs) \<longleftrightarrow> length xs \<le> 9223372036854775807 \<and> representable_items xs"
| "representable (JObject ms) \<longleftrightarrow> length ms \<le> u64_max \<and> representable_members ms"
| "representable_items [] = True"
| "representable_items (x # xs) \<longleftrightarrow> representable x \<and> representable_items xs"
| "representable_members [] = True"
| "representable_members ((k, x) # ms) \<longleftrightarrow> blen k \<le> u64_max \<and> representable x \<and> representable_members ms"

text \<open>The nesting: how many levels of a parser a value needs.\<close>

fun json_levels :: "utext json \<Rightarrow> nat"
  and levels_items :: "utext json list \<Rightarrow> nat"
  and levels_members :: "(utext \<times> utext json) list \<Rightarrow> nat" where
  "json_levels (JArray xs) = Suc (levels_items xs)"
| "json_levels (JObject ms) = Suc (levels_members ms)"
| "json_levels v = 1"
| "levels_items [] = 0"
| "levels_items (x # xs) = max (json_levels x) (levels_items xs)"
| "levels_members [] = 0"
| "levels_members ((k, x) # ms) = max (json_levels x) (levels_members ms)"

lemma fmt_digit_codes: "c \<in> set (fmt_cps n) \<Longrightarrow> is_digit_cp c"
  using fmt_cps_digits by (auto simp: all_digits_def)

lemma strip_sign_digits: "all_digits s \<Longrightarrow> strip_sign s = s"
  by (cases s) (auto simp: strip_sign_def all_digits_def is_digit_cp_def)

lemma hd_digits: "all_digits s \<Longrightarrow> s \<noteq> [] \<Longrightarrow> hd s \<noteq> 45"
  by (cases s) (auto simp: all_digits_def is_digit_cp_def)

lemma int_cps:
  "cps (fmt_int i) = (if i < 0 then 45 # fmt_cps (nat (- i)) else fmt_cps (nat i))"
  by (simp add: fmt_int_def fmt_cps_def cps_def)

lemma strip_sign_int: "strip_sign (cps (fmt_int i)) = fmt_cps (nat \<bar>i\<bar>)"
  by (simp add: int_cps strip_sign_digits) (simp add: strip_sign_def)

lemma int_sign: "cps (fmt_int i) \<noteq> [] \<and> (hd (cps (fmt_int i)) = 45 \<longleftrightarrow> i < 0)"
  using hd_digits [OF fmt_cps_digits [of "nat i"] fmt_cps_not_Nil] by (auto simp: int_cps)

lemma is_i64_int:
  assumes "fits_i64 i"
  shows "is_i64 (cps (fmt_int i))"
proof -
  have "nat \<bar>i\<bar> \<le> (if i < 0 then 9223372036854775808 else 9223372036854775807)"
    using assms by (simp add: fits_i64_def nat_le_iff)
  then show ?thesis
    unfolding is_i64_def Let_def strip_sign_int using int_sign [of i] by simp
qed

lemma is_f64_digits:
  assumes "strip_sign t = fmt_cps n"
  shows "is_f64 t"
proof -
  have tw: "takeWhile is_digit_cp (fmt_cps n) = fmt_cps n" and dw: "dropWhile is_digit_cp (fmt_cps n) = []"
    using fmt_digit_codes by (auto simp: takeWhile_eq_all_conv dropWhile_eq_Nil_conv)
  show ?thesis unfolding is_f64_def Let_def assms tw dw by (simp add: is_exponent_def)
qed

lemma int_codes: "c \<in> set (cps (fmt_int i)) \<Longrightarrow> is_digit_cp c \<or> c = 45"
  using fmt_digit_codes by (auto simp: int_cps split: if_splits)

lemma int_no_semicolon: "59 \<notin> set (cps (fmt_int i))"
  using int_codes [of 59 i] by (auto simp: is_digit_cp_def)

lemma php_float_int: "php_float (cps (fmt_int i))"
  using is_f64_digits [OF strip_sign_int] int_codes by (fastforce simp: php_float_def)

lemma php_float_scalar: "php_float t \<Longrightarrow> scalar_ok 100 t \<and> 59 \<notin> set t"
  by (auto simp: php_float_def scalar_ok_def is_digit_cp_def)

section \<open>Readings\<close>

text \<open>
  What the rewriting of the strings found in a stretch \<open>p ..< q\<close> of the text does: whatever was written
  before, it is followed by the rest of the text up to \<open>p\<close> and the new text of the stretch, or the first
  error ends it.
\<close>

definition renders ::
  "(utext \<Rightarrow> 'e + utext) \<Rightarrow> utext \<Rightarrow> php_string list \<Rightarrow> nat \<Rightarrow> nat \<Rightarrow> 'e + utext \<Rightarrow> bool" where
  "renders g t new p q res \<longleftrightarrow> p \<le> q \<and> (\<forall>r pos. pos \<le> p \<longrightarrow>
     (case res of
        Inl e \<Rightarrow> php_rewrite (\<lambda>_. g) t new r pos = Inl e
      | Inr y \<Rightarrow> \<exists>r' pos'. php_rewrite (\<lambda>_. g) t new r pos = Inr (r', pos') \<and> pos' \<le> q
          \<and> r' @ slice t pos' q = r @ slice t pos p @ y))"

definition both :: "'e + utext \<Rightarrow> 'e + utext \<Rightarrow> 'e + utext" where
  "both a b = ebind a (\<lambda>x. ebind b (\<lambda>y. Inr (x @ y)))"

lemma both_simps [simp]:
  "both (Inl e) b = Inl e" "both (Inr x) (Inl e) = Inl e" "both (Inr x) (Inr y) = Inr (x @ y)"
  by (simp_all add: both_def)

lemma both_assoc: "both (both a b) c = both a (both b c)"
  by (cases a; cases b; cases c) simp_all

lemma slice_append: "i \<le> j \<Longrightarrow> j \<le> k \<Longrightarrow> slice t i j @ slice t j k = slice t i k"
proof -
  assume "i \<le> j" "j \<le> k"
  then obtain a b where "j = i + a" "k = i + a + b" by (metis le_Suc_ex)
  then show ?thesis by (simp add: slice_def take_add add.commute)
qed

lemma rewrite_append:
  "php_rewrite f t (xs @ ys) r pos = ebind (php_rewrite f t xs r pos) (\<lambda>(r', pos'). php_rewrite f t ys r' pos')"
proof (induction xs arbitrary: r pos)
  case (Cons x xs)
  then show ?case by (cases "f (php_leaf_path (s_ordinal x)) (s_value x)") simp_all
qed simp

lemma renders_literal: "p \<le> q \<Longrightarrow> slice t p q = x \<Longrightarrow> renders g t [] p q (Inr x)"
  by (auto simp: renders_def slice_append)

lemma renders_leaf:
  assumes "s_start leaf \<le> s_end leaf"
  shows "renders g t [leaf] (s_start leaf) (s_end leaf) (ebind (g (s_value leaf)) (\<lambda>w. Inr (php_string_token w)))"
  using assms by (cases "g (s_value leaf)") (simp_all add: renders_def, simp add: slice_def)

lemma renders_append:
  assumes "renders g t xs p q a" "renders g t ys q w b"
  shows "renders g t (xs @ ys) p w (both a b)"
  unfolding renders_def
proof (intro conjI allI impI)
  show "p \<le> w" using assms by (auto simp: renders_def)
  fix r pos assume pos: "pos \<le> p"
  show "case both a b of Inl e \<Rightarrow> php_rewrite (\<lambda>_. g) t (xs @ ys) r pos = Inl e
    | Inr y \<Rightarrow> \<exists>r' pos'. php_rewrite (\<lambda>_. g) t (xs @ ys) r pos = Inr (r', pos') \<and> pos' \<le> w
        \<and> r' @ slice t pos' w = r @ slice t pos p @ y"
  proof (cases a)
    case (Inl e)
    with assms(1) pos show ?thesis by (simp add: renders_def rewrite_append)
  next
    case (Inr x)
    with assms(1) pos have "\<exists>r1 pos1. php_rewrite (\<lambda>_. g) t xs r pos = Inr (r1, pos1)
      \<and> pos1 \<le> q \<and> r1 @ slice t pos1 q = r @ slice t pos p @ x" by (simp add: renders_def)
    then obtain r1 pos1 where one: "php_rewrite (\<lambda>_. g) t xs r pos = Inr (r1, pos1)"
      "pos1 \<le> q" "r1 @ slice t pos1 q = r @ slice t pos p @ x" by blast
    show ?thesis
    proof (cases b)
      case (Inl e)
      with Inr one assms(2) show ?thesis by (simp add: renders_def rewrite_append)
    next
      case (Inr y)
      with one assms(2) obtain r2 pos2 where "php_rewrite (\<lambda>_. g) t ys r1 pos1 = Inr (r2, pos2)"
        "pos2 \<le> w" "r2 @ slice t pos2 w = r1 @ slice t pos1 q @ y" unfolding renders_def by fastforce
      moreover from this(3) one(3) have "r2 @ slice t pos2 w = r @ slice t pos p @ x @ y"
        by (metis append.assoc)
      ultimately show ?thesis using Inr \<open>a = Inr x\<close> one(1) by (simp add: rewrite_append)
    qed
  qed
qed

definition flags :: "php_parser \<Rightarrow> bool list" where
  "flags st = map pv_preserve (pvalues st)"

text \<open>No member of a preserved value is offered, and no found string is preserved.\<close>

definition shielded :: "php_parser \<Rightarrow> bool" where
  "shielded st \<longleftrightarrow> (\<forall>(i, c) \<in> value_edges (pvalues st). flags st ! (i - 1) \<longrightarrow> flags st ! (c - 1))
     \<and> (\<forall>s \<in> set (pstrings st). \<not> flags st ! (s_value_id s - 1))"

text \<open>
  A step of the parser that reads the text \<open>x\<close>: the values before keep their flags, and the strings found
  on the way render \<open>x\<close> as \<open>res\<close>.
\<close>

definition reads ::
  "(utext \<Rightarrow> 'e + utext) \<Rightarrow> utext \<Rightarrow> utext \<Rightarrow> 'e + utext \<Rightarrow> php_parser \<Rightarrow> php_parser \<Rightarrow> bool" where
  "reads g t x res st st' \<longleftrightarrow> good t st' \<and> remaining st = x @ remaining st' \<and> ppos st' = ppos st + length x
     \<and> prefix (flags st) (flags st') \<and> (shielded st \<longrightarrow> shielded st')
     \<and> (\<exists>new. pstrings st' = pstrings st @ new \<and> renders g t new (ppos st) (ppos st') res)"

lemma reads_good: "reads g t x res st st' \<Longrightarrow> good t st'"
  and reads_remaining: "reads g t x res st st' \<Longrightarrow> remaining st = x @ remaining st'"
  and reads_flags: "reads g t x res st st' \<Longrightarrow> prefix (flags st) (flags st')"
  by (simp_all add: reads_def)

lemma reads_trans:
  assumes "reads g t x a st st1" "reads g t y b st1 st2"
  shows "reads g t (x @ y) (both a b) st st2"
proof -
  from assms obtain xs ys where xs: "pstrings st1 = pstrings st @ xs" "renders g t xs (ppos st) (ppos st1) a"
    and ys: "pstrings st2 = pstrings st1 @ ys" "renders g t ys (ppos st1) (ppos st2) b"
    by (auto simp: reads_def)
  from renders_append [OF xs(2) ys(2)] xs(1) ys(1) assms show ?thesis
    by (auto simp: reads_def intro: prefix_order.trans)
qed

lemma reads_literal:
  assumes "good t st" "remaining st = x @ r"
  shows "reads g t x (Inr x) st (advance (length x) st)"
proof -
  let ?st' = "advance (length x) st"
  have e: "eats x st ?st'" using assms(2) by (simp add: eats_def)
  note sl = eats_slice [OF e assms(1)]
  have "renders g t [] (ppos st) (ppos ?st') (Inr x)" by (rule renders_literal) (use sl in simp_all)
  then show ?thesis
    using assms reaches_good [OF eats_reaches [OF e assms(1)]]
    by (auto simp: reads_def flags_def shielded_def)
qed

lemma reads_consumes:
  assumes "consumes m x r a" "good t st" "remaining st = x @ r"
  shows "\<exists>st'. m st = Inr (a, st') \<and> reads g t x (Inr x) st st'"
  using assms reads_literal [OF assms(2,3), of g] by (auto simp: consumes_def)

lemma flags_length: "length (flags st) = length (pvalues st)"
  by (simp add: flags_def)

lemma prefix_nth: "prefix xs ys \<Longrightarrow> i < length xs \<Longrightarrow> ys ! i = xs ! i"
  by (auto simp: prefix_def nth_append)

text \<open>Changes of the state that read nothing.\<close>

lemma reads_same:
  assumes "good t st'" "remaining st' = remaining st" "ppos st' = ppos st" "pstrings st' = pstrings st"
    and "prefix (flags st) (flags st')" "shielded st \<longrightarrow> shielded st'"
  shows "reads g t [] (Inr []) st st'"
proof -
  have "renders g t [] (ppos st) (ppos st') (Inr [])" by (rule renders_literal) (simp_all add: assms(3) slice_def)
  with assms show ?thesis by (auto simp: reads_def)
qed

lemma reads_count: "good t st \<Longrightarrow> reads g t [] (Inr []) st (count_string st)"
  by (rule reads_same [OF reaches_good [OF count_reaches]])
    (auto simp: count_string_def flags_def shielded_def)

lemma value_edges_push: "pv_children v = [] \<Longrightarrow> value_edges (vs @ [v]) = value_edges vs"
  by (auto simp: value_edges_def nth_append split: if_splits)

lemma edges_valid:
  assumes "good t st" "(i, c) \<in> value_edges (pvalues st)"
  shows "0 < i \<and> i \<le> length (pvalues st) \<and> 0 < c \<and> c \<le> length (pvalues st)"
  using assms nth_mem [of "i - 1" "pvalues st"]
  by (auto simp: good_def values_valid_def value_edges_def)

lemma flags_push: "i < length (flags st) \<Longrightarrow> flags (push_value obj pr st) ! i = flags st ! i"
  by (simp add: flags_def push_value_def nth_append)

lemma reads_push:
  assumes "good t st"
  shows "reads g t [] (Inr []) st (push_value obj pr st)"
proof (rule reads_same [OF reaches_good [OF push_reaches(1) [OF assms]]])
  show "shielded st \<longrightarrow> shielded (push_value obj pr st)"
  proof
    assume sh: "shielded st"
    have e: "value_edges (pvalues (push_value obj pr st)) = value_edges (pvalues st)"
      by (simp add: push_value_def value_edges_push)
    show "shielded (push_value obj pr st)"
      unfolding shielded_def e
    proof (intro conjI ballI)
      fix x assume x: "x \<in> value_edges (pvalues st)"
      obtain i c where ic: "x = (i, c)" by (cases x)
      with x edges_valid [OF assms, of i c] sh
      show "case x of (i, c) \<Rightarrow> flags (push_value obj pr st) ! (i - 1) \<longrightarrow> flags (push_value obj pr st) ! (c - 1)"
        by (auto simp: flags_push flags_length shielded_def)
    next
      fix s assume "s \<in> set (pstrings (push_value obj pr st))"
      then have "s \<in> set (pstrings st)" by (simp add: push_value_def)
      moreover from this have "s_value_id s - 1 < length (flags st)"
        using assms by (auto simp: good_def values_valid_def flags_length)
      ultimately show "\<not> flags (push_value obj pr st) ! (s_value_id s - 1)"
        using sh by (simp add: flags_push shielded_def)
    qed
  qed
qed (simp_all add: push_value_def flags_def)

lemma flags_child: "vid - 1 < length (pvalues st) \<Longrightarrow> flags (add_child vid c st) = flags st"
  by (simp add: flags_def add_child_def map_update)
    (metis length_map list_update_id nth_map)

lemma edges_child:
  "0 < vid \<Longrightarrow> vid \<le> length (pvalues st) \<Longrightarrow>
   value_edges (pvalues (add_child vid c st)) \<subseteq> insert (vid, c) (value_edges (pvalues st))"
  by (auto simp: value_edges_def add_child_def nth_list_update split: if_splits)

lemma reads_child:
  assumes "good t st" "0 < vid" "vid \<le> length (pvalues st)" "0 < c" "c \<le> length (pvalues st)"
    and "flags st ! (vid - 1) \<longrightarrow> flags st ! (c - 1)"
  shows "reads g t [] (Inr []) st (add_child vid c st)"
proof (rule reads_same [OF reaches_good [OF child_reaches [OF assms(1-5)]]])
  have f: "flags (add_child vid c st) = flags st" using assms(2,3) by (intro flags_child) linarith
  then show "prefix (flags st) (flags (add_child vid c st))" by simp
  show "shielded st \<longrightarrow> shielded (add_child vid c st)"
    using edges_child [OF assms(2,3), of c] assms(6)
    by (auto simp: shielded_def f) (auto simp: add_child_def)
qed (simp_all add: add_child_def)

lemma token_parts: "php_string_token s = [115, 58] @ quoted (fmt_cps (blen s)) s @ [59]"
  by (simp add: php_string_token_def string_token_def)

lemma token_consumes:
  assumes "blen s \<le> u64_max" "remaining st = php_string_token s @ r"
  shows "\<exists>st1 st2. ptake [115, 58] st = Inr ((), st1) \<and> raw_string st1 = Inr (s, st2)
    \<and> ptake [59] st2 = Inr ((), advance (length (php_string_token s)) st)"
proof -
  let ?q = "quoted (fmt_cps (blen s)) s"
  have one: "ptake [115, 58] st = Inr ((), advance 2 st)"
    using assms(2) by (simp add: token_parts ptake_def numeral_2_eq_2)
  have "remaining (advance 2 st) = ?q @ 59 # r" using assms(2) by (simp add: token_parts numeral_2_eq_2)
  with raw_string_consumes [OF assms(1), of "59 # r"]
  have two: "raw_string (advance 2 st) = Inr (s, advance (length ?q) (advance 2 st))"
    by (simp add: consumes_def)
  have "ptake [59] (advance (length ?q) (advance 2 st)) = Inr ((), advance (length (php_string_token s)) st)"
    using assms(2) by (simp add: token_parts ptake_def advance_advance numeral_2_eq_2)
  with one two show ?thesis by blast
qed

lemma key_reads:
  assumes "good t st" "blen k \<le> u64_max" "remaining st = php_string_token k @ r"
  shows "\<exists>st'. php_key False st = Inr (Some k, st') \<and> reads g t (php_string_token k) (Inr (php_string_token k)) st st'"
proof -
  let ?st1 = "advance (length (php_string_token k)) st"
  from token_consumes [OF assms(2,3)] have "php_key False st = Inr (Some k, count_string ?st1)"
    using assms(3) by (auto simp: php_key_def pthen_def pbind_def cps_def token_parts)
  moreover note lit = reads_literal [OF assms(1,3), of g]
  ultimately show ?thesis using reads_trans [OF lit reads_count [OF reads_good [OF lit]]] by auto
qed

lemma index_reads:
  assumes "good t st" "idx \<le> 9223372036854775807" "remaining st = (cps ''i:'' @ fmt_cps idx @ cps '';'') @ r"
  shows "\<exists>st'. php_key False st = Inr (None, st')
    \<and> reads g t (cps ''i:'' @ fmt_cps idx @ cps '';'') (Inr (cps ''i:'' @ fmt_cps idx @ cps '';'')) st st'"
proof -
  have x: "cps ''i:'' @ fmt_cps idx @ cps '';'' = 105 # 58 # fmt_cps idx @ [59]" by (simp add: cps_def)
  have no: "59 \<notin> set (fmt_cps idx)" using fmt_digit_codes [of 59 idx] by (auto simp: is_digit_cp_def)
  have "is_i64 (cps (fmt_int (int idx)))" by (rule is_i64_int) (use assms(2) in \<open>simp add: fits_i64_def\<close>)
  then have ok: "scalar_ok 105 (fmt_cps idx)" by (simp add: scalar_ok_def int_cps)
  from reads_consumes [OF scalar_consumes [OF no ok] assms(1), of 105 r g] assms(3)
  show ?thesis unfolding x by (auto simp: php_key_def pthen_def pbind_def pret_def)
qed

definition string_result :: "(utext \<Rightarrow> utext option) \<Rightarrow> (utext \<Rightarrow> 'e + utext) \<Rightarrow> bool \<Rightarrow> utext \<Rightarrow> 'e + utext" where
  "string_result url g preserve s =
     (if preserve \<or> is_technical_string url s then Inr (php_string_token s)
      else ebind (g s) (\<lambda>w. Inr (php_string_token w)))"

lemma string_value_reads:
  assumes "good t st" "0 < vid" "vid \<le> length (pvalues st)" "flags st ! (vid - 1) = preserve"
    and "blen s \<le> u64_max" "remaining st = php_string_token s @ r"
  shows "\<exists>st'. php_string_value url preserve vid st = Inr ((), st')
    \<and> reads g t (php_string_token s) (string_result url g preserve s) st st'"
proof -
  let ?x = "php_string_token s"
  define st1 where "st1 = count_string (advance (length ?x) st)"
  define leaf where "leaf = \<lparr>s_start = ppos st, s_end = ppos st + length ?x, s_value = s,
    s_ordinal = ordinal st + 1, s_value_id = vid\<rparr>"
  define st' where "st' = (if \<not> preserve \<and> \<not> is_technical_string url s
    then st1\<lparr>pstrings := pstrings st1 @ [leaf]\<rparr> else st1)"
  have run: "php_string_value url preserve vid st = Inr ((), st')"
    using token_consumes [OF assms(5,6)]
    by (auto simp: php_string_value_def pthen_def pbind_def cps_def Let_def st'_def st1_def leaf_def count_string_def)
  note lit = reads_literal [OF assms(1,6), of g]
  have r1: "reads g t ?x (Inr ?x) st st1"
    using reads_trans [OF lit reads_count [OF reads_good [OF lit]]] by (simp add: st1_def)
  show ?thesis
  proof (cases "\<not> preserve \<and> \<not> is_technical_string url s")
    case False
    then show ?thesis using run r1 by (auto simp: st'_def string_result_def)
  next
    case True
    have fields: "pstrings st' = pstrings st @ [leaf]" "pvalues st' = pvalues st" "remaining st' = remaining st1"
      "ppos st' = ppos st + length ?x"
      using True by (simp_all add: st'_def st1_def count_string_def)
    have "good t st'"
      using string_value_reaches [OF assms(1-3) run] by (rule reaches_good)
    moreover have "renders g t [leaf] (ppos st) (ppos st') (string_result url g preserve s)"
      using renders_leaf [of leaf g t] True fields(4) by (simp add: leaf_def string_result_def)
    moreover have "shielded st \<longrightarrow> shielded st'"
      using assms(4) True fields by (auto simp: shielded_def flags_def leaf_def)
    ultimately show ?thesis
      using run fields assms(6) by (auto simp: reads_def flags_def st1_def count_string_def)
  qed
qed

text \<open>A value that is pushed and whose body reads the text \<open>x\<close>.\<close>

lemma push_flag:
  "0 < length (pvalues (push_value obj pr st))"
  "flags (push_value obj pr st) ! (length (pvalues (push_value obj pr st)) - 1) = pr"
  by (simp_all add: push_value_def flags_def nth_append)

definition value_read ::
  "(utext \<Rightarrow> utext option) \<Rightarrow> (utext \<Rightarrow> 'e + utext) \<Rightarrow> utext \<Rightarrow> nat \<Rightarrow> bool \<Rightarrow> utext \<Rightarrow> 'e + utext \<Rightarrow> php_parser \<Rightarrow> bool" where
  "value_read url g t levels preserve x res st \<longleftrightarrow>
     (\<exists>c st'. php_value_at url levels preserve st = Inr (c, st') \<and> reads g t x res st st'
        \<and> 0 < c \<and> c \<le> length (pvalues st') \<and> flags st' ! (c - 1) = preserve)"

lemma new_value_reads:
  assumes "good t st" "st1 = push_value False preserve st"
    and run: "php_value_at url (Suc levels) preserve st = pthen body (pret (length (pvalues st1))) st1"
    and body: "body st1 = Inr ((), st2)" and r2: "reads g t x res st1 st2"
  shows "value_read url g t (Suc levels) preserve x res st"
proof -
  note push = reads_push [OF assms(1), of g False preserve, folded assms(2)]
  have flag: "0 < length (pvalues st1)" "flags st1 ! (length (pvalues st1) - 1) = preserve"
    unfolding assms(2) by (rule push_flag)+
  have "php_value_at url (Suc levels) preserve st = Inr (length (pvalues st1), st2)"
    unfolding run by (simp add: pthen_def pbind_def pret_def body)
  moreover have "reads g t x res st st2"
    using reads_trans [OF push r2] by (cases res) simp_all
  moreover have le: "length (pvalues st1) \<le> length (pvalues st2)"
    using prefix_length_le [OF reads_flags [OF r2]] by (simp add: flags_length)
  moreover have "flags st2 ! (length (pvalues st1) - 1) = preserve"
    using prefix_nth [OF reads_flags [OF r2], of "length (pvalues st1) - 1"] flag by (simp add: flags_length)
  ultimately show ?thesis using flag(1) unfolding value_read_def by blast
qed

lemma plain_value_reads:
  assumes "good t st" "remaining st = x @ r" "x \<noteq> []" "hd x \<in> {78, 98, 105, 100}"
    and body: "consumes (if hd x = 78 then ptake (cps ''N;'') else php_scalar (hd x)) x r ()"
  shows "value_read url g t (Suc levels) preserve x (Inr x) st"
proof -
  define st1 where "st1 = push_value False preserve st"
  note push = reads_push [OF assms(1), of g False preserve, folded st1_def]
  have rem1: "remaining st1 = x @ r" by (simp add: st1_def push_value_def assms(2))
  from reads_consumes [OF body reads_good [OF push] rem1, of g] obtain st2 where
    st2: "(if hd x = 78 then ptake (cps ''N;'') else php_scalar (hd x)) st1 = Inr ((), st2)"
    and r2: "reads g t x (Inr x) st1 st2" by blast
  have k: "(case remaining st of [] \<Rightarrow> 0 | c # _ \<Rightarrow> c) = hd x" using assms(2,3) by (cases x) auto
  show ?thesis
    by (rule new_value_reads [where body = "if hd x = 78 then ptake (cps ''N;'') else php_scalar (hd x)",
          OF assms(1) st1_def _ st2 r2])
      (use assms(4) in \<open>auto simp: php_value_body_def k Let_def st1_def\<close>)
qed

lemma string_reads:
  assumes "good t st" "remaining st = php_string_token s @ r" "blen s \<le> u64_max"
  shows "value_read url g t (Suc levels) preserve (php_string_token s) (string_result url g preserve s) st"
proof -
  define st1 where "st1 = push_value False preserve st"
  note push = reads_push [OF assms(1), of g False preserve, folded st1_def]
  have rem1: "remaining st1 = php_string_token s @ r" by (simp add: st1_def push_value_def assms(2))
  have flag: "0 < length (pvalues st1)" "flags st1 ! (length (pvalues st1) - 1) = preserve"
    unfolding st1_def by (rule push_flag)+
  from string_value_reads [OF reads_good [OF push] flag(1) order_refl flag(2) assms(3) rem1]
  obtain st2 where st2: "php_string_value url preserve (length (pvalues st1)) st1 = Inr ((), st2)"
    and r2: "reads g t (php_string_token s) (string_result url g preserve s) st1 st2" by blast
  have k: "(case remaining st of [] \<Rightarrow> 0 | c # _ \<Rightarrow> c) = 115" using assms(2) by (simp add: token_parts)
  show ?thesis
    by (rule new_value_reads [where body = "php_string_value url preserve (length (pvalues st1))",
          OF assms(1) st1_def _ st2 r2])
      (simp add: php_value_body_def k Let_def st1_def)
qed

text \<open>A member after its key: the value is read and becomes a child of the container.\<close>

lemma member_reads:
  assumes v: "value_read url g t levels (preserve \<or> tech) y res st"
    and "0 < vid" "vid \<le> length (pvalues st)" "flags st ! (vid - 1) = preserve"
  shows "\<exists>c st1. php_value_at url levels (preserve \<or> tech) st = Inr (c, st1)
    \<and> reads g t y res st (add_child vid c st1)"
proof -
  from v obtain c st1 where run: "php_value_at url levels (preserve \<or> tech) st = Inr (c, st1)"
    and r: "reads g t y res st st1" and c: "0 < c" "c \<le> length (pvalues st1)" "flags st1 ! (c - 1) = (preserve \<or> tech)"
    by (auto simp: value_read_def)
  have vid: "vid \<le> length (pvalues st1)"
    using assms(3) prefix_length_le [OF reads_flags [OF r]] by (simp add: flags_length)
  have "flags st1 ! (vid - 1) = preserve"
    using prefix_nth [OF reads_flags [OF r], of "vid - 1"] assms(2-4) by (simp add: flags_length)
  with c have "flags st1 ! (vid - 1) \<longrightarrow> flags st1 ! (c - 1)" by simp
  from reads_trans [OF r reads_child [OF reads_good [OF r] assms(2) vid c(1,2) this]]
  have "reads g t y res st (add_child vid c st1)" by (cases res) simp_all
  with run show ?thesis by blast
qed

lemma members_step:
  assumes key: "php_key False st = Inr (key, st1)" "reads g t kx (Inr kx) st st1"
    and v: "value_read url g t levels (preserve \<or> (case key of Some k \<Rightarrow> is_technical_key k | None \<Rightarrow> False)) y res st1"
    and vid: "0 < vid" "vid \<le> length (pvalues st)" "flags st ! (vid - 1) = preserve"
    and rest: "\<And>st2. good t st2 \<Longrightarrow> remaining st1 = y @ remaining st2 \<Longrightarrow> vid \<le> length (pvalues st2) \<Longrightarrow>
      flags st2 ! (vid - 1) = preserve \<Longrightarrow>
      \<exists>st'. php_members (php_value_at url levels) False preserve vid n st2 = Inr ((), st') \<and> reads g t z res' st2 st'"
  shows "\<exists>st'. php_members (php_value_at url levels) False preserve vid (Suc n) st = Inr ((), st')
    \<and> reads g t ((kx @ y) @ z) (both (both (Inr kx) res) res') st st'"
proof -
  have later: "vid \<le> length (pvalues s2) \<and> flags s2 ! (vid - 1) = preserve" if "prefix (flags st) (flags s2)" for s2
    using prefix_nth [OF that, of "vid - 1"] prefix_length_le [OF that] vid by (simp add: flags_length)
  note st1 = later [OF reads_flags [OF key(2)]]
  from member_reads [OF v vid(1)] st1 obtain c st2 where
    run: "php_value_at url levels (preserve \<or> (case key of Some k \<Rightarrow> is_technical_key k | None \<Rightarrow> False)) st1 = Inr (c, st2)"
    and r2: "reads g t y res st1 (add_child vid c st2)" by blast
  note r12 = reads_trans [OF key(2) r2]
  from rest [OF reads_good [OF r2] reads_remaining [OF r2]] later [OF reads_flags [OF r12]]
  obtain st' where "php_members (php_value_at url levels) False preserve vid n (add_child vid c st2) = Inr ((), st')"
    and r3: "reads g t z res' (add_child vid c st2) st'" by blast
  with key(1) run have "php_members (php_value_at url levels) False preserve vid (Suc n) st = Inr ((), st')"
    by (simp add: pbind_def)
  with reads_trans [OF r12 r3] show ?thesis by blast
qed

lemma container_value_reads:
  assumes "good t st" "remaining st = (cps ''a:'' @ fmt_cps n @ cps '':{'' @ y @ cps ''}'') @ r"
    and n: "n \<le> u64_max" "n \<le> length y"
    and members: "\<And>st2 vid. good t st2 \<Longrightarrow> remaining st2 = y @ cps ''}'' @ r \<Longrightarrow> 0 < vid \<Longrightarrow>
      vid \<le> length (pvalues st2) \<Longrightarrow> flags st2 ! (vid - 1) = preserve \<Longrightarrow>
      \<exists>st'. php_members (php_value_at url levels) False preserve vid n st2 = Inr ((), st') \<and> reads g t y res st2 st'"
  shows "value_read url g t (Suc levels) preserve (cps ''a:'' @ fmt_cps n @ cps '':{'' @ y @ cps ''}'')
    (both (both (Inr (cps ''a:'' @ fmt_cps n @ cps '':{'')) res) (Inr (cps ''}''))) st"
proof -
  let ?h = "cps ''a:'' @ fmt_cps n @ cps '':{''"
  define st1 where "st1 = push_value False preserve st"
  define vid where "vid = length (pvalues st1)"
  note push = reads_push [OF assms(1), of g False preserve, folded st1_def]
  have rem1: "remaining st1 = ?h @ y @ cps ''}'' @ r" by (simp add: st1_def push_value_def assms(2))
  have flag: "0 < vid" "flags st1 ! (vid - 1) = preserve"
    unfolding st1_def vid_def by (rule push_flag)+
  define st2 where "st2 = advance (length ?h) st1"
  have r2: "reads g t ?h (Inr ?h) st1 st2"
    unfolding st2_def by (rule reads_literal [OF reads_good [OF push] rem1])
  have rem2: "remaining st2 = y @ cps ''}'' @ r" using reads_remaining [OF r2] rem1 by simp
  have vid2: "vid \<le> length (pvalues st2)" "flags st2 ! (vid - 1) = preserve"
    using flag by (simp_all add: st2_def vid_def flags_def)
  from members [OF reads_good [OF r2] rem2 flag(1) vid2] obtain st3 where
    m: "php_members (php_value_at url levels) False preserve vid n st2 = Inr ((), st3)"
    and r3: "reads g t y res st2 st3" by blast
  have rem3: "remaining st3 = cps ''}'' @ r" using reads_remaining [OF r3] rem2 by simp
  from reads_consumes [OF ptake_consumes reads_good [OF r3] rem3, of g] obtain st4 where
    e: "ptake (cps ''}'') st3 = Inr ((), st4)" and r4: "reads g t (cps ''}'') (Inr (cps ''}'')) st3 st4" by blast
  have body: "php_container (php_value_at url levels) 97 preserve vid st1 = Inr ((), st4)"
  proof -
    have colon: "ptake (cps '':'') (advance 1 st1) = Inr ((), advance 2 st1)"
      using rem1 by (simp add: ptake_def cps_def advance_advance numeral_2_eq_2)
    have "remaining (advance 2 st1) = fmt_cps n @ 58 # 123 # y @ cps ''}'' @ r"
      using rem1 by (simp add: cps_def numeral_2_eq_2)
    with size_consumes [OF n(1), of 58] have size: "php_size (advance 2 st1) = Inr (n, advance (length (fmt_cps n)) (advance 2 st1))"
      by (simp add: consumes_def is_digit_cp_def)
    have brace: "ptake (cps '':{'') (advance (length (fmt_cps n)) (advance 2 st1)) = Inr ((), st2)"
      using rem1 by (simp add: ptake_def cps_def advance_advance numeral_2_eq_2 st2_def)
    have "\<not> blen (remaining st2) < n" using n(2) length_le_blen [of y] unfolding rem2 by simp
    with colon size brace m e show ?thesis
      by (simp add: php_container_def pthen_def pbind_def pret_def)
  qed
  have k: "(case remaining st of [] \<Rightarrow> 0 | c # _ \<Rightarrow> c) = 97" using assms(2) by (simp add: cps_def)
  from reads_trans [OF reads_trans [OF r2 r3] r4]
  have r5: "reads g t (?h @ y @ cps ''}'') (both (both (Inr ?h) res) (Inr (cps ''}''))) st1 st4" by simp
  have "value_read url g t (Suc levels) preserve (?h @ y @ cps ''}'')
    (both (both (Inr ?h) res) (Inr (cps ''}''))) st"
    by (rule new_value_reads [where body = "php_container (php_value_at url levels) 97 preserve vid",
          OF assms(1) st1_def _ body r5])
      (simp add: php_value_body_def k Let_def st1_def vid_def)
  then show ?thesis by simp
qed

section \<open>The two ways of translating agree\<close>

definition value_result ::
  "(utext \<Rightarrow> utext option) \<Rightarrow> (utext \<Rightarrow> 'e field_error + utext) \<Rightarrow> bool \<Rightarrow> nat \<Rightarrow> utext \<Rightarrow> utext json \<Rightarrow> 'e field_error + utext" where
  "value_result url g preserve dep path v =
     ebind (if preserve then Inr v else translate_json_value url (\<lambda>_. g) dep path v)
       (\<lambda>w. Inr (serialize_json_value_to_php w))"

definition items_result ::
  "(utext \<Rightarrow> utext option) \<Rightarrow> (utext \<Rightarrow> 'e field_error + utext) \<Rightarrow> bool \<Rightarrow> nat \<Rightarrow> utext \<Rightarrow> nat \<Rightarrow> utext json list \<Rightarrow> 'e field_error + utext" where
  "items_result url g preserve dep path idx xs =
     ebind (if preserve then Inr xs else translate_json_items url (\<lambda>_. g) dep path idx xs)
       (\<lambda>ys. Inr (serialize_items idx ys))"

definition members_result ::
  "(utext \<Rightarrow> utext option) \<Rightarrow> (utext \<Rightarrow> 'e field_error + utext) \<Rightarrow> bool \<Rightarrow> nat \<Rightarrow> utext \<Rightarrow> (utext \<times> utext json) list \<Rightarrow> 'e field_error + utext" where
  "members_result url g preserve dep path ms =
     ebind (if preserve then Inr ms else translate_json_members url (\<lambda>_. g) dep path ms)
       (\<lambda>ns. Inr (serialize_members ns))"

declare translate_json_value.simps [simp del]

lemma ebind_Inr: "ebind a f = Inr b \<longleftrightarrow> (\<exists>x. a = Inr x \<and> f x = Inr b)"
  by (cases a) auto

lemma items_result_Cons:
  "items_result url g preserve dep path idx (x # xs) =
     both (both (Inr (cps ''i:'' @ fmt_cps idx @ cps '';''))
       (value_result url g preserve (dep + 1) (index_path path idx) x))
       (items_result url g preserve dep path (Suc idx) xs)"
  by (cases preserve; cases "translate_json_value url (\<lambda>_. g) (dep + 1) (index_path path idx) x";
      cases "translate_json_items url (\<lambda>_. g) dep path (Suc idx) xs")
    (simp_all add: items_result_def value_result_def)

lemma members_result_Cons:
  "members_result url g preserve dep path ((k, x) # ms) =
     both (both (Inr (php_string_token k))
       (value_result url g (preserve \<or> is_technical_key k) (dep + 1) (key_path path k) x))
       (members_result url g preserve dep path ms)"
proof (cases preserve)
  case True
  then show ?thesis by (simp add: members_result_def value_result_def)
next
  case False
  have m: "members_result url g preserve dep path ms =
      ebind (translate_json_members url (\<lambda>_. g) dep path ms) (\<lambda>ns. Inr (serialize_members ns))" for ms
    using False by (simp add: members_result_def)
  show ?thesis
    unfolding m
    by (cases "is_technical_key k"; cases "translate_json_value url (\<lambda>_. g) (dep + 1) (key_path path k) x";
        cases "translate_json_members url (\<lambda>_. g) dep path ms")
      (simp_all add: value_result_def False)
qed

lemma translated_items_length: "translate_json_items url f dep path idx xs = Inr ys \<Longrightarrow> length ys = length xs"
  by (induction xs arbitrary: idx ys) (auto simp: ebind_Inr)

lemma translated_members_length: "translate_json_members url f dep path ms = Inr ns \<Longrightarrow> length ns = length ms"
proof (induction ms arbitrary: ns)
  case (Cons m ms)
  then show ?case by (cases m) (auto simp: ebind_Inr split: if_splits)
qed simp

lemma serialize_items_length: "length xs \<le> length (serialize_items idx xs)"
proof (induction xs arbitrary: idx)
  case (Cons x xs)
  from Cons.IH [of "Suc idx"] show ?case by (simp add: cps_def)
qed simp

lemma serialize_members_length: "length ms \<le> length (serialize_members ms)"
proof (induction ms)
  case (Cons m ms)
  then show ?case by (cases m) (auto simp: token_parts)
qed simp

lemma value_result_array:
  assumes "dep \<le> MAX_JSON_TRANSLATION_DEPTH"
  shows "value_result url g preserve dep path (JArray xs) =
    both (both (Inr (cps ''a:'' @ fmt_cps (length xs) @ cps '':{''))
      (items_result url g preserve dep path 0 xs)) (Inr (cps ''}''))"
proof (cases preserve)
  case True
  then show ?thesis by (simp add: value_result_def items_result_def)
next
  case False
  then show ?thesis
    using assms translated_items_length [of url "\<lambda>_. g" dep path 0 xs]
    by (cases "translate_json_items url (\<lambda>_. g) dep path 0 xs")
      (simp_all add: value_result_def items_result_def translate_json_value.simps)
qed

lemma value_result_object:
  assumes "dep \<le> MAX_JSON_TRANSLATION_DEPTH"
  shows "value_result url g preserve dep path (JObject ms) =
    both (both (Inr (cps ''a:'' @ fmt_cps (length ms) @ cps '':{''))
      (members_result url g preserve dep path ms)) (Inr (cps ''}''))"
proof (cases preserve)
  case True
  then show ?thesis by (simp add: value_result_def members_result_def)
next
  case False
  then show ?thesis
    using assms translated_members_length [of url "\<lambda>_. g" dep path ms]
    by (cases "translate_json_members url (\<lambda>_. g) dep path ms")
      (simp_all add: value_result_def members_result_def translate_json_value.simps)
qed

lemma value_result_string:
  assumes "dep \<le> MAX_JSON_TRANSLATION_DEPTH"
  shows "value_result url g preserve dep path (JString s) = string_result url g preserve s"
  using assms
  by (cases "g s") (auto simp: value_result_def string_result_def translate_json_value.simps)

lemma value_result_other:
  assumes "dep \<le> MAX_JSON_TRANSLATION_DEPTH"
  shows "value_result url g preserve dep path JNull = Inr (serialize_json_value_to_php JNull)"
    and "value_result url g preserve dep path (JBool b) = Inr (serialize_json_value_to_php (JBool b))"
    and "value_result url g preserve dep path (JInt i) = Inr (serialize_json_value_to_php (JInt i))"
    and "value_result url g preserve dep path (JNum x) = Inr (serialize_json_value_to_php (JNum x))"
  using assms by (simp_all add: value_result_def translate_json_value.simps)

lemma levels_pos: "0 < json_levels v"
  by (cases v) simp_all

lemma parses_serialized:
  fixes g :: "utext \<Rightarrow> 'e field_error + utext"
  shows "good t st \<Longrightarrow> remaining st = serialize_json_value_to_php v @ r \<Longrightarrow> representable v \<Longrightarrow>
      json_levels v \<le> levels \<Longrightarrow> dep + json_levels v \<le> 257 \<Longrightarrow>
      value_read url g t levels preserve (serialize_json_value_to_php v) (value_result url g preserve dep path v) st"
    and "good t st \<Longrightarrow> remaining st = serialize_items idx xs @ r \<Longrightarrow> representable_items xs \<Longrightarrow>
      idx + length xs \<le> 9223372036854775807 \<Longrightarrow> levels_items xs \<le> levels \<Longrightarrow> dep + levels_items xs \<le> 256 \<Longrightarrow>
      0 < vid \<Longrightarrow> vid \<le> length (pvalues st) \<Longrightarrow> flags st ! (vid - 1) = preserve \<Longrightarrow>
      \<exists>st'. php_members (php_value_at url levels) False preserve vid (length xs) st = Inr ((), st')
        \<and> reads g t (serialize_items idx xs) (items_result url g preserve dep path idx xs) st st'"
    and "good t st \<Longrightarrow> remaining st = serialize_members ms @ r \<Longrightarrow> representable_members ms \<Longrightarrow>
      levels_members ms \<le> levels \<Longrightarrow> dep + levels_members ms \<le> 256 \<Longrightarrow>
      0 < vid \<Longrightarrow> vid \<le> length (pvalues st) \<Longrightarrow> flags st ! (vid - 1) = preserve \<Longrightarrow>
      \<exists>st'. php_members (php_value_at url levels) False preserve vid (length ms) st = Inr ((), st')
        \<and> reads g t (serialize_members ms) (members_result url g preserve dep path ms) st st'"
proof (induction v and idx xs and ms arbitrary: levels preserve dep path st r
    and levels preserve dep path st r vid and levels preserve dep path st r vid
    rule: serialize_json_value_to_php_serialize_items_serialize_members.induct)
  case 1
  then obtain l where l: "levels = Suc l" by (cases levels) auto
  have d: "dep \<le> MAX_JSON_TRANSLATION_DEPTH" using 1 by (simp add: MAX_JSON_TRANSLATION_DEPTH_def)
  show ?case
    unfolding l value_result_other [OF d]
    by (rule plain_value_reads [OF 1(1,2)]) (simp_all add: cps_def, simp add: ptake_consumes)
next
  case (2 b)
  then obtain l where l: "levels = Suc l" by (cases levels) auto
  have d: "dep \<le> MAX_JSON_TRANSLATION_DEPTH" using 2 by (simp add: MAX_JSON_TRANSLATION_DEPTH_def)
  have "consumes (php_scalar 98) (98 # 58 # [if b then 49 else 48] @ [59]) r ()"
    by (rule scalar_consumes) (simp_all add: scalar_ok_def)
  then show ?case
    unfolding l value_result_other [OF d]
    by (intro plain_value_reads [OF 2(1,2)]; cases b; simp add: cps_def)
next
  case (3 i)
  then obtain l where l: "levels = Suc l" by (cases levels) auto
  have d: "dep \<le> MAX_JSON_TRANSLATION_DEPTH" using 3 by (simp add: MAX_JSON_TRANSLATION_DEPTH_def)
  define k where "k = (if fits_i64 i then 105 else 100 :: nat)"
  have ok: "scalar_ok k (cps (fmt_int i))"
    using is_i64_int [of i] php_float_scalar [OF php_float_int [of i]] by (simp add: scalar_ok_def k_def)
  have x: "serialize_json_value_to_php (JInt i) = k # 58 # cps (fmt_int i) @ [59]"
    by (simp add: k_def cps_def)
  have "consumes (php_scalar k) (k # 58 # cps (fmt_int i) @ [59]) r ()"
    by (rule scalar_consumes [OF int_no_semicolon ok])
  then show ?case
    unfolding l value_result_other [OF d]
    by (intro plain_value_reads [OF 3(1,2)], unfold x) (simp_all add: k_def split: if_splits)
next
  case (4 x)
  then obtain l where l: "levels = Suc l" by (cases levels) auto
  have d: "dep \<le> MAX_JSON_TRANSLATION_DEPTH" using 4 by (simp add: MAX_JSON_TRANSLATION_DEPTH_def)
  have f: "scalar_ok 100 x \<and> 59 \<notin> set x" using php_float_scalar 4(3) by simp
  then have "consumes (php_scalar 100) (100 # 58 # x @ [59]) r ()" by (intro scalar_consumes) simp_all
  then show ?case
    unfolding l value_result_other [OF d]
    by (intro plain_value_reads [OF 4(1,2)]) (simp_all add: cps_def)
next
  case (5 s)
  then obtain l where l: "levels = Suc l" by (cases levels) auto
  have d: "dep \<le> MAX_JSON_TRANSLATION_DEPTH" using 5 by (simp add: MAX_JSON_TRANSLATION_DEPTH_def)
  show ?case
    unfolding l value_result_string [OF d]
    using string_reads [OF 5(1), of s r url g l preserve] 5(2,3) by simp
next
  case (6 xs)
  then obtain l where l: "levels = Suc l" by (cases levels) auto
  have d: "dep \<le> MAX_JSON_TRANSLATION_DEPTH" using 6 by (simp add: MAX_JSON_TRANSLATION_DEPTH_def)
  have "value_read url g t (Suc l) preserve
      (cps ''a:'' @ fmt_cps (length xs) @ cps '':{'' @ serialize_items 0 xs @ cps ''}'')
      (both (both (Inr (cps ''a:'' @ fmt_cps (length xs) @ cps '':{'')) (items_result url g preserve dep path 0 xs))
        (Inr (cps ''}''))) st"
  proof (rule container_value_reads [OF 6(2)])
    show "length xs \<le> u64_max" using 6(4) by (simp add: u64_max_def)
    show "length xs \<le> length (serialize_items 0 xs)" by (rule serialize_items_length)
  next
    fix st2 vid
    assume "good t st2" "remaining st2 = serialize_items 0 xs @ cps ''}'' @ r" "0 < vid"
      "vid \<le> length (pvalues st2)" "flags st2 ! (vid - 1) = preserve"
    then show "\<exists>st'. php_members (php_value_at url l) False preserve vid (length xs) st2 = Inr ((), st')
        \<and> reads g t (serialize_items 0 xs) (items_result url g preserve dep path 0 xs) st2 st'"
      using 6(1) [of st2 "cps ''}'' @ r" l dep vid preserve path] 6(4,5,6) l by simp
  qed (use 6(3) in simp)
  then show ?case unfolding l value_result_array [OF d] by simp
next
  case (7 ms)
  then obtain l where l: "levels = Suc l" by (cases levels) auto
  have d: "dep \<le> MAX_JSON_TRANSLATION_DEPTH" using 7 by (simp add: MAX_JSON_TRANSLATION_DEPTH_def)
  have "value_read url g t (Suc l) preserve
      (cps ''a:'' @ fmt_cps (length ms) @ cps '':{'' @ serialize_members ms @ cps ''}'')
      (both (both (Inr (cps ''a:'' @ fmt_cps (length ms) @ cps '':{'')) (members_result url g preserve dep path ms))
        (Inr (cps ''}''))) st"
  proof (rule container_value_reads [OF 7(2)])
    show "length ms \<le> u64_max" using 7(4) by simp
    show "length ms \<le> length (serialize_members ms)" by (rule serialize_members_length)
  next
    fix st2 vid
    assume "good t st2" "remaining st2 = serialize_members ms @ cps ''}'' @ r" "0 < vid"
      "vid \<le> length (pvalues st2)" "flags st2 ! (vid - 1) = preserve"
    then show "\<exists>st'. php_members (php_value_at url l) False preserve vid (length ms) st2 = Inr ((), st')
        \<and> reads g t (serialize_members ms) (members_result url g preserve dep path ms) st2 st'"
      using 7(1) [of st2 "cps ''}'' @ r" l dep vid preserve path] 7(4,5,6) l by simp
  qed (use 7(3) in simp)
  then show ?case unfolding l value_result_object [OF d] by simp
next
  case (8 idx)
  then show ?case using reads_literal [OF 8(1), of "[]" r g]
    by (auto simp: items_result_def pret_def advance_def)
next
  case (9 idx x xs)
  let ?k = "cps ''i:'' @ fmt_cps idx @ cps '';''"
  from index_reads [OF 9(3), of idx "serialize_json_value_to_php x @ serialize_items (Suc idx) xs @ r" g] 9(4,6)
  obtain st1 where key: "php_key False st = Inr (None, st1)" "reads g t ?k (Inr ?k) st st1" by auto
  have rem1: "remaining st1 = serialize_json_value_to_php x @ serialize_items (Suc idx) xs @ r"
    using reads_remaining [OF key(2)] 9(4) by simp
  have v: "value_read url g t levels preserve (serialize_json_value_to_php x)
      (value_result url g preserve (dep + 1) (index_path path idx) x) st1"
    by (rule 9(1) [OF reads_good [OF key(2)] rem1]) (use 9(5,7,8) in simp_all)
  have "\<exists>st'. php_members (php_value_at url levels) False preserve vid (Suc (length xs)) st = Inr ((), st')
    \<and> reads g t ((?k @ serialize_json_value_to_php x) @ serialize_items (Suc idx) xs)
        (both (both (Inr ?k) (value_result url g preserve (dep + 1) (index_path path idx) x))
          (items_result url g preserve dep path (Suc idx) xs)) st st'"
  proof (rule members_step [OF key _ 9(9,10,11)])
    show "value_read url g t levels (preserve \<or> (case None of None \<Rightarrow> False | Some k \<Rightarrow> is_technical_key k))
        (serialize_json_value_to_php x) (value_result url g preserve (dep + 1) (index_path path idx) x) st1"
      using v by simp
  next
    fix st2 assume "good t st2" "remaining st1 = serialize_json_value_to_php x @ remaining st2"
      "vid \<le> length (pvalues st2)" "flags st2 ! (vid - 1) = preserve"
    then show "\<exists>st'. php_members (php_value_at url levels) False preserve vid (length xs) st2 = Inr ((), st')
        \<and> reads g t (serialize_items (Suc idx) xs) (items_result url g preserve dep path (Suc idx) xs) st2 st'"
      using 9(2) [of st2 r levels dep vid preserve path] 9(5-9) rem1 by simp
  qed
  then show ?case by (simp add: items_result_Cons)
next
  case 10
  then show ?case using reads_literal [OF 10(1), of "[]" r g]
    by (auto simp: members_result_def pret_def advance_def)
next
  case (11 k x ms)
  let ?k = "php_string_token k"
  let ?pr = "preserve \<or> is_technical_key k"
  from key_reads [OF 11(3), of k "serialize_json_value_to_php x @ serialize_members ms @ r" g] 11(4,5)
  obtain st1 where key: "php_key False st = Inr (Some k, st1)" "reads g t ?k (Inr ?k) st st1" by auto
  have rem1: "remaining st1 = serialize_json_value_to_php x @ serialize_members ms @ r"
    using reads_remaining [OF key(2)] 11(4) by simp
  have v: "value_read url g t levels ?pr (serialize_json_value_to_php x)
      (value_result url g ?pr (dep + 1) (key_path path k) x) st1"
    by (rule 11(1) [OF reads_good [OF key(2)] rem1]) (use 11(5,6,7) in simp_all)
  have "\<exists>st'. php_members (php_value_at url levels) False preserve vid (Suc (length ms)) st = Inr ((), st')
    \<and> reads g t ((?k @ serialize_json_value_to_php x) @ serialize_members ms)
        (both (both (Inr ?k) (value_result url g ?pr (dep + 1) (key_path path k) x))
          (members_result url g preserve dep path ms)) st st'"
  proof (rule members_step [OF key _ 11(8,9,10)])
    show "value_read url g t levels (preserve \<or> (case Some k of None \<Rightarrow> False | Some k \<Rightarrow> is_technical_key k))
        (serialize_json_value_to_php x) (value_result url g ?pr (dep + 1) (key_path path k) x) st1"
      using v by simp
  next
    fix st2 assume "good t st2" "remaining st1 = serialize_json_value_to_php x @ remaining st2"
      "vid \<le> length (pvalues st2)" "flags st2 ! (vid - 1) = preserve"
    then show "\<exists>st'. php_members (php_value_at url levels) False preserve vid (length ms) st2 = Inr ((), st')
        \<and> reads g t (serialize_members ms) (members_result url g preserve dep path ms) st2 st'"
      using 11(2) [of st2 r levels dep vid preserve path] 11(5-8) rem1 by simp
  qed
  then show ?case by (simp add: members_result_Cons)
qed

lemma serialize_not_Nil: "serialize_json_value_to_php v \<noteq> []"
  by (cases v) (simp_all add: cps_def token_parts)

lemma serialize_prefix: "\<exists>p \<in> set php_prefixes. prefix p (serialize_json_value_to_php v)"
  by (cases v) (auto simp: php_prefixes_def cps_def token_parts)

lemma shielded_closure:
  assumes "good t st" "shielded st" "flags st ! (i - 1)" "(i, j) \<in> (value_edges (pvalues st))\<^sup>*"
  shows "flags st ! (j - 1)"
  using assms(4,3) by (induction rule: rtrancl_induct) (use assms(2) in \<open>auto simp: shielded_def\<close>)

lemma shielded_keeps_all:
  assumes "good t st" "shielded st" "preserved_values (pvalues st) = Some p"
  shows "filter (\<lambda>s. \<not> p ! (s_value_id s - 1)) (pstrings st) = pstrings st"
proof (rule filter_True, rule ballI)
  fix s assume s: "s \<in> set (pstrings st)"
  have valid: "\<forall>v \<in> set (pvalues st). \<forall>c \<in> set (pv_children v). 0 < c \<and> c \<le> length (pvalues st)"
    and sid: "0 < s_value_id s" "s_value_id s \<le> length (pvalues st)"
    using assms(1) s by (auto simp: good_def values_valid_def)
  from preserved_values_closure [OF valid] assms(3) sid
  have p: "p ! (s_value_id s - 1) = (\<exists>i. 0 < i \<and> i \<le> length (pvalues st) \<and> pv_preserve (pvalues st ! (i - 1))
      \<and> (i, s_value_id s) \<in> (value_edges (pvalues st))\<^sup>*)" by auto
  have "\<not> flags st ! (s_value_id s - 1)" using assms(2) s by (simp add: shielded_def)
  show "\<not> p ! (s_value_id s - 1)"
  proof
    assume "p ! (s_value_id s - 1)"
    then obtain i where i: "0 < i" "i \<le> length (pvalues st)" "pv_preserve (pvalues st ! (i - 1))"
      "(i, s_value_id s) \<in> (value_edges (pvalues st))\<^sup>*" unfolding p by blast
    then have "flags st ! (i - 1)" by (simp add: flags_def)
    from shielded_closure [OF assms(1,2) this i(4)] \<open>\<not> flags st ! (s_value_id s - 1)\<close> show False by simp
  qed
qed

lemma translates_serialized:
  assumes "representable v" "json_levels v \<le> 129"
  shows "translate_serialized_php url (\<lambda>_. g) (serialize_json_value_to_php v)
    = Some (ebind (translate_json_value url (\<lambda>_. g) 0 path v) (\<lambda>w. Inr (serialize_json_value_to_php w)))"
proof -
  let ?t = "serialize_json_value_to_php v"
  have rem: "remaining (php_start ?t) = ?t @ []" by (simp add: php_start_def)
  have "value_read url g ?t 129 False ?t (value_result url g False 0 path v) (php_start ?t)"
    by (rule parses_serialized(1) [OF start_good rem]) (use assms in simp_all)
  then obtain c st where run: "php_value_at url 129 False (php_start ?t) = Inr (c, st)"
    and r: "reads g ?t ?t (value_result url g False 0 path v) (php_start ?t) st" by (auto simp: value_read_def)
  have good: "good ?t st" using reads_good [OF r] .
  have sh: "shielded st" using r by (simp add: reads_def shielded_def php_start_def value_edges_def)
  from r obtain new where new: "pstrings st = new"
    and ren: "renders g ?t new 0 (ppos st) (value_result url g False 0 path v)"
    by (auto simp: reads_def php_start_def)
  have pos: "remaining st = []" "ppos st = length ?t" using r by (auto simp: reads_def php_start_def)
  have valid: "\<forall>v \<in> set (pvalues st). \<forall>c \<in> set (pv_children v). 0 < c \<and> c \<le> length (pvalues st)"
    using good by (simp add: good_def values_valid_def)
  from preserved_values_closure [OF valid] obtain p where p: "preserved_values (pvalues st) = Some p" by blast
  have strings: "php_translatable_strings url ?t = Some (Inr new)"
    using run pos(1) p shielded_keeps_all [OF good sh p] serialize_prefix [of v] new
    by (auto simp: php_translatable_strings_def)
  have drop: "slice ?t i (length ?t) = drop i ?t" for i by (simp add: slice_def)
  have "ebind (php_rewrite (\<lambda>_. g) ?t new [] 0) (\<lambda>(result, pos). Inr (result @ drop pos ?t))
      = value_result url g False 0 path v"
  proof (cases "value_result url g False 0 path v")
    case (Inl e)
    with ren show ?thesis by (simp add: renders_def)
  next
    case (Inr y)
    with ren obtain r' pos' where "php_rewrite (\<lambda>_. g) ?t new [] 0 = Inr (r', pos')"
      "r' @ slice ?t pos' (ppos st) = [] @ slice ?t 0 0 @ y" unfolding renders_def by fastforce
    with Inr show ?thesis by (simp add: drop pos(2)) (simp add: slice_def)
  qed
  with strings show ?thesis by (simp add: translate_serialized_php_def value_result_def)
qed

section \<open>The text around the strings\<close>

fun weave :: "'a list list \<Rightarrow> 'a list list \<Rightarrow> 'a list" where
  "weave (g # gs) (x # xs) = g @ x @ weave gs xs"
| "weave (g # gs) [] = g"
| "weave [] xs = []"

lemma rewrite_weave:
  "leaves_from t pos k leaves (length t) k' \<Longrightarrow> php_rewrite f t leaves r pos = Inr (r', pos') \<Longrightarrow>
   \<exists>gaps ws. length gaps = Suc (length leaves) \<and> length ws = length leaves
     \<and> (\<forall>i < length leaves. f (php_leaf_path (s_ordinal (leaves ! i))) (s_value (leaves ! i)) = Inr (ws ! i))
     \<and> drop pos t = weave gaps (map (\<lambda>s. slice t (s_start s) (s_end s)) leaves)
     \<and> r' @ drop pos' t = r @ weave gaps (map php_string_token ws)"
proof (induction leaves arbitrary: pos k r)
  case Nil
  then show ?case by (intro exI [of _ "[drop pos t]"] exI [of _ "[]"]) simp
next
  case (Cons s leaves)
  from Cons.prems(2) obtain w where w: "f (php_leaf_path (s_ordinal s)) (s_value s) = Inr w"
    and rest: "php_rewrite f t leaves (r @ slice t pos (s_start s) @ php_string_token w) (s_end s) = Inr (r', pos')"
    by (auto simp: ebind_Inr)
  from Cons.prems(1) have order: "pos \<le> s_start s" "s_start s \<le> s_end s" "s_end s \<le> length t"
    and l: "leaves_from t (s_end s) (s_ordinal s) leaves (length t) k'"
    using exact_leaf_order [of t s] by (auto simp: exact_leaf_def)
  from Cons.IH [OF l rest] obtain gaps ws where IH: "length gaps = Suc (length leaves)" "length ws = length leaves"
    "\<forall>i < length leaves. f (php_leaf_path (s_ordinal (leaves ! i))) (s_value (leaves ! i)) = Inr (ws ! i)"
    "drop (s_end s) t = weave gaps (map (\<lambda>s. slice t (s_start s) (s_end s)) leaves)"
    "r' @ drop pos' t = (r @ slice t pos (s_start s) @ php_string_token w) @ weave gaps (map php_string_token ws)"
    by blast
  have "slice t pos (s_start s) @ slice t (s_start s) (s_end s) @ drop (s_end s) t = drop pos t"
  proof -
    have d: "slice t i j @ drop j t = drop i t" if "i \<le> j" for i j
    proof -
      from that have "drop j t = drop (j - i) (drop i t)" by simp
      then show ?thesis unfolding slice_def by (metis append_take_drop_id)
    qed
    show ?thesis using d [OF order(1)] d [OF order(2)] by simp
  qed
  then show ?case
    using IH w
    by (intro exI [of _ "slice t pos (s_start s) # gaps"] exI [of _ "w # ws"])
      (auto simp: nth_Cons split: nat.split)
qed

section \<open>Properties\<close>

text \<open>
  C18: The two ways to translate a structured field agree. A site may send a stored value as the serialized
  text or already expanded as JSON; for every representable value of at most 129 levels, translating the
  serialized text string by string gives the serialization of the translated JSON value, with the same first
  error. In particular the parser accepts every serialization, both skip the same technical keys and strings, and the
  result has the byte lengths of the new strings.
\<close>

theorem php_and_json_translation_agree:
  assumes "representable v" "json_levels v \<le> 129"
  shows "translate_serialized_php url (\<lambda>_. g) (serialize_json_value_to_php v)
    = Some (ebind (translate_json_value url (\<lambda>_. g) 0 path v) (\<lambda>w. Inr (serialize_json_value_to_php w)))"
  by (rule translates_serialized [OF assms])

theorem php_and_json_translation_agree_witness:
  "translate_serialized_php (\<lambda>_. None) (\<lambda>_ s. Inr (s @ cps ''!'') :: string field_error + utext)
      (serialize_json_value_to_php (JObject [(cps ''id'', JString (cps ''a'')), (cps ''t'', JString (cps ''b''))]))
    = Some (Inr (serialize_json_value_to_php (JObject [(cps ''id'', JString (cps ''a'')), (cps ''t'', JString (cps ''b!''))])))"
  using sample_keys sample_text php_and_json_translation_agree
    [of "JObject [(cps ''id'', JString (cps ''a'')), (cps ''t'', JString (cps ''b''))]" "\<lambda>_. None"
      "\<lambda>s. Inr (s @ cps ''!'') :: string field_error + utext" "[]"]
  by (simp add: cps_def utf8_len_def u64_max_def translate_json_value.simps MAX_JSON_TRANSLATION_DEPTH_def)

text \<open>
  Everything around the strings is kept. For any source, with references, objects and custom
  payloads, a successful translation is the source with exactly the tokens of the found strings replaced,
  each by the token of its own translation with the right byte length; the text between them is untouched.
\<close>

theorem serialized_translation_keeps_frame:
  assumes "translate_serialized_php url f t = Some (Inr out)"
  shows "\<exists>strings gaps ws. php_translatable_strings url t = Some (Inr strings)
    \<and> length gaps = Suc (length strings) \<and> length ws = length strings
    \<and> (\<forall>i < length strings. f (php_leaf_path (s_ordinal (strings ! i))) (s_value (strings ! i)) = Inr (ws ! i))
    \<and> t = weave gaps (map (\<lambda>s. slice t (s_start s) (s_end s)) strings)
    \<and> out = weave gaps (map php_string_token ws)"
proof -
  from assms obtain c where c: "php_translatable_strings url t = Some c"
    by (cases "php_translatable_strings url t") (auto simp: translate_serialized_php_def)
  with assms obtain strings where s: "php_translatable_strings url t = Some (Inr strings)"
    by (cases c) (auto simp: translate_serialized_php_def)
  with assms obtain r' pos' where rw: "php_rewrite f t strings [] 0 = Inr (r', pos')"
    and out: "out = r' @ drop pos' t"
    by (auto simp: translate_serialized_php_def ebind_Inr)
  from strings_in_order [OF s] obtain k where "leaves_from t 0 0 strings (length t) k" by blast
  from rewrite_weave [OF this rw] s out show ?thesis by auto
qed

lemma sample_serialized_translation:
  "translate_serialized_php (\<lambda>_. None) (\<lambda>_ s. Inr (s @ cps ''!'') :: string field_error + utext)
      (cps ''a:2:{s:2:\"id\";s:1:\"a\";s:1:\"t\";s:1:\"b\";}'')
    = Some (Inr (cps ''a:2:{s:2:\"id\";s:1:\"a\";s:1:\"t\";s:2:\"b!\";}''))"
  unfolding translate_serialized_php_def sample_php_strings
  by (simp add: php_string_token_def slice_def cps_def utf8_len_def fmt_cps_def string_token_def quoted_def
      fmt_nat.simps)

theorem serialized_translation_keeps_frame_witness:
  "\<exists>strings gaps ws. php_translatable_strings (\<lambda>_. None) (cps ''a:2:{s:2:\"id\";s:1:\"a\";s:1:\"t\";s:1:\"b\";}'') = Some (Inr strings)
    \<and> length gaps = Suc (length strings) \<and> length ws = length strings
    \<and> cps ''a:2:{s:2:\"id\";s:1:\"a\";s:1:\"t\";s:1:\"b\";}''
        = weave gaps (map (\<lambda>s. slice (cps ''a:2:{s:2:\"id\";s:1:\"a\";s:1:\"t\";s:1:\"b\";}'') (s_start s) (s_end s)) strings)
    \<and> cps ''a:2:{s:2:\"id\";s:1:\"a\";s:1:\"t\";s:2:\"b!\";}'' = weave gaps (map php_string_token ws)"
  using serialized_translation_keeps_frame [OF sample_serialized_translation] by blast

text \<open>
  C37: A value that the site sends expanded is stored again as it was. The full path of an expanded
  serialized field (print as JSON, translate, parse, re-encode) yields the translation of the serialized text
  itself, when the JSON parser reads back what the printer wrote for this value and for its translation.
\<close>

theorem expanded_field_restored:
  assumes "representable v" "json_levels v \<le> 129" "v \<noteq> JNull" "\<forall>s. v \<noteq> JString s"
    and "\<forall>i s. f_text env i s = g s" "f_parse env (f_print env v) = Some v"
    and "\<forall>w. translate_json_value (f_url env) (\<lambda>_. g) 0 (cps ''$'') v = Inr w \<longrightarrow> f_parse env (f_print env w) = Some w"
    and "normalize_field_value_for_translation (f_print env) v (cps ''serialized_php'') = Some n"
    and "translate_field_value env (n_text n) field (effective_format n) = Some (Inr (Some out))"
  shows "translate_field_value env (serialize_json_value_to_php v) field (cps ''serialized_php'')
    = Some (Inr (Some (restore_translated_value_after_translation (f_parse env) out (restore_plan n))))"
proof -
  have n: "n = \<lparr>n_text = f_print env v, effective_format = (cps ''json_structured''), restore_plan = JsonToSerializedPhp\<rparr>"
    using assms(3,4,8) by (cases v) (auto simp: normalize_field_value_for_translation_def)
  have g: "f_text env = (\<lambda>_. g)" using assms(5) by auto
  from assms(9) obtain w where w: "translate_json_value (f_url env) (\<lambda>_. g) 0 (cps ''$'') v = Inr w"
    and out: "out = f_print env w"
    by (auto simp: n g translate_field_value_def translate_json_structured_def assms(6) ebind_Inr)
  from assms(7) w have rt: "f_parse env (f_print env w) = Some w" by blast
  from translates_serialized [OF assms(1,2), of "f_url env" g "cps ''$''"]
  show ?thesis
    by (simp add: translate_field_value_def g w n out rt restore_translated_value_after_translation_def)
qed

definition sample_value :: "utext \<Rightarrow> utext json" where
  "sample_value t = JObject [(cps ''id'', JString (cps ''a'')), (cps ''t'', JString t)]"

definition sample_field_env :: "string field_env" where
  "sample_field_env = \<lparr>f_url = \<lambda>_. None,
     f_parse = \<lambda>t. find (\<lambda>v. serialize_json_value_to_php v = t) [sample_value (cps ''b''), sample_value (cps ''b!'')],
     f_print = serialize_json_value_to_php, f_text = \<lambda>_ s. Inr (s @ cps ''!''), f_html = \<lambda>s. Inr s\<rparr>"

lemma sample_value_translation:
  "translate_json_value (\<lambda>_. None) (\<lambda>_ s. Inr (s @ cps ''!'') :: string field_error + utext) 0 (cps ''$'') (sample_value (cps ''b''))
    = Inr (sample_value (cps ''b!''))"
  using sample_keys sample_text
  by (simp add: sample_value_def cps_def translate_json_value.simps MAX_JSON_TRANSLATION_DEPTH_def)

theorem expanded_field_restored_witness:
  "translate_field_value sample_field_env (serialize_json_value_to_php (sample_value (cps ''b''))) (cps ''meta'') (cps ''serialized_php'')
    = Some (Inr (Some (serialize_json_value_to_php (sample_value (cps ''b!'')))))"
proof -
  let ?p = serialize_json_value_to_php
  have parse: "f_parse sample_field_env (?p (sample_value (cps ''b''))) = Some (sample_value (cps ''b''))"
    "f_parse sample_field_env (?p (sample_value (cps ''b!''))) = Some (sample_value (cps ''b!''))"
    by (simp_all add: sample_field_env_def sample_value_def cps_def utf8_len_def php_string_token_def
        string_token_def quoted_def)
  have "translate_field_value sample_field_env (?p (sample_value (cps ''b''))) (cps ''meta'') (cps ''serialized_php'')
      = Some (Inr (Some (restore_translated_value_after_translation (f_parse sample_field_env)
          (?p (sample_value (cps ''b!''))) JsonToSerializedPhp)))"
    using expanded_field_restored [of "sample_value (cps ''b'')" sample_field_env "\<lambda>s. Inr (s @ cps ''!'')"
        "\<lparr>n_text = ?p (sample_value (cps ''b'')), effective_format = (cps ''json_structured''), restore_plan = JsonToSerializedPhp\<rparr>"
        "(cps ''meta'')" "?p (sample_value (cps ''b!''))"] parse sample_value_translation
    by (simp add: sample_field_env_def)
      (simp add: sample_value_def cps_def utf8_len_def u64_max_def normalize_field_value_for_translation_def
        translate_field_value_def translate_json_structured_def)
  then show ?thesis by (simp add: restore_translated_value_after_translation_def parse)
qed

end
