(* ===== verification/FieldActions.thy ===== *)
theory FieldActions
  imports StructuredContent "HOL-Library.List_Lexorder"
begin

text \<open>
  What is done with each field of an object: the accessors of a JSON value that the task engine uses,
  \<open>task_engine/field_action.rs\<close> (translate, copy or skip), \<open>extract_translate_fields\<close> of
  \<open>task_engine/pipeline.rs\<close> and \<open>task_engine/content_class.rs\<close> (text or binary products). Names are lists
  of code points, compared in the order of the source (the order of UTF-8 bytes is that of code points).
\<close>

lemma cps_Nil [simp]: "cps s = [] \<longleftrightarrow> s = []"
  by (simp add: cps_def)

section \<open>JSON accessors\<close>

fun as_str :: "'t json \<Rightarrow> 't option" where
  "as_str (JString s) = Some s"
| "as_str _ = None"

fun as_bool :: "'t json \<Rightarrow> bool option" where
  "as_bool (JBool b) = Some b"
| "as_bool _ = None"

fun as_array :: "'t json \<Rightarrow> 't json list option" where
  "as_array (JArray xs) = Some xs"
| "as_array _ = None"

fun as_object :: "'t json \<Rightarrow> ('t \<times> 't json) list option" where
  "as_object (JObject ms) = Some ms"
| "as_object _ = None"

text \<open>Only the integers that fit in 64 bits without a sign are \<open>u64\<close> values.\<close>

fun as_u64 :: "'t json \<Rightarrow> nat option" where
  "as_u64 (JInt i) = (if 0 \<le> i \<and> i \<le> int u64_max then Some (nat i) else None)"
| "as_u64 _ = None"

definition jget :: "'t \<Rightarrow> 't json \<Rightarrow> 't json option" where
  "jget k v = Option.bind (as_object v) (\<lambda>ms. map_of ms k)"

section \<open>The plan of actions\<close>

datatype field_action = Translate | Copy | Skip

record field_action_plan =
  plan_translate :: "utext list"
  plan_copy :: "utext list"
  plan_skip :: "utext list"

definition action_of :: "field_action_plan \<Rightarrow> utext \<Rightarrow> field_action option" where
  "action_of plan field =
     (if field \<in> set (plan_translate plan) then Some Translate
      else if field \<in> set (plan_copy plan) then Some Copy
      else if field \<in> set (plan_skip plan) then Some Skip
      else None)"

definition action_token :: "utext \<Rightarrow> field_action option" where
  "action_token token =
     (if token = cps ''translate'' then Some Translate
      else if token = cps ''copy'' \<or> token = cps ''as_is'' then Some Copy
      else if token = cps ''skip'' \<or> token = cps ''exclude'' then Some Skip
      else None)"

definition explicit_action :: "utext json \<Rightarrow> field_action option" where
  "explicit_action value =
     (case as_str value of
        Some token \<Rightarrow> action_token token
      | None \<Rightarrow>
          Option.bind (as_object value) (\<lambda>object.
          Option.bind (Option.bind
              (case map_of object (cps ''action'') of None \<Rightarrow> map_of object (cps ''type'') | Some v \<Rightarrow> Some v)
              as_str) (\<lambda>token.
          Option.bind (action_token token) (\<lambda>action.
            if Option.bind (map_of object (cps ''enabled'')) as_bool = Some False then Some Skip
            else Some action))))"

definition marked_translate :: "utext json \<Rightarrow> bool" where
  "marked_translate val \<longleftrightarrow>
     as_str val = Some (cps ''translate'')
     \<or> Option.bind (jget (cps ''type'') val) as_str = Some (cps ''translate'')
       \<and> (case Option.bind (jget (cps ''enabled'') val) as_bool of None \<Rightarrow> True | Some b \<Rightarrow> b)"

definition extract_translate_fields :: "utext json \<Rightarrow> utext list" where
  "extract_translate_fields field_caps =
     (let listed = (case Option.bind (jget (cps ''translate_fields'') field_caps) as_array of
            None \<Rightarrow> []
          | Some fs \<Rightarrow> List.map_filter as_str fs) in
      if listed = [] then
        (case as_object field_caps of
           None \<Rightarrow> []
         | Some obj \<Rightarrow> map fst (filter (\<lambda>(key, val). marked_translate val) obj))
      else listed)"

text \<open>The parts of \<open>DiscoveredRule\<close> that the field pipeline reads.\<close>

record discovered_rule =
  rule_id :: int
  rule_model_id :: int
  rule_data_type :: utext
  object_name :: utext
  field_capabilities :: "utext json"
  translate_fields :: "utext list"
  field_content_formats :: "(utext \<times> utext) list"
  field_storage_map :: "(utext \<times> utext) list"
  source_group :: utext
  routing_profile :: utext

definition choose_translate :: "utext \<Rightarrow> (utext \<times> field_action) list \<Rightarrow> (utext \<times> field_action) list" where
  "choose_translate name chosen = (if name \<in> fst ` set chosen then chosen else chosen @ [(name, Translate)])"

text \<open>\<open>iter_mut().find\<close>: the first entry of the name gets the action, a new name goes to the end.\<close>

fun set_action :: "utext \<Rightarrow> field_action \<Rightarrow> (utext \<times> field_action) list \<Rightarrow> (utext \<times> field_action) list" where
  "set_action key action [] = [(key, action)]"
| "set_action key action ((name, a) # chosen) =
     (if name = key then (name, action) # chosen else (name, a) # set_action key action chosen)"

definition choose_explicit ::
  "utext \<times> utext json \<Rightarrow> (utext \<times> field_action) list \<Rightarrow> (utext \<times> field_action) list" where
  "choose_explicit entry chosen =
     (case entry of (key, value) \<Rightarrow>
        if key = cps ''translate_fields'' then chosen
        else case explicit_action value of None \<Rightarrow> chosen | Some action \<Rightarrow> set_action key action chosen)"

definition chosen_actions :: "discovered_rule \<Rightarrow> (utext \<times> field_action) list" where
  "chosen_actions rule =
     fold choose_explicit (case as_object (field_capabilities rule) of None \<Rightarrow> [] | Some obj \<Rightarrow> obj)
       (fold choose_translate (translate_fields rule @ extract_translate_fields (field_capabilities rule)) [])"

definition fields_with :: "field_action \<Rightarrow> (utext \<times> field_action) list \<Rightarrow> utext list" where
  "fields_with action chosen = remdups_adj (sort (map fst (filter (\<lambda>(name, a). a = action) chosen)))"

definition plan_field_actions :: "discovered_rule \<Rightarrow> field_action_plan" where
  "plan_field_actions rule =
     (let chosen = chosen_actions rule in
      \<lparr>plan_translate = fields_with Translate chosen, plan_copy = fields_with Copy chosen,
       plan_skip = fields_with Skip chosen\<rparr>)"

section \<open>Text and binary products\<close>

record class_decision =
  class_name_of :: utext
  text_only :: bool
  class_detail :: utext

definition class_name :: "utext \<Rightarrow> utext option \<Rightarrow> utext" where
  "class_name content_format input =
     (let t = trim_by is_ws_cp (case input of None \<Rightarrow> [] | Some i \<Rightarrow> i) in
      if t \<in> set (map cps [''image'', ''video'', ''audio'', ''document'', ''text'']) then t
      else if content_format = cps ''image'' \<or> content_format = cps ''image_ref'' then cps ''image''
      else if content_format = cps ''video'' \<or> content_format = cps ''video_ref'' then cps ''video''
      else if content_format = cps ''audio'' \<or> content_format = cps ''audio_ref'' then cps ''audio''
      else if content_format = cps ''document'' \<or> content_format = cps ''document_ref'' then cps ''document''
      else cps ''text'')"

definition is_media_format :: "utext \<Rightarrow> bool" where
  "is_media_format content_format \<longleftrightarrow>
     content_format \<in> set (map cps [''media_ref'', ''image'', ''image_ref'', ''video'', ''video_ref'', ''audio'',
       ''audio_ref'', ''document'', ''document_ref''])"

definition decide :: "utext \<Rightarrow> utext option \<Rightarrow> utext option \<Rightarrow> class_decision" where
  "decide content_format input output =
     (let name = class_name content_format input;
          out = trim_by is_ws_cp (case output of None \<Rightarrow> [] | Some u \<Rightarrow> u);
          is_text =
            (if out \<in> set (map cps [''replace'', ''attachment'', ''binary'']) then False
             else if out \<in> set (map cps [''text'', ''ocr'', ''subtitle'', ''transcript'', ''document_text'']) then True
             else \<not> is_media_format content_format) in
      \<lparr>class_name_of = name, text_only = is_text,
       class_detail =
         (if is_text then
            if name = cps ''image'' then cps ''ocr_text''
            else if name = cps ''video'' then cps ''subtitle_text''
            else if name = cps ''audio'' then cps ''transcript_text''
            else if name = cps ''document'' then cps ''document_text''
            else cps ''text_field''
          else cps ''replace_binary'')\<rparr>)"

definition text_product :: "utext \<Rightarrow> utext \<Rightarrow> utext option" where
  "text_product translated_text translated_ref =
     (let t = trim_by is_ws_cp translated_text in
      if t = [] \<or> t = trim_by is_ws_cp translated_ref then None else Some t)"

definition field_class_tokens :: "utext json \<Rightarrow> utext \<Rightarrow> utext option \<times> utext option" where
  "field_class_tokens capabilities field_name =
     (case Option.bind (jget field_name capabilities) as_object of
        None \<Rightarrow> (None, None)
      | Some object \<Rightarrow>
          (Option.bind (map_of object (cps ''input'')) as_str,
           Option.bind (case map_of object (cps ''output'') of None \<Rightarrow> map_of object (cps ''intent'') | Some v \<Rightarrow> Some v)
             as_str))"

section \<open>The plan is a partition\<close>

text \<open>What a rule says of one field: an explicit action wins over a listed name.\<close>

definition declared_action :: "discovered_rule \<Rightarrow> utext \<Rightarrow> field_action option" where
  "declared_action rule field =
     (if field = cps ''translate_fields'' then None
      else Option.bind (jget field (field_capabilities rule)) explicit_action)"

definition planned_action :: "discovered_rule \<Rightarrow> utext \<Rightarrow> field_action option" where
  "planned_action rule field =
     (case declared_action rule field of
        Some a \<Rightarrow> Some a
      | None \<Rightarrow>
          if field \<in> set (translate_fields rule @ extract_translate_fields (field_capabilities rule))
          then Some Translate else None)"

lemma map_of_snoc: "k \<notin> fst ` set xs \<Longrightarrow> map_of (xs @ [(k, v)]) = (map_of xs)(k \<mapsto> v)"
  by (rule ext) (auto simp: map_add_def dom_map_of_conv_image_fst [symmetric] split: option.splits)

lemma choose_translate_fold:
  "distinct (map fst chosen) \<Longrightarrow>
   distinct (map fst (fold choose_translate names chosen))
   \<and> map_of (fold choose_translate names chosen) =
       (\<lambda>f. case map_of chosen f of Some a \<Rightarrow> Some a | None \<Rightarrow> if f \<in> set names then Some Translate else None)"
proof (induction names arbitrary: chosen)
  case Nil
  then show ?case by (auto split: option.splits)
next
  case (Cons n names)
  have d: "distinct (map fst (choose_translate n chosen))"
    using Cons.prems by (auto simp: choose_translate_def)
  have "map_of (choose_translate n chosen) =
      (\<lambda>f. case map_of chosen f of Some a \<Rightarrow> Some a | None \<Rightarrow> if f = n then Some Translate else None)"
  proof (cases "n \<in> fst ` set chosen")
    case True
    then show ?thesis by (auto simp: choose_translate_def map_of_eq_None_iff fun_eq_iff split: option.splits)
  next
    case False
    moreover from this have "map_of chosen n = None" by (simp add: map_of_eq_None_iff)
    ultimately show ?thesis
      by (auto simp: choose_translate_def map_of_snoc fun_eq_iff simp del: map_of_append split: option.splits)
  qed
  with Cons.IH [OF d] show ?case by (auto split: option.splits)
qed

lemma set_action_map:
  "map_of (set_action k a chosen) = (map_of chosen)(k \<mapsto> a)"
  by (induction k a chosen rule: set_action.induct) auto

lemma set_action_fst: "fst ` set (set_action k a chosen) = insert k (fst ` set chosen)"
  by (induction k a chosen rule: set_action.induct) auto

lemma set_action_distinct: "distinct (map fst chosen) \<Longrightarrow> distinct (map fst (set_action k a chosen))"
proof (induction k a chosen rule: set_action.induct)
  case (2 key action name a chosen)
  then show ?case using set_action_fst [of key action chosen] by auto
qed simp

lemma choose_explicit_fold:
  assumes "distinct (map fst obj)" "distinct (map fst chosen)"
  shows "distinct (map fst (fold choose_explicit obj chosen))
   \<and> map_of (fold choose_explicit obj chosen) =
       (\<lambda>f. case (if f = cps ''translate_fields'' then None else Option.bind (map_of obj f) explicit_action) of
              Some a \<Rightarrow> Some a | None \<Rightarrow> map_of chosen f)"
  using assms
proof (induction obj arbitrary: chosen)
  case Nil
  then show ?case by (auto simp: fun_eq_iff)
next
  case (Cons e obj)
  obtain k v where e: "e = (k, v)" by (cases e)
  have d: "distinct (map fst (choose_explicit e chosen))"
    using Cons.prems by (auto simp: choose_explicit_def e set_action_distinct split: option.splits)
  have k: "map_of obj k = None" using Cons.prems by (auto simp: e map_of_eq_None_iff)
  have "map_of (choose_explicit e chosen) =
      (\<lambda>f. case (if f = cps ''translate_fields'' \<or> f \<noteq> k then None else explicit_action v) of
             Some a \<Rightarrow> Some a | None \<Rightarrow> map_of chosen f)"
    by (rule ext) (auto simp: choose_explicit_def e set_action_map split: option.splits)
  with Cons.IH [OF _ d] Cons.prems k show ?case
    by (auto simp: e fun_eq_iff split: option.splits)
qed

text \<open>The keys of a JSON object are distinct (the source keeps them in a map).\<close>

definition proper_object :: "'t json \<Rightarrow> bool" where
  "proper_object v \<longleftrightarrow> (case as_object v of None \<Rightarrow> True | Some ms \<Rightarrow> distinct (map fst ms))"

lemma chosen_actions_planned:
  assumes "proper_object (field_capabilities rule)"
  shows "distinct (map fst (chosen_actions rule))" "map_of (chosen_actions rule) = planned_action rule"
proof -
  let ?names = "translate_fields rule @ extract_translate_fields (field_capabilities rule)"
  let ?obj = "case as_object (field_capabilities rule) of None \<Rightarrow> [] | Some obj \<Rightarrow> obj"
  note t = choose_translate_fold [of "[]" ?names, simplified]
  have "distinct (map fst ?obj)" using assms by (auto simp: proper_object_def split: option.splits)
  note x = choose_explicit_fold [OF this conjunct1 [OF t]]
  from x show "distinct (map fst (chosen_actions rule))" by (simp add: chosen_actions_def)
  have g: "map_of ?obj f = jget f (field_capabilities rule)" for f
    by (simp add: jget_def split: option.splits)
  show "map_of (chosen_actions rule) = planned_action rule"
    using x t
    by (auto simp: chosen_actions_def planned_action_def declared_action_def g fun_eq_iff split: option.splits)
qed

lemma fields_with_props:
  assumes "distinct (map fst chosen)"
  shows "sorted (fields_with a chosen)" "distinct (fields_with a chosen)"
    "set (fields_with a chosen) = {f. map_of chosen f = Some a}"
proof -
  let ?l = "map fst (filter (\<lambda>(name, b). b = a) chosen)"
  have d: "distinct (sort ?l)" using assms by (simp add: distinct_map_filter)
  then have e: "fields_with a chosen = sort ?l"
    by (simp add: fields_with_def remdups_adj_distinct)
  show "sorted (fields_with a chosen)" "distinct (fields_with a chosen)" using d e by simp_all
  show "set (fields_with a chosen) = {f. map_of chosen f = Some a}"
    using assms by (force simp: e)
qed

lemma plan_lists:
  assumes "proper_object (field_capabilities rule)"
  shows "sorted (plan_translate (plan_field_actions rule))" "distinct (plan_translate (plan_field_actions rule))"
    "sorted (plan_copy (plan_field_actions rule))" "distinct (plan_copy (plan_field_actions rule))"
    "sorted (plan_skip (plan_field_actions rule))" "distinct (plan_skip (plan_field_actions rule))"
    "set (plan_translate (plan_field_actions rule)) = {f. planned_action rule f = Some Translate}"
    "set (plan_copy (plan_field_actions rule)) = {f. planned_action rule f = Some Copy}"
    "set (plan_skip (plan_field_actions rule)) = {f. planned_action rule f = Some Skip}"
  using fields_with_props [OF chosen_actions_planned(1) [OF assms]] chosen_actions_planned(2) [OF assms]
  by (simp_all add: plan_field_actions_def Let_def)

lemma plan_distinct:
  assumes "proper_object (field_capabilities rule)"
  shows "distinct (plan_translate (plan_field_actions rule) @ plan_copy (plan_field_actions rule)
    @ plan_skip (plan_field_actions rule))"
  using plan_lists [OF assms] by auto

section \<open>Properties\<close>

text \<open>
  Every field has one action. The plan of a rule puts each field in at most one of its three lists, each
  list sorted and without repetition, and the action of a field is the explicit one of its capability when
  there is one (a disabled entry is skipped), else translation when the rule lists the field, else none: the
  order in which the fields are listed does not matter.
\<close>

theorem field_plan_partition:
  assumes "proper_object (field_capabilities rule)"
  shows "action_of (plan_field_actions rule) field = planned_action rule field
    \<and> distinct (plan_translate (plan_field_actions rule) @ plan_copy (plan_field_actions rule)
        @ plan_skip (plan_field_actions rule))
    \<and> sorted (plan_translate (plan_field_actions rule))"
proof -
  have "action_of (plan_field_actions rule) field = planned_action rule field"
    using plan_lists [OF assms]
    by (cases "planned_action rule field")
      (auto simp: action_of_def intro: field_action.exhaust [of "the (planned_action rule field)"])
  with plan_distinct [OF assms] plan_lists(1) [OF assms] show ?thesis by blast
qed

definition sample_rule :: discovered_rule where
  "sample_rule = \<lparr>rule_id = 7, rule_model_id = 1, rule_data_type = cps ''post'', object_name = cps ''post'',
     field_capabilities = JObject [(cps ''post_content'', JString (cps ''copy'')),
       (cps ''post_excerpt'', JObject [(cps ''enabled'', JBool False), (cps ''type'', JString (cps ''translate''))])],
     translate_fields = map cps [''post_title'', ''post_excerpt''],
     field_content_formats = [], field_storage_map = [], source_group = [], routing_profile = []\<rparr>"

theorem field_plan_partition_witness:
  "action_of (plan_field_actions sample_rule) (cps ''post_excerpt'') = Some Skip
    \<and> distinct (plan_translate (plan_field_actions sample_rule) @ plan_copy (plan_field_actions sample_rule)
        @ plan_skip (plan_field_actions sample_rule))"
proof -
  have "proper_object (field_capabilities sample_rule)"
    by (simp add: sample_rule_def proper_object_def)
  from field_plan_partition [OF this, of "cps ''post_excerpt''"] show ?thesis
    by (simp add: planned_action_def declared_action_def sample_rule_def jget_def explicit_action_def
        action_token_def)
qed

end
