(* ===== verification/FieldRouting.thy ===== *)
theory FieldRouting
  imports FieldActions
begin

text \<open>
  How the fields of an object are found and routed, from \<open>task_engine/pipeline.rs\<close> and
  \<open>component_rt/contract.rs\<close>: paths of stored files, translation markers, content format and storage of a
  field, media references, the adapter that groups fields by the component they need, the rule of an object,
  and the copy and skip actions. \<open>complete_data\<close> is the list of members of the object's JSON value. Unicode
  tables of the standard library (alphanumeric, lower case) are arguments where the result depends on more
  than ASCII.
\<close>

section \<open>Paths of stored files\<close>

definition normalize_sep :: "utext \<Rightarrow> utext" where
  "normalize_sep path = map (\<lambda>c. if c = 92 then 47 else c) path"

definition trim_end_slash :: "utext \<Rightarrow> utext" where
  "trim_end_slash s = rev (dropWhile (\<lambda>c. c = 47) (rev s))"

definition data_dir_kind_prefix :: "utext \<Rightarrow> utext \<Rightarrow> utext" where
  "data_dir_kind_prefix data_dir kind = trim_end_slash (normalize_sep data_dir) @ [47] @ kind @ [47]"

definition strip_data_dir_kind :: "utext \<Rightarrow> utext \<Rightarrow> utext \<Rightarrow> utext option" where
  "strip_data_dir_kind path data_dir kind = strip_pfx (data_dir_kind_prefix data_dir kind) (normalize_sep path)"

definition build_translated_path :: "utext \<Rightarrow> utext \<Rightarrow> utext" where
  "build_translated_path raw_path data_dir =
     (case strip_data_dir_kind raw_path data_dir (cps ''raw'') of
        Some rest \<Rightarrow> data_dir_kind_prefix data_dir (cps ''translated'') @ rest
      | None \<Rightarrow> raw_path @ cps ''.translated'')"

section \<open>Translation markers\<close>

definition MAX_MARKER_STRIP_DEPTH :: nat where "MAX_MARKER_STRIP_DEPTH = 256"

text \<open>U+3010 opens and U+3011 closes a marker. \<open>None\<close> is the \<open>break\<close> of the loop.\<close>

definition strip_one_marker :: "(nat \<Rightarrow> bool) \<Rightarrow> utext \<Rightarrow> utext option" where
  "strip_one_marker alnum current =
     (if \<not> prefix [12304] current then None
      else case find_sub [12305] (drop 1 current) of
        None \<Rightarrow> None
      | Some rel \<Rightarrow>
          (let lang = take rel (drop 1 current);
               closing = [12304, 47] @ lang @ [12305];
               content_start = rel + 2;
               content_end = length current - length closing in
           if lang = [] \<or> \<not> (\<forall>c \<in> set lang. alnum c \<or> c = 95 \<or> c = 45) then None
           else if \<not> suffix closing current then None
           else if content_end < content_start then None
           else Some (slice current content_start content_end)))"

fun strip_marker_loop :: "(nat \<Rightarrow> bool) \<Rightarrow> nat \<Rightarrow> bool \<Rightarrow> utext \<Rightarrow> bool \<times> utext" where
  "strip_marker_loop alnum 0 changed current = (changed, current)"
| "strip_marker_loop alnum (Suc n) changed current =
     (case strip_one_marker alnum current of
        None \<Rightarrow> (changed, current)
      | Some inner \<Rightarrow> strip_marker_loop alnum n True inner)"

definition strip_translation_markers :: "(nat \<Rightarrow> bool) \<Rightarrow> utext \<Rightarrow> utext" where
  "strip_translation_markers alnum t =
     (case strip_marker_loop alnum MAX_MARKER_STRIP_DEPTH False (trim_by is_ws_cp t) of
        (changed, current) \<Rightarrow> if changed then current else t)"

section \<open>Where a field is\<close>

type_synonym members = "(utext \<times> utext json) list"

definition extract_field_capability_string :: "discovered_rule option \<Rightarrow> utext \<Rightarrow> utext \<Rightarrow> utext option" where
  "extract_field_capability_string rule field_name key =
     Option.bind rule (\<lambda>r.
     Option.bind (as_object (field_capabilities r)) (\<lambda>caps.
     Option.bind (map_of caps field_name) (\<lambda>v.
     Option.bind (as_object v) (\<lambda>field_cfg.
     Option.bind (map_of field_cfg key) as_str))))"

definition resolve_field_content_format :: "discovered_rule option \<Rightarrow> utext \<Rightarrow> utext option" where
  "resolve_field_content_format rule field_name =
     (case Option.bind rule (\<lambda>r. map_of (field_content_formats r) field_name) of
        Some value \<Rightarrow> Some value
      | None \<Rightarrow> extract_field_capability_string rule field_name (cps ''content_format''))"

definition resolve_field_storage :: "discovered_rule option \<Rightarrow> utext \<Rightarrow> utext option" where
  "resolve_field_storage rule field_name =
     (case Option.bind rule (\<lambda>r. map_of (field_storage_map r) field_name) of
        Some value \<Rightarrow> Some value
      | None \<Rightarrow> extract_field_capability_string rule field_name (cps ''storage''))"

definition get_nested_field_value :: "members \<Rightarrow> utext \<Rightarrow> utext \<Rightarrow> utext json option" where
  "get_nested_field_value complete_data container_key field_name =
     Option.bind (map_of complete_data container_key) (\<lambda>v.
     Option.bind (as_object v) (\<lambda>object. map_of object field_name))"

definition or_else :: "'a option \<Rightarrow> 'a option \<Rightarrow> 'a option" where
  "or_else a b = (case a of None \<Rightarrow> b | Some x \<Rightarrow> Some x)"

definition is_meta_storage :: "utext \<Rightarrow> bool" where
  "is_meta_storage storage \<longleftrightarrow> storage \<in> set (map cps [''post_meta'', ''term_meta'', ''meta''])"

definition get_authoritative_field_value :: "members \<Rightarrow> utext \<Rightarrow> utext \<Rightarrow> utext json option" where
  "get_authoritative_field_value complete_data field_name storage =
     (if storage = cps ''post_column'' then
        or_else (get_nested_field_value complete_data (cps ''post'') field_name) (map_of complete_data field_name)
      else if storage = cps ''term_column'' then
        or_else (get_nested_field_value complete_data (cps ''term'') field_name) (map_of complete_data field_name)
      else if storage = cps ''option_value'' then
        or_else (get_nested_field_value complete_data (cps ''option'') field_name) (map_of complete_data field_name)
      else if is_meta_storage storage then
        or_else (get_nested_field_value complete_data (cps ''meta'') field_name) (map_of complete_data field_name)
      else map_of complete_data field_name)"

definition TERM_COLUMNS :: "utext list" where
  "TERM_COLUMNS = map cps [''term_id'', ''name'', ''slug'', ''description'', ''parent'']"

definition POST_COLUMNS :: "utext list" where
  "POST_COLUMNS = map cps
     [''ID'', ''post_title'', ''post_content'', ''post_excerpt'', ''post_date'', ''post_status'', ''post_type'',
      ''post_name'', ''post_author'', ''post_parent'', ''comment_status'', ''ping_status'', ''menu_order'', ''guid'']"

definition infer_storage_fallback :: "utext \<Rightarrow> utext \<Rightarrow> utext" where
  "infer_storage_fallback object_type field_name =
     (if object_type = cps ''option'' then cps ''option_value''
      else if object_type = cps ''term'' \<or> object_type = cps ''taxonomy'' then
        (if field_name \<in> set TERM_COLUMNS then cps ''term_column'' else cps ''term_meta'')
      else if field_name \<in> set POST_COLUMNS then cps ''post_column''
      else cps ''post_meta'')"

text \<open>\<open>None\<close>: the rule maps storages, but not that of this field.\<close>

definition field_storage :: "discovered_rule option \<Rightarrow> utext \<Rightarrow> utext \<Rightarrow> utext option" where
  "field_storage rule object_type field_name =
     (case resolve_field_storage rule field_name of
        Some storage \<Rightarrow> Some storage
      | None \<Rightarrow>
          if (case rule of None \<Rightarrow> False | Some r \<Rightarrow> field_storage_map r \<noteq> []) then None
          else Some (infer_storage_fallback object_type field_name))"

definition merge_target_for_storage :: "utext \<Rightarrow> utext" where
  "merge_target_for_storage storage =
     (if is_meta_storage storage then cps ''translated_meta'' else cps ''translated_fields'')"

definition BLOCKED_PREFIXES :: "utext list" where
  "BLOCKED_PREFIXES = map cps [''_wptsall_'', ''_wp_'', ''_edit_'', ''_oembed_'']"

definition field_is_protected_name :: "utext \<Rightarrow> discovered_rule option \<Rightarrow> bool" where
  "field_is_protected_name field_name rule \<longleftrightarrow>
     (\<exists>p \<in> set BLOCKED_PREFIXES. prefix p field_name)
     \<and> field_name \<noteq> cps ''_wp_attachment_image_alt''
     \<and> \<not> (resolve_field_content_format rule field_name \<noteq> None \<or> resolve_field_storage rule field_name \<noteq> None)"

definition derive_business_line_from_rule :: "discovered_rule option \<Rightarrow> utext \<Rightarrow> utext" where
  "derive_business_line_from_rule rule object_type =
     (if (case rule of None \<Rightarrow> False | Some r \<Rightarrow>
            map ascii_lower_cp (source_group r) = cps ''config_object''
            \<or> map ascii_lower_cp (routing_profile r) = cps ''config_i18n'')
      then cps ''config_i18n''
      else let t = map ascii_lower_cp (trim_by is_ws_cp object_type) in
        if t = cps ''post'' \<or> t = cps ''post_type'' then cps ''post_content''
        else if t = cps ''term'' \<or> t = cps ''taxonomy'' then cps ''taxonomy_content''
        else cps ''custom_model'')"

section \<open>Media references\<close>

definition looks_like_http_url :: "utext \<Rightarrow> bool" where
  "looks_like_http_url value =
     (let t = trim_by is_ws_cp value in prefix (cps ''http://'') t \<or> prefix (cps ''https://'') t)"

fun get_string_from_value :: "utext json \<Rightarrow> utext option" where
  "get_string_from_value (JString s) = (let t = trim_by is_ws_cp s in if t = [] then None else Some t)"
| "get_string_from_value _ = None"

text \<open>\<open>parse::<u64>\<close>: digits with an optional plus sign, within 64 bits.\<close>

definition parse_u64 :: "utext \<Rightarrow> nat option" where
  "parse_u64 raw =
     (let d = (if prefix [43] raw then drop 1 raw else raw) in
      if d \<noteq> [] \<and> all_digits d \<and> dec_cps d \<le> u64_max then Some (dec_cps d) else None)"

fun get_u64_from_value :: "utext json \<Rightarrow> nat option" where
  "get_u64_from_value (JString s) = parse_u64 (trim_by is_ws_cp s)"
| "get_u64_from_value v = as_u64 v"

definition IMAGE_EXT :: "utext list" where
  "IMAGE_EXT = map cps [''jpg'', ''jpeg'', ''png'', ''gif'', ''webp'', ''bmp'', ''tiff'', ''svg'', ''avif'']"

definition VIDEO_EXT :: "utext list" where
  "VIDEO_EXT = map cps [''mp4'', ''mov'', ''avi'', ''webm'', ''mkv'', ''m4v'']"

definition AUDIO_EXT :: "utext list" where
  "AUDIO_EXT = map cps [''mp3'', ''wav'', ''ogg'', ''flac'', ''aac'', ''m4a'']"

definition DOC_EXT :: "utext list" where
  "DOC_EXT = map cps
     [''pdf'', ''doc'', ''docx'', ''ppt'', ''pptx'', ''xls'', ''xlsx'', ''txt'', ''csv'', ''html'', ''htm'', ''json'',
      ''yaml'', ''yml'', ''xml'', ''properties'', ''strings'', ''po'', ''pot'', ''srt'', ''vtt'', ''rtf'', ''tex'', ''odt'']"

definition is_ascii_alnum :: "nat \<Rightarrow> bool" where
  "is_ascii_alnum c \<longleftrightarrow> is_digit_cp c \<or> is_ascii_alpha c"

definition extract_file_extension_from_ref :: "utext \<Rightarrow> utext option" where
  "extract_file_extension_from_ref source_ref =
     (let ref_lc = map lower_cp (trim_by is_ws_cp source_ref);
          no_query = takeWhile (\<lambda>c. c \<noteq> 35) (takeWhile (\<lambda>c. c \<noteq> 63) ref_lc);
          ext = trim_by is_ws_cp (rev (takeWhile (\<lambda>c. c \<noteq> 46) (rev no_query))) in
      if ref_lc = [] then None
      else if ext = [] \<or> ext = no_query then None
      else if 12 < blen ext \<or> \<not> (\<forall>c \<in> set ext. is_ascii_alnum c) then None
      else Some ext)"

definition infer_media_task_type_from_ref :: "utext \<Rightarrow> utext \<Rightarrow> utext" where
  "infer_media_task_type_from_ref source_ref fallback =
     (case extract_file_extension_from_ref source_ref of
        None \<Rightarrow> fallback
      | Some ext \<Rightarrow>
          if ext \<in> set IMAGE_EXT then cps ''image''
          else if ext \<in> set VIDEO_EXT then cps ''video''
          else if ext \<in> set AUDIO_EXT then cps ''audio''
          else if ext \<in> set DOC_EXT then cps ''document''
          else fallback)"

text \<open>A related value: at the top, then under meta, post and term.\<close>

definition related :: "(utext json \<Rightarrow> 'a option) \<Rightarrow> members \<Rightarrow> utext \<Rightarrow> 'a option" where
  "related read complete_data key =
     or_else (Option.bind (map_of complete_data key) read)
     (or_else (Option.bind (get_nested_field_value complete_data (cps ''meta'') key) read)
     (or_else (Option.bind (get_nested_field_value complete_data (cps ''post'') key) read)
       (Option.bind (get_nested_field_value complete_data (cps ''term'') key) read)))"

fun first_some :: "('a \<Rightarrow> 'b option) \<Rightarrow> 'a list \<Rightarrow> 'b option" where
  "first_some f [] = None"
| "first_some f (x # xs) = (case f x of Some y \<Rightarrow> Some y | None \<Rightarrow> first_some f xs)"

text \<open>\<open>trim_end_matches\<close> of a text: every copy of the pattern at the end goes.\<close>

function trim_end_matches :: "utext \<Rightarrow> utext \<Rightarrow> utext" where
  "trim_end_matches pat s =
     (if pat \<noteq> [] \<and> suffix pat s then trim_end_matches pat (take (length s - length pat) s) else s)"
  by pat_completeness auto
termination
  by (relation "measure (\<lambda>(pat, s). length s)") (auto simp: suffix_def)

declare trim_end_matches.simps [simp del]

definition or_default :: "'a \<Rightarrow> 'a option \<Rightarrow> 'a" where
  "or_default d x = (case x of None \<Rightarrow> d | Some y \<Rightarrow> y)"

definition extract_media_reference_for_field :: "utext \<Rightarrow> utext json \<Rightarrow> members \<Rightarrow> (nat \<times> utext) option" where
  "extract_media_reference_for_field field_name raw_value complete_data =
     (let id0 = or_default 0 (get_u64_from_value raw_value);
          (id1, ref1) =
            (case get_string_from_value raw_value of
               None \<Rightarrow> (id0, [])
             | Some s \<Rightarrow>
                 if looks_like_http_url s then (id0, s)
                 else if id0 = 0 then (or_default 0 (parse_u64 s), [])
                 else (id0, []));
          id2 =
            (case as_object raw_value of
               None \<Rightarrow> id1
             | Some obj \<Rightarrow>
                 if id1 = 0 then or_default id1 (first_some (\<lambda>key. Option.bind (map_of obj key) get_u64_from_value)
                   (map cps [''source_id'', ''attachment_id'', ''id'', ''media_id'']))
                 else id1);
          ref2 =
            (case as_object raw_value of
               None \<Rightarrow> ref1
             | Some obj \<Rightarrow>
                 if ref1 = [] then or_default ref1 (first_some (\<lambda>key. Option.bind (map_of obj key) get_string_from_value)
                   (map cps [''source_ref'', ''source_url'', ''url'', ''src'', ''ref'']))
                 else ref1);
          ref3 =
            (if ref2 = [] \<and> suffix (cps ''_id'') field_name
             then or_default ref2 (related get_string_from_value complete_data
               (trim_end_matches (cps ''_id'') field_name @ cps ''_url''))
             else ref2);
          ref4 =
            (if ref3 = [] then or_default ref3 (related get_string_from_value complete_data (field_name @ cps ''_url''))
             else ref3);
          id3 =
            (if id2 = 0 \<and> suffix (cps ''_url'') field_name
             then or_default id2 (related get_u64_from_value complete_data
               (trim_end_matches (cps ''_url'') field_name @ cps ''_id''))
             else id2) in
      if id3 = 0 \<and> ref4 = [] then None else Some (id3, ref4))"

section \<open>The adapter of a field\<close>

datatype field_translation_kind = TextKind | MediaAsset

record field_format_adapter =
  source_content_format :: utext
  execution_content_format :: utext
  routing_content_format :: utext
  preferred_task_type :: utext
  routing_group_key :: utext
  translation_kind :: field_translation_kind

record prepared_field =
  p_field_name :: utext
  p_normalized :: normalized_field_input
  p_adapter :: field_format_adapter
  p_storage :: utext
  p_raw_value :: "utext json"

definition task_type_for_content_format :: "utext \<Rightarrow> utext" where
  "task_type_for_content_format content_format =
     (if content_format = cps ''media_ref'' then cps ''image'' else cps ''text'')"

definition plain_text_adapter :: "utext \<Rightarrow> field_format_adapter" where
  "plain_text_adapter source = \<lparr>source_content_format = source, execution_content_format = cps ''plain_text'',
     routing_content_format = cps ''plain_text'', preferred_task_type = cps ''text'',
     routing_group_key = cps ''plain_text'', translation_kind = TextKind\<rparr>"

definition build_field_format_adapter ::
  "utext \<Rightarrow> utext \<Rightarrow> normalized_field_input \<Rightarrow> utext json \<Rightarrow> members \<Rightarrow> field_format_adapter" where
  "build_field_format_adapter field_name source normalized raw_value complete_data =
     (let format = effective_format normalized in
      if format = cps ''media_ref'' \<and> is_media_text_field field_name then plain_text_adapter source
      else if format = cps ''media_ref'' then
        (let media_task_type =
               (case extract_media_reference_for_field field_name raw_value complete_data of
                  None \<Rightarrow> cps ''image''
                | Some (source_id, source_ref) \<Rightarrow> infer_media_task_type_from_ref source_ref (cps ''image'')) in
         \<lparr>source_content_format = source, execution_content_format = cps ''media_ref'',
          routing_content_format = cps ''media_ref'', preferred_task_type = media_task_type,
          routing_group_key = cps ''media_ref::'' @ media_task_type, translation_kind = MediaAsset\<rparr>)
      else if format = cps ''slug'' then plain_text_adapter source
      else \<lparr>source_content_format = source, execution_content_format = format,
        routing_content_format = format, preferred_task_type = task_type_for_content_format format,
        routing_group_key = format, translation_kind = TextKind\<rparr>)"

definition media_artifact_hints_for_task_type :: "utext \<Rightarrow> utext option \<times> utext option" where
  "media_artifact_hints_for_task_type task_type =
     (if task_type \<in> set (map cps [''image'', ''audio'', ''video'', ''document''])
      then (Some (task_type @ cps ''_file''), Some (cps ''translated_'' @ task_type @ cps ''_file''))
      else (None, None))"

text \<open>The loop over the group: the outer \<open>None\<close> is the early return on mixed extensions.\<close>

fun group_extension :: "members \<Rightarrow> prepared_field list \<Rightarrow> utext option \<Rightarrow> utext option" where
  "group_extension complete_data [] ext = ext"
| "group_extension complete_data (p # ps) ext =
     (if translation_kind (p_adapter p) \<noteq> MediaAsset then group_extension complete_data ps ext
      else case extract_media_reference_for_field (p_field_name p) (p_raw_value p) complete_data of
        None \<Rightarrow> group_extension complete_data ps ext
      | Some (source_id, source_ref) \<Rightarrow>
          (case extract_file_extension_from_ref source_ref of
             None \<Rightarrow> group_extension complete_data ps ext
           | Some current \<Rightarrow>
               (case ext of
                  None \<Rightarrow> group_extension complete_data ps (Some current)
                | Some existing \<Rightarrow>
                    if existing \<noteq> current then None else group_extension complete_data ps ext)))"

definition infer_group_media_file_extension :: "prepared_field list \<Rightarrow> members \<Rightarrow> utext option" where
  "infer_group_media_file_extension fields_in_group complete_data = group_extension complete_data fields_in_group None"

definition transform_stage_for_prepared :: "prepared_field \<Rightarrow> utext" where
  "transform_stage_for_prepared p =
     (let a = p_adapter p in
      if source_content_format a = cps ''media_ref'' \<and> execution_content_format a = cps ''plain_text''
      then cps ''media_text_to_plain_text''
      else if source_content_format a = cps ''serialized_php'' \<and> execution_content_format a = cps ''json_structured''
        \<and> restore_plan (p_normalized p) = JsonToSerializedPhp
      then cps ''serialized_php_to_json_structured''
      else if translation_kind a = MediaAsset then cps ''media_ref_direct''
      else if source_content_format a \<noteq> execution_content_format a then cps ''format_adapted''
      else cps ''direct'')"

section \<open>The rule of an object\<close>

record content_item =
  object_type :: utext
  subtype :: utext
  object_id :: int
  complete_data_json :: "utext json"

definition rule_present_field_score :: "content_item \<Rightarrow> members \<Rightarrow> discovered_rule \<Rightarrow> nat" where
  "rule_present_field_score item complete_data rule =
     (let plan = plan_field_actions rule in
      length (filter (\<lambda>field_name. case field_storage (Some rule) (object_type item) field_name of
            None \<Rightarrow> False
          | Some storage \<Rightarrow> get_authoritative_field_value complete_data field_name storage \<noteq> None)
        (plan_translate plan @ plan_copy plan)))"

definition expected_data_type :: "utext \<Rightarrow> utext option" where
  "expected_data_type t =
     (if t = cps ''post'' \<or> t = cps ''post_type'' then Some (cps ''post'')
      else if t = cps ''term'' \<or> t = cps ''taxonomy'' then Some (cps ''term'')
      else if t = cps ''option'' then Some (cps ''option'')
      else None)"

definition data_type_matches :: "content_item \<Rightarrow> discovered_rule \<Rightarrow> bool" where
  "data_type_matches item rule =
     (let normalized =
            (if rule_data_type rule = cps ''post_type'' then cps ''post''
             else if rule_data_type rule = cps ''taxonomy'' then cps ''term''
             else rule_data_type rule) in
      object_name rule = subtype item
      \<and> (case expected_data_type (object_type item) of
            None \<Rightarrow> True
          | Some dt \<Rightarrow> normalized = [] \<or> normalized = dt))"

text \<open>The first candidate with the highest score.\<close>

fun best_rule :: "(discovered_rule \<Rightarrow> nat) \<Rightarrow> discovered_rule list \<Rightarrow> discovered_rule option \<Rightarrow> nat \<Rightarrow> discovered_rule option" where
  "best_rule score [] selected selected_score = selected"
| "best_rule score (c # cs) selected selected_score =
     (if selected = None \<or> selected_score < score c then best_rule score cs (Some c) (score c)
      else best_rule score cs selected selected_score)"

definition rule_candidates :: "content_item \<Rightarrow> discovered_rule list \<Rightarrow> discovered_rule list" where
  "rule_candidates item rules =
     (let candidates = filter (data_type_matches item) rules in
      if candidates = [] then filter (\<lambda>rule. object_name rule = subtype item) rules else candidates)"

definition select_rule_for_item :: "content_item \<Rightarrow> members \<Rightarrow> discovered_rule list \<Rightarrow> discovered_rule option" where
  "select_rule_for_item item complete_data rules =
     best_rule (rule_present_field_score item complete_data) (rule_candidates item rules) None 0"

text \<open>The rule for the content of the site editor, which has no rule of its own.\<close>

definition fse_capability :: "utext \<Rightarrow> utext json" where
  "fse_capability format = JObject
     [(cps ''content_format'', JString format), (cps ''enabled'', JBool True),
      (cps ''storage'', JString (cps ''post_column'')), (cps ''type'', JString (cps ''translate''))]"

definition build_fse_synthetic_rule :: "content_item \<Rightarrow> discovered_rule option" where
  "build_fse_synthetic_rule item =
     (if object_type item \<noteq> cps ''post_type''
        \<or> subtype item \<notin> set (map cps [''wp_template'', ''wp_template_part'', ''wp_navigation'', ''wp_global_styles''])
      then None
      else let content_format =
          (if subtype item = cps ''wp_global_styles'' then cps ''json_structured'' else cps ''rich_html'') in
        Some \<lparr>rule_id = 0, rule_model_id = 0, rule_data_type = cps ''post'', object_name = subtype item,
          field_capabilities = JObject [(cps ''post_content'', fse_capability content_format),
            (cps ''post_title'', fse_capability (cps ''plain_text''))],
          translate_fields = [cps ''post_title'', cps ''post_content''],
          field_content_formats = [(cps ''post_title'', cps ''plain_text''), (cps ''post_content'', content_format)],
          field_storage_map = [(cps ''post_title'', cps ''post_column''), (cps ''post_content'', cps ''post_column'')],
          source_group = cps ''fse_core'', routing_profile = cps ''fse_block_content''\<rparr>)"

section \<open>What the component must support\<close>

definition SUPPORTED_CLIENT_CONTRACT_SCHEMA_VERSIONS :: "utext list" where
  "SUPPORTED_CLIENT_CONTRACT_SCHEMA_VERSIONS = map cps [''component-client-contract-v1'']"

definition NON_TRANSLATABLE_CONTENT_FORMATS :: "utext list" where
  "NON_TRANSLATABLE_CONTENT_FORMATS = map cps [''code'', ''media_ref'']"

definition is_canonical_content_format :: "utext \<Rightarrow> bool" where
  "is_canonical_content_format format \<longleftrightarrow> normalize_content_format_alias format \<in> set CANONICAL_CONTENT_FORMATS"

text \<open>What the gate reads of a runtime: the contract version, the default values and the formats.\<close>

record runtime_contract =
  contract_schema_version :: "utext option"
  default_values :: "utext json option"
  supported_content_formats :: "utext list"

datatype gate_error = UnsupportedContract utext | NotCanonical utext | NotTranslatable utext | FormatNotSupported utext

definition nonempty_trim :: "utext option \<Rightarrow> utext option" where
  "nonempty_trim t = (case t of None \<Rightarrow> None | Some s \<Rightarrow>
     (let u = trim_by is_ws_cp s in if u = [] then None else Some u))"

definition extract_client_contract_schema_version :: "runtime_contract \<Rightarrow> utext option" where
  "extract_client_contract_schema_version runtime =
     or_else (nonempty_trim (contract_schema_version runtime))
       (nonempty_trim (Option.bind (default_values runtime) (\<lambda>d.
          Option.bind (jget (cps ''client_contract'') d) (\<lambda>c.
          Option.bind (jget (cps ''schema_version'') c) as_str))))"

definition assert_runtime_ready_for_format :: "runtime_contract \<Rightarrow> utext option \<Rightarrow> gate_error option" where
  "assert_runtime_ready_for_format runtime content_format =
     or_else
       (case extract_client_contract_schema_version runtime of
          Some version \<Rightarrow>
            if version \<notin> set SUPPORTED_CLIENT_CONTRACT_SCHEMA_VERSIONS then Some (UnsupportedContract version) else None
        | None \<Rightarrow> None)
       (case nonempty_trim content_format of
          None \<Rightarrow> None
        | Some raw \<Rightarrow>
            (let normalized = normalize_content_format_alias raw in
             if \<not> is_canonical_content_format normalized then Some (NotCanonical raw)
             else if normalized \<in> set NON_TRANSLATABLE_CONTENT_FORMATS then Some (NotTranslatable normalized)
             else if supported_content_formats runtime \<noteq> []
               \<and> \<not> (\<exists>f \<in> set (supported_content_formats runtime).
                     normalize_content_format_alias f = normalized
                     \<or> map ascii_lower_cp f = map ascii_lower_cp normalized)
             then Some (FormatNotSupported normalized)
             else None))"

section \<open>The content that identifies a revision\<close>

text \<open>Keys of the client itself are left out, the members of an object are in the order of their keys.\<close>

fun canonicalize_json_for_hash :: "utext json \<Rightarrow> utext json"
  and canonical_items :: "utext json list \<Rightarrow> utext json list"
  and canonical_members :: "(utext \<times> utext json) list \<Rightarrow> (utext \<times> utext json) list" where
  "canonicalize_json_for_hash (JArray xs) = JArray (canonical_items xs)"
| "canonicalize_json_for_hash (JObject ms) = JObject (sort_key fst (canonical_members ms))"
| "canonicalize_json_for_hash v = v"
| "canonical_items [] = []"
| "canonical_items (x # xs) = canonicalize_json_for_hash x # canonical_items xs"
| "canonical_members [] = []"
| "canonical_members ((k, x) # ms) =
     (if prefix (cps ''_wptsall_'') k then canonical_members ms
      else (k, canonicalize_json_for_hash x) # canonical_members ms)"

section \<open>Markers and paths\<close>

definition wrap_marker :: "utext \<Rightarrow> utext \<Rightarrow> utext" where
  "wrap_marker lang t = [12304] @ lang @ [12305] @ t @ [12304, 47] @ lang @ [12305]"

definition marker_lang :: "(nat \<Rightarrow> bool) \<Rightarrow> utext \<Rightarrow> bool" where
  "marker_lang alnum lang \<longleftrightarrow> lang \<noteq> [] \<and> 12305 \<notin> set lang \<and> (\<forall>c \<in> set lang. alnum c \<or> c = 95 \<or> c = 45)"

lemma strip_wrapped:
  assumes "marker_lang alnum lang"
  shows "strip_one_marker alnum (wrap_marker lang t) = Some t"
proof -
  have "drop 1 (wrap_marker lang t) = lang @ 12305 # t @ [12304, 47] @ lang @ [12305]"
    by (simp add: wrap_marker_def)
  moreover have "suffix ([12304, 47] @ lang @ [12305]) (wrap_marker lang t)"
    unfolding suffix_def wrap_marker_def by (rule exI [of _ "[12304] @ lang @ [12305] @ t"]) simp
  moreover have "slice (wrap_marker lang t) (length lang + 2)
      (length (wrap_marker lang t) - length ([12304, 47] @ lang @ [12305])) = t"
    by (simp add: slice_def wrap_marker_def)
  moreover have "length (wrap_marker lang t) - length ([12304, 47] @ lang @ [12305]) = length lang + 2 + length t"
    by (simp add: wrap_marker_def)
  moreover have "prefix [12304] (wrap_marker lang t)" by (simp add: wrap_marker_def)
  ultimately show ?thesis
    using assms find_sub_single [of 12305 lang "t @ [12304, 47] @ lang @ [12305]"]
    by (simp add: strip_one_marker_def marker_lang_def Let_def)
qed

lemma strip_wrapped_loop:
  "list_all (marker_lang alnum) langs \<Longrightarrow> 12304 \<notin> set t \<Longrightarrow> length langs < n \<Longrightarrow>
   strip_marker_loop alnum n ch (foldr wrap_marker langs t) = (ch \<or> langs \<noteq> [], t)"
proof (induction langs arbitrary: n ch)
  case Nil
  then obtain m where "n = Suc m" by (cases n) auto
  moreover have "strip_one_marker alnum t = None"
    using Nil.prems(2) by (cases t) (auto simp: strip_one_marker_def)
  ultimately show ?case by simp
next
  case (Cons lang langs)
  then obtain m where "n = Suc m" by (cases n) auto
  with Cons show ?case by (simp add: strip_wrapped)
qed

lemma trim_wrapped: "trim_by is_ws_cp (wrap_marker lang t) = wrap_marker lang t"
  by (simp add: trim_by_def wrap_marker_def is_ws_cp_def)

lemma set_trim_by: "set (trim_by p s) \<subseteq> set s"
  by (auto simp: trim_by_def dest!: set_dropWhileD)

lemma strip_unmarked:
  assumes "\<not> prefix [12304] (trim_by is_ws_cp t)"
  shows "strip_translation_markers alnum t = t"
proof -
  have m: "MAX_MARKER_STRIP_DEPTH = Suc 255" by (simp add: MAX_MARKER_STRIP_DEPTH_def)
  have "strip_marker_loop alnum MAX_MARKER_STRIP_DEPTH False (trim_by is_ws_cp t) = (False, trim_by is_ws_cp t)"
    unfolding m strip_marker_loop.simps using assms by (simp add: strip_one_marker_def)
  then show ?thesis by (simp add: strip_translation_markers_def)
qed

section \<open>The rule with the most fields present\<close>

lemma best_rule_result:
  "\<forall>r. selected = Some r \<longrightarrow> selected_score = score r \<Longrightarrow>
   (case best_rule score cs selected selected_score of
      None \<Rightarrow> selected = None \<and> cs = []
    | Some r \<Rightarrow> (selected = Some r \<or> r \<in> set cs) \<and> (\<forall>c \<in> set cs. score c \<le> score r)
        \<and> (\<forall>s. selected = Some s \<longrightarrow> score s \<le> score r))"
proof (induction cs arbitrary: selected selected_score)
  case Nil
  then show ?case by (cases selected) auto
next
  case (Cons c cs)
  show ?case
  proof (cases "selected = None \<or> selected_score < score c")
    case True
    with Cons.IH [of "Some c" "score c"] Cons.prems show ?thesis
      by (auto split: option.splits)
  next
    case False
    with Cons.IH [of selected selected_score] Cons.prems show ?thesis
      by (auto split: option.splits)
  qed
qed

section \<open>What the canonical form keeps\<close>

text \<open>The source content of a value: a map of members, without the client's own keys.\<close>

datatype content = Atom "utext json" | Items "content list" | Fields "utext \<Rightarrow> content option"

fun content_of :: "utext json \<Rightarrow> content"
  and content_items :: "utext json list \<Rightarrow> content list"
  and content_members :: "(utext \<times> utext json) list \<Rightarrow> utext \<Rightarrow> content option" where
  "content_of (JArray xs) = Items (content_items xs)"
| "content_of (JObject ms) = Fields (content_members ms)"
| "content_of v = Atom v"
| "content_items [] = []"
| "content_items (x # xs) = content_of x # content_items xs"
| "content_members [] = (\<lambda>_. None)"
| "content_members ((k, x) # ms) =
     (if prefix (cps ''_wptsall_'') k then content_members ms
      else (content_members ms)(k := Some (content_of x)))"

text \<open>All objects inside have distinct keys.\<close>

fun proper_json :: "utext json \<Rightarrow> bool"
  and proper_items :: "utext json list \<Rightarrow> bool"
  and proper_members :: "(utext \<times> utext json) list \<Rightarrow> bool" where
  "proper_json (JArray xs) = proper_items xs"
| "proper_json (JObject ms) = (distinct (map fst ms) \<and> proper_members ms)"
| "proper_json v = True"
| "proper_items [] = True"
| "proper_items (x # xs) = (proper_json x \<and> proper_items xs)"
| "proper_members [] = True"
| "proper_members ((k, x) # ms) = (proper_json x \<and> proper_members ms)"

lemma canonical_members_keys:
  "map fst (canonical_members ms) = filter (\<lambda>k. \<not> prefix (cps ''_wptsall_'') k) (map fst ms)"
  by (induction ms) auto

lemma canonical_members_map:
  "map_of (canonical_members ms) k =
     (if prefix (cps ''_wptsall_'') k then None else map_option canonicalize_json_for_hash (map_of ms k))"
  by (induction ms) auto

lemma content_members_map:
  "content_members ms k =
     (if prefix (cps ''_wptsall_'') k then None else map_option content_of (map_of ms k))"
  by (induction ms) auto

lemma sort_members_eq:
  fixes xs ys :: "(utext \<times> 'a) list"
  assumes "distinct (map fst xs)" "distinct (map fst ys)" "map_of xs = map_of ys"
  shows "sort_key fst xs = sort_key fst ys"
proof -
  have set: "set xs = set ys" using assms by (simp add: map_of_inject_set)
  have "distinct xs" "distinct ys" using assms by (simp_all add: distinct_map)
  with set have m: "mset xs = mset ys" by (simp add: set_eq_iff_mset_eq_distinct)
  have inj: "inj_on fst (set xs)" using assms(1) by (simp add: distinct_map)
  have "sort_key fst xs = sort_key fst ys"
  proof (rule sort_key_inj_key_eq)
    show "mset xs = mset (sort_key fst ys)" using m by simp
    show "inj_on fst (set xs)" by (rule inj)
    show "sorted (map fst (sort_key fst ys))" by simp
  qed
  then show ?thesis .
qed

lemma map_of_sort_members:
  fixes xs :: "(utext \<times> 'a) list"
  assumes "distinct (map fst xs)"
  shows "map_of (sort_key fst xs) = map_of xs" "distinct (map fst (sort_key fst xs))"
proof -
  have m: "mset (map fst (sort_key fst xs)) = mset (map fst xs)" by simp
  show d: "distinct (map fst (sort_key fst xs))"
    using assms mset_eq_imp_distinct_iff [OF m] by simp
  show "map_of (sort_key fst xs) = map_of xs"
    using map_of_inject_set [OF d assms] by simp
qed

lemma proper_member: "proper_members ms \<Longrightarrow> map_of ms k = Some x \<Longrightarrow> proper_json x"
  by (induction ms) (auto split: if_splits)

lemma content_of_canonical:
  "proper_json v \<Longrightarrow> content_of (canonicalize_json_for_hash v) = content_of v"
  "proper_items xs \<Longrightarrow> content_items (canonical_items xs) = content_items xs"
  "proper_members ms \<Longrightarrow> (\<forall>k x. map_of ms k = Some x \<longrightarrow> content_of (canonicalize_json_for_hash x) = content_of x)"
proof (induction v and xs and ms rule: proper_json_proper_items_proper_members.induct)
  case (2 ms)
  then have d: "distinct (map fst (canonical_members ms))" by (simp add: canonical_members_keys)
  have "content_members (sort_key fst (canonical_members ms)) k = content_members ms k" for k
    using 2 by (cases "map_of ms k")
      (auto simp: content_members_map map_of_sort_members [OF d] canonical_members_map)
  then show ?case by auto
qed auto

lemma content_eqs:
  "Items cs = content_of w \<longleftrightarrow> (\<exists>ys. w = JArray ys \<and> cs = content_items ys)"
  "Fields m = content_of w \<longleftrightarrow> (\<exists>ns. w = JObject ns \<and> m = content_members ns)"
  "Atom a = content_of w \<longleftrightarrow> w = a \<and> (\<forall>ys. w \<noteq> JArray ys) \<and> (\<forall>ns. w \<noteq> JObject ns)"
  "[] = content_items ys \<longleftrightarrow> ys = []"
  "c # cs = content_items ys \<longleftrightarrow> (\<exists>x xs. ys = x # xs \<and> c = content_of x \<and> cs = content_items xs)"
      apply (cases w; auto)
     apply (cases w; auto)
    apply (cases w; auto)
   apply (cases ys; auto)
  apply (cases ys; auto)
  done

lemma same_content_same_canonical:
  "proper_json v \<Longrightarrow> proper_json w \<Longrightarrow> content_of v = content_of w \<Longrightarrow>
     canonicalize_json_for_hash v = canonicalize_json_for_hash w"
  "proper_items xs \<Longrightarrow> proper_items ys \<Longrightarrow> content_items xs = content_items ys \<Longrightarrow>
     canonical_items xs = canonical_items ys"
  "proper_members ms \<Longrightarrow> map_of ms k = Some x \<Longrightarrow> proper_json w \<Longrightarrow> content_of x = content_of w \<Longrightarrow>
     canonicalize_json_for_hash x = canonicalize_json_for_hash w"
proof (induction v and xs and ms arbitrary: w and ys and w k x
    rule: proper_json_proper_items_proper_members.induct)
  case (2 ms)
  then obtain ns where w: "w = JObject ns" by (cases w) auto
  have d: "distinct (map fst (canonical_members ms))" "distinct (map fst (canonical_members ns))"
    using 2 w by (simp_all add: canonical_members_keys)
  have "map_of (canonical_members ms) k = map_of (canonical_members ns) k" for k
  proof -
    have c: "content_members ms k = content_members ns k" using 2 w by simp
    show ?thesis
    proof (cases "prefix (cps ''_wptsall_'') k")
      case False
      with c have c': "map_option content_of (map_of ms k) = map_option content_of (map_of ns k)"
        by (simp add: content_members_map)
      show ?thesis
      proof (cases "map_of ms k")
        case None
        with c' False show ?thesis by (simp add: canonical_members_map)
      next
        case (Some x)
        with c' obtain y where y: "map_of ns k = Some y" "content_of x = content_of y"
          by (cases "map_of ns k") auto
        have "proper_json y" using 2 w y proper_member by auto
        with 2 Some y have "canonicalize_json_for_hash x = canonicalize_json_for_hash y" by auto
        with Some y False show ?thesis by (simp add: canonical_members_map)
      qed
    qed (simp add: canonical_members_map)
  qed
  then have "map_of (canonical_members ms) = map_of (canonical_members ns)" by blast
  from sort_members_eq [OF d this] show ?case by (simp add: w)
next
  case (1 xs)
  then obtain ys where "w = JArray ys" "content_items xs = content_items ys" by (auto simp: content_eqs)
  with 1(1) [of ys] 1(2,3) show ?case by simp
next
  case (5 x xs)
  then obtain y zs where y: "ys = y # zs" "content_of x = content_of y" "content_items xs = content_items zs"
    by (auto simp: content_eqs)
  with 5(1) [of y] 5(2) [of zs] 5(3,4) show ?case by simp
next
  case (7 k' x' ms)
  show ?case
  proof (cases "k = k'")
    case True
    then show ?thesis using 7(1) [of w] 7(3-6) by simp
  next
    case False
    then show ?thesis using 7(2) [of k x w] 7(3-6) by simp
  qed
qed (simp_all add: content_eqs)

section \<open>Properties\<close>

text \<open>
  The content hash sees the content and nothing else. Two values of an object have the same canonical
  form, and so the same snapshot hash and idempotency key, exactly when they have the same source content:
  members as a map at every level, without the keys that the client itself adds. The lanes that deliver one
  object with members in another order or with their own bookkeeping keys agree on the key.
\<close>

theorem canonical_form_is_content:
  assumes "proper_json v" "proper_json w"
  shows "canonicalize_json_for_hash v = canonicalize_json_for_hash w \<longleftrightarrow> content_of v = content_of w"
  using content_of_canonical(1) [OF assms(1)] content_of_canonical(1) [OF assms(2)]
    same_content_same_canonical(1) [OF assms] by metis

theorem canonical_form_is_content_witness:
  "canonicalize_json_for_hash (JObject [(cps ''b'', JNull), (cps ''_wptsall_outbox_id'', JInt 7), (cps ''a'', JBool True)])
    = canonicalize_json_for_hash (JObject [(cps ''a'', JBool True), (cps ''b'', JNull)])"
proof -
  let ?v = "JObject [(cps ''b'', JNull), (cps ''_wptsall_outbox_id'', JInt 7), (cps ''a'', JBool True)] :: utext json"
  let ?w = "JObject [(cps ''a'', JBool True), (cps ''b'', JNull)] :: utext json"
  have "proper_json ?v" "proper_json ?w" by simp_all
  moreover have "content_of ?v = content_of ?w"
    by (auto simp: cps_def fun_eq_iff)
  ultimately show ?thesis using canonical_form_is_content [of ?v ?w] by blast
qed

text \<open>
  Markers of earlier runs are removed completely. A text without an opening marker that was wrapped by up
  to 255 translations comes back as it was; a text that nobody wrapped is not touched.
\<close>

theorem markers_roundtrip:
  assumes "list_all (marker_lang alnum) langs" "12304 \<notin> set t" "length langs < MAX_MARKER_STRIP_DEPTH"
  shows "strip_translation_markers alnum (foldr wrap_marker langs t) = t"
proof (cases langs)
  case Nil
  have "12304 \<notin> set (trim_by is_ws_cp t)" using assms(2) set_trim_by [of is_ws_cp t] by auto
  then show ?thesis
    using strip_wrapped_loop [of alnum "[]" "trim_by is_ws_cp t" MAX_MARKER_STRIP_DEPTH False] assms(3)
    by (simp add: strip_translation_markers_def Nil)
next
  case (Cons lang rest)
  then have "trim_by is_ws_cp (foldr wrap_marker langs t) = foldr wrap_marker langs t"
    by (simp add: trim_wrapped)
  then show ?thesis
    using strip_wrapped_loop [OF assms(1,2,3), of False] Cons by (simp add: strip_translation_markers_def)
qed

theorem markers_roundtrip_witness:
  "strip_translation_markers (\<lambda>c. c < 128) (wrap_marker (cps ''de'') (wrap_marker (cps ''en_US'') (cps ''Hello''))) = cps ''Hello''"
  using markers_roundtrip [of "\<lambda>c. c < 128" "[cps ''de'', cps ''en_US'']" "cps ''Hello''"]
  by (simp add: marker_lang_def cps_def MAX_MARKER_STRIP_DEPTH_def)

text \<open>
  An object gets the rule that finds most of its fields. The selected rule is one of the site for the
  object's subtype; among the rules whose data type fits (among all of that subtype when none fits) no rule has
  more of its fields present on the object. There is no rule only when no rule names the subtype.
\<close>

theorem selected_rule_best:
  "case select_rule_for_item item complete_data rules of
     None \<Rightarrow> list_all (\<lambda>r. object_name r \<noteq> subtype item) rules
   | Some r \<Rightarrow> r \<in> set rules \<and> object_name r = subtype item
       \<and> list_all (\<lambda>c. rule_present_field_score item complete_data c \<le> rule_present_field_score item complete_data r)
           (if filter (data_type_matches item) rules = [] then filter (\<lambda>c. object_name c = subtype item) rules
            else filter (data_type_matches item) rules)"
proof -
  note b = best_rule_result [of None 0 "rule_present_field_score item complete_data" "rule_candidates item rules"]
  have sub: "set (rule_candidates item rules) \<subseteq> {r \<in> set rules. object_name r = subtype item}"
    by (auto simp: rule_candidates_def data_type_matches_def Let_def split: if_splits)
  show ?thesis
  proof (cases "select_rule_for_item item complete_data rules")
    case None
    with b have "rule_candidates item rules = []" by (simp add: select_rule_for_item_def)
    then have "filter (\<lambda>rule. object_name rule = subtype item) rules = []"
      by (auto simp: rule_candidates_def Let_def split: if_splits)
    with None show ?thesis by (auto simp: list_all_iff filter_empty_conv)
  next
    case (Some r)
    with b have r: "r \<in> set (rule_candidates item rules)"
      "\<forall>c \<in> set (rule_candidates item rules). rule_present_field_score item complete_data c
         \<le> rule_present_field_score item complete_data r"
      by (simp_all add: select_rule_for_item_def)
    from r(2) have "list_all (\<lambda>c. rule_present_field_score item complete_data c
        \<le> rule_present_field_score item complete_data r) (rule_candidates item rules)"
      by (simp add: list_all_iff)
    with Some r(1) sub show ?thesis by (auto simp: rule_candidates_def Let_def)
  qed
qed

end
