(* ===== verification/Bindings.thy ===== *)
theory Bindings
  imports FieldRouting "HOL-Library.AList"
begin

text \<open>
  The component bindings of \<open>bindings/task_rules.rs\<close> and \<open>bindings/binding_v2.rs\<close>: the canonical names of
  keys, the normalization of a document, its resolution to a component, and the migration of numeric scopes
  to semantic keys. A \<open>HashMap\<close> is a list of pairs with distinct keys, in the order in which it happens to be
  iterated; the lemmas show where that order cannot be seen. Unicode lower-casing, the SHA-256 digest of a
  text and the JSON printer are arguments; reading and writing the encrypted files is left out.
\<close>

section \<open>Canonical names\<close>

text \<open>A \<open>match\<close> on the trimmed, lower-cased text: the first row that lists it gives the name.\<close>

type_synonym name_table = "(utext \<times> utext list) list"

definition named :: "name_table \<Rightarrow> utext \<Rightarrow> utext option" where
  "named table raw =
     (let lower = map lower_cp (trim_by is_ws_cp raw) in
      if lower = [] then None
      else first_some (\<lambda>(name, aliases). if lower \<in> set aliases then Some name else None) table)"

definition TASK_TYPES :: name_table where
  "TASK_TYPES =
     [(cps ''text'', [cps ''text'', cps ''text_translation'', cps ''field'', cps ''fields'']),
      (cps ''image'', [cps ''image'', cps ''images'', cps ''image_translation'']),
      (cps ''video'', [cps ''video'', cps ''videos'', cps ''video_translation'']),
      (cps ''audio'', [cps ''audio'', cps ''audios'', cps ''audio_translation'']),
      (cps ''document'', [cps ''document'', cps ''documents'', cps ''doc'', cps ''file'', cps ''files'',
         cps ''document_translation'']),
      (cps ''mixed'', [cps ''mixed''])]"

definition parse_task_type_binding_key :: "utext \<Rightarrow> utext option" where
  "parse_task_type_binding_key = named TASK_TYPES"

definition CONTENT_FORMATS :: name_table where
  "CONTENT_FORMATS =
     [(cps ''plain_text'', [cps ''plain_text'', cps ''plain'', cps ''text'']),
      (cps ''rich_html'', [cps ''rich_html'', cps ''html'', cps ''richtext'', cps ''rich_text'']),
      (cps ''json_structured'', [cps ''json_structured'', cps ''json'']),
      (cps ''serialized_php'', [cps ''serialized_php'', cps ''serialized'']),
      (cps ''media_ref'', [cps ''media_ref'', cps ''media'', cps ''mediaref'']),
      (cps ''slug'', [cps ''slug'']),
      (cps ''code'', [cps ''code''])]"

definition parse_content_format_binding_key :: "utext \<Rightarrow> utext option" where
  "parse_content_format_binding_key = named CONTENT_FORMATS"

definition BUSINESS_LINES :: name_table where
  "BUSINESS_LINES =
     [(cps ''post_content'', [cps ''post'', cps ''post_type'', cps ''post_content'']),
      (cps ''taxonomy_content'', [cps ''taxonomy'', cps ''term'', cps ''taxonomy_content'']),
      (cps ''theme_i18n'', [cps ''theme'', cps ''theme_i18n'']),
      (cps ''plugin_i18n'', [cps ''plugin'', cps ''plugin_i18n'', cps ''language_pack'', cps ''language_pack_i18n'']),
      (cps ''config_i18n'', [cps ''config'', cps ''config_i18n'']),
      (cps ''site_strings'', [cps ''site'', cps ''site_strings'']),
      (cps ''menu_strings'', [cps ''menu'', cps ''menu_strings'']),
      (cps ''widget_strings'', [cps ''widget'', cps ''widget_strings'']),
      (cps ''custom_model'', [cps ''custom_model'', cps ''custom'', cps ''model''])]"

definition parse_business_line_key :: "utext \<Rightarrow> utext option" where
  "parse_business_line_key = named BUSINESS_LINES"

definition parse_business_line_task_type_binding_key :: "utext \<Rightarrow> utext option" where
  "parse_business_line_task_type_binding_key raw =
     (case split_on [58] (trim_by is_ws_cp raw) of
        [line, type] \<Rightarrow>
          Option.bind (parse_business_line_key line) (\<lambda>l.
            map_option (\<lambda>t. l @ [58] @ t) (parse_task_type_binding_key type))
      | _ \<Rightarrow> None)"

definition MEDIA_TYPES :: "utext list" where
  "MEDIA_TYPES = [cps ''image'', cps ''video'', cps ''audio'', cps ''document'']"

definition media_slot :: "utext \<Rightarrow> utext" where
  "media_slot media_type = cps ''media_ref:'' @ media_type"

definition split_once :: "nat \<Rightarrow> utext \<Rightarrow> (utext \<times> utext) option" where
  "split_once c s =
     (if c \<in> set s then Some (takeWhile (\<lambda>x. x \<noteq> c) s, tl (dropWhile (\<lambda>x. x \<noteq> c) s)) else None)"

text \<open>The slot of a media format with its type: the type must be one of the four media types.\<close>

definition media_slot_of :: "utext \<Rightarrow> utext option" where
  "media_slot_of task_type =
     Option.bind (parse_task_type_binding_key task_type)
       (\<lambda>m. if m \<in> set MEDIA_TYPES then Some (media_slot m) else None)"

definition parse_rule_component_slot_binding_key :: "utext \<Rightarrow> utext option" where
  "parse_rule_component_slot_binding_key raw =
     (let trimmed = trim_by is_ws_cp raw in
      if trimmed = [] then None
      else or_else
        (Option.bind (split_once 58 trimmed) (\<lambda>(left, right).
           if parse_content_format_binding_key left = Some (cps ''media_ref'') then media_slot_of right else None))
        (parse_content_format_binding_key trimmed))"

definition scope_id :: "utext \<Rightarrow> nat option" where
  "scope_id raw =
     (case parse_u64 (trim_by is_ws_cp raw) of Some v \<Rightarrow> (if v = 0 then None else Some v) | None \<Rightarrow> None)"

definition normalize_numeric_scope_key :: "utext \<Rightarrow> utext option" where
  "normalize_numeric_scope_key raw =
     (if trim_by is_ws_cp raw = [] then None else map_option fmt_cps (scope_id raw))"

definition plugin_key :: "(utext \<Rightarrow> utext) \<Rightarrow> utext \<Rightarrow> utext option" where
  "plugin_key lower raw = (let slug = lower (trim_by is_ws_cp raw) in if slug = [] then None else Some slug)"

section \<open>Documents\<close>

type_synonym slot_map = "(utext \<times> utext) list"

record relation_ref =
  rr_source_lang :: utext
  rr_target_lang :: utext
  rr_target_site_type :: utext
  rr_template :: utext

record relation_entry =
  re_semantic_key :: utext
  re_ref :: relation_ref
  re_legacy_id_hint :: "nat option"
  re_slots :: slot_map

record rule_ref =
  ur_plugin_slug :: utext
  ur_name :: utext
  ur_data_type :: utext
  ur_object_name :: utext
  ur_source_group :: utext
  ur_routing_profile :: utext
  ur_delivery_target :: utext
  ur_content_format :: utext

record rule_entry =
  ue_semantic_key :: utext
  ue_relation_key :: utext
  ue_ref :: rule_ref
  ue_legacy_id_hint :: "nat option"
  ue_slots :: slot_map

record site_entry =
  se_site_origin :: utext
  se_relations :: "(utext \<times> relation_entry) list"
  se_rules :: "(utext \<times> rule_entry) list"

record migration_issue =
  mi_code :: utext
  mi_scope :: utext
  mi_scope_key :: utext
  mi_detail :: utext

record rule_bindings_doc =
  rb_version :: nat
  rb_global_defaults :: slot_map
  rb_relation_bindings :: "(utext \<times> slot_map) list"
  rb_plugin_bindings :: "(utext \<times> slot_map) list"
  rb_rule_bindings :: "(utext \<times> slot_map) list"
  rb_site_bindings :: "(utext \<times> site_entry) list"
  rb_migration_issues :: "migration_issue list"

text \<open>\<open>entry(k).or_insert(v)\<close>.\<close>

definition or_insert :: "'k \<Rightarrow> 'v \<Rightarrow> ('k \<times> 'v) list \<Rightarrow> ('k \<times> 'v) list" where
  "or_insert k v m = (if map_of m k = None then m @ [(k, v)] else m)"

section \<open>Normalization\<close>

definition rule_slot_key_preference :: "utext \<Rightarrow> utext \<Rightarrow> nat" where
  "rule_slot_key_preference raw_key normalized_key =
     (let trimmed = trim_by is_ws_cp raw_key in
      if trimmed = normalized_key then 0
      else if map ascii_lower_cp trimmed = map ascii_lower_cp normalized_key then 1
      else 2)"

definition slot_candidate :: "utext \<times> utext \<Rightarrow> (utext \<times> utext \<times> utext \<times> nat) option" where
  "slot_candidate e =
     (let component_id = trim_by is_ws_cp (snd e) in
      if component_id = [] then None
      else map_option (\<lambda>slot. (fst e, slot, component_id, rule_slot_key_preference (fst e) slot))
        (parse_rule_component_slot_binding_key (fst e)))"

definition keep_preferred ::
  "utext \<times> utext \<times> utext \<times> nat \<Rightarrow> (utext \<times> utext \<times> nat) list \<Rightarrow> (utext \<times> utext \<times> nat) list" where
  "keep_preferred c merged =
     (case c of (_, slot, component_id, pref) \<Rightarrow>
        (case map_of merged slot of
           Some (_, old) \<Rightarrow> (if old \<le> pref then merged else AList.update slot (component_id, pref) merged)
         | None \<Rightarrow> AList.update slot (component_id, pref) merged))"

definition normalize_rule_slot_map :: "slot_map \<Rightarrow> slot_map" where
  "normalize_rule_slot_map slots =
     map (\<lambda>(slot, component_id, _). (slot, component_id))
       (fold keep_preferred (sort_key fst (List.map_filter slot_candidate slots)) [])"

text \<open>The three loops over scopes differ in the key only; a scope without slots is dropped.\<close>

definition merge_scope ::
  "(utext \<Rightarrow> utext option) \<Rightarrow> utext \<times> slot_map \<Rightarrow> (utext \<times> slot_map) list \<Rightarrow> (utext \<times> slot_map) list" where
  "merge_scope canon e acc =
     (case canon (fst e) of
        None \<Rightarrow> acc
      | Some k \<Rightarrow>
          (let slots = normalize_rule_slot_map (snd e) in
           if slots = [] then acc
           else AList.update k (fold (\<lambda>(slot, c). or_insert slot c) slots (or_default [] (map_of acc k))) acc))"

definition normalize_scopes :: "(utext \<Rightarrow> utext option) \<Rightarrow> (utext \<times> slot_map) list \<Rightarrow> (utext \<times> slot_map) list" where
  "normalize_scopes canon scopes = fold (merge_scope canon) (sort_key fst scopes) []"

definition default_bindings_version :: nat where "default_bindings_version = 1"

definition normalize_rule_component_bindings_doc ::
  "(utext \<Rightarrow> utext) \<Rightarrow> rule_bindings_doc \<Rightarrow> rule_bindings_doc" where
  "normalize_rule_component_bindings_doc lower doc =
     \<lparr>rb_version = (if rb_version doc = 0 then default_bindings_version else rb_version doc),
      rb_global_defaults = normalize_rule_slot_map (rb_global_defaults doc),
      rb_relation_bindings = normalize_scopes normalize_numeric_scope_key (rb_relation_bindings doc),
      rb_plugin_bindings = normalize_scopes (plugin_key lower) (rb_plugin_bindings doc),
      rb_rule_bindings = normalize_scopes normalize_numeric_scope_key (rb_rule_bindings doc),
      rb_site_bindings = rb_site_bindings doc,
      rb_migration_issues = rb_migration_issues doc\<rparr>"

section \<open>Resolution\<close>

definition push_unique :: "utext \<Rightarrow> utext list \<Rightarrow> utext list" where
  "push_unique slot out = (if slot \<noteq> [] \<and> slot \<notin> set out then out @ [slot] else out)"

definition rule_binding_slot_candidates :: "utext \<Rightarrow> utext option \<Rightarrow> utext list" where
  "rule_binding_slot_candidates task_type content_format =
     (case Option.bind content_format parse_content_format_binding_key of
        None \<Rightarrow> []
      | Some f \<Rightarrow>
          push_unique f
            (case (if f = cps ''media_ref'' then media_slot_of task_type else None) of
               Some slot \<Rightarrow> push_unique slot []
             | None \<Rightarrow> []))"

text \<open>A component id counts when it is not blank; the trimmed id is the result.\<close>

definition nonblank :: "utext \<Rightarrow> utext option" where
  "nonblank s = (let t = trim_by is_ws_cp s in if t = [] then None else Some t)"

definition resolve_component_id_from_slot_map :: "slot_map \<Rightarrow> utext \<Rightarrow> utext option \<Rightarrow> utext option" where
  "resolve_component_id_from_slot_map slots task_type content_format =
     (let candidates = rule_binding_slot_candidates task_type content_format in
      if candidates = [] then None
      else or_else (first_some (\<lambda>slot. Option.bind (map_of slots slot) nonblank) candidates)
        (first_some
           (\<lambda>(raw_key, component_id).
              (case parse_rule_component_slot_binding_key raw_key of
                 None \<Rightarrow> None
               | Some slot \<Rightarrow> if slot \<in> set candidates then nonblank component_id else None))
           slots))"

record resolve_context =
  cx_site_key :: "utext option"
  cx_relation_semantic_key :: "utext option"
  cx_rule_semantic_key :: "utext option"
  cx_rule_id :: "nat option"
  cx_relation_id :: "nat option"
  cx_plugin_slug :: "utext option"
  cx_task_type :: utext
  cx_content_format :: "utext option"
  cx_allow_legacy_numeric :: bool

datatype resolve_outcome =
  ResolvedRule | ResolvedPlugin | ResolvedRelation | ResolvedGlobal | LegacyNumericFallback | Unresolved

record resolve_result =
  rs_outcome :: resolve_outcome
  rs_component_id :: "utext option"
  rs_semantic_key :: "utext option"

definition resolved_as ::
  "resolve_context \<Rightarrow> resolve_outcome \<Rightarrow> utext option \<Rightarrow> slot_map \<Rightarrow> resolve_result option" where
  "resolved_as ctx outcome key slots =
     map_option (\<lambda>c. \<lparr>rs_outcome = outcome, rs_component_id = Some c, rs_semantic_key = key\<rparr>)
       (resolve_component_id_from_slot_map slots (cx_task_type ctx) (cx_content_format ctx))"

definition site_of :: "rule_bindings_doc \<Rightarrow> resolve_context \<Rightarrow> site_entry option" where
  "site_of doc ctx = Option.bind (cx_site_key ctx) (map_of (rb_site_bindings doc))"

definition rule_tier :: "rule_bindings_doc \<Rightarrow> resolve_context \<Rightarrow> resolve_result option" where
  "rule_tier doc ctx =
     or_else
       (Option.bind (site_of doc ctx) (\<lambda>site. Option.bind (cx_rule_semantic_key ctx) (\<lambda>key.
          Option.bind (map_of (se_rules site) key) (\<lambda>rule.
            resolved_as ctx ResolvedRule (Some (ue_semantic_key rule)) (ue_slots rule)))))
       (if \<not> cx_allow_legacy_numeric ctx then None
        else Option.bind (cx_rule_id ctx) (\<lambda>rid.
          or_else
            (Option.bind (map_of (rb_rule_bindings doc) (fmt_cps rid)) (resolved_as ctx LegacyNumericFallback None))
            (Option.bind (site_of doc ctx) (\<lambda>site.
               first_some
                 (\<lambda>(_, rule). if ue_legacy_id_hint rule = Some rid
                    then resolved_as ctx LegacyNumericFallback (Some (ue_semantic_key rule)) (ue_slots rule)
                    else None)
                 (se_rules site)))))"

definition plugin_tier :: "(utext \<Rightarrow> utext) \<Rightarrow> rule_bindings_doc \<Rightarrow> resolve_context \<Rightarrow> resolve_result option" where
  "plugin_tier lower doc ctx =
     Option.bind (cx_plugin_slug ctx) (\<lambda>slug.
       Option.bind (map_of (rb_plugin_bindings doc) (lower (trim_by is_ws_cp slug)))
         (resolved_as ctx ResolvedPlugin None))"

definition relation_tier :: "rule_bindings_doc \<Rightarrow> resolve_context \<Rightarrow> resolve_result option" where
  "relation_tier doc ctx =
     or_else
       (Option.bind (site_of doc ctx) (\<lambda>site. Option.bind (cx_relation_semantic_key ctx) (\<lambda>key.
          Option.bind (map_of (se_relations site) key) (\<lambda>relation.
            resolved_as ctx ResolvedRelation (Some (re_semantic_key relation)) (re_slots relation)))))
       (if \<not> cx_allow_legacy_numeric ctx then None
        else Option.bind (cx_relation_id ctx) (\<lambda>rid.
          or_else
            (Option.bind (map_of (rb_relation_bindings doc) (fmt_cps rid)) (resolved_as ctx LegacyNumericFallback None))
            (Option.bind (site_of doc ctx) (\<lambda>site.
               first_some
                 (\<lambda>(_, relation). if re_legacy_id_hint relation = Some rid
                    then resolved_as ctx LegacyNumericFallback (Some (re_semantic_key relation)) (re_slots relation)
                    else None)
                 (se_relations site)))))"

definition global_tier :: "rule_bindings_doc \<Rightarrow> resolve_context \<Rightarrow> resolve_result option" where
  "global_tier doc ctx = resolved_as ctx ResolvedGlobal None (rb_global_defaults doc)"

definition resolve_rule_bindings_with_context ::
  "(utext \<Rightarrow> utext) \<Rightarrow> rule_bindings_doc \<Rightarrow> resolve_context \<Rightarrow> resolve_result" where
  "resolve_rule_bindings_with_context lower doc ctx =
     or_default \<lparr>rs_outcome = Unresolved, rs_component_id = None, rs_semantic_key = None\<rparr>
       (or_else (rule_tier doc ctx) (or_else (plugin_tier lower doc ctx)
         (or_else (relation_tier doc ctx) (global_tier doc ctx))))"

definition BINDINGS_DOC_VERSION_V2 :: nat where "BINDINGS_DOC_VERSION_V2 = 2"

definition resolve_component_id_from_rule_bindings ::
  "(utext \<Rightarrow> utext) \<Rightarrow> rule_bindings_doc \<Rightarrow> nat option \<Rightarrow> nat option \<Rightarrow> utext option \<Rightarrow> utext \<Rightarrow> utext option
    \<Rightarrow> utext option" where
  "resolve_component_id_from_rule_bindings lower doc rid relid plugin_slug task_type content_format =
     rs_component_id (resolve_rule_bindings_with_context lower doc
       \<lparr>cx_site_key = None, cx_relation_semantic_key = None, cx_rule_semantic_key = None,
        cx_rule_id = rid, cx_relation_id = relid, cx_plugin_slug = plugin_slug,
        cx_task_type = task_type, cx_content_format = content_format,
        cx_allow_legacy_numeric = rb_version doc < BINDINGS_DOC_VERSION_V2\<rparr>)"

section \<open>Semantic keys\<close>

definition escape_json_string :: "utext \<Rightarrow> utext" where
  "escape_json_string s = concat (map (\<lambda>c. if c = 34 then [92, 34] else if c = 92 then [92, 92] else [c]) s)"

fun canonical_json :: "(utext json \<Rightarrow> utext) \<Rightarrow> utext json \<Rightarrow> utext"
  and canonical_json_items :: "(utext json \<Rightarrow> utext) \<Rightarrow> utext json list \<Rightarrow> utext list"
  and canonical_json_members :: "(utext json \<Rightarrow> utext) \<Rightarrow> (utext \<times> utext json) list \<Rightarrow> (utext \<times> utext) list" where
  "canonical_json print (JObject ms) =
     [123] @ join_with [44] (map (\<lambda>(k, t). [34] @ escape_json_string k @ [34, 58] @ t)
       (sort_key fst (canonical_json_members print ms))) @ [125]"
| "canonical_json print (JArray xs) = [91] @ join_with [44] (canonical_json_items print xs) @ [93]"
| "canonical_json print v = print v"
| "canonical_json_items print [] = []"
| "canonical_json_items print (x # xs) = canonical_json print x # canonical_json_items print xs"
| "canonical_json_members print [] = []"
| "canonical_json_members print ((k, x) # ms) = (k, canonical_json print x) # canonical_json_members print ms"

definition normalize_label :: "utext \<Rightarrow> utext" where
  "normalize_label raw = map ascii_lower_cp (trim_by is_ws_cp raw)"

definition label_or_default :: "utext \<Rightarrow> utext" where
  "label_or_default raw = normalize_label (if trim_by is_ws_cp raw = [] then cps ''default'' else raw)"

definition normalize_domain_base :: "(utext \<Rightarrow> utext) \<Rightarrow> utext \<Rightarrow> utext" where
  "normalize_domain_base lower url =
     (let trimmed = trim_by is_ws_cp url in
      if trimmed = [] then []
      else
        (let (scheme, rest) =
           (case find_sub (cps ''://'') trimmed of
              Some pos \<Rightarrow> (lower (take pos trimmed), drop (pos + 3) trimmed)
            | None \<Rightarrow> (cps ''https'', trimmed));
             host = lower (trim_by is_ws_cp (takeWhile (\<lambda>c. c \<noteq> 47) rest)) in
         if host = [] then [] else scheme @ cps ''://'' @ host))"

text \<open>What the digest needs from outside.\<close>

record key_env =
  k_lower :: "utext \<Rightarrow> utext"
  k_sha256 :: "utext \<Rightarrow> utext"
  k_print :: "utext json \<Rightarrow> utext"

definition digest_key :: "key_env \<Rightarrow> utext \<Rightarrow> (utext \<times> utext) list \<Rightarrow> utext" where
  "digest_key env kind labels =
     kind @ [58] @ k_sha256 env (canonical_json (k_print env) (JObject (map (\<lambda>(k, t). (k, JString t)) labels)))"

definition site_key_from_origin :: "key_env \<Rightarrow> utext \<Rightarrow> utext" where
  "site_key_from_origin env site_origin = cps ''site:'' @ k_sha256 env (normalize_domain_base (k_lower env) site_origin)"

definition relation_semantic_key :: "key_env \<Rightarrow> relation_ref \<Rightarrow> utext" where
  "relation_semantic_key env r = digest_key env (cps ''relation'')
     [(cps ''source_lang'', normalize_label (rr_source_lang r)),
      (cps ''target_lang'', normalize_label (rr_target_lang r)),
      (cps ''target_site_type'', normalize_label (rr_target_site_type r)),
      (cps ''template'', label_or_default (rr_template r))]"

definition rule_semantic_key :: "key_env \<Rightarrow> utext \<Rightarrow> rule_ref \<Rightarrow> utext" where
  "rule_semantic_key env relation_key r = digest_key env (cps ''rule'')
     [(cps ''relation_key'', trim_by is_ws_cp relation_key),
      (cps ''plugin_slug'', normalize_label (ur_plugin_slug r)),
      (cps ''data_type'', normalize_label (ur_data_type r)),
      (cps ''object_name'', normalize_label (ur_object_name r)),
      (cps ''name'', normalize_label (ur_name r)),
      (cps ''source_group'', normalize_label (ur_source_group r)),
      (cps ''routing_profile'', label_or_default (ur_routing_profile r)),
      (cps ''delivery_target'', normalize_label (ur_delivery_target r)),
      (cps ''content_format'', normalize_label (ur_content_format r))]"

record component_ref =
  cr_vendor_id :: utext
  cr_template_id :: utext
  cr_kind :: utext
  cr_version :: utext

definition component_semantic_key :: "key_env \<Rightarrow> component_ref \<Rightarrow> utext" where
  "component_semantic_key env c = digest_key env (cps ''component'')
     [(cps ''vendor_id'', normalize_label (cr_vendor_id c)),
      (cps ''template_id'', normalize_label (cr_template_id c)),
      (cps ''kind'', normalize_label (cr_kind c)),
      (cps ''version'', normalize_label (cr_version c))]"

section \<open>Packs\<close>

definition numeric_scope_keys :: "(utext \<times> slot_map) list \<Rightarrow> utext list" where
  "numeric_scope_keys scopes =
     sort (filter (\<lambda>k. trim_by is_ws_cp k \<noteq> [] \<and> scope_id k \<noteq> None \<and> 58 \<notin> set (trim_by is_ws_cp k))
       (map fst scopes))"

definition pack_has_cross_site_numeric_risk :: "rule_bindings_doc \<Rightarrow> bool" where
  "pack_has_cross_site_numeric_risk doc \<longleftrightarrow>
     numeric_scope_keys (rb_relation_bindings doc) \<noteq> [] \<or> numeric_scope_keys (rb_rule_bindings doc) \<noteq> []"

definition stripped_warning :: "utext \<Rightarrow> utext list \<Rightarrow> utext list" where
  "stripped_warning label keys =
     (if keys = [] then [] else [cps ''stripped_numeric_'' @ label @ cps ''_bindings:'' @ join_with [44] keys])"

definition sanitize_rule_bindings_for_public_pack :: "rule_bindings_doc \<Rightarrow> rule_bindings_doc \<times> utext list" where
  "sanitize_rule_bindings_for_public_pack doc =
     (doc\<lparr>rb_relation_bindings := [], rb_rule_bindings := [],
        rb_version := (if rb_version doc < BINDINGS_DOC_VERSION_V2 \<and> rb_site_bindings doc \<noteq> []
                       then BINDINGS_DOC_VERSION_V2 else rb_version doc)\<rparr>,
      stripped_warning (cps ''relation'') (numeric_scope_keys (rb_relation_bindings doc))
      @ stripped_warning (cps ''rule'') (numeric_scope_keys (rb_rule_bindings doc)))"

definition remove_keys :: "'k list \<Rightarrow> ('k \<times> 'v) list \<Rightarrow> ('k \<times> 'v) list" where
  "remove_keys ks m = filter (\<lambda>e. fst e \<notin> set ks) m"

definition strip_numeric_maps_on_import :: "rule_bindings_doc \<Rightarrow> rule_bindings_doc \<times> utext list" where
  "strip_numeric_maps_on_import doc =
     (let relations = numeric_scope_keys (rb_relation_bindings doc);
          rules = numeric_scope_keys (rb_rule_bindings doc) in
      (doc\<lparr>rb_relation_bindings := remove_keys relations (rb_relation_bindings doc),
         rb_rule_bindings := remove_keys rules (rb_rule_bindings doc)\<rparr>,
       map (\<lambda>k. cps ''relation:'' @ k) relations @ map (\<lambda>k. cps ''rule:'' @ k) rules))"

section \<open>Migration\<close>

record discovered_relation =
  dr_legacy_id :: nat
  dr_ref :: relation_ref

record discovered_rule_identity =
  du_legacy_id :: nat
  du_relation_legacy_id :: "nat option"
  du_ref :: rule_ref

record site_index =
  si_origin :: utext
  si_relations :: "discovered_relation list"
  si_rules :: "discovered_rule_identity list"

record migration_report =
  mr_relations :: nat
  mr_rules :: nat
  mr_issue_count :: nat

definition find_unique_relation :: "site_index list \<Rightarrow> nat \<Rightarrow> utext + site_index \<times> discovered_relation" where
  "find_unique_relation index legacy_id =
     (case concat (map (\<lambda>site. map (Pair site) (filter (\<lambda>r. dr_legacy_id r = legacy_id) (si_relations site))) index) of
        [] \<Rightarrow> Inl (cps ''unresolved_relation'')
      | [m] \<Rightarrow> Inr m
      | _ \<Rightarrow> Inl (cps ''ambiguous_relation''))"

definition find_unique_rule :: "site_index list \<Rightarrow> nat \<Rightarrow> utext + site_index \<times> discovered_rule_identity" where
  "find_unique_rule index legacy_id =
     (case concat (map (\<lambda>site. map (Pair site) (filter (\<lambda>r. du_legacy_id r = legacy_id) (si_rules site))) index) of
        [] \<Rightarrow> Inl (cps ''unresolved_rule'')
      | [m] \<Rightarrow> Inr m
      | _ \<Rightarrow> Inl (cps ''ambiguous_rule''))"

text \<open>\<open>normalize_slot_map\<close> of \<open>binding_v2.rs\<close>: the first key met for a slot stays.\<close>

definition normalize_slot_map :: "slot_map \<Rightarrow> slot_map" where
  "normalize_slot_map slots =
     fold (\<lambda>(raw_key, raw_component_id) out.
         (case (nonblank raw_component_id, parse_rule_component_slot_binding_key raw_key) of
            (Some component_id, Some slot) \<Rightarrow> or_insert slot component_id out
          | _ \<Rightarrow> out)) slots []"

definition ensure_site_entry ::
  "key_env \<Rightarrow> site_index \<Rightarrow> (utext \<times> site_entry) list \<Rightarrow> utext \<times> (utext \<times> site_entry) list" where
  "ensure_site_entry env site sites =
     (let origin = normalize_domain_base (k_lower env) (si_origin site);
          key = site_key_from_origin env origin in
      (key, or_insert key \<lparr>se_site_origin = origin, se_relations = [], se_rules = []\<rparr> sites))"

definition update_site ::
  "key_env \<Rightarrow> site_index \<Rightarrow> (site_entry \<Rightarrow> site_entry) \<Rightarrow> rule_bindings_doc \<Rightarrow> rule_bindings_doc" where
  "update_site env site f doc =
     (let (key, sites) = ensure_site_entry env site (rb_site_bindings doc) in
      doc\<lparr>rb_site_bindings := map (\<lambda>(k, e). (k, if k = key then f e else e)) sites\<rparr>)"

definition push_issue :: "utext \<Rightarrow> utext \<Rightarrow> utext \<Rightarrow> utext \<Rightarrow> rule_bindings_doc \<Rightarrow> rule_bindings_doc" where
  "push_issue code scope key detail doc =
     doc\<lparr>rb_migration_issues := rb_migration_issues doc @
       [\<lparr>mi_code = code, mi_scope = scope, mi_scope_key = key, mi_detail = detail\<rparr>]\<rparr>"

definition migrate_relation ::
  "key_env \<Rightarrow> site_index list \<Rightarrow> utext \<times> slot_map \<Rightarrow> rule_bindings_doc \<times> nat \<Rightarrow> rule_bindings_doc \<times> nat" where
  "migrate_relation env index e acc =
     (let (out, migrated) = acc; raw_key = fst e in
      case scope_id raw_key of
        None \<Rightarrow> (push_issue (cps ''invalid_relation_key'') (cps ''relation'') raw_key
                  (cps ''non-numeric or non-positive relation key'') out, migrated)
      | Some legacy_id \<Rightarrow>
          (let slots = normalize_slot_map (snd e) in
           if slots = [] then
             (push_issue (cps ''empty_slots'') (cps ''relation'') (fmt_cps legacy_id)
                (cps ''no valid slots/component ids'') out, migrated)
           else
             (case find_unique_relation index legacy_id of
                Inr (site, relation) \<Rightarrow>
                  (let key = relation_semantic_key env (dr_ref relation);
                       entry = \<lparr>re_semantic_key = key, re_ref = dr_ref relation,
                                re_legacy_id_hint = Some legacy_id, re_slots = slots\<rparr> in
                   (update_site env site (\<lambda>s. s\<lparr>se_relations := AList.update key entry (se_relations s)\<rparr>) out,
                    migrated + 1))
              | Inl code \<Rightarrow>
                  (push_issue code (cps ''relation'') (fmt_cps legacy_id)
                     (cps ''numeric relation binding quarantined until unique discovery match'') out, migrated))))"

definition relation_key_of :: "key_env \<Rightarrow> site_index list \<Rightarrow> nat option \<Rightarrow> utext" where
  "relation_key_of env index rel =
     (case rel of
        None \<Rightarrow> []
      | Some rid \<Rightarrow>
          (case find_unique_relation index rid of
             Inr (_, relation) \<Rightarrow> relation_semantic_key env (dr_ref relation)
           | Inl _ \<Rightarrow> []))"

definition migrate_rule ::
  "key_env \<Rightarrow> site_index list \<Rightarrow> utext \<times> slot_map \<Rightarrow> rule_bindings_doc \<times> nat \<Rightarrow> rule_bindings_doc \<times> nat" where
  "migrate_rule env index e acc =
     (let (out, migrated) = acc; raw_key = fst e in
      case scope_id raw_key of
        None \<Rightarrow> (push_issue (cps ''invalid_rule_key'') (cps ''rule'') raw_key
                  (cps ''non-numeric or non-positive rule key'') out, migrated)
      | Some legacy_id \<Rightarrow>
          (let slots = normalize_slot_map (snd e) in
           if slots = [] then
             (push_issue (cps ''empty_slots'') (cps ''rule'') (fmt_cps legacy_id)
                (cps ''no valid slots/component ids'') out, migrated)
           else
             (case find_unique_rule index legacy_id of
                Inr (site, rule) \<Rightarrow>
                  (let relation_key = relation_key_of env index (du_relation_legacy_id rule);
                       key = rule_semantic_key env relation_key (du_ref rule);
                       entry = \<lparr>ue_semantic_key = key, ue_relation_key = relation_key, ue_ref = du_ref rule,
                                ue_legacy_id_hint = Some legacy_id, ue_slots = slots\<rparr> in
                   (update_site env site (\<lambda>s. s\<lparr>se_rules := AList.update key entry (se_rules s)\<rparr>) out,
                    migrated + 1))
              | Inl code \<Rightarrow>
                  (push_issue code (cps ''rule'') (fmt_cps legacy_id)
                     (cps ''numeric rule binding quarantined until unique discovery match'') out, migrated))))"

text \<open>The migration without a path: nothing is backed up or saved.\<close>

definition migrate_rule_bindings_v1_to_v2 ::
  "key_env \<Rightarrow> rule_bindings_doc \<Rightarrow> site_index list \<Rightarrow> rule_bindings_doc \<times> migration_report" where
  "migrate_rule_bindings_v1_to_v2 env doc index =
     (if BINDINGS_DOC_VERSION_V2 \<le> rb_version doc \<and> rb_relation_bindings doc = [] \<and> rb_rule_bindings doc = []
      then (doc, \<lparr>mr_relations = 0, mr_rules = 0, mr_issue_count = length (rb_migration_issues doc)\<rparr>)
      else
        (let out = (normalize_rule_component_bindings_doc (k_lower env) doc)
               \<lparr>rb_version := BINDINGS_DOC_VERSION_V2, rb_relation_bindings := [], rb_rule_bindings := []\<rparr>;
             (out, relations) = fold (migrate_relation env index) (rb_relation_bindings doc) (out, 0);
             (out, rules) = fold (migrate_rule env index) (rb_rule_bindings doc) (out, 0) in
         (out, \<lparr>mr_relations = relations, mr_rules = rules, mr_issue_count = length (rb_migration_issues out)\<rparr>)))"

section \<open>Canonical names stay\<close>

text \<open>A naming that maps each of its results to itself.\<close>

locale canonical_naming =
  fixes canon :: "utext \<Rightarrow> utext option"
  assumes canon_again: "canon raw = Some k \<Longrightarrow> canon k = Some k"

lemma first_some_SomeD: "first_some f xs = Some y \<Longrightarrow> \<exists>x \<in> set xs. f x = Some y"
  by (induction xs) (auto split: option.splits)

lemma first_some_NoneD: "first_some f xs = None \<longleftrightarrow> (\<forall>x \<in> set xs. f x = None)"
  by (induction xs) (auto split: option.splits)

lemma named_SomeD: "named table raw = Some k \<Longrightarrow> k \<in> fst ` set table"
  by (force simp: named_def Let_def split: if_splits dest!: first_some_SomeD)

lemma named_again:
  assumes "named table raw = Some k" "list_all (\<lambda>n. named table n = Some n) (map fst table)"
  shows "named table k = Some k"
  using named_SomeD [OF assms(1)] assms(2) by (auto simp: list_all_iff)

text \<open>Trimming and lower-casing leave a lower-case label as it is.\<close>

definition label_char :: "char \<Rightarrow> bool" where
  "label_char c \<longleftrightarrow> (let n = of_char c :: nat in 97 \<le> n \<and> n \<le> 122 \<or> n = 95 \<or> 48 \<le> n \<and> n \<le> 58)"

lemma label_char_fixed: "label_char c \<Longrightarrow> lower_cp (of_char c) = of_char c \<and> \<not> is_ws_cp (of_char c)"
  by (auto simp: label_char_def lower_cp_def is_ws_cp_def Let_def)

lemma trim_by_id: "\<forall>c \<in> set s. \<not> p c \<Longrightarrow> trim_by p s = s"
proof -
  assume *: "\<forall>c \<in> set s. \<not> p c"
  then have "dropWhile p s = s" "dropWhile p (rev s) = rev s"
    by (auto simp: dropWhile_eq_self_iff hd_in_set hd_rev)
  then show ?thesis by (simp add: trim_by_def)
qed

lemma cps_eq_Nil [simp]: "cps s = [] \<longleftrightarrow> s = []" "[] = cps s \<longleftrightarrow> s = []"
  by (auto simp: cps_def)

lemma label_fixed:
  assumes "list_all label_char s"
  shows "trim_by is_ws_cp (cps s) = cps s" "map lower_cp (cps s) = cps s"
proof -
  have "\<forall>c \<in> set (cps s). lower_cp c = c \<and> \<not> is_ws_cp c"
    using assms label_char_fixed by (auto simp: cps_def list_all_iff)
  then show "trim_by is_ws_cp (cps s) = cps s" "map lower_cp (cps s) = cps s"
    by (simp_all add: trim_by_id map_idI)
qed

lemma named_label:
  "list_all label_char s \<Longrightarrow>
    named table (cps s) =
      (if s = [] then None
       else first_some (\<lambda>(name, aliases). if cps s \<in> set aliases then Some name else None) table)"
  by (simp add: named_def Let_def label_fixed)

lemma task_types_fixed: "list_all (\<lambda>n. named TASK_TYPES n = Some n) (map fst TASK_TYPES)"
  by (simp add: TASK_TYPES_def named_label label_char_def)

lemma content_formats_fixed: "list_all (\<lambda>n. named CONTENT_FORMATS n = Some n) (map fst CONTENT_FORMATS)"
  by (simp add: CONTENT_FORMATS_def named_label label_char_def)

lemma business_lines_fixed: "list_all (\<lambda>n. named BUSINESS_LINES n = Some n) (map fst BUSINESS_LINES)"
  by (simp add: BUSINESS_LINES_def named_label label_char_def)

interpretation task_types: canonical_naming parse_task_type_binding_key
  by unfold_locales (metis parse_task_type_binding_key_def named_again task_types_fixed)

interpretation content_formats: canonical_naming parse_content_format_binding_key
  by unfold_locales (metis parse_content_format_binding_key_def named_again content_formats_fixed)

interpretation business_lines: canonical_naming parse_business_line_key
  by unfold_locales (metis parse_business_line_key_def named_again business_lines_fixed)

definition CANONICAL_SLOTS :: "utext list" where
  "CANONICAL_SLOTS = map media_slot MEDIA_TYPES @ map fst CONTENT_FORMATS"

lemma media_slot_cps: "media_slot (cps t) = cps (''media_ref:'' @ t)"
  by (simp only: media_slot_def cps_append)

lemma of_char_colon: "of_char c = (58::nat) \<longleftrightarrow> c = CHR '':''"
proof -
  have "(58::nat) = of_char CHR '':''" by simp
  then show ?thesis by (metis of_char_eq_iff)
qed

lemma colon_cps [simp]: "58 \<in> set (cps s) \<longleftrightarrow> CHR '':'' \<in> set s"
proof -
  have "58 \<in> set (cps s) \<longleftrightarrow> (\<exists>c \<in> set s. of_char c = (58::nat))"
    by (auto simp: cps_def image_iff)
  then show ?thesis by (simp only: of_char_colon) blast
qed

lemma split_once_cps:
  "split_once 58 (cps s) =
    (if CHR '':'' \<in> set s
     then Some (cps (takeWhile (\<lambda>c. c \<noteq> CHR '':'') s), cps (tl (dropWhile (\<lambda>c. c \<noteq> CHR '':'') s))) else None)"
  by (simp add: split_once_def) (simp add: cps_def takeWhile_map dropWhile_map map_tl comp_def of_char_colon)

lemma slots_fixed: "list_all (\<lambda>k. parse_rule_component_slot_binding_key k = Some k) CANONICAL_SLOTS"
  by (simp add: CANONICAL_SLOTS_def MEDIA_TYPES_def CONTENT_FORMATS_def media_slot_cps
      parse_rule_component_slot_binding_key_def Let_def label_fixed label_char_def split_once_cps or_else_def
      media_slot_of_def parse_content_format_binding_key_def parse_task_type_binding_key_def TASK_TYPES_def
      named_label)

lemma slot_key_canonical:
  assumes "parse_rule_component_slot_binding_key raw = Some k"
  shows "k \<in> set CANONICAL_SLOTS"
  using assms named_SomeD
  by (fastforce simp: parse_rule_component_slot_binding_key_def Let_def or_else_def CANONICAL_SLOTS_def
      media_slot_of_def parse_content_format_binding_key_def bind_eq_Some_conv
      split: if_splits option.splits prod.splits)

interpretation slot_keys: canonical_naming parse_rule_component_slot_binding_key
  using slot_key_canonical slots_fixed by unfold_locales (simp add: list_all_iff)

lemma parse_u64_fmt [simp]: "n \<le> u64_max \<Longrightarrow> parse_u64 (fmt_cps n) = Some n"
proof -
  have "\<not> prefix [43] (fmt_cps n)"
    using fmt_cps_digits [of n] by (auto simp: all_digits_def prefix_def is_digit_cp_def)
  then show "n \<le> u64_max \<Longrightarrow> parse_u64 (fmt_cps n) = Some n"
    by (simp add: parse_u64_def)
qed


interpretation numeric_keys: canonical_naming normalize_numeric_scope_key
proof unfold_locales
  fix raw k
  assume "normalize_numeric_scope_key raw = Some k"
  then obtain n where n: "parse_u64 (trim_by is_ws_cp raw) = Some n" "n \<noteq> 0" "k = fmt_cps n"
    by (auto simp: normalize_numeric_scope_key_def scope_id_def split: if_splits option.splits)
  from n(1) have "n \<le> u64_max" by (auto simp: parse_u64_def Let_def split: if_splits)
  moreover have "trim_by is_ws_cp (fmt_cps n) = fmt_cps n"
    using fmt_cps_digits [of n] by (intro trim_by_id) (auto simp: all_digits_def is_digit_cp_def is_ws_cp_def)
  ultimately show "normalize_numeric_scope_key k = Some k"
    using n by (simp add: normalize_numeric_scope_key_def scope_id_def)
qed

section \<open>Slot maps\<close>

text \<open>The best candidate for a slot so far.\<close>

definition better :: "utext \<Rightarrow> utext \<times> utext \<times> utext \<times> nat \<Rightarrow> (utext \<times> nat) option \<Rightarrow> (utext \<times> nat) option" where
  "better slot c b =
     (case c of (_, s, component_id, pref) \<Rightarrow>
        if s = slot \<and> (case b of Some (_, old) \<Rightarrow> pref < old | None \<Rightarrow> True) then Some (component_id, pref) else b)"

lemma map_of_keep_preferred: "map_of (fold keep_preferred cs acc) slot = fold (better slot) cs (map_of acc slot)"
proof (induction cs arbitrary: acc)
  case (Cons c cs)
  have "map_of (keep_preferred c acc) slot = better slot c (map_of acc slot)"
    by (auto simp: keep_preferred_def better_def update_conv' split: prod.splits option.splits)
  with Cons show ?case by simp
qed simp

lemma keep_preferred_distinct: "distinct (map fst acc) \<Longrightarrow> distinct (map fst (fold keep_preferred cs acc))"
  by (induction cs arbitrary: acc) (auto simp: keep_preferred_def distinct_update split: prod.splits option.splits)

lemma better_Some_iff:
  "fold (better slot) cs b = None \<longleftrightarrow> b = None \<and> slot \<notin> (\<lambda>(_, s, _, _). s) ` set cs"
  by (induction cs arbitrary: b) (auto simp: better_def split: prod.splits option.splits if_splits)


lemma better_tuple:
  "better slot (raw, s, component_id, pref) b =
    (if s = slot \<and> (case b of Some (_, old) \<Rightarrow> pref < old | None \<Rightarrow> True) then Some (component_id, pref) else b)"
  by (simp add: better_def)

text \<open>The kept candidate has the least preference and, among those, the least key.\<close>

lemma better_least:
  assumes "fold (better slot) cs None = Some (c, p)" "sorted (map fst cs)"
  shows "\<exists>raw. (raw, slot, c, p) \<in> set cs
    \<and> (\<forall>(raw', s', c', p') \<in> set cs. s' = slot \<longrightarrow> p < p' \<or> p = p' \<and> raw \<le> raw')"
  using assms
proof (induction cs arbitrary: c p rule: rev_induct)
  case (snoc x cs)
  obtain raw0 s0 c0 p0 where x: "x = (raw0, s0, c0, p0)" by (cases x)
  have le: "\<forall>(raw', _) \<in> set cs. raw' \<le> raw0" and s: "sorted (map fst cs)"
    using snoc.prems(2) by (auto simp: sorted_append x)
  show ?case
  proof (cases "fold (better slot) cs None")
    case None
    then have "slot \<notin> (\<lambda>(_, s, _, _). s) ` set cs" using better_Some_iff [of slot cs None] by simp
    moreover from None snoc.prems(1) have "s0 = slot" "c0 = c" "p0 = p"
      by (auto simp: x better_tuple split: if_splits)
    ultimately show ?thesis by (intro exI [of _ raw0]) (force simp: x)
  next
    case (Some b)
    obtain c1 p1 where b: "b = (c1, p1)" by (cases b)
    from snoc.IH [OF Some [unfolded b] s] obtain raw1
      where 1: "(raw1, slot, c1, p1) \<in> set cs"
        "\<forall>(raw', s', c', p') \<in> set cs. s' = slot \<longrightarrow> p1 < p' \<or> p1 = p' \<and> raw1 \<le> raw'" by blast
    from 1(1) le have "raw1 \<le> raw0" by auto
    show ?thesis
    proof (cases "s0 = slot \<and> p0 < p1")
      case True
      with Some snoc.prems(1) have "c0 = c" "p0 = p" by (auto simp: x b better_tuple)
      with True 1(2) show ?thesis by (intro exI [of _ raw0]) (force simp: x)
    next
      case False
      with Some snoc.prems(1) have "c1 = c" "p1 = p" by (auto simp: x b better_tuple)
      with False 1 \<open>raw1 \<le> raw0\<close> show ?thesis by (intro exI [of _ raw1]) (auto simp: x)
    qed
  qed
qed simp

definition candidates_of :: "slot_map \<Rightarrow> (utext \<times> utext \<times> utext \<times> nat) list" where
  "candidates_of slots = List.map_filter slot_candidate slots"

lemma set_map_filter: "set (List.map_filter f xs) = {y. \<exists>x \<in> set xs. f x = Some y}"
  by (force simp: map_filter_def)

lemma candidates_of_iff: "x \<in> set (candidates_of slots) \<longleftrightarrow> (\<exists>e \<in> set slots. slot_candidate e = Some x)"
  by (auto simp: candidates_of_def set_map_filter)

lemma slot_candidate_SomeD:
  "slot_candidate e = Some (raw, slot, c, p) \<Longrightarrow>
    raw = fst e \<and> parse_rule_component_slot_binding_key raw = Some slot
    \<and> c = trim_by is_ws_cp (snd e) \<and> c \<noteq> [] \<and> p = rule_slot_key_preference raw slot"
  by (auto simp: slot_candidate_def Let_def split: if_splits)

lemma map_of_normalized:
  "map_of (normalize_rule_slot_map slots) slot
    = map_option fst (fold (better slot) (sort_key fst (candidates_of slots)) None)"
proof -
  have "map_of (map (\<lambda>(s, c, _). (s, c)) xs) slot = map_option fst (map_of xs slot)"
    for xs :: "(utext \<times> utext \<times> nat) list"
    by (induction xs) auto
  then show ?thesis
    by (simp add: normalize_rule_slot_map_def candidates_of_def map_of_keep_preferred [where acc = "[]", simplified])
qed

lemma normalized_slot_is_preferred:
  assumes "map_of (normalize_rule_slot_map slots) slot = Some c"
  shows "\<exists>raw p. (raw, slot, c, p) \<in> set (candidates_of slots)
    \<and> (\<forall>(raw', s', c', p') \<in> set (candidates_of slots). s' = slot \<longrightarrow> p < p' \<or> p = p' \<and> raw \<le> raw')"
proof -
  from assms obtain p where "fold (better slot) (sort_key fst (candidates_of slots)) None = Some (c, p)"
    by (auto simp: map_of_normalized)
  from better_least [OF this] show ?thesis by auto
qed

lemma normalized_None_iff:
  "map_of (normalize_rule_slot_map slots) slot = None \<longleftrightarrow> slot \<notin> (\<lambda>(_, s, _, _). s) ` set (candidates_of slots)"
  by (simp add: map_of_normalized better_Some_iff)

text \<open>Canonical keys, trimmed ids that are not empty.\<close>

definition normal_slots :: "slot_map \<Rightarrow> bool" where
  "normal_slots s \<longleftrightarrow> distinct (map fst s)
     \<and> (\<forall>(k, c) \<in> set s. parse_rule_component_slot_binding_key k = Some k \<and> trim_by is_ws_cp k = k
          \<and> trim_by is_ws_cp c = c \<and> c \<noteq> [])"

lemma canonical_slot_trimmed: "k \<in> set CANONICAL_SLOTS \<Longrightarrow> trim_by is_ws_cp k = k"
  by (auto simp: CANONICAL_SLOTS_def MEDIA_TYPES_def CONTENT_FORMATS_def media_slot_cps label_fixed label_char_def)

lemma normalized_is_normal [simp]: "normal_slots (normalize_rule_slot_map slots)"
proof -
  have d: "distinct (map fst (normalize_rule_slot_map slots))"
    using keep_preferred_distinct [of "[]"] by (simp add: normalize_rule_slot_map_def comp_def case_prod_unfold)
  moreover have "parse_rule_component_slot_binding_key k = Some k \<and> trim_by is_ws_cp k = k
      \<and> trim_by is_ws_cp c = c \<and> c \<noteq> []"
    if "(k, c) \<in> set (normalize_rule_slot_map slots)" for k c
  proof -
    from that d have "map_of (normalize_rule_slot_map slots) k = Some c" by simp
    from normalized_slot_is_preferred [OF this] obtain raw p e
      where "slot_candidate e = Some (raw, k, c, p)" by (auto simp: candidates_of_iff)
    then have "parse_rule_component_slot_binding_key raw = Some k" "c = trim_by is_ws_cp (snd e)" "c \<noteq> []"
      by (auto dest: slot_candidate_SomeD)
    then show ?thesis
      by (auto simp: slot_keys.canon_again canonical_slot_trimmed [OF slot_key_canonical])
  qed
  ultimately show ?thesis by (auto simp: normal_slots_def)
qed

section \<open>The order of a map does not matter\<close>

text \<open>The same map, iterated in another order.\<close>

definition same_slots :: "slot_map \<Rightarrow> slot_map \<Rightarrow> bool" where
  "same_slots s s' \<longleftrightarrow> distinct (map fst s) \<and> distinct (map fst s') \<and> sort_key fst s = sort_key fst s'"

definition same_scopes :: "(utext \<times> slot_map) list \<Rightarrow> (utext \<times> slot_map) list \<Rightarrow> bool" where
  "same_scopes m m' \<longleftrightarrow> distinct (map fst m) \<and> distinct (map fst m')
     \<and> list_all2 (\<lambda>(k, s) (k', s'). k = k' \<and> same_slots s s') (sort_key fst m) (sort_key fst m')"

definition same_doc :: "rule_bindings_doc \<Rightarrow> rule_bindings_doc \<Rightarrow> bool" where
  "same_doc d d' \<longleftrightarrow>
     rb_version d = rb_version d'
     \<and> same_slots (rb_global_defaults d) (rb_global_defaults d')
     \<and> same_scopes (rb_relation_bindings d) (rb_relation_bindings d')
     \<and> same_scopes (rb_plugin_bindings d) (rb_plugin_bindings d')
     \<and> same_scopes (rb_rule_bindings d) (rb_rule_bindings d')
     \<and> rb_site_bindings d = rb_site_bindings d' \<and> rb_migration_issues d = rb_migration_issues d'"

lemma sort_key_determined:
  assumes "distinct (map fst xs)" "mset xs = mset ys"
  shows "sort_key fst xs = sort_key fst (ys :: ('k::linorder \<times> 'v) list)"
  by (rule sort_key_inj_key_eq [OF _ _ sorted_sort_key])
    (use assms in \<open>auto simp: distinct_map\<close>)

lemma mset_sort_key_eqD: "sort_key f xs = sort_key f ys \<Longrightarrow> mset xs = mset ys"
  by (metis mset_sort)

lemma same_slots_mset: "same_slots s s' \<Longrightarrow> mset s = mset s'"
  by (auto simp: same_slots_def dest: mset_sort_key_eqD)

lemma same_slots_map_of: "same_slots s s' \<Longrightarrow> map_of s = map_of s'"
  by (simp add: same_slots_def map_of_inject_set mset_eq_setD [OF same_slots_mset, of s s'])

lemma mset_map_filter: "mset (List.map_filter f xs) = image_mset (\<lambda>x. the (f x)) (filter_mset (\<lambda>x. f x \<noteq> None) (mset xs))"
  by (simp add: map_filter_def comp_def)

lemma candidates_distinct: "distinct (map fst s) \<Longrightarrow> distinct (map fst (candidates_of s))"
proof (induction s)
  case (Cons e s)
  then show ?case
    by (cases "slot_candidate e")
      (force simp: candidates_of_def map_filter_simps set_map_filter dest: slot_candidate_SomeD)+
qed (simp add: candidates_of_def map_filter_simps)

lemma normalize_same_slots:
  assumes "same_slots s s'"
  shows "normalize_rule_slot_map s = normalize_rule_slot_map s'"
proof -
  have "mset (candidates_of s) = mset (candidates_of s')"
    by (simp add: candidates_of_def mset_map_filter same_slots_mset [OF assms])
  with assms have "sort_key fst (candidates_of s) = sort_key fst (candidates_of s')"
    by (intro sort_key_determined candidates_distinct) (simp_all add: same_slots_def)
  then show ?thesis by (simp add: normalize_rule_slot_map_def candidates_of_def)
qed

lemma merge_same_scopes:
  "list_all2 (\<lambda>(k, s) (k', s'). k = k' \<and> same_slots s s') m m' \<Longrightarrow>
    fold (merge_scope canon) m acc = fold (merge_scope canon) m' acc"
proof (induction m m' arbitrary: acc rule: list_all2_induct)
  case (Cons x m y m')
  then have "merge_scope canon x acc = merge_scope canon y acc"
    using normalize_same_slots by (auto simp: merge_scope_def split: prod.splits option.splits)
  with Cons show ?case by simp
qed simp

lemma normalize_same_scopes: "same_scopes m m' \<Longrightarrow> normalize_scopes canon m = normalize_scopes canon m'"
  by (simp add: same_scopes_def normalize_scopes_def merge_same_scopes)

lemma normalize_same_doc:
  "same_doc d d' \<Longrightarrow> normalize_rule_component_bindings_doc lower d = normalize_rule_component_bindings_doc lower d'"
  by (simp add: same_doc_def normalize_rule_component_bindings_doc_def normalize_same_slots
      normalize_same_scopes [where m = "rb_relation_bindings d" and m' = "rb_relation_bindings d'"]
      normalize_same_scopes [where m = "rb_plugin_bindings d" and m' = "rb_plugin_bindings d'"]
      normalize_same_scopes [where m = "rb_rule_bindings d" and m' = "rb_rule_bindings d'"])

section \<open>Normal documents\<close>

lemma normal_slotsD:
  assumes "normal_slots s" "e \<in> set s"
  shows "parse_rule_component_slot_binding_key (fst e) = Some (fst e)" "trim_by is_ws_cp (fst e) = fst e"
    "trim_by is_ws_cp (snd e) = snd e" "snd e \<noteq> []"
  using assms by (auto simp: normal_slots_def case_prod_unfold)

lemma normal_candidates:
  assumes "normal_slots s"
  shows "candidates_of s = map (\<lambda>e. (fst e, fst e, snd e, 0)) s"
proof -
  have "slot_candidate e = Some (fst e, fst e, snd e, 0)" if "e \<in> set s" for e
    using normal_slotsD [OF assms that] by (simp add: slot_candidate_def rule_slot_key_preference_def)
  then show ?thesis
    by (induction s) (auto simp: candidates_of_def map_filter_simps)
qed

lemma keep_all:
  assumes "distinct (map fst s)" "set (map fst s) \<inter> set (map fst acc) = {}"
  shows "fold keep_preferred (map (\<lambda>e. (fst e, fst e, snd e, 0)) s) acc = acc @ map (\<lambda>e. (fst e, snd e, 0)) s"
  using assms
proof (induction s arbitrary: acc)
  case (Cons e s)
  from Cons.prems have new: "fst e \<notin> fst ` set acc" by auto
  then have "map_of acc (fst e) = None" by (simp add: map_of_eq_None_iff)
  moreover from new have "AList.update (fst e) v acc = acc @ [(fst e, v)]" for v by (induction acc) auto
  ultimately have "keep_preferred (fst e, fst e, snd e, 0) acc = acc @ [(fst e, snd e, 0)]"
    by (simp add: keep_preferred_def)
  with Cons show ?case by auto
qed simp

lemma normalize_normal:
  assumes "normal_slots s"
  shows "normalize_rule_slot_map s = sort_key fst s"
proof -
  let ?f = "\<lambda>e. (fst e, fst e, snd e, 0::nat)"
  have d: "distinct (map fst s)" using assms by (simp add: normal_slots_def)
  have "sort_key fst (map ?f s) = map ?f (sort_key fst s)"
    by (rule sort_key_inj_key_eq) (use d in \<open>auto simp: distinct_map inj_on_def comp_def\<close>)
  moreover have "fold keep_preferred (map ?f (sort_key fst s)) [] = map (\<lambda>e. (fst e, snd e, 0)) (sort_key fst s)"
    using keep_all [of "sort_key fst s" "[]"] d by (simp add: distinct_map)
  ultimately show ?thesis
    by (simp add: normalize_rule_slot_map_def normal_candidates [OF assms] flip: candidates_of_def)
      (simp add: comp_def)
qed

lemma normal_same: "same_slots s s' \<Longrightarrow> normal_slots s \<Longrightarrow> normal_slots s'"
  by (simp add: normal_slots_def same_slots_def mset_eq_setD [OF same_slots_mset, symmetric, of s s'])

lemma same_slots_sorted: "distinct (map fst s) \<Longrightarrow> same_slots s (sort_key fst s)"
  by (simp add: same_slots_def distinct_map sort_key_id_if_sorted)

text \<open>A scope table with canonical, distinct keys and normal, nonempty slot maps.\<close>

definition normal_scopes :: "(utext \<Rightarrow> utext option) \<Rightarrow> (utext \<times> slot_map) list \<Rightarrow> bool" where
  "normal_scopes canon m \<longleftrightarrow> distinct (map fst m)
     \<and> (\<forall>(k, s) \<in> set m. canon k = Some k \<and> normal_slots s \<and> s \<noteq> [])"

lemma or_default_simps [simp]: "or_default d None = d" "or_default d (Some x) = x"
  by (simp_all add: or_default_def)

lemma normal_slots_Nil [simp]: "normal_slots []"
  by (simp add: normal_slots_def)

lemma fold_or_insert_normal:
  assumes "normal_slots s" "\<forall>e \<in> set slots. parse_rule_component_slot_binding_key (fst e) = Some (fst e)
      \<and> trim_by is_ws_cp (fst e) = fst e \<and> trim_by is_ws_cp (snd e) = snd e \<and> snd e \<noteq> []"
  shows "normal_slots (fold (\<lambda>(slot, c). or_insert slot c) slots s)"
  using assms
proof (induction slots arbitrary: s)
  case (Cons e slots)
  obtain k c where e: "e = (k, c)" by (cases e)
  have "normal_slots (or_insert k c s)"
    using Cons.prems by (auto simp: e normal_slots_def or_insert_def map_of_eq_None_iff)
  with Cons show ?case by (simp add: e)
qed simp

lemma fold_or_insert_new:
  assumes "distinct (map fst slots)" "set (map fst slots) \<inter> set (map fst s) = {}"
  shows "fold (\<lambda>(slot, c). or_insert slot c) slots s = s @ slots"
  using assms
proof (induction slots arbitrary: s)
  case (Cons e slots)
  then have "or_insert (fst e) (snd e) s = s @ [e]" by (auto simp: or_insert_def map_of_eq_None_iff)
  with Cons show ?case by (auto simp: case_prod_unfold)
qed simp


lemma fold_or_insert_not_Nil: "s \<noteq> [] \<or> slots \<noteq> [] \<Longrightarrow> fold (\<lambda>(slot, c). or_insert slot c) slots s \<noteq> []"
proof (induction slots arbitrary: s)
  case (Cons e slots)
  have "or_insert k c s \<noteq> []" for k c by (auto simp: or_insert_def)
  with Cons show ?case by (auto simp: case_prod_unfold)
qed simp

context canonical_naming begin

lemma merge_scope_normal:
  assumes "normal_scopes canon acc"
  shows "normal_scopes canon (merge_scope canon e acc)"
proof (cases "canon (fst e) = None \<or> normalize_rule_slot_map (snd e) = []")
  case True
  with assms show ?thesis by (auto simp: merge_scope_def split: option.splits)
next
  case False
  then obtain k where k: "canon (fst e) = Some k" and ne: "normalize_rule_slot_map (snd e) \<noteq> []" by auto
  let ?s = "fold (\<lambda>(slot, c). or_insert slot c) (normalize_rule_slot_map (snd e)) (or_default [] (map_of acc k))"
  have old: "normal_slots (or_default [] (map_of acc k))"
    using assms by (cases "map_of acc k") (auto simp: normal_scopes_def dest!: map_of_SomeD)
  have "normal_slots ?s"
    by (rule fold_or_insert_normal [OF old]) (simp add: normal_slotsD [OF normalized_is_normal])
  moreover have "?s \<noteq> []" by (rule fold_or_insert_not_Nil) (simp add: ne)
  moreover have "merge_scope canon e acc = AList.update k ?s acc" using k ne by (simp add: merge_scope_def Let_def)
  moreover have "(k', s') \<in> set (AList.update k ?s acc) \<Longrightarrow> k' = k \<and> s' = ?s \<or> (k', s') \<in> set acc" for k' s'
    by (induction acc) (auto split: if_splits)
  ultimately show ?thesis
    using assms canon_again [OF k] by (fastforce simp: normal_scopes_def distinct_update)
qed

lemma normalized_scopes_normal: "normal_scopes canon (normalize_scopes canon m)"
proof -
  have "normal_scopes canon acc \<Longrightarrow> normal_scopes canon (fold (merge_scope canon) xs acc)" for xs acc
    by (induction xs arbitrary: acc) (auto simp: merge_scope_normal)
  then show ?thesis by (simp add: normalize_scopes_def normal_scopes_def [of _ "[]"])
qed

lemma merge_normal_scopes:
  assumes "normal_scopes canon m" "set (map fst m) \<inter> set (map fst acc) = {}"
  shows "fold (merge_scope canon) m acc = acc @ map (\<lambda>e. (fst e, sort_key fst (snd e))) m"
  using assms
proof (induction m arbitrary: acc)
  case (Cons e m)
  from Cons.prems(1) have e: "canon (fst e) = Some (fst e)" "normal_slots (snd e)" "snd e \<noteq> []"
    and m: "normal_scopes canon m" by (auto simp: normal_scopes_def)
  from Cons.prems(2) have new: "fst e \<notin> fst ` set acc" by auto
  then have u: "AList.update (fst e) v acc = acc @ [(fst e, v)]" for v by (induction acc) auto
  have "sort_key fst (snd e) \<noteq> []" using e(3) by (metis set_empty set_sort)
  moreover have "fold (\<lambda>(slot, c). or_insert slot c) (sort_key fst (snd e)) [] = sort_key fst (snd e)"
    using fold_or_insert_new [of "sort_key fst (snd e)" "[]"] e(2) by (simp add: normal_slots_def distinct_map)
  moreover have "map_of acc (fst e) = None" using new by (simp add: map_of_eq_None_iff)
  ultimately have "merge_scope canon e acc = acc @ [(fst e, sort_key fst (snd e))]"
    by (simp add: merge_scope_def e(1) normalize_normal [OF e(2)] u)
  moreover have "set (map fst m) \<inter> set (map fst (acc @ [(fst e, sort_key fst (snd e))])) = {}"
    using Cons.prems by (auto simp: normal_scopes_def)
  ultimately show ?case using Cons.IH [OF m] by simp
qed simp

lemma normalize_normal_scopes:
  assumes "normal_scopes canon m"
  shows "normalize_scopes canon m = map (\<lambda>e. (fst e, sort_key fst (snd e))) (sort_key fst m)"
proof -
  have "normal_scopes canon (sort_key fst m)" using assms by (simp add: normal_scopes_def distinct_map)
  from merge_normal_scopes [OF this, of "[]"] show ?thesis by (simp add: normalize_scopes_def)
qed

lemma same_normalized_scopes:
  assumes "normal_scopes canon m"
  shows "same_scopes m (normalize_scopes canon m)"
proof -
  have d: "distinct (map fst m)" using assms by (simp add: normal_scopes_def)
  let ?m = "map (\<lambda>e. (fst e, sort_key fst (snd e))) (sort_key fst m)"
  have s: "sort_key fst ?m = ?m"
    by (rule sort_key_id_if_sorted) (simp add: comp_def)
  have "list_all2 (\<lambda>(k, s) (k', s'). k = k' \<and> same_slots s s') xs (map (\<lambda>e. (fst e, sort_key fst (snd e))) xs)"
    if "\<forall>e \<in> set xs. normal_slots (snd e)" for xs :: "(utext \<times> slot_map) list"
    using that by (induction xs) (simp_all add: case_prod_unfold same_slots_sorted normal_slots_def)
  moreover have "\<forall>e \<in> set (sort_key fst m). normal_slots (snd e)"
    using assms by (auto simp: normal_scopes_def)
  ultimately show ?thesis
    using d by (simp add: same_scopes_def normalize_normal_scopes [OF assms] s distinct_map comp_def)
qed

end

section \<open>What a document resolves to\<close>

lemma or_else_simps [simp]: "or_else None b = b" "or_else (Some x) b = Some x" "or_else a None = a"
  by (auto simp: or_else_def split: option.splits)

lemma or_else_eq_None [simp]: "or_else a b = None \<longleftrightarrow> a = None \<and> b = None"
  by (auto simp: or_else_def split: option.splits)

lemma map_option_or_else: "map_option f (or_else a b) = or_else (map_option f a) (map_option f b)"
  by (auto simp: or_else_def split: option.splits)

lemma first_some_four: "first_some f [a, b, c, d] = or_else (f a) (or_else (f b) (or_else (f c) (f d)))"
  by (simp add: or_else_def split: option.splits)

lemma first_some_append: "first_some f (xs @ ys) = or_else (first_some f xs) (first_some f ys)"
  by (induction xs) (auto split: option.splits)

lemma first_some_map: "first_some f (map g xs) = first_some (f \<circ> g) xs"
  by (induction xs) (auto split: option.splits)

lemma first_some_cong: "(\<And>x. x \<in> set xs \<Longrightarrow> f x = g x) \<Longrightarrow> first_some f xs = first_some g xs"
  by (induction xs) (simp_all split: option.splits)

text \<open>On a normal slot map the scan over the raw keys finds nothing that the lookup has not found.\<close>

lemma nonblank_normal:
  assumes "normal_slots s"
  shows "Option.bind (map_of s slot) nonblank = map_of s slot"
proof (cases "map_of s slot")
  case (Some c)
  then have "(slot, c) \<in> set s" by (rule map_of_SomeD)
  with normal_slotsD(3,4) [OF assms this] Some show ?thesis by (simp add: nonblank_def)
qed simp

lemma resolve_normal:
  assumes "normal_slots s"
  shows "resolve_component_id_from_slot_map s task_type fmt
    = first_some (map_of s) (rule_binding_slot_candidates task_type fmt)"
proof -
  let ?cs = "rule_binding_slot_candidates task_type fmt"
  let ?scan = "first_some (\<lambda>(raw_key, component_id).
      (case parse_rule_component_slot_binding_key raw_key of
         None \<Rightarrow> None | Some slot \<Rightarrow> if slot \<in> set ?cs then nonblank component_id else None)) s"
  have "?scan = None" if none: "first_some (map_of s) ?cs = None"
  proof -
    have "fst e \<notin> set ?cs" if "e \<in> set s" for e
    proof
      assume "fst e \<in> set ?cs"
      with none have "map_of s (fst e) = None" by (simp add: first_some_NoneD)
      with that show False by (auto simp: map_of_eq_None_iff)
    qed
    then show ?thesis
      by (auto simp: first_some_NoneD normal_slotsD(1) [OF assms, where e = "(_, _)", simplified])
  qed
  then have "or_else (first_some (map_of s) ?cs) ?scan = first_some (map_of s) ?cs"
    by (cases "first_some (map_of s) ?cs") simp_all
  then show ?thesis
    by (auto simp: resolve_component_id_from_slot_map_def Let_def nonblank_normal [OF assms])
qed

text \<open>The slot maps that a request sees, the most specific first.\<close>

definition scopes_of ::
  "(utext \<Rightarrow> utext) \<Rightarrow> rule_bindings_doc \<Rightarrow> nat option \<Rightarrow> nat option \<Rightarrow> utext option \<Rightarrow> slot_map list" where
  "scopes_of lower doc rid relid plugin_slug =
     (let numeric = (\<lambda>m i. if rb_version doc < BINDINGS_DOC_VERSION_V2
            then or_default [] (Option.bind i (\<lambda>n. map_of m (fmt_cps n))) else []) in
      [numeric (rb_rule_bindings doc) rid,
       or_default [] (Option.bind plugin_slug (\<lambda>slug. map_of (rb_plugin_bindings doc) (lower (trim_by is_ws_cp slug)))),
       numeric (rb_relation_bindings doc) relid,
       rb_global_defaults doc])"

lemma merged_slots_normal:
  "(\<And>k s. (k, s) \<in> set acc \<Longrightarrow> normal_slots s) \<Longrightarrow> (k, s) \<in> set (fold (merge_scope canon) xs acc) \<Longrightarrow> normal_slots s"
proof (induction xs arbitrary: acc)
  case (Cons e xs)
  have "normal_slots s'" if "(k', s') \<in> set (merge_scope canon e acc)" for k' s'
  proof (cases "canon (fst e) = None \<or> normalize_rule_slot_map (snd e) = []")
    case True
    with that Cons.prems(1) show ?thesis by (auto simp: merge_scope_def split: option.splits)
  next
    case False
    then obtain c where c: "canon (fst e) = Some c" by auto
    let ?s = "fold (\<lambda>(slot, c). or_insert slot c) (normalize_rule_slot_map (snd e)) (or_default [] (map_of acc c))"
    have "normal_slots ?s"
      using Cons.prems(1) by (intro fold_or_insert_normal)
        (cases "map_of acc c"; auto simp: normal_slotsD [OF normalized_is_normal] dest!: map_of_SomeD)+
    moreover have "(k', s') \<in> set (AList.update c ?s acc) \<Longrightarrow> s' = ?s \<or> (k', s') \<in> set acc"
      by (induction acc) (auto split: if_splits)
    ultimately show ?thesis using that False Cons.prems(1) by (auto simp: merge_scope_def Let_def c)
  qed
  with Cons show ?case by auto
qed simp

lemma normalize_scopes_slots: "map_of (normalize_scopes canon m) k = Some s \<Longrightarrow> normal_slots s"
  unfolding normalize_scopes_def by (rule merged_slots_normal [where acc = "[]"]) (auto dest: map_of_SomeD)


text \<open>All slot maps that a request without a site can see.\<close>

definition all_normal :: "rule_bindings_doc \<Rightarrow> bool" where
  "all_normal doc \<longleftrightarrow> normal_slots (rb_global_defaults doc)
     \<and> (\<forall>s \<in> snd ` set (rb_relation_bindings doc @ rb_plugin_bindings doc @ rb_rule_bindings doc). normal_slots s)"

lemma normalize_all_normal: "all_normal (normalize_rule_component_bindings_doc lower d)"
proof -
  have "normal_slots s" if "(k, s) \<in> set (normalize_scopes canon m)" for canon m k s
    using that unfolding normalize_scopes_def by (rule merged_slots_normal [rotated]) simp
  then show ?thesis by (auto simp: all_normal_def normalize_rule_component_bindings_doc_def)
qed

lemma all_normalD:
  "all_normal doc \<Longrightarrow> map_of (rb_relation_bindings doc) k = Some s \<Longrightarrow> normal_slots s"
  "all_normal doc \<Longrightarrow> map_of (rb_plugin_bindings doc) k = Some s \<Longrightarrow> normal_slots s"
  "all_normal doc \<Longrightarrow> map_of (rb_rule_bindings doc) k = Some s \<Longrightarrow> normal_slots s"
  "all_normal doc \<Longrightarrow> normal_slots (rb_global_defaults doc)"
  by (force simp: all_normal_def dest!: map_of_SomeD)+

definition lookup_slots :: "utext \<Rightarrow> utext option \<Rightarrow> slot_map \<Rightarrow> utext option" where
  "lookup_slots task_type fmt slots = first_some (map_of slots) (rule_binding_slot_candidates task_type fmt)"

lemma lookup_Nil [simp]: "lookup_slots task_type fmt [] = None"
  by (simp add: lookup_slots_def first_some_NoneD)

lemma resolved_as_component:
  "normal_slots s \<Longrightarrow> map_option rs_component_id (resolved_as ctx outcome key s)
    = map_option Some (lookup_slots (cx_task_type ctx) (cx_content_format ctx) s)"
  by (simp add: resolved_as_def resolve_normal lookup_slots_def option.map_comp comp_def)

lemma bind_lookup:
  assumes "\<And>s. x = Some s \<Longrightarrow> normal_slots s"
  shows "map_option rs_component_id (Option.bind x (resolved_as ctx outcome key))
    = map_option Some (lookup_slots (cx_task_type ctx) (cx_content_format ctx) (or_default [] x))"
  using assms by (cases x) (simp_all add: resolved_as_component)

lemma resolve_all_normal:
  assumes "all_normal doc"
  shows "resolve_component_id_from_rule_bindings lower doc rid relid slug task_type fmt
    = first_some (lookup_slots task_type fmt) (scopes_of lower doc rid relid slug)"
proof -
  note n = all_normalD [OF assms]
  let ?ctx = "\<lparr>cx_site_key = None, cx_relation_semantic_key = None, cx_rule_semantic_key = None,
        cx_rule_id = rid, cx_relation_id = relid, cx_plugin_slug = slug,
        cx_task_type = task_type, cx_content_format = fmt,
        cx_allow_legacy_numeric = rb_version doc < BINDINGS_DOC_VERSION_V2\<rparr>"
  let ?num = "\<lambda>m i. if rb_version doc < BINDINGS_DOC_VERSION_V2
      then or_default [] (Option.bind i (\<lambda>n. map_of m (fmt_cps n))) else []"
  have rule: "map_option rs_component_id (rule_tier doc ?ctx)
      = map_option Some (lookup_slots task_type fmt (?num (rb_rule_bindings doc) rid))"
    using bind_lookup [of "Option.bind rid (\<lambda>n. map_of (rb_rule_bindings doc) (fmt_cps n))" ?ctx
        LegacyNumericFallback None] n(3)
    by (cases rid) (auto simp: rule_tier_def site_of_def)
  have relation: "map_option rs_component_id (relation_tier doc ?ctx)
      = map_option Some (lookup_slots task_type fmt (?num (rb_relation_bindings doc) relid))"
    using bind_lookup [of "Option.bind relid (\<lambda>n. map_of (rb_relation_bindings doc) (fmt_cps n))" ?ctx
        LegacyNumericFallback None] n(1)
    by (cases relid) (auto simp: relation_tier_def site_of_def)
  have plugin: "map_option rs_component_id (plugin_tier lower doc ?ctx)
      = map_option Some (lookup_slots task_type fmt
          (or_default [] (Option.bind slug (\<lambda>s. map_of (rb_plugin_bindings doc) (lower (trim_by is_ws_cp s))))))"
    using bind_lookup [of "Option.bind slug (\<lambda>s. map_of (rb_plugin_bindings doc) (lower (trim_by is_ws_cp s)))"
        ?ctx ResolvedPlugin None] n(2)
    by (cases slug) (auto simp: plugin_tier_def)
  have global: "map_option rs_component_id (global_tier doc ?ctx)
      = map_option Some (lookup_slots task_type fmt (rb_global_defaults doc))"
    by (simp add: global_tier_def resolved_as_component n(4))
  have or: "rs_component_id (or_default u x) = or_default (rs_component_id u) (map_option rs_component_id x)" for u x
    by (cases x) simp_all
  have id: "or_default None (map_option Some x) = x" for x :: "utext option"
    by (cases x) simp_all
  show ?thesis
    unfolding resolve_component_id_from_rule_bindings_def resolve_rule_bindings_with_context_def or map_option_or_else
      rule plugin relation global
    by (simp add: scopes_of_def first_some_four id del: first_some.simps flip: map_option_or_else)
qed


lemma same_scopes_map_of:
  assumes "same_scopes m m'"
  shows "rel_option same_slots (map_of m k) (map_of m' k)"
proof -
  have d: "distinct (map fst m)" "distinct (map fst m')"
    and l: "list_all2 (\<lambda>(k, s) (k', s'). k = k' \<and> same_slots s s') (sort_key fst m) (sort_key fst m')"
    using assms by (auto simp: same_scopes_def)
  have "rel_option same_slots (map_of (sort_key fst m) k) (map_of (sort_key fst m') k)"
    using l by (induction rule: list_all2_induct) auto
  moreover have "map_of (sort_key fst x) = map_of x" if "distinct (map fst x)" for x :: "(utext \<times> slot_map) list"
    using that by (simp add: map_of_inject_set distinct_map)
  ultimately show ?thesis by (simp add: d)
qed

lemma same_doc_all_normal:
  assumes "same_doc d d'" "all_normal d"
  shows "all_normal d'"
proof -
  have "normal_slots s'" if same: "same_scopes m m'" and "s' \<in> snd ` set m'" and n: "\<forall>s \<in> snd ` set m. normal_slots s"
    for m m' s'
  proof -
    from that(2) obtain k where "(k, s') \<in> set m'" by auto
    then have "map_of m' k = Some s'" using same by (simp add: same_scopes_def)
    with same_scopes_map_of [OF same, of k] obtain s where "map_of m k = Some s" and s: "same_slots s s'"
      by (auto simp: option_rel_Some2)
    then have "s \<in> snd ` set m" by (force dest: map_of_SomeD)
    with n have "normal_slots s" by blast
    with s show ?thesis by (rule normal_same)
  qed
  note n = this
  have d: "same_slots (rb_global_defaults d) (rb_global_defaults d')"
    "same_scopes (rb_relation_bindings d) (rb_relation_bindings d')"
    "same_scopes (rb_plugin_bindings d) (rb_plugin_bindings d')"
    "same_scopes (rb_rule_bindings d) (rb_rule_bindings d')"
    using assms(1) by (simp_all add: same_doc_def)
  from assms(2) show ?thesis
    using n [OF d(2)] n [OF d(3)] n [OF d(4)] normal_same [OF d(1)] by (simp add: all_normal_def ball_Un image_Un)
qed

lemma same_lookup: "rel_option same_slots x y \<Longrightarrow>
    lookup_slots task_type fmt (or_default [] x) = lookup_slots task_type fmt (or_default [] y)"
  by (auto simp: lookup_slots_def option_rel_Some1 dest: same_slots_map_of elim!: option.rel_cases)

lemma same_bind: "same_scopes m m' \<Longrightarrow>
    lookup_slots task_type fmt (or_default [] (Option.bind i (\<lambda>n. map_of m (f n))))
      = lookup_slots task_type fmt (or_default [] (Option.bind i (\<lambda>n. map_of m' (f n))))"
  by (cases i) (auto intro: same_lookup same_scopes_map_of)

lemma same_doc_scopes:
  assumes "same_doc d d'"
  shows "first_some (lookup_slots task_type fmt) (scopes_of lower d rid relid slug)
    = first_some (lookup_slots task_type fmt) (scopes_of lower d' rid relid slug)"
proof -
  have d: "rb_version d = rb_version d'" "same_slots (rb_global_defaults d) (rb_global_defaults d')"
    "same_scopes (rb_relation_bindings d) (rb_relation_bindings d')"
    "same_scopes (rb_plugin_bindings d) (rb_plugin_bindings d')"
    "same_scopes (rb_rule_bindings d) (rb_rule_bindings d')"
    using assms by (simp_all add: same_doc_def)
  have "lookup_slots task_type fmt (rb_global_defaults d) = lookup_slots task_type fmt (rb_global_defaults d')"
    by (simp add: lookup_slots_def same_slots_map_of [OF d(2)])
  then show ?thesis
    by (simp only: scopes_of_def Let_def d(1) first_some_four same_bind [OF d(3)] same_bind [OF d(4)]
        same_bind [OF d(5)] if_distrib [of "lookup_slots task_type fmt"])
qed

text \<open>
  C17: A normalized document resolves to the component that a table lookup gives, the scopes from the most
  specific (rule, plugin, relation, global), in each the slot of the media type before that of the format.
  The order in which the maps of the document, before and after normalization, happen to be iterated has no
  influence.
\<close>

theorem resolution_is_priority_table:
  assumes "same_doc d d'" "same_doc (normalize_rule_component_bindings_doc lower d') doc"
  shows "resolve_component_id_from_rule_bindings lower doc rid relid slug task_type fmt
    = first_some (\<lambda>slots. first_some (map_of slots) (rule_binding_slot_candidates task_type fmt))
        (scopes_of lower (normalize_rule_component_bindings_doc lower d) rid relid slug)"
proof -
  note resolve_all_normal [OF same_doc_all_normal [OF assms(2) normalize_all_normal]]
  also note same_doc_scopes [OF assms(2), symmetric]
  finally show ?thesis by (simp only: lookup_slots_def [abs_def] normalize_same_doc [OF assms(1)])
qed

definition sample_slots :: slot_map where
  "sample_slots = [(cps ''html'', cps ''a''), (cps ''rich_html'', cps ''b'')]"

definition sample_doc :: "slot_map \<Rightarrow> rule_bindings_doc" where
  "sample_doc slots = \<lparr>rb_version = 1, rb_global_defaults = slots, rb_relation_bindings = [],
     rb_plugin_bindings = [], rb_rule_bindings = [(cps ''7'', [(cps ''slug'', cps ''c'')])],
     rb_site_bindings = [], rb_migration_issues = []\<rparr>"

lemma same_slots_rev: "distinct (map fst s) \<Longrightarrow> same_slots s (rev s)"
  using sort_key_determined [of s "rev s"] by (simp add: same_slots_def flip: rev_map)

lemma same_slots_refl: "distinct (map fst s) \<Longrightarrow> same_slots s s"
  by (simp add: same_slots_def)

lemma sample_same: "same_doc (sample_doc sample_slots) (sample_doc (rev sample_slots))"
proof -
  have "same_slots sample_slots (rev sample_slots)"
    by (rule same_slots_rev) (simp add: sample_slots_def)
  then show ?thesis by (simp add: same_doc_def sample_doc_def same_scopes_def same_slots_refl)
qed

lemma same_scopes_refl: "distinct (map fst m) \<Longrightarrow> \<forall>s \<in> snd ` set m. distinct (map fst s) \<Longrightarrow> same_scopes m m"
  by (auto simp: same_scopes_def list_all2_same same_slots_refl)

lemma normalized_scopes_distinct: "distinct (map fst (normalize_scopes canon m))"
proof -
  have "distinct (map fst acc) \<Longrightarrow> distinct (map fst (fold (merge_scope canon) xs acc))" for xs acc
    by (induction xs arbitrary: acc) (auto simp: merge_scope_def Let_def distinct_update split: option.splits)
  then show ?thesis by (simp add: normalize_scopes_def)
qed

lemma same_doc_normalized:
  "same_doc (normalize_rule_component_bindings_doc lower d) (normalize_rule_component_bindings_doc lower d)"
proof -
  have "\<forall>s \<in> snd ` set (normalize_scopes canon m). distinct (map fst s)" for canon m
    using normalize_scopes_slots [of canon m] normalized_scopes_distinct [of canon m]
    by (fastforce simp: normal_slots_def)
  then show ?thesis
    using normalized_is_normal [of "rb_global_defaults d"]
    by (simp add: same_doc_def normalize_rule_component_bindings_doc_def same_scopes_refl
        normalized_scopes_distinct same_slots_refl normal_slots_def)
qed

lemma html_order: "cps ''html'' \<le> cps ''rich_html''" "\<not> cps ''rich_html'' \<le> cps ''html''"
  by (simp_all add: cps_def)

lemmas sample_slot_keys = parse_rule_component_slot_binding_key_def parse_content_format_binding_key_def
  CONTENT_FORMATS_def named_label label_fixed label_char_def split_once_cps

lemma sample_normalized:
  "normalize_rule_slot_map sample_slots = [(cps ''rich_html'', cps ''b'')]"
proof -
  have "slot_candidate (cps ''html'', cps ''a'') = Some (cps ''html'', cps ''rich_html'', cps ''a'', 2)"
    "slot_candidate (cps ''rich_html'', cps ''b'') = Some (cps ''rich_html'', cps ''rich_html'', cps ''b'', 0)"
    by (simp_all add: slot_candidate_def sample_slot_keys rule_slot_key_preference_def)
      (simp add: cps_def ascii_lower_cp_def)
  then show ?thesis
    by (simp add: normalize_rule_slot_map_def sample_slots_def map_filter_simps keep_preferred_def html_order)
qed

theorem resolution_is_priority_table_witness:
  "resolve_component_id_from_rule_bindings (map ascii_lower_cp)
     (normalize_rule_component_bindings_doc (map ascii_lower_cp) (sample_doc (rev sample_slots)))
     None None None (cps ''text'') (Some (cps ''html'')) = Some (cps ''b'')"
proof -
  have "rule_binding_slot_candidates (cps ''text'') (Some (cps ''html'')) = [cps ''rich_html'']"
    by (simp add: rule_binding_slot_candidates_def sample_slot_keys push_unique_def)
  then show ?thesis
    by (subst resolution_is_priority_table [OF sample_same same_doc_normalized])
      (simp add: scopes_of_def normalize_rule_component_bindings_doc_def sample_normalized sample_doc_def)
qed

text \<open>
  Normalization is idempotent: a normalized document stays the same document.
\<close>

theorem normalization_idempotent:
  assumes "\<And>s. lower (trim_by is_ws_cp (lower (trim_by is_ws_cp s))) = lower (trim_by is_ws_cp s)"
  shows "same_doc (normalize_rule_component_bindings_doc lower d)
    (normalize_rule_component_bindings_doc lower (normalize_rule_component_bindings_doc lower d))"
proof -
  have plugin: "canonical_naming (plugin_key lower)"
    by unfold_locales (auto simp: plugin_key_def Let_def assms split: if_splits)
  have "same_slots (normalize_rule_slot_map s) (normalize_rule_slot_map (normalize_rule_slot_map s))" for s
    using normalized_is_normal [of s] by (simp add: normalize_normal same_slots_sorted normal_slots_def)
  then show ?thesis
    by (simp add: same_doc_def normalize_rule_component_bindings_doc_def default_bindings_version_def
        numeric_keys.same_normalized_scopes numeric_keys.normalized_scopes_normal
        canonical_naming.same_normalized_scopes [OF plugin] canonical_naming.normalized_scopes_normal [OF plugin])
qed

lemma trim_ascii_lower:
  "trim_by is_ws_cp (map ascii_lower_cp s) = map ascii_lower_cp (trim_by is_ws_cp s)"
proof -
  have "is_ws_cp \<circ> ascii_lower_cp = is_ws_cp"
    by (auto simp: fun_eq_iff ascii_lower_cp_def is_ws_cp_def)
  then show ?thesis by (simp add: trim_by_def dropWhile_map rev_map)
qed

theorem normalization_idempotent_witness:
  "same_doc (normalize_rule_component_bindings_doc (map ascii_lower_cp) (sample_doc sample_slots))
    (normalize_rule_component_bindings_doc (map ascii_lower_cp)
      (normalize_rule_component_bindings_doc (map ascii_lower_cp) (sample_doc sample_slots)))"
  by (rule normalization_idempotent)
    (simp add: trim_ascii_lower, simp add: comp_def ascii_lower_cp_def)

text \<open>
  A document of the second version answers the engine's requests from its plugin and global slots only:
  its rule and relation bindings, numeric or semantic, are never consulted.
\<close>

theorem v2_bindings_of_rules_unused:
  assumes "BINDINGS_DOC_VERSION_V2 \<le> rb_version doc"
  shows "resolve_component_id_from_rule_bindings lower doc rid relid slug task_type fmt
    = resolve_component_id_from_rule_bindings lower
        (doc\<lparr>rb_relation_bindings := [], rb_rule_bindings := [], rb_site_bindings := []\<rparr>) None None slug task_type fmt"
  using assms
  by (simp add: resolve_component_id_from_rule_bindings_def resolve_rule_bindings_with_context_def rule_tier_def
      relation_tier_def plugin_tier_def global_tier_def site_of_def resolved_as_def [abs_def])

theorem v2_bindings_of_rules_unused_witness:
  "resolve_component_id_from_rule_bindings id ((sample_doc sample_slots)\<lparr>rb_version := 2\<rparr>) (Some 7) None None
      (cps ''text'') (Some (cps ''slug''))
    = resolve_component_id_from_rule_bindings id ((sample_doc sample_slots)\<lparr>rb_version := 2,
        rb_relation_bindings := [], rb_rule_bindings := [], rb_site_bindings := []\<rparr>) None None None
      (cps ''text'') (Some (cps ''slug''))"
  by (subst v2_bindings_of_rules_unused) (simp_all add: BINDINGS_DOC_VERSION_V2_def)

text \<open>
  A pack that was imported cannot bind by the numeric ids of another site: after the import strip no rule
  or relation id decides which component is chosen.
\<close>

theorem imported_pack_has_no_numeric_binding:
  assumes "0 < rid" "rid \<le> u64_max" "0 < relid" "relid \<le> u64_max"
  shows "resolve_component_id_from_rule_bindings lower (fst (strip_numeric_maps_on_import doc)) (Some rid) (Some relid)
      slug task_type fmt
    = resolve_component_id_from_rule_bindings lower (fst (strip_numeric_maps_on_import doc)) None None slug task_type fmt
    \<and> \<not> pack_has_cross_site_numeric_risk (fst (strip_numeric_maps_on_import doc))"
proof -
  have digits: "trim_by is_ws_cp (fmt_cps n) = fmt_cps n" "58 \<notin> set (fmt_cps n)" for n
    using fmt_cps_digits [of n]
    by (auto intro!: trim_by_id simp: all_digits_def is_digit_cp_def is_ws_cp_def)
  have gone: "map_of (remove_keys (numeric_scope_keys m) m) (fmt_cps n) = None" if "0 < n" "n \<le> u64_max" for m and n
  proof -
    have "fmt_cps n \<in> fst ` set m \<Longrightarrow> fmt_cps n \<in> set (numeric_scope_keys m)"
      using that by (auto simp: numeric_scope_keys_def digits scope_id_def)
    then show ?thesis by (force simp: map_of_eq_None_iff remove_keys_def)
  qed
  have none: "numeric_scope_keys (remove_keys (numeric_scope_keys m) m) = []" for m
    by (auto simp: numeric_scope_keys_def remove_keys_def filter_empty_conv sort_key_const simp flip: set_empty)
  show ?thesis
    by (simp add: strip_numeric_maps_on_import_def Let_def resolve_component_id_from_rule_bindings_def
        resolve_rule_bindings_with_context_def rule_tier_def relation_tier_def plugin_tier_def global_tier_def
        site_of_def resolved_as_def [abs_def] gone [OF assms(1,2)] gone [OF assms(3,4)]
        pack_has_cross_site_numeric_risk_def none)
qed

theorem imported_pack_has_no_numeric_binding_witness:
  "resolve_component_id_from_rule_bindings id (fst (strip_numeric_maps_on_import (sample_doc sample_slots))) (Some 7)
      (Some 3) None (cps ''text'') (Some (cps ''slug''))
    = resolve_component_id_from_rule_bindings id (fst (strip_numeric_maps_on_import (sample_doc sample_slots))) None
      None None (cps ''text'') (Some (cps ''slug''))"
  by (rule imported_pack_has_no_numeric_binding [THEN conjunct1]) (simp_all add: u64_max_def)

section \<open>Migration\<close>

text \<open>What has been settled so far: bindings that moved and bindings that were reported.\<close>

definition settled :: "rule_bindings_doc \<times> nat \<Rightarrow> nat" where
  "settled acc = snd acc + length (rb_migration_issues (fst acc))"

definition numeric_free :: "rule_bindings_doc \<Rightarrow> bool" where
  "numeric_free doc \<longleftrightarrow> BINDINGS_DOC_VERSION_V2 \<le> rb_version doc
     \<and> rb_relation_bindings doc = [] \<and> rb_rule_bindings doc = []"

lemma update_site_keeps [simp]:
  "rb_migration_issues (update_site env site f doc) = rb_migration_issues doc"
  "numeric_free (update_site env site f doc) = numeric_free doc"
  by (simp_all add: update_site_def numeric_free_def split: prod.splits)

lemma push_issue_keeps [simp]:
  "length (rb_migration_issues (push_issue code scope key detail doc)) = Suc (length (rb_migration_issues doc))"
  "numeric_free (push_issue code scope key detail doc) = numeric_free doc"
  by (simp_all add: push_issue_def numeric_free_def)

lemma migrate_step_settles:
  "settled (migrate_relation env index e acc) = Suc (settled acc)"
  "settled (migrate_rule env index e acc) = Suc (settled acc)"
  by (cases acc; auto simp: migrate_relation_def migrate_rule_def settled_def Let_def
        split: option.splits sum.splits prod.splits)+

lemma migrate_step_numeric_free:
  "numeric_free (fst (migrate_relation env index e acc)) = numeric_free (fst acc)"
  "numeric_free (fst (migrate_rule env index e acc)) = numeric_free (fst acc)"
  by (cases acc; auto simp: migrate_relation_def migrate_rule_def Let_def
        split: option.splits sum.splits prod.splits)+

lemma migrate_all_settles:
  "settled (fold (migrate_relation env index) es acc) = length es + settled acc"
  "settled (fold (migrate_rule env index) es acc) = length es + settled acc"
  by (induction es arbitrary: acc) (simp_all add: migrate_step_settles)

lemma migrate_all_numeric_free:
  "numeric_free (fst (fold (migrate_relation env index) es acc)) = numeric_free (fst acc)"
  "numeric_free (fst (fold (migrate_rule env index) es acc)) = numeric_free (fst acc)"
  by (induction es arbitrary: acc) (simp_all add: migrate_step_numeric_free)

text \<open>
  The migration loses no binding silently. Each numeric relation or rule binding of the document either
  moves to a site or is reported as an issue, and the result has no numeric scope left.
\<close>

theorem migration_accounts_for_every_binding:
  "let (out, report) = migrate_rule_bindings_v1_to_v2 env doc index in
     mr_relations report + mr_rules report + length (rb_migration_issues out)
       = length (rb_relation_bindings doc) + length (rb_rule_bindings doc) + length (rb_migration_issues doc)
     \<and> mr_issue_count report = length (rb_migration_issues out)
     \<and> BINDINGS_DOC_VERSION_V2 \<le> rb_version out \<and> \<not> pack_has_cross_site_numeric_risk out"
proof (cases "BINDINGS_DOC_VERSION_V2 \<le> rb_version doc \<and> rb_relation_bindings doc = [] \<and> rb_rule_bindings doc = []")
  case True
  then show ?thesis
    by (simp add: migrate_rule_bindings_v1_to_v2_def pack_has_cross_site_numeric_risk_def numeric_scope_keys_def)
next
  case False
  let ?start = "(normalize_rule_component_bindings_doc (k_lower env) doc)
      \<lparr>rb_version := BINDINGS_DOC_VERSION_V2, rb_relation_bindings := [], rb_rule_bindings := []\<rparr>"
  obtain out1 n1 where 1: "fold (migrate_relation env index) (rb_relation_bindings doc) (?start, 0) = (out1, n1)"
    by (cases "fold (migrate_relation env index) (rb_relation_bindings doc) (?start, 0)")
  obtain out n2 where 2: "fold (migrate_rule env index) (rb_rule_bindings doc) (out1, 0) = (out, n2)"
    by (cases "fold (migrate_rule env index) (rb_rule_bindings doc) (out1, 0)")
  have "n1 + length (rb_migration_issues out1) = length (rb_relation_bindings doc) + length (rb_migration_issues doc)"
    using migrate_all_settles(1) [of env index "rb_relation_bindings doc" "(?start, 0)"]
    by (simp add: 1) (simp add: settled_def normalize_rule_component_bindings_doc_def)
  moreover have "n2 + length (rb_migration_issues out) = length (rb_rule_bindings doc) + length (rb_migration_issues out1)"
    using migrate_all_settles(2) [of env index "rb_rule_bindings doc" "(out1, 0)"] by (simp add: 2 settled_def)
  moreover have "numeric_free out"
    using migrate_all_numeric_free(1) [of env index "rb_relation_bindings doc" "(?start, 0)"]
      migrate_all_numeric_free(2) [of env index "rb_rule_bindings doc" "(out1, 0)"]
    by (simp add: 1 2) (simp add: numeric_free_def)
  ultimately show ?thesis
    using False
    by (auto simp: migrate_rule_bindings_v1_to_v2_def 1 2 Let_def pack_has_cross_site_numeric_risk_def
        numeric_free_def numeric_scope_keys_def)
qed

end
