(* ===== verification/Selector.thy ===== *)
theory Selector
  imports Bindings
begin

text \<open>
  The choice of a component, \<open>component_rt/selector.rs\<close>: what a component runtime supports, the tiers that
  name a component explicitly, and the anonymous fallback among the components that no other relation has
  claimed. A runtime holds here what the choice reads of it. The registry is a list of pairs with distinct
  ids and the order of the ids; Unicode lower-casing is an argument.
\<close>

section \<open>Runtimes\<close>

record artifact_constraints =
  ac_input_artifact_kind :: "utext option"
  ac_output_artifact_kinds :: "utext list option"

record component_runtime =
  rt_id :: utext
  rt_kind :: utext
  rt_constraints :: "artifact_constraints option"
  rt_business_lines :: "utext list"
  rt_content_formats :: "utext list"
  rt_formats :: "utext list"

record component_registry =
  reg_runtimes :: "(utext \<times> component_runtime) list"
  reg_ordered_ids :: "utext list"

record task_type_bindings =
  tt_task_types :: slot_map
  tt_business_line_task_types :: slot_map

section \<open>Names\<close>

definition TASK_CONTENT_TYPES :: name_table where
  "TASK_CONTENT_TYPES =
     [(cps ''text'', [cps ''text'', cps ''text_translation'', cps ''field'', cps ''fields'']),
      (cps ''image'', [cps ''image'', cps ''images'', cps ''image_translation'']),
      (cps ''video'', [cps ''video'', cps ''videos'', cps ''video_translation'']),
      (cps ''audio'', [cps ''audio'', cps ''audios'', cps ''audio_translation'']),
      (cps ''document'', [cps ''document'', cps ''documents'', cps ''doc'', cps ''file'', cps ''files'',
         cps ''document_translation'']),
      (cps ''mixed'', [cps ''mixed'', cps ''mixed_translation'', cps ''multimodal'', cps ''multimodal_translation''])]"

definition normalize_task_content_type :: "utext \<Rightarrow> utext" where
  "normalize_task_content_type raw = or_default (cps ''text'') (named TASK_CONTENT_TYPES raw)"

definition RUNTIME_KINDS :: name_table where
  "RUNTIME_KINDS =
     [(cps ''text'', [cps ''text'', cps ''text_translation'', cps ''field'', cps ''fields'']),
      (cps ''image'', [cps ''image'', cps ''images'', cps ''image_translation'']),
      (cps ''video'', [cps ''video'', cps ''videos'', cps ''video_translation'']),
      (cps ''audio'', [cps ''audio'', cps ''audios'', cps ''audio_translation'']),
      (cps ''document'', [cps ''document'', cps ''documents'', cps ''doc'', cps ''file'', cps ''files'',
         cps ''document_translation'']),
      (cps ''openai_compatible'', [cps ''openai_compatible'', cps ''openai-compatible'', cps ''openai'', cps ''llm''])]"

definition normalize_component_runtime_kind :: "utext \<Rightarrow> utext option" where
  "normalize_component_runtime_kind = named RUNTIME_KINDS"

definition normalize_business_line :: "utext \<Rightarrow> utext" where
  "normalize_business_line raw = or_default (cps ''custom_model'') (named BUSINESS_LINES raw)"

section \<open>What a runtime supports\<close>

definition runtime_supports_business_line :: "component_runtime \<Rightarrow> utext \<Rightarrow> bool" where
  "runtime_supports_business_line rt business_line \<longleftrightarrow>
     (let line = or_default [] (parse_business_line_key business_line) in
      line = [] \<or> rt_business_lines rt = [] \<or> line \<in> set (rt_business_lines rt))"

definition runtime_supports_task_type :: "component_runtime \<Rightarrow> utext \<Rightarrow> bool" where
  "runtime_supports_task_type rt task_type \<longleftrightarrow>
     (let requested = normalize_task_content_type task_type in
      case normalize_component_runtime_kind (rt_kind rt) of
        None \<Rightarrow> False
      | Some kind \<Rightarrow> requested \<noteq> cps ''mixed'' \<and> kind = requested)"

definition runtime_supports_route :: "component_runtime \<Rightarrow> utext \<Rightarrow> utext \<Rightarrow> bool" where
  "runtime_supports_route rt business_line task_type \<longleftrightarrow>
     runtime_supports_business_line rt business_line \<and> runtime_supports_task_type rt task_type"

definition runtime_supports_content_format :: "component_runtime \<Rightarrow> utext \<Rightarrow> bool" where
  "runtime_supports_content_format rt content_format \<longleftrightarrow>
     rt_content_formats rt = [] \<or> content_format \<in> set (rt_content_formats rt)"

definition trim_start_dots :: "utext \<Rightarrow> utext" where
  "trim_start_dots s = dropWhile (\<lambda>c. c = 46) s"

definition runtime_supports_file_format :: "(utext \<Rightarrow> utext) \<Rightarrow> component_runtime \<Rightarrow> utext \<Rightarrow> bool" where
  "runtime_supports_file_format lower rt file_ext \<longleftrightarrow>
     rt_formats rt = [] \<or> lower (trim_start_dots file_ext) \<in> lower ` set (rt_formats rt)"

section \<open>Artifacts\<close>

record artifact_hints =
  ah_input :: "utext option"
  ah_output :: "utext option"

definition eq_ignore_ascii_case :: "utext \<Rightarrow> utext \<Rightarrow> bool" where
  "eq_ignore_ascii_case a b \<longleftrightarrow> map ascii_lower_cp a = map ascii_lower_cp b"

definition ARTIFACT_ALIASES :: "(utext \<times> utext) list" where
  "ARTIFACT_ALIASES =
     [(cps ''dubbed_video_file'', cps ''translated_video_file''),
      (cps ''dubbed_audio_file'', cps ''translated_audio_file'')]"

definition artifact_kinds_compatible :: "utext \<Rightarrow> utext \<Rightarrow> bool" where
  "artifact_kinds_compatible declared expected \<longleftrightarrow>
     eq_ignore_ascii_case declared expected
     \<or> list_ex (\<lambda>(left, right).
          eq_ignore_ascii_case declared left \<and> eq_ignore_ascii_case expected right
          \<or> eq_ignore_ascii_case declared right \<and> eq_ignore_ascii_case expected left) ARTIFACT_ALIASES"

text \<open>The score of one hint: \<open>None\<close> is the early return of zero.\<close>

definition input_score :: "component_runtime \<Rightarrow> utext option \<Rightarrow> nat option" where
  "input_score rt hint =
     (case hint of
        None \<Rightarrow> Some 0
      | Some expected \<Rightarrow>
          (case Option.bind (Option.bind (rt_constraints rt) ac_input_artifact_kind) nonblank of
             Some actual \<Rightarrow> if artifact_kinds_compatible actual expected then Some 2 else None
           | None \<Rightarrow> Some 1))"

definition output_score :: "component_runtime \<Rightarrow> utext option \<Rightarrow> nat option" where
  "output_score rt hint =
     (case hint of
        None \<Rightarrow> Some 0
      | Some expected \<Rightarrow>
          (let declared = List.map_filter nonblank
                 (or_default [] (Option.bind (rt_constraints rt) ac_output_artifact_kinds)) in
           if declared = [] then Some 1
           else if list_ex (\<lambda>v. artifact_kinds_compatible v expected) declared then Some 2
           else None))"

definition runtime_artifact_match_score :: "component_runtime \<Rightarrow> artifact_hints \<Rightarrow> nat" where
  "runtime_artifact_match_score rt hints =
     (case input_score rt (ah_input hints) of
        None \<Rightarrow> 0
      | Some i \<Rightarrow> (case output_score rt (ah_output hints) of None \<Rightarrow> 0 | Some o' \<Rightarrow> 1 + i + o'))"

definition task_payload_string_hint :: "utext json \<Rightarrow> utext list \<Rightarrow> utext option" where
  "task_payload_string_hint payload keys =
     first_some (\<lambda>key. Option.bind (Option.bind (jget key payload) as_str) nonblank) keys"

definition extract_artifact_selection_hints :: "utext json \<Rightarrow> artifact_hints" where
  "extract_artifact_selection_hints payload =
     \<lparr>ah_input = task_payload_string_hint payload [cps ''__input_artifact_kind'', cps ''input_artifact_kind''],
      ah_output = task_payload_string_hint payload
        [cps ''__expected_output_artifact_kind'', cps ''expected_output_artifact_kind'', cps ''output_artifact_kind'']\<rparr>"

definition file_ext_hint :: "utext json \<Rightarrow> utext option" where
  "file_ext_hint payload =
     Option.bind (Option.bind (or_else (jget (cps ''__file_ext'') payload) (jget (cps ''file_ext'') payload)) as_str)
       nonblank"

definition runtime_supports_route_and_artifacts ::
  "component_runtime \<Rightarrow> utext \<Rightarrow> utext \<Rightarrow> artifact_hints \<Rightarrow> bool" where
  "runtime_supports_route_and_artifacts rt business_line task_type hints \<longleftrightarrow>
     runtime_supports_route rt business_line task_type \<and> 0 < runtime_artifact_match_score rt hints"

definition runtime_supports_route_and_format ::
  "component_runtime \<Rightarrow> utext \<Rightarrow> utext \<Rightarrow> utext \<Rightarrow> artifact_hints \<Rightarrow> bool" where
  "runtime_supports_route_and_format rt business_line task_type content_format hints \<longleftrightarrow>
     runtime_supports_route rt business_line task_type
     \<and> runtime_supports_content_format rt content_format \<and> 0 < runtime_artifact_match_score rt hints"

definition runtime_supports_route_format_and_file ::
  "(utext \<Rightarrow> utext) \<Rightarrow> component_runtime \<Rightarrow> utext \<Rightarrow> utext \<Rightarrow> utext \<Rightarrow> utext option \<Rightarrow> artifact_hints \<Rightarrow> bool" where
  "runtime_supports_route_format_and_file lower rt business_line task_type content_format ext hints \<longleftrightarrow>
     (if \<not> runtime_supports_route_and_format rt business_line task_type content_format hints then False
      else case ext of Some e \<Rightarrow> runtime_supports_file_format lower rt e | None \<Rightarrow> True)"

definition runtime_supports_explicit_binding ::
  "(utext \<Rightarrow> utext) \<Rightarrow> component_runtime \<Rightarrow> utext \<Rightarrow> utext \<Rightarrow> utext \<Rightarrow> utext option \<Rightarrow> bool" where
  "runtime_supports_explicit_binding lower rt business_line task_type content_format ext \<longleftrightarrow>
     (if \<not> runtime_supports_route rt business_line task_type then False
      else if \<not> runtime_supports_content_format rt content_format then False
      else case ext of Some e \<Rightarrow> runtime_supports_file_format lower rt e | None \<Rightarrow> True)"

text \<open>The first candidate with the highest score.\<close>

fun select_best_runtime_by_artifacts ::
  "artifact_hints \<Rightarrow> component_runtime list \<Rightarrow> component_runtime option \<Rightarrow> nat \<Rightarrow> component_runtime option" where
  "select_best_runtime_by_artifacts hints [] best best_score = best"
| "select_best_runtime_by_artifacts hints (rt # rts) best best_score =
     (let score = runtime_artifact_match_score rt hints in
      if score = 0 then select_best_runtime_by_artifacts hints rts best best_score
      else if best = None \<or> best_score < score then select_best_runtime_by_artifacts hints rts (Some rt) score
      else select_best_runtime_by_artifacts hints rts best best_score)"

section \<open>Ids from the payload and the bindings\<close>

definition resolve_component_id_from_task_type_bindings ::
  "task_type_bindings option \<Rightarrow> utext \<Rightarrow> utext \<Rightarrow> utext option" where
  "resolve_component_id_from_task_type_bindings doc business_line task_type =
     Option.bind doc (\<lambda>d. Option.bind (parse_task_type_binding_key task_type) (\<lambda>ty.
       or_else
         (Option.bind (parse_business_line_key business_line) (\<lambda>line.
            Option.bind (map_of (tt_business_line_task_types d) (line @ [58] @ ty)) nonblank))
         (Option.bind (map_of (tt_task_types d) ty) nonblank)))"

text \<open>An id that is not blank, as it stands.\<close>

definition filled :: "utext \<Rightarrow> utext option" where
  "filled s = (if trim_by is_ws_cp s = [] then None else Some s)"

definition filled_member :: "(utext \<times> utext json) list \<Rightarrow> utext \<Rightarrow> utext option" where
  "filled_member obj key = Option.bind (Option.bind (map_of obj key) as_str) filled"

definition COMPONENT_MAPS :: "utext list" where
  "COMPONENT_MAPS = [cps ''component_hints'', cps ''component_by_type'', cps ''component_map'',
     cps ''component_ids'', cps ''components'']"

definition candidate_keys :: "utext \<Rightarrow> utext \<Rightarrow> utext \<Rightarrow> utext list" where
  "candidate_keys line ty raw_type =
     (if line = [] then [ty, raw_type]
      else [line @ [58] @ ty, line @ [58] @ raw_type, line, ty, raw_type])"

definition resolve_component_id_for_task_type :: "utext json \<Rightarrow> utext \<Rightarrow> utext \<Rightarrow> utext option" where
  "resolve_component_id_for_task_type payload business_line task_type =
     Option.bind (as_object payload) (\<lambda>obj.
       let ty = normalize_task_content_type task_type;
           line = or_default [] (parse_business_line_key business_line) in
       or_else (filled_member obj (ty @ cps ''_component_id''))
      (or_else (if line = [] then None else filled_member obj (line @ [95] @ ty @ cps ''_component_id''))
        (first_some (\<lambda>map_key.
           Option.bind (Option.bind (map_of obj map_key) as_object) (\<lambda>m.
             first_some (filled_member m) (candidate_keys line ty task_type))) COMPONENT_MAPS)))"

section \<open>Selection\<close>

definition usable :: "component_registry \<Rightarrow> (component_runtime \<Rightarrow> bool) \<Rightarrow> utext \<Rightarrow> component_runtime option" where
  "usable reg ok cid =
     (case map_of (reg_runtimes reg) cid of Some rt \<Rightarrow> (if ok rt then Some rt else None) | None \<Rightarrow> None)"

record selection_request =
  sq_payload :: "utext json"
  sq_business_line :: utext
  sq_override :: utext
  sq_prefer_ids :: "utext list"
  sq_task_bindings :: "task_type_bindings option"
  sq_claimed :: "utext set option"

text \<open>The ids that are named, in the order in which they are tried.\<close>

definition explicit_ids :: "selection_request \<Rightarrow> utext \<Rightarrow> utext list" where
  "explicit_ids q task_type =
     (if trim_by is_ws_cp (sq_override q) = [] then [] else [sq_override q])
     @ (case resolve_component_id_for_task_type (sq_payload q) (sq_business_line q) task_type of
          Some cid \<Rightarrow> [trim_by is_ws_cp cid] | None \<Rightarrow> [])
     @ (case resolve_component_id_from_task_type_bindings (sq_task_bindings q) (sq_business_line q) task_type of
          Some cid \<Rightarrow> [cid] | None \<Rightarrow> [])
     @ (case Option.bind (jget (cps ''component_id'') (sq_payload q)) as_str of Some cid \<Rightarrow> [cid] | None \<Rightarrow> [])
     @ sq_prefer_ids q"

definition ordered_runtimes :: "component_registry \<Rightarrow> component_runtime list" where
  "ordered_runtimes reg = List.map_filter (map_of (reg_runtimes reg)) (reg_ordered_ids reg)"

definition unclaimed :: "component_registry \<Rightarrow> selection_request \<Rightarrow> component_runtime list" where
  "unclaimed reg q =
     filter (\<lambda>rt. case sq_claimed q of Some claimed \<Rightarrow> rt_id rt \<notin> claimed | None \<Rightarrow> True)
       (ordered_runtimes reg)"

definition select_component_runtime_for_task_type ::
  "component_registry option \<Rightarrow> selection_request \<Rightarrow> utext \<Rightarrow> component_runtime option" where
  "select_component_runtime_for_task_type registry q task_type =
     Option.bind registry (\<lambda>reg.
       let hints = extract_artifact_selection_hints (sq_payload q) in
       or_else
         (first_some (usable reg (\<lambda>rt. runtime_supports_route_and_artifacts rt (sq_business_line q) task_type hints))
            (explicit_ids q task_type))
         (select_best_runtime_by_artifacts hints
            (filter (\<lambda>rt. runtime_supports_route rt (sq_business_line q) task_type) (unclaimed reg q)) None 0))"

definition select_component_runtime_for_task_type_and_format ::
  "(utext \<Rightarrow> utext) \<Rightarrow> component_registry option \<Rightarrow> selection_request \<Rightarrow> utext \<Rightarrow> utext \<Rightarrow> component_runtime option" where
  "select_component_runtime_for_task_type_and_format lower registry q task_type content_format =
     Option.bind registry (\<lambda>reg.
       let ext = file_ext_hint (sq_payload q);
           hints = extract_artifact_selection_hints (sq_payload q);
           ok = (\<lambda>rt. runtime_supports_route_format_and_file lower rt (sq_business_line q) task_type content_format ext hints) in
       or_else (first_some (usable reg ok) (explicit_ids q task_type))
         (select_best_runtime_by_artifacts hints (filter ok (unclaimed reg q)) None 0))"

record binding_request =
  br_doc :: "rule_bindings_doc option"
  br_rule_id :: "nat option"
  br_relation_id :: "nat option"
  br_plugin_slug :: "utext option"

definition bound_id ::
  "(utext \<Rightarrow> utext) \<Rightarrow> binding_request \<Rightarrow> utext \<Rightarrow> utext option \<Rightarrow> utext option" where
  "bound_id lower b task_type content_format =
     Option.bind (br_doc b) (\<lambda>doc. resolve_component_id_from_rule_bindings lower doc (br_rule_id b) (br_relation_id b)
       (br_plugin_slug b) task_type content_format)"

definition select_component_with_rule_bindings ::
  "(utext \<Rightarrow> utext) \<Rightarrow> component_registry option \<Rightarrow> binding_request \<Rightarrow> selection_request \<Rightarrow> utext \<Rightarrow> component_runtime option" where
  "select_component_with_rule_bindings lower registry b q task_type =
     Option.bind registry (\<lambda>reg.
       or_else
         (Option.bind (bound_id lower b task_type None)
            (usable reg (\<lambda>rt. runtime_supports_route rt (sq_business_line q) task_type)))
         (select_component_runtime_for_task_type (Some reg) (q\<lparr>sq_claimed := None\<rparr>) task_type))"

definition select_component_with_format_awareness ::
  "(utext \<Rightarrow> utext) \<Rightarrow> component_registry option \<Rightarrow> binding_request \<Rightarrow> selection_request \<Rightarrow> utext \<Rightarrow> utext
    \<Rightarrow> component_runtime option" where
  "select_component_with_format_awareness lower registry b q task_type content_format =
     Option.bind registry (\<lambda>reg.
       let ext = file_ext_hint (sq_payload q) in
       or_else
         (Option.bind (bound_id lower b task_type (Some content_format))
            (usable reg (\<lambda>rt. runtime_supports_explicit_binding lower rt (sq_business_line q) task_type content_format ext)))
         (select_component_runtime_for_task_type_and_format lower (Some reg) q task_type content_format))"

section \<open>Required task types\<close>

definition task_type_rank :: "utext \<Rightarrow> nat" where
  "task_type_rank ty =
     (if ty = cps ''text'' then 0 else if ty = cps ''image'' then 1 else if ty = cps ''video'' then 2
      else if ty = cps ''audio'' then 3 else if ty = cps ''document'' then 4 else if ty = cps ''mixed'' then 5 else 6)"

definition push_required_task_type :: "utext \<Rightarrow> utext list \<Rightarrow> utext list" where
  "push_required_task_type raw out =
     (let ty = normalize_task_content_type raw in if ty \<in> set out then out else out @ [ty])"

text \<open>The arguments: the declared type, whether there are text fields, and the types of the subtasks.\<close>

definition collect_required_task_types :: "utext \<Rightarrow> bool \<Rightarrow> utext list \<Rightarrow> utext list" where
  "collect_required_task_types declared has_text_fields subtask_types =
     (let out = (if trim_by is_ws_cp declared = [] then [] else push_required_task_type declared []);
          out = (if has_text_fields then push_required_task_type (cps ''text'') out else out);
          out = fold push_required_task_type subtask_types out;
          out = (if out = [] then push_required_task_type (cps ''text'') out else out) in
      sort_key task_type_rank (sort out))"

section \<open>Formats of the components\<close>

definition ALL_TEXT_FORMATS :: "utext list" where
  "ALL_TEXT_FORMATS = [cps ''plain_text'', cps ''rich_html'', cps ''json_structured'', cps ''serialized_php'']"

definition media_kind_suffix :: "utext \<Rightarrow> utext" where
  "media_kind_suffix kind =
     (if kind \<in> {cps ''image_translation'', cps ''image''} then cps ''image''
      else if kind \<in> {cps ''video_translation'', cps ''video''} then cps ''video''
      else if kind \<in> {cps ''audio_translation'', cps ''audio''} then cps ''audio''
      else if kind \<in> {cps ''document_translation'', cps ''document''} then cps ''document''
      else cps ''unknown'')"

definition format_keys :: "component_runtime \<Rightarrow> utext list" where
  "format_keys rt =
     (if rt_content_formats rt = [] then ALL_TEXT_FORMATS
      else map (\<lambda>f. if f = cps ''media_ref'' then media_slot (media_kind_suffix (rt_kind rt)) else f)
        (rt_content_formats rt))"

definition push_entry :: "utext \<Rightarrow> utext \<Rightarrow> (utext \<times> utext list) list \<Rightarrow> (utext \<times> utext list) list" where
  "push_entry v k m = AList.update k (or_default [] (map_of m k) @ [v]) m"

definition format_component_map :: "component_registry \<Rightarrow> (utext \<times> utext list) list" where
  "format_component_map reg = fold (\<lambda>rt. fold (push_entry (rt_id rt)) (format_keys rt)) (ordered_runtimes reg) []"

section \<open>Which component is chosen\<close>

lemma usable_Some_iff: "usable reg ok cid = Some rt \<longleftrightarrow> map_of (reg_runtimes reg) cid = Some rt \<and> ok rt"
  by (auto simp: usable_def split: option.splits)

lemma usable_None_iff: "usable reg ok cid = None \<longleftrightarrow> (\<forall>rt. map_of (reg_runtimes reg) cid = Some rt \<longrightarrow> \<not> ok rt)"
  by (auto simp: usable_def split: option.splits)

lemma or_else_Some_iff: "or_else a b = Some x \<longleftrightarrow> a = Some x \<or> a = None \<and> b = Some x"
  by (auto simp: or_else_def split: option.splits)

lemma ordered_runtimes_registered:
  "rt \<in> set (ordered_runtimes reg) \<Longrightarrow> \<exists>cid. map_of (reg_runtimes reg) cid = Some rt"
  by (auto simp: ordered_runtimes_def set_map_filter)

lemma format_ok_explicit:
  "runtime_supports_route_format_and_file lower rt business_line task_type content_format ext hints \<Longrightarrow>
    runtime_supports_explicit_binding lower rt business_line task_type content_format ext
    \<and> 0 < runtime_artifact_match_score rt hints"
  by (auto simp: runtime_supports_route_format_and_file_def runtime_supports_route_and_format_def
      runtime_supports_explicit_binding_def split: if_splits)

text \<open>The first of the best.\<close>

fun first_best :: "('a \<Rightarrow> nat) \<Rightarrow> 'a list \<Rightarrow> 'a \<Rightarrow> bool" where
  "first_best score [] x = False"
| "first_best score (y # ys) x \<longleftrightarrow>
     y = x \<and> (\<forall>z \<in> set ys. score z \<le> score x) \<or> score y < score x \<and> first_best score ys x"

lemma first_bestD: "first_best score ys x \<Longrightarrow> x \<in> set ys \<and> (\<forall>y \<in> set ys. score y \<le> score x)"
  by (induction ys) auto

lemma best_loop:
  assumes "select_best_runtime_by_artifacts hints rts (Some b) (runtime_artifact_match_score b hints) = r"
    "0 < runtime_artifact_match_score b hints"
  shows "\<exists>x. r = Some x \<and> 0 < runtime_artifact_match_score x hints
    \<and> first_best (\<lambda>rt. runtime_artifact_match_score rt hints) (b # rts) x"
  using assms
proof (induction rts arbitrary: b)
  case (Cons rt rts)
  show ?case
  proof (cases "runtime_artifact_match_score b hints < runtime_artifact_match_score rt hints")
    case True
    with Cons.prems Cons.IH [of rt] show ?thesis by fastforce
  next
    case False
    then have "select_best_runtime_by_artifacts hints rts (Some b) (runtime_artifact_match_score b hints) = r"
      using Cons.prems(1) by (simp add: Let_def split: if_splits)
    from Cons.IH [OF this Cons.prems(2)] obtain x where "r = Some x" "0 < runtime_artifact_match_score x hints"
      "first_best (\<lambda>rt. runtime_artifact_match_score rt hints) (b # rts) x" by blast
    with False show ?thesis by (intro exI [of _ x]) auto
  qed
qed simp

lemma best_first_best:
  assumes "select_best_runtime_by_artifacts hints rts None 0 = Some x"
  shows "first_best (\<lambda>rt. runtime_artifact_match_score rt hints) rts x \<and> 0 < runtime_artifact_match_score x hints"
  using assms
proof (induction rts)
  case (Cons rt rts)
  show ?case
  proof (cases "runtime_artifact_match_score rt hints = 0")
    case False
    with Cons.prems best_loop [of hints rts rt] show ?thesis by auto
  qed (use Cons in auto)
qed simp

lemma best_None_iff:
  "select_best_runtime_by_artifacts hints rts None 0 = None
    \<longleftrightarrow> (\<forall>rt \<in> set rts. runtime_artifact_match_score rt hints = 0)"
proof (induction rts)
  case (Cons rt rts)
  show ?case
  proof (cases "runtime_artifact_match_score rt hints = 0")
    case False
    with best_loop [of hints rts rt] show ?thesis by auto
  qed (use Cons in auto)
qed simp


text \<open>
  Whatever the tier, the chosen component is registered and supports the business line, the task type, the
  content format and, for a file, its extension.
\<close>

theorem selected_component_qualifies:
  assumes "select_component_with_format_awareness lower registry b q task_type content_format = Some rt"
  shows "\<exists>reg cid. registry = Some reg \<and> map_of (reg_runtimes reg) cid = Some rt
    \<and> runtime_supports_explicit_binding lower rt (sq_business_line q) task_type content_format
        (file_ext_hint (sq_payload q))"
proof -
  obtain reg where reg: "registry = Some reg"
    using assms by (auto simp: select_component_with_format_awareness_def bind_eq_Some_conv)
  let ?ok = "\<lambda>rt. runtime_supports_route_format_and_file lower rt (sq_business_line q) task_type content_format
      (file_ext_hint (sq_payload q)) (extract_artifact_selection_hints (sq_payload q))"
  from assms consider
      "Option.bind (bound_id lower b task_type (Some content_format))
         (usable reg (\<lambda>rt. runtime_supports_explicit_binding lower rt (sq_business_line q) task_type content_format
            (file_ext_hint (sq_payload q)))) = Some rt"
    | "first_some (usable reg ?ok) (explicit_ids q task_type) = Some rt"
    | "select_best_runtime_by_artifacts (extract_artifact_selection_hints (sq_payload q))
         (filter ?ok (unclaimed reg q)) None 0 = Some rt"
    by (auto simp: select_component_with_format_awareness_def reg or_else_Some_iff Let_def
        select_component_runtime_for_task_type_and_format_def)
  then show ?thesis
  proof cases
    case 1
    then show ?thesis by (auto simp: bind_eq_Some_conv usable_Some_iff reg)
  next
    case 2
    then show ?thesis by (auto dest!: first_some_SomeD simp: usable_Some_iff reg dest: format_ok_explicit)
  next
    case 3
    from best_first_best [OF this] have "rt \<in> set (unclaimed reg q)" "?ok rt"
      by (auto dest: first_bestD)
    then show ?thesis
      by (auto simp: reg unclaimed_def dest: format_ok_explicit ordered_runtimes_registered)
  qed
qed

text \<open>
  A component that another relation has claimed is chosen only when it is named: by the rule bindings, the
  override, the payload, the task-type bindings or the preferred ids.
\<close>

theorem claimed_component_only_when_named:
  assumes "select_component_with_format_awareness lower (Some reg) b q task_type content_format = Some rt"
    "sq_claimed q = Some claimed" "rt_id rt \<in> claimed"
  shows "\<exists>cid. map_of (reg_runtimes reg) cid = Some rt
    \<and> (cid \<in> set (explicit_ids q task_type) \<or> bound_id lower b task_type (Some content_format) = Some cid)"
proof -
  let ?ok = "\<lambda>rt. runtime_supports_route_format_and_file lower rt (sq_business_line q) task_type content_format
      (file_ext_hint (sq_payload q)) (extract_artifact_selection_hints (sq_payload q))"
  have "rt \<notin> set (unclaimed reg q)" using assms(2,3) by (simp add: unclaimed_def)
  then have "select_best_runtime_by_artifacts (extract_artifact_selection_hints (sq_payload q))
      (filter ?ok (unclaimed reg q)) None 0 \<noteq> Some rt"
    by (auto dest!: best_first_best first_bestD)
  with assms(1) show ?thesis
    by (auto simp: select_component_with_format_awareness_def or_else_Some_iff Let_def bind_eq_Some_conv usable_Some_iff
        select_component_runtime_for_task_type_and_format_def dest!: first_some_SomeD)
qed

text \<open>
  The choice is complete: it fails exactly when the bound component does not fit, no named component fits
  and no unclaimed component of the registry fits.
\<close>

theorem selection_fails_iff_nothing_fits:
  "select_component_with_format_awareness lower (Some reg) b q task_type content_format = None \<longleftrightarrow>
     (let ext = file_ext_hint (sq_payload q);
          hints = extract_artifact_selection_hints (sq_payload q);
          fits = (\<lambda>rt. runtime_supports_explicit_binding lower rt (sq_business_line q) task_type content_format ext) in
      {rt. \<exists>cid. bound_id lower b task_type (Some content_format) = Some cid
             \<and> map_of (reg_runtimes reg) cid = Some rt \<and> fits rt} = {}
      \<and> {rt. (\<exists>cid \<in> set (explicit_ids q task_type). map_of (reg_runtimes reg) cid = Some rt) \<and> fits rt
             \<and> 0 < runtime_artifact_match_score rt hints} = {}
      \<and> {rt \<in> set (unclaimed reg q). fits rt \<and> 0 < runtime_artifact_match_score rt hints} = {})"
proof -
  have ok: "runtime_supports_route_format_and_file lower rt (sq_business_line q) task_type content_format ext hints
      \<longleftrightarrow> runtime_supports_explicit_binding lower rt (sq_business_line q) task_type content_format ext
        \<and> 0 < runtime_artifact_match_score rt hints" for rt ext hints
    by (auto simp: runtime_supports_route_format_and_file_def runtime_supports_route_and_format_def
        runtime_supports_explicit_binding_def split: option.splits)
  show ?thesis
    by (cases "bound_id lower b task_type (Some content_format)")
      (auto simp: select_component_with_format_awareness_def select_component_runtime_for_task_type_and_format_def
        Let_def first_some_NoneD usable_None_iff best_None_iff ok)
qed

text \<open>
  Without a name that fits, the component is the first in the order of the registry among the unclaimed
  components that fit, with the best agreement of artifact kinds.
\<close>

theorem fallback_takes_first_best:
  assumes "bound_id lower b task_type (Some content_format) = None" "explicit_ids q task_type = []"
    "select_component_with_format_awareness lower (Some reg) b q task_type content_format = Some rt"
  shows "first_best (\<lambda>rt. runtime_artifact_match_score rt (extract_artifact_selection_hints (sq_payload q)))
    (filter (\<lambda>rt. runtime_supports_route_format_and_file lower rt (sq_business_line q) task_type content_format
        (file_ext_hint (sq_payload q)) (extract_artifact_selection_hints (sq_payload q))) (unclaimed reg q)) rt"
  using assms
  by (auto simp: select_component_with_format_awareness_def select_component_runtime_for_task_type_and_format_def Let_def
      dest: best_first_best)

text \<open>The selection without a format asks the rule bindings without one, and so never finds a slot.\<close>

lemma rule_bindings_without_format_unused:
  "select_component_with_rule_bindings lower registry b q task_type
    = select_component_runtime_for_task_type registry (q\<lparr>sq_claimed := None\<rparr>) task_type"
proof -
  have "resolved_as ctx outcome key = (\<lambda>slots. None)" if "cx_content_format ctx = None" for ctx outcome key
    using that
    by (simp add: fun_eq_iff resolved_as_def resolve_component_id_from_slot_map_def rule_binding_slot_candidates_def)
  then have "bound_id lower b task_type None = None"
    by (cases "br_doc b") (simp_all add: bound_id_def resolve_component_id_from_rule_bindings_def
        resolve_rule_bindings_with_context_def rule_tier_def plugin_tier_def relation_tier_def global_tier_def
        site_of_def)
  then show ?thesis
    by (cases registry) (simp_all add: select_component_with_rule_bindings_def select_component_runtime_for_task_type_def)
qed

definition sample_runtime :: "string \<Rightarrow> component_runtime" where
  "sample_runtime name = \<lparr>rt_id = cps name, rt_kind = cps ''text'', rt_constraints = None, rt_business_lines = [],
     rt_content_formats = [cps ''plain_text''], rt_formats = []\<rparr>"

definition sample_registry :: component_registry where
  "sample_registry = \<lparr>reg_runtimes = [(cps ''a'', sample_runtime ''a''), (cps ''b'', sample_runtime ''b'')],
     reg_ordered_ids = [cps ''a'', cps ''b'']\<rparr>"

definition sample_request :: "string \<Rightarrow> selection_request" where
  "sample_request name = \<lparr>sq_payload = JObject [], sq_business_line = cps ''post'', sq_override = cps name,
     sq_prefer_ids = [], sq_task_bindings = None, sq_claimed = Some {cps ''a''}\<rparr>"

definition no_bindings :: binding_request where
  "no_bindings = \<lparr>br_doc = None, br_rule_id = None, br_relation_id = None, br_plugin_slug = None\<rparr>"

lemma sample_parts:
  "sq_claimed (sample_request name) = Some {cps ''a''}" "sq_payload (sample_request name) = JObject []"
  "bound_id lower no_bindings task_type fmt = None" "rt_id (sample_runtime name) = cps name"
  by (simp_all add: sample_request_def bound_id_def no_bindings_def sample_runtime_def)

lemma sample_fits:
  "runtime_supports_route_format_and_file lower (sample_runtime name) line (cps ''text'') (cps ''plain_text'')
     None \<lparr>ah_input = None, ah_output = None\<rparr>"
  "runtime_artifact_match_score (sample_runtime name) \<lparr>ah_input = None, ah_output = None\<rparr> = 1"
  by (simp_all add: runtime_supports_route_format_and_file_def runtime_supports_route_and_format_def
      runtime_supports_route_def runtime_supports_business_line_def runtime_supports_task_type_def Let_def
      runtime_supports_content_format_def normalize_task_content_type_def TASK_CONTENT_TYPES_def named_label
      normalize_component_runtime_kind_def RUNTIME_KINDS_def sample_runtime_def label_char_def
      runtime_artifact_match_score_def input_score_def output_score_def)

lemma sample_explicit:
  "explicit_ids (sample_request ''a'') task_type = [cps ''a'']" "explicit_ids (sample_request []) task_type = []"
  by (simp_all add: explicit_ids_def sample_request_def resolve_component_id_for_task_type_def Let_def
      resolve_component_id_from_task_type_bindings_def filled_member_def COMPONENT_MAPS_def label_fixed label_char_def
      jget_def first_some_NoneD)

lemma sample_selections:
  "select_component_with_format_awareness lower (Some sample_registry) no_bindings (sample_request ''a'') (cps ''text'')
     (cps ''plain_text'') = Some (sample_runtime ''a'')"
  "select_component_with_format_awareness lower (Some sample_registry) no_bindings (sample_request []) (cps ''text'')
     (cps ''plain_text'') = Some (sample_runtime ''b'')"
proof -
  have q: "file_ext_hint (JObject []) = None"
    "extract_artifact_selection_hints (JObject []) = \<lparr>ah_input = None, ah_output = None\<rparr>"
    "sq_business_line (sample_request name) = cps ''post''" for name
    by (simp_all add: file_ext_hint_def extract_artifact_selection_hints_def task_payload_string_hint_def jget_def
        sample_request_def)
  have u: "unclaimed sample_registry (sample_request name) = [sample_runtime ''b'']" for name
    by (simp add: unclaimed_def ordered_runtimes_def sample_registry_def map_filter_simps sample_parts)
  show "select_component_with_format_awareness lower (Some sample_registry) no_bindings (sample_request ''a'')
      (cps ''text'') (cps ''plain_text'') = Some (sample_runtime ''a'')"
    "select_component_with_format_awareness lower (Some sample_registry) no_bindings (sample_request [])
      (cps ''text'') (cps ''plain_text'') = Some (sample_runtime ''b'')"
    by (simp_all add: select_component_with_format_awareness_def select_component_runtime_for_task_type_and_format_def
        sample_parts q u sample_explicit sample_fits usable_def Let_def)
      (simp add: sample_registry_def sample_fits)
qed

theorem selected_component_qualifies_witness:
  "\<exists>reg cid. Some sample_registry = Some reg \<and> map_of (reg_runtimes reg) cid = Some (sample_runtime ''a'')
    \<and> runtime_supports_explicit_binding id (sample_runtime ''a'') (sq_business_line (sample_request ''a'')) (cps ''text'')
        (cps ''plain_text'') (file_ext_hint (sq_payload (sample_request ''a'')))"
  by (rule selected_component_qualifies [OF sample_selections(1)])

theorem claimed_component_only_when_named_witness:
  "\<exists>cid. map_of (reg_runtimes sample_registry) cid = Some (sample_runtime ''a'')
    \<and> (cid \<in> set (explicit_ids (sample_request ''a'') (cps ''text''))
       \<or> bound_id id no_bindings (cps ''text'') (Some (cps ''plain_text'')) = Some cid)"
  by (rule claimed_component_only_when_named [OF sample_selections(1) sample_parts(1)]) (simp add: sample_parts)

theorem fallback_takes_first_best_witness:
  "first_best (\<lambda>rt. runtime_artifact_match_score rt (extract_artifact_selection_hints (sq_payload (sample_request []))))
    (filter (\<lambda>rt. runtime_supports_route_format_and_file id rt (sq_business_line (sample_request [])) (cps ''text'')
        (cps ''plain_text'') (file_ext_hint (sq_payload (sample_request [])))
        (extract_artifact_selection_hints (sq_payload (sample_request []))))
      (unclaimed sample_registry (sample_request []))) (sample_runtime ''b'')"
  by (rule fallback_takes_first_best [OF sample_parts(3) sample_explicit(2) sample_selections(2)])

section \<open>Required task types and the map of formats\<close>

text \<open>Types come out once each, the known ones in the order of their rank.\<close>

lemma required_task_types_sorted:
  "sorted (map task_type_rank (collect_required_task_types declared has_text subtasks))
    \<and> distinct (collect_required_task_types declared has_text subtasks)
    \<and> collect_required_task_types declared has_text subtasks \<noteq> []"
proof -
  have d: "distinct out \<Longrightarrow> distinct (push_required_task_type raw out)" for raw out
    by (simp add: push_required_task_type_def Let_def)
  have f: "distinct out \<Longrightarrow> distinct (fold push_required_task_type xs out)" for xs out
    by (induction xs arbitrary: out) (simp_all add: d)
  have n: "push_required_task_type raw [] \<noteq> []" for raw
    by (simp add: push_required_task_type_def Let_def)
  have "sort_key g (sort xs) = [] \<longleftrightarrow> xs = []" for xs :: "utext list" and g :: "utext \<Rightarrow> nat"
    by (metis length_0_conv length_sort)
  then show ?thesis
    by (simp add: collect_required_task_types_def Let_def d f n)
qed

lemma push_entry_map: "map_of (push_entry v k m) k' = (if k = k' then Some (or_default [] (map_of m k) @ [v]) else map_of m k')"
  by (simp add: push_entry_def update_conv')

lemma format_map_entries:
  "or_default [] (map_of (fold (\<lambda>rt. fold (push_entry (rt_id rt)) (format_keys rt)) rts m) k)
    = or_default [] (map_of m k) @ concat (map (\<lambda>rt. map (\<lambda>_. rt_id rt) (filter (\<lambda>f. f = k) (format_keys rt))) rts)"
proof (induction rts arbitrary: m)
  case (Cons rt rts)
  have "or_default [] (map_of (fold (push_entry v) ks m) k)
      = or_default [] (map_of m k) @ map (\<lambda>_. v) (filter (\<lambda>f. f = k) ks)" for v ks m
    by (induction ks arbitrary: m) (auto simp: push_entry_map)
  with Cons show ?case by simp
qed simp

text \<open>
  The map of formats lists under a format exactly the components of the registry that declare it, in the
  order of the registry; a component that declares none is listed under the four text formats, a media component
  under the format with its kind.
\<close>

theorem format_map_lists_declarations:
  "or_default [] (map_of (format_component_map reg) k)
    = concat (map (\<lambda>rt. map (\<lambda>_. rt_id rt) (filter (\<lambda>f. f = k) (format_keys rt))) (ordered_runtimes reg))"
  by (simp add: format_component_map_def format_map_entries)

end
