(* ===== verification/Backoff.thy ===== *)
theory Backoff
  imports Prelude
begin

text \<open>
  The process-global cooldown registry of \<open>task_engine/backoff.rs\<close>.

  One map from formatted keys to states serves seven domains of keys (content identity,
  component, sync pair, relation, site, site scan lane, outbox row). The \<open>Mutex\<close> makes every
  operation atomic, so an operation is a function from the registry to a result and the new
  registry. \<open>Instant::now()\<close> is the argument \<open>now\<close>, in nanoseconds; a \<open>Duration\<close> is a number
  of nanoseconds. An instant does not overflow in the model (the source panics there, some
  centuries ahead).
\<close>

section \<open>State and decisions\<close>

type_synonym instant = nat

definition ns_per_sec :: nat where "ns_per_sec = 1000000000"

definition BASE_BACKOFF_SECS :: nat where "BASE_BACKOFF_SECS = 30"
definition MAX_BACKOFF_SECS :: nat where "MAX_BACKOFF_SECS = 1800"
definition CIRCUIT_FAILURE_THRESHOLD :: nat where "CIRCUIT_FAILURE_THRESHOLD = 3"
definition RELATION_STRUCTURAL_THRESHOLD :: nat where "RELATION_STRUCTURAL_THRESHOLD = 5"
definition DOMAIN_TRANSPORT_THRESHOLD :: nat where "DOMAIN_TRANSPORT_THRESHOLD = 3"
definition DOMAIN_CIRCUIT_SECS :: nat where "DOMAIN_CIRCUIT_SECS = 600"

lemmas backoff_consts = BASE_BACKOFF_SECS_def MAX_BACKOFF_SECS_def CIRCUIT_FAILURE_THRESHOLD_def
  RELATION_STRUCTURAL_THRESHOLD_def DOMAIN_TRANSPORT_THRESHOLD_def DOMAIN_CIRCUIT_SECS_def
  ns_per_sec_def

record backoff_state =
  consecutive_failures :: nat
  blocked_until :: "instant option"
  structural :: bool

record backoff_decision =
  d_blocked :: bool
  d_remaining_secs :: nat
  d_consecutive_failures :: nat
  d_circuit_open :: bool
  d_structural :: bool

definition default_decision :: backoff_decision where
  "default_decision = \<lparr>d_blocked = False, d_remaining_secs = 0, d_consecutive_failures = 0,
     d_circuit_open = False, d_structural = False\<rparr>"

type_synonym registry = "string \<rightharpoonup> backoff_state"

definition fresh_state :: backoff_state where
  "fresh_state = \<lparr>consecutive_failures = 0, blocked_until = None, structural = False\<rparr>"

text \<open>\<open>entry(key).or_insert(...)\<close> followed by the counter increment every recorder starts with.\<close>

definition bump_entry :: "registry \<Rightarrow> string \<Rightarrow> backoff_state" where
  "bump_entry r k =
     (let st = (case r k of None \<Rightarrow> fresh_state | Some st \<Rightarrow> st)
      in st\<lparr>consecutive_failures := sat_add u32_max (consecutive_failures st) 1\<rparr>)"

section \<open>Keys\<close>

definition identity_key :: "string \<Rightarrow> int \<Rightarrow> string \<Rightarrow> int \<Rightarrow> string" where
  "identity_key wp_base relation_id object_type object_id =
     ''id|'' @ trim wp_base @ ''|'' @ fmt_int relation_id @ ''|''
       @ to_lowercase (trim object_type) @ ''|'' @ fmt_int object_id"

definition component_key :: "string \<Rightarrow> string" where
  "component_key component_id = ''comp|'' @ to_lowercase (trim component_id)"

definition sync_pair_key :: "string \<Rightarrow> string" where
  "sync_pair_key pair_id = ''sync|'' @ trim pair_id"

definition relation_key :: "string \<Rightarrow> int \<Rightarrow> string" where
  "relation_key wp_base relation_id = ''rel|'' @ trim wp_base @ ''|'' @ fmt_int relation_id"

definition domain_key :: "string \<Rightarrow> string" where
  "domain_key wp_base = ''dom|'' @ trim wp_base"

definition domain_scan_key :: "string \<Rightarrow> string" where
  "domain_scan_key wp_base = ''domscan|'' @ trim wp_base"

definition outbox_key :: "string \<Rightarrow> int \<Rightarrow> string" where
  "outbox_key wp_base outbox_id = ''outbox|'' @ trim wp_base @ ''|'' @ fmt_int outbox_id"

lemmas key_defs = identity_key_def component_key_def sync_pair_key_def relation_key_def
  domain_key_def domain_scan_key_def outbox_key_def

section \<open>The keyed operations\<close>

definition cooldown_for_failures :: "nat \<Rightarrow> nat" where
  "cooldown_for_failures failures =
     (if CIRCUIT_FAILURE_THRESHOLD \<le> failures then MAX_BACKOFF_SECS * ns_per_sec
      else let e = failures - 1;
               secs = sat_mul u64_max BASE_BACKOFF_SECS (sat_pow u64_max 2 (min e 16))
           in min secs MAX_BACKOFF_SECS * ns_per_sec)"

definition structural_decision :: "nat \<Rightarrow> backoff_decision" where
  "structural_decision n = \<lparr>d_blocked = True, d_remaining_secs = 0, d_consecutive_failures = n,
     d_circuit_open = False, d_structural = True\<rparr>"

definition record_failure_keyed ::
  "instant \<Rightarrow> registry \<Rightarrow> string \<Rightarrow> backoff_decision \<times> registry" where
  "record_failure_keyed now r key =
     (let st = bump_entry r key; n = consecutive_failures st in
      if structural st then (structural_decision n, r(key \<mapsto> st))
      else let cooldown = cooldown_for_failures n in
        (\<lparr>d_blocked = True, d_remaining_secs = cooldown div ns_per_sec, d_consecutive_failures = n,
          d_circuit_open = (CIRCUIT_FAILURE_THRESHOLD \<le> n), d_structural = False\<rparr>,
         r(key \<mapsto> st\<lparr>blocked_until := Some (now + cooldown)\<rparr>)))"

definition record_structural_failure_keyed ::
  "registry \<Rightarrow> string \<Rightarrow> backoff_decision \<times> registry" where
  "record_structural_failure_keyed r key =
     (let st = bump_entry r key in
      (structural_decision (consecutive_failures st),
       r(key \<mapsto> st\<lparr>structural := True, blocked_until := None\<rparr>)))"

definition record_success_keyed :: "registry \<Rightarrow> string \<Rightarrow> registry" where
  "record_success_keyed r key = r(key := None)"

text \<open>\<open>saturating_duration_since\<close> is the truncated subtraction of \<open>nat\<close>; \<open>None\<close> is the zero duration.\<close>

definition remaining :: "instant \<Rightarrow> backoff_state \<Rightarrow> nat" where
  "remaining now st = (case blocked_until st of None \<Rightarrow> 0 | Some u \<Rightarrow> u - now)"

definition check_keyed :: "instant \<Rightarrow> registry \<Rightarrow> string \<Rightarrow> backoff_decision" where
  "check_keyed now r key =
     (case r key of
        None \<Rightarrow> default_decision
      | Some st \<Rightarrow>
          if structural st then structural_decision (consecutive_failures st)
          else let rem = remaining now st in
            \<lparr>d_blocked = (rem \<noteq> 0), d_remaining_secs = rem div ns_per_sec,
             d_consecutive_failures = consecutive_failures st,
             d_circuit_open = (CIRCUIT_FAILURE_THRESHOLD \<le> consecutive_failures st \<and> rem \<noteq> 0),
             d_structural = False\<rparr>)"

section \<open>Identity, component and sync-pair lanes\<close>

definition record_failure where
  "record_failure now r wp rel ty obj = record_failure_keyed now r (identity_key wp rel ty obj)"

definition record_structural_failure where
  "record_structural_failure r wp rel ty obj =
     record_structural_failure_keyed r (identity_key wp rel ty obj)"

definition record_success where
  "record_success r wp rel ty obj = record_success_keyed r (identity_key wp rel ty obj)"

definition check_identity where
  "check_identity now r wp rel ty obj = check_keyed now r (identity_key wp rel ty obj)"

definition record_component_failure where
  "record_component_failure now r cid = record_failure_keyed now r (component_key cid)"

definition record_component_success where
  "record_component_success r cid = record_success_keyed r (component_key cid)"

definition check_component where
  "check_component now r cid = check_keyed now r (component_key cid)"

definition record_sync_pair_failure where
  "record_sync_pair_failure now r pid = record_failure_keyed now r (sync_pair_key pid)"

definition record_sync_pair_success where
  "record_sync_pair_success r pid = record_success_keyed r (sync_pair_key pid)"

definition check_sync_pair where
  "check_sync_pair now r pid = check_keyed now r (sync_pair_key pid)"

section \<open>Relation poison\<close>

definition record_structural_relation_failure ::
  "registry \<Rightarrow> string \<Rightarrow> int \<Rightarrow> backoff_decision \<times> registry" where
  "record_structural_relation_failure r wp rel =
     (let key = relation_key wp rel; st = bump_entry r key;
          st' = (if RELATION_STRUCTURAL_THRESHOLD \<le> consecutive_failures st
                 then st\<lparr>structural := True, blocked_until := None\<rparr> else st)
      in (\<lparr>d_blocked = structural st', d_remaining_secs = 0,
           d_consecutive_failures = consecutive_failures st', d_circuit_open = False,
           d_structural = structural st'\<rparr>, r(key \<mapsto> st')))"

definition record_relation_success where
  "record_relation_success r wp rel = record_success_keyed r (relation_key wp rel)"

definition check_relation where
  "check_relation now r wp rel = check_keyed now r (relation_key wp rel)"

section \<open>Site circuits\<close>

definition decision_for_state :: "instant \<Rightarrow> backoff_state \<Rightarrow> backoff_decision" where
  "decision_for_state now st =
     (let rem = remaining now st in
      \<lparr>d_blocked = (rem \<noteq> 0), d_remaining_secs = rem div ns_per_sec,
       d_consecutive_failures = consecutive_failures st,
       d_circuit_open = (DOMAIN_TRANSPORT_THRESHOLD \<le> consecutive_failures st \<and> rem \<noteq> 0),
       d_structural = False\<rparr>)"

text \<open>
  The source reads the clock twice here, once for the deadline and once for the decision;
  \<open>later\<close> is the second reading.
\<close>

definition record_domain_transport_failure ::
  "instant \<Rightarrow> instant \<Rightarrow> registry \<Rightarrow> string \<Rightarrow> backoff_decision \<times> registry" where
  "record_domain_transport_failure now later r wp =
     (let key = domain_key wp; st = bump_entry r key;
          st' = (if DOMAIN_TRANSPORT_THRESHOLD \<le> consecutive_failures st
                 then st\<lparr>blocked_until := Some (now + DOMAIN_CIRCUIT_SECS * ns_per_sec)\<rparr> else st)
      in (decision_for_state later st', r(key \<mapsto> st')))"

definition record_domain_success where
  "record_domain_success r wp = record_success_keyed r (domain_key wp)"

definition check_domain where
  "check_domain now r wp = check_keyed now r (domain_key wp)"

definition record_domain_scan_permanent_failure ::
  "instant \<Rightarrow> registry \<Rightarrow> string \<Rightarrow> backoff_decision \<times> registry" where
  "record_domain_scan_permanent_failure now r wp =
     (let key = domain_scan_key wp; st = bump_entry r key in
      (\<lparr>d_blocked = True, d_remaining_secs = DOMAIN_CIRCUIT_SECS,
        d_consecutive_failures = consecutive_failures st, d_circuit_open = True, d_structural = False\<rparr>,
       r(key \<mapsto> st\<lparr>blocked_until := Some (now + DOMAIN_CIRCUIT_SECS * ns_per_sec)\<rparr>)))"

definition check_domain_scan where
  "check_domain_scan now r wp = check_keyed now r (domain_scan_key wp)"

section \<open>Outbox holds and configuration changes\<close>

definition note_outbox_hold :: "instant \<Rightarrow> registry \<Rightarrow> string \<Rightarrow> int \<Rightarrow> nat \<Rightarrow> registry" where
  "note_outbox_hold now r wp outbox_id hold_secs =
     (if hold_secs = 0 then r
      else (map_retain (\<lambda>key st. if prefix ''outbox|'' key
                 then (case blocked_until st of Some u \<Rightarrow> now < u | None \<Rightarrow> False) else True) r)
           (outbox_key wp outbox_id \<mapsto>
              \<lparr>consecutive_failures = 0, blocked_until = Some (now + hold_secs * ns_per_sec),
               structural = False\<rparr>))"

definition outbox_hold_remaining :: "instant \<Rightarrow> registry \<Rightarrow> string \<Rightarrow> int \<Rightarrow> nat" where
  "outbox_hold_remaining now r wp outbox_id =
     d_remaining_secs (check_keyed now r (outbox_key wp outbox_id))"

text \<open>The re-offer guard of the outbox loop: a row is skipped while whole seconds remain.\<close>

definition outbox_reoffer_skipped :: "instant \<Rightarrow> registry \<Rightarrow> string \<Rightarrow> int \<Rightarrow> bool" where
  "outbox_reoffer_skipped now r wp outbox_id \<longleftrightarrow> 0 < outbox_hold_remaining now r wp outbox_id"

definition identity_prefix :: "string \<Rightarrow> int \<Rightarrow> string" where
  "identity_prefix wp rel = ''id|'' @ trim wp @ ''|'' @ fmt_int rel @ ''|''"

definition clear_structural_for_relation :: "registry \<Rightarrow> string \<Rightarrow> int \<Rightarrow> registry" where
  "clear_structural_for_relation r wp rel =
     (let pfx = identity_prefix wp rel; rel_key = relation_key wp rel in
      map_retain (\<lambda>key st. \<not> (structural st \<and> (prefix pfx key \<or> key = rel_key))) r)"

definition clear_structural_all :: "registry \<Rightarrow> registry" where
  "clear_structural_all r = map_retain (\<lambda>_ st. \<not> structural st) r"

section \<open>Message classifiers\<close>

definition is_structural_failure_message :: "string \<Rightarrow> bool" where
  "is_structural_failure_message m = str_contains m ''no component runtime available''"

definition is_permanent_http_failure_message :: "string \<Rightarrow> bool" where
  "is_permanent_http_failure_message m \<longleftrightarrow>
     str_contains m ''status=404'' \<or> str_contains m ''status=405'' \<or> str_contains m ''status=410''"

lemmas lane_defs = record_failure_def record_structural_failure_def record_success_def
  check_identity_def record_component_failure_def record_component_success_def check_component_def
  record_sync_pair_failure_def record_sync_pair_success_def check_sync_pair_def
  record_relation_success_def check_relation_def record_domain_success_def check_domain_def
  check_domain_scan_def


section \<open>Events and reachable registries\<close>

text \<open>Every operation that changes the registry, as an event; a run is a list of timed events.\<close>

datatype backoff_event =
    Failure string int string int
  | StructuralFailure string int string int
  | Success string int string int
  | ComponentFailure string
  | ComponentSuccess string
  | SyncPairFailure string
  | SyncPairSuccess string
  | RelationStructural string int
  | RelationSuccess string int
  | DomainTransport string
  | DomainSuccess string
  | DomainScanPermanent string
  | OutboxHold string int nat
  | ClearRelation string int
  | ClearAll

fun apply_event :: "instant \<Rightarrow> backoff_event \<Rightarrow> registry \<Rightarrow> registry" where
  "apply_event now (Failure wp rel ty obj) r = snd (record_failure now r wp rel ty obj)"
| "apply_event now (StructuralFailure wp rel ty obj) r = snd (record_structural_failure r wp rel ty obj)"
| "apply_event now (Success wp rel ty obj) r = record_success r wp rel ty obj"
| "apply_event now (ComponentFailure c) r = snd (record_component_failure now r c)"
| "apply_event now (ComponentSuccess c) r = record_component_success r c"
| "apply_event now (SyncPairFailure p) r = snd (record_sync_pair_failure now r p)"
| "apply_event now (SyncPairSuccess p) r = record_sync_pair_success r p"
| "apply_event now (RelationStructural wp rel) r = snd (record_structural_relation_failure r wp rel)"
| "apply_event now (RelationSuccess wp rel) r = record_relation_success r wp rel"
| "apply_event now (DomainTransport wp) r = snd (record_domain_transport_failure now now r wp)"
| "apply_event now (DomainSuccess wp) r = record_domain_success r wp"
| "apply_event now (DomainScanPermanent wp) r = snd (record_domain_scan_permanent_failure now r wp)"
| "apply_event now (OutboxHold wp i h) r = note_outbox_hold now r wp i h"
| "apply_event now (ClearRelation wp rel) r = clear_structural_for_relation r wp rel"
| "apply_event now ClearAll r = clear_structural_all r"

fun run_events :: "(instant \<times> backoff_event) list \<Rightarrow> registry \<Rightarrow> registry" where
  "run_events [] r = r"
| "run_events ((now, e) # es) r = run_events es (apply_event now e r)"

inductive backoff_reachable :: "registry \<Rightarrow> bool" where
  empty: "backoff_reachable Map.empty"
| event: "backoff_reachable r \<Longrightarrow> backoff_reachable (apply_event now e r)"

section \<open>Basic facts\<close>

lemma ns_per_sec_pos [simp]: "0 < ns_per_sec"
  by (simp add: ns_per_sec_def)

lemma structural_decision_sel [simp]:
  "d_blocked (structural_decision n)" "d_structural (structural_decision n)"
  "d_remaining_secs (structural_decision n) = 0"
  "d_consecutive_failures (structural_decision n) = n"
  "\<not> d_circuit_open (structural_decision n)"
  by (simp_all add: structural_decision_def)

lemma default_decision_sel [simp]:
  "\<not> d_blocked default_decision" "\<not> d_structural default_decision"
  "d_remaining_secs default_decision = 0" "d_consecutive_failures default_decision = 0"
  "\<not> d_circuit_open default_decision"
  by (simp_all add: default_decision_def)

lemma fresh_state_sel [simp]:
  "consecutive_failures fresh_state = 0" "blocked_until fresh_state = None" "\<not> structural fresh_state"
  by (simp_all add: fresh_state_def)

definition failures_of :: "registry \<Rightarrow> string \<Rightarrow> nat" where
  "failures_of r k = (case r k of None \<Rightarrow> 0 | Some st \<Rightarrow> consecutive_failures st)"

definition structural_at :: "registry \<Rightarrow> string \<Rightarrow> bool" where
  "structural_at r k \<longleftrightarrow> (\<exists>st. r k = Some st \<and> structural st)"

lemma bump_entry_sel [simp]:
  "consecutive_failures (bump_entry r k) = sat_add u32_max (failures_of r k) 1"
  "structural (bump_entry r k) \<longleftrightarrow> structural_at r k"
  "blocked_until (bump_entry r k) = (case r k of None \<Rightarrow> None | Some st \<Rightarrow> blocked_until st)"
  by (auto simp: bump_entry_def failures_of_def structural_at_def Let_def split: option.split)

lemma check_keyed_failures [simp]: "d_consecutive_failures (check_keyed now r k) = failures_of r k"
  by (simp add: check_keyed_def failures_of_def Let_def split: option.split)

lemma check_keyed_structural [simp]: "d_structural (check_keyed now r k) \<longleftrightarrow> structural_at r k"
  by (auto simp: check_keyed_def structural_at_def Let_def split: option.split)

lemma check_keyed_other [simp]: "k \<noteq> k' \<Longrightarrow> check_keyed now (r(k \<mapsto> st)) k' = check_keyed now r k'"
  by (simp add: check_keyed_def)

lemma failures_of_upd [simp]:
  "failures_of (r(k \<mapsto> st)) k' = (if k' = k then consecutive_failures st else failures_of r k')"
  by (simp add: failures_of_def)

lemma structural_at_upd [simp]:
  "structural_at (r(k \<mapsto> st)) k' = (if k' = k then structural st else structural_at r k')"
  by (simp add: structural_at_def)

lemma structural_at_blocked: "structural_at r k \<Longrightarrow> d_blocked (check_keyed now r k)"
  by (auto simp: structural_at_def check_keyed_def)

lemma record_failure_keyed_frame:
  "k \<noteq> k' \<Longrightarrow> check_keyed now' (snd (record_failure_keyed now r k)) k' = check_keyed now' r k'"
  by (simp add: record_failure_keyed_def Let_def)

lemma record_success_keyed_check [simp]:
  "check_keyed now (record_success_keyed r k) k = default_decision"
  by (simp add: record_success_keyed_def check_keyed_def)

lemma record_success_keyed_frame:
  "k \<noteq> k' \<Longrightarrow> check_keyed now (record_success_keyed r k) k' = check_keyed now r k'"
  by (simp add: record_success_keyed_def check_keyed_def)

lemma cooldown_values:
  "cooldown_for_failures n =
     (if n \<le> 1 then 30 else if n = 2 then 60 else 1800) * ns_per_sec"
proof -
  have "n = 0 \<or> n = 1 \<or> n = 2 \<or> 3 \<le> n" by linarith
  then show ?thesis
    by (elim disjE) (simp_all add: cooldown_for_failures_def backoff_consts sat_mul_def sat_pow_def u64_max_def)
qed

lemma cooldown_pos [simp]: "0 < cooldown_for_failures n"
  by (simp add: cooldown_values)

lemma check_after_failure:
  assumes "\<not> structural_at r k"
  shows "d_blocked (check_keyed later (snd (record_failure_keyed now r k)) k) \<longleftrightarrow>
           later < now + cooldown_for_failures (sat_add u32_max (failures_of r k) 1)"
  using assms
  by (simp add: record_failure_keyed_def check_keyed_def remaining_def Let_def)

lemma failures_after_failure [simp]:
  "failures_of (snd (record_failure_keyed now r k)) k = sat_add u32_max (failures_of r k) 1"
  by (simp add: record_failure_keyed_def Let_def)

lemma structural_after_failure [simp]:
  "structural_at (snd (record_failure_keyed now r k)) k \<longleftrightarrow> structural_at r k"
  by (simp add: record_failure_keyed_def Let_def)


section \<open>The contract of a cooldown lane\<close>

text \<open>
  Identity, component and sync-pair lanes are three instances of one contract: \<open>fail\<close> starts or
  extends a cooldown, \<open>ok\<close> forgets the key, \<open>chk\<close> reads it, and keys do not disturb each other.
\<close>

locale cooldown_lane =
  fixes fail :: "instant \<Rightarrow> registry \<Rightarrow> 'a \<Rightarrow> backoff_decision \<times> registry"
    and ok :: "registry \<Rightarrow> 'a \<Rightarrow> registry"
    and chk :: "instant \<Rightarrow> registry \<Rightarrow> 'a \<Rightarrow> backoff_decision"
    and key :: "'a \<Rightarrow> string"
  assumes chk_ok: "chk now (ok r x) x = default_decision"
    and chk_fail_failures:
      "d_consecutive_failures (chk t (snd (fail now r x)) x)
         = sat_add u32_max (d_consecutive_failures (chk t' r x)) 1"
    and chk_fail_structural:
      "d_structural (chk t (snd (fail now r x)) x) = d_structural (chk t' r x)"
    and chk_fail_blocked:
      "\<not> d_structural (chk t' r x) \<Longrightarrow>
         d_blocked (chk later (snd (fail now r x)) x) \<longleftrightarrow>
           later < now + cooldown_for_failures (sat_add u32_max (d_consecutive_failures (chk t' r x)) 1)"
    and fail_frame: "key x \<noteq> key y \<Longrightarrow> chk t (snd (fail now r x)) y = chk t r y"
    and ok_frame: "key x \<noteq> key y \<Longrightarrow> chk t (ok r x) y = chk t r y"

fun fail_run ::
  "(instant \<Rightarrow> registry \<Rightarrow> 'a \<Rightarrow> backoff_decision \<times> registry) \<Rightarrow> instant list \<Rightarrow> registry \<Rightarrow> 'a \<Rightarrow> registry"
where
  "fail_run fail [] r x = r"
| "fail_run fail (t # ts) r x = fail_run fail ts (snd (fail t r x)) x"

context cooldown_lane
begin

lemma fail_run_failures:
  "d_consecutive_failures (chk t r x) + length ts \<le> u32_max \<Longrightarrow>
   d_consecutive_failures (chk t (fail_run fail ts r x) x) = d_consecutive_failures (chk t r x) + length ts"
proof (induction ts arbitrary: r)
  case Nil
  then show ?case by simp
next
  case (Cons s ts)
  have "d_consecutive_failures (chk t (snd (fail s r x)) x) = d_consecutive_failures (chk t r x) + 1"
    using Cons.prems chk_fail_failures [of t s r x t] by (simp add: sat_add_exact)
  with Cons.prems Cons.IH [of "snd (fail s r x)"] show ?case by simp
qed

lemma fail_run_structural:
  "d_structural (chk t (fail_run fail ts r x) x) = d_structural (chk t r x)"
  by (induction ts arbitrary: r) (simp_all add: chk_fail_structural [where t' = t])

lemma fail_run_snoc: "fail_run fail (ts @ [t]) r x = snd (fail t (fail_run fail ts r x) x)"
  by (induction ts arbitrary: r) simp_all

lemma fail_run_frame:
  "key x \<noteq> key y \<Longrightarrow> chk t (fail_run fail ts r x) y = chk t r y"
  by (induction ts arbitrary: r) (simp_all add: fail_frame)

text \<open>A streak of failures after a success: the ladder counts them all and the last one sets the deadline.\<close>

lemma streak_blocks:
  assumes "length ts < u32_max"
  shows "d_blocked (chk later (fail_run fail (ts @ [now]) (ok r x) x) x) \<longleftrightarrow>
           later < now + cooldown_for_failures (Suc (length ts))"
proof -
  let ?r = "fail_run fail ts (ok r x) x"
  have "\<not> d_structural (chk now ?r x)"
    by (simp add: fail_run_structural chk_ok)
  moreover have "d_consecutive_failures (chk now ?r x) = length ts"
    using assms fail_run_failures [of now "ok r x" x ts] by (simp add: chk_ok)
  ultimately show ?thesis
    using assms chk_fail_blocked [of now ?r x later now] by (simp add: fail_run_snoc sat_add_exact)
qed

lemma ok_lifts: "\<not> d_blocked (chk t (ok r x) x)"
  by (simp add: chk_ok)

end

type_synonym identity = "string \<times> int \<times> string \<times> int"

definition identity_fail :: "instant \<Rightarrow> registry \<Rightarrow> identity \<Rightarrow> backoff_decision \<times> registry" where
  "identity_fail now r = (\<lambda>(wp, rel, ty, obj). record_failure now r wp rel ty obj)"

definition identity_ok :: "registry \<Rightarrow> identity \<Rightarrow> registry" where
  "identity_ok r = (\<lambda>(wp, rel, ty, obj). record_success r wp rel ty obj)"

definition identity_chk :: "instant \<Rightarrow> registry \<Rightarrow> identity \<Rightarrow> backoff_decision" where
  "identity_chk now r = (\<lambda>(wp, rel, ty, obj). check_identity now r wp rel ty obj)"

definition key_of_identity :: "identity \<Rightarrow> string" where
  "key_of_identity = (\<lambda>(wp, rel, ty, obj). identity_key wp rel ty obj)"

lemmas identity_lane_defs = identity_fail_def identity_ok_def identity_chk_def key_of_identity_def

interpretation id_lane: cooldown_lane identity_fail identity_ok identity_chk key_of_identity
  by unfold_locales
    (auto simp: identity_lane_defs lane_defs check_after_failure record_failure_keyed_frame
      record_success_keyed_frame)

interpretation comp_lane: cooldown_lane record_component_failure record_component_success
  check_component component_key
  by unfold_locales
    (auto simp: lane_defs check_after_failure record_failure_keyed_frame record_success_keyed_frame)

interpretation pair_lane: cooldown_lane record_sync_pair_failure record_sync_pair_success
  check_sync_pair sync_pair_key
  by unfold_locales
    (auto simp: lane_defs check_after_failure record_failure_keyed_frame record_success_keyed_frame)

section \<open>Key separation\<close>

definition no_bar :: "string \<Rightarrow> bool" where
  "no_bar s \<longleftrightarrow> CHR ''|'' \<notin> set s"

lemma no_bar_trim [simp]: "no_bar s \<Longrightarrow> CHR ''|'' \<notin> set (trim s)"
  using set_trim by (auto simp: no_bar_def)

lemma outbox_key_inject:
  assumes "no_bar wp" "no_bar wp'"
  shows "outbox_key wp i = outbox_key wp' j \<longleftrightarrow> trim wp = trim wp' \<and> i = j"
  using assms by (auto simp: outbox_key_def sep_append_inject)

lemma relation_key_inject:
  assumes "no_bar wp" "no_bar wp'"
  shows "relation_key wp i = relation_key wp' j \<longleftrightarrow> trim wp = trim wp' \<and> i = j"
  using assms by (auto simp: relation_key_def sep_append_inject)

lemma identity_prefix_iff:
  assumes "no_bar wp" "no_bar wp'"
  shows "prefix (identity_prefix wp rel) (identity_key wp' rel' ty obj)
           \<longleftrightarrow> trim wp' = trim wp \<and> rel' = rel"
  using assms
  by (auto simp: identity_key_def identity_prefix_def sep_append_prefix)

lemma identity_prefix_other [simp]:
  "\<not> prefix (identity_prefix w n) (component_key c)" "\<not> prefix (identity_prefix w n) (sync_pair_key p)"
  "\<not> prefix (identity_prefix w n) (relation_key wp rel)" "\<not> prefix (identity_prefix w n) (domain_key wp)"
  "\<not> prefix (identity_prefix w n) (domain_scan_key wp)" "\<not> prefix (identity_prefix w n) (outbox_key wp i)"
  by (simp_all add: key_defs identity_prefix_def)


text \<open>The tag in front of a key tells the domains apart.\<close>

lemma key_tags [simp]:
  "prefix ''id|'' (identity_key wp rel ty obj)" "\<not> prefix ''rel|'' (identity_key wp rel ty obj)"
  "\<not> prefix ''outbox|'' (identity_key wp rel ty obj)"
  "\<not> prefix ''rel|'' (component_key c)" "\<not> prefix ''outbox|'' (component_key c)"
  "\<not> prefix ''rel|'' (sync_pair_key p)" "\<not> prefix ''outbox|'' (sync_pair_key p)"
  "prefix ''rel|'' (relation_key wp rel)" "\<not> prefix ''outbox|'' (relation_key wp rel)"
  "\<not> prefix ''rel|'' (domain_key wp)" "\<not> prefix ''outbox|'' (domain_key wp)"
  "\<not> prefix ''id|'' (domain_key wp)" "\<not> prefix ''id|'' (domain_scan_key wp)"
  "\<not> prefix ''rel|'' (domain_scan_key wp)" "\<not> prefix ''outbox|'' (domain_scan_key wp)"
  "prefix ''outbox|'' (outbox_key wp i)" "\<not> prefix ''rel|'' (outbox_key wp i)"
  by (simp_all add: key_defs)

lemma identity_key_neq [simp]:
  "identity_key wp rel ty obj \<noteq> component_key c" "identity_key wp rel ty obj \<noteq> sync_pair_key p"
  "identity_key wp rel ty obj \<noteq> relation_key wp' rel'" "identity_key wp rel ty obj \<noteq> domain_key wp'"
  "identity_key wp rel ty obj \<noteq> domain_scan_key wp'" "identity_key wp rel ty obj \<noteq> outbox_key wp' i"
  by (simp_all add: key_defs)

lemma clear_relation_at:
  "clear_structural_for_relation r wp rel k =
     (if structural_at r k \<and> (prefix (identity_prefix wp rel) k \<or> k = relation_key wp rel)
      then None else r k)"
  by (auto simp: clear_structural_for_relation_def map_retain_def structural_at_def Let_def
      split: option.split)

section \<open>The registry invariant\<close>

text \<open>
  What holds of every entry: counters fit \<open>u32\<close>; a permanent skip has no deadline and exists on
  identity and relation keys only; a relation entry never has a deadline and is poisoned exactly
  from the fifth failure on; an outbox entry is a pure hold.
\<close>

definition entry_ok :: "string \<Rightarrow> backoff_state \<Rightarrow> bool" where
  "entry_ok k st \<longleftrightarrow>
     consecutive_failures st \<le> u32_max
   \<and> (structural st \<longrightarrow> blocked_until st = None \<and> (prefix ''id|'' k \<or> prefix ''rel|'' k))
   \<and> (prefix ''rel|'' k \<longrightarrow> blocked_until st = None
        \<and> structural st = (RELATION_STRUCTURAL_THRESHOLD \<le> consecutive_failures st))
   \<and> (prefix ''outbox|'' k \<longrightarrow> blocked_until st \<noteq> None \<and> consecutive_failures st = 0)"

definition registry_ok :: "registry \<Rightarrow> bool" where
  "registry_ok r \<longleftrightarrow> (\<forall>k st. r k = Some st \<longrightarrow> entry_ok k st)"

lemma registry_ok_upd: "registry_ok r \<Longrightarrow> entry_ok k st \<Longrightarrow> registry_ok (r(k \<mapsto> st))"
  by (simp add: registry_ok_def)

lemma registry_ok_retain: "registry_ok r \<Longrightarrow> registry_ok (map_retain p r)"
  by (simp add: registry_ok_def map_retain_Some)

lemma registry_ok_delete: "registry_ok r \<Longrightarrow> registry_ok (r(k := None))"
  by (simp add: registry_ok_def)

lemma entry_ok_at: "registry_ok r \<Longrightarrow> r k = Some st \<Longrightarrow> entry_ok k st"
  by (simp add: registry_ok_def)

lemma timed_failure_ok:
  assumes "registry_ok r" "\<not> prefix ''rel|'' k" "\<not> prefix ''outbox|'' k"
  shows "registry_ok (snd (record_failure_keyed now r k))"
  using assms entry_ok_at [OF assms(1), of k]
  by (auto simp: record_failure_keyed_def Let_def entry_ok_def structural_at_def
      intro!: registry_ok_upd split: option.split)

lemma permanent_failure_ok:
  assumes "registry_ok r" "prefix ''id|'' k" "\<not> prefix ''rel|'' k" "\<not> prefix ''outbox|'' k"
  shows "registry_ok (snd (record_structural_failure_keyed r k))"
  using assms
  by (simp add: record_structural_failure_keyed_def Let_def entry_ok_def registry_ok_upd)

lemma relation_failure_ok:
  assumes "registry_ok r"
  shows "registry_ok (snd (record_structural_relation_failure r wp rel))"
  using assms entry_ok_at [OF assms, of "relation_key wp rel"]
  by (auto simp: record_structural_relation_failure_def Let_def entry_ok_def structural_at_def
      failures_of_def sat_add_def backoff_consts u32_max_def intro!: registry_ok_upd split: option.splits)

lemma transport_failure_ok:
  assumes "registry_ok r"
  shows "registry_ok (snd (record_domain_transport_failure now later r wp))"
  using assms entry_ok_at [OF assms, of "domain_key wp"]
  by (auto simp: record_domain_transport_failure_def Let_def entry_ok_def structural_at_def
      intro!: registry_ok_upd split: option.splits)

lemma scan_failure_ok:
  assumes "registry_ok r"
  shows "registry_ok (snd (record_domain_scan_permanent_failure now r wp))"
  using assms entry_ok_at [OF assms, of "domain_scan_key wp"]
  by (auto simp: record_domain_scan_permanent_failure_def Let_def entry_ok_def structural_at_def
      intro!: registry_ok_upd split: option.splits)

lemma outbox_hold_ok:
  "registry_ok r \<Longrightarrow> registry_ok (note_outbox_hold now r wp i h)"
  by (auto simp: note_outbox_hold_def entry_ok_def intro!: registry_ok_upd registry_ok_retain)

lemma apply_event_ok: "registry_ok r \<Longrightarrow> registry_ok (apply_event now e r)"
  by (cases e)
     (simp_all add: lane_defs record_success_keyed_def clear_structural_for_relation_def
       clear_structural_all_def Let_def timed_failure_ok permanent_failure_ok relation_failure_ok
       transport_failure_ok scan_failure_ok outbox_hold_ok registry_ok_retain registry_ok_delete)

lemma reachable_registry_ok: "backoff_reachable r \<Longrightarrow> registry_ok r"
  by (induction rule: backoff_reachable.induct)
     (auto simp: apply_event_ok, simp add: registry_ok_def)

section \<open>Permanent skips\<close>

text \<open>The events that may remove the entry of a content identity.\<close>

fun lifts :: "identity \<Rightarrow> backoff_event \<Rightarrow> bool" where
  "lifts x (Success wp rel ty obj) \<longleftrightarrow> key_of_identity (wp, rel, ty, obj) = key_of_identity x"
| "lifts x (ClearRelation wp rel) \<longleftrightarrow>
     prefix (identity_prefix wp rel) (key_of_identity x)"
| "lifts x ClearAll \<longleftrightarrow> True"
| "lifts x _ \<longleftrightarrow> False"

lemma structural_at_retain:
  "structural_at (map_retain p r) k \<longleftrightarrow> (\<exists>st. r k = Some st \<and> structural st \<and> p k st)"
  by (auto simp: structural_at_def map_retain_Some)

lemma structural_at_delete [simp]: "structural_at (r(k := None)) k' \<longleftrightarrow> k' \<noteq> k \<and> structural_at r k'"
  by (auto simp: structural_at_def)

lemma structural_at_failure_other [simp]:
  "structural_at (snd (record_failure_keyed now r k)) k' \<longleftrightarrow> structural_at r k'"
  by (cases "k = k'") (simp_all add: record_failure_keyed_def Let_def)

lemma structural_at_permanent [simp]:
  "structural_at (snd (record_structural_failure_keyed r k)) k' \<longleftrightarrow> k' = k \<or> structural_at r k'"
  by (auto simp: record_structural_failure_keyed_def Let_def)

lemma structural_at_site_steps [simp]:
  "structural_at (snd (record_structural_relation_failure r wp rel)) (identity_key w n ty obj)
     \<longleftrightarrow> structural_at r (identity_key w n ty obj)"
  "structural_at (snd (record_domain_transport_failure now later r wp)) (identity_key w n ty obj)
     \<longleftrightarrow> structural_at r (identity_key w n ty obj)"
  "structural_at (snd (record_domain_scan_permanent_failure now r wp)) (identity_key w n ty obj)
     \<longleftrightarrow> structural_at r (identity_key w n ty obj)"
  "structural_at (note_outbox_hold now r wp i h) (identity_key w n ty obj)
     \<longleftrightarrow> structural_at r (identity_key w n ty obj)"
  by (simp_all add: record_structural_relation_failure_def record_domain_transport_failure_def
      record_domain_scan_permanent_failure_def note_outbox_hold_def Let_def structural_at_retain)
     (simp add: structural_at_def)

lemma apply_event_keeps_structural:
  assumes "structural_at r (key_of_identity x)" "\<not> lifts x e"
  shows "structural_at (apply_event now e r) (key_of_identity x)"
proof -
  obtain wp rel ty obj where x: "x = (wp, rel, ty, obj)" by (cases x)
  from assms(1) obtain st where "r (identity_key wp rel ty obj) = Some st" "structural st"
    by (auto simp: x structural_at_def key_of_identity_def)
  with assms show ?thesis
    by (cases e)
       (auto simp: x key_of_identity_def lane_defs record_success_keyed_def
          clear_structural_for_relation_def clear_structural_all_def Let_def structural_at_retain)
qed

lemma run_events_keeps_structural:
  assumes "structural_at r (key_of_identity x)" "\<forall>(t, e) \<in> set es. \<not> lifts x e"
  shows "structural_at (run_events es r) (key_of_identity x)"
  using assms
  by (induction es r rule: run_events.induct) (auto simp: apply_event_keeps_structural)


section \<open>Runs of relation and site failures\<close>

fun relation_fail_run :: "nat \<Rightarrow> registry \<Rightarrow> string \<Rightarrow> int \<Rightarrow> registry" where
  "relation_fail_run 0 r wp rel = r"
| "relation_fail_run (Suc n) r wp rel =
     snd (record_structural_relation_failure (relation_fail_run n r wp rel) wp rel)"

lemma relation_fail_run_entry:
  assumes "r (relation_key wp rel) = None" "n \<le> u32_max"
  shows "relation_fail_run n r wp rel (relation_key wp rel) =
    (if n = 0 then None
     else Some \<lparr>consecutive_failures = n, blocked_until = None,
                structural = (RELATION_STRUCTURAL_THRESHOLD \<le> n)\<rparr>)"
  using assms
proof (induction n)
  case 0
  then show ?case by simp
next
  case (Suc n)
  then show ?case
    by (auto simp: record_structural_relation_failure_def bump_entry_def Let_def sat_add_exact
        fresh_state_def backoff_consts)
qed

fun domain_fail_run :: "instant list \<Rightarrow> registry \<Rightarrow> string \<Rightarrow> registry" where
  "domain_fail_run [] r wp = r"
| "domain_fail_run (t # ts) r wp = domain_fail_run ts (snd (record_domain_transport_failure t t r wp)) wp"

lemma domain_fail_run_snoc:
  "domain_fail_run (ts @ [t]) r wp = snd (record_domain_transport_failure t t (domain_fail_run ts r wp) wp)"
  by (induction ts arbitrary: r) simp_all

lemma domain_fail_run_entry:
  assumes "r (domain_key wp) = None" "length ts \<le> u32_max"
  shows "domain_fail_run ts r wp (domain_key wp) =
    (if ts = [] then None
     else Some \<lparr>consecutive_failures = length ts,
                blocked_until = (if DOMAIN_TRANSPORT_THRESHOLD \<le> length ts
                                 then Some (last ts + DOMAIN_CIRCUIT_SECS * ns_per_sec) else None),
                structural = False\<rparr>)"
  using assms(2)
proof (induction ts rule: rev_induct)
  case Nil
  with assms show ?case by simp
next
  case (snoc t ts)
  then show ?case
    by (auto simp: domain_fail_run_snoc record_domain_transport_failure_def bump_entry_def Let_def
        sat_add_exact fresh_state_def backoff_consts)
qed

section \<open>Properties\<close>

text \<open>C40: Every registry the operations can build satisfies the entry invariant: the counter
  fits \<open>u32\<close>, a permanent skip carries no deadline and exists only for identities and relations,
  a relation is poisoned exactly from its fifth consecutive structural failure, and an outbox entry is a
  pure timed hold.\<close>

theorem backoff_registry_invariant:
  assumes "backoff_reachable r" "r k = Some st"
  shows "consecutive_failures st \<le> u32_max
    \<and> (structural st \<longrightarrow> blocked_until st = None \<and> (prefix ''id|'' k \<or> prefix ''rel|'' k))
    \<and> (prefix ''rel|'' k \<longrightarrow> blocked_until st = None \<and> structural st = (5 \<le> consecutive_failures st))
    \<and> (prefix ''outbox|'' k \<longrightarrow> blocked_until st \<noteq> None \<and> consecutive_failures st = 0)"
  using reachable_registry_ok [OF assms(1)] assms(2)
  by (auto simp: registry_ok_def entry_ok_def RELATION_STRUCTURAL_THRESHOLD_def)

theorem backoff_registry_invariant_witness:
  "\<exists>r st. backoff_reachable r \<and> r (domain_key ''s'') = Some st \<and> consecutive_failures st \<le> u32_max"
proof -
  let ?r = "apply_event 5 (DomainTransport ''s'') Map.empty"
  have r: "backoff_reachable ?r" by (intro backoff_reachable.intros)
  obtain st where st: "?r (domain_key ''s'') = Some st"
    by (simp add: record_domain_transport_failure_def Let_def)
  show ?thesis using r st backoff_registry_invariant [OF r st] by blast
qed

text \<open>C34: A structural failure is a permanent skip: whatever events follow, and however much time
  passes, the identity stays blocked as long as none of the events is a success of that identity
  or a configuration change that covers it. Timed failures in particular never downgrade it.\<close>

theorem structural_skip_permanent:
  assumes "\<forall>(t, e) \<in> set es. \<not> lifts (wp, rel, ty, obj) e"
  shows "d_blocked (check_identity later
           (run_events es (snd (record_structural_failure r wp rel ty obj))) wp rel ty obj)"
proof -
  have "structural_at (snd (record_structural_failure r wp rel ty obj)) (key_of_identity (wp, rel, ty, obj))"
    by (simp add: lane_defs key_of_identity_def)
  from run_events_keeps_structural [OF this assms] show ?thesis
    by (simp add: check_identity_def key_of_identity_def structural_at_blocked)
qed

theorem structural_skip_permanent_witness:
  "d_blocked (check_identity 99 (run_events
      [(5, Failure ''w'' 1 ''post'' 2), (6, ClearRelation ''w'' 3), (7, DomainTransport ''w'')]
      (snd (record_structural_failure Map.empty ''w'' 1 ''post'' 2))) ''w'' 1 ''post'' 2)"
proof -
  have "\<not> prefix (identity_prefix ''w'' 3) (identity_key ''w'' 1 ''post'' 2)"
    by (subst identity_prefix_iff) (simp_all add: no_bar_def)
  then show ?thesis
    using structural_skip_permanent
      [of "[(5, Failure ''w'' 1 ''post'' 2), (6, ClearRelation ''w'' 3), (7, DomainTransport ''w'')]"
          "''w''" 1 "''post''" 2 99 Map.empty]
    by (simp add: key_of_identity_def)
qed

text \<open>C22: A configuration change on one relation clears exactly that relation: its structural
  identities and its poison go, its timed cooldowns stay, and no entry of another relation,
  another site or another kind of key changes.\<close>

theorem clear_relation_exact:
  assumes "no_bar wp" "no_bar wp'"
  shows "clear_structural_for_relation r wp rel (identity_key wp' rel' ty obj) =
      (if structural_at r (identity_key wp' rel' ty obj) \<and> trim wp' = trim wp \<and> rel' = rel
       then None else r (identity_key wp' rel' ty obj))
    \<and> clear_structural_for_relation r wp rel (relation_key wp' rel') =
      (if structural_at r (relation_key wp' rel') \<and> trim wp' = trim wp \<and> rel' = rel
       then None else r (relation_key wp' rel'))
    \<and> clear_structural_for_relation r wp rel (component_key c) = r (component_key c)
    \<and> clear_structural_for_relation r wp rel (domain_key wp') = r (domain_key wp')
    \<and> clear_structural_for_relation r wp rel (outbox_key wp' i) = r (outbox_key wp' i)"
proof -
  have rel: "relation_key wp' rel' = relation_key wp rel \<longleftrightarrow> trim wp' = trim wp \<and> rel' = rel"
    using assms by (simp add: relation_key_inject)
  have other: "component_key c \<noteq> relation_key wp rel" "domain_key wp' \<noteq> relation_key wp rel"
    "outbox_key wp' i \<noteq> relation_key wp rel" by (simp_all add: key_defs)
  show ?thesis
    unfolding clear_relation_at identity_prefix_iff [OF assms] rel by (simp add: other)
qed

theorem clear_relation_exact_witness:
  "clear_structural_for_relation (snd (record_structural_failure Map.empty ''a'' 1 ''post'' 2)) ''a'' 1
     (identity_key ''a'' 1 ''post'' 2) = None"
  using clear_relation_exact [of "''a''" "''a''" "snd (record_structural_failure Map.empty ''a'' 1 ''post'' 2)"
      1 1 "''post''" 2 "''c''" 0]
  by (simp add: no_bar_def lane_defs)

text \<open>C33: The cooldown ladder of a content identity. After a success, the n-th failure in a
  row blocks the identity for 30 s, 60 s, and from the third on for 30 minutes, counted from that
  failure and to the nanosecond.\<close>

theorem identity_cooldown_ladder:
  assumes "length ts < u32_max"
  shows "d_blocked (identity_chk later (fail_run identity_fail (ts @ [now]) (identity_ok r x) x) x) \<longleftrightarrow>
    later < now + (if length ts = 0 then 30 else if length ts = 1 then 60 else 1800) * ns_per_sec"
  using id_lane.streak_blocks [OF assms] by (auto simp: cooldown_values)

theorem identity_cooldown_ladder_witness:
  "\<not> d_blocked (identity_chk (100 + 60 * ns_per_sec)
     (fail_run identity_fail ([50] @ [100]) (identity_ok Map.empty (''w'', 1, ''post'', 2)) (''w'', 1, ''post'', 2))
     (''w'', 1, ''post'', 2))"
  using identity_cooldown_ladder [of "[50]" "100 + 60 * ns_per_sec" 100 Map.empty "(''w'', 1, ''post'', 2)"]
  by (simp add: u32_max_def)

text \<open>C24: The component circuit. Three failures in a row block a component for half an hour for
  every object; the streak of one component changes nothing for a component with another id (ids
  compare trimmed and lower-cased), and one success reopens it at once.\<close>

theorem component_circuit:
  assumes "2 \<le> length ts" "length ts < u32_max"
    and "component_key c \<noteq> component_key c'"
  shows "(d_blocked (check_component later
            (fail_run record_component_failure (ts @ [now]) (record_component_success r c) c) c)
          \<longleftrightarrow> later < now + 1800 * ns_per_sec)
    \<and> check_component later (fail_run record_component_failure (ts @ [now]) r c) c' = check_component later r c'
    \<and> \<not> d_blocked (check_component later
         (record_component_success (fail_run record_component_failure (ts @ [now]) r c) c) c)"
  using comp_lane.streak_blocks [OF assms(2)] comp_lane.fail_run_frame [OF assms(3)]
    comp_lane.ok_lifts assms(1)
  by (auto simp: cooldown_values)

theorem component_circuit_witness:
  "d_blocked (check_component 9 (fail_run record_component_failure ([1, 2] @ [3])
      (record_component_success Map.empty ''deepl'') ''deepl'') ''deepl'')"
  using component_circuit [of "[1, 2]" "''deepl''" "''azure''" 9 3 Map.empty]
  by (simp add: u32_max_def ns_per_sec_def component_key_def to_lowercase_def trim_def trim_by_def
      is_ws_def lower_char_def)

text \<open>C25: A relation whose items only fail structurally is poisoned by exactly the fifth
  consecutive failure, for good; a success lifts it.\<close>

theorem relation_poison_threshold:
  assumes "r (relation_key wp rel) = None" "n \<le> u32_max"
  shows "d_blocked (check_relation later (relation_fail_run n r wp rel) wp rel) = (5 \<le> n)
    \<and> \<not> d_blocked (check_relation later
          (record_relation_success (relation_fail_run n r wp rel) wp rel) wp rel)"
  using relation_fail_run_entry [of r wp rel n] assms
  by (simp add: check_relation_def record_relation_success_def)
     (simp add: check_keyed_def remaining_def RELATION_STRUCTURAL_THRESHOLD_def Let_def)

theorem relation_poison_threshold_witness:
  "d_blocked (check_relation 1 (relation_fail_run 5 Map.empty ''w'' 7) ''w'' 7)"
  using relation_poison_threshold [of Map.empty "''w''" 7 5 1] by (simp add: u32_max_def)

text \<open>C26: The dead-site circuit opens on the third consecutive transport failure, never
  earlier, and reopens 600 s after the last failure.\<close>

theorem domain_circuit:
  assumes "r (domain_key wp) = None" "length ts < u32_max"
  shows "d_blocked (check_domain later (domain_fail_run (ts @ [now]) r wp) wp) \<longleftrightarrow>
    2 \<le> length ts \<and> later < now + 600 * ns_per_sec"
  using domain_fail_run_entry [of r wp "ts @ [now]"] assms
  by (auto simp: lane_defs check_keyed_def remaining_def backoff_consts Let_def)

theorem domain_circuit_witness:
  "d_blocked (check_domain 9 (domain_fail_run ([1, 2] @ [3]) Map.empty ''w'') ''w'')"
  using domain_circuit [of Map.empty "''w''" "[1, 2]" 9 3] by (simp add: u32_max_def ns_per_sec_def)

text \<open>C27: Recording an outbox hold changes the answer for no other key, now or later: neither
  for another row or site nor for another lane, although expired holds are dropped on the way.\<close>

theorem outbox_hold_isolated:
  assumes "backoff_reachable r" "k \<noteq> outbox_key wp i" "now \<le> later"
  shows "check_keyed later (note_outbox_hold now r wp i h) k = check_keyed later r k"
proof (cases "r k")
  case None
  with assms(2) show ?thesis by (simp add: note_outbox_hold_def check_keyed_def map_retain_def)
next
  case (Some st)
  with reachable_registry_ok [OF assms(1)] have ok: "entry_ok k st" by (rule entry_ok_at)
  show ?thesis
  proof (cases "prefix ''outbox|'' k")
    case True
    then have "\<not> prefix ''id|'' k" "\<not> prefix ''rel|'' k" by (auto simp: prefix_def)
    with ok True Some assms(2,3) show ?thesis
      by (auto simp: note_outbox_hold_def check_keyed_def map_retain_def entry_ok_def remaining_def
          default_decision_def backoff_consts Let_def split: option.split)
  next
    case False
    with Some assms(2) show ?thesis by (simp add: note_outbox_hold_def check_keyed_def map_retain_def)
  qed
qed

theorem outbox_hold_isolated_witness:
  "check_keyed 5 (note_outbox_hold 4 Map.empty ''a'' 7000 60) (outbox_key ''b'' 7000) = default_decision"
  using outbox_hold_isolated [OF backoff_reachable.empty, of "outbox_key ''b'' 7000" "''a''" 7000 4 5 60]
  by (simp add: outbox_key_inject no_bar_def check_keyed_def trim_def trim_by_def is_ws_def)

text \<open>C34: A hold blocks its key for exactly the time asked, but the guard of the outbox loop
  asks for whole seconds: it lets the row run again as soon as less than one second is left. The
  guard is therefore right only up to the last second of the hold.\<close>

theorem outbox_guard_opens_early:
  assumes "0 < h" "now \<le> later"
  shows "(d_blocked (check_keyed later (note_outbox_hold now r wp i h) (outbox_key wp i)) \<longleftrightarrow>
           later < now + h * ns_per_sec)
    \<and> (outbox_reoffer_skipped later (note_outbox_hold now r wp i h) wp i \<longleftrightarrow>
           later + ns_per_sec \<le> now + h * ns_per_sec)"
proof -
  have "ns_per_sec \<le> a - b \<longleftrightarrow> b + ns_per_sec \<le> a" for a b
    using ns_per_sec_pos by arith
  with assms show ?thesis
    by (auto simp: outbox_reoffer_skipped_def outbox_hold_remaining_def note_outbox_hold_def
        check_keyed_def remaining_def Let_def div_greater_zero_iff)
qed

theorem outbox_guard_opens_early_witness:
  "\<not> outbox_reoffer_skipped (59 * ns_per_sec + 1) (note_outbox_hold 0 Map.empty ''w'' 1 60) ''w'' 1"
  using outbox_guard_opens_early [of 60 0 "59 * ns_per_sec + 1" Map.empty "''w''" 1]
  by (simp add: ns_per_sec_def)

end
