(* ===== verification/ItemTranslation.thy ===== *)
theory ItemTranslation
  imports FieldRouting Backoff "HOL-Library.AList" "HOL-Library.Multiset" "HOL-Library.Char_ord"
    "HOL-Library.Product_Lexorder"
begin

text \<open>
  The translation of one object, \<open>translate_item_fields_with_trace_using_proxy\<close> of \<open>task_engine/pipeline.rs\<close>:
  the rule and its plan, the preparation of each field, the groups by component, the calls with the
  component circuit of \<open>Backoff\<close>, the copy and skip actions, and the payload of the callback. The
  environment holds what is outside: the selection of a component, provider calls, printing and hashing,
  and the times at which the circuit is read and written. A log line has no effect here.
\<close>

section \<open>Rows and state\<close>

record field_result =
  fr_field :: utext
  fr_status :: utext
  fr_content_format :: utext
  fr_storage :: utext
  fr_detail :: utext
  fr_provider :: utext
  fr_merge_target :: utext
  fr_stage :: utext
  fr_reason :: utext

record field_result_meta =
  m_provider :: utext
  m_merge_target :: utext
  m_stage :: utext
  m_reason :: utext

record media_mapping =
  mm_source_id :: nat
  mm_ref :: utext
  mm_attachment :: "nat option"
  mm_source_copy :: bool

text \<open>What the run of one object changes; \<open>st_registry\<close> is the process-wide circuit.\<close>

record item_state =
  st_fields :: "(utext \<times> utext) list"
  st_meta :: "(utext \<times> utext) list"
  st_media :: "(nat \<times> media_mapping) list"
  st_sources :: "(utext \<times> nat) list"
  st_results :: "field_result list"
  st_failed :: nat
  st_used :: "string list"
  st_registry :: registry

record ('c, 'e) item_env =
  e_select :: "discovered_rule option \<Rightarrow> utext \<Rightarrow> (utext \<times> utext) list \<Rightarrow> utext \<Rightarrow> utext \<Rightarrow> 'c option"
  e_resolve :: "'c \<Rightarrow> utext \<Rightarrow> 'c"
  e_client :: "'c \<Rightarrow> utext option"
  e_component :: "'c \<Rightarrow> string"
  e_field :: "'c \<Rightarrow> utext \<Rightarrow> 'e field_env"
  e_media :: "'c \<Rightarrow> utext json \<Rightarrow> utext \<Rightarrow> utext \<Rightarrow> utext \<Rightarrow> 'e + utext \<times> utext"
  e_alnum :: "nat \<Rightarrow> bool"
  e_print :: "utext json \<Rightarrow> utext"
  e_show :: "'e field_error \<Rightarrow> utext"
  e_check_at :: "utext \<Rightarrow> instant"
  e_record_at :: "utext \<Rightarrow> instant"
  e_digest :: "utext \<Rightarrow> utext"
  e_domain_fp :: utext
  e_attempt :: utext
  e_worker :: utext
  e_manual :: "utext option"
  e_request_ok :: "utext \<Rightarrow> bool"

definition fallback_reason_from_detail :: "utext \<Rightarrow> utext" where
  "fallback_reason_from_detail detail =
     (let candidate = trim_by is_ws_cp (takeWhile (\<lambda>c. c \<noteq> 58) (trim_by is_ws_cp detail)) in
      if \<forall>c \<in> set candidate. 97 \<le> c \<and> c \<le> 122 \<or> is_digit_cp c \<or> c = 95 then candidate else [])"

definition push_field_result_with_meta ::
  "utext \<Rightarrow> utext \<Rightarrow> utext \<Rightarrow> utext \<Rightarrow> utext \<Rightarrow> field_result_meta \<Rightarrow> item_state \<Rightarrow> item_state" where
  "push_field_result_with_meta field status format storage detail meta st =
     st\<lparr>st_results := st_results st @
       [\<lparr>fr_field = field, fr_status = status, fr_content_format = format, fr_storage = storage,
         fr_detail = detail, fr_provider = m_provider meta, fr_merge_target = m_merge_target meta,
         fr_stage = m_stage meta,
         fr_reason = (if m_reason meta = [] then fallback_reason_from_detail detail else m_reason meta)\<rparr>]\<rparr>"

definition push_field_result :: "utext \<Rightarrow> utext \<Rightarrow> utext \<Rightarrow> utext \<Rightarrow> utext \<Rightarrow> item_state \<Rightarrow> item_state" where
  "push_field_result field status format storage detail =
     push_field_result_with_meta field status format storage detail
       \<lparr>m_provider = [], m_merge_target = [], m_stage = [], m_reason = fallback_reason_from_detail detail\<rparr>"

definition count_failed :: "nat \<Rightarrow> item_state \<Rightarrow> item_state" where
  "count_failed n st = st\<lparr>st_failed := st_failed st + n\<rparr>"

definition put_field :: "utext \<Rightarrow> utext \<Rightarrow> item_state \<Rightarrow> item_state" where
  "put_field field t st = st\<lparr>st_fields := AList.update field t (st_fields st)\<rparr>"

definition put_meta :: "utext \<Rightarrow> utext \<Rightarrow> item_state \<Rightarrow> item_state" where
  "put_meta field t st = st\<lparr>st_meta := AList.update field t (st_meta st)\<rparr>"

text \<open>The destination of a text by the storage of its field.\<close>

definition put_by_storage :: "utext \<Rightarrow> utext \<Rightarrow> utext \<Rightarrow> item_state \<Rightarrow> item_state" where
  "put_by_storage storage field t st = (if is_meta_storage storage then put_meta field t st else put_field field t st)"

definition field_result_meta_for_prepared :: "prepared_field \<Rightarrow> utext \<Rightarrow> utext \<Rightarrow> field_result_meta" where
  "field_result_meta_for_prepared p provider_component merge_target =
     \<lparr>m_provider = provider_component, m_merge_target = merge_target,
      m_stage = transform_stage_for_prepared p, m_reason = []\<rparr>"

section \<open>Copy and skip\<close>

fun patch_string_for_copy :: "(utext json \<Rightarrow> utext) \<Rightarrow> utext json \<Rightarrow> utext option" where
  "patch_string_for_copy print JNull = None"
| "patch_string_for_copy print (JString t) = Some t"
| "patch_string_for_copy print v = Some (print v)"

definition skip_field :: "utext \<Rightarrow> item_state \<Rightarrow> item_state" where
  "skip_field field_name = push_field_result field_name (cps ''skipped'') [] [] (cps ''user_excluded'')"

definition copy_field ::
  "(utext json \<Rightarrow> utext) \<Rightarrow> discovered_rule option \<Rightarrow> utext \<Rightarrow> members \<Rightarrow> utext \<Rightarrow> item_state \<Rightarrow> item_state" where
  "copy_field print rule ty complete_data field_name st =
     (if field_is_protected_name field_name rule
      then push_field_result field_name (cps ''skipped'') [] [] (cps ''blocked_prefix'') st
      else case field_storage rule ty field_name of
        None \<Rightarrow> push_field_result field_name (cps ''failed'') (cps ''plain_text'') [] (cps ''missing_storage_mapping'')
          (count_failed 1 st)
      | Some storage \<Rightarrow>
          (case Option.bind (get_authoritative_field_value complete_data field_name storage) (patch_string_for_copy print) of
             None \<Rightarrow> push_field_result field_name (cps ''skipped'') (cps ''plain_text'') storage (cps ''empty_or_null'') st
           | Some t \<Rightarrow>
               push_field_result_with_meta field_name (cps ''success'') (cps ''plain_text'') storage
                 (cps ''copied_without_provider'')
                 \<lparr>m_provider = [], m_merge_target = merge_target_for_storage storage,
                  m_stage = cps ''copied_without_provider'', m_reason = []\<rparr>
                 (put_by_storage storage field_name t st)))"

definition apply_copy_and_skip_fields ::
  "(utext json \<Rightarrow> utext) \<Rightarrow> discovered_rule option \<Rightarrow> utext \<Rightarrow> members \<Rightarrow> utext list \<Rightarrow> utext list \<Rightarrow> item_state \<Rightarrow> item_state" where
  "apply_copy_and_skip_fields print rule ty complete_data copy_fields skip_fields st =
     fold (copy_field print rule ty complete_data) copy_fields (fold skip_field skip_fields st)"

section \<open>Preparing the fields\<close>

type_synonym groups = "(utext \<times> prepared_field list) list"

text \<open>\<open>entry(key).or_default().push(..)\<close> in a map ordered by its keys.\<close>

fun group_insert :: "utext \<Rightarrow> prepared_field \<Rightarrow> groups \<Rightarrow> groups" where
  "group_insert key p [] = [(key, [p])]"
| "group_insert key p ((k, ps) # gs) =
     (if key = k then (k, ps @ [p]) # gs
      else if key < k then (key, [p]) # (k, ps) # gs
      else (k, ps) # group_insert key p gs)"

definition prepare_field ::
  "(utext json \<Rightarrow> utext) \<Rightarrow> discovered_rule option \<Rightarrow> content_item \<Rightarrow> members \<Rightarrow> utext \<Rightarrow> item_state \<times> groups
   \<Rightarrow> item_state \<times> groups" where
  "prepare_field print rule item complete_data field_name sg =
     (case sg of (st, groups) \<Rightarrow>
      if field_is_protected_name field_name rule
      then (push_field_result field_name (cps ''skipped'') [] [] (cps ''blocked_prefix'') st, groups)
      else
        (let raw_format = or_default (cps ''plain_text'') (resolve_field_content_format rule field_name) in
         case field_storage rule (object_type item) field_name of
           None \<Rightarrow> (push_field_result field_name (cps ''failed'') raw_format [] (cps ''missing_storage_mapping'')
             (count_failed 1 st), groups)
         | Some storage \<Rightarrow>
             (case get_safe_content_format raw_format :: unit field_error + utext of
                Inl _ \<Rightarrow> (push_field_result field_name (cps ''failed'') raw_format storage
                  (cps ''unsupported_content_format'') (count_failed 1 st), groups)
              | Inr content_format \<Rightarrow>
                  (case get_authoritative_field_value complete_data field_name storage of
                     None \<Rightarrow> (push_field_result field_name (cps ''skipped'') content_format []
                       (cps ''missing_in_complete_data'') st, groups)
                   | Some value \<Rightarrow>
                       if subtype item = cps ''wp_global_styles'' \<and> field_name = cps ''post_content'' \<and> as_str value \<noteq> None
                       then (push_field_result_with_meta field_name (cps ''success'') content_format storage
                          (cps ''structure_preserved'')
                          \<lparr>m_provider = [], m_merge_target = cps ''translated_fields'',
                           m_stage = cps ''fse_global_styles_structure_preserved'', m_reason = []\<rparr>
                          (put_field field_name (the (as_str value)) st), groups)
                       else case normalize_field_value_for_translation print value content_format of
                         None \<Rightarrow> (push_field_result field_name (cps ''skipped'') content_format []
                           (cps ''empty_or_null'') st, groups)
                       | Some normalized \<Rightarrow>
                           if content_format = cps ''code'' then
                             (push_field_result_with_meta field_name (cps ''skipped'') content_format storage
                               (cps ''non_translatable_or_no_change'')
                               \<lparr>m_provider = [], m_merge_target = merge_target_for_storage storage,
                                m_stage = cps ''direct'', m_reason = []\<rparr> st, groups)
                           else
                             (let adapter = build_field_format_adapter field_name content_format normalized value complete_data in
                              (st, group_insert (routing_group_key adapter)
                                 \<lparr>p_field_name = field_name, p_normalized = normalized, p_adapter = adapter,
                                  p_storage = storage, p_raw_value = value\<rparr> groups))))))"

section \<open>One prepared field\<close>

definition circuit_detail :: "backoff_decision \<Rightarrow> utext" where
  "circuit_detail d =
     cps ''component_backoff: suppressed '' @ fmt_cps (d_remaining_secs d) @ cps ''s after ''
     @ fmt_cps (d_consecutive_failures d) @ cps '' consecutive component failures''
     @ (if d_circuit_open d then cps '' (circuit open)'' else [])"

definition component_succeeded :: "string \<Rightarrow> item_state \<Rightarrow> item_state" where
  "component_succeeded cid st = st\<lparr>st_registry := record_component_success (st_registry st) cid\<rparr>"

definition component_failed :: "instant \<Rightarrow> string \<Rightarrow> item_state \<Rightarrow> item_state" where
  "component_failed now cid st = st\<lparr>st_registry := snd (record_component_failure now (st_registry st) cid)\<rparr>"

definition map_media :: "utext \<Rightarrow> nat \<Rightarrow> utext \<Rightarrow> item_state \<Rightarrow> item_state" where
  "map_media field_name source_id translated_ref st =
     st\<lparr>st_media := AList.update source_id
          \<lparr>mm_source_id = source_id, mm_ref = translated_ref, mm_attachment = None, mm_source_copy = False\<rparr> (st_media st),
        st_sources := AList.update field_name source_id (st_sources st)\<rparr>"

text \<open>A media file that the provider answered for.\<close>

definition deliver_media ::
  "discovered_rule option \<Rightarrow> utext \<Rightarrow> utext \<Rightarrow> utext \<Rightarrow> field_result_meta \<Rightarrow> nat \<Rightarrow> utext \<Rightarrow> utext
   \<Rightarrow> item_state \<Rightarrow> item_state" where
  "deliver_media rule field_name format storage meta source_id translated_text translated_ref st =
     (if trim_by is_ws_cp translated_ref = [] then
        push_field_result_with_meta field_name (cps ''failed'') format storage (cps ''media_ref_translate_missing_ref'')
          (meta\<lparr>m_merge_target := cps ''media_mappings''\<rparr>) (count_failed 1 st)
      else
        (let (class_input, class_output) =
               (case rule of None \<Rightarrow> (None, None) | Some r \<Rightarrow> field_class_tokens (field_capabilities r) field_name);
             decision = decide format class_input class_output in
         if text_only decision then
           (case text_product translated_text translated_ref of
              None \<Rightarrow> push_field_result_with_meta field_name (cps ''failed'') format storage
                (cps ''text_output_missing'') meta (count_failed 1 st)
            | Some t \<Rightarrow>
                push_field_result_with_meta field_name (cps ''success'') format storage (class_detail decision)
                  (meta\<lparr>m_merge_target := merge_target_for_storage storage, m_stage := class_detail decision\<rparr>)
                  (put_by_storage storage field_name t st))
         else if 0 < source_id then
           push_field_result_with_meta field_name (cps ''success'') format storage (cps ''media_mapping_created'')
             (meta\<lparr>m_merge_target := cps ''media_mappings''\<rparr>) (map_media field_name source_id translated_ref st)
         else
           push_field_result_with_meta field_name (cps ''success'') format storage (cps ''media_ref_url_translated'')
             (meta\<lparr>m_merge_target := merge_target_for_storage storage\<rparr>)
             (put_by_storage storage field_name translated_ref st)))"

definition translate_media_field ::
  "('c, 'e) item_env \<Rightarrow> discovered_rule option \<Rightarrow> members \<Rightarrow> 'c \<Rightarrow> utext \<Rightarrow> prepared_field \<Rightarrow> item_state \<Rightarrow> item_state" where
  "translate_media_field env rule complete_data runtime selected_task_type p st =
     (let field_name = p_field_name p;
          format = source_content_format (p_adapter p);
          storage = p_storage p;
          cid = e_component env runtime;
          meta = field_result_meta_for_prepared p (cps cid) (merge_target_for_storage storage);
          media_meta = meta\<lparr>m_merge_target := cps ''media_mappings''\<rparr> in
      case extract_media_reference_for_field field_name (p_raw_value p) complete_data of
        None \<Rightarrow> push_field_result_with_meta field_name (cps ''failed'') format storage (cps ''media_ref_source_missing'')
          media_meta (count_failed 1 st)
      | Some (source_id, source_ref) \<Rightarrow>
          (case e_media env runtime (p_raw_value p) source_ref
              (infer_media_task_type_from_ref source_ref selected_task_type) field_name of
             Inr (translated_text, translated_ref) \<Rightarrow>
               deliver_media rule field_name format storage meta source_id translated_text translated_ref
                 (component_succeeded cid st)
           | Inl err \<Rightarrow>
               push_field_result_with_meta field_name (cps ''failed'') format storage
                 (cps ''media_ref_translate_failed: '' @ e_show env (ProviderFailed err)) media_meta
                 (component_failed (e_record_at env field_name) cid (count_failed 1 st))))"

text \<open>The parser of serialized values never leaves its table, so the outer option is always a value.\<close>

lemma translate_field_value_total: "\<exists>r. translate_field_value env t field format = Some r"
  using php_translatable_total [of "f_url env" t]
  by (auto simp: translate_field_value_def translate_serialized_php_def)

definition field_translation :: "'e field_env \<Rightarrow> utext \<Rightarrow> utext \<Rightarrow> utext \<Rightarrow> 'e field_error + utext option" where
  "field_translation env t field format =
     (case translate_field_value env t field format of Some r \<Rightarrow> r | None \<Rightarrow> Inl JsonTooDeep)"

definition translate_text_field ::
  "('c, 'e) item_env \<Rightarrow> 'c \<Rightarrow> prepared_field \<Rightarrow> item_state \<Rightarrow> item_state" where
  "translate_text_field env runtime p st =
     (let field_name = p_field_name p;
          format = source_content_format (p_adapter p);
          storage = p_storage p;
          cid = e_component env runtime;
          fenv = e_field env runtime field_name;
          meta = field_result_meta_for_prepared p (cps cid) (merge_target_for_storage storage) in
      case field_translation fenv (strip_translation_markers (e_alnum env) (n_text (p_normalized p))) field_name
          (execution_content_format (p_adapter p)) of
        Inr (Some translated) \<Rightarrow>
          push_field_result_with_meta field_name (cps ''success'') format storage (cps ''translated'')
            (meta\<lparr>m_merge_target := merge_target_for_storage storage\<rparr>)
            (put_by_storage storage field_name
              (restore_translated_value_after_translation (f_parse fenv) translated (restore_plan (p_normalized p)))
              (component_succeeded cid st))
      | Inr None \<Rightarrow>
          push_field_result_with_meta field_name (cps ''skipped'') format storage
            (cps ''non_translatable_or_no_change'') meta st
      | Inl err \<Rightarrow>
          push_field_result_with_meta field_name (cps ''failed'') format storage
            (cps ''field_translate_failed: '' @ e_show env err) meta
            (component_failed (e_record_at env field_name) cid (count_failed 1 st)))"

definition translate_prepared_field ::
  "('c, 'e) item_env \<Rightarrow> discovered_rule option \<Rightarrow> members \<Rightarrow> 'c \<Rightarrow> utext \<Rightarrow> prepared_field \<Rightarrow> item_state \<Rightarrow> item_state" where
  "translate_prepared_field env rule complete_data runtime selected_task_type p st =
     (let d = check_component (e_check_at env (p_field_name p)) (st_registry st) (e_component env runtime) in
      if d_blocked d then
        push_field_result (p_field_name p) (cps ''failed'') (effective_format (p_normalized p)) (p_storage p)
          (circuit_detail d) (count_failed 1 st)
      else if translation_kind (p_adapter p) = MediaAsset
      then translate_media_field env rule complete_data runtime selected_task_type p st
      else translate_text_field env runtime p st)"

section \<open>The groups\<close>

definition selection_payload :: "utext \<Rightarrow> utext \<Rightarrow> prepared_field list \<Rightarrow> members \<Rightarrow> (utext \<times> utext) list" where
  "selection_payload content_format task_type fields_in_group complete_data =
     (if content_format = cps ''media_ref'' then
        (case infer_group_media_file_extension fields_in_group complete_data of
           None \<Rightarrow> [] | Some ext \<Rightarrow> [(cps ''__file_ext'', ext)])
        @ (case fst (media_artifact_hints_for_task_type task_type) of
             None \<Rightarrow> [] | Some v \<Rightarrow> [(cps ''__input_artifact_kind'', v)])
        @ (case snd (media_artifact_hints_for_task_type task_type) of
             None \<Rightarrow> [] | Some v \<Rightarrow> [(cps ''__expected_output_artifact_kind'', v)])
      else [])"

text \<open>The component and the task type it was found for: the preferred one, else text.\<close>

definition select_for_group ::
  "('c, 'e) item_env \<Rightarrow> discovered_rule option \<Rightarrow> utext \<Rightarrow> members \<Rightarrow> prepared_field list \<Rightarrow> field_format_adapter
   \<Rightarrow> ('c \<times> utext) option" where
  "select_for_group env rule business_line complete_data fields_in_group plan =
     (let format = routing_content_format plan;
          preferred = preferred_task_type plan;
          payload = selection_payload format preferred fields_in_group complete_data in
      case e_select env rule business_line payload preferred format of
        Some c \<Rightarrow> Some (c, preferred)
      | None \<Rightarrow>
          if preferred \<noteq> cps ''text''
          then map_option (\<lambda>c. (c, cps ''text'')) (e_select env rule business_line payload (cps ''text'') format)
          else None)"

definition no_component :: "prepared_field \<Rightarrow> item_state \<Rightarrow> item_state" where
  "no_component p = push_field_result (p_field_name p) (cps ''failed'') (effective_format (p_normalized p)) (p_storage p)
     (cps ''no_component_for_format'')"

datatype item_error =
    ProxyUnavailable utext
  | NoComponent utext "utext list"
  | AllFieldsFailed int nat
  | MissingSourceRevision int utext
  | InvalidRequest utext

text \<open>
  One group: the state, the count of groups without a component, and the error of the proxy pool, which ends
  the run (the circuit keeps what was recorded before).
\<close>

definition translate_group ::
  "('c, 'e) item_env \<Rightarrow> discovered_rule option \<Rightarrow> utext \<Rightarrow> members \<Rightarrow> utext \<times> prepared_field list \<Rightarrow> item_state \<times> nat
   \<Rightarrow> item_state \<times> nat \<times> item_error option" where
  "translate_group env rule business_line complete_data entry sn =
     (case (entry, sn) of ((group_key, fields_in_group), (st, without)) \<Rightarrow>
      case fields_in_group of
        [] \<Rightarrow> (st, without, None)
      | p # ps \<Rightarrow>
          (case select_for_group env rule business_line complete_data fields_in_group (p_adapter p) of
             None \<Rightarrow> (fold no_component fields_in_group (count_failed (length fields_in_group) st), without + 1, None)
           | Some (runtime, task_type) \<Rightarrow>
               (let resolved = e_resolve env runtime (routing_content_format (p_adapter p)) in
                case e_client env resolved of
                  Some e \<Rightarrow> (st, without, Some (ProxyUnavailable e))
                | None \<Rightarrow>
                    (fold (translate_prepared_field env rule complete_data resolved task_type) fields_in_group
                       (st\<lparr>st_used := List.insert (e_component env resolved) (st_used st)\<rparr>), without, None))))"

fun translate_groups ::
  "('c, 'e) item_env \<Rightarrow> discovered_rule option \<Rightarrow> utext \<Rightarrow> members \<Rightarrow> groups \<Rightarrow> item_state \<times> nat
   \<Rightarrow> item_state \<times> nat \<times> item_error option" where
  "translate_groups env rule business_line complete_data [] sn = (fst sn, snd sn, None)"
| "translate_groups env rule business_line complete_data (g # gs) sn =
     (case translate_group env rule business_line complete_data g sn of
        (st, without, Some e) \<Rightarrow> (st, without, Some e)
      | (st, without, None) \<Rightarrow> translate_groups env rule business_line complete_data gs (st, without))"

section \<open>The callback\<close>

record relation =
  relation_id :: int
  relation_source_lang :: utext
  relation_target_lang :: utext

record callback_payload =
  pl_attempt_id :: utext
  pl_object_snapshot_hash :: utext
  pl_source_revision :: utext
  pl_policy_version :: utext
  pl_field_results :: "field_result list"
  pl_relation_id :: nat
  pl_business_line :: utext
  pl_object_type :: utext
  pl_subtype :: utext
  pl_object_id :: nat
  pl_translated_fields :: "(utext \<times> utext) list"
  pl_translated_meta :: "(utext \<times> utext) list"
  pl_media_mappings :: "media_mapping list"
  pl_media_field_sources :: "(utext \<times> nat) list"
  pl_client_task_id :: utext
  pl_outbox_id :: "nat option"
  pl_worker_id :: utext
  pl_source_lang :: utext
  pl_target_lang :: utext

record build_trace =
  tr_payload :: callback_payload
  tr_idempotency_key :: utext
  tr_component_ids :: "string list"

definition canonical_object_type :: "utext \<Rightarrow> utext" where
  "canonical_object_type t =
     (if t = cps ''post'' \<or> t = cps ''post_type'' then cps ''post_type''
      else if t = cps ''term'' \<or> t = cps ''taxonomy'' then cps ''taxonomy''
      else t)"

text \<open>A text of the snapshot that WordPress put into the object when it was claimed.\<close>

definition snapshot_text :: "utext \<Rightarrow> utext json \<Rightarrow> utext" where
  "snapshot_text key data = or_default [] (Option.bind (jget (cps ''__wptsall_job_snapshot'') data) (\<lambda>snapshot.
     Option.bind (jget key snapshot) as_str))"

definition compute_object_snapshot_hash :: "('c, 'e) item_env \<Rightarrow> utext json \<Rightarrow> utext" where
  "compute_object_snapshot_hash env value = e_digest env (e_print env (canonicalize_json_for_hash value))"

definition idempotency_key_of :: "('c, 'e) item_env \<Rightarrow> relation \<Rightarrow> utext \<Rightarrow> content_item \<Rightarrow> utext" where
  "idempotency_key_of env rel ty item =
     (let h = compute_object_snapshot_hash env (complete_data_json item);
          snapshot_fp = (if h = [] then cps ''nohash'' else take 12 h) in
      cps ''discovery-'' @ e_domain_fp env @ cps ''-'' @ cps (fmt_int (relation_id rel)) @ cps ''-'' @ ty
      @ cps ''-'' @ cps (fmt_int (object_id item)) @ cps ''-'' @ snapshot_fp)"

definition bind_manual_callback :: "('c, 'e) item_env \<Rightarrow> build_trace \<Rightarrow> item_error + build_trace" where
  "bind_manual_callback env trace =
     (case e_manual env of
        None \<Rightarrow> Inr trace
      | Some request \<Rightarrow>
          if \<not> e_request_ok env request then Inl (InvalidRequest request)
          else Inr (trace\<lparr>tr_idempotency_key := cps ''manual-'' @ request,
            tr_payload := (tr_payload trace)\<lparr>pl_client_task_id := cps ''manual-'' @ request, pl_attempt_id := request\<rparr>\<rparr>))"

text \<open>The location of an attachment's own file.\<close>

definition attachment_source :: "members \<Rightarrow> utext option" where
  "attachment_source complete_data = nonempty_trim (Option.bind (map_of complete_data (cps ''attachment_url'')) as_str)"

definition attachment_mapping :: "content_item \<Rightarrow> utext \<Rightarrow> media_mapping" where
  "attachment_mapping item source_ref =
     \<lparr>mm_source_id = nat (object_id item), mm_ref = source_ref, mm_attachment = None, mm_source_copy = True\<rparr>"

definition payload_of ::
  "('c, 'e) item_env \<Rightarrow> relation \<Rightarrow> content_item \<Rightarrow> utext \<Rightarrow> utext \<Rightarrow> field_result list \<Rightarrow> media_mapping list
   \<Rightarrow> item_state \<Rightarrow> callback_payload" where
  "payload_of env rel item ty business_line results mappings st =
     \<lparr>pl_attempt_id = e_attempt env,
      pl_object_snapshot_hash = compute_object_snapshot_hash env (complete_data_json item),
      pl_source_revision = snapshot_text (cps ''source_revision'') (complete_data_json item),
      pl_policy_version = snapshot_text (cps ''policy_version'') (complete_data_json item),
      pl_field_results = results, pl_relation_id = nat (relation_id rel), pl_business_line = business_line,
      pl_object_type = ty, pl_subtype = subtype item, pl_object_id = nat (object_id item),
      pl_translated_fields = st_fields st, pl_translated_meta = st_meta st,
      pl_media_mappings = mappings, pl_media_field_sources = st_sources st,
      pl_client_task_id = idempotency_key_of env rel ty item,
      pl_outbox_id = Option.bind (jget (cps ''_wptsall_outbox_id'') (complete_data_json item)) as_u64,
      pl_worker_id = e_worker env, pl_source_lang = relation_source_lang rel, pl_target_lang = relation_target_lang rel\<rparr>"

definition item_start :: "registry \<Rightarrow> item_state" where
  "item_start reg = \<lparr>st_fields = [], st_meta = [], st_media = [], st_sources = [], st_results = [], st_failed = 0,
     st_used = [], st_registry = reg\<rparr>"

definition attachment_result :: field_result where
  "attachment_result = \<lparr>fr_field = cps ''attachment_binary'', fr_status = cps ''success'',
     fr_content_format = cps ''media_ref'', fr_storage = cps ''media_mappings'',
     fr_detail = cps ''attachment_source_copy'', fr_provider = [], fr_merge_target = cps ''media_mappings'',
     fr_stage = cps ''authenticated_source_copy'', fr_reason = []\<rparr>"

definition build_attachment_copy_trace ::
  "('c, 'e) item_env \<Rightarrow> relation \<Rightarrow> content_item \<Rightarrow> members \<Rightarrow> item_error + build_trace option" where
  "build_attachment_copy_trace env rel item complete_data =
     (if subtype item \<noteq> cps ''attachment'' \<or> object_id item \<le> 0 then Inr None
      else case attachment_source complete_data of
        None \<Rightarrow> Inr None
      | Some source_ref \<Rightarrow>
          if snapshot_text (cps ''source_revision'') (complete_data_json item) = []
          then Inl (MissingSourceRevision (object_id item) (cps ''post_type''))
          else Inr (Some
            \<lparr>tr_payload = payload_of env rel item (cps ''post_type'') (cps ''post_content'') [attachment_result]
               [attachment_mapping item source_ref] (item_start Map.empty),
             tr_idempotency_key = idempotency_key_of env rel (cps ''post_type'') item, tr_component_ids = []\<rparr>))"

text \<open>The mappings of the payload, with the attachment's own file when no rule supplied one.\<close>

definition final_mappings :: "content_item \<Rightarrow> members \<Rightarrow> item_state \<Rightarrow> media_mapping list" where
  "final_mappings item complete_data st =
     sort_key mm_source_id
       (let ms = map snd (st_media st) in
        if subtype item = cps ''attachment'' \<and> ms = []
        then (case attachment_source complete_data of None \<Rightarrow> ms | Some r \<Rightarrow> [attachment_mapping item r])
        else ms)"

definition no_output :: "item_state \<Rightarrow> bool" where
  "no_output st \<longleftrightarrow> st_fields st = [] \<and> st_meta st = [] \<and> st_media st = []"

definition finish_item ::
  "('c, 'e) item_env \<Rightarrow> relation \<Rightarrow> content_item \<Rightarrow> members \<Rightarrow> utext \<Rightarrow> groups \<Rightarrow> nat \<Rightarrow> item_state
   \<Rightarrow> item_error + build_trace option" where
  "finish_item env rel item complete_data business_line groups without st =
     (if groups \<noteq> [] \<and> without = length groups \<and> no_output st then Inl (NoComponent business_line (map fst groups))
      else if no_output st then
        (if 0 < st_failed st then Inl (AllFieldsFailed (object_id item) (st_failed st)) else Inr None)
      else
        (let ty = canonical_object_type (object_type item) in
         if snapshot_text (cps ''source_revision'') (complete_data_json item) = []
         then Inl (MissingSourceRevision (object_id item) ty)
         else map_sum (\<lambda>e. e) Some (bind_manual_callback env
           \<lparr>tr_payload = payload_of env rel item ty business_line
              (sort_key (\<lambda>r. (fr_field r, fr_status r)) (st_results st)) (final_mappings item complete_data st) st,
            tr_idempotency_key = idempotency_key_of env rel ty item,
            tr_component_ids = sort (st_used st)\<rparr>)))"

definition rule_of_item :: "content_item \<Rightarrow> members \<Rightarrow> discovered_rule list \<Rightarrow> discovered_rule option" where
  "rule_of_item item complete_data rules =
     or_else (select_rule_for_item item complete_data rules) (build_fse_synthetic_rule item)"

definition plan_of_item :: "discovered_rule option \<Rightarrow> field_action_plan" where
  "plan_of_item rule =
     (case rule of None \<Rightarrow> \<lparr>plan_translate = [], plan_copy = [], plan_skip = []\<rparr> | Some r \<Rightarrow> plan_field_actions r)"

definition members_of :: "utext json \<Rightarrow> members" where
  "members_of data = or_default [] (as_object data)"

text \<open>The state after the preparation, the groups and the copy and skip actions, when no proxy failed.\<close>

definition run_fields ::
  "('c, 'e) item_env \<Rightarrow> discovered_rule option \<Rightarrow> content_item \<Rightarrow> registry
   \<Rightarrow> registry \<times> (item_error + groups \<times> nat \<times> item_state)" where
  "run_fields env rule item reg =
     (let complete_data = members_of (complete_data_json item);
          plan = plan_of_item rule;
          business_line = derive_business_line_from_rule rule (object_type item);
          (st0, groups) = fold (prepare_field (e_print env) rule item complete_data) (plan_translate plan)
            (item_start reg, []) in
      case translate_groups env rule business_line complete_data groups (st0, 0) of
        (st1, without, Some e) \<Rightarrow> (st_registry st1, Inl e)
      | (st1, without, None) \<Rightarrow>
          (let st2 = apply_copy_and_skip_fields (e_print env) rule (object_type item) complete_data (plan_copy plan)
             (plan_skip plan) st1 in
           (st_registry st2, Inr (groups, without, st2))))"

definition translate_item_fields ::
  "('c, 'e) item_env \<Rightarrow> relation \<Rightarrow> discovered_rule list \<Rightarrow> content_item \<Rightarrow> registry
   \<Rightarrow> registry \<times> (item_error + build_trace option)" where
  "translate_item_fields env rel rules item reg =
     (let complete_data = members_of (complete_data_json item);
          rule = rule_of_item item complete_data rules;
          plan = plan_of_item rule in
      if plan_translate plan = [] \<and> plan_copy plan = [] then
        (reg, case build_attachment_copy_trace env rel item complete_data of
           Inl e \<Rightarrow> Inl e
         | Inr None \<Rightarrow> Inr None
         | Inr (Some trace) \<Rightarrow> map_sum (\<lambda>e. e) Some (bind_manual_callback env trace))
      else case run_fields env rule item reg of
        (reg', Inl e) \<Rightarrow> (reg', Inl e)
      | (reg', Inr (groups, without, st)) \<Rightarrow>
          (reg', finish_item env rel item complete_data (derive_business_line_from_rule rule (object_type item))
             groups without st))"

section \<open>Every row has its text\<close>

definition succeeded :: "field_result \<Rightarrow> bool" where
  "succeeded r \<longleftrightarrow> fr_status r = cps ''success''"

definition outputs :: "item_state \<Rightarrow> utext \<Rightarrow> utext set" where
  "outputs st target =
     (if target = cps ''translated_fields'' then fst ` set (st_fields st)
      else if target = cps ''translated_meta'' then fst ` set (st_meta st)
      else if target = cps ''media_mappings'' then fst ` set (st_sources st)
      else {})"

definition delivered :: "item_state \<Rightarrow> utext \<Rightarrow> utext set" where
  "delivered st target =
     fr_field ` set (filter (\<lambda>r. succeeded r \<and> fr_merge_target r = target) (st_results st))"

text \<open>
  \<open>done\<close> has a row each, the failure count is that of the failed rows, and the rows that succeeded are the
  outputs, each at the target that its row names.
\<close>

definition accounted :: "utext multiset \<Rightarrow> item_state \<Rightarrow> bool" where
  "accounted finished st \<longleftrightarrow>
     mset (map fr_field (st_results st)) = finished
     \<and> st_failed st = length (filter (\<lambda>r. fr_status r = cps ''failed'') (st_results st))
     \<and> delivered st = outputs st
     \<and> (st_media st = [] \<longleftrightarrow> st_sources st = [])"

named_theorems rows

lemma accounted_registry [rows]: "accounted d (st\<lparr>st_registry := x\<rparr>) = accounted d st"
  by (simp add: accounted_def delivered_def outputs_def fun_eq_iff)

lemma accounted_used [rows]: "accounted d (st\<lparr>st_used := x\<rparr>) = accounted d st"
  by (simp add: accounted_def delivered_def outputs_def fun_eq_iff)

lemma accounted_component [rows]:
  "accounted d (component_succeeded cid st) = accounted d st"
  "accounted d (component_failed now cid st) = accounted d st"
  by (simp_all add: component_succeeded_def component_failed_def rows)

lemma delivered_push:
  "delivered (push_field_result_with_meta f status format storage detail meta st) target =
     (if status = cps ''success'' \<and> m_merge_target meta = target then insert f (delivered st target) else delivered st target)"
  by (auto simp: delivered_def push_field_result_with_meta_def succeeded_def)

lemma outputs_push [simp]: "outputs (push_field_result_with_meta f status format storage detail meta st) = outputs st"
  by (simp add: fun_eq_iff outputs_def push_field_result_with_meta_def)

lemma accounted_push:
  assumes "accounted d st"
    and "st_failed st' = st_failed st + (if status = cps ''failed'' then 1 else 0)"
    and "st_results st' = st_results st"
    and "outputs st' = (\<lambda>target. if status = cps ''success'' \<and> m_merge_target meta = target
            then insert f (outputs st target) else outputs st target)"
    and "st_media st' = [] \<longleftrightarrow> st_sources st' = []"
  shows "accounted (add_mset f d) (push_field_result_with_meta f status format storage detail meta st')"
proof -
  have "delivered st' = delivered st" using assms(3) by (simp add: delivered_def fun_eq_iff)
  with assms show ?thesis
    by (auto simp: accounted_def fun_eq_iff delivered_push)
      (auto simp: push_field_result_with_meta_def)
qed

lemma accounted_failed [rows]:
  "accounted d st \<Longrightarrow>
   accounted (add_mset f d) (push_field_result_with_meta f (cps ''failed'') format storage detail meta (count_failed (Suc 0) st))"
  by (rule accounted_push) (auto simp: count_failed_def outputs_def accounted_def fun_eq_iff)

lemma accounted_skipped [rows]:
  "accounted d st \<Longrightarrow>
   accounted (add_mset f d) (push_field_result_with_meta f (cps ''skipped'') format storage detail meta st)"
  by (rule accounted_push) (auto simp: outputs_def accounted_def)

lemma outputs_put_by_storage:
  "outputs (put_by_storage storage f t st) =
     (\<lambda>target. if merge_target_for_storage storage = target then insert f (outputs st target) else outputs st target)"
  by (auto simp: fun_eq_iff outputs_def put_by_storage_def put_meta_def put_field_def merge_target_for_storage_def
      dom_update split: if_splits)

lemma accounted_text [rows]:
  assumes "accounted d st" "m_merge_target meta = merge_target_for_storage storage'"
  shows "accounted (add_mset f d)
    (push_field_result_with_meta f (cps ''success'') format storage detail meta (put_by_storage storage' f t st))"
proof (rule accounted_push [OF assms(1)])
  show "outputs (put_by_storage storage' f t st) =
      (\<lambda>target. if cps ''success'' = cps ''success'' \<and> m_merge_target meta = target
        then insert f (outputs st target) else outputs st target)"
    by (simp add: outputs_put_by_storage assms(2))
qed (use assms(1) in \<open>simp_all add: put_by_storage_def put_meta_def put_field_def accounted_def\<close>)

lemma accounted_field [rows]:
  assumes "accounted d st" "m_merge_target meta = cps ''translated_fields''"
  shows "accounted (add_mset f d)
    (push_field_result_with_meta f (cps ''success'') format storage detail meta (put_field f t st))"
proof -
  have "put_field f t st = put_by_storage (cps ''post_column'') f t st"
    by (simp add: put_by_storage_def is_meta_storage_def)
  with accounted_text [OF assms(1), of meta "cps ''post_column''"] assms(2) show ?thesis
    by (simp add: merge_target_for_storage_def is_meta_storage_def)
qed

lemma update_not_Nil [simp]: "AList.update k v xs \<noteq> []"
  by (cases xs) auto

lemma accounted_media [rows]:
  assumes "accounted d st" "m_merge_target meta = cps ''media_mappings''"
  shows "accounted (add_mset f d)
    (push_field_result_with_meta f (cps ''success'') format storage detail meta (map_media f sid r st))"
proof (rule accounted_push [OF assms(1)])
  show "outputs (map_media f sid r st) = (\<lambda>target. if cps ''success'' = cps ''success'' \<and> m_merge_target meta = target
      then insert f (outputs st target) else outputs st target)"
    by (auto simp: fun_eq_iff outputs_def map_media_def dom_update assms(2))
qed (auto simp: map_media_def)

lemma accounted_push_result [rows]:
  "accounted d st \<Longrightarrow> accounted (add_mset f d) (push_field_result f (cps ''failed'') format storage detail (count_failed (Suc 0) st))"
  "accounted d st \<Longrightarrow> accounted (add_mset f d) (push_field_result f (cps ''skipped'') format storage detail st)"
  unfolding push_field_result_def by (rule rows; assumption)+

lemma skip_accounted: "accounted d st \<Longrightarrow> accounted (add_mset f d) (skip_field f st)"
  by (simp add: skip_field_def rows)

lemma copy_accounted: "accounted d st \<Longrightarrow> accounted (add_mset f d) (copy_field print rule ty data f st)"
  by (auto simp: copy_field_def intro!: rows split: option.splits)

lemma deliver_media_accounted:
  "accounted d st \<Longrightarrow> accounted (add_mset f d) (deliver_media rule f format storage meta sid t r st)"
  by (auto simp: deliver_media_def Let_def intro!: rows split: option.splits prod.splits)

lemma failed_component_commute:
  "component_failed now cid (count_failed n st) = count_failed n (component_failed now cid st)"
  by (simp add: component_failed_def count_failed_def)

lemma text_field_accounted:
  "accounted d st \<Longrightarrow> accounted (add_mset (p_field_name p) d) (translate_text_field env c p st)"
  by (auto simp: translate_text_field_def Let_def rows failed_component_commute intro!: rows split: sum.splits option.splits)

lemma media_field_accounted:
  "accounted d st \<Longrightarrow> accounted (add_mset (p_field_name p) d) (translate_media_field env rule data c ty p st)"
  by (auto simp: translate_media_field_def Let_def rows failed_component_commute
      intro!: rows deliver_media_accounted split: sum.splits option.splits)

lemma prepared_field_accounted:
  "accounted d st \<Longrightarrow> accounted (add_mset (p_field_name p) d) (translate_prepared_field env rule data c ty p st)"
  by (auto simp: translate_prepared_field_def Let_def intro!: rows media_field_accounted text_field_accounted)

text \<open>An operation that adds one row for each element of a list.\<close>

lemma fold_accounted:
  assumes step: "\<And>x d st. accounted d st \<Longrightarrow> accounted (add_mset (name x) d) (f x st)"
  shows "accounted d st \<Longrightarrow> accounted (d + mset (map name xs)) (fold f xs st)"
proof (induction xs arbitrary: d st)
  case (Cons x xs)
  from Cons.IH [OF step [OF Cons.prems, of x]] show ?case by simp
qed simp

lemma no_component_count:
  "no_component p (count_failed n st) = count_failed n (no_component p st)"
  by (simp add: no_component_def push_field_result_def push_field_result_with_meta_def count_failed_def)

lemma no_component_fold_count:
  "fold no_component ps (count_failed n st) = count_failed n (fold no_component ps st)"
  by (induction ps arbitrary: st) (simp_all add: no_component_count)

lemma count_failed_add: "count_failed m (count_failed n st) = count_failed (n + m) st"
  by (simp add: count_failed_def)

lemma no_component_fold:
  "fold no_component ps (count_failed (length ps) st) = fold (\<lambda>p st. no_component p (count_failed (Suc 0) st)) ps st"
proof (induction ps arbitrary: st)
  case (Cons p ps)
  have "fold no_component ps (no_component p (count_failed (Suc (length ps)) st))
      = fold no_component ps (count_failed (length ps) (no_component p (count_failed (Suc 0) st)))"
    by (simp add: no_component_count count_failed_add)
  then show ?case by (simp add: Cons.IH)
qed (simp add: count_failed_def)

lemma no_component_accounted: "accounted d st \<Longrightarrow>
    accounted (add_mset (p_field_name p) d) (no_component p (count_failed (Suc 0) st))"
  by (simp add: no_component_def rows)

definition group_fields :: "groups \<Rightarrow> utext multiset" where
  "group_fields gs = mset (concat (map (map p_field_name \<circ> snd) gs))"

lemma group_fields_Cons [simp]: "group_fields ((k, ps) # gs) = mset (map p_field_name ps) + group_fields gs"
  by (simp add: group_fields_def)

lemma group_fields_insert: "group_fields (group_insert key p gs) = add_mset (p_field_name p) (group_fields gs)"
  by (induction key p gs rule: group_insert.induct) (simp_all add: group_fields_def)

lemma group_accounted:
  assumes "accounted d st" "translate_group env rule bl data (k, ps) (st, n) = (st', n', None)"
  shows "accounted (d + mset (map p_field_name ps)) st'"
proof (cases ps)
  case Nil
  with assms show ?thesis by (simp add: translate_group_def)
next
  case (Cons p rest)
  show ?thesis
  proof (cases "select_for_group env rule bl data ps (p_adapter p)")
    case None
    with assms(2) Cons have "st' = fold no_component ps (count_failed (length ps) st)"
      by (simp add: translate_group_def)
    with fold_accounted [where name = p_field_name and xs = ps, OF no_component_accounted assms(1)] show ?thesis
      by (simp add: no_component_fold)
  next
    case (Some ct)
    obtain c ty where ct: "ct = (c, ty)" by (cases ct)
    let ?r = "e_resolve env c (routing_content_format (p_adapter p))"
    from assms(2) Some ct Cons have
      "st' = fold (translate_prepared_field env rule data ?r ty) ps
        (st\<lparr>st_used := List.insert (e_component env ?r) (st_used st)\<rparr>)"
      by (auto simp: translate_group_def Let_def split: option.splits)
    moreover have "accounted d (st\<lparr>st_used := List.insert (e_component env ?r) (st_used st)\<rparr>)"
      using assms(1) by (simp add: rows)
    ultimately show ?thesis
      using fold_accounted [where name = p_field_name and f = "translate_prepared_field env rule data ?r ty",
          OF prepared_field_accounted] by blast
  qed
qed

lemma groups_accounted:
  "accounted d (fst sn) \<Longrightarrow> translate_groups env rule bl data gs sn = (st', n', None) \<Longrightarrow>
   accounted (d + group_fields gs) st'"
proof (induction gs arbitrary: d sn)
  case Nil
  then show ?case by (simp add: group_fields_def)
next
  case (Cons g gs)
  obtain k ps st n where g: "g = (k, ps)" and sn: "sn = (st, n)" by (cases g, cases sn)
  obtain st1 n1 e where t: "translate_group env rule bl data (k, ps) (st, n) = (st1, n1, e)"
    using prod_cases3 by blast
  from Cons.prems(2) t have e: "e = None" and rest: "translate_groups env rule bl data gs (st1, n1) = (st', n', None)"
    by (auto simp: g sn split: option.splits)
  from group_accounted [of d st env rule bl data k ps n st1 n1] Cons.prems(1) t e sn
  have "accounted (d + mset (map p_field_name ps)) (fst (st1, n1))" by simp
  from Cons.IH [OF this rest] show ?case by (simp add: g add.assoc)
qed

definition grouped :: "utext \<Rightarrow> groups \<Rightarrow> groups \<Rightarrow> bool" where
  "grouped f gs gs' \<longleftrightarrow> (\<exists>k p. gs' = group_insert k p gs \<and> p_field_name p = f)"

lemma grouped_insert [simp]: "p_field_name p = f \<Longrightarrow> grouped f gs (group_insert k p gs)"
  by (auto simp: grouped_def)

lemma prepare_accounted:
  assumes "accounted d st" "prepare_field print rule item data f (st, gs) = (st', gs')"
  shows "\<exists>d'. accounted d' st' \<and> d' + group_fields gs' = add_mset f (d + group_fields gs)"
proof -
  have "st' = st \<and> grouped f gs gs' \<or> gs' = gs \<and> accounted (add_mset f d) st'"
    using assms(2)
    unfolding prepare_field_def prod.case Let_def
    by (auto simp: assms(1) intro!: rows split: if_splits option.splits sum.splits)
  then show ?thesis
    using assms(1) by (auto simp: grouped_def group_fields_insert intro: exI [of _ d])
qed

lemma prepare_fold_accounted:
  "accounted d st \<Longrightarrow> fold (prepare_field print rule item data) names (st, gs) = (st', gs') \<Longrightarrow>
   \<exists>d'. accounted d' st' \<and> d' + group_fields gs' = d + group_fields gs + mset names"
proof (induction names arbitrary: d st gs)
  case (Cons f names)
  obtain st1 gs1 where p: "prepare_field print rule item data f (st, gs) = (st1, gs1)"
    by (cases "prepare_field print rule item data f (st, gs)")
  from prepare_accounted [OF Cons.prems(1) p] obtain d1 where d1: "accounted d1 st1"
    "d1 + group_fields gs1 = add_mset f (d + group_fields gs)" by blast
  from Cons.prems(2) p have "fold (prepare_field print rule item data) names (st1, gs1) = (st', gs')" by simp
  from Cons.IH [OF d1(1) this] d1(2) show ?case by auto
qed auto

lemma start_accounted: "accounted {#} (item_start reg)"
  by (simp add: accounted_def item_start_def delivered_def outputs_def fun_eq_iff)

lemma run_fields_stages:
  assumes "run_fields env rule item reg = (reg', Inr (gs, n, st))"
  shows "\<exists>st1. accounted (mset (plan_translate (plan_of_item rule))) st1
    \<and> st = apply_copy_and_skip_fields (e_print env) rule (object_type item) (members_of (complete_data_json item))
        (plan_copy (plan_of_item rule)) (plan_skip (plan_of_item rule)) st1"
proof -
  let ?data = "members_of (complete_data_json item)" and ?plan = "plan_of_item rule"
  let ?bl = "derive_business_line_from_rule rule (object_type item)"
  obtain st0 gs0 where p: "fold (prepare_field (e_print env) rule item ?data) (plan_translate ?plan)
      (item_start reg, []) = (st0, gs0)" by fastforce
  from prepare_fold_accounted [OF start_accounted p] obtain d0 where
    d0: "accounted d0 st0" "d0 + group_fields gs0 = mset (plan_translate ?plan)"
    by (auto simp: group_fields_def)
  obtain st1 m e where t: "translate_groups env rule ?bl ?data gs0 (st0, 0) = (st1, m, e)"
    using prod_cases3 by blast
  from assms p t have e: "e = None" and st: "st = apply_copy_and_skip_fields (e_print env) rule (object_type item) ?data
      (plan_copy ?plan) (plan_skip ?plan) st1"
    by (auto simp: run_fields_def Let_def split: option.splits)
  have "accounted d0 (fst (st0, 0))" using d0(1) by simp
  from groups_accounted [OF this, of env rule ?bl ?data gs0 st1 m] d0(2) t e
  have "accounted (mset (plan_translate ?plan)) st1" by simp
  with st show ?thesis by blast
qed

lemma run_fields_accounted:
  assumes "run_fields env rule item reg = (reg', Inr (gs, n, st))"
  shows "accounted (mset (plan_translate (plan_of_item rule) @ plan_copy (plan_of_item rule)
    @ plan_skip (plan_of_item rule))) st"
proof -
  let ?data = "members_of (complete_data_json item)" and ?plan = "plan_of_item rule"
  from run_fields_stages [OF assms] obtain st1 where a: "accounted (mset (plan_translate ?plan)) st1"
    and st: "st = apply_copy_and_skip_fields (e_print env) rule (object_type item) ?data
      (plan_copy ?plan) (plan_skip ?plan) st1" by blast
  from fold_accounted [where name = "\<lambda>x. x" and f = skip_field and xs = "plan_skip ?plan", OF skip_accounted a]
  have "accounted (mset (plan_translate ?plan) + mset (plan_skip ?plan)) (fold skip_field (plan_skip ?plan) st1)"
    by simp
  from fold_accounted [where name = "\<lambda>x. x" and xs = "plan_copy ?plan"
      and f = "copy_field (e_print env) rule (object_type item) ?data", OF copy_accounted this]
  show ?thesis by (simp add: st apply_copy_and_skip_fields_def ac_simps)
qed

lemma finish_trace:
  assumes "finish_item env rel item data bl gs n st = Inr (Some trace)"
  shows "pl_field_results (tr_payload trace) = sort_key (\<lambda>r. (fr_field r, fr_status r)) (st_results st)"
    "pl_translated_fields (tr_payload trace) = st_fields st"
    "pl_translated_meta (tr_payload trace) = st_meta st"
    "pl_media_field_sources (tr_payload trace) = st_sources st"
  using assms
  by (auto simp: finish_item_def bind_manual_callback_def payload_of_def Let_def split: if_splits option.splits)

lemma outputs_none: "outputs st = (\<lambda>_. {}) \<longleftrightarrow> st_fields st = [] \<and> st_meta st = [] \<and> st_sources st = []"
proof
  assume "outputs st = (\<lambda>_. {})"
  then have "outputs st (cps ''translated_fields'') = {}" "outputs st (cps ''translated_meta'') = {}"
    "outputs st (cps ''media_mappings'') = {}" by simp_all
  then show "st_fields st = [] \<and> st_meta st = [] \<and> st_sources st = []" by (simp add: outputs_def)
qed (simp add: outputs_def fun_eq_iff)

lemma delivered_none: "delivered st = (\<lambda>_. {}) \<longleftrightarrow> list_all (\<lambda>r. \<not> succeeded r) (st_results st)"
  by (auto simp: delivered_def fun_eq_iff list_all_iff filter_empty_conv)

lemma no_output_rows:
  "accounted d st \<Longrightarrow> no_output st \<longleftrightarrow> list_all (\<lambda>r. \<not> succeeded r) (st_results st)"
  unfolding delivered_none [symmetric] by (auto simp: no_output_def accounted_def outputs_none)

section \<open>Copies\<close>

definition stored_text :: "utext \<Rightarrow> item_state \<Rightarrow> utext \<Rightarrow> utext option" where
  "stored_text storage st f = map_of (if is_meta_storage storage then st_meta st else st_fields st) f"

lemma stored_text_simps [simp]:
  "stored_text storage (push_field_result_with_meta f' status format storage' detail meta st) = stored_text storage st"
  "stored_text storage (push_field_result f' status format storage' detail st) = stored_text storage st"
  "stored_text storage (count_failed n st) = stored_text storage st"
  by (simp_all add: fun_eq_iff stored_text_def push_field_result_with_meta_def push_field_result_def count_failed_def)

lemma stored_text_put:
  "stored_text storage (put_by_storage storage' g t st) f =
     (if is_meta_storage storage = is_meta_storage storage' \<and> f = g then Some t else stored_text storage st f)"
  by (auto simp: stored_text_def put_by_storage_def put_meta_def put_field_def update_conv')

lemma copy_other: "f \<noteq> g \<Longrightarrow> stored_text storage (copy_field print rule ty data g st) f = stored_text storage st f"
  by (simp add: copy_field_def stored_text_put split: option.splits)

lemma copy_others: "f \<notin> set names \<Longrightarrow>
    stored_text storage (fold (copy_field print rule ty data) names st) f = stored_text storage st f"
  by (induction names arbitrary: st) (simp_all add: copy_other)

lemma copy_text:
  assumes "f \<in> set names" "distinct names" "\<not> field_is_protected_name f rule"
    and "field_storage rule ty f = Some storage" "get_authoritative_field_value data f storage = Some v"
    and "patch_string_for_copy print v = Some t"
  shows "stored_text storage (fold (copy_field print rule ty data) names st) f = Some t"
  using assms(1,2)
proof (induction names arbitrary: st)
  case (Cons g names)
  show ?case
  proof (cases "f = g")
    case True
    with Cons.prems have "f \<notin> set names" by simp
    have "stored_text storage (copy_field print rule ty data f st) f = Some t"
      using assms(3-6) by (simp add: copy_field_def stored_text_put)
    with \<open>f \<notin> set names\<close> True show ?thesis by (simp add: copy_others)
  next
    case False
    with Cons show ?thesis by simp
  qed
qed simp

lemma skip_outputs: "outputs (fold skip_field names st) = outputs st"
  by (induction names arbitrary: st) (simp_all add: skip_field_def push_field_result_def)

lemma outputs_count [simp]: "outputs (count_failed n st) = outputs st"
  by (simp add: fun_eq_iff outputs_def count_failed_def)

lemma copy_outputs: "outputs (copy_field print rule ty data f st) target \<subseteq> insert f (outputs st target)"
  by (auto simp: copy_field_def outputs_put_by_storage push_field_result_def split: option.splits)

lemma copies_outputs: "outputs (fold (copy_field print rule ty data) names st) target \<subseteq> set names \<union> outputs st target"
proof (induction names arbitrary: st)
  case (Cons f names)
  have "outputs (fold (copy_field print rule ty data) names (copy_field print rule ty data f st)) target
      \<subseteq> set names \<union> outputs (copy_field print rule ty data f st) target" by (rule Cons.IH)
  with copy_outputs [of print rule ty data f st target] show ?case by auto
qed simp

lemma accounted_outputs:
  assumes "accounted d st"
  shows "outputs st target \<subseteq> set_mset d"
proof -
  have "outputs st target = delivered st target" using assms by (simp add: accounted_def)
  moreover have "set_mset d = fr_field ` set (st_results st)" using assms by (auto simp: accounted_def)
  ultimately show ?thesis by (auto simp: delivered_def)
qed

section \<open>What the provider sees\<close>

text \<open>The same environment with other provider calls.\<close>

definition with_calls ::
  "('c \<Rightarrow> utext \<Rightarrow> 'e field_env) \<Rightarrow> ('c \<Rightarrow> utext json \<Rightarrow> utext \<Rightarrow> utext \<Rightarrow> utext \<Rightarrow> 'e + utext \<times> utext)
   \<Rightarrow> ('c, 'e) item_env \<Rightarrow> ('c, 'e) item_env" where
  "with_calls f m env = env\<lparr>e_field := f, e_media := m\<rparr>"

definition calls_agree ::
  "utext set \<Rightarrow> ('c \<Rightarrow> utext \<Rightarrow> 'e field_env) \<Rightarrow> ('c \<Rightarrow> utext json \<Rightarrow> utext \<Rightarrow> utext \<Rightarrow> utext \<Rightarrow> 'e + utext \<times> utext)
   \<Rightarrow> ('c, 'e) item_env \<Rightarrow> bool" where
  "calls_agree names f m env \<longleftrightarrow>
     (\<forall>c. \<forall>n \<in> names. f c n = e_field env c n) \<and> (\<forall>c v r t. \<forall>n \<in> names. m c v r t n = e_media env c v r t n)"

lemma with_calls_simps [simp]:
  "e_select (with_calls f m env) = e_select env" "e_resolve (with_calls f m env) = e_resolve env"
  "e_client (with_calls f m env) = e_client env" "e_component (with_calls f m env) = e_component env"
  "e_alnum (with_calls f m env) = e_alnum env" "e_print (with_calls f m env) = e_print env"
  "e_show (with_calls f m env) = e_show env" "e_check_at (with_calls f m env) = e_check_at env"
  "e_record_at (with_calls f m env) = e_record_at env" "e_digest (with_calls f m env) = e_digest env"
  "e_domain_fp (with_calls f m env) = e_domain_fp env" "e_attempt (with_calls f m env) = e_attempt env"
  "e_worker (with_calls f m env) = e_worker env" "e_manual (with_calls f m env) = e_manual env"
  "e_request_ok (with_calls f m env) = e_request_ok env" "e_field (with_calls f m env) = f"
  "e_media (with_calls f m env) = m"
  by (simp_all add: with_calls_def)

lemma prepared_field_calls:
  assumes "calls_agree names f m env" "p_field_name p \<in> names"
  shows "translate_prepared_field (with_calls f m env) rule data c ty p st = translate_prepared_field env rule data c ty p st"
  using assms
  by (simp add: calls_agree_def translate_prepared_field_def translate_media_field_def translate_text_field_def Let_def
      cong: sum.case_cong option.case_cong)

lemma group_calls:
  assumes "calls_agree names f m env" "p_field_name ` set ps \<subseteq> names"
  shows "translate_group (with_calls f m env) rule bl data (k, ps) sn = translate_group env rule bl data (k, ps) sn"
proof -
  have sel: "select_for_group (with_calls f m env) = select_for_group env"
    unfolding select_for_group_def [abs_def] with_calls_simps by (rule refl)
  have "fold (translate_prepared_field (with_calls f m env) rule data c ty) ps st
      = fold (translate_prepared_field env rule data c ty) ps st" for c ty st
    by (rule fold_cong) (use assms in \<open>auto intro!: ext prepared_field_calls\<close>)
  then show ?thesis
    unfolding translate_group_def prod.case with_calls_simps sel by (simp only:)
qed

lemma groups_calls:
  "calls_agree names f m env \<Longrightarrow> set_mset (group_fields gs) \<subseteq> names \<Longrightarrow>
   translate_groups (with_calls f m env) rule bl data gs sn = translate_groups env rule bl data gs sn"
proof (induction gs arbitrary: sn)
  case (Cons g gs)
  obtain k ps where g: "g = (k, ps)" by (cases g)
  with Cons.prems have "p_field_name ` set ps \<subseteq> names" "set_mset (group_fields gs) \<subseteq> names" by auto
  with Cons group_calls [OF Cons.prems(1)] show ?case
    by (auto simp: g split: prod.splits option.splits)
qed simp

lemma run_fields_calls:
  assumes "calls_agree (set (plan_translate (plan_of_item rule))) f m env"
  shows "run_fields (with_calls f m env) rule item reg = run_fields env rule item reg"
proof -
  let ?data = "members_of (complete_data_json item)" and ?plan = "plan_of_item rule"
  obtain st0 gs0 where p: "fold (prepare_field (e_print env) rule item ?data) (plan_translate ?plan)
      (item_start reg, []) = (st0, gs0)" by fastforce
  from prepare_fold_accounted [OF start_accounted p] obtain d0 where
    "d0 + group_fields gs0 = mset (plan_translate ?plan)" by (auto simp: group_fields_def)
  then have "set_mset (group_fields gs0) \<subseteq> set (plan_translate ?plan)"
    by (metis set_mset_mset set_mset_union Un_upper2)
  from groups_calls [OF assms this] show ?thesis by (simp add: run_fields_def p Let_def)
qed

lemma callback_calls:
  "bind_manual_callback (with_calls f m env) = bind_manual_callback env"
  "payload_of (with_calls f m env) = payload_of env"
  "idempotency_key_of (with_calls f m env) = idempotency_key_of env"
  unfolding bind_manual_callback_def [abs_def] payload_of_def [abs_def] idempotency_key_of_def [abs_def]
    compute_object_snapshot_hash_def [abs_def] with_calls_simps by (rule refl)+

lemma finish_item_calls: "finish_item (with_calls f m env) = finish_item env"
  unfolding finish_item_def [abs_def] callback_calls by (rule refl)

section \<open>The plan of a group\<close>

definition key_format :: "utext \<Rightarrow> utext" where
  "key_format key = (if prefix (cps ''media_ref::'') key then cps ''media_ref'' else key)"

definition key_task :: "utext \<Rightarrow> utext" where
  "key_task key = (if prefix (cps ''media_ref::'') key then drop (length (cps ''media_ref::'')) key else cps ''text'')"

definition well_grouped :: "groups \<Rightarrow> bool" where
  "well_grouped gs \<longleftrightarrow> sorted_wrt (<) (map fst gs)
     \<and> list_all (\<lambda>(k, ps). ps \<noteq> [] \<and> list_all (\<lambda>p. routing_group_key (p_adapter p) = k
         \<and> routing_content_format (p_adapter p) = key_format k \<and> preferred_task_type (p_adapter p) = key_task k) ps) gs"

lemma safe_format_canonical: "get_safe_content_format raw = Inr f \<Longrightarrow> f \<in> set CANONICAL_CONTENT_FORMATS"
  by (auto simp: get_safe_content_format_def CANONICAL_CONTENT_FORMATS_def Let_def split: if_splits)

lemma normalized_canonical:
  assumes "normalize_field_value_for_translation print v f = Some n" "f \<in> set CANONICAL_CONTENT_FORMATS"
  shows "effective_format n \<in> set CANONICAL_CONTENT_FORMATS"
proof -
  have "effective_format n = f \<or> effective_format n = cps ''json_structured''"
    using assms(1) by (cases v) (auto simp: normalize_field_value_for_translation_def split: if_splits)
  with assms(2) show ?thesis by (auto simp: CANONICAL_CONTENT_FORMATS_def)
qed

lemma canonical_not_media_group:
  "f \<in> set CANONICAL_CONTENT_FORMATS \<Longrightarrow> \<not> prefix (cps ''media_ref::'') f"
  by (auto simp: CANONICAL_CONTENT_FORMATS_def cps_def)

lemma adapter_of_key:
  assumes "effective_format n \<in> set CANONICAL_CONTENT_FORMATS"
  shows "routing_content_format (build_field_format_adapter f src n v data)
      = key_format (routing_group_key (build_field_format_adapter f src n v data))"
    "preferred_task_type (build_field_format_adapter f src n v data)
      = key_task (routing_group_key (build_field_format_adapter f src n v data))"
proof -
  have p: "\<not> prefix (cps ''media_ref::'') (cps ''plain_text'')" by (simp add: cps_def)
  show "routing_content_format (build_field_format_adapter f src n v data)
      = key_format (routing_group_key (build_field_format_adapter f src n v data))"
    "preferred_task_type (build_field_format_adapter f src n v data)
      = key_task (routing_group_key (build_field_format_adapter f src n v data))"
    using canonical_not_media_group [OF assms] p
    by (simp_all add: build_field_format_adapter_def plain_text_adapter_def Let_def key_format_def key_task_def
        task_type_for_content_format_def)
qed

lemma group_insert_keys: "fst ` set (group_insert key p gs) = insert key (fst ` set gs)"
  by (induction key p gs rule: group_insert.induct) auto

lemma group_insert_well:
  "well_grouped gs \<Longrightarrow> routing_group_key (p_adapter p) = key \<Longrightarrow> routing_content_format (p_adapter p) = key_format key
   \<Longrightarrow> preferred_task_type (p_adapter p) = key_task key \<Longrightarrow> well_grouped (group_insert key p gs)"
proof (induction key p gs rule: group_insert.induct)
  case (2 key p k ps gs)
  show ?case
  proof (cases "key = k")
    case False
    show ?thesis
    proof (cases "key < k")
      case True
      with 2 False show ?thesis by (fastforce simp: well_grouped_def)
    next
      case less: False
      with False have k: "k < key" by simp
      have "\<forall>x \<in> set (map fst (group_insert key p gs)). k < x"
        using 2(2) k group_insert_keys [of key p gs] by (auto simp: well_grouped_def)
      moreover have "well_grouped (group_insert key p gs)"
        by (rule 2(1) [OF False less]) (use 2(2-) in \<open>simp_all add: well_grouped_def\<close>)
      ultimately show ?thesis using 2(2) False less by (simp add: well_grouped_def)
    qed
  qed (use 2 in \<open>auto simp: well_grouped_def\<close>)
qed (simp add: well_grouped_def)

definition routed :: "utext \<Rightarrow> members \<Rightarrow> groups \<Rightarrow> groups \<Rightarrow> bool" where
  "routed f data gs gs' \<longleftrightarrow> (\<exists>src n v p. effective_format n \<in> set CANONICAL_CONTENT_FORMATS
     \<and> p_adapter p = build_field_format_adapter f src n v data \<and> gs' = group_insert (routing_group_key (p_adapter p)) p gs)"

lemma routed_insert:
  assumes "get_safe_content_format raw = Inr format" "normalize_field_value_for_translation print v format = Some n"
    and "p_adapter p = build_field_format_adapter f src n v data"
  shows "routed f data gs (group_insert (routing_group_key (build_field_format_adapter f src n v data)) p gs)"
  unfolding routed_def
  using normalized_canonical [OF assms(2) safe_format_canonical [OF assms(1)]] assms(3)
  by (intro exI [of _ src] exI [of _ n] exI [of _ v] exI [of _ p]) simp

lemma prepare_well:
  assumes "well_grouped gs" "prepare_field print rule item data f (st, gs) = (st', gs')"
  shows "well_grouped gs'"
proof -
  have "gs' = gs \<or> routed f data gs gs'"
    using assms(2) unfolding prepare_field_def prod.case Let_def
    by (auto intro: routed_insert split: if_splits option.splits sum.splits)
  then show ?thesis
    using assms(1) by (auto simp: routed_def adapter_of_key intro!: group_insert_well)
qed

section \<open>A sample object\<close>

lemma sample_plan: "plan_field_actions sample_rule =
   \<lparr>plan_translate = [cps ''post_title''], plan_copy = [cps ''post_content''], plan_skip = [cps ''post_excerpt'']\<rparr>"
  by (simp add: plan_field_actions_def chosen_actions_def sample_rule_def choose_translate_def choose_explicit_def
      extract_translate_fields_def jget_def explicit_action_def action_token_def fields_with_def marked_translate_def Let_def)

definition sample_item :: content_item where
  "sample_item = \<lparr>object_type = cps ''post'', subtype = cps ''post'', object_id = 5,
     complete_data_json = JObject [(cps ''__wptsall_job_snapshot'', JObject [(cps ''source_revision'', JString (cps ''r1''))]),
       (cps ''post_content'', JString (cps ''Body'')), (cps ''post_excerpt'', JString (cps ''x'')),
       (cps ''post_title'', JString (cps ''Hi''))]\<rparr>"

definition sample_item_env :: "(unit, string) item_env" where
  "sample_item_env = \<lparr>e_select = \<lambda>_ _ _ _ _. Some (), e_resolve = \<lambda>c _. c, e_client = \<lambda>_. None,
     e_component = \<lambda>_. ''c1'', e_field = \<lambda>_ _. sample_field_env, e_media = \<lambda>_ _ _ _ _. Inl ''no'',
     e_alnum = \<lambda>c. c < 128, e_print = serialize_json_value_to_php, e_show = \<lambda>_. [], e_check_at = \<lambda>_. 0,
     e_record_at = \<lambda>_. 0, e_digest = \<lambda>t. t, e_domain_fp = cps ''d'', e_attempt = cps ''a'', e_worker = cps ''w'',
     e_manual = None, e_request_ok = \<lambda>_. True\<rparr>"

definition sample_relation :: relation where
  "sample_relation = \<lparr>relation_id = 3, relation_source_lang = cps ''en'', relation_target_lang = cps ''de''\<rparr>"

lemma sample_rule_selected: "rule_of_item sample_item (members_of (complete_data_json sample_item)) [sample_rule] = Some sample_rule"
  by (simp add: rule_of_item_def select_rule_for_item_def rule_candidates_def data_type_matches_def sample_item_def
      sample_rule_def or_else_def expected_data_type_def)

lemma sample_protected: "\<not> field_is_protected_name (cps ''post_title'') (Some sample_rule)"
  "\<not> field_is_protected_name (cps ''post_content'') (Some sample_rule)"
  by (simp_all add: field_is_protected_name_def BLOCKED_PREFIXES_def cps_def)

lemma sample_storage: "field_storage (Some sample_rule) (cps ''post'') (cps ''post_title'') = Some (cps ''post_column'')"
  "field_storage (Some sample_rule) (cps ''post'') (cps ''post_content'') = Some (cps ''post_column'')"
  "resolve_field_content_format (Some sample_rule) (cps ''post_title'') = None"
  by (simp_all add: field_storage_def resolve_field_storage_def resolve_field_content_format_def
      extract_field_capability_string_def sample_rule_def infer_storage_fallback_def POST_COLUMNS_def)

lemma sample_format: "get_safe_content_format (cps ''plain_text'') = Inr (cps ''plain_text'')"
  by (simp add: get_safe_content_format_def normalize_content_format_alias_def CANONICAL_CONTENT_FORMATS_def
      cps_def lower_cp_def trim_by_def is_ws_cp_def)

lemma sample_prepared:
  "prepare_field print (Some sample_rule) sample_item (members_of (complete_data_json sample_item)) (cps ''post_title'') (st, [])
   = (st, [(cps ''plain_text'', [\<lparr>p_field_name = cps ''post_title'',
        p_normalized = \<lparr>n_text = cps ''Hi'', effective_format = cps ''plain_text'', restore_plan = RestoreNone\<rparr>,
        p_adapter = (plain_text_adapter (cps ''plain_text'')),
        p_storage = cps ''post_column'', p_raw_value = JString (cps ''Hi'')\<rparr>])])"
  apply (simp add: prepare_field_def sample_protected sample_item_def sample_storage or_default_def sample_format)
  apply (simp add: members_of_def or_default_def get_authoritative_field_value_def get_nested_field_value_def or_else_def
   normalize_field_value_for_translation_def build_field_format_adapter_def task_type_for_content_format_def plain_text_adapter_def Let_def)
  done

lemma sample_text_kept: "strip_translation_markers alnum (cps ''Hi'') = cps ''Hi''"
  by (rule strip_unmarked) (simp add: cps_def trim_by_def is_ws_cp_def)

lemma sample_run:
  "\<exists>gs st. run_fields sample_item_env (Some sample_rule) sample_item Map.empty = (Map.empty, Inr (gs, 0, st))
    \<and> st_fields st = [(cps ''post_title'', cps ''Hi!''), (cps ''post_content'', cps ''Body'')] \<and> gs \<noteq> []"
  apply (simp add: run_fields_def sample_plan plan_of_item_def sample_prepared)
  apply (simp add: translate_group_def select_for_group_def plain_text_adapter_def sample_item_env_def
     translate_prepared_field_def check_component_def check_keyed_def default_decision_def translate_text_field_def
     field_translation_def translate_field_value_def sample_field_env_def restore_translated_value_after_translation_def
     component_succeeded_def record_component_success_def record_success_keyed_def sample_text_kept Let_def)
  apply (simp add: apply_copy_and_skip_fields_def copy_field_def sample_protected sample_item_def sample_storage members_of_def
    or_default_def get_authoritative_field_value_def get_nested_field_value_def or_else_def skip_field_def push_field_result_def
    push_field_result_with_meta_def put_by_storage_def is_meta_storage_def put_field_def item_start_def)
  apply (simp add: cps_def)
  done

lemma sample_trace: "\<exists>trace. translate_item_fields sample_item_env sample_relation [sample_rule] sample_item Map.empty
    = (Map.empty, Inr (Some trace))"
proof -
  from sample_run obtain gs st where r:
    "run_fields sample_item_env (Some sample_rule) sample_item Map.empty = (Map.empty, Inr (gs, 0, st))"
    and st: "st_fields st = [(cps ''post_title'', cps ''Hi!''), (cps ''post_content'', cps ''Body'')]" by blast
  have "\<not> no_output st" by (simp add: no_output_def st)
  moreover have "snapshot_text (cps ''source_revision'') (complete_data_json sample_item) \<noteq> []"
    by (simp add: snapshot_text_def sample_item_def jget_def or_default_def)
  moreover have "e_manual sample_item_env = None" by (simp add: sample_item_env_def)
  ultimately show ?thesis
    by (simp add: translate_item_fields_def sample_rule_selected plan_of_item_def sample_plan r finish_item_def
        bind_manual_callback_def Let_def)
qed

section \<open>Properties\<close>

text \<open>
  C15: The report of an object is complete and true. In a callback that goes out, every field of the rule's plan has
  exactly one row, whatever failed; the rows that succeeded with the target \<open>translated_fields\<close>, \<open>translated_meta\<close>
  or \<open>media_mappings\<close> are exactly the fields with a text there, so nothing is reported without a text and no text
  goes out unreported.
\<close>

theorem item_rows_complete:
  assumes "translate_item_fields env rel rules item reg = (reg', Inr (Some trace))"
    and "plan = plan_of_item (rule_of_item item (members_of (complete_data_json item)) rules)"
    and "plan_translate plan @ plan_copy plan \<noteq> []"
  shows "mset (map fr_field (pl_field_results (tr_payload trace)))
      = mset (plan_translate plan @ plan_copy plan @ plan_skip plan)
    \<and> fr_field ` set (filter (\<lambda>r. succeeded r \<and> fr_merge_target r = cps ''translated_fields'') (pl_field_results (tr_payload trace)))
      = fst ` set (pl_translated_fields (tr_payload trace))
    \<and> fr_field ` set (filter (\<lambda>r. succeeded r \<and> fr_merge_target r = cps ''translated_meta'') (pl_field_results (tr_payload trace)))
      = fst ` set (pl_translated_meta (tr_payload trace))
    \<and> fr_field ` set (filter (\<lambda>r. succeeded r \<and> fr_merge_target r = cps ''media_mappings'') (pl_field_results (tr_payload trace)))
      = fst ` set (pl_media_field_sources (tr_payload trace))"
proof -
  let ?rule = "rule_of_item item (members_of (complete_data_json item)) rules"
  let ?bl = "derive_business_line_from_rule ?rule (object_type item)"
  from assms obtain gs n st where run: "run_fields env ?rule item reg = (reg', Inr (gs, n, st))"
    and fin: "finish_item env rel item (members_of (complete_data_json item)) ?bl gs n st = Inr (Some trace)"
    by (auto simp: translate_item_fields_def Let_def split: prod.splits sum.splits)
  from run_fields_accounted [OF run] have a: "accounted (mset (plan_translate plan @ plan_copy plan @ plan_skip plan)) st"
    by (simp add: assms(2))
  then have "delivered st t = outputs st t" for t by (simp add: accounted_def)
  from this [of "cps ''translated_fields''"] this [of "cps ''translated_meta''"] this [of "cps ''media_mappings''"] a
  show ?thesis by (simp add: finish_trace [OF fin] delivered_def outputs_def accounted_def)
qed

theorem item_rows_complete_witness:
  "\<exists>trace. translate_item_fields sample_item_env sample_relation [sample_rule] sample_item Map.empty
      = (Map.empty, Inr (Some trace))
    \<and> mset (map fr_field (pl_field_results (tr_payload trace))) = mset (map cps [''post_title'', ''post_content'', ''post_excerpt''])"
proof -
  from sample_trace obtain trace where t: "translate_item_fields sample_item_env sample_relation [sample_rule] sample_item Map.empty
    = (Map.empty, Inr (Some trace))" by blast
  from item_rows_complete [OF t refl] show ?thesis
    using t by (simp add: sample_rule_selected plan_of_item_def sample_plan)
qed

text \<open>
  The outcome of an object follows from its rows. When the run got to its end, an object is left without a callback
  and without an error only if every row was skipped; the error that all fields failed carries the number of failed
  rows, at least one, and like the error that no component exists comes only when no row succeeded; in every other
  case some field succeeded.
\<close>

theorem item_outcome_by_rows:
  assumes "run_fields env rule item reg = (reg', Inr (groups, without, st))"
  shows "case finish_item env rel item data line groups without st of
      Inr None \<Rightarrow> list_all (\<lambda>r. \<not> succeeded r \<and> fr_status r \<noteq> cps ''failed'') (st_results st)
    | Inl (AllFieldsFailed i n) \<Rightarrow> list_all (\<lambda>r. \<not> succeeded r) (st_results st)
        \<and> n = length (filter (\<lambda>r. fr_status r = cps ''failed'') (st_results st)) \<and> 0 < n
    | Inl (NoComponent l gs) \<Rightarrow> list_all (\<lambda>r. \<not> succeeded r) (st_results st)
    | _ \<Rightarrow> list_ex succeeded (st_results st)"
proof -
  from run_fields_accounted [OF assms] have failed: "st_failed st = length (filter (\<lambda>r. fr_status r = cps ''failed'') (st_results st))"
    by (simp add: accounted_def)
  show ?thesis
  proof (cases "no_output st")
    case True
    with no_output_rows [OF run_fields_accounted [OF assms]] have none: "list_all (\<lambda>r. \<not> succeeded r) (st_results st)" by simp
    show ?thesis
    proof (cases "groups \<noteq> [] \<and> without = length groups")
      case False
      show ?thesis
      proof (cases "0 < st_failed st")
        case True
        then show ?thesis using False \<open>no_output st\<close> none failed by (auto simp: finish_item_def)
      next
        case False
        with failed have "list_all (\<lambda>r. fr_status r \<noteq> cps ''failed'') (st_results st)"
          by (simp add: list_all_iff filter_empty_conv)
        with none have "list_all (\<lambda>r. \<not> succeeded r \<and> fr_status r \<noteq> cps ''failed'') (st_results st)"
          by (simp add: list_all_iff)
        then show ?thesis
          using False \<open>\<not> (groups \<noteq> [] \<and> without = length groups)\<close> \<open>no_output st\<close> by (auto simp: finish_item_def)
      qed
    qed (use \<open>no_output st\<close> none in \<open>auto simp: finish_item_def\<close>)
  next
    case False
    with no_output_rows [OF run_fields_accounted [OF assms]] have "list_ex succeeded (st_results st)"
      by (simp add: list_all_iff list_ex_iff)
    then show ?thesis
      using False by (auto simp: finish_item_def bind_manual_callback_def Let_def split: option.splits)
  qed
qed

theorem item_outcome_by_rows_witness:
  "\<exists>groups st. run_fields sample_item_env (Some sample_rule) sample_item Map.empty = (Map.empty, Inr (groups, 0, st))
    \<and> list_ex succeeded (st_results st)"
proof -
  from sample_run obtain gs st where r:
    "run_fields sample_item_env (Some sample_rule) sample_item Map.empty = (Map.empty, Inr (gs, 0, st))"
    and st: "st_fields st = [(cps ''post_title'', cps ''Hi!''), (cps ''post_content'', cps ''Body'')]" by blast
  have n: "\<not> no_output st" by (simp add: no_output_def st)
  from item_outcome_by_rows [OF r, of sample_relation "[]" "[]"] n r show ?thesis
    by (auto simp: finish_item_def bind_manual_callback_def sample_item_env_def Let_def split: if_splits)
qed

text \<open>
  Copied fields are copied and skipped fields are left alone. A copied field that is not protected and has a
  value goes out with exactly the text of the source (other values printed), at its storage, even when other
  fields fail; a skipped field has no text at any target.
\<close>

theorem copies_exact_skips_untouched:
  assumes "run_fields env (Some rule) item reg = (reg', Inr (groups, without, st))"
    and "proper_object (field_capabilities rule)"
    and "f \<in> set (plan_copy (plan_field_actions rule))" "\<not> field_is_protected_name f (Some rule)"
    and "field_storage (Some rule) (object_type item) f = Some storage"
    and "get_authoritative_field_value (members_of (complete_data_json item)) f storage = Some v"
    and "patch_string_for_copy (e_print env) v = Some t"
    and "g \<in> set (plan_skip (plan_field_actions rule))"
  shows "map_of (if is_meta_storage storage then st_meta st else st_fields st) f = Some t
    \<and> g \<notin> fst ` set (st_fields st) \<and> g \<notin> fst ` set (st_meta st) \<and> g \<notin> fst ` set (st_sources st)"
proof -
  let ?data = "members_of (complete_data_json item)" and ?plan = "plan_field_actions rule"
  from run_fields_stages [OF assms(1)] obtain st1 where
    a: "accounted (mset (plan_translate ?plan)) st1"
    and st: "st = fold (copy_field (e_print env) (Some rule) (object_type item) ?data) (plan_copy ?plan)
      (fold skip_field (plan_skip ?plan) st1)"
    by (auto simp: plan_of_item_def apply_copy_and_skip_fields_def)
  from plan_distinct [OF assms(2)] have d: "distinct (plan_copy ?plan)"
    "g \<notin> set (plan_copy ?plan) \<union> set (plan_translate ?plan)" using assms(8) by auto
  have "stored_text storage st f = Some t"
    unfolding st by (rule copy_text) (use assms d in simp_all)
  moreover have "g \<notin> outputs st target" for target
    using copies_outputs [of "e_print env" "Some rule" "object_type item" ?data "plan_copy ?plan"
        "fold skip_field (plan_skip ?plan) st1" target] accounted_outputs [OF a, of target] d(2)
    by (auto simp: st skip_outputs)
  from this [of "cps ''translated_fields''"] this [of "cps ''translated_meta''"] this [of "cps ''media_mappings''"]
  have "g \<notin> fst ` set (st_fields st) \<and> g \<notin> fst ` set (st_meta st) \<and> g \<notin> fst ` set (st_sources st)"
    by (simp add: outputs_def)
  ultimately show ?thesis by (simp add: stored_text_def)
qed

theorem copies_exact_skips_untouched_witness:
  "\<exists>groups st. run_fields sample_item_env (Some sample_rule) sample_item Map.empty = (Map.empty, Inr (groups, 0, st))
    \<and> map_of (st_fields st) (cps ''post_content'') = Some (cps ''Body'')
    \<and> cps ''post_excerpt'' \<notin> fst ` set (st_fields st)"
proof -
  from sample_run obtain gs st where r:
    "run_fields sample_item_env (Some sample_rule) sample_item Map.empty = (Map.empty, Inr (gs, 0, st))" by blast
  have p: "proper_object (field_capabilities sample_rule)" by (simp add: sample_rule_def proper_object_def)
  have c: "cps ''post_content'' \<in> set (plan_copy (plan_field_actions sample_rule))"
    "cps ''post_excerpt'' \<in> set (plan_skip (plan_field_actions sample_rule))" by (simp_all add: sample_plan)
  have s: "field_storage (Some sample_rule) (object_type sample_item) (cps ''post_content'') = Some (cps ''post_column'')"
    using sample_storage(2) by (simp add: sample_item_def)
  have v: "get_authoritative_field_value (members_of (complete_data_json sample_item)) (cps ''post_content'') (cps ''post_column'')
      = Some (JString (cps ''Body''))"
    by (simp add: sample_item_def members_of_def or_default_def get_authoritative_field_value_def
        get_nested_field_value_def or_else_def)
  have "patch_string_for_copy (e_print sample_item_env) (JString (cps ''Body'')) = Some (cps ''Body'')" by simp
  from copies_exact_skips_untouched [OF r p c(1) sample_protected(2) s v this c(2)] r show ?thesis
    by (auto simp: is_meta_storage_def)
qed

text \<open>
  C19: Only translated fields reach a provider. Two runs whose provider calls agree on the fields that the plan
  translates have the same outcome, the same callback and the same circuits: no answer of a provider for a copied or
  skipped field, or for any other member of the object, can have an effect.
\<close>

theorem provider_sees_only_translate_fields:
  assumes "calls_agree (set (plan_translate (plan_of_item (rule_of_item item (members_of (complete_data_json item)) rules)))) f m env"
  shows "translate_item_fields (with_calls f m env) rel rules item reg = translate_item_fields env rel rules item reg"
  unfolding translate_item_fields_def Let_def run_fields_calls [OF assms] finish_item_calls
  unfolding build_attachment_copy_trace_def callback_calls by (rule refl)

theorem provider_sees_only_translate_fields_witness:
  "translate_item_fields (with_calls
      (\<lambda>c n. if n = cps ''post_title'' then sample_field_env else sample_field_env\<lparr>f_text := \<lambda>_ s. Inl (ProviderFailed ''down'')\<rparr>)
      (\<lambda>_ _ _ _ _. Inl ''no'') sample_item_env) sample_relation [sample_rule] sample_item Map.empty
    = translate_item_fields sample_item_env sample_relation [sample_rule] sample_item Map.empty"
  by (rule provider_sees_only_translate_fields)
    (simp add: sample_rule_selected plan_of_item_def sample_plan calls_agree_def sample_item_env_def)

text \<open>
  C33: A group has one plan. The code takes the format and the task type of a group from its first field. The groups that
  the preparation builds have distinct keys in order, none is empty, and the key of a group determines both for each of
  its fields, so the component selected for the first field fits them all.
\<close>

theorem groups_share_plan:
  "well_grouped (snd (fold (prepare_field print rule item data) names (st, [])))"
proof -
  have "well_grouped (snd (fold (prepare_field print rule item data) names sg))" if "well_grouped (snd sg)" for sg
    using that
  proof (induction names arbitrary: sg)
    case (Cons f names)
    obtain st1 gs1 where p: "prepare_field print rule item data f (fst sg, snd sg) = (st1, gs1)"
      by (cases "prepare_field print rule item data f (fst sg, snd sg)")
    from prepare_well [OF Cons.prems p] Cons.IH [of "(st1, gs1)"] p show ?case by simp
  qed simp
  then show ?thesis by (simp add: well_grouped_def)
qed

end
