(* ===== verification/Dispatch.thy ===== *)
theory Dispatch
  imports ItemTranslation Selector
begin

text \<open>
  The run over an object with the selector of \<open>Selector\<close> in the place of its abstract choice, as
  \<open>translate_item_fields_with_trace_using_proxy\<close> of \<open>task_engine/pipeline.rs\<close> calls it.
\<close>

section \<open>The engine's choice\<close>

record relation_model =
  md_model_id :: int
  md_plugin_slug :: utext

definition find_first :: "('a \<Rightarrow> bool) \<Rightarrow> 'a list \<Rightarrow> 'a option" where
  "find_first p xs = first_some (\<lambda>x. if p x then Some x else None) xs"

definition resolve_plugin_slug_for_rule_binding ::
  "(utext \<Rightarrow> utext) \<Rightarrow> relation_model list \<Rightarrow> utext \<Rightarrow> discovered_rule option \<Rightarrow> utext option" where
  "resolve_plugin_slug_for_rule_binding lower models template rule =
     or_else
       (Option.bind rule (\<lambda>r.
          map_option (\<lambda>m. lower (trim_by is_ws_cp (md_plugin_slug m)))
            (find_first (\<lambda>m. md_model_id m = rule_model_id r \<and> trim_by is_ws_cp (md_plugin_slug m) \<noteq> []) models)))
    (or_else
       (case models of [m] \<Rightarrow> map_option lower (nonblank (md_plugin_slug m)) | _ \<Rightarrow> None)
       (map_option lower (nonblank template)))"

record engine =
  en_lower :: "utext \<Rightarrow> utext"
  en_registry :: "component_registry option"
  en_bindings :: "rule_bindings_doc option"
  en_relation_id :: int
  en_models :: "relation_model list"
  en_template :: utext
  en_override :: utext
  en_prefer_ids :: "utext list"
  en_task_bindings :: "task_type_bindings option"
  en_claimed :: "utext set option"

definition u64_of_i64 :: "int \<Rightarrow> nat option" where
  "u64_of_i64 i = (if 0 \<le> i then Some (nat i) else None)"

definition engine_bindings :: "engine \<Rightarrow> discovered_rule option \<Rightarrow> binding_request" where
  "engine_bindings en rule =
     \<lparr>br_doc = en_bindings en,
      br_rule_id = map_option (\<lambda>r. or_default 0 (u64_of_i64 (rule_id r))) rule,
      br_relation_id = u64_of_i64 (en_relation_id en),
      br_plugin_slug = resolve_plugin_slug_for_rule_binding (en_lower en) (en_models en) (en_template en) rule\<rparr>"

definition engine_request :: "engine \<Rightarrow> utext \<Rightarrow> (utext \<times> utext) list \<Rightarrow> selection_request" where
  "engine_request en business_line payload =
     \<lparr>sq_payload = JObject (map (\<lambda>(k, v). (k, JString v)) payload), sq_business_line = business_line,
      sq_override = en_override en, sq_prefer_ids = en_prefer_ids en, sq_task_bindings = en_task_bindings en,
      sq_claimed = en_claimed en\<rparr>"

definition engine_select ::
  "engine \<Rightarrow> discovered_rule option \<Rightarrow> utext \<Rightarrow> (utext \<times> utext) list \<Rightarrow> utext \<Rightarrow> utext \<Rightarrow> component_runtime option" where
  "engine_select en rule business_line payload task_type content_format =
     select_component_with_format_awareness (en_lower en) (en_registry en) (engine_bindings en rule)
       (engine_request en business_line payload) task_type content_format"

definition with_engine :: "engine \<Rightarrow> (component_runtime, 'e) item_env \<Rightarrow> (component_runtime, 'e) item_env" where
  "with_engine en env = env\<lparr>e_select := engine_select en\<rparr>"

section \<open>The components of a callback\<close>

text \<open>The groups of an item, as the preparation of its fields builds them.\<close>

definition item_groups :: "('c, 'e) item_env \<Rightarrow> discovered_rule option \<Rightarrow> content_item \<Rightarrow> registry \<Rightarrow> groups" where
  "item_groups env rule item reg = snd (fold (prepare_field (e_print env) rule item (members_of (complete_data_json item)))
     (plan_translate (plan_of_item rule)) (item_start reg, []))"

text \<open>The names under which the components of a run are recorded: one for each group that has a component.\<close>

definition choices :: "('c, 'e) item_env \<Rightarrow> discovered_rule option \<Rightarrow> utext \<Rightarrow> members \<Rightarrow> groups \<Rightarrow> string set" where
  "choices env rule business_line data gs =
     {e_component env (e_resolve env c (routing_content_format (p_adapter p))) | c p ps task_type.
        p # ps \<in> snd ` set gs
        \<and> select_for_group env rule business_line data (p # ps) (p_adapter p) = Some (c, task_type)}"

named_theorems used "what leaves the recorded components alone"

lemma used_simps [used]:
  "st_used (push_field_result_with_meta f s cf sg d m st) = st_used st"
  "st_used (push_field_result f s cf sg d st) = st_used st"
  "st_used (count_failed n st) = st_used st"
  "st_used (put_by_storage sg f t st) = st_used st"
  "st_used (put_field f t st) = st_used st"
  "st_used (component_succeeded cid st) = st_used st"
  "st_used (component_failed now cid st) = st_used st"
  "st_used (map_media f i r st) = st_used st"
  by (simp_all add: push_field_result_with_meta_def push_field_result_def count_failed_def put_by_storage_def
      put_field_def put_meta_def component_succeeded_def component_failed_def map_media_def)

lemma used_prepared_field: "st_used (translate_prepared_field env rule data c ty p st) = st_used st"
  by (auto simp: translate_prepared_field_def translate_media_field_def translate_text_field_def deliver_media_def
      Let_def used split: option.splits sum.splits prod.splits)

lemma used_fold: "(\<And>x st. st_used (f x st) = st_used st) \<Longrightarrow> st_used (fold f xs st) = st_used st"
  by (induction xs arbitrary: st) simp_all

lemma used_group:
  assumes "translate_group env rule business_line data g sn = (st', n', e)"
  shows "set (st_used st') \<subseteq> set (st_used (fst sn)) \<union> choices env rule business_line data [g]"
proof -
  obtain key ps st n where g: "g = (key, ps)" and sn: "sn = (st, n)" by (cases g, cases sn) blast
  show ?thesis
  proof (cases ps)
    case Nil
    with assms show ?thesis by (auto simp: g sn translate_group_def)
  next
    case (Cons p qs)
    show ?thesis
    proof (cases "select_for_group env rule business_line data (p # qs) (p_adapter p)")
      case None
      have "st_used (fold no_component (p # qs) (count_failed (length (p # qs)) st)) = st_used st"
        by (subst used_fold) (simp_all add: no_component_def used)
      with None assms show ?thesis by (auto simp: g sn Cons translate_group_def)
    next
      case (Some ct)
      obtain c ty where ct: "ct = (c, ty)" by (cases ct)
      let ?c = "e_resolve env c (routing_content_format (p_adapter p))"
      from Some ct have "e_component env ?c \<in> choices env rule business_line data [g]"
        by (auto simp: choices_def g Cons)
      moreover have "set (st_used st') \<subseteq> insert (e_component env ?c) (set (st_used st))"
        using assms Some ct
        by (auto simp: g sn Cons translate_group_def Let_def used_prepared_field used_fold split: option.splits
            simp del: fold.simps)
      ultimately show ?thesis by (auto simp: sn)
    qed
  qed
qed

lemma used_groups:
  "translate_groups env rule business_line data gs sn = (st', n', e) \<Longrightarrow>
    set (st_used st') \<subseteq> set (st_used (fst sn)) \<union> choices env rule business_line data gs"
proof (induction gs arbitrary: sn)
  case (Cons g gs)
  have more: "choices env rule business_line data [g] \<union> choices env rule business_line data gs
      \<subseteq> choices env rule business_line data (g # gs)" by (fastforce simp: choices_def)
  obtain st1 n1 e1 where 1: "translate_group env rule business_line data g sn = (st1, n1, e1)"
    by (cases "translate_group env rule business_line data g sn") auto
  show ?case
  proof (cases e1)
    case None
    with 1 Cons.prems have "translate_groups env rule business_line data gs (st1, n1) = (st', n', e)" by simp
    from Cons.IH [OF this] used_group [OF 1] more show ?thesis by auto
  next
    case (Some x)
    with 1 Cons.prems used_group [OF 1] more show ?thesis by auto
  qed
qed auto

lemma used_prepare: "fold (prepare_field print rule item data) names (st, gs) = (st', gs') \<Longrightarrow> st_used st' = st_used st"
proof (induction names arbitrary: st gs)
  case (Cons f fs)
  have "st_used (fst (prepare_field print rule item data f (st, gs))) = st_used st"
    by (auto simp: prepare_field_def Let_def used split: option.splits sum.splits prod.splits)
  with Cons show ?case by (cases "prepare_field print rule item data f (st, gs)") auto
qed simp


lemma used_copy_and_skip: "st_used (apply_copy_and_skip_fields print rule ty data copies skips st) = st_used st"
proof -
  have "st_used (copy_field print rule ty data f st) = st_used st" for f st
    by (auto simp: copy_field_def used split: option.splits)
  moreover have "st_used (skip_field f st) = st_used st" for f st
    by (simp add: skip_field_def used)
  ultimately show ?thesis by (simp add: apply_copy_and_skip_fields_def used_fold)
qed

lemma used_run_fields:
  assumes "run_fields env rule item reg = (reg', Inr (gs, n, st))"
  shows "set (st_used st) \<subseteq> choices env rule (derive_business_line_from_rule rule (object_type item))
    (members_of (complete_data_json item)) (item_groups env rule item reg)"
proof -
  let ?data = "members_of (complete_data_json item)" and ?plan = "plan_of_item rule"
  let ?bl = "derive_business_line_from_rule rule (object_type item)"
  obtain st0 gs0 where p: "fold (prepare_field (e_print env) rule item ?data) (plan_translate ?plan)
      (item_start reg, []) = (st0, gs0)" by fastforce
  obtain st1 m e where t: "translate_groups env rule ?bl ?data gs0 (st0, 0) = (st1, m, e)"
    using prod_cases3 by blast
  from assms p t have "st_used st = st_used st1"
    by (auto simp: run_fields_def Let_def used_copy_and_skip split: option.splits)
  with used_groups [OF t] used_prepare [OF p] show ?thesis
    by (simp add: item_start_def item_groups_def p [unfolded item_start_def])
qed

lemma finish_components:
  assumes "finish_item env rel item data bl gs n st = Inr (Some trace)"
  shows "set (tr_component_ids trace) = set (st_used st)"
  using assms by (auto simp: finish_item_def bind_manual_callback_def Let_def split: if_splits option.splits)

lemma callback_components:
  assumes "translate_item_fields env rel rules item reg = (reg', Inr (Some trace))"
    "rule = rule_of_item item (members_of (complete_data_json item)) rules"
  shows "set (tr_component_ids trace) \<subseteq> choices env rule (derive_business_line_from_rule rule (object_type item))
    (members_of (complete_data_json item)) (item_groups env rule item reg)"
proof (cases "plan_translate (plan_of_item rule) = [] \<and> plan_copy (plan_of_item rule) = []")
  case True
  then have "tr_component_ids trace = []"
    using assms by (auto simp: translate_item_fields_def Let_def build_attachment_copy_trace_def bind_manual_callback_def
        split: if_splits option.splits sum.splits)
  then show ?thesis by simp
next
  case False
  then obtain gs n st where r: "run_fields env rule item reg = (reg', Inr (gs, n, st))"
    and f: "finish_item env rel item (members_of (complete_data_json item))
      (derive_business_line_from_rule rule (object_type item)) gs n st = Inr (Some trace)"
    using assms by (auto simp: translate_item_fields_def Let_def split: if_splits sum.splits prod.splits)
  from finish_components [OF f] used_run_fields [OF r] show ?thesis by simp
qed

text \<open>The ids that the settings of the task name, in the order in which they are tried.\<close>

definition task_ids :: "engine \<Rightarrow> utext \<Rightarrow> utext \<Rightarrow> utext list" where
  "task_ids en business_line task_type =
     (if trim_by is_ws_cp (en_override en) = [] then [] else [en_override en])
     @ (case resolve_component_id_from_task_type_bindings (en_task_bindings en) business_line task_type of
          Some cid \<Rightarrow> [cid] | None \<Rightarrow> [])
     @ en_prefer_ids en"

text \<open>The request of a group carries the file extension and the kinds of the artifacts: it names no component.\<close>

definition GROUP_KEYS :: "utext list" where
  "GROUP_KEYS = [cps ''__file_ext'', cps ''__input_artifact_kind'', cps ''__expected_output_artifact_kind'']"

lemma group_payload_keys: "fst ` set (selection_payload format task_type ps data) \<subseteq> set GROUP_KEYS"
  by (auto simp: selection_payload_def GROUP_KEYS_def split: option.splits if_splits)

lemma string_members: "map_of (map (\<lambda>(k, v). (k, JString v)) obj) key = map_option JString (map_of obj key)"
  by (induction obj) auto

lemma no_component_key: "t @ cps ''_component_id'' \<notin> set GROUP_KEYS" "cps ''component_id'' \<notin> set GROUP_KEYS"
proof -
  have "drop (length x - 2) x \<noteq> cps ''id''" if "x \<in> set GROUP_KEYS" for x
    using that by (auto simp: GROUP_KEYS_def cps_def)
  moreover have "drop (length (t @ cps ''_component_id'') - 2) (t @ cps ''_component_id'') = cps ''id''"
    by (simp add: cps_def)
  ultimately show "t @ cps ''_component_id'' \<notin> set GROUP_KEYS" by metis
  show "cps ''component_id'' \<notin> set GROUP_KEYS" by (simp add: GROUP_KEYS_def cps_def)
qed

lemma group_request_names_none:
  "explicit_ids (engine_request en business_line (selection_payload format preferred ps data)) task_type
     = task_ids en business_line task_type"
proof -
  let ?payload = "selection_payload format preferred ps data"
  have miss: "map_of ?payload key = None" if "key \<notin> set GROUP_KEYS" for key
    using that group_payload_keys [of format preferred ps data] by (auto simp: map_of_eq_None_iff)
  have "map_of ?payload (t @ cps ''_component_id'') = None" "map_of ?payload (cps ''component_id'') = None" for t
    by (simp_all add: miss no_component_key)
  moreover from this(1) [of "line @ [95] @ ty" for line ty]
  have "map_of ?payload (line @ 95 # ty @ cps ''_component_id'') = None" for line ty by simp
  moreover have "Option.bind (map_option JString m) (\<lambda>y. Option.bind (as_object y) f) = None"
    for m :: "utext option" and f :: "members \<Rightarrow> utext option" by (cases m) simp_all
  moreover have "first_some (\<lambda>_. None) xs = (None :: utext option)" for xs :: "utext list" by (induction xs) simp_all
  ultimately show ?thesis
    by (simp add: explicit_ids_def engine_request_def task_ids_def resolve_component_id_for_task_type_def Let_def
        filled_member_def string_members jget_def or_else_def)
qed

text \<open>
  C16: Every component that a callback records was selected for a group of the item: for the content format of the
  first field of the group, and for its preferred task type or, when that finds no component, for text. The component is
  registered, it supports the business line of the rule, this task type and this format, and when another relation
  has claimed it, the rule bindings or the settings of the task name it. The request of the group cannot.
\<close>

theorem callback_components_selected:
  assumes "translate_item_fields (with_engine en env) rel rules item reg = (reg', Inr (Some trace))"
    "en_registry en = Some creg" "name \<in> set (tr_component_ids trace)"
    "rule = rule_of_item item (members_of (complete_data_json item)) rules"
    "bl = derive_business_line_from_rule rule (object_type item)"
  shows "\<exists>p ps rt cid task_type. p # ps \<in> snd ` set (item_groups env rule item reg)
    \<and> name = e_component env (e_resolve env rt (routing_content_format (p_adapter p)))
    \<and> (task_type = preferred_task_type (p_adapter p)
       \<or> task_type = cps ''text''
         \<and> engine_select en rule bl (selection_payload (routing_content_format (p_adapter p))
              (preferred_task_type (p_adapter p)) (p # ps) (members_of (complete_data_json item)))
              (preferred_task_type (p_adapter p)) (routing_content_format (p_adapter p)) = None)
    \<and> map_of (reg_runtimes creg) cid = Some rt
    \<and> runtime_supports_route rt bl task_type
    \<and> runtime_supports_content_format rt (routing_content_format (p_adapter p))
    \<and> (rt_id rt \<notin> or_default {} (en_claimed en)
       \<or> cid \<in> set (task_ids en bl task_type)
       \<or> bound_id (en_lower en) (engine_bindings en rule) task_type (Some (routing_content_format (p_adapter p))) = Some cid)"
proof -
  let ?data = "members_of (complete_data_json item)"
  have "item_groups (with_engine en env) rule item reg = item_groups env rule item reg"
    by (simp add: item_groups_def with_engine_def)
  with callback_components [OF assms(1,4)] assms(3,5)
  obtain rt p ps ty where grp: "p # ps \<in> snd ` set (item_groups env rule item reg)"
    and name: "name = e_component env (e_resolve env rt (routing_content_format (p_adapter p)))"
    and sfg: "select_for_group (with_engine en env) rule bl ?data (p # ps) (p_adapter p) = Some (rt, ty)"
    unfolding choices_def with_engine_def by (clarsimp dest!: subsetD) blast
  let ?format = "routing_content_format (p_adapter p)" and ?preferred = "preferred_task_type (p_adapter p)"
  let ?payload = "selection_payload ?format ?preferred (p # ps) ?data"
  from sfg have chosen: "engine_select en rule bl ?payload ty ?format = Some rt"
    and ty: "ty = ?preferred \<or> ty = cps ''text'' \<and> engine_select en rule bl ?payload ?preferred ?format = None"
    by (auto simp: select_for_group_def Let_def with_engine_def split: option.splits if_splits)
  note sel = chosen [unfolded engine_select_def assms(2)]
  from selected_component_qualifies [OF sel] obtain cid where q: "map_of (reg_runtimes creg) cid = Some rt"
    "runtime_supports_route rt bl ty" "runtime_supports_content_format rt ?format"
    by (auto simp: runtime_supports_explicit_binding_def engine_request_def split: if_splits)
  show ?thesis
  proof (cases "rt_id rt \<in> or_default {} (en_claimed en)")
    case True
    then obtain claimed where "sq_claimed (engine_request en bl ?payload) = Some claimed" "rt_id rt \<in> claimed"
      by (cases "en_claimed en") (auto simp: engine_request_def)
    from claimed_component_only_when_named [OF sel this] grp name ty q(2,3) show ?thesis
      unfolding group_request_names_none by blast
  next
    case False
    with grp name ty q show ?thesis by blast
  qed
qed

section \<open>A sample run\<close>

definition sample_engine :: engine where
  "sample_engine = \<lparr>en_lower = id, en_registry = Some sample_registry, en_bindings = None, en_relation_id = 3,
     en_models = [], en_template = [], en_override = [], en_prefer_ids = [], en_task_bindings = None,
     en_claimed = Some {cps ''a''}\<rparr>"

definition engine_env :: "(component_runtime, string) item_env" where
  "engine_env = \<lparr>e_select = \<lambda>_ _ _ _ _. None, e_resolve = \<lambda>c _. c, e_client = \<lambda>_. None,
     e_component = \<lambda>_. ''c1'', e_field = \<lambda>_ _. sample_field_env, e_media = \<lambda>_ _ _ _ _. Inl ''no'',
     e_alnum = \<lambda>c. c < 128, e_print = serialize_json_value_to_php, e_show = \<lambda>_. [], e_check_at = \<lambda>_. 0,
     e_record_at = \<lambda>_. 0, e_digest = \<lambda>t. t, e_domain_fp = cps ''d'', e_attempt = cps ''a'', e_worker = cps ''w'',
     e_manual = None, e_request_ok = \<lambda>_. True\<rparr>"

lemma sample_line: "derive_business_line_from_rule (Some sample_rule) (cps ''post'') = cps ''post_content''"
proof -
  have "map ascii_lower_cp (cps ''post'') = cps ''post''" by (simp add: cps_def ascii_lower_cp_def)
  then show ?thesis
    by (simp add: derive_business_line_from_rule_def sample_rule_def label_fixed label_char_def)
qed

lemma sample_object_line: "derive_business_line_from_rule (Some sample_rule) (object_type sample_item) = cps ''post_content''"
  using sample_line by (simp add: sample_item_def)

lemma sample_choice:
  "engine_select sample_engine (Some sample_rule) (cps ''post_content'') [] (cps ''text'') (cps ''plain_text'')
    = Some (sample_runtime ''b'')"
proof -
  let ?q = "engine_request sample_engine (cps ''post_content'') []"
  have "explicit_ids ?q (cps ''text'') = []"
    by (simp add: explicit_ids_def engine_request_def sample_engine_def resolve_component_id_for_task_type_def Let_def
        resolve_component_id_from_task_type_bindings_def filled_member_def COMPONENT_MAPS_def jget_def first_some_NoneD
        trim_by_def)
  moreover have "unclaimed sample_registry ?q = [sample_runtime ''b'']"
    by (simp add: unclaimed_def ordered_runtimes_def sample_registry_def map_filter_simps sample_parts engine_request_def
        sample_engine_def)
  moreover have "file_ext_hint (sq_payload ?q) = None"
    "extract_artifact_selection_hints (sq_payload ?q) = \<lparr>ah_input = None, ah_output = None\<rparr>"
    by (simp_all add: file_ext_hint_def extract_artifact_selection_hints_def task_payload_string_hint_def jget_def
        engine_request_def)
  moreover have "bound_id lower (engine_bindings sample_engine (Some sample_rule)) task_type fmt = None" for lower task_type fmt
    by (simp add: bound_id_def engine_bindings_def sample_engine_def)
  moreover have "en_registry sample_engine = Some sample_registry" by (simp add: sample_engine_def)
  ultimately show ?thesis
    by (simp add: engine_select_def select_component_with_format_awareness_def
        select_component_runtime_for_task_type_and_format_def Let_def sample_fits)
qed

lemma engine_run:
  "\<exists>gs st. run_fields (with_engine sample_engine engine_env) (Some sample_rule) sample_item Map.empty
      = (Map.empty, Inr (gs, 0, st))
    \<and> st_fields st = [(cps ''post_title'', cps ''Hi!''), (cps ''post_content'', cps ''Body'')]
    \<and> st_used st = [''c1''] \<and> gs \<noteq> []"
proof -
  have ty: "object_type sample_item = cps ''post''" by (simp add: sample_item_def)
  show ?thesis
  apply (simp add: run_fields_def sample_plan plan_of_item_def sample_prepared ty sample_line)
  apply (simp add: translate_group_def select_for_group_def plain_text_adapter_def with_engine_def selection_payload_def
     task_type_for_content_format_def sample_choice Let_def)
  apply (simp add: engine_env_def
     translate_prepared_field_def check_component_def check_keyed_def default_decision_def translate_text_field_def
     field_translation_def translate_field_value_def sample_field_env_def restore_translated_value_after_translation_def
     component_succeeded_def record_component_success_def record_success_keyed_def sample_text_kept Let_def)
  apply (simp add: apply_copy_and_skip_fields_def copy_field_def sample_protected sample_item_def sample_storage members_of_def
    or_default_def get_authoritative_field_value_def get_nested_field_value_def or_else_def skip_field_def push_field_result_def
    push_field_result_with_meta_def put_by_storage_def is_meta_storage_def put_field_def item_start_def)
  apply (simp add: cps_def)
  done
qed


theorem callback_components_selected_witness:
  "\<exists>p ps rt cid task_type. p # ps \<in> snd ` set (item_groups engine_env (Some sample_rule) sample_item Map.empty)
    \<and> ''c1'' = e_component engine_env (e_resolve engine_env rt (routing_content_format (p_adapter p)))
    \<and> map_of (reg_runtimes sample_registry) cid = Some rt
    \<and> runtime_supports_route rt (cps ''post_content'') task_type
    \<and> runtime_supports_content_format rt (routing_content_format (p_adapter p))
    \<and> (rt_id rt \<noteq> cps ''a'' \<or> cid \<in> set (task_ids sample_engine (cps ''post_content'') task_type)
       \<or> bound_id id (engine_bindings sample_engine (Some sample_rule)) task_type
            (Some (routing_content_format (p_adapter p))) = Some cid)"
proof -
  from engine_run obtain gs st where r:
    "run_fields (with_engine sample_engine engine_env) (Some sample_rule) sample_item Map.empty
      = (Map.empty, Inr (gs, 0, st))"
    and st: "st_fields st = [(cps ''post_title'', cps ''Hi!''), (cps ''post_content'', cps ''Body'')]"
      "st_used st = [''c1'']" by blast
  have "\<not> no_output st" by (simp add: no_output_def st)
  moreover have "snapshot_text (cps ''source_revision'') (complete_data_json sample_item) \<noteq> []"
    by (simp add: snapshot_text_def sample_item_def jget_def or_default_def)
  moreover have "e_manual (with_engine sample_engine engine_env) = None" by (simp add: with_engine_def engine_env_def)
  ultimately obtain trace where "translate_item_fields (with_engine sample_engine engine_env) sample_relation
      [sample_rule] sample_item Map.empty = (Map.empty, Inr (Some trace))" "''c1'' \<in> set (tr_component_ids trace)"
    by (auto simp: translate_item_fields_def sample_rule_selected plan_of_item_def sample_plan r finish_item_def
        bind_manual_callback_def Let_def st)
  from callback_components_selected [OF this(1) _ this(2) sample_rule_selected [symmetric] sample_object_line [symmetric],
      of sample_registry]
  show ?thesis by (simp add: sample_engine_def or_default_def) blast
qed

end
