(* ===== verification/Db.thy ===== *)
theory Db
  imports Prelude
begin

text \<open>
  The database connection as the client's \<open>db\<close> modules use it. SQLite is not part of the repository:
  what is stated here of it is the documented meaning of the statements the modules execute. A computation
  runs in an environment that says which statements fail (a busy or full database, an I/O error)
  and what the clock reads, both by the number of statements executed so far; a savepoint rolls the
  tables back when its body, or its own release, fails. The savepoint structures \<open>JobMutation\<close>,
  \<open>CallbackMutation\<close> and \<open>RetainedMutation\<close> are one pattern: begin, commit,
  and a roll-back in \<open>drop\<close> when there was no commit.
\<close>

datatype db_error =
    SqlFault
  | ForeignKeyViolation
  | NoRows
  | NotCommitted
  | LeaseMismatch
  | DamagedRow
  | InvalidRequest
  | UniqueViolation
  | Conflict
  | AmbiguousRow
  | KeyFailure
  | CounterOverflow
  | NoReply
  | ScopeChanged
  | TargetRefused
  | MissingComponent
  | ForeignAnswer

record env =
  fault :: "nat \<Rightarrow> bool"
  clock :: "nat \<Rightarrow> int"

text \<open>A fault-free environment, with a clock that stands.\<close>

definition calm :: "int \<Rightarrow> env" where
  "calm t = \<lparr>fault = (\<lambda>n. False), clock = (\<lambda>n. t)\<rparr>"

lemma calm_sel [simp]: "fault (calm t) n = False" "clock (calm t) n = t"
  by (simp_all add: calm_def)

type_synonym ('s, 'a) dbm = "env \<Rightarrow> nat \<Rightarrow> 's \<Rightarrow> (db_error + 'a) \<times> nat \<times> 's"

definition ret :: "'a \<Rightarrow> ('s, 'a) dbm" where
  "ret a env n s = (Inr a, n, s)"

definition fail :: "db_error \<Rightarrow> ('s, 'a) dbm" where
  "fail e env n s = (Inl e, n, s)"

definition bind :: "('s, 'a) dbm \<Rightarrow> ('a \<Rightarrow> ('s, 'b) dbm) \<Rightarrow> ('s, 'b) dbm" where
  "bind m f env n s =
     (case m env n s of
        (Inl e, n', s') \<Rightarrow> (Inl e, n', s')
      | (Inr a, n', s') \<Rightarrow> f a env n' s')"

definition seq :: "('s, 'a) dbm \<Rightarrow> ('s, 'b) dbm \<Rightarrow> ('s, 'b) dbm" where
  "seq m k = bind m (\<lambda>_. k)"

text \<open>One statement. Its text reads the tables and the time given to it as a parameter.\<close>

definition execute :: "(int \<Rightarrow> 's \<Rightarrow> db_error + 'a \<times> 's) \<Rightarrow> ('s, 'a) dbm" where
  "execute f env n s =
     (if fault env n then (Inl SqlFault, Suc n, s)
      else case f (clock env n) s of
        Inl e \<Rightarrow> (Inl e, Suc n, s)
      | Inr (a, s') \<Rightarrow> (Inr a, Suc n, s'))"

definition query :: "('s \<Rightarrow> 'a) \<Rightarrow> ('s, 'a) dbm" where
  "query f = execute (\<lambda>t s. Inr (f s, s))"

definition update_stmt :: "(int \<Rightarrow> 's \<Rightarrow> 's) \<Rightarrow> ('s, unit) dbm" where
  "update_stmt f = execute (\<lambda>t s. Inr ((), f t s))"

text \<open>\<open>anyhow::ensure!\<close>.\<close>

definition ensure :: "bool \<Rightarrow> db_error \<Rightarrow> ('s, unit) dbm" where
  "ensure b e = (if b then ret () else fail e)"

text \<open>Reading the clock is not a statement.\<close>

definition now_ts :: "('s, int) dbm" where
  "now_ts env n s = (Inr (clock env n), n, s)"

text \<open>The three savepoint guards: a failed body or a failed \<open>RELEASE\<close> restores the tables.\<close>

definition savepoint :: "('s, 'a) dbm \<Rightarrow> ('s, 'a) dbm" where
  "savepoint m env n s =
     (if fault env n then (Inl SqlFault, Suc n, s)
      else case m env (Suc n) s of
        (Inl e, n', s') \<Rightarrow> (Inl e, n', s)
      | (Inr a, n', s') \<Rightarrow>
          if fault env n' then (Inl SqlFault, Suc n', s) else (Inr a, Suc n', s'))"

primrec for_each :: "('x \<Rightarrow> ('s, unit) dbm) \<Rightarrow> 'x list \<Rightarrow> ('s, unit) dbm" where
  "for_each f [] = ret ()"
| "for_each f (x # xs) = seq (f x) (for_each f xs)"

named_theorems dbm_simps "evaluation of database computations"

lemmas [dbm_simps] = ret_def fail_def bind_def seq_def execute_def query_def update_stmt_def
  ensure_def savepoint_def now_ts_def

section \<open>Atomicity and preservation\<close>

text \<open>An operation is atomic when an error leaves the tables as they were.\<close>

definition atomic :: "('s, 'a) dbm \<Rightarrow> bool" where
  "atomic m \<longleftrightarrow> (\<forall>env n s e n' s'. m env n s = (Inl e, n', s') \<longrightarrow> s' = s)"

definition keeps :: "('s \<Rightarrow> bool) \<Rightarrow> ('s, 'a) dbm \<Rightarrow> bool" where
  "keeps P m \<longleftrightarrow> (\<forall>env n s r n' s'. P s \<longrightarrow> m env n s = (r, n', s') \<longrightarrow> P s')"

text \<open>Hoare triple of a successful run, for all faults and clocks.\<close>

definition triple :: "('s \<Rightarrow> bool) \<Rightarrow> ('s, 'a) dbm \<Rightarrow> ('a \<Rightarrow> 's \<Rightarrow> bool) \<Rightarrow> bool" where
  "triple P m Q \<longleftrightarrow> (\<forall>env n s a n' s'. P s \<longrightarrow> m env n s = (Inr a, n', s') \<longrightarrow> Q a s')"

lemma atomicD: "atomic m \<Longrightarrow> m env n s = (Inl e, n', s') \<Longrightarrow> s' = s"
  by (auto simp: atomic_def)

lemma tripleD: "triple P m Q \<Longrightarrow> P s \<Longrightarrow> m env n s = (Inr a, n', s') \<Longrightarrow> Q a s'"
  by (auto simp: triple_def)

lemma keepsD: "keeps P m \<Longrightarrow> P s \<Longrightarrow> m env n s = (r, n', s') \<Longrightarrow> P s'"
  by (auto simp: keeps_def)

lemma atomic_savepoint [simp, intro]: "atomic (savepoint m)"
  by (auto simp: atomic_def savepoint_def split: if_splits prod.splits sum.splits)

lemma atomic_execute [simp, intro]: "atomic (execute f)"
  by (auto simp: atomic_def execute_def split: if_splits sum.splits)

lemma atomic_update_stmt [simp, intro]: "atomic (update_stmt f)"
  by (simp add: update_stmt_def)

lemma atomic_query [simp, intro]: "atomic (query f)"
  by (simp add: query_def)

lemma triple_savepoint: "triple P m Q \<Longrightarrow> triple P (savepoint m) Q"
  by (fastforce simp: triple_def savepoint_def split: if_splits prod.splits sum.splits)

lemma triple_ret: "(\<And>s. P s \<Longrightarrow> Q a s) \<Longrightarrow> triple P (ret a) Q"
  by (simp add: triple_def ret_def)

lemma triple_fail: "triple P (fail e) Q"
  by (simp add: triple_def fail_def)

lemma triple_bind: "triple P m R \<Longrightarrow> (\<And>a. triple (R a) (f a) Q) \<Longrightarrow> triple P (bind m f) Q"
  by (fastforce simp: triple_def bind_def split: prod.splits sum.splits)

lemma triple_seq: "triple P m (\<lambda>_. R) \<Longrightarrow> triple R k Q \<Longrightarrow> triple P (seq m k) Q"
  unfolding seq_def by (rule triple_bind)

lemma triple_execute:
  "(\<And>t s a s'. P s \<Longrightarrow> f t s = Inr (a, s') \<Longrightarrow> Q a s') \<Longrightarrow> triple P (execute f) Q"
  by (fastforce simp: triple_def execute_def split: if_splits sum.splits)

lemma triple_update_stmt: "(\<And>t s. P s \<Longrightarrow> Q () (f t s)) \<Longrightarrow> triple P (update_stmt f) Q"
  unfolding update_stmt_def by (rule triple_execute) auto

lemma triple_query: "(\<And>s. P s \<Longrightarrow> Q (f s) s) \<Longrightarrow> triple P (query f) Q"
  unfolding query_def by (rule triple_execute) auto

lemma triple_ensure: "(\<And>s. P s \<Longrightarrow> b \<Longrightarrow> Q () s) \<Longrightarrow> triple P (ensure b e) Q"
  by (auto simp: ensure_def triple_def ret_def fail_def)

lemma triple_now_ts: "(\<And>t s. P s \<Longrightarrow> Q t s) \<Longrightarrow> triple P now_ts Q"
  by (simp add: triple_def now_ts_def)

lemma triple_for_each: "(\<And>x. triple P (f x) (\<lambda>_. P)) \<Longrightarrow> triple P (for_each f xs) (\<lambda>_. P)"
  by (induction xs) (auto intro: triple_ret triple_seq)

lemma triple_conseq:
  "triple P' m Q' \<Longrightarrow> (\<And>s. P s \<Longrightarrow> P' s) \<Longrightarrow> (\<And>a s. Q' a s \<Longrightarrow> Q a s) \<Longrightarrow> triple P m Q"
  by (fastforce simp: triple_def)

lemma triple_conj: "triple P m Q \<Longrightarrow> triple P m R \<Longrightarrow> triple P m (\<lambda>a s. Q a s \<and> R a s)"
  by (fastforce simp: triple_def)

lemma keeps_atomic: "atomic m \<Longrightarrow> triple P m (\<lambda>_. P) \<Longrightarrow> keeps P m"
proof -
  assume a: "atomic m" and t: "triple P m (\<lambda>_. P)"
  have "P s'" if "P s" "m env n s = (r, n', s')" for env n s r n' s'
    using that atomicD [OF a] tripleD [OF t] by (cases r) blast+
  then show ?thesis by (simp add: keeps_def)
qed

text \<open>What a successful run went through.\<close>

named_theorems run_simps "inversion of successful runs"

lemma ret_Inr [run_simps]: "ret a env n s = (Inr b, n', s') \<longleftrightarrow> b = a \<and> n' = n \<and> s' = s"
  by (auto simp: ret_def)

lemma fail_Inr [run_simps]: "fail e env n s \<noteq> (Inr b, n', s')"
  by (simp add: fail_def)

lemma bind_Inr [run_simps]:
  "bind m f env n s = (Inr b, n', s') \<longleftrightarrow>
     (\<exists>a n1 s1. m env n s = (Inr a, n1, s1) \<and> f a env n1 s1 = (Inr b, n', s'))"
  by (auto simp: bind_def split: prod.splits sum.splits)

lemma seq_Inr [run_simps]:
  "seq m k env n s = (Inr b, n', s') \<longleftrightarrow>
     (\<exists>a n1 s1. m env n s = (Inr a, n1, s1) \<and> k env n1 s1 = (Inr b, n', s'))"
  by (simp add: seq_def bind_Inr)

lemma execute_Inr [run_simps]:
  "execute f env n s = (Inr a, n', s') \<longleftrightarrow>
     \<not> fault env n \<and> f (clock env n) s = Inr (a, s') \<and> n' = Suc n"
  by (auto simp: execute_def split: sum.splits prod.splits)

lemma query_Inr [run_simps]:
  "query f env n s = (Inr a, n', s') \<longleftrightarrow> \<not> fault env n \<and> a = f s \<and> s' = s \<and> n' = Suc n"
  by (auto simp: query_def execute_Inr)

lemma update_stmt_Inr [run_simps]:
  "update_stmt f env n s = (Inr a, n', s') \<longleftrightarrow> \<not> fault env n \<and> s' = f (clock env n) s \<and> n' = Suc n"
  by (auto simp: update_stmt_def execute_Inr)

lemma now_ts_Inr [run_simps]:
  "now_ts env n s = (Inr t, n', s') \<longleftrightarrow> t = clock env n \<and> n' = n \<and> s' = s"
  by (auto simp: now_ts_def)

lemma ensure_Inr [run_simps]:
  "ensure b e env n s = (Inr a, n', s') \<longleftrightarrow> b \<and> n' = n \<and> s' = s"
  by (auto simp: ensure_def ret_def fail_def)

lemma savepoint_Inr [run_simps]:
  "savepoint m env n s = (Inr a, n', s') \<longleftrightarrow>
     \<not> fault env n \<and> (\<exists>n1. m env (Suc n) s = (Inr a, n1, s') \<and> \<not> fault env n1 \<and> n' = Suc n1)"
  by (auto simp: savepoint_def split: prod.splits sum.splits)

text \<open>The outcome without its value.\<close>

definition discard :: "('s, 'a) dbm \<Rightarrow> ('s, unit) dbm" where
  "discard m = bind m (\<lambda>_. ret ())"

lemma discard_Inr [run_simps]:
  "discard m env n s = (Inr u, n', s') \<longleftrightarrow> (\<exists>a. m env n s = (Inr a, n', s'))"
  by (simp add: discard_def bind_Inr ret_Inr)

lemma discard_Inl: "discard m env n s = (Inl e, n', s') \<longleftrightarrow> m env n s = (Inl e, n', s')"
  by (auto simp: discard_def bind_def ret_def split: prod.splits sum.splits)

lemma triple_discard: "triple P m (\<lambda>_. Q) \<Longrightarrow> triple P (discard m) (\<lambda>_. Q)"
  unfolding discard_def by (rule triple_bind) (auto intro: triple_ret)

section \<open>Operations on a part of the tables\<close>

text \<open>
  A module's operation, run on a database that holds more tables than the module's own. The statements, their
  faults and the clock are those of the one connection.
\<close>

definition zoom :: "('t \<Rightarrow> 's) \<Rightarrow> ('s \<Rightarrow> 't \<Rightarrow> 't) \<Rightarrow> ('s, 'a) dbm \<Rightarrow> ('t, 'a) dbm" where
  "zoom part upd m env n t = (case m env n (part t) of (r, n', s') \<Rightarrow> (r, n', upd s' t))"

lemma zoom_Inr [run_simps]:
  "zoom part upd m env n t = (Inr a, n', t') \<longleftrightarrow> (\<exists>s'. m env n (part t) = (Inr a, n', s') \<and> t' = upd s' t)"
  by (auto simp: zoom_def split: prod.splits)

lemma atomic_zoom: "atomic m \<Longrightarrow> (\<And>t. upd (part t) t = t) \<Longrightarrow> atomic (zoom part upd m)"
  by (fastforce simp: atomic_def zoom_def split: prod.splits)

lemma triple_zoom:
  "triple P m Q \<Longrightarrow> (\<And>t. R t \<Longrightarrow> P (part t)) \<Longrightarrow> (\<And>a s t. R t \<Longrightarrow> Q a s \<Longrightarrow> S a (upd s t))
    \<Longrightarrow> triple R (zoom part upd m) S"
  by (fastforce simp: triple_def zoom_def split: prod.splits)

section \<open>Rows\<close>

text \<open>\<open>UPDATE ... WHERE\<close>, with the number of rows it changed.\<close>

definition update_where :: "('r \<Rightarrow> bool) \<Rightarrow> ('r \<Rightarrow> 'r) \<Rightarrow> 'r list \<Rightarrow> nat \<times> 'r list" where
  "update_where p f rows = (length (filter p rows), map (\<lambda>r. if p r then f r else r) rows)"

definition count_where :: "('r \<Rightarrow> bool) \<Rightarrow> 'r list \<Rightarrow> int" where
  "count_where p rows = int (length (filter p rows))"

lemma count_where_simps [simp]:
  "count_where p [] = 0"
  "count_where p (r # rs) = (if p r then 1 else 0) + count_where p rs"
  "count_where p (rs @ qs) = count_where p rs + count_where p qs"
  by (simp_all add: count_where_def)

lemma count_where_nonneg [simp]: "0 \<le> count_where p rows"
  by (simp add: count_where_def)

lemma update_where_none: "filter p rows = [] \<Longrightarrow> snd (update_where p f rows) = rows"
  by (induction rows) (auto simp: update_where_def split: if_splits)

lemma update_where_set:
  "set (snd (update_where p f rows)) = f ` {r \<in> set rows. p r} \<union> {r \<in> set rows. \<not> p r}"
  by (auto simp: update_where_def)

lemma count_where_cong:
  "(\<And>r. r \<in> set rows \<Longrightarrow> p r = q (f r)) \<Longrightarrow> count_where p rows = count_where q (map f rows)"
  by (induction rows) auto

text \<open>A unique key: at most one row has it.\<close>

lemma distinct_key_filter:
  "distinct (map k rows) \<Longrightarrow> length (filter (\<lambda>r. k r = x) rows) \<le> 1"
proof (induction rows)
  case (Cons r rows)
  then have "k r = x \<Longrightarrow> filter (\<lambda>r. k r = x) rows = []" by (auto simp: filter_empty_conv image_iff)
  with Cons show ?case by auto
qed simp

lemma distinct_key_eq:
  "distinct (map k rows) \<Longrightarrow> r \<in> set rows \<Longrightarrow> q \<in> set rows \<Longrightarrow> k r = k q \<Longrightarrow> r = q"
  by (metis distinct_map inj_onD)

lemma find_key_Some:
  "distinct (map k rows) \<Longrightarrow> r \<in> set rows \<Longrightarrow> k r = x \<Longrightarrow> find (\<lambda>r. k r = x) rows = Some r"
  by (induction rows) (auto simp: image_iff)

lemma find_None_iff_key: "find (\<lambda>r. k r = x) rows = None \<longleftrightarrow> x \<notin> k ` set rows"
  by (auto simp: find_None_iff)

section \<open>A store with an invariant\<close>

text \<open>
  The contract of a module over a table: every operation is atomic and keeps the invariant when it
  commits. Then the invariant holds after every sequence of operations, whichever of them
  fail and at whatever statement. Several operations run one after another because the connection is
  behind one mutex.
\<close>

fun run_ops :: "('o \<Rightarrow> ('s, 'r) dbm) \<Rightarrow> env \<Rightarrow> 'o list \<Rightarrow> nat \<Rightarrow> 's \<Rightarrow> 's" where
  "run_ops step env [] n s = s"
| "run_ops step env (o1 # ops) n s =
     (case step o1 env n s of (r, n', s') \<Rightarrow> run_ops step env ops n' s')"

locale checked_store =
  fixes step :: "'o \<Rightarrow> ('s, 'r) dbm" and inv :: "'s \<Rightarrow> bool"
  assumes step_abort: "inv s \<Longrightarrow> step x env n s = (Inl e, n', s') \<Longrightarrow> s' = s"
    and step_commit: "triple inv (step x) (\<lambda>_. inv)"
begin

lemma step_keeps: "keeps inv (step x)"
proof -
  have "inv s'" if "inv s" "step x env n s = (r, n', s')" for env n s r n' s'
    using that step_abort [OF that(1)] tripleD [OF step_commit that(1)] by (cases r) blast+
  then show ?thesis by (simp add: keeps_def)
qed

lemma run_keeps: "inv s \<Longrightarrow> inv (run_ops step env ops n s)"
proof (induction ops arbitrary: n s)
  case (Cons x ops)
  obtain r n' s' where run: "step x env n s = (r, n', s')" by (cases "step x env n s") auto
  with Cons.prems have "inv s'" by (rule keepsD [OF step_keeps])
  with Cons.IH run show ?case by simp
qed simp

end

end
