(* ===== verification/Jobs.thy ===== *)
theory Jobs
  imports Db
begin

text \<open>
  The job store: \<open>db/jobs.rs\<close> over the tables \<open>translation_jobs\<close> and
  \<open>translation_items\<close> of \<open>db/schema.rs\<close>, and the boot-time recovery of \<open>db/runtime.rs\<close>, which
  also clears \<open>translation_in_progress\<close>.

  A job counts its items; \<open>project_job_from_items\<close> recomputes the counters, and the status of a closed
  job, after every change of an item. Row ids come from the AUTOINCREMENT sequence. The JSON column of the component
  ids holds the list itself (\<open>serde_json\<close> round-trips a list of strings).
\<close>

section \<open>Rows\<close>

record job =
  j_id :: int
  j_domain :: string
  j_relation_id :: int
  j_business_line :: string
  j_status :: string
  j_total_items :: int
  j_done_items :: int
  j_failed_items :: int
  j_triggered_by :: string
  j_started_at :: "int option"
  j_completed_at :: "int option"
  j_created_at :: int
  j_updated_at :: int

record item =
  i_id :: int
  i_job_id :: int
  i_domain :: string
  i_relation_id :: int
  i_business_line :: string
  i_object_type :: string
  i_wp_object_id :: int
  i_wp_object_subtype :: string
  i_task_type :: string
  i_source_lang :: string
  i_target_lang :: string
  i_component_id :: string
  i_component_ids :: "string list"
  i_selected_component_id :: "string option"
  i_effective_source_lang :: "string option"
  i_effective_target_lang :: "string option"
  i_editable_overrides :: "string option"
  i_raw_path :: string
  i_translated_path :: string
  i_content_hash :: string
  i_status :: string
  i_client_task_id :: string
  i_upload_id :: "string option"
  i_wp_attachment_id :: "int option"
  i_sync_response :: "string option"
  i_error_message :: "string option"
  i_retry_count :: int
  i_max_retries :: int
  i_fetched_at :: "int option"
  i_translated_at :: "int option"
  i_synced_at :: "int option"
  i_created_at :: int
  i_updated_at :: int

record create_job_request =
  r_domain :: string
  r_relation_id :: int
  r_business_line :: string
  r_triggered_by :: string

record create_item_request =
  q_job_id :: int
  q_domain :: string
  q_relation_id :: int
  q_business_line :: string
  q_object_type :: string
  q_wp_object_id :: int
  q_wp_object_subtype :: string
  q_task_type :: string
  q_source_lang :: string
  q_target_lang :: string
  q_component_id :: string
  q_component_ids :: "string list"
  q_selected_component_id :: "string option"
  q_effective_source_lang :: "string option"
  q_effective_target_lang :: "string option"
  q_editable_overrides :: "string option"
  q_raw_path :: string
  q_client_task_id :: string
  q_max_retries :: int

record claim =
  c_domain :: string
  c_relation_id :: int
  c_object_type :: string
  c_object_id :: int
  c_claimed_at :: int

record job_db =
  jobs :: "job list"
  items :: "item list"
  claims :: "claim list"
  next_job_id :: int
  next_item_id :: int

definition empty_job_db :: job_db where
  "empty_job_db = \<lparr>jobs = [], items = [], claims = [], next_job_id = 1, next_item_id = 1\<rparr>"

type_synonym item_key = "string \<times> int \<times> string \<times> int \<times> string"

text \<open>The UNIQUE constraint of the items.\<close>

definition item_key :: "item \<Rightarrow> item_key" where
  "item_key i = (i_domain i, i_relation_id i, i_object_type i, i_wp_object_id i, i_task_type i)"

definition request_key :: "create_item_request \<Rightarrow> item_key" where
  "request_key q = (q_domain q, q_relation_id q, q_object_type q, q_wp_object_id q, q_task_type q)"

text \<open>The fallback of the component list to the single component.\<close>

definition effective_component_ids :: "string \<Rightarrow> string list \<Rightarrow> string list" where
  "effective_component_ids component_id component_ids =
     (if component_ids = [] then (if trim component_id = [] then [] else [component_id])
      else component_ids)"

text \<open>What a reader gets of a row.\<close>

definition row_to_item :: "item \<Rightarrow> item" where
  "row_to_item i = i\<lparr>i_component_ids := effective_component_ids (i_component_id i) (i_component_ids i)\<rparr>"

section \<open>Status classes\<close>

definition is_done :: "string \<Rightarrow> bool" where
  "is_done st \<longleftrightarrow> st \<in> {''done'', ''skipped''}"

definition is_failed :: "string \<Rightarrow> bool" where
  "is_failed st \<longleftrightarrow> st \<in> {''failed'', ''rejected''}"

definition is_open :: "string \<Rightarrow> bool" where
  "is_open st \<longleftrightarrow> st \<notin> {''done'', ''skipped'', ''failed'', ''rejected''}"

definition closed_job :: "string \<Rightarrow> bool" where
  "closed_job st \<longleftrightarrow> st \<in> {''completed'', ''failed'', ''partial''}"

section \<open>Job operations\<close>

definition create_job :: "create_job_request \<Rightarrow> (job_db, int) dbm" where
  "create_job q = execute (\<lambda>now s.
     Inr (next_job_id s,
       s\<lparr>jobs := jobs s @
           [\<lparr>j_id = next_job_id s, j_domain = r_domain q, j_relation_id = r_relation_id q,
             j_business_line = r_business_line q, j_status = ''pending'', j_total_items = 0,
             j_done_items = 0, j_failed_items = 0, j_triggered_by = r_triggered_by q,
             j_started_at = None, j_completed_at = None, j_created_at = now, j_updated_at = now\<rparr>],
         next_job_id := next_job_id s + 1\<rparr>))"

definition update_jobs :: "int \<Rightarrow> (int \<Rightarrow> job \<Rightarrow> job) \<Rightarrow> (job_db, nat) dbm" where
  "update_jobs k f = execute (\<lambda>now s.
     (case update_where (\<lambda>j. j_id j = k) (f now) (jobs s) of
        (changed, rows) \<Rightarrow> Inr (changed, s\<lparr>jobs := rows\<rparr>)))"

definition set_job_status :: "string \<Rightarrow> int \<Rightarrow> job \<Rightarrow> job" where
  "set_job_status status now j =
     (if status = ''running'' then
        j\<lparr>j_status := status,
          j_started_at := (case j_started_at j of None \<Rightarrow> Some now | Some t \<Rightarrow> Some t),
          j_updated_at := now\<rparr>
      else if status \<in> {''completed'', ''failed'', ''partial''} then
        j\<lparr>j_status := status, j_completed_at := Some now, j_updated_at := now\<rparr>
      else j\<lparr>j_status := status, j_updated_at := now\<rparr>)"

definition update_job_status :: "int \<Rightarrow> string \<Rightarrow> (job_db, unit) dbm" where
  "update_job_status k status =
     bind (update_jobs k (set_job_status status)) (\<lambda>changed. ensure (changed = 1) NotCommitted)"

text \<open>The status a set of items projects on its job.\<close>

definition projected_status :: "int \<Rightarrow> int \<Rightarrow> int \<Rightarrow> int \<Rightarrow> string \<Rightarrow> string" where
  "projected_status n d f pending empty_status =
     (if n = 0 then empty_status
      else if 0 < pending then ''partial''
      else if f = 0 then ''completed''
      else if d = 0 then ''failed''
      else ''partial'')"

definition count_items :: "int \<Rightarrow> (string \<Rightarrow> bool) \<Rightarrow> job_db \<Rightarrow> int" where
  "count_items k p s = count_where (\<lambda>i. i_job_id i = k \<and> p (i_status i)) (items s)"

definition item_projection :: "int \<Rightarrow> string \<Rightarrow> job_db \<Rightarrow> string" where
  "item_projection k empty_status s =
     projected_status (count_items k (\<lambda>_. True) s) (count_items k is_done s)
       (count_items k is_failed s) (count_items k is_open s) empty_status"

definition project_row :: "job_db \<Rightarrow> bool \<Rightarrow> string \<Rightarrow> int \<Rightarrow> job \<Rightarrow> job" where
  "project_row s finalize empty_status now j =
     (let k = j_id j;
          follow = (finalize \<or> closed_job (j_status j)) in
      j\<lparr>j_total_items := count_items k (\<lambda>_. True) s,
        j_done_items := count_items k is_done s,
        j_failed_items := count_items k is_failed s,
        j_status := (if follow then item_projection k empty_status s else j_status j),
        j_completed_at :=
          (if follow then (case j_completed_at j of None \<Rightarrow> Some now | Some t \<Rightarrow> Some t)
           else j_completed_at j),
        j_updated_at := now\<rparr>)"

text \<open>\<open>RETURNING status\<close>; \<open>query_row\<close> fails when the job does not exist.\<close>

definition project_job_from_items :: "int \<Rightarrow> bool \<Rightarrow> string \<Rightarrow> (job_db, string) dbm" where
  "project_job_from_items k finalize empty_status = execute (\<lambda>now s.
     (case find (\<lambda>j. j_id j = k) (jobs s) of
        None \<Rightarrow> Inl NoRows
      | Some j \<Rightarrow>
          Inr (j_status (project_row s finalize empty_status now j),
            s\<lparr>jobs := snd (update_where (\<lambda>j. j_id j = k) (project_row s finalize empty_status now) (jobs s))\<rparr>)))"

definition get_job_checked :: "int \<Rightarrow> (job_db, job option) dbm" where
  "get_job_checked k = query (\<lambda>s. find (\<lambda>j. j_id j = k) (jobs s))"

record job_progress =
  p_total :: int
  p_done :: int
  p_failed :: int
  p_pending_review :: int
  p_translating :: int

definition progress_of :: "int \<Rightarrow> job_db \<Rightarrow> job_progress" where
  "progress_of k s =
     \<lparr>p_total = count_items k (\<lambda>_. True) s,
      p_done = count_items k is_done s,
      p_failed = count_items k is_failed s,
      p_pending_review = count_items k (\<lambda>st. st = ''pending_review'') s,
      p_translating = count_items k (\<lambda>st. st \<notin> {''done'', ''skipped'', ''failed'', ''rejected'', ''pending_review''}) s\<rparr>"

definition get_job_progress :: "int \<Rightarrow> (job_db, job_progress) dbm" where
  "get_job_progress k = query (progress_of k)"

definition count_items_by_status_for_relation :: "string \<Rightarrow> int \<Rightarrow> string \<Rightarrow> (job_db, int) dbm" where
  "count_items_by_status_for_relation domain relation_id status = query (\<lambda>s.
     count_where (\<lambda>i. i_domain i = domain \<and> i_relation_id i = relation_id \<and> i_status i = status) (items s))"

definition count_legacy_items_by_status_for_relation ::
  "string \<Rightarrow> string \<Rightarrow> int \<Rightarrow> string \<Rightarrow> (job_db, int) dbm" where
  "count_legacy_items_by_status_for_relation client_base legacy_domain relation_id status = query (\<lambda>s.
     count_where (\<lambda>i. i_domain i = legacy_domain \<and> i_relation_id i = relation_id \<and> i_status i = status
       \<and> (\<exists>j \<in> set (jobs s). j_id j = i_job_id i \<and> j_domain j = client_base)) (items s))"

definition count_items_by_status :: "string \<Rightarrow> string \<Rightarrow> (job_db, int) dbm" where
  "count_items_by_status domain status = query (\<lambda>s.
     count_where (\<lambda>i. i_domain i = domain \<and> i_status i = status) (items s))"

definition count_all_items_by_status :: "string \<Rightarrow> (job_db, int) dbm" where
  "count_all_items_by_status status = query (\<lambda>s. count_where (\<lambda>i. i_status i = status) (items s))"

definition count_pending_review_items :: "(job_db, int) dbm" where
  "count_pending_review_items = query (\<lambda>s. count_where (\<lambda>i. i_status i = ''pending_review'') (items s))"

definition count_pending_items :: "int \<Rightarrow> (job_db, int) dbm" where
  "count_pending_items k = query (count_items k is_open)"

section \<open>Item operations\<close>

definition new_item :: "create_item_request \<Rightarrow> int \<Rightarrow> int \<Rightarrow> item" where
  "new_item q k now =
     \<lparr>i_id = k, i_job_id = q_job_id q, i_domain = q_domain q, i_relation_id = q_relation_id q,
      i_business_line = q_business_line q, i_object_type = q_object_type q,
      i_wp_object_id = q_wp_object_id q, i_wp_object_subtype = q_wp_object_subtype q,
      i_task_type = q_task_type q, i_source_lang = q_source_lang q, i_target_lang = q_target_lang q,
      i_component_id = q_component_id q,
      i_component_ids = effective_component_ids (q_component_id q) (q_component_ids q),
      i_selected_component_id = Some (case q_selected_component_id q of Some c \<Rightarrow> c | None \<Rightarrow> q_component_id q),
      i_effective_source_lang = Some (case q_effective_source_lang q of Some l \<Rightarrow> l | None \<Rightarrow> q_source_lang q),
      i_effective_target_lang = Some (case q_effective_target_lang q of Some l \<Rightarrow> l | None \<Rightarrow> q_target_lang q),
      i_editable_overrides = q_editable_overrides q,
      i_raw_path = q_raw_path q, i_translated_path = [], i_content_hash = [], i_status = ''pending'',
      i_client_task_id = q_client_task_id q, i_upload_id = None, i_wp_attachment_id = None,
      i_sync_response = None, i_error_message = None, i_retry_count = 0,
      i_max_retries = q_max_retries q, i_fetched_at = None, i_translated_at = None, i_synced_at = None,
      i_created_at = now, i_updated_at = now\<rparr>"

text \<open>\<open>INSERT OR IGNORE\<close>: a duplicate key is ignored, a missing job violates the foreign key.\<close>

definition insert_item :: "create_item_request \<Rightarrow> (job_db, unit) dbm" where
  "insert_item q = execute (\<lambda>now s.
     if request_key q \<in> item_key ` set (items s) then Inr ((), s)
     else if q_job_id q \<notin> j_id ` set (jobs s) then Inl ForeignKeyViolation
     else Inr ((), s\<lparr>items := items s @ [new_item q (next_item_id s) now],
                     next_item_id := next_item_id s + 1\<rparr>))"

definition select_item_by_key :: "item_key \<Rightarrow> (job_db, int \<times> int) dbm" where
  "select_item_by_key key = execute (\<lambda>now s.
     (case find (\<lambda>i. item_key i = key) (items s) of
        None \<Rightarrow> Inl NoRows
      | Some i \<Rightarrow> Inr ((i_id i, i_job_id i), s)))"

definition create_item :: "create_item_request \<Rightarrow> (job_db, int) dbm" where
  "create_item q = savepoint
     (seq (insert_item q)
     (bind (select_item_by_key (request_key q)) (\<lambda>(k, owner_job_id).
      seq (project_job_from_items owner_job_id False ''completed'')
     (ret k))))"

definition update_items :: "int \<Rightarrow> (int \<Rightarrow> item \<Rightarrow> item) \<Rightarrow> (job_db, nat) dbm" where
  "update_items k f = execute (\<lambda>now s.
     (case update_where (\<lambda>i. i_id i = k) (f now) (items s) of
        (changed, rows) \<Rightarrow> Inr (changed, s\<lparr>items := rows\<rparr>)))"

definition set_item_status :: "string \<Rightarrow> string option \<Rightarrow> int \<Rightarrow> item \<Rightarrow> item" where
  "set_item_status status err now i =
     (let i' = i\<lparr>i_status := status, i_error_message := err, i_updated_at := now\<rparr> in
      if status = ''fetched'' then i'\<lparr>i_fetched_at := Some now\<rparr>
      else if status = ''translated'' then i'\<lparr>i_translated_at := Some now\<rparr>
      else if status = ''done'' then i'\<lparr>i_synced_at := Some now\<rparr>
      else i')"

definition select_owner :: "int \<Rightarrow> (job_db, int) dbm" where
  "select_owner k = execute (\<lambda>now s.
     (case find (\<lambda>i. i_id i = k) (items s) of None \<Rightarrow> Inl NoRows | Some i \<Rightarrow> Inr (i_job_id i, s)))"

definition update_item_status :: "int \<Rightarrow> string \<Rightarrow> string option \<Rightarrow> (job_db, unit) dbm" where
  "update_item_status k status err = savepoint
     (bind (update_items k (set_item_status status err)) (\<lambda>changed.
      seq (ensure (changed = 1) NotCommitted)
     (bind (select_owner k) (\<lambda>job_id.
      seq (project_job_from_items job_id False ''completed'')
     (ret ())))))"

definition update_item_translated_path :: "int \<Rightarrow> string \<Rightarrow> (job_db, unit) dbm" where
  "update_item_translated_path k path =
     bind (update_items k (\<lambda>now i. i\<lparr>i_translated_path := path, i_updated_at := now\<rparr>))
       (\<lambda>changed. ensure (changed = 1) NotCommitted)"

definition increment_item_retry :: "int \<Rightarrow> (job_db, unit) dbm" where
  "increment_item_retry k =
     bind (update_items k (\<lambda>now i. i\<lparr>i_retry_count := i_retry_count i + 1, i_updated_at := now\<rparr>))
       (\<lambda>changed. ensure (changed = 1) NotCommitted)"

text \<open>The updates that do not look at the number of changed rows.\<close>

definition update_item_upload_id :: "int \<Rightarrow> string option \<Rightarrow> (job_db, unit) dbm" where
  "update_item_upload_id k u =
     bind (update_items k (\<lambda>now i. i\<lparr>i_upload_id := u, i_updated_at := now\<rparr>)) (\<lambda>_. ret ())"

definition update_item_wp_attachment_id :: "int \<Rightarrow> int \<Rightarrow> (job_db, unit) dbm" where
  "update_item_wp_attachment_id k a =
     bind (update_items k (\<lambda>now i. i\<lparr>i_wp_attachment_id := Some a, i_updated_at := now\<rparr>)) (\<lambda>_. ret ())"

definition update_item_task_override ::
  "int \<Rightarrow> string option \<Rightarrow> string option \<Rightarrow> string option \<Rightarrow> string option \<Rightarrow> (job_db, unit) dbm" where
  "update_item_task_override k component src tgt overrides =
     bind (update_items k (\<lambda>now i. i\<lparr>i_selected_component_id := component,
         i_effective_source_lang := src, i_effective_target_lang := tgt,
         i_editable_overrides := overrides, i_updated_at := now\<rparr>)) (\<lambda>_. ret ())"

definition update_item_component_trace :: "int \<Rightarrow> string \<Rightarrow> string list \<Rightarrow> (job_db, unit) dbm" where
  "update_item_component_trace k component_id component_ids =
     bind (update_items k (\<lambda>now i. i\<lparr>i_component_id := component_id,
         i_component_ids := effective_component_ids component_id component_ids, i_updated_at := now\<rparr>))
       (\<lambda>_. ret ())"

definition update_item_sync_response :: "int \<Rightarrow> string \<Rightarrow> (job_db, unit) dbm" where
  "update_item_sync_response k response =
     bind (update_items k (\<lambda>now i. i\<lparr>i_sync_response := Some response, i_updated_at := now\<rparr>)) (\<lambda>_. ret ())"

definition record_item_outcome ::
  "create_item_request \<Rightarrow> string \<Rightarrow> string \<Rightarrow> string option \<Rightarrow> (job_db, int) dbm" where
  "record_item_outcome q path status err = savepoint
     (bind (create_item q) (\<lambda>k.
      seq (update_item_component_trace k (q_component_id q) (q_component_ids q))
     (seq (update_item_translated_path k path)
     (seq (update_item_status k status err)
     (ret k)))))"

section \<open>Queries over items\<close>

definition get_item_checked :: "int \<Rightarrow> (job_db, item option) dbm" where
  "get_item_checked k = query (\<lambda>s. map_option row_to_item (find (\<lambda>i. i_id i = k) (items s)))"

text \<open>\<open>ORDER BY id ASC\<close>.\<close>

definition items_where :: "(item \<Rightarrow> bool) \<Rightarrow> job_db \<Rightarrow> item list" where
  "items_where p s = map row_to_item (sort_key i_id (filter p (items s)))"

definition list_items_by_job :: "int \<Rightarrow> string option \<Rightarrow> (job_db, item list) dbm" where
  "list_items_by_job k status_filter = query (items_where (\<lambda>i. i_job_id i = k
     \<and> (case status_filter of None \<Rightarrow> True | Some st \<Rightarrow> i_status i = st)))"

definition get_items_by_object :: "string \<Rightarrow> int \<Rightarrow> int \<Rightarrow> (job_db, item list) dbm" where
  "get_items_by_object domain relation_id wp_object_id = query (items_where (\<lambda>i.
     i_domain i = domain \<and> i_relation_id i = relation_id \<and> i_wp_object_id i = wp_object_id))"

definition list_items_by_domain_object_checked :: "string \<Rightarrow> int \<Rightarrow> int \<Rightarrow> (job_db, item list) dbm" where
  "list_items_by_domain_object_checked domain relation_id wp_object_id = query (\<lambda>s.
     take 50 (items_where (\<lambda>i.
       i_domain i = domain \<and> i_relation_id i = relation_id \<and> i_wp_object_id i = wp_object_id) s))"

definition has_pending_review_item_checked :: "string \<Rightarrow> int \<Rightarrow> int \<Rightarrow> (job_db, bool) dbm" where
  "has_pending_review_item_checked domain relation_id wp_object_id = query (\<lambda>s.
     \<exists>i \<in> set (items s). i_domain i = domain \<and> i_relation_id i = relation_id
       \<and> i_wp_object_id i = wp_object_id \<and> i_status i = ''pending_review'')"

definition resumable :: "string \<Rightarrow> string list \<Rightarrow> item \<Rightarrow> bool" where
  "resumable domain statuses i \<longleftrightarrow> i_domain i = domain \<and> i_status i \<in> set statuses
     \<and> (i_max_retries i \<le> 0 \<or> i_retry_count i < i_max_retries i)"

definition list_resumable_items :: "string \<Rightarrow> string list \<Rightarrow> (job_db, item list) dbm" where
  "list_resumable_items domain statuses =
     (if statuses = [] then ret []
      else query (\<lambda>s. take 500 (items_where (resumable domain statuses) s)))"

primrec keep_owned :: "string \<Rightarrow> item list \<Rightarrow> (job_db, item list) dbm" where
  "keep_owned client_base [] = ret []"
| "keep_owned client_base (i # is) =
     bind (get_job_checked (i_job_id i)) (\<lambda>job.
       case job of
         None \<Rightarrow> fail NoRows
       | Some j \<Rightarrow> bind (keep_owned client_base is) (\<lambda>rest.
           ret (if j_domain j = client_base then i # rest else rest)))"

definition list_resumable_items_for_client_base ::
  "string \<Rightarrow> string \<Rightarrow> string list \<Rightarrow> (job_db, item list) dbm" where
  "list_resumable_items_for_client_base client_base legacy_domain statuses =
     bind (list_resumable_items client_base statuses) (\<lambda>own.
       if legacy_domain \<noteq> client_base then
         bind (list_resumable_items legacy_domain statuses) (\<lambda>legacy.
         bind (keep_owned client_base legacy) (\<lambda>owned.
         ret (sort_key i_id (own @ owned))))
       else ret (sort_key i_id own))"

section \<open>Recovery after an interrupted run\<close>

text \<open>SQLite's \<open>TRIM\<close> removes spaces.\<close>

definition sql_trim :: "string \<Rightarrow> string" where
  "sql_trim s = trim_by (\<lambda>c. c = CHR 0x20) s"

definition interrupted :: "string \<Rightarrow> bool" where
  "interrupted st \<longleftrightarrow> st \<in> {''fetching'', ''fetched'', ''translating'', ''syncing''}"

definition interrupted_jobs :: "job_db \<Rightarrow> int list" where
  "interrupted_jobs s = map j_id (filter (\<lambda>j. j_status j = ''running''
     \<or> (\<exists>i \<in> set (items s). i_job_id i = j_id j \<and> interrupted (i_status i))) (jobs s))"

definition reset_item :: "int \<Rightarrow> item \<Rightarrow> item" where
  "reset_item now i =
     i\<lparr>i_status := (if sql_trim (i_translated_path i) \<noteq> [] then ''translated'' else ''pending''),
       i_updated_at := now\<rparr>"

record recovery_report =
  reset_items :: nat
  finalized_jobs :: nat
  released_claims :: nat

definition recover_interrupted_work :: "bool \<Rightarrow> (job_db, recovery_report) dbm" where
  "recover_interrupted_work owns_database =
     (if \<not> owns_database then fail LeaseMismatch
      else savepoint
        (bind (query interrupted_jobs) (\<lambda>ids.
         bind (execute (\<lambda>now s.
           (case update_where (\<lambda>i. interrupted (i_status i)) (reset_item now) (items s) of
              (changed, rows) \<Rightarrow> Inr (changed, s\<lparr>items := rows\<rparr>)))) (\<lambda>reset.
         seq (for_each (\<lambda>k. bind (project_job_from_items k True ''failed'') (\<lambda>_. ret ())) ids)
        (bind (execute (\<lambda>now s. Inr (length (claims s), s\<lparr>claims := []\<rparr>))) (\<lambda>released.
         ret \<lparr>reset_items = reset, finalized_jobs = length ids, released_claims = released\<rparr>))))))"

section \<open>The invariant of the tables\<close>

definition keys_ok :: "job_db \<Rightarrow> bool" where
  "keys_ok s \<longleftrightarrow> distinct (map j_id (jobs s)) \<and> distinct (map i_id (items s))
     \<and> distinct (map item_key (items s))
     \<and> (\<forall>j \<in> set (jobs s). j_id j < next_job_id s) \<and> (\<forall>i \<in> set (items s). i_id i < next_item_id s)
     \<and> i_job_id ` set (items s) \<subseteq> j_id ` set (jobs s)"

text \<open>The counters of a job are the counts of its items.\<close>

definition counted :: "job_db \<Rightarrow> job \<Rightarrow> bool" where
  "counted s j \<longleftrightarrow> j_total_items j = count_items (j_id j) (\<lambda>_. True) s
     \<and> j_done_items j = count_items (j_id j) is_done s
     \<and> j_failed_items j = count_items (j_id j) is_failed s"

text \<open>All jobs are counted but those of \<open>K\<close>, whose projection is due.\<close>

definition due :: "int set \<Rightarrow> job_db \<Rightarrow> bool" where
  "due K s \<longleftrightarrow> keys_ok s \<and> (\<forall>j \<in> set (jobs s). j_id j \<notin> K \<longrightarrow> counted s j)"

definition job_inv :: "job_db \<Rightarrow> bool" where
  "job_inv s \<longleftrightarrow> due {} s"

lemma due_mono: "due K s \<Longrightarrow> K \<subseteq> L \<Longrightarrow> due L s"
  by (auto simp: due_def)

lemma job_inv_due: "job_inv s \<Longrightarrow> due K s"
  by (auto simp: job_inv_def due_def)

lemma job_inv_empty: "job_inv empty_job_db"
  by (simp add: job_inv_def due_def keys_ok_def empty_job_db_def)

lemma keys_okD:
  assumes "keys_ok s"
  shows "distinct (map j_id (jobs s))" "distinct (map i_id (items s))" "distinct (map item_key (items s))"
  using assms by (simp_all add: keys_ok_def)

lemma update_where_ids:
  "(\<And>r. k (f r) = k r) \<Longrightarrow> map k (snd (update_where p f rows)) = map k rows"
  by (simp add: update_where_def)

lemma keys_ok_jobs:
  "keys_ok s \<Longrightarrow> (\<And>j. j_id (f j) = j_id j) \<Longrightarrow> keys_ok (s\<lparr>jobs := snd (update_where p f (jobs s))\<rparr>)"
proof -
  assume ok: "keys_ok s" and f: "\<And>j. j_id (f j) = j_id j"
  have ids: "map j_id (snd (update_where p f (jobs s))) = map j_id (jobs s)"
    using f by (rule update_where_ids)
  then have "j_id ` set (snd (update_where p f (jobs s))) = j_id ` set (jobs s)"
    by (metis list.set_map)
  moreover have "\<forall>j \<in> set (snd (update_where p f (jobs s))). j_id j < next_job_id s"
    using ok f by (auto simp: keys_ok_def update_where_def)
  ultimately show ?thesis using ok ids by (simp add: keys_ok_def)
qed

definition key_stable :: "(item \<Rightarrow> item) \<Rightarrow> bool" where
  "key_stable f \<longleftrightarrow> (\<forall>i. i_id (f i) = i_id i \<and> item_key (f i) = item_key i \<and> i_job_id (f i) = i_job_id i)"

lemma keys_ok_items:
  assumes "keys_ok s" "key_stable f"
  shows "keys_ok (s\<lparr>items := snd (update_where p f (items s))\<rparr>)"
proof -
  have "map i_id (snd (update_where p f (items s))) = map i_id (items s)"
    "map item_key (snd (update_where p f (items s))) = map item_key (items s)"
    "map i_job_id (snd (update_where p f (items s))) = map i_job_id (items s)"
    using assms(2) by (simp_all add: update_where_ids key_stable_def)
  moreover have "\<forall>i \<in> set (snd (update_where p f (items s))). i_id i < next_item_id s"
    using assms by (auto simp: keys_ok_def update_where_def key_stable_def)
  ultimately show ?thesis using assms(1)
    by (simp add: keys_ok_def) (metis list.set_map)
qed

text \<open>The counts depend on the owners and the status classes of the items only.\<close>

lemma count_items_update:
  assumes "\<And>i. i_job_id (f i) = i_job_id i"
    and "\<And>i. i \<in> set (items s) \<Longrightarrow> q i \<Longrightarrow> i_job_id i = k \<Longrightarrow> p (i_status (f i)) = p (i_status i)"
  shows "count_items k p (s\<lparr>items := snd (update_where q f (items s))\<rparr>) = count_items k p s"
proof -
  have "count_where (\<lambda>i. i_job_id i = k \<and> p (i_status i)) (items s)
    = count_where (\<lambda>i. i_job_id i = k \<and> p (i_status i)) (map (\<lambda>r. if q r then f r else r) (items s))"
    by (rule count_where_cong) (use assms in auto)
  then show ?thesis by (simp add: count_items_def update_where_def)
qed

lemma count_items_jobs [simp]:
  "count_items k p (s\<lparr>jobs := js\<rparr>) = count_items k p s"
  "count_items k p (s\<lparr>claims := cs\<rparr>) = count_items k p s"
  "count_items k p (s\<lparr>next_job_id := n\<rparr>) = count_items k p s"
  "count_items k p (s\<lparr>next_item_id := n\<rparr>) = count_items k p s"
  by (simp_all add: count_items_def)

lemma counted_jobs [simp]: "counted (s\<lparr>jobs := js\<rparr>) = counted s"
  by (simp add: counted_def fun_eq_iff)

section \<open>Triples of the statements\<close>

lemma project_row_sel [simp]:
  "j_id (project_row s fin e now j) = j_id j"
  "counted s (project_row s fin e now j)"
  by (simp_all add: project_row_def Let_def counted_def)

lemma project_triple: "triple (due {k}) (project_job_from_items k fin e) (\<lambda>_. job_inv)"
  unfolding project_job_from_items_def
proof (rule triple_execute)
  fix t s a s'
  assume due: "due {k} s"
    and run: "(case find (\<lambda>j. j_id j = k) (jobs s) of None \<Rightarrow> Inl NoRows
      | Some j \<Rightarrow> Inr (j_status (project_row s fin e t j),
          s\<lparr>jobs := snd (update_where (\<lambda>j. j_id j = k) (project_row s fin e t) (jobs s))\<rparr>)) = Inr (a, s')"
  from run have s': "s' = s\<lparr>jobs := snd (update_where (\<lambda>j. j_id j = k) (project_row s fin e t) (jobs s))\<rparr>"
    by (auto split: option.splits)
  have "keys_ok s'" using due unfolding s' by (intro keys_ok_jobs) (simp_all add: due_def)
  moreover have "counted s' j" if "j \<in> set (jobs s')" for j
    using that due by (auto simp: s' update_where_def due_def)
  ultimately show "job_inv s'" by (simp add: job_inv_def due_def)
qed

lemma insert_item_triple:
  "triple job_inv (insert_item q)
     (\<lambda>_ s. \<exists>i \<in> set (items s). item_key i = request_key q \<and> due {i_job_id i} s)"
  unfolding insert_item_def
proof (rule triple_execute)
  fix now s a s'
  assume inv: "job_inv s"
    and run: "(if request_key q \<in> item_key ` set (items s) then Inr ((), s)
      else if q_job_id q \<notin> j_id ` set (jobs s) then Inl ForeignKeyViolation
      else Inr ((), s\<lparr>items := items s @ [new_item q (next_item_id s) now],
                      next_item_id := next_item_id s + 1\<rparr>)) = Inr (a, s')"
  show "\<exists>i \<in> set (items s'). item_key i = request_key q \<and> due {i_job_id i} s'"
  proof (cases "request_key q \<in> item_key ` set (items s)")
    case True
    with run inv show ?thesis by (auto intro: job_inv_due)
  next
    case False
    let ?i = "new_item q (next_item_id s) now"
    have s': "s' = s\<lparr>items := items s @ [?i], next_item_id := next_item_id s + 1\<rparr>"
      and owner: "q_job_id q \<in> j_id ` set (jobs s)"
      using run False by (auto split: if_splits)
    have i: "i_id ?i = next_item_id s" "item_key ?i = request_key q" "i_job_id ?i = q_job_id q"
      by (simp_all add: new_item_def item_key_def request_key_def)
    have ok: "keys_ok s" "\<forall>j \<in> set (jobs s). counted s j" using inv by (auto simp: job_inv_def due_def)
    have "keys_ok s'"
      using ok(1) i owner False unfolding s' by (auto simp: keys_ok_def image_iff)
    moreover have "counted s' j" if "j \<in> set (jobs s')" "j_id j \<noteq> q_job_id q" for j
      using that ok(2) i unfolding s' by (auto simp: counted_def count_items_def)
    ultimately have "due {i_job_id ?i} s'" by (simp add: due_def i)
    then show ?thesis using i by (auto simp: s')
  qed
qed

lemma select_item_triple:
  "triple (\<lambda>s. \<exists>i \<in> set (items s). item_key i = key \<and> due {i_job_id i} s) (select_item_by_key key)
     (\<lambda>r s. due {snd r} s)"
  unfolding select_item_by_key_def
proof (rule triple_execute)
  fix t s a s'
  assume "\<exists>i \<in> set (items s). item_key i = key \<and> due {i_job_id i} s"
    and run: "(case find (\<lambda>i. item_key i = key) (items s) of None \<Rightarrow> Inl NoRows
      | Some i \<Rightarrow> Inr ((i_id i, i_job_id i), s)) = Inr (a, s')"
  then obtain i where i: "i \<in> set (items s)" "item_key i = key" "due {i_job_id i} s" by blast
  then have "find (\<lambda>i. item_key i = key) (items s) = Some i"
    by (intro find_key_Some) (simp_all add: due_def keys_okD)
  with run i(3) show "due {snd a} s'" by auto
qed

lemma create_item_triple: "triple job_inv (create_item q) (\<lambda>_. job_inv)"
  unfolding create_item_def
  by (intro triple_savepoint triple_seq [OF insert_item_triple] triple_bind [OF select_item_triple])
    (auto simp: split_beta intro!: triple_seq [OF project_triple] triple_ret)

lemma create_job_triple: "triple job_inv (create_job q) (\<lambda>_. job_inv)"
  unfolding create_job_def
proof (rule triple_execute, clarsimp)
  fix t s
  assume inv: "job_inv s"
  have zero: "count_items (next_job_id s) p s = 0" for p
    using inv by (fastforce simp: job_inv_def due_def keys_ok_def count_items_def count_where_def
        filter_empty_conv subset_iff image_iff)
  show "job_inv (s\<lparr>jobs := jobs s @ [\<lparr>j_id = next_job_id s, j_domain = r_domain q,
      j_relation_id = r_relation_id q, j_business_line = r_business_line q, j_status = ''pending'',
      j_total_items = 0, j_done_items = 0, j_failed_items = 0, j_triggered_by = r_triggered_by q,
      j_started_at = None, j_completed_at = None, j_created_at = t, j_updated_at = t\<rparr>],
      next_job_id := next_job_id s + 1\<rparr>)"
    using inv zero by (auto simp: job_inv_def due_def keys_ok_def counted_def image_iff)
qed

lemma update_jobs_triple:
  assumes "\<And>now j. j_id (f now j) = j_id j \<and> j_total_items (f now j) = j_total_items j
      \<and> j_done_items (f now j) = j_done_items j \<and> j_failed_items (f now j) = j_failed_items j"
  shows "triple job_inv (update_jobs k f) (\<lambda>_. job_inv)"
  unfolding update_jobs_def
proof (rule triple_execute)
  fix t s a s'
  assume inv: "job_inv s"
    and "(case update_where (\<lambda>j. j_id j = k) (f t) (jobs s) of
      (changed, rows) \<Rightarrow> Inr (changed, s\<lparr>jobs := rows\<rparr>)) = (Inr (a, s') :: db_error + _)"
  then have s': "s' = s\<lparr>jobs := snd (update_where (\<lambda>j. j_id j = k) (f t) (jobs s))\<rparr>"
    by (simp add: split_beta)
  have "keys_ok s'" using inv assms unfolding s' by (intro keys_ok_jobs) (simp_all add: job_inv_def due_def)
  moreover have "counted s' j" if "j \<in> set (jobs s')" for j
    using that inv assms by (auto simp: s' update_where_def job_inv_def due_def counted_def)
  ultimately show "job_inv s'" by (simp add: job_inv_def due_def)
qed

lemma update_job_status_triple: "triple job_inv (update_job_status k status) (\<lambda>_. job_inv)"
  unfolding update_job_status_def
  by (rule triple_bind [OF update_jobs_triple]) (auto simp: set_job_status_def intro: triple_ensure)

text \<open>A change of an item row: its owner is due, unless the status classes stay.\<close>

lemma items_updated:
  assumes inv: "job_inv s" and f: "key_stable f"
    and s': "s' = s\<lparr>items := snd (update_where q f (items s))\<rparr>"
    and q: "\<And>i. i \<in> set (items s) \<Longrightarrow> q i \<Longrightarrow> i_job_id i \<notin> K \<Longrightarrow>
      is_done (i_status (f i)) = is_done (i_status i) \<and> is_failed (i_status (f i)) = is_failed (i_status i)"
  shows "due K s'"
proof -
  have "keys_ok s'" using inv f unfolding s' by (intro keys_ok_items) (simp_all add: job_inv_def due_def)
  moreover have "counted s' j" if j: "j \<in> set (jobs s')" "j_id j \<notin> K" for j
  proof -
    have jf: "\<And>i. i_job_id (f i) = i_job_id i" using f by (simp add: key_stable_def)
    have same: "count_items (j_id j) p s' = count_items (j_id j) p s"
      if "p \<in> {\<lambda>_. True, is_done, is_failed}" for p
      unfolding s' by (rule count_items_update [OF jf]) (use that q j(2) in auto)
    have "counted s j" using j inv by (simp add: s' job_inv_def due_def)
    with same show ?thesis by (simp add: counted_def)
  qed
  ultimately show ?thesis by (simp add: due_def)
qed

lemma update_items_triple:
  assumes "\<And>now. key_stable (f now)" and "\<And>now i. i_status (f now i) = i_status i"
  shows "triple job_inv (update_items k f) (\<lambda>_. job_inv)"
  unfolding update_items_def
proof (rule triple_execute)
  fix t s a s'
  assume inv: "job_inv s"
    and "(case update_where (\<lambda>i. i_id i = k) (f t) (items s) of
      (changed, rows) \<Rightarrow> Inr (changed, s\<lparr>items := rows\<rparr>)) = (Inr (a, s') :: db_error + _)"
  then have "s' = s\<lparr>items := snd (update_where (\<lambda>i. i_id i = k) (f t) (items s))\<rparr>"
    by (simp add: split_beta)
  then show "job_inv s'"
    unfolding job_inv_def using inv assms by (intro items_updated [of s "f t"]) auto
qed

lemma key_stableI:
  "(\<And>i. i_id (f i) = i_id i) \<Longrightarrow> (\<And>i. item_key (f i) = item_key i) \<Longrightarrow>
   (\<And>i. i_job_id (f i) = i_job_id i) \<Longrightarrow> key_stable f"
  by (simp add: key_stable_def)

lemma key_stable_status: "key_stable (set_item_status status err now)"
  by (rule key_stableI) (simp_all add: set_item_status_def Let_def item_key_def)

lemma key_stable_reset: "key_stable (reset_item now)"
  by (rule key_stableI) (simp_all add: reset_item_def item_key_def)

lemma update_item_columns_triples:
  "triple job_inv (update_item_translated_path k path) (\<lambda>_. job_inv)"
  "triple job_inv (increment_item_retry k) (\<lambda>_. job_inv)"
  "triple job_inv (update_item_upload_id k u) (\<lambda>_. job_inv)"
  "triple job_inv (update_item_wp_attachment_id k a) (\<lambda>_. job_inv)"
  "triple job_inv (update_item_task_override k c1 l1 l2 ov) (\<lambda>_. job_inv)"
  "triple job_inv (update_item_component_trace k c2 cs) (\<lambda>_. job_inv)"
  "triple job_inv (update_item_sync_response k r) (\<lambda>_. job_inv)"
  unfolding update_item_translated_path_def increment_item_retry_def update_item_upload_id_def
    update_item_wp_attachment_id_def update_item_task_override_def update_item_component_trace_def
    update_item_sync_response_def
  by (rule triple_bind [OF update_items_triple], simp_all add: key_stable_def item_key_def
      triple_ensure triple_ret)+

lemma select_owner_triple:
  "triple (\<lambda>s. keys_ok s \<and> (\<forall>i \<in> set (items s). i_id i = k \<longrightarrow> due {i_job_id i} s)) (select_owner k)
     (\<lambda>job_id s. due {job_id} s)"
  unfolding select_owner_def
  by (rule triple_execute) (auto dest: find_SomeD split: option.splits)

lemma update_item_status_triple:
  "triple job_inv (update_item_status k status err) (\<lambda>_. job_inv)"
  unfolding update_item_status_def
proof (intro triple_savepoint triple_bind [where R = "\<lambda>_ s. keys_ok s
    \<and> (\<forall>i \<in> set (items s). i_id i = k \<longrightarrow> due {i_job_id i} s)"])
  show "triple job_inv (update_items k (set_item_status status err))
    (\<lambda>_ s. keys_ok s \<and> (\<forall>i \<in> set (items s). i_id i = k \<longrightarrow> due {i_job_id i} s))"
    unfolding update_items_def
  proof (rule triple_execute)
    fix t s a s'
    let ?f = "set_item_status status err t"
    assume inv: "job_inv s"
      and "(case update_where (\<lambda>i. i_id i = k) ?f (items s) of
        (changed, rows) \<Rightarrow> Inr (changed, s\<lparr>items := rows\<rparr>)) = (Inr (a, s') :: db_error + _)"
    then have s': "s' = s\<lparr>items := snd (update_where (\<lambda>i. i_id i = k) ?f (items s))\<rparr>"
      by (simp add: split_beta)
    have due: "due {j. \<exists>i \<in> set (items s). i_id i = k \<and> i_job_id i = j} s'"
      by (rule items_updated [OF inv key_stable_status s']) auto
    have "due {i_job_id i} s'" if i: "i \<in> set (items s')" "i_id i = k" for i
    proof -
      have f: "i_id (?f x) = i_id x" "i_job_id (?f x) = i_job_id x" for x
        using key_stable_status [of status err t] by (simp_all add: key_stable_def)
      from i(1) obtain i0 where "i0 \<in> set (items s)" "i = (if i_id i0 = k then ?f i0 else i0)"
        unfolding s' update_where_def by auto
      with i(2) have i0: "i0 \<in> set (items s)" "i_id i0 = k" "i_job_id i0 = i_job_id i"
        by (simp_all add: f split: if_splits)
      have "distinct (map i_id (items s))" using inv by (simp add: job_inv_def due_def keys_okD)
      then have unique: "i' = i0" if "i' \<in> set (items s)" "i_id i' = k" for i'
        using that i0(1,2) by (metis distinct_key_eq)
      have "{j. \<exists>i \<in> set (items s). i_id i = k \<and> i_job_id i = j} = {i_job_id i}"
        using i0 by (auto dest: unique)
      with due show ?thesis by simp
    qed
    with due show "keys_ok s' \<and> (\<forall>i \<in> set (items s'). i_id i = k \<longrightarrow> due {i_job_id i} s')"
      by (simp add: due_def)
  qed
qed (auto intro!: triple_ensure triple_bind [OF select_owner_triple] triple_seq [OF project_triple]
      triple_ret triple_seq [where R = "\<lambda>s. keys_ok s \<and> (\<forall>i \<in> set (items s). i_id i = k \<longrightarrow> due {i_job_id i} s)"])

lemma record_item_outcome_triple: "triple job_inv (record_item_outcome q path status err) (\<lambda>_. job_inv)"
  unfolding record_item_outcome_def
  by (intro triple_savepoint triple_bind [OF create_item_triple] triple_seq [where R = job_inv]
      triple_ret update_item_columns_triples update_item_status_triple)

lemma recover_triple: "triple job_inv (recover_interrupted_work owns) (\<lambda>_. job_inv)"
  unfolding recover_interrupted_work_def
proof (cases owns, simp_all add: triple_fail, intro triple_savepoint triple_bind [where R = "\<lambda>_. job_inv"]
    triple_seq [where R = job_inv])
  show "triple job_inv (query interrupted_jobs) (\<lambda>_. job_inv)" by (rule triple_query)
  show "triple job_inv (execute (\<lambda>now s. case update_where (\<lambda>i. interrupted (i_status i)) (reset_item now) (items s) of
      (changed, rows) \<Rightarrow> Inr (changed, s\<lparr>items := rows\<rparr>))) (\<lambda>_. job_inv)"
  proof (rule triple_execute)
    fix t s a s'
    assume inv: "job_inv s"
      and "(case update_where (\<lambda>i. interrupted (i_status i)) (reset_item t) (items s) of
        (changed, rows) \<Rightarrow> Inr (changed, s\<lparr>items := rows\<rparr>)) = (Inr (a, s') :: db_error + _)"
    then have s': "s' = s\<lparr>items := snd (update_where (\<lambda>i. interrupted (i_status i)) (reset_item t) (items s))\<rparr>"
      by (simp add: split_beta)
    show "job_inv s'" unfolding job_inv_def
      by (rule items_updated [OF inv key_stable_reset s'])
        (auto simp: interrupted_def reset_item_def is_done_def is_failed_def)
  qed
  show "triple job_inv (for_each (\<lambda>k. bind (project_job_from_items k True ''failed'') (\<lambda>_. ret ())) ids)
      (\<lambda>_. job_inv)" for ids
  proof (rule triple_for_each, rule triple_bind [where R = "\<lambda>_. job_inv"])
    show "triple job_inv (project_job_from_items k True ''failed'') (\<lambda>_. job_inv)" for k
      by (rule triple_conseq [OF project_triple job_inv_due]) auto
  qed (rule triple_ret)
  show "triple job_inv (execute (\<lambda>now s. Inr (length (claims s), s\<lparr>claims := []\<rparr>))) (\<lambda>_. job_inv)"
    by (rule triple_execute) (auto simp: job_inv_def due_def keys_ok_def counted_def)
qed (rule triple_ret)

section \<open>The store\<close>

datatype job_op =
    CreateJob create_job_request
  | JobStatus int string
  | ProjectJob int bool string
  | CreateItem create_item_request
  | RecordOutcome create_item_request string string "string option"
  | ItemStatus int string "string option"
  | TranslatedPath int string
  | UploadId int "string option"
  | WpAttachmentId int int
  | TaskOverride int "string option" "string option" "string option" "string option"
  | ComponentTrace int string "string list"
  | IncrementRetry int
  | SyncResponse int string
  | Recover bool

fun job_step :: "job_op \<Rightarrow> (job_db, unit) dbm" where
  "job_step (CreateJob q) = discard (create_job q)"
| "job_step (JobStatus k status) = update_job_status k status"
| "job_step (ProjectJob k fin e) = discard (project_job_from_items k fin e)"
| "job_step (CreateItem q) = discard (create_item q)"
| "job_step (RecordOutcome q path status err) = discard (record_item_outcome q path status err)"
| "job_step (ItemStatus k status err) = update_item_status k status err"
| "job_step (TranslatedPath k path) = update_item_translated_path k path"
| "job_step (UploadId k u) = update_item_upload_id k u"
| "job_step (WpAttachmentId k a) = update_item_wp_attachment_id k a"
| "job_step (TaskOverride k c src tgt ov) = update_item_task_override k c src tgt ov"
| "job_step (ComponentTrace k c cs) = update_item_component_trace k c cs"
| "job_step (IncrementRetry k) = increment_item_retry k"
| "job_step (SyncResponse k r) = update_item_sync_response k r"
| "job_step (Recover owns) = discard (recover_interrupted_work owns)"

text \<open>An update that must change one row changes none when it fails.\<close>

lemma checked_update_abort:
  assumes "bind (update_items k f) (\<lambda>changed. ensure (changed = 1) NotCommitted) env n s = (Inl e, n', s')"
    and "distinct (map i_id (items s))"
  shows "s' = s"
proof (cases "fault env n")
  case True
  with assms(1) show ?thesis by (simp add: bind_def update_items_def execute_def)
next
  case False
  have le: "length (filter (\<lambda>i. i_id i = k) (items s)) \<le> 1" using assms(2) by (rule distinct_key_filter)
  from False assms(1) have ne: "length (filter (\<lambda>i. i_id i = k) (items s)) \<noteq> 1"
    and s': "s' = s\<lparr>items := snd (update_where (\<lambda>i. i_id i = k) (f (clock env n)) (items s))\<rparr>"
    by (auto simp: bind_def update_items_def execute_def split_beta ensure_def ret_def fail_def
        update_where_def split: if_splits)
  from le ne have "filter (\<lambda>i. i_id i = k) (items s) = []"
    by (metis One_nat_def length_0_conv less_one linorder_neqE_nat not_less)
  then show ?thesis by (simp add: s' update_where_none)
qed

lemma checked_job_update_abort:
  assumes "bind (update_jobs k f) (\<lambda>changed. ensure (changed = 1) NotCommitted) env n s = (Inl e, n', s')"
    and "distinct (map j_id (jobs s))"
  shows "s' = s"
proof (cases "fault env n")
  case True
  with assms(1) show ?thesis by (simp add: bind_def update_jobs_def execute_def)
next
  case False
  have le: "length (filter (\<lambda>j. j_id j = k) (jobs s)) \<le> 1" using assms(2) by (rule distinct_key_filter)
  from False assms(1) have ne: "length (filter (\<lambda>j. j_id j = k) (jobs s)) \<noteq> 1"
    and s': "s' = s\<lparr>jobs := snd (update_where (\<lambda>j. j_id j = k) (f (clock env n)) (jobs s))\<rparr>"
    by (auto simp: bind_def update_jobs_def execute_def split_beta ensure_def ret_def fail_def
        update_where_def split: if_splits)
  from le ne have "filter (\<lambda>j. j_id j = k) (jobs s) = []"
    by (metis One_nat_def length_0_conv less_one linorder_neqE_nat not_less)
  then show ?thesis by (simp add: s' update_where_none)
qed

lemma unchecked_update_atomic: "atomic (bind (update_items k f) (\<lambda>_. ret ()))"
  by (auto simp: atomic_def bind_def update_items_def execute_def ret_def split: if_splits sum.splits)

lemmas job_op_defs = update_job_status_def update_item_translated_path_def increment_item_retry_def
  update_item_upload_id_def update_item_wp_attachment_id_def update_item_task_override_def
  update_item_component_trace_def update_item_sync_response_def

lemma recover_atomic: "atomic (recover_interrupted_work owns)"
  by (auto simp: recover_interrupted_work_def atomic_def fail_def dest: atomicD [OF atomic_savepoint])

interpretation job_store: checked_store job_step job_inv
proof
  fix x env n s e n' s'
  assume inv: "job_inv s" and run: "job_step x env n s = (Inl e, n', s')"
  have d: "distinct (map i_id (items s))" "distinct (map j_id (jobs s))"
    using inv by (simp_all add: job_inv_def due_def keys_okD)
  show "s' = s"
    by (cases x; use run d in \<open>simp add: discard_Inl job_op_defs del: One_nat_def\<close>)
      (auto simp del: One_nat_def dest: checked_update_abort checked_job_update_abort atomicD [OF unchecked_update_atomic]
        atomicD [OF recover_atomic] atomicD [OF atomic_savepoint] atomicD [OF atomic_execute]
        simp: create_job_def create_item_def record_item_outcome_def update_item_status_def
          project_job_from_items_def)
next
  fix x
  show "triple job_inv (job_step x) (\<lambda>_. job_inv)"
    by (cases x)
      (simp_all add: triple_discard create_job_triple update_job_status_triple create_item_triple
        record_item_outcome_triple update_item_status_triple update_item_columns_triples recover_triple
        triple_conseq [OF project_triple job_inv_due])
qed

section \<open>Effects of successful runs\<close>

lemma update_items_Inr [run_simps]:
  "update_items k f env n s = (Inr c, n', s') \<longleftrightarrow> \<not> fault env n \<and> n' = Suc n
     \<and> c = length (filter (\<lambda>i. i_id i = k) (items s))
     \<and> s' = s\<lparr>items := snd (update_where (\<lambda>i. i_id i = k) (f (clock env n)) (items s))\<rparr>"
  by (auto simp: update_items_def execute_Inr split_beta update_where_def)

lemma project_Inr:
  assumes "project_job_from_items k fin e env n s = (Inr r, n', s')"
  shows "items s' = items s" "claims s' = claims s"
    "next_item_id s' = next_item_id s" "next_job_id s' = next_job_id s"
    "jobs s' = snd (update_where (\<lambda>j. j_id j = k) (project_row s fin e (clock env n)) (jobs s))"
    "k \<in> j_id ` set (jobs s)"
proof -
  from assms obtain j where j: "find (\<lambda>j. j_id j = k) (jobs s) = Some j"
    "s' = s\<lparr>jobs := snd (update_where (\<lambda>j. j_id j = k) (project_row s fin e (clock env n)) (jobs s))\<rparr>"
    by (auto simp: project_job_from_items_def execute_Inr split: option.splits)
  from find_SomeD [OF j(1)] show "k \<in> j_id ` set (jobs s)" by blast
  show "items s' = items s" "claims s' = claims s"
    "next_item_id s' = next_item_id s" "next_job_id s' = next_job_id s"
    "jobs s' = snd (update_where (\<lambda>j. j_id j = k) (project_row s fin e (clock env n)) (jobs s))"
    by (simp_all add: j(2))
qed

lemma count_items_cong: "items s' = items s \<Longrightarrow> count_items k p s' = count_items k p s"
  by (simp add: count_items_def)

lemma item_projection_cong: "items s' = items s \<Longrightarrow> item_projection k e s' = item_projection k e s"
  by (simp add: item_projection_def count_items_def)

lemma select_item_Inr [run_simps]:
  "select_item_by_key key env n s = (Inr r, n', s') \<longleftrightarrow> \<not> fault env n \<and> n' = Suc n \<and> s' = s
     \<and> (\<exists>i. find (\<lambda>i. item_key i = key) (items s) = Some i \<and> r = (i_id i, i_job_id i))"
  by (auto simp: select_item_by_key_def execute_Inr split: option.splits)

lemma select_owner_Inr [run_simps]:
  "select_owner k env n s = (Inr r, n', s') \<longleftrightarrow> \<not> fault env n \<and> n' = Suc n \<and> s' = s
     \<and> (\<exists>i. find (\<lambda>i. i_id i = k) (items s) = Some i \<and> r = i_job_id i)"
  by (auto simp: select_owner_def execute_Inr split: option.splits)

lemma create_item_Inr:
  assumes "create_item q env n s = (Inr k, n', s')"
  shows "\<exists>i \<in> set (items s'). i_id i = k \<and> item_key i = request_key q"
    and "if request_key q \<in> item_key ` set (items s) then items s' = items s
         else \<exists>now. items s' = items s @ [new_item q (next_item_id s) now]"
proof -
  from assms obtain u n1 s1 i r n2 n3 where
    ins: "insert_item q env (Suc n) s = (Inr u, n1, s1)"
    and sel: "find (\<lambda>i. item_key i = request_key q) (items s1) = Some i" "k = i_id i"
    and prj: "project_job_from_items (i_job_id i) False ''completed'' env n2 s1 = (Inr r, n3, s')"
    unfolding create_item_def run_simps split_beta by (metis fst_conv snd_conv)
  note items = project_Inr(1) [OF prj]
  from find_SomeD [OF sel(1)] sel(2) show "\<exists>i \<in> set (items s'). i_id i = k \<and> item_key i = request_key q"
    unfolding items by blast
  from ins show "if request_key q \<in> item_key ` set (items s) then items s' = items s
      else \<exists>now. items s' = items s @ [new_item q (next_item_id s) now]"
    unfolding items by (auto simp: insert_item_def execute_Inr split: if_splits)
qed

lemma update_item_status_Inr:
  assumes "update_item_status k status err env n s = (Inr u, n', s')"
  obtains s1 r m m' i where
    "s1 = s\<lparr>items := snd (update_where (\<lambda>i. i_id i = k) (set_item_status status err (clock env (Suc n))) (items s))\<rparr>"
    and "find (\<lambda>i. i_id i = k) (items s1) = Some i"
    and "project_job_from_items (i_job_id i) False ''completed'' env m s1 = (Inr r, m', s')"
  using assms unfolding update_item_status_def run_simps by metis

lemma update_item_status_items:
  assumes "update_item_status k status err env n s = (Inr u, n', s')"
  shows "items s' = snd (update_where (\<lambda>i. i_id i = k) (set_item_status status err (clock env (Suc n))) (items s))"
proof (rule update_item_status_Inr [OF assms])
  fix s1 r m m' i
  assume s1: "s1 = s\<lparr>items := snd (update_where (\<lambda>i. i_id i = k) (set_item_status status err (clock env (Suc n))) (items s))\<rparr>"
    and prj: "project_job_from_items (i_job_id i) False ''completed'' env m s1 = (Inr r, m', s')"
  show ?thesis unfolding project_Inr(1) [OF prj] by (simp add: s1)
qed

text \<open>The items outside a set of ids.\<close>

definition other_items :: "int \<Rightarrow> job_db \<Rightarrow> item set" where
  "other_items k s = {i \<in> set (items s). i_id i \<noteq> k}"

lemma other_items_update:
  "(\<And>i. i_id (f i) = i_id i) \<Longrightarrow>
   {i \<in> set (snd (update_where (\<lambda>i. i_id i = k) f rows)). i_id i \<noteq> k} = {i \<in> set rows. i_id i \<noteq> k}"
  by (auto simp: update_where_set)

lemma updated_row:
  "(\<And>i. i_id (f i) = i_id i) \<Longrightarrow> i \<in> set rows \<Longrightarrow> i_id i = k \<Longrightarrow>
   f i \<in> set (snd (update_where (\<lambda>i. i_id i = k) f rows))"
  by (auto simp: update_where_set)

lemma count_where_zero: "count_where p rows = 0 \<longleftrightarrow> (\<forall>r \<in> set rows. \<not> p r)"
  by (simp add: count_where_def filter_empty_conv)

lemma projected_completed:
  assumes "i \<in> set (items s)" "i_job_id i = k"
  shows "item_projection k e s = ''completed'' \<longleftrightarrow>
    (\<forall>i \<in> set (items s). i_job_id i = k \<longrightarrow> is_done (i_status i))"
proof -
  have "count_items k (\<lambda>_. True) s \<noteq> 0"
    using assms by (auto simp: count_items_def count_where_zero)
  moreover have "0 < count_items k is_open s \<longleftrightarrow> \<not> count_items k is_open s = 0"
    using count_where_nonneg [of "\<lambda>i. i_job_id i = k \<and> is_open (i_status i)" "items s"]
    by (auto simp: count_items_def simp del: count_where_nonneg)
  ultimately have "item_projection k e s = ''completed'' \<longleftrightarrow>
    count_items k is_open s = 0 \<and> count_items k is_failed s = 0"
    by (simp add: item_projection_def projected_status_def)
  also have "\<dots> \<longleftrightarrow> (\<forall>i \<in> set (items s). i_job_id i = k \<longrightarrow> is_done (i_status i))"
    by (auto simp: count_items_def count_where_zero is_open_def is_failed_def is_done_def)
  finally show ?thesis .
qed

section \<open>Properties\<close>

text \<open>
  C1: The counters of a job are never out of step with its items. After any sequence of operations of the
  store, whichever statements fail, every job's \<open>total_items\<close>, \<open>done_items\<close> and \<open>failed_items\<close> are the counts of
  the item rows it owns, ids and the unique item key are unique, and every item has its job.
\<close>

theorem job_counters_invariant:
  assumes "s = run_ops job_step env ops n empty_job_db"
  shows "(\<forall>j \<in> set (jobs s).
        j_total_items j = count_where (\<lambda>i. i_job_id i = j_id j) (items s)
      \<and> j_done_items j = count_where (\<lambda>i. i_job_id i = j_id j \<and> is_done (i_status i)) (items s)
      \<and> j_failed_items j = count_where (\<lambda>i. i_job_id i = j_id j \<and> is_failed (i_status i)) (items s))
    \<and> distinct (map j_id (jobs s)) \<and> distinct (map i_id (items s)) \<and> distinct (map item_key (items s))
    \<and> i_job_id ` set (items s) \<subseteq> j_id ` set (jobs s)"
proof -
  have "job_inv s" unfolding assms by (rule job_store.run_keeps [OF job_inv_empty])
  then show ?thesis
    by (auto simp: job_inv_def due_def keys_ok_def counted_def count_items_def)
qed

definition sample_job :: create_job_request where
  "sample_job = \<lparr>r_domain = ''shop.example'', r_relation_id = 7, r_business_line = ''lane'',
     r_triggered_by = ''manual''\<rparr>"

definition sample_item :: create_item_request where
  "sample_item = \<lparr>q_job_id = 1, q_domain = ''shop.example'', q_relation_id = 7, q_business_line = ''lane'',
     q_object_type = ''post'', q_wp_object_id = 42, q_wp_object_subtype = ''page'', q_task_type = ''text'',
     q_source_lang = ''en'', q_target_lang = ''de'', q_component_id = ''c1'', q_component_ids = [],
     q_selected_component_id = None, q_effective_source_lang = None, q_effective_target_lang = None,
     q_editable_overrides = None, q_raw_path = ''raw'', q_client_task_id = ''t1'', q_max_retries = 3\<rparr>"

definition sample_db :: job_db where
  "sample_db = run_ops job_step (calm 5) [CreateJob sample_job, CreateItem sample_item] 0 empty_job_db"

lemmas job_eval = dbm_simps job_op_defs create_job_def create_item_def insert_item_def select_item_by_key_def
  project_job_from_items_def project_row_def update_items_def update_where_def set_item_status_def
  update_item_status_def select_owner_def record_item_outcome_def new_item_def item_key_def request_key_def
  effective_component_ids_def empty_job_db_def discard_def count_items_def item_projection_def
  projected_status_def closed_job_def is_done_def is_failed_def is_open_def sample_job_def sample_item_def
  trim_def trim_by_def is_ws_def

lemma sample_db_jobs: "map j_id (jobs sample_db) = [1]" "map j_total_items (jobs sample_db) = [1]"
  "map j_status (jobs sample_db) = [''pending'']"
  by (simp_all add: sample_db_def job_eval)

lemma sample_db_items: "map i_id (items sample_db) = [1]" "map i_status (items sample_db) = [''pending'']"
  "map i_job_id (items sample_db) = [1]" "map item_key (items sample_db) = [request_key sample_item]"
  by (simp_all add: sample_db_def job_eval)

lemma sample_db_inv: "job_inv sample_db"
  unfolding sample_db_def by (rule job_store.run_keeps [OF job_inv_empty])

theorem job_counters_invariant_witness:
  "\<exists>j \<in> set (jobs sample_db). j_total_items j = count_where (\<lambda>i. i_job_id i = j_id j) (items sample_db)"
proof -
  have "jobs sample_db \<noteq> []" using sample_db_jobs by auto
  then obtain j where "j \<in> set (jobs sample_db)" by (meson list.set_sel(1))
  then show ?thesis using job_counters_invariant [OF sample_db_def] by auto
qed

text \<open>
  C10: A failed operation changes nothing. When an operation of the store returns an error, at whichever of its
  statements the database failed and whichever check refused it, the tables are as before: no new
  pending row, no half-written outcome, no stale counter.
\<close>

theorem failed_job_operation_changes_nothing:
  assumes "s = run_ops job_step env0 ops m empty_job_db"
    and "job_step op1 env n s = (Inl e, n', s')"
  shows "s' = s"
proof -
  have "job_inv s" unfolding assms(1) by (rule job_store.run_keeps [OF job_inv_empty])
  then show ?thesis using assms(2) by (rule job_store.step_abort)
qed

text \<open>The database fails at the fifth statement: after the item was inserted.\<close>

definition failing_env :: env where
  "failing_env = \<lparr>fault = (\<lambda>n. n = 5), clock = (\<lambda>n. 5)\<rparr>"

theorem failed_job_operation_changes_nothing_witness:
  "snd (snd (job_step (RecordOutcome (sample_item\<lparr>q_wp_object_id := 43\<rparr>) ''out'' ''done'' None) failing_env 0 sample_db)) = sample_db"
proof -
  have "\<exists>e n' s'. job_step (RecordOutcome (sample_item\<lparr>q_wp_object_id := 43\<rparr>) ''out'' ''done'' None) failing_env 0 sample_db
    = (Inl e, n', s')"
    by (simp add: sample_db_def job_eval failing_env_def)
  then show ?thesis using failed_job_operation_changes_nothing [OF sample_db_def] by fastforce
qed

text \<open>
  Creating an item twice makes one row. A successful \<open>create_item\<close> returns the id of the row that has
  the request's key; when the key was there no item changes (the saved row wins over the new request),
  otherwise exactly one pending row is appended.
\<close>

theorem create_item_deduplicates:
  assumes "create_item q env n s = (Inr k, n', s')"
  shows "(\<exists>i \<in> set (items s'). i_id i = k \<and> item_key i = request_key q)
    \<and> (request_key q \<in> item_key ` set (items s) \<longrightarrow> items s' = items s)
    \<and> (request_key q \<notin> item_key ` set (items s) \<longrightarrow>
         (\<exists>i. items s' = items s @ [i] \<and> i_status i = ''pending'' \<and> i_retry_count i = 0))"
  using create_item_Inr [OF assms] by (auto simp: new_item_def split: if_splits)

theorem create_item_deduplicates_witness:
  "\<exists>n' s'. create_item sample_item (calm 9) 0 sample_db = (Inr 1, n', s') \<and> items s' = items sample_db"
proof -
  have "\<exists>n' s'. create_item sample_item (calm 9) 0 sample_db = (Inr 1, n', s')"
    by (simp add: sample_db_def job_eval)
  then obtain n' s' where run: "create_item sample_item (calm 9) 0 sample_db = (Inr 1, n', s')" by blast
  have "request_key sample_item \<in> item_key ` set (items sample_db)"
    using sample_db_items(4) by (metis list.set_intros(1) list.set_map)
  with run create_item_deduplicates [OF run] show ?thesis by blast
qed

text \<open>
  A lane outcome is recorded as a whole. After a successful \<open>record_item_outcome\<close> the row with the
  request's key has the status, the error, the result path and the component trace of the outcome, and no
  other item has changed.
\<close>

theorem record_item_outcome_effect:
  assumes "job_inv s" and "record_item_outcome q path status err env n s = (Inr k, n', s')"
  shows "(\<exists>i \<in> set (items s'). i_id i = k \<and> item_key i = request_key q \<and> i_status i = status
      \<and> i_error_message i = err \<and> i_translated_path i = path \<and> i_component_id i = q_component_id q
      \<and> i_component_ids i = effective_component_ids (q_component_id q) (q_component_ids q))
    \<and> {i \<in> set (items s'). i_id i \<noteq> k} = {i \<in> set (items s). i_id i \<noteq> k}"
proof -
  from assms(2) obtain u1 n1 s1 u2 n2 s2 u3 n3 s3 u4 n4 where
    crt: "create_item q env (Suc n) s = (Inr k, n1, s1)"
    and trc: "update_item_component_trace k (q_component_id q) (q_component_ids q) env n1 s1 = (Inr u2, n2, s2)"
    and pth: "update_item_translated_path k path env n2 s2 = (Inr u3, n3, s3)"
    and sts: "update_item_status k status err env n3 s3 = (Inr u4, n4, s')"
    unfolding record_item_outcome_def run_simps by blast
  obtain t1 t2 t3 where
    i2: "items s2 = snd (update_where (\<lambda>i. i_id i = k) (\<lambda>i. i\<lparr>i_component_id := q_component_id q,
      i_component_ids := effective_component_ids (q_component_id q) (q_component_ids q), i_updated_at := t1\<rparr>) (items s1))"
    and i3: "items s3 = snd (update_where (\<lambda>i. i_id i = k) (\<lambda>i. i\<lparr>i_translated_path := path, i_updated_at := t2\<rparr>) (items s2))"
    and i4: "items s' = snd (update_where (\<lambda>i. i_id i = k) (set_item_status status err t3) (items s3))"
    using trc pth update_item_status_items [OF sts]
    unfolding update_item_component_trace_def update_item_translated_path_def run_simps by force
  from create_item_Inr(1) [OF crt] obtain i where
    i: "i \<in> set (items s1)" "i_id i = k" "item_key i = request_key q" by blast
  define r where "r = set_item_status status err t3 (i\<lparr>i_component_id := q_component_id q,
      i_component_ids := effective_component_ids (q_component_id q) (q_component_ids q), i_updated_at := t1\<rparr>
      \<lparr>i_translated_path := path, i_updated_at := t2\<rparr>)"
  have r: "i_id r = k" "item_key r = request_key q" "i_status r = status" "i_error_message r = err"
    "i_translated_path r = path" "i_component_id r = q_component_id q"
    "i_component_ids r = effective_component_ids (q_component_id q) (q_component_ids q)"
    using i(2,3) by (simp_all add: r_def set_item_status_def Let_def item_key_def)
  have "r \<in> set (items s')"
    unfolding r_def i4 i3 i2 using i(1,2) by (intro updated_row) (simp_all add: set_item_status_def Let_def)
  moreover have "{i \<in> set (items s'). i_id i \<noteq> k} = {i \<in> set (items s1). i_id i \<noteq> k}"
    unfolding i4 i3 i2 by (simp add: other_items_update set_item_status_def Let_def)
  moreover have "{i \<in> set (items s1). i_id i \<noteq> k} = {i \<in> set (items s). i_id i \<noteq> k}"
  proof (cases "request_key q \<in> item_key ` set (items s)")
    case True
    with create_item_Inr(2) [OF crt] show ?thesis by simp
  next
    case False
    with create_item_Inr(2) [OF crt] obtain now where
      new: "items s1 = items s @ [new_item q (next_item_id s) now]" by auto
    with i False have "k = next_item_id s" by (auto simp: new_item_def image_iff)
    with new show ?thesis by (auto simp: new_item_def)
  qed
  ultimately show ?thesis using r by (simp only:) blast
qed

theorem record_item_outcome_effect_witness:
  "\<exists>n' s'. record_item_outcome sample_item ''out'' ''done'' None (calm 9) 0 sample_db = (Inr 1, n', s')
    \<and> (\<exists>i \<in> set (items s'). i_id i = 1 \<and> i_status i = ''done'' \<and> i_translated_path i = ''out'')"
proof -
  have "\<exists>n' s'. record_item_outcome sample_item ''out'' ''done'' None (calm 9) 0 sample_db = (Inr 1, n', s')"
    by (simp add: sample_db_def job_eval)
  then obtain n' s' where
    run: "record_item_outcome sample_item ''out'' ''done'' None (calm 9) 0 sample_db = (Inr 1, n', s')" by blast
  with record_item_outcome_effect [OF sample_db_inv run] show ?thesis by blast
qed

text \<open>
  A closed job follows its items. After a successful status change of an item, its job, if it is
  closed, has the status its items project, and it is \<open>completed\<close> exactly when every item of it
  is done or skipped: a late failure or a retry reopens the verdict.
\<close>

theorem closed_job_follows_items:
  assumes "job_inv s" and "update_item_status k status err env n s = (Inr u, n', s')"
    and "i \<in> set (items s')" "i_id i = k"
    and "j \<in> set (jobs s')" "j_id j = i_job_id i" "closed_job (j_status j)"
  shows "j_status j = item_projection (j_id j) ''completed'' s'
    \<and> (j_status j = ''completed'' \<longleftrightarrow> (\<forall>i \<in> set (items s'). i_job_id i = j_id j \<longrightarrow> is_done (i_status i)))"
proof (rule update_item_status_Inr [OF assms(2)])
  fix s1 r m m' i1
  assume find: "find (\<lambda>i. i_id i = k) (items s1) = Some i1"
    and prj: "project_job_from_items (i_job_id i1) False ''completed'' env m s1 = (Inr r, m', s')"
  note items = project_Inr(1) [OF prj]
  have inv: "job_inv s'" using tripleD [OF update_item_status_triple assms(1,2)] .
  then have "distinct (map i_id (items s1))" by (simp add: job_inv_def due_def keys_ok_def items)
  then have "i1 = i" using find_SomeD [OF find] assms(3,4) distinct_key_eq [of i_id "items s1" i1 i]
    by (simp add: items)
  then obtain j0 where j: "j = project_row s1 False ''completed'' (clock env m) j0"
    using assms(5,6) unfolding project_Inr(5) [OF prj] update_where_def by auto
  with assms(7) have "closed_job (j_status j0)" by (auto simp: project_row_def Let_def split: if_splits)
  then have "j_status j = item_projection (j_id j) ''completed'' s1"
    by (simp add: j project_row_def Let_def)
  then have eq: "j_status j = item_projection (j_id j) ''completed'' s'"
    using item_projection_cong [OF items] by simp
  then show ?thesis using projected_completed [OF assms(3), of "j_id j"] assms(6) by simp
qed

theorem closed_job_follows_items_witness:
  "\<exists>s n' s'. update_item_status 1 ''done'' None (calm 9) 0 s = (Inr (), n', s')
    \<and> (\<exists>j \<in> set (jobs s'). j_status j = ''completed'')"
proof -
  let ?s = "run_ops job_step (calm 8) [JobStatus 1 ''partial''] 0 sample_db"
  have inv: "job_inv ?s" by (rule job_store.run_keeps [OF sample_db_inv])
  have "\<exists>n' s'. update_item_status 1 ''done'' None (calm 9) 0 ?s = (Inr (), n', s')
    \<and> map i_id (items s') = [1] \<and> map i_job_id (items s') = [1] \<and> map i_status (items s') = [''done'']
    \<and> map j_id (jobs s') = [1] \<and> map (closed_job \<circ> j_status) (jobs s') = [True]"
    by (simp add: sample_db_def job_eval set_job_status_def update_jobs_def)
  then obtain n' s' i j where run: "update_item_status 1 ''done'' None (calm 9) 0 ?s = (Inr (), n', s')"
    and i: "items s' = [i]" "i_id i = 1" "i_job_id i = 1" "i_status i = ''done''"
    and j: "jobs s' = [j]" "j_id j = 1" "closed_job (j_status j)" by auto
  have "j_status j = ''completed''"
    using conjunct2 [OF closed_job_follows_items [OF inv run, of i j]] i j by (simp add: is_done_def)
  with j(1) have "\<exists>j \<in> set (jobs s'). j_status j = ''completed''" by simp
  with run show ?thesis by blast
qed

lemma for_each_project:
  assumes "for_each (\<lambda>k. bind (project_job_from_items k True e) (\<lambda>_. ret ())) ids env n s = (Inr u, n', s')"
  shows "items s' = items s \<and> claims s' = claims s
    \<and> (\<forall>j' \<in> set (jobs s'). \<exists>j \<in> set (jobs s). j_id j' = j_id j
         \<and> (if j_id j' \<in> set ids then j_status j' = item_projection (j_id j') e s else j' = j))"
  using assms
proof (induction ids arbitrary: n s)
  case Nil
  then show ?case by (auto simp: run_simps)
next
  case (Cons k ids)
  from Cons.prems obtain r n1 s1 where
    prj: "project_job_from_items k True e env n s = (Inr r, n1, s1)"
    and rest: "for_each (\<lambda>k. bind (project_job_from_items k True e) (\<lambda>_. ret ())) ids env n1 s1 = (Inr u, n', s')"
    by (auto simp: run_simps)
  note ih = Cons.IH [OF rest]
  note p = project_Inr [OF prj]
  have proj: "item_projection x e s1 = item_projection x e s" for x by (rule item_projection_cong) (rule p(1))
  have "\<exists>j \<in> set (jobs s). j_id j' = j_id j
      \<and> (if j_id j' \<in> set (k # ids) then j_status j' = item_projection (j_id j') e s else j' = j)"
    if j': "j' \<in> set (jobs s')" for j'
  proof -
    from ih j' obtain j1 where j1: "j1 \<in> set (jobs s1)" "j_id j' = j_id j1"
      "if j_id j' \<in> set ids then j_status j' = item_projection (j_id j') e s1 else j' = j1" by blast
    from j1(1) p(5) obtain j where j: "j \<in> set (jobs s)"
      "j1 = (if j_id j = k then project_row s True e (clock env n) j else j)"
      by (auto simp: update_where_def)
    then have "j_id j1 = j_id j" by simp
    moreover have "j_id j = k \<Longrightarrow> j_status j1 = item_projection k e s"
      using j(2) by (simp add: project_row_def Let_def)
    ultimately show ?thesis using j1 j proj by (intro bexI [OF _ j(1)]) (auto split: if_splits)
  qed
  with ih p show ?case by simp
qed

lemma project_not_running: "item_projection k ''failed'' s \<noteq> ''running''"
  by (simp add: item_projection_def projected_status_def)

text \<open>
  Recovery leaves no work half done. When the boot recovery succeeds, no item is in an intermediate
  status, no job is running, every claim is released; an interrupted item with a saved result is
  \<open>translated\<close> (the paid result is kept), one without is \<open>pending\<close> again, and every other item is untouched.
\<close>

theorem recovery_effect:
  assumes "recover_interrupted_work owns env n s = (Inr rep, n', s')"
  shows "owns \<and> (\<forall>i \<in> set (items s'). \<not> interrupted (i_status i))
    \<and> (\<forall>j \<in> set (jobs s'). j_status j \<noteq> ''running'') \<and> claims s' = []
    \<and> released_claims rep = length (claims s)
    \<and> (\<exists>t. items s' = map (\<lambda>i. if interrupted (i_status i)
          then i\<lparr>i_status := (if sql_trim (i_translated_path i) \<noteq> [] then ''translated'' else ''pending''),
                 i_updated_at := t\<rparr>
          else i) (items s))"
proof -
  from assms have owns: owns by (auto simp: recover_interrupted_work_def fail_def split: if_splits)
  with assms obtain n1 s2 u n2 where
    each: "for_each (\<lambda>k. bind (project_job_from_items k True ''failed'') (\<lambda>_. ret ())) (interrupted_jobs s) env n1
      (s\<lparr>items := snd (update_where (\<lambda>i. interrupted (i_status i)) (reset_item (clock env (Suc (Suc n)))) (items s))\<rparr>)
      = (Inr u, n2, s2)"
    and s': "s' = s2\<lparr>claims := []\<rparr>" and rep: "released_claims rep = length (claims s2)"
    by (auto simp: recover_interrupted_work_def run_simps split_beta)
  note f = for_each_project [OF each]
  have items: "items s' = map (\<lambda>i. if interrupted (i_status i)
      then reset_item (clock env (Suc (Suc n))) i else i) (items s)"
    using f by (simp add: s' update_where_def)
  have "\<not> interrupted (i_status (reset_item t i))" for t i
    by (simp add: reset_item_def interrupted_def)
  then have "\<forall>i \<in> set (items s'). \<not> interrupted (i_status i)" unfolding items by auto
  moreover have "j_status j \<noteq> ''running''" if j: "j \<in> set (jobs s')" for j
  proof -
    from j have "j \<in> set (jobs s2)" by (simp add: s')
    from bspec [OF conjunct2 [OF conjunct2 [OF f]] this] obtain j0 where j0: "j0 \<in> set (jobs s)"
      "if j_id j \<in> set (interrupted_jobs s) then \<exists>s. j_status j = item_projection (j_id j) ''failed'' s else j = j0"
      by (cases "j_id j \<in> set (interrupted_jobs s)") auto
    show ?thesis
    proof (cases "j_id j \<in> set (interrupted_jobs s)")
      case True
      with j0(2) obtain s0 where "j_status j = item_projection (j_id j) ''failed'' s0" by auto
      then show ?thesis by (simp add: project_not_running)
    next
      case False
      with j0 have "j \<in> set (jobs s)" by simp
      with False show ?thesis by (auto simp: interrupted_jobs_def)
    qed
  qed
  moreover have "claims s' = []" "released_claims rep = length (claims s)"
    using f rep by (simp_all add: s')
  ultimately show ?thesis using owns items unfolding reset_item_def by blast
qed

theorem recovery_effect_witness:
  "\<exists>rep n' s'. recover_interrupted_work True (calm 9) 0
      (run_ops job_step (calm 8) [TranslatedPath 1 ''out'', ItemStatus 1 ''syncing'' None, JobStatus 1 ''running''] 0 sample_db)
        = (Inr rep, n', s')
    \<and> list_all (\<lambda>i. \<not> interrupted (i_status i)) (items s') \<and> list_all (\<lambda>j. j_status j \<noteq> ''running'') (jobs s')"
proof -
  let ?s = "run_ops job_step (calm 8) [TranslatedPath 1 ''out'', ItemStatus 1 ''syncing'' None, JobStatus 1 ''running''] 0 sample_db"
  have "\<exists>rep n' s'. recover_interrupted_work True (calm 9) 0 ?s = (Inr rep, n', s')"
    by (simp add: sample_db_def job_eval set_job_status_def update_jobs_def recover_interrupted_work_def
        interrupted_jobs_def interrupted_def reset_item_def sql_trim_def)
  then obtain rep n' s' where run: "recover_interrupted_work True (calm 9) 0 ?s = (Inr rep, n', s')" by blast
  with recovery_effect [OF run] show ?thesis unfolding list_all_iff by blast
qed

lemma keep_owned_Inr:
  assumes "keep_owned client_base is env n s = (Inr xs, n', s')"
  shows "s' = s \<and> xs = filter (\<lambda>i. \<exists>j. find (\<lambda>j. j_id j = i_job_id i) (jobs s) = Some j \<and> j_domain j = client_base) is"
  using assms
proof (induction "is" arbitrary: n n' xs)
  case Nil
  then show ?case by (simp add: run_simps)
next
  case (Cons i "is")
  from Cons.prems obtain j n1 rest n2 where
    j: "find (\<lambda>j. j_id j = i_job_id i) (jobs s) = Some j"
    and rest: "keep_owned client_base is env n1 s = (Inr rest, n2, s')"
    and xs: "xs = (if j_domain j = client_base then i # rest else rest)"
    by (auto simp: run_simps get_job_checked_def split: option.splits)
  from Cons.IH [OF rest] j xs show ?case by simp
qed

lemma items_where_member:
  "x \<in> set (items_where p s) \<Longrightarrow> \<exists>i \<in> set (items s). p i \<and> x = row_to_item i"
  by (auto simp: items_where_def)

lemma row_to_item_sel [simp]:
  "i_id (row_to_item i) = i_id i" "i_job_id (row_to_item i) = i_job_id i"
  "i_domain (row_to_item i) = i_domain i" "i_status (row_to_item i) = i_status i"
  by (simp_all add: row_to_item_def)

lemma list_resumable_Inr:
  assumes "list_resumable_items domain statuses env n s = (Inr xs, n', s')"
  shows "s' = s \<and> (\<forall>x \<in> set xs. \<exists>i \<in> set (items s). resumable domain statuses i \<and> x = row_to_item i)"
  using assms
  by (auto simp: list_resumable_items_def run_simps split: if_splits
      dest!: in_set_takeD items_where_member)

text \<open>
  Resuming touches only the site's own interrupted work. Everything
  \<open>list_resumable_items_for_client_base\<close> returns is a saved item in one of the asked statuses with retries left,
  filed under the client base itself, or under the legacy domain by a job of that client base; the list
  is in id order and nothing is written.
\<close>

theorem resumable_items_are_owned:
  assumes "list_resumable_items_for_client_base client_base legacy statuses env n s = (Inr xs, n', s')"
  shows "s' = s \<and> sorted (map i_id xs)
    \<and> (\<forall>x \<in> set xs. \<exists>i \<in> set (items s). x = row_to_item i \<and> i_status i \<in> set statuses
        \<and> (i_max_retries i \<le> 0 \<or> i_retry_count i < i_max_retries i)
        \<and> (i_domain i = client_base
            \<or> i_domain i = legacy \<and> (\<exists>j \<in> set (jobs s). j_id j = i_job_id i \<and> j_domain j = client_base)))"
proof -
  from assms obtain own n1 s1 where own: "list_resumable_items client_base statuses env n s = (Inr own, n1, s1)"
    and rest: "(if legacy \<noteq> client_base then
         bind (list_resumable_items legacy statuses) (\<lambda>legacy.
         bind (keep_owned client_base legacy) (\<lambda>owned.
         ret (sort_key i_id (own @ owned))))
       else ret (sort_key i_id own)) env n1 s1 = (Inr xs, n', s')"
    unfolding list_resumable_items_for_client_base_def run_simps by blast
  note o = list_resumable_Inr [OF own]
  show ?thesis
  proof (cases "legacy = client_base")
    case True
    with rest o show ?thesis by (auto simp: run_simps resumable_def)
  next
    case False
    with rest obtain leg n2 s2 owned n3 where
      leg: "list_resumable_items legacy statuses env n1 s1 = (Inr leg, n2, s2)"
      and kept: "keep_owned client_base leg env n2 s2 = (Inr owned, n3, s')"
      and xs: "xs = sort_key i_id (own @ owned)"
      by (auto simp: run_simps)
    note l = list_resumable_Inr [OF leg]
    note k = keep_owned_Inr [OF kept]
    have same: "s1 = s" "s2 = s" "s' = s" using o l k by auto
    have "\<exists>i \<in> set (items s). x = row_to_item i \<and> resumable legacy statuses i
        \<and> (\<exists>j \<in> set (jobs s). j_id j = i_job_id i \<and> j_domain j = client_base)" if x: "x \<in> set owned" for x
    proof -
      from k x same obtain j where "x \<in> set leg" "find (\<lambda>j. j_id j = i_job_id x) (jobs s) = Some j"
        "j_domain j = client_base" by auto
      with l same show ?thesis by (fastforce dest: find_SomeD)
    qed
    with o same show ?thesis unfolding xs by (fastforce simp: resumable_def)
  qed
qed

theorem resumable_items_are_owned_witness:
  "\<exists>xs n' s'. list_resumable_items_for_client_base ''shop.example'' ''legacy'' [''pending''] (calm 9) 0 sample_db
      = (Inr xs, n', s') \<and> map i_id xs = [1] \<and> s' = sample_db"
proof -
  have "\<exists>xs n' s'. list_resumable_items_for_client_base ''shop.example'' ''legacy'' [''pending''] (calm 9) 0 sample_db
      = (Inr xs, n', s') \<and> map i_id xs = [1]"
    by (simp add: sample_db_def job_eval list_resumable_items_for_client_base_def list_resumable_items_def
        items_where_def resumable_def row_to_item_def)
  then obtain xs n' s' where
    run: "list_resumable_items_for_client_base ''shop.example'' ''legacy'' [''pending''] (calm 9) 0 sample_db
      = (Inr xs, n', s')" and xs: "map i_id xs = [1]" by (elim exE conjE) (rule that)
  from resumable_items_are_owned [OF run] have "s' = sample_db" by (rule conjunct1)
  with run xs show ?thesis by (intro exI conjI)
qed

end
