(* ===== verification/DiscoveryTasks.thy ===== *)
theory DiscoveryTasks
  imports Jobs "HOL-Library.Product_Lexorder" "HOL-Library.List_Lexorder" "HOL-Library.Char_ord"
begin

text \<open>
  The discovery tasks and the in-progress claims of \<open>db/discovery_tasks.rs\<close>: one row of settings for a
  relation of a site, created with defaults, changed by the user and read back before the change is committed,
  and the claims that keep two pipelines from translating one object at the same time.
\<close>

section \<open>Rows\<close>

text \<open>The text column of the overrides: NULL, JSON, or text that is not JSON.\<close>

datatype overrides_cell = NoOverrides | DamagedText | JsonText "string json"

record task_row =
  t_id :: int
  t_domain :: string
  t_relation_id :: int
  t_concurrency :: int
  t_batch_parallel :: int
  t_per_page :: int
  t_retry_max :: int
  t_timeout_secs :: int
  t_enabled :: int
  t_include_resync :: int
  t_selected_component_id :: "string option"
  t_effective_source_lang :: "string option"
  t_effective_target_lang :: "string option"
  t_editable_overrides :: overrides_cell
  t_last_run_at :: int
  t_created_at :: int
  t_updated_at :: int

record discovery_task_params =
  concurrency :: int
  batch_parallel :: int
  per_page :: int
  retry_max :: int
  timeout_secs :: int
  enabled :: bool
  include_resync :: bool
  selected_component_id :: "string option"
  effective_source_lang :: "string option"
  effective_target_lang :: "string option"
  editable_overrides :: "string json option"

record discovery_task = discovery_task_params +
  task_id :: int
  task_domain :: string
  task_relation_id :: int
  last_run_at :: int
  created_at :: int
  updated_at :: int

record update_discovery_task_request =
  u_concurrency :: "int option"
  u_batch_parallel :: "int option"
  u_per_page :: "int option"
  u_retry_max :: "int option"
  u_timeout_secs :: "int option"
  u_enabled :: "bool option"
  u_include_resync :: "bool option"
  u_selected_component_id :: "string option"
  u_effective_source_lang :: "string option"
  u_effective_target_lang :: "string option"
  u_editable_overrides :: "string json option"

record disc_db =
  tasks :: "task_row list"
  in_progress :: "claim list"
  next_task_id :: int

definition empty_disc_db :: disc_db where
  "empty_disc_db = \<lparr>tasks = [], in_progress = [], next_task_id = 1\<rparr>"

definition default_params :: discovery_task_params where
  "default_params = \<lparr>concurrency = 4, batch_parallel = 1, per_page = 20, retry_max = 3, timeout_secs = 60,
     enabled = True, include_resync = True, selected_component_id = None, effective_source_lang = None,
     effective_target_lang = None, editable_overrides = None\<rparr>"

section \<open>Reading a row\<close>

definition normalize_optional_text :: "string option \<Rightarrow> string option" where
  "normalize_optional_text v =
     (case v of None \<Rightarrow> None | Some s \<Rightarrow> (if trim s = [] then None else Some (trim s)))"

definition read_policy_bool :: "int \<Rightarrow> db_error + bool" where
  "read_policy_bool v = (if v = 0 then Inr False else if v = 1 then Inr True else Inl DamagedRow)"

fun read_policy_overrides :: "overrides_cell \<Rightarrow> db_error + string json option" where
  "read_policy_overrides NoOverrides = Inr None"
| "read_policy_overrides DamagedText = Inl DamagedRow"
| "read_policy_overrides (JsonText v) = (if is_object v then Inr (Some v) else Inl DamagedRow)"

definition limits_ok :: "int \<Rightarrow> int \<Rightarrow> int \<Rightarrow> int \<Rightarrow> int \<Rightarrow> bool" where
  "limits_ok conc bp pp rm ts \<longleftrightarrow> 0 < conc \<and> 0 < bp \<and> 0 < pp \<and> 0 \<le> rm \<and> 0 < ts"

definition row_to_discovery_task :: "task_row \<Rightarrow> db_error + discovery_task" where
  "row_to_discovery_task r =
     (case read_policy_bool (t_enabled r) of
        Inl e \<Rightarrow> Inl e
      | Inr en \<Rightarrow>
     (case read_policy_bool (t_include_resync r) of
        Inl e \<Rightarrow> Inl e
      | Inr resync \<Rightarrow>
     (case read_policy_overrides (t_editable_overrides r) of
        Inl e \<Rightarrow> Inl e
      | Inr ov \<Rightarrow>
          if \<not> limits_ok (t_concurrency r) (t_batch_parallel r) (t_per_page r) (t_retry_max r) (t_timeout_secs r)
          then Inl DamagedRow
          else Inr \<lparr>concurrency = t_concurrency r, batch_parallel = t_batch_parallel r,
            per_page = t_per_page r, retry_max = t_retry_max r, timeout_secs = t_timeout_secs r,
            enabled = en, include_resync = resync,
            selected_component_id = normalize_optional_text (t_selected_component_id r),
            effective_source_lang = normalize_optional_text (t_effective_source_lang r),
            effective_target_lang = normalize_optional_text (t_effective_target_lang r),
            editable_overrides = ov,
            task_id = t_id r, task_domain = t_domain r, task_relation_id = t_relation_id r,
            last_run_at = t_last_run_at r, created_at = t_created_at r, updated_at = t_updated_at r\<rparr>)))"

definition get_discovery_task_by_id :: "int \<Rightarrow> (disc_db, discovery_task option) dbm" where
  "get_discovery_task_by_id k = execute (\<lambda>now s.
     (case find (\<lambda>r. t_id r = k) (tasks s) of
        None \<Rightarrow> Inr (None, s)
      | Some r \<Rightarrow> (case row_to_discovery_task r of Inl e \<Rightarrow> Inl e | Inr t \<Rightarrow> Inr (Some t, s))))"

definition relation_row :: "string \<Rightarrow> int \<Rightarrow> task_row \<Rightarrow> bool" where
  "relation_row domain relation_id r \<longleftrightarrow> t_domain r = domain \<and> t_relation_id r = relation_id"

text \<open>
  The source reads the columns before it checks the limits, as \<open>row_to_discovery_task\<close> does; a missing row
  is the default.
\<close>

definition get_discovery_task_params :: "string \<Rightarrow> int \<Rightarrow> (disc_db, discovery_task_params) dbm" where
  "get_discovery_task_params domain relation_id = execute (\<lambda>now s.
     (case find (relation_row domain relation_id) (tasks s) of
        None \<Rightarrow> Inr (default_params, s)
      | Some r \<Rightarrow> (case row_to_discovery_task r of
          Inl e \<Rightarrow> Inl e
        | Inr t \<Rightarrow> Inr (discovery_task_params.truncate t, s))))"

primrec read_all :: "task_row list \<Rightarrow> db_error + discovery_task list" where
  "read_all [] = Inr []"
| "read_all (r # rs) =
     (case row_to_discovery_task r of
        Inl e \<Rightarrow> Inl e
      | Inr t \<Rightarrow> (case read_all rs of Inl e \<Rightarrow> Inl e | Inr ts \<Rightarrow> Inr (t # ts)))"

definition list_discovery_tasks :: "(disc_db, discovery_task list) dbm" where
  "list_discovery_tasks = execute (\<lambda>now s.
     (case read_all (sort_key (\<lambda>r. (t_domain r, t_relation_id r)) (tasks s)) of
        Inl e \<Rightarrow> Inl e | Inr ts \<Rightarrow> Inr (ts, s)))"

definition selected_components_claimed_by_other_relations :: "string \<Rightarrow> int \<Rightarrow> (disc_db, string set) dbm" where
  "selected_components_claimed_by_other_relations domain relation_id = query (\<lambda>s.
     {c. \<exists>r \<in> set (tasks s). t_selected_component_id r = Some c \<and> sql_trim c \<noteq> []
        \<and> \<not> relation_row domain relation_id r})"

section \<open>Creating tasks\<close>

definition default_row :: "int \<Rightarrow> string \<Rightarrow> int \<Rightarrow> int \<Rightarrow> task_row" where
  "default_row k domain relation_id now =
     \<lparr>t_id = k, t_domain = domain, t_relation_id = relation_id, t_concurrency = 4, t_batch_parallel = 1,
      t_per_page = 20, t_retry_max = 3, t_timeout_secs = 60, t_enabled = 1, t_include_resync = 1,
      t_selected_component_id = None, t_effective_source_lang = None, t_effective_target_lang = None,
      t_editable_overrides = NoOverrides, t_last_run_at = 0, t_created_at = now, t_updated_at = now\<rparr>"

definition insert_task :: "string \<Rightarrow> int \<Rightarrow> int \<Rightarrow> (disc_db, unit) dbm" where
  "insert_task domain relation_id now = update_stmt (\<lambda>_ s.
     if \<exists>r \<in> set (tasks s). relation_row domain relation_id r then s
     else s\<lparr>tasks := tasks s @ [default_row (next_task_id s) domain relation_id now],
            next_task_id := next_task_id s + 1\<rparr>)"

definition find_task_id :: "string \<Rightarrow> int \<Rightarrow> (disc_db, int option) dbm" where
  "find_task_id domain relation_id =
     query (\<lambda>s. map_option t_id (find (relation_row domain relation_id) (tasks s)))"

definition require_task :: "int \<Rightarrow> (disc_db, unit) dbm" where
  "require_task k = bind (get_discovery_task_by_id k) (\<lambda>t. ensure (t \<noteq> None) NotCommitted)"

definition ensure_one_task :: "string \<Rightarrow> int \<Rightarrow> int \<Rightarrow> (disc_db, unit) dbm" where
  "ensure_one_task domain now relation_id =
     seq (ensure (0 < relation_id) InvalidRequest)
     (bind (find_task_id domain relation_id) (\<lambda>existing.
       case existing of
         Some k \<Rightarrow> require_task k
       | None \<Rightarrow>
           seq (insert_task domain relation_id now)
           (bind (find_task_id domain relation_id) (\<lambda>confirmed.
             case confirmed of None \<Rightarrow> fail NotCommitted | Some k \<Rightarrow> require_task k))))"

definition ensure_discovery_tasks :: "string \<Rightarrow> int list \<Rightarrow> (disc_db, unit) dbm" where
  "ensure_discovery_tasks domain relation_ids = savepoint
     (seq (ensure (trim domain \<noteq> []) InvalidRequest)
     (bind now_ts (\<lambda>now. for_each (ensure_one_task domain now) relation_ids)))"

section \<open>Changing a task\<close>

definition set_limit :: "int \<Rightarrow> int option \<Rightarrow> int \<Rightarrow> int" where
  "set_limit lo v old = (case v of None \<Rightarrow> old | Some x \<Rightarrow> max x lo)"

definition set_text :: "string option \<Rightarrow> string option \<Rightarrow> string option" where
  "set_text v old = (case v of None \<Rightarrow> old | Some x \<Rightarrow> normalize_optional_text (Some x))"

definition expected_task :: "update_discovery_task_request \<Rightarrow> int \<Rightarrow> discovery_task \<Rightarrow> discovery_task" where
  "expected_task q now t =
     t\<lparr>concurrency := set_limit 1 (u_concurrency q) (concurrency t),
       batch_parallel := set_limit 1 (u_batch_parallel q) (batch_parallel t),
       per_page := set_limit 1 (u_per_page q) (per_page t),
       retry_max := set_limit 0 (u_retry_max q) (retry_max t),
       timeout_secs := set_limit 5 (u_timeout_secs q) (timeout_secs t),
       enabled := (case u_enabled q of None \<Rightarrow> enabled t | Some b \<Rightarrow> b),
       include_resync := (case u_include_resync q of None \<Rightarrow> include_resync t | Some b \<Rightarrow> b),
       selected_component_id := set_text (u_selected_component_id q) (selected_component_id t),
       effective_source_lang := set_text (u_effective_source_lang q) (effective_source_lang t),
       effective_target_lang := set_text (u_effective_target_lang q) (effective_target_lang t),
       editable_overrides := (case u_editable_overrides q of None \<Rightarrow> editable_overrides t | Some v \<Rightarrow> Some v),
       updated_at := now\<rparr>"

definition write_task :: "discovery_task \<Rightarrow> task_row \<Rightarrow> task_row" where
  "write_task t r =
     r\<lparr>t_concurrency := concurrency t, t_batch_parallel := batch_parallel t, t_per_page := per_page t,
       t_retry_max := retry_max t, t_timeout_secs := timeout_secs t,
       t_enabled := (if enabled t then 1 else 0), t_include_resync := (if include_resync t then 1 else 0),
       t_selected_component_id := selected_component_id t,
       t_effective_source_lang := effective_source_lang t,
       t_effective_target_lang := effective_target_lang t,
       t_editable_overrides := (case editable_overrides t of None \<Rightarrow> NoOverrides | Some v \<Rightarrow> JsonText v),
       t_updated_at := updated_at t\<rparr>"

definition update_tasks :: "(task_row \<Rightarrow> bool) \<Rightarrow> (task_row \<Rightarrow> task_row) \<Rightarrow> (disc_db, nat) dbm" where
  "update_tasks p f = execute (\<lambda>now s.
     (case update_where p f (tasks s) of (changed, rows) \<Rightarrow> Inr (changed, s\<lparr>tasks := rows\<rparr>)))"

definition update_discovery_task :: "int \<Rightarrow> update_discovery_task_request \<Rightarrow> (disc_db, unit) dbm" where
  "update_discovery_task k q = savepoint
     (bind (get_discovery_task_by_id k) (\<lambda>found.
       case found of
         None \<Rightarrow> fail NoRows
       | Some t \<Rightarrow>
           seq (ensure (case u_editable_overrides q of None \<Rightarrow> True | Some v \<Rightarrow> is_object v) InvalidRequest)
           (bind now_ts (\<lambda>now.
             let expected = expected_task q now t in
             bind (update_tasks (\<lambda>r. t_id r = k) (write_task expected)) (\<lambda>changed.
               if changed = 1
               then bind (get_discovery_task_by_id k) (\<lambda>back. ensure (back = Some expected) NotCommitted)
               else fail NotCommitted)))))"

definition touch_last_run_at :: "string \<Rightarrow> int \<Rightarrow> (disc_db, unit) dbm" where
  "touch_last_run_at domain relation_id = savepoint
     (bind now_ts (\<lambda>now.
      bind (update_tasks (relation_row domain relation_id) (\<lambda>r. r\<lparr>t_last_run_at := now\<rparr>)) (\<lambda>changed.
        if changed = 1
        then bind (query (\<lambda>s. \<exists>r \<in> set (tasks s). relation_row domain relation_id r \<and> t_last_run_at r = now))
               (\<lambda>there. ensure there NotCommitted)
        else fail NotCommitted)))"

section \<open>Claims\<close>

definition normalize_object_type_key :: "string \<Rightarrow> string" where
  "normalize_object_type_key raw =
     (if raw = ''term'' \<or> raw = ''taxonomy'' then ''taxonomy''
      else if raw = ''post'' \<or> raw = ''post_type'' then ''post_type''
      else if raw \<noteq> [] then raw
      else ''post_type'')"

type_synonym claim_key = "string \<times> int \<times> string \<times> int"

definition claim_key :: "claim \<Rightarrow> claim_key" where
  "claim_key c = (c_domain c, c_relation_id c, c_object_type c, c_object_id c)"

definition in_progress_stamp :: "claim_key \<Rightarrow> (disc_db, int option) dbm" where
  "in_progress_stamp key =
     query (\<lambda>s. map_option c_claimed_at (find (\<lambda>c. claim_key c = key) (in_progress s)))"

definition insert_claim :: "claim_key \<Rightarrow> int \<Rightarrow> (disc_db, nat) dbm" where
  "insert_claim key now = execute (\<lambda>_ s.
     if key \<in> claim_key ` set (in_progress s) then Inr (0, s)
     else (case key of (d, r, ot, k) \<Rightarrow>
       Inr (1, s\<lparr>in_progress := in_progress s @
         [\<lparr>c_domain = d, c_relation_id = r, c_object_type = ot, c_object_id = k, c_claimed_at = now\<rparr>]\<rparr>)))"

definition try_claim_in_progress :: "string \<Rightarrow> int \<Rightarrow> string \<Rightarrow> int \<Rightarrow> (disc_db, bool) dbm" where
  "try_claim_in_progress domain relation_id object_type object_id =
     (let key = (domain, relation_id, normalize_object_type_key object_type, object_id) in
      savepoint
        (bind (in_progress_stamp key) (\<lambda>stamp.
          if stamp \<noteq> None then ret False
          else bind now_ts (\<lambda>now.
               bind (insert_claim key now) (\<lambda>changed.
                 if changed = 1
                 then bind (in_progress_stamp key) (\<lambda>back.
                        seq (ensure (back = Some now) NotCommitted) (ret True))
                 else fail NotCommitted)))))"

definition delete_claim :: "claim_key \<Rightarrow> (disc_db, nat) dbm" where
  "delete_claim key = execute (\<lambda>_ s.
     Inr (length (filter (\<lambda>c. claim_key c = key) (in_progress s)),
       s\<lparr>in_progress := filter (\<lambda>c. claim_key c \<noteq> key) (in_progress s)\<rparr>))"

definition release_in_progress :: "string \<Rightarrow> int \<Rightarrow> string \<Rightarrow> int \<Rightarrow> (disc_db, unit) dbm" where
  "release_in_progress domain relation_id object_type object_id =
     (let key = (domain, relation_id, normalize_object_type_key object_type, object_id) in
      savepoint
        (bind (in_progress_stamp key) (\<lambda>stamp.
          if stamp = None then ret ()
          else bind (delete_claim key) (\<lambda>changed.
                 if changed = 1
                 then bind (in_progress_stamp key) (\<lambda>back. ensure (back = None) NotCommitted)
                 else fail NotCommitted))))"

definition in_progress_inventory :: "(disc_db, nat) dbm" where
  "in_progress_inventory = query (\<lambda>s. length (in_progress s))"

section \<open>Reading back a change\<close>

lemma normalize_optional_text_idem [simp]:
  "normalize_optional_text (normalize_optional_text v) = normalize_optional_text v"
  by (simp add: normalize_optional_text_def split: option.split)

definition readable :: "task_row \<Rightarrow> bool" where
  "readable r \<longleftrightarrow> (\<exists>t. row_to_discovery_task r = Inr t)"

lemma row_to_discovery_task_Inr:
  "row_to_discovery_task r = Inr t \<longleftrightarrow>
     t_enabled r \<in> {0, 1} \<and> t_include_resync r \<in> {0, 1}
     \<and> limits_ok (t_concurrency r) (t_batch_parallel r) (t_per_page r) (t_retry_max r) (t_timeout_secs r)
     \<and> (\<exists>ov. read_policy_overrides (t_editable_overrides r) = Inr ov \<and>
        t = \<lparr>concurrency = t_concurrency r, batch_parallel = t_batch_parallel r,
            per_page = t_per_page r, retry_max = t_retry_max r, timeout_secs = t_timeout_secs r,
            enabled = (t_enabled r = 1), include_resync = (t_include_resync r = 1),
            selected_component_id = normalize_optional_text (t_selected_component_id r),
            effective_source_lang = normalize_optional_text (t_effective_source_lang r),
            effective_target_lang = normalize_optional_text (t_effective_target_lang r),
            editable_overrides = ov,
            task_id = t_id r, task_domain = t_domain r, task_relation_id = t_relation_id r,
            last_run_at = t_last_run_at r, created_at = t_created_at r, updated_at = t_updated_at r\<rparr>)"
  by (auto simp: row_to_discovery_task_def read_policy_bool_def split: sum.splits if_splits)

lemma read_policy_overrides_Inr:
  "read_policy_overrides c = Inr ov \<longleftrightarrow>
     (c = NoOverrides \<and> ov = None \<or> (\<exists>v. c = JsonText v \<and> is_object v \<and> ov = Some v))"
  by (cases c) auto

definition overrides_ok :: "update_discovery_task_request \<Rightarrow> bool" where
  "overrides_ok q \<longleftrightarrow> (case u_editable_overrides q of None \<Rightarrow> True | Some v \<Rightarrow> is_object v)"

text \<open>The row written for an update reads back as the expected task.\<close>

lemma write_task_readback:
  assumes "row_to_discovery_task r = Inr t" "overrides_ok q"
  shows "row_to_discovery_task (write_task (expected_task q now t) r) = Inr (expected_task q now t)"
proof -
  from assms(1) obtain ov where ov: "read_policy_overrides (t_editable_overrides r) = Inr ov"
    and t: "t = \<lparr>concurrency = t_concurrency r, batch_parallel = t_batch_parallel r,
            per_page = t_per_page r, retry_max = t_retry_max r, timeout_secs = t_timeout_secs r,
            enabled = (t_enabled r = 1), include_resync = (t_include_resync r = 1),
            selected_component_id = normalize_optional_text (t_selected_component_id r),
            effective_source_lang = normalize_optional_text (t_effective_source_lang r),
            effective_target_lang = normalize_optional_text (t_effective_target_lang r),
            editable_overrides = ov,
            task_id = t_id r, task_domain = t_domain r, task_relation_id = t_relation_id r,
            last_run_at = t_last_run_at r, created_at = t_created_at r, updated_at = t_updated_at r\<rparr>"
    and lim: "limits_ok (t_concurrency r) (t_batch_parallel r) (t_per_page r) (t_retry_max r) (t_timeout_secs r)"
    by (auto simp: row_to_discovery_task_Inr)
  let ?e = "expected_task q now t"
  have limits: "limits_ok (concurrency ?e) (batch_parallel ?e) (per_page ?e) (retry_max ?e) (timeout_secs ?e)"
    using lim by (auto simp: t expected_task_def limits_ok_def set_limit_def split: option.split)
  have texts: "normalize_optional_text (selected_component_id ?e) = selected_component_id ?e"
    "normalize_optional_text (effective_source_lang ?e) = effective_source_lang ?e"
    "normalize_optional_text (effective_target_lang ?e) = effective_target_lang ?e"
    by (simp_all add: t expected_task_def set_text_def split: option.split)
  have over: "read_policy_overrides (case editable_overrides ?e of None \<Rightarrow> NoOverrides | Some v \<Rightarrow> JsonText v)
    = Inr (editable_overrides ?e)"
    using ov assms(2) by (auto simp: t expected_task_def overrides_ok_def read_policy_overrides_Inr split: option.splits)
  have ids: "task_id ?e = t_id r" "task_domain ?e = t_domain r" "task_relation_id ?e = t_relation_id r"
    "last_run_at ?e = t_last_run_at r" "created_at ?e = t_created_at r"
    by (simp_all add: t expected_task_def)
  show ?thesis
    using limits texts over ids
    by (simp add: row_to_discovery_task_Inr write_task_def)
qed

lemma readable_default: "readable (default_row k domain relation_id now)"
  by (simp add: readable_def row_to_discovery_task_def default_row_def read_policy_bool_def limits_ok_def)

lemma readable_touch: "readable (r\<lparr>t_last_run_at := now\<rparr>) = readable r"
  by (simp add: readable_def row_to_discovery_task_Inr)

section \<open>The invariant of the store\<close>

lemma normalize_object_type_key_idem [simp]:
  "normalize_object_type_key (normalize_object_type_key x) = normalize_object_type_key x"
  by (simp add: normalize_object_type_key_def)

definition task_key :: "task_row \<Rightarrow> string \<times> int" where
  "task_key r = (t_domain r, t_relation_id r)"

lemma relation_row_key: "relation_row d r row \<longleftrightarrow> task_key row = (d, r)"
  by (auto simp: relation_row_def task_key_def)

definition disc_inv :: "disc_db \<Rightarrow> bool" where
  "disc_inv s \<longleftrightarrow> distinct (map t_id (tasks s)) \<and> distinct (map task_key (tasks s))
     \<and> (\<forall>r \<in> set (tasks s). t_id r < next_task_id s \<and> readable r)
     \<and> distinct (map claim_key (in_progress s))
     \<and> (\<forall>c \<in> set (in_progress s). normalize_object_type_key (c_object_type c) = c_object_type c)"

lemma disc_inv_empty: "disc_inv empty_disc_db"
  by (simp add: disc_inv_def empty_disc_db_def)

lemma fetch_triple: "triple disc_inv (get_discovery_task_by_id k) (\<lambda>_. disc_inv)"
  unfolding get_discovery_task_by_id_def
  by (rule triple_execute) (auto split: option.splits sum.splits)

lemma require_triple: "triple disc_inv (require_task k) (\<lambda>_. disc_inv)"
  unfolding require_task_def by (intro triple_bind [OF fetch_triple] triple_ensure)

lemma insert_task_triple: "triple disc_inv (insert_task domain relation_id now) (\<lambda>_. disc_inv)"
  unfolding insert_task_def
proof (rule triple_update_stmt)
  fix t s
  assume inv: "disc_inv s"
  have key: "t_id (default_row k domain relation_id now) = k"
    "task_key (default_row k domain relation_id now) = (domain, relation_id)" for k
    by (simp_all add: default_row_def task_key_def)
  show "disc_inv (if \<exists>r \<in> set (tasks s). relation_row domain relation_id r then s
     else s\<lparr>tasks := tasks s @ [default_row (next_task_id s) domain relation_id now],
            next_task_id := next_task_id s + 1\<rparr>)"
    using inv readable_default key by (auto simp: disc_inv_def relation_row_key image_iff)
qed

lemma find_task_id_triple: "triple disc_inv (find_task_id d r) (\<lambda>_. disc_inv)"
  unfolding find_task_id_def by (rule triple_query)

lemma confirm_triple:
  "triple disc_inv (case found of None \<Rightarrow> fail e | Some k \<Rightarrow> require_task k) (\<lambda>_. disc_inv)"
  by (cases found) (simp_all add: triple_fail require_triple)

lemma ensure_one_triple: "triple disc_inv (ensure_one_task domain now relation_id) (\<lambda>_. disc_inv)"
  unfolding ensure_one_task_def
proof (intro triple_seq [where R = disc_inv] triple_ensure triple_bind [OF find_task_id_triple])
  fix existing
  have "triple disc_inv (seq (insert_task domain relation_id now)
      (bind (find_task_id domain relation_id) (\<lambda>confirmed.
        case confirmed of None \<Rightarrow> fail NotCommitted | Some k \<Rightarrow> require_task k))) (\<lambda>_. disc_inv)"
    by (rule triple_seq [OF insert_task_triple], rule triple_bind [OF find_task_id_triple], rule confirm_triple)
  then show "triple disc_inv (case existing of None \<Rightarrow> seq (insert_task domain relation_id now)
      (bind (find_task_id domain relation_id) (\<lambda>confirmed.
        case confirmed of None \<Rightarrow> fail NotCommitted | Some k \<Rightarrow> require_task k))
      | Some k \<Rightarrow> require_task k) (\<lambda>_. disc_inv)"
    by (cases existing) (simp_all add: require_triple)
qed

lemma ensure_tasks_triple: "triple disc_inv (ensure_discovery_tasks domain ids) (\<lambda>_. disc_inv)"
  unfolding ensure_discovery_tasks_def
  by (intro triple_savepoint triple_seq [where R = disc_inv] triple_ensure
      triple_bind [where R = "\<lambda>_. disc_inv"] triple_now_ts triple_for_each ensure_one_triple)

lemma update_tasks_triple:
  assumes "\<And>r. t_id (f r) = t_id r \<and> task_key (f r) = task_key r"
  shows "triple (\<lambda>s. disc_inv s \<and> (\<forall>r \<in> set (tasks s). p r \<longrightarrow> readable (f r))) (update_tasks p f) (\<lambda>_. disc_inv)"
  unfolding update_tasks_def
proof (rule triple_execute)
  fix t s a s'
  assume inv: "disc_inv s \<and> (\<forall>r \<in> set (tasks s). p r \<longrightarrow> readable (f r))"
    and "(case update_where p f (tasks s) of (changed, rows) \<Rightarrow> Inr (changed, s\<lparr>tasks := rows\<rparr>))
      = (Inr (a, s') :: db_error + _)"
  then have s': "s' = s\<lparr>tasks := snd (update_where p f (tasks s))\<rparr>" by (simp add: split_beta)
  have "map t_id (tasks s') = map t_id (tasks s)" "map task_key (tasks s') = map task_key (tasks s)"
    using assms by (simp_all add: s' update_where_ids)
  moreover have "\<forall>r \<in> set (tasks s'). t_id r < next_task_id s \<and> readable r"
    using inv assms by (auto simp: s' update_where_set disc_inv_def)
  ultimately show "disc_inv s'" using inv by (simp add: disc_inv_def s')
qed

lemma update_task_triple: "triple disc_inv (update_discovery_task k q) (\<lambda>_. disc_inv)"
  unfolding update_discovery_task_def
proof (rule triple_savepoint, rule triple_bind [where R = "\<lambda>found s. disc_inv s
    \<and> (\<forall>t. found = Some t \<longrightarrow> (\<forall>r \<in> set (tasks s). t_id r = k \<longrightarrow> row_to_discovery_task r = Inr t))"])
  show "triple disc_inv (get_discovery_task_by_id k) (\<lambda>found s. disc_inv s
    \<and> (\<forall>t. found = Some t \<longrightarrow> (\<forall>r \<in> set (tasks s). t_id r = k \<longrightarrow> row_to_discovery_task r = Inr t)))"
    unfolding get_discovery_task_by_id_def
  proof (rule triple_execute)
    fix t s a s'
    assume inv: "disc_inv s"
      and run: "(case find (\<lambda>r. t_id r = k) (tasks s) of None \<Rightarrow> Inr (None, s)
        | Some r \<Rightarrow> (case row_to_discovery_task r of Inl e \<Rightarrow> Inl e | Inr t \<Rightarrow> Inr (Some t, s))) = Inr (a, s')"
    have find: "find (\<lambda>r. t_id r = k) (tasks s) = Some r" if "r \<in> set (tasks s)" "t_id r = k" for r
      using inv that by (intro find_key_Some) (simp_all add: disc_inv_def)
    show "disc_inv s' \<and> (\<forall>t. a = Some t \<longrightarrow> (\<forall>r \<in> set (tasks s'). t_id r = k \<longrightarrow> row_to_discovery_task r = Inr t))"
      using run inv find by (auto split: option.splits sum.splits)
  qed
next
  fix found
  have wt: "t_id (write_task e r) = t_id r \<and> task_key (write_task e r) = task_key r" for e r
    by (simp add: write_task_def task_key_def)
  show "triple (\<lambda>s. disc_inv s \<and> (\<forall>t. found = Some t \<longrightarrow>
      (\<forall>r \<in> set (tasks s). t_id r = k \<longrightarrow> row_to_discovery_task r = Inr t)))
    (case found of None \<Rightarrow> fail NoRows
     | Some t \<Rightarrow> seq (ensure (case u_editable_overrides q of None \<Rightarrow> True | Some v \<Rightarrow> is_object v) InvalidRequest)
         (bind now_ts (\<lambda>now. let expected = expected_task q now t in
           bind (update_tasks (\<lambda>r. t_id r = k) (write_task expected)) (\<lambda>changed.
             if changed = 1
             then bind (get_discovery_task_by_id k) (\<lambda>back. ensure (back = Some expected) NotCommitted)
             else fail NotCommitted)))) (\<lambda>_. disc_inv)"
  proof (cases found)
    case None
    then show ?thesis by (simp add: triple_fail)
  next
    case (Some t)
    let ?P = "\<lambda>s. disc_inv s \<and> (\<forall>r \<in> set (tasks s). t_id r = k \<longrightarrow> row_to_discovery_task r = Inr t)"
    let ?Q = "\<lambda>s. ?P s \<and> overrides_ok q"
    have upd: "triple ?Q (update_tasks (\<lambda>r. t_id r = k) (write_task (expected_task q now t))) (\<lambda>_. disc_inv)" for now
      by (rule triple_conseq [OF update_tasks_triple [OF wt]]) (auto simp: readable_def dest: write_task_readback)
    have "triple ?P (seq (ensure (case u_editable_overrides q of None \<Rightarrow> True | Some v \<Rightarrow> is_object v) InvalidRequest)
         (bind now_ts (\<lambda>now. let expected = expected_task q now t in
           bind (update_tasks (\<lambda>r. t_id r = k) (write_task expected)) (\<lambda>changed.
             if changed = 1
             then bind (get_discovery_task_by_id k) (\<lambda>back. ensure (back = Some expected) NotCommitted)
             else fail NotCommitted)))) (\<lambda>_. disc_inv)"
      unfolding Let_def
      by (rule triple_seq [where R = ?Q], rule triple_ensure, simp add: overrides_ok_def,
          rule triple_bind [where R = "\<lambda>_. ?Q"], rule triple_now_ts, assumption, rule triple_bind [OF upd])
        (auto intro: triple_fail triple_bind [OF fetch_triple] triple_ensure)
    with Some show ?thesis by simp
  qed
qed

lemma touch_triple: "triple disc_inv (touch_last_run_at domain relation_id) (\<lambda>_. disc_inv)"
proof -
  have upd: "triple disc_inv (update_tasks (relation_row domain relation_id) (\<lambda>r. r\<lparr>t_last_run_at := now\<rparr>)) (\<lambda>_. disc_inv)"
    for now
    by (rule triple_conseq [OF update_tasks_triple])
      (auto simp: task_key_def readable_touch, auto simp: disc_inv_def)
  show ?thesis
    unfolding touch_last_run_at_def
    by (intro triple_savepoint triple_bind [where P = disc_inv and R = "\<lambda>_. disc_inv"] triple_now_ts upd)
      (auto intro: triple_fail triple_bind [where R = "\<lambda>_. disc_inv"] triple_query triple_ensure)
qed

lemma stamp_triple: "triple disc_inv (in_progress_stamp key) (\<lambda>_. disc_inv)"
  unfolding in_progress_stamp_def by (rule triple_query)

lemma insert_claim_triple:
  assumes "normalize_object_type_key ot = ot"
  shows "triple disc_inv (insert_claim (d, r, ot, k) now) (\<lambda>_. disc_inv)"
  unfolding insert_claim_def
  by (rule triple_execute)
    (use assms in \<open>auto simp: disc_inv_def claim_key_def image_iff split: if_splits\<close>)

lemma delete_claim_triple: "triple disc_inv (delete_claim key) (\<lambda>_. disc_inv)"
  unfolding delete_claim_def
  by (rule triple_execute) (auto simp: disc_inv_def intro: distinct_map_filter)

lemma claim_triple: "triple disc_inv (try_claim_in_progress d r ot k) (\<lambda>_. disc_inv)"
  unfolding try_claim_in_progress_def Let_def
proof (intro triple_savepoint triple_bind [OF stamp_triple])
  fix stamp :: "int option"
  have "triple disc_inv (bind (insert_claim (d, r, normalize_object_type_key ot, k) now) (\<lambda>changed.
      if changed = 1
      then bind (in_progress_stamp (d, r, normalize_object_type_key ot, k)) (\<lambda>back.
             seq (ensure (back = Some now) NotCommitted) (ret True))
      else fail NotCommitted)) (\<lambda>_. disc_inv)" for now
    by (rule triple_bind [OF insert_claim_triple])
      (auto intro: triple_fail triple_bind [OF stamp_triple] triple_seq [where R = disc_inv] triple_ensure triple_ret)
  then show "triple disc_inv (if stamp \<noteq> None then ret False else bind now_ts (\<lambda>now.
      bind (insert_claim (d, r, normalize_object_type_key ot, k) now) (\<lambda>changed.
        if changed = 1
        then bind (in_progress_stamp (d, r, normalize_object_type_key ot, k)) (\<lambda>back.
               seq (ensure (back = Some now) NotCommitted) (ret True))
        else fail NotCommitted))) (\<lambda>_. disc_inv)"
    by (simp add: triple_ret triple_bind [where R = "\<lambda>_. disc_inv"] triple_now_ts)
qed

lemma release_triple: "triple disc_inv (release_in_progress d r ot k) (\<lambda>_. disc_inv)"
  unfolding release_in_progress_def Let_def
proof (intro triple_savepoint triple_bind [OF stamp_triple])
  fix stamp :: "int option"
  let ?key = "(d, r, normalize_object_type_key ot, k)"
  have "triple disc_inv (bind (delete_claim ?key) (\<lambda>changed.
      if changed = 1 then bind (in_progress_stamp ?key) (\<lambda>back. ensure (back = None) NotCommitted)
      else fail NotCommitted)) (\<lambda>_. disc_inv)"
    by (rule triple_bind [OF delete_claim_triple])
      (auto intro: triple_fail triple_bind [OF stamp_triple] triple_ensure)
  then show "triple disc_inv (if stamp = None then ret () else bind (delete_claim ?key) (\<lambda>changed.
      if changed = 1 then bind (in_progress_stamp ?key) (\<lambda>back. ensure (back = None) NotCommitted)
      else fail NotCommitted)) (\<lambda>_. disc_inv)"
    by (simp add: triple_ret)
qed

datatype disc_op =
    EnsureTasks string "int list"
  | UpdateTask int update_discovery_task_request
  | TouchLastRun string int
  | Claim string int string int
  | Release string int string int

fun disc_step :: "disc_op \<Rightarrow> (disc_db, unit) dbm" where
  "disc_step (EnsureTasks d rs) = ensure_discovery_tasks d rs"
| "disc_step (UpdateTask k q) = update_discovery_task k q"
| "disc_step (TouchLastRun d r) = touch_last_run_at d r"
| "disc_step (Claim d r ot k) = discard (try_claim_in_progress d r ot k)"
| "disc_step (Release d r ot k) = release_in_progress d r ot k"

interpretation disc_store: checked_store disc_step disc_inv
proof
  fix x env n s e n' s'
  assume run: "disc_step x env n s = (Inl e, n', s')"
  show "s' = s"
    by (cases x; use run in \<open>simp add: discard_Inl\<close>)
      (auto dest: atomicD [OF atomic_savepoint] simp: ensure_discovery_tasks_def update_discovery_task_def
        touch_last_run_at_def try_claim_in_progress_def release_in_progress_def Let_def)
next
  fix x
  show "triple disc_inv (disc_step x) (\<lambda>_. disc_inv)"
    by (cases x) (simp_all add: ensure_tasks_triple update_task_triple touch_triple triple_discard
      claim_triple release_triple)
qed

section \<open>What the claims do\<close>

definition held :: "disc_db \<Rightarrow> claim_key set" where
  "held s = claim_key ` set (in_progress s)"

definition unit_key :: "string \<Rightarrow> int \<Rightarrow> string \<Rightarrow> int \<Rightarrow> claim_key" where
  "unit_key d r ot k = (d, r, normalize_object_type_key ot, k)"

lemma stamp_Inr [run_simps]:
  "in_progress_stamp key env n s = (Inr v, n', s') \<longleftrightarrow> \<not> fault env n \<and> n' = Suc n \<and> s' = s
     \<and> v = map_option c_claimed_at (find (\<lambda>c. claim_key c = key) (in_progress s))"
  by (auto simp: in_progress_stamp_def query_Inr)

lemma stamp_None: "map_option c_claimed_at (find (\<lambda>c. claim_key c = key) (in_progress s)) = None \<longleftrightarrow> key \<notin> held s"
  by (auto simp: held_def find_None_iff)

lemma insert_claim_Inr [run_simps]:
  "insert_claim (d, r, ot, k) now env n s = (Inr c, n', s') \<longleftrightarrow> \<not> fault env n \<and> n' = Suc n
     \<and> (if (d, r, ot, k) \<in> held s then c = 0 \<and> s' = s
        else c = 1 \<and> s' = s\<lparr>in_progress := in_progress s @
         [\<lparr>c_domain = d, c_relation_id = r, c_object_type = ot, c_object_id = k, c_claimed_at = now\<rparr>]\<rparr>)"
  by (auto simp: insert_claim_def execute_Inr held_def split: if_splits)

lemma claim_Inr:
  assumes "try_claim_in_progress d r ot k env n s = (Inr b, n', s')"
  shows "b \<longleftrightarrow> unit_key d r ot k \<notin> held s"
    and "held s' = insert (unit_key d r ot k) (held s)" and "tasks s' = tasks s"
proof -
  let ?key = "(d, r, normalize_object_type_key ot, k)"
  from assms obtain stamp n1 n2 where
    stamp: "stamp = map_option c_claimed_at (find (\<lambda>c. claim_key c = ?key) (in_progress s))"
    and rest: "(if stamp \<noteq> None then ret False else bind now_ts (\<lambda>now.
      bind (insert_claim ?key now) (\<lambda>changed.
        if changed = 1 then bind (in_progress_stamp ?key) (\<lambda>back.
               seq (ensure (back = Some now) NotCommitted) (ret True))
        else fail NotCommitted))) env n1 s = (Inr b, n2, s')"
    unfolding try_claim_in_progress_def Let_def run_simps by blast
  have "(b \<longleftrightarrow> ?key \<notin> held s) \<and> held s' = insert ?key (held s) \<and> tasks s' = tasks s"
  proof (cases "?key \<in> held s")
    case True
    then have "stamp \<noteq> None" using stamp stamp_None [of ?key s] by simp
    with rest True show ?thesis by (auto simp: run_simps)
  next
    case False
    then have "stamp = None" using stamp stamp_None [of ?key s] by simp
    with rest obtain now where "b" "s' = s\<lparr>in_progress := in_progress s @
         [\<lparr>c_domain = d, c_relation_id = r, c_object_type = normalize_object_type_key ot, c_object_id = k,
           c_claimed_at = now\<rparr>]\<rparr>"
      using False by (auto simp: run_simps)
    with False show ?thesis by (auto simp: held_def claim_key_def)
  qed
  then show "b \<longleftrightarrow> unit_key d r ot k \<notin> held s" "held s' = insert (unit_key d r ot k) (held s)"
    "tasks s' = tasks s" by (simp_all add: unit_key_def)
qed

lemma claim_Inl: "try_claim_in_progress d r ot k env n s = (Inl e, n', s') \<Longrightarrow> s' = s"
  by (auto dest: atomicD [OF atomic_savepoint] simp: try_claim_in_progress_def Let_def)

text \<open>Several pipelines try one object one after another, each with its own spelling of the type.\<close>

fun try_all :: "env \<Rightarrow> string \<Rightarrow> int \<Rightarrow> string list \<Rightarrow> int \<Rightarrow> nat \<Rightarrow> disc_db \<Rightarrow> (db_error + bool) list" where
  "try_all env d r [] k n s = []"
| "try_all env d r (ot # ots) k n s =
     (case try_claim_in_progress d r ot k env n s of (b, n', s') \<Rightarrow> b # try_all env d r ots k n' s')"

lemma try_all_held:
  "\<forall>ot \<in> set ots. unit_key d r ot k \<in> held s \<Longrightarrow> Inr True \<notin> set (try_all env d r ots k n s)"
proof (induction ots arbitrary: n s)
  case (Cons ot ots)
  obtain b n' s' where run: "try_claim_in_progress d r ot k env n s = (b, n', s')"
    by (cases "try_claim_in_progress d r ot k env n s") auto
  have "held s \<subseteq> held s'" "b \<noteq> Inr True"
    using run Cons.prems claim_Inr [of d r ot k env n s _ n' s'] claim_Inl [of d r ot k env n s _ n' s']
    by (cases b; auto)+
  with Cons run show ?case by auto
qed simp

section \<open>Properties\<close>

text \<open>
  A claim is granted exactly when the object is free. When \<open>try_claim_in_progress\<close> returns, its answer says
  whether the object was free, the object is held afterwards either way, no other claim and no setting
  changes; \<open>post\<close> and \<open>post_type\<close>, \<open>term\<close> and \<open>taxonomy\<close> name the same object.
\<close>

theorem claim_granted_iff_free:
  assumes "try_claim_in_progress d r ot k env n s = (Inr b, n', s')"
  shows "(b \<longleftrightarrow> (d, r, normalize_object_type_key ot, k) \<notin> claim_key ` set (in_progress s))
    \<and> claim_key ` set (in_progress s') = insert (d, r, normalize_object_type_key ot, k) (claim_key ` set (in_progress s))
    \<and> tasks s' = tasks s"
  using claim_Inr [OF assms] by (simp add: held_def unit_key_def)

lemmas disc_eval = Let_def dbm_simps try_claim_in_progress_def in_progress_stamp_def insert_claim_def
  normalize_object_type_key_def claim_key_def empty_disc_db_def

theorem claim_granted_iff_free_witness:
  "\<exists>n' s'. try_claim_in_progress ''shop'' 7 ''post'' 42 (calm 5) 0 empty_disc_db = (Inr True, n', s')
    \<and> claim_key ` set (in_progress s') = {(''shop'', 7, ''post_type'', 42)}"
proof -
  have "\<exists>n' s'. try_claim_in_progress ''shop'' 7 ''post'' 42 (calm 5) 0 empty_disc_db = (Inr True, n', s')"
    by (simp add: disc_eval)
  then obtain n' s' where
    run: "try_claim_in_progress ''shop'' 7 ''post'' 42 (calm 5) 0 empty_disc_db = (Inr True, n', s')" by blast
  from claim_granted_iff_free [OF run]
  have "claim_key ` set (in_progress s') = {(''shop'', 7, ''post_type'', 42)}"
    by (simp add: empty_disc_db_def normalize_object_type_key_def)
  with run show ?thesis by blast
qed

text \<open>
  C9: One winner. However many pipelines try to claim one object, under whichever spellings of its
  type and whichever of the attempts fail in the database, at most one is told that it may translate it.
\<close>

theorem claim_single_winner:
  assumes "\<forall>ot \<in> set ots. normalize_object_type_key ot = t"
  shows "length (filter (\<lambda>b. b = Inr True) (try_all env d r ots k n s)) \<le> 1"
  using assms
proof (induction ots arbitrary: n s)
  case (Cons ot ots)
  obtain b n' s' where run: "try_claim_in_progress d r ot k env n s = (b, n', s')"
    by (cases "try_claim_in_progress d r ot k env n s") auto
  show ?case
  proof (cases "b = Inr True")
    case True
    with run claim_Inr(2) [of d r ot k env n s True n' s'] have "unit_key d r ot k \<in> held s'" by simp
    with Cons.prems have "\<forall>ot \<in> set ots. unit_key d r ot k \<in> held s'" by (simp add: unit_key_def)
    from try_all_held [OF this, of env n'] True run show ?thesis
      by (simp add: filter_empty_conv) (metis)
  next
    case False
    with Cons run show ?thesis by simp
  qed
qed simp

theorem claim_single_winner_witness:
  "length (filter (\<lambda>b. b = Inr True)
     (try_all (calm 5) ''shop'' 7 [''post'', ''post_type'', []] 42 0 empty_disc_db)) \<le> 1"
  by (rule claim_single_winner [where t = "''post_type''"]) (simp add: normalize_object_type_key_def)

text \<open>
  The settings of a relation can always be read. After any sequence of operations, whichever fail, every stored
  task has positive limits and readable flags and overrides, so reading the parameters of any relation
  succeeds (with the defaults when it has no row) unless the database itself fails.
\<close>

theorem discovery_settings_readable:
  assumes "s = run_ops disc_step env0 ops m empty_disc_db"
  shows "\<exists>p. get_discovery_task_params domain relation_id (calm t) n s = (Inr p, Suc n, s)
    \<and> 0 < concurrency p \<and> 0 < batch_parallel p \<and> 0 < per_page p \<and> 0 \<le> retry_max p \<and> 0 < timeout_secs p"
proof -
  have inv: "disc_inv s" unfolding assms by (rule disc_store.run_keeps [OF disc_inv_empty])
  show ?thesis
  proof (cases "find (relation_row domain relation_id) (tasks s)")
    case None
    then show ?thesis by (simp add: get_discovery_task_params_def execute_def default_params_def)
  next
    case (Some r)
    with inv obtain t where t: "row_to_discovery_task r = Inr t"
      using find_SomeD [OF Some] by (auto simp: disc_inv_def readable_def)
    then have "0 < concurrency t \<and> 0 < batch_parallel t \<and> 0 < per_page t \<and> 0 \<le> retry_max t \<and> 0 < timeout_secs t"
      by (auto simp: row_to_discovery_task_Inr limits_ok_def)
    with Some t show ?thesis
      by (simp add: get_discovery_task_params_def execute_def discovery_task_params.truncate_def)
  qed
qed

theorem discovery_settings_readable_witness:
  "\<exists>p. get_discovery_task_params ''shop'' 7 (calm 5) 0
      (run_ops disc_step (calm 5) [EnsureTasks ''shop'' [7]] 0 empty_disc_db)
    = (Inr p, Suc 0, run_ops disc_step (calm 5) [EnsureTasks ''shop'' [7]] 0 empty_disc_db)"
  using discovery_settings_readable [OF refl] by blast

text \<open>
  An accepted change of settings is committed as asked. On a readable store, without database faults, an update of
  an existing task whose overrides (if any) are an object always passes its own read-back check: it commits
  the requested values, clamped to their minima, texts trimmed, and leaves every other task alone.
\<close>

theorem update_task_commits_request:
  assumes "disc_inv s" "r \<in> set (tasks s)" "t_id r = k" "row_to_discovery_task r = Inr t"
    and "case u_editable_overrides q of None \<Rightarrow> True | Some v \<Rightarrow> is_object v"
  shows "\<exists>n' s'. update_discovery_task k q (calm now) n s = (Inr (), n', s')
    \<and> (\<forall>x \<in> set (tasks s'). t_id x = k \<longrightarrow> row_to_discovery_task x = Inr (expected_task q now t))
    \<and> {x \<in> set (tasks s'). t_id x \<noteq> k} = {x \<in> set (tasks s). t_id x \<noteq> k}
    \<and> in_progress s' = in_progress s"
proof -
  let ?e = "expected_task q now t"
  let ?w = "write_task ?e"
  let ?s = "s\<lparr>tasks := snd (update_where (\<lambda>r. t_id r = k) ?w (tasks s))\<rparr>"
  have d: "distinct (map t_id (tasks s))" using assms(1) by (simp add: disc_inv_def)
  have w: "t_id (?w x) = t_id x" for x by (simp add: write_task_def)
  have find: "find (\<lambda>r. t_id r = k) (tasks s) = Some r" using d assms(2,3) by (rule find_key_Some)
  have unique: "x = r" if "x \<in> set (tasks s)" "t_id x = k" for x
    using distinct_key_eq [OF d that(1) assms(2)] that(2) assms(3) by simp
  have one: "length (filter (\<lambda>r. t_id r = k) (tasks s)) = 1"
  proof -
    have "filter (\<lambda>r. t_id r = k) (tasks s) \<noteq> []" using assms(2,3) by (auto simp: filter_empty_conv)
    with distinct_key_filter [OF d, of k] show ?thesis by (cases "filter (\<lambda>r. t_id r = k) (tasks s)") auto
  qed
  have readback: "row_to_discovery_task (?w r) = Inr ?e"
    using write_task_readback [OF assms(4)] assms(5) by (simp add: overrides_ok_def)
  have "distinct (map t_id (tasks ?s))" using d by (simp add: update_where_ids w)
  moreover have "?w r \<in> set (tasks ?s)" using assms(2,3) by (auto simp: update_where_set)
  ultimately have find': "find (\<lambda>r. t_id r = k) (tasks ?s) = Some (?w r)"
    by (rule find_key_Some) (simp add: w assms(3))
  have "update_discovery_task k q (calm now) n s = (Inr (), n + 5, ?s)"
    using find find' one readback assms(4,5)
    by (simp add: update_discovery_task_def get_discovery_task_by_id_def update_tasks_def Let_def dbm_simps
        update_where_def)
  moreover have "\<forall>x \<in> set (tasks ?s). t_id x = k \<longrightarrow> row_to_discovery_task x = Inr ?e"
  proof (intro ballI impI)
    fix x
    assume "x \<in> set (tasks ?s)" "t_id x = k"
    then obtain y where y: "y \<in> set (tasks s)" "t_id y = k" "x = ?w y"
      by (simp add: update_where_set) (auto simp: w)
    then have "y = r" by (intro unique)
    with y(3) readback show "row_to_discovery_task x = Inr ?e" by simp
  qed
  moreover have "{x \<in> set (tasks ?s). t_id x \<noteq> k} = {x \<in> set (tasks s). t_id x \<noteq> k}"
    by (auto simp: update_where_set w)
  moreover have "in_progress ?s = in_progress s" by simp
  ultimately show ?thesis by blast
qed

definition sample_tasks :: disc_db where
  "sample_tasks = \<lparr>tasks = [default_row 1 ''shop'' 7 5, default_row 2 ''shop'' 8 5], in_progress = [], next_task_id = 3\<rparr>"

lemma sample_tasks_inv: "disc_inv sample_tasks"
  by (auto simp: disc_inv_def sample_tasks_def readable_default)
    (auto simp: default_row_def task_key_def)

theorem update_task_commits_request_witness:
  "\<exists>n' s'. update_discovery_task 1 \<lparr>u_concurrency = Some (-3), u_batch_parallel = None, u_per_page = None,
      u_retry_max = None, u_timeout_secs = Some 90, u_enabled = Some False, u_include_resync = None,
      u_selected_component_id = Some '' c1 '', u_effective_source_lang = None, u_effective_target_lang = None,
      u_editable_overrides = Some (JObject [])\<rparr> (calm 9) 0 sample_tasks = (Inr (), n', s')"
proof -
  obtain t where t: "row_to_discovery_task (default_row 1 ''shop'' 7 5) = Inr t"
    using readable_default [of 1 "''shop''" 7 5] by (auto simp: readable_def)
  have "default_row 1 ''shop'' 7 5 \<in> set (tasks sample_tasks)" "t_id (default_row 1 ''shop'' 7 5) = 1"
    by (simp_all add: sample_tasks_def default_row_def)
  from update_task_commits_request [OF sample_tasks_inv this t, of "\<lparr>u_concurrency = Some (-3),
      u_batch_parallel = None, u_per_page = None,
      u_retry_max = None, u_timeout_secs = Some 90, u_enabled = Some False, u_include_resync = None,
      u_selected_component_id = Some '' c1 '', u_effective_source_lang = None, u_effective_target_lang = None,
      u_editable_overrides = Some (JObject [])\<rparr>" 9 0] show ?thesis by auto
qed

lemma fetch_keeps: "get_discovery_task_by_id k env n s = (Inr t, n', s') \<Longrightarrow> s' = s"
  by (auto simp: get_discovery_task_by_id_def run_simps split: option.splits sum.splits)

lemma require_keeps: "require_task k env n s = (Inr u, n', s') \<Longrightarrow> s' = s"
  by (auto simp: require_task_def run_simps dest: fetch_keeps)

lemma find_task_id_Inr [run_simps]:
  "find_task_id d r env n s = (Inr v, n', s') \<longleftrightarrow> \<not> fault env n \<and> n' = Suc n \<and> s' = s
     \<and> v = map_option t_id (find (relation_row d r) (tasks s))"
  by (auto simp: find_task_id_def query_Inr)

definition defaults_for :: "string \<Rightarrow> int set \<Rightarrow> task_row list \<Rightarrow> bool" where
  "defaults_for domain ids rows \<longleftrightarrow>
     (\<forall>r \<in> set rows. t_relation_id r \<in> ids \<and> (\<exists>k now. r = default_row k domain (t_relation_id r) now))"

lemma ensure_one_Inr:
  assumes "ensure_one_task domain now rid env n s = (Inr u, n', s')"
  shows "0 < rid \<and> (\<exists>rows. tasks s' = tasks s @ rows \<and> defaults_for domain {rid} rows)
    \<and> (\<exists>r \<in> set (tasks s'). relation_row domain rid r) \<and> in_progress s' = in_progress s"
proof (cases "find (relation_row domain rid) (tasks s)")
  case (Some r)
  with assms have "s' = s" "0 < rid" by (auto simp: ensure_one_task_def run_simps dest: require_keeps)
  with find_SomeD [OF Some] show ?thesis by (auto simp: defaults_for_def)
next
  case None
  let ?new = "default_row (next_task_id s) domain rid now"
  from None have "\<not> (\<exists>r \<in> set (tasks s). relation_row domain rid r)" by (simp add: find_None_iff)
  with assms None have s': "s' = s\<lparr>tasks := tasks s @ [?new], next_task_id := next_task_id s + 1\<rparr>" "0 < rid"
    by (auto simp: ensure_one_task_def run_simps insert_task_def dest!: require_keeps split: option.splits)
  then show ?thesis by (auto simp: defaults_for_def default_row_def relation_row_def)
qed

lemma ensure_each_Inr:
  assumes "for_each (ensure_one_task domain now) ids env n s = (Inr u, n', s')"
  shows "(\<forall>rid \<in> set ids. 0 < rid \<and> (\<exists>r \<in> set (tasks s'). relation_row domain rid r))
    \<and> (\<exists>rows. tasks s' = tasks s @ rows \<and> defaults_for domain (set ids) rows) \<and> in_progress s' = in_progress s"
  using assms
proof (induction ids arbitrary: n s)
  case Nil
  then show ?case by (simp add: run_simps defaults_for_def)
next
  case (Cons rid ids)
  then obtain n1 s1 where one: "ensure_one_task domain now rid env n s = (Inr (), n1, s1)"
    and rest: "for_each (ensure_one_task domain now) ids env n1 s1 = (Inr u, n', s')"
    by (auto simp: run_simps)
  from ensure_one_Inr [OF one] obtain rows1 where 1: "0 < rid" "tasks s1 = tasks s @ rows1"
    "defaults_for domain {rid} rows1" "\<exists>r \<in> set (tasks s1). relation_row domain rid r"
    "in_progress s1 = in_progress s" by blast
  from Cons.IH [OF rest] obtain rows2 where 2: "tasks s' = tasks s1 @ rows2"
    "defaults_for domain (set ids) rows2" "in_progress s' = in_progress s1"
    "\<forall>rid \<in> set ids. 0 < rid \<and> (\<exists>r \<in> set (tasks s'). relation_row domain rid r)" by blast
  have "defaults_for domain (set (rid # ids)) (rows1 @ rows2)"
    using 1(3) 2(2) by (auto simp: defaults_for_def)
  moreover have "\<exists>r \<in> set (tasks s'). relation_row domain rid r" using 1(4) 2(1) by auto
  ultimately show ?case using 1 2 by auto
qed

text \<open>
  Scanning a site never resets its settings. When \<open>ensure_discovery_tasks\<close> succeeds, every saved task is
  kept as it is, each listed relation has a task, and the rows it added are the defaults of listed relations; the
  domain is not blank and every relation id is positive.
\<close>

theorem ensure_tasks_keeps_settings:
  assumes "ensure_discovery_tasks domain ids env n s = (Inr u, n', s')"
  shows "(\<exists>rows. tasks s' = tasks s @ rows
      \<and> (\<forall>r \<in> set rows. t_relation_id r \<in> set ids \<and> (\<exists>k now. r = default_row k domain (t_relation_id r) now)))
    \<and> (\<forall>rid \<in> set ids. 0 < rid \<and> (\<exists>r \<in> set (tasks s'). t_domain r = domain \<and> t_relation_id r = rid))
    \<and> trim domain \<noteq> [] \<and> in_progress s' = in_progress s"
proof -
  from assms obtain now n1 n2 where "trim domain \<noteq> []"
    and each: "for_each (ensure_one_task domain now) ids env n1 s = (Inr u, n2, s')"
    by (auto simp: ensure_discovery_tasks_def run_simps)
  with ensure_each_Inr [OF each] show ?thesis by (simp add: defaults_for_def relation_row_def)
qed

theorem ensure_tasks_keeps_settings_witness:
  "\<exists>n' s'. ensure_discovery_tasks ''shop'' [7, 9] (calm 6) 0 sample_tasks = (Inr (), n', s')
    \<and> (\<exists>rows. tasks s' = tasks sample_tasks @ rows)"
proof -
  have "\<exists>n' s'. ensure_discovery_tasks ''shop'' [7, 9] (calm 6) 0 sample_tasks = (Inr (), n', s')"
    by (simp add: ensure_discovery_tasks_def ensure_one_task_def find_task_id_def require_task_def
        get_discovery_task_by_id_def insert_task_def dbm_simps sample_tasks_def default_row_def
        relation_row_def row_to_discovery_task_def read_policy_bool_def limits_ok_def
        trim_def trim_by_def is_ws_def)
  then obtain n' s' where
    run: "ensure_discovery_tasks ''shop'' [7, 9] (calm 6) 0 sample_tasks = (Inr (), n', s')" by blast
  from ensure_tasks_keeps_settings [OF run] have "\<exists>rows. tasks s' = tasks sample_tasks @ rows" by blast
  with run show ?thesis by blast
qed

end
