(* ===== verification/KeyPool.thy ===== *)
theory KeyPool
  imports Prelude Complex_Main "HOL-Library.Multiset"
begin

text \<open>
  The credential pool: \<open>component_rt/key_pool.rs\<close>, the counters shared between pools of
  \<open>component_rt/key_registry.rs\<close>, and the size limits of \<open>component_rt/file_limits.rs\<close>.

  Three views of the pool. The selection of one caller runs on a state of counters (a caller's random
  draws are arguments). The atomics are a step relation of many callers, one step for one atomic operation,
  in sequentially consistent order. The pacing of a key is a function of the times at which its clock's lock is
  granted.
\<close>

section \<open>Floating-point limits\<close>

text \<open>An \<open>f64\<close>: a finite value, an infinity, or NaN, which no comparison accepts.\<close>

datatype flt = Fin rat | PosInf | NegInf | NaN

fun flt_le :: "flt \<Rightarrow> flt \<Rightarrow> bool" where
  "flt_le (Fin a) (Fin b) \<longleftrightarrow> a \<le> b"
| "flt_le NaN b = False"
| "flt_le a NaN = False"
| "flt_le NegInf b = True"
| "flt_le a PosInf = True"
| "flt_le a b = False"

fun flt_eq :: "flt \<Rightarrow> flt \<Rightarrow> bool" where
  "flt_eq NaN b = False"
| "flt_eq a b \<longleftrightarrow> a = b"

definition flt_lt :: "flt \<Rightarrow> flt \<Rightarrow> bool" where
  "flt_lt a b \<longleftrightarrow> flt_le a b \<and> \<not> flt_eq a b"

abbreviation flt_zero :: flt where "flt_zero \<equiv> Fin 0"

section \<open>Pools\<close>

datatype strategy = Random | RoundRobin | Weighted

record key_entry =
  key_id :: string
  auth_values :: "(string \<times> string) list"
  max_concurrent :: nat
  weight :: nat
  max_input_chars :: nat
  max_file_size_mb :: flt
  key_min_interval_ms :: nat

text \<open>
  \<open>pool_no\<close> tells apart the local counters of pools that have no registry; \<open>shared\<close> pools count by key id.
  The round-robin counter is part of the state below.
\<close>

record key_pool =
  pool_no :: nat
  shared :: bool
  pool_keys :: "key_entry list"
  pool_strategy :: strategy
  pool_min_interval_ms :: nat

datatype counter_ref = Global string | Local nat nat

definition counter_of :: "key_pool \<Rightarrow> nat \<Rightarrow> counter_ref" where
  "counter_of p idx =
     (if shared p then Global (key_id (pool_keys p ! idx)) else Local (pool_no p) idx)"

record key_config =
  kc_id :: string
  kc_auth :: "(string \<times> string) list"
  kc_max_concurrent :: nat
  kc_weight :: nat
  kc_max_input_chars :: nat
  kc_max_file_size_mb :: flt
  kc_rps :: flt

text \<open>\<open>fdiv\<close> is the \<open>f64\<close> division of two finite numbers; the cast to \<open>u64\<close> saturates.\<close>

definition min_interval_ms_from_rps :: "(rat \<Rightarrow> rat \<Rightarrow> flt) \<Rightarrow> flt \<Rightarrow> nat" where
  "min_interval_ms_from_rps fdiv rps =
     (case rps of
        Fin r \<Rightarrow>
          if r \<le> 0 then 0
          else (case fdiv 1000 r of
                  Fin q \<Rightarrow> max 1 (min u64_max (nat \<lceil>q\<rceil>))
                | PosInf \<Rightarrow> u64_max
                | _ \<Rightarrow> 1)
      | _ \<Rightarrow> 0)"

definition new_ext_internal ::
  "(rat \<Rightarrow> rat \<Rightarrow> flt) \<Rightarrow> nat \<Rightarrow> key_config list \<Rightarrow> strategy \<Rightarrow> nat \<Rightarrow> bool \<Rightarrow> key_pool" where
  "new_ext_internal fdiv no keys strat min_interval registry =
     \<lparr>pool_no = no, shared = registry,
      pool_keys = map (\<lambda>c. \<lparr>key_id = kc_id c, auth_values = kc_auth c, max_concurrent = kc_max_concurrent c,
        weight = kc_weight c, max_input_chars = kc_max_input_chars c,
        max_file_size_mb = kc_max_file_size_mb c,
        key_min_interval_ms = min_interval_ms_from_rps fdiv (kc_rps c)\<rparr>) keys,
      pool_strategy = strat, pool_min_interval_ms = min_interval\<rparr>"

section \<open>Snapshots\<close>

record key_snapshot =
  s_id :: string
  s_auth :: "(string \<times> string) list"
  s_max_concurrent :: nat
  s_weight :: nat
  s_max_input_chars :: nat
  s_max_file_size_mb :: flt
  s_min_interval_ms :: nat

record pool_snapshot =
  s_keys :: "key_snapshot list"
  s_strategy :: strategy
  s_pool_min_interval_ms :: nat

definition snapshot :: "key_pool \<Rightarrow> pool_snapshot" where
  "snapshot p =
     \<lparr>s_keys = map (\<lambda>k. \<lparr>s_id = key_id k, s_auth = auth_values k, s_max_concurrent = max_concurrent k,
        s_weight = weight k, s_max_input_chars = max_input_chars k, s_max_file_size_mb = max_file_size_mb k,
        s_min_interval_ms = key_min_interval_ms k\<rparr>) (pool_keys p),
      s_strategy = pool_strategy p, s_pool_min_interval_ms = pool_min_interval_ms p\<rparr>"

definition config_of_snapshot :: "key_snapshot \<Rightarrow> key_config" where
  "config_of_snapshot k =
     \<lparr>kc_id = s_id k, kc_auth = s_auth k, kc_max_concurrent = s_max_concurrent k, kc_weight = s_weight k,
      kc_max_input_chars = s_max_input_chars k, kc_max_file_size_mb = s_max_file_size_mb k, kc_rps = flt_zero\<rparr>"

definition from_snapshot :: "(rat \<Rightarrow> rat \<Rightarrow> flt) \<Rightarrow> nat \<Rightarrow> pool_snapshot \<Rightarrow> key_pool" where
  "from_snapshot fdiv no s =
     (let p = new_ext_internal fdiv no (map config_of_snapshot (s_keys s)) (s_strategy s)
                (s_pool_min_interval_ms s) True in
      p\<lparr>pool_keys := map2 (\<lambda>e k. e\<lparr>key_min_interval_ms := s_min_interval_ms k\<rparr>) (pool_keys p) (s_keys s)\<rparr>)"

text \<open>\<open>resolve\<close> is \<open>resolve_credential_reference\<close>; \<open>None\<close> is its failure.\<close>

definition frozen_value :: "(string \<Rightarrow> string option) \<Rightarrow> string \<Rightarrow> string option" where
  "frozen_value resolve v =
     (case resolve v of
        None \<Rightarrow> None
      | Some r \<Rightarrow> if prefix ''env://'' r \<or> prefix ''file://'' r then None else Some r)"

primrec freeze_auth ::
  "(string \<Rightarrow> string option) \<Rightarrow> (string \<times> string) list \<Rightarrow> (string \<times> string) list option" where
  "freeze_auth resolve [] = Some []"
| "freeze_auth resolve (kv # rest) =
     (case frozen_value resolve (snd kv) of
        None \<Rightarrow> None
      | Some v \<Rightarrow> map_option (\<lambda>r. (fst kv, v) # r) (freeze_auth resolve rest))"

primrec freeze_keys :: "(string \<Rightarrow> string option) \<Rightarrow> key_snapshot list \<Rightarrow> key_snapshot list option" where
  "freeze_keys resolve [] = Some []"
| "freeze_keys resolve (k # ks) =
     (case freeze_auth resolve (s_auth k) of
        None \<Rightarrow> None
      | Some a \<Rightarrow> map_option (\<lambda>r. k\<lparr>s_auth := a\<rparr> # r) (freeze_keys resolve ks))"

definition frozen_snapshot :: "(string \<Rightarrow> string option) \<Rightarrow> key_pool \<Rightarrow> pool_snapshot option" where
  "frozen_snapshot resolve p =
     map_option (\<lambda>ks. (snapshot p)\<lparr>s_keys := ks\<rparr>) (freeze_keys resolve (s_keys (snapshot p)))"

section \<open>Limits\<close>

definition has_eligible_keys :: "key_pool \<Rightarrow> nat \<Rightarrow> flt \<Rightarrow> bool" where
  "has_eligible_keys p input_len file_size_mb \<longleftrightarrow>
     (\<exists>k \<in> set (pool_keys p).
        (input_len = 0 \<or> max_input_chars k = 0 \<or> input_len \<le> max_input_chars k)
      \<and> (flt_eq file_size_mb flt_zero \<or> flt_eq (max_file_size_mb k) flt_zero
          \<or> flt_le file_size_mb (max_file_size_mb k)))"

definition refused :: "key_entry \<Rightarrow> nat \<Rightarrow> flt \<Rightarrow> bool" where
  "refused k input_len file_size_mb \<longleftrightarrow>
     0 < input_len \<and> 0 < max_input_chars k \<and> max_input_chars k < input_len
   \<or> flt_lt flt_zero file_size_mb \<and> flt_lt flt_zero (max_file_size_mb k)
       \<and> flt_lt (max_file_size_mb k) file_size_mb"

definition has_file_size_limits :: "key_pool \<Rightarrow> bool" where
  "has_file_size_limits p \<longleftrightarrow> (\<exists>k \<in> set (pool_keys p). flt_lt flt_zero (max_file_size_mb k))"

text \<open>The scaling by a power of two is exact; a limit that would overflow is refused either way.\<close>

definition bytes_from_megabytes :: "flt \<Rightarrow> nat option" where
  "bytes_from_megabytes limit =
     (case limit of
        Fin r \<Rightarrow>
          if r < 0 then None
          else if r = 0 then Some 0
          else let bytes = \<lceil>r * 1048576\<rceil> in
            if bytes < 18446744073709551616 then Some (nat bytes) else None
      | _ \<Rightarrow> None)"

fun budget_loop :: "flt list \<Rightarrow> nat \<Rightarrow> nat \<Rightarrow> bool \<Rightarrow> (nat \<times> nat \<times> bool) option" where
  "budget_loop [] n maximum unlimited = Some (n, maximum, unlimited)"
| "budget_loop (l # ls) n maximum unlimited =
     (case bytes_from_megabytes l of
        None \<Rightarrow> None
      | Some b \<Rightarrow> budget_loop ls (n + 1) (max maximum b) (unlimited \<or> b = 0))"

definition pool_source_budget :: "flt list \<Rightarrow> nat option" where
  "pool_source_budget limits =
     (case budget_loop limits 0 0 False of
        None \<Rightarrow> None
      | Some (n, maximum, unlimited) \<Rightarrow>
          if n = 0 then None else if unlimited then Some 0 else Some maximum)"

definition source_byte_budget :: "key_pool \<Rightarrow> nat option" where
  "source_byte_budget p = pool_source_budget (map max_file_size_mb (pool_keys p))"

definition strictest :: "nat \<Rightarrow> nat \<Rightarrow> nat" where
  "strictest a b = (if a = 0 then b else if b = 0 then a else min a b)"

section \<open>Selection by one caller\<close>

text \<open>The counters, and the round-robin counter of the pool.\<close>

record key_state =
  active :: "counter_ref \<Rightarrow> nat"
  rr_counter :: nat

definition try_acquire :: "key_pool \<Rightarrow> nat \<Rightarrow> key_state \<Rightarrow> key_state option" where
  "try_acquire p idx st =
     (let r = counter_of p idx in
      if max_concurrent (pool_keys p ! idx) \<le> active st r then None
      else Some (st\<lparr>active := (active st)(r := active st r + 1)\<rparr>))"

definition try_acquire_with_limits :: "key_pool \<Rightarrow> nat \<Rightarrow> nat \<Rightarrow> flt \<Rightarrow> key_state \<Rightarrow> key_state option" where
  "try_acquire_with_limits p idx input_len file_size_mb st =
     (if refused (pool_keys p ! idx) input_len file_size_mb then None else try_acquire p idx st)"

text \<open>The first key of an order of attempts that can be had; an attempt that fails changes nothing.\<close>

fun first_acquired :: "(nat \<Rightarrow> key_state \<Rightarrow> key_state option) \<Rightarrow> nat list \<Rightarrow> key_state \<Rightarrow> (nat \<times> key_state) option" where
  "first_acquired acq [] st = None"
| "first_acquired acq (idx # order) st =
     (case acq idx st of Some st' \<Rightarrow> Some (idx, st') | None \<Rightarrow> first_acquired acq order st)"

definition rotation :: "nat \<Rightarrow> nat \<Rightarrow> nat list" where
  "rotation start len = map (\<lambda>i. (start + i) mod len) [0 ..< len]"

definition select_random ::
  "(nat \<Rightarrow> key_state \<Rightarrow> key_state option) \<Rightarrow> nat \<Rightarrow> nat \<Rightarrow> key_state \<Rightarrow> (nat \<times> key_state) option \<times> key_state" where
  "select_random acq len start st = (first_acquired acq (rotation start len) st, st)"

text \<open>
  \<open>fetch_add\<close> wraps at the word size. The second component of a selection is the state when no key was had:
  the round-robin counter moves either way.
\<close>

definition usize_count :: nat where "usize_count = 18446744073709551616"

definition select_round_robin ::
  "(nat \<Rightarrow> key_state \<Rightarrow> key_state option) \<Rightarrow> nat \<Rightarrow> key_state \<Rightarrow> (nat \<times> key_state) option \<times> key_state" where
  "select_round_robin acq len st =
     (let start = rr_counter st mod len;
          st' = st\<lparr>rr_counter := (rr_counter st + 1) mod usize_count\<rparr> in
      (first_acquired acq (rotation start len) st', st'))"

text \<open>The index whose cumulative weight passes the target.\<close>

fun weighted_pick :: "nat list \<Rightarrow> nat \<Rightarrow> nat \<Rightarrow> nat option" where
  "weighted_pick [] idx target = None"
| "weighted_pick (w # ws) idx target =
     (if target < w then Some idx else weighted_pick ws (idx + 1) (target - w))"

definition select_weighted ::
  "(nat \<Rightarrow> key_state \<Rightarrow> key_state option) \<Rightarrow> nat list \<Rightarrow> nat \<Rightarrow> key_state
     \<Rightarrow> (nat \<times> key_state) option \<times> key_state" where
  "select_weighted acq weights target st =
     (if sum_list weights = 0 then select_round_robin acq (length weights) st
      else
        (first_acquired acq
           ((case weighted_pick weights 0 target of Some idx \<Rightarrow> [idx] | None \<Rightarrow> []) @ [0 ..< length weights]) st,
         st))"

text \<open>
  \<open>draw\<close> is what \<open>gen_range\<close> returned: below the number of keys for \<open>Random\<close>, below the total weight for
  \<open>Weighted\<close>.
\<close>

definition try_select_with ::
  "(nat \<Rightarrow> key_state \<Rightarrow> key_state option) \<Rightarrow> key_pool \<Rightarrow> nat \<Rightarrow> key_state
     \<Rightarrow> (nat \<times> key_state) option \<times> key_state" where
  "try_select_with acq p draw st =
     (case pool_strategy p of
        Random \<Rightarrow> select_random acq (length (pool_keys p)) draw st
      | RoundRobin \<Rightarrow> select_round_robin acq (length (pool_keys p)) st
      | Weighted \<Rightarrow> select_weighted acq (map weight (pool_keys p)) draw st)"

definition try_select_with_index ::
  "key_pool \<Rightarrow> nat \<Rightarrow> key_state \<Rightarrow> (nat \<times> key_state) option \<times> key_state" where
  "try_select_with_index p draw st = try_select_with (try_acquire p) p draw st"

definition try_select_filtered_with_index ::
  "key_pool \<Rightarrow> nat \<Rightarrow> flt \<Rightarrow> nat \<Rightarrow> key_state \<Rightarrow> (nat \<times> key_state) option \<times> key_state" where
  "try_select_filtered_with_index p input_len file_size_mb draw st =
     try_select_with (\<lambda>idx. try_acquire_with_limits p idx input_len file_size_mb) p draw st"

datatype select_outcome =
    PoolEmpty
  | NoEligibleKey
  | Selected nat key_state
  | MustWait key_state

text \<open>One round of the loop of \<open>select_key\<close> and \<open>select_key_with_limits\<close>.\<close>

definition select_key_round :: "key_pool \<Rightarrow> nat \<Rightarrow> key_state \<Rightarrow> select_outcome" where
  "select_key_round p draw st =
     (if pool_keys p = [] then PoolEmpty
      else case try_select_with_index p draw st of
        (Some (idx, st'), _) \<Rightarrow> Selected idx st'
      | (None, st') \<Rightarrow> MustWait st')"

definition select_key_with_limits_round ::
  "key_pool \<Rightarrow> nat \<Rightarrow> flt \<Rightarrow> nat \<Rightarrow> key_state \<Rightarrow> select_outcome" where
  "select_key_with_limits_round p input_len file_size_mb draw st =
     (if pool_keys p = [] then PoolEmpty
      else if \<not> has_eligible_keys p input_len file_size_mb then NoEligibleKey
      else case try_select_filtered_with_index p input_len file_size_mb draw st of
        (Some (idx, st'), _) \<Rightarrow> Selected idx st'
      | (None, st') \<Rightarrow> MustWait st')"

section \<open>Pacing\<close>

definition effective_min_interval_ms :: "key_pool \<Rightarrow> nat \<Rightarrow> nat" where
  "effective_min_interval_ms p idx =
     max (pool_min_interval_ms p)
       (if idx < length (pool_keys p) then key_min_interval_ms (pool_keys p ! idx) else 0)"

text \<open>
  A request that gets the key's clock at time \<open>now\<close>: it sleeps for what is left of the interval, \<open>over\<close> longer
  than asked, and stamps the clock. The result is the time it goes on and the new stamp.
\<close>

definition enforce_min_interval :: "nat \<Rightarrow> nat \<Rightarrow> nat \<Rightarrow> nat \<Rightarrow> nat \<times> nat" where
  "enforce_min_interval interval now over stamp =
     (if interval = 0 then (now, stamp)
      else if now - stamp < interval then (let t = now + (interval - (now - stamp)) + over in (t, t))
      else (now, now))"

text \<open>
  The requests of one key in the order in which they get its clock, each \<open>gap\<close> after the previous stamp
  (the lock is held until the stamp is set).
\<close>

fun paced_requests :: "nat \<Rightarrow> nat \<Rightarrow> (nat \<times> nat) list \<Rightarrow> nat list" where
  "paced_requests interval stamp [] = []"
| "paced_requests interval stamp ((gap, over) # rs) =
     (case enforce_min_interval interval (stamp + gap) over stamp of
        (t, stamp') \<Rightarrow> t # paced_requests interval stamp' rs)"

section \<open>Many callers\<close>

text \<open>
  The callers of one notification domain: the pools of the registry, or one pool without registry. A caller registers
  for the next release (\<open>enable\<close>), goes through the keys of its order, each by a load and a compare-and-exchange
  that is retried, and sleeps when all were full; woken, it starts the next round with the same request. A guard's \<open>drop\<close> decrements the counter, then wakes
  the callers that are registered.
\<close>

type_synonym attempt = "counter_ref \<times> nat"

datatype pc =
    Idle
  | Scan "attempt list" "attempt list"
  | Loaded counter_ref nat nat "attempt list" "attempt list"
  | Parked "attempt list"

record sys =
  counters :: "counter_ref \<Rightarrow> nat"
  guards :: "counter_ref multiset"
  pending :: "counter_ref multiset"
  waiters :: "nat set"
  pcs :: "nat \<Rightarrow> pc"
  asks :: "nat \<Rightarrow> (key_pool \<times> nat \<times> flt) option"

definition sys_init :: sys where
  "sys_init = \<lparr>counters = (\<lambda>r. 0), guards = {#}, pending = {#}, waiters = {}, pcs = (\<lambda>t. Idle),
     asks = Map.empty\<rparr>"

text \<open>The attempts a caller may go through: the keys of a pool that its request does not exceed, in some order.\<close>

definition attempts :: "key_pool \<Rightarrow> nat \<Rightarrow> flt \<Rightarrow> attempt set" where
  "attempts p input_len file_size_mb =
     {(counter_of p idx, max_concurrent (pool_keys p ! idx)) | idx.
        idx < length (pool_keys p) \<and> \<not> refused (pool_keys p ! idx) input_len file_size_mb}"

text \<open>
  \<open>asks\<close> holds the request of a caller, the pool, the input length and the file size, from the call of
  \<open>select_key_with_limits\<close> until it returns a guard; \<open>select_key\<close> asks without limits, that is with zeros. An empty
  pool and a request that no key accepts are refused before the first round.
\<close>

text \<open>\<open>fetch_sub\<close> wraps.\<close>

definition wrapping_pred :: "nat \<Rightarrow> nat" where
  "wrapping_pred c = (if c = 0 then usize_count - 1 else c - 1)"

inductive key_step :: "key_pool set \<Rightarrow> sys \<Rightarrow> sys \<Rightarrow> bool" for ps :: "key_pool set" where
  begin_round: "pcs s t = Idle \<Longrightarrow> p \<in> ps \<Longrightarrow> pool_keys p \<noteq> [] \<Longrightarrow> has_eligible_keys p input_len file_size_mb \<Longrightarrow>
    set order = attempts p input_len file_size_mb \<Longrightarrow>
    key_step ps s (s\<lparr>waiters := insert t (waiters s), pcs := (pcs s)(t := Scan order []),
      asks := (asks s)(t \<mapsto> (p, input_len, file_size_mb))\<rparr>)"
| load: "pcs s t = Scan ((r, l) # todo) seen \<Longrightarrow>
    key_step ps s (s\<lparr>pcs := (pcs s)(t := Loaded r l (counters s r) todo seen)\<rparr>)"
| full: "pcs s t = Loaded r l c todo seen \<Longrightarrow> l \<le> c \<Longrightarrow>
    key_step ps s (s\<lparr>pcs := (pcs s)(t := Scan todo ((r, l) # seen))\<rparr>)"
| exchange_ok: "pcs s t = Loaded r l c todo seen \<Longrightarrow> c < l \<Longrightarrow> counters s r = c \<Longrightarrow>
    key_step ps s (s\<lparr>counters := (counters s)(r := c + 1), guards := add_mset r (guards s),
      waiters := waiters s - {t}, pcs := (pcs s)(t := Idle), asks := (asks s)(t := None)\<rparr>)"
| exchange_fails: "pcs s t = Loaded r l c todo seen \<Longrightarrow> c < l \<Longrightarrow> counters s r \<noteq> c \<Longrightarrow>
    key_step ps s (s\<lparr>pcs := (pcs s)(t := Scan ((r, l) # todo) seen)\<rparr>)"
| park: "pcs s t = Scan [] seen \<Longrightarrow>
    key_step ps s (s\<lparr>pcs := (pcs s)(t := Parked seen)\<rparr>)"
| wake: "pcs s t = Parked seen \<Longrightarrow> t \<notin> waiters s \<Longrightarrow> asks s t = Some (p, input_len, file_size_mb) \<Longrightarrow>
    set order = attempts p input_len file_size_mb \<Longrightarrow>
    key_step ps s (s\<lparr>waiters := insert t (waiters s), pcs := (pcs s)(t := Scan order [])\<rparr>)"
| release: "r \<in># guards s \<Longrightarrow>
    key_step ps s (s\<lparr>counters := (counters s)(r := wrapping_pred (counters s r)), guards := guards s - {#r#},
      pending := add_mset r (pending s)\<rparr>)"
| notify: "r \<in># pending s \<Longrightarrow>
    key_step ps s (s\<lparr>pending := pending s - {#r#}, waiters := {}\<rparr>)"

inductive_cases key_stepE: "key_step ps s s'"

inductive key_reachable :: "key_pool set \<Rightarrow> sys \<Rightarrow> bool" for ps :: "key_pool set" where
  init: "key_reachable ps sys_init"
| step: "key_reachable ps s \<Longrightarrow> key_step ps s s' \<Longrightarrow> key_reachable ps s'"

text \<open>The attempts a state of a caller is about.\<close>

fun known :: "pc \<Rightarrow> attempt set" where
  "known Idle = {}"
| "known (Scan todo seen) = set todo \<union> set seen"
| "known (Loaded r l c todo seen) = insert (r, l) (set todo \<union> set seen)"
| "known (Parked seen) = set seen"

text \<open>The attempts that failed in this round, the loaded one included when its value says full.\<close>

fun found_full :: "pc \<Rightarrow> attempt set" where
  "found_full Idle = {}"
| "found_full (Scan todo seen) = set seen"
| "found_full (Loaded r l c todo seen) = (if l \<le> c then insert (r, l) (set seen) else set seen)"
| "found_full (Parked seen) = set seen"

definition key_limit :: "key_pool set \<Rightarrow> attempt \<Rightarrow> bool" where
  "key_limit ps a \<longleftrightarrow> (\<exists>p \<in> ps. \<exists>idx < length (pool_keys p).
     a = (counter_of p idx, max_concurrent (pool_keys p ! idx)))"

definition asked :: "key_pool set \<Rightarrow> (key_pool \<times> nat \<times> flt) option \<Rightarrow> attempt set \<Rightarrow> bool" where
  "asked ps ask known_attempts \<longleftrightarrow> (\<exists>p \<in> ps. \<exists>input_len file_size_mb. ask = Some (p, input_len, file_size_mb)
     \<and> has_eligible_keys p input_len file_size_mb \<and> known_attempts = attempts p input_len file_size_mb)"

definition key_inv :: "key_pool set \<Rightarrow> sys \<Rightarrow> bool" where
  "key_inv ps s \<longleftrightarrow> (\<forall>r. counters s r = count (guards s) r)
     \<and> (\<forall>r. counters s r = 0 \<or> (\<exists>l. key_limit ps (r, l) \<and> counters s r \<le> l))
     \<and> (\<forall>t. pcs s t \<noteq> Idle \<longrightarrow> asked ps (asks s t) (known (pcs s t)))
     \<and> (\<forall>t \<in> waiters s. pending s \<noteq> {#} \<or> (\<forall>(r, l) \<in> found_full (pcs s t). l \<le> counters s r))"

lemma attempts_limit: "p \<in> ps \<Longrightarrow> a \<in> attempts p il fs \<Longrightarrow> key_limit ps a"
  by (auto simp: attempts_def key_limit_def)

lemma eligible_not_refused: "has_eligible_keys p il fs \<Longrightarrow> \<exists>k \<in> set (pool_keys p). \<not> refused k il fs"
proof -
  have "\<not> flt_lt b a" if "flt_le a b" for a b
    using that by (cases a; cases b) (auto simp: flt_lt_def)
  moreover have "\<not> flt_lt flt_zero a" if "flt_eq a flt_zero" for a
    using that by (cases a) (auto simp: flt_lt_def)
  ultimately show "has_eligible_keys p il fs \<Longrightarrow> ?thesis"
    unfolding has_eligible_keys_def refused_def not_less by (elim bexE, intro bexI) (auto simp: not_le)
qed

lemma key_inv_init: "key_inv ps sys_init"
  by (simp add: key_inv_def sys_init_def)

text \<open>The parts of the invariant, for the case analysis on a step.\<close>

lemma key_invD:
  assumes "key_inv ps s"
  shows "counters s r = count (guards s) r"
    and "counters s r = 0 \<or> (\<exists>l. key_limit ps (r, l) \<and> counters s r \<le> l)"
    and "pcs s t \<noteq> Idle \<Longrightarrow> asked ps (asks s t) (known (pcs s t))"
    and "t \<in> waiters s \<Longrightarrow> (r, l) \<in> found_full (pcs s t) \<Longrightarrow> pending s = {#} \<Longrightarrow> l \<le> counters s r"
  using assms by (fastforce simp: key_inv_def)+

lemma key_invI:
  assumes "\<And>r. counters s r = count (guards s) r"
    and "\<And>r. counters s r = 0 \<or> (\<exists>l. key_limit ps (r, l) \<and> counters s r \<le> l)"
    and "\<And>t. pcs s t \<noteq> Idle \<Longrightarrow> asked ps (asks s t) (known (pcs s t))"
    and "\<And>t r l. t \<in> waiters s \<Longrightarrow> (r, l) \<in> found_full (pcs s t) \<Longrightarrow> pending s = {#} \<Longrightarrow> l \<le> counters s r"
  shows "key_inv ps s"
  using assms by (fastforce simp: key_inv_def)

lemma key_inv_step:
  assumes inv: "key_inv ps s" and step: "key_step ps s s'"
  shows "key_inv ps s'"
  using step
proof cases
  case (begin_round t p il fs order)
  then have "asked ps (Some (p, il, fs)) (set order)" by (auto simp: asked_def)
  with begin_round show ?thesis
    using inv by (intro key_invI) (auto dest: key_invD split: if_splits)
next
  case (load t r l todo seen)
  then have "known (pcs s t) = insert (r, l) (set todo \<union> set seen)" by simp
  with load key_invD(3) [OF inv, of t] show ?thesis
    using inv by (intro key_invI) (auto dest: key_invD split: if_splits)
next
  case (full t r l c todo seen)
  then have "known (pcs s t) = insert (r, l) (set todo \<union> set seen)"
    "found_full (pcs s t) = insert (r, l) (set seen)" by simp_all
  with full key_invD(3) [OF inv, of t] show ?thesis
    using inv by (intro key_invI) (auto dest: key_invD split: if_splits)
next
  case (exchange_ok t r l c todo seen)
  then have "(r, l) \<in> known (pcs s t)" by simp
  moreover obtain p il fs where "p \<in> ps" "known (pcs s t) = attempts p il fs"
    using key_invD(3) [OF inv, of t] exchange_ok by (auto simp: asked_def)
  ultimately have lim: "key_limit ps (r, l)" using attempts_limit by blast
  show ?thesis
  proof (rule key_invI)
    show "counters s' x = count (guards s') x" for x
      using exchange_ok key_invD(1) [OF inv] by auto
    show "counters s' x = 0 \<or> (\<exists>l. key_limit ps (x, l) \<and> counters s' x \<le> l)" for x
      using exchange_ok key_invD(2) [OF inv, of x] lim by auto
    show "asked ps (asks s' u) (known (pcs s' u))" if "pcs s' u \<noteq> Idle" for u
      using that exchange_ok key_invD(3) [OF inv, of u] by (simp split: if_splits)
    show "y \<le> counters s' x" if "u \<in> waiters s'" "(x, y) \<in> found_full (pcs s' u)" "pending s' = {#}" for u x y
      using that exchange_ok key_invD(4) [OF inv, of u x y] by (auto split: if_splits)
  qed
next
  case (exchange_fails t r l c todo seen)
  then have "known (pcs s t) = insert (r, l) (set todo \<union> set seen)"
    "found_full (pcs s t) = set seen" by simp_all
  with exchange_fails key_invD(3) [OF inv, of t] show ?thesis
    using inv by (intro key_invI) (auto dest: key_invD split: if_splits)
next
  case (park t seen)
  with key_invD(3) [OF inv, of t] show ?thesis
    using inv by (intro key_invI) (auto dest: key_invD split: if_splits)
next
  case (wake t seen p il fs order)
  with key_invD(3) [OF inv, of t] have "asked ps (asks s t) (set order)" by (auto simp: asked_def)
  with wake show ?thesis
    using inv by (intro key_invI) (auto dest: key_invD split: if_splits)
next
  case (release r)
  then have "0 < count (guards s) r" by simp
  with key_invD(1) [OF inv, of r] have pos: "0 < counters s r" by simp
  then have pred: "wrapping_pred (counters s r) = counters s r - 1" by (simp add: wrapping_pred_def)
  show ?thesis
  proof (rule key_invI)
    show "counters s' x = count (guards s') x" for x
      using release pred key_invD(1) [OF inv] by auto
    show "counters s' x = 0 \<or> (\<exists>l. key_limit ps (x, l) \<and> counters s' x \<le> l)" for x
      using release pred key_invD(2) [OF inv, of x] by auto
    show "asked ps (asks s' u) (known (pcs s' u))" if "pcs s' u \<noteq> Idle" for u
      using that release key_invD(3) [OF inv, of u] by simp
  qed (use release in simp)
next
  case (notify r)
  then show ?thesis
    using inv by (intro key_invI) (auto dest: key_invD)
qed

lemma key_inv_reachable: "key_reachable ps s \<Longrightarrow> key_inv ps s"
  by (induction rule: key_reachable.induct) (auto intro: key_inv_init key_inv_step)

section \<open>The contract of an acquisition\<close>

text \<open>
  What the selection strategies need of the acquisition they are given: it succeeds exactly when the key is
  available, takes one place of its counter, and does not look at the round-robin counter.
\<close>

locale key_source =
  fixes acq :: "nat \<Rightarrow> key_state \<Rightarrow> key_state option"
    and available :: "nat \<Rightarrow> key_state \<Rightarrow> bool"
    and ref :: "nat \<Rightarrow> counter_ref"
  assumes acq_Some: "acq idx st = Some st' \<longleftrightarrow>
      available idx st \<and> st' = st\<lparr>active := (active st)(ref idx := active st (ref idx) + 1)\<rparr>"
    and available_rr: "available idx (st\<lparr>rr_counter := n\<rparr>) = available idx st"
begin

lemma acq_None: "acq idx st = None \<longleftrightarrow> \<not> available idx st"
proof (cases "acq idx st")
  case None
  with acq_Some [of idx st "st\<lparr>active := (active st)(ref idx := active st (ref idx) + 1)\<rparr>"]
  show ?thesis by auto
next
  case (Some st')
  with acq_Some [of idx st st'] show ?thesis by simp
qed

lemma first_acquired_None: "first_acquired acq order st = None \<longleftrightarrow> (\<forall>idx \<in> set order. \<not> available idx st)"
  by (induction order) (auto simp: acq_None split: option.split, metis acq_None option.distinct(1))

lemma first_acquired_Some:
  "first_acquired acq order st = Some (idx, st') \<Longrightarrow>
   idx \<in> set order \<and> available idx st \<and> st' = st\<lparr>active := (active st)(ref idx := active st (ref idx) + 1)\<rparr>"
  by (induction order) (auto simp: acq_Some split: option.splits)

end

lemma rotation_set: "0 < len \<Longrightarrow> set (rotation start len) = {0 ..< len}"
proof -
  assume len: "0 < len"
  have "\<exists>i < len. idx = (start + i) mod len" if "idx < len" for idx
  proof (intro exI conjI)
    let ?i = "(idx + (len - start mod len)) mod len"
    show "?i < len" using len by simp
    have m: "start mod len < len" using len by simp
    have "(start + ?i) mod len = (start mod len + (idx + (len - start mod len))) mod len"
      by (metis mod_add_eq mod_mod_trivial)
    also have "\<dots> = (idx + len) mod len" using m by (simp add: add.commute)
    also have "\<dots> = idx" using that by simp
    finally show "idx = (start + ?i) mod len" by simp
  qed
  then show ?thesis using len by (fastforce simp: rotation_def image_iff)
qed

lemma weighted_pick_range: "weighted_pick ws i target = Some idx \<Longrightarrow> i \<le> idx \<and> idx < i + length ws"
  by (induction ws i target rule: weighted_pick.induct) (auto split: if_splits)

context key_source
begin

lemma select_order:
  assumes "keys \<noteq> []" "length keys = length (pool_keys p)"
  shows "\<exists>order n. set order = {0 ..< length (pool_keys p)}
    \<and> fst (try_select_with acq p draw st) = first_acquired acq order (st\<lparr>rr_counter := n\<rparr>)"
proof -
  let ?len = "length (pool_keys p)"
  have len: "0 < ?len" using assms by auto
  have rr: "\<exists>order n. set order = {0 ..< ?len}
    \<and> fst (select_round_robin acq ?len st) = first_acquired acq order (st\<lparr>rr_counter := n\<rparr>)"
    using rotation_set [OF len] by (auto simp: select_round_robin_def Let_def)
  show ?thesis
  proof (cases "pool_strategy p")
    case Random
    then have "fst (try_select_with acq p draw st) = first_acquired acq (rotation draw ?len) (st\<lparr>rr_counter := rr_counter st\<rparr>)"
      by (simp add: try_select_with_def select_random_def)
    with rotation_set [OF len, of draw] show ?thesis by blast
  next
    case RoundRobin
    with rr show ?thesis by (simp add: try_select_with_def)
  next
    case Weighted
    let ?ws = "map weight (pool_keys p)"
    show ?thesis
    proof (cases "sum_list ?ws = 0")
      case True
      with Weighted rr show ?thesis by (simp add: try_select_with_def select_weighted_def)
    next
      case False
      let ?order = "(case weighted_pick ?ws 0 draw of Some idx \<Rightarrow> [idx] | None \<Rightarrow> []) @ [0 ..< ?len]"
      have "set ?order = {0 ..< ?len}"
        using weighted_pick_range [of ?ws 0 draw] by (auto split: option.split)
      moreover have "fst (try_select_with acq p draw st) = first_acquired acq ?order (st\<lparr>rr_counter := rr_counter st\<rparr>)"
        using Weighted False by (simp add: try_select_with_def select_weighted_def del: sum_list_eq_0_iff)
      ultimately show ?thesis by blast
    qed
  qed
qed

lemma select_none_iff:
  assumes "pool_keys p \<noteq> []"
  shows "fst (try_select_with acq p draw st) = None \<longleftrightarrow> (\<forall>idx < length (pool_keys p). \<not> available idx st)"
proof -
  from select_order [OF assms refl, of draw st] obtain order n where
    o: "set order = {0 ..< length (pool_keys p)}"
    "fst (try_select_with acq p draw st) = first_acquired acq order (st\<lparr>rr_counter := n\<rparr>)" by blast
  show ?thesis unfolding o(2) first_acquired_None o(1) available_rr by auto
qed

lemma select_some:
  assumes "pool_keys p \<noteq> []" "fst (try_select_with acq p draw st) = Some (idx, st')"
  shows "idx < length (pool_keys p) \<and> available idx st
    \<and> active st' = (active st)(ref idx := active st (ref idx) + 1)"
proof -
  from select_order [OF assms(1) refl, of draw st] obtain order n where
    o: "set order = {0 ..< length (pool_keys p)}"
    "fst (try_select_with acq p draw st) = first_acquired acq order (st\<lparr>rr_counter := n\<rparr>)" by blast
  from first_acquired_Some [of order "st\<lparr>rr_counter := n\<rparr>" idx st'] o assms(2) show ?thesis
    by (simp add: available_rr)
qed

end

definition has_room :: "key_pool \<Rightarrow> nat \<Rightarrow> key_state \<Rightarrow> bool" where
  "has_room p idx st \<longleftrightarrow> active st (counter_of p idx) < max_concurrent (pool_keys p ! idx)"

interpretation plain_keys: key_source "try_acquire p" "has_room p" "counter_of p" for p
  by unfold_locales (auto simp: try_acquire_def has_room_def Let_def)

interpretation limited_keys: key_source
  "\<lambda>idx. try_acquire_with_limits p idx input_len file_size_mb"
  "\<lambda>idx st. has_room p idx st \<and> \<not> refused (pool_keys p ! idx) input_len file_size_mb"
  "counter_of p" for p input_len file_size_mb
  by unfold_locales (auto simp: try_acquire_with_limits_def try_acquire_def has_room_def Let_def)

lemma limited_none:
  "pool_keys p \<noteq> [] \<Longrightarrow>
   fst (try_select_with (\<lambda>idx. try_acquire_with_limits p idx input_len fs) p draw st) = None \<longleftrightarrow>
   (\<forall>idx < length (pool_keys p). \<not> (has_room p idx st \<and> \<not> refused (pool_keys p ! idx) input_len fs))"
  by (rule limited_keys.select_none_iff)

lemma limited_some:
  "pool_keys p \<noteq> [] \<Longrightarrow>
   fst (try_select_with (\<lambda>idx. try_acquire_with_limits p idx input_len fs) p draw st) = Some (idx, st') \<Longrightarrow>
   idx < length (pool_keys p) \<and> (has_room p idx st \<and> \<not> refused (pool_keys p ! idx) input_len fs)
     \<and> active st' = (active st)(counter_of p idx := active st (counter_of p idx) + 1)"
  by (rule limited_keys.select_some)

section \<open>Properties\<close>

text \<open>
  C8: A key never exceeds its concurrency limit. In every interleaving of the atomic operations of any
  number of callers over the pools of a registry, the requests in flight on a counter are at most the largest
  limit that a key with this counter has; the counter is exactly the number of guards, so its
  decrement never wraps.
\<close>

theorem concurrency_limit_holds:
  assumes "key_reachable ps s"
  shows "counters s r = count (guards s) r
    \<and> (counters s r = 0 \<or> (\<exists>p \<in> ps. \<exists>idx < length (pool_keys p).
         counter_of p idx = r \<and> counters s r \<le> max_concurrent (pool_keys p ! idx)))
    \<and> (r \<in># guards s \<longrightarrow> wrapping_pred (counters s r) = counters s r - 1)"
proof -
  note inv = key_inv_reachable [OF assms]
  have "counters s r = 0 \<or> (\<exists>p \<in> ps. \<exists>idx < length (pool_keys p).
         counter_of p idx = r \<and> counters s r \<le> max_concurrent (pool_keys p ! idx))"
    using key_invD(2) [OF inv, of r] by (auto simp: key_limit_def)
  moreover have "wrapping_pred (counters s r) = counters s r - 1" if "r \<in># guards s"
  proof -
    from that have "0 < counters s r" by (simp add: key_invD(1) [OF inv])
    then show ?thesis by (simp add: wrapping_pred_def)
  qed
  ultimately show ?thesis using key_invD(1) [OF inv, of r] by blast
qed

definition sample_key :: key_entry where
  "sample_key = \<lparr>key_id = ''k'', auth_values = [], max_concurrent = 1, weight = 2, max_input_chars = 100,
     max_file_size_mb = Fin 5, key_min_interval_ms = 200\<rparr>"

definition sample_pool :: key_pool where
  "sample_pool = \<lparr>pool_no = 0, shared = True, pool_keys = [sample_key, sample_key\<lparr>key_id := ''l'', weight := 0\<rparr>],
     pool_strategy = Weighted, pool_min_interval_ms = 50\<rparr>"

text \<open>Two callers race for the one place of a key; the second finds it full and sleeps.\<close>

definition sample_order :: "attempt list" where
  "sample_order = [(Global ''k'', 1)]"

lemma sample_attempts: "attempts (sample_pool\<lparr>pool_keys := [sample_key]\<rparr>) 0 flt_zero = set sample_order"
  by (auto simp: attempts_def sample_order_def sample_pool_def sample_key_def counter_of_def refused_def
      flt_lt_def)

lemma sample_eligible: "has_eligible_keys (sample_pool\<lparr>pool_keys := [sample_key]\<rparr>) 0 flt_zero"
  by (simp add: has_eligible_keys_def sample_pool_def)

lemma sample_race:
  "\<exists>s. key_reachable {sample_pool\<lparr>pool_keys := [sample_key]\<rparr>} s \<and> counters s (Global ''k'') = 1
    \<and> pcs s 1 = Parked [(Global ''k'', 1)] \<and> 1 \<in> waiters s \<and> pending s = {#}
    \<and> asks s 1 = Some (sample_pool\<lparr>pool_keys := [sample_key]\<rparr>, 0, flt_zero)"
proof -
  let ?p = "sample_pool\<lparr>pool_keys := [sample_key]\<rparr>"
  let ?R = "key_reachable {?p}"
  note start = key_reachable.step [OF _ key_step.begin_round [where p = ?p and order = sample_order and ps = "{?p}",
      OF _ _ _ sample_eligible sample_attempts [symmetric]]]
  note go = key_reachable.step [OF _ key_step.load] key_reachable.step [OF _ key_step.exchange_ok]
    key_reachable.step [OF _ key_step.full] key_reachable.step [OF _ key_step.park]
  define s1 where "s1 = sys_init\<lparr>waiters := insert 0 (waiters sys_init), pcs := (pcs sys_init)(0 := Scan sample_order []),
      asks := (asks sys_init)(0 \<mapsto> (?p, 0, flt_zero))\<rparr>"
  define s2 where "s2 = s1\<lparr>pcs := (pcs s1)(0 := Loaded (Global ''k'') 1 (counters s1 (Global ''k'')) [] [])\<rparr>"
  define s3 where "s3 = s2\<lparr>counters := (counters s2)(Global ''k'' := 0 + 1), guards := add_mset (Global ''k'') (guards s2),
      waiters := waiters s2 - {0}, pcs := (pcs s2)(0 := Idle), asks := (asks s2)(0 := None)\<rparr>"
  define s4 where "s4 = s3\<lparr>waiters := insert 1 (waiters s3), pcs := (pcs s3)(1 := Scan sample_order []),
      asks := (asks s3)(1 \<mapsto> (?p, 0, flt_zero))\<rparr>"
  define s5 where "s5 = s4\<lparr>pcs := (pcs s4)(1 := Loaded (Global ''k'') 1 (counters s4 (Global ''k'')) [] [])\<rparr>"
  define s6 where "s6 = s5\<lparr>pcs := (pcs s5)(1 := Scan [] [(Global ''k'', 1)])\<rparr>"
  define s7 where "s7 = s6\<lparr>pcs := (pcs s6)(1 := Parked [(Global ''k'', 1)])\<rparr>"
  note defs = s1_def s2_def s3_def s4_def s5_def s6_def s7_def sys_init_def sample_order_def
  have 1: "?R s1" unfolding s1_def by (rule start [OF key_reachable.init]) (simp_all add: sys_init_def)
  have 2: "?R s2" unfolding s2_def by (rule go(1) [OF 1]) (simp add: defs)
  have 3: "?R s3" unfolding s3_def
    by (rule key_reachable.step [OF 2 key_step.exchange_ok [where l = 1 and todo = "[]" and seen = "[]"]]) (simp_all add: defs)
  have 4: "?R s4" unfolding s4_def by (rule start [OF 3]) (simp_all add: defs)
  have 5: "?R s5" unfolding s5_def by (rule go(1) [OF 4]) (simp add: defs)
  have 6: "?R s6" unfolding s6_def
    by (rule key_reachable.step [OF 5 key_step.full [where c = 1]]) (simp_all add: defs)
  have 7: "?R s7" unfolding s7_def by (rule go(4) [OF 6]) (simp add: defs)
  from 7 show ?thesis by (intro exI [of _ s7]) (simp add: defs)
qed

theorem concurrency_limit_holds_witness:
  "\<exists>s :: sys. counters s (Global ''k'') = 1 \<and> counters s (Global ''k'') = count (guards s) (Global ''k'')"
proof -
  obtain s where s: "key_reachable {sample_pool\<lparr>pool_keys := [sample_key]\<rparr>} s" "counters s (Global ''k'') = 1"
    using sample_race by blast
  from concurrency_limit_holds [OF s(1), of "Global ''k''"] s(2) show ?thesis by blast
qed

text \<open>
  C32: No wake-up is lost. A caller that sleeps, not yet woken and with no release on its way to wake it,
  sleeps because every key of its pool that accepts its own request, its input length and its file size, is at its
  limit right now, and there is such a key, so that a release will come: the registration before the scan closes the
  race between a release and the sleep.
\<close>

theorem no_lost_wakeup:
  assumes "key_reachable ps s" "pcs s t = Parked seen" "t \<in> waiters s" "pending s = {#}"
  shows "\<exists>p input_len file_size_mb. asks s t = Some (p, input_len, file_size_mb) \<and> p \<in> ps
    \<and> (\<exists>k \<in> set (pool_keys p). \<not> refused k input_len file_size_mb)
    \<and> (\<forall>idx < length (pool_keys p). \<not> refused (pool_keys p ! idx) input_len file_size_mb \<longrightarrow>
         max_concurrent (pool_keys p ! idx) \<le> counters s (counter_of p idx))"
proof -
  note inv = key_inv_reachable [OF assms(1)]
  from key_invD(3) [OF inv, of t] assms(2) obtain p il fs where
    p: "asks s t = Some (p, il, fs)" "p \<in> ps" "has_eligible_keys p il fs" "set seen = attempts p il fs"
    by (auto simp: asked_def)
  have "l \<le> counters s r" if "(r, l) \<in> set seen" for r l
    using key_invD(4) [OF inv assms(3) _ assms(4)] that assms(2) by simp
  then have "\<forall>idx < length (pool_keys p). \<not> refused (pool_keys p ! idx) il fs \<longrightarrow>
    max_concurrent (pool_keys p ! idx) \<le> counters s (counter_of p idx)"
    unfolding p(4) attempts_def by blast
  with p eligible_not_refused [OF p(3)] show ?thesis by blast
qed

theorem no_lost_wakeup_witness:
  "\<exists>s :: sys. 1 \<in> waiters s \<and> asks s 1 = Some (sample_pool\<lparr>pool_keys := [sample_key]\<rparr>, 0, flt_zero)
    \<and> 1 \<le> counters s (Global ''k'')"
proof -
  let ?p = "sample_pool\<lparr>pool_keys := [sample_key]\<rparr>"
  obtain s where s: "key_reachable {?p} s"
    "pcs s 1 = Parked [(Global ''k'', 1)]" "1 \<in> waiters s" "pending s = {#}" "asks s 1 = Some (?p, 0, flt_zero)"
    using sample_race by blast
  have "\<not> refused sample_key 0 flt_zero" by (simp add: refused_def flt_lt_def)
  with no_lost_wakeup [OF s(1-4)] s(3,5) show ?thesis
    by (force simp: sample_pool_def sample_key_def counter_of_def)
qed

text \<open>
  Selection is complete, whatever the strategy and the random draw. A request with limits is refused at once
  exactly when no key is eligible; otherwise it gets a key that accepts it and has a free place, of which it
  takes one, or it must wait, exactly when every key is full or refuses it. When it is eligible, some key of the
  pool accepts it, so waiting is never hopeless for want of a suitable key.
\<close>

theorem limited_selection_complete:
  assumes "pool_keys p \<noteq> []" "has_eligible_keys p input_len fs"
  shows "(\<exists>idx < length (pool_keys p). \<not> refused (pool_keys p ! idx) input_len fs)
    \<and> (case select_key_with_limits_round p input_len fs draw st of
         Selected idx st' \<Rightarrow> idx < length (pool_keys p) \<and> \<not> refused (pool_keys p ! idx) input_len fs
           \<and> active st (counter_of p idx) < max_concurrent (pool_keys p ! idx)
           \<and> active st' = (active st)(counter_of p idx := active st (counter_of p idx) + 1)
       | MustWait st' \<Rightarrow> \<forall>idx < length (pool_keys p). refused (pool_keys p ! idx) input_len fs
           \<or> max_concurrent (pool_keys p ! idx) \<le> active st (counter_of p idx)
       | _ \<Rightarrow> False)"
proof -
  let ?sel = "try_select_with (\<lambda>idx. try_acquire_with_limits p idx input_len fs) p draw st"
  from assms(2) obtain k where k: "k \<in> set (pool_keys p)"
    "input_len = 0 \<or> max_input_chars k = 0 \<or> input_len \<le> max_input_chars k"
    "flt_eq fs flt_zero \<or> flt_eq (max_file_size_mb k) flt_zero \<or> flt_le fs (max_file_size_mb k)"
    by (auto simp: has_eligible_keys_def)
  have "\<not> (flt_lt flt_zero fs \<and> flt_lt flt_zero (max_file_size_mb k) \<and> flt_lt (max_file_size_mb k) fs)"
    using k(3) by (cases fs; cases "max_file_size_mb k") (auto simp: flt_lt_def)
  with k(2) have ok: "\<not> refused k input_len fs" by (auto simp: refused_def)
  with k(1) have "\<exists>idx < length (pool_keys p). \<not> refused (pool_keys p ! idx) input_len fs"
    by (metis in_set_conv_nth)
  moreover have "case select_key_with_limits_round p input_len fs draw st of
         Selected idx st' \<Rightarrow> idx < length (pool_keys p) \<and> \<not> refused (pool_keys p ! idx) input_len fs
           \<and> active st (counter_of p idx) < max_concurrent (pool_keys p ! idx)
           \<and> active st' = (active st)(counter_of p idx := active st (counter_of p idx) + 1)
       | MustWait st' \<Rightarrow> \<forall>idx < length (pool_keys p). refused (pool_keys p ! idx) input_len fs
           \<or> max_concurrent (pool_keys p ! idx) \<le> active st (counter_of p idx)
       | _ \<Rightarrow> False"
  proof (cases "fst ?sel")
    case None
    then obtain st' where "?sel = (None, st')" by (cases ?sel) auto
    moreover have "\<forall>idx < length (pool_keys p). refused (pool_keys p ! idx) input_len fs
        \<or> max_concurrent (pool_keys p ! idx) \<le> active st (counter_of p idx)"
      using None limited_none [OF assms(1), of input_len fs draw st]
      by (auto simp: has_room_def not_less)
    ultimately show ?thesis
      using assms by (simp add: select_key_with_limits_round_def try_select_filtered_with_index_def)
  next
    case (Some r)
    then obtain idx st1 st' where sel: "?sel = (Some (idx, st1), st')" by (cases ?sel; cases r) auto
    then have "fst ?sel = Some (idx, st1)" by simp
    from limited_some [OF assms(1) this] sel show ?thesis
      using assms by (simp add: select_key_with_limits_round_def try_select_filtered_with_index_def has_room_def)
  qed
  ultimately show ?thesis by blast
qed

theorem limited_selection_complete_witness:
  "\<exists>idx < length (pool_keys sample_pool). \<not> refused (pool_keys sample_pool ! idx) 80 (Fin 4)"
  using limited_selection_complete [of sample_pool 80 "Fin 4"]
  by (simp add: has_eligible_keys_def sample_pool_def sample_key_def)

lemma weighted_pick_count:
  "idx < length ws \<Longrightarrow> {t. weighted_pick ws n t = Some (n + idx)} = {sum_list (take idx ws) ..< sum_list (take (Suc idx) ws)}"
proof (induction ws arbitrary: n idx)
  case (Cons w ws)
  show ?case
  proof (cases idx)
    case 0
    have "weighted_pick ws (n + 1) t \<noteq> Some n" for t
      using weighted_pick_range [of ws "n + 1" t n] by auto
    with 0 show ?thesis by auto
  next
    case (Suc j)
    have "{t. weighted_pick (w # ws) n t = Some (n + idx)}
      = (\<lambda>t. t + w) ` {t. weighted_pick ws (n + 1) t = Some (n + 1 + j)}"
      using Suc by (auto simp: image_iff intro: exI [of _ "_ - w"])
        (metis add.commute le_add_diff_inverse not_less)
    also have "\<dots> = (\<lambda>t. t + w) ` {sum_list (take j ws) ..< sum_list (take (Suc j) ws)}"
      using Cons.IH [of j "n + 1"] Cons.prems Suc by simp
    finally show ?thesis using Suc by (simp add: add.commute)
  qed
qed simp

text \<open>
  Weighted selection is proportional. Of the equally likely draws below the total weight, as many pick a
  key as its weight says; a key of weight zero is picked by none.
\<close>

theorem weighted_pick_proportional:
  assumes "idx < length ws"
  shows "card {t. t < sum_list ws \<and> weighted_pick ws 0 t = Some idx} = ws ! idx"
proof -
  have step: "sum_list (take (Suc idx) ws) = sum_list (take idx ws) + ws ! idx"
    using assms by (simp add: take_Suc_conv_app_nth)
  have "sum_list (take (Suc idx) ws) \<le> sum_list ws"
    by (metis append_take_drop_id le_add1 sum_list_append)
  then have "{t. t < sum_list ws \<and> weighted_pick ws 0 t = Some idx} = {t. weighted_pick ws 0 t = Some (0 + idx)}"
    using weighted_pick_count [OF assms, of 0] by auto
  also have "card \<dots> = ws ! idx"
    unfolding weighted_pick_count [OF assms, of 0] using step by simp
  finally show ?thesis .
qed

theorem weighted_pick_proportional_witness:
  "card {t. t < sum_list [3, 0, 5] \<and> weighted_pick [3, 0, 5] 0 t = Some 2} = 5"
  using weighted_pick_proportional [of 2 "[3, 0, 5]"] by simp

text \<open>
  A saved pool is the pool. Restoring a snapshot and taking it again gives the snapshot, whatever the
  division of \<open>f64\<close> rounds to: ids, credentials, limits, weights, strategy and both kinds of intervals
  survive, although the restored keys are built with a rate of zero.
\<close>

theorem snapshot_roundtrip:
  "snapshot (from_snapshot fdiv no s) = s \<and> shared (from_snapshot fdiv no s)
    \<and> effective_min_interval_ms (from_snapshot fdiv no (snapshot p)) idx = effective_min_interval_ms p idx"
proof -
  have keys: "pool_keys (from_snapshot fdiv no s) = map (\<lambda>k. \<lparr>key_id = s_id k, auth_values = s_auth k,
      max_concurrent = s_max_concurrent k, weight = s_weight k, max_input_chars = s_max_input_chars k,
      max_file_size_mb = s_max_file_size_mb k, key_min_interval_ms = s_min_interval_ms k\<rparr>) (s_keys s)" for s
    by (simp add: from_snapshot_def new_ext_internal_def config_of_snapshot_def Let_def zip_map1 o_def
        zip_same_conv_map)
  have "snapshot (from_snapshot fdiv no s) = s"
  proof (rule pool_snapshot.equality)
    show "s_keys (snapshot (from_snapshot fdiv no s)) = s_keys s"
      by (simp add: snapshot_def keys o_def, rule map_idI, rule key_snapshot.equality) simp_all
  qed (simp_all add: snapshot_def from_snapshot_def new_ext_internal_def Let_def)
  moreover have "shared (from_snapshot fdiv no s)"
    by (simp add: from_snapshot_def new_ext_internal_def Let_def)
  moreover have "effective_min_interval_ms (from_snapshot fdiv no (snapshot p)) idx = effective_min_interval_ms p idx"
    unfolding effective_min_interval_ms_def keys
    by (simp add: snapshot_def from_snapshot_def new_ext_internal_def Let_def)
  ultimately show ?thesis by blast
qed

text \<open>
  Requests of a key are spaced. With a minimum interval, the times at which the requests of one key go on are
  at least the interval apart, and the first is so from the last stamp, however the requests bunch up and
  however long a sleep overruns.
\<close>

theorem requests_are_spaced:
  assumes "0 < interval"
  shows "sorted_wrt (\<lambda>a b. a + interval \<le> b) (stamp # paced_requests interval stamp rs)"
proof (induction rs arbitrary: stamp)
  case Nil
  then show ?case by simp
next
  case (Cons r rs)
  obtain gap over where r: "r = (gap, over)" by (cases r)
  obtain t u where e: "enforce_min_interval interval (stamp + gap) over stamp = (t, u)"
    by (cases "enforce_min_interval interval (stamp + gap) over stamp") auto
  with assms have "u = t" "stamp + interval \<le> t"
    by (auto simp: enforce_min_interval_def Let_def split: if_splits)
  with e have t: "enforce_min_interval interval (stamp + gap) over stamp = (t, t)" "stamp + interval \<le> t"
    by simp_all
  with Cons.IH [of t] r show ?case by (auto intro: order_trans)
qed

theorem requests_are_spaced_witness:
  "sorted_wrt (\<lambda>a b. a + 200 \<le> b) (1000 # paced_requests 200 1000 [(0, 3), (500, 0), (10, 0)])"
  by (rule requests_are_spaced) simp

end
