(* ===== verification/ConfigEnvelope.thy ===== *)
theory ConfigEnvelope
  imports Prelude
begin

text \<open>
  Encryption of stored configuration: \<open>bindings/crypto.rs\<close>, and the column encoding of \<open>db/system.rs\<close>
  (\<open>encrypt_config_value\<close>, \<open>decrypt_config_value\<close>).

  A Rust \<open>String\<close> is here the list of its UTF-8 bytes, and \<open>String::from_utf8\<close> the check
  \<open>valid_utf8\<close>; the secrets, which are trimmed, are texts of the prelude. AES-256-GCM, HKDF, SHA-256,
  Base64 and the JSON parser are crates: they are the fields of the record \<open>crates\<close>, and what is used of them is
  the law \<open>crate_laws\<close>. A panic is a value, \<open>KeyPanic\<close>, which no error handler of the code catches.
\<close>

type_synonym bytes = "8 word list"

section \<open>Text as bytes\<close>

definition ascii :: "string \<Rightarrow> bytes" where
  "ascii s = map (\<lambda>c. of_nat (of_char c)) s"

definition utf8_bytes :: "string \<Rightarrow> bytes" where
  "utf8_bytes s = concat (map (\<lambda>c. let n = of_char c :: nat in
     if n < 128 then [of_nat n] else [of_nat (192 + n div 64), of_nat (128 + n mod 64)]) s)"

definition is_cont :: "8 word \<Rightarrow> bool" where
  "is_cont b \<longleftrightarrow> 0x80 \<le> b \<and> b \<le> 0xBF"

text \<open>Well-formed UTF-8, by the number of bytes that the first one announces.\<close>

fun valid_utf8 :: "bytes \<Rightarrow> bool" where
  "valid_utf8 [] = True"
| "valid_utf8 (a # r) =
     (if a < 0x80 then valid_utf8 r
      else case r of
        [] \<Rightarrow> False
      | b # r2 \<Rightarrow>
          if 0xC2 \<le> a \<and> a \<le> 0xDF then is_cont b \<and> valid_utf8 r2
          else case r2 of
            [] \<Rightarrow> False
          | c # r3 \<Rightarrow>
              if 0xE0 \<le> a \<and> a \<le> 0xEF
              then (if a = 0xE0 then 0xA0 \<le> b \<and> b \<le> 0xBF
                    else if a = 0xED then 0x80 \<le> b \<and> b \<le> 0x9F
                    else is_cont b)
                \<and> is_cont c \<and> valid_utf8 r3
              else case r3 of
                [] \<Rightarrow> False
              | d # r4 \<Rightarrow>
                  0xF0 \<le> a \<and> a \<le> 0xF4
                  \<and> (if a = 0xF0 then 0x90 \<le> b \<and> b \<le> 0xBF
                     else if a = 0xF4 then 0x80 \<le> b \<and> b \<le> 0x8F
                     else is_cont b)
                  \<and> is_cont c \<and> is_cont d \<and> valid_utf8 r4)"

declare valid_utf8.simps [simp del]

section \<open>Outcomes and crates\<close>

datatype config_error =
    KeyPanic
  | MissingKey
  | CipherFailed
  | TooShort
  | UnsupportedVersion
  | UnsupportedFormat
  | DamagedDocument
  | NotUtf8
  | Undecryptable

record encrypted_doc =
  doc_format :: bytes
  doc_algorithm :: bytes
  doc_nonce :: bytes
  doc_payload :: bytes

record crates =
  aes_seal :: "bytes \<Rightarrow> bytes \<Rightarrow> bytes \<Rightarrow> bytes option"
  aes_unseal :: "bytes \<Rightarrow> bytes \<Rightarrow> bytes \<Rightarrow> bytes option"
  hkdf_sha256 :: "bytes \<Rightarrow> bytes \<Rightarrow> bytes \<Rightarrow> bytes"
  sha256 :: "bytes \<Rightarrow> bytes"
  base64_encode :: "bytes \<Rightarrow> bytes"
  base64_decode :: "bytes \<Rightarrow> bytes option"
  parse_value :: "bytes \<Rightarrow> bytes json option"
  parse_encrypted_doc :: "bytes \<Rightarrow> encrypted_doc option"

text \<open>
  What the code relies on: a sealed text unseals under its key and nonce, the sixteen bytes of the GCM
  tag are part of the ciphertext, and Base64 decodes what it encoded.
\<close>

definition crate_laws :: "crates \<Rightarrow> bool" where
  "crate_laws cr \<longleftrightarrow>
     (\<forall>key nonce plain ct. aes_seal cr key nonce plain = Some ct \<longrightarrow>
        aes_unseal cr key nonce ct = Some plain \<and> 16 \<le> length ct)
     \<and> (\<forall>bs. base64_decode cr (base64_encode cr bs) = Some bs)"

section \<open>The secret and the keys\<close>

text \<open>The environment variables, and the device identity registered at boot.\<close>

record secret_sources =
  env_secret :: "string option"
  env_device :: "string option"
  boot_device :: "string option"

definition set_default_device_id :: "string \<Rightarrow> secret_sources \<Rightarrow> secret_sources" where
  "set_default_device_id device_id src =
     (let trimmed = trim device_id in
      if trimmed = [] then src
      else if boot_device src = None then src\<lparr>boot_device := Some trimmed\<rparr>
      else src)"

text \<open>\<open>{:02x}\<close>.\<close>

definition hex_digit :: "nat \<Rightarrow> char" where
  "hex_digit n = char_of (if n < 10 then 48 + n else 87 + n)"

definition hex_byte :: "8 word \<Rightarrow> string" where
  "hex_byte b = [hex_digit (unat b div 16), hex_digit (unat b mod 16)]"

definition derive_bindings_secret_from_device_id :: "crates \<Rightarrow> string \<Rightarrow> string" where
  "derive_bindings_secret_from_device_id cr device_id =
     concat (map hex_byte
       (hkdf_sha256 cr (ascii ''wptsall-bindings-device'') (utf8_bytes device_id)
         (ascii ''bindings-secret-from-device-id-v1'')))"

definition nonblank :: "string option \<Rightarrow> string option" where
  "nonblank v = (case v of None \<Rightarrow> None | Some s \<Rightarrow> if trim s = [] then None else Some (trim s))"

definition bindings_secret :: "crates \<Rightarrow> secret_sources \<Rightarrow> string option" where
  "bindings_secret cr src =
     (case nonblank (env_secret src) of
        Some s \<Rightarrow> Some s
      | None \<Rightarrow>
          (case nonblank (env_device src) of
             Some d \<Rightarrow> Some (derive_bindings_secret_from_device_id cr d)
           | None \<Rightarrow> map_option (derive_bindings_secret_from_device_id cr) (boot_device src)))"

text \<open>
  \<open>u8::from_str_radix\<close> of a slice of two bytes, which accepts a plus sign; the slice itself panics when
  it starts or ends inside a character.
\<close>

datatype hex_outcome = HexPanic | NotHex | Hex bytes

definition hex_value :: "8 word \<Rightarrow> nat option" where
  "hex_value b =
     (let n = unat b in
      if 48 \<le> n \<and> n \<le> 57 then Some (n - 48)
      else if 97 \<le> n \<and> n \<le> 102 then Some (n - 87)
      else if 65 \<le> n \<and> n \<le> 70 then Some (n - 55)
      else None)"

definition hex_pair :: "8 word \<Rightarrow> 8 word \<Rightarrow> 8 word option" where
  "hex_pair a b =
     (case (if a = 43 then Some 0 else hex_value a, hex_value b) of
        (Some x, Some y) \<Rightarrow> Some (of_nat (16 * x + y))
      | _ \<Rightarrow> None)"

fun hex_pairs :: "bytes \<Rightarrow> hex_outcome" where
  "hex_pairs (a # b # r) =
     (if is_cont a \<or> (case r of [] \<Rightarrow> False | c # _ \<Rightarrow> is_cont c) then HexPanic
      else case hex_pair a b of
        None \<Rightarrow> NotHex
      | Some v \<Rightarrow>
          (case hex_pairs r of
             Hex vs \<Rightarrow> Hex (v # vs)
           | bad \<Rightarrow> bad))"
| "hex_pairs _ = Hex []"

definition decode_hex :: "bytes \<Rightarrow> hex_outcome" where
  "decode_hex s = (if odd (length s) then NotHex else hex_pairs s)"

definition derive_bindings_crypto_key :: "crates \<Rightarrow> string \<Rightarrow> config_error + bytes" where
  "derive_bindings_crypto_key cr secret =
     (case decode_hex (utf8_bytes secret) of
        HexPanic \<Rightarrow> Inl KeyPanic
      | NotHex \<Rightarrow> Inr (hkdf_sha256 cr (ascii ''wptsall-bindings'') (utf8_bytes secret) (ascii ''bindings-encryption-v1''))
      | Hex ikm \<Rightarrow> Inr (hkdf_sha256 cr (ascii ''wptsall-bindings'') ikm (ascii ''bindings-encryption-v1'')))"

definition derive_bindings_crypto_key_legacy :: "crates \<Rightarrow> string \<Rightarrow> bytes" where
  "derive_bindings_crypto_key_legacy cr secret =
     take 32 (sha256 cr (ascii ''wptsall-bindings:'' @ utf8_bytes secret))"

definition derive_retained_asset_key :: "crates \<Rightarrow> secret_sources \<Rightarrow> bytes \<Rightarrow> config_error + bytes" where
  "derive_retained_asset_key cr src asset_id =
     (case bindings_secret cr src of
        None \<Rightarrow> Inl MissingKey
      | Some secret \<Rightarrow>
          (case derive_bindings_crypto_key cr secret of
             Inl e \<Rightarrow> Inl e
           | Inr master \<Rightarrow>
               Inr (hkdf_sha256 cr asset_id master (ascii ''wptsall-retained-assets-aes256gcm-v1''))))"

section \<open>The binary envelope\<close>

abbreviation WPTC_MAGIC :: bytes where "WPTC_MAGIC \<equiv> [0x57, 0x50, 0x54, 0x43]"
abbreviation WPTC_VERSION :: "8 word" where "WPTC_VERSION \<equiv> 1"
abbreviation WPTC_HEADER_LEN :: nat where "WPTC_HEADER_LEN \<equiv> 17"

text \<open>The nonce is the twelve bytes drawn from the random generator.\<close>

definition encrypt_for_save :: "crates \<Rightarrow> secret_sources \<Rightarrow> bytes \<Rightarrow> bytes \<Rightarrow> config_error + bytes" where
  "encrypt_for_save cr src nonce plain =
     (case bindings_secret cr src of
        None \<Rightarrow> Inl MissingKey
      | Some secret \<Rightarrow>
          (case derive_bindings_crypto_key cr secret of
             Inl e \<Rightarrow> Inl e
           | Inr key \<Rightarrow>
               (case aes_seal cr key nonce plain of
                  None \<Rightarrow> Inl CipherFailed
                | Some encrypted \<Rightarrow> Inr (WPTC_MAGIC @ [WPTC_VERSION] @ nonce @ encrypted))))"

definition from_utf8 :: "bytes \<Rightarrow> config_error + bytes" where
  "from_utf8 bs = (if valid_utf8 bs then Inr bs else Inl NotUtf8)"

text \<open>The current key first; only when it does not authenticate, the key of the earlier derivation.\<close>

definition decrypt_with_secret :: "crates \<Rightarrow> string \<Rightarrow> bytes \<Rightarrow> bytes \<Rightarrow> config_error + bytes" where
  "decrypt_with_secret cr secret nonce ciphertext =
     (case derive_bindings_crypto_key cr secret of
        Inl e \<Rightarrow> Inl e
      | Inr key \<Rightarrow>
          (case aes_unseal cr key nonce ciphertext of
             Some plain \<Rightarrow> from_utf8 plain
           | None \<Rightarrow>
               (case aes_unseal cr (derive_bindings_crypto_key_legacy cr secret) nonce ciphertext of
                  Some plain \<Rightarrow> from_utf8 plain
                | None \<Rightarrow> Inl Undecryptable)))"

definition decrypt_wptc_binary :: "crates \<Rightarrow> secret_sources \<Rightarrow> bytes \<Rightarrow> config_error + bytes" where
  "decrypt_wptc_binary cr src data =
     (if length data < WPTC_HEADER_LEN + 16 then Inl TooShort
      else if data ! 4 \<noteq> WPTC_VERSION then Inl UnsupportedVersion
      else case bindings_secret cr src of
        None \<Rightarrow> Inl MissingKey
      | Some secret \<Rightarrow> decrypt_with_secret cr secret (take 12 (drop 5 data)) (drop 17 data))"

text \<open>\<open>Value::Object\<close>'s \<open>get\<close>: the members have distinct names.\<close>

definition is_legacy_encrypted_json :: "crates \<Rightarrow> bytes \<Rightarrow> bool" where
  "is_legacy_encrypted_json cr raw =
     (case parse_value cr raw of
        Some (JObject members) \<Rightarrow> map_of members (ascii ''format'') = Some (JString (ascii ''encrypted''))
      | _ \<Rightarrow> False)"

definition decrypt_legacy_json_payload :: "crates \<Rightarrow> secret_sources \<Rightarrow> bytes \<Rightarrow> config_error + bytes" where
  "decrypt_legacy_json_payload cr src raw =
     (case parse_encrypted_doc cr raw of
        None \<Rightarrow> Inl DamagedDocument
      | Some doc \<Rightarrow>
          if doc_format doc \<noteq> ascii ''encrypted'' \<or> doc_algorithm doc \<noteq> ascii ''aes-256-gcm-v1''
          then Inl UnsupportedFormat
          else case bindings_secret cr src of
            None \<Rightarrow> Inl MissingKey
          | Some secret \<Rightarrow>
              (case base64_decode cr (doc_nonce doc) of
                 None \<Rightarrow> Inl DamagedDocument
               | Some nonce \<Rightarrow>
                   if length nonce \<noteq> 12 then Inl DamagedDocument
                   else case base64_decode cr (doc_payload doc) of
                     None \<Rightarrow> Inl DamagedDocument
                   | Some payload \<Rightarrow> decrypt_with_secret cr secret nonce payload))"

definition decrypt_from_bytes :: "crates \<Rightarrow> secret_sources \<Rightarrow> bytes \<Rightarrow> config_error + bytes" where
  "decrypt_from_bytes cr src data =
     (if data = [] then Inr []
      else if WPTC_HEADER_LEN \<le> length data \<and> take 4 data = WPTC_MAGIC then decrypt_wptc_binary cr src data
      else case from_utf8 data of
        Inl e \<Rightarrow> Inl e
      | Inr raw \<Rightarrow>
          if is_legacy_encrypted_json cr raw then decrypt_legacy_json_payload cr src raw else Inr raw)"

text \<open>The same reading of a file, with \<open>None\<close> for a file that cannot be read.\<close>

definition load_encrypted_or_plain ::
  "crates \<Rightarrow> secret_sources \<Rightarrow> bytes option \<Rightarrow> (config_error + bytes) option" where
  "load_encrypted_or_plain cr src file =
     (case file of
        None \<Rightarrow> None
      | Some raw_bytes \<Rightarrow>
          Some (if raw_bytes = [] then Inr []
            else if WPTC_HEADER_LEN \<le> length raw_bytes \<and> take 4 raw_bytes = WPTC_MAGIC
            then decrypt_wptc_binary cr src raw_bytes
            else case from_utf8 raw_bytes of
              Inl e \<Rightarrow> Inl e
            | Inr raw \<Rightarrow>
                if is_legacy_encrypted_json cr raw then decrypt_legacy_json_payload cr src raw else Inr raw))"

section \<open>The column encoding\<close>

definition encrypt_config_value :: "crates \<Rightarrow> secret_sources \<Rightarrow> bytes \<Rightarrow> bytes \<Rightarrow> config_error + bytes" where
  "encrypt_config_value cr src nonce plain =
     (case encrypt_for_save cr src nonce plain of
        Inl e \<Rightarrow> Inl e
      | Inr data \<Rightarrow> Inr (base64_encode cr data))"

text \<open>The error is rewritten; a panic passes.\<close>

definition decrypt_config_value :: "crates \<Rightarrow> secret_sources \<Rightarrow> bytes \<Rightarrow> config_error + bytes" where
  "decrypt_config_value cr src stored =
     (case (case base64_decode cr stored of
              Some bs \<Rightarrow> Some bs
            | None \<Rightarrow> if take 6 stored = ascii ''V1BUQw'' then None else Some stored) of
        None \<Rightarrow> Inl DamagedDocument
      | Some bs \<Rightarrow>
          (case decrypt_from_bytes cr src bs of
             Inl KeyPanic \<Rightarrow> Inl KeyPanic
           | Inl _ \<Rightarrow> Inl Undecryptable
           | Inr plain \<Rightarrow> Inr plain))"

section \<open>Secrets\<close>

lemma unat_byte: "unat (b :: 8 word) < 256"
  using unsigned_less [of b] by simp

lemma set_default_device_id_first_wins:
  "boot_device src = Some d \<Longrightarrow> set_default_device_id x src = src"
  by (simp add: set_default_device_id_def Let_def)

lemma hex_digit_ascii: "n < 16 \<Longrightarrow> (of_char (hex_digit n) :: nat) = (if n < 10 then 48 + n else 87 + n)"
  by (simp add: hex_digit_def)

lemma hex_value_digit: "n < 16 \<Longrightarrow> hex_value (of_nat (of_char (hex_digit n))) = Some n"
  by (simp add: hex_digit_ascii hex_value_def Let_def unat_of_nat)

lemma hex_digit_plain:
  assumes "n < 16"
  shows "\<not> is_cont (of_nat (of_char (hex_digit n)))" "(of_nat (of_char (hex_digit n)) :: 8 word) \<noteq> 43"
  using assms unfolding is_cont_def word_le_nat_alt word_unat_eq_iff
  by (auto simp: hex_digit_ascii unat_of_nat)

lemma utf8_hex_digit: "n < 16 \<Longrightarrow> utf8_bytes (hex_digit n # s) = of_nat (of_char (hex_digit n)) # utf8_bytes s"
  by (simp add: utf8_bytes_def Let_def hex_digit_ascii)

lemma utf8_hex_byte:
  "utf8_bytes (hex_byte b @ s)
    = of_nat (of_char (hex_digit (unat b div 16))) # of_nat (of_char (hex_digit (unat b mod 16))) # utf8_bytes s"
  using unat_byte [of b] by (simp add: hex_byte_def utf8_hex_digit)

lemma hex_pair_byte:
  "hex_pair (of_nat (of_char (hex_digit (unat b div 16)))) (of_nat (of_char (hex_digit (unat b mod 16)))) = Some b"
  using unat_byte [of b]
  by (simp add: hex_pair_def hex_digit_plain hex_value_digit)

text \<open>A printed key reads back, so a secret derived from a device identity has a key.\<close>

lemma hex_pairs_bytes: "hex_pairs (utf8_bytes (concat (map hex_byte bs))) = Hex bs"
proof (induction bs)
  case (Cons b bs)
  have "\<not> is_cont (hd (utf8_bytes (concat (map hex_byte bs))))" if "bs \<noteq> []"
    using that unat_byte [of "hd bs"] by (cases bs) (simp_all add: utf8_hex_byte hex_digit_plain)
  then have "\<not> (case utf8_bytes (concat (map hex_byte bs)) of [] \<Rightarrow> False | c # _ \<Rightarrow> is_cont c)"
    by (cases bs) (auto simp: utf8_bytes_def utf8_hex_byte split: list.split)
  with Cons unat_byte [of b] show ?case
    by (simp add: utf8_hex_byte hex_pair_byte hex_digit_plain)
qed (simp add: utf8_bytes_def)

lemma utf8_hex_length: "length (utf8_bytes (concat (map hex_byte bs))) = 2 * length bs"
  by (induction bs) (simp_all add: utf8_hex_byte, simp add: utf8_bytes_def)

lemma device_secret_has_key:
  "\<exists>key. derive_bindings_crypto_key cr (derive_bindings_secret_from_device_id cr d) = Inr key"
  by (simp add: derive_bindings_crypto_key_def derive_bindings_secret_from_device_id_def decode_hex_def
      utf8_hex_length hex_pairs_bytes)

text \<open>Nor does a panic come from a secret of ASCII characters.\<close>

lemma hex_pairs_ascii: "\<forall>b \<in> set s. \<not> is_cont b \<Longrightarrow> hex_pairs s \<noteq> HexPanic"
proof (induction s rule: hex_pairs.induct)
  case (1 a b r)
  then have "\<not> (case r of [] \<Rightarrow> False | c # _ \<Rightarrow> is_cont c)" by (cases r) auto
  with 1 show ?case by (cases "hex_pair a b") (auto split: hex_outcome.splits)
qed simp_all

lemma utf8_ascii: "\<forall>c \<in> set s. (of_char c :: nat) < 128 \<Longrightarrow> \<forall>b \<in> set (utf8_bytes s). \<not> is_cont b"
  by (auto simp: utf8_bytes_def Let_def is_cont_def word_le_nat_alt unat_of_nat)

lemma ascii_secret_has_key:
  "\<forall>c \<in> set secret. (of_char c :: nat) < 128 \<Longrightarrow> \<exists>key. derive_bindings_crypto_key cr secret = Inr key"
  using hex_pairs_ascii [OF utf8_ascii, of secret]
  by (auto simp: derive_bindings_crypto_key_def decode_hex_def split: hex_outcome.splits)

section \<open>The envelope\<close>

lemma envelope_shape:
  assumes "encrypt_for_save cr src nonce plain = Inr data" "length nonce = 12" "crate_laws cr"
  shows "take 4 data = WPTC_MAGIC" "33 \<le> length data" "data ! 4 = WPTC_VERSION"
    "take 12 (drop 5 data) = nonce"
    "\<exists>secret key. bindings_secret cr src = Some secret \<and> derive_bindings_crypto_key cr secret = Inr key
       \<and> aes_unseal cr key nonce (drop 17 data) = Some plain"
  using assms by (auto simp: encrypt_for_save_def crate_laws_def split: option.splits sum.splits)

lemma decrypt_own_envelope:
  assumes "encrypt_for_save cr src nonce plain = Inr data" "length nonce = 12" "crate_laws cr" "valid_utf8 plain"
  shows "decrypt_from_bytes cr src data = Inr plain"
  using envelope_shape [OF assms(1-3)] assms(4)
  by (auto simp: decrypt_from_bytes_def decrypt_wptc_binary_def decrypt_with_secret_def from_utf8_def)

lemma load_is_decrypt: "load_encrypted_or_plain cr src (Some data) = Some (decrypt_from_bytes cr src data)"
  by (simp add: load_encrypted_or_plain_def decrypt_from_bytes_def)

lemma decrypt_own_value:
  assumes "encrypt_config_value cr src nonce plain = Inr stored" "length nonce = 12" "crate_laws cr" "valid_utf8 plain"
  shows "decrypt_config_value cr src stored = Inr plain"
proof -
  from assms(1) obtain data where data: "encrypt_for_save cr src nonce plain = Inr data"
    "stored = base64_encode cr data"
    by (auto simp: encrypt_config_value_def split: sum.splits)
  with assms(3) have "base64_decode cr stored = Some data" by (simp add: crate_laws_def)
  with decrypt_own_envelope [OF data(1) assms(2-4)] show ?thesis by (simp add: decrypt_config_value_def)
qed

text \<open>
  C22: A configuration text survives storage: what \<open>encrypt_config_value\<close> wrote, with whichever nonce the generator
  drew, \<open>decrypt_config_value\<close> reads as the same text under the same sources of the secret.
\<close>

theorem configuration_roundtrip:
  assumes "crate_laws cr" "length nonce = 12" "valid_utf8 plain"
    "encrypt_config_value cr src nonce plain = Inr stored"
  shows "decrypt_config_value cr src stored = Inr plain"
  using assms(4,2,1,3) by (rule decrypt_own_value)

text \<open>A cipher that is not one, for the examples.\<close>

definition toy_crates :: crates where
  "toy_crates = \<lparr>aes_seal = (\<lambda>key nonce plain. Some (plain @ replicate 16 0)),
     aes_unseal = (\<lambda>key nonce ct. if 16 \<le> length ct then Some (take (length ct - 16) ct) else None),
     hkdf_sha256 = (\<lambda>salt ikm info. ikm), sha256 = (\<lambda>bs. bs),
     base64_encode = (\<lambda>bs. bs), base64_decode = Some,
     parse_value = (\<lambda>bs. None), parse_encrypted_doc = (\<lambda>bs. None)\<rparr>"

definition toy_sources :: secret_sources where
  "toy_sources = \<lparr>env_secret = None, env_device = None, boot_device = Some ''dev''\<rparr>"

lemma toy_laws: "crate_laws toy_crates"
  by (simp add: crate_laws_def toy_crates_def)

lemma toy_encrypts: "\<exists>data. encrypt_config_value toy_crates toy_sources nonce plain = Inr data"
proof -
  obtain key where "derive_bindings_crypto_key toy_crates (derive_bindings_secret_from_device_id toy_crates ''dev'') = Inr key"
    using device_secret_has_key by blast
  then show ?thesis
    by (simp add: encrypt_config_value_def encrypt_for_save_def bindings_secret_def nonblank_def
        toy_sources_def toy_crates_def)
qed

theorem configuration_roundtrip_witness:
  "\<exists>stored. encrypt_config_value toy_crates toy_sources (replicate 12 7) (ascii ''{}'') = Inr stored
     \<and> decrypt_config_value toy_crates toy_sources stored = Inr (ascii ''{}'')"
proof -
  have u: "valid_utf8 (ascii ''{}'')" by (simp add: ascii_def valid_utf8.simps)
  obtain stored where "encrypt_config_value toy_crates toy_sources (replicate 12 7) (ascii ''{}'') = Inr stored"
    using toy_encrypts by blast
  with configuration_roundtrip [OF toy_laws _ u this] show ?thesis by simp
qed

section \<open>Damage and keys\<close>

text \<open>Every key that a decryption may use: the secret's current key and its earlier one.\<close>

definition secret_keys :: "crates \<Rightarrow> secret_sources \<Rightarrow> bytes set" where
  "secret_keys cr src = {key. \<exists>secret. bindings_secret cr src = Some secret
     \<and> (derive_bindings_crypto_key cr secret = Inr key \<or> key = derive_bindings_crypto_key_legacy cr secret)}"

lemma decrypt_with_secret_authentic:
  assumes "decrypt_with_secret cr secret nonce ct = Inr plain" "bindings_secret cr src = Some secret"
  shows "\<exists>key \<in> secret_keys cr src. aes_unseal cr key nonce ct = Some plain"
  using assms
  by (auto simp: decrypt_with_secret_def from_utf8_def secret_keys_def split: sum.splits option.splits if_splits)

lemma decrypt_value_cases:
  assumes "decrypt_config_value cr src stored = Inr plain"
  obtains bs where "decrypt_from_bytes cr src bs = Inr plain" "base64_decode cr stored = Some bs"
  | "base64_decode cr stored = None" "decrypt_from_bytes cr src stored = Inr plain" "take 6 stored \<noteq> ascii ''V1BUQw''"
  using assms
  by (auto simp: decrypt_config_value_def split: option.splits sum.splits config_error.splits if_splits)

text \<open>
  C23: No fallback to plaintext. A stored value that decodes to an envelope (the magic bytes and a
  header) is read only by an authenticated decryption, of its own nonce and ciphertext, under a key of the configured
  secret. With another secret, with damaged bytes or without a secret, reading it is an error and never
  returns the stored bytes as if they were a configuration.
\<close>

theorem envelope_only_by_key:
  assumes "base64_decode cr stored = Some data" "take 4 data = WPTC_MAGIC" "WPTC_HEADER_LEN \<le> length data"
    "decrypt_config_value cr src stored = Inr plain"
  shows "data ! 4 = WPTC_VERSION
    \<and> (\<exists>key \<in> secret_keys cr src. aes_unseal cr key (take 12 (drop 5 data)) (drop 17 data) = Some plain)"
  using assms(4)
proof (cases rule: decrypt_value_cases)
  case (1 bs)
  with assms(1-3) have "decrypt_wptc_binary cr src data = Inr plain"
    by (auto simp: decrypt_from_bytes_def split: if_splits)
  then show ?thesis
    by (auto simp: decrypt_wptc_binary_def split: if_splits option.splits dest: decrypt_with_secret_authentic)
next
  case 2
  with assms(1) show ?thesis by simp
qed

theorem envelope_only_by_key_witness:
  "\<exists>key \<in> secret_keys toy_crates toy_sources.
     aes_unseal toy_crates key (replicate 12 7) (ascii ''{}'' @ replicate 16 0) = Some (ascii ''{}'')"
proof -
  let ?data = "WPTC_MAGIC @ [WPTC_VERSION] @ replicate 12 7 @ (ascii ''{}'' @ replicate 16 0)"
  obtain key where k: "derive_bindings_crypto_key toy_crates (derive_bindings_secret_from_device_id toy_crates ''dev'') = Inr key"
    using device_secret_has_key by blast
  have u: "valid_utf8 (ascii ''{}'')" by (simp add: ascii_def valid_utf8.simps)
  have e: "encrypt_config_value toy_crates toy_sources (replicate 12 7) (ascii ''{}'') = Inr ?data"
    using k by (simp add: encrypt_config_value_def encrypt_for_save_def bindings_secret_def nonblank_def
        toy_sources_def toy_crates_def)
  have d: "base64_decode toy_crates ?data = Some ?data" by (simp add: toy_crates_def)
  show ?thesis
    using envelope_only_by_key [OF d _ _ decrypt_own_value [OF e _ toy_laws u]] by simp
qed

text \<open>
  The fallback that remains. The comment of \<open>decrypt_config_value\<close> says that a damaged
  ciphertext must remain an error. A value cut down to fewer bytes than the header (at most sixteen, after Base64)
  is not recognised as an envelope, and its bytes come back as the configuration.
\<close>

theorem truncated_envelope_read_as_plain:
  assumes "base64_decode cr stored = Some data" "take 4 data = WPTC_MAGIC" "length data < WPTC_HEADER_LEN"
    "valid_utf8 data" "parse_value cr data = None"
  shows "decrypt_config_value cr src stored = Inr data"
proof -
  have "decrypt_from_bytes cr src data = Inr data"
    using assms(2-5) by (auto simp: decrypt_from_bytes_def from_utf8_def is_legacy_encrypted_json_def)
  with assms(1) show ?thesis by (simp add: decrypt_config_value_def)
qed

theorem truncated_envelope_read_as_plain_witness:
  "decrypt_config_value toy_crates toy_sources (WPTC_MAGIC @ [1, 7, 7]) = Inr (WPTC_MAGIC @ [1, 7, 7])"
proof -
  have u: "valid_utf8 (WPTC_MAGIC @ [1, 7, 7])" by (simp add: valid_utf8.simps)
  show ?thesis
    by (rule truncated_envelope_read_as_plain) (simp_all add: u [simplified] toy_crates_def)
qed

text \<open>
  A secret can be one that no key is ever derived from: \<open>decode_hex\<close> cuts the secret at every second byte, and when
  the secret has an even number of bytes and its second character, after an ASCII one, is not ASCII, the slice ends
  inside a character and the program panics, on every save and on every read of an envelope.
\<close>

theorem non_ascii_secret_panics:
  assumes "(of_char a :: nat) < 128" "128 \<le> (of_char c :: nat)" "even (length (utf8_bytes (a # c # rest)))"
    "nonblank (env_secret src) = Some (a # c # rest)"
  shows "encrypt_config_value cr src nonce plain = Inl KeyPanic"
proof -
  have bytes: "utf8_bytes (a # c # rest)
      = of_nat (of_char a) # of_nat (192 + of_char c div 64) # of_nat (128 + of_char c mod 64) # utf8_bytes rest"
    using assms(1,2) by (simp add: utf8_bytes_def Let_def)
  have "is_cont (of_nat (128 + of_char c mod 64))"
  proof -
    have "(of_char c :: nat) mod 64 < 64" by simp
    then show ?thesis by (simp add: is_cont_def word_le_nat_alt unat_of_nat del: of_nat_add)
  qed
  then have "hex_pairs (utf8_bytes (a # c # rest)) = HexPanic" by (simp add: bytes del: of_nat_add)
  with assms(3,4) show ?thesis
    by (simp add: encrypt_config_value_def encrypt_for_save_def bindings_secret_def
        derive_bindings_crypto_key_def decode_hex_def)
qed

theorem non_ascii_secret_panics_witness:
  "encrypt_config_value toy_crates
     \<lparr>env_secret = Some [CHR ''a'', CHR 0xE9, CHR ''b''], env_device = None, boot_device = None\<rparr>
     (replicate 12 7) (ascii ''{}'') = Inl KeyPanic"
  by (rule non_ascii_secret_panics) (simp_all add: utf8_bytes_def nonblank_def trim_def trim_by_def is_ws_def)

end
