(* ===== verification/PendingCallbacks.thy ===== *)
theory PendingCallbacks
  imports Db ConfigEnvelope "HOL-Library.List_Lexorder"
begin

text \<open>
  The saved translation results: \<open>db/pending_callbacks.rs\<close> over the table \<open>pending_callbacks\<close>, with
  \<open>private_site_key\<close> and \<open>private_json_digest\<close> of \<open>db/system.rs\<close>. A result is written, encrypted and bound to its
  unit, before it is sent to WordPress, and stays until the site has confirmed it.

  The state is the list of rows. The JSON encodings that serde derives are fields of \<open>callback_codec\<close>: nothing
  is assumed of them or of the cipher, because the code checks each write by reading it back. The random nonces of the two
  encryptions are arguments.
\<close>

section \<open>Data\<close>

record field_result =
  fr_field :: string
  fr_status :: string
  fr_content_format :: string
  fr_storage :: string
  fr_detail :: string
  fr_provider_component :: string
  fr_merge_target :: string
  fr_transform_stage :: string
  fr_fallback_reason :: string

record media_mapping =
  mm_source_id :: nat
  mm_translated_ref :: string
  mm_attachment_id :: "nat option"
  mm_source_copy :: bool

record payload =
  p_schema_version :: nat
  p_attempt_id :: string
  p_object_snapshot_hash :: string
  p_source_revision :: string
  p_policy_version :: string
  p_field_results :: "field_result list"
  p_relation_id :: nat
  p_business_line :: string
  p_object_type :: string
  p_subtype :: string
  p_object_id :: nat
  p_translated_fields :: "string \<rightharpoonup> string"
  p_translated_meta :: "string \<rightharpoonup> string"
  p_media_mappings :: "media_mapping list"
  p_media_field_sources :: "string \<rightharpoonup> nat"
  p_client_task_id :: string
  p_outbox_id :: "nat option"
  p_worker_id :: string
  p_source_lang :: string
  p_target_lang :: string
  p_execution_time_ms :: nat

record callback_entry =
  ce_api_base_url :: string
  ce_idempotency_key :: string
  ce_payload :: payload
  ce_route_secret :: "bytes option"
  ce_created_at :: nat
  ce_retry_count :: nat
  ce_last_retry_at :: nat
  ce_relation_id :: int
  ce_object_id :: int
  ce_object_type :: string

record callback_scope =
  sc_idempotency_key :: string
  sc_relation_id :: int
  sc_object_id :: int
  sc_object_type :: string
  sc_payload_digest :: string

record saved_endpoint =
  ep_api_base_url :: string
  ep_route_secret :: "bytes option"
  ep_callback_scope :: "callback_scope option"

text \<open>A row of the table; \<open>idempotency_key\<close> is its primary key.\<close>

record callback_row =
  cr_api_base_url :: string
  cr_idempotency_key :: string
  cr_payload_json :: bytes
  cr_route_secret_enc :: "bytes option"
  cr_created_at :: int
  cr_retry_count :: int
  cr_last_retry_at :: int
  cr_relation_id :: int
  cr_object_id :: int
  cr_object_type :: string

record callback_codec =
  cc_crates :: crates
  cc_sources :: secret_sources
  payload_value :: "payload \<Rightarrow> bytes json"
  print_value :: "bytes json \<Rightarrow> bytes"
  print_payload :: "payload \<Rightarrow> bytes"
  read_payload :: "bytes \<Rightarrow> payload option"
  print_endpoint :: "saved_endpoint \<Rightarrow> bytes"
  read_endpoint :: "bytes \<Rightarrow> saved_endpoint option"

definition i64_max :: nat where "i64_max = 9223372036854775807"

text \<open>\<open>unix_ts\<close>: a clock before 1970 reads as zero, and \<open>SystemTime\<close> counts seconds in an \<open>i64\<close>.\<close>

definition unix_ts :: "int \<Rightarrow> int" where
  "unix_ts now = max 0 (min (int i64_max) now)"

section \<open>Private keys and digests\<close>

definition sha256_hex :: "crates \<Rightarrow> bytes \<Rightarrow> string" where
  "sha256_hex cr bs = concat (map hex_byte (sha256 cr bs))"

definition private_site_key :: "callback_codec \<Rightarrow> string \<Rightarrow> string" where
  "private_site_key cx url = ''wptsall-site-v1:'' @ sha256_hex (cc_crates cx) (utf8_bytes url)"

fun canonicalize :: "'t::linorder json \<Rightarrow> 't json"
  and canonicalize_items :: "'t::linorder json list \<Rightarrow> 't json list"
  and canonicalize_members :: "('t::linorder \<times> 't json) list \<Rightarrow> ('t \<times> 't json) list" where
  "canonicalize (JObject ms) = JObject (sort_key fst (canonicalize_members ms))"
| "canonicalize (JArray xs) = JArray (canonicalize_items xs)"
| "canonicalize v = v"
| "canonicalize_items [] = []"
| "canonicalize_items (x # xs) = canonicalize x # canonicalize_items xs"
| "canonicalize_members [] = []"
| "canonicalize_members ((k, x) # ms) = (k, canonicalize x) # canonicalize_members ms"

definition private_json_digest :: "callback_codec \<Rightarrow> bytes json \<Rightarrow> string" where
  "private_json_digest cx v = sha256_hex (cc_crates cx) (print_value cx (canonicalize v))"

section \<open>Units\<close>

definition ascii_lower :: "char \<Rightarrow> char" where
  "ascii_lower c = (let n = of_char c :: nat in if 65 \<le> n \<and> n \<le> 90 then char_of (n + 32) else c)"

definition normalize_pending_object_type :: "string \<Rightarrow> string option" where
  "normalize_pending_object_type raw =
     (let t = map ascii_lower (trim raw) in
      if t \<in> {''term'', ''taxonomy''} then Some ''taxonomy''
      else if t \<in> {''post'', ''post_type''} then Some ''post_type''
      else if t \<in> {''language_pack'', ''option'', ''media'', ''menu'', ''custom_table''} then Some t
      else None)"

definition legacy_type :: "string \<Rightarrow> string" where
  "legacy_type t = (if t = ''post_type'' then ''post'' else if t = ''taxonomy'' then ''term'' else t)"

definition callback_scope :: "callback_codec \<Rightarrow> callback_entry \<Rightarrow> db_error + callback_scope" where
  "callback_scope cx e =
     (case normalize_pending_object_type (ce_object_type e) of
        None \<Rightarrow> Inl InvalidRequest
      | Some object_type \<Rightarrow>
          if ce_api_base_url e \<noteq> [] \<and> ce_idempotency_key e \<noteq> []
            \<and> 0 \<le> ce_relation_id e \<and> nat (ce_relation_id e) = p_relation_id (ce_payload e)
            \<and> 0 \<le> ce_object_id e \<and> nat (ce_object_id e) = p_object_id (ce_payload e)
            \<and> normalize_pending_object_type (p_object_type (ce_payload e)) = Some object_type
            \<and> ce_created_at e \<le> i64_max \<and> ce_last_retry_at e \<le> i64_max
          then Inr \<lparr>sc_idempotency_key = ce_idempotency_key e, sc_relation_id = ce_relation_id e,
            sc_object_id = ce_object_id e, sc_object_type = object_type,
            sc_payload_digest = private_json_digest cx (payload_value cx (ce_payload e))\<rparr>
          else Inl InvalidRequest)"

section \<open>Reading a row\<close>

definition sealed :: "bytes \<Rightarrow> bool" where
  "sealed v \<longleftrightarrow> take 6 v = ascii ''V1BUQw''"

definition decrypt_column :: "callback_codec \<Rightarrow> bytes \<Rightarrow> db_error + bytes" where
  "decrypt_column cx v =
     (case decrypt_config_value (cc_crates cx) (cc_sources cx) v of
        Inl KeyPanic \<Rightarrow> Inl KeyFailure
      | Inl _ \<Rightarrow> Inl DamagedRow
      | Inr plain \<Rightarrow> Inr plain)"

definition row_payload :: "callback_codec \<Rightarrow> callback_row \<Rightarrow> db_error + payload" where
  "row_payload cx r =
     (case decrypt_column cx (cr_payload_json r) of
        Inl e \<Rightarrow> Inl e
      | Inr logical \<Rightarrow> (case read_payload cx logical of None \<Rightarrow> Inl DamagedRow | Some p \<Rightarrow> Inr p))"

definition row_endpoint ::
  "callback_codec \<Rightarrow> callback_row \<Rightarrow> db_error + string \<times> bytes option \<times> callback_scope option" where
  "row_endpoint cx r =
     (if prefix ''wptsall-site-v1:'' (cr_api_base_url r)
      then case cr_route_secret_enc r of
          None \<Rightarrow> Inl DamagedRow
        | Some encrypted \<Rightarrow>
            if \<not> sealed encrypted then Inl DamagedRow
            else case decrypt_column cx encrypted of
              Inl e \<Rightarrow> Inl e
            | Inr plain \<Rightarrow>
                (case read_endpoint cx plain of
                   None \<Rightarrow> Inl DamagedRow
                 | Some ep \<Rightarrow>
                     if private_site_key cx (ep_api_base_url ep) \<noteq> cr_api_base_url r then Inl DamagedRow
                     else Inr (ep_api_base_url ep, ep_route_secret ep, ep_callback_scope ep))
      else if (case cr_route_secret_enc r of None \<Rightarrow> False | Some secret \<Rightarrow> sealed secret) then Inl DamagedRow
      else Inr (cr_api_base_url r, cr_route_secret_enc r, None))"

definition row_to_entry :: "callback_codec \<Rightarrow> callback_row \<Rightarrow> db_error + callback_entry" where
  "row_to_entry cx r =
     (case row_payload cx r of Inl e \<Rightarrow> Inl e | Inr payload \<Rightarrow>
     (case row_endpoint cx r of Inl e \<Rightarrow> Inl e | Inr (url, secret, scope) \<Rightarrow>
      if cr_created_at r < 0 \<or> cr_retry_count r < 0 \<or> int u32_max < cr_retry_count r \<or> cr_last_retry_at r < 0
      then Inl DamagedRow
      else case normalize_pending_object_type (cr_object_type r) of
        None \<Rightarrow> Inl DamagedRow
      | Some object_type \<Rightarrow>
          let entry = \<lparr>ce_api_base_url = url, ce_idempotency_key = cr_idempotency_key r,
                ce_payload = payload, ce_route_secret = secret,
                ce_created_at = nat (cr_created_at r), ce_retry_count = nat (cr_retry_count r),
                ce_last_retry_at = nat (cr_last_retry_at r), ce_relation_id = cr_relation_id r,
                ce_object_id = cr_object_id r, ce_object_type = object_type\<rparr>
          in case callback_scope cx entry of
               Inl _ \<Rightarrow> Inl DamagedRow
             | Inr actual_scope \<Rightarrow>
                 if scope \<noteq> None \<and> scope \<noteq> Some actual_scope then Inl DamagedRow else Inr entry))"

section \<open>Operations\<close>

type_synonym callback_table = "callback_row list"

text \<open>\<open>query_row(...).optional()\<close> by primary key.\<close>

definition select_by_key :: "callback_codec \<Rightarrow> string \<Rightarrow> (callback_table, callback_entry option) dbm" where
  "select_by_key cx key = execute (\<lambda>now rows.
     (case find (\<lambda>r. cr_idempotency_key r = key) rows of
        None \<Rightarrow> Inr (None, rows)
      | Some r \<Rightarrow> (case row_to_entry cx r of Inl e \<Rightarrow> Inl e | Inr entry \<Rightarrow> Inr (Some entry, rows))))"

definition unit_row :: "callback_codec \<Rightarrow> string \<Rightarrow> int \<Rightarrow> string \<Rightarrow> int \<Rightarrow> callback_row \<Rightarrow> bool" where
  "unit_row cx url rel normalized obj r \<longleftrightarrow>
     (cr_api_base_url r = private_site_key cx url \<or> cr_api_base_url r = url)
     \<and> cr_relation_id r = rel
     \<and> (cr_object_type r = normalized \<or> cr_object_type r = legacy_type normalized)
     \<and> cr_object_id r = obj"

text \<open>\<open>LIMIT 2\<close>: a second row makes the unit ambiguous.\<close>

definition unique_entry :: "(db_error + callback_entry) list \<Rightarrow> db_error + callback_entry option" where
  "unique_entry found =
     (case found of
        [] \<Rightarrow> Inr None
      | [Inl e] \<Rightarrow> Inl e
      | [Inr entry] \<Rightarrow> Inr (Some entry)
      | Inl e # _ \<Rightarrow> Inl e
      | Inr _ # Inl e # _ \<Rightarrow> Inl e
      | Inr _ # Inr _ # _ \<Rightarrow> Inl AmbiguousRow)"

definition find_pending_callback ::
  "callback_codec \<Rightarrow> string \<Rightarrow> int \<Rightarrow> string \<Rightarrow> int \<Rightarrow> (callback_table, callback_entry option) dbm" where
  "find_pending_callback cx url rel object_type obj =
     (case normalize_pending_object_type object_type of
        None \<Rightarrow> fail InvalidRequest
      | Some normalized \<Rightarrow> execute (\<lambda>now rows.
          (case unique_entry (map (row_to_entry cx) (take 2 (filter (unit_row cx url rel normalized obj) rows))) of
             Inl e \<Rightarrow> Inl e
           | Inr entry \<Rightarrow> Inr (entry, rows))))"

definition encrypt_column :: "callback_codec \<Rightarrow> bytes \<Rightarrow> bytes \<Rightarrow> (callback_table, bytes) dbm" where
  "encrypt_column cx nonce plain =
     (case encrypt_config_value (cc_crates cx) (cc_sources cx) nonce plain of
        Inl _ \<Rightarrow> fail KeyFailure
      | Inr v \<Rightarrow> ret v)"

definition insert_callback :: "callback_row \<Rightarrow> (callback_table, unit) dbm" where
  "insert_callback r = execute (\<lambda>now rows.
     if cr_idempotency_key r \<in> cr_idempotency_key ` set rows then Inl UniqueViolation
     else Inr ((), rows @ [r]))"

definition select_physical :: "string \<Rightarrow> (callback_table, callback_row) dbm" where
  "select_physical key = execute (\<lambda>now rows.
     (case find (\<lambda>r. cr_idempotency_key r = key) rows of None \<Rightarrow> Inl NoRows | Some r \<Rightarrow> Inr (r, rows)))"

definition entry_of_row :: "callback_codec \<Rightarrow> string \<Rightarrow> (callback_table, callback_entry) dbm" where
  "entry_of_row cx key = execute (\<lambda>now rows.
     (case find (\<lambda>r. cr_idempotency_key r = key) rows of
        None \<Rightarrow> Inl NoRows
      | Some r \<Rightarrow> (case row_to_entry cx r of Inl e \<Rightarrow> Inl e | Inr entry \<Rightarrow> Inr (entry, rows))))"

definition same_result :: "callback_codec \<Rightarrow> callback_entry \<Rightarrow> callback_entry \<Rightarrow> bool" where
  "same_result cx a b \<longleftrightarrow> ce_api_base_url a = ce_api_base_url b \<and> ce_route_secret a = ce_route_secret b
     \<and> callback_scope cx a = callback_scope cx b"

definition save_new_callback ::
  "callback_codec \<Rightarrow> bytes \<Rightarrow> bytes \<Rightarrow> callback_entry \<Rightarrow> callback_scope \<Rightarrow> (callback_table, unit) dbm" where
  "save_new_callback cx nonce1 nonce2 entry scope =
     bind (encrypt_column cx nonce1 (print_payload cx (ce_payload entry))) (\<lambda>payload_json.
     bind (encrypt_column cx nonce2 (print_endpoint cx
         \<lparr>ep_api_base_url = ce_api_base_url entry, ep_route_secret = ce_route_secret entry,
          ep_callback_scope = Some scope\<rparr>)) (\<lambda>endpoint.
     seq (insert_callback
         \<lparr>cr_api_base_url = private_site_key cx (ce_api_base_url entry),
          cr_idempotency_key = ce_idempotency_key entry,
          cr_payload_json = payload_json, cr_route_secret_enc = Some endpoint,
          cr_created_at = int (ce_created_at entry), cr_retry_count = int (ce_retry_count entry),
          cr_last_retry_at = int (ce_last_retry_at entry), cr_relation_id = ce_relation_id entry,
          cr_object_id = ce_object_id entry, cr_object_type = sc_object_type scope\<rparr>)
    (bind (entry_of_row cx (ce_idempotency_key entry)) (\<lambda>saved.
     bind (select_physical (ce_idempotency_key entry)) (\<lambda>physical.
     ensure (cr_payload_json physical = payload_json \<and> cr_route_secret_enc physical = Some endpoint
       \<and> same_result cx saved entry
       \<and> ce_created_at saved = ce_created_at entry \<and> ce_retry_count saved = ce_retry_count entry
       \<and> ce_last_retry_at saved = ce_last_retry_at entry) NotCommitted)))))"

definition add_pending_callback ::
  "callback_codec \<Rightarrow> bytes \<Rightarrow> bytes \<Rightarrow> callback_entry \<Rightarrow> (callback_table, unit) dbm" where
  "add_pending_callback cx nonce1 nonce2 entry =
     (case callback_scope cx entry of
        Inl e \<Rightarrow> fail e
      | Inr scope \<Rightarrow> savepoint
          (bind (select_by_key cx (ce_idempotency_key entry)) (\<lambda>existing_id.
           bind (find_pending_callback cx (ce_api_base_url entry) (ce_relation_id entry)
                   (ce_object_type entry) (ce_object_id entry)) (\<lambda>existing_unit.
           case existing_id of
             Some existing \<Rightarrow>
               ensure (same_result cx existing entry
                 \<and> map_option ce_idempotency_key existing_unit = Some (ce_idempotency_key entry)) Conflict
           | None \<Rightarrow>
               seq (ensure (existing_unit = None) Conflict)
                 (save_new_callback cx nonce1 nonce2 entry scope)))))"

definition delete_by_key :: "string \<Rightarrow> (callback_table, nat) dbm" where
  "delete_by_key key = execute (\<lambda>now rows.
     Inr (length (filter (\<lambda>r. cr_idempotency_key r = key) rows),
       filter (\<lambda>r. cr_idempotency_key r \<noteq> key) rows))"

definition remove_pending_callback ::
  "callback_codec \<Rightarrow> string \<Rightarrow> int \<Rightarrow> string \<Rightarrow> int \<Rightarrow> (callback_table, bool) dbm" where
  "remove_pending_callback cx url rel object_type obj = savepoint
     (bind (find_pending_callback cx url rel object_type obj) (\<lambda>found.
      case found of
        None \<Rightarrow> ret False
      | Some entry \<Rightarrow>
          bind (delete_by_key (ce_idempotency_key entry)) (\<lambda>affected.
          seq (ensure (affected = 1) NotCommitted) (ret True))))"

definition increment_retry_pending_callback ::
  "callback_codec \<Rightarrow> string \<Rightarrow> int \<Rightarrow> string \<Rightarrow> int \<Rightarrow> (callback_table, unit) dbm" where
  "increment_retry_pending_callback cx url rel object_type obj = savepoint
     (bind (find_pending_callback cx url rel object_type obj) (\<lambda>found.
      case found of
        None \<Rightarrow> fail NoRows
      | Some entry \<Rightarrow>
          seq (ensure (ce_retry_count entry < u32_max) CounterOverflow)
         (bind (execute (\<lambda>now rows. Inr (update_where (\<lambda>r. cr_idempotency_key r = ce_idempotency_key entry)
              (\<lambda>r. r\<lparr>cr_retry_count := cr_retry_count r + 1, cr_last_retry_at := unix_ts now\<rparr>) rows)))
            (\<lambda>affected. ensure (affected = 1) NotCommitted))))"

text \<open>The old cleanup hook.\<close>

definition cleanup_stale_pending_callbacks :: "nat \<Rightarrow> nat \<Rightarrow> (callback_table, nat) dbm" where
  "cleanup_stale_pending_callbacks max_retries max_age_secs = ret 0"

definition count_pending_for_relation :: "callback_codec \<Rightarrow> string \<Rightarrow> int \<Rightarrow> (callback_table, int) dbm" where
  "count_pending_for_relation cx url rel = query (count_where (\<lambda>r.
     (cr_api_base_url r = private_site_key cx url \<or> cr_api_base_url r = url) \<and> cr_relation_id r = rel))"

primrec collect_entries :: "(db_error + callback_entry) list \<Rightarrow> db_error + callback_entry list" where
  "collect_entries [] = Inr []"
| "collect_entries (x # xs) =
     (case x of
        Inl e \<Rightarrow> Inl e
      | Inr entry \<Rightarrow> (case collect_entries xs of Inl e \<Rightarrow> Inl e | Inr es \<Rightarrow> Inr (entry # es)))"

definition entry_unit :: "callback_entry \<Rightarrow> string \<times> int \<times> string \<times> int" where
  "entry_unit e = (ce_api_base_url e, ce_relation_id e, ce_object_type e, ce_object_id e)"

definition list_all_pending_callbacks :: "callback_codec \<Rightarrow> (callback_table, callback_entry list) dbm" where
  "list_all_pending_callbacks cx = execute (\<lambda>now rows.
     (case collect_entries (map (row_to_entry cx) (sort_key cr_created_at rows)) of
        Inl e \<Rightarrow> Inl e
      | Inr entries \<Rightarrow>
          if distinct (map entry_unit entries) then Inr (entries, rows) else Inl AmbiguousRow))"

definition continuation_authority ::
  "callback_codec \<Rightarrow> string \<Rightarrow> string \<Rightarrow> payload \<Rightarrow> bytes option \<Rightarrow> (callback_table, string \<times> bool) dbm" where
  "continuation_authority cx url key payload route_secret =
     (if i64_max < p_relation_id payload \<or> i64_max < p_object_id payload then fail InvalidRequest
      else
        bind (find_pending_callback cx url (int (p_relation_id payload)) (p_object_type payload)
               (int (p_object_id payload))) (\<lambda>found.
        case found of
          None \<Rightarrow> fail NoRows
        | Some saved \<Rightarrow>
            seq (ensure (ce_idempotency_key saved = key \<and> ce_route_secret saved = route_secret
                \<and> private_json_digest cx (payload_value cx (ce_payload saved))
                  = private_json_digest cx (payload_value cx payload)) Conflict)
           (bind (select_physical key) (\<lambda>physical.
            ret (private_json_digest cx (JObject
                  [(ascii ''endpoint'', JString (utf8_bytes (cr_api_base_url physical))),
                   (ascii ''payload'', JString (cr_payload_json physical)),
                   (ascii ''scope'', (case cr_route_secret_enc physical of None \<Rightarrow> JNull | Some v \<Rightarrow> JString v)),
                   (ascii ''identity'', JString (utf8_bytes key))]),
                cr_api_base_url physical = private_site_key cx url
                \<and> sealed (cr_payload_json physical)
                \<and> (case cr_route_secret_enc physical of None \<Rightarrow> False | Some v \<Rightarrow> sealed v))))))"

section \<open>What the reads return\<close>

lemma normalize_type_legacy:
  "normalize_pending_object_type t = Some n \<Longrightarrow> legacy_type n \<in> {''post'', ''term''} \<or> legacy_type n = n"
  by (auto simp: normalize_pending_object_type_def legacy_type_def Let_def split: if_splits)

lemma callback_scope_key: "callback_scope cx e = Inr sc \<Longrightarrow>
    sc_idempotency_key sc = ce_idempotency_key e \<and> sc_relation_id sc = ce_relation_id e
    \<and> sc_object_id sc = ce_object_id e
    \<and> normalize_pending_object_type (ce_object_type e) = Some (sc_object_type sc)"
  by (auto simp: callback_scope_def split: option.splits if_splits)

lemma row_to_entry_scope:
  assumes "row_to_entry cx r = Inr e"
  obtains sc where "callback_scope cx e = Inr sc"
  using assms by (auto simp: row_to_entry_def Let_def split: sum.splits option.splits if_splits prod.splits)

lemma row_to_entry_columns:
  "row_to_entry cx r = Inr e \<Longrightarrow> ce_idempotency_key e = cr_idempotency_key r
    \<and> ce_relation_id e = cr_relation_id r \<and> ce_object_id e = cr_object_id r
    \<and> normalize_pending_object_type (cr_object_type r) = Some (ce_object_type e)
    \<and> cr_retry_count r = int (ce_retry_count e)"
  by (auto simp: row_to_entry_def Let_def split: sum.splits option.splits if_splits prod.splits)

lemma unique_entry_simps [simp]:
  "unique_entry [] = Inr None" "unique_entry [Inl d] = Inl d" "unique_entry [Inr e] = Inr (Some e)"
  by (simp_all add: unique_entry_def)

lemma unique_entry_Inr:
  "unique_entry (map f (take 2 xs)) = Inr x \<longleftrightarrow>
     xs = [] \<and> x = None \<or> (\<exists>r e. xs = [r] \<and> f r = Inr e \<and> x = Some e)"
  by (cases xs; cases "tl xs")
    (auto simp: unique_entry_def split: sum.splits)

lemma find_pending_Inr [run_simps]:
  "find_pending_callback cx url rel ty obj env n rows = (Inr x, n', rows') \<longleftrightarrow>
     (\<exists>normalized. normalize_pending_object_type ty = Some normalized \<and> \<not> fault env n \<and> n' = Suc n \<and> rows' = rows
        \<and> (x = None \<and> filter (unit_row cx url rel normalized obj) rows = []
          \<or> (\<exists>r e. filter (unit_row cx url rel normalized obj) rows = [r] \<and> row_to_entry cx r = Inr e \<and> x = Some e)))"
  by (auto simp: find_pending_callback_def execute_Inr fail_Inr unique_entry_Inr split: option.splits sum.splits)

lemma filter_singletonD: "filter p xs = [r] \<Longrightarrow> r \<in> set xs \<and> p r"
  by (drule arg_cong [where f = set]) auto

lemma select_by_key_Inr [run_simps]:
  "select_by_key cx key env n rows = (Inr x, n', rows') \<longleftrightarrow>
     \<not> fault env n \<and> n' = Suc n \<and> rows' = rows
     \<and> (x = None \<and> key \<notin> cr_idempotency_key ` set rows
       \<or> (\<exists>r e. find (\<lambda>r. cr_idempotency_key r = key) rows = Some r \<and> row_to_entry cx r = Inr e \<and> x = Some e))"
  using find_None_iff_key [of cr_idempotency_key key rows]
  by (cases "find (\<lambda>r. cr_idempotency_key r = key) rows")
    (auto simp: select_by_key_def execute_Inr split: sum.splits)

lemma entry_of_row_Inr [run_simps]:
  "entry_of_row cx key env n rows = (Inr e, n', rows') \<longleftrightarrow>
     \<not> fault env n \<and> n' = Suc n \<and> rows' = rows
     \<and> (\<exists>r. find (\<lambda>r. cr_idempotency_key r = key) rows = Some r \<and> row_to_entry cx r = Inr e)"
  by (auto simp: entry_of_row_def execute_Inr split: option.splits sum.splits)

lemma select_physical_Inr [run_simps]:
  "select_physical key env n rows = (Inr r, n', rows') \<longleftrightarrow>
     \<not> fault env n \<and> n' = Suc n \<and> rows' = rows \<and> find (\<lambda>r. cr_idempotency_key r = key) rows = Some r"
  by (auto simp: select_physical_def execute_Inr split: option.splits)

lemma insert_callback_Inr [run_simps]:
  "insert_callback r env n rows = (Inr u, n', rows') \<longleftrightarrow>
     \<not> fault env n \<and> n' = Suc n \<and> cr_idempotency_key r \<notin> cr_idempotency_key ` set rows \<and> rows' = rows @ [r]"
  by (auto simp: insert_callback_def execute_Inr)

lemma encrypt_column_Inr [run_simps]:
  "encrypt_column cx nonce plain env n rows = (Inr v, n', rows') \<longleftrightarrow>
     encrypt_config_value (cc_crates cx) (cc_sources cx) nonce plain = Inr v \<and> n' = n \<and> rows' = rows"
  by (auto simp: encrypt_column_def run_simps split: sum.splits)

lemma delete_by_key_Inr [run_simps]:
  "delete_by_key key env n rows = (Inr k, n', rows') \<longleftrightarrow>
     \<not> fault env n \<and> n' = Suc n \<and> k = length (filter (\<lambda>r. cr_idempotency_key r = key) rows)
     \<and> rows' = filter (\<lambda>r. cr_idempotency_key r \<noteq> key) rows"
  by (auto simp: delete_by_key_def execute_Inr)

section \<open>What the operations do to the table\<close>

text \<open>A new row, as \<open>add_pending_callback\<close> builds it.\<close>

definition row_for :: "callback_codec \<Rightarrow> callback_entry \<Rightarrow> string \<Rightarrow> callback_row \<Rightarrow> bool" where
  "row_for cx entry object_type r \<longleftrightarrow>
     cr_api_base_url r = private_site_key cx (ce_api_base_url entry)
     \<and> cr_idempotency_key r = ce_idempotency_key entry \<and> cr_relation_id r = ce_relation_id entry
     \<and> cr_object_id r = ce_object_id entry \<and> cr_object_type r = object_type"

lemma find_snoc_new: "key \<notin> k ` set rows \<Longrightarrow> k r = key \<Longrightarrow> find (\<lambda>q. k q = key) (rows @ [r]) = Some r"
  by (induction rows) auto

lemma save_new_Inr:
  assumes "save_new_callback cx k1 k2 entry scope env n rows = (Inr u, n', rows')"
  shows "\<exists>r saved. rows' = rows @ [r] \<and> row_for cx entry (sc_object_type scope) r
    \<and> ce_idempotency_key entry \<notin> cr_idempotency_key ` set rows
    \<and> row_to_entry cx r = Inr saved \<and> same_result cx saved entry"
proof -
  from assms obtain v w where
    "\<exists>r saved. v = cr_payload_json r \<and> r = \<lparr>cr_api_base_url = private_site_key cx (ce_api_base_url entry),
          cr_idempotency_key = ce_idempotency_key entry,
          cr_payload_json = v, cr_route_secret_enc = Some w,
          cr_created_at = int (ce_created_at entry), cr_retry_count = int (ce_retry_count entry),
          cr_last_retry_at = int (ce_last_retry_at entry), cr_relation_id = ce_relation_id entry,
          cr_object_id = ce_object_id entry, cr_object_type = sc_object_type scope\<rparr>
       \<and> ce_idempotency_key entry \<notin> cr_idempotency_key ` set rows \<and> rows' = rows @ [r]
       \<and> row_to_entry cx r = Inr saved \<and> same_result cx saved entry"
    unfolding save_new_callback_def by (auto simp: run_simps find_snoc_new)
  then show ?thesis by (auto simp: row_for_def)
qed

lemma add_Inr:
  assumes "add_pending_callback cx k1 k2 entry env n rows = (Inr u, n', rows')"
  obtains (old) scope r e saved
    where "callback_scope cx entry = Inr scope" "rows' = rows"
      "find (\<lambda>r. cr_idempotency_key r = ce_idempotency_key entry) rows = Some r"
      "row_to_entry cx r = Inr saved" "same_result cx saved entry"
      "filter (unit_row cx (ce_api_base_url entry) (ce_relation_id entry) (sc_object_type scope) (ce_object_id entry)) rows = [e]"
      "cr_idempotency_key e = ce_idempotency_key entry"
  | (new) scope r saved
    where "callback_scope cx entry = Inr scope" "rows' = rows @ [r]"
      "row_for cx entry (sc_object_type scope) r" "ce_idempotency_key entry \<notin> cr_idempotency_key ` set rows"
      "row_to_entry cx r = Inr saved" "same_result cx saved entry"
      "filter (unit_row cx (ce_api_base_url entry) (ce_relation_id entry) (sc_object_type scope) (ce_object_id entry)) rows = []"
proof -
  from assms obtain scope where scope: "callback_scope cx entry = Inr scope"
    by (auto simp: add_pending_callback_def fail_Inr split: sum.splits)
  note ty = callback_scope_key [OF scope]
  from assms scope obtain existing_id unit n1 n2 n3 s1 s2 where
    sel: "select_by_key cx (ce_idempotency_key entry) env (Suc n) rows = (Inr existing_id, n1, s1)" and
    fnd: "find_pending_callback cx (ce_api_base_url entry) (ce_relation_id entry) (ce_object_type entry)
        (ce_object_id entry) env n1 s1 = (Inr unit, n2, s2)" and
    rest: "(case existing_id of
             Some existing \<Rightarrow>
               ensure (same_result cx existing entry
                 \<and> map_option ce_idempotency_key unit = Some (ce_idempotency_key entry)) Conflict
           | None \<Rightarrow>
               seq (ensure (unit = None) Conflict) (save_new_callback cx k1 k2 entry scope)) env n2 s2
        = (Inr u, n3, rows')"
    unfolding add_pending_callback_def by (auto simp only: savepoint_Inr bind_Inr sum.case)
  have s: "s1 = rows" "s2 = rows" using sel fnd by (auto simp: select_by_key_Inr find_pending_Inr)
  show thesis
  proof (cases existing_id)
    case None
    with rest have "unit = None" "save_new_callback cx k1 k2 entry scope env n2 rows = (Inr u, n3, rows')"
      by (auto simp: run_simps s)
    with save_new_Inr [OF this(2)] fnd [unfolded s] ty show ?thesis
      by (auto simp: find_pending_Inr intro!: new [OF scope])
  next
    case (Some existing)
    with rest have "rows' = rows" "same_result cx existing entry"
      "map_option ce_idempotency_key unit = Some (ce_idempotency_key entry)" by (auto simp: run_simps s)
    with sel [unfolded s] fnd [unfolded s] ty Some show ?thesis
      by (auto simp: find_pending_Inr select_by_key_Inr dest: row_to_entry_columns intro!: old [OF scope])
  qed
qed

text \<open>The statement deletes one row, or the operation is taken back.\<close>

lemma remove_affects:
  assumes "remove_pending_callback cx url rel ty obj env n rows = (Inr True, n', rows')"
    "normalize_pending_object_type ty = Some normalized" "filter (unit_row cx url rel normalized obj) rows = [r]"
  shows "rows' = filter (\<lambda>q. q \<noteq> r) rows"
proof -
  from assms obtain entry where e: "row_to_entry cx r = Inr entry"
      "length (filter (\<lambda>q. cr_idempotency_key q = ce_idempotency_key entry) rows) = 1"
      "rows' = filter (\<lambda>q. cr_idempotency_key q \<noteq> ce_idempotency_key entry) rows"
    unfolding remove_pending_callback_def
    by (auto simp: savepoint_Inr bind_Inr find_pending_Inr delete_by_key_def run_simps split: option.splits)
  from e(2) obtain q where one: "filter (\<lambda>q. cr_idempotency_key q = ce_idempotency_key entry) rows = [q]"
    by (auto simp: length_Suc_conv)
  from filter_singletonD [OF assms(3)] row_to_entry_columns [OF e(1)]
  have "r \<in> set (filter (\<lambda>q. cr_idempotency_key q = ce_idempotency_key entry) rows)" by auto
  with one have "q = r" by simp
  have "{p \<in> set rows. cr_idempotency_key p = ce_idempotency_key entry} = {r}"
    using arg_cong [OF one [unfolded \<open>q = r\<close>], of set] by simp
  then have "p \<in> set rows \<Longrightarrow> cr_idempotency_key p = ce_idempotency_key entry \<longleftrightarrow> p = r" for p by blast
  with e(3) show ?thesis by (auto intro: filter_cong)
qed

lemma remove_Inr:
  assumes "remove_pending_callback cx url rel ty obj env n rows = (Inr b, n', rows')"
  shows "(b \<longleftrightarrow> rows' \<noteq> rows) \<and> (\<exists>normalized. normalize_pending_object_type ty = Some normalized \<and>
    (\<not> b \<and> filter (unit_row cx url rel normalized obj) rows = [] \<and> rows' = rows
     \<or> b \<and> (\<exists>r. filter (unit_row cx url rel normalized obj) rows = [r]
          \<and> rows' = filter (\<lambda>q. cr_idempotency_key q \<noteq> cr_idempotency_key r) rows)))"
proof -
  from assms obtain normalized where ty: "normalize_pending_object_type ty = Some normalized"
    by (auto simp: remove_pending_callback_def run_simps)
  have changed: "filter (\<lambda>q. cr_idempotency_key q \<noteq> cr_idempotency_key r) rows \<noteq> rows"
    if "filter (unit_row cx url rel normalized obj) rows = [r]" for r
    using filter_singletonD [OF that] by (auto simp: filter_id_conv)
  obtain found n1 where
    fnd: "find_pending_callback cx url rel ty obj env (Suc n) rows = (Inr found, n1, rows)" and
    rest: "(case found of None \<Rightarrow> b = False \<and> rows' = rows
      | Some entry \<Rightarrow> b \<and> rows' = filter (\<lambda>r. cr_idempotency_key r \<noteq> ce_idempotency_key entry) rows)"
    using assms unfolding remove_pending_callback_def
    by (auto simp: savepoint_Inr bind_Inr find_pending_Inr run_simps split: option.splits)
  show ?thesis
  proof (cases found)
    case None
    with fnd rest ty show ?thesis by (auto simp: find_pending_Inr)
  next
    case (Some entry)
    with fnd ty obtain r where r: "filter (unit_row cx url rel normalized obj) rows = [r]" "row_to_entry cx r = Inr entry"
      by (auto simp: find_pending_Inr)
    with row_to_entry_columns [OF r(2)] rest Some changed [OF r(1)] ty show ?thesis by auto
  qed
qed

lemma increment_Inr:
  assumes "increment_retry_pending_callback cx url rel ty obj env n rows = (Inr u, n', rows')"
  shows "\<exists>normalized r e now. normalize_pending_object_type ty = Some normalized
    \<and> filter (unit_row cx url rel normalized obj) rows = [r] \<and> row_to_entry cx r = Inr e \<and> ce_retry_count e < u32_max
    \<and> rows' = map (\<lambda>q. if cr_idempotency_key q = cr_idempotency_key r
        then q\<lparr>cr_retry_count := cr_retry_count q + 1, cr_last_retry_at := unix_ts now\<rparr> else q) rows"
proof -
  let ?now = "clock env (Suc (Suc n))"
  obtain entry n1 where
    fnd: "find_pending_callback cx url rel ty obj env (Suc n) rows = (Inr (Some entry), n1, rows)" and
    rest: "ce_retry_count entry < u32_max"
      "rows' = map (\<lambda>q. if cr_idempotency_key q = ce_idempotency_key entry
        then q\<lparr>cr_retry_count := cr_retry_count q + 1, cr_last_retry_at := unix_ts ?now\<rparr> else q) rows"
    using assms unfolding increment_retry_pending_callback_def
    by (auto simp: savepoint_Inr bind_Inr find_pending_Inr run_simps update_where_def split: option.splits)
  then obtain normalized r where r: "normalize_pending_object_type ty = Some normalized"
      "filter (unit_row cx url rel normalized obj) rows = [r]" "row_to_entry cx r = Inr entry"
    by (auto simp: find_pending_Inr)
  with rest row_to_entry_columns [OF r(3)] show ?thesis by auto
qed

section \<open>The store\<close>

datatype callback_op =
    Save bytes bytes callback_entry
  | Confirm string int string int
  | Retried string int string int
  | Cleanup nat nat
  | FindSaved string int string int
  | CountSaved string int
  | ListSaved
  | Continue string string payload "bytes option"

fun callback_step :: "callback_codec \<Rightarrow> callback_op \<Rightarrow> (callback_table, unit) dbm" where
  "callback_step cx (Save nonce1 nonce2 entry) = add_pending_callback cx nonce1 nonce2 entry"
| "callback_step cx (Confirm url rel ty obj) = discard (remove_pending_callback cx url rel ty obj)"
| "callback_step cx (Retried url rel ty obj) = increment_retry_pending_callback cx url rel ty obj"
| "callback_step cx (Cleanup a b) = discard (cleanup_stale_pending_callbacks a b)"
| "callback_step cx (FindSaved url rel ty obj) = discard (find_pending_callback cx url rel ty obj)"
| "callback_step cx (CountSaved url rel) = discard (count_pending_for_relation cx url rel)"
| "callback_step cx ListSaved = discard (list_all_pending_callbacks cx)"
| "callback_step cx (Continue url key p secret) = discard (continuation_authority cx url key p secret)"

lemma select_physical_state: "select_physical key env n rows = (r, n', rows') \<Longrightarrow> rows' = rows"
  by (auto simp: select_physical_def execute_def split: if_splits option.splits)

lemma find_pending_state: "find_pending_callback cx url rel ty obj env n rows = (r, n', rows') \<Longrightarrow> rows' = rows"
  by (auto simp: find_pending_callback_def execute_def fail_def split: if_splits option.splits sum.splits)

lemma continuation_state: "continuation_authority cx url key p secret env n rows = (r, n', rows') \<Longrightarrow> rows' = rows"
  by (auto simp: continuation_authority_def bind_def seq_def ensure_def ret_def fail_def
      split: if_splits prod.splits sum.splits option.splits
      dest!: find_pending_state select_physical_state)

lemma list_all_state: "list_all_pending_callbacks cx env n rows = (r, n', rows') \<Longrightarrow> rows' = rows"
  by (auto simp: list_all_pending_callbacks_def execute_def split: if_splits sum.splits)

lemma discard_state: "(\<And>r n' s'. m env n s = (r, n', s') \<Longrightarrow> s' = s) \<Longrightarrow> discard m env n s = (r, n', s') \<Longrightarrow> s' = s"
  by (auto simp: discard_def bind_def ret_def split: prod.splits sum.splits)

lemma add_abort: "add_pending_callback cx k1 k2 entry env n rows = (Inl e, n', rows') \<Longrightarrow> rows' = rows"
  by (auto simp: add_pending_callback_def fail_def split: sum.splits dest: atomicD [OF atomic_savepoint])

lemma callback_abort: "callback_step cx x env n rows = (Inl e, n', rows') \<Longrightarrow> rows' = rows"
  by (cases x)
    (auto simp: discard_Inl remove_pending_callback_def increment_retry_pending_callback_def
      cleanup_stale_pending_callbacks_def ret_def count_pending_for_relation_def
      dest: add_abort atomicD [OF atomic_savepoint] atomicD [OF atomic_query] find_pending_state
        list_all_state continuation_state)

text \<open>How a committed operation changes the table: a row is added, removed or counted.\<close>

lemma callback_commit:
  assumes "callback_step cx x env n rows = (Inr u, n', rows')"
  obtains (same) "rows' = rows"
  | (saved) k1 k2 entry where "x = Save k1 k2 entry" "add_pending_callback cx k1 k2 entry env n rows = (Inr (), n', rows')"
  | (confirmed) url rel ty obj normalized p where "x = Confirm url rel ty obj"
      "normalize_pending_object_type ty = Some normalized" "filter (unit_row cx url rel normalized obj) rows = [p]"
      "rows' = filter (\<lambda>q. q \<noteq> p) rows"
  | (retried) r e now where "r \<in> set rows" "row_to_entry cx r = Inr e" "ce_retry_count e < u32_max"
      "rows' = map (\<lambda>q. if cr_idempotency_key q = cr_idempotency_key r
        then q\<lparr>cr_retry_count := cr_retry_count q + 1, cr_last_retry_at := unix_ts now\<rparr> else q) rows"
  using assms
proof (cases x)
  case (Confirm url rel ty obj)
  with assms obtain b where "remove_pending_callback cx url rel ty obj env n rows = (Inr b, n', rows')"
    by (auto simp: discard_Inr)
  from remove_Inr [OF this] remove_affects [of cx url rel ty obj env n rows n' rows'] this Confirm same confirmed
  show ?thesis by (metis (full_types))
next
  case (Retried url rel ty obj)
  with assms have "increment_retry_pending_callback cx url rel ty obj env n rows = (Inr u, n', rows')" by simp
  from increment_Inr [OF this] retried show ?thesis by (blast dest: filter_singletonD)
qed (auto simp: discard_Inr cleanup_stale_pending_callbacks_def count_pending_for_relation_def run_simps
    intro: same saved dest: find_pending_state list_all_state continuation_state)

text \<open>
  The invariant: keys are unique, no unit of a site has two rows, and every row can be read back, with its
  endpoint and result bound to it.
\<close>

definition canonical_type :: "string \<Rightarrow> string" where
  "canonical_type t = (if t = ''post'' then ''post_type'' else if t = ''term'' then ''taxonomy'' else t)"

definition row_unit :: "callback_row \<Rightarrow> string \<times> int \<times> string \<times> int" where
  "row_unit r = (cr_api_base_url r, cr_relation_id r, canonical_type (cr_object_type r), cr_object_id r)"

definition readable :: "callback_codec \<Rightarrow> callback_row \<Rightarrow> bool" where
  "readable cx r \<longleftrightarrow> (\<exists>e. row_to_entry cx r = Inr e)"

definition callback_inv :: "callback_codec \<Rightarrow> callback_table \<Rightarrow> bool" where
  "callback_inv cx rows \<longleftrightarrow> distinct (map cr_idempotency_key rows) \<and> distinct (map row_unit rows)
     \<and> (\<forall>r \<in> set rows. readable cx r)"

lemma row_for_unit:
  assumes "row_for cx entry ty r" "normalize_pending_object_type t = Some ty"
    "filter (unit_row cx (ce_api_base_url entry) (ce_relation_id entry) ty (ce_object_id entry)) rows = []"
  shows "row_unit r \<notin> row_unit ` set rows"
proof
  assume "row_unit r \<in> row_unit ` set rows"
  then obtain q where q: "q \<in> set rows" "row_unit q = row_unit r" by force
  have "canonical_type ty = ty"
    using assms(2) by (auto simp: normalize_pending_object_type_def canonical_type_def Let_def split: if_splits)
  with q assms(1,2) have "unit_row cx (ce_api_base_url entry) (ce_relation_id entry) ty (ce_object_id entry) q"
    by (auto simp: row_for_def row_unit_def unit_row_def canonical_type_def legacy_type_def split: if_splits)
  with q(1) assms(3) show False by (auto simp: filter_empty_conv)
qed

lemma distinct_map_filter_keep: "distinct (map f xs) \<Longrightarrow> distinct (map f (filter p xs))"
  by (auto simp: distinct_map inj_on_def)

lemma in_set_single_filter: "filter p xs = [y] \<Longrightarrow> x \<in> set xs \<Longrightarrow> \<not> p x \<Longrightarrow> x \<noteq> y"
  by (auto dest: filter_singletonD)

lemma map_eq_image: "map f xs = map f ys \<Longrightarrow> f ` set xs = f ` set ys"
  by (metis set_map)

lemma row_to_entry_Inr:
  "row_to_entry cx r = Inr e \<longleftrightarrow> (\<exists>p url secret scope ty actual.
     row_payload cx r = Inr p \<and> row_endpoint cx r = Inr (url, secret, scope)
     \<and> 0 \<le> cr_created_at r \<and> 0 \<le> cr_retry_count r \<and> cr_retry_count r \<le> int u32_max \<and> 0 \<le> cr_last_retry_at r
     \<and> normalize_pending_object_type (cr_object_type r) = Some ty
     \<and> e = \<lparr>ce_api_base_url = url, ce_idempotency_key = cr_idempotency_key r, ce_payload = p, ce_route_secret = secret,
          ce_created_at = nat (cr_created_at r), ce_retry_count = nat (cr_retry_count r),
          ce_last_retry_at = nat (cr_last_retry_at r), ce_relation_id = cr_relation_id r,
          ce_object_id = cr_object_id r, ce_object_type = ty\<rparr>
     \<and> callback_scope cx e = Inr actual \<and> (scope = None \<or> scope = Some actual))"
  by (auto simp: row_to_entry_def Let_def not_less split: sum.splits option.splits prod.splits)

lemma callback_scope_counted:
  assumes "callback_scope cx e = Inr sc" "t \<le> i64_max"
  shows "callback_scope cx (e\<lparr>ce_retry_count := k, ce_last_retry_at := t\<rparr>) = Inr sc"
  using assms by (auto simp: callback_scope_def split: option.splits if_splits)

lemma readable_retried:
  assumes "row_to_entry cx r = Inr e" "ce_retry_count e < u32_max"
  shows "readable cx (r\<lparr>cr_retry_count := cr_retry_count r + 1, cr_last_retry_at := unix_ts now\<rparr>)"
proof -
  have t: "0 \<le> unix_ts now" "nat (unix_ts now) \<le> i64_max" by (auto simp: unix_ts_def)
  have c: "0 \<le> cr_retry_count r" "cr_retry_count r < int u32_max"
    using row_to_entry_columns [OF assms(1)] assms(2) by auto
  let ?r = "r\<lparr>cr_retry_count := cr_retry_count r + 1, cr_last_retry_at := unix_ts now\<rparr>"
  let ?e = "e\<lparr>ce_retry_count := nat (cr_retry_count r + 1), ce_last_retry_at := nat (unix_ts now)\<rparr>"
  have same: "row_payload cx ?r = row_payload cx r" "row_endpoint cx ?r = row_endpoint cx r"
    by (auto simp: row_payload_def row_endpoint_def split: option.split sum.split)
  from assms(1) obtain actual where act: "callback_scope cx e = Inr actual"
    unfolding row_to_entry_Inr by blast
  from act callback_scope_counted [OF act t(2)] assms(1) t c have "row_to_entry cx ?r = Inr ?e"
    unfolding row_to_entry_Inr same by auto
  then show ?thesis by (auto simp: readable_def)
qed

lemma callback_inv_add:
  assumes "callback_inv cx rows" "add_pending_callback cx k1 k2 entry env n rows = (Inr u, n', rows')"
  shows "callback_inv cx rows'"
  using assms(2)
proof (cases rule: add_Inr)
  case (old scope r e saved)
  with assms(1) show ?thesis by simp
next
  case (new scope r saved)
  have "row_unit r \<notin> row_unit ` set rows"
    using callback_scope_key [OF new(1)] by (intro row_for_unit [OF new(3) _ new(7)]) auto
  moreover have "cr_idempotency_key r \<notin> cr_idempotency_key ` set rows"
    using new(3,4) by (simp add: row_for_def)
  moreover have "readable cx r" using new(5) by (auto simp: readable_def)
  ultimately show ?thesis using assms(1) by (auto simp: callback_inv_def new(2))
qed

lemma map_if_key:
  "(\<And>q. k (f q) = k q) \<Longrightarrow> map k (map (\<lambda>q. if p q then f q else q) xs) = map k xs"
  by auto

lemma callback_inv_commit: "triple (callback_inv cx) (callback_step cx x) (\<lambda>_. callback_inv cx)"
proof -
  have "callback_inv cx rows'" if inv: "callback_inv cx rows"
    and run: "callback_step cx x env n rows = (Inr u, n', rows')" for env n rows u n' rows'
    using run
  proof (cases rule: callback_commit)
    case same
    with inv show ?thesis by simp
  next
    case (saved k1 k2 entry)
    from inv saved(2) show ?thesis by (rule callback_inv_add)
  next
    case (confirmed url rel ty obj normalized p)
    with inv show ?thesis by (auto simp: callback_inv_def distinct_map_filter_keep)
  next
    case (retried r e now)
    have same: "q = r" if "q \<in> set rows" "cr_idempotency_key q = cr_idempotency_key r" for q
      using inv that retried(1) by (auto simp: callback_inv_def dest: distinct_key_eq)
    have "map cr_idempotency_key rows' = map cr_idempotency_key rows" "map row_unit rows' = map row_unit rows"
      by (simp_all add: retried(4) row_unit_def)
    moreover have "readable cx q" if "q \<in> set rows'" for q
      using that inv readable_retried [OF retried(2,3), of now]
      by (auto simp: retried(4) callback_inv_def dest: same)
    ultimately show ?thesis using inv by (simp add: callback_inv_def)
  qed
  then show ?thesis by (auto simp: triple_def)
qed

interpretation saved_results: checked_store "callback_step cx" "callback_inv cx" for cx
  by unfold_locales (auto intro: callback_abort callback_inv_commit)

text \<open>
  C21: Whatever sequence of operations the client runs on its saved results, and at whichever statements they
  fail, the table stays sound: every idempotency key has one row, every unit of a site has one row, and every
  row can be decrypted, parsed and is bound to its own unit, so that listing them at start-up finds no damaged row.
\<close>

theorem saved_results_sound:
  "callback_inv cx (run_ops (callback_step cx) env ops n [])"
  by (rule saved_results.run_keeps) (simp add: callback_inv_def)

section \<open>No result is lost\<close>

text \<open>The part of a row that holds the result.\<close>

definition result_of_row :: "callback_row \<Rightarrow> string \<times> string \<times> bytes \<times> bytes option \<times> int \<times> int \<times> string" where
  "result_of_row r = (cr_idempotency_key r, cr_api_base_url r, cr_payload_json r, cr_route_secret_enc r,
     cr_relation_id r, cr_object_id r, cr_object_type r)"

text \<open>The confirmation of the unit of a row: the only operation that may take this row away.\<close>

fun confirms_unit :: "callback_codec \<Rightarrow> callback_row \<Rightarrow> callback_op \<Rightarrow> bool" where
  "confirms_unit cx r (Confirm url rel ty obj) =
     (case normalize_pending_object_type ty of
        None \<Rightarrow> False
      | Some normalized \<Rightarrow> unit_row cx url rel normalized obj r)"
| "confirms_unit cx r _ = False"

lemma confirms_unit_result: "result_of_row q = result_of_row r \<Longrightarrow> confirms_unit cx q x = confirms_unit cx r x"
  by (cases x) (auto simp: result_of_row_def unit_row_def split: option.split)

lemma step_keeps_results:
  assumes "callback_step cx x env n rows = (r, n', rows')" "q \<in> set rows" "\<not> confirms_unit cx q x"
  shows "result_of_row q \<in> result_of_row ` set rows'"
proof (cases r)
  case (Inl e)
  with assms callback_abort [of cx x env n rows e n' rows'] show ?thesis by blast
next
  case (Inr u)
  with assms(1) have "callback_step cx x env n rows = (Inr u, n', rows')" by simp
  then show ?thesis
  proof (cases rule: callback_commit)
    case (saved k1 k2 entry)
    from saved(2) assms(2) show ?thesis by (cases rule: add_Inr) auto
  next
    case (confirmed url rel ty obj normalized p)
    with assms(2,3) have "q \<in> set rows'" by (auto simp: in_set_single_filter)
    then show ?thesis by simp
  next
    case (retried q e now)
    have "map result_of_row rows' = map result_of_row rows" by (simp add: retried(4) result_of_row_def)
    from map_eq_image [OF this] assms(2) show ?thesis by auto
  qed (use assms(2) in auto)
qed

text \<open>
  C12: A saved result is only ever deleted by the confirmation of its own unit. Through any sequence of saves, retries,
  clean-ups, listings, continuations and confirmations of other units, with faults at any statement and retry counters
  of any size, the key, the endpoint, the encrypted payload and the unit of the row stay in the table unchanged.
\<close>

theorem result_kept_until_confirmed:
  assumes "list_all (\<lambda>x. \<not> confirms_unit cx r x) ops" "r \<in> set rows"
  shows "result_of_row r \<in> result_of_row ` set (run_ops (callback_step cx) env ops n rows)"
  using assms
proof (induction ops arbitrary: n rows r)
  case (Cons x ops)
  obtain res n' rows' where run: "callback_step cx x env n rows = (res, n', rows')" by (metis prod_cases3)
  from step_keeps_results [OF this Cons.prems(2)] Cons.prems(1)
  obtain q where q: "q \<in> set rows'" "result_of_row q = result_of_row r" by force
  from Cons.prems(1) have "list_all (\<lambda>x. \<not> confirms_unit cx q x) ops"
    by (simp add: confirms_unit_result [OF q(2)])
  from Cons.IH [OF this q(1), of n'] q(2) run show ?case by simp
qed simp

text \<open>A codec over the cipher of the examples, which carries one payload.\<close>

definition sample_payload :: payload where
  "sample_payload = \<lparr>p_schema_version = 1, p_attempt_id = [], p_object_snapshot_hash = [], p_source_revision = [],
     p_policy_version = [], p_field_results = [], p_relation_id = 4, p_business_line = ''posts'',
     p_object_type = ''post_type'', p_subtype = ''page'', p_object_id = 9, p_translated_fields = Map.empty,
     p_translated_meta = Map.empty, p_media_mappings = [], p_media_field_sources = Map.empty,
     p_client_task_id = ''t'', p_outbox_id = None, p_worker_id = ''w'', p_source_lang = ''en'', p_target_lang = ''de'',
     p_execution_time_ms = 12\<rparr>"

definition sample_entry :: callback_entry where
  "sample_entry = \<lparr>ce_api_base_url = ''u'', ce_idempotency_key = ''k'', ce_payload = sample_payload,
     ce_route_secret = None, ce_created_at = 7, ce_retry_count = 0, ce_last_retry_at = 0,
     ce_relation_id = 4, ce_object_id = 9, ce_object_type = ''post''\<rparr>"

definition sample_scope :: callback_scope where
  "sample_scope = \<lparr>sc_idempotency_key = ''k'', sc_relation_id = 4, sc_object_id = 9,
     sc_object_type = ''post_type'', sc_payload_digest = []\<rparr>"

definition sample_codec :: callback_codec where
  "sample_codec = \<lparr>
     cc_crates = toy_crates\<lparr>sha256 := (\<lambda>bs. []), hkdf_sha256 := (\<lambda>salt ikm info. []),
       aes_seal := (\<lambda>key nonce plain. Some (replicate 16 0 @ plain)),
       aes_unseal := (\<lambda>key nonce ct. Some (drop 16 ct)),
       base64_encode := (\<lambda>bs. ascii ''V1BUQw'' @ bs), base64_decode := (\<lambda>bs. Some (drop 6 bs))\<rparr>,
     cc_sources = toy_sources, payload_value = (\<lambda>p. JNull), print_value = (\<lambda>v. []),
     print_payload = (\<lambda>p. []), read_payload = (\<lambda>bs. Some sample_payload),
     print_endpoint = (\<lambda>ep. []),
     read_endpoint = (\<lambda>bs. Some \<lparr>ep_api_base_url = ''u'', ep_route_secret = None, ep_callback_scope = Some sample_scope\<rparr>)\<rparr>"

definition sample_row :: callback_row where
  "sample_row = \<lparr>cr_api_base_url = ''wptsall-site-v1:'', cr_idempotency_key = ''k'',
     cr_payload_json = ascii ''V1BUQw'' @ WPTC_MAGIC @ [WPTC_VERSION] @ replicate 12 7 @ replicate 16 0,
     cr_route_secret_enc = Some (ascii ''V1BUQw'' @ WPTC_MAGIC @ [WPTC_VERSION] @ replicate 12 7 @ replicate 16 0),
     cr_created_at = 7, cr_retry_count = 0, cr_last_retry_at = 0, cr_relation_id = 4, cr_object_id = 9,
     cr_object_type = ''post_type''\<rparr>"

lemma sample_secret: "bindings_secret (cc_crates sample_codec) (cc_sources sample_codec) = Some []"
  by (simp add: sample_codec_def bindings_secret_def nonblank_def toy_sources_def toy_crates_def
      derive_bindings_secret_from_device_id_def)

lemma sample_key: "derive_bindings_crypto_key (cc_crates sample_codec) [] = Inr []"
  by (simp add: derive_bindings_crypto_key_def decode_hex_def utf8_bytes_def sample_codec_def toy_crates_def)

lemma sample_types:
  "normalize_pending_object_type ''post'' = Some ''post_type''"
  "normalize_pending_object_type ''post_type'' = Some ''post_type''"
  by (simp_all add: normalize_pending_object_type_def trim_def trim_by_def is_ws_def ascii_lower_def)

lemma sample_decrypts:
  "decrypt_column sample_codec (ascii ''V1BUQw'' @ WPTC_MAGIC @ [WPTC_VERSION] @ replicate 12 7 @ replicate 16 0) = Inr []"
proof -
  have "decrypt_from_bytes (cc_crates sample_codec) (cc_sources sample_codec)
      (WPTC_MAGIC @ [WPTC_VERSION] @ replicate 12 7 @ replicate 16 0) = Inr []"
    by (simp add: decrypt_from_bytes_def decrypt_wptc_binary_def sample_secret decrypt_with_secret_def sample_key)
      (simp add: sample_codec_def from_utf8_def valid_utf8.simps)
  then show ?thesis
    by (simp add: decrypt_column_def decrypt_config_value_def ascii_def)
      (simp add: sample_codec_def)
qed

lemma sample_encrypts:
  "encrypt_config_value (cc_crates sample_codec) (cc_sources sample_codec) (replicate 12 7) []
    = Inr (ascii ''V1BUQw'' @ WPTC_MAGIC @ [WPTC_VERSION] @ replicate 12 7 @ replicate 16 0)"
  by (simp add: encrypt_config_value_def encrypt_for_save_def sample_secret sample_key)
    (simp add: sample_codec_def)

lemma sample_scope_of:
  "callback_scope sample_codec sample_entry = Inr sample_scope"
  "callback_scope sample_codec (sample_entry\<lparr>ce_object_type := ''post_type''\<rparr>) = Inr sample_scope"
  by (simp_all add: callback_scope_def sample_entry_def sample_types sample_payload_def i64_max_def
      sample_scope_def private_json_digest_def sha256_hex_def sample_codec_def)

lemma sample_site: "private_site_key sample_codec url = ''wptsall-site-v1:''"
  by (simp add: private_site_key_def sha256_hex_def sample_codec_def)

lemma sample_reads:
  "read_endpoint sample_codec v
    = Some \<lparr>ep_api_base_url = ''u'', ep_route_secret = None, ep_callback_scope = Some sample_scope\<rparr>"
  by (simp add: sample_codec_def)

lemma sample_readable:
  "row_to_entry sample_codec sample_row = Inr (sample_entry\<lparr>ce_object_type := ''post_type''\<rparr>)"
proof -
  have p: "row_payload sample_codec sample_row = Inr sample_payload"
    unfolding row_payload_def sample_row_def callback_row.select_convs sample_decrypts by (simp add: sample_codec_def)
  have e: "row_endpoint sample_codec sample_row = Inr (''u'', None, Some sample_scope)"
    unfolding row_endpoint_def sample_row_def callback_row.select_convs option.case sample_decrypts
    by (simp add: sealed_def ascii_def sample_site sample_reads)
  have "sample_entry\<lparr>ce_object_type := ''post_type''\<rparr>
      = \<lparr>ce_api_base_url = ''u'', ce_idempotency_key = cr_idempotency_key sample_row, ce_payload = sample_payload,
          ce_route_secret = None, ce_created_at = nat (cr_created_at sample_row),
          ce_retry_count = nat (cr_retry_count sample_row), ce_last_retry_at = nat (cr_last_retry_at sample_row),
          ce_relation_id = cr_relation_id sample_row, ce_object_id = cr_object_id sample_row,
          ce_object_type = ''post_type''\<rparr>"
    by (simp add: sample_row_def sample_entry_def)
  moreover have "0 \<le> cr_created_at sample_row" "cr_retry_count sample_row = 0" "cr_last_retry_at sample_row = 0"
    "normalize_pending_object_type (cr_object_type sample_row) = Some ''post_type''"
    by (simp_all add: sample_row_def sample_types)
  ultimately show ?thesis
    using p e sample_scope_of(2) by (auto simp: row_to_entry_Inr)
qed

text \<open>
  A saved result is found. When \<open>add_pending_callback\<close> has returned without an error, the look-up of the unit
  returns, unless the database fails, an entry with the same endpoint, the same secret and the same scope (its identity,
  its unit and the digest of its payload). This rests on no property of the cipher or of the encodings: a
  write that would not read back is not committed.
\<close>

theorem saved_result_found:
  assumes "distinct (map cr_idempotency_key rows)"
    "add_pending_callback cx nonce1 nonce2 entry env n rows = (Inr (), n', rows')" "\<not> fault env' m"
  shows "\<exists>saved. find_pending_callback cx (ce_api_base_url entry) (ce_relation_id entry) (ce_object_type entry)
      (ce_object_id entry) env' m rows' = (Inr (Some saved), Suc m, rows') \<and> same_result cx saved entry"
  using assms(2)
proof (cases rule: add_Inr)
  case (old scope r e saved)
  from old(3) have "r \<in> set rows" "cr_idempotency_key r = ce_idempotency_key entry" by (auto dest: find_SomeD)
  moreover from filter_singletonD [OF old(6)] have "e \<in> set rows" by simp
  ultimately have "e = r" using assms(1) old(7) by (auto dest: distinct_key_eq)
  with old callback_scope_key [OF old(1)] assms(3) show ?thesis by (auto simp: find_pending_Inr)
next
  case (new scope r saved)
  have "unit_row cx (ce_api_base_url entry) (ce_relation_id entry) (sc_object_type scope) (ce_object_id entry) r"
    using new(3) by (simp add: row_for_def unit_row_def)
  with new callback_scope_key [OF new(1)] assms(3) show ?thesis by (auto simp: find_pending_Inr)
qed

lemma sample_add:
  "add_pending_callback sample_codec (replicate 12 7) (replicate 12 7) sample_entry (calm 5) 0 [] = (Inr (), 7, [sample_row])"
proof -
  have [simp]: "print_payload sample_codec p = []" "print_endpoint sample_codec q = []" for p q
    by (simp_all add: sample_codec_def)
  have "sample_row = \<lparr>cr_api_base_url = private_site_key sample_codec (ce_api_base_url sample_entry),
          cr_idempotency_key = ce_idempotency_key sample_entry,
          cr_payload_json = cr_payload_json sample_row, cr_route_secret_enc = cr_route_secret_enc sample_row,
          cr_created_at = int (ce_created_at sample_entry), cr_retry_count = int (ce_retry_count sample_entry),
          cr_last_retry_at = int (ce_last_retry_at sample_entry), cr_relation_id = ce_relation_id sample_entry,
          cr_object_id = ce_object_id sample_entry, cr_object_type = sc_object_type sample_scope\<rparr>"
    by (simp add: sample_row_def sample_entry_def sample_scope_def sample_site)
  then show ?thesis
    unfolding add_pending_callback_def save_new_callback_def sample_scope_of
    using sample_readable sample_scope_of
    by (simp add: dbm_simps select_by_key_def find_pending_callback_def sample_types sample_entry_def
       encrypt_column_def sample_encrypts insert_callback_def entry_of_row_def select_physical_def
       same_result_def sample_row_def)
qed

theorem saved_result_found_witness:
  "\<exists>saved. find_pending_callback sample_codec ''u'' 4 ''post'' 9 (calm 6) 0 [sample_row]
     = (Inr (Some saved), 1, [sample_row]) \<and> same_result sample_codec saved sample_entry"
  using saved_result_found [OF _ sample_add, of "calm 6" 0] by (simp add: sample_entry_def)

theorem result_kept_until_confirmed_witness:
  "result_of_row sample_row \<in> result_of_row ` set (run_ops (callback_step sample_codec) (calm 5)
     [Retried ''u'' 4 ''post'' 9, Confirm ''u'' 4 ''post'' 10, Confirm ''u'' 5 ''post'' 9, Cleanup 0 0, ListSaved] 0 [sample_row])"
  by (rule result_kept_until_confirmed) (simp_all add: sample_types unit_row_def sample_row_def)

end
