(* ===== verification/Translations.thy ===== *)
theory Translations
  imports Db "HOL-Library.Product_Lexorder"
begin

text \<open>
  The translation history and the retry queue: \<open>db/translations.rs\<close> over \<open>translation_records\<close> and
  \<open>retry_queue\<close>. Row ids come from AUTOINCREMENT sequences; the JSON column of the component ids holds the list
  itself. \<open>LIKE\<close> is SQLite's: per cent and underscore are wildcards and ASCII letters match in either case.
  The aggregations for the statistics pages are not modelled.
\<close>

section \<open>Rows\<close>

record translation_record =
  t_id :: int
  t_created_at :: int
  t_domain :: string
  t_relation_id :: "int option"
  t_object_id :: "int option"
  t_object_type :: "string option"
  t_business_line :: "string option"
  t_source_lang :: string
  t_target_lang :: string
  t_status :: string
  t_execution_ms :: "int option"
  t_worker_id :: "string option"
  t_idempotency_key :: "string option"
  t_callback_sent_at :: "int option"
  t_callback_retries :: int
  t_fields_count :: int
  t_error_message :: "string option"
  t_component_ids :: "string list"
  t_media_mappings_count :: int
  t_failed_fields_count :: int
  t_primary_failure_reason :: "string option"

record insert_record =
  n_domain :: string
  n_relation_id :: "int option"
  n_object_id :: "int option"
  n_object_type :: "string option"
  n_business_line :: "string option"
  n_source_lang :: string
  n_target_lang :: string
  n_status :: string
  n_execution_ms :: "int option"
  n_worker_id :: "string option"
  n_idempotency_key :: "string option"
  n_fields_count :: int
  n_error_message :: "string option"
  n_component_ids :: "string list"
  n_media_mappings_count :: int
  n_failed_fields_count :: int
  n_primary_failure_reason :: "string option"

record retry_entry =
  y_id :: int
  y_domain :: string
  y_relation_id :: int
  y_object_id :: int
  y_object_type :: string
  y_business_line :: string
  y_source_lang :: string
  y_target_lang :: string
  y_created_at :: int
  y_status :: string

record history_db =
  records :: "translation_record list"
  retries :: "retry_entry list"
  next_record_id :: int
  next_retry_id :: int

definition empty_history :: history_db where
  "empty_history = \<lparr>records = [], retries = [], next_record_id = 1, next_retry_id = 1\<rparr>"

text \<open>The UNIQUE constraint of the retry queue.\<close>

definition retry_key :: "retry_entry \<Rightarrow> string \<times> int \<times> string \<times> int" where
  "retry_key y = (y_domain y, y_relation_id y, y_object_type y, y_object_id y)"

section \<open>Records\<close>

definition new_record :: "insert_record \<Rightarrow> int \<Rightarrow> int \<Rightarrow> translation_record" where
  "new_record q k now =
     \<lparr>t_id = k, t_created_at = now, t_domain = n_domain q, t_relation_id = n_relation_id q,
      t_object_id = n_object_id q, t_object_type = n_object_type q, t_business_line = n_business_line q,
      t_source_lang = n_source_lang q, t_target_lang = n_target_lang q, t_status = n_status q,
      t_execution_ms = n_execution_ms q, t_worker_id = n_worker_id q,
      t_idempotency_key = n_idempotency_key q, t_callback_sent_at = None, t_callback_retries = 0,
      t_fields_count = n_fields_count q, t_error_message = n_error_message q,
      t_component_ids = n_component_ids q, t_media_mappings_count = n_media_mappings_count q,
      t_failed_fields_count = n_failed_fields_count q, t_primary_failure_reason = n_primary_failure_reason q\<rparr>"

definition record_exists :: "(translation_record \<Rightarrow> bool) \<Rightarrow> (history_db, bool) dbm" where
  "record_exists p = query (\<lambda>s. list_ex p (records s))"

definition insert_translation_record :: "insert_record \<Rightarrow> (history_db, int) dbm" where
  "insert_translation_record q =
     bind (execute (\<lambda>now s. Inr (next_record_id s,
         s\<lparr>records := records s @ [new_record q (next_record_id s) now], next_record_id := next_record_id s + 1\<rparr>)))
       (\<lambda>k. bind (record_exists (\<lambda>r. t_id r = k)) (\<lambda>found. seq (ensure found NotCommitted) (ret k)))"

definition update_records :: "int \<Rightarrow> (int \<Rightarrow> translation_record \<Rightarrow> translation_record) \<Rightarrow> (history_db, nat) dbm" where
  "update_records k f = execute (\<lambda>now s.
     (case update_where (\<lambda>r. t_id r = k) (f now) (records s) of
        (changed, rows) \<Rightarrow> Inr (changed, s\<lparr>records := rows\<rparr>)))"

definition update_translation_status :: "int \<Rightarrow> string \<Rightarrow> string option \<Rightarrow> (history_db, unit) dbm" where
  "update_translation_status k status err =
     bind (update_records k (\<lambda>now r. r\<lparr>t_status := status, t_error_message := err\<rparr>)) (\<lambda>_. ret ())"

definition mark_callback_sent :: "int \<Rightarrow> (history_db, unit) dbm" where
  "mark_callback_sent k =
     bind now_ts (\<lambda>now.
     bind (update_records k (\<lambda>_ r. r\<lparr>t_callback_sent_at := Some now, t_status := ''success''\<rparr>)) (\<lambda>changed.
     seq (ensure (changed = 1) NotCommitted)
    (bind (record_exists (\<lambda>r. t_id r = k \<and> t_status r = ''success'' \<and> t_callback_sent_at r = Some now)) (\<lambda>found.
     ensure found NotCommitted))))"

definition increment_callback_retries :: "int \<Rightarrow> (history_db, unit) dbm" where
  "increment_callback_retries k =
     bind (update_records k (\<lambda>now r. r\<lparr>t_callback_retries := t_callback_retries r + 1\<rparr>)) (\<lambda>_. ret ())"

text \<open>\<open>has_materialized_success_record_checked\<close>; the JSON text of an empty list is \<open>[]\<close>.\<close>

definition materialized :: "string \<Rightarrow> int \<Rightarrow> int \<Rightarrow> string \<Rightarrow> translation_record \<Rightarrow> bool" where
  "materialized domain rel obj ty r \<longleftrightarrow>
     t_domain r = domain \<and> t_relation_id r = Some rel \<and> t_object_id r = Some obj \<and> t_object_type r = Some ty
     \<and> t_status r = ''success''
     \<and> (t_callback_sent_at r \<noteq> None \<or> 0 < t_fields_count r \<or> 0 < t_media_mappings_count r \<or> t_component_ids r \<noteq> [])"

definition has_materialized_success_record_checked ::
  "string \<Rightarrow> int \<Rightarrow> int \<Rightarrow> string \<Rightarrow> (history_db, bool) dbm" where
  "has_materialized_success_record_checked domain rel obj ty = record_exists (materialized domain rel obj ty)"

section \<open>Queries\<close>

text \<open>\<open>LIKE\<close>.\<close>

definition fold_case :: "char \<Rightarrow> char" where
  "fold_case c = (let n = of_char c :: nat in if 65 \<le> n \<and> n \<le> 90 then char_of (n + 32) else c)"

fun sql_like :: "string \<Rightarrow> string \<Rightarrow> bool" where
  "sql_like [] s = (s = [])"
| "sql_like (c # pat) s =
     (if c = CHR ''%'' then list_ex (\<lambda>k. sql_like pat (drop k s)) [0..<Suc (length s)]
      else case s of
        [] \<Rightarrow> False
      | d # rest \<Rightarrow> (c = CHR ''_'' \<or> fold_case c = fold_case d) \<and> sql_like pat rest)"

definition opt_like :: "string \<Rightarrow> string option \<Rightarrow> bool" where
  "opt_like pat v = (case v of None \<Rightarrow> False | Some s \<Rightarrow> sql_like pat s)"

record query_params =
  w_page :: nat
  w_limit :: nat
  w_domain :: "string option"
  w_status :: "string option"
  w_search :: "string option"

record list_result =
  l_records :: "translation_record list"
  l_total :: int
  l_page :: nat
  l_limit :: nat

definition condition :: "string option \<Rightarrow> (string \<Rightarrow> bool) \<Rightarrow> bool" where
  "condition v p = (case v of None \<Rightarrow> True | Some s \<Rightarrow> s = [] \<or> p s)"

definition query_matches :: "query_params \<Rightarrow> translation_record \<Rightarrow> bool" where
  "query_matches w r \<longleftrightarrow>
     condition (w_domain w) (\<lambda>d. t_domain r = d)
     \<and> condition (w_status w) (\<lambda>st. t_status r = st)
     \<and> condition (w_search w) (\<lambda>x. let pat = CHR ''%'' # x @ ''%'' in
          sql_like pat (t_domain r) \<or> opt_like pat (t_object_type r) \<or> opt_like pat (t_business_line r))"

definition effective_page :: "query_params \<Rightarrow> nat" where
  "effective_page w = max (w_page w) 1"

definition effective_limit :: "query_params \<Rightarrow> nat" where
  "effective_limit w = (if w_limit w = 0 then 20 else min (w_limit w) 100)"

text \<open>\<open>ORDER BY created_at DESC, id DESC\<close>.\<close>

definition newest_first :: "translation_record list \<Rightarrow> translation_record list" where
  "newest_first rs = sort_key (\<lambda>r. (- t_created_at r, - t_id r)) rs"

text \<open>\<open>LIMIT ... OFFSET\<close>; the offset of two 32-bit numbers does not overflow 64 bits.\<close>

definition query_translation_records :: "query_params \<Rightarrow> (history_db, list_result) dbm" where
  "query_translation_records w =
     bind (query (\<lambda>s. count_where (query_matches w) (records s))) (\<lambda>total.
     bind (query (\<lambda>s. take (effective_limit w) (drop ((effective_page w - 1) * effective_limit w)
             (newest_first (filter (query_matches w) (records s)))))) (\<lambda>rows.
     ret \<lparr>l_records = rows, l_total = total, l_page = effective_page w, l_limit = effective_limit w\<rparr>))"

definition get_translation_record_by_id :: "int \<Rightarrow> (history_db, translation_record option) dbm" where
  "get_translation_record_by_id k = query (\<lambda>s. find (\<lambda>r. t_id r = k) (records s))"

text \<open>The cutoff is 64-bit arithmetic, which wraps in a release build.\<close>

definition prune_cutoff :: "int \<Rightarrow> int \<Rightarrow> int" where
  "prune_cutoff now max_age_days = signed_take_bit 63 (now - signed_take_bit 63 (max_age_days * 86400))"

definition prune_old_records :: "int \<Rightarrow> (history_db, nat) dbm" where
  "prune_old_records max_age_days = execute (\<lambda>now s.
     (let old = (\<lambda>r. t_created_at r < prune_cutoff now max_age_days) in
      Inr (length (filter old (records s)), s\<lparr>records := filter (\<lambda>r. \<not> old r) (records s)\<rparr>)))"

definition prune_old_retries :: "int \<Rightarrow> (history_db, nat) dbm" where
  "prune_old_retries max_age_days = execute (\<lambda>now s.
     (let old = (\<lambda>y. y_status y = ''done'' \<and> y_created_at y < prune_cutoff now max_age_days) in
      Inr (length (filter old (retries s)), s\<lparr>retries := filter (\<lambda>y. \<not> old y) (retries s)\<rparr>)))"

section \<open>The retry queue\<close>

definition normalize_retry_object_type :: "string \<Rightarrow> string" where
  "normalize_retry_object_type raw =
     (if raw \<in> {''term'', ''taxonomy''} then ''taxonomy''
      else if raw \<in> {''post'', ''post_type''} then ''post_type''
      else if raw \<noteq> [] then raw
      else ''post_type'')"

definition positive_id :: "int option \<Rightarrow> int option" where
  "positive_id v = (case v of None \<Rightarrow> None | Some k \<Rightarrow> if 0 < k then Some k else None)"

definition select_retry :: "string \<times> int \<times> string \<times> int \<Rightarrow> (history_db, retry_entry option) dbm" where
  "select_retry key = query (\<lambda>s. find (\<lambda>y. retry_key y = key) (retries s))"

definition or_empty :: "string option \<Rightarrow> string" where
  "or_empty v = (case v of None \<Rightarrow> [] | Some s \<Rightarrow> s)"

text \<open>\<open>INSERT ... ON CONFLICT DO UPDATE ... WHERE status='done'\<close>, with the number of changed rows.\<close>

definition upsert_retry :: "string \<times> int \<times> string \<times> int \<Rightarrow> translation_record \<Rightarrow> int \<Rightarrow> (history_db, nat) dbm" where
  "upsert_retry key r now = execute (\<lambda>_ s.
     (case find (\<lambda>y. retry_key y = key) (retries s) of
        None \<Rightarrow> Inr (1, s\<lparr>retries := retries s @
            [\<lparr>y_id = next_retry_id s, y_domain = fst key, y_relation_id = fst (snd key),
              y_object_id = snd (snd (snd key)), y_object_type = fst (snd (snd key)),
              y_business_line = or_empty (t_business_line r), y_source_lang = t_source_lang r,
              y_target_lang = t_target_lang r, y_created_at = now, y_status = ''pending''\<rparr>],
            next_retry_id := next_retry_id s + 1\<rparr>)
      | Some y \<Rightarrow>
          if y_status y = ''done''
          then (case update_where (\<lambda>y. retry_key y = key)
              (\<lambda>y. y\<lparr>y_business_line := or_empty (t_business_line r), y_source_lang := t_source_lang r,
                 y_target_lang := t_target_lang r, y_created_at := now, y_status := ''pending''\<rparr>) (retries s) of
                (changed, rows) \<Rightarrow> Inr (changed, s\<lparr>retries := rows\<rparr>))
          else Inr (0, s)))"

definition retry_exists :: "(retry_entry \<Rightarrow> bool) \<Rightarrow> (history_db, bool) dbm" where
  "retry_exists p = query (\<lambda>s. list_ex p (retries s))"

definition same_retry_scope :: "translation_record \<Rightarrow> retry_entry \<Rightarrow> bool" where
  "same_retry_scope r y \<longleftrightarrow> y_business_line y = or_empty (t_business_line r)
     \<and> y_source_lang y = t_source_lang r \<and> y_target_lang y = t_target_lang r"

definition insert_retry_queue_entry :: "translation_record \<Rightarrow> (history_db, bool) dbm" where
  "insert_retry_queue_entry r = savepoint
     (case (positive_id (t_relation_id r), positive_id (t_object_id r)) of
        (Some relation, Some obj) \<Rightarrow>
          (let key = (t_domain r, relation,
                 normalize_retry_object_type (case t_object_type r of None \<Rightarrow> ''post'' | Some ty \<Rightarrow> ty), obj) in
           bind (select_retry key) (\<lambda>existing.
           seq (case existing of
                  None \<Rightarrow> ret ()
                | Some y \<Rightarrow> ensure (y_status y \<in> {''pending'', ''done''}) DamagedRow)
          (if (case existing of None \<Rightarrow> False | Some y \<Rightarrow> y_status y = ''pending'')
           then seq (ensure (case existing of None \<Rightarrow> False | Some y \<Rightarrow> same_retry_scope r y) Conflict) (ret False)
           else
             bind now_ts (\<lambda>now.
             bind (upsert_retry key r now) (\<lambda>changed.
             seq (ensure (changed = 1) NotCommitted)
            (bind (retry_exists (\<lambda>y. retry_key y = key \<and> same_retry_scope r y
                 \<and> y_created_at y = now \<and> y_status y = ''pending'')) (\<lambda>found.
             seq (ensure found NotCommitted) (ret True))))))))
      | _ \<Rightarrow> fail InvalidRequest)"

text \<open>\<open>ORDER BY created_at ASC LIMIT 50\<close>.\<close>

definition get_pending_retries :: "string \<Rightarrow> int \<Rightarrow> (history_db, retry_entry list) dbm" where
  "get_pending_retries domain rel = query (\<lambda>s. take 50 (sort_key y_created_at
     (filter (\<lambda>y. y_domain y = domain \<and> y_relation_id y = rel \<and> y_status y = ''pending'') (retries s))))"

primrec queue_failed :: "int list \<Rightarrow> (history_db, nat) dbm" where
  "queue_failed [] = ret 0"
| "queue_failed (k # ks) =
     bind (get_translation_record_by_id k) (\<lambda>found.
     bind (case found of
             Some r \<Rightarrow>
               if t_status r = ''failed'' \<and> t_relation_id r \<noteq> None \<and> t_object_id r \<noteq> None
               then insert_retry_queue_entry r else ret False
           | None \<Rightarrow> ret False) (\<lambda>queued.
     bind (queue_failed ks) (\<lambda>rest. ret ((if queued then 1 else 0) + rest))))"

definition batch_retry_translations :: "int list \<Rightarrow> (history_db, nat) dbm" where
  "batch_retry_translations ids =
     seq (ensure (list_all (\<lambda>k. 0 < k) ids) InvalidRequest) (savepoint (queue_failed ids))"

text \<open>\<open>slice::chunks\<close>.\<close>

function chunked :: "nat \<Rightarrow> 'a list \<Rightarrow> 'a list list" where
  "chunked n xs = (if xs = [] \<or> n = 0 then [] else take n xs # chunked n (drop n xs))"
  by pat_completeness auto
termination by (relation "measure (\<lambda>(n, xs). length xs)") auto

declare chunked.simps [simp del]

primrec delete_chunks :: "int list list \<Rightarrow> (history_db, nat) dbm" where
  "delete_chunks [] = ret 0"
| "delete_chunks (ks # rest) =
     bind (query (\<lambda>s. length (filter (\<lambda>r. t_id r \<in> set ks) (records s)))) (\<lambda>expected.
     bind (execute (\<lambda>now s. Inr (length (filter (\<lambda>r. t_id r \<in> set ks) (records s)),
             s\<lparr>records := filter (\<lambda>r. t_id r \<notin> set ks) (records s)\<rparr>))) (\<lambda>deleted.
     seq (ensure (deleted = expected) NotCommitted)
    (bind (record_exists (\<lambda>r. t_id r \<in> set ks)) (\<lambda>remains.
     seq (ensure (\<not> remains) NotCommitted)
    (bind (delete_chunks rest) (\<lambda>total. ret (deleted + total)))))))"

definition batch_delete_translations :: "int list \<Rightarrow> (history_db, nat) dbm" where
  "batch_delete_translations ids =
     seq (ensure (list_all (\<lambda>k. 0 < k) ids) InvalidRequest)
       (savepoint (delete_chunks (chunked 500 (sort (remdups ids)))))"

definition mark_retry_done :: "string \<Rightarrow> int \<Rightarrow> string \<Rightarrow> int \<Rightarrow> (history_db, unit) dbm" where
  "mark_retry_done domain rel object_type obj = savepoint
     (let key = (domain, rel, normalize_retry_object_type object_type, obj) in
      bind (select_retry key) (\<lambda>original.
      if (case original of None \<Rightarrow> True | Some y \<Rightarrow> y_status y = ''done'') then ret ()
      else
        seq (ensure (case original of None \<Rightarrow> False | Some y \<Rightarrow> y_status y = ''pending'') DamagedRow)
       (bind (execute (\<lambda>now s.
           (case update_where (\<lambda>y. retry_key y = key \<and> y_status y = ''pending'') (\<lambda>y. y\<lparr>y_status := ''done''\<rparr>) (retries s) of
              (changed, rows) \<Rightarrow> Inr (changed, s\<lparr>retries := rows\<rparr>)))) (\<lambda>changed.
        seq (ensure (changed = 1) NotCommitted)
       (bind (retry_exists (\<lambda>y. retry_key y = key \<and> y_status y = ''done'')) (\<lambda>found.
        ensure found NotCommitted))))))"

section \<open>Pages\<close>

lemma concat_pages: "concat (map (\<lambda>k. take n (drop (k * n) xs)) [0..<m]) = take (m * n) xs"
proof (induction m)
  case (Suc m)
  have "take (Suc m * n) xs = take (m * n) xs @ take n (drop (m * n) xs)"
    by (metis add.commute mult_Suc take_add)
  with Suc show ?case by simp
qed simp

lemma newest_first_set [simp]: "set (newest_first rs) = set rs" "length (newest_first rs) = length rs"
  by (simp_all add: newest_first_def)

lemma query_records_run:
  "query_translation_records w (calm t) n s =
     (Inr \<lparr>l_records = take (effective_limit w) (drop ((effective_page w - 1) * effective_limit w)
          (newest_first (filter (query_matches w) (records s)))),
        l_total = count_where (query_matches w) (records s), l_page = effective_page w,
        l_limit = effective_limit w\<rparr>, Suc (Suc n), s)"
  by (simp add: query_translation_records_def dbm_simps)

text \<open>The records of one page, and the total that every page reports.\<close>

definition page_of :: "query_params \<Rightarrow> history_db \<Rightarrow> nat \<Rightarrow> translation_record list" where
  "page_of w s p = (case fst (query_translation_records (w\<lparr>w_page := p\<rparr>) (calm 0) 0 s) of
     Inl e \<Rightarrow> [] | Inr res \<Rightarrow> l_records res)"

definition total_of :: "query_params \<Rightarrow> history_db \<Rightarrow> int" where
  "total_of w s = (case fst (query_translation_records w (calm 0) 0 s) of Inl e \<Rightarrow> 0 | Inr res \<Rightarrow> l_total res)"

lemma query_matches_page [simp]: "query_matches (w\<lparr>w_page := p\<rparr>) = query_matches w"
  "effective_limit (w\<lparr>w_page := p\<rparr>) = effective_limit w" "effective_page (w\<lparr>w_page := p\<rparr>) = max p 1"
  by (auto simp: query_matches_def effective_limit_def effective_page_def fun_eq_iff)

lemma page_of_Suc:
  "page_of w s (Suc p) = take (effective_limit w) (drop (p * effective_limit w)
     (newest_first (filter (query_matches w) (records s))))"
  by (simp add: page_of_def query_records_run)

text \<open>
  The pages of the history list are a partition of it: pages one to m, where m pages hold at least the
  reported total, requested with the same filters, are in sequence exactly the matching records, newest first.
\<close>

theorem history_pages_complete:
  assumes "total_of w s \<le> int (m * effective_limit w)"
  shows "concat (map (page_of w s) (map Suc [0..<m])) = newest_first (filter (query_matches w) (records s))"
proof -
  have "length (newest_first (filter (query_matches w) (records s))) \<le> m * effective_limit w"
    using assms by (simp add: total_of_def query_records_run count_where_def flip: of_nat_mult)
  then show ?thesis
    by (simp add: comp_def page_of_Suc concat_pages)
qed

section \<open>The retry queue\<close>

lemma record_exists_Inr [run_simps]:
  "record_exists p env n s = (Inr b, n', s') \<longleftrightarrow> \<not> fault env n \<and> b = list_ex p (records s) \<and> s' = s \<and> n' = Suc n"
  by (simp add: record_exists_def query_Inr)

lemma retry_exists_Inr [run_simps]:
  "retry_exists p env n s = (Inr b, n', s') \<longleftrightarrow> \<not> fault env n \<and> b = list_ex p (retries s) \<and> s' = s \<and> n' = Suc n"
  by (simp add: retry_exists_def query_Inr)

lemma select_retry_Inr [run_simps]:
  "select_retry key env n s = (Inr x, n', s') \<longleftrightarrow>
     \<not> fault env n \<and> x = find (\<lambda>y. retry_key y = key) (retries s) \<and> s' = s \<and> n' = Suc n"
  by (simp add: select_retry_def query_Inr)

definition record_retry_key :: "translation_record \<Rightarrow> string \<times> int \<times> string \<times> int" where
  "record_retry_key r = (t_domain r, the (t_relation_id r),
     normalize_retry_object_type (case t_object_type r of None \<Rightarrow> ''post'' | Some ty \<Rightarrow> ty), the (t_object_id r))"

lemma positive_id_Some: "positive_id v = Some k \<longleftrightarrow> v = Some k \<and> 0 < k"
  by (auto simp: positive_id_def split: option.splits if_splits)

text \<open>What a committed enqueue did, by the entry it met.\<close>

lemma insert_retry_Inr:
  assumes "insert_retry_queue_entry r env n s = (Inr b, n', s')"
  obtains (kept) y where "\<not> b" "s' = s" "find (\<lambda>y. retry_key y = record_retry_key r) (retries s) = Some y"
      "y_status y = ''pending''" "same_retry_scope r y"
  | (new) now y where "b" "find (\<lambda>y. retry_key y = record_retry_key r) (retries s) = None"
      "retry_key y = record_retry_key r" "y_id y = next_retry_id s" "y_status y = ''pending''" "same_retry_scope r y"
      "y_created_at y = now"
      "s' = s\<lparr>retries := retries s @ [y], next_retry_id := next_retry_id s + 1\<rparr>"
  | (again) now y where "b" "find (\<lambda>y. retry_key y = record_retry_key r) (retries s) = Some y" "y_status y = ''done''"
      "s' = s\<lparr>retries := map (\<lambda>y. if retry_key y = record_retry_key r
         then y\<lparr>y_business_line := or_empty (t_business_line r), y_source_lang := t_source_lang r,
                 y_target_lang := t_target_lang r, y_created_at := now, y_status := ''pending''\<rparr> else y) (retries s)\<rparr>"
proof -
  from assms obtain rel obj where ids: "t_relation_id r = Some rel" "t_object_id r = Some obj" "0 < rel" "0 < obj"
    by (auto simp: insert_retry_queue_entry_def run_simps positive_id_Some split: option.splits)
  let ?key = "record_retry_key r"
  have key: "(t_domain r, rel, normalize_retry_object_type
      (case t_object_type r of None \<Rightarrow> ''post'' | Some ty \<Rightarrow> ty), obj) = ?key"
    by (simp add: record_retry_key_def ids)
  have pos: "positive_id (t_relation_id r) = Some rel" "positive_id (t_object_id r) = Some obj"
    using ids by (simp_all add: positive_id_def)
  obtain existing where ex: "existing = find (\<lambda>y. retry_key y = ?key) (retries s)" by simp
  note run = assms [unfolded insert_retry_queue_entry_def pos prod.case option.case Let_def key]
  show thesis
  proof (cases existing)
    case None
    with run show ?thesis
      by (auto simp: run_simps upsert_retry_def ex record_retry_key_def ids retry_key_def same_retry_scope_def
          intro!: new)
  next
    case (Some y)
    show ?thesis
    proof (cases "y_status y = ''pending''")
      case True
      with run Some show ?thesis by (auto simp: run_simps ex intro!: kept)
    next
      case False
      with run Some show ?thesis by (auto simp: run_simps upsert_retry_def ex update_where_def intro!: again)
    qed
  qed
qed

lemma mark_done_Inr:
  assumes "mark_retry_done domain rel ty obj env n s = (Inr u, n', s')"
  shows "s' = s \<or> s' = s\<lparr>retries := map (\<lambda>y. if retry_key y = (domain, rel, normalize_retry_object_type ty, obj)
    \<and> y_status y = ''pending'' then y\<lparr>y_status := ''done''\<rparr> else y) (retries s)\<rparr>"
  using assms
  by (auto simp: mark_retry_done_def run_simps update_where_def Let_def split: option.splits if_splits)

lemma delete_chunks_Inr:
  "delete_chunks kss env n s = (Inr tot, n', s') \<Longrightarrow>
     s' = s\<lparr>records := filter (\<lambda>r. t_id r \<notin> set (concat kss)) (records s)\<rparr>
     \<and> tot = length (filter (\<lambda>r. t_id r \<in> set (concat kss)) (records s))"
proof (induction kss arbitrary: n s tot)
  case (Cons ks kss)
  let ?s = "s\<lparr>records := filter (\<lambda>r. t_id r \<notin> set ks) (records s)\<rparr>"
  from Cons.prems obtain n1 rest where "delete_chunks kss env n1 ?s = (Inr rest, n', s')"
    "tot = length (filter (\<lambda>r. t_id r \<in> set ks) (records s)) + rest"
    by (auto simp: run_simps)
  with Cons.IH [OF this(1)] have s': "s' = s\<lparr>records := filter (\<lambda>r. t_id r \<notin> set (concat kss)) (filter (\<lambda>r. t_id r \<notin> set ks) (records s))\<rparr>"
    and t: "tot = length (filter (\<lambda>r. t_id r \<in> set ks) (records s))
      + length (filter (\<lambda>r. t_id r \<in> set (concat kss)) (filter (\<lambda>r. t_id r \<notin> set ks) (records s)))"
    by simp_all
  have "length (filter (\<lambda>r. t_id r \<in> set ks) rs) + length (filter (\<lambda>r. t_id r \<in> set (concat kss) \<and> t_id r \<notin> set ks) rs)
      = length (filter (\<lambda>r. t_id r \<in> set (concat (ks # kss))) rs)" for rs :: "translation_record list"
    by (induction rs) auto
  then show ?case unfolding s' t by (auto simp: conj_commute intro!: arg_cong [where f = "\<lambda>rs. s\<lparr>records := rs\<rparr>"] filter_cong)
qed (simp add: run_simps)

lemma concat_chunked: "0 < n \<Longrightarrow> concat (chunked n xs) = xs"
proof (induction n xs rule: chunked.induct)
  case (1 n xs)
  then show ?case by (subst chunked.simps) auto
qed

lemma batch_delete_Inr:
  assumes "batch_delete_translations ids env n s = (Inr tot, n', s')"
  shows "s' = s\<lparr>records := filter (\<lambda>r. t_id r \<notin> set ids) (records s)\<rparr>
    \<and> tot = length (filter (\<lambda>r. t_id r \<in> set ids) (records s))"
proof -
  from assms obtain m m' where "delete_chunks (chunked 500 (sort (remdups ids))) env m s = (Inr tot, m', s')"
    by (auto simp: batch_delete_translations_def run_simps)
  from delete_chunks_Inr [OF this] show ?thesis by (simp add: concat_chunked)
qed

section \<open>The store\<close>

datatype history_op =
    Enqueue translation_record
  | BatchRetry "int list"
  | BatchDelete "int list"
  | RetryDone string int string int
  | PruneRecords int
  | PruneRetries int
  | SetStatus int string "string option"
  | CountRetry int

fun history_step :: "history_op \<Rightarrow> (history_db, unit) dbm" where
  "history_step (Enqueue r) = discard (insert_retry_queue_entry r)"
| "history_step (BatchRetry ids) = discard (batch_retry_translations ids)"
| "history_step (BatchDelete ids) = discard (batch_delete_translations ids)"
| "history_step (RetryDone domain rel ty obj) = mark_retry_done domain rel ty obj"
| "history_step (PruneRecords d) = discard (prune_old_records d)"
| "history_step (PruneRetries d) = discard (prune_old_retries d)"
| "history_step (SetStatus k status err) = update_translation_status k status err"
| "history_step (CountRetry k) = increment_callback_retries k"

definition history_inv :: "history_db \<Rightarrow> bool" where
  "history_inv s \<longleftrightarrow> distinct (map t_id (records s)) \<and> (\<forall>r \<in> set (records s). t_id r < next_record_id s)
     \<and> distinct (map retry_key (retries s)) \<and> (\<forall>y \<in> set (retries s). y_status y \<in> {''pending'', ''done''})"

text \<open>A step that leaves one of the two tables to its own rule.\<close>

definition grows :: "history_db \<Rightarrow> history_db \<Rightarrow> bool" where
  "grows s s' \<longleftrightarrow> records s' = records s \<and> next_record_id s' = next_record_id s
     \<and> (\<forall>y \<in> set (retries s). y_status y = ''pending'' \<longrightarrow> y \<in> set (retries s'))
     \<and> (history_inv s \<longrightarrow> history_inv s')"

lemma grows_refl [simp]: "grows s s"
  by (simp add: grows_def)

lemma grows_retries:
  assumes "map retry_key rows = map retry_key (retries s)"
    "\<And>y. y \<in> set rows \<Longrightarrow> y_status y \<in> {''pending'', ''done''}"
    "\<And>y. y \<in> set (retries s) \<Longrightarrow> y_status y = ''pending'' \<Longrightarrow> y \<in> set rows"
  shows "grows s (s\<lparr>retries := rows\<rparr>)"
  using assms by (auto simp: grows_def history_inv_def)

lemma insert_retry_grows:
  assumes "insert_retry_queue_entry r env n s = (Inr b, n', s')" "history_inv s"
  shows "grows s s'"
  using assms(1)
proof (cases rule: insert_retry_Inr)
  case (new now y)
  then have "record_retry_key r \<notin> retry_key ` set (retries s)" by (auto simp: find_None_iff)
  with new assms(2) show ?thesis by (auto simp: grows_def history_inv_def)
next
  case (again now y)
  let ?f = "\<lambda>y. if retry_key y = record_retry_key r
         then y\<lparr>y_business_line := or_empty (t_business_line r), y_source_lang := t_source_lang r,
                 y_target_lang := t_target_lang r, y_created_at := now, y_status := ''pending''\<rparr> else y"
  have keys: "map retry_key (map ?f (retries s)) = map retry_key (retries s)" by (simp add: retry_key_def)
  have fixed: "?f q = q" if "q \<in> set (retries s)" "y_status q = ''pending''" for q
  proof -
    from again(2) have "y \<in> set (retries s)" "retry_key y = record_retry_key r" by (auto dest: find_SomeD)
    with that again(3) assms(2) have "retry_key q \<noteq> record_retry_key r"
      by (auto simp: history_inv_def dest: distinct_key_eq)
    then show ?thesis by simp
  qed
  have pend: "q \<in> set (map ?f (retries s))" if "q \<in> set (retries s)" "y_status q = ''pending''" for q
    using image_eqI [of q ?f q "set (retries s)"] fixed [OF that] that(1) by (simp only: set_map)
  have st: "y_status q \<in> {''pending'', ''done''}" if "q \<in> set (map ?f (retries s))" for q
    using that assms(2) by (auto simp: history_inv_def)
  show ?thesis unfolding again(4) by (rule grows_retries [OF keys st pend])
qed simp

lemma grows_inv: "grows s s' \<Longrightarrow> history_inv s \<Longrightarrow> history_inv s'"
  by (simp add: grows_def)

lemma grows_trans: "grows s s' \<Longrightarrow> grows s' s'' \<Longrightarrow> grows s s''"
  by (auto simp: grows_def)

lemma queue_failed_grows:
  "queue_failed ids env n s = (Inr k, n', s') \<Longrightarrow> history_inv s \<Longrightarrow> grows s s'"
proof (induction ids arbitrary: n s k)
  case (Cons i ids)
  from Cons.prems(1) obtain found queued n1 s1 rest where
    step: "(case found of
             Some r \<Rightarrow>
               if t_status r = ''failed'' \<and> t_relation_id r \<noteq> None \<and> t_object_id r \<noteq> None
               then insert_retry_queue_entry r else ret False
           | None \<Rightarrow> ret False) env (Suc n) s = (Inr queued, n1, s1)"
    and rest: "queue_failed ids env n1 s1 = (Inr rest, n', s')"
    by (auto simp: bind_Inr ret_Inr get_translation_record_by_id_def query_Inr)
  have "grows s s1"
    using step Cons.prems(2)
    by (auto simp: ret_Inr intro: insert_retry_grows split: option.splits if_splits)
  with Cons.IH [OF rest] Cons.prems(2) show ?case by (blast intro: grows_trans dest: grows_inv)
qed (simp add: ret_Inr)

lemma batch_retry_grows:
  "batch_retry_translations ids env n s = (Inr k, n', s') \<Longrightarrow> history_inv s \<Longrightarrow> grows s s'"
  by (auto simp: batch_retry_translations_def run_simps dest: queue_failed_grows)

lemma history_inv_filter:
  "history_inv s \<Longrightarrow> history_inv (s\<lparr>records := filter p (records s)\<rparr>)"
  "history_inv s \<Longrightarrow> history_inv (s\<lparr>retries := filter q (retries s)\<rparr>)"
  by (auto simp: history_inv_def distinct_map inj_on_def)

lemma history_inv_update:
  assumes "history_inv s" "\<And>r. t_id (f r) = t_id r"
  shows "history_inv (s\<lparr>records := map (\<lambda>r. if p r then f r else r) (records s)\<rparr>)"
proof -
  have "map t_id (map (\<lambda>r. if p r then f r else r) (records s)) = map t_id (records s)"
    by (simp add: assms(2))
  with assms show ?thesis by (auto simp: history_inv_def simp del: map_map)
qed

lemma history_inv_done:
  assumes "history_inv s"
  shows "history_inv (s\<lparr>retries := map (\<lambda>y. if p y then y\<lparr>y_status := ''done''\<rparr> else y) (retries s)\<rparr>)"
proof -
  have "map retry_key (map (\<lambda>y. if p y then y\<lparr>y_status := ''done''\<rparr> else y) (retries s)) = map retry_key (retries s)"
    by (simp add: retry_key_def)
  with assms show ?thesis by (auto simp: history_inv_def simp del: map_map)
qed

text \<open>The completion of an entry: \<open>mark_retry_done\<close> on the unit of the entry.\<close>

fun completes_retry :: "retry_entry \<Rightarrow> history_op \<Rightarrow> bool" where
  "completes_retry y (RetryDone domain rel ty obj) = (retry_key y = (domain, rel, normalize_retry_object_type ty, obj))"
| "completes_retry y _ = False"

text \<open>Every committed step keeps the invariant, and the pending entries but the one it completes.\<close>

lemma history_commit:
  assumes "history_step x env n s = (Inr u, n', s')" "history_inv s"
  shows "history_inv s' \<and> (\<forall>y \<in> set (retries s). y_status y = ''pending'' \<and> \<not> completes_retry y x \<longrightarrow> y \<in> set (retries s'))"
proof (cases x)
  case (Enqueue r)
  with assms(1) obtain b where "insert_retry_queue_entry r env n s = (Inr b, n', s')" by (auto simp: discard_Inr)
  from insert_retry_grows [OF this assms(2)] assms(2) show ?thesis by (auto simp: grows_def)
next
  case (BatchRetry ids)
  with assms(1) obtain k where "batch_retry_translations ids env n s = (Inr k, n', s')" by (auto simp: discard_Inr)
  from batch_retry_grows [OF this assms(2)] assms(2) show ?thesis by (auto simp: grows_def)
next
  case (BatchDelete ids)
  with assms(1) obtain k where "batch_delete_translations ids env n s = (Inr k, n', s')" by (auto simp: discard_Inr)
  with batch_delete_Inr [OF this] history_inv_filter(1) [OF assms(2)] show ?thesis by simp
next
  case (RetryDone d r ty k)
  with assms(1) have "mark_retry_done d r ty k env n s = (Inr u, n', s')" by simp
  from mark_done_Inr [OF this] history_inv_done [OF assms(2)] assms(2) RetryDone show ?thesis
    by (auto simp: image_iff)
qed (use assms in \<open>auto simp: discard_Inr prune_old_records_def prune_old_retries_def update_translation_status_def
    increment_callback_retries_def update_records_def update_where_def run_simps Let_def
    intro: history_inv_filter history_inv_update\<close>)

lemma update_records_abort: "update_records k f env n s = (Inl e, n', s') \<Longrightarrow> s' = s"
  by (auto simp: update_records_def dest: atomicD [OF atomic_execute])

lemma bind_ret_Inl: "bind m (\<lambda>_. ret a) env n s = (Inl e, n', s') \<longleftrightarrow> m env n s = (Inl e, n', s')"
  by (auto simp: bind_def ret_def split: prod.splits sum.splits)

lemma seq_ensure_Inl:
  "seq (ensure b err) m env n s = (Inl e, n', s') \<longleftrightarrow>
     (if b then m env n s = (Inl e, n', s') else e = err \<and> n' = n \<and> s' = s)"
  by (auto simp: dbm_simps)

lemma history_abort: "history_step x env n s = (Inl e, n', s') \<Longrightarrow> s' = s"
  by (cases x)
    (auto simp: discard_Inl insert_retry_queue_entry_def batch_retry_translations_def batch_delete_translations_def
      mark_retry_done_def prune_old_records_def prune_old_retries_def update_translation_status_def
      increment_callback_retries_def bind_ret_Inl seq_ensure_Inl split: if_splits
      dest: atomicD [OF atomic_savepoint] atomicD [OF atomic_execute] update_records_abort)

interpretation history: checked_store history_step history_inv
  by unfold_locales (auto intro: history_abort simp: triple_def dest: history_commit)

text \<open>
  C24: A pending retry keeps its identity. Whatever is enqueued, retried in batches, deleted from the history or pruned,
  whichever retries of other units are completed, and whichever statements fail, a pending entry of the retry queue stays
  as it is, with its id, its scope and its time, until \<open>mark_retry_done\<close> completes this very unit; and a unit never
  has two entries.
\<close>

theorem pending_retry_kept:
  assumes "history_inv s" "y \<in> set (retries s)" "y_status y = ''pending''"
    "list_all (\<lambda>x. \<not> completes_retry y x) ops"
  shows "y \<in> set (retries (run_ops history_step env ops n s))
    \<and> distinct (map retry_key (retries (run_ops history_step env ops n s)))"
  using assms
proof (induction ops arbitrary: n s)
  case Nil
  then show ?case by (simp add: history_inv_def)
next
  case (Cons x ops)
  obtain r n' s' where run: "history_step x env n s = (r, n', s')" by (metis prod_cases3)
  have x: "\<not> completes_retry y x" using Cons.prems(4) by simp
  have "history_inv s' \<and> y \<in> set (retries s')"
  proof (cases r)
    case (Inl e)
    with run history_abort Cons.prems show ?thesis by blast
  next
    case (Inr u)
    with run history_commit [of x env n s u n' s'] x Cons.prems show ?thesis by auto
  qed
  with Cons.IH [of s' n'] Cons.prems run show ?case by simp
qed

definition sample_insert :: insert_record where
  "sample_insert = \<lparr>n_domain = ''d'', n_relation_id = Some 4, n_object_id = Some 9, n_object_type = Some ''post'',
     n_business_line = None, n_source_lang = ''en'', n_target_lang = ''de'', n_status = ''failed'', n_execution_ms = None,
     n_worker_id = None, n_idempotency_key = None, n_fields_count = 0, n_error_message = None, n_component_ids = [],
     n_media_mappings_count = 0, n_failed_fields_count = 1, n_primary_failure_reason = None\<rparr>"

definition sample_retry :: retry_entry where
  "sample_retry = \<lparr>y_id = 1, y_domain = ''d'', y_relation_id = 4, y_object_id = 9, y_object_type = ''post_type'',
     y_business_line = [], y_source_lang = ''en'', y_target_lang = ''de'', y_created_at = 5, y_status = ''pending''\<rparr>"

definition sample_history :: history_db where
  "sample_history = \<lparr>records = [new_record sample_insert 1 5], retries = [sample_retry],
     next_record_id = 2, next_retry_id = 2\<rparr>"


theorem pending_retry_kept_witness:
  "sample_retry \<in> set (retries (run_ops history_step (calm 9) [BatchRetry [1], RetryDone ''d'' 4 ''post'' 10, RetryDone ''e'' 4 ''post'' 9, PruneRetries 0, BatchDelete [1]] 0 sample_history))
    \<and> distinct (map retry_key (retries (run_ops history_step (calm 9) [BatchRetry [1], RetryDone ''d'' 4 ''post'' 10, RetryDone ''e'' 4 ''post'' 9, PruneRetries 0, BatchDelete [1]] 0 sample_history)))"
  by (rule pending_retry_kept)
    (simp_all add: history_inv_def sample_history_def sample_retry_def new_record_def retry_key_def)

theorem history_pages_complete_witness:
  "concat (map (page_of \<lparr>w_page = 1, w_limit = 1, w_domain = Some ''d'', w_status = None, w_search = Some []\<rparr> sample_history)
     (map Suc [0..<2])) = [new_record sample_insert 1 5]"
proof -
  let ?w = "\<lparr>w_page = 1, w_limit = 1, w_domain = Some ''d'', w_status = None, w_search = Some []\<rparr>"
  have one: "filter (query_matches ?w) (records sample_history) = [new_record sample_insert 1 5]"
    by (simp add: sample_history_def query_matches_def condition_def new_record_def sample_insert_def)
  then have "total_of ?w sample_history \<le> int (2 * effective_limit ?w)"
    by (simp add: total_of_def query_records_run count_where_def effective_limit_def)
  from history_pages_complete [OF this] one show ?thesis by (simp add: newest_first_def)
qed

end
