(* ===== verification/Completion.thy ===== *)
theory Completion
  imports Jobs PendingCallbacks Translations
begin

text \<open>
  The acknowledgement of a saved result: \<open>complete_saved_callback\<close> of \<open>db/jobs.rs\<close>, the one operation that changes
  the items, the history and the saved results together. The three modules share one connection, so the state is the
  product of their tables and every statement counts in one sequence.
\<close>

record client_db =
  cd_jobs :: job_db
  cd_callbacks :: callback_table
  cd_history :: history_db

definition on_jobs :: "(job_db, 'a) dbm \<Rightarrow> (client_db, 'a) dbm" where
  "on_jobs = zoom cd_jobs (\<lambda>s t. t\<lparr>cd_jobs := s\<rparr>)"

definition on_callbacks :: "(callback_table, 'a) dbm \<Rightarrow> (client_db, 'a) dbm" where
  "on_callbacks = zoom cd_callbacks (\<lambda>s t. t\<lparr>cd_callbacks := s\<rparr>)"

definition on_history :: "(history_db, 'a) dbm \<Rightarrow> (client_db, 'a) dbm" where
  "on_history = zoom cd_history (\<lambda>s t. t\<lparr>cd_history := s\<rparr>)"

definition completion_type :: "string \<Rightarrow> string" where
  "completion_type ty = (if ty = ''post'' then ''post_type'' else if ty = ''term'' then ''taxonomy'' else ty)"

definition effective_lang :: "string option \<Rightarrow> string \<Rightarrow> string" where
  "effective_lang chosen fallback = (case chosen of None \<Rightarrow> fallback | Some l \<Rightarrow> l)"

text \<open>The saved result that the acknowledgement is for.\<close>

definition acknowledges :: "string \<Rightarrow> item \<Rightarrow> callback_entry \<Rightarrow> bool" where
  "acknowledges idempotency_key item saved \<longleftrightarrow>
     ce_idempotency_key saved = idempotency_key
     \<and> p_client_task_id (ce_payload saved) = i_client_task_id item
     \<and> p_business_line (ce_payload saved) = i_business_line item
     \<and> p_source_lang (ce_payload saved) = effective_lang (i_effective_source_lang item) (i_source_lang item)
     \<and> p_target_lang (ce_payload saved) = effective_lang (i_effective_target_lang item) (i_target_lang item)
     \<and> (i_wp_object_subtype item = [] \<or> p_subtype (ce_payload saved) = i_wp_object_subtype item)"

definition completion_record :: "string \<Rightarrow> string \<Rightarrow> item \<Rightarrow> insert_record" where
  "completion_record client_base idempotency_key item =
     \<lparr>n_domain = client_base, n_relation_id = Some (i_relation_id item), n_object_id = Some (i_wp_object_id item),
      n_object_type = Some (completion_type (i_object_type item)), n_business_line = Some (i_business_line item),
      n_source_lang = effective_lang (i_effective_source_lang item) (i_source_lang item),
      n_target_lang = effective_lang (i_effective_target_lang item) (i_target_lang item),
      n_status = ''pending'', n_execution_ms = None, n_worker_id = None, n_idempotency_key = Some idempotency_key,
      n_fields_count = 0, n_error_message = None, n_component_ids = i_component_ids item,
      n_media_mappings_count = 0, n_failed_fields_count = 0, n_primary_failure_reason = None\<rparr>"

definition complete_saved_callback ::
  "callback_codec \<Rightarrow> int \<Rightarrow> string \<Rightarrow> string \<Rightarrow> string \<Rightarrow> (client_db, unit) dbm" where
  "complete_saved_callback cx item_id client_base idempotency_key response_json = savepoint
     (bind (on_jobs (get_item_checked item_id)) (\<lambda>found.
      case found of
        None \<Rightarrow> fail NoRows
      | Some item \<Rightarrow>
          bind (on_callbacks (find_pending_callback cx client_base (i_relation_id item)
                 (completion_type (i_object_type item)) (i_wp_object_id item))) (\<lambda>saved.
          seq (case saved of None \<Rightarrow> ret () | Some entry \<Rightarrow> ensure (acknowledges idempotency_key item entry) Conflict)
         (bind (on_history (insert_translation_record (completion_record client_base idempotency_key item))) (\<lambda>record_id.
          seq (on_history (mark_callback_sent record_id))
         (seq (on_jobs (update_item_sync_response item_id response_json))
         (seq (on_jobs (update_item_status item_id ''done'' None))
              (discard (on_callbacks (remove_pending_callback cx client_base (i_relation_id item)
                 (completion_type (i_object_type item)) (i_wp_object_id item)))))))))))"

section \<open>The effect of a committed acknowledgement\<close>

lemma on_Inr [run_simps]:
  "on_jobs m env n t = (Inr a, n', t') \<longleftrightarrow> (\<exists>s'. m env n (cd_jobs t) = (Inr a, n', s') \<and> t' = t\<lparr>cd_jobs := s'\<rparr>)"
  "on_callbacks p env n t = (Inr b, n', t') \<longleftrightarrow> (\<exists>s'. p env n (cd_callbacks t) = (Inr b, n', s') \<and> t' = t\<lparr>cd_callbacks := s'\<rparr>)"
  "on_history q env n t = (Inr c, n', t') \<longleftrightarrow> (\<exists>s'. q env n (cd_history t) = (Inr c, n', s') \<and> t' = t\<lparr>cd_history := s'\<rparr>)"
  by (simp_all add: on_jobs_def on_callbacks_def on_history_def zoom_Inr)

text \<open>The two statements on the history leave one new record, sent.\<close>

definition sent_record :: "insert_record \<Rightarrow> int \<Rightarrow> int \<Rightarrow> int \<Rightarrow> translation_record" where
  "sent_record q k made sent = (new_record q k made)\<lparr>t_callback_sent_at := Some sent, t_status := ''success''\<rparr>"

lemma record_sent_Inr:
  assumes "insert_translation_record q env n s = (Inr k, n1, s1)" "mark_callback_sent k env n1 s1 = (Inr u, n2, s2)"
    "history_inv s"
  shows "k = next_record_id s \<and> (\<exists>made sent. s2 = s\<lparr>records := records s @ [sent_record q k made sent],
    next_record_id := next_record_id s + 1\<rparr>)"
proof -
  from assms(1) have k: "k = next_record_id s"
    "s1 = s\<lparr>records := records s @ [new_record q k (clock env n)], next_record_id := next_record_id s + 1\<rparr>"
    by (auto simp: insert_translation_record_def run_simps)
  have old: "map (\<lambda>r. if t_id r = k then f r else r) (records s) = records s" for f
    using assms(3) k(1) by (auto simp: history_inv_def intro!: map_idI)
  from assms(2) have "s2 = s\<lparr>records := records s @ [sent_record q k (clock env n) (clock env n1)],
    next_record_id := next_record_id s + 1\<rparr>"
    using old by (auto simp: mark_callback_sent_def update_records_def update_where_def run_simps k(2)
        sent_record_def new_record_def)
  with k(1) show ?thesis by blast
qed

lemma sent_record_inv:
  assumes "history_inv s"
  shows "history_inv (s\<lparr>records := records s @ [sent_record q (next_record_id s) made sent],
    next_record_id := next_record_id s + 1\<rparr>)"
  using assms by (fastforce simp: history_inv_def sent_record_def new_record_def)

lemma sent_record_materialized:
  "materialized client_base (i_relation_id item) (i_wp_object_id item) (completion_type (i_object_type item))
     (sent_record (completion_record client_base key item) k made sent)"
  by (simp add: materialized_def sent_record_def new_record_def completion_record_def)

lemma sync_response_items:
  "update_item_sync_response k resp env n s = (Inr u, n', s') \<Longrightarrow>
     s' = s\<lparr>items := map (\<lambda>i. if i_id i = k then i\<lparr>i_sync_response := Some resp, i_updated_at := clock env n\<rparr> else i) (items s)\<rparr>"
  by (auto simp: update_item_sync_response_def run_simps update_where_def)

lemma check_saved_Inr [run_simps]:
  "(case a of None \<Rightarrow> ret () | Some e \<Rightarrow> ensure (p e) err) env n t = (Inr u, n', t') \<longleftrightarrow>
     (\<forall>e. a = Some e \<longrightarrow> p e) \<and> n' = n \<and> t' = t"
  by (cases a) (auto simp: run_simps)

text \<open>The course of a committed acknowledgement.\<close>

definition completion_course ::
  "callback_codec \<Rightarrow> int \<Rightarrow> string \<Rightarrow> string \<Rightarrow> string \<Rightarrow> env \<Rightarrow> client_db \<Rightarrow> client_db \<Rightarrow> item \<Rightarrow> callback_entry option \<Rightarrow> bool" where
  "completion_course cx k client_base key resp env t t' item saved \<longleftrightarrow>
    (\<exists>n1 n2 n3 n4 n5 n6 n7 record_id h1 j1 b.
       find_pending_callback cx client_base (i_relation_id item) (completion_type (i_object_type item))
         (i_wp_object_id item) env n1 (cd_callbacks t) = (Inr saved, n2, cd_callbacks t)
       \<and> insert_translation_record (completion_record client_base key item) env n2 (cd_history t) = (Inr record_id, n3, h1)
       \<and> mark_callback_sent record_id env n3 h1 = (Inr (), n4, cd_history t')
       \<and> update_item_sync_response k resp env n4 (cd_jobs t) = (Inr (), n5, j1)
       \<and> update_item_status k ''done'' None env n5 j1 = (Inr (), n6, cd_jobs t')
       \<and> remove_pending_callback cx client_base (i_relation_id item) (completion_type (i_object_type item))
         (i_wp_object_id item) env n6 (cd_callbacks t) = (Inr b, n7, cd_callbacks t'))"

lemma completion_Inr:
  assumes "complete_saved_callback cx k client_base key resp env n t = (Inr u, n', t')"
  obtains item saved where "find (\<lambda>i. i_id i = k) (items (cd_jobs t)) = Some item"
    "\<And>entry. saved = Some entry \<Longrightarrow> acknowledges key (row_to_item item) entry"
    "completion_course cx k client_base key resp env t t' (row_to_item item) saved"
proof -
  from assms obtain n0 t0 found n9 where
    g: "on_jobs (get_item_checked k) env (Suc n) t = (Inr found, n0, t0)" and
    rest: "(case found of
        None \<Rightarrow> fail NoRows
      | Some item \<Rightarrow>
          bind (on_callbacks (find_pending_callback cx client_base (i_relation_id item)
                 (completion_type (i_object_type item)) (i_wp_object_id item))) (\<lambda>saved.
          seq (case saved of None \<Rightarrow> ret () | Some entry \<Rightarrow> ensure (acknowledges key item entry) Conflict)
         (bind (on_history (insert_translation_record (completion_record client_base key item))) (\<lambda>record_id.
          seq (on_history (mark_callback_sent record_id))
         (seq (on_jobs (update_item_sync_response k resp))
         (seq (on_jobs (update_item_status k ''done'' None))
              (discard (on_callbacks (remove_pending_callback cx client_base (i_relation_id item)
                 (completion_type (i_object_type item)) (i_wp_object_id item)))))))))) env n0 t0 = (Inr u, n9, t')"
    unfolding complete_saved_callback_def by (auto simp: savepoint_Inr bind_Inr)
  from g have t0: "t0 = t" and f: "found = map_option row_to_item (find (\<lambda>i. i_id i = k) (items (cd_jobs t)))"
    by (auto simp: on_Inr get_item_checked_def query_Inr)
  from rest f obtain item where item: "find (\<lambda>i. i_id i = k) (items (cd_jobs t)) = Some item"
    "found = Some (row_to_item item)"
    by (cases "find (\<lambda>i. i_id i = k) (items (cd_jobs t))") (auto simp: fail_Inr)
  from rest [unfolded t0 item(2) option.case]
  obtain saved n1 s1 where fnd: "find_pending_callback cx client_base (i_relation_id (row_to_item item)) (completion_type (i_object_type (row_to_item item)))
         (i_wp_object_id (row_to_item item)) env n0 (cd_callbacks t) = (Inr saved, n1, s1)"
    and ack: "\<forall>entry. saved = Some entry \<longrightarrow> acknowledges key (row_to_item item) entry"
    and more: "\<exists>n3 n4 n5 n6 record_id h1 j1 b.
       insert_translation_record (completion_record client_base key (row_to_item item)) env n1 (cd_history t) = (Inr record_id, n3, h1)
       \<and> mark_callback_sent record_id env n3 h1 = (Inr (), n4, cd_history t')
       \<and> update_item_sync_response k resp env n4 (cd_jobs t) = (Inr (), n5, j1)
       \<and> update_item_status k ''done'' None env n5 j1 = (Inr (), n6, cd_jobs t')
       \<and> remove_pending_callback cx client_base (i_relation_id (row_to_item item)) (completion_type (i_object_type (row_to_item item)))
         (i_wp_object_id (row_to_item item)) env n6 s1 = (Inr b, n9, cd_callbacks t')"
    by (auto simp: bind_Inr seq_Inr on_Inr discard_Inr check_saved_Inr)
  from find_pending_state [OF fnd] have s1: "s1 = cd_callbacks t" .
  have "completion_course cx k client_base key resp env t t' (row_to_item item) saved"
    unfolding completion_course_def using fnd more unfolding s1 by blast
  with item(1) ack show thesis by (intro that [of item saved]) auto
qed

text \<open>What it leaves of each table.\<close>

lemma course_history:
  assumes "completion_course cx k client_base key resp env t t' item saved" "history_inv (cd_history t)"
  shows "history_inv (cd_history t')"
    "\<exists>r. records (cd_history t') = records (cd_history t) @ [r]
       \<and> materialized client_base (i_relation_id item) (i_wp_object_id item) (completion_type (i_object_type item)) r"
    "retries (cd_history t') = retries (cd_history t)"
proof -
  from assms(1) obtain n2 n3 n4 record_id h1 where
    "insert_translation_record (completion_record client_base key item) env n2 (cd_history t) = (Inr record_id, n3, h1)"
    "mark_callback_sent record_id env n3 h1 = (Inr (), n4, cd_history t')"
    unfolding completion_course_def by blast
  from record_sent_Inr [OF this assms(2)] obtain made sent where h: "cd_history t' = (cd_history t)\<lparr>records := records (cd_history t) @
      [sent_record (completion_record client_base key item) (next_record_id (cd_history t)) made sent],
      next_record_id := next_record_id (cd_history t) + 1\<rparr>"
    by auto
  show "history_inv (cd_history t')" unfolding h by (rule sent_record_inv [OF assms(2)])
  show "\<exists>r. records (cd_history t') = records (cd_history t) @ [r]
       \<and> materialized client_base (i_relation_id item) (i_wp_object_id item) (completion_type (i_object_type item)) r"
    "retries (cd_history t') = retries (cd_history t)"
    by (simp_all add: h sent_record_materialized)
qed

lemma course_callbacks:
  assumes "completion_course cx k client_base key resp env t t' item saved"
    "\<And>entry. saved = Some entry \<Longrightarrow> ce_idempotency_key entry = key"
  shows "cd_callbacks t' = (case saved of None \<Rightarrow> cd_callbacks t
      | Some entry \<Rightarrow> filter (\<lambda>r. cr_idempotency_key r \<noteq> key) (cd_callbacks t))"
    "\<exists>normalized. normalize_pending_object_type (completion_type (i_object_type item)) = Some normalized
       \<and> filter (unit_row cx client_base (i_relation_id item) normalized (i_wp_object_id item)) (cd_callbacks t') = []"
proof -
  from assms(1) obtain n1 n2 n6 n7 b where
    fnd: "find_pending_callback cx client_base (i_relation_id item) (completion_type (i_object_type item))
         (i_wp_object_id item) env n1 (cd_callbacks t) = (Inr saved, n2, cd_callbacks t)"
    and rem: "remove_pending_callback cx client_base (i_relation_id item) (completion_type (i_object_type item))
         (i_wp_object_id item) env n6 (cd_callbacks t) = (Inr b, n7, cd_callbacks t')"
    unfolding completion_course_def by blast
  from fnd obtain ty where ty: "normalize_pending_object_type (completion_type (i_object_type item)) = Some ty"
    and res: "saved = None \<and> filter (unit_row cx client_base (i_relation_id item) ty (i_wp_object_id item)) (cd_callbacks t) = []
      \<or> (\<exists>r e. filter (unit_row cx client_base (i_relation_id item) ty (i_wp_object_id item)) (cd_callbacks t) = [r]
            \<and> row_to_entry cx r = Inr e \<and> saved = Some e)"
    by (auto simp: find_pending_Inr)
  let ?unit = "unit_row cx client_base (i_relation_id item) ty (i_wp_object_id item)"
  have "cd_callbacks t' = (case saved of None \<Rightarrow> cd_callbacks t
      | Some entry \<Rightarrow> filter (\<lambda>r. cr_idempotency_key r \<noteq> key) (cd_callbacks t)) \<and> filter ?unit (cd_callbacks t') = []"
  proof (cases saved)
    case None
    with res remove_Inr [OF rem] ty show ?thesis by auto
  next
    case (Some e)
    with res obtain r where r: "filter ?unit (cd_callbacks t) = [r]" "row_to_entry cx r = Inr e" by auto
    with Some assms(2) row_to_entry_columns [OF r(2)] have k: "cr_idempotency_key r = key" by simp
    with remove_Inr [OF rem] ty r have cb: "cd_callbacks t' = filter (\<lambda>q. cr_idempotency_key q \<noteq> key) (cd_callbacks t)"
      by auto
    have "filter ?unit (filter (\<lambda>q. cr_idempotency_key q \<noteq> key) (cd_callbacks t))
        = filter (\<lambda>q. cr_idempotency_key q \<noteq> key) (filter ?unit (cd_callbacks t))"
      by (simp add: conj_commute)
    with r k cb Some show ?thesis by simp
  qed
  with ty show "cd_callbacks t' = (case saved of None \<Rightarrow> cd_callbacks t
      | Some entry \<Rightarrow> filter (\<lambda>r. cr_idempotency_key r \<noteq> key) (cd_callbacks t))"
    "\<exists>normalized. normalize_pending_object_type (completion_type (i_object_type item)) = Some normalized
       \<and> filter (unit_row cx client_base (i_relation_id item) normalized (i_wp_object_id item)) (cd_callbacks t') = []"
    by blast+
qed

lemma course_items:
  assumes "completion_course cx k client_base key resp env t t' item saved"
  shows "\<exists>f. items (cd_jobs t') = map (\<lambda>i. if i_id i = k then f i else i) (items (cd_jobs t))
     \<and> (\<forall>i. i_id (f i) = i_id i \<and> i_job_id (f i) = i_job_id i \<and> i_status (f i) = ''done''
          \<and> i_sync_response (f i) = Some resp)"
proof -
  from assms obtain n4 n5 n6 j1 where
    sync: "update_item_sync_response k resp env n4 (cd_jobs t) = (Inr (), n5, j1)" and
    status: "update_item_status k ''done'' None env n5 j1 = (Inr (), n6, cd_jobs t')"
    unfolding completion_course_def by blast
  let ?g = "\<lambda>i. i\<lparr>i_sync_response := Some resp, i_updated_at := clock env n4\<rparr>"
  let ?f = "\<lambda>i. set_item_status ''done'' None (clock env (Suc n5)) (?g i)"
  have "items (cd_jobs t') = map (\<lambda>i. if i_id i = k then ?f i else i) (items (cd_jobs t))"
    using update_item_status_items [OF status] sync_response_items [OF sync] by (simp add: update_where_def)
  moreover have "i_id (?f i) = i_id i \<and> i_job_id (?f i) = i_job_id i \<and> i_status (?f i) = ''done'' \<and> i_sync_response (?f i) = Some resp" for i
    by (simp add: set_item_status_def Let_def)
  ultimately show ?thesis by (intro exI [of _ ?f]) simp
qed

lemma course_finished:
  assumes "completion_course cx k client_base key resp env t t' row saved"
    "find (\<lambda>i. i_id i = k) (items (cd_jobs t)) = Some item"
  shows "\<exists>finished. find (\<lambda>i. i_id i = k) (items (cd_jobs t')) = Some finished
    \<and> i_status finished = ''done'' \<and> i_sync_response finished = Some resp \<and> i_job_id finished = i_job_id item
    \<and> filter (\<lambda>i. i_id i \<noteq> k) (items (cd_jobs t')) = filter (\<lambda>i. i_id i \<noteq> k) (items (cd_jobs t))"
proof -
  obtain f where f: "items (cd_jobs t') = map (\<lambda>i. if i_id i = k then f i else i) (items (cd_jobs t))"
    "\<And>i. i_id (f i) = i_id i \<and> i_job_id (f i) = i_job_id i \<and> i_status (f i) = ''done'' \<and> i_sync_response (f i) = Some resp"
    using course_items [OF assms(1)] by blast
  have "find (\<lambda>i. i_id i = k) (map (\<lambda>i. if i_id i = k then f i else i) xs) = map_option f (find (\<lambda>i. i_id i = k) xs)"
    "filter (\<lambda>i. i_id i \<noteq> k) (map (\<lambda>i. if i_id i = k then f i else i) xs) = filter (\<lambda>i. i_id i \<noteq> k) xs" for xs
    using f(2) by (induction xs) auto
  with f assms(2) show ?thesis by auto
qed

lemma acknowledges_key:
  "(\<And>entry. saved = Some entry \<Longrightarrow> acknowledges key item entry) \<Longrightarrow> saved = Some e \<Longrightarrow> ce_idempotency_key e = key"
  by (auto simp: acknowledges_def)

lemma course_jobs:
  assumes "completion_course cx k client_base key resp env t t' item saved" "job_inv (cd_jobs t)"
  shows "job_inv (cd_jobs t')"
proof -
  from assms obtain n4 n5 n6 j1 where
    sync: "job_step (SyncResponse k resp) env n4 (cd_jobs t) = (Inr (), n5, j1)" and
    status: "job_step (ItemStatus k ''done'' None) env n5 j1 = (Inr (), n6, cd_jobs t')"
    unfolding completion_course_def by auto
  from tripleD [OF job_store.step_commit assms(2) sync] have "job_inv j1" .
  from tripleD [OF job_store.step_commit this status] show ?thesis .
qed

lemma filter_update_where:
  assumes "\<And>r. key (f r) = key r"
  shows "filter (\<lambda>r. key r \<noteq> k) (snd (update_where (\<lambda>r. key r = k) f rows)) = filter (\<lambda>r. key r \<noteq> k) rows"
  using assms by (induction rows) (auto simp: update_where_def)

text \<open>The job of the item is projected anew and no other job is written.\<close>

lemma course_job_rows:
  assumes "completion_course cx k client_base key resp env t t' row saved" "job_inv (cd_jobs t)"
    "find (\<lambda>i. i_id i = k) (items (cd_jobs t)) = Some item"
  shows "\<exists>j \<in> set (jobs (cd_jobs t')). j_id j = i_job_id item \<and> counted (cd_jobs t') j"
    "filter (\<lambda>j. j_id j \<noteq> i_job_id item) (jobs (cd_jobs t')) = filter (\<lambda>j. j_id j \<noteq> i_job_id item) (jobs (cd_jobs t))"
proof -
  from assms(1) obtain n4 n5 n6 j1 where
    sync: "update_item_sync_response k resp env n4 (cd_jobs t) = (Inr (), n5, j1)" and
    status: "update_item_status k ''done'' None env n5 j1 = (Inr (), n6, cd_jobs t')"
    unfolding completion_course_def by blast
  note j1 = sync_response_items [OF sync]
  have owner: "i_job_id i = i_job_id item" if
    "find (\<lambda>i. i_id i = k) (snd (update_where (\<lambda>i. i_id i = k) (set_item_status ''done'' None now) (items j1))) = Some i"
    for i now
  proof -
    have "map_option i_job_id (find (\<lambda>i. i_id i = k) (map f xs)) = map_option i_job_id (find (\<lambda>i. i_id i = k) xs)"
      if "\<And>i. i_id (f i) = i_id i \<and> i_job_id (f i) = i_job_id i" for f xs
      using that by (induction xs) auto
    from this [of "\<lambda>r. if i_id r = k then set_item_status ''done'' None now
        (r\<lparr>i_sync_response := Some resp, i_updated_at := clock env n4\<rparr>) else r" "items (cd_jobs t)"] that assms(3)
    show ?thesis by (auto simp: j1 update_where_def set_item_status_def Let_def comp_def if_distrib cong: if_cong)
  qed
  from status obtain s1 r m m' i where
    s1: "s1 = j1\<lparr>items := snd (update_where (\<lambda>i. i_id i = k) (set_item_status ''done'' None (clock env (Suc n5))) (items j1))\<rparr>"
    and i: "find (\<lambda>i. i_id i = k) (items s1) = Some i"
    and prj: "project_job_from_items (i_job_id i) False ''completed'' env m s1 = (Inr r, m', cd_jobs t')"
    by (rule update_item_status_Inr)
  from i owner have job: "i_job_id i = i_job_id item" by (auto simp: s1)
  note rows = project_Inr(5) [OF prj, unfolded job]
  have same: "jobs s1 = jobs (cd_jobs t)" by (simp add: s1 j1)
  show "filter (\<lambda>j. j_id j \<noteq> i_job_id item) (jobs (cd_jobs t')) = filter (\<lambda>j. j_id j \<noteq> i_job_id item) (jobs (cd_jobs t))"
    unfolding rows same by (rule filter_update_where) simp
  have "i_job_id item \<in> j_id ` set (jobs (cd_jobs t'))"
    using project_Inr(6) [OF prj] unfolding job rows
    by (auto simp: update_where_def image_Un image_image)
  with course_jobs [OF assms(1,2)] show "\<exists>j \<in> set (jobs (cd_jobs t')). j_id j = i_job_id item \<and> counted (cd_jobs t') j"
    by (auto simp: job_inv_def due_def)
qed

section \<open>The client's tables\<close>

text \<open>Every operation of the three modules, and the acknowledgement across them.\<close>

datatype client_op =
    JobOp job_op
  | CallbackOp callback_op
  | HistoryOp history_op
  | Acknowledge int string string string

fun client_step :: "callback_codec \<Rightarrow> client_op \<Rightarrow> (client_db, unit) dbm" where
  "client_step cx (JobOp x) = on_jobs (job_step x)"
| "client_step cx (CallbackOp x) = on_callbacks (callback_step cx x)"
| "client_step cx (HistoryOp x) = on_history (history_step x)"
| "client_step cx (Acknowledge k client_base key resp) = complete_saved_callback cx k client_base key resp"

definition client_inv :: "callback_codec \<Rightarrow> client_db \<Rightarrow> bool" where
  "client_inv cx t \<longleftrightarrow> job_inv (cd_jobs t) \<and> callback_inv cx (cd_callbacks t) \<and> history_inv (cd_history t)"

lemma callback_inv_filter: "callback_inv cx rows \<Longrightarrow> callback_inv cx (filter p rows)"
  by (auto simp: callback_inv_def distinct_map_filter_keep)

lemma completion_keeps:
  assumes "client_inv cx t" "complete_saved_callback cx k client_base key resp env n t = (Inr u, n', t')"
  shows "client_inv cx t'"
  using assms(2)
proof (cases rule: completion_Inr)
  case (1 item saved)
  have "cd_callbacks t' = (case saved of None \<Rightarrow> cd_callbacks t
      | Some entry \<Rightarrow> filter (\<lambda>r. cr_idempotency_key r \<noteq> key) (cd_callbacks t))"
    using 1(2) by (intro course_callbacks(1) [OF 1(3)]) (auto simp: acknowledges_def)
  then have "callback_inv cx (cd_callbacks t')"
    using assms(1) by (auto simp: client_inv_def callback_inv_filter split: option.splits)
  with course_history(1) [OF 1(3)] course_jobs [OF 1(3)] assms(1) show ?thesis
    by (simp add: client_inv_def)
qed

lemma zoom_Inl: "zoom part upd m env n t = (Inl e, n', t') \<longleftrightarrow> (\<exists>s'. m env n (part t) = (Inl e, n', s') \<and> t' = upd s' t)"
  by (auto simp: zoom_def split: prod.splits)

lemma client_abort: "client_inv cx t \<Longrightarrow> client_step cx x env n t = (Inl e, n', t') \<Longrightarrow> t' = t"
  by (cases x)
    (auto simp: on_jobs_def on_callbacks_def on_history_def zoom_Inl client_inv_def complete_saved_callback_def
      dest: job_store.step_abort callback_abort history_abort atomicD [OF atomic_savepoint])

lemma client_commit: "triple (client_inv cx) (client_step cx x) (\<lambda>_. client_inv cx)"
proof -
  have "client_inv cx t'" if "client_inv cx t" "client_step cx x env n t = (Inr u, n', t')" for env n t u n' t'
  proof (cases x)
    case (Acknowledge k client_base key resp)
    with that completion_keeps show ?thesis by simp
  qed (use that in \<open>auto simp: on_Inr client_inv_def
      dest: tripleD [OF job_store.step_commit] tripleD [OF saved_results.step_commit] tripleD [OF history.step_commit]\<close>)
  then show ?thesis by (auto simp: triple_def)
qed

interpretation client: checked_store "client_step cx" "client_inv cx" for cx
  by unfold_locales (auto intro: client_abort client_commit)

text \<open>
  C11: Acknowledged together or not at all. \<open>complete_saved_callback\<close> either fails, at any of its
  statements, and leaves all tables as they were; or the item, its job, the history and the saved results change
  together: the item is done with the site's response and no other item is written; the counters of its job are
  the counts of its items and no other job is written; the history gains one record, a materialized success for the
  object (which stops the next scan from translating it again); no saved result of the unit is left, and the only
  saved results removed are those with the acknowledged key.
\<close>

theorem acknowledgement_commits_together:
  assumes "client_inv cx t"
    "complete_saved_callback cx k client_base key resp env n t = (r, n', t')"
  shows "case r of
      Inl e \<Rightarrow> t' = t
    | Inr u \<Rightarrow> (\<exists>item finished job added normalized.
        find (\<lambda>i. i_id i = k) (items (cd_jobs t)) = Some item
        \<and> find (\<lambda>i. i_id i = k) (items (cd_jobs t')) = Some finished
        \<and> i_status finished = ''done'' \<and> i_sync_response finished = Some resp
        \<and> filter (\<lambda>i. i_id i \<noteq> k) (items (cd_jobs t')) = filter (\<lambda>i. i_id i \<noteq> k) (items (cd_jobs t))
        \<and> job \<in> set (jobs (cd_jobs t')) \<and> j_id job = i_job_id item \<and> i_job_id finished = i_job_id item
        \<and> j_total_items job = count_where (\<lambda>i. i_job_id i = j_id job) (items (cd_jobs t'))
        \<and> j_done_items job = count_where (\<lambda>i. i_job_id i = j_id job \<and> is_done (i_status i)) (items (cd_jobs t'))
        \<and> j_failed_items job = count_where (\<lambda>i. i_job_id i = j_id job \<and> is_failed (i_status i)) (items (cd_jobs t'))
        \<and> filter (\<lambda>j. j_id j \<noteq> i_job_id item) (jobs (cd_jobs t'))
            = filter (\<lambda>j. j_id j \<noteq> i_job_id item) (jobs (cd_jobs t))
        \<and> records (cd_history t') = records (cd_history t) @ [added]
        \<and> materialized client_base (i_relation_id item) (i_wp_object_id item)
             (completion_type (i_object_type item)) added
        \<and> retries (cd_history t') = retries (cd_history t)
        \<and> normalize_pending_object_type (completion_type (i_object_type item)) = Some normalized
        \<and> filter (unit_row cx client_base (i_relation_id item) normalized (i_wp_object_id item)) (cd_callbacks t') = []
        \<and> cd_callbacks t' \<in> {cd_callbacks t, filter (\<lambda>row. cr_idempotency_key row \<noteq> key) (cd_callbacks t)})"
proof (cases r)
  case (Inl e)
  with assms client_abort [of cx t "Acknowledge k client_base key resp"] show ?thesis by simp
next
  case (Inr u)
  with assms(2) have "complete_saved_callback cx k client_base key resp env n t = (Inr u, n', t')" by simp
  then show ?thesis
  proof (cases rule: completion_Inr)
    case (1 item saved)
    note sel = row_to_item_def [of item]
    have inv: "job_inv (cd_jobs t)" "history_inv (cd_history t)" using assms(1) by (simp_all add: client_inv_def)
    note keys = acknowledges_key [OF 1(2)]
    obtain finished where "find (\<lambda>i. i_id i = k) (items (cd_jobs t')) = Some finished"
      "i_status finished = ''done''" "i_sync_response finished = Some resp" "i_job_id finished = i_job_id item"
      "filter (\<lambda>i. i_id i \<noteq> k) (items (cd_jobs t')) = filter (\<lambda>i. i_id i \<noteq> k) (items (cd_jobs t))"
      using course_finished [OF 1(3,1)] by blast
    moreover obtain job where "job \<in> set (jobs (cd_jobs t'))" "j_id job = i_job_id item" "counted (cd_jobs t') job"
      using course_job_rows(1) [OF 1(3) inv(1) 1(1)] by blast
    moreover obtain added where "records (cd_history t') = records (cd_history t) @ [added]"
      "materialized client_base (i_relation_id item) (i_wp_object_id item) (completion_type (i_object_type item)) added"
      using course_history(2) [OF 1(3) inv(2)] by (auto simp: sel)
    moreover obtain normalized where
      "normalize_pending_object_type (completion_type (i_object_type item)) = Some normalized"
      "filter (unit_row cx client_base (i_relation_id item) normalized (i_wp_object_id item)) (cd_callbacks t') = []"
      using course_callbacks(2) [OF 1(3) keys] by (auto simp: sel)
    moreover have "cd_callbacks t' \<in> {cd_callbacks t, filter (\<lambda>row. cr_idempotency_key row \<noteq> key) (cd_callbacks t)}"
      using course_callbacks(1) [OF 1(3) keys] by (auto split: option.splits)
    ultimately show ?thesis
      using 1(1) Inr course_job_rows(2) [OF 1(3) inv(1) 1(1)] course_history(3) [OF 1(3) inv(2)]
      by (auto simp: counted_def count_items_def intro!: exI [of _ finished] exI [of _ job] exI [of _ added])
  qed
qed

text \<open>The saved result of the example, with the item it is for.\<close>

definition ack_item :: create_item_request where
  "ack_item = sample_item\<lparr>q_relation_id := 4, q_business_line := ''posts'', q_wp_object_id := 9,
     q_client_task_id := ''t''\<rparr>"

definition ack_db :: client_db where
  "ack_db = \<lparr>cd_jobs = run_ops job_step (calm 5) [CreateJob sample_job, CreateItem ack_item] 0 empty_job_db,
     cd_callbacks = [sample_row], cd_history = empty_history\<rparr>"

lemma ack_inv: "client_inv sample_codec ack_db"
proof -
  have "job_inv (cd_jobs ack_db)" by (simp add: ack_db_def job_store.run_keeps [OF job_inv_empty] del: run_ops.simps)
  moreover have "callback_inv sample_codec (cd_callbacks ack_db)"
    by (simp add: ack_db_def callback_inv_def readable_def sample_readable)
  ultimately show ?thesis by (simp add: client_inv_def ack_db_def history_inv_def empty_history_def)
qed

lemma sample_row_unit: "unit_row sample_codec ''u'' 4 ''post_type'' 9 sample_row"
  by (simp add: unit_row_def sample_site sample_row_def)

lemma sample_row_key: "cr_idempotency_key sample_row = ''k''"
  by (simp add: sample_row_def)

lemma ack_runs: "\<exists>n' t'. complete_saved_callback sample_codec 1 ''u'' ''k'' ''ok'' (calm 6) 0 ack_db = (Inr (), n', t')"
  by (simp add: complete_saved_callback_def ack_db_def ack_item_def job_eval on_jobs_def on_callbacks_def on_history_def
     zoom_def get_item_checked_def row_to_item_def find_pending_callback_def completion_type_def sample_types
     sample_row_unit sample_row_key sample_readable acknowledges_def sample_entry_def sample_payload_def effective_lang_def
     insert_translation_record_def record_exists_def empty_history_def new_record_def completion_record_def
     mark_callback_sent_def update_records_def remove_pending_callback_def delete_by_key_def)

theorem acknowledgement_commits_together_witness:
  "\<exists>n' t'. complete_saved_callback sample_codec 1 ''u'' ''k'' ''ok'' (calm 6) 0 ack_db = (Inr (), n', t')
     \<and> (\<exists>finished. find (\<lambda>i. i_id i = 1) (items (cd_jobs t')) = Some finished \<and> i_status finished = ''done'')
     \<and> length (records (cd_history t')) = 1
     \<and> set [sample_row] - set (cd_callbacks t') \<subseteq> {row. cr_idempotency_key row = ''k''}"
proof -
  obtain n' t' where run: "complete_saved_callback sample_codec 1 ''u'' ''k'' ''ok'' (calm 6) 0 ack_db = (Inr (), n', t')"
    using ack_runs by blast
  have "cd_callbacks ack_db = [sample_row]" "records (cd_history ack_db) = []"
    by (simp_all add: ack_db_def empty_history_def)
  with acknowledgement_commits_together [OF ack_inv run] run sample_row_key show ?thesis by auto
qed

end
