(* ===== verification/JsonText.thy ===== *)
theory JsonText
  imports ConfigEnvelope
begin

text \<open>
  A concrete JSON codec for the examples: a prefix-free text of ASCII bytes and its reader. The serde
  encodings of the program are parameters of the model; their laws, that a printed document is UTF-8 and reads
  back, hold of this codec, so the theorems that assume them say something.
\<close>

section \<open>Bytes and integers\<close>

fun put_bytes :: "bytes \<Rightarrow> bytes" where
  "put_bytes [] = [0]"
| "put_bytes (b # bs) = (1 + b mod 2) # b div 2 # put_bytes bs"

fun get_bytes :: "bytes \<Rightarrow> (bytes \<times> bytes) option" where
  "get_bytes (t # r) =
     (if t = 0 then Some ([], r)
      else case r of [] \<Rightarrow> None
        | h # r2 \<Rightarrow> map_option (\<lambda>(bs, r3). ((2 * h + (t - 1)) # bs, r3)) (get_bytes r2))"
| "get_bytes [] = None"

definition put_int :: "int \<Rightarrow> bytes" where
  "put_int i = (if i < 0 then 1 else 0) # replicate (nat \<bar>i\<bar>) 1 @ [0]"

fun get_nat :: "bytes \<Rightarrow> (nat \<times> bytes) option" where
  "get_nat (t # r) = (if t = 0 then Some (0, r) else map_option (\<lambda>(n, r2). (Suc n, r2)) (get_nat r))"
| "get_nat [] = None"

definition get_int :: "bytes \<Rightarrow> (int \<times> bytes) option" where
  "get_int bs = (case bs of [] \<Rightarrow> None
     | s # r \<Rightarrow> map_option (\<lambda>(n, r2). (if s = 1 then - int n else int n, r2)) (get_nat r))"

lemma halves: "2 * (b div 2) + b mod 2 = (b :: 8 word)" "(1::8 word) + b mod 2 \<noteq> 0" "b div 2 < (128 :: 8 word)"
  "(1::8 word) + b mod 2 < 128"
proof -
  show "2 * (b div 2) + b mod 2 = b" by (simp add: mult_div_mod_eq)
  have "b mod 2 = of_bool (odd b)" by (rule mod_2_eq_odd)
  then show "(1::8 word) + b mod 2 \<noteq> 0" "(1::8 word) + b mod 2 < 128" by (cases "even b"; simp)+
  have "unat b < 256" using unsigned_less [of b, where ?'a = nat] by simp
  then show "b div 2 < 128" by (simp add: word_less_nat_alt unat_div)
qed

lemma get_put_bytes: "get_bytes (put_bytes bs @ r) = Some (bs, r)"
  by (induction bs) (simp_all add: halves)

lemma put_bytes_ascii: "list_all (\<lambda>b. b < 128) (put_bytes bs)"
  by (induction bs) (simp_all add: halves)

lemma get_put_nat: "get_nat (replicate n 1 @ 0 # r) = Some (n, r)"
  by (induction n) simp_all

lemma get_put_int: "get_int (put_int i @ r) = Some (i, r)"
  by (simp add: get_int_def put_int_def get_put_nat)

lemma put_int_ascii: "list_all (\<lambda>b. b < 128) (put_int i)"
  by (simp add: put_int_def list_all_iff)

section \<open>Values\<close>

fun put_json :: "bytes json \<Rightarrow> bytes"
  and put_items :: "bytes json list \<Rightarrow> bytes"
  and put_members :: "(bytes \<times> bytes json) list \<Rightarrow> bytes" where
  "put_json JNull = [0]"
| "put_json (JBool b) = [if b then 2 else 1]"
| "put_json (JInt i) = 3 # put_int i"
| "put_json (JNum s) = 4 # put_bytes s"
| "put_json (JString s) = 5 # put_bytes s"
| "put_json (JArray xs) = 6 # put_items xs"
| "put_json (JObject ms) = 7 # put_members ms"
| "put_items [] = [0]"
| "put_items (x # xs) = 1 # put_json x @ put_items xs"
| "put_members [] = [0]"
| "put_members ((k, v) # ms) = 1 # put_bytes k @ put_json v @ put_members ms"

text \<open>The reader counts its depth down; the length of the text is enough.\<close>

fun get_json :: "nat \<Rightarrow> bytes \<Rightarrow> (bytes json \<times> bytes) option"
  and get_items :: "nat \<Rightarrow> bytes \<Rightarrow> (bytes json list \<times> bytes) option"
  and get_members :: "nat \<Rightarrow> bytes \<Rightarrow> ((bytes \<times> bytes json) list \<times> bytes) option" where
  "get_json (Suc n) (t # r) =
     (if t = 0 then Some (JNull, r)
      else if t = 1 then Some (JBool False, r)
      else if t = 2 then Some (JBool True, r)
      else if t = 3 then map_option (apfst JInt) (get_int r)
      else if t = 4 then map_option (apfst JNum) (get_bytes r)
      else if t = 5 then map_option (apfst JString) (get_bytes r)
      else if t = 6 then map_option (apfst JArray) (get_items n r)
      else map_option (apfst JObject) (get_members n r))"
| "get_json _ _ = None"
| "get_items (Suc n) (t # r) =
     (if t = 0 then Some ([], r)
      else case get_json n r of None \<Rightarrow> None
        | Some (x, r2) \<Rightarrow> map_option (apfst ((#) x)) (get_items n r2))"
| "get_items _ _ = None"
| "get_members (Suc n) (t # r) =
     (if t = 0 then Some ([], r)
      else case get_bytes r of None \<Rightarrow> None
        | Some (k, r2) \<Rightarrow> (case get_json n r2 of None \<Rightarrow> None
            | Some (v, r3) \<Rightarrow> map_option (apfst ((#) (k, v))) (get_members n r3)))"
| "get_members _ _ = None"

definition read_json :: "bytes \<Rightarrow> bytes json option" where
  "read_json bs = map_option fst (get_json (length bs) bs)"

lemma get_put:
  "length (put_json v) \<le> n \<Longrightarrow> get_json n (put_json v @ r) = Some (v, r)"
  "length (put_items xs) \<le> n \<Longrightarrow> get_items n (put_items xs @ r) = Some (xs, r)"
  "length (put_members ms) \<le> n \<Longrightarrow> get_members n (put_members ms @ r) = Some (ms, r)"
proof (induction v and xs and ms arbitrary: n r and n r and n r rule: put_json_put_items_put_members.induct)
  case (2 b) then show ?case by (cases n) auto
next
  case (9 x xs) then show ?case by (cases n) auto
next
  case (11 k v ms) then show ?case by (cases n) (auto simp: get_put_bytes)
qed (case_tac n; simp add: get_put_int get_put_bytes)+

lemma put_ascii:
  "list_all (\<lambda>b. b < 128) (put_json v)" "list_all (\<lambda>b. b < 128) (put_items xs)" "list_all (\<lambda>b. b < 128) (put_members ms)"
  by (induction v and xs and ms rule: put_json_put_items_put_members.induct)
    (simp_all add: put_int_ascii put_bytes_ascii)

lemma ascii_valid_utf8: "list_all (\<lambda>b. b < 128) bs \<Longrightarrow> valid_utf8 bs"
  by (induction bs) (simp_all add: valid_utf8.simps)

theorem json_text_laws: "read_json (put_json v) = Some v" "valid_utf8 (put_json v)"
  using get_put(1) [of v "length (put_json v)" "[]"]
  by (simp_all add: read_json_def ascii_valid_utf8 put_ascii)

section \<open>Texts, options and records as values\<close>

definition text_value :: "string \<Rightarrow> bytes json" where
  "text_value s = JString (ascii s)"

fun value_text :: "bytes json \<Rightarrow> string option" where
  "value_text (JString bs) = Some (map (\<lambda>b. char_of (unat b)) bs)"
| "value_text _ = None"

fun opt_value :: "('a \<Rightarrow> bytes json) \<Rightarrow> 'a option \<Rightarrow> bytes json" where
  "opt_value f None = JNull"
| "opt_value f (Some x) = JArray [f x]"

fun value_opt :: "(bytes json \<Rightarrow> 'a option) \<Rightarrow> bytes json \<Rightarrow> 'a option option" where
  "value_opt g JNull = Some None"
| "value_opt g (JArray [v]) = map_option Some (g v)"
| "value_opt g _ = None"

lemma value_text_of [simp]: "value_text (text_value s) = Some s"
proof -
  have "char_of (unat (of_nat (of_char c) :: 8 word)) = c" for c
    using nat_of_char_less_256 [of c] by (simp add: unat_of_nat)
  then show ?thesis by (simp add: text_value_def ascii_def comp_def)
qed

lemma value_opt_of: "(\<And>x. g (f x) = Some x) \<Longrightarrow> value_opt g (opt_value f xo) = Some xo"
  by (cases xo) simp_all

end
