(* ===== verification/SyncInflight.thy ===== *)
theory SyncInflight
  imports PendingCallbacks JsonText
begin

text \<open>
  Units in flight between two sites: \<open>db/sync_inflight.rs\<close> over \<open>sync_inflight\<close> and
  \<open>sync_delivery_archive\<close>. A row holds what was paid for one unit (translated fields, transferred media), the
  frozen packet and how far its delivery went, so that a restart continues instead of paying again.

  The two JSON columns are sealed with \<open>encrypt_config_value\<close>, inside a document that names the row; older
  rows are plain JSON. The serde encodings are fields of \<open>sync_codec\<close>, of which \<open>codec_laws\<close> says that they
  read back what they print. The map of the media addresses is an association list with unique keys.
\<close>

section \<open>Data\<close>

record relay_translation =
  rt_title :: "bytes option"
  rt_content :: "bytes option"
  rt_excerpt :: "bytes option"

record ship_result =
  sr_success :: bool
  sr_packet_id :: string
  sr_target_id :: "nat option"
  sr_target_url :: "bytes option"
  sr_receipt :: "bytes json option"
  sr_status :: string
  sr_error :: "string option"

record inflight_ctx =
  ic_translation :: "relay_translation option"
  ic_translation_scope :: string
  ic_media_url_map :: "(bytes \<times> bytes) list"
  ic_action :: string
  ic_target_receipt :: "ship_result option"
  ic_delivery_phase :: "string option"

definition default_ctx :: inflight_ctx where
  "default_ctx = \<lparr>ic_translation = None, ic_translation_scope = [], ic_media_url_map = [], ic_action = [],
     ic_target_receipt = None, ic_delivery_phase = None\<rparr>"

record inflight_row =
  si_pair_id :: string
  si_canonical_uuid :: string
  si_phase :: string
  si_ctx_json :: bytes
  si_relayed_json :: bytes
  si_attempts :: int
  si_error :: string
  si_created_at :: int
  si_updated_at :: int

record archive_row =
  sa_evidence_key :: string
  sa_pair_id :: string
  sa_canonical_uuid :: string
  sa_ctx_json :: bytes
  sa_relayed_json :: bytes
  sa_attempts :: int
  sa_error :: string
  sa_created_at :: int
  sa_updated_at :: int
  sa_closed_at :: int

record sync_db =
  inflight :: "inflight_row list"
  archive :: "archive_row list"

record sync_codec =
  sx_crates :: crates
  sx_sources :: secret_sources
  sx_print :: "bytes json \<Rightarrow> bytes"
  sx_read :: "bytes \<Rightarrow> bytes json option"
  ctx_value :: "inflight_ctx \<Rightarrow> bytes json"
  value_ctx :: "bytes json \<Rightarrow> inflight_ctx option"
  receipt_value :: "ship_result \<Rightarrow> bytes json"
  print_original :: "string \<Rightarrow> string \<Rightarrow> bytes \<times> bytes \<times> int \<times> string \<times> int \<times> int \<Rightarrow> bytes"

section \<open>Evidence\<close>

text \<open>\<open>value[key]\<close>: null when there is no such member.\<close>

definition member :: "bytes json \<Rightarrow> string \<Rightarrow> bytes json" where
  "member v k = (case v of
     JObject ms \<Rightarrow> (case map_of ms (ascii k) of None \<Rightarrow> JNull | Some x \<Rightarrow> x)
   | _ \<Rightarrow> JNull)"

definition jtext :: "string \<Rightarrow> bytes json" where
  "jtext s = JString (utf8_bytes s)"

definition evidence_doc :: "string \<Rightarrow> string \<Rightarrow> string \<Rightarrow> bytes json \<Rightarrow> bytes json" where
  "evidence_doc pair uuid kind v = JObject
     [(ascii ''format'', jtext ''sync-evidence-v1''), (ascii ''pair'', jtext pair), (ascii ''uuid'', jtext uuid),
      (ascii ''kind'', jtext kind), (ascii ''value'', v)]"

definition encode_evidence ::
  "sync_codec \<Rightarrow> bytes \<Rightarrow> string \<Rightarrow> string \<Rightarrow> string \<Rightarrow> bytes json \<Rightarrow> (sync_db, bytes) dbm" where
  "encode_evidence cx nonce pair uuid kind v =
     (case encrypt_config_value (sx_crates cx) (sx_sources cx) nonce (sx_print cx (evidence_doc pair uuid kind v)) of
        Inl _ \<Rightarrow> fail KeyFailure
      | Inr raw \<Rightarrow> ret raw)"

text \<open>\<open>raw.trim_start().starts_with('{')\<close>; \<open>trim_start\<close> drops the Unicode white space.\<close>

definition wide_space :: "8 word \<Rightarrow> 8 word \<Rightarrow> 8 word \<Rightarrow> bool" where
  "wide_space a b c \<longleftrightarrow> (a = 0xE1 \<and> b = 0x9A \<and> c = 0x80)
     \<or> (a = 0xE2 \<and> b = 0x80 \<and> ((0x80 \<le> c \<and> c \<le> 0x8A) \<or> c \<in> {0xA8, 0xA9, 0xAF}))
     \<or> (a = 0xE2 \<and> b = 0x81 \<and> c = 0x9F) \<or> (a = 0xE3 \<and> b = 0x80 \<and> c = 0x80)"

fun trim_start :: "bytes \<Rightarrow> bytes" where
  "trim_start [] = []"
| "trim_start (a # r) =
     (if a \<in> {9, 10, 11, 12, 13, 32} then trim_start r
      else case r of
        b # r2 \<Rightarrow>
          if a = 0xC2 \<and> b \<in> {0x85, 0xA0} then trim_start r2
          else (case r2 of c # r3 \<Rightarrow> if wide_space a b c then trim_start r3 else a # r | [] \<Rightarrow> a # r)
      | [] \<Rightarrow> a # r)"

declare trim_start.simps [simp del]

definition plain_json :: "bytes \<Rightarrow> bool" where
  "plain_json raw = (case trim_start raw of [] \<Rightarrow> False | b # _ \<Rightarrow> b = 123)"

definition open_evidence :: "sync_codec \<Rightarrow> string \<Rightarrow> string \<Rightarrow> string \<Rightarrow> bytes \<Rightarrow> db_error + bytes json" where
  "open_evidence cx pair uuid kind raw =
     (case decrypt_config_value (sx_crates cx) (sx_sources cx) raw of
        Inl _ \<Rightarrow> Inl KeyFailure
      | Inr plain \<Rightarrow>
          (case sx_read cx plain of
             None \<Rightarrow> Inl DamagedRow
           | Some v \<Rightarrow>
               if member v ''format'' = jtext ''sync-evidence-v1'' \<and> member v ''pair'' = jtext pair
                 \<and> member v ''uuid'' = jtext uuid \<and> member v ''kind'' = jtext kind
               then Inr (member v ''value'') else Inl Conflict))"

definition decode_context :: "sync_codec \<Rightarrow> string \<Rightarrow> string \<Rightarrow> bytes \<Rightarrow> db_error + inflight_ctx" where
  "decode_context cx pair uuid raw =
     (case (if plain_json raw
            then (case sx_read cx raw of None \<Rightarrow> Inl DamagedRow | Some v \<Rightarrow> Inr v)
            else open_evidence cx pair uuid ''context'' raw) of
        Inl e \<Rightarrow> Inl e
      | Inr v \<Rightarrow> (case value_ctx cx v of None \<Rightarrow> Inl DamagedRow | Some ctx \<Rightarrow> Inr ctx))"

definition decode_packet :: "sync_codec \<Rightarrow> string \<Rightarrow> string \<Rightarrow> bytes \<Rightarrow> db_error + bytes" where
  "decode_packet cx pair uuid raw =
     (if plain_json raw
      then (case sx_read cx raw of None \<Rightarrow> Inl DamagedRow | Some _ \<Rightarrow> Inr raw)
      else case open_evidence cx pair uuid ''packet'' raw of
        Inl e \<Rightarrow> Inl e
      | Inr v \<Rightarrow> (case v of JString s \<Rightarrow> Inr s | _ \<Rightarrow> Inl DamagedRow))"

definition packet_of :: "sync_codec \<Rightarrow> string \<Rightarrow> string \<Rightarrow> bytes \<Rightarrow> db_error + bytes" where
  "packet_of cx pair uuid raw = (if raw = [] then Inr [] else decode_packet cx pair uuid raw)"

text \<open>
  What the code relies on: the crates' laws, JSON text that reads back and is well-formed UTF-8, contexts that
  read back, and that the Base64 text of an envelope begins with the six characters the code looks for.
\<close>

definition codec_laws :: "sync_codec \<Rightarrow> bool" where
  "codec_laws cx \<longleftrightarrow> crate_laws (sx_crates cx)
     \<and> (\<forall>v. sx_read cx (sx_print cx v) = Some v \<and> valid_utf8 (sx_print cx v))
     \<and> (\<forall>ctx. value_ctx cx (ctx_value cx ctx) = Some ctx)
     \<and> (\<forall>r. sealed (base64_encode (sx_crates cx) (WPTC_MAGIC @ WPTC_VERSION # r)))"

section \<open>Operations\<close>

definition lift_read :: "(db_error + 'a) \<Rightarrow> ('s, 'a) dbm" where
  "lift_read r = (case r of Inl e \<Rightarrow> fail e | Inr a \<Rightarrow> ret a)"

definition of_unit :: "string \<Rightarrow> string \<Rightarrow> inflight_row \<Rightarrow> bool" where
  "of_unit pair uuid r \<longleftrightarrow> si_pair_id r = pair \<and> si_canonical_uuid r = uuid"

definition select_unit :: "string \<Rightarrow> string \<Rightarrow> (sync_db, inflight_row option) dbm" where
  "select_unit pair uuid = query (\<lambda>s. find (of_unit pair uuid) (inflight s))"

definition require_unit :: "string \<Rightarrow> string \<Rightarrow> (sync_db, inflight_row) dbm" where
  "require_unit pair uuid = execute (\<lambda>now s.
     (case find (of_unit pair uuid) (inflight s) of None \<Rightarrow> Inl NoRows | Some r \<Rightarrow> Inr (r, s)))"

definition update_units ::
  "(inflight_row \<Rightarrow> bool) \<Rightarrow> (int \<Rightarrow> inflight_row \<Rightarrow> inflight_row) \<Rightarrow> (sync_db, nat) dbm" where
  "update_units p f = execute (\<lambda>now s.
     (case update_where p (f (unix_ts now)) (inflight s) of (changed, rows) \<Rightarrow> Inr (changed, s\<lparr>inflight := rows\<rparr>)))"

definition insert_unit :: "(int \<Rightarrow> inflight_row) \<Rightarrow> (sync_db, unit) dbm" where
  "insert_unit mk = execute (\<lambda>now s.
     let r = mk (unix_ts now) in
     if \<exists>q \<in> set (inflight s). of_unit (si_pair_id r) (si_canonical_uuid r) q then Inl UniqueViolation
     else Inr ((), s\<lparr>inflight := inflight s @ [r]\<rparr>))"

definition begin_shipping_scoped :: "sync_codec \<Rightarrow> bytes \<Rightarrow> string \<Rightarrow> string \<Rightarrow> string \<Rightarrow> (sync_db, unit) dbm" where
  "begin_shipping_scoped cx nonce pair uuid scope = savepoint
     (bind (select_unit pair uuid) (\<lambda>prior.
      seq (case prior of None \<Rightarrow> ret () | Some r \<Rightarrow>
             seq (ensure (si_phase r = ''shipping'') DamagedRow)
            (bind (lift_read (decode_context cx pair uuid (si_ctx_json r))) (\<lambda>ctx.
             ensure (scope = [] \<or> ic_translation_scope ctx = scope) Conflict)))
     (bind (update_units (of_unit pair uuid) (\<lambda>now r. r\<lparr>si_attempts := si_attempts r + 1, si_phase := ''shipping'',
             si_error := [], si_updated_at := now\<rparr>)) (\<lambda>updated.
      if updated = 0
      then
        bind (encode_evidence cx nonce pair uuid ''context''
               (ctx_value cx (default_ctx\<lparr>ic_translation_scope := scope\<rparr>))) (\<lambda>ctx.
        insert_unit (\<lambda>now. \<lparr>si_pair_id = pair, si_canonical_uuid = uuid, si_phase = ''shipping'', si_ctx_json = ctx,
          si_relayed_json = [], si_attempts = 1, si_error = [], si_created_at = now, si_updated_at = now\<rparr>))
      else ret ()))))"

definition begin_shipping :: "sync_codec \<Rightarrow> bytes \<Rightarrow> string \<Rightarrow> string \<Rightarrow> (sync_db, unit) dbm" where
  "begin_shipping cx nonce pair uuid = begin_shipping_scoped cx nonce pair uuid []"

record inflight_view =
  iv_ctx :: inflight_ctx
  iv_relayed_json :: bytes
  iv_attempts :: int

definition view_of :: "sync_codec \<Rightarrow> string \<Rightarrow> string \<Rightarrow> inflight_row \<Rightarrow> db_error + inflight_view" where
  "view_of cx pair uuid r =
     (case decode_context cx pair uuid (si_ctx_json r) of
        Inl e \<Rightarrow> Inl e
      | Inr ctx \<Rightarrow>
          (case packet_of cx pair uuid (si_relayed_json r) of
             Inl e \<Rightarrow> Inl e
           | Inr p \<Rightarrow> Inr \<lparr>iv_ctx = ctx, iv_relayed_json = p, iv_attempts = si_attempts r\<rparr>))"

definition find_shipping :: "sync_codec \<Rightarrow> string \<Rightarrow> string \<Rightarrow> (sync_db, inflight_view option) dbm" where
  "find_shipping cx pair uuid =
     bind (select_unit pair uuid) (\<lambda>found.
     case found of
       None \<Rightarrow> ret None
     | Some r \<Rightarrow>
         seq (ensure (si_phase r = ''shipping'') DamagedRow)
        (bind (lift_read (view_of cx pair uuid r)) (\<lambda>v. ret (Some v))))"

primrec views :: "sync_codec \<Rightarrow> string \<Rightarrow> inflight_row list \<Rightarrow> db_error + (string \<times> inflight_view) list" where
  "views cx pair [] = Inr []"
| "views cx pair (r # rs) =
     (case view_of cx pair (si_canonical_uuid r) r of
        Inl e \<Rightarrow> Inl e
      | Inr v \<Rightarrow> (case views cx pair rs of Inl e \<Rightarrow> Inl e | Inr vs \<Rightarrow> Inr ((si_canonical_uuid r, v) # vs)))"

definition list_pair_shipping :: "sync_codec \<Rightarrow> string \<Rightarrow> (sync_db, (string \<times> inflight_view) list) dbm" where
  "list_pair_shipping cx pair =
     bind (query (\<lambda>s. sort_key si_created_at
         (filter (\<lambda>r. si_pair_id r = pair \<and> si_phase r = ''shipping'') (inflight s)))) (\<lambda>rows.
     lift_read (views cx pair rows))"

text \<open>\<open>merge_ctx\<close>: the row is compared with what was read when it is written, and read back.\<close>

definition merge_ctx ::
  "sync_codec \<Rightarrow> bytes \<Rightarrow> string \<Rightarrow> string \<Rightarrow> (inflight_ctx \<Rightarrow> bytes \<Rightarrow> db_error + inflight_ctx) \<Rightarrow> (sync_db, unit) dbm" where
  "merge_ctx cx nonce pair uuid merge = savepoint
     (bind (require_unit pair uuid) (\<lambda>r.
      bind (lift_read (decode_context cx pair uuid (si_ctx_json r))) (\<lambda>ctx.
      bind (lift_read (packet_of cx pair uuid (si_relayed_json r))) (\<lambda>packet.
      bind (lift_read (merge ctx packet)) (\<lambda>ctx'.
      bind (encode_evidence cx nonce pair uuid ''context'' (ctx_value cx ctx')) (\<lambda>encoded.
      bind (update_units (\<lambda>q. of_unit pair uuid q \<and> si_ctx_json q = si_ctx_json r \<and> si_phase q = ''shipping''
              \<and> si_relayed_json q = si_relayed_json r)
              (\<lambda>now q. q\<lparr>si_ctx_json := encoded, si_updated_at := now\<rparr>)) (\<lambda>affected.
      seq (ensure (affected = 1) NotCommitted)
     (bind (require_unit pair uuid) (\<lambda>saved.
      ensure (si_ctx_json saved = encoded) NotCommitted)))))))))"

definition keeps_field :: "bytes option \<Rightarrow> bytes option \<Rightarrow> bool" where
  "keeps_field prior new \<longleftrightarrow> prior = None \<or> new = prior"

definition keeps_fields :: "relay_translation \<Rightarrow> relay_translation \<Rightarrow> bool" where
  "keeps_fields prior new \<longleftrightarrow> keeps_field (rt_title prior) (rt_title new)
     \<and> keeps_field (rt_content prior) (rt_content new) \<and> keeps_field (rt_excerpt prior) (rt_excerpt new)"

definition merge_translation :: "relay_translation \<Rightarrow> inflight_ctx \<Rightarrow> bytes \<Rightarrow> db_error + inflight_ctx" where
  "merge_translation t ctx packet =
     (if (case ic_translation ctx of None \<Rightarrow> True | Some prior \<Rightarrow> keeps_fields prior t)
      then Inr (ctx\<lparr>ic_translation := Some t\<rparr>) else Inl Conflict)"

definition store_translation :: "sync_codec \<Rightarrow> bytes \<Rightarrow> string \<Rightarrow> string \<Rightarrow> relay_translation \<Rightarrow> (sync_db, unit) dbm" where
  "store_translation cx nonce pair uuid t = merge_ctx cx nonce pair uuid (merge_translation t)"

definition merge_scope_text :: "string \<Rightarrow> inflight_ctx \<Rightarrow> bytes \<Rightarrow> db_error + inflight_ctx" where
  "merge_scope_text scope ctx packet =
     (if ic_translation_scope ctx = [] \<or> ic_translation_scope ctx = scope
      then Inr (ctx\<lparr>ic_translation_scope := scope\<rparr>) else Inl Conflict)"

definition store_translation_scope :: "sync_codec \<Rightarrow> bytes \<Rightarrow> string \<Rightarrow> string \<Rightarrow> string \<Rightarrow> (sync_db, unit) dbm" where
  "store_translation_scope cx nonce pair uuid scope = merge_ctx cx nonce pair uuid (merge_scope_text scope)"

definition merge_media :: "bytes \<Rightarrow> bytes \<Rightarrow> inflight_ctx \<Rightarrow> bytes \<Rightarrow> db_error + inflight_ctx" where
  "merge_media remote target ctx packet =
     (case map_of (ic_media_url_map ctx) remote of
        None \<Rightarrow> Inr (ctx\<lparr>ic_media_url_map := ic_media_url_map ctx @ [(remote, target)]\<rparr>)
      | Some prior \<Rightarrow> if prior = target then Inr ctx else Inl Conflict)"

definition store_media_entry :: "sync_codec \<Rightarrow> bytes \<Rightarrow> string \<Rightarrow> string \<Rightarrow> bytes \<Rightarrow> bytes \<Rightarrow> (sync_db, unit) dbm" where
  "store_media_entry cx nonce pair uuid remote target = merge_ctx cx nonce pair uuid (merge_media remote target)"

text \<open>A receipt is a committed completion of this unit, and of the packet that was frozen for it.\<close>

definition committed_receipt :: "string \<Rightarrow> ship_result \<Rightarrow> bytes json \<Rightarrow> bool" where
  "committed_receipt uuid r payload \<longleftrightarrow> sr_success r \<and> member payload ''committed'' = JBool True
     \<and> member payload ''packet_id'' = jtext (sr_packet_id r) \<and> member payload ''canonical_uuid'' = jtext uuid
     \<and> member payload ''status'' \<in> {jtext ''success'', jtext ''skipped''}"

definition receipt_of_packet :: "bytes json \<Rightarrow> bytes json \<Rightarrow> bool" where
  "receipt_of_packet payload packet \<longleftrightarrow>
     member payload ''packet_id'' = member packet ''packet_id''
     \<and> member payload ''fingerprint_ack'' = member packet ''source_fingerprint''
     \<and> member payload ''origin_site_uuid'' = member (member packet ''origin_context'') ''origin_site_uuid''
     \<and> member payload ''target_lang'' = member packet ''target_lang''"

definition merge_receipt :: "sync_codec \<Rightarrow> ship_result \<Rightarrow> bytes json \<Rightarrow> inflight_ctx \<Rightarrow> bytes \<Rightarrow> db_error + inflight_ctx" where
  "merge_receipt cx r payload ctx relayed =
     (if ic_delivery_phase ctx = Some ''submitted'' \<and> relayed \<noteq> [] then
        (case sx_read cx relayed of
           None \<Rightarrow> Inl DamagedRow
         | Some packet \<Rightarrow>
             if \<not> receipt_of_packet payload packet then Inl Conflict
             else case ic_target_receipt ctx of
               Some prior \<Rightarrow> if receipt_value cx prior = receipt_value cx r then Inr ctx else Inl Conflict
             | None \<Rightarrow> Inr (ctx\<lparr>ic_target_receipt := Some r\<rparr>))
      else Inl InvalidRequest)"

definition store_target_receipt :: "sync_codec \<Rightarrow> bytes \<Rightarrow> string \<Rightarrow> string \<Rightarrow> ship_result \<Rightarrow> (sync_db, unit) dbm" where
  "store_target_receipt cx nonce pair uuid r =
     (case sr_receipt r of
        None \<Rightarrow> fail InvalidRequest
      | Some payload \<Rightarrow>
          if \<not> committed_receipt uuid r payload then fail InvalidRequest
          else merge_ctx cx nonce pair uuid (merge_receipt cx r payload))"

definition merge_submitted :: "inflight_ctx \<Rightarrow> bytes \<Rightarrow> db_error + inflight_ctx" where
  "merge_submitted ctx relayed =
     (if relayed \<noteq> [] \<and> ic_delivery_phase ctx \<in> {Some ''prepared'', Some ''submitted''}
      then Inr (ctx\<lparr>ic_delivery_phase := Some ''submitted''\<rparr>) else Inl InvalidRequest)"

definition mark_submitted :: "sync_codec \<Rightarrow> bytes \<Rightarrow> string \<Rightarrow> string \<Rightarrow> (sync_db, unit) dbm" where
  "mark_submitted cx nonce pair uuid = merge_ctx cx nonce pair uuid merge_submitted"

text \<open>The packet is frozen once; an identical packet is accepted without a write.\<close>

definition store_relayed_packet ::
  "sync_codec \<Rightarrow> bytes \<Rightarrow> bytes \<Rightarrow> string \<Rightarrow> string \<Rightarrow> string \<Rightarrow> bytes \<Rightarrow> (sync_db, unit) dbm" where
  "store_relayed_packet cx nonce1 nonce2 pair uuid action relayed = savepoint
     (bind (require_unit pair uuid) (\<lambda>r.
      if si_relayed_json r \<noteq> [] then
        bind (lift_read (decode_packet cx pair uuid (si_relayed_json r))) (\<lambda>prior.
        ensure (prior = relayed) Conflict)
      else
        bind (lift_read (decode_context cx pair uuid (si_ctx_json r))) (\<lambda>ctx.
        bind (encode_evidence cx nonce1 pair uuid ''context''
               (ctx_value cx (ctx\<lparr>ic_action := action, ic_delivery_phase := Some ''prepared''\<rparr>))) (\<lambda>ctx_json.
        bind (encode_evidence cx nonce2 pair uuid ''packet'' (JString relayed)) (\<lambda>packet_json.
        bind (update_units (\<lambda>q. of_unit pair uuid q \<and> si_ctx_json q = si_ctx_json r \<and> si_relayed_json q = []
                \<and> si_phase q = ''shipping'')
                (\<lambda>now q. q\<lparr>si_ctx_json := ctx_json, si_relayed_json := packet_json, si_updated_at := now\<rparr>)) (\<lambda>changed.
        seq (ensure (changed = 1) NotCommitted)
       (bind (require_unit pair uuid) (\<lambda>saved.
        ensure (si_ctx_json saved = ctx_json \<and> si_relayed_json saved = packet_json) NotCommitted))))))))"

definition note_error :: "string \<Rightarrow> string \<Rightarrow> string \<Rightarrow> (sync_db, unit) dbm" where
  "note_error pair uuid snippet =
     bind (update_units (of_unit pair uuid) (\<lambda>now r. r\<lparr>si_error := snippet, si_updated_at := now\<rparr>)) (\<lambda>changed.
     ensure (changed = 1) NotCommitted)"

definition original_of :: "inflight_row \<Rightarrow> bytes \<times> bytes \<times> int \<times> string \<times> int \<times> int" where
  "original_of r = (si_ctx_json r, si_relayed_json r, si_attempts r, si_error r, si_created_at r, si_updated_at r)"

definition archived_original :: "archive_row \<Rightarrow> bytes \<times> bytes \<times> int \<times> string \<times> int \<times> int" where
  "archived_original a = (sa_ctx_json a, sa_relayed_json a, sa_attempts a, sa_error a, sa_created_at a, sa_updated_at a)"

text \<open>\<open>INSERT OR IGNORE\<close> by the evidence key.\<close>

definition archive_unit :: "string \<Rightarrow> inflight_row \<Rightarrow> (sync_db, unit) dbm" where
  "archive_unit key r = execute (\<lambda>now s.
     if key \<in> sa_evidence_key ` set (archive s) then Inr ((), s)
     else Inr ((), s\<lparr>archive := archive s @ [\<lparr>sa_evidence_key = key, sa_pair_id = si_pair_id r,
       sa_canonical_uuid = si_canonical_uuid r, sa_ctx_json = si_ctx_json r, sa_relayed_json = si_relayed_json r,
       sa_attempts = si_attempts r, sa_error = si_error r, sa_created_at = si_created_at r,
       sa_updated_at = si_updated_at r, sa_closed_at = unix_ts now\<rparr>]\<rparr>))"

definition select_archived :: "string \<Rightarrow> string \<Rightarrow> string \<Rightarrow> (sync_db, archive_row) dbm" where
  "select_archived key pair uuid = execute (\<lambda>now s.
     (case find (\<lambda>a. sa_evidence_key a = key \<and> sa_pair_id a = pair \<and> sa_canonical_uuid a = uuid) (archive s) of
        None \<Rightarrow> Inl NoRows | Some a \<Rightarrow> Inr (a, s)))"

definition close_shipping :: "sync_codec \<Rightarrow> string \<Rightarrow> string \<Rightarrow> (sync_db, unit) dbm" where
  "close_shipping cx pair uuid = savepoint
     (bind (execute (\<lambda>now s.
         (case find (\<lambda>r. of_unit pair uuid r \<and> si_phase r = ''shipping'') (inflight s) of
            None \<Rightarrow> Inl NoRows | Some r \<Rightarrow> Inr (r, s)))) (\<lambda>r.
      bind (lift_read (decode_context cx pair uuid (si_ctx_json r))) (\<lambda>_.
      bind (lift_read (packet_of cx pair uuid (si_relayed_json r))) (\<lambda>_.
      let key = sha256_hex (sx_crates cx) (print_original cx pair uuid (original_of r)) in
      seq (archive_unit key r)
     (bind (select_archived key pair uuid) (\<lambda>saved.
      seq (ensure (archived_original saved = original_of r) NotCommitted)
     (bind (execute (\<lambda>now s.
         let gone = (\<lambda>q. of_unit pair uuid q \<and> si_phase q = ''shipping'' \<and> si_ctx_json q = si_ctx_json r
                       \<and> si_relayed_json q = si_relayed_json r) in
         Inr (length (filter gone (inflight s)), s\<lparr>inflight := filter (\<lambda>q. \<not> gone q) (inflight s)\<rparr>))) (\<lambda>changed.
      ensure (changed = 1) NotCommitted))))))))"

definition sync_inflight_inventory :: "(sync_db, int) dbm" where
  "sync_inflight_inventory = query (\<lambda>s. count_where (\<lambda>r. si_phase r = ''shipping'') (inflight s))"

section \<open>Evidence reads back\<close>

lemma lift_read_Inr [run_simps]: "lift_read r env n s = (Inr a, n', s') \<longleftrightarrow> r = Inr a \<and> n' = n \<and> s' = s"
  by (auto simp: lift_read_def fail_Inr ret_Inr split: sum.splits)

lemma encode_evidence_Inr [run_simps]:
  "encode_evidence cx nonce pair uuid kind v env n s = (Inr raw, n', s') \<longleftrightarrow>
     encrypt_config_value (sx_crates cx) (sx_sources cx) nonce (sx_print cx (evidence_doc pair uuid kind v)) = Inr raw
     \<and> n' = n \<and> s' = s"
  by (auto simp: encode_evidence_def run_simps split: sum.splits)

lemma member_doc:
  "member (evidence_doc pair uuid kind v) ''format'' = jtext ''sync-evidence-v1''"
  "member (evidence_doc pair uuid kind v) ''pair'' = jtext pair"
  "member (evidence_doc pair uuid kind v) ''uuid'' = jtext uuid"
  "member (evidence_doc pair uuid kind v) ''kind'' = jtext kind"
  "member (evidence_doc pair uuid kind v) ''value'' = v"
  by (simp_all add: member_def evidence_doc_def ascii_def)

lemma open_own_evidence:
  assumes "codec_laws cx" "length nonce = 12"
    "encrypt_config_value (sx_crates cx) (sx_sources cx) nonce (sx_print cx (evidence_doc pair uuid kind v)) = Inr raw"
  shows "open_evidence cx pair uuid kind raw = Inr v" "\<not> plain_json raw" "raw \<noteq> []"
proof -
  have "decrypt_config_value (sx_crates cx) (sx_sources cx) raw = Inr (sx_print cx (evidence_doc pair uuid kind v))"
    using assms by (intro decrypt_own_value [OF assms(3,2)]) (simp_all add: codec_laws_def)
  then show "open_evidence cx pair uuid kind raw = Inr v"
    using assms(1) by (simp add: open_evidence_def codec_laws_def member_doc)
  have "sealed raw"
    using assms(1,3) by (auto simp: encrypt_config_value_def encrypt_for_save_def codec_laws_def split: sum.splits option.splits)
  then have "raw = 86 # 49 # 66 # 85 # 81 # 119 # drop 6 raw"
    using append_take_drop_id [of 6 raw] by (simp add: sealed_def ascii_def)
  then obtain r where "raw = 86 # 49 # 66 # 85 # 81 # 119 # r" ..
  then show "\<not> plain_json raw" "raw \<noteq> []"
    by (simp_all add: plain_json_def trim_start.simps wide_space_def)
qed

lemma decode_own_context:
  assumes "codec_laws cx" "length nonce = 12"
    "encrypt_config_value (sx_crates cx) (sx_sources cx) nonce
       (sx_print cx (evidence_doc pair uuid ''context'' (ctx_value cx ctx))) = Inr raw"
  shows "decode_context cx pair uuid raw = Inr ctx"
  using open_own_evidence [OF assms] assms(1) by (simp add: decode_context_def codec_laws_def)

lemma decode_own_packet:
  assumes "codec_laws cx" "length nonce = 12"
    "encrypt_config_value (sx_crates cx) (sx_sources cx) nonce
       (sx_print cx (evidence_doc pair uuid ''packet'' (JString p))) = Inr raw"
  shows "packet_of cx pair uuid raw = Inr p" "raw \<noteq> []"
  using open_own_evidence [OF assms] by (simp_all add: packet_of_def decode_packet_def)

section \<open>What a committed operation did to the rows\<close>

lemma require_unit_Inr [run_simps]:
  "require_unit pair uuid env n s = (Inr r, n', s') \<longleftrightarrow>
     \<not> fault env n \<and> n' = Suc n \<and> s' = s \<and> find (of_unit pair uuid) (inflight s) = Some r"
  by (auto simp: require_unit_def execute_Inr split: option.splits)

lemma select_unit_Inr [run_simps]:
  "select_unit pair uuid env n s = (Inr r, n', s') \<longleftrightarrow>
     \<not> fault env n \<and> n' = Suc n \<and> s' = s \<and> r = find (of_unit pair uuid) (inflight s)"
  by (auto simp: select_unit_def query_Inr)

lemma update_units_Inr [run_simps]:
  "update_units p f env n s = (Inr k, n', s') \<longleftrightarrow>
     \<not> fault env n \<and> n' = Suc n \<and> k = length (filter p (inflight s))
     \<and> s' = s\<lparr>inflight := map (\<lambda>r. if p r then f (unix_ts (clock env n)) r else r) (inflight s)\<rparr>"
  by (auto simp: update_units_def execute_Inr update_where_def)

text \<open>The table with the row of a unit replaced.\<close>

definition set_unit :: "string \<Rightarrow> string \<Rightarrow> inflight_row \<Rightarrow> sync_db \<Rightarrow> sync_db" where
  "set_unit pair uuid r s = s\<lparr>inflight := map (\<lambda>q. if of_unit pair uuid q then r else q) (inflight s)\<rparr>"

definition unit_key :: "inflight_row \<Rightarrow> string \<times> string" where
  "unit_key r = (si_pair_id r, si_canonical_uuid r)"

lemma of_unit_key: "of_unit pair uuid r \<longleftrightarrow> unit_key r = (pair, uuid)"
  by (auto simp: of_unit_def unit_key_def)

lemma same_unit:
  "distinct (map unit_key rows) \<Longrightarrow> find (of_unit pair uuid) rows = Some r \<Longrightarrow>
    q \<in> set rows \<Longrightarrow> of_unit pair uuid q \<Longrightarrow> q = r"
  by (metis distinct_key_eq find_SomeD of_unit_key)

text \<open>A compare-and-set of the unit that was read replaces it.\<close>

lemma compare_and_set:
  assumes "distinct (map unit_key (inflight s))" "find (of_unit pair uuid) (inflight s) = Some r"
    "length (filter (\<lambda>q. of_unit pair uuid q \<and> p q) (inflight s)) = 1"
  shows "map (\<lambda>q. if of_unit pair uuid q \<and> p q then f q else q) (inflight s) = inflight (set_unit pair uuid (f r) s) \<and> p r"
proof -
  from assms(3) obtain q where "q \<in> set (inflight s)" "of_unit pair uuid q" "p q"
    by (metis (mono_tags, lifting) One_nat_def filter_empty_conv length_0_conv nat.distinct(1))
  with same_unit [OF assms(1,2)] have "p r" by blast
  moreover have "(if of_unit pair uuid q \<and> p q then f q else q) = (if of_unit pair uuid q then f r else q)"
    if "q \<in> set (inflight s)" for q
    using same_unit [OF assms(1,2) that] \<open>p r\<close> by auto
  ultimately show ?thesis by (simp add: set_unit_def)
qed

lemma merge_Inr:
  assumes "codec_laws cx" "length nonce = 12" "distinct (map unit_key (inflight s))"
    "merge_ctx cx nonce pair uuid merge env n s = (Inr u, n', s')"
  obtains r ctx packet ctx' r' where "find (of_unit pair uuid) (inflight s) = Some r" "si_phase r = ''shipping''"
    "decode_context cx pair uuid (si_ctx_json r) = Inr ctx" "packet_of cx pair uuid (si_relayed_json r) = Inr packet"
    "merge ctx packet = Inr ctx'" "s' = set_unit pair uuid r' s" "unit_key r' = unit_key r"
    "si_phase r' = ''shipping''" "si_relayed_json r' = si_relayed_json r"
    "decode_context cx pair uuid (si_ctx_json r') = Inr ctx'"
proof -
  from assms(4) obtain r ctx packet ctx' raw now where
    r: "find (of_unit pair uuid) (inflight s) = Some r" and
    dec: "decode_context cx pair uuid (si_ctx_json r) = Inr ctx" "packet_of cx pair uuid (si_relayed_json r) = Inr packet"
      "merge ctx packet = Inr ctx'" and
    enc: "encrypt_config_value (sx_crates cx) (sx_sources cx) nonce
       (sx_print cx (evidence_doc pair uuid ''context'' (ctx_value cx ctx'))) = Inr raw" and
    one: "length (filter (\<lambda>q. of_unit pair uuid q \<and> (si_ctx_json q = si_ctx_json r \<and> si_phase q = ''shipping''
         \<and> si_relayed_json q = si_relayed_json r)) (inflight s)) = 1" and
    s': "s' = s\<lparr>inflight := map (\<lambda>q. if of_unit pair uuid q \<and> (si_ctx_json q = si_ctx_json r \<and> si_phase q = ''shipping''
         \<and> si_relayed_json q = si_relayed_json r) then q\<lparr>si_ctx_json := raw, si_updated_at := now\<rparr> else q) (inflight s)\<rparr>"
    unfolding merge_ctx_def by (auto simp: run_simps)
  let ?f = "\<lambda>q. q\<lparr>si_ctx_json := raw, si_updated_at := now\<rparr>"
  from compare_and_set [OF assms(3) r one, where f = ?f]
  have "s' = set_unit pair uuid (?f r) s" "si_phase r = ''shipping''"
    unfolding s' by (simp_all add: set_unit_def)
  with r dec decode_own_context [OF assms(1,2) enc] show thesis
    by (intro that [where r' = "?f r"]) (auto simp: unit_key_def)
qed

section \<open>The unit as a state machine\<close>

text \<open>
  What a row says of its unit: nothing, or the paid evidence and the frozen packet. The machine below is the
  comment of the source file, made exact; the operations on the tables refine it.
\<close>

type_synonym unit_state = "(inflight_ctx \<times> bytes option) option"

datatype sync_op =
    Admit bytes string string string
  | Translated bytes string string relay_translation
  | Scoped bytes string string string
  | MediaDone bytes string string bytes bytes
  | Freeze bytes bytes string string string bytes
  | Submitted bytes string string
  | Receipt bytes string string ship_result
  | Failed string string string
  | Close string string
  | Look string string
  | ListPair string
  | Inventory

fun sync_step :: "sync_codec \<Rightarrow> sync_op \<Rightarrow> (sync_db, unit) dbm" where
  "sync_step cx (Admit nonce pair uuid scope) = begin_shipping_scoped cx nonce pair uuid scope"
| "sync_step cx (Translated nonce pair uuid t) = store_translation cx nonce pair uuid t"
| "sync_step cx (Scoped nonce pair uuid scope) = store_translation_scope cx nonce pair uuid scope"
| "sync_step cx (MediaDone nonce pair uuid remote target) = store_media_entry cx nonce pair uuid remote target"
| "sync_step cx (Freeze nonce1 nonce2 pair uuid action p) = store_relayed_packet cx nonce1 nonce2 pair uuid action p"
| "sync_step cx (Submitted nonce pair uuid) = mark_submitted cx nonce pair uuid"
| "sync_step cx (Receipt nonce pair uuid r) = store_target_receipt cx nonce pair uuid r"
| "sync_step cx (Failed pair uuid snippet) = note_error pair uuid snippet"
| "sync_step cx (Close pair uuid) = close_shipping cx pair uuid"
| "sync_step cx (Look pair uuid) = discard (find_shipping cx pair uuid)"
| "sync_step cx (ListPair pair) = discard (list_pair_shipping cx pair)"
| "sync_step cx Inventory = discard sync_inflight_inventory"

fun op_unit :: "sync_op \<Rightarrow> (string \<times> string) option" where
  "op_unit (Admit nonce pair uuid scope) = Some (pair, uuid)"
| "op_unit (Translated nonce pair uuid t) = Some (pair, uuid)"
| "op_unit (Scoped nonce pair uuid scope) = Some (pair, uuid)"
| "op_unit (MediaDone nonce pair uuid remote target) = Some (pair, uuid)"
| "op_unit (Freeze nonce1 nonce2 pair uuid action p) = Some (pair, uuid)"
| "op_unit (Submitted nonce pair uuid) = Some (pair, uuid)"
| "op_unit (Receipt nonce pair uuid r) = Some (pair, uuid)"
| "op_unit (Failed pair uuid snippet) = Some (pair, uuid)"
| "op_unit (Close pair uuid) = Some (pair, uuid)"
| "op_unit _ = None"

text \<open>The nonces are the twelve bytes of the generator.\<close>

fun op_nonces :: "sync_op \<Rightarrow> bytes list" where
  "op_nonces (Admit nonce pair uuid scope) = [nonce]"
| "op_nonces (Translated nonce pair uuid t) = [nonce]"
| "op_nonces (Scoped nonce pair uuid scope) = [nonce]"
| "op_nonces (MediaDone nonce pair uuid remote target) = [nonce]"
| "op_nonces (Freeze nonce1 nonce2 pair uuid action p) = [nonce1, nonce2]"
| "op_nonces (Submitted nonce pair uuid) = [nonce]"
| "op_nonces (Receipt nonce pair uuid r) = [nonce]"
| "op_nonces _ = []"

definition good_nonces :: "sync_op \<Rightarrow> bool" where
  "good_nonces x \<longleftrightarrow> list_all (\<lambda>k. length k = 12) (op_nonces x)"

definition packet_text :: "bytes option \<Rightarrow> bytes" where
  "packet_text p = (case p of None \<Rightarrow> [] | Some t \<Rightarrow> t)"

inductive unit_step :: "sync_codec \<Rightarrow> sync_op \<Rightarrow> unit_state \<Rightarrow> unit_state \<Rightarrow> bool" for cx where
  admit: "unit_step cx (Admit k pair uuid scope) None (Some (default_ctx\<lparr>ic_translation_scope := scope\<rparr>, None))"
| again: "scope = [] \<or> ic_translation_scope ctx = scope \<Longrightarrow>
    unit_step cx (Admit k pair uuid scope) (Some (ctx, p)) (Some (ctx, p))"
| translated: "merge_translation t ctx (packet_text p) = Inr ctx' \<Longrightarrow>
    unit_step cx (Translated k pair uuid t) (Some (ctx, p)) (Some (ctx', p))"
| scoped: "merge_scope_text scope ctx (packet_text p) = Inr ctx' \<Longrightarrow>
    unit_step cx (Scoped k pair uuid scope) (Some (ctx, p)) (Some (ctx', p))"
| media: "merge_media remote target ctx (packet_text p) = Inr ctx' \<Longrightarrow>
    unit_step cx (MediaDone k pair uuid remote target) (Some (ctx, p)) (Some (ctx', p))"
| freeze: "unit_step cx (Freeze k1 k2 pair uuid action q) (Some (ctx, None))
    (Some (ctx\<lparr>ic_action := action, ic_delivery_phase := Some ''prepared''\<rparr>, Some q))"
| frozen: "unit_step cx (Freeze k1 k2 pair uuid action q) (Some (ctx, Some q)) (Some (ctx, Some q))"
| submitted: "merge_submitted ctx (packet_text p) = Inr ctx' \<Longrightarrow>
    unit_step cx (Submitted k pair uuid) (Some (ctx, p)) (Some (ctx', p))"
| receipt: "sr_receipt r = Some payload \<Longrightarrow> committed_receipt uuid r payload \<Longrightarrow>
    merge_receipt cx r payload ctx (packet_text p) = Inr ctx' \<Longrightarrow>
    unit_step cx (Receipt k pair uuid r) (Some (ctx, p)) (Some (ctx', p))"
| failed: "unit_step cx (Failed pair uuid snippet) (Some e) (Some e)"
| close: "unit_step cx (Close pair uuid) (Some e) None"

text \<open>Evidence that is kept: what is there stays as it is, what is missing may come.\<close>

definition keeps_opt :: "('a \<Rightarrow> 'a \<Rightarrow> bool) \<Rightarrow> 'a option \<Rightarrow> 'a option \<Rightarrow> bool" where
  "keeps_opt le a b = (case a of None \<Rightarrow> True | Some x \<Rightarrow> (case b of None \<Rightarrow> False | Some y \<Rightarrow> le x y))"

definition phase_rank :: "string option \<Rightarrow> nat" where
  "phase_rank p = (if p = Some ''submitted'' then 2 else if p = Some ''prepared'' then 1 else 0)"

definition evidence_kept :: "inflight_ctx \<times> bytes option \<Rightarrow> inflight_ctx \<times> bytes option \<Rightarrow> bool" where
  "evidence_kept a b \<longleftrightarrow>
     keeps_opt keeps_fields (ic_translation (fst a)) (ic_translation (fst b))
     \<and> (ic_translation_scope (fst a) = [] \<or> ic_translation_scope (fst b) = ic_translation_scope (fst a))
     \<and> map_of (ic_media_url_map (fst a)) \<subseteq>\<^sub>m map_of (ic_media_url_map (fst b))
     \<and> keeps_opt (=) (ic_target_receipt (fst a)) (ic_target_receipt (fst b))
     \<and> keeps_opt (=) (snd a) (snd b)
     \<and> phase_rank (ic_delivery_phase (fst a)) \<le> phase_rank (ic_delivery_phase (fst b))"

lemma keeps_fields_refl [simp]: "keeps_fields t t"
  by (simp add: keeps_fields_def keeps_field_def)

lemma keeps_fields_trans: "keeps_fields a b \<Longrightarrow> keeps_fields b c \<Longrightarrow> keeps_fields a c"
  by (auto simp: keeps_fields_def keeps_field_def)

lemma keeps_opt_refl: "(\<And>x. le x x) \<Longrightarrow> keeps_opt le a a"
  by (simp add: keeps_opt_def split: option.split)

lemma keeps_opt_trans:
  "(\<And>x y z. le x y \<Longrightarrow> le y z \<Longrightarrow> le x z) \<Longrightarrow> keeps_opt le a b \<Longrightarrow> keeps_opt le b c \<Longrightarrow> keeps_opt le a c"
  by (auto simp: keeps_opt_def split: option.splits)

lemma evidence_kept_refl [simp]: "evidence_kept e e"
  by (simp add: evidence_kept_def keeps_opt_refl)

lemma evidence_kept_trans: "evidence_kept a b \<Longrightarrow> evidence_kept b c \<Longrightarrow> evidence_kept a c"
  unfolding evidence_kept_def
  by (auto intro: keeps_opt_trans [OF keeps_fields_trans] keeps_opt_trans [where le = "(=)"] map_le_trans)

lemma map_of_snoc_le: "map_of xs k = None \<Longrightarrow> map_of xs \<subseteq>\<^sub>m map_of (xs @ [(k, v)])"
  by (auto simp: map_le_def map_add_def split: option.splits)

text \<open>Every step of the machine but the closing one keeps the evidence.\<close>

definition delivery_ok :: "sync_codec \<Rightarrow> string \<Rightarrow> inflight_ctx \<times> bytes option \<Rightarrow> bool" where
  "delivery_ok cx uuid e \<longleftrightarrow>
     (snd e = None \<longrightarrow> ic_delivery_phase (fst e) = None \<and> ic_target_receipt (fst e) = None)
     \<and> (snd e \<noteq> None \<longrightarrow> ic_delivery_phase (fst e) \<in> {Some ''prepared'', Some ''submitted''})
     \<and> (case ic_target_receipt (fst e) of None \<Rightarrow> True
        | Some r \<Rightarrow> ic_delivery_phase (fst e) = Some ''submitted''
            \<and> (\<exists>payload packet. sr_receipt r = Some payload \<and> committed_receipt uuid r payload
                 \<and> sx_read cx (packet_text (snd e)) = Some packet \<and> receipt_of_packet payload packet))"

lemma merge_translation_kept: "merge_translation t ctx q = Inr ctx' \<Longrightarrow> evidence_kept (ctx, p) (ctx', p)"
  by (auto simp: merge_translation_def evidence_kept_def keeps_opt_refl split: if_splits)
    (simp add: keeps_opt_def split: option.splits)

lemma merge_scope_kept: "merge_scope_text scope ctx q = Inr ctx' \<Longrightarrow> evidence_kept (ctx, p) (ctx', p)"
  by (auto simp: merge_scope_text_def evidence_kept_def keeps_opt_refl split: if_splits)

lemma merge_media_kept: "merge_media remote target ctx q = Inr ctx' \<Longrightarrow> evidence_kept (ctx, p) (ctx', p)"
  by (auto simp: merge_media_def evidence_kept_def keeps_opt_refl map_of_snoc_le simp del: map_of_append
      split: if_splits option.splits)

lemma merge_submitted_kept: "merge_submitted ctx q = Inr ctx' \<Longrightarrow> evidence_kept (ctx, p) (ctx', p)"
  by (auto simp: merge_submitted_def evidence_kept_def keeps_opt_refl phase_rank_def split: if_splits)

lemma merge_receipt_kept: "merge_receipt cx r payload ctx q = Inr ctx' \<Longrightarrow> evidence_kept (ctx, p) (ctx', p)"
  by (auto simp: merge_receipt_def evidence_kept_def keeps_opt_refl split: if_splits option.splits)
    (simp add: keeps_opt_def)

lemmas merges_kept = merge_translation_kept merge_scope_kept merge_media_kept merge_submitted_kept merge_receipt_kept

lemma unit_step_keeps:
  assumes "unit_step cx x (Some e) (Some e')" "delivery_ok cx uuid e"
  shows "evidence_kept e e'"
  using assms(1)
proof (cases rule: unit_step.cases)
  case (freeze k1 k2 pair uuid' action q ctx)
  with assms(2) show ?thesis by (simp add: delivery_ok_def evidence_kept_def keeps_opt_def phase_rank_def split: option.splits)
qed (auto intro: merges_kept)

lemma unit_step_delivery:
  assumes "unit_step cx x (Some e) (Some e')" "op_unit x = Some (pair, uuid)" "delivery_ok cx uuid e"
  shows "delivery_ok cx uuid e'"
  using assms(1)
proof (cases rule: unit_step.cases)
  case (translated t ctx p ctx' k pair' uuid')
  with assms(3) show ?thesis
    by (auto simp: merge_translation_def delivery_ok_def split: if_splits option.splits)
next
  case (scoped scope ctx p ctx' k pair' uuid')
  with assms(3) show ?thesis
    by (auto simp: merge_scope_text_def delivery_ok_def split: if_splits option.splits)
next
  case (media remote target ctx p ctx' k pair' uuid')
  with assms(3) show ?thesis
    by (auto simp: merge_media_def delivery_ok_def split: if_splits option.splits)
next
  case (submitted ctx p ctx' k pair' uuid')
  with assms(3) show ?thesis
    by (auto simp: merge_submitted_def delivery_ok_def packet_text_def split: if_splits option.splits)
next
  case (receipt r payload uuid' ctx p ctx' k pair')
  with assms(2,3) show ?thesis
    by (auto simp: merge_receipt_def delivery_ok_def split: if_splits option.splits)
next
  case (freeze k1 k2 pair' uuid' action q ctx)
  with assms(3) show ?thesis by (auto simp: delivery_ok_def split: option.splits)
qed (use assms in auto)

section \<open>The tables refine the machine\<close>

definition row_evidence :: "sync_codec \<Rightarrow> inflight_row \<Rightarrow> unit_state" where
  "row_evidence cx r =
     (case (decode_context cx (si_pair_id r) (si_canonical_uuid r) (si_ctx_json r),
            packet_of cx (si_pair_id r) (si_canonical_uuid r) (si_relayed_json r)) of
        (Inr ctx, Inr p) \<Rightarrow> Some (ctx, if si_relayed_json r = [] then None else Some p)
      | _ \<Rightarrow> None)"

definition evidence :: "sync_codec \<Rightarrow> sync_db \<Rightarrow> string \<times> string \<Rightarrow> unit_state" where
  "evidence cx s u =
     (case find (of_unit (fst u) (snd u)) (inflight s) of None \<Rightarrow> None | Some r \<Rightarrow> row_evidence cx r)"

definition unit_keys :: "sync_db \<Rightarrow> (string \<times> string) set" where
  "unit_keys s = unit_key ` set (inflight s)"

definition sync_inv :: "sync_codec \<Rightarrow> sync_db \<Rightarrow> bool" where
  "sync_inv cx s \<longleftrightarrow> distinct (map unit_key (inflight s)) \<and> (\<forall>r \<in> set (inflight s). si_phase r = ''shipping'')
     \<and> (\<forall>u \<in> unit_keys s. \<exists>e. evidence cx s u = Some e \<and> delivery_ok cx (snd u) e)"

text \<open>What a committed operation on a unit does: a step of its machine, and nothing to any other unit.\<close>

definition unit_commit :: "sync_codec \<Rightarrow> sync_op \<Rightarrow> string \<times> string \<Rightarrow> sync_db \<Rightarrow> sync_db \<Rightarrow> bool" where
  "unit_commit cx x u s s' \<longleftrightarrow> unit_step cx x (evidence cx s u) (evidence cx s' u)
     \<and> (\<forall>v. v \<noteq> u \<longrightarrow> evidence cx s' v = evidence cx s v)
     \<and> distinct (map unit_key (inflight s')) \<and> (\<forall>r \<in> set (inflight s'). si_phase r = ''shipping'')
     \<and> unit_keys s' \<subseteq> insert u (unit_keys s) \<and> (u \<in> unit_keys s' \<longrightarrow> evidence cx s' u \<noteq> None)"

lemma find_of_unit_key: "find (of_unit pair uuid) rows = Some r \<Longrightarrow> unit_key r = (pair, uuid)"
  by (auto dest: find_SomeD simp: of_unit_key)

lemma find_set_unit:
  assumes "find (of_unit pair uuid) (inflight s) = Some r" "unit_key r' = (pair, uuid)"
  shows "find (of_unit p q) (inflight (set_unit pair uuid r' s))
    = (if (p, q) = (pair, uuid) then Some r' else find (of_unit p q) (inflight s))"
proof -
  have "find (of_unit p q) (map (\<lambda>x. if of_unit pair uuid x then r' else x) rows)
      = (if (p, q) = (pair, uuid) then (if find (of_unit pair uuid) rows = None then None else Some r')
         else find (of_unit p q) rows)" for rows
    using assms(2) by (induction rows) (auto simp: of_unit_key)
  with assms(1) show ?thesis by (simp add: set_unit_def)
qed

lemma unit_key_set_unit:
  assumes "unit_key r' = (pair, uuid)"
  shows "map unit_key (inflight (set_unit pair uuid r' s)) = map unit_key (inflight s)"
  using assms by (auto simp: set_unit_def of_unit_key)

lemma set_unit_commit:
  assumes "sync_inv cx s" "find (of_unit pair uuid) (inflight s) = Some r"
    "unit_key r' = unit_key r" "si_phase r' = ''shipping''"
    "row_evidence cx r = Some e" "row_evidence cx r' = Some e'" "unit_step cx x (Some e) (Some e')"
  shows "unit_commit cx x (pair, uuid) s (set_unit pair uuid r' s)"
proof -
  have key: "unit_key r' = (pair, uuid)" using assms(2,3) by (simp add: find_of_unit_key)
  have ev: "evidence cx s (pair, uuid) = Some e" "evidence cx (set_unit pair uuid r' s) (pair, uuid) = Some e'"
    "\<And>v. v \<noteq> (pair, uuid) \<Longrightarrow> evidence cx (set_unit pair uuid r' s) v = evidence cx s v"
    using assms(2,5,6) by (auto simp: evidence_def find_set_unit [OF assms(2) key])
  have "unit_keys (set_unit pair uuid r' s) = unit_keys s"
    using arg_cong [OF unit_key_set_unit [OF key, of s], of set] by (simp add: unit_keys_def)
  moreover have "si_phase q = ''shipping''" if "q \<in> set (inflight (set_unit pair uuid r' s))" for q
    using that assms(1,4) by (auto simp: set_unit_def sync_inv_def)
  ultimately show ?thesis
    using assms(1,7) ev unit_key_set_unit [OF key, of s] by (auto simp: unit_commit_def sync_inv_def)
qed

lemma row_evidence_eq:
  "unit_key r = (pair, uuid) \<Longrightarrow> decode_context cx pair uuid (si_ctx_json r) = Inr ctx \<Longrightarrow>
    packet_of cx pair uuid (si_relayed_json r) = Inr p \<Longrightarrow>
    row_evidence cx r = Some (ctx, if si_relayed_json r = [] then None else Some p)"
  by (auto simp: row_evidence_def unit_key_def)

lemma merge_commit:
  assumes "codec_laws cx" "length nonce = 12" "sync_inv cx s"
    "merge_ctx cx nonce pair uuid merge env n s = (Inr u, n', s')"
    "\<And>ctx p ctx'. merge ctx (packet_text p) = Inr ctx' \<Longrightarrow> unit_step cx x (Some (ctx, p)) (Some (ctx', p))"
  shows "unit_commit cx x (pair, uuid) s s'"
proof -
  have "distinct (map unit_key (inflight s))" using assms(3) by (simp add: sync_inv_def)
  from assms(1,2) this assms(4) show ?thesis
  proof (cases rule: merge_Inr)
    case (1 r ctx packet ctx' r')
    let ?p = "if si_relayed_json r = [] then None else Some packet"
    have key: "unit_key r = (pair, uuid)" using 1(1) by (rule find_of_unit_key)
    have "packet_text ?p = packet" using 1(4) by (auto simp: packet_text_def packet_of_def)
    with assms(5) 1(5) have "unit_step cx x (Some (ctx, ?p)) (Some (ctx', ?p))" by simp
    moreover have "row_evidence cx r = Some (ctx, ?p)" by (rule row_evidence_eq [OF key 1(3,4)])
    moreover have "row_evidence cx r' = Some (ctx', ?p)"
      using row_evidence_eq [of r' pair uuid cx ctx' packet] key 1 by simp
    ultimately show ?thesis
      unfolding 1(6) by (intro set_unit_commit [OF assms(3) 1(1,7,8)])
  qed
qed

lemma row_evidence_cong:
  "unit_key q = unit_key r \<Longrightarrow> si_ctx_json q = si_ctx_json r \<Longrightarrow> si_relayed_json q = si_relayed_json r \<Longrightarrow>
    row_evidence cx q = row_evidence cx r"
  by (auto simp: row_evidence_def unit_key_def split: sum.split)

lemma sync_inv_row:
  assumes "sync_inv cx s" "find (of_unit pair uuid) (inflight s) = Some r"
  obtains e where "row_evidence cx r = Some e" "delivery_ok cx uuid e"
proof -
  from assms(2) have "r \<in> set (inflight s)" "unit_key r = (pair, uuid)"
    by (auto dest: find_SomeD find_of_unit_key)
  then have "(pair, uuid) \<in> unit_keys s" by (force simp: unit_keys_def)
  with assms(1) obtain e where "evidence cx s (pair, uuid) = Some e" "delivery_ok cx uuid e"
    unfolding sync_inv_def by fastforce
  with assms(2) show thesis by (intro that) (simp_all add: evidence_def)
qed

lemma set_unit_map:
  assumes "distinct (map unit_key (inflight s))" "find (of_unit pair uuid) (inflight s) = Some r"
  shows "s\<lparr>inflight := map (\<lambda>q. if of_unit pair uuid q then f q else q) (inflight s)\<rparr> = set_unit pair uuid (f r) s"
proof -
  have "map (\<lambda>q. if of_unit pair uuid q then f q else q) (inflight s) = map (\<lambda>q. if of_unit pair uuid q then f r else q) (inflight s)"
    using same_unit [OF assms] by (intro map_cong) auto
  then show ?thesis by (simp add: set_unit_def)
qed

lemma begin_commit:
  assumes "codec_laws cx" "length nonce = 12" "sync_inv cx s"
    "begin_shipping_scoped cx nonce pair uuid scope env n s = (Inr u, n', s')"
  shows "unit_commit cx (Admit nonce pair uuid scope) (pair, uuid) s s'"
proof (cases "find (of_unit pair uuid) (inflight s)")
  case None
  then have none: "filter (of_unit pair uuid) (inflight s) = []" "(pair, uuid) \<notin> unit_keys s"
    by (auto simp: find_None_iff filter_empty_conv unit_keys_def of_unit_key)
  then have "map (\<lambda>r. if of_unit pair uuid r then f r else r) (inflight s) = inflight s" for f
    by (auto simp: filter_empty_conv intro!: map_idI)
  with None none assms(4) obtain raw now where
    enc: "encrypt_config_value (sx_crates cx) (sx_sources cx) nonce
       (sx_print cx (evidence_doc pair uuid ''context'' (ctx_value cx (default_ctx\<lparr>ic_translation_scope := scope\<rparr>)))) = Inr raw" and
    s': "s' = s\<lparr>inflight := inflight s @ [\<lparr>si_pair_id = pair, si_canonical_uuid = uuid, si_phase = ''shipping'', si_ctx_json = raw,
          si_relayed_json = [], si_attempts = 1, si_error = [], si_created_at = now, si_updated_at = now\<rparr>]\<rparr>"
    by (auto simp: begin_shipping_scoped_def run_simps insert_unit_def Let_def split: if_splits)
  let ?r = "\<lparr>si_pair_id = pair, si_canonical_uuid = uuid, si_phase = ''shipping'', si_ctx_json = raw,
          si_relayed_json = [], si_attempts = 1, si_error = [], si_created_at = now, si_updated_at = now\<rparr>"
  have row: "row_evidence cx ?r = Some (default_ctx\<lparr>ic_translation_scope := scope\<rparr>, None)"
    using row_evidence_eq [of ?r pair uuid cx _ "[]"] decode_own_context [OF assms(1,2) enc]
    by (simp add: unit_key_def packet_of_def)
  have app: "find p (xs @ [y]) = (case find p xs of Some z \<Rightarrow> Some z | None \<Rightarrow> if p y then Some y else None)" for p xs and y :: inflight_row
    by (induction xs) auto
  have "evidence cx s (pair, uuid) = None" "evidence cx s' (pair, uuid) = Some (default_ctx\<lparr>ic_translation_scope := scope\<rparr>, None)"
    using None row by (auto simp: evidence_def s' app of_unit_def)
  moreover have "evidence cx s' v = evidence cx s v" if "v \<noteq> (pair, uuid)" for v
    using that by (cases v) (auto simp: evidence_def s' app of_unit_def split: option.splits)
  moreover have "unit_keys s' = insert (pair, uuid) (unit_keys s)" by (simp add: unit_keys_def s' unit_key_def)
  ultimately show ?thesis
    using assms(3) none(2) unit_step.admit
    by (auto simp: unit_commit_def sync_inv_def s' unit_keys_def unit_key_def)
next
  case (Some r)
  have some: "filter (of_unit pair uuid) (inflight s) \<noteq> []"
    using Some by (auto simp: filter_empty_conv dest: find_SomeD)
  have dist: "distinct (map unit_key (inflight s))" using assms(3) by (simp add: sync_inv_def)
  from Some assms(4) some obtain ctx now where
    ctx: "decode_context cx pair uuid (si_ctx_json r) = Inr ctx" "scope = [] \<or> ic_translation_scope ctx = scope" and
    s': "s' = s\<lparr>inflight := map (\<lambda>r. if of_unit pair uuid r then r\<lparr>si_attempts := si_attempts r + 1, si_phase := ''shipping'',
             si_error := [], si_updated_at := now\<rparr> else r) (inflight s)\<rparr>"
    by (auto simp: begin_shipping_scoped_def run_simps split: if_splits)
  let ?f = "\<lambda>r. r\<lparr>si_attempts := si_attempts r + 1, si_phase := ''shipping'', si_error := [], si_updated_at := now\<rparr>"
  have "s' = set_unit pair uuid (?f r) s" unfolding s' by (rule set_unit_map [OF dist Some])
  moreover have key: "unit_key r = (pair, uuid)" using Some by (rule find_of_unit_key)
  moreover obtain e where e: "row_evidence cx r = Some e"
    using sync_inv_row [OF assms(3) Some] by blast
  moreover have "row_evidence cx (?f r) = row_evidence cx r"
    by (rule row_evidence_cong) (simp_all add: unit_key_def)
  moreover have "unit_step cx (Admit nonce pair uuid scope) (Some e) (Some e)"
    using e ctx key by (cases e) (auto simp: row_evidence_def unit_key_def split: sum.splits intro: unit_step.again)
  moreover have "unit_key (?f r) = unit_key r" "si_phase (?f r) = ''shipping''" by (simp_all add: unit_key_def)
  ultimately show ?thesis
    using set_unit_commit [OF assms(3) Some, of "?f r"] e by metis
qed

lemma note_commit:
  assumes "sync_inv cx s" "note_error pair uuid snippet env n s = (Inr u, n', s')"
  shows "unit_commit cx (Failed pair uuid snippet) (pair, uuid) s s'"
proof -
  have dist: "distinct (map unit_key (inflight s))" using assms(1) by (simp add: sync_inv_def)
  from assms(2) obtain now where
    one: "length (filter (of_unit pair uuid) (inflight s)) = 1" and
    s': "s' = s\<lparr>inflight := map (\<lambda>r. if of_unit pair uuid r then r\<lparr>si_error := snippet, si_updated_at := now\<rparr> else r) (inflight s)\<rparr>"
    by (auto simp: note_error_def run_simps)
  from one obtain r where r: "find (of_unit pair uuid) (inflight s) = Some r"
    by (cases "find (of_unit pair uuid) (inflight s)") (auto simp: find_None_iff filter_empty_conv)
  let ?f = "\<lambda>r. r\<lparr>si_error := snippet, si_updated_at := now\<rparr>"
  obtain e where e: "row_evidence cx r = Some e" using sync_inv_row [OF assms(1) r] by blast
  have "s' = set_unit pair uuid (?f r) s" unfolding s' by (rule set_unit_map [OF dist r])
  moreover have "row_evidence cx (?f r) = row_evidence cx r" by (rule row_evidence_cong) (simp_all add: unit_key_def)
  moreover have "unit_key (?f r) = unit_key r" "si_phase (?f r) = ''shipping''"
    using assms(1) r by (auto simp: unit_key_def sync_inv_def dest: find_SomeD)
  ultimately show ?thesis
    using set_unit_commit [OF assms(1) r, of "?f r"] e unit_step.failed by metis
qed

lemma freeze_commit:
  assumes "codec_laws cx" "length nonce1 = 12" "length nonce2 = 12" "sync_inv cx s"
    "store_relayed_packet cx nonce1 nonce2 pair uuid action p env n s = (Inr u, n', s')"
  shows "unit_commit cx (Freeze nonce1 nonce2 pair uuid action p) (pair, uuid) s s'"
proof -
  have dist: "distinct (map unit_key (inflight s))" using assms(4) by (simp add: sync_inv_def)
  from assms(5) obtain r where r: "find (of_unit pair uuid) (inflight s) = Some r"
    by (auto simp: store_relayed_packet_def run_simps)
  have key: "unit_key r = (pair, uuid)" using r by (rule find_of_unit_key)
  obtain e where e: "row_evidence cx r = Some e" using sync_inv_row [OF assms(4) r] by blast
  show ?thesis
  proof (cases "si_relayed_json r = []")
    case False
    with assms(5) r have "s' = s" "decode_packet cx pair uuid (si_relayed_json r) = Inr p"
      by (auto simp: store_relayed_packet_def run_simps)
    with e False key obtain ctx where "e = (ctx, Some p)"
      by (auto simp: row_evidence_def unit_key_def packet_of_def split: sum.splits)
    moreover have "s = set_unit pair uuid r s" using set_unit_map [OF dist r, of "\<lambda>q. q"] by simp
    ultimately show ?thesis
      using set_unit_commit [OF assms(4) r refl _ e e, of "Freeze nonce1 nonce2 pair uuid action p"] unit_step.frozen
        \<open>s' = s\<close> assms(4) r by (auto simp: sync_inv_def dest: find_SomeD)
  next
    case True
    with assms(5) r obtain ctx raw raw2 now where
      ctx: "decode_context cx pair uuid (si_ctx_json r) = Inr ctx" and
      enc: "encrypt_config_value (sx_crates cx) (sx_sources cx) nonce1
        (sx_print cx (evidence_doc pair uuid ''context''
          (ctx_value cx (ctx\<lparr>ic_action := action, ic_delivery_phase := Some ''prepared''\<rparr>)))) = Inr raw"
        "encrypt_config_value (sx_crates cx) (sx_sources cx) nonce2 (sx_print cx (evidence_doc pair uuid ''packet'' (JString p))) = Inr raw2" and
      one: "length (filter (\<lambda>q. of_unit pair uuid q \<and> (si_ctx_json q = si_ctx_json r \<and> si_relayed_json q = []
         \<and> si_phase q = ''shipping'')) (inflight s)) = 1" and
      s': "s' = s\<lparr>inflight := map (\<lambda>q. if of_unit pair uuid q \<and> (si_ctx_json q = si_ctx_json r \<and> si_relayed_json q = []
         \<and> si_phase q = ''shipping'') then q\<lparr>si_ctx_json := raw, si_relayed_json := raw2, si_updated_at := now\<rparr> else q) (inflight s)\<rparr>"
      unfolding store_relayed_packet_def by (auto simp: run_simps)
    let ?f = "\<lambda>q. q\<lparr>si_ctx_json := raw, si_relayed_json := raw2, si_updated_at := now\<rparr>"
    from compare_and_set [OF dist r one, where f = ?f]
    have s2: "s' = set_unit pair uuid (?f r) s" "si_phase r = ''shipping''"
      unfolding s' by (simp_all add: set_unit_def)
    let ?ctx = "ctx\<lparr>ic_action := action, ic_delivery_phase := Some ''prepared''\<rparr>"
    have "row_evidence cx r = Some (ctx, None)"
      using row_evidence_eq [OF key ctx, of "[]"] True by (simp add: packet_of_def)
    moreover have "row_evidence cx (?f r) = Some (?ctx, Some p)"
      using row_evidence_eq [of "?f r" pair uuid cx ?ctx p] key decode_own_context [OF assms(1,2) enc(1)]
        decode_own_packet [OF assms(1,3) enc(2)] by (simp add: unit_key_def)
    moreover have "unit_key (?f r) = unit_key r" "si_phase (?f r) = ''shipping''"
      using s2(2) by (simp_all add: unit_key_def)
    ultimately show ?thesis
      unfolding s2(1) by (intro set_unit_commit [OF assms(4) r]) (auto intro: unit_step.freeze)
  qed
qed

lemma archive_unit_Inr:
  assumes "archive_unit key r env n s = (Inr u, n', s')"
  obtains ar where "s' = s\<lparr>archive := ar\<rparr>" "set (archive s) \<subseteq> set ar"
proof (cases "key \<in> sa_evidence_key ` set (archive s)")
  case True
  with assms that [of "archive s"] show ?thesis by (simp add: archive_unit_def execute_Inr)
next
  case False
  with assms that show ?thesis by (fastforce simp: archive_unit_def execute_Inr)
qed

lemma select_archived_Inr [run_simps]:
  "select_archived key pair uuid env n s = (Inr a, n', s') \<longleftrightarrow> \<not> fault env n \<and> n' = Suc n \<and> s' = s
     \<and> find (\<lambda>a. sa_evidence_key a = key \<and> sa_pair_id a = pair \<and> sa_canonical_uuid a = uuid) (archive s) = Some a"
  by (auto simp: select_archived_def execute_Inr split: option.splits)

lemma close_Inr:
  assumes "sync_inv cx s" "close_shipping cx pair uuid env n s = (Inr u, n', s')"
  obtains r where "find (of_unit pair uuid) (inflight s) = Some r"
    "inflight s' = filter (\<lambda>q. \<not> of_unit pair uuid q) (inflight s)"
    "\<exists>a \<in> set (archive s'). sa_pair_id a = pair \<and> sa_canonical_uuid a = uuid \<and> archived_original a = original_of r"
    "set (archive s) \<subseteq> set (archive s')"
proof -
  have dist: "distinct (map unit_key (inflight s))" and ship: "\<And>r. r \<in> set (inflight s) \<Longrightarrow> si_phase r = ''shipping''"
    using assms(1) by (simp_all add: sync_inv_def)
  have find_eq: "find (\<lambda>r. of_unit pair uuid r \<and> si_phase r = ''shipping'') rows = find (of_unit pair uuid) rows"
    if "\<And>r. r \<in> set rows \<Longrightarrow> si_phase r = ''shipping''" for rows
    using that by (induction rows) auto
  from assms(2) obtain r a key s1 n1 n2 where
    r: "find (of_unit pair uuid) (inflight s) = Some r" and
    ar: "archive_unit key r env n1 s = (Inr (), n2, s1)" and
    a: "find (\<lambda>a. sa_evidence_key a = key \<and> sa_pair_id a = pair \<and> sa_canonical_uuid a = uuid) (archive s1) = Some a"
      "archived_original a = original_of r" and
    s1: "s' = s1\<lparr>inflight := filter (\<lambda>q. \<not> (of_unit pair uuid q \<and> si_phase q = ''shipping'' \<and> si_ctx_json q = si_ctx_json r
                       \<and> si_relayed_json q = si_relayed_json r)) (inflight s1)\<rparr>"
    unfolding close_shipping_def
    by (auto simp: run_simps find_eq [OF ship] Let_def split: option.splits)
  from archive_unit_Inr [OF ar] obtain ar where ar: "s1 = s\<lparr>archive := ar\<rparr>" "set (archive s) \<subseteq> set ar" .
  note s' = s1 [unfolded ar(1)]
  have "inflight s' = filter (\<lambda>q. \<not> of_unit pair uuid q) (inflight s)"
    unfolding s' using same_unit [OF dist r] ship r by (auto intro!: filter_cong dest: find_SomeD)
  moreover have "\<exists>a \<in> set (archive s'). sa_pair_id a = pair \<and> sa_canonical_uuid a = uuid \<and> archived_original a = original_of r"
    using find_SomeD [OF a(1)] a(2) by (auto simp: s' ar(1))
  ultimately show thesis using r ar by (intro that) (auto simp: s')
qed

lemma close_commit:
  assumes "sync_inv cx s" "close_shipping cx pair uuid env n s = (Inr u, n', s')"
  shows "unit_commit cx (Close pair uuid) (pair, uuid) s s'"
  using assms
proof (cases rule: close_Inr)
  case (1 r)
  obtain e where e: "row_evidence cx r = Some e" using sync_inv_row [OF assms(1) 1(1)] by blast
  have other: "find (of_unit p q) (filter (\<lambda>x. \<not> of_unit pair uuid x) rows)
      = (if (p, q) = (pair, uuid) then None else find (of_unit p q) rows)" for p q rows
    by (induction rows) (auto simp: of_unit_key)
  have "evidence cx s (pair, uuid) = Some e" "evidence cx s' (pair, uuid) = None"
    "\<And>v. v \<noteq> (pair, uuid) \<Longrightarrow> evidence cx s' v = evidence cx s v"
    using 1(1) e by (auto simp: evidence_def 1(2) other)
  moreover have "unit_keys s' \<subseteq> unit_keys s" "(pair, uuid) \<notin> unit_keys s'"
    by (auto simp: unit_keys_def 1(2) of_unit_key)
  moreover have "distinct (map unit_key (inflight s'))" "\<forall>r \<in> set (inflight s'). si_phase r = ''shipping''"
    using assms(1) by (auto simp: sync_inv_def 1(2) distinct_map_filter_keep)
  ultimately show ?thesis
    using unit_step.close by (auto simp: unit_commit_def)
qed

lemma lift_read_state: "lift_read r env n s = (x, n', s') \<Longrightarrow> s' = s"
  by (auto simp: lift_read_def fail_def ret_def split: sum.splits)

lemma reads_unchanged:
  "find_shipping cx pair uuid env n s = (r, n', s') \<Longrightarrow> s' = s"
  "list_pair_shipping cx pair env n s = (q, n', s') \<Longrightarrow> s' = s"
  by (auto simp: find_shipping_def list_pair_shipping_def select_unit_def query_def execute_def bind_def seq_def
      ensure_def ret_def fail_def split: if_splits prod.splits sum.splits option.splits dest!: lift_read_state)

text \<open>Every committed operation is a step of the machine of its unit, or changes nothing.\<close>

lemma sync_commit:
  assumes "codec_laws cx" "good_nonces x" "sync_inv cx s" "sync_step cx x env n s = (Inr u, n', s')"
  shows "case op_unit x of None \<Rightarrow> s' = s | Some v \<Rightarrow> unit_commit cx x v s s'"
proof (cases x)
  case (Receipt nonce pair uuid r)
  with assms obtain payload where "sr_receipt r = Some payload" "committed_receipt uuid r payload"
    "merge_ctx cx nonce pair uuid (merge_receipt cx r payload) env n s = (Inr u, n', s')"
    by (auto simp: store_target_receipt_def fail_Inr split: option.splits if_splits)
  with assms Receipt show ?thesis
    by (auto simp: good_nonces_def intro!: merge_commit intro: unit_step.receipt)
next
  case (Freeze nonce1 nonce2 pair uuid action p)
  with assms freeze_commit [of cx nonce1 nonce2 s pair uuid action p env n u n' s'] show ?thesis
    by (simp add: good_nonces_def)
next
  case (Admit nonce pair uuid scope)
  with assms begin_commit [of cx nonce s pair uuid scope env n u n' s'] show ?thesis by (simp add: good_nonces_def)
next
  case (Failed pair uuid snippet)
  with assms note_commit [of cx s pair uuid snippet env n u n' s'] show ?thesis by simp
next
  case (Close pair uuid)
  with assms close_commit [of cx s pair uuid env n u n' s'] show ?thesis by simp
qed (use assms in \<open>auto simp: good_nonces_def store_translation_def store_translation_scope_def store_media_entry_def
    mark_submitted_def discard_Inr sync_inflight_inventory_def query_Inr
    intro!: merge_commit intro: unit_step.intros dest: reads_unchanged\<close>)

lemma unit_keys_find: "u \<in> unit_keys s \<longleftrightarrow> (\<exists>r. find (of_unit (fst u) (snd u)) (inflight s) = Some r)"
proof -
  have "u \<in> unit_key ` set rows \<longleftrightarrow> (\<exists>r. find (of_unit (fst u) (snd u)) rows = Some r)" for rows
    by (induction rows) (auto simp: of_unit_key)
  then show ?thesis by (simp add: unit_keys_def)
qed

lemma evidence_None: "u \<notin> unit_keys s \<Longrightarrow> evidence cx s u = None"
  by (auto simp: unit_keys_find evidence_def split: option.split)

lemma unit_commit_other: "unit_commit cx x v s s' \<Longrightarrow> u \<noteq> v \<Longrightarrow> evidence cx s' u = evidence cx s u"
  unfolding unit_commit_def by blast

lemma evidence_unit: "evidence cx s u = Some e \<Longrightarrow> u \<in> unit_keys s"
  by (rule ccontr) (simp add: evidence_None)

lemma unit_commit_inv:
  assumes "unit_commit cx x v s s'" "op_unit x = Some v" "sync_inv cx s"
  shows "sync_inv cx s'"
proof -
  have "\<exists>e. evidence cx s' u = Some e \<and> delivery_ok cx (snd u) e" if u: "u \<in> unit_keys s'" for u
  proof (cases "u = v")
    case False
    moreover from this u assms(1) have "u \<in> unit_keys s" by (auto simp: unit_commit_def)
    ultimately show ?thesis using assms(1,3) by (simp add: unit_commit_other sync_inv_def)
  next
    case True
    with u assms(1) obtain e' where e': "evidence cx s' v = Some e'" by (auto simp: unit_commit_def)
    with assms(1) have step: "unit_step cx x (evidence cx s v) (Some e')" by (simp add: unit_commit_def)
    have "delivery_ok cx (snd v) e'"
    proof (cases "evidence cx s v")
      case None
      with step show ?thesis by cases (auto simp: delivery_ok_def default_ctx_def)
    next
      case (Some e)
      then have "v \<in> unit_keys s" by (rule evidence_unit)
      with assms(3) Some have "delivery_ok cx (snd v) e" by (auto simp: sync_inv_def)
      with step Some assms(2) show ?thesis by (cases v) (auto intro: unit_step_delivery)
    qed
    with e' True show ?thesis by simp
  qed
  with assms(1) show ?thesis by (auto simp: unit_commit_def sync_inv_def)
qed

lemma note_abort:
  assumes "sync_inv cx s" "note_error pair uuid snippet env n s = (Inl e, n', s')"
  shows "s' = s"
proof (cases "fault env n")
  case True
  with assms(2) show ?thesis by (simp add: note_error_def bind_def update_units_def execute_def)
next
  case False
  have "length (filter (\<lambda>r. unit_key r = (pair, uuid)) (inflight s)) \<le> 1"
    using assms(1) by (intro distinct_key_filter) (simp add: sync_inv_def)
  then have le: "length (filter (of_unit pair uuid) (inflight s)) \<le> 1" by (simp add: of_unit_key [abs_def])
  from False assms(2) have "length (filter (of_unit pair uuid) (inflight s)) \<noteq> 1"
    and s': "s' = s\<lparr>inflight := map (\<lambda>r. if of_unit pair uuid r then r\<lparr>si_error := snippet, si_updated_at := unix_ts (clock env n)\<rparr> else r) (inflight s)\<rparr>"
    by (auto simp: note_error_def bind_def update_units_def update_where_def execute_def ensure_def ret_def fail_def
        split: if_splits)
  with le have "filter (of_unit pair uuid) (inflight s) = []" by (cases "filter (of_unit pair uuid) (inflight s)") auto
  then have "map (\<lambda>r. if of_unit pair uuid r then f r else r) (inflight s) = inflight s" for f
    by (auto simp: filter_empty_conv intro!: map_idI)
  with s' show ?thesis by simp
qed

lemma sync_abort: "sync_inv cx s \<Longrightarrow> sync_step cx x env n s = (Inl e, n', s') \<Longrightarrow> s' = s"
  by (cases x)
    (auto simp: begin_shipping_scoped_def store_translation_def store_translation_scope_def store_media_entry_def
      store_relayed_packet_def mark_submitted_def store_target_receipt_def merge_ctx_def close_shipping_def discard_Inl
      sync_inflight_inventory_def fail_def
      dest: atomicD [OF atomic_savepoint] atomicD [OF atomic_query] note_abort reads_unchanged split: option.splits if_splits)

text \<open>
  C13: The tables refine the machine of the unit. An operation that returns an error changes nothing; one that commits is a
  step of the machine (admission, paid fields, media, the frozen packet, submission, receipt, closing) for
  its own unit, decoded from the sealed columns, and leaves the evidence of every other unit as it was.
\<close>

theorem tables_refine_unit_machine:
  assumes "codec_laws cx" "good_nonces x" "sync_inv cx s" "sync_step cx x env n s = (r, n', s')"
  shows "sync_inv cx s' \<and>
    (case (r, op_unit x) of
       (Inr u, Some v) \<Rightarrow> unit_step cx x (evidence cx s v) (evidence cx s' v)
          \<and> (\<forall>w. w \<noteq> v \<longrightarrow> evidence cx s' w = evidence cx s w)
     | _ \<Rightarrow> s' = s)"
proof (cases r)
  case (Inl e)
  with assms(3,4) sync_abort have "s' = s" by blast
  with Inl assms(3) show ?thesis by simp
next
  case (Inr u)
  with assms sync_commit [of cx x s env n u n' s'] have c: "case op_unit x of None \<Rightarrow> s' = s | Some v \<Rightarrow> unit_commit cx x v s s'"
    by simp
  show ?thesis
  proof (cases "op_unit x")
    case None
    with c Inr assms(3) show ?thesis by simp
  next
    case (Some v)
    with c have "unit_commit cx x v s s'" by simp
    with unit_commit_inv [OF this Some assms(3)] Inr Some show ?thesis by (simp add: unit_commit_def)
  qed
qed

lemma sync_keeps:
  assumes "codec_laws cx" "good_nonces x" "sync_inv cx s" "sync_step cx x env n s = (r, n', s')"
  shows "sync_inv cx s'" "\<And>u e. evidence cx s u = Some e \<Longrightarrow> x \<noteq> Close (fst u) (snd u) \<Longrightarrow>
    \<exists>e'. evidence cx s' u = Some e' \<and> evidence_kept e e'"
proof -
  have c: "sync_inv cx s' \<and> (s' = s \<or> (\<exists>v. op_unit x = Some v \<and> unit_commit cx x v s s'))"
  proof (cases r)
    case (Inl e)
    with assms(3,4) sync_abort show ?thesis by blast
  next
    case (Inr u)
    with assms sync_commit [of cx x s env n u n' s'] show ?thesis
      by (auto split: option.splits intro: unit_commit_inv)
  qed
  then show "sync_inv cx s'" by simp
  fix u e assume e: "evidence cx s u = Some e" and x: "x \<noteq> Close (fst u) (snd u)"
  show "\<exists>e'. evidence cx s' u = Some e' \<and> evidence_kept e e'"
  proof (cases "s' = s \<or> op_unit x \<noteq> Some u")
    case True
    with c have "evidence cx s' u = evidence cx s u" using unit_commit_other [of cx x _ s s' u] by (metis option.inject)
    with e have "evidence cx s' u = Some e" by simp
    then show ?thesis by simp
  next
    case False
    with c have "unit_step cx x (evidence cx s u) (evidence cx s' u)"
      unfolding unit_commit_def by (metis option.inject)
    then have step: "unit_step cx x (Some e) (evidence cx s' u)" by (simp add: e)
    have "u \<in> unit_keys s" using e by (rule evidence_unit)
    with assms(3) e have ok: "delivery_ok cx (snd u) e" by (auto simp: sync_inv_def)
    from False have "op_unit x = Some u" by simp
    with step x obtain e' where "evidence cx s' u = Some e'"
      by (cases u; cases rule: unit_step.cases) auto
    with unit_step_keeps [of cx x e e' "snd u"] step ok show ?thesis by auto
  qed
qed

text \<open>
  C14: What was paid is never paid for again or lost. Through every sequence of operations on the units in flight, with faults
  at any statement, a unit that has evidence keeps it until it is closed: translated fields and media addresses
  stay as they were stored, the scope and the frozen packet are not replaced, the receipt stays, and the
  delivery phase never goes back.
\<close>

theorem paid_evidence_kept:
  assumes "codec_laws cx" "list_all good_nonces ops" "sync_inv cx s" "evidence cx s u = Some e"
    "list_all (\<lambda>x. x \<noteq> Close (fst u) (snd u)) ops"
  shows "\<exists>e'. evidence cx (run_ops (sync_step cx) env ops n s) u = Some e' \<and> evidence_kept e e'"
  using assms(2-5)
proof (induction ops arbitrary: n s e)
  case (Cons x ops)
  obtain r n' s' where run: "sync_step cx x env n s = (r, n', s')" by (metis prod_cases3)
  from sync_keeps [OF assms(1) _ Cons.prems(2) run] Cons.prems obtain e1 where
    e1: "sync_inv cx s'" "evidence cx s' u = Some e1" "evidence_kept e e1" by fastforce
  with Cons.IH [of s' e1 n'] Cons.prems run show ?case by (auto intro: evidence_kept_trans)
qed simp

lemma sync_inv_run:
  "codec_laws cx \<Longrightarrow> list_all good_nonces ops \<Longrightarrow> sync_inv cx s \<Longrightarrow> sync_inv cx (run_ops (sync_step cx) env ops n s)"
proof (induction ops arbitrary: n s)
  case (Cons x ops)
  obtain r n' s' where run: "sync_step cx x env n s = (r, n', s')" by (metis prod_cases3)
  with Cons sync_keeps(1) [of cx x s env n r n' s'] show ?case by simp
qed simp

text \<open>
  C20: A receipt proves the delivery of the packet it is stored with. Whatever operations ran, a unit that has a receipt
  was submitted, has a frozen packet, and the receipt is a committed completion of this unit that names the
  packet's id, fingerprint, origin site and target language; and no packet is submitted that was not frozen.
\<close>

theorem receipt_belongs_to_packet:
  assumes "codec_laws cx" "list_all good_nonces ops"
    "evidence cx (run_ops (sync_step cx) env ops n \<lparr>inflight = [], archive = []\<rparr>) (pair, uuid) = Some (ctx, p)"
  shows "(ic_delivery_phase ctx \<noteq> None \<longleftrightarrow> p \<noteq> None)
    \<and> (case ic_target_receipt ctx of
         None \<Rightarrow> True
       | Some r \<Rightarrow> ic_delivery_phase ctx = Some ''submitted'' \<and> (\<exists>payload packet. sr_receipt r = Some payload
           \<and> committed_receipt uuid r payload \<and> sx_read cx (packet_text p) = Some packet \<and> receipt_of_packet payload packet))"
proof -
  let ?s = "run_ops (sync_step cx) env ops n \<lparr>inflight = [], archive = []\<rparr>"
  have inv: "sync_inv cx ?s"
    by (rule sync_inv_run [OF assms(1,2)]) (simp add: sync_inv_def unit_keys_def)
  have "(pair, uuid) \<in> unit_keys ?s" using assms(3) by (rule evidence_unit)
  with inv assms(3) have "delivery_ok cx uuid (ctx, p)" by (force simp: sync_inv_def)
  then show ?thesis by (auto simp: delivery_ok_def split: option.splits)
qed

section \<open>Examples\<close>

text \<open>An encoding of the contexts and a cipher that is not one: the laws of \<open>codec_laws\<close> can hold.\<close>

definition sample_translation_value :: "relay_translation \<Rightarrow> bytes json" where
  "sample_translation_value t =
     JArray [opt_value JString (rt_title t), opt_value JString (rt_content t), opt_value JString (rt_excerpt t)]"

fun sample_value_bytes :: "bytes json \<Rightarrow> bytes option" where
  "sample_value_bytes (JString s) = Some s"
| "sample_value_bytes _ = None"

fun sample_value_translation :: "bytes json \<Rightarrow> relay_translation option" where
  "sample_value_translation (JArray [a, b, c]) =
     (case (value_opt sample_value_bytes a, value_opt sample_value_bytes b, value_opt sample_value_bytes c) of
        (Some x, Some y, Some z) \<Rightarrow> Some \<lparr>rt_title = x, rt_content = y, rt_excerpt = z\<rparr>
      | _ \<Rightarrow> None)"
| "sample_value_translation _ = None"

definition sample_result_value :: "ship_result \<Rightarrow> bytes json" where
  "sample_result_value r = JArray [JBool (sr_success r), text_value (sr_packet_id r),
     opt_value (\<lambda>n. JInt (int n)) (sr_target_id r), opt_value JString (sr_target_url r),
     opt_value (\<lambda>v. v) (sr_receipt r), text_value (sr_status r), opt_value text_value (sr_error r)]"

fun sample_value_nat :: "bytes json \<Rightarrow> nat option" where
  "sample_value_nat (JInt i) = Some (nat i)"
| "sample_value_nat _ = None"

fun sample_value_result :: "bytes json \<Rightarrow> ship_result option" where
  "sample_value_result (JArray [JBool a, b, c, d, e, f, g]) =
     (case (value_text b, value_opt sample_value_nat c, value_opt sample_value_bytes d, value_opt Some e,
            value_text f, value_opt value_text g) of
        (Some b', Some c', Some d', Some e', Some f', Some g') \<Rightarrow>
          Some \<lparr>sr_success = a, sr_packet_id = b', sr_target_id = c', sr_target_url = d', sr_receipt = e',
            sr_status = f', sr_error = g'\<rparr>
      | _ \<Rightarrow> None)"
| "sample_value_result _ = None"

primrec sample_media_value :: "(bytes \<times> bytes) list \<Rightarrow> bytes json list" where
  "sample_media_value [] = []"
| "sample_media_value (m # ms) = JString (fst m) # JString (snd m) # sample_media_value ms"

fun sample_value_media :: "bytes json list \<Rightarrow> (bytes \<times> bytes) list" where
  "sample_value_media (a # b # r) =
     (case (sample_value_bytes a, sample_value_bytes b) of (Some x, Some y) \<Rightarrow> (x, y) # sample_value_media r | _ \<Rightarrow> [])"
| "sample_value_media _ = []"

definition sample_ctx_value :: "inflight_ctx \<Rightarrow> bytes json" where
  "sample_ctx_value c = JArray [opt_value sample_translation_value (ic_translation c), text_value (ic_translation_scope c),
     JArray (sample_media_value (ic_media_url_map c)), text_value (ic_action c),
     opt_value sample_result_value (ic_target_receipt c), opt_value text_value (ic_delivery_phase c)]"

fun sample_value_ctx :: "bytes json \<Rightarrow> inflight_ctx option" where
  "sample_value_ctx (JArray [a, b, JArray c, d, e, f]) =
     (case (value_opt sample_value_translation a, value_text b, value_text d, value_opt sample_value_result e,
            value_opt value_text f) of
        (Some a', Some b', Some d', Some e', Some f') \<Rightarrow>
          Some \<lparr>ic_translation = a', ic_translation_scope = b', ic_media_url_map = sample_value_media c,
            ic_action = d', ic_target_receipt = e', ic_delivery_phase = f'\<rparr>
      | _ \<Rightarrow> None)"
| "sample_value_ctx _ = None"

definition sample_sync :: sync_codec where
  "sample_sync = \<lparr>sx_crates = cc_crates sample_codec, sx_sources = cc_sources sample_codec,
     sx_print = put_json, sx_read = read_json, ctx_value = sample_ctx_value, value_ctx = sample_value_ctx,
     receipt_value = sample_result_value, print_original = (\<lambda>pair uuid original. [])\<rparr>"

lemma sample_values_read:
  "sample_value_translation (sample_translation_value t) = Some t"
  "sample_value_result (sample_result_value r) = Some r"
  "sample_value_media (sample_media_value ms) = ms"
proof -
  show "sample_value_translation (sample_translation_value t) = Some t"
    by (simp add: sample_translation_value_def value_opt_of)
  have n: "sample_value_nat (JInt (int n)) = Some n" for n by simp
  show "sample_value_result (sample_result_value r) = Some r"
    by (simp add: sample_result_value_def value_opt_of)
  show "sample_value_media (sample_media_value ms) = ms" by (induction ms) simp_all
qed

lemma sample_ctx_read: "sample_value_ctx (sample_ctx_value c) = Some c"
  by (simp add: sample_ctx_value_def value_opt_of sample_values_read)

lemma sample_sync_laws: "codec_laws sample_sync"
  by (simp add: codec_laws_def sample_sync_def json_text_laws sample_ctx_read)
    (simp add: crate_laws_def sealed_def sample_codec_def ascii_def)

lemma sample_sync_encrypts:
  "encrypt_config_value (sx_crates sample_sync) (sx_sources sample_sync) nonce plain
    = Inr (ascii ''V1BUQw'' @ WPTC_MAGIC @ [WPTC_VERSION] @ nonce @ replicate 16 0 @ plain)"
  by (simp add: sample_sync_def encrypt_config_value_def encrypt_for_save_def sample_secret sample_key)
    (simp add: sample_codec_def)

definition sample_seal :: "string \<Rightarrow> bytes json \<Rightarrow> bytes" where
  "sample_seal kind v = ascii ''V1BUQw'' @ WPTC_MAGIC @ [WPTC_VERSION] @ replicate 12 7 @ replicate 16 0
     @ put_json (evidence_doc ''p'' ''u'' kind v)"

definition sample_unit :: "int \<Rightarrow> inflight_ctx \<Rightarrow> bytes option \<Rightarrow> inflight_row" where
  "sample_unit a ctx p = \<lparr>si_pair_id = ''p'', si_canonical_uuid = ''u'', si_phase = ''shipping'',
     si_ctx_json = sample_seal ''context'' (sample_ctx_value ctx),
     si_relayed_json = (case p of None \<Rightarrow> [] | Some t \<Rightarrow> sample_seal ''packet'' (JString t)),
     si_attempts = a, si_error = [], si_created_at = 7, si_updated_at = 7\<rparr>"

definition flight :: "int \<Rightarrow> inflight_ctx \<Rightarrow> bytes option \<Rightarrow> sync_db" where
  "flight a ctx p = \<lparr>inflight = [sample_unit a ctx p], archive = []\<rparr>"

lemma sample_context: "decode_context sample_sync ''p'' ''u'' (sample_seal ''context'' (sample_ctx_value ctx)) = Inr ctx"
  by (rule decode_own_context [OF sample_sync_laws, of "replicate 12 7"])
    (simp_all add: sample_sync_encrypts sample_seal_def, simp_all add: sample_sync_def)

lemma sample_packet:
  "packet_of sample_sync ''p'' ''u'' (sample_seal ''packet'' (JString t)) = Inr t" "sample_seal ''packet'' (JString t) \<noteq> []"
proof -
  have "encrypt_config_value (sx_crates sample_sync) (sx_sources sample_sync) (replicate 12 7)
      (sx_print sample_sync (evidence_doc ''p'' ''u'' ''packet'' (JString t))) = Inr (sample_seal ''packet'' (JString t))"
    by (simp add: sample_sync_encrypts sample_seal_def) (simp add: sample_sync_def)
  from decode_own_packet [OF sample_sync_laws _ this]
  show "packet_of sample_sync ''p'' ''u'' (sample_seal ''packet'' (JString t)) = Inr t" "sample_seal ''packet'' (JString t) \<noteq> []"
    by simp_all
qed

lemma sample_unit_packet:
  "packet_of sample_sync ''p'' ''u'' (si_relayed_json (sample_unit a ctx p)) = Inr (packet_text p)"
  by (cases p) (simp_all add: sample_unit_def sample_packet packet_text_def, simp add: packet_of_def)

lemma sample_encodes:
  "encode_evidence sample_sync (replicate 12 7) ''p'' ''u'' kind v env n s = (Inr (sample_seal kind v), n, s)"
  by (simp add: encode_evidence_Inr sample_sync_encrypts sample_seal_def) (simp add: sample_sync_def)

lemma sample_ctx_value_of: "ctx_value sample_sync = sample_ctx_value"
  by (simp add: sample_sync_def)

lemma flight_unit: "of_unit ''p'' ''u'' (sample_unit a ctx p)" "find (of_unit ''p'' ''u'') (inflight (flight a ctx p)) = Some (sample_unit a ctx p)"
  by (simp_all add: of_unit_def sample_unit_def flight_def)

lemma sample_evidence: "evidence sample_sync (flight a ctx p) (''p'', ''u'') = Some (ctx, p)"
proof -
  have "row_evidence sample_sync (sample_unit a ctx p) = Some (ctx, p)"
    using row_evidence_eq [of "sample_unit a ctx p" "''p''" "''u''" sample_sync ctx "packet_text p"] sample_unit_packet [of a ctx p]
    by (cases p) (simp_all add: unit_key_def sample_unit_def sample_context sample_packet packet_text_def)
  then show ?thesis using flight_unit by (simp add: evidence_def)
qed

lemma flight_inv: "delivery_ok sample_sync ''u'' (ctx, p) \<Longrightarrow> sync_inv sample_sync (flight a ctx p)"
proof -
  have "unit_keys (flight a ctx p) = {(''p'', ''u'')}"
    by (simp add: unit_keys_def flight_def sample_unit_def unit_key_def)
  then show "delivery_ok sample_sync ''u'' (ctx, p) \<Longrightarrow> ?thesis"
    by (simp add: sync_inv_def sample_evidence) (simp add: flight_def sample_unit_def)
qed

definition no_flight :: sync_db where
  "no_flight = \<lparr>inflight = [], archive = []\<rparr>"

lemma no_flight_inv: "sync_inv cx no_flight"
  by (simp add: sync_inv_def no_flight_def unit_keys_def)

lemma sample_admit:
  "begin_shipping_scoped sample_sync (replicate 12 7) ''p'' ''u'' scope (calm 7) n no_flight
     = (Inr (), n + 5, flight 1 (default_ctx\<lparr>ic_translation_scope := scope\<rparr>) None)"
  by (simp add: begin_shipping_scoped_def savepoint_def bind_def seq_def select_unit_def query_def execute_def
      update_units_def update_where_def insert_unit_def sample_encodes ret_def ensure_def calm_def
      no_flight_def Let_def sample_unit_def flight_def unix_ts_def i64_max_def sample_ctx_value_of default_ctx_def)

lemma sample_readmit:
  assumes "ic_translation_scope ctx = scope"
  shows "begin_shipping_scoped sample_sync (replicate 12 7) ''p'' ''u'' scope (calm 7) n (flight a ctx p)
     = (Inr (), n + 4, flight (a + 1) ctx p)"
proof -
  have "si_ctx_json (sample_unit a ctx p) = sample_seal ''context'' (sample_ctx_value ctx)"
    "si_phase (sample_unit a ctx p) = ''shipping''" "of_unit ''p'' ''u'' (sample_unit a ctx p)"
    "(sample_unit a ctx p)\<lparr>si_attempts := si_attempts (sample_unit a ctx p) + 1, si_phase := ''shipping'',
       si_error := [], si_updated_at := 7\<rparr> = sample_unit (a + 1) ctx p"
    by (simp_all add: sample_unit_def of_unit_def)
  then show ?thesis
    using assms sample_context [of ctx]
    by (simp add: begin_shipping_scoped_def savepoint_def bind_def seq_def select_unit_def query_def execute_def
      update_units_def update_where_def ret_def ensure_def calm_def lift_read_def
      flight_def unix_ts_def i64_max_def)
qed

lemma sample_find:
  "find_shipping sample_sync ''p'' ''u'' (calm 7) n no_flight = (Inr None, n + 1, no_flight)"
  "find_shipping sample_sync ''p'' ''u'' (calm 7) n (flight a ctx p)
     = (Inr (Some \<lparr>iv_ctx = ctx, iv_relayed_json = packet_text p, iv_attempts = a\<rparr>), n + 1, flight a ctx p)"
proof -
  have "view_of sample_sync ''p'' ''u'' (sample_unit a ctx p) = Inr \<lparr>iv_ctx = ctx, iv_relayed_json = packet_text p, iv_attempts = a\<rparr>"
    using sample_unit_packet [of a ctx p] sample_context [of ctx]
    by (simp add: view_of_def) (simp add: sample_unit_def)
  moreover have "si_phase (sample_unit a ctx p) = ''shipping''" "of_unit ''p'' ''u'' (sample_unit a ctx p)"
    by (simp_all add: sample_unit_def of_unit_def)
  ultimately show "find_shipping sample_sync ''p'' ''u'' (calm 7) n (flight a ctx p)
     = (Inr (Some \<lparr>iv_ctx = ctx, iv_relayed_json = packet_text p, iv_attempts = a\<rparr>), n + 1, flight a ctx p)"
    by (simp add: find_shipping_def bind_def seq_def select_unit_def query_def execute_def flight_def ensure_def
        lift_read_def ret_def calm_def)
qed (simp add: find_shipping_def bind_def select_unit_def query_def execute_def no_flight_def ret_def calm_def)

lemma sample_merge:
  assumes "merge ctx (packet_text p) = Inr ctx'"
  shows "merge_ctx sample_sync (replicate 12 7) ''p'' ''u'' merge (calm 7) n (flight a ctx p)
    = (Inr (), n + 5, flight a ctx' p)"
proof -
  have now: "clock (calm 7) m = 7" "\<not> fault (calm 7) m" "unix_ts 7 = 7" for m
    by (simp_all add: calm_def unix_ts_def i64_max_def)
  have row: "si_ctx_json (sample_unit a ctx p) = sample_seal ''context'' (sample_ctx_value ctx)"
    "si_phase (sample_unit a ctx p) = ''shipping''" for a ctx p by (simp_all add: sample_unit_def)
  have put: "(sample_unit a ctx p)\<lparr>si_ctx_json := sample_seal ''context'' (sample_ctx_value ctx'), si_updated_at := 7\<rparr>
      = sample_unit a ctx' p" by (simp add: sample_unit_def)
  have r: "require_unit ''p'' ''u'' (calm 7) m (flight a ctx p) = (Inr (sample_unit a ctx p), Suc m, flight a ctx p)" for m a ctx p
    using flight_unit by (simp add: require_unit_Inr now)
  let ?same = "\<lambda>q. of_unit ''p'' ''u'' q \<and> si_ctx_json q = sample_seal ''context'' (sample_ctx_value ctx)
      \<and> si_phase q = ''shipping'' \<and> si_relayed_json q = si_relayed_json (sample_unit a ctx p)"
  have u: "update_units ?same (\<lambda>now q. q\<lparr>si_ctx_json := sample_seal ''context'' (sample_ctx_value ctx'), si_updated_at := now\<rparr>)
      (calm 7) m (flight a ctx p) = (Inr 1, Suc m, flight a ctx' p)" for m
    using flight_unit(1) [of a ctx p] by (simp add: update_units_def execute_def update_where_def now flight_def row put)
  show ?thesis
    using assms
    by (simp add: merge_ctx_def savepoint_def bind_def seq_def r lift_read_def row sample_context sample_unit_packet
        ret_def sample_ctx_value_of sample_encodes ensure_def u now)
qed


lemma sample_freeze:
  "store_relayed_packet sample_sync (replicate 12 7) (replicate 12 7) ''p'' ''u'' action t (calm 7) n (flight a ctx None)
    = (Inr (), n + 5, flight a (ctx\<lparr>ic_action := action, ic_delivery_phase := Some ''prepared''\<rparr>) (Some t))"
  (is "_ = (Inr (), _, flight a ?ctx _)")
proof -
  have now: "clock (calm 7) m = 7" "\<not> fault (calm 7) m" "unix_ts 7 = 7" for m
    by (simp_all add: unix_ts_def i64_max_def)
  have row: "si_ctx_json (sample_unit a ctx p) = sample_seal ''context'' (sample_ctx_value ctx)"
    "si_phase (sample_unit a ctx p) = ''shipping''" "si_relayed_json (sample_unit a ctx None) = []"
    "si_relayed_json (sample_unit a ctx (Some t)) = sample_seal ''packet'' (JString t)" for a ctx p by (simp_all add: sample_unit_def)
  have put: "(sample_unit a ctx None)\<lparr>si_ctx_json := sample_seal ''context'' (sample_ctx_value ?ctx),
      si_relayed_json := sample_seal ''packet'' (JString t), si_updated_at := 7\<rparr> = sample_unit a ?ctx (Some t)"
    by (simp add: sample_unit_def)
  have r: "require_unit ''p'' ''u'' (calm 7) m (flight a ctx p) = (Inr (sample_unit a ctx p), Suc m, flight a ctx p)" for m a ctx p
    using flight_unit by (simp add: require_unit_Inr now)
  let ?same = "\<lambda>q. of_unit ''p'' ''u'' q \<and> si_ctx_json q = sample_seal ''context'' (sample_ctx_value ctx)
      \<and> si_relayed_json q = [] \<and> si_phase q = ''shipping''"
  have u: "update_units ?same (\<lambda>now q. q\<lparr>si_ctx_json := sample_seal ''context'' (sample_ctx_value ?ctx),
        si_relayed_json := sample_seal ''packet'' (JString t), si_updated_at := now\<rparr>)
      (calm 7) m (flight a ctx None) = (Inr 1, Suc m, flight a ?ctx (Some t))" for m
    using flight_unit(1) [of a ctx None] by (simp add: update_units_def execute_def update_where_def now flight_def row put)
  show ?thesis
    by (simp add: store_relayed_packet_def savepoint_def bind_def seq_def r lift_read_def row sample_context
        ret_def sample_ctx_value_of sample_encodes ensure_def u now)
qed

lemma sample_admission:
  "sync_step sample_sync (Admit (replicate 12 7) ''p'' ''u'' []) (calm 7) 0 no_flight = (Inr (), 5, flight 1 default_ctx None)"
  using sample_admit [of "[]" 0] by (simp add: default_ctx_def)

text \<open>A unit that is shipped: admitted, frozen, submitted and received.\<close>

definition sample_receipt :: ship_result where
  "sample_receipt = \<lparr>sr_success = True, sr_packet_id = ''k'', sr_target_id = None, sr_target_url = None,
     sr_receipt = Some (JObject [(ascii ''committed'', JBool True), (ascii ''packet_id'', jtext ''k''),
       (ascii ''canonical_uuid'', jtext ''u''), (ascii ''status'', jtext ''success'')]),
     sr_status = ''success'', sr_error = None\<rparr>"

definition sample_text :: bytes where
  "sample_text = put_json (JObject [(ascii ''packet_id'', jtext ''k'')])"

definition delivered_ctx :: inflight_ctx where
  "delivered_ctx = default_ctx\<lparr>ic_action := ''create'', ic_delivery_phase := Some ''submitted'',
     ic_target_receipt := Some sample_receipt\<rparr>"

definition sample_delivery :: "sync_op list" where
  "sample_delivery =
     [Admit (replicate 12 7) ''p'' ''u'' [], Freeze (replicate 12 7) (replicate 12 7) ''p'' ''u'' ''create'' sample_text,
      Submitted (replicate 12 7) ''p'' ''u'', Receipt (replicate 12 7) ''p'' ''u'' sample_receipt]"

lemma sample_delivery_runs:
  "run_ops (sync_step sample_sync) (calm 7) sample_delivery 0 no_flight = flight 1 delivered_ctx (Some sample_text)"
proof -
  let ?c1 = "default_ctx\<lparr>ic_action := ''create'', ic_delivery_phase := Some ''prepared''\<rparr>"
  let ?c2 = "default_ctx\<lparr>ic_action := ''create'', ic_delivery_phase := Some ''submitted''\<rparr>"
  have "sample_text \<noteq> []" by (simp add: sample_text_def)
  then have m1: "merge_submitted ?c1 (packet_text (Some sample_text)) = Inr ?c2"
    by (simp add: merge_submitted_def packet_text_def)
  have keys: "ascii ''packet_id'' \<noteq> ascii ''committed''" "ascii ''canonical_uuid'' \<noteq> ascii ''committed''"
    "ascii ''status'' \<noteq> ascii ''committed''" "ascii ''canonical_uuid'' \<noteq> ascii ''packet_id''"
    "ascii ''status'' \<noteq> ascii ''packet_id''" "ascii ''status'' \<noteq> ascii ''canonical_uuid''"
    "ascii ''fingerprint_ack'' \<notin> {ascii ''committed'', ascii ''packet_id'', ascii ''canonical_uuid'', ascii ''status''}"
    "ascii ''origin_site_uuid'' \<notin> {ascii ''committed'', ascii ''packet_id'', ascii ''canonical_uuid'', ascii ''status''}"
    "ascii ''target_lang'' \<notin> {ascii ''committed'', ascii ''packet_id'', ascii ''canonical_uuid'', ascii ''status''}"
    "ascii ''source_fingerprint'' \<noteq> ascii ''packet_id''" "ascii ''origin_context'' \<noteq> ascii ''packet_id''"
    by (simp_all add: ascii_def)
  obtain payload where pay: "sr_receipt sample_receipt = Some payload" "committed_receipt ''u'' sample_receipt payload"
    "receipt_of_packet payload (JObject [(ascii ''packet_id'', jtext ''k'')])"
    using keys by (simp add: sample_receipt_def committed_receipt_def member_def receipt_of_packet_def)
  have "sx_read sample_sync sample_text = Some (JObject [(ascii ''packet_id'', jtext ''k'')])"
    by (simp add: sample_sync_def sample_text_def json_text_laws del: put_json.simps)
  then have m2: "merge_receipt sample_sync sample_receipt payload ?c2 (packet_text (Some sample_text)) = Inr delivered_ctx"
    using pay \<open>sample_text \<noteq> []\<close> by (simp add: merge_receipt_def packet_text_def delivered_ctx_def default_ctx_def)
  show ?thesis
    using sample_admission pay(1,2)
    by (simp add: sample_delivery_def sample_freeze mark_submitted_def sample_merge [of merge_submitted, OF m1] store_target_receipt_def
        sample_merge [of "merge_receipt sample_sync sample_receipt payload", OF m2])
qed

theorem tables_refine_unit_machine_witness:
  "sync_inv sample_sync (flight 1 default_ctx None)
     \<and> unit_step sample_sync (Admit (replicate 12 7) ''p'' ''u'' []) None (Some (default_ctx, None))"
  using tables_refine_unit_machine [OF sample_sync_laws _ no_flight_inv sample_admission] sample_evidence [of 1 default_ctx None]
  by (simp add: good_nonces_def evidence_def no_flight_def)

theorem paid_evidence_kept_witness:
  "\<exists>e. evidence sample_sync (run_ops (sync_step sample_sync) (calm 7)
           [MediaDone (replicate 12 7) ''p'' ''u'' [1] [2], Close ''p'' ''v''] 0
           (flight 1 default_ctx None)) (''p'', ''u'') = Some e
     \<and> evidence_kept (default_ctx, None) e"
  by (rule paid_evidence_kept [OF sample_sync_laws _ flight_inv sample_evidence])
    (simp_all add: good_nonces_def delivery_ok_def default_ctx_def)

theorem receipt_belongs_to_packet_witness:
  "committed_receipt ''u'' sample_receipt (the (sr_receipt sample_receipt))
     \<and> receipt_of_packet (the (sr_receipt sample_receipt)) (the (sx_read sample_sync sample_text))"
proof -
  have "list_all good_nonces sample_delivery" by (simp add: sample_delivery_def good_nonces_def)
  from receipt_belongs_to_packet [OF sample_sync_laws this, of "calm 7" 0 "''p''" "''u''" delivered_ctx "Some sample_text"]
  show ?thesis
    using sample_delivery_runs sample_evidence [of 1 delivered_ctx "Some sample_text"]
    by (auto simp: no_flight_def delivered_ctx_def packet_text_def)
qed

end
