(* ===== verification/SyncPlan.thy ===== *)
theory SyncPlan
  imports SyncInflight "HOL-Library.Finite_Map"
begin

text \<open>
  What a pair of sites asks for and what goes over the wire: the pair of \<open>sync_engine/types.rs\<close>, the plan of the
  text fields of \<open>sync_engine/field_plan.rs\<close>, the packet of \<open>sync_engine/packet.rs\<close> and the transforms of
  \<open>sync_engine/shipper.rs\<close> that adapt a pulled packet to the target or build a tombstone.

  Identifiers and addresses are texts; contents are UTF-8 bytes inside JSON values. A hash map is a function, except
  where its iteration order shows: the media addresses are a list in the order in which the map is iterated.
\<close>

section \<open>The pair\<close>

datatype sync_direction = Unidirectional | Bidirectional
datatype sync_mode = SyncOnly | SyncAndTranslate
datatype conflict_strategy = Lww | SourceWins | TargetWins | ManualReview | Merge
datatype sync_frequency = Manual | EveryMinute | Hourly | Daily
datatype pair_status = ActivePair | PausedPair | ErrorPair

definition as_wire_str :: "conflict_strategy \<Rightarrow> string" where
  "as_wire_str c = (case c of Lww \<Rightarrow> ''lww'' | SourceWins \<Rightarrow> ''source_wins'' | TargetWins \<Rightarrow> ''target_wins''
     | ManualReview \<Rightarrow> ''manual_review'' | Merge \<Rightarrow> ''merge'')"

definition from_wire_str :: "string \<Rightarrow> conflict_strategy option" where
  "from_wire_str raw = (let s = trim raw in
     if s = ''lww'' then Some Lww
     else if s = ''source_wins'' then Some SourceWins
     else if s = ''target_wins'' then Some TargetWins
     else if s = ''manual_review'' then Some ManualReview
     else if s = ''merge'' then Some Merge
     else None)"

lemma wire_str_roundtrip: "from_wire_str (as_wire_str c) = Some c"
  by (cases c) (simp_all add: from_wire_str_def as_wire_str_def trim_def trim_by_def is_ws_def)

record sync_field_action =
  fa_field :: string
  fa_action :: string
  fa_component :: "string option"

record sync_pair =
  sp_id :: string
  sp_name :: string
  sp_source_domain :: string
  sp_target_domain :: string
  sp_direction :: sync_direction
  sp_mode :: sync_mode
  sp_source_lang :: string
  sp_target_lang :: string
  sp_strategy :: conflict_strategy
  sp_frequency :: sync_frequency
  sp_post_types :: "string list"
  sp_status :: pair_status
  sp_last_sync_at :: "int option"
  sp_last_seen :: "nat option"
  sp_last_count :: "nat option"
  sp_last_error :: "db_error option"
  sp_component :: "string option"
  sp_field_actions :: "sync_field_action list"
  sp_review_before_push :: bool
  sp_created_at :: int
  sp_updated_at :: int

text \<open>\<open>parks_in_review_inbox\<close>.\<close>

definition parks_in_review_inbox :: "sync_pair \<Rightarrow> bool" where
  "parks_in_review_inbox p \<longleftrightarrow> sp_review_before_push p \<or> sp_strategy p = ManualReview"

section \<open>The plan of the text fields\<close>

datatype sync_kind = TranslateField | CopyField | SkipField

record planned_field =
  pf_field :: string
  pf_action :: sync_kind
  pf_component :: string

definition sync_text_fields :: "string list" where
  "sync_text_fields = [''post_title'', ''post_content'', ''post_excerpt'']"

definition canonical_field :: "string \<Rightarrow> string option" where
  "canonical_field raw = find (\<lambda>f. f = trim raw) sync_text_fields"

definition kind_of :: "string \<Rightarrow> sync_kind" where
  "kind_of raw = (let a = trim raw in
     if a = ''translate'' then TranslateField else if a \<in> {''copy'', ''as_is''} then CopyField else SkipField)"

text \<open>\<open>as_deref().unwrap_or("").trim()\<close>.\<close>

definition trimmed :: "string option \<Rightarrow> string" where
  "trimmed o1 = (case o1 of None \<Rightarrow> [] | Some s \<Rightarrow> trim s)"

text \<open>The row of a field is replaced where it stands, or appended.\<close>

fun put_planned :: "planned_field \<Rightarrow> planned_field list \<Rightarrow> planned_field list" where
  "put_planned row [] = [row]"
| "put_planned row (q # qs) = (if pf_field q = pf_field row then row # qs else q # put_planned row qs)"

definition planned_row :: "string \<Rightarrow> sync_field_action \<Rightarrow> string \<Rightarrow> planned_field" where
  "planned_row fallback a field =
     \<lparr>pf_field = field, pf_action = kind_of (fa_action a),
      pf_component = (if trimmed (fa_component a) = [] then fallback else trimmed (fa_component a))\<rparr>"

definition plan_action :: "string \<Rightarrow> planned_field list \<Rightarrow> sync_field_action \<Rightarrow> planned_field list" where
  "plan_action fallback planned a =
     (case canonical_field (fa_field a) of
        None \<Rightarrow> planned
      | Some field \<Rightarrow> put_planned (planned_row fallback a field) planned)"

definition plan_sync_fields :: "sync_pair \<Rightarrow> planned_field list" where
  "plan_sync_fields p =
     (if sp_mode p \<noteq> SyncAndTranslate then []
      else let fallback = trimmed (sp_component p) in
        if sp_field_actions p = []
        then map (\<lambda>f. \<lparr>pf_field = f, pf_action = TranslateField, pf_component = fallback\<rparr>) sync_text_fields
        else foldl (plan_action fallback) [] (sp_field_actions p))"

definition translate_component_required :: "sync_pair \<Rightarrow> bool" where
  "translate_component_required p \<longleftrightarrow>
     (\<exists>row \<in> set (plan_sync_fields p). pf_action row = TranslateField \<and> pf_component row = [])"

definition empty_pair :: sync_pair where
  "empty_pair = \<lparr>sp_id = [], sp_name = [], sp_source_domain = [], sp_target_domain = [],
     sp_direction = Unidirectional, sp_mode = SyncOnly, sp_source_lang = [], sp_target_lang = [],
     sp_strategy = Lww, sp_frequency = Manual, sp_post_types = [], sp_status = ActivePair,
     sp_last_sync_at = None, sp_last_seen = None, sp_last_count = None, sp_last_error = None,
     sp_component = None, sp_field_actions = [], sp_review_before_push = False, sp_created_at = 0, sp_updated_at = 0\<rparr>"

definition kind_name :: "sync_kind \<Rightarrow> string" where
  "kind_name k = (case k of TranslateField \<Rightarrow> ''translate'' | CopyField \<Rightarrow> ''copy'' | SkipField \<Rightarrow> ''skip'')"

definition action_of_row :: "planned_field \<Rightarrow> sync_field_action" where
  "action_of_row row = \<lparr>fa_field = pf_field row, fa_action = kind_name (pf_action row),
     fa_component = (if pf_component row = [] then None else Some (pf_component row))\<rparr>"

definition normalize_field_actions :: "sync_field_action list \<Rightarrow> sync_field_action list" where
  "normalize_field_actions actions =
     map action_of_row (plan_sync_fields (empty_pair\<lparr>sp_mode := SyncAndTranslate, sp_field_actions := actions\<rparr>))"

subsection \<open>What the plan says of a field\<close>

lemma find_put_planned:
  "find (\<lambda>r. pf_field r = f) (put_planned row qs) =
     (if pf_field row = f then Some row else find (\<lambda>r. pf_field r = f) qs)"
  by (induction qs) auto

lemma put_planned_fields:
  "pf_field ` set (put_planned row qs) = insert (pf_field row) (pf_field ` set qs)"
  "distinct (map pf_field qs) \<Longrightarrow> distinct (map pf_field (put_planned row qs))"
proof -
  show fields: "pf_field ` set (put_planned row qs) = insert (pf_field row) (pf_field ` set qs)" for row qs
    by (induction qs) auto
  show "distinct (map pf_field qs) \<Longrightarrow> distinct (map pf_field (put_planned row qs))"
    by (induction qs) (auto simp: fields)
qed

lemma put_planned_new: "pf_field row \<notin> pf_field ` set qs \<Longrightarrow> put_planned row qs = qs @ [row]"
  by (induction qs) auto

lemma planned_row_field [simp]: "pf_field (planned_row fb a f) = f"
  by (simp add: planned_row_def)

lemma canonical_field_known: "canonical_field raw = Some f \<Longrightarrow> f \<in> set sync_text_fields"
  by (auto simp: canonical_field_def dest: find_SomeD)

lemma canonical_field_self: "f \<in> set sync_text_fields \<Longrightarrow> canonical_field f = Some f"
  by (auto simp: canonical_field_def sync_text_fields_def trim_def trim_by_def is_ws_def)

lemma plan_actions_fields:
  "distinct (map pf_field rows) \<Longrightarrow> pf_field ` set rows \<subseteq> set sync_text_fields \<Longrightarrow>
     distinct (map pf_field (foldl (plan_action fb) rows acts))
     \<and> pf_field ` set (foldl (plan_action fb) rows acts) \<subseteq> set sync_text_fields"
proof (induction acts arbitrary: rows)
  case (Cons a acts)
  have "distinct (map pf_field (plan_action fb rows a)) \<and> pf_field ` set (plan_action fb rows a) \<subseteq> set sync_text_fields"
    using Cons.prems canonical_field_known
    by (auto simp: plan_action_def put_planned_fields split: option.split)
  with Cons.IH show ?case by simp
qed simp

lemma plan_fields:
  "distinct (map pf_field (plan_sync_fields p))" "pf_field ` set (plan_sync_fields p) \<subseteq> set sync_text_fields"
  using plan_actions_fields [of "[]"]
  by (auto simp: plan_sync_fields_def Let_def comp_def, simp add: sync_text_fields_def)

lemma find_plan_actions:
  "find (\<lambda>r. pf_field r = f) (foldl (plan_action fb) rows acts) =
     (case find (\<lambda>a. canonical_field (fa_field a) = Some f) (rev acts) of
        Some a \<Rightarrow> Some (planned_row fb a f)
      | None \<Rightarrow> find (\<lambda>r. pf_field r = f) rows)"
proof (induction acts rule: rev_induct)
  case (snoc a acts)
  then show ?case by (auto simp: plan_action_def find_put_planned split: option.split)
qed simp

text \<open>
  The plan of a pair that is translated says one thing of each text field: the last action that names the field
  decides, with its own component or else the default one, and a field that no action names is not planned.
\<close>

theorem last_action_of_field_wins:
  assumes "sp_mode p = SyncAndTranslate" "sp_field_actions p \<noteq> []"
  shows "distinct (map pf_field (plan_sync_fields p))
    \<and> find (\<lambda>r. pf_field r = f) (plan_sync_fields p) =
        map_option (\<lambda>a. planned_row (trimmed (sp_component p)) a f)
          (find (\<lambda>a. canonical_field (fa_field a) = Some f) (rev (sp_field_actions p)))"
  using assms plan_fields(1) [of p]
  by (auto simp: plan_sync_fields_def Let_def find_plan_actions split: option.split)

subsection \<open>Normalizing the actions\<close>

text \<open>A row whose component was left to the default.\<close>

definition with_default :: "string \<Rightarrow> planned_field \<Rightarrow> planned_field" where
  "with_default fb row = (if pf_component row = [] then row\<lparr>pf_component := fb\<rparr> else row)"

lemma with_default_field [simp]: "pf_field (with_default fb row) = pf_field row"
  by (simp add: with_default_def)

lemma put_planned_default:
  "put_planned (with_default fb row) (map (with_default fb) qs) = map (with_default fb) (put_planned row qs)"
  by (induction qs) auto

lemma plan_actions_default:
  "foldl (plan_action fb) (map (with_default fb) rows) acts = map (with_default fb) (foldl (plan_action []) rows acts)"
proof (induction acts arbitrary: rows)
  case (Cons a acts)
  have "planned_row fb a f = with_default fb (planned_row [] a f)" for f
    by (simp add: planned_row_def with_default_def)
  then have "plan_action fb (map (with_default fb) rows) a = map (with_default fb) (plan_action [] rows a)"
    by (simp add: plan_action_def put_planned_default split: option.split)
  with Cons.IH show ?case by simp
qed simp

lemma kind_of_name: "kind_of (kind_name k) = k"
  by (cases k) (simp_all add: kind_of_def kind_name_def trim_def trim_by_def is_ws_def)

lemma planned_again:
  assumes "trim (pf_component row) = pf_component row"
  shows "planned_row fb (action_of_row row) (pf_field row) = with_default fb row"
  using assms by (simp add: planned_row_def action_of_row_def trimmed_def with_default_def kind_of_name)

lemma plan_components_trimmed:
  "\<forall>r \<in> set rows. trim (pf_component r) = pf_component r \<Longrightarrow>
     r \<in> set (foldl (plan_action []) rows acts) \<Longrightarrow> trim (pf_component r) = pf_component r"
proof (induction acts arbitrary: rows)
  case (Cons a acts)
  have "trim (pf_component (planned_row [] a f)) = pf_component (planned_row [] a f)" for f
    by (simp add: planned_row_def trimmed_def split: option.split) (simp add: trim_def trim_by_def)
  moreover have "x = row \<or> x \<in> set qs" if "x \<in> set (put_planned row qs)" for x row qs
    using that by (induction qs) (auto split: if_splits)
  ultimately have "\<forall>r \<in> set (plan_action [] rows a). trim (pf_component r) = pf_component r"
    using Cons.prems(1) by (auto simp: plan_action_def split: option.split) metis
  with Cons.IH Cons.prems(2) show ?case by simp
qed simp

lemma plan_of_rows:
  assumes "distinct (map pf_field (done @ rows))" "pf_field ` set rows \<subseteq> set sync_text_fields"
    "\<forall>r \<in> set rows. trim (pf_component r) = pf_component r"
  shows "foldl (plan_action fb) (map (with_default fb) done) (map action_of_row rows)
    = map (with_default fb) (done @ rows)"
  using assms
proof (induction rows arbitrary: "done")
  case (Cons r rows)
  have "canonical_field (fa_field (action_of_row r)) = Some (pf_field r)"
    using Cons.prems(2) by (simp add: action_of_row_def canonical_field_self)
  moreover have "put_planned (with_default fb r) (map (with_default fb) done) = map (with_default fb) (done @ [r])"
    using Cons.prems(1) by (subst put_planned_new) (auto simp: image_image)
  ultimately have "plan_action fb (map (with_default fb) done) (action_of_row r) = map (with_default fb) (done @ [r])"
    using Cons.prems(3) by (simp add: plan_action_def planned_again)
  with Cons.IH [of "done @ [r]"] Cons.prems show ?case by simp
qed simp

text \<open>
  C28: Saving a pair normalizes its actions, and the saved pair is planned as the request was, with one exception:
  when no action names a known field, the request plans nothing but the saved pair has no actions left, which means
  the historical default, so that title, content and excerpt are all translated.
\<close>

theorem normalized_actions_plan:
  assumes "sp_mode p = SyncAndTranslate" "sp_field_actions p \<noteq> []"
  shows "plan_sync_fields (p\<lparr>sp_field_actions := normalize_field_actions (sp_field_actions p)\<rparr>)
    = (if plan_sync_fields p \<noteq> [] then plan_sync_fields p
       else map (\<lambda>f. \<lparr>pf_field = f, pf_action = TranslateField, pf_component = trimmed (sp_component p)\<rparr>) sync_text_fields)"
proof -
  let ?rows = "foldl (plan_action []) [] (sp_field_actions p)" and ?fb = "trimmed (sp_component p)"
  have n: "normalize_field_actions (sp_field_actions p) = map action_of_row ?rows"
    using assms by (simp add: normalize_field_actions_def plan_sync_fields_def empty_pair_def trimmed_def)
  have "foldl (plan_action ?fb) [] (map action_of_row ?rows) = map (with_default ?fb) ?rows"
    using plan_of_rows [of "[]" ?rows ?fb] plan_actions_fields [of "[]" "[]" "sp_field_actions p"]
      plan_components_trimmed [of "[]" _ "sp_field_actions p"] by simp
  moreover have "plan_sync_fields p = map (with_default ?fb) ?rows"
    using assms plan_actions_default [of ?fb "[]"] by (simp add: plan_sync_fields_def)
  ultimately show ?thesis
    using assms by (simp add: plan_sync_fields_def n Let_def)
qed

definition example_pair :: sync_pair where
  "example_pair = empty_pair\<lparr>sp_mode := SyncAndTranslate, sp_component := Some ''c'',
     sp_field_actions := [\<lparr>fa_field = ''post_title'', fa_action = ''translate'', fa_component = None\<rparr>,
       \<lparr>fa_field = '' post_title '', fa_action = ''as_is'', fa_component = None\<rparr>]\<rparr>"

theorem last_action_of_field_wins_witness:
  "find (\<lambda>r. pf_field r = ''post_title'') (plan_sync_fields example_pair)
     = Some \<lparr>pf_field = ''post_title'', pf_action = CopyField, pf_component = ''c''\<rparr>"
  using last_action_of_field_wins [of example_pair "''post_title''"]
  by (simp add: example_pair_def canonical_field_def sync_text_fields_def planned_row_def trimmed_def kind_of_def
      trim_def trim_by_def is_ws_def)

definition unnamed_pair :: sync_pair where
  "unnamed_pair = empty_pair\<lparr>sp_mode := SyncAndTranslate,
     sp_field_actions := [\<lparr>fa_field = ''title'', fa_action = ''skip'', fa_component = None\<rparr>]\<rparr>"

theorem normalized_actions_plan_witness:
  "plan_sync_fields unnamed_pair = []
     \<and> map pf_field (plan_sync_fields (unnamed_pair\<lparr>sp_field_actions := normalize_field_actions (sp_field_actions unnamed_pair)\<rparr>))
       = sync_text_fields"
proof -
  have "plan_sync_fields unnamed_pair = []"
    by (simp add: unnamed_pair_def plan_sync_fields_def Let_def plan_action_def canonical_field_def sync_text_fields_def
        trim_def trim_by_def is_ws_def)
  with normalized_actions_plan [of unnamed_pair] show ?thesis
    by (simp add: unnamed_pair_def sync_text_fields_def)
qed

section \<open>Packets\<close>

text \<open>
  The fields of the entity that no transform touches (author, taxonomies, meta and plugin fields, the list of changed
  fields) are one JSON value.
\<close>

record sync_packet =
  pk_schema :: string
  pk_id :: string
  og_site_uuid :: string
  og_site_url :: string
  og_permalink :: "string option"
  og_blog_id :: nat
  og_lang :: string
  og_vector_clock :: "(string, nat) fmap"
  og_hop_count :: nat
  og_dispatch_ts :: int
  pk_action :: string
  pk_sync_mode :: string
  pk_target_lang :: string
  pk_fingerprint :: string
  en_guid :: string
  en_object_type :: string
  en_subtype :: string
  en_source_id :: nat
  en_slug :: string
  en_status :: string
  en_core_fields :: "(string, bytes json) fmap"
  en_preserved :: "string list option"
  en_other :: "bytes json"
  pk_manifest :: "bytes json list"

definition PACKET_SCHEMA_VERSION :: string where
  "PACKET_SCHEMA_VERSION = ''wpmmcc-sync-v1.0''"

definition trim_slashes :: "string \<Rightarrow> string" where
  "trim_slashes s = rev (dropWhile (\<lambda>c. c = CHR ''/'') (rev s))"

definition rewrite_content_urls :: "bytes \<Rightarrow> string \<Rightarrow> string \<Rightarrow> bytes" where
  "rewrite_content_urls html source_url target_url =
     (let src = trim_slashes source_url; tgt = trim_slashes target_url in
      if src = [] \<or> tgt = [] \<or> src = tgt then html else replace_all (utf8_bytes src) (utf8_bytes tgt) html)"

definition mode_name :: "sync_mode \<Rightarrow> string" where
  "mode_name m = (case m of SyncOnly \<Rightarrow> ''sync_only'' | SyncAndTranslate \<Rightarrow> ''sync_and_translate'')"

text \<open>A translated text replaces the field unless the plan preserves it on the target.\<close>

definition put_translated :: "string list \<Rightarrow> string \<Rightarrow> bytes option \<Rightarrow> (string, bytes json) fmap \<Rightarrow> (string, bytes json) fmap" where
  "put_translated preserved f t core =
     (case t of None \<Rightarrow> core | Some v \<Rightarrow> if f \<in> set preserved then core else fmupd f (JString v) core)"

definition core_text :: "(string, bytes json) fmap \<Rightarrow> string \<Rightarrow> bytes" where
  "core_text core f = (case fmlookup core f of Some (JString s) \<Rightarrow> s | _ \<Rightarrow> [])"

definition base_content :: "string list \<Rightarrow> relay_translation option \<Rightarrow> bytes \<Rightarrow> bytes" where
  "base_content preserved translated source =
     (if ''post_content'' \<in> set preserved then source
      else case translated of None \<Rightarrow> source
        | Some t \<Rightarrow> (case rt_content t of None \<Rightarrow> source | Some v \<Rightarrow> v))"

definition rewrite_media :: "(bytes \<times> bytes) list \<Rightarrow> bytes \<Rightarrow> bytes" where
  "rewrite_media media s = foldl (\<lambda>acc (a, b). replace_all a b acc) s media"

text \<open>One entry of the manifest: \<open>remote_url\<close> becomes the address of the transferred asset.\<close>

definition remote_url :: "bytes json \<Rightarrow> bytes option" where
  "remote_url entry = (case entry of
     JObject ms \<Rightarrow> (case map_of ms (ascii ''remote_url'') of Some (JString u) \<Rightarrow> Some u | _ \<Rightarrow> None)
   | _ \<Rightarrow> None)"

definition rewrite_entry :: "(bytes \<times> bytes) list \<Rightarrow> bytes json \<Rightarrow> bytes json" where
  "rewrite_entry media entry =
     (case (entry, remote_url entry) of
        (JObject ms, Some u) \<Rightarrow>
          (case find (\<lambda>m. fst m = u) media of
             None \<Rightarrow> entry
           | Some m \<Rightarrow> JObject (map (\<lambda>(k, v). if k = ascii ''remote_url'' then (k, JString (snd m)) else (k, v)) ms))
      | _ \<Rightarrow> entry)"

definition relay_packet_for_target ::
  "string \<Rightarrow> sync_packet \<Rightarrow> sync_pair \<Rightarrow> relay_translation option \<Rightarrow> (bytes \<times> bytes) list \<Rightarrow> string list \<Rightarrow> sync_packet" where
  "relay_packet_for_target new_id p pair translated media preserved =
     (let core1 = (case translated of None \<Rightarrow> en_core_fields p
            | Some t \<Rightarrow> put_translated preserved ''post_excerpt'' (rt_excerpt t)
                (put_translated preserved ''post_title'' (rt_title t) (en_core_fields p)));
          content = base_content preserved translated (core_text core1 ''post_content'');
          rewritten = rewrite_content_urls (rewrite_media media content) (sp_source_domain pair) (sp_target_domain pair)
      in p\<lparr>pk_id := ''pkt_'' @ new_id, og_hop_count := sat_add u32_max (og_hop_count p) 1, pk_target_lang := sp_target_lang pair,
           pk_sync_mode := mode_name (sp_mode pair),
           en_preserved := (if preserved = [] then None else Some preserved),
           en_core_fields := fmupd ''post_content'' (JString rewritten) core1,
           pk_manifest := map (rewrite_entry media) (pk_manifest p)\<rparr>)"

definition build_tombstone_packet ::
  "crates \<Rightarrow> string \<Rightarrow> int \<Rightarrow> string \<Rightarrow> string \<Rightarrow> nat \<Rightarrow> string \<Rightarrow> nat \<Rightarrow> string \<Rightarrow> string \<Rightarrow> string \<Rightarrow> string \<Rightarrow> sync_packet" where
  "build_tombstone_packet cr new_id now guid subtype source_id source_uuid source_clock action site_url origin_lang target_lang =
     \<lparr>pk_schema = PACKET_SCHEMA_VERSION, pk_id = ''pkt_'' @ new_id, og_site_uuid = source_uuid, og_site_url = site_url,
      og_permalink = None, og_blog_id = 1, og_lang = origin_lang, og_vector_clock = fmupd source_uuid source_clock fmempty,
      og_hop_count = 1, og_dispatch_ts = now, pk_action = action, pk_sync_mode = ''sync_only'',
      pk_target_lang = target_lang, pk_fingerprint = sha256_hex cr (utf8_bytes (guid @ ''|'' @ action)),
      en_guid = guid, en_object_type = ''post'', en_subtype = subtype, en_source_id = source_id, en_slug = [],
      en_status = ''trash'', en_core_fields = fmempty, en_preserved = None, en_other = JNull, pk_manifest = []\<rparr>"

subsection \<open>What the transform keeps\<close>

lemma put_translated_other [simp]: "k \<noteq> f \<Longrightarrow> fmlookup (put_translated preserved f t core) k = fmlookup core k"
  by (simp add: put_translated_def split: option.split)

lemma put_translated_preserved [simp]: "f \<in> set preserved \<Longrightarrow> put_translated preserved f t core = core"
  by (simp add: put_translated_def split: option.split)

lemma rewrite_media_Nil [simp]: "rewrite_media [] s = s"
  by (simp add: rewrite_media_def)

text \<open>An entry of the manifest but for its address.\<close>

definition entry_members :: "bytes json \<Rightarrow> bytes \<Rightarrow> bytes json option" where
  "entry_members entry k = (case entry of JObject ms \<Rightarrow> map_of ms k | _ \<Rightarrow> None)"

definition moved_entry :: "(bytes \<times> bytes) list \<Rightarrow> bytes json \<Rightarrow> bytes json \<Rightarrow> bool" where
  "moved_entry media entry entry' \<longleftrightarrow>
     (remote_url entry = None \<longrightarrow> entry' = entry)
     \<and> (\<forall>k. k \<noteq> ascii ''remote_url'' \<longrightarrow> entry_members entry' k = entry_members entry k)
     \<and> remote_url entry' = map_option (\<lambda>u. case map_of media u of None \<Rightarrow> u | Some v \<Rightarrow> v) (remote_url entry)"

lemma find_map_of: "map_of xs k = map_option snd (find (\<lambda>m. fst m = k) xs)"
  by (induction xs) auto

lemma rewrite_entry_moves: "moved_entry media entry (rewrite_entry media entry)"
proof (cases entry)
  case (JObject ms)
  have "map_of (map (\<lambda>(k, v). if k = ascii ''remote_url'' then (k, w) else (k, v)) ms) k
      = (if k = ascii ''remote_url'' then map_option (\<lambda>_. w) (map_of ms k) else map_of ms k)" for k w
    by (induction ms) auto
  then show ?thesis
    by (auto simp: moved_entry_def rewrite_entry_def JObject remote_url_def entry_members_def find_map_of
        split: option.split json.split)
qed (auto simp: moved_entry_def rewrite_entry_def remote_url_def entry_members_def)

lemma put_translated_self:
  "fmlookup (put_translated preserved f t core) f
     = (if f \<in> set preserved \<or> t = None then fmlookup core f else Some (JString (the t)))"
  by (auto simp: put_translated_def split: option.split)

text \<open>
  C27: What the relay transform changes, and nothing else. The packet gets a new id, one hop more (up to the largest
  counter), the target language and the mode of the pair, and the list of preserved fields; every other part of the
  packet (its schema, action and fingerprint, its origin, the guid, slug, status and source id of the object, the fields that
  are not core fields) is that of the source. Of the core fields only the three texts may change: title and excerpt become
  their translation unless there is none or the plan preserves the field, and the content is the translation, or the
  source under the same condition, with the media addresses and then the domain rewritten. The manifest keeps its
  entries in order; of an entry only \<open>remote_url\<close> changes, to the target's address of the asset.
\<close>

theorem relay_packet_frame:
  assumes "out = relay_packet_for_target new_id p pair translated media preserved"
  shows "out\<lparr>pk_id := pk_id p, og_hop_count := og_hop_count p, pk_target_lang := pk_target_lang p,
      pk_sync_mode := pk_sync_mode p, en_preserved := en_preserved p, en_core_fields := en_core_fields p,
      pk_manifest := pk_manifest p\<rparr> = p
    \<and> pk_id out = ''pkt_'' @ new_id \<and> og_hop_count out = min u32_max (og_hop_count p + 1)
    \<and> pk_target_lang out = sp_target_lang pair
    \<and> (pk_sync_mode out = ''sync_and_translate'' \<longleftrightarrow> sp_mode pair = SyncAndTranslate)
    \<and> (pk_sync_mode out = ''sync_only'' \<longleftrightarrow> sp_mode pair = SyncOnly)
    \<and> (case en_preserved out of None \<Rightarrow> preserved = [] | Some fs \<Rightarrow> fs = preserved \<and> preserved \<noteq> [])
    \<and> (\<forall>k. k \<in> set sync_text_fields \<or> fmlookup (en_core_fields out) k = fmlookup (en_core_fields p) k)
    \<and> (\<forall>(f, t) \<in> {(''post_title'', Option.bind translated rt_title), (''post_excerpt'', Option.bind translated rt_excerpt)}.
         fmlookup (en_core_fields out) f
           = (if f \<in> set preserved \<or> t = None then fmlookup (en_core_fields p) f else Some (JString (the t))))
    \<and> fmlookup (en_core_fields out) ''post_content'' = Some (JString (rewrite_content_urls (rewrite_media media
         (if ''post_content'' \<in> set preserved \<or> Option.bind translated rt_content = None
          then core_text (en_core_fields p) ''post_content'' else the (Option.bind translated rt_content)))
         (sp_source_domain pair) (sp_target_domain pair)))
    \<and> list_all2 (moved_entry media) (pk_manifest p) (pk_manifest out)"
proof -
  note out = assms relay_packet_for_target_def Let_def
  have frame: "out\<lparr>pk_id := pk_id p, og_hop_count := og_hop_count p, pk_target_lang := pk_target_lang p,
      pk_sync_mode := pk_sync_mode p, en_preserved := en_preserved p, en_core_fields := en_core_fields p,
      pk_manifest := pk_manifest p\<rparr> = p"
    by (simp add: out)
  have addressing: "pk_id out = ''pkt_'' @ new_id" "og_hop_count out = min u32_max (og_hop_count p + 1)"
    "pk_target_lang out = sp_target_lang pair"
    "pk_sync_mode out = ''sync_and_translate'' \<longleftrightarrow> sp_mode pair = SyncAndTranslate"
    "pk_sync_mode out = ''sync_only'' \<longleftrightarrow> sp_mode pair = SyncOnly"
    "case en_preserved out of None \<Rightarrow> preserved = [] | Some fs \<Rightarrow> fs = preserved \<and> preserved \<noteq> []"
    by (cases "sp_mode pair"; simp add: out sat_add_def min_def mode_name_def)+
  have other: "\<forall>k. k \<in> set sync_text_fields \<or> fmlookup (en_core_fields out) k = fmlookup (en_core_fields p) k"
    by (cases translated) (auto simp: out sync_text_fields_def, metis put_translated_other)
  have texts: "fmlookup (en_core_fields out) ''post_title''
      = (if ''post_title'' \<in> set preserved \<or> Option.bind translated rt_title = None
         then fmlookup (en_core_fields p) ''post_title'' else Some (JString (the (Option.bind translated rt_title))))"
    "fmlookup (en_core_fields out) ''post_excerpt''
      = (if ''post_excerpt'' \<in> set preserved \<or> Option.bind translated rt_excerpt = None
         then fmlookup (en_core_fields p) ''post_excerpt'' else Some (JString (the (Option.bind translated rt_excerpt))))"
    by (cases translated; simp add: out put_translated_self)+
  have content: "fmlookup (en_core_fields out) ''post_content'' = Some (JString (rewrite_content_urls (rewrite_media media
         (if ''post_content'' \<in> set preserved \<or> Option.bind translated rt_content = None
          then core_text (en_core_fields p) ''post_content'' else the (Option.bind translated rt_content)))
         (sp_source_domain pair) (sp_target_domain pair)))"
    by (cases translated) (auto simp: out base_content_def core_text_def split: option.split)
  have manifest: "list_all2 (moved_entry media) (pk_manifest p) (pk_manifest out)"
    by (simp add: out list_all2_conv_all_nth rewrite_entry_moves)
  from frame addressing other texts content manifest show ?thesis by simp
qed

subsection \<open>Addresses\<close>

text \<open>
  C29: On a target that lives below the source the addresses of transferred media are wrong. The transform first puts the
  target's address of an asset into the content and then replaces the source domain everywhere, also in the
  addresses it has just put there: when the target domain extends the source domain, its path shows twice.
\<close>

theorem media_address_rewritten_twice:
  assumes "utf8_bytes (trim_slashes (sp_target_domain pair)) = utf8_bytes (trim_slashes (sp_source_domain pair)) @ sub"
    "trim_slashes (sp_source_domain pair) \<noteq> []" "trim_slashes (sp_target_domain pair) \<noteq> trim_slashes (sp_source_domain pair)"
    "b = utf8_bytes (trim_slashes (sp_target_domain pair)) @ rest"
    "\<not> str_contains (sub @ rest) (utf8_bytes (trim_slashes (sp_source_domain pair)))"
    "utf8_bytes (trim_slashes (sp_source_domain pair)) \<noteq> []" "a \<noteq> []"
    "fmlookup (en_core_fields p) ''post_content'' = Some (JString a)"
  shows "fmlookup (en_core_fields (relay_packet_for_target new_id p pair None [(a, b)] [])) ''post_content''
    = Some (JString (utf8_bytes (trim_slashes (sp_target_domain pair)) @ sub @ rest))"
proof -
  have tgt: "trim_slashes (sp_target_domain pair) \<noteq> []"
    using assms(1,6) by (auto simp: utf8_bytes_def)
  have "rewrite_media [(a, b)] a = b"
    using assms(7) by (simp add: rewrite_media_def replace_all_self)
  moreover have "replace_all (utf8_bytes (trim_slashes (sp_source_domain pair)))
      (utf8_bytes (trim_slashes (sp_target_domain pair))) b
    = utf8_bytes (trim_slashes (sp_target_domain pair)) @ sub @ rest"
    using assms(1,4,5,6) by (simp add: replace_all_first replace_all_absent)
  ultimately show ?thesis
    using assms(2,3,8) tgt
    by (simp add: relay_packet_for_target_def Let_def base_content_def core_text_def rewrite_content_urls_def)
qed

lemma relay_content_none: "fmlookup (en_core_fields (relay_packet_for_target new_id p pair None media [])) ''post_content''
    = Some (JString (rewrite_content_urls (rewrite_media media (core_text (en_core_fields p) ''post_content''))
        (sp_source_domain pair) (sp_target_domain pair)))"
  by (simp add: relay_packet_for_target_def Let_def base_content_def core_text_def)

text \<open>
  The replacements of the media addresses run in the order in which the hash map is iterated. When one address is a
  prefix of another, that order decides what the content becomes.
\<close>

lemma media_order_matters:
  "rewrite_media [(ascii ''s/a'', ascii ''t/1''), (ascii ''s/a.webp'', ascii ''t/2'')] (ascii ''s/a.webp'') = ascii ''t/1.webp''"
  "rewrite_media [(ascii ''s/a.webp'', ascii ''t/2''), (ascii ''s/a'', ascii ''t/1'')] (ascii ''s/a.webp'') = ascii ''t/2''"
  by (simp_all add: rewrite_media_def replace_all_def utf8_bytes_def ascii_def Let_def split_on.simps)

subsection \<open>Examples\<close>

definition example_packet :: sync_packet where
  "example_packet = \<lparr>pk_schema = PACKET_SCHEMA_VERSION, pk_id = ''k'', og_site_uuid = ''o'', og_site_url = ''x'',
     og_permalink = None, og_blog_id = 1, og_lang = ''en'', og_vector_clock = fmupd ''o'' 3 fmempty, og_hop_count = 0,
     og_dispatch_ts = 5, pk_action = ''upsert'', pk_sync_mode = ''sync_only'', pk_target_lang = ''de'',
     pk_fingerprint = ''f'', en_guid = ''u'', en_object_type = ''post'', en_subtype = ''page'', en_source_id = 9,
     en_slug = [], en_status = ''publish'',
     en_core_fields = fmap_of_list [(''post_title'', JString [72]), (''post_content'', JString (utf8_bytes ''a/m''))],
     en_preserved = None, en_other = JNull, pk_manifest = []\<rparr>"

theorem relay_packet_frame_witness:
  "let out = relay_packet_for_target ''n'' example_packet empty_pair
       (Some \<lparr>rt_title = Some [73], rt_content = None, rt_excerpt = Some [74]\<rparr>) [] [''post_title'']
   in fmlookup (en_core_fields out) ''post_title'' = Some (JString [72])
    \<and> fmlookup (en_core_fields out) ''post_excerpt'' = Some (JString [74]) \<and> og_hop_count out = 1"
  using relay_packet_frame [OF refl, where new_id = "''n''" and p = example_packet and pair = empty_pair and
      translated = "Some \<lparr>rt_title = Some [73], rt_content = None, rt_excerpt = Some [74]\<rparr>" and media = "[]" and preserved = "[''post_title'']"]
  by (auto simp: example_packet_def u32_max_def)

theorem media_address_rewritten_twice_witness:
  "fmlookup (en_core_fields (relay_packet_for_target ''n'' example_packet
     (empty_pair\<lparr>sp_source_domain := ''h'', sp_target_domain := ''h/de''\<rparr>) None [(utf8_bytes ''a/m'', utf8_bytes ''h/de/m.png'')] [])) ''post_content''
   = Some (JString (utf8_bytes ''h/de/de/m.png''))"
proof -
  have "fmlookup (en_core_fields (relay_packet_for_target ''n'' example_packet
     (empty_pair\<lparr>sp_source_domain := ''h'', sp_target_domain := ''h/de''\<rparr>) None [(utf8_bytes ''a/m'', utf8_bytes ''h/de/m.png'')] [])) ''post_content''
   = Some (JString (utf8_bytes (trim_slashes (sp_target_domain
       (empty_pair\<lparr>sp_source_domain := ''h'', sp_target_domain := ''h/de''\<rparr>))) @ utf8_bytes ''/de'' @ utf8_bytes ''/m.png''))"
    by (rule media_address_rewritten_twice)
      (simp_all add: trim_slashes_def utf8_bytes_def Let_def example_packet_def str_contains_def)
  then show ?thesis by (simp add: trim_slashes_def utf8_bytes_def Let_def)
qed

end
