(* ===== verification/SyncShip.thy ===== *)
theory SyncShip
  imports SyncPlan
begin

text \<open>
  Shipping one packet to the target: \<open>ship_one_packet\<close> and \<open>ship_tombstone_packet\<close> of
  \<open>sync_engine/discoverer.rs\<close> with the calls of \<open>sync_engine/shipper.rs\<close> that they make, over the rows of
  \<open>SyncInflight\<close>.

  A run is a computation over the local documents and tables and a trace of the calls that left the client. Every
  statement, every document write and every call has a number; the environment says which of them fail, so a crash
  is an environment in which everything from some number on fails. What the sites and the provider answer
  is a function of that number, with \<open>None\<close> for an answer that was lost.
\<close>

section \<open>Documents, calls and answers\<close>

record known_entity =
  kn_uuid :: string
  kn_fingerprint :: string
  kn_clock :: nat
  kn_post_type :: string
  kn_post_status :: string
  kn_target_id :: "nat option"
  kn_shipped_at :: int
  kn_rejected :: bool

text \<open>The pairs' state document, for one pair; the hash map of known entities is an association list.\<close>

record pair_state =
  ps_last_seen :: nat
  ps_reconcile_cursor :: nat
  ps_known :: "(string \<times> known_entity) list"
  ps_updated_at :: int

datatype review_status = PendingReview | Pushed | Rejected

record review_item =
  rv_id :: string
  rv_pair :: string
  rv_uuid :: string
  rv_status :: review_status
  rv_source :: "bytes \<times> bytes \<times> bytes"
  rv_proposed :: "bytes \<times> bytes \<times> bytes"
  rv_packet :: sync_packet
  rv_fingerprint :: string
  rv_clock :: nat
  rv_post_type :: string
  rv_post_status :: string
  rv_error_message :: "string option"
  rv_delivery :: bool
  rv_created_at :: int
  rv_updated_at :: int

record run_report =
  rp_scanned :: nat
  rp_pulled :: nat
  rp_synced :: nat
  rp_pending :: nat
  rp_trashed :: nat
  rp_deleted :: nat
  rp_media :: nat
  rp_skipped :: nat
  rp_errors :: nat
  rp_last_error :: "db_error option"

text \<open>The answer to a signed call: a rejection, or the authenticated \<open>data\<close> object.\<close>

datatype site_answer = HttpStatus nat | SiteData "bytes json"

text \<open>
  The answers of the source to the calls of a run: refused with a status, or with data that serde reads or does not
  read. \<open>digest_item\<close> is \<open>DigestItem\<close> without the date, which nothing reads.
\<close>

datatype 'a answer = Refused nat | Unreadable | Given 'a

record digest_item =
  di_uuid :: string
  di_fingerprint :: string
  di_clock :: nat
  di_local_id :: nat
  di_status :: string
  di_type :: string

datatype call =
    DigestCall nat "digest_item list answer option"
  | PullCall "string list" "sync_packet list answer option"
  | ReconcileCall "(string \<times> string \<times> nat) list" "(string, string) fmap answer option"
  | TranslateCall string string string bytes
  | MediaCall string bytes
  | PrepareCall sync_packet
  | PushCall sync_packet "site_answer option"
  | ReceiptCall sync_packet "site_answer option"
  | ConfirmCall sync_packet

record sync_world =
  w_pairs :: "sync_pair list"
  w_db :: sync_db
  w_review :: "review_item list"
  w_state :: pair_state
  w_report :: run_report
  w_trace :: "call list"

text \<open>
  What a run is given: the pair, the identities of the sites, whether a component was loaded, the encodings, and the
  answers. \<open>ss_loads\<close> says which other components load; \<open>ss_url_ok\<close> is \<open>scoped_http_url\<close> for the target.
\<close>

record session =
  ss_pair :: sync_pair
  ss_codec :: sync_codec
  ss_target_uuid :: string
  ss_translator :: "bytes json option"
  ss_loads :: "string \<Rightarrow> bool"
  ss_url_ok :: "bytes \<Rightarrow> bool"
  ss_print :: "sync_packet \<Rightarrow> bytes"
  ss_read :: "bytes \<Rightarrow> sync_packet option"
  ss_entity :: "sync_packet \<Rightarrow> bytes json"
  ss_describe :: "db_error \<Rightarrow> string"
  ss_nonce :: "nat \<Rightarrow> bytes"
  ss_nonce2 :: "nat \<Rightarrow> bytes"
  ss_new_id :: "nat \<Rightarrow> string"
  ss_translate :: "nat \<Rightarrow> bytes option"
  ss_media :: "nat \<Rightarrow> bytes option"
  ss_http :: "nat \<Rightarrow> site_answer option"

type_synonym 'a shipping = "(sync_world, 'a) dbm"

definition on_db :: "(sync_db, 'a) dbm \<Rightarrow> 'a shipping" where
  "on_db = zoom w_db (\<lambda>s w. w\<lparr>w_db := s\<rparr>)"

definition with_nonce :: "session \<Rightarrow> (bytes \<Rightarrow> 'a shipping) \<Rightarrow> 'a shipping" where
  "with_nonce ss f env n w = f (ss_nonce ss n) env n w"

definition fresh_id :: "session \<Rightarrow> string shipping" where
  "fresh_id ss env n w = (Inr (ss_new_id ss n), n, w)"

definition report :: "(run_report \<Rightarrow> run_report) \<Rightarrow> unit shipping" where
  "report f env n w = (Inr (), n, w\<lparr>w_report := f (w_report w)\<rparr>)"

text \<open>A call: it can fail before anything was sent, and its answer can be lost.\<close>

definition call_out :: "('a option \<Rightarrow> call) \<Rightarrow> (nat \<Rightarrow> 'a option) \<Rightarrow> 'a shipping" where
  "call_out ev answer env n w =
     (if fault env n then (Inl SqlFault, Suc n, w)
      else (case answer n of None \<Rightarrow> Inl NoReply | Some a \<Rightarrow> Inr a, Suc n, w\<lparr>w_trace := w_trace w @ [ev (answer n)]\<rparr>))"

text \<open>\<open>match result\<close>: the outcome of a computation as a value.\<close>

definition attempt :: "('s, 'a) dbm \<Rightarrow> ('s, db_error + 'a) dbm" where
  "attempt m env n w = (case m env n w of (r, n', w') \<Rightarrow> (Inr r, n', w'))"

text \<open>The native lock of a unit or a document: taking it, or finding it still owned, can fail.\<close>

definition unit_lease :: "unit shipping" where
  "unit_lease = query (\<lambda>w. ())"

text \<open>
  \<open>json_store::update\<close>: a document is read, changed and installed as one step, and the lock is checked once more
  afterwards, so an update can report an error although the document was written.
\<close>

definition update_doc :: "(int \<Rightarrow> sync_world \<Rightarrow> sync_world) \<Rightarrow> unit shipping" where
  "update_doc f = seq (update_stmt f) unit_lease"

text \<open>\<open>update_pair_state\<close>.\<close>

definition update_pair_state :: "(int \<Rightarrow> pair_state \<Rightarrow> pair_state) \<Rightarrow> unit shipping" where
  "update_pair_state f = update_doc (\<lambda>now w.
     w\<lparr>w_state := (f (unix_ts now) (w_state w))\<lparr>ps_updated_at := unix_ts now\<rparr>\<rparr>)"

definition put_known :: "string \<Rightarrow> known_entity \<Rightarrow> pair_state \<Rightarrow> pair_state" where
  "put_known uuid k st = st\<lparr>ps_known := (uuid, k) # filter (\<lambda>e. fst e \<noteq> uuid) (ps_known st)\<rparr>"

definition drop_known :: "string \<Rightarrow> pair_state \<Rightarrow> pair_state" where
  "drop_known uuid st = st\<lparr>ps_known := filter (\<lambda>e. fst e \<noteq> uuid) (ps_known st)\<rparr>"

section \<open>The scope of what was paid\<close>

definition opt_text :: "string option \<Rightarrow> bytes json" where
  "opt_text o1 = (case o1 of None \<Rightarrow> JNull | Some s \<Rightarrow> jtext s)"

definition paid_snapshot_scope :: "session \<Rightarrow> bytes json option \<Rightarrow> sync_packet \<Rightarrow> string" where
  "paid_snapshot_scope ss translator p =
     sha256_hex (sx_crates (ss_codec ss)) (sx_print (ss_codec ss) (JObject
       [(ascii ''action'', jtext (pk_action p)),
        (ascii ''component_id'', opt_text (sp_component (ss_pair ss))),
        (ascii ''entity'', ss_entity ss p),
        (ascii ''manifest'', JArray (pk_manifest p)),
        (ascii ''origin_blog_id'', JInt (int (og_blog_id p))),
        (ascii ''origin_lang'', jtext (og_lang p)),
        (ascii ''origin_permalink'', opt_text (og_permalink p)),
        (ascii ''origin_site_url'', jtext (og_site_url p)),
        (ascii ''runtime'', case translator of None \<Rightarrow> JNull | Some v \<Rightarrow> v),
        (ascii ''source_domain'', jtext (sp_source_domain (ss_pair ss))),
        (ascii ''source_fingerprint'', jtext (pk_fingerprint p)),
        (ascii ''source_lang'', jtext (sp_source_lang (ss_pair ss))),
        (ascii ''source_site_uuid'', jtext (og_site_uuid p)),
        (ascii ''sync_mode'', jtext (mode_name (sp_mode (ss_pair ss)))),
        (ascii ''target_domain'', jtext (sp_target_domain (ss_pair ss))),
        (ascii ''target_lang'', jtext (sp_target_lang (ss_pair ss)))]))"

section \<open>Calls to the sites\<close>

text \<open>\<open>as_u64\<close>.\<close>

definition json_u64 :: "bytes json \<Rightarrow> nat option" where
  "json_u64 v = (case v of JInt i \<Rightarrow> if 0 \<le> i \<and> i \<le> int u64_max then Some (nat i) else None | _ \<Rightarrow> None)"

definition receipt_status :: "bytes json \<Rightarrow> string option" where
  "receipt_status v = find (\<lambda>s. v = jtext s) [''success'', ''skipped'', ''conflict'']"

definition validate_packet_receipt :: "session \<Rightarrow> sync_packet \<Rightarrow> bytes json \<Rightarrow> db_error + ship_result" where
  "validate_packet_receipt ss p d =
     (if \<not> (member d ''committed'' = JBool True \<and> member d ''packet_id'' = jtext (pk_id p)
           \<and> member d ''fingerprint_ack'' = jtext (pk_fingerprint p) \<and> member d ''canonical_uuid'' = jtext (en_guid p)
           \<and> member d ''origin_site_uuid'' = jtext (og_site_uuid p)) then Inl ForeignAnswer
      else if \<not> (member d ''target_site_uuid'' = jtext (ss_target_uuid ss) \<and> member d ''target_lang'' = jtext (pk_target_lang p))
      then Inl ForeignAnswer
      else case (json_u64 (member d ''target_id''), receipt_status (member d ''status''), member d ''target_url'') of
        (Some target_id, Some status, JString url) \<Rightarrow>
          if pk_action p = ''upsert'' \<and> \<not> (0 < target_id \<and> ss_url_ok ss url) then Inl ForeignAnswer
          else Inr \<lparr>sr_success = (status \<noteq> ''conflict''), sr_packet_id = pk_id p,
            sr_target_id = (if 0 < target_id then Some target_id else None),
            sr_target_url = (if url = [] then None else Some url), sr_receipt = Some d, sr_status = status,
            sr_error = (if status = ''conflict'' then Some ''sync target requires conflict review; original packet retained''
                        else None)\<rparr>
      | _ \<Rightarrow> Inl ForeignAnswer)"

definition rejected_push :: "sync_packet \<Rightarrow> nat \<Rightarrow> ship_result" where
  "rejected_push p code = \<lparr>sr_success = False, sr_packet_id = pk_id p, sr_target_id = None, sr_target_url = None,
     sr_receipt = None, sr_status = ''http_'' @ fmt_nat code,
     sr_error = Some (''sync push rejected (HTTP '' @ fmt_nat code @ '')'')\<rparr>"

definition push_packet :: "session \<Rightarrow> sync_packet \<Rightarrow> ship_result shipping" where
  "push_packet ss p =
     bind (call_out (PushCall p) (ss_http ss)) (\<lambda>a.
     case a of
       HttpStatus code \<Rightarrow> ret (rejected_push p code)
     | SiteData d \<Rightarrow> lift_read (validate_packet_receipt ss p d))"

text \<open>The target's proof that it never applied the packet.\<close>

definition absence_proof :: "session \<Rightarrow> sync_packet \<Rightarrow> bytes json \<Rightarrow> bool" where
  "absence_proof ss p d \<longleftrightarrow> member d ''packet_id'' = jtext (pk_id p) \<and> member d ''canonical_uuid'' = jtext (en_guid p)
     \<and> member d ''origin_site_uuid'' = jtext (og_site_uuid p) \<and> member d ''fingerprint_ack'' = jtext (pk_fingerprint p)
     \<and> member d ''target_lang'' = jtext (pk_target_lang p) \<and> member d ''target_site_uuid'' = jtext (ss_target_uuid ss)"

definition claims_absence :: "bytes json \<Rightarrow> bool" where
  "claims_absence d \<longleftrightarrow> member d ''committed'' = JBool False \<and> member d ''phase'' = jtext ''absent''"

definition absent_result :: "sync_packet \<Rightarrow> ship_result" where
  "absent_result p = \<lparr>sr_success = False, sr_packet_id = pk_id p, sr_target_id = None, sr_target_url = None,
     sr_receipt = None, sr_status = ''absent'', sr_error = None\<rparr>"

definition find_packet_receipt :: "session \<Rightarrow> sync_packet \<Rightarrow> ship_result shipping" where
  "find_packet_receipt ss p =
     bind (call_out (ReceiptCall p) (ss_http ss)) (\<lambda>a.
     case a of
       HttpStatus code \<Rightarrow> fail NoReply
     | SiteData d \<Rightarrow>
         if claims_absence d then (if absence_proof ss p d then ret (absent_result p) else fail ForeignAnswer)
         else lift_read (validate_packet_receipt ss p d))"

definition resume_submitted_packet :: "session \<Rightarrow> sync_packet \<Rightarrow> ship_result shipping" where
  "resume_submitted_packet ss p =
     bind (find_packet_receipt ss p) (\<lambda>r.
     if sr_status r = ''absent'' then push_packet ss p else ret r)"

definition validate_saved_result :: "session \<Rightarrow> sync_packet \<Rightarrow> ship_result \<Rightarrow> db_error + unit" where
  "validate_saved_result ss p r =
     (case sr_receipt r of
        None \<Rightarrow> Inl InvalidRequest
      | Some d \<Rightarrow> (case validate_packet_receipt ss p d of
          Inl e \<Rightarrow> Inl e
        | Inr checked \<Rightarrow> if receipt_value (ss_codec ss) checked = receipt_value (ss_codec ss) r then Inr () else Inl Conflict))"

definition prepare_configured_source :: "session \<Rightarrow> sync_packet \<Rightarrow> unit shipping" where
  "prepare_configured_source ss p =
     (if pk_action p \<noteq> ''upsert'' then ret ()
      else bind (call_out (\<lambda>_. PrepareCall p) (ss_http ss)) (\<lambda>a.
        case a of
          HttpStatus code \<Rightarrow> fail ForeignAnswer
        | SiteData d \<Rightarrow> ensure (member d ''prepared'' = JBool True \<and> member d ''packet_id'' = jtext (pk_id p)
            \<and> member d ''canonical_uuid'' = jtext (en_guid p)
            \<and> member d ''target_site_uuid'' = jtext (ss_target_uuid ss)) ForeignAnswer))"

definition confirm_configured_source :: "session \<Rightarrow> sync_packet \<Rightarrow> ship_result \<Rightarrow> unit shipping" where
  "confirm_configured_source ss p r =
     (if pk_action p \<noteq> ''upsert'' then ret ()
      else case sr_receipt r of
        None \<Rightarrow> fail InvalidRequest
      | Some d \<Rightarrow>
          seq (ensure (sr_success r \<and> member d ''target_site_uuid'' = jtext (ss_target_uuid ss)) ForeignAnswer)
         (bind (call_out (\<lambda>_. ConfirmCall p) (ss_http ss)) (\<lambda>a.
            case a of
              HttpStatus code \<Rightarrow> fail ForeignAnswer
            | SiteData c \<Rightarrow> ensure (member c ''confirmed'' = JBool True \<and> member c ''packet_id'' = jtext (pk_id p)
                \<and> member c ''canonical_uuid'' = jtext (en_guid p)
                \<and> member c ''target_site_uuid'' = jtext (ss_target_uuid ss)) ForeignAnswer)))"

section \<open>One packet\<close>

text \<open>The database operations for the unit of the packet.\<close>

definition pair_key :: "session \<Rightarrow> string" where
  "pair_key ss = sp_id (ss_pair ss)"

definition empty_translation :: relay_translation where
  "empty_translation = \<lparr>rt_title = None, rt_content = None, rt_excerpt = None\<rparr>"

definition field_saved :: "relay_translation \<Rightarrow> string \<Rightarrow> bool" where
  "field_saved t f \<longleftrightarrow>
     (if f = ''post_title'' then rt_title t \<noteq> None
      else if f = ''post_content'' then rt_content t \<noteq> None
      else if f = ''post_excerpt'' then rt_excerpt t \<noteq> None
      else True)"

definition put_relay :: "string \<Rightarrow> bytes \<Rightarrow> relay_translation \<Rightarrow> relay_translation" where
  "put_relay f s t =
     (if f = ''post_title'' then t\<lparr>rt_title := Some s\<rparr>
      else if f = ''post_content'' then t\<lparr>rt_content := Some s\<rparr>
      else if f = ''post_excerpt'' then t\<lparr>rt_excerpt := Some s\<rparr>
      else t)"

definition default_component :: "session \<Rightarrow> string" where
  "default_component ss = (case sp_component (ss_pair ss) of None \<Rightarrow> [] | Some c \<Rightarrow> c)"

text \<open>Each translated field is stored before the next call of a provider.\<close>

primrec translate_rows :: "session \<Rightarrow> sync_packet \<Rightarrow> planned_field list \<Rightarrow> relay_translation \<Rightarrow> relay_translation shipping" where
  "translate_rows ss p [] t = ret t"
| "translate_rows ss p (row # rows) t =
     (let source = core_text (en_core_fields p) (pf_field row);
          component = (if pf_component row = [] then default_component ss else pf_component row) in
      if trim_start source = [] \<or> field_saved t (pf_field row) then translate_rows ss p rows t
      else if component = [] then fail MissingComponent
      else if \<not> (component = default_component ss \<and> ss_translator ss \<noteq> None) \<and> \<not> ss_loads ss component
      then fail MissingComponent
      else
        bind (call_out (\<lambda>_. TranslateCall (en_guid p) (pf_field row) component source) (ss_translate ss)) (\<lambda>answer.
        let t' = put_relay (pf_field row) answer t in
        seq (with_nonce ss (\<lambda>k. on_db (store_translation (ss_codec ss) k (pair_key ss) (en_guid p) t')))
            (translate_rows ss p rows t')))"

definition saved_translation :: "inflight_view option \<Rightarrow> relay_translation option" where
  "saved_translation found = (case found of None \<Rightarrow> None | Some r \<Rightarrow> ic_translation (iv_ctx r))"

definition translate_packet :: "session \<Rightarrow> sync_packet \<Rightarrow> inflight_view option \<Rightarrow> relay_translation option shipping" where
  "translate_packet ss p found =
     (let rows = filter (\<lambda>r. pf_action r = TranslateField) (plan_sync_fields (ss_pair ss));
          prior = saved_translation found in
      if rows = [] then ret prior
      else if i64_max < en_source_id p then fail InvalidRequest
      else bind (translate_rows ss p rows (case prior of None \<Rightarrow> empty_translation | Some t \<Rightarrow> t)) (\<lambda>t. ret (Some t)))"

primrec transfer_media :: "session \<Rightarrow> sync_packet \<Rightarrow> bytes json list \<Rightarrow> (bytes \<times> bytes) list \<Rightarrow> (bytes \<times> bytes) list shipping" where
  "transfer_media ss p [] media = ret media"
| "transfer_media ss p (e # es) media =
     (case remote_url e of
        None \<Rightarrow> transfer_media ss p es media
      | Some u \<Rightarrow>
          if trim_start u = [] \<or> map_of media u \<noteq> None then transfer_media ss p es media
          else
            bind (call_out (\<lambda>_. MediaCall (en_guid p) u) (ss_media ss)) (\<lambda>target.
            if target = [] then fail ForeignAnswer
            else
              seq (report (\<lambda>r. r\<lparr>rp_media := rp_media r + 1\<rparr>))
             (seq (with_nonce ss (\<lambda>k. on_db (store_media_entry (ss_codec ss) k (pair_key ss) (en_guid p) u target)))
                  (transfer_media ss p es (media @ [(u, target)])))))"

definition saved_media :: "inflight_view option \<Rightarrow> (bytes \<times> bytes) list" where
  "saved_media found = (case found of None \<Rightarrow> [] | Some r \<Rightarrow> ic_media_url_map (iv_ctx r))"

definition saved_packet :: "inflight_view option \<Rightarrow> bytes" where
  "saved_packet found = (case found of None \<Rightarrow> [] | Some r \<Rightarrow> iv_relayed_json r)"

definition freeze_packet :: "session \<Rightarrow> sync_packet \<Rightarrow> sync_packet \<Rightarrow> unit shipping" where
  "freeze_packet ss p q = with_nonce ss (\<lambda>k env n. on_db (store_relayed_packet (ss_codec ss) k (ss_nonce2 ss n)
     (pair_key ss) (en_guid p) (pk_action p) (ss_print ss q)) env n)"

text \<open>The packet that goes out: the stored one when there is one, else a new one that is stored first.\<close>

definition relayed_packet ::
  "session \<Rightarrow> sync_packet \<Rightarrow> inflight_view option \<Rightarrow> (string \<Rightarrow> sync_packet) \<Rightarrow> sync_packet shipping" where
  "relayed_packet ss p found build =
     (if saved_packet found \<noteq> [] then
        (case ss_read ss (saved_packet found) of None \<Rightarrow> fail DamagedRow | Some q \<Rightarrow> ret q)
      else
        bind (fresh_id ss) (\<lambda>k. seq (freeze_packet ss p (build k)) (ret (build k))))"

definition saved_receipt :: "inflight_view option \<Rightarrow> ship_result option" where
  "saved_receipt found = (case found of None \<Rightarrow> None | Some r \<Rightarrow> ic_target_receipt (iv_ctx r))"

definition was_submitted :: "inflight_view option \<Rightarrow> bool" where
  "was_submitted found = (case found of None \<Rightarrow> False
     | Some r \<Rightarrow> iv_relayed_json r \<noteq> [] \<and> ic_delivery_phase (iv_ctx r) \<noteq> Some ''prepared'')"

text \<open>The delivery of a frozen packet, once its intent is stored; \<open>announce\<close> is what comes before the intent.\<close>

definition deliver :: "session \<Rightarrow> unit shipping \<Rightarrow> string \<Rightarrow> sync_packet \<Rightarrow> inflight_view option \<Rightarrow> ship_result shipping" where
  "deliver ss announce uuid q found =
     seq unit_lease
    (bind (if was_submitted found then resume_submitted_packet ss q
           else seq announce
               (seq (with_nonce ss (\<lambda>k. on_db (mark_submitted (ss_codec ss) k (pair_key ss) uuid)))
               (seq unit_lease (push_packet ss q)))) (\<lambda>r.
     if sr_success r
     then seq (with_nonce ss (\<lambda>k. on_db (store_target_receipt (ss_codec ss) k (pair_key ss) uuid r))) (ret r)
     else ret r))"

definition packet_result :: "session \<Rightarrow> string \<Rightarrow> sync_packet \<Rightarrow> inflight_view option \<Rightarrow> ship_result shipping" where
  "packet_result ss uuid q found =
     (case saved_receipt found of
        Some r \<Rightarrow> if sr_packet_id r \<noteq> pk_id q then fail Conflict else ret r
      | None \<Rightarrow> deliver ss (prepare_configured_source ss q) uuid q found)"

definition tombstone_result :: "session \<Rightarrow> string \<Rightarrow> sync_packet \<Rightarrow> inflight_view option \<Rightarrow> ship_result shipping" where
  "tombstone_result ss uuid q found =
     (case saved_receipt found of
        Some r \<Rightarrow>
          if sr_packet_id r \<noteq> pk_id q then fail Conflict
          else seq (lift_read (validate_saved_result ss q r)) (ret r)
      | None \<Rightarrow> deliver ss (ret ()) uuid q found)"

subsection \<open>The review inbox\<close>

definition pending_of :: "string \<Rightarrow> string \<Rightarrow> review_item \<Rightarrow> bool" where
  "pending_of pair uuid i \<longleftrightarrow> rv_pair i = pair \<and> rv_uuid i = uuid \<and> rv_status i = PendingReview"

definition has_pending_uuid :: "review_item list \<Rightarrow> string \<Rightarrow> string \<Rightarrow> bool" where
  "has_pending_uuid items pair uuid \<longleftrightarrow> (\<exists>i \<in> set items. pending_of pair uuid i)"

fun upsert_pending_item :: "int \<Rightarrow> review_item \<Rightarrow> review_item list \<Rightarrow> review_item list" where
  "upsert_pending_item now item [] = [item]"
| "upsert_pending_item now item (i # items) =
     (if pending_of (rv_pair item) (rv_uuid item) i
      then (if rv_delivery i then i # items else item\<lparr>rv_id := rv_id i, rv_updated_at := now\<rparr> # items)
      else i # upsert_pending_item now item items)"

definition source_texts :: "sync_packet \<Rightarrow> bytes \<times> bytes \<times> bytes" where
  "source_texts p = (core_text (en_core_fields p) ''post_title'', core_text (en_core_fields p) ''post_content'',
     core_text (en_core_fields p) ''post_excerpt'')"

definition text_or :: "bytes \<Rightarrow> bytes option \<Rightarrow> bytes" where
  "text_or s o1 = (case o1 of None \<Rightarrow> s | Some t \<Rightarrow> t)"

definition proposed_texts :: "sync_packet \<Rightarrow> relay_translation option \<Rightarrow> bytes \<times> bytes \<times> bytes" where
  "proposed_texts p translated =
     (case (source_texts p, translated) of
        ((a, b, c), Some t) \<Rightarrow> (text_or a (rt_title t), text_or b (rt_content t), text_or c (rt_excerpt t))
      | (texts, None) \<Rightarrow> texts)"

definition packet_clock :: "sync_packet \<Rightarrow> nat" where
  "packet_clock p = (case fmlookup (og_vector_clock p) (og_site_uuid p) of None \<Rightarrow> 1 | Some c \<Rightarrow> c)"

definition review_of :: "session \<Rightarrow> string \<Rightarrow> int \<Rightarrow> sync_packet \<Rightarrow> relay_translation option \<Rightarrow> sync_packet \<Rightarrow> review_item" where
  "review_of ss k now p translated q =
     \<lparr>rv_id = ''sr_'' @ k, rv_pair = pair_key ss, rv_uuid = en_guid p, rv_status = PendingReview,
      rv_source = source_texts p, rv_proposed = proposed_texts p translated, rv_packet = q,
      rv_fingerprint = pk_fingerprint p, rv_clock = packet_clock p, rv_post_type = en_subtype p,
      rv_post_status = en_status p, rv_error_message = None, rv_delivery = False, rv_created_at = now, rv_updated_at = now\<rparr>"

definition park_packet :: "session \<Rightarrow> sync_packet \<Rightarrow> relay_translation option \<Rightarrow> sync_packet \<Rightarrow> unit shipping" where
  "park_packet ss p translated q =
     bind (fresh_id ss) (\<lambda>k.
     seq (update_doc (\<lambda>now w. w\<lparr>w_review :=
            upsert_pending_item (unix_ts now) (review_of ss k (unix_ts now) p translated q) (w_review w)\<rparr>))
         (report (\<lambda>r. r\<lparr>rp_pending := rp_pending r + 1\<rparr>)))"

subsection \<open>Shipping\<close>

definition known_of :: "sync_packet \<Rightarrow> ship_result \<Rightarrow> int \<Rightarrow> known_entity" where
  "known_of p r now = \<lparr>kn_uuid = en_guid p, kn_fingerprint = pk_fingerprint p, kn_clock = packet_clock p,
     kn_post_type = en_subtype p, kn_post_status = en_status p, kn_target_id = sr_target_id r,
     kn_shipped_at = now, kn_rejected = False\<rparr>"

definition preserved_fields :: "session \<Rightarrow> string list" where
  "preserved_fields ss = map pf_field (filter (\<lambda>r. pf_action r = SkipField) (plan_sync_fields (ss_pair ss)))"

definition ship_one_packet_inner :: "session \<Rightarrow> sync_packet \<Rightarrow> inflight_view option \<Rightarrow> unit shipping" where
  "ship_one_packet_inner ss p found =
     bind (translate_packet ss p found) (\<lambda>translated.
     bind (transfer_media ss p (pk_manifest p) (saved_media found)) (\<lambda>media.
     bind (relayed_packet ss p found (\<lambda>k. relay_packet_for_target k p (ss_pair ss) translated media (preserved_fields ss))) (\<lambda>q.
     if parks_in_review_inbox (ss_pair ss) then park_packet ss p translated q
     else
       bind (packet_result ss (en_guid p) q found) (\<lambda>r.
       if \<not> sr_success r then fail TargetRefused
       else
         seq unit_lease
        (seq (confirm_configured_source ss q r)
        (seq (report (\<lambda>rp. rp\<lparr>rp_synced := rp_synced rp + 1\<rparr>))
             (update_pair_state (\<lambda>now st. put_known (en_guid p) (known_of p r now) st))))))))"

definition ship_tombstone_inner :: "session \<Rightarrow> sync_packet \<Rightarrow> inflight_view option \<Rightarrow> unit shipping" where
  "ship_tombstone_inner ss p found =
     bind (relayed_packet ss p found (\<lambda>_. p)) (\<lambda>q.
     if pk_action q \<noteq> pk_action p \<or> en_guid q \<noteq> en_guid p then fail ScopeChanged
     else
       bind (tombstone_result ss (en_guid p) q found) (\<lambda>r.
       if \<not> sr_success r then fail TargetRefused else ret ()))"

text \<open>
  What both have in common: an unfinished row is only continued under the same scope and action, and whatever the
  inner computation does, the row is closed after a success and marked after an error.
\<close>

definition resumable :: "sync_packet \<Rightarrow> string \<Rightarrow> bool \<Rightarrow> inflight_view \<Rightarrow> bool" where
  "resumable p scope translator r \<longleftrightarrow> (ic_action (iv_ctx r) = [] \<or> ic_action (iv_ctx r) = pk_action p)
     \<and> ic_translation_scope (iv_ctx r) = scope \<and> (translator \<or> ic_translation (iv_ctx r) = None)"

definition ship_unit ::
  "session \<Rightarrow> bytes json option \<Rightarrow> sync_packet \<Rightarrow> (inflight_view option \<Rightarrow> unit shipping) \<Rightarrow> unit shipping" where
  "ship_unit ss translator p inner =
     seq unit_lease
    (let uuid = en_guid p; scope = paid_snapshot_scope ss translator p in
     bind (on_db (find_shipping (ss_codec ss) (pair_key ss) uuid)) (\<lambda>found.
     seq (case found of None \<Rightarrow> ret () | Some r \<Rightarrow> ensure (resumable p scope (translator \<noteq> None) r) ScopeChanged)
    (seq (with_nonce ss (\<lambda>k. on_db (begin_shipping_scoped (ss_codec ss) k (pair_key ss) uuid scope)))
    (bind (attempt (inner found)) (\<lambda>result.
     seq unit_lease
    (case result of
       Inr u \<Rightarrow> on_db (close_shipping (ss_codec ss) (pair_key ss) uuid)
     | Inl e \<Rightarrow> seq (on_db (note_error (pair_key ss) uuid (ss_describe ss e))) (fail e)))))))"

definition ship_one_packet :: "session \<Rightarrow> sync_packet \<Rightarrow> unit shipping" where
  "ship_one_packet ss p = ship_unit ss (ss_translator ss) p (ship_one_packet_inner ss p)"

definition ship_tombstone_packet :: "session \<Rightarrow> sync_packet \<Rightarrow> unit shipping" where
  "ship_tombstone_packet ss p =
     (if pk_action p \<notin> {''trash'', ''delete''} then fail InvalidRequest
      else ship_unit ss None p (ship_tombstone_inner ss p))"

end
