(* ===== verification/ShipSample.thy ===== *)
theory ShipSample
  imports SyncShip "HOL-Library.List_Lexorder" "HOL-Library.Char_ord"
begin

text \<open>
  A concrete session for the examples: a packet codec over \<open>JsonText\<close>, whose texts of finite maps are in the
  order of their keys, and a shipping that loses an answer.
\<close>

section \<open>Packets as texts\<close>

definition texts_value :: "string list \<Rightarrow> bytes json" where
  "texts_value xs = JArray (map text_value xs)"

fun value_items :: "bytes json \<Rightarrow> bytes json list option" where
  "value_items (JArray vs) = Some vs"
| "value_items _ = None"

fun value_int :: "bytes json \<Rightarrow> int option" where
  "value_int (JInt i) = Some i"
| "value_int _ = None"

primrec read_all :: "('a \<Rightarrow> 'b option) \<Rightarrow> 'a list \<Rightarrow> 'b list option" where
  "read_all f [] = Some []"
| "read_all f (x # xs) = Option.bind (f x) (\<lambda>y. map_option ((#) y) (read_all f xs))"

definition value_texts :: "bytes json \<Rightarrow> string list option" where
  "value_texts v = Option.bind (value_items v) (read_all value_text)"

definition map_value :: "('a \<Rightarrow> bytes json) \<Rightarrow> (string, 'a) fmap \<Rightarrow> bytes json" where
  "map_value f m = JArray (map (\<lambda>e. JArray [text_value (fst e), f (snd e)]) (sorted_list_of_fmap m))"

fun value_entry :: "(bytes json \<Rightarrow> 'a option) \<Rightarrow> bytes json \<Rightarrow> (string \<times> 'a) option" where
  "value_entry g (JArray [k, v]) = Option.bind (value_text k) (\<lambda>x. map_option (Pair x) (g v))"
| "value_entry g _ = None"

definition value_map :: "(bytes json \<Rightarrow> 'a option) \<Rightarrow> bytes json \<Rightarrow> (string, 'a) fmap option" where
  "value_map g v = Option.bind (value_items v) (\<lambda>es. map_option fmap_of_list (read_all (value_entry g) es))"

lemma read_all_of: "(\<And>x. g (f x) = Some x) \<Longrightarrow> read_all g (map f xs) = Some xs"
  by (induction xs) simp_all

lemma map_of_list_sorted: "fmap_of_list (sorted_list_of_fmap m) = m"
  by (rule fmap_ext) (simp add: fmlookup_of_list)

lemma value_map_of: "(\<And>x. g (f x) = Some x) \<Longrightarrow> value_map g (map_value f m) = Some m"
  by (simp add: value_map_def map_value_def read_all_of map_of_list_sorted)

lemma value_texts_of: "value_texts (texts_value xs) = Some xs"
  by (simp add: value_texts_def texts_value_def read_all_of)

definition packet_value :: "sync_packet \<Rightarrow> bytes json" where
  "packet_value p = JArray [
     text_value (pk_schema p), text_value (pk_id p), text_value (og_site_uuid p),
     text_value (og_site_url p), opt_value text_value (og_permalink p), JInt (int (og_blog_id p)),
     text_value (og_lang p), map_value (\<lambda>n. JInt (int n)) (og_vector_clock p), JInt (int (og_hop_count p)),
     JInt (og_dispatch_ts p), text_value (pk_action p), text_value (pk_sync_mode p),
     text_value (pk_target_lang p), text_value (pk_fingerprint p), text_value (en_guid p),
     text_value (en_object_type p), text_value (en_subtype p), JInt (int (en_source_id p)),
     text_value (en_slug p), text_value (en_status p), map_value (\<lambda>v. v) (en_core_fields p),
     opt_value texts_value (en_preserved p), en_other p, JArray (pk_manifest p)]"

definition value_packet :: "bytes json \<Rightarrow> sync_packet option" where
  "value_packet v = Option.bind (value_items v) (\<lambda>xs.
     Option.bind (value_text (xs ! 0)) (\<lambda>a'.
     Option.bind (value_text (xs ! 1)) (\<lambda>b'.
     Option.bind (value_text (xs ! 2)) (\<lambda>c'.
     Option.bind (value_text (xs ! 3)) (\<lambda>d'.
     Option.bind (value_opt value_text (xs ! 4)) (\<lambda>e'.
     Option.bind (sample_value_nat (xs ! 5)) (\<lambda>f'.
     Option.bind (value_text (xs ! 6)) (\<lambda>g'.
     Option.bind (value_map sample_value_nat (xs ! 7)) (\<lambda>h'.
     Option.bind (sample_value_nat (xs ! 8)) (\<lambda>i'.
     Option.bind (value_int (xs ! 9)) (\<lambda>j'.
     Option.bind (value_text (xs ! 10)) (\<lambda>k'.
     Option.bind (value_text (xs ! 11)) (\<lambda>l'.
     Option.bind (value_text (xs ! 12)) (\<lambda>m'.
     Option.bind (value_text (xs ! 13)) (\<lambda>n'.
     Option.bind (value_text (xs ! 14)) (\<lambda>o'.
     Option.bind (value_text (xs ! 15)) (\<lambda>p'.
     Option.bind (value_text (xs ! 16)) (\<lambda>q'.
     Option.bind (sample_value_nat (xs ! 17)) (\<lambda>r'.
     Option.bind (value_text (xs ! 18)) (\<lambda>s'.
     Option.bind (value_text (xs ! 19)) (\<lambda>t'.
     Option.bind (value_map Some (xs ! 20)) (\<lambda>u'.
     Option.bind (value_opt value_texts (xs ! 21)) (\<lambda>v'.
     Option.bind (Some (xs ! 22)) (\<lambda>w'.
     Option.bind (value_items (xs ! 23)) (\<lambda>x'.
     Some \<lparr>pk_schema = a', pk_id = b', og_site_uuid = c', og_site_url = d', og_permalink = e', og_blog_id = f',
       og_lang = g', og_vector_clock = h', og_hop_count = i', og_dispatch_ts = j', pk_action = k', pk_sync_mode
       = l', pk_target_lang = m', pk_fingerprint = n', en_guid = o', en_object_type = p', en_subtype = q',
       en_source_id = r', en_slug = s', en_status = t', en_core_fields = u', en_preserved = v', en_other = w',
       pk_manifest = x'\<rparr>)))))))))))))))))))))))))"

lemma value_packet_of: "value_packet (packet_value p) = Some p"
  by (simp add: value_packet_def packet_value_def value_opt_of value_map_of value_texts_of)

definition sample_print :: "sync_packet \<Rightarrow> bytes" where
  "sample_print p = put_json (packet_value p)"

definition sample_read :: "bytes \<Rightarrow> sync_packet option" where
  "sample_read bs = Option.bind (read_json bs) value_packet"

lemma sample_print_reads: "sample_read (sample_print p) = Some p" "sample_print p \<noteq> []"
proof -
  show "sample_read (sample_print p) = Some p"
    by (simp add: sample_read_def sample_print_def json_text_laws value_packet_of)
  show "sample_print p \<noteq> []" by (simp add: sample_print_def packet_value_def)
qed

section \<open>A lost answer\<close>

text \<open>
  The answer to the first push is lost; the target, when it is asked, proves that it holds nothing of the packet. The
  session says at which statement that answer comes; every other call to the sites gets none.
\<close>

definition sample_pair :: sync_pair where
  "sample_pair = empty_pair\<lparr>sp_id := ''p'', sp_source_lang := ''en'', sp_target_lang := ''de''\<rparr>"

definition sample_tombstone :: sync_packet where
  "sample_tombstone = build_tombstone_packet (sx_crates sample_sync) ''n'' 7 ''u'' ''page'' 5 ''o'' 3 ''trash'' ''x'' ''en'' ''de''"

definition absent_data :: "bytes json" where
  "absent_data = JObject
     [(ascii ''committed'', JBool False), (ascii ''phase'', jtext ''absent''), (ascii ''packet_id'', jtext ''pkt_n''),
      (ascii ''canonical_uuid'', jtext ''u''), (ascii ''origin_site_uuid'', jtext ''o''),
      (ascii ''fingerprint_ack'', jtext (pk_fingerprint sample_tombstone)), (ascii ''target_lang'', jtext ''de''),
      (ascii ''target_site_uuid'', jtext ''t'')]"

definition sample_session :: "nat \<Rightarrow> session" where
  "sample_session k = \<lparr>ss_pair = sample_pair, ss_codec = sample_sync, ss_target_uuid = ''t'',
     ss_translator = None, ss_loads = (\<lambda>_. True), ss_url_ok = (\<lambda>_. True), ss_print = sample_print, ss_read = sample_read,
     ss_entity = packet_value, ss_describe = (\<lambda>_. []), ss_nonce = (\<lambda>_. replicate 12 7), ss_nonce2 = (\<lambda>_. replicate 12 7),
     ss_new_id = (\<lambda>_. ''n''), ss_translate = (\<lambda>_. None), ss_media = (\<lambda>_. None),
     ss_http = (\<lambda>n. if n = k then Some (SiteData absent_data) else None)\<rparr>"

definition sample_scope :: string where
  "sample_scope = paid_snapshot_scope (sample_session 0) None sample_tombstone"

text \<open>The packet is frozen and submitted.\<close>

definition submitted_ctx :: inflight_ctx where
  "submitted_ctx = default_ctx\<lparr>ic_translation_scope := sample_scope, ic_action := ''trash'', ic_delivery_phase := Some ''submitted''\<rparr>"

definition submitted_db :: "int \<Rightarrow> sync_db" where
  "submitted_db a = flight a submitted_ctx (Some (sample_print sample_tombstone))"

lemma sample_note: "note_error ''p'' ''u'' [] (calm 7) n (flight a ctx p) = (Inr (), n + 1, flight a ctx p)"
proof -
  have "(sample_unit a ctx p)\<lparr>si_error := [], si_updated_at := 7\<rparr> = sample_unit a ctx p"
    "of_unit ''p'' ''u'' (sample_unit a ctx p)" by (simp_all add: sample_unit_def of_unit_def)
  then show ?thesis
    by (simp add: note_error_def bind_def update_units_def execute_def update_where_def ret_def ensure_def calm_def
      flight_def unix_ts_def i64_max_def)
qed

lemma calm_lease: "unit_lease (calm 7) n w = (Inr (), n + 1, w)"
  by (simp add: unit_lease_def query_def execute_def calm_def)

lemma tombstone_fields:
  "pk_action sample_tombstone = ''trash''" "en_guid sample_tombstone = ''u''" "pk_id sample_tombstone = ''pkt_n''"
  "og_site_uuid sample_tombstone = ''o''" "pk_target_lang sample_tombstone = ''de''"
  by (simp_all add: sample_tombstone_def build_tombstone_packet_def)

lemma sample_fields:
  "ss_codec (sample_session k) = sample_sync" "pair_key (sample_session k) = ''p''" "ss_print (sample_session k) = sample_print"
  "ss_read (sample_session k) = sample_read" "ss_describe (sample_session k) = (\<lambda>_. [])" "ss_target_uuid (sample_session k) = ''t''"
  "ss_nonce (sample_session k) = (\<lambda>_. replicate 12 7)" "ss_nonce2 (sample_session k) = (\<lambda>_. replicate 12 7)"
  "ss_http (sample_session k) = (\<lambda>n. if n = k then Some (SiteData absent_data) else None)"
  "paid_snapshot_scope (sample_session k) None sample_tombstone = sample_scope"
  by (simp_all add: sample_session_def pair_key_def sample_pair_def sample_scope_def paid_snapshot_scope_def)

lemma sample_push: "n \<noteq> k \<Longrightarrow> push_packet (sample_session k) q (calm 7) n w
    = (Inl NoReply, n + 1, w\<lparr>w_trace := w_trace w @ [PushCall q None]\<rparr>)"
  by (simp add: push_packet_def bind_def call_out_def calm_def sample_fields)

lemma sample_submit:
  "mark_submitted sample_sync (replicate 12 7) ''p'' ''u'' (calm 7) n
     (flight a (default_ctx\<lparr>ic_translation_scope := sample_scope, ic_action := ''trash'',
        ic_delivery_phase := Some ''prepared''\<rparr>) (Some (sample_print q)))
   = (Inr (), n + 5, flight a submitted_ctx (Some (sample_print q)))"
  unfolding mark_submitted_def
  by (rule sample_merge) (simp add: merge_submitted_def packet_text_def sample_print_reads submitted_ctx_def)

lemmas sample_runs = calm_lease sample_push sample_find sample_admit sample_readmit sample_freeze sample_note sample_submit
  sample_fields tombstone_fields

lemmas ship_defs = ship_tombstone_packet_def ship_unit_def on_db_def zoom_def with_nonce_def attempt_def
  ship_tombstone_inner_def relayed_packet_def saved_packet_def fresh_id_def freeze_packet_def tombstone_result_def
  saved_receipt_def deliver_def was_submitted_def

lemma first_shipment:
  assumes "19 + n \<noteq> k" "w_db w = no_flight"
  shows "ship_tombstone_packet (sample_session k) sample_tombstone (calm 7) n w
     = (Inl NoReply, n + 22, w\<lparr>w_db := submitted_db 1, w_trace := w_trace w @ [PushCall sample_tombstone None]\<rparr>)"
  using assms
  by (simp add: ship_defs Let_def sample_runs bind_def seq_def ret_def fail_def submitted_db_def)

lemma absent_members:
  "claims_absence absent_data" "absence_proof (sample_session k) sample_tombstone absent_data"
  by (simp_all add: claims_absence_def absence_proof_def absent_data_def member_def ascii_def sample_fields tombstone_fields)

lemma sample_receipt_call: "find_packet_receipt (sample_session k) sample_tombstone (calm 7) k w
    = (Inr (absent_result sample_tombstone), k + 1,
        w\<lparr>w_trace := w_trace w @ [ReceiptCall sample_tombstone (Some (SiteData absent_data))]\<rparr>)"
  by (simp add: find_packet_receipt_def bind_def call_out_def calm_def sample_fields absent_members ret_def)

lemma second_shipment:
  assumes "k = n + 7" "w_db w = submitted_db a"
  shows "ship_tombstone_packet (sample_session k) sample_tombstone (calm 7) n w
   = (Inl NoReply, n + 11, w\<lparr>w_db := submitted_db (a + 1), w_trace := w_trace w @
       [ReceiptCall sample_tombstone (Some (SiteData absent_data)), PushCall sample_tombstone None]\<rparr>)"
proof -
  have r: "find_packet_receipt (sample_session (n + 7)) sample_tombstone (calm 7) (7 + n) v
      = (Inr (absent_result sample_tombstone), 8 + n,
         v\<lparr>w_trace := w_trace v @ [ReceiptCall sample_tombstone (Some (SiteData absent_data))]\<rparr>)" for v
    using sample_receipt_call [of "7 + n" v] by (simp add: add.commute)
  show ?thesis
    using assms
    by (simp add: ship_defs Let_def sample_runs bind_def seq_def ret_def fail_def submitted_db_def
       submitted_ctx_def default_ctx_def resumable_def ensure_def packet_text_def sample_print_reads
       resume_submitted_packet_def)
      (simp add: seq_def bind_def on_db_def zoom_def sample_runs fail_def r absent_result_def)
qed

end
