(* ===== verification/ShipProtocol.thy ===== *)
theory ShipProtocol
  imports ShipSample
begin

text \<open>
  The protocol on the wire. Whatever fails and wherever the process stops, the calls that reach the target for one unit
  follow an automaton: after a packet was sent and its fate is unknown, nothing is sent until the target proved
  that it holds no effect of exactly that packet, and then exactly that packet; a different packet is sent
  only after the fate of the one before is known. A packet that the settings of the pair park for review leaves this
  protocol: its row is closed whatever was sent before, and the unit is in the review inbox from then on.

  The proofs use triples with a postcondition for errors, over what the tables and the trace say of one unit.
\<close>

section \<open>Triples with an error postcondition\<close>

definition hoare :: "('s \<Rightarrow> bool) \<Rightarrow> ('s, 'a) dbm \<Rightarrow> ('a \<Rightarrow> 's \<Rightarrow> bool) \<Rightarrow> ('s \<Rightarrow> bool) \<Rightarrow> bool" where
  "hoare P m Q E \<longleftrightarrow>
     (\<forall>env n s r n' s'. P s \<longrightarrow> m env n s = (r, n', s') \<longrightarrow> (case r of Inl _ \<Rightarrow> E s' | Inr a \<Rightarrow> Q a s'))"

lemma hoareI:
  "(\<And>env n s r n' s'. P s \<Longrightarrow> m env n s = (r, n', s') \<Longrightarrow> (case r of Inl _ \<Rightarrow> E s' | Inr a \<Rightarrow> Q a s')) \<Longrightarrow> hoare P m Q E"
  unfolding hoare_def by blast

lemma hoareD: "hoare P m Q E \<Longrightarrow> P s \<Longrightarrow> m env n s = (r, n', s') \<Longrightarrow> (case r of Inl _ \<Rightarrow> E s' | Inr a \<Rightarrow> Q a s')"
  unfolding hoare_def by blast

lemma hoare_conseq:
  "hoare P' m Q' E' \<Longrightarrow> (\<And>s. P s \<Longrightarrow> P' s) \<Longrightarrow> (\<And>a s. Q' a s \<Longrightarrow> Q a s) \<Longrightarrow> (\<And>s. E' s \<Longrightarrow> E s) \<Longrightarrow> hoare P m Q E"
  by (fastforce simp: hoare_def split: sum.splits)

lemma hoare_ret: "(\<And>s. P s \<Longrightarrow> Q a s) \<Longrightarrow> hoare P (ret a) Q E"
  by (auto simp: hoare_def ret_def)

lemma hoare_fail: "(\<And>s. P s \<Longrightarrow> E s) \<Longrightarrow> hoare P (fail e) Q E"
  by (auto simp: hoare_def fail_def)

lemma hoare_bind:
  assumes "hoare P m R E" "\<And>a. hoare (R a) (f a) Q E"
  shows "hoare P (bind m f) Q E"
proof (rule hoareI)
  fix env n s r n' s' assume P: "P s" and run: "bind m f env n s = (r, n', s')"
  obtain r1 n1 s1 where m: "m env n s = (r1, n1, s1)" by (metis prod_cases3)
  show "case r of Inl _ \<Rightarrow> E s' | Inr a \<Rightarrow> Q a s'"
  proof (cases r1)
    case (Inl e)
    with run m hoareD [OF assms(1) P m] show ?thesis by (auto simp: bind_def)
  next
    case (Inr a)
    with hoareD [OF assms(1) P m] have "R a s1" by simp
    moreover from run m Inr have "f a env n1 s1 = (r, n', s')" by (simp add: bind_def)
    ultimately show ?thesis by (rule hoareD [OF assms(2)])
  qed
qed

lemma hoare_seq: "hoare P m (\<lambda>_. R) E \<Longrightarrow> hoare R k Q E \<Longrightarrow> hoare P (seq m k) Q E"
  unfolding seq_def by (rule hoare_bind)

lemma hoare_attempt: "hoare P m Q E \<Longrightarrow> hoare P (attempt m) (\<lambda>r s. case r of Inl _ \<Rightarrow> E s | Inr a \<Rightarrow> Q a s) E'"
  by (fastforce simp: hoare_def attempt_def split: prod.splits sum.splits)

lemma hoare_lift_read: "(\<And>s. P s \<Longrightarrow> E s) \<Longrightarrow> (\<And>a s. P s \<Longrightarrow> r = Inr a \<Longrightarrow> Q a s) \<Longrightarrow> hoare P (lift_read r) Q E"
  by (auto simp: lift_read_def hoare_def ret_def fail_def split: sum.splits)

lemma hoare_ensure: "(\<And>s. P s \<Longrightarrow> E s) \<Longrightarrow> (\<And>s. P s \<Longrightarrow> b \<Longrightarrow> Q () s) \<Longrightarrow> hoare P (ensure b e) Q E"
  by (auto simp: ensure_def hoare_def ret_def fail_def)

lemma hoare_cases: "(b \<Longrightarrow> hoare P m Q E) \<Longrightarrow> (\<not> b \<Longrightarrow> hoare P k Q E) \<Longrightarrow> hoare P (if b then m else k) Q E"
  by simp

lemma hoare_pre: "hoare P' m Q E \<Longrightarrow> (\<And>s. P s \<Longrightarrow> P' s) \<Longrightarrow> hoare P m Q E"
  by (erule hoare_conseq) auto

lemma hoare_assume: "(\<And>s. P s \<Longrightarrow> b) \<Longrightarrow> (b \<Longrightarrow> hoare P m Q E) \<Longrightarrow> hoare P m Q E"
  by (auto simp: hoare_def)

lemma hoare_query: "(\<And>w. P w \<Longrightarrow> E w) \<Longrightarrow> hoare P (query f) (\<lambda>a w. P w \<and> a = f w) E"
  by (auto simp: hoare_def query_def execute_def split: if_splits)

section \<open>The wire of a unit\<close>

datatype wire = Quiet | Sent sync_packet | Absent sync_packet | Done sync_packet

definition settled :: "wire \<Rightarrow> bool" where
  "settled st \<longleftrightarrow> (case st of Quiet \<Rightarrow> True | Done _ \<Rightarrow> True | _ \<Rightarrow> False)"

definition proves_receipt :: "session \<Rightarrow> sync_packet \<Rightarrow> site_answer option \<Rightarrow> bool" where
  "proves_receipt ss p a \<longleftrightarrow>
     (case a of Some (SiteData d) \<Rightarrow>
        (case validate_packet_receipt ss p d of Inr r \<Rightarrow> sr_success r | Inl _ \<Rightarrow> False)
      | _ \<Rightarrow> False)"

definition proves_absence :: "session \<Rightarrow> sync_packet \<Rightarrow> site_answer option \<Rightarrow> bool" where
  "proves_absence ss p a \<longleftrightarrow>
     (case a of Some (SiteData d) \<Rightarrow> claims_absence d \<and> absence_proof ss p d | _ \<Rightarrow> False)"

text \<open>The fate of the last packet, and which calls are allowed.\<close>

definition may_push :: "wire \<Rightarrow> sync_packet \<Rightarrow> bool" where
  "may_push st q \<longleftrightarrow> settled st \<or> st = Absent q"

definition may_ask :: "wire \<Rightarrow> sync_packet \<Rightarrow> bool" where
  "may_ask st q \<longleftrightarrow> settled st \<or> st = Absent q \<or> st = Sent q"

fun wire_step :: "session \<Rightarrow> wire \<Rightarrow> call \<Rightarrow> wire option" where
  "wire_step ss st (PushCall q a) =
     (if may_push st q then Some (if proves_receipt ss q a then Done q else Sent q) else None)"
| "wire_step ss st (ReceiptCall q a) =
     (if may_ask st q
      then Some (if proves_absence ss q a then Absent q else if proves_receipt ss q a then Done q else Sent q)
      else None)"
| "wire_step ss st _ = Some st"

fun call_guid :: "call \<Rightarrow> string" where
  "call_guid (DigestCall c a) = []"
| "call_guid (PullCall us a) = []"
| "call_guid (ReconcileCall fs a) = []"
| "call_guid (TranslateCall g f c s) = g"
| "call_guid (MediaCall g u) = g"
| "call_guid (PrepareCall p) = en_guid p"
| "call_guid (PushCall p a) = en_guid p"
| "call_guid (ReceiptCall p a) = en_guid p"
| "call_guid (ConfirmCall p) = en_guid p"

definition wire_run :: "session \<Rightarrow> string \<Rightarrow> call list \<Rightarrow> wire option" where
  "wire_run ss g calls = foldl (\<lambda>st c. case st of None \<Rightarrow> None | Some s \<Rightarrow> wire_step ss s c) (Some Quiet)
     (filter (\<lambda>c. call_guid c = g) calls)"

lemma wire_run_Nil [simp]: "wire_run ss g [] = Some Quiet"
  by (simp add: wire_run_def)

lemma wire_run_snoc:
  "wire_run ss g (calls @ [c]) =
     (if call_guid c = g then (case wire_run ss g calls of None \<Rightarrow> None | Some s \<Rightarrow> wire_step ss s c)
      else wire_run ss g calls)"
  by (simp add: wire_run_def)

text \<open>A prefix of an accepted sequence is accepted.\<close>

lemma wire_run_prefix: "wire_run ss g (calls @ later) \<noteq> None \<Longrightarrow> wire_run ss g calls \<noteq> None"
  by (induction later rule: rev_induct) (auto simp: wire_run_snoc simp flip: append_assoc split: if_splits option.splits)

section \<open>What the tables say of the wire\<close>

definition ship_laws :: "session \<Rightarrow> bool" where
  "ship_laws ss \<longleftrightarrow> codec_laws (ss_codec ss)
     \<and> (\<forall>n. length (ss_nonce ss n) = 12 \<and> length (ss_nonce2 ss n) = 12)
     \<and> (\<forall>p. ss_read ss (ss_print ss p) = Some p \<and> ss_print ss p \<noteq> [])"

definition linked :: "session \<Rightarrow> string \<Rightarrow> unit_state \<Rightarrow> wire \<Rightarrow> bool" where
  "linked ss g e st \<longleftrightarrow>
     (case e of
        None \<Rightarrow> settled st
      | Some (ctx, None) \<Rightarrow> settled st
      | Some (ctx, Some t) \<Rightarrow> (\<exists>q. t = ss_print ss q \<and> en_guid q = g \<and> (settled st \<or> st = Sent q \<or> st = Absent q))
          \<and> (ic_delivery_phase ctx = Some ''prepared'' \<longrightarrow> settled st)
          \<and> (ic_target_receipt ctx \<noteq> None \<longrightarrow> settled st))"

text \<open>The state of the unit under work, and the invariant of all others.\<close>

definition unit_view :: "session \<Rightarrow> string \<Rightarrow> sync_world \<Rightarrow> unit_state" where
  "unit_view ss g w = evidence (ss_codec ss) (w_db w) (pair_key ss, g)"

text \<open>
  A packet that is parked for review is not sent by the run, and its row is closed although an earlier packet of the unit
  may have been sent. What is known of the wire is tracked until then: \<open>strict\<close> is the case of pairs that never park,
  in which the wire is always tracked.
\<close>

definition reviewed :: "session \<Rightarrow> string \<Rightarrow> sync_world \<Rightarrow> bool" where
  "reviewed ss g w \<longleftrightarrow> (\<exists>i \<in> set (w_review w). rv_pair i = pair_key ss \<and> rv_uuid i = g)"

definition tracks :: "bool \<Rightarrow> session \<Rightarrow> string \<Rightarrow> sync_world \<Rightarrow> wire \<Rightarrow> bool" where
  "tracks strict ss g w st \<longleftrightarrow> (\<not> strict \<and> reviewed ss g w) \<or> wire_run ss g (w_trace w) = Some st"

definition wire_ok :: "bool \<Rightarrow> session \<Rightarrow> string \<Rightarrow> sync_world \<Rightarrow> bool" where
  "wire_ok strict ss g w \<longleftrightarrow> (\<exists>st. tracks strict ss g w st \<and> linked ss g (unit_view ss g w) st)"

definition protocol_inv :: "bool \<Rightarrow> session \<Rightarrow> sync_world \<Rightarrow> bool" where
  "protocol_inv strict ss w \<longleftrightarrow> sync_inv (ss_codec ss) (w_db w) \<and> (\<forall>g. wire_ok strict ss g w)"

definition at_unit :: "bool \<Rightarrow> session \<Rightarrow> string \<Rightarrow> (unit_state \<Rightarrow> wire \<Rightarrow> bool) \<Rightarrow> sync_world \<Rightarrow> bool" where
  "at_unit strict ss g P w \<longleftrightarrow> sync_inv (ss_codec ss) (w_db w) \<and> (\<forall>h. h \<noteq> g \<longrightarrow> wire_ok strict ss h w)
     \<and> (\<exists>st. tracks strict ss g w st \<and> P (unit_view ss g w) st)"

lemma protocol_inv_at: "protocol_inv strict ss w \<longleftrightarrow> at_unit strict ss g (linked ss g) w"
  by (auto simp: protocol_inv_def at_unit_def wire_ok_def)

lemma at_unit_mono: "at_unit strict ss g P w \<Longrightarrow> (\<And>e st. P e st \<Longrightarrow> Q e st) \<Longrightarrow> at_unit strict ss g Q w"
  by (auto simp: at_unit_def)

lemma at_unit_cong:
  "w_db w' = w_db w \<Longrightarrow> w_trace w' = w_trace w \<Longrightarrow> w_review w' = w_review w \<Longrightarrow>
     at_unit strict ss g P w' = at_unit strict ss g P w"
  by (simp add: at_unit_def wire_ok_def unit_view_def tracks_def reviewed_def)

section \<open>Steps of the unit\<close>

lemma hoare_with_nonce:
  assumes "ship_laws ss" "\<And>k. length k = 12 \<Longrightarrow> hoare P (f k) Q E"
  shows "hoare P (with_nonce ss f) Q E"
proof (rule hoareI)
  fix env n s r n' s' assume P: "P s" and run: "with_nonce ss f env n s = (r, n', s')"
  have "length (ss_nonce ss n) = 12" using assms(1) by (simp add: ship_laws_def)
  from assms(2) [OF this] P run show "case r of Inl _ \<Rightarrow> E s' | Inr a \<Rightarrow> Q a s'"
    unfolding with_nonce_def by (rule hoareD)
qed

text \<open>Statements that touch neither the units nor the trace.\<close>

lemma hoare_lease: "hoare (at_unit strict ss g P) unit_lease (\<lambda>_. at_unit strict ss g P) (at_unit strict ss g P)"
  by (rule hoareI) (auto simp: unit_lease_def query_def execute_def split: if_splits)

lemma hoare_report: "hoare (at_unit strict ss g P) (report f) (\<lambda>_. at_unit strict ss g P) E"
  by (rule hoareI) (auto simp: report_def cong: at_unit_cong)

lemma hoare_local:
  assumes "\<And>now w. w_db (f now w) = w_db w \<and> w_trace (f now w) = w_trace w \<and> w_review (f now w) = w_review w"
  shows "hoare (at_unit strict ss g P) (update_doc f) (\<lambda>_. at_unit strict ss g P) (at_unit strict ss g P)"
proof -
  have "hoare (at_unit strict ss g P) (update_stmt f) (\<lambda>_. at_unit strict ss g P) (at_unit strict ss g P)"
  proof (rule hoareI)
    fix env n w r n' w' assume P: "at_unit strict ss g P w" and run: "update_stmt f env n w = (r, n', w')"
    have "at_unit strict ss g P (f (clock env n) w)" using P at_unit_cong assms by blast
    with P run show "case r of Inl _ \<Rightarrow> at_unit strict ss g P w' | Inr a \<Rightarrow> at_unit strict ss g P w'"
      by (auto simp: update_stmt_def execute_def split: if_splits)
  qed
  from hoare_seq [OF this hoare_lease] show ?thesis by (simp add: update_doc_def)
qed

lemma hoare_pair_state: "hoare (at_unit strict ss g P) (update_pair_state f) (\<lambda>_. at_unit strict ss g P) (at_unit strict ss g P)"
  unfolding update_pair_state_def by (rule hoare_local) simp

lemma hoare_fresh_id: "hoare P (fresh_id ss) (\<lambda>_. P) E"
  by (auto simp: hoare_def fresh_id_def)

text \<open>A call of the unit is a step of its wire.\<close>

lemma hoare_call:
  assumes "\<And>e st. P e st \<Longrightarrow> E e st" "\<And>a. call_guid (ev a) = g"
    "\<And>e st. P e st \<Longrightarrow> \<exists>st'. wire_step ss st (ev None) = Some st' \<and> E e st'"
    "\<And>a e st. P e st \<Longrightarrow> \<exists>st'. wire_step ss st (ev (Some a)) = Some st' \<and> Q a e st'"
  shows "hoare (at_unit strict ss g P) (call_out ev answer) (\<lambda>a. at_unit strict ss g (Q a)) (at_unit strict ss g E)"
proof (rule hoareI)
  fix env n w r n' w' assume P: "at_unit strict ss g P w" and run: "call_out ev answer env n w = (r, n', w')"
  show "case r of Inl _ \<Rightarrow> at_unit strict ss g E w' | Inr a \<Rightarrow> at_unit strict ss g (Q a) w'"
  proof (cases "fault env n")
    case True
    with run at_unit_mono [OF P assms(1)] show ?thesis by (auto simp: call_out_def)
  next
    case False
    from P obtain st where st: "tracks strict ss g w st" "P (unit_view ss g w) st"
      by (auto simp: at_unit_def)
    from False run have w': "w' = w\<lparr>w_trace := w_trace w @ [ev (answer n)]\<rparr>" by (simp add: call_out_def)
    have others: "wire_ok strict ss h w'" if "h \<noteq> g" for h
      using P that assms(2) by (simp add: at_unit_def wire_ok_def unit_view_def w' wire_run_snoc tracks_def reviewed_def)
    have view: "unit_view ss g w' = unit_view ss g w" "sync_inv (ss_codec ss) (w_db w')"
      using P by (simp_all add: unit_view_def w' at_unit_def)
    have run': "tracks strict ss g w' st'" if "wire_step ss st (ev (answer n)) = Some st'" for st'
      using assms(2) st(1) that by (auto simp: w' wire_run_snoc tracks_def reviewed_def)
    show ?thesis
    proof (cases "answer n")
      case None
      from assms(3) [OF st(2)] obtain st' where st': "wire_step ss st (ev None) = Some st'" "E (unit_view ss g w) st'" by blast
      with None run' have "tracks strict ss g w' st'" by simp
      with None False run others view st' show ?thesis by (auto simp: call_out_def at_unit_def)
    next
      case (Some a)
      from assms(4) [OF st(2)] obtain st' where st': "wire_step ss st (ev (Some a)) = Some st'" "Q a (unit_view ss g w) st'" by blast
      with Some run' have "tracks strict ss g w' st'" by simp
      with Some False run others view st' show ?thesis by (auto simp: call_out_def at_unit_def)
    qed
  qed
qed

lemma hoare_neutral_call:
  assumes "\<And>a. call_guid (ev a) = g" "\<And>a st. wire_step ss st (ev a) = Some st"
  shows "hoare (at_unit strict ss g P) (call_out ev answer) (\<lambda>_. at_unit strict ss g P) (at_unit strict ss g P)"
  by (rule hoare_call) (use assms in auto)

text \<open>An operation of the database on the unit is a step of its machine, or changes nothing.\<close>

lemma hoare_sync:
  assumes "ship_laws ss" "good_nonces x" "op_unit x = Some (pair_key ss, g)"
    "\<And>e st e'. P e st \<Longrightarrow> unit_step (ss_codec ss) x e e' \<Longrightarrow> Q e' st"
  shows "hoare (at_unit strict ss g P) (on_db (sync_step (ss_codec ss) x)) (\<lambda>_. at_unit strict ss g Q) (at_unit strict ss g P)"
proof (rule hoareI)
  fix env n w r n' w'
  assume P: "at_unit strict ss g P w" and run: "on_db (sync_step (ss_codec ss) x) env n w = (r, n', w')"
  then obtain s' where step: "sync_step (ss_codec ss) x env n (w_db w) = (r, n', s')" and w': "w' = w\<lparr>w_db := s'\<rparr>"
    by (auto simp: on_db_def zoom_def split: prod.splits)
  have inv: "sync_inv (ss_codec ss) (w_db w)" using P by (simp add: at_unit_def)
  show "case r of Inl _ \<Rightarrow> at_unit strict ss g P w' | Inr a \<Rightarrow> at_unit strict ss g Q w'"
  proof (cases r)
    case (Inl e)
    with sync_abort [OF inv] step have "w' = w" by (simp add: w')
    with P Inl show ?thesis by simp
  next
    case (Inr u)
    from assms(1) have "codec_laws (ss_codec ss)" by (simp add: ship_laws_def)
    from sync_commit [OF this assms(2) inv step [unfolded Inr]] assms(3)
    have c: "unit_commit (ss_codec ss) x (pair_key ss, g) (w_db w) s'" by simp
    from P obtain st where st: "tracks strict ss g w st" "P (unit_view ss g w) st" by (auto simp: at_unit_def)
    have same: "tracks strict ss h w' = tracks strict ss h w" for h by (simp add: fun_eq_iff tracks_def reviewed_def w')
    have "unit_step (ss_codec ss) x (unit_view ss g w) (unit_view ss g w')"
      using c by (simp add: unit_commit_def unit_view_def w')
    from assms(4) [OF st(2) this] have "Q (unit_view ss g w') st" .
    moreover have "wire_ok strict ss h w'" if "h \<noteq> g" for h
      using P that unit_commit_other [OF c, of "(pair_key ss, h)"]
      by (simp add: at_unit_def wire_ok_def same) (simp add: unit_view_def w')
    moreover have "sync_inv (ss_codec ss) (w_db w')" using unit_commit_inv [OF c assms(3) inv] by (simp add: w')
    ultimately show ?thesis using st(1) Inr by (auto simp: at_unit_def same)
  qed
qed

text \<open>What the look-up of the unit returns.\<close>

definition view_matches :: "inflight_view option \<Rightarrow> unit_state \<Rightarrow> bool" where
  "view_matches found e \<longleftrightarrow>
     (case found of
        None \<Rightarrow> e = None
      | Some r \<Rightarrow> (\<exists>p. e = Some (iv_ctx r, p) \<and> iv_relayed_json r = packet_text p))"

lemma find_shipping_Inr:
  "find_shipping cx pair uuid env n s = (Inr found, n', s') \<Longrightarrow> sync_inv cx s \<Longrightarrow>
     s' = s \<and> view_matches found (evidence cx s (pair, uuid))"
  by (cases "find (of_unit pair uuid) (inflight s)")
    (auto simp: find_shipping_def run_simps view_matches_def evidence_def row_evidence_def view_of_def packet_text_def
      unit_key_def packet_of_def dest!: find_of_unit_key split: sum.splits option.splits)

lemma hoare_find:
  "hoare (at_unit strict ss g P) (on_db (find_shipping (ss_codec ss) (pair_key ss) g))
     (\<lambda>found. at_unit strict ss g (\<lambda>e st. P e st \<and> view_matches found e)) (at_unit strict ss g P)"
proof (rule hoareI)
  fix env n w r n' w'
  assume P: "at_unit strict ss g P w" and run: "on_db (find_shipping (ss_codec ss) (pair_key ss) g) env n w = (r, n', w')"
  then obtain s' where step: "find_shipping (ss_codec ss) (pair_key ss) g env n (w_db w) = (r, n', s')"
    and w': "w' = w\<lparr>w_db := s'\<rparr>" by (auto simp: on_db_def zoom_def split: prod.splits)
  from reads_unchanged(1) [OF step] w' have "w' = w" by simp
  moreover have "view_matches found (unit_view ss g w)" if "r = Inr found" for found
    using find_shipping_Inr [OF step [unfolded that]] P by (simp add: at_unit_def unit_view_def)
  ultimately show "case r of Inl _ \<Rightarrow> at_unit strict ss g P w' | Inr found \<Rightarrow> at_unit strict ss g (\<lambda>e st. P e st \<and> view_matches found e) w'"
    using P by (auto simp: at_unit_def split: sum.split)
qed

inductive_simps unit_steps:
  "unit_step cx (Admit k pair uuid scope) e e'"
  "unit_step cx (Translated k pair uuid t) e e'"
  "unit_step cx (MediaDone k pair uuid remote target) e e'"
  "unit_step cx (Freeze k1 k2 pair uuid action q) e e'"
  "unit_step cx (Submitted k pair uuid) e e'"
  "unit_step cx (Receipt k pair uuid r) e e'"
  "unit_step cx (Failed pair uuid snippet) e e'"
  "unit_step cx (Close pair uuid) e e'"

lemma at_unit_delivery:
  assumes "at_unit strict ss g P w"
  shows "at_unit strict ss g (\<lambda>e st. P e st \<and> (\<forall>x. e = Some x \<longrightarrow> delivery_ok (ss_codec ss) g x)) w"
proof -
  have "delivery_ok (ss_codec ss) g x" if "unit_view ss g w = Some x" for x
  proof -
    from that have "(pair_key ss, g) \<in> unit_keys (w_db w)" unfolding unit_view_def by (rule evidence_unit)
    with assms that show ?thesis by (force simp: at_unit_def sync_inv_def unit_view_def)
  qed
  with assms show ?thesis by (auto simp: at_unit_def)
qed

lemma hoare_delivery:
  "hoare (at_unit strict ss g (\<lambda>e st. P e st \<and> (\<forall>x. e = Some x \<longrightarrow> delivery_ok (ss_codec ss) g x))) m Q E \<Longrightarrow>
    hoare (at_unit strict ss g P) m Q E"
  by (erule hoare_pre) (rule at_unit_delivery)

lemma print_inject: "ship_laws ss \<Longrightarrow> ss_print ss p = ss_print ss q \<longleftrightarrow> p = q"
  unfolding ship_laws_def by (metis option.inject)

section \<open>Stages of a shipment\<close>

text \<open>The row is open and says of the delivery what was found, the packet is frozen, the packet may have been sent.\<close>

definition opened :: "session \<Rightarrow> string \<Rightarrow> inflight_view option \<Rightarrow> unit_state \<Rightarrow> wire \<Rightarrow> bool" where
  "opened ss g found e st \<longleftrightarrow> linked ss g e st
     \<and> (\<exists>ctx p. e = Some (ctx, p) \<and> saved_packet found = packet_text p
          \<and> ic_target_receipt ctx = saved_receipt found
          \<and> ic_delivery_phase ctx = (case found of None \<Rightarrow> None | Some r \<Rightarrow> ic_delivery_phase (iv_ctx r)))"

definition frozen_with :: "session \<Rightarrow> string \<Rightarrow> sync_packet \<Rightarrow> ship_result option \<Rightarrow> string \<Rightarrow> unit_state \<Rightarrow> wire \<Rightarrow> bool" where
  "frozen_with ss g q receipt phase e st \<longleftrightarrow> en_guid q = g \<and> linked ss g e st
     \<and> (\<exists>ctx. e = Some (ctx, Some (ss_print ss q)) \<and> ic_target_receipt ctx = receipt \<and> ic_delivery_phase ctx = Some phase)"

definition phase_of :: "inflight_view option \<Rightarrow> string" where
  "phase_of found = (if was_submitted found then ''submitted'' else ''prepared'')"

lemma linked_text: "ship_laws ss \<Longrightarrow> linked ss g (Some (ctx, Some t)) st \<Longrightarrow> t \<noteq> []"
  by (auto simp: linked_def ship_laws_def)

lemma opened_after_admission:
  "linked ss g e st \<Longrightarrow> view_matches found e \<Longrightarrow> unit_step (ss_codec ss) (Admit k pr g scope) e e' \<Longrightarrow> opened ss g found e' st"
  by (cases found)
    (auto simp: unit_steps opened_def view_matches_def saved_packet_def saved_receipt_def packet_text_def linked_def
      default_ctx_def)

lemma opened_steps:
  "opened ss g found e st \<Longrightarrow> unit_step (ss_codec ss) (Translated k pr g t) e e' \<Longrightarrow> opened ss g found e' st"
  "opened ss g found e st \<Longrightarrow> unit_step (ss_codec ss) (MediaDone k pr g remote target) e e' \<Longrightarrow> opened ss g found e' st"
  by (auto simp: unit_steps opened_def merge_translation_def merge_media_def linked_def
      split: if_splits option.splits)

lemma opened_linked: "opened ss g found e st \<Longrightarrow> linked ss g e st"
  by (simp add: opened_def)

lemma hoare_translate_rows:
  assumes "ship_laws ss" "en_guid p = g"
  shows "hoare (at_unit strict ss g (opened ss g found)) (translate_rows ss p rows t)
    (\<lambda>_. at_unit strict ss g (opened ss g found)) (at_unit strict ss g (opened ss g found))"
proof (induction rows arbitrary: t)
  case Nil
  show ?case by (simp add: hoare_ret)
next
  case (Cons row rows)
  have call: "hoare (at_unit strict ss g (opened ss g found)) (call_out (\<lambda>_. TranslateCall (en_guid p) f c s) (ss_translate ss))
      (\<lambda>_. at_unit strict ss g (opened ss g found)) (at_unit strict ss g (opened ss g found))" for f c s
    by (rule hoare_neutral_call) (simp_all add: assms(2))
  have "hoare (at_unit strict ss g (opened ss g found))
      (with_nonce ss (\<lambda>k. on_db (store_translation (ss_codec ss) k (pair_key ss) (en_guid p) t')))
      (\<lambda>_. at_unit strict ss g (opened ss g found)) (at_unit strict ss g (opened ss g found))" for t'
    using hoare_sync [OF assms(1), of "Translated k (pair_key ss) g t'" for k] opened_steps(1) assms(2)
    by (intro hoare_with_nonce [OF assms(1)]) (auto simp: good_nonces_def)
  with Cons.IH call show ?case
    by (auto simp: Let_def intro!: hoare_fail hoare_seq hoare_bind)
qed

lemma hoare_transfer_media:
  assumes "ship_laws ss" "en_guid p = g"
  shows "hoare (at_unit strict ss g (opened ss g found)) (transfer_media ss p entries media)
    (\<lambda>_. at_unit strict ss g (opened ss g found)) (at_unit strict ss g (opened ss g found))"
proof (induction entries arbitrary: media)
  case Nil
  show ?case by (simp add: hoare_ret)
next
  case (Cons e entries)
  have call: "hoare (at_unit strict ss g (opened ss g found)) (call_out (\<lambda>_. MediaCall (en_guid p) u) (ss_media ss))
      (\<lambda>_. at_unit strict ss g (opened ss g found)) (at_unit strict ss g (opened ss g found))" for u
    by (rule hoare_neutral_call) (simp_all add: assms(2))
  have store: "hoare (at_unit strict ss g (opened ss g found))
      (with_nonce ss (\<lambda>k. on_db (store_media_entry (ss_codec ss) k (pair_key ss) (en_guid p) u target)))
      (\<lambda>_. at_unit strict ss g (opened ss g found)) (at_unit strict ss g (opened ss g found))" for u target
    using hoare_sync [OF assms(1), of "MediaDone k (pair_key ss) g u target" for k] opened_steps(2) assms(2)
    by (intro hoare_with_nonce [OF assms(1)]) (auto simp: good_nonces_def)
  have rep: "hoare (at_unit strict ss g (opened ss g found)) (report f) (\<lambda>_. at_unit strict ss g (opened ss g found))
      (at_unit strict ss g (opened ss g found))" for f by (rule hoare_report)
  have step: "hoare (at_unit strict ss g (opened ss g found))
      (bind (call_out (\<lambda>_. MediaCall (en_guid p) u) (ss_media ss)) (\<lambda>target.
          if target = [] then fail ForeignAnswer
          else seq (report f)
            (seq (with_nonce ss (\<lambda>k. on_db (store_media_entry (ss_codec ss) k (pair_key ss) (en_guid p) u target)))
                 (transfer_media ss p entries (media @ [(u, target)])))))
      (\<lambda>_. at_unit strict ss g (opened ss g found)) (at_unit strict ss g (opened ss g found))" for u f
  proof (rule hoare_bind [OF call])
    fix a
    show "hoare (at_unit strict ss g (opened ss g found))
        (if a = [] then fail ForeignAnswer
         else seq (report f)
           (seq (with_nonce ss (\<lambda>k. on_db (store_media_entry (ss_codec ss) k (pair_key ss) (en_guid p) u a)))
                (transfer_media ss p entries (media @ [(u, a)]))))
        (\<lambda>_. at_unit strict ss g (opened ss g found)) (at_unit strict ss g (opened ss g found))"
      using hoare_seq [OF rep hoare_seq [OF store Cons.IH]] by (simp add: hoare_fail)
  qed
  show ?case
  proof (cases "remote_url e")
    case None
    with Cons.IH show ?thesis by simp
  next
    case (Some u)
    with Cons.IH step [of u] show ?thesis by simp
  qed
qed

lemma hoare_translate_packet:
  assumes "ship_laws ss" "en_guid p = g"
  shows "hoare (at_unit strict ss g (opened ss g found)) (translate_packet ss p found)
    (\<lambda>_. at_unit strict ss g (opened ss g found)) (at_unit strict ss g (opened ss g found))"
  unfolding translate_packet_def
  by (auto simp: Let_def intro!: hoare_ret hoare_fail hoare_bind hoare_translate_rows assms)

lemma frozen_linked: "frozen_with ss g q receipt phase e st \<Longrightarrow> linked ss g e st"
  by (simp add: frozen_with_def)

text \<open>A packet that was stored before is the packet the unit was linked with; a new one is stored as prepared.\<close>

lemma opened_saved:
  assumes "ship_laws ss" "opened ss g found e st" "\<forall>x. e = Some x \<longrightarrow> delivery_ok (ss_codec ss) g x"
    "saved_packet found \<noteq> []" "ss_read ss (saved_packet found) = Some q"
  shows "frozen_with ss g q (saved_receipt found) (phase_of found) e st"
proof -
  from assms(2,4) obtain ctx t where e: "e = Some (ctx, Some t)" "saved_packet found = t"
    "ic_target_receipt ctx = saved_receipt found"
    "ic_delivery_phase ctx = (case found of None \<Rightarrow> None | Some r \<Rightarrow> ic_delivery_phase (iv_ctx r))"
    by (auto simp: opened_def packet_text_def split: option.splits)
  from assms(2) e(1) obtain q0 where q0: "t = ss_print ss q0" "en_guid q0 = g" by (auto simp: opened_def linked_def)
  with assms(1,5) e(2) have "q = q0" by (simp add: ship_laws_def)
  moreover from assms(3) e(1) have "ic_delivery_phase ctx \<in> {Some ''prepared'', Some ''submitted''}"
    by (auto simp: delivery_ok_def)
  then have "ic_delivery_phase ctx = Some (phase_of found)"
    using assms(4) e(4) by (auto simp: phase_of_def was_submitted_def saved_packet_def split: option.splits)
  ultimately show ?thesis using assms(2) e q0 by (auto simp: frozen_with_def opened_def)
qed

lemma opened_frozen:
  assumes "ship_laws ss" "opened ss g found e st" "\<forall>x. e = Some x \<longrightarrow> delivery_ok (ss_codec ss) g x"
    "saved_packet found = []" "en_guid q = g"
    "unit_step (ss_codec ss) (Freeze k1 k2 pr g action (ss_print ss q)) e e'"
  shows "frozen_with ss g q (saved_receipt found) (phase_of found) e' st"
proof -
  from assms(2) obtain ctx p where e: "e = Some (ctx, p)" "saved_packet found = packet_text p"
    "ic_target_receipt ctx = saved_receipt found" by (auto simp: opened_def)
  have p: "p = None"
  proof (cases p)
    case (Some t)
    with assms(2) e(1) linked_text [OF assms(1)] have "t \<noteq> []" by (auto simp: opened_def)
    with Some e(2) assms(4) show ?thesis by (simp add: packet_text_def)
  qed simp
  from assms(3) e(1) p have "ic_target_receipt ctx = None" by (auto simp: delivery_ok_def)
  moreover have "phase_of found = ''prepared''"
    using assms(4) by (auto simp: phase_of_def was_submitted_def saved_packet_def split: option.splits)
  moreover have "settled st" using assms(2) e(1) p by (simp add: opened_def linked_def)
  ultimately show ?thesis
    using assms(5,6) e p by (auto simp: unit_steps frozen_with_def linked_def)
qed

lemma hoare_relayed:
  assumes "ship_laws ss" "en_guid p = g" "\<And>k. en_guid (build k) = g"
  shows "hoare (at_unit strict ss g (opened ss g found)) (relayed_packet ss p found build)
    (\<lambda>q. at_unit strict ss g (frozen_with ss g q (saved_receipt found) (phase_of found))) (at_unit strict ss g (linked ss g))"
proof (rule hoare_delivery)
  let ?P = "\<lambda>e st. opened ss g found e st \<and> (\<forall>x. e = Some x \<longrightarrow> delivery_ok (ss_codec ss) g x)"
  let ?Q = "\<lambda>q. at_unit strict ss g (frozen_with ss g q (saved_receipt found) (phase_of found))"
  have weaken: "at_unit strict ss g ?P w \<Longrightarrow> at_unit strict ss g (linked ss g) w" for w
    by (erule at_unit_mono) (auto intro: opened_linked)
  show "hoare (at_unit strict ss g ?P) (relayed_packet ss p found build) ?Q (at_unit strict ss g (linked ss g))"
  proof (cases "saved_packet found = []")
    case False
    have "hoare (at_unit strict ss g ?P) (ret q) ?Q E" if "ss_read ss (saved_packet found) = Some q" for q E
      using opened_saved [OF assms(1) _ _ False that] by (intro hoare_ret) (auto elim: at_unit_mono)
    with False weaken show ?thesis
      by (auto simp: relayed_packet_def intro!: hoare_fail split: option.split)
  next
    case True
    have "hoare (at_unit strict ss g ?P) (freeze_packet ss p (build k)) (\<lambda>_. ?Q (build k)) (at_unit strict ss g ?P)" for k
      unfolding freeze_packet_def with_nonce_def
    proof (rule hoareI)
      fix env n w r n' w'
      assume P: "at_unit strict ss g ?P w" and run: "on_db (store_relayed_packet (ss_codec ss) (ss_nonce ss n) (ss_nonce2 ss n)
         (pair_key ss) (en_guid p) (pk_action p) (ss_print ss (build k))) env n w = (r, n', w')"
      let ?x = "Freeze (ss_nonce ss n) (ss_nonce2 ss n) (pair_key ss) g (pk_action p) (ss_print ss (build k))"
      have h: "hoare (at_unit strict ss g ?P) (on_db (sync_step (ss_codec ss) ?x)) (\<lambda>_. ?Q (build k)) (at_unit strict ss g ?P)"
        using assms(1) opened_frozen [OF assms(1) _ _ True assms(3)]
        by (intro hoare_sync) (auto simp: good_nonces_def ship_laws_def)
      have "on_db (sync_step (ss_codec ss) ?x) env n w = (r, n', w')"
        using run assms(2) by simp
      from hoareD [OF h P this] show "case r of Inl _ \<Rightarrow> at_unit strict ss g ?P w' | Inr a \<Rightarrow> ?Q (build k) w'" .
    qed
    then have "hoare (at_unit strict ss g ?P) (freeze_packet ss p (build k)) (\<lambda>_. ?Q (build k)) (at_unit strict ss g (linked ss g))" for k
      by (rule hoare_conseq) (auto intro: weaken)
    with True show ?thesis
      by (auto simp: relayed_packet_def intro!: hoare_bind [OF hoare_fresh_id] hoare_seq hoare_ret)
  qed
qed

section \<open>Delivery\<close>

text \<open>The intent to send is stored: the fate of the packet is what the wire says.\<close>

definition sending :: "session \<Rightarrow> string \<Rightarrow> sync_packet \<Rightarrow> (wire \<Rightarrow> bool) \<Rightarrow> unit_state \<Rightarrow> wire \<Rightarrow> bool" where
  "sending ss g q W e st \<longleftrightarrow> frozen_with ss g q None ''submitted'' e st \<and> W st"

definition concluded :: "session \<Rightarrow> string \<Rightarrow> sync_packet \<Rightarrow> ship_result \<Rightarrow> unit_state \<Rightarrow> wire \<Rightarrow> bool" where
  "concluded ss g q r e st \<longleftrightarrow> frozen_with ss g q None ''submitted'' e st \<and> (sr_success r \<longrightarrow> settled st)"

lemma frozen_wire:
  "frozen_with ss g q None ''submitted'' e st \<Longrightarrow> st' \<in> {Sent q, Absent q, Done q} \<Longrightarrow>
    frozen_with ss g q None ''submitted'' e st'"
  by (auto simp: frozen_with_def linked_def settled_def)

lemma frozen_may_ask:
  assumes "ship_laws ss" "frozen_with ss g q receipt phase e st"
  shows "may_ask st q"
  using assms by (auto simp: frozen_with_def linked_def may_ask_def print_inject)

lemma validated_result:
  "validate_packet_receipt ss q d = Inr r \<Longrightarrow> sr_status r \<in> {''success'', ''skipped'', ''conflict''} \<and> sr_receipt r = Some d"
  by (auto simp: validate_packet_receipt_def receipt_status_def split: if_splits option.splits json.splits)

lemma hoare_push:
  assumes "en_guid q = g"
  shows "hoare (at_unit strict ss g (sending ss g q (\<lambda>st. may_push st q))) (push_packet ss q)
    (\<lambda>r. at_unit strict ss g (concluded ss g q r)) (at_unit strict ss g (linked ss g))"
  unfolding push_packet_def
proof (rule hoare_bind)
  let ?after = "\<lambda>a e st. frozen_with ss g q None ''submitted'' e st
    \<and> st = (if proves_receipt ss q (Some a) then Done q else Sent q)"
  show "hoare (at_unit strict ss g (sending ss g q (\<lambda>st. may_push st q))) (call_out (PushCall q) (ss_http ss))
      (\<lambda>a. at_unit strict ss g (?after a)) (at_unit strict ss g (linked ss g))"
  proof (rule hoare_call)
    show "call_guid (PushCall q a) = g" for a by (simp add: assms)
  next
    fix e st assume s: "sending ss g q (\<lambda>st. may_push st q) e st"
    then have f: "frozen_with ss g q None ''submitted'' e st" "may_push st q" by (simp_all add: sending_def)
    show "linked ss g e st" using f(1) by (rule frozen_linked)
    show "\<exists>st'. wire_step ss st (PushCall q None) = Some st' \<and> linked ss g e st'"
      using f frozen_linked [OF frozen_wire [OF f(1)], of "Sent q"] by (simp add: proves_receipt_def)
    show "\<exists>st'. wire_step ss st (PushCall q (Some a)) = Some st' \<and> ?after a e st'" for a
      using f frozen_wire [OF f(1)] by simp
  qed
  fix a
  show "hoare (at_unit strict ss g (?after a))
      (case a of HttpStatus code \<Rightarrow> ret (rejected_push q code) | SiteData d \<Rightarrow> lift_read (validate_packet_receipt ss q d))
      (\<lambda>r. at_unit strict ss g (concluded ss g q r)) (at_unit strict ss g (linked ss g))"
  proof (cases a)
    case (HttpStatus code)
    then show ?thesis
      by (auto simp: rejected_push_def concluded_def intro!: hoare_ret elim!: at_unit_mono)
  next
    case (SiteData d)
    then show ?thesis
      by (auto simp: proves_receipt_def concluded_def settled_def intro!: hoare_lift_read elim!: at_unit_mono
          intro: frozen_linked)
  qed
qed

lemma hoare_find_receipt:
  assumes "ship_laws ss" "en_guid q = g"
  shows "hoare (at_unit strict ss g (sending ss g q (\<lambda>_. True))) (find_packet_receipt ss q)
    (\<lambda>r. at_unit strict ss g (\<lambda>e st. concluded ss g q r e st \<and> (sr_status r = ''absent'' \<longrightarrow> st = Absent q)))
    (at_unit strict ss g (linked ss g))"
  unfolding find_packet_receipt_def
proof (rule hoare_bind)
  let ?after = "\<lambda>a e st. frozen_with ss g q None ''submitted'' e st
    \<and> st = (if proves_absence ss q (Some a) then Absent q else if proves_receipt ss q (Some a) then Done q else Sent q)"
  show "hoare (at_unit strict ss g (sending ss g q (\<lambda>_. True))) (call_out (ReceiptCall q) (ss_http ss))
      (\<lambda>a. at_unit strict ss g (?after a)) (at_unit strict ss g (linked ss g))"
  proof (rule hoare_call)
    show "call_guid (ReceiptCall q a) = g" for a by (simp add: assms(2))
  next
    fix e st assume s: "sending ss g q (\<lambda>_. True) e st"
    then have f: "frozen_with ss g q None ''submitted'' e st" by (simp add: sending_def)
    note ask = frozen_may_ask [OF assms(1) f]
    show "linked ss g e st" using f by (rule frozen_linked)
    show "\<exists>st'. wire_step ss st (ReceiptCall q None) = Some st' \<and> linked ss g e st'"
      using ask frozen_linked [OF frozen_wire [OF f], of "Sent q"] by (simp add: proves_receipt_def proves_absence_def)
    show "\<exists>st'. wire_step ss st (ReceiptCall q (Some a)) = Some st' \<and> ?after a e st'" for a
      using ask frozen_wire [OF f] by simp
  qed
  fix a
  show "hoare (at_unit strict ss g (?after a))
      (case a of HttpStatus code \<Rightarrow> fail NoReply
       | SiteData d \<Rightarrow> if claims_absence d then if absence_proof ss q d then ret (absent_result q) else fail ForeignAnswer
           else lift_read (validate_packet_receipt ss q d))
      (\<lambda>r. at_unit strict ss g (\<lambda>e st. concluded ss g q r e st \<and> (sr_status r = ''absent'' \<longrightarrow> st = Absent q)))
      (at_unit strict ss g (linked ss g))"
  proof (cases a)
    case (HttpStatus code)
    then show ?thesis by (auto intro!: hoare_fail elim!: at_unit_mono intro: frozen_linked)
  next
    case (SiteData d)
    have "hoare (at_unit strict ss g (?after a)) (lift_read (validate_packet_receipt ss q d))
      (\<lambda>r. at_unit strict ss g (\<lambda>e st. concluded ss g q r e st \<and> (sr_status r = ''absent'' \<longrightarrow> st = Absent q)))
      (at_unit strict ss g (linked ss g))" if "\<not> claims_absence d"
      using that SiteData
      by (auto simp: proves_receipt_def proves_absence_def concluded_def settled_def intro!: hoare_lift_read
          elim!: at_unit_mono intro: frozen_linked dest: validated_result)
    moreover have "hoare (at_unit strict ss g (?after a)) (ret (absent_result q))
      (\<lambda>r. at_unit strict ss g (\<lambda>e st. concluded ss g q r e st \<and> (sr_status r = ''absent'' \<longrightarrow> st = Absent q)))
      (at_unit strict ss g (linked ss g))" if "claims_absence d" "absence_proof ss q d"
      using that SiteData
      by (auto simp: proves_absence_def absent_result_def concluded_def intro!: hoare_ret elim!: at_unit_mono)
    moreover have "hoare (at_unit strict ss g (?after a)) (fail ForeignAnswer)
      (\<lambda>r. at_unit strict ss g (\<lambda>e st. concluded ss g q r e st \<and> (sr_status r = ''absent'' \<longrightarrow> st = Absent q)))
      (at_unit strict ss g (linked ss g))"
      by (auto intro!: hoare_fail elim!: at_unit_mono intro: frozen_linked)
    ultimately show ?thesis using SiteData by auto
  qed
qed

lemma hoare_resume:
  assumes "ship_laws ss" "en_guid q = g"
  shows "hoare (at_unit strict ss g (sending ss g q (\<lambda>_. True))) (resume_submitted_packet ss q)
    (\<lambda>r. at_unit strict ss g (concluded ss g q r)) (at_unit strict ss g (linked ss g))"
  unfolding resume_submitted_packet_def
proof (rule hoare_bind [OF hoare_find_receipt [OF assms]])
  fix r
  let ?P = "\<lambda>e st. concluded ss g q r e st \<and> (sr_status r = ''absent'' \<longrightarrow> st = Absent q)"
  have "hoare (at_unit strict ss g ?P) (push_packet ss q)
      (\<lambda>r. at_unit strict ss g (concluded ss g q r)) (at_unit strict ss g (linked ss g))" if "sr_status r = ''absent''"
    using that
    by (intro hoare_pre [OF hoare_push [OF assms(2)]])
      (auto elim!: at_unit_mono simp: concluded_def sending_def may_push_def)
  then show "hoare (at_unit strict ss g ?P) (if sr_status r = ''absent'' then push_packet ss q else ret r)
      (\<lambda>r. at_unit strict ss g (concluded ss g q r)) (at_unit strict ss g (linked ss g))"
    by (auto intro!: hoare_ret elim!: at_unit_mono)
qed

text \<open>The two ways to a packet on the wire: it is not sent yet, or its fate has to be asked for.\<close>

lemma frozen_prepared:
  "frozen_with ss g q None ''prepared'' e st \<Longrightarrow> ship_laws ss \<Longrightarrow>
    unit_step (ss_codec ss) (Submitted k pr g) e e' \<Longrightarrow> sending ss g q (\<lambda>st. may_push st q) e' st"
  by (auto simp: frozen_with_def unit_steps merge_submitted_def sending_def linked_def may_push_def
      packet_text_def split: if_splits)

lemma hoare_mark:
  assumes "ship_laws ss"
  shows "hoare (at_unit strict ss g (frozen_with ss g q None ''prepared''))
    (with_nonce ss (\<lambda>k. on_db (mark_submitted (ss_codec ss) k (pair_key ss) g)))
    (\<lambda>_. at_unit strict ss g (sending ss g q (\<lambda>st. may_push st q))) (at_unit strict ss g (linked ss g))"
proof (rule hoare_with_nonce [OF assms])
  fix k :: bytes assume "length k = 12"
  then have "hoare (at_unit strict ss g (frozen_with ss g q None ''prepared''))
      (on_db (sync_step (ss_codec ss) (Submitted k (pair_key ss) g)))
      (\<lambda>_. at_unit strict ss g (sending ss g q (\<lambda>st. may_push st q))) (at_unit strict ss g (frozen_with ss g q None ''prepared''))"
    using frozen_prepared assms by (intro hoare_sync) (auto simp: good_nonces_def)
  then show "hoare (at_unit strict ss g (frozen_with ss g q None ''prepared''))
      (on_db (mark_submitted (ss_codec ss) k (pair_key ss) g))
      (\<lambda>_. at_unit strict ss g (sending ss g q (\<lambda>st. may_push st q))) (at_unit strict ss g (linked ss g))"
    by (auto elim!: hoare_conseq at_unit_mono intro: frozen_linked)
qed

text \<open>What a delivery leaves behind.\<close>

definition delivered :: "session \<Rightarrow> string \<Rightarrow> ship_result \<Rightarrow> unit_state \<Rightarrow> wire \<Rightarrow> bool" where
  "delivered ss g r e st \<longleftrightarrow> linked ss g e st \<and> (sr_success r \<longrightarrow> settled st)"

lemma receipt_stored:
  "concluded ss g q r e st \<Longrightarrow> sr_success r \<Longrightarrow> unit_step (ss_codec ss) (Receipt k pr g r) e e' \<Longrightarrow> delivered ss g r e' st"
  by (auto simp: concluded_def frozen_with_def unit_steps merge_receipt_def delivered_def linked_def
      split: if_splits option.splits)

lemma concluded_delivered: "concluded ss g q r e st \<Longrightarrow> delivered ss g r e st"
  by (auto simp: concluded_def delivered_def intro: frozen_linked)

lemma hoare_store_receipt:
  assumes "ship_laws ss" "sr_success r"
  shows "hoare (at_unit strict ss g (concluded ss g q r))
    (with_nonce ss (\<lambda>k. on_db (store_target_receipt (ss_codec ss) k (pair_key ss) g r)))
    (\<lambda>_. at_unit strict ss g (delivered ss g r)) (at_unit strict ss g (linked ss g))"
proof (rule hoare_with_nonce [OF assms(1)])
  fix k :: bytes assume "length k = 12"
  then have "hoare (at_unit strict ss g (concluded ss g q r)) (on_db (sync_step (ss_codec ss) (Receipt k (pair_key ss) g r)))
      (\<lambda>_. at_unit strict ss g (delivered ss g r)) (at_unit strict ss g (concluded ss g q r))"
    using receipt_stored assms(2) by (intro hoare_sync [OF assms(1)]) (auto simp: good_nonces_def)
  then show "hoare (at_unit strict ss g (concluded ss g q r)) (on_db (store_target_receipt (ss_codec ss) k (pair_key ss) g r))
      (\<lambda>_. at_unit strict ss g (delivered ss g r)) (at_unit strict ss g (linked ss g))"
    by (auto elim!: hoare_conseq at_unit_mono dest: concluded_delivered simp: delivered_def)
qed

lemma hoare_deliver:
  assumes "ship_laws ss" "en_guid q = g"
    "\<And>P. hoare (at_unit strict ss g P) announce (\<lambda>_. at_unit strict ss g P) (at_unit strict ss g P)"
  shows "hoare (at_unit strict ss g (frozen_with ss g q None (phase_of found))) (deliver ss announce g q found)
    (\<lambda>r. at_unit strict ss g (delivered ss g r)) (at_unit strict ss g (linked ss g))"
proof -
  let ?F = "frozen_with ss g q None (phase_of found)" and ?L = "at_unit strict ss g (linked ss g)"
  have weak: "hoare (at_unit strict ss g (frozen_with ss g q None ph)) m R ?L"
    if "hoare (at_unit strict ss g (frozen_with ss g q None ph)) m R (at_unit strict ss g (frozen_with ss g q None ph))" for ph and m :: "'b shipping" and R
    using that by (auto elim!: hoare_conseq at_unit_mono intro: frozen_linked)
  have weak_push: "hoare (at_unit strict ss g (sending ss g q W)) m R ?L"
    if "hoare (at_unit strict ss g (sending ss g q W)) m R (at_unit strict ss g (sending ss g q W))" for W and m :: "'b shipping" and R
    using that by (auto elim!: hoare_conseq at_unit_mono intro: frozen_linked simp: sending_def)
  have asked: "hoare (at_unit strict ss g ?F) (resume_submitted_packet ss q) (\<lambda>r. at_unit strict ss g (concluded ss g q r)) ?L"
    if "was_submitted found"
    using that by (intro hoare_pre [OF hoare_resume [OF assms(1,2)]]) (auto elim!: at_unit_mono simp: phase_of_def sending_def)
  have sent: "hoare (at_unit strict ss g ?F)
      (seq announce (seq (with_nonce ss (\<lambda>k. on_db (mark_submitted (ss_codec ss) k (pair_key ss) g)))
         (seq unit_lease (push_packet ss q)))) (\<lambda>r. at_unit strict ss g (concluded ss g q r)) ?L"
    if "\<not> was_submitted found"
  proof -
    have F: "?F = frozen_with ss g q None ''prepared''" using that by (simp add: phase_of_def)
    show ?thesis unfolding F
      by (intro hoare_seq [OF weak [OF assms(3)]] hoare_seq [OF hoare_mark [OF assms(1)]]
          hoare_seq [OF weak_push [OF hoare_lease]] hoare_push assms(2))
  qed
  have finish: "hoare (at_unit strict ss g (concluded ss g q r))
      (if sr_success r then seq (with_nonce ss (\<lambda>k. on_db (store_target_receipt (ss_codec ss) k (pair_key ss) g r))) (ret r)
       else ret r) (\<lambda>r. at_unit strict ss g (delivered ss g r)) ?L" for r
  proof (cases "sr_success r")
    case True
    have "hoare (at_unit strict ss g (delivered ss g r)) (ret r) (\<lambda>r. at_unit strict ss g (delivered ss g r)) ?L"
      by (rule hoare_ret)
    from hoare_seq [OF hoare_store_receipt [OF assms(1) True] this] True show ?thesis by simp
  next
    case False
    then show ?thesis by (auto intro!: hoare_ret elim!: at_unit_mono dest: concluded_delivered)
  qed
  show ?thesis
    unfolding deliver_def
    using hoare_seq [OF weak [OF hoare_lease] hoare_bind [OF _ finish]] asked sent by auto
qed

lemma frozen_receipt:
  "frozen_with ss g q (Some r0) phase e st \<Longrightarrow> linked ss g e st \<and> settled st"
  by (auto simp: frozen_with_def linked_def)

lemma hoare_signed:
  assumes "call_guid ev = g" "\<And>st. wire_step ss st ev = Some st"
  shows "hoare (at_unit strict ss g P) (bind (call_out (\<lambda>_. ev) answer) (\<lambda>a.
       case a of HttpStatus code \<Rightarrow> fail ForeignAnswer | SiteData d \<Rightarrow> ensure (b d) ForeignAnswer))
     (\<lambda>_. at_unit strict ss g P) (at_unit strict ss g P)"
proof (rule hoare_bind [OF hoare_neutral_call])
  show "hoare (at_unit strict ss g P) (case a of HttpStatus code \<Rightarrow> fail ForeignAnswer | SiteData d \<Rightarrow> ensure (b d) ForeignAnswer)
     (\<lambda>_. at_unit strict ss g P) (at_unit strict ss g P)" for a
    by (auto intro!: hoare_fail hoare_ensure split: site_answer.split)
qed (use assms in auto)

lemma hoare_announce_source:
  assumes "en_guid q = g"
  shows "hoare (at_unit strict ss g P) (prepare_configured_source ss q) (\<lambda>_. at_unit strict ss g P) (at_unit strict ss g P)"
  unfolding prepare_configured_source_def
  using hoare_signed [of "PrepareCall q" g ss] assms by (simp add: hoare_ret)

lemma hoare_confirm_source:
  assumes "en_guid q = g"
  shows "hoare (at_unit strict ss g P) (confirm_configured_source ss q r) (\<lambda>_. at_unit strict ss g P) (at_unit strict ss g P)"
proof -
  have "hoare (at_unit strict ss g P) (ensure b err) (\<lambda>_. at_unit strict ss g P) (at_unit strict ss g P)" for b err
    by (rule hoare_ensure)
  from hoare_seq [OF this hoare_signed [of "ConfirmCall q" g ss]] show ?thesis
    unfolding confirm_configured_source_def
    using assms by (simp add: hoare_ret hoare_fail split: option.split)
qed

lemma hoare_packet_result:
  assumes "ship_laws ss" "en_guid q = g"
  shows "hoare (at_unit strict ss g (frozen_with ss g q (saved_receipt found) (phase_of found))) (packet_result ss g q found)
    (\<lambda>r. at_unit strict ss g (delivered ss g r)) (at_unit strict ss g (linked ss g))"
proof (cases "saved_receipt found")
  case None
  with hoare_deliver [OF assms hoare_announce_source [OF assms(2)]] show ?thesis by (simp add: packet_result_def)
next
  case (Some r)
  then show ?thesis
    by (auto simp: packet_result_def delivered_def intro!: hoare_fail hoare_ret elim!: at_unit_mono dest: frozen_receipt)
qed

lemma hoare_tombstone_result:
  assumes "ship_laws ss" "en_guid q = g"
  shows "hoare (at_unit strict ss g (frozen_with ss g q (saved_receipt found) (phase_of found))) (tombstone_result ss g q found)
    (\<lambda>r. at_unit strict ss g (delivered ss g r)) (at_unit strict ss g (linked ss g))"
proof (cases "saved_receipt found")
  case None
  have "hoare (at_unit strict ss g P) (ret ()) (\<lambda>_. at_unit strict ss g P) (at_unit strict ss g P)" for P by (rule hoare_ret)
  with hoare_deliver [OF assms this] None show ?thesis by (simp add: tombstone_result_def)
next
  case (Some r)
  let ?P = "at_unit strict ss g (frozen_with ss g q (Some r) (phase_of found))" and ?L = "at_unit strict ss g (linked ss g)"
  have "hoare ?P (ret r) (\<lambda>r. at_unit strict ss g (delivered ss g r)) ?L" "hoare ?P (fail Conflict) (\<lambda>r. at_unit strict ss g (delivered ss g r)) ?L"
    "hoare ?P (lift_read (validate_saved_result ss q r)) (\<lambda>_. ?P) ?L"
    by (auto simp: delivered_def intro!: hoare_ret hoare_fail hoare_lift_read elim!: at_unit_mono dest: frozen_receipt)
  with hoare_seq [OF this(3,1)] Some show ?thesis by (simp add: tombstone_result_def)
qed

definition finished :: "session \<Rightarrow> string \<Rightarrow> unit_state \<Rightarrow> wire \<Rightarrow> bool" where
  "finished ss g e st \<longleftrightarrow> linked ss g e st \<and> settled st"

lemma hoare_weak: "hoare (at_unit strict ss g P) m R (at_unit strict ss g P) \<Longrightarrow> (\<And>e st. P e st \<Longrightarrow> linked ss g e st) \<Longrightarrow>
    hoare (at_unit strict ss g P) m R (at_unit strict ss g (linked ss g))"
  by (auto elim!: hoare_conseq at_unit_mono)

lemma finished_linked: "finished ss g e st \<Longrightarrow> linked ss g e st"
  by (simp add: finished_def)

text \<open>A parked unit is in the review inbox from then on, and its row can be closed.\<close>

lemma upsert_reviewed:
  "\<exists>i \<in> set (upsert_pending_item now item items). rv_pair i = rv_pair item \<and> rv_uuid i = rv_uuid item"
  "i \<in> set items \<Longrightarrow> \<exists>j \<in> set (upsert_pending_item now item items). rv_pair j = rv_pair i \<and> rv_uuid j = rv_uuid i"
  by (induction items) (auto simp: pending_of_def)

lemma reviewed_finished:
  assumes "at_unit strict ss g (linked ss g) w" "\<not> strict" "reviewed ss g w"
  shows "at_unit strict ss g (finished ss g) w"
proof -
  have "finished ss g e Quiet" if "linked ss g e st" for e st
    using that by (auto simp: finished_def linked_def settled_def split: option.splits prod.splits)
  with assms show ?thesis by (auto simp: at_unit_def tracks_def)
qed

lemma hoare_parked_unit:
  assumes "\<not> strict" "en_guid p = g"
  shows "hoare (at_unit strict ss g (linked ss g)) (park_packet ss p translated q)
    (\<lambda>_. at_unit strict ss g (finished ss g)) (at_unit strict ss g (linked ss g))"
proof -
  let ?L = "at_unit strict ss g (linked ss g)" and ?F = "at_unit strict ss g (finished ss g)"
  let ?f = "\<lambda>k now w. w\<lparr>w_review := upsert_pending_item (unix_ts now) (review_of ss k (unix_ts now) p translated q) (w_review w)\<rparr>"
  have parked: "?F (?f k now w)" if L: "?L w" for k now w
  proof -
    have mono: "reviewed ss h w \<Longrightarrow> reviewed ss h (?f k now w)" for h
      unfolding reviewed_def by (elim bexE, drule upsert_reviewed(2)) simp
    have "tracks strict ss h w st \<Longrightarrow> tracks strict ss h (?f k now w) st" for h st
      using mono by (auto simp: tracks_def)
    with L have "?L (?f k now w)" by (fastforce simp: at_unit_def wire_ok_def unit_view_def)
    moreover have "reviewed ss g (?f k now w)"
      using upsert_reviewed(1) [where item = "review_of ss k (unix_ts now) p translated q"] assms(2)
      by (simp add: reviewed_def review_of_def)
    ultimately show ?thesis using assms(1) by (intro reviewed_finished)
  qed
  then have stmt: "hoare ?L (update_stmt (?f k)) (\<lambda>_. ?F) ?L" for k
    by (intro hoareI) (auto simp: update_stmt_def execute_def split: if_splits)
  note doc = hoare_seq [OF stmt hoare_weak [OF hoare_lease finished_linked]]
  show ?thesis
    unfolding park_packet_def update_doc_def
    by (rule hoare_bind [OF hoare_fresh_id], rule hoare_seq [OF doc hoare_report])
qed

lemma delivered_cases:
  "hoare (at_unit strict ss g (finished ss g)) k Q (at_unit strict ss g (linked ss g)) \<Longrightarrow>
    hoare (at_unit strict ss g (delivered ss g r)) (if \<not> sr_success r then fail TargetRefused else k) Q (at_unit strict ss g (linked ss g))"
  by (cases "sr_success r")
    (auto simp: delivered_def finished_def intro!: hoare_fail elim!: hoare_pre at_unit_mono)

lemma hoare_inner:
  assumes "ship_laws ss" "en_guid p = g" "strict \<Longrightarrow> \<not> parks_in_review_inbox (ss_pair ss)"
  shows "hoare (at_unit strict ss g (opened ss g found)) (ship_one_packet_inner ss p found)
    (\<lambda>_. at_unit strict ss g (finished ss g)) (at_unit strict ss g (linked ss g))"
proof -
  let ?L = "at_unit strict ss g (linked ss g)"
  have guid: "en_guid (relay_packet_for_target k p (ss_pair ss) t m f) = g" for k t m f
    by (simp add: relay_packet_for_target_def Let_def assms(2))
  have tail: "hoare (at_unit strict ss g (finished ss g))
      (seq unit_lease (seq (confirm_configured_source ss q r)
        (seq (report (\<lambda>rp. rp\<lparr>rp_synced := rp_synced rp + 1\<rparr>))
             (update_pair_state (\<lambda>now st. put_known (en_guid p) (known_of p r now) st)))))
      (\<lambda>_. at_unit strict ss g (finished ss g)) ?L" if "en_guid q = g" for q r
    by (intro hoare_seq [OF hoare_weak [OF hoare_lease finished_linked]]
        hoare_seq [OF hoare_weak [OF hoare_confirm_source [OF that] finished_linked]]
        hoare_seq [OF hoare_report] hoare_weak [OF hoare_pair_state finished_linked])
  have deliver: "hoare (at_unit strict ss g (frozen_with ss g q (saved_receipt found) (phase_of found)))
      (bind (packet_result ss (en_guid p) q found) (\<lambda>r.
         if \<not> sr_success r then fail TargetRefused
         else seq unit_lease (seq (confirm_configured_source ss q r)
          (seq (report (\<lambda>rp. rp\<lparr>rp_synced := rp_synced rp + 1\<rparr>))
               (update_pair_state (\<lambda>now st. put_known (en_guid p) (known_of p r now) st))))))
      (\<lambda>_. at_unit strict ss g (finished ss g)) ?L" for q
  proof (rule hoare_assume)
    show "en_guid q = g" if "at_unit strict ss g (frozen_with ss g q (saved_receipt found) (phase_of found)) w" for w
      using that by (auto simp: at_unit_def frozen_with_def)
    assume q: "en_guid q = g"
    show ?thesis
      unfolding assms(2)
      by (rule hoare_bind [OF hoare_packet_result [OF assms(1) q] delivered_cases [OF tail [OF q, unfolded assms(2)]]])
  qed
  have park: "hoare (at_unit strict ss g (frozen_with ss g q (saved_receipt found) (phase_of found)))
      (park_packet ss p translated q) (\<lambda>_. at_unit strict ss g (finished ss g)) ?L"
    if "parks_in_review_inbox (ss_pair ss)" for q translated
    using that assms(3) by (intro hoare_pre [OF hoare_parked_unit [OF _ assms(2)]]) (auto elim!: at_unit_mono intro: frozen_linked)
  show ?thesis
    unfolding ship_one_packet_inner_def
    by (intro hoare_cases park deliver hoare_bind [OF hoare_weak [OF hoare_translate_packet [OF assms(1,2)] opened_linked]]
        hoare_bind [OF hoare_weak [OF hoare_transfer_media [OF assms(1,2)] opened_linked]]
        hoare_bind [OF hoare_relayed [OF assms(1,2) guid]])
qed

lemma hoare_tombstone_inner:
  assumes "ship_laws ss" "en_guid p = g"
  shows "hoare (at_unit strict ss g (opened ss g found)) (ship_tombstone_inner ss p found)
    (\<lambda>_. at_unit strict ss g (finished ss g)) (at_unit strict ss g (linked ss g))"
proof -
  let ?L = "at_unit strict ss g (linked ss g)" and ?F = "\<lambda>q. at_unit strict ss g (frozen_with ss g q (saved_receipt found) (phase_of found))"
  have "hoare (?F q) (if pk_action q \<noteq> pk_action p \<or> en_guid q \<noteq> en_guid p then fail ScopeChanged
      else bind (tombstone_result ss (en_guid p) q found) (\<lambda>r. if \<not> sr_success r then fail TargetRefused else ret ()))
      (\<lambda>_. at_unit strict ss g (finished ss g)) ?L" for q
  proof (cases "pk_action q \<noteq> pk_action p \<or> en_guid q \<noteq> en_guid p")
    case True
    then show ?thesis by (auto intro!: hoare_fail elim!: at_unit_mono intro: frozen_linked)
  next
    case False
    then have q: "en_guid q = g" using assms(2) by simp
    have "hoare (at_unit strict ss g (finished ss g)) (ret ()) (\<lambda>_. at_unit strict ss g (finished ss g)) ?L" by (rule hoare_ret)
    from hoare_bind [OF hoare_tombstone_result [OF assms(1) q] delivered_cases [OF this]] False
    show ?thesis by (simp add: assms(2))
  qed
  then show ?thesis
    unfolding ship_tombstone_inner_def by (rule hoare_bind [OF hoare_relayed [OF assms(1,2) assms(2)]])
qed

section \<open>Every shipment keeps the protocol\<close>

lemma hoare_admit:
  assumes "ship_laws ss"
  shows "hoare (at_unit strict ss g (\<lambda>e st. linked ss g e st \<and> view_matches found e))
    (with_nonce ss (\<lambda>k. on_db (begin_shipping_scoped (ss_codec ss) k (pair_key ss) g scope)))
    (\<lambda>_. at_unit strict ss g (opened ss g found)) (at_unit strict ss g (linked ss g))"
proof (rule hoare_with_nonce [OF assms])
  fix k :: bytes assume "length k = 12"
  then have "hoare (at_unit strict ss g (\<lambda>e st. linked ss g e st \<and> view_matches found e))
      (on_db (sync_step (ss_codec ss) (Admit k (pair_key ss) g scope)))
      (\<lambda>_. at_unit strict ss g (opened ss g found)) (at_unit strict ss g (\<lambda>e st. linked ss g e st \<and> view_matches found e))"
    using opened_after_admission by (intro hoare_sync [OF assms]) (auto simp: good_nonces_def)
  then have "hoare (at_unit strict ss g (\<lambda>e st. linked ss g e st \<and> view_matches found e))
      (on_db (begin_shipping_scoped (ss_codec ss) k (pair_key ss) g scope))
      (\<lambda>_. at_unit strict ss g (opened ss g found)) (at_unit strict ss g (\<lambda>e st. linked ss g e st \<and> view_matches found e))"
    by simp
  from hoare_weak [OF this]
  show "hoare (at_unit strict ss g (\<lambda>e st. linked ss g e st \<and> view_matches found e))
      (on_db (begin_shipping_scoped (ss_codec ss) k (pair_key ss) g scope))
      (\<lambda>_. at_unit strict ss g (opened ss g found)) (at_unit strict ss g (linked ss g))" by blast
qed

lemma hoare_close:
  assumes "ship_laws ss"
  shows "hoare (at_unit strict ss g (finished ss g)) (on_db (close_shipping (ss_codec ss) (pair_key ss) g))
    (\<lambda>_. at_unit strict ss g (linked ss g)) (at_unit strict ss g (linked ss g))"
proof -
  have "hoare (at_unit strict ss g (finished ss g)) (on_db (sync_step (ss_codec ss) (Close (pair_key ss) g)))
    (\<lambda>_. at_unit strict ss g (linked ss g)) (at_unit strict ss g (finished ss g))"
    by (rule hoare_sync [OF assms]) (auto simp: good_nonces_def unit_steps finished_def linked_def)
  from hoare_weak [OF this finished_linked] show ?thesis by simp
qed

lemma hoare_note:
  assumes "ship_laws ss"
  shows "hoare (at_unit strict ss g (linked ss g)) (on_db (note_error (pair_key ss) g snippet))
    (\<lambda>_. at_unit strict ss g (linked ss g)) (at_unit strict ss g (linked ss g))"
proof -
  have "hoare (at_unit strict ss g (linked ss g)) (on_db (sync_step (ss_codec ss) (Failed (pair_key ss) g snippet)))
    (\<lambda>_. at_unit strict ss g (linked ss g)) (at_unit strict ss g (linked ss g))"
    by (rule hoare_sync [OF assms]) (auto simp: good_nonces_def unit_steps)
  then show ?thesis by simp
qed

lemma hoare_ship_unit:
  assumes "ship_laws ss" "en_guid p = g"
    "\<And>found. hoare (at_unit strict ss g (opened ss g found)) (inner found) (\<lambda>_. at_unit strict ss g (finished ss g)) (at_unit strict ss g (linked ss g))"
  shows "hoare (protocol_inv strict ss) (ship_unit ss translator p inner) (\<lambda>_. protocol_inv strict ss) (protocol_inv strict ss)"
proof -
  let ?L = "at_unit strict ss g (linked ss g)"
  let ?R = "\<lambda>result w. case result of Inl _ \<Rightarrow> ?L w | Inr _ \<Rightarrow> at_unit strict ss g (finished ss g) w"
  let ?M = "\<lambda>found. at_unit strict ss g (\<lambda>e st. linked ss g e st \<and> view_matches found e)"
  have lease: "hoare (?R result) unit_lease (\<lambda>_. ?R result) ?L" for result
    by (cases result) (use hoare_weak [OF hoare_lease finished_linked] hoare_lease in simp_all)
  have last: "hoare (?R result) (case result of
       Inr u \<Rightarrow> on_db (close_shipping (ss_codec ss) (pair_key ss) g)
     | Inl e \<Rightarrow> seq (on_db (note_error (pair_key ss) g (ss_describe ss e))) (fail e)) (\<lambda>_. ?L) ?L" for result
  proof (cases result)
    case (Inl e)
    have "hoare ?L (fail e) (\<lambda>_. ?L) ?L" by (rule hoare_fail)
    from hoare_seq [OF hoare_note [OF assms(1)] this] Inl show ?thesis by simp
  qed (use hoare_close [OF assms(1)] in simp)
  have check: "hoare (?M found) (case found of None \<Rightarrow> ret () | Some r \<Rightarrow> ensure (b r) ScopeChanged) (\<lambda>_. ?M found) ?L" for found b
    by (auto intro!: hoare_ret hoare_ensure elim!: at_unit_mono split: option.split)
  have "hoare ?L (ship_unit ss translator p inner) (\<lambda>_. ?L) ?L"
    unfolding ship_unit_def Let_def assms(2)
    by (intro hoare_seq [OF hoare_lease] hoare_bind [OF hoare_find] hoare_seq [OF check]
        hoare_seq [OF hoare_admit [OF assms(1)]] hoare_bind [OF hoare_attempt [OF assms(3)]] hoare_seq [OF lease] last)
  then show ?thesis by (simp add: protocol_inv_at [of strict ss _ g, abs_def])
qed

datatype ship_op = ShipPacket sync_packet | ShipTombstone sync_packet

fun ship_step :: "session \<Rightarrow> ship_op \<Rightarrow> unit shipping" where
  "ship_step ss (ShipPacket p) = ship_one_packet ss p"
| "ship_step ss (ShipTombstone p) = ship_tombstone_packet ss p"

lemma hoare_ship_step:
  assumes "ship_laws ss" "strict \<Longrightarrow> \<not> parks_in_review_inbox (ss_pair ss)"
  shows "hoare (protocol_inv strict ss) (ship_step ss x) (\<lambda>_. protocol_inv strict ss) (protocol_inv strict ss)"
proof (cases x)
  case (ShipPacket p)
  with hoare_ship_unit [OF assms(1) refl hoare_inner [OF assms(1) refl assms(2)]] show ?thesis
    by (simp add: ship_one_packet_def)
next
  case (ShipTombstone p)
  with hoare_ship_unit [OF assms(1) refl hoare_tombstone_inner [OF assms(1) refl]] show ?thesis
    by (auto simp: ship_tombstone_packet_def intro: hoare_fail)
qed

lemma protocol_run:
  assumes "ship_laws ss" "strict \<Longrightarrow> \<not> parks_in_review_inbox (ss_pair ss)" "protocol_inv strict ss w"
  shows "protocol_inv strict ss (run_ops (ship_step ss) env ops n w)"
  using assms(3)
proof (induction ops arbitrary: n w)
  case (Cons x ops)
  obtain r n' w' where run: "ship_step ss x env n w = (r, n', w')" by (metis prod_cases3)
  from hoareD [OF hoare_ship_step [OF assms(1,2)] Cons.prems run] have "protocol_inv strict ss w'"
    by (cases r) simp_all
  with Cons.IH run show ?case by simp
qed simp

lemma protocol_start: "w_trace w = [] \<Longrightarrow> inflight (w_db w) = [] \<Longrightarrow> protocol_inv strict ss w"
  by (auto simp: protocol_inv_def sync_inv_def unit_keys_def wire_ok_def unit_view_def evidence_def linked_def settled_def
      tracks_def intro!: exI [of _ Quiet])

section \<open>What an accepted trace says\<close>

lemma wire_run_append:
  "wire_run ss g (a @ b) = foldl (\<lambda>st c. case st of None \<Rightarrow> None | Some s \<Rightarrow> wire_step ss s c) (wire_run ss g a)
     (filter (\<lambda>c. call_guid c = g) b)"
  by (simp add: wire_run_def)

text \<open>The fate of a packet became known: its receipt, or the proof that there is none.\<close>

definition receipt_seen :: "session \<Rightarrow> sync_packet \<Rightarrow> call list \<Rightarrow> bool" where
  "receipt_seen ss p calls \<longleftrightarrow> (\<exists>a. ReceiptCall p a \<in> set calls \<and> proves_receipt ss p a)"

definition absence_seen :: "session \<Rightarrow> sync_packet \<Rightarrow> call list \<Rightarrow> bool" where
  "absence_seen ss p calls \<longleftrightarrow> (\<exists>a. ReceiptCall p a \<in> set calls \<and> proves_absence ss p a)"

definition pushes :: "string \<Rightarrow> call list \<Rightarrow> bool" where
  "pushes g calls \<longleftrightarrow> (\<exists>q a. PushCall q a \<in> set calls \<and> en_guid q = g)"

text \<open>
  Why the protocol needs the exception: when a submitted row of an unfinished delivery is found and the pair now parks, the
  packet is parked, no receipt is asked for, and the success of the inner computation closes the row.
\<close>

lemma bind_ret: "bind (ret a) f = f a"
  by (simp add: fun_eq_iff bind_def ret_def)

lemma submitted_unit_parked:
  assumes "parks_in_review_inbox (ss_pair ss)" "plan_sync_fields (ss_pair ss) = []" "pk_manifest p = []"
    "was_submitted found" "ss_read ss (saved_packet found) = Some q"
  shows "ship_one_packet_inner ss p found = park_packet ss p (saved_translation found) q"
proof -
  have "saved_packet found \<noteq> []" using assms(4) by (auto simp: was_submitted_def saved_packet_def split: option.splits)
  with assms show ?thesis
    by (simp add: ship_one_packet_inner_def translate_packet_def relayed_packet_def bind_ret)
qed

lemma wire_after_sent:
  assumes "wire_run ss g (calls @ PushCall p a # later) \<noteq> None" "en_guid p = g" "\<not> pushes g later"
    "\<not> proves_receipt ss p a" "\<not> receipt_seen ss p later"
  shows "wire_run ss g (calls @ PushCall p a # later) = Some (Sent p)
    \<or> wire_run ss g (calls @ PushCall p a # later) = Some (Absent p) \<and> absence_seen ss p later"
  using assms
proof (induction later rule: rev_induct)
  case Nil
  then show ?case by (auto simp: wire_run_snoc split: option.splits if_splits)
next
  case (snoc c later)
  let ?pre = "calls @ PushCall p a # later"
  have ok: "wire_run ss g ?pre \<noteq> None"
    using snoc.prems(1) wire_run_prefix [of ss g ?pre "[c]"] by simp
  have IH: "wire_run ss g ?pre = Some (Sent p) \<or> wire_run ss g ?pre = Some (Absent p) \<and> absence_seen ss p later"
    using snoc ok by (auto simp: pushes_def receipt_seen_def)
  have run: "wire_run ss g (calls @ PushCall p a # later @ [c])
      = (if call_guid c = g then (case wire_run ss g ?pre of None \<Rightarrow> None | Some s \<Rightarrow> wire_step ss s c) else wire_run ss g ?pre)"
    using wire_run_snoc [of ss g ?pre c] by simp
  have seen: "absence_seen ss p later \<Longrightarrow> absence_seen ss p (later @ [c])" by (auto simp: absence_seen_def)
  show ?case
  proof (cases "call_guid c = g")
    case False
    with run IH seen show ?thesis by auto
  next
    case True
    show ?thesis
    proof (cases c)
      case (PushCall q b)
      with True snoc.prems(3) show ?thesis by (auto simp: pushes_def)
    next
      case (ReceiptCall q b)
      with True run IH snoc.prems(1,5) seen show ?thesis
        by (auto simp: may_ask_def settled_def receipt_seen_def absence_seen_def split: if_splits)
    qed (use True run IH seen in auto)
  qed
qed

text \<open>Two pushes of one unit in an accepted trace.\<close>

lemma known_fate:
  assumes "wire_run ss (en_guid p) calls \<noteq> None"
    "calls = before @ PushCall p a # between @ PushCall q b # after"
    "en_guid q = en_guid p" "\<not> pushes (en_guid p) between"
  shows "proves_receipt ss p a \<or> receipt_seen ss p between \<or> (q = p \<and> absence_seen ss p between)"
proof (rule ccontr)
  assume contra: "\<not> ?thesis"
  let ?g = "en_guid p" and ?pre = "before @ PushCall p a # between"
  have ok: "wire_run ss ?g (?pre @ PushCall q b # after) \<noteq> None" using assms(1,2) by simp
  have ok1: "wire_run ss ?g (?pre @ [PushCall q b]) \<noteq> None"
    using wire_run_prefix [of ss ?g "?pre @ [PushCall q b]" after] ok by simp
  have "wire_run ss ?g ?pre \<noteq> None" using wire_run_prefix [OF ok] .
  from wire_after_sent [OF this refl assms(4)] contra
  have "wire_run ss ?g ?pre = Some (Sent p) \<or> wire_run ss ?g ?pre = Some (Absent p) \<and> q \<noteq> p" by auto
  with ok1 assms(3) show False
    unfolding wire_run_snoc by (auto simp: may_push_def settled_def split: if_splits)
qed

end
