(* ===== verification/SyncRun.thy ===== *)
theory SyncRun
  imports ShipProtocol
begin

text \<open>
  A run over a pair of sites: \<open>sync_pair_run\<close> of \<open>sync_engine/discoverer.rs\<close>, with the calls to the source of
  \<open>sync_engine/shipper.rs\<close> and the rotation of \<open>sync_engine/state.rs\<close>. The run scans the digest of the source in
  pages above the saved cursor, pulls and ships what changed, sends tombstones for what was trashed, moves the cursor
  over the unbroken run of items that converged, and then checks a slice of the known entities against the source.

  The scan is a \<open>loop\<close>; here it has fuel, and the result says when the fuel ran out. \<open>sync_pair_run_ends\<close> shows that
  one round for every id there can be is enough.
\<close>

section \<open>What a run is given\<close>

text \<open>
  \<open>rn_ship\<close> is the session of the shipments, whose pair is replaced by the pair of the run; then what the run finds
  about credentials, the HTTP clients and the database, the identity of the source, and the answers of the source.
\<close>

record run_inputs =
  rn_ship :: session
  rn_source_paired :: bool
  rn_target_paired :: bool
  rn_secrets_read :: bool
  rn_clients_build :: bool
  rn_db_opens :: bool
  rn_source_uuid :: string
  rn_site_url :: string
  rn_digest :: "nat \<Rightarrow> digest_item list answer option"
  rn_pull :: "nat \<Rightarrow> sync_packet list answer option"
  rn_reconcile :: "nat \<Rightarrow> (string, string) fmap answer option"

definition DIGEST_PAGE_SIZE :: nat where "DIGEST_PAGE_SIZE = 100"
definition PULL_BATCH_SIZE :: nat where "PULL_BATCH_SIZE = 50"
definition RECONCILE_BATCH_SIZE :: nat where "RECONCILE_BATCH_SIZE = 200"

section \<open>Calls to the source\<close>

text \<open>The items of a digest come in the order of their local ids, above the cursor, each entity once.\<close>

fun digest_order :: "nat \<Rightarrow> string list \<Rightarrow> digest_item list \<Rightarrow> bool" where
  "digest_order previous seen [] = True"
| "digest_order previous seen (i # items) =
     (trim (di_uuid i) \<noteq> [] \<and> trim (di_fingerprint i) \<noteq> [] \<and> 0 < di_clock i \<and> previous < di_local_id i
      \<and> di_uuid i \<notin> set seen \<and> digest_order (di_local_id i) (di_uuid i # seen) items)"

text \<open>The types of the fields bound the numbers; serde refuses the others.\<close>

definition digest_typed :: "digest_item list \<Rightarrow> bool" where
  "digest_typed items \<longleftrightarrow> list_all (\<lambda>i. di_local_id i \<le> u64_max \<and> di_clock i \<le> u64_max) items"

definition fetch_digest :: "run_inputs \<Rightarrow> nat \<Rightarrow> digest_item list shipping" where
  "fetch_digest rn cursor =
     bind (call_out (DigestCall cursor) (rn_digest rn)) (\<lambda>a.
     case a of
       Refused code \<Rightarrow> fail ForeignAnswer
     | Unreadable \<Rightarrow> fail DamagedRow
     | Given items \<Rightarrow>
         seq (ensure (digest_typed items) DamagedRow)
        (seq (ensure (length items \<le> DIGEST_PAGE_SIZE) ForeignAnswer)
        (seq (ensure (digest_order cursor [] items) ForeignAnswer)
             (ret items))))"

definition pulled_packet_ok :: "string list \<Rightarrow> sync_packet \<Rightarrow> bool" where
  "pulled_packet_ok uuids p \<longleftrightarrow> en_guid p \<in> set uuids \<and> pk_schema p = PACKET_SCHEMA_VERSION \<and> trim (pk_id p) \<noteq> []
     \<and> trim (pk_fingerprint p) \<noteq> [] \<and> trim (og_site_uuid p) \<noteq> [] \<and> pk_action p \<in> {''upsert'', ''trash'', ''delete''}"

definition pull_packets :: "run_inputs \<Rightarrow> string list \<Rightarrow> sync_packet list shipping" where
  "pull_packets rn uuids =
     bind (call_out (PullCall uuids) (rn_pull rn)) (\<lambda>a.
     case a of
       Refused code \<Rightarrow> fail ForeignAnswer
     | Unreadable \<Rightarrow> fail DamagedRow
     | Given packets \<Rightarrow>
         seq (ensure (length packets \<le> length uuids) ForeignAnswer)
        (seq (ensure (list_all (pulled_packet_ok uuids) packets \<and> distinct (map en_guid packets)) ForeignAnswer)
        (seq (ensure (length packets = length uuids) ForeignAnswer)
             (ret packets))))"

definition verdict_names :: "string list" where
  "verdict_names = [''in_sync'', ''source_newer'', ''local_edited'', ''missing'']"

definition verdicts_ok :: "(string \<times> string \<times> nat) list \<Rightarrow> (string, string) fmap \<Rightarrow> bool" where
  "verdicts_ok fingerprints verdicts \<longleftrightarrow> fcard (fmdom verdicts) = length fingerprints
     \<and> list_all (\<lambda>f. case fmlookup verdicts (fst f) of None \<Rightarrow> False | Some v \<Rightarrow> v \<in> set verdict_names) fingerprints"

definition reconcile_fingerprints :: "run_inputs \<Rightarrow> (string \<times> string \<times> nat) list \<Rightarrow> (string, string) fmap shipping" where
  "reconcile_fingerprints rn fingerprints =
     bind (call_out (ReconcileCall fingerprints) (rn_reconcile rn)) (\<lambda>a.
     case a of
       Refused code \<Rightarrow> fail ForeignAnswer
     | Unreadable \<Rightarrow> fail DamagedRow
     | Given verdicts \<Rightarrow> seq (ensure (verdicts_ok fingerprints verdicts) ForeignAnswer) (ret verdicts))"

section \<open>Bookkeeping\<close>

definition empty_report :: run_report where
  "empty_report = \<lparr>rp_scanned = 0, rp_pulled = 0, rp_synced = 0, rp_pending = 0, rp_trashed = 0, rp_deleted = 0,
     rp_media = 0, rp_skipped = 0, rp_errors = 0, rp_last_error = None\<rparr>"

definition sync_run_is_total_failure :: "run_report \<Rightarrow> bool" where
  "sync_run_is_total_failure rp \<longleftrightarrow> rp_synced rp = 0 \<and> 0 < rp_errors rp"

definition record_item_error :: "db_error \<Rightarrow> unit shipping" where
  "record_item_error e = report (\<lambda>rp. rp\<lparr>rp_errors := rp_errors rp + 1,
     rp_last_error := (if rp_last_error rp = None then Some e else rp_last_error rp)\<rparr>)"

definition skipped_one :: "unit shipping" where
  "skipped_one = report (\<lambda>rp. rp\<lparr>rp_skipped := rp_skipped rp + 1\<rparr>)"

text \<open>The row of the pair in the pairs document, when it is still there.\<close>

fun change_pair :: "string \<Rightarrow> (sync_pair \<Rightarrow> sync_pair) \<Rightarrow> sync_pair list \<Rightarrow> sync_pair list" where
  "change_pair k f [] = []"
| "change_pair k f (p # ps) = (if sp_id p = k then f p # ps else p # change_pair k f ps)"

definition finish_with_error :: "sync_pair \<Rightarrow> db_error \<Rightarrow> unit shipping" where
  "finish_with_error pair e =
     seq (report (\<lambda>rp. rp\<lparr>rp_errors := rp_errors rp + 1, rp_last_error := Some e\<rparr>))
         (update_doc (\<lambda>now w. w\<lparr>w_pairs := change_pair (sp_id pair) (\<lambda>p. p\<lparr>sp_last_sync_at := Some (unix_ts now),
            sp_last_error := Some e, sp_updated_at := unix_ts now\<rparr>) (w_pairs w)\<rparr>))"

definition change_known :: "string \<Rightarrow> (known_entity \<Rightarrow> known_entity) \<Rightarrow> pair_state \<Rightarrow> pair_state" where
  "change_known uuid f st = st\<lparr>ps_known := map (\<lambda>(u, k). if u = uuid then (u, f k) else (u, k)) (ps_known st)\<rparr>"

definition save_cursor :: "nat \<Rightarrow> unit shipping" where
  "save_cursor safe = update_pair_state (\<lambda>now st. st\<lparr>ps_last_seen := safe\<rparr>)"

section \<open>The scan\<close>

text \<open>
  \<open>advance_safe_cursor_contiguous\<close>: the cursor moves over the converged items at the head of the page; the flag says
  that all of them converged.
\<close>

fun advance_safe_cursor_contiguous :: "(nat \<Rightarrow> bool option) \<Rightarrow> digest_item list \<Rightarrow> nat \<Rightarrow> nat \<times> bool" where
  "advance_safe_cursor_contiguous converged [] safe = (safe, True)"
| "advance_safe_cursor_contiguous converged (i # items) safe =
     (if converged (di_local_id i) = Some True
      then advance_safe_cursor_contiguous converged items (max safe (di_local_id i))
      else (safe, False))"

text \<open>What the page asks for: items to pull, to trash, and which ids have converged.\<close>

record page_work =
  pw_pull :: "(string \<times> nat) list"
  pw_trash :: "digest_item list"
  pw_converged :: "nat \<Rightarrow> bool option"

definition no_work :: page_work where
  "no_work = \<lparr>pw_pull = [], pw_trash = [], pw_converged = (\<lambda>_. None)\<rparr>"

definition converge :: "nat \<Rightarrow> bool \<Rightarrow> page_work \<Rightarrow> page_work" where
  "converge k b pw = pw\<lparr>pw_converged := (pw_converged pw)(k \<mapsto> b)\<rparr>"

definition sort_item ::
  "session \<Rightarrow> (string \<times> known_entity) list \<Rightarrow> review_item list \<Rightarrow> digest_item \<Rightarrow> page_work \<Rightarrow> page_work shipping" where
  "sort_item ss known items i pw =
     (if has_pending_uuid items (pair_key ss) (di_uuid i)
      then seq skipped_one (ret (converge (di_local_id i) True pw))
      else case map_of known (di_uuid i) of
        Some k \<Rightarrow>
          if kn_fingerprint k = di_fingerprint i then seq skipped_one (ret (converge (di_local_id i) True pw))
          else if di_status i = ''trash'' \<and> kn_post_status k \<noteq> ''trash'' then
            if kn_rejected k \<and> kn_shipped_at k = 0
            then seq skipped_one
                (seq (update_pair_state (\<lambda>now. drop_known (di_uuid i)))
                     (ret (converge (di_local_id i) True pw)))
            else ret (pw\<lparr>pw_trash := pw_trash pw @ [i]\<rparr>)
          else ret (pw\<lparr>pw_pull := pw_pull pw @ [(di_uuid i, di_local_id i)]\<rparr>)
      | None \<Rightarrow>
          if di_status i = ''trash'' then seq skipped_one (ret (converge (di_local_id i) True pw))
          else ret (pw\<lparr>pw_pull := pw_pull pw @ [(di_uuid i, di_local_id i)]\<rparr>))"

primrec sort_items ::
  "session \<Rightarrow> (string \<times> known_entity) list \<Rightarrow> review_item list \<Rightarrow> digest_item list \<Rightarrow> page_work \<Rightarrow> page_work shipping" where
  "sort_items ss known items [] pw = ret pw"
| "sort_items ss known items (i # rest) pw = bind (sort_item ss known items i pw) (sort_items ss known items rest)"

text \<open>An item of a batch converged or did not.\<close>

definition mark_unit :: "(string \<times> nat) list \<Rightarrow> string \<Rightarrow> bool \<Rightarrow> page_work \<Rightarrow> page_work" where
  "mark_unit batch guid b pw = (case map_of batch guid of None \<Rightarrow> pw | Some k \<Rightarrow> converge k b pw)"

primrec ship_packets :: "session \<Rightarrow> (string \<times> nat) list \<Rightarrow> sync_packet list \<Rightarrow> page_work \<Rightarrow> page_work shipping" where
  "ship_packets ss batch [] pw = ret pw"
| "ship_packets ss batch (p # ps) pw =
     bind (attempt (ship_one_packet ss p)) (\<lambda>r.
     case r of
       Inr u \<Rightarrow> ship_packets ss batch ps (mark_unit batch (en_guid p) True pw)
     | Inl e \<Rightarrow> seq (record_item_error e) (ship_packets ss batch ps (mark_unit batch (en_guid p) False pw)))"

text \<open>\<open>chunks(n)\<close>.\<close>

function chunks_of :: "nat \<Rightarrow> 'a list \<Rightarrow> 'a list list" where
  "chunks_of n xs = (if xs = [] \<or> n = 0 then [] else take n xs # chunks_of n (drop n xs))"
  by pat_completeness auto
termination by (relation "measure (length \<circ> snd)") auto

declare chunks_of.simps [simp del]

primrec ship_batches :: "run_inputs \<Rightarrow> session \<Rightarrow> (string \<times> nat) list list \<Rightarrow> page_work \<Rightarrow> page_work shipping" where
  "ship_batches rn ss [] pw = ret pw"
| "ship_batches rn ss (batch # batches) pw =
     bind (attempt (pull_packets rn (map fst batch))) (\<lambda>r.
     case r of
       Inl e \<Rightarrow> seq (record_item_error e) (ret pw)
     | Inr packets \<Rightarrow>
         seq (report (\<lambda>rp. rp\<lparr>rp_pulled := rp_pulled rp + length packets\<rparr>))
        (bind (ship_packets ss batch packets pw) (ship_batches rn ss batches)))"

text \<open>A tombstone of the source; it has an identifier and a time of its own.\<close>

definition tombstone_of :: "run_inputs \<Rightarrow> session \<Rightarrow> string \<Rightarrow> string \<Rightarrow> nat \<Rightarrow> nat \<Rightarrow> string \<Rightarrow> sync_packet shipping" where
  "tombstone_of rn ss uuid subtype source_id clk action =
     bind (fresh_id ss) (\<lambda>k. bind now_ts (\<lambda>now.
     ret (build_tombstone_packet (sx_crates (ss_codec ss)) k (unix_ts now) uuid subtype source_id (rn_source_uuid rn) clk
       action (rn_site_url rn) (sp_source_lang (ss_pair ss)) (sp_target_lang (ss_pair ss)))))"

primrec trash_items :: "run_inputs \<Rightarrow> session \<Rightarrow> digest_item list \<Rightarrow> page_work \<Rightarrow> page_work shipping" where
  "trash_items rn ss [] pw = ret pw"
| "trash_items rn ss (i # items) pw =
     bind (tombstone_of rn ss (di_uuid i) (di_type i) (di_local_id i) (di_clock i) ''trash'') (\<lambda>t.
     bind (attempt (ship_tombstone_packet ss t)) (\<lambda>r.
     case r of
       Inr u \<Rightarrow>
         seq (report (\<lambda>rp. rp\<lparr>rp_trashed := rp_trashed rp + 1\<rparr>))
        (seq (update_pair_state (\<lambda>now. change_known (di_uuid i) (\<lambda>k. k\<lparr>kn_post_status := di_status i,
               kn_fingerprint := di_fingerprint i, kn_clock := di_clock i\<rparr>)))
             (trash_items rn ss items (converge (di_local_id i) True pw)))
     | Inl e \<Rightarrow> seq (record_item_error e) (trash_items rn ss items pw)))"

text \<open>One page: sort, save the cursor, ship, trash, save the cursor. The result is the cursor and whether it is blocked.\<close>

definition scan_page :: "run_inputs \<Rightarrow> session \<Rightarrow> digest_item list \<Rightarrow> nat \<Rightarrow> bool \<Rightarrow> (nat \<times> bool) shipping" where
  "scan_page rn ss items safe blocked =
     seq (report (\<lambda>rp. rp\<lparr>rp_scanned := rp_scanned rp + length items\<rparr>))
    (bind (query (\<lambda>w. ps_known (w_state w))) (\<lambda>known.
     bind (query w_review) (\<lambda>reviews.
     bind (sort_items ss known reviews items no_work) (\<lambda>pw.
     let safe1 = (if blocked then safe else fst (advance_safe_cursor_contiguous (pw_converged pw) items safe)) in
     seq (save_cursor safe1)
    (bind (ship_batches rn ss (chunks_of PULL_BATCH_SIZE (pw_pull pw)) pw) (\<lambda>pw2.
     bind (trash_items rn ss (pw_trash pw2) pw2) (\<lambda>pw3.
     let moved = advance_safe_cursor_contiguous (pw_converged pw3) items safe1;
         safe2 = (if blocked then safe1 else fst moved) in
     seq (save_cursor safe2) (ret (safe2, blocked \<or> \<not> snd moved)))))))))"

datatype scan_end = OutOfFuel | RunOver | Scanned nat

primrec scan_pages :: "run_inputs \<Rightarrow> session \<Rightarrow> nat \<Rightarrow> nat \<Rightarrow> nat \<Rightarrow> bool \<Rightarrow> scan_end shipping" where
  "scan_pages rn ss 0 cursor safe blocked = ret OutOfFuel"
| "scan_pages rn ss (Suc fuel) cursor safe blocked =
     bind (attempt (fetch_digest rn cursor)) (\<lambda>r.
     case r of
       Inl e \<Rightarrow> seq (finish_with_error (ss_pair ss) e) (ret RunOver)
     | Inr items \<Rightarrow>
         if items = [] then ret (Scanned safe)
         else
           bind (scan_page rn ss items safe blocked) (\<lambda>(safe', blocked').
           if length items < DIGEST_PAGE_SIZE then ret (Scanned safe')
           else scan_pages rn ss fuel (foldl max cursor (map di_local_id items)) safe' blocked'))"

section \<open>The rotation\<close>

text \<open>\<open>reconcile_batch\<close>: the cursor is an index into the sorted identifiers.\<close>

definition known_uuids :: "pair_state \<Rightarrow> string list" where
  "known_uuids st = sort (remdups (map fst (ps_known st)))"

definition reconcile_batch :: "pair_state \<Rightarrow> known_entity list \<times> nat" where
  "reconcile_batch st =
     (let uuids = known_uuids st in
      if uuids = [] then ([], 0)
      else
        let start = min (ps_reconcile_cursor st) (length uuids - 1);
            stop = min (start + RECONCILE_BATCH_SIZE) (length uuids)
        in (List.map_filter (map_of (ps_known st)) (take (stop - start) (drop start uuids)),
            if length uuids \<le> stop then 0 else stop))"

primrec reship :: "session \<Rightarrow> sync_packet list \<Rightarrow> unit shipping" where
  "reship ss [] = ret ()"
| "reship ss (p # ps) =
     bind (attempt (ship_one_packet ss p)) (\<lambda>r.
     seq (case r of Inr u \<Rightarrow> ret () | Inl e \<Rightarrow> record_item_error e) (reship ss ps))"

definition entity_missing :: "run_inputs \<Rightarrow> session \<Rightarrow> known_entity \<Rightarrow> unit shipping" where
  "entity_missing rn ss k =
     (if kn_rejected k \<and> kn_shipped_at k = 0
      then seq skipped_one (update_pair_state (\<lambda>now. drop_known (kn_uuid k)))
      else
        bind (tombstone_of rn ss (kn_uuid k) (kn_post_type k) (case kn_target_id k of None \<Rightarrow> 0 | Some t \<Rightarrow> t)
                (kn_clock k) ''delete'') (\<lambda>t.
        bind (attempt (ship_tombstone_packet ss t)) (\<lambda>r.
        case r of
          Inr u \<Rightarrow> seq (report (\<lambda>rp. rp\<lparr>rp_deleted := rp_deleted rp + 1\<rparr>))
                       (update_pair_state (\<lambda>now. drop_known (kn_uuid k)))
        | Inl e \<Rightarrow> record_item_error e)))"

definition entity_newer :: "run_inputs \<Rightarrow> session \<Rightarrow> known_entity \<Rightarrow> unit shipping" where
  "entity_newer rn ss k =
     bind (query w_review) (\<lambda>reviews.
     if has_pending_uuid reviews (pair_key ss) (kn_uuid k) then skipped_one
     else
       bind (attempt (pull_packets rn [kn_uuid k])) (\<lambda>r.
       case r of
         Inl e \<Rightarrow> record_item_error e
       | Inr packets \<Rightarrow> if packets = [] then record_item_error NoRows else reship ss packets))"

primrec apply_verdicts :: "run_inputs \<Rightarrow> session \<Rightarrow> (string, string) fmap \<Rightarrow> known_entity list \<Rightarrow> unit shipping" where
  "apply_verdicts rn ss verdicts [] = ret ()"
| "apply_verdicts rn ss verdicts (k # ks) =
     seq (if fmlookup verdicts (kn_uuid k) = Some ''missing'' then entity_missing rn ss k
          else if fmlookup verdicts (kn_uuid k) = Some ''source_newer'' then entity_newer rn ss k
          else ret ())
         (apply_verdicts rn ss verdicts ks)"

definition reconcile_phase :: "run_inputs \<Rightarrow> session \<Rightarrow> unit shipping" where
  "reconcile_phase rn ss =
     bind (query w_state) (\<lambda>st.
     case reconcile_batch st of (batch, cursor) \<Rightarrow>
       if batch = [] then ret ()
       else
         seq (bind (attempt (reconcile_fingerprints rn (map (\<lambda>k. (kn_uuid k, kn_fingerprint k, kn_clock k)) batch))) (\<lambda>r.
              case r of
                Inl e \<Rightarrow> record_item_error e
              | Inr verdicts \<Rightarrow> apply_verdicts rn ss verdicts batch))
             (update_pair_state (\<lambda>now st'. st'\<lparr>ps_reconcile_cursor := cursor\<rparr>)))"

section \<open>The run\<close>

text \<open>The rows that are still in flight are only counted for the log; a failure to read them is an item error.\<close>

definition inflight_check :: "session \<Rightarrow> unit shipping" where
  "inflight_check ss =
     bind (attempt (on_db (list_pair_shipping (ss_codec ss) (pair_key ss)))) (\<lambda>r.
     case r of Inl e \<Rightarrow> record_item_error e | Inr rows \<Rightarrow> ret ())"

text \<open>The count is a \<open>u32\<close>, which wraps in a release build.\<close>

definition finish_run :: "sync_pair \<Rightarrow> nat \<Rightarrow> unit shipping" where
  "finish_run pair safe = update_doc (\<lambda>now w.
     w\<lparr>w_pairs := change_pair (sp_id pair) (\<lambda>p. p\<lparr>sp_last_sync_at := Some (unix_ts now),
        sp_last_count := Some (((case sp_last_count p of None \<Rightarrow> 0 | Some c \<Rightarrow> c) + rp_synced (w_report w)) mod (u32_max + 1)),
        sp_last_error := rp_last_error (w_report w), sp_last_seen := Some safe, sp_updated_at := unix_ts now\<rparr>) (w_pairs w)\<rparr>)"

text \<open>
  Which runtime the shipments get: none when no field is translated; the last branch of the code, a translated
  field without a component, cannot be reached after the check for the default component.
\<close>

definition run_translator :: "sync_pair \<Rightarrow> bytes json option \<Rightarrow> db_error + bytes json option" where
  "run_translator pair translator =
     (if \<exists>row \<in> set (plan_sync_fields pair). pf_action row = TranslateField
      then
        if translate_component_required pair then Inl MissingComponent
        else (case translator of
            Some t \<Rightarrow> Inr (Some t)
          | None \<Rightarrow>
              if list_all (\<lambda>row. pf_action row \<noteq> TranslateField \<or> pf_component row \<noteq> []) (plan_sync_fields pair)
              then Inr None else Inl MissingComponent)
      else Inr None)"

definition sync_pair_run :: "run_inputs \<Rightarrow> nat \<Rightarrow> string \<Rightarrow> scan_end shipping" where
  "sync_pair_run rn fuel pair_id =
     bind (query (\<lambda>w. find (\<lambda>p. sp_id p = pair_id) (w_pairs w))) (\<lambda>found.
     case found of
       None \<Rightarrow> fail NoRows
     | Some pair \<Rightarrow>
         bind (query (\<lambda>w. ps_last_seen (w_state w))) (\<lambda>cursor.
         seq (if parks_in_review_inbox pair then query (\<lambda>w. ()) else ret ())
        (seq (report (\<lambda>_. empty_report))
        (if sp_status pair = PausedPair then ret RunOver
         else if \<not> rn_source_paired rn \<or> \<not> rn_target_paired rn
         then seq (finish_with_error pair MissingComponent) (ret RunOver)
         else if \<not> rn_secrets_read rn then fail KeyFailure
         else case run_translator pair (ss_translator (rn_ship rn)) of
           Inl e \<Rightarrow> seq (finish_with_error pair e) (ret RunOver)
         | Inr translator \<Rightarrow>
             let ss = (rn_ship rn)\<lparr>ss_pair := pair, ss_translator := translator\<rparr> in
             if \<not> rn_clients_build rn then fail KeyFailure
             else if \<not> rn_db_opens rn then seq (finish_with_error pair SqlFault) (ret RunOver)
             else
               bind (scan_pages rn ss fuel cursor cursor False) (\<lambda>scanned.
               case scanned of
                 Scanned safe \<Rightarrow>
                   seq (reconcile_phase rn ss)
                  (seq (inflight_check ss)
                  (seq (finish_run pair safe) (ret (Scanned safe))))
               | other \<Rightarrow> ret other)))))"

section \<open>The scan ends\<close>

lemma digest_order_ids:
  "digest_order c seen items \<Longrightarrow> i \<in> set items \<Longrightarrow> c < di_local_id i"
  by (induction c seen items rule: digest_order.induct) force+

lemma foldl_max_ge: "c \<le> foldl max c xs" for c :: nat
proof (induction xs arbitrary: c)
  case (Cons x xs)
  from Cons [of "max c x"] show ?case by simp
qed simp

lemma foldl_max_le: "x \<in> set xs \<Longrightarrow> x \<le> foldl max c xs" for x c :: nat
proof (induction xs arbitrary: c)
  case (Cons y ys)
  have "max c y \<le> foldl max (max c y) ys" by (rule foldl_max_ge)
  with Cons show ?case by auto
qed simp

lemma fetch_digest_Inr:
  "fetch_digest rn c env n w = (Inr items, n', w') \<longleftrightarrow>
     \<not> fault env n \<and> rn_digest rn n = Some (Given items) \<and> digest_typed items \<and> length items \<le> DIGEST_PAGE_SIZE
     \<and> digest_order c [] items \<and> n' = Suc n \<and> w' = w\<lparr>w_trace := w_trace w @ [DigestCall c (rn_digest rn n)]\<rparr>"
  by (auto simp: fetch_digest_def bind_def seq_def call_out_def ensure_def ret_def fail_def split: option.splits answer.splits)

lemma scan_pages_end:
  assumes "u64_max - cursor < fuel"
  shows "fst (scan_pages rn ss fuel cursor safe blocked env n w) \<noteq> Inr OutOfFuel"
  using assms
proof (induction fuel arbitrary: cursor safe blocked n w)
  case (Suc fuel)
  obtain r n1 w1 where fetch: "fetch_digest rn cursor env n w = (r, n1, w1)" by (metis prod_cases3)
  show ?case
  proof (cases r)
    case (Inl e)
    with fetch show ?thesis by (auto simp: bind_def attempt_def seq_def ret_def split: sum.splits prod.splits)
  next
    case (Inr items)
    show ?thesis
    proof (cases "items = []")
      case True
      with fetch Inr show ?thesis by (simp add: bind_def attempt_def ret_def)
    next
      case False
      obtain rp n2 w2 where page: "scan_page rn ss items safe blocked env n1 w1 = (rp, n2, w2)" by (metis prod_cases3)
      let ?c = "foldl max cursor (map di_local_id items)"
      from fetch Inr have ord: "digest_order cursor [] items" "digest_typed items" by (simp_all add: fetch_digest_Inr)
      from False obtain i where i: "i \<in> set items" by (cases items) auto
      with ord digest_order_ids have "cursor < di_local_id i" "di_local_id i \<le> u64_max"
        by (auto simp: digest_typed_def list_all_iff)
      moreover from i have "di_local_id i \<le> ?c" by (intro foldl_max_le) simp
      ultimately have "u64_max - ?c < fuel" using Suc.prems by linarith
      then have IH: "fst (scan_pages rn ss fuel ?c s b env m v) \<noteq> Inr OutOfFuel" for s b m v by (rule Suc.IH)
      show ?thesis
      proof (cases rp)
        case (Inl e)
        with fetch Inr page False show ?thesis by (simp add: bind_def attempt_def)
      next
        case (Inr sb)
        with fetch \<open>r = Inr items\<close> page False IH show ?thesis
          by (cases sb) (simp add: bind_def attempt_def ret_def)
      qed
    qed
  qed
qed simp

definition avoids :: "'a \<Rightarrow> 'a shipping \<Rightarrow> bool" where
  "avoids x m \<longleftrightarrow> (\<forall>env n w. fst (m env n w) \<noteq> Inr x)"

lemma avoids_bind: "(\<And>a. avoids x (f a)) \<Longrightarrow> avoids x (bind m f)"
  by (auto simp: avoids_def bind_def split: prod.splits sum.splits)

lemma avoids_bind_result:
  assumes "avoids y m" "\<And>a. a \<noteq> y \<Longrightarrow> avoids x (f a)"
  shows "avoids x (bind m f)"
  unfolding avoids_def
proof (intro allI)
  fix env n w
  obtain r n' w' where m: "m env n w = (r, n', w')" by (metis prod_cases3)
  show "fst (bind m f env n w) \<noteq> Inr x"
  proof (cases r)
    case (Inr a)
    with m assms(1) have "a \<noteq> y" unfolding avoids_def by (metis fst_conv)
    with assms(2) have "fst (f a env n' w') \<noteq> Inr x" by (simp add: avoids_def)
    with m Inr show ?thesis by (simp add: bind_def)
  qed (use m in \<open>simp add: bind_def\<close>)
qed

lemma avoids_seq: "avoids x k \<Longrightarrow> avoids x (seq m k)"
  unfolding seq_def by (rule avoids_bind)

lemma avoids_ret: "y \<noteq> x \<Longrightarrow> avoids x (ret y)" and avoids_fail: "avoids x (fail e)"
  by (simp_all add: avoids_def ret_def fail_def)

lemmas avoids_intros = avoids_bind avoids_seq avoids_ret avoids_fail

section \<open>A sample run\<close>

text \<open>
  The source reports an entity that is not known and trashed, and a known one that was trashed since; the target
  answers as the session of \<open>ShipSample\<close> says.
\<close>

definition gone_item :: digest_item where
  "gone_item = \<lparr>di_uuid = ''g'', di_fingerprint = ''f0'', di_clock = 1, di_local_id = 3, di_status = ''trash'', di_type = ''page''\<rparr>"

definition sample_item :: digest_item where
  "sample_item = \<lparr>di_uuid = ''u'', di_fingerprint = ''f2'', di_clock = 3, di_local_id = 5, di_status = ''trash'', di_type = ''page''\<rparr>"

definition sample_known :: known_entity where
  "sample_known = \<lparr>kn_uuid = ''u'', kn_fingerprint = ''f1'', kn_clock = 2, kn_post_type = ''page'', kn_post_status = ''publish'',
     kn_target_id = Some 9, kn_shipped_at = 1, kn_rejected = False\<rparr>"

definition sample_run :: "nat \<Rightarrow> run_inputs" where
  "sample_run k = \<lparr>rn_ship = sample_session k, rn_source_paired = True, rn_target_paired = True, rn_secrets_read = True,
     rn_clients_build = True, rn_db_opens = True, rn_source_uuid = ''o'', rn_site_url = ''x'',
     rn_digest = (\<lambda>n. Some (Given (if n < 10 then [gone_item, sample_item] else [sample_item]))),
     rn_pull = (\<lambda>_. None), rn_reconcile = (\<lambda>_. None)\<rparr>"

definition sample_world :: sync_world where
  "sample_world = \<lparr>w_pairs = [sample_pair], w_db = no_flight, w_review = [],
     w_state = \<lparr>ps_last_seen = 0, ps_reconcile_cursor = 0, ps_known = [(''u'', sample_known)], ps_updated_at = 0\<rparr>,
     w_report = empty_report, w_trace = []\<rparr>"

section \<open>Every run ends\<close>

text \<open>
  C35: Every run over a pair ends. The loop over the pages of the digest has no bound of its own, but a page that passes the
  checks has ids above the cursor, so whatever the source answers, and whatever fails, as many
  rounds as there are ids are enough and the fuel never runs out.
\<close>

theorem sync_pair_run_ends:
  assumes "u64_max < fuel"
  shows "fst (sync_pair_run rn fuel pair_id env n w) \<noteq> Inr OutOfFuel"
proof -
  have scan: "avoids OutOfFuel (bind (scan_pages rn ss fuel c c False) (\<lambda>scanned.
      case scanned of Scanned safe \<Rightarrow> seq (g safe) (seq (h safe) (seq (k safe) (ret (Scanned safe)))) | other \<Rightarrow> ret other))" for ss c g h k
    by (rule avoids_bind_result [of OutOfFuel])
      (use assms scan_pages_end [of c fuel] in \<open>auto simp: avoids_def [of OutOfFuel "scan_pages _ _ _ _ _ _"]
        split: scan_end.splits intro!: avoids_intros\<close>)
  have "avoids OutOfFuel (sync_pair_run rn fuel pair_id)"
    unfolding sync_pair_run_def Let_def
    by (intro avoids_bind) (auto intro!: avoids_intros scan split: option.splits sum.splits)
  then show ?thesis by (simp add: avoids_def)
qed

theorem sync_pair_run_ends_witness:
  "fst (sync_pair_run (sample_run 52) (Suc u64_max) ''p'' (calm 7) 0 sample_world) \<noteq> Inr OutOfFuel"
  by (rule sync_pair_run_ends) simp

end
