(* ===== verification/RunSample.thy ===== *)
theory RunSample
  imports SyncRun
begin

text \<open>
  Two sample runs of \<open>SyncRun\<close>. The first sends a tombstone and loses the answer; the cursor stops below the
  trashed entity. The second, at statement 38, asks the target, learns that the packet had no effect, and sends the same
  packet again.
\<close>

section \<open>The parts of a run\<close>

lemma sample_pair_fields:
  "sp_id sample_pair = ''p''" "sp_status sample_pair = ActivePair" "\<not> parks_in_review_inbox sample_pair"
  "plan_sync_fields sample_pair = []"
  by (simp_all add: sample_pair_def empty_pair_def parks_in_review_inbox_def plan_sync_fields_def)

lemma sample_tombstone_of:
  "tombstone_of (sample_run k) (sample_session k) ''u'' ''page'' 5 3 ''trash'' (calm 7) n w = (Inr sample_tombstone, n, w)"
  by (simp add: tombstone_of_def fresh_id_def now_ts_def bind_def ret_def sample_tombstone_def sample_run_def sample_session_def
      sample_pair_def unix_ts_def i64_max_def calm_def)

lemma sample_digest: 
  "n < 10 \<Longrightarrow> fetch_digest (sample_run k) 0 (calm 7) n w
    = (Inr [gone_item, sample_item], n + 1, w\<lparr>w_trace := w_trace w @ [DigestCall 0 (Some (Given [gone_item, sample_item]))]\<rparr>)"
  "10 \<le> n \<Longrightarrow> fetch_digest (sample_run k) 3 (calm 7) n w
    = (Inr [sample_item], n + 1, w\<lparr>w_trace := w_trace w @ [DigestCall 3 (Some (Given [sample_item]))]\<rparr>)"
  by (simp_all add: fetch_digest_Inr) (simp_all add: calm_def sample_run_def gone_item_def sample_item_def digest_typed_def
     u64_max_def DIGEST_PAGE_SIZE_def trim_def trim_by_def is_ws_def)

lemma sample_save: "save_cursor c (calm 7) n w
    = (Inr (), n + 2, w\<lparr>w_state := (w_state w)\<lparr>ps_last_seen := c, ps_updated_at := 7\<rparr>\<rparr>)"
  by (simp add: save_cursor_def update_pair_state_def update_doc_def seq_def bind_def update_stmt_def execute_def calm_lease)
     (simp add: calm_def unix_ts_def i64_max_def)

lemma sample_item_fields:
  "di_uuid sample_item = ''u''" "di_local_id sample_item = 5" "di_clock sample_item = 3" "di_type sample_item = ''page''"
  "di_local_id gone_item = 3"
  by (simp_all add: sample_item_def gone_item_def)

lemma sample_sort:
  "sort_items (sample_session k) [(''u'', sample_known)] [] [gone_item, sample_item] no_work (calm 7) n w
     = (Inr \<lparr>pw_pull = [], pw_trash = [sample_item], pw_converged = [3 \<mapsto> True]\<rparr>, n, 
         w\<lparr>w_report := (w_report w)\<lparr>rp_skipped := rp_skipped (w_report w) + 1\<rparr>\<rparr>)"
  "sort_items (sample_session k) [(''u'', sample_known)] [] [sample_item] no_work (calm 7) n w
     = (Inr \<lparr>pw_pull = [], pw_trash = [sample_item], pw_converged = (\<lambda>_. None)\<rparr>, n, w)"
  by (simp_all add: sort_item_def ret_def bind_def seq_def skipped_one_def report_def has_pending_uuid_def gone_item_def sample_item_def
     sample_known_def no_work_def converge_def)

lemma sample_query: "query f (calm 7) n w = (Inr (f w), n + 1, w)"
  by (simp add: query_def execute_def calm_def)

lemma sample_page:
  assumes "w_review w = []" "ps_known (w_state w) = [(''u'', sample_known)]"
    "\<And>v. w_db v = w_db w \<Longrightarrow> ship_tombstone_packet (sample_session k) sample_tombstone (calm 7) (Suc (Suc (Suc (Suc n)))) v
        = (Inl NoReply, m, v\<lparr>w_db := d, w_trace := w_trace v @ calls\<rparr>)"
    "items = [gone_item, sample_item] \<and> c = 0 \<or> items = [sample_item] \<and> c = 3"
  shows "\<exists>w'. scan_page (sample_run k) (sample_session k) items c False (calm 7) n w = (Inr (3, True), m + 2, w')
    \<and> w_db w' = d \<and> w_review w' = [] \<and> ps_last_seen (w_state w') = 3 \<and> ps_known (w_state w') = [(''u'', sample_known)]
    \<and> ps_reconcile_cursor (w_state w') = ps_reconcile_cursor (w_state w) \<and> w_trace w' = w_trace w @ calls"
  using assms
  by (elim disjE conjE)
   (simp_all add: scan_page_def seq_def bind_def report_def sample_query Let_def sample_save sample_sort
      sample_item_fields sample_tombstone_of record_item_error_def attempt_def ret_def chunks_of.simps del: sort_items.simps)
lemma sample_view:
  "view_of sample_sync ''p'' ''u'' (sample_unit a ctx p) = Inr \<lparr>iv_ctx = ctx, iv_relayed_json = packet_text p, iv_attempts = a\<rparr>"
  using sample_unit_packet [of a ctx p] sample_context [of ctx]
  by (simp add: view_of_def) (simp add: sample_unit_def)

lemma sample_inflight:
  assumes "w_db w = submitted_db a"
  shows "inflight_check (sample_session k) (calm 7) n w = (Inr (), n + 1, w)"
proof -
  have "si_pair_id (sample_unit a ctx p) = ''p''" "si_phase (sample_unit a ctx p) = ''shipping''"
    "si_canonical_uuid (sample_unit a ctx p) = ''u''" for ctx p
    by (simp_all add: sample_unit_def)
  with assms show ?thesis
    by (simp add: inflight_check_def bind_def attempt_def on_db_def zoom_def list_pair_shipping_def sample_query ret_def
        submitted_db_def flight_def lift_read_def sample_view sample_fields)
qed

lemma sample_reconcile:
  assumes "ps_known (w_state w) = [(''u'', sample_known)]"
  shows "reconcile_phase (sample_run k) (sample_session k) (calm 7) n w = (Inr (), n + 4,
    w\<lparr>w_state := (w_state w)\<lparr>ps_reconcile_cursor := 0, ps_updated_at := 7\<rparr>,
      w_report := (w_report w)\<lparr>rp_errors := rp_errors (w_report w) + 1,
        rp_last_error := (if rp_last_error (w_report w) = None then Some NoReply else rp_last_error (w_report w))\<rparr>,
      w_trace := w_trace w @ [ReconcileCall [(''u'', ''f1'', 2)] None]\<rparr>)"
proof -
  have b: "reconcile_batch (w_state w) = ([sample_known], 0)"
    using assms by (simp add: reconcile_batch_def known_uuids_def Let_def RECONCILE_BATCH_SIZE_def List.map_filter_def)
  have r: "reconcile_fingerprints (sample_run k) fs (calm 7) n w = (Inl NoReply, n + 1, w\<lparr>w_trace := w_trace w @ [ReconcileCall fs None]\<rparr>)"
    for fs n w
    by (simp add: reconcile_fingerprints_def bind_def call_out_def calm_def sample_run_def)
  have u: "update_pair_state f (calm 7) n w = (Inr (), n + 2, w\<lparr>w_state := (f 7 (w_state w))\<lparr>ps_updated_at := 7\<rparr>\<rparr>)" for f n w
    by (simp add: update_pair_state_def update_doc_def seq_def bind_def update_stmt_def execute_def calm_lease)
       (simp add: calm_def unix_ts_def i64_max_def)
  show ?thesis
    using assms
    by (simp add: reconcile_phase_def bind_def seq_def sample_query attempt_def b r u record_item_error_def report_def sample_known_def)
qed

lemma sample_finish: "\<exists>ps. finish_run pair c (calm 7) n w = (Inr (), n + 2, w\<lparr>w_pairs := ps\<rparr>)"
  by (simp add: finish_run_def update_doc_def seq_def bind_def update_stmt_def execute_def calm_lease) (auto simp: calm_def)

section \<open>The runs\<close>

lemma sample_sync_run:
  assumes "w_pairs w = [sample_pair]" "w_review w = []" "ps_known (w_state w) = [(''u'', sample_known)]"
    "ps_last_seen (w_state w) = c" "n = 0 \<and> items = [gone_item, sample_item] \<and> c = 0 \<or> 10 \<le> n \<and> items = [sample_item] \<and> c = 3"
    "\<And>v. w_db v = w_db w \<Longrightarrow> ship_tombstone_packet (sample_session k) sample_tombstone (calm 7) (n + 7) v
        = (Inl NoReply, m, v\<lparr>w_db := submitted_db a, w_trace := w_trace v @ calls\<rparr>)"
  shows "\<exists>w'. sync_pair_run (sample_run k) (Suc fuel) ''p'' (calm 7) n w = (Inr (Scanned 3), m + 9, w')
    \<and> w_db w' = submitted_db a \<and> w_review w' = [] \<and> ps_last_seen (w_state w') = 3
    \<and> ps_known (w_state w') = [(''u'', sample_known)]
    \<and> w_trace w' = w_trace w @ DigestCall c (Some (Given items)) # calls @ [ReconcileCall [(''u'', ''f1'', 2)] None]"
proof -
  have s: "(rn_ship (sample_run k))\<lparr>ss_pair := sample_pair, ss_translator := None\<rparr> = sample_session k"
    by (simp add: sample_session_def sample_run_def)
  let ?v = "w\<lparr>w_report := empty_report\<rparr>"
  let ?v1 = "?v\<lparr>w_trace := w_trace w @ [DigestCall c (Some (Given items))]\<rparr>"
  have f: "fetch_digest (sample_run k) c (calm 7) (Suc (Suc n)) ?v = (Inr items, Suc (Suc (Suc n)), ?v1)"
    using assms(5) by (auto simp: sample_digest)
  obtain w1 where p: "scan_page (sample_run k) (sample_session k) items c False (calm 7) (Suc (Suc (Suc n))) ?v1 = (Inr (3, True), Suc (Suc m), w1)"
    "w_db w1 = submitted_db a" "w_review w1 = []" "ps_last_seen (w_state w1) = 3" "ps_known (w_state w1) = [(''u'', sample_known)]"
    "w_trace w1 = w_trace w @ DigestCall c (Some (Given items)) # calls"
    using sample_page [where w = ?v1 and k = k and n = "n + 3" and m = m and d = "submitted_db a" and calls = calls and items = items and c = c] assms by (auto simp: eval_nat_numeral)
  have "items \<noteq> []" "length items < DIGEST_PAGE_SIZE" using assms(5) by (auto simp: DIGEST_PAGE_SIZE_def)
  then have sc: "scan_pages (sample_run k) (sample_session k) (Suc fuel) c c False (calm 7) (Suc (Suc n)) ?v = (Inr (Scanned 3), Suc (Suc m), w1)"
    by (simp add: bind_def attempt_def f p ret_def)
  obtain w2 where r: "reconcile_phase (sample_run k) (sample_session k) (calm 7) (Suc (Suc m)) w1 = (Inr (), m + 6, w2)"
    "w_db w2 = submitted_db a" "w_review w2 = []" "ps_last_seen (w_state w2) = 3" "ps_known (w_state w2) = [(''u'', sample_known)]"
    "w_trace w2 = w_trace w1 @ [ReconcileCall [(''u'', ''f1'', 2)] None]"
    using sample_reconcile [OF p(5), of k "Suc (Suc m)"] p by simp
  obtain ps where e: "finish_run sample_pair 3 (calm 7) (Suc (m + 6)) w2 = (Inr (), m + 9, w2\<lparr>w_pairs := ps\<rparr>)"
    using sample_finish [of sample_pair 3 "Suc (m + 6)" w2] by auto
  have fields: "rn_source_paired (sample_run k)" "rn_target_paired (sample_run k)" "rn_secrets_read (sample_run k)" "rn_clients_build (sample_run k)" "rn_db_opens (sample_run k)"
    "run_translator sample_pair (ss_translator (rn_ship (sample_run k))) = Inr None"
    by (simp_all add: sample_run_def run_translator_def sample_pair_fields)
  have "sync_pair_run (sample_run k) (Suc fuel) ''p'' (calm 7) n w = (Inr (Scanned 3), m + 9, w2\<lparr>w_pairs := ps\<rparr>)"
    unfolding sync_pair_run_def
    by (simp add: bind_def seq_def sample_query assms(1-4) sample_pair_fields report_def ret_def fields s sc r Let_def
        sample_inflight [OF r(2)] e [simplified] del: scan_pages.simps)
  then show ?thesis using r p(6) by simp
qed

lemma first_sample_run:
  assumes "k \<noteq> 26"
  shows "\<exists>w. sync_pair_run (sample_run k) (Suc fuel) ''p'' (calm 7) 0 sample_world = (Inr (Scanned 3), 38, w)
    \<and> w_db w = submitted_db 1 \<and> w_review w = [] \<and> ps_last_seen (w_state w) = 3 \<and> ps_known (w_state w) = [(''u'', sample_known)]
    \<and> w_trace w = [DigestCall 0 (Some (Given [gone_item, sample_item])), PushCall sample_tombstone None, ReconcileCall [(''u'', ''f1'', 2)] None]"
  using sample_sync_run [where w = sample_world and c = 0 and n = 0 and k = k and m = 29 and a = 1 and fuel = fuel
      and items = "[gone_item, sample_item]" and calls = "[PushCall sample_tombstone None]"]
    first_shipment [of 7 k] assms
  by (simp add: sample_world_def)

lemma second_sample_run:
  assumes "w_pairs w = [sample_pair]" "w_review w = []" "ps_known (w_state w) = [(''u'', sample_known)]"
    "ps_last_seen (w_state w) = 3" "w_db w = submitted_db 1"
  shows "\<exists>w'. sync_pair_run (sample_run 52) (Suc fuel) ''p'' (calm 7) 38 w = (Inr (Scanned 3), 65, w')
    \<and> w_trace w' = w_trace w @ [DigestCall 3 (Some (Given [sample_item])),
        ReceiptCall sample_tombstone (Some (SiteData absent_data)), PushCall sample_tombstone None, ReconcileCall [(''u'', ''f1'', 2)] None]"
  using sample_sync_run [where w = w and c = 3 and n = 38 and k = 52 and m = 56 and a = 2 and fuel = fuel
      and items = "[sample_item]" and calls = "[ReceiptCall sample_tombstone (Some (SiteData absent_data)), PushCall sample_tombstone None]"]
    second_shipment [of 52 45 _ 1] assms
  by fastforce
end
