(* ===== verification/RunSafety.thy ===== *)
theory RunSafety
  imports RunSample
begin

text \<open>
  The cursor of a pair. A run learns from the source and changes what is known of an entity only as the source said
  (\<open>grows\<close>); the saved cursor stays below every item that still has to be shipped (\<open>cursor_passes_only_covered\<close>).
  The proofs follow the code: sorting a page, saving the cursor, shipping, tombstones, saving again, with the
  invariant of the cursor as the postcondition of every error.
\<close>

section \<open>What a run learns and keeps\<close>

text \<open>The items of the digests that passed the checks, and what the source said of an entity.\<close>

definition digest_items :: "call list \<Rightarrow> digest_item set" where
  "digest_items calls = {i. \<exists>c items. DigestCall c (Some (Given items)) \<in> set calls \<and> digest_typed items
     \<and> length items \<le> DIGEST_PAGE_SIZE \<and> digest_order c [] items \<and> i \<in> set items}"

definition pulled :: "call list \<Rightarrow> sync_packet \<Rightarrow> bool" where
  "pulled calls p \<longleftrightarrow> (\<exists>us ps. PullCall us (Some (Given ps)) \<in> set calls \<and> p \<in> set ps)"

definition source_said :: "call list \<Rightarrow> string \<Rightarrow> string \<Rightarrow> bool" where
  "source_said calls u fp \<longleftrightarrow> (\<exists>i \<in> digest_items calls. di_uuid i = u \<and> di_fingerprint i = fp)
     \<or> (\<exists>p. pulled calls p \<and> en_guid p = u \<and> pk_fingerprint p = fp)"

definition reported_missing :: "call list \<Rightarrow> string \<Rightarrow> bool" where
  "reported_missing calls u \<longleftrightarrow> (\<exists>fs vs. ReconcileCall fs (Some (Given vs)) \<in> set calls \<and> fmlookup vs u = Some ''missing'')"

definition reported_gone :: "call list \<Rightarrow> string \<Rightarrow> bool" where
  "reported_gone calls u \<longleftrightarrow> (\<exists>i \<in> digest_items calls. di_uuid i = u \<and> di_status i = ''trash'') \<or> reported_missing calls u"

text \<open>What is known of an entity changes only as the source said.\<close>

definition known_step :: "call list \<Rightarrow> string \<Rightarrow> known_entity option \<Rightarrow> known_entity option \<Rightarrow> bool" where
  "known_step calls u k k' \<longleftrightarrow> k' = k \<or> (\<exists>e. k' = Some e \<and> source_said calls u (kn_fingerprint e))
     \<or> (k' = None \<and> reported_gone calls u)"

definition known_of_unit :: "sync_world \<Rightarrow> string \<Rightarrow> known_entity option" where
  "known_of_unit w u = map_of (ps_known (w_state w)) u"

definition grows :: "string \<Rightarrow> sync_world \<Rightarrow> sync_world \<Rightarrow> bool" where
  "grows pair w w' \<longleftrightarrow> set (w_trace w) \<subseteq> set (w_trace w') \<and> digest_items (w_trace w') = digest_items (w_trace w)
     \<and> ps_last_seen (w_state w') = ps_last_seen (w_state w)
     \<and> (\<forall>u. has_pending_uuid (w_review w) pair u \<longrightarrow> has_pending_uuid (w_review w') pair u)
     \<and> (\<forall>u. known_step (w_trace w') u (known_of_unit w u) (known_of_unit w' u))"

lemma said_mono:
  assumes "set calls \<subseteq> set calls'"
  shows "digest_items calls \<subseteq> digest_items calls'" "pulled calls p \<Longrightarrow> pulled calls' p"
    "source_said calls u fp \<Longrightarrow> source_said calls' u fp" "reported_missing calls u \<Longrightarrow> reported_missing calls' u"
    "reported_gone calls u \<Longrightarrow> reported_gone calls' u"
proof -
  show d: "digest_items calls \<subseteq> digest_items calls'" using assms unfolding digest_items_def by blast
  show p: "pulled calls p \<Longrightarrow> pulled calls' p" for p using assms unfolding pulled_def by blast
  show "source_said calls u fp \<Longrightarrow> source_said calls' u fp" using d p unfolding source_said_def by blast
  show m: "reported_missing calls u \<Longrightarrow> reported_missing calls' u" using assms unfolding reported_missing_def by blast
  show "reported_gone calls u \<Longrightarrow> reported_gone calls' u" using d m unfolding reported_gone_def by blast
qed

lemma known_step_mono: "set calls \<subseteq> set calls' \<Longrightarrow> known_step calls u k k' \<Longrightarrow> known_step calls' u k k'"
  using said_mono(3,5) unfolding known_step_def by blast

lemma known_step_trans: "known_step calls u k k1 \<Longrightarrow> known_step calls u k1 k2 \<Longrightarrow> known_step calls u k k2"
  unfolding known_step_def by blast

lemma world_grows_refl [simp]: "grows pair w w"
  by (simp add: grows_def known_step_def)

lemma world_grows_trans:
  assumes "grows pair w w1" "grows pair w1 w2"
  shows "grows pair w w2"
proof -
  have "known_step (w_trace w2) u (known_of_unit w u) (known_of_unit w2 u)" for u
    using assms known_step_mono [of "w_trace w1" "w_trace w2"] known_step_trans unfolding grows_def by blast
  then show ?thesis using assms unfolding grows_def by auto
qed

text \<open>A computation that grows the world from wherever \<open>P\<close> holds; \<open>P\<close> is kept by growth.\<close>

definition growing :: "string \<Rightarrow> (sync_world \<Rightarrow> bool) \<Rightarrow> 'a shipping \<Rightarrow> bool" where
  "growing pair P m \<longleftrightarrow> (\<forall>env n w r n' w'. P w \<longrightarrow> m env n w = (r, n', w') \<longrightarrow> grows pair w w')"

definition kept :: "string \<Rightarrow> (sync_world \<Rightarrow> bool) \<Rightarrow> bool" where
  "kept pair P \<longleftrightarrow> (\<forall>w w'. P w \<longrightarrow> grows pair w w' \<longrightarrow> P w')"

lemma growingD: "growing pair P m \<Longrightarrow> P w \<Longrightarrow> m env n w = (r, n', w') \<Longrightarrow> grows pair w w'"
  unfolding growing_def by blast

lemma keptD: "kept pair P \<Longrightarrow> P w \<Longrightarrow> grows pair w w' \<Longrightarrow> P w'"
  unfolding kept_def by blast

lemma growing_ret: "growing pair P (ret a)" and growing_fail: "growing pair P (fail e)"
  by (auto simp: growing_def ret_def fail_def)

lemma growing_bind:
  assumes "kept pair P" "growing pair P m" "\<And>a. growing pair P (f a)"
  shows "growing pair P (bind m f)"
  unfolding growing_def
proof (intro allI impI)
  fix env n w r n' w' assume P: "P w" and run: "bind m f env n w = (r, n', w')"
  obtain r1 n1 w1 where m: "m env n w = (r1, n1, w1)" by (metis prod_cases3)
  from growingD [OF assms(2) P m] have g: "grows pair w w1" .
  show "grows pair w w'"
  proof (cases r1)
    case (Inr a)
    with run m have "f a env n1 w1 = (r, n', w')" by (simp add: bind_def)
    from growingD [OF assms(3) keptD [OF assms(1) P g] this] g show ?thesis by (blast intro: world_grows_trans)
  qed (use run m g in \<open>simp add: bind_def\<close>)
qed

lemma growing_seq: "kept pair P \<Longrightarrow> growing pair P m \<Longrightarrow> growing pair P k \<Longrightarrow> growing pair P (seq m k)"
  unfolding seq_def by (rule growing_bind)

lemma growing_attempt: "growing pair P m \<Longrightarrow> growing pair P (attempt m)"
  unfolding growing_def attempt_def by (auto split: prod.splits)

lemma growing_weaken: "growing pair Q m \<Longrightarrow> (\<And>w. P w \<Longrightarrow> Q w) \<Longrightarrow> growing pair P m"
  unfolding growing_def by blast

text \<open>Primitive steps.\<close>

lemma grows_same:
  "w_trace w' = w_trace w \<Longrightarrow> w_state w' = w_state w \<Longrightarrow> w_review w' = w_review w \<Longrightarrow> grows pair w w'"
  by (simp add: grows_def known_step_def known_of_unit_def)

lemma growing_on_db: "growing pair P (on_db m)"
  unfolding growing_def on_db_def zoom_def by (auto intro!: grows_same split: prod.splits)

lemma growing_report: "growing pair P (report f)"
  unfolding growing_def report_def by (auto intro!: grows_same)

lemma growing_query: "growing pair P (query f)"
  unfolding growing_def query_def execute_def by (auto split: if_splits)

lemma growing_lease: "growing pair P unit_lease"
  unfolding unit_lease_def by (rule growing_query)

lemma growing_fresh: "growing pair P (fresh_id ss)" and growing_now: "growing pair P now_ts"
  by (auto simp: growing_def fresh_id_def now_ts_def)

lemma growing_ensure: "growing pair P (ensure b e)"
  by (simp add: ensure_def growing_ret growing_fail)

lemma growing_lift: "growing pair P (lift_read r)"
  by (cases r) (simp_all add: lift_read_def growing_ret growing_fail)

lemma growing_nonce: "(\<And>k. growing pair P (f k)) \<Longrightarrow> growing pair P (with_nonce ss f)"
  unfolding growing_def with_nonce_def by blast

lemma growing_call:
  assumes "\<And>a c x. ev a \<noteq> DigestCall c x"
  shows "growing pair P (call_out ev answer)"
proof -
  have d: "digest_items (calls @ [ev a]) = digest_items calls" for calls a
    unfolding digest_items_def using not_sym [OF assms] by auto
  show ?thesis
    unfolding growing_def call_out_def grows_def
    by (auto simp: d known_step_def known_of_unit_def split: if_splits)
qed

lemma growing_update:
  assumes "\<And>now w. P w \<Longrightarrow> grows pair w (f now w)"
  shows "growing pair P (update_doc f)"
  unfolding growing_def
proof (intro allI impI)
  fix env n w r n' w' assume P: "P w" and run: "update_doc f env n w = (r, n', w')"
  have "w' = w \<or> w' = f (clock env n) w"
    using run by (auto simp: update_doc_def seq_def bind_def update_stmt_def unit_lease_def query_def execute_def split: if_splits)
  with assms [OF P] show "grows pair w w'" by auto
qed

lemma growing_cases:
  "(b \<Longrightarrow> growing pair P m) \<Longrightarrow> (\<not> b \<Longrightarrow> growing pair P k) \<Longrightarrow> growing pair P (if b then m else k)"
  "(x = None \<Longrightarrow> growing pair P m) \<Longrightarrow> (\<And>a. x = Some a \<Longrightarrow> growing pair P (f a)) \<Longrightarrow> growing pair P (case x of None \<Rightarrow> m | Some a \<Rightarrow> f a)"
  "(\<And>e. r = Inl e \<Longrightarrow> growing pair P (g e)) \<Longrightarrow> (\<And>a. r = Inr a \<Longrightarrow> growing pair P (h a)) \<Longrightarrow> growing pair P (case r of Inl e \<Rightarrow> g e | Inr a \<Rightarrow> h a)"
  "(\<And>c. growing pair P (hs c)) \<Longrightarrow> (\<And>d. growing pair P (sd d)) \<Longrightarrow> growing pair P (case s of HttpStatus c \<Rightarrow> hs c | SiteData d \<Rightarrow> sd d)"
  by (auto split: option.split sum.split site_answer.split)

lemmas growing_intros = growing_ret growing_fail growing_bind growing_seq growing_attempt growing_on_db growing_report
  growing_query growing_lease growing_fresh growing_now growing_ensure growing_lift growing_nonce growing_cases

lemma kept_pulled: "kept pair (\<lambda>w. pulled (w_trace w) p)"
  unfolding kept_def grows_def using said_mono(2) by blast

lemma kept_true: "kept pair (\<lambda>w. True)"
  by (simp add: kept_def)

section \<open>Shipping a unit grows the world\<close>

lemma growing_plain_call:
  "growing pair P (call_out (\<lambda>_. TranslateCall g f c s) answer)"
  "growing pair P (call_out (\<lambda>_. MediaCall g u) answer2)"
  "growing pair P (call_out (\<lambda>_. PrepareCall q) answer3)"
  "growing pair P (call_out (\<lambda>_. ConfirmCall q) answer4)"
  "growing pair P (call_out (PushCall q) answer5)"
  "growing pair P (call_out (ReceiptCall q) answer6)"
  "growing pair P (call_out (PullCall us) answer7)"
  "growing pair P (call_out (ReconcileCall fs) answer8)"
  by (rule growing_call; simp)+

lemma growing_translate_rows: "kept pair P \<Longrightarrow> growing pair P (translate_rows ss p rows t)"
  by (induction rows arbitrary: t) (auto simp: Let_def intro!: growing_intros growing_plain_call)

lemma growing_transfer_media: "kept pair P \<Longrightarrow> growing pair P (transfer_media ss p es media)"
  by (induction es arbitrary: media) (auto intro!: growing_intros growing_plain_call)

lemma growing_freeze: "growing pair P (freeze_packet ss p q)"
  using growing_on_db unfolding freeze_packet_def with_nonce_def growing_def by blast

lemma growing_relayed: "kept pair P \<Longrightarrow> growing pair P (relayed_packet ss p found build)"
  unfolding relayed_packet_def by (auto intro!: growing_intros growing_freeze)

lemma growing_push: "kept pair P \<Longrightarrow> growing pair P (push_packet ss q)"
  unfolding push_packet_def by (auto intro!: growing_intros growing_plain_call)

lemma growing_resume: "kept pair P \<Longrightarrow> growing pair P (resume_submitted_packet ss q)"
  unfolding resume_submitted_packet_def find_packet_receipt_def
  by (auto intro!: growing_intros growing_plain_call growing_push)

lemma growing_source: "kept pair P \<Longrightarrow> growing pair P (prepare_configured_source ss q)"
  "kept pair P \<Longrightarrow> growing pair P (confirm_configured_source ss q r)"
  unfolding prepare_configured_source_def confirm_configured_source_def
  by (auto intro!: growing_intros growing_plain_call)

lemma growing_deliver: "kept pair P \<Longrightarrow> growing pair P announce \<Longrightarrow> growing pair P (deliver ss announce uuid q found)"
  unfolding deliver_def by (auto intro!: growing_intros growing_push growing_resume)

lemma growing_results:
  "kept pair P \<Longrightarrow> growing pair P (packet_result ss uuid q found)"
  "kept pair P \<Longrightarrow> growing pair P (tombstone_result ss uuid q found)"
  unfolding packet_result_def tombstone_result_def by (auto intro!: growing_intros growing_deliver growing_source)

lemma pending_upsert:
  "rv_status item = PendingReview \<Longrightarrow> has_pending_uuid items pair u \<Longrightarrow>
     has_pending_uuid (upsert_pending_item now item items) pair u"
  "rv_status item = PendingReview \<Longrightarrow>
     has_pending_uuid (upsert_pending_item now item items) (rv_pair item) (rv_uuid item)"
  by (induction items) (auto simp: has_pending_uuid_def pending_of_def)

lemma growing_park: "kept pair P \<Longrightarrow> growing pair P (park_packet ss p t q)"
proof -
  assume k: "kept pair P"
  have "growing pair P (update_doc (\<lambda>now w. w\<lparr>w_review :=
      upsert_pending_item (unix_ts now) (review_of ss i (unix_ts now) p t q) (w_review w)\<rparr>))" for i
    by (rule growing_update) (simp add: grows_def known_step_def known_of_unit_def pending_upsert review_of_def)
  with k show ?thesis unfolding park_packet_def by (auto intro!: growing_intros)
qed

lemma growing_pair_state:
  assumes "\<And>now w u. P w \<Longrightarrow> known_step (w_trace w) u (known_of_unit w u) (map_of (ps_known (f now (w_state w))) u)"
    "\<And>now st. ps_last_seen (f now st) = ps_last_seen st"
  shows "growing pair P (update_pair_state f)"
  unfolding update_pair_state_def using assms
  by (intro growing_update) (simp add: grows_def known_of_unit_def)

lemma map_of_put_known: "map_of (ps_known (put_known uuid k st)) u = (if u = uuid then Some k else map_of (ps_known st) u)"
proof -
  have "map_of (filter (\<lambda>e. fst e \<noteq> uuid) xs) u = map_of xs u" if "u \<noteq> uuid" for xs :: "(string \<times> known_entity) list"
    using that by (induction xs) auto
  then show ?thesis by (simp add: put_known_def)
qed

lemma map_of_drop_known: "map_of (ps_known (drop_known uuid st)) u = (if u = uuid then None else map_of (ps_known st) u)"
proof -
  have "map_of (filter (\<lambda>e. fst e \<noteq> uuid) xs) u = (if u = uuid then None else map_of xs u)" for xs :: "(string \<times> known_entity) list"
    by (induction xs) auto
  then show ?thesis by (simp add: drop_known_def)
qed

lemma map_of_change_known:
  "map_of (ps_known (change_known uuid f st)) u = (if u = uuid then map_option f (map_of (ps_known st) u) else map_of (ps_known st) u)"
proof -
  have "map_of (map (\<lambda>(v, k). if v = uuid then (v, f k) else (v, k)) xs) u
      = (if u = uuid then map_option f (map_of xs u) else map_of xs u)" for xs
    by (induction xs) auto
  then show ?thesis by (simp add: change_known_def)
qed

lemma growing_known_of: "growing pair (\<lambda>w. pulled (w_trace w) p) (update_pair_state (\<lambda>now. put_known (en_guid p) (known_of p r now)))"
  by (rule growing_pair_state)
    (auto simp: map_of_put_known known_step_def known_of_unit_def known_of_def source_said_def, simp add: put_known_def)

lemma growing_unit:
  assumes "kept pair P" "\<And>found. growing pair P (inner found)"
  shows "growing pair P (ship_unit ss translator p inner)"
  using assms unfolding ship_unit_def Let_def by (auto intro!: growing_intros)

lemma growing_packet: "growing pair (\<lambda>w. pulled (w_trace w) p) (ship_one_packet ss p)"
  unfolding ship_one_packet_def ship_one_packet_inner_def translate_packet_def Let_def
  by (intro growing_unit growing_bind growing_seq growing_cases kept_pulled growing_translate_rows growing_transfer_media
      growing_relayed growing_park growing_results growing_source growing_report growing_lease growing_ret growing_fail
      growing_known_of)

lemma growing_tombstone: "growing pair P (ship_tombstone_packet ss t)"
proof -
  have "growing pair (\<lambda>w. True) (ship_tombstone_packet ss t)"
    unfolding ship_tombstone_packet_def ship_tombstone_inner_def
    by (intro growing_unit growing_bind growing_cases kept_true growing_relayed growing_results growing_ret growing_fail)
  then show ?thesis by (rule growing_weaken) simp
qed

section \<open>What a success means\<close>

definition noted :: "string \<Rightarrow> sync_packet \<Rightarrow> sync_world \<Rightarrow> bool" where
  "noted pair p w \<longleftrightarrow> has_pending_uuid (w_review w) pair (en_guid p)
     \<or> (\<exists>k. known_of_unit w (en_guid p) = Some k \<and> kn_fingerprint k = pk_fingerprint p)"

abbreviation anything :: "sync_world \<Rightarrow> bool" where
  "anything \<equiv> \<lambda>_. True"

lemma hoare_true: "hoare P m (\<lambda>_. anything) anything"
  by (auto simp: hoare_def split: sum.splits)

lemma hoare_noted_kept:
  "hoare (noted pair p) (on_db m) (\<lambda>_. noted pair p) anything"
  "hoare (noted pair p) unit_lease (\<lambda>_. noted pair p) anything"
  "hoare (noted pair p) (report f) (\<lambda>_. noted pair p) anything"
  by (auto simp: hoare_def noted_def known_of_unit_def on_db_def zoom_def unit_lease_def query_def execute_def report_def
      split: sum.splits prod.splits if_splits)

lemma hoare_park: "hoare P (park_packet ss p t q) (\<lambda>_. noted (pair_key ss) p) anything"
proof -
  have stmt: "hoare anything (update_stmt (\<lambda>now w. w\<lparr>w_review :=
      upsert_pending_item (unix_ts now) (review_of ss k (unix_ts now) p t q) (w_review w)\<rparr>))
      (\<lambda>_. noted (pair_key ss) p) anything" for k
    using pending_upsert(2) [of "review_of ss k _ p t q"]
    by (auto simp: hoare_def update_stmt_def execute_def noted_def review_of_def split: if_splits)
  have "hoare anything (park_packet ss p t q) (\<lambda>_. noted (pair_key ss) p) anything"
    unfolding park_packet_def update_doc_def
    by (intro hoare_bind [OF hoare_true] hoare_seq [OF hoare_seq [OF stmt hoare_noted_kept(2)]] hoare_noted_kept)
  then show ?thesis by (rule hoare_pre) simp
qed

lemma hoare_put_known: "hoare P (update_pair_state (\<lambda>now. put_known (en_guid p) (known_of p r now))) (\<lambda>_. noted pair p) anything"
proof -
  have "hoare P (update_stmt (\<lambda>now w. w\<lparr>w_state :=
      (put_known (en_guid p) (known_of p r (unix_ts now)) (w_state w))\<lparr>ps_updated_at := unix_ts now\<rparr>\<rparr>)) (\<lambda>_. noted pair p) anything"
    by (auto simp: hoare_def update_stmt_def execute_def noted_def known_of_unit_def map_of_put_known known_of_def split: if_splits)
  from hoare_seq [OF this hoare_noted_kept(2)] show ?thesis unfolding update_pair_state_def update_doc_def .
qed

lemma hoare_inner_noted: "hoare P (ship_one_packet_inner ss p found) (\<lambda>_. noted (pair_key ss) p) anything"
proof -
  have rest: "hoare anything (if \<not> sr_success r then fail TargetRefused
      else seq unit_lease (seq (confirm_configured_source ss q r) (seq (report f)
        (update_pair_state (\<lambda>now st. put_known (en_guid p) (known_of p r now) st))))) (\<lambda>_. noted (pair_key ss) p) anything" for q r f
    using hoare_put_known [of _ p r] by (auto intro!: hoare_fail hoare_seq [OF hoare_true])
  have last: "hoare anything (if parks_in_review_inbox (ss_pair ss) then park_packet ss p t q
      else bind (packet_result ss (en_guid p) q found) (\<lambda>r. if \<not> sr_success r then fail TargetRefused
        else seq unit_lease (seq (confirm_configured_source ss q r) (seq (report f)
          (update_pair_state (\<lambda>now st. put_known (en_guid p) (known_of p r now) st))))))
      (\<lambda>_. noted (pair_key ss) p) anything" for t q f
    by (cases "parks_in_review_inbox (ss_pair ss)") (simp_all add: hoare_park hoare_bind [OF hoare_true rest])
  have "hoare anything (ship_one_packet_inner ss p found) (\<lambda>_. noted (pair_key ss) p) anything"
    unfolding ship_one_packet_inner_def by (intro hoare_bind [OF hoare_true] last)
  then show ?thesis by (rule hoare_pre) simp
qed

lemma hoare_packet_noted: "hoare P (ship_one_packet ss p) (\<lambda>_. noted (pair_key ss) p) anything"
proof -
  let ?R = "\<lambda>result w. case result of Inl _ \<Rightarrow> True | Inr _ \<Rightarrow> noted (pair_key ss) p w"
  have lease: "hoare (?R result) unit_lease (\<lambda>_. ?R result) anything" for result
    by (cases result) (simp_all add: hoare_true hoare_noted_kept)
  have close: "hoare (?R result) (case result of Inr u \<Rightarrow> on_db m | Inl e \<Rightarrow> seq (on_db (k e)) (fail e))
      (\<lambda>_. noted (pair_key ss) p) anything" for result :: "db_error + unit" and m k
    by (cases result) (auto simp: hoare_noted_kept intro!: hoare_seq [OF hoare_true] hoare_fail)
  have "hoare anything (ship_one_packet ss p) (\<lambda>_. noted (pair_key ss) p) anything"
    unfolding ship_one_packet_def ship_unit_def Let_def
    by (intro hoare_seq [OF hoare_true] hoare_bind [OF hoare_true] hoare_bind [OF hoare_attempt [OF hoare_inner_noted]]
        hoare_seq [OF lease] close)
  then show ?thesis by (rule hoare_pre) simp
qed

section \<open>The cursor\<close>

text \<open>Nothing is left to do for an item, as far as the source has said.\<close>

definition covered :: "string \<Rightarrow> sync_world \<Rightarrow> digest_item \<Rightarrow> bool" where
  "covered pair w i \<longleftrightarrow> has_pending_uuid (w_review w) pair (di_uuid i)
     \<or> (case known_of_unit w (di_uuid i) of
          Some k \<Rightarrow> source_said (w_trace w) (di_uuid i) (kn_fingerprint k)
        | None \<Rightarrow> reported_gone (w_trace w) (di_uuid i))"

lemma covered_grows:
  assumes "covered pair w i" "grows pair w w'"
  shows "covered pair w' i"
proof -
  let ?u = "di_uuid i"
  have sub: "set (w_trace w) \<subseteq> set (w_trace w')" using assms(2) by (simp add: grows_def)
  have step: "known_step (w_trace w') ?u (known_of_unit w ?u) (known_of_unit w' ?u)"
    and pend: "has_pending_uuid (w_review w) pair ?u \<Longrightarrow> has_pending_uuid (w_review w') pair ?u"
    using assms(2) by (simp_all add: grows_def)
  show ?thesis
    using assms(1) step pend said_mono(3,5) [OF sub, of ?u]
    unfolding covered_def known_step_def by (auto split: option.splits)
qed

definition covered_below :: "string \<Rightarrow> nat \<Rightarrow> sync_world \<Rightarrow> bool" where
  "covered_below pair c w \<longleftrightarrow> (\<forall>i \<in> digest_items (w_trace w). di_local_id i \<le> c \<longrightarrow> covered pair w i)"

definition cursor_inv :: "string \<Rightarrow> sync_world \<Rightarrow> bool" where
  "cursor_inv pair w \<longleftrightarrow> covered_below pair (ps_last_seen (w_state w)) w"

lemma kept_below: "kept pair (covered_below pair c)"
  unfolding kept_def covered_below_def using covered_grows by (auto simp: grows_def)

lemma kept_inv: "kept pair (cursor_inv pair)"
  unfolding kept_def cursor_inv_def covered_below_def using covered_grows by (auto simp: grows_def)

text \<open>A page under work.\<close>

definition in_page :: "string \<Rightarrow> nat \<Rightarrow> nat \<Rightarrow> digest_item list \<Rightarrow> sync_world \<Rightarrow> bool" where
  "in_page pair safe cursor items w \<longleftrightarrow> covered_below pair safe w \<and> ps_last_seen (w_state w) \<le> safe
     \<and> digest_order cursor [] items \<and> set items \<subseteq> digest_items (w_trace w)
     \<and> (\<forall>i \<in> digest_items (w_trace w). i \<in> set items \<or> di_local_id i \<le> cursor)"

lemma kept_page: "kept pair (in_page pair safe cursor items)"
  using kept_below unfolding kept_def in_page_def by (auto simp: grows_def)

lemma in_page_inv: "in_page pair safe cursor items w \<Longrightarrow> cursor_inv pair w"
  by (auto simp: in_page_def cursor_inv_def covered_below_def)

lemma digest_order_same: "digest_order c seen items \<Longrightarrow> i \<in> set items \<Longrightarrow> j \<in> set items \<Longrightarrow> di_local_id i = di_local_id j \<Longrightarrow> i = j"
proof (induction c seen items rule: digest_order.induct)
  case (2 previous seen x items)
  then show ?case using digest_order_ids by fastforce
qed simp

lemma hoare_growing: "growing pair P m \<Longrightarrow> kept pair P \<Longrightarrow> hoare P m (\<lambda>_. P) P"
  unfolding hoare_def growing_def kept_def by (metis (no_types, lifting) old.sum.simps(5,6) sum.exhaust)

subsection \<open>Sorting the items of a page\<close>

definition work_ok :: "string \<Rightarrow> digest_item list \<Rightarrow> page_work \<Rightarrow> sync_world \<Rightarrow> bool" where
  "work_ok pair items pw w \<longleftrightarrow>
     (\<forall>i \<in> set items. pw_converged pw (di_local_id i) = Some True \<longrightarrow> covered pair w i)
     \<and> (\<forall>e \<in> set (pw_pull pw). \<exists>i \<in> set items. e = (di_uuid i, di_local_id i))
     \<and> (\<forall>i \<in> set (pw_trash pw). i \<in> set items \<and> di_status i = ''trash'')"

lemma kept_work: "kept pair (work_ok pair items pw)"
  unfolding kept_def work_ok_def using covered_grows by blast

lemma kept_and: "kept pair P \<Longrightarrow> kept pair Q \<Longrightarrow> kept pair (\<lambda>w. P w \<and> Q w)"
  unfolding kept_def by blast

lemma work_converge:
  assumes "work_ok pair items pw w" "digest_order c seen items" "i \<in> set items" "covered pair w i"
  shows "work_ok pair items (converge (di_local_id i) b pw) w"
proof -
  have "\<forall>j \<in> set items. di_local_id j = di_local_id i \<longrightarrow> j = i"
    using digest_order_same [OF assms(2) _ assms(3)] by blast
  then show ?thesis using assms(1,4) unfolding work_ok_def converge_def by simp blast
qed

lemma work_converge_False: "work_ok pair items pw w \<Longrightarrow> work_ok pair items (converge k False pw) w"
  by (auto simp: work_ok_def converge_def)

text \<open>What the page was sorted by was true when it was read.\<close>

definition snapshot :: "string \<Rightarrow> (string \<times> known_entity) list \<Rightarrow> review_item list \<Rightarrow> sync_world \<Rightarrow> bool" where
  "snapshot pair known reviews w \<longleftrightarrow>
     (\<exists>w0. grows pair w0 w \<and> known = ps_known (w_state w0) \<and> (\<exists>w1. grows pair w1 w \<and> reviews = w_review w1))"

lemma kept_snapshot: "kept pair (snapshot pair known reviews)"
  unfolding kept_def snapshot_def using world_grows_trans by blast

lemma item_said:
  "i \<in> digest_items calls \<Longrightarrow> source_said calls (di_uuid i) (di_fingerprint i)"
  "i \<in> digest_items calls \<Longrightarrow> di_status i = ''trash'' \<Longrightarrow> reported_gone calls (di_uuid i)"
  by (auto simp: source_said_def reported_gone_def)

lemma snapshot_covered:
  assumes "snapshot pair known reviews w" "i \<in> digest_items (w_trace w)"
  shows "has_pending_uuid reviews pair (di_uuid i) \<Longrightarrow> covered pair w i"
    "map_of known (di_uuid i) = Some k \<Longrightarrow> kn_fingerprint k = di_fingerprint i \<Longrightarrow> covered pair w i"
    "map_of known (di_uuid i) = None \<Longrightarrow> di_status i = ''trash'' \<Longrightarrow> covered pair w i"
proof -
  from assms(1) obtain w0 w1 where w0: "grows pair w0 w" "known = ps_known (w_state w0)"
    and w1: "grows pair w1 w" "reviews = w_review w1" unfolding snapshot_def by blast
  from assms(2) w0(1) have i: "i \<in> digest_items (w_trace w0)" by (simp add: grows_def)
  show "has_pending_uuid reviews pair (di_uuid i) \<Longrightarrow> covered pair w i"
    using w1 by (auto simp: covered_def grows_def)
  show "map_of known (di_uuid i) = Some k \<Longrightarrow> kn_fingerprint k = di_fingerprint i \<Longrightarrow> covered pair w i"
    using covered_grows [OF _ w0(1)] item_said(1) [OF i] w0(2) by (simp add: covered_def known_of_unit_def)
  show "map_of known (di_uuid i) = None \<Longrightarrow> di_status i = ''trash'' \<Longrightarrow> covered pair w i"
    using covered_grows [OF _ w0(1)] item_said(2) [OF i] w0(2) by (simp add: covered_def known_of_unit_def)
qed

text \<open>The base of a page: everything growth keeps. An error leaves the invariant of the cursor.\<close>

definition at_page :: "string \<Rightarrow> nat \<Rightarrow> nat \<Rightarrow> digest_item list \<Rightarrow> page_work \<Rightarrow> sync_world \<Rightarrow> bool" where
  "at_page pair safe cursor items pw w \<longleftrightarrow> in_page pair safe cursor items w \<and> work_ok pair items pw w"

lemma kept_at_page: "kept pair (at_page pair safe cursor items pw)"
  using kept_and [OF kept_page kept_work] by (simp add: at_page_def [abs_def])

lemma hoare_page_step:
  assumes "growing pair (\<lambda>w. at_page pair safe cursor items pw w \<and> X w) m" "kept pair X"
  shows "hoare (\<lambda>w. at_page pair safe cursor items pw w \<and> X w) m
    (\<lambda>_ w. at_page pair safe cursor items pw w \<and> X w) (cursor_inv pair)"
  by (rule hoare_conseq [OF hoare_growing [OF assms(1) kept_and [OF kept_at_page assms(2)]]])
    (auto simp: at_page_def dest: in_page_inv)

lemma growing_drop: "(\<And>w. P w \<Longrightarrow> reported_gone (w_trace w) u) \<Longrightarrow> growing pair P (update_pair_state (\<lambda>now. drop_known u))"
proof (rule growing_pair_state)
  show "known_step (w_trace w) v (known_of_unit w v) (map_of (ps_known (drop_known u (w_state w))) v)"
    if "\<And>w. P w \<Longrightarrow> reported_gone (w_trace w) u" "P w" for w v
    using that by (simp add: map_of_drop_known known_step_def known_of_unit_def)
qed (simp add: drop_known_def)

lemma hoare_drop: "hoare P (update_pair_state (\<lambda>now. drop_known u)) (\<lambda>_ w. known_of_unit w u = None) anything"
proof -
  have "hoare P (update_stmt (\<lambda>now w. w\<lparr>w_state := (drop_known u (w_state w))\<lparr>ps_updated_at := unix_ts now\<rparr>\<rparr>))
      (\<lambda>_ w. known_of_unit w u = None) anything"
    by (auto simp: hoare_def update_stmt_def execute_def known_of_unit_def map_of_drop_known split: if_splits)
  moreover have "hoare (\<lambda>w. known_of_unit w u = None) unit_lease (\<lambda>_ w. known_of_unit w u = None) anything"
    by (auto simp: hoare_def unit_lease_def query_def execute_def split: if_splits)
  ultimately show ?thesis unfolding update_pair_state_def update_doc_def by (rule hoare_seq)
qed

lemma hoare_and: "hoare P m Q E \<Longrightarrow> hoare P m R anything \<Longrightarrow> hoare P m (\<lambda>a w. Q a w \<and> R a w) E"
  unfolding hoare_def by (fastforce split: sum.splits)

lemma hoare_sort_item:
  assumes "pair = pair_key ss" "i \<in> set items"
  shows "hoare (\<lambda>w. at_page pair safe cursor items pw w \<and> snapshot pair known reviews w)
    (sort_item ss known reviews i pw)
    (\<lambda>pw' w. at_page pair safe cursor items pw' w \<and> snapshot pair known reviews w) (cursor_inv pair)"
proof -
  let ?P = "\<lambda>w. at_page pair safe cursor items pw w \<and> snapshot pair known reviews w"
  have inv: "?P w \<Longrightarrow> cursor_inv pair w" for w by (auto simp: at_page_def dest: in_page_inv)
  have mark: "hoare (\<lambda>w. at_page pair safe cursor items pw w \<and> (snapshot pair known reviews w \<and> covered pair w i)) (ret (converge (di_local_id i) True pw))
      (\<lambda>pw' w. at_page pair safe cursor items pw' w \<and> snapshot pair known reviews w) (cursor_inv pair)"
    using work_converge [OF _ _ assms(2)] by (intro hoare_ret) (auto simp: at_page_def in_page_def)
  have here: "?P w \<Longrightarrow> i \<in> digest_items (w_trace w)" for w using assms(2) by (auto simp: at_page_def in_page_def)
  have kc: "kept pair (\<lambda>w. snapshot pair known reviews w \<and> covered pair w i)"
    by (intro kept_and kept_snapshot) (auto simp: kept_def intro: covered_grows)
  have skip: "hoare ?P (seq skipped_one (ret (converge (di_local_id i) True pw)))
      (\<lambda>pw' w. at_page pair safe cursor items pw' w \<and> snapshot pair known reviews w) (cursor_inv pair)"
    if "\<And>w. ?P w \<Longrightarrow> covered pair w i"
    unfolding skipped_one_def
    by (rule hoare_pre [OF hoare_seq [OF hoare_page_step [OF growing_report kc] mark]]) (use that in blast)
  have drop: "hoare ?P (seq skipped_one (seq (update_pair_state (\<lambda>now. drop_known (di_uuid i))) (ret (converge (di_local_id i) True pw))))
      (\<lambda>pw' w. at_page pair safe cursor items pw' w \<and> snapshot pair known reviews w) (cursor_inv pair)"
    if "di_status i = ''trash''"
  proof -
    have gone: "?P w \<Longrightarrow> reported_gone (w_trace w) (di_uuid i)" for w using here item_said(2) that by blast
    have upd: "hoare ?P (update_pair_state (\<lambda>now. drop_known (di_uuid i)))
        (\<lambda>_ w. ?P w \<and> known_of_unit w (di_uuid i) = None) (cursor_inv pair)"
      by (rule hoare_and [OF hoare_page_step [OF growing_drop kept_snapshot] hoare_drop]) (rule gone)
    have cov: "?P w \<Longrightarrow> known_of_unit w (di_uuid i) = None \<Longrightarrow> covered pair w i" for w
      using gone by (simp add: covered_def)
    have tail: "hoare (\<lambda>w. ?P w \<and> known_of_unit w (di_uuid i) = None) (ret (converge (di_local_id i) True pw))
        (\<lambda>pw' w. at_page pair safe cursor items pw' w \<and> snapshot pair known reviews w) (cursor_inv pair)"
      by (rule hoare_pre [OF mark]) (use cov in blast)
    show ?thesis
      unfolding skipped_one_def
      by (rule hoare_seq [OF hoare_page_step [OF growing_report kept_snapshot] hoare_seq [OF upd tail]])
  qed
  have pull: "hoare ?P (ret (pw\<lparr>pw_pull := pw_pull pw @ [(di_uuid i, di_local_id i)]\<rparr>))
      (\<lambda>pw' w. at_page pair safe cursor items pw' w \<and> snapshot pair known reviews w) (cursor_inv pair)"
    using assms(2) by (intro hoare_ret) (auto simp: at_page_def work_ok_def)
  have trash: "hoare ?P (ret (pw\<lparr>pw_trash := pw_trash pw @ [i]\<rparr>))
      (\<lambda>pw' w. at_page pair safe cursor items pw' w \<and> snapshot pair known reviews w) (cursor_inv pair)"
    if "di_status i = ''trash''"
    using assms(2) that by (intro hoare_ret) (auto simp: at_page_def work_ok_def)
  have pend: "hoare ?P (seq skipped_one (ret (converge (di_local_id i) True pw)))
      (\<lambda>pw' w. at_page pair safe cursor items pw' w \<and> snapshot pair known reviews w) (cursor_inv pair)"
    if "has_pending_uuid reviews pair (di_uuid i)"
    by (rule skip) (use snapshot_covered(1) [OF _ _ that] here in blast)
  have stable: "hoare ?P (seq skipped_one (ret (converge (di_local_id i) True pw)))
      (\<lambda>pw' w. at_page pair safe cursor items pw' w \<and> snapshot pair known reviews w) (cursor_inv pair)"
    if "map_of known (di_uuid i) = Some k" "kn_fingerprint k = di_fingerprint i" for k
    by (rule skip) (use snapshot_covered(2) [OF _ _ that] here in blast)
  have unknown: "hoare ?P (seq skipped_one (ret (converge (di_local_id i) True pw)))
      (\<lambda>pw' w. at_page pair safe cursor items pw' w \<and> snapshot pair known reviews w) (cursor_inv pair)"
    if "map_of known (di_uuid i) = None" "di_status i = ''trash''"
    by (rule skip) (use snapshot_covered(3) [OF _ _ that] here in blast)
  show ?thesis
  proof (cases "has_pending_uuid reviews pair (di_uuid i)")
    case True
    with pend assms(1) show ?thesis by (simp add: sort_item_def)
  next
    case False
    show ?thesis
    proof (cases "map_of known (di_uuid i)")
      case None
      show ?thesis
        by (cases "di_status i = ''trash''") (use None False unknown pull assms(1) in \<open>simp_all add: sort_item_def\<close>)
    next
      case (Some k)
      show ?thesis
        by (cases "kn_fingerprint k = di_fingerprint i"; cases "di_status i = ''trash'' \<and> kn_post_status k \<noteq> ''trash''";
            cases "kn_rejected k \<and> kn_shipped_at k = 0")
          (use Some False stable drop trash pull assms(1) in \<open>simp_all add: sort_item_def\<close>)
    qed
  qed
qed

lemma hoare_sort_items:
  assumes "pair = pair_key ss" "set xs \<subseteq> set items"
  shows "hoare (\<lambda>w. at_page pair safe cursor items pw w \<and> snapshot pair known reviews w)
    (sort_items ss known reviews xs pw)
    (\<lambda>pw' w. at_page pair safe cursor items pw' w \<and> snapshot pair known reviews w) (cursor_inv pair)"
  using assms(2)
proof (induction xs arbitrary: pw)
  case (Cons i xs)
  then have i: "i \<in> set items" and xs: "set xs \<subseteq> set items" by simp_all
  show ?case
    unfolding sort_items.simps by (rule hoare_bind [OF hoare_sort_item [OF assms(1) i] Cons.IH [OF xs]])
qed (simp add: hoare_ret)

subsection \<open>Shipping what was pulled\<close>

lemma hoare_plain_step:
  assumes "\<And>P. growing pair P m"
  shows "hoare (at_page pair safe cursor items pw) m (\<lambda>_. at_page pair safe cursor items pw) (cursor_inv pair)"
  by (rule hoare_conseq [OF hoare_growing [OF assms kept_at_page]]) (auto simp: at_page_def dest: in_page_inv)

lemma hoare_error: "hoare (at_page pair safe cursor items pw) (record_item_error e)
    (\<lambda>_. at_page pair safe cursor items pw) (cursor_inv pair)"
  unfolding record_item_error_def by (rule hoare_plain_step [OF growing_report])

lemma noted_covered: "noted pair p w \<Longrightarrow> pulled (w_trace w) p \<Longrightarrow> di_uuid i = en_guid p \<Longrightarrow> covered pair w i"
  by (auto simp: noted_def covered_def source_said_def)

lemma work_mark:
  assumes "work_ok pair items pw w" "digest_order c seen items" "set batch \<subseteq> set (pw_pull pw)"
    "b \<Longrightarrow> noted pair p w \<and> pulled (w_trace w) p"
  shows "work_ok pair items (mark_unit batch (en_guid p) b pw) w"
proof (cases "map_of batch (en_guid p)")
  case (Some k)
  then have "(en_guid p, k) \<in> set (pw_pull pw)" using assms(3) by (auto dest: map_of_SomeD)
  with assms(1) obtain i where i: "i \<in> set items" "en_guid p = di_uuid i" "k = di_local_id i"
    unfolding work_ok_def by blast
  show ?thesis
  proof (cases b)
    case True
    with assms(4) noted_covered i(2) have "covered pair w i" by metis
    from work_converge [OF assms(1,2) i(1) this] Some i(3) show ?thesis by (simp add: mark_unit_def)
  next
    case False
    with work_converge_False [OF assms(1)] Some show ?thesis by (simp add: mark_unit_def)
  qed
qed (use assms(1) in \<open>simp add: mark_unit_def\<close>)

lemma mark_unit_same [simp]: "pw_pull (mark_unit batch g b pw) = pw_pull pw" "pw_trash (mark_unit batch g b pw) = pw_trash pw"
  by (simp_all add: mark_unit_def converge_def split: option.split)

lemma kept_pulled_all: "kept pair (\<lambda>w. \<forall>p \<in> set ps. pulled (w_trace w) p)"
  using keptD [OF kept_pulled] unfolding kept_def by blast

lemma hoare_ship_packets:
  assumes "pair = pair_key ss" "set batch \<subseteq> set (pw_pull pw)"
  shows "hoare (\<lambda>w. at_page pair safe cursor items pw w \<and> (\<forall>p \<in> set ps. pulled (w_trace w) p))
    (ship_packets ss batch ps pw)
    (\<lambda>pw' w. at_page pair safe cursor items pw' w \<and> pw_pull pw' = pw_pull pw) (cursor_inv pair)"
  using assms(2)
proof (induction ps arbitrary: pw)
  case (Cons p ps)
  let ?X = "\<lambda>w. \<forall>q \<in> set (p # ps). pulled (w_trace w) q"
  let ?P = "\<lambda>w. at_page pair safe cursor items pw w \<and> ?X w"
  have step: "hoare ?P (ship_one_packet ss p) (\<lambda>_ w. ?P w \<and> noted pair p w) ?P"
  proof (rule hoare_and)
    show "hoare ?P (ship_one_packet ss p) (\<lambda>_. ?P) ?P"
      by (rule hoare_growing [OF growing_weaken [OF growing_packet] kept_and [OF kept_at_page kept_pulled_all]]) simp
    show "hoare ?P (ship_one_packet ss p) (\<lambda>_. noted pair p) anything"
      unfolding assms(1) by (rule hoare_packet_noted)
  qed
  have next_ok: "hoare (\<lambda>w. at_page pair safe cursor items (mark_unit batch (en_guid p) b pw) w \<and> (\<forall>q \<in> set ps. pulled (w_trace w) q))
      (ship_packets ss batch ps (mark_unit batch (en_guid p) b pw))
      (\<lambda>pw' w. at_page pair safe cursor items pw' w \<and> pw_pull pw' = pw_pull pw) (cursor_inv pair)" for b
    using Cons.IH [of "mark_unit batch (en_guid p) b pw"] Cons.prems by simp
  have good: "hoare (\<lambda>w. ?P w \<and> noted pair p w) (ship_packets ss batch ps (mark_unit batch (en_guid p) True pw))
      (\<lambda>pw' w. at_page pair safe cursor items pw' w \<and> pw_pull pw' = pw_pull pw) (cursor_inv pair)"
    by (rule hoare_pre [OF next_ok]) (use work_mark [OF _ _ Cons.prems] in \<open>auto simp: at_page_def in_page_def\<close>)
  have err: "hoare ?P (record_item_error e) (\<lambda>_. ?P) (cursor_inv pair)" for e
    unfolding record_item_error_def by (rule hoare_page_step [OF growing_report kept_pulled_all])
  have bad: "hoare ?P (seq (record_item_error e) (ship_packets ss batch ps (mark_unit batch (en_guid p) False pw)))
      (\<lambda>pw' w. at_page pair safe cursor items pw' w \<and> pw_pull pw' = pw_pull pw) (cursor_inv pair)" for e
    by (rule hoare_seq [OF err hoare_pre [OF next_ok]])
      (use work_mark [OF _ _ Cons.prems] in \<open>auto simp: at_page_def in_page_def\<close>)
  have tail: "hoare (\<lambda>w. case r of Inl _ \<Rightarrow> ?P w | Inr _ \<Rightarrow> ?P w \<and> noted pair p w)
      (case r of Inr u \<Rightarrow> ship_packets ss batch ps (mark_unit batch (en_guid p) True pw)
        | Inl e \<Rightarrow> seq (record_item_error e) (ship_packets ss batch ps (mark_unit batch (en_guid p) False pw)))
      (\<lambda>pw' w. at_page pair safe cursor items pw' w \<and> pw_pull pw' = pw_pull pw) (cursor_inv pair)" for r :: "db_error + unit"
    using good bad by (cases r) simp_all
  show ?case
    unfolding ship_packets.simps by (rule hoare_bind [OF hoare_attempt [OF step] tail])
qed (simp add: hoare_ret)

lemma pull_packets_Inr:
  assumes "pull_packets rn us env n w = (Inr ps, n', w')"
  shows "\<forall>p \<in> set ps. pulled (w_trace w') p"
proof -
  have "PullCall us (Some (Given ps)) \<in> set (w_trace w')"
    using assms by (auto simp: pull_packets_def bind_def seq_def call_out_def ensure_def ret_def fail_def
        split: option.splits answer.splits if_splits)
  then show ?thesis unfolding pulled_def by blast
qed

lemma growing_pull: "growing pair P (pull_packets rn us)"
proof -
  have "growing pair (\<lambda>w. True) (pull_packets rn us)"
    unfolding pull_packets_def
    by (rule growing_bind [OF kept_true growing_plain_call(7)])
      (auto intro!: growing_seq growing_ensure growing_ret growing_fail kept_true split: answer.split)
  then show ?thesis by (rule growing_weaken) simp
qed

lemma hoare_pull:
  "hoare (at_page pair safe cursor items pw) (pull_packets rn us)
    (\<lambda>ps w. at_page pair safe cursor items pw w \<and> (\<forall>p \<in> set ps. pulled (w_trace w) p)) (at_page pair safe cursor items pw)"
proof (rule hoare_and)
  show "hoare (at_page pair safe cursor items pw) (pull_packets rn us) (\<lambda>_. at_page pair safe cursor items pw) (at_page pair safe cursor items pw)"
    by (rule hoare_growing [OF growing_pull kept_at_page])
  show "hoare (at_page pair safe cursor items pw) (pull_packets rn us) (\<lambda>ps w. \<forall>p \<in> set ps. pulled (w_trace w) p) anything"
    using pull_packets_Inr by (fastforce simp: hoare_def split: sum.splits)
qed

lemma hoare_ship_batches:
  assumes "pair = pair_key ss" "\<forall>b \<in> set batches. set b \<subseteq> set (pw_pull pw)"
  shows "hoare (at_page pair safe cursor items pw) (ship_batches rn ss batches pw)
    (\<lambda>pw'. at_page pair safe cursor items pw') (cursor_inv pair)"
  using assms(2)
proof (induction batches arbitrary: pw)
  case (Cons batch batches)
  let ?A = "at_page pair safe cursor items"
  have packets: "hoare (\<lambda>w. ?A pw w \<and> (\<forall>p \<in> set ps. pulled (w_trace w) p))
      (seq (report f) (bind (ship_packets ss batch ps pw) (ship_batches rn ss batches))) (\<lambda>pw'. ?A pw') (cursor_inv pair)" for ps f
  proof (rule hoare_seq [OF hoare_page_step [OF growing_report kept_pulled_all]])
    have "set batch \<subseteq> set (pw_pull pw)" using Cons.prems by simp
    moreover have "hoare (\<lambda>w. ?A pw' w \<and> pw_pull pw' = pw_pull pw) (ship_batches rn ss batches pw') (\<lambda>pw''. ?A pw'') (cursor_inv pair)" for pw'
      by (rule hoare_assume [where b = "pw_pull pw' = pw_pull pw"]) (use Cons in \<open>auto intro: hoare_pre\<close>)
    ultimately show "hoare (\<lambda>w. ?A pw w \<and> (\<forall>p \<in> set ps. pulled (w_trace w) p))
        (bind (ship_packets ss batch ps pw) (ship_batches rn ss batches)) (\<lambda>pw'. ?A pw') (cursor_inv pair)"
      by (intro hoare_bind [OF hoare_ship_packets [OF assms(1)]])
  qed
  have stop: "hoare (?A pw) (seq (record_item_error e) (ret pw)) (\<lambda>pw'. ?A pw') (cursor_inv pair)" for e
    by (rule hoare_seq [OF hoare_error hoare_ret])
  have tail: "hoare (\<lambda>w. case r of Inl _ \<Rightarrow> ?A pw w | Inr ps \<Rightarrow> ?A pw w \<and> (\<forall>p \<in> set ps. pulled (w_trace w) p))
      (case r of Inl e \<Rightarrow> seq (record_item_error e) (ret pw)
        | Inr ps \<Rightarrow> seq (report (\<lambda>rp. rp\<lparr>rp_pulled := rp_pulled rp + length ps\<rparr>))
            (bind (ship_packets ss batch ps pw) (ship_batches rn ss batches))) (\<lambda>pw'. ?A pw') (cursor_inv pair)" for r
    using packets stop by (cases r) simp_all
  show ?case unfolding ship_batches.simps by (rule hoare_bind [OF hoare_attempt [OF hoare_pull] tail])
qed (simp add: hoare_ret)

subsection \<open>Tombstones\<close>

lemma growing_tombstone_of: "growing pair P (tombstone_of rn ss u t k c a)"
proof -
  have "growing pair (\<lambda>w. True) (tombstone_of rn ss u t k c a)"
    unfolding tombstone_of_def by (intro growing_bind kept_true growing_fresh growing_now growing_ret)
  then show ?thesis by (rule growing_weaken) simp
qed

lemma hoare_change_known:
  "hoare P (update_pair_state (\<lambda>now. change_known u f))
    (\<lambda>_ w. known_of_unit w u = None \<or> (\<exists>k. known_of_unit w u = Some (f k))) anything"
proof -
  have "hoare P (update_stmt (\<lambda>now w. w\<lparr>w_state := (change_known u f (w_state w))\<lparr>ps_updated_at := unix_ts now\<rparr>\<rparr>))
      (\<lambda>_ w. known_of_unit w u = None \<or> (\<exists>k. known_of_unit w u = Some (f k))) anything"
    by (auto simp: hoare_def update_stmt_def execute_def known_of_unit_def map_of_change_known split: if_splits)
      (metis not_None_eq)
  moreover have "hoare (\<lambda>w. known_of_unit w u = None \<or> (\<exists>k. known_of_unit w u = Some (f k))) unit_lease
      (\<lambda>_ w. known_of_unit w u = None \<or> (\<exists>k. known_of_unit w u = Some (f k))) anything"
    by (auto simp: hoare_def unit_lease_def query_def execute_def split: if_splits)
  ultimately show ?thesis unfolding update_pair_state_def update_doc_def by (rule hoare_seq)
qed

lemma growing_change_known:
  assumes "\<And>w. P w \<Longrightarrow> source_said (w_trace w) u fp" "\<And>k. kn_fingerprint (f k) = fp"
  shows "growing pair P (update_pair_state (\<lambda>now. change_known u f))"
proof (rule growing_pair_state)
  show "known_step (w_trace w) v (known_of_unit w v) (map_of (ps_known (change_known u f (w_state w))) v)" if "P w" for w v
    using assms(1) [OF that] assms(2) by (cases "known_of_unit w u") (auto simp: map_of_change_known known_step_def known_of_unit_def)
qed (simp add: change_known_def)

lemma hoare_trash_items:
  assumes "set ts \<subseteq> set items" "\<forall>i \<in> set ts. di_status i = ''trash''"
  shows "hoare (at_page pair safe cursor items pw) (trash_items rn ss ts pw) (\<lambda>pw'. at_page pair safe cursor items pw') (cursor_inv pair)"
  using assms
proof (induction ts arbitrary: pw)
  case (Cons i ts)
  let ?A = "at_page pair safe cursor items"
  let ?f = "\<lambda>k. k\<lparr>kn_post_status := di_status i, kn_fingerprint := di_fingerprint i, kn_clock := di_clock i\<rparr>"
  from Cons.prems have i: "i \<in> set items" "di_status i = ''trash''" and ts: "set ts \<subseteq> set items" "\<forall>i \<in> set ts. di_status i = ''trash''"
    by simp_all
  have inv: "?A pw w \<Longrightarrow> cursor_inv pair w" for w by (auto simp: at_page_def dest: in_page_inv)
  have here: "?A pw w \<Longrightarrow> i \<in> digest_items (w_trace w)" for w using i(1) by (auto simp: at_page_def in_page_def)
  have upd: "hoare (?A pw) (update_pair_state (\<lambda>now. change_known (di_uuid i) ?f))
      (\<lambda>_ w. ?A pw w \<and> (known_of_unit w (di_uuid i) = None \<or> (\<exists>k. known_of_unit w (di_uuid i) = Some (?f k)))) (cursor_inv pair)"
  proof (rule hoare_and)
    have "growing pair (?A pw) (update_pair_state (\<lambda>now. change_known (di_uuid i) ?f))"
      by (rule growing_change_known [where fp = "di_fingerprint i"]) (use here item_said(1) in auto)
    from hoare_growing [OF this kept_at_page]
    show "hoare (?A pw) (update_pair_state (\<lambda>now. change_known (di_uuid i) ?f)) (\<lambda>_. ?A pw) (cursor_inv pair)"
      by (rule hoare_conseq) (auto intro: inv)
  qed (rule hoare_change_known)
  have cov: "covered pair w i" if "?A pw w" "known_of_unit w (di_uuid i) = None \<or> (\<exists>k. known_of_unit w (di_uuid i) = Some (?f k))" for w
    using that(2) item_said [OF here [OF that(1)]] i(2) by (auto simp: covered_def)
  have marked: "?A (converge (di_local_id i) True pw) w"
    if "?A pw w" "known_of_unit w (di_uuid i) = None \<or> (\<exists>k. known_of_unit w (di_uuid i) = Some (?f k))" for w
    using that(1) work_converge [OF _ _ i(1) cov [OF that]] by (auto simp: at_page_def in_page_def)
  have ok: "hoare (?A pw) (seq (report g) (seq (update_pair_state (\<lambda>now. change_known (di_uuid i) ?f))
      (trash_items rn ss ts (converge (di_local_id i) True pw)))) (\<lambda>pw'. ?A pw') (cursor_inv pair)" for g
    by (rule hoare_seq [OF hoare_plain_step [OF growing_report] hoare_seq [OF upd hoare_pre [OF Cons.IH [OF ts]]]])
      (use marked in blast)
  have bad: "hoare (?A pw) (seq (record_item_error e) (trash_items rn ss ts pw)) (\<lambda>pw'. ?A pw') (cursor_inv pair)" for e
    by (rule hoare_seq [OF hoare_error Cons.IH [OF ts]])
  have ship: "hoare (?A pw) (ship_tombstone_packet ss t) (\<lambda>_. ?A pw) (?A pw)" for t
    by (rule hoare_growing [OF growing_tombstone kept_at_page])
  have tail: "hoare (\<lambda>w. case r of Inl _ \<Rightarrow> ?A pw w | Inr _ \<Rightarrow> ?A pw w)
      (case r of Inr u \<Rightarrow> seq (report (\<lambda>rp. rp\<lparr>rp_trashed := rp_trashed rp + 1\<rparr>))
            (seq (update_pair_state (\<lambda>now. change_known (di_uuid i) ?f)) (trash_items rn ss ts (converge (di_local_id i) True pw)))
        | Inl e \<Rightarrow> seq (record_item_error e) (trash_items rn ss ts pw)) (\<lambda>pw'. ?A pw') (cursor_inv pair)" for r :: "db_error + unit"
    using ok bad by (cases r) simp_all
  show ?case
    unfolding trash_items.simps
    by (rule hoare_bind [OF hoare_plain_step [OF growing_tombstone_of] hoare_bind [OF hoare_attempt [OF ship] tail]])
qed (simp add: hoare_ret)

subsection \<open>The cursor over a page\<close>

lemma advance_bounds:
  "safe \<le> fst (advance_safe_cursor_contiguous conv items safe)"
  "fst (advance_safe_cursor_contiguous conv items safe) \<le> foldl max safe (map di_local_id items)"
proof (induction items arbitrary: safe)
  case (Cons i items)
  { case 1 from Cons.IH(1) [of "max safe (di_local_id i)"] show ?case by simp }
  { case 2 from Cons.IH(2) [of "max safe (di_local_id i)"] foldl_max_ge [of "max safe (di_local_id i)" "map di_local_id items"]
    show ?case by simp }
qed simp_all

lemma advance_all:
  "snd (advance_safe_cursor_contiguous conv items safe) \<Longrightarrow>
     fst (advance_safe_cursor_contiguous conv items safe) = foldl max safe (map di_local_id items)"
  by (induction items arbitrary: safe) (auto split: if_splits)

text \<open>An item that the cursor has reached was below it or has converged.\<close>

lemma advance_converged:
  "digest_order c seen items \<Longrightarrow> i \<in> set items \<Longrightarrow>
     di_local_id i \<le> fst (advance_safe_cursor_contiguous conv items safe) \<Longrightarrow>
     di_local_id i \<le> safe \<or> conv (di_local_id i) = Some True"
proof (induction c seen items arbitrary: safe rule: digest_order.induct)
  case (2 previous seen j items)
  show ?case
  proof (cases "conv (di_local_id j) = Some True")
    case False
    with 2 show ?thesis by auto
  next
    case True
    show ?thesis
    proof (cases "i = j")
      case False
      with 2 True have i: "i \<in> set items" "digest_order (di_local_id j) (di_uuid j # seen) items" by auto
      from digest_order_ids [OF i(2,1)] have "di_local_id j < di_local_id i" .
      with 2(1) [OF i(2,1), of "max safe (di_local_id j)"] 2(4) True show ?thesis by auto
    qed (use True in simp)
  qed
qed simp

lemma foldl_max_mono: "c \<le> d \<Longrightarrow> foldl max c xs \<le> foldl max d xs" for c d :: nat
  by (induction xs arbitrary: c d) (auto simp: max_def)

lemma foldl_max_nonempty:
  fixes c d :: nat
  assumes "\<forall>x \<in> set xs. c < x" "xs \<noteq> []"
  shows "foldl max c xs \<le> foldl max d xs"
proof -
  have "foldl max a xs \<le> y" if "\<forall>x \<in> set xs. x \<le> y" "a \<le> y" for a y :: nat
    using that by (induction xs arbitrary: a) auto
  moreover have "\<forall>x \<in> set xs. x \<le> foldl max d xs" using foldl_max_le by blast
  moreover obtain x where "x \<in> set xs" using assms(2) by (cases xs) auto
  ultimately show ?thesis using assms(1) by (meson less_imp_le_nat order_trans)
qed

lemma chunks_of_subset: "b \<in> set (chunks_of n xs) \<Longrightarrow> set b \<subseteq> set xs"
proof (induction n xs rule: chunks_of.induct)
  case (1 n xs)
  then show ?case
    by (subst (asm) (2) chunks_of.simps) (auto split: if_splits dest: in_set_takeD in_set_dropD)
qed

lemma foldl_max_least:
  fixes a y :: nat
  shows "\<forall>x \<in> set xs. x \<le> y \<Longrightarrow> a \<le> y \<Longrightarrow> foldl max a xs \<le> y"
  by (induction xs arbitrary: a) auto

lemma covered_lifted:
  assumes "at_page pair safe cursor items pw w" "blocked \<or> cursor \<le> safe"
    "safe1 = (if blocked then safe else fst (advance_safe_cursor_contiguous (pw_converged pw) items safe))"
  shows "covered_below pair safe1 w"
  unfolding covered_below_def
proof (intro ballI impI)
  fix i assume i: "i \<in> digest_items (w_trace w)" "di_local_id i \<le> safe1"
  from assms(1) have old: "di_local_id i \<le> safe \<Longrightarrow> covered pair w i" and ord: "digest_order cursor [] items"
    and work: "i \<in> set items \<Longrightarrow> pw_converged pw (di_local_id i) = Some True \<Longrightarrow> covered pair w i"
    and page: "i \<in> set items \<or> di_local_id i \<le> cursor"
    using i(1) by (auto simp: at_page_def in_page_def covered_below_def work_ok_def)
  show "covered pair w i"
  proof (cases blocked)
    case True
    with i(2) assms(3) old show ?thesis by simp
  next
    case False
    with page assms(2) old have "i \<in> set items \<or> covered pair w i" by auto
    with False i(2) assms(3) advance_converged [OF ord] old work show ?thesis by auto
  qed
qed

lemma hoare_save_cursor:
  assumes "\<And>w. at_page pair safe cursor items pw w \<Longrightarrow> covered_below pair safe1 w" "safe \<le> safe1"
  shows "hoare (at_page pair safe cursor items pw) (save_cursor safe1) (\<lambda>_. at_page pair safe1 cursor items pw) (cursor_inv pair)"
proof -
  let ?set = "\<lambda>now w. w\<lparr>w_state := ((w_state w)\<lparr>ps_last_seen := safe1\<rparr>)\<lparr>ps_updated_at := unix_ts now\<rparr>\<rparr>"
  have raise: "at_page pair safe cursor items pw w \<Longrightarrow> at_page pair safe1 cursor items pw w" for w
    using assms by (auto simp: at_page_def in_page_def)
  have cov: "covered pair (?set now w) i = covered pair w i" for now w i
    by (simp add: covered_def known_of_unit_def split: option.split)
  have set: "at_page pair safe cursor items pw w \<Longrightarrow> at_page pair safe1 cursor items pw (?set now w)" for now w
    using raise [of w] by (simp add: at_page_def in_page_def covered_below_def work_ok_def cov)
  have inv: "at_page pair safe1 cursor items pw w \<Longrightarrow> cursor_inv pair w" for w
    by (auto simp: at_page_def dest: in_page_inv)
  have "hoare (at_page pair safe cursor items pw) (update_stmt ?set) (\<lambda>_. at_page pair safe1 cursor items pw) (cursor_inv pair)"
    using raise set inv unfolding hoare_def update_stmt_def execute_def by (auto split: if_splits)
  from hoare_seq [OF this hoare_plain_step [OF growing_lease]]
  show ?thesis unfolding save_cursor_def update_pair_state_def update_doc_def .
qed

text \<open>Before a page, and after it.\<close>

definition scanning :: "string \<Rightarrow> nat \<Rightarrow> bool \<Rightarrow> nat \<Rightarrow> sync_world \<Rightarrow> bool" where
  "scanning pair safe blocked cursor w \<longleftrightarrow> covered_below pair safe w \<and> ps_last_seen (w_state w) \<le> safe \<and> safe \<le> cursor
     \<and> (blocked \<or> cursor \<le> safe) \<and> (\<forall>i \<in> digest_items (w_trace w). di_local_id i \<le> cursor)"

lemma hoare_scan_page:
  assumes "pair = pair_key ss" "items \<noteq> []" "safe \<le> cursor" "blocked \<or> cursor \<le> safe"
  shows "hoare (in_page pair safe cursor items) (scan_page rn ss items safe blocked)
    (\<lambda>(safe', blocked'). scanning pair safe' blocked' (foldl max cursor (map di_local_id items))) (cursor_inv pair)"
proof (cases "\<exists>w. in_page pair safe cursor items w")
  case True
  then have ord: "digest_order cursor [] items" by (auto simp: in_page_def)
  let ?c = "foldl max cursor (map di_local_id items)"
  define lift where "lift = (\<lambda>(pw :: page_work) s. if blocked then s else fst (advance_safe_cursor_contiguous (pw_converged pw) items s))"
  have lift_ge: "s \<le> lift pw s" for pw s by (simp add: lift_def advance_bounds)
  have lift_le: "lift pw s \<le> ?c" if "s \<le> ?c" for pw s
  proof -
    have "foldl max s (map di_local_id items) \<le> ?c"
      using that foldl_max_le [of _ "map di_local_id items" cursor] by (intro foldl_max_least) blast
    with advance_bounds(2) [of "pw_converged pw" items s] that show ?thesis by (simp add: lift_def)
  qed
  have c: "cursor \<le> ?c" by (rule foldl_max_ge)
  have all: "?c \<le> lift pw s" if "\<not> blocked" "snd (advance_safe_cursor_contiguous (pw_converged pw) items s)" for pw s
  proof -
    have "?c \<le> foldl max s (map di_local_id items)"
      using digest_order_ids [OF ord] assms(2) by (intro foldl_max_nonempty) auto
    with that advance_all [OF that(2)] show ?thesis by (simp add: lift_def)
  qed
  let ?A = "at_page pair"
  have save: "hoare (?A s cursor items pw) (save_cursor (lift pw s)) (\<lambda>_. ?A (lift pw s) cursor items pw) (cursor_inv pair)"
    if "safe \<le> s" for pw s
    by (rule hoare_save_cursor)
      (use covered_lifted [of pair s cursor items pw _ blocked "lift pw s"] assms(4) that lift_ge in \<open>auto simp: lift_def\<close>)
  have ending: "hoare (?A s cursor items pw)
      (let moved = advance_safe_cursor_contiguous (pw_converged pw) items s; safe2 = (if blocked then s else fst moved) in
       seq (save_cursor safe2) (ret (safe2, blocked \<or> \<not> snd moved)))
      (\<lambda>(safe', blocked'). scanning pair safe' blocked' ?c) (cursor_inv pair)" if "safe \<le> s" "s \<le> ?c" for pw s
  proof -
    have "hoare (?A (lift pw s) cursor items pw)
        (ret (lift pw s, blocked \<or> \<not> snd (advance_safe_cursor_contiguous (pw_converged pw) items s)))
        (\<lambda>(safe', blocked'). scanning pair safe' blocked' ?c) (cursor_inv pair)"
    proof (rule hoare_ret)
      fix w assume w: "?A (lift pw s) cursor items pw w"
      have "di_local_id i \<le> ?c" if "i \<in> digest_items (w_trace w)" for i
        using w that foldl_max_le [of "di_local_id i" "map di_local_id items" cursor] c
        by (auto simp: at_page_def in_page_def)
      with w lift_le [OF that(2)] all
      show "(case (lift pw s, blocked \<or> \<not> snd (advance_safe_cursor_contiguous (pw_converged pw) items s)) of
          (safe', blocked') \<Rightarrow> scanning pair safe' blocked' ?c) w"
        by (auto simp: scanning_def at_page_def in_page_def)
    qed
    from hoare_seq [OF save [OF that(1)] this] show ?thesis by (simp add: Let_def lift_def)
  qed
  have trash: "hoare (?A s cursor items pw) (bind (trash_items rn ss (pw_trash pw) pw) f) Q (cursor_inv pair)"
    if "\<And>pw'. hoare (?A s cursor items pw') (f pw') Q (cursor_inv pair)" for s pw f and Q :: "nat \<times> bool \<Rightarrow> sync_world \<Rightarrow> bool"
  proof (rule hoare_assume)
    show "set (pw_trash pw) \<subseteq> set items \<and> (\<forall>i \<in> set (pw_trash pw). di_status i = ''trash'')" if "?A s cursor items pw w" for w
      using that by (auto simp: at_page_def work_ok_def)
    assume t: "set (pw_trash pw) \<subseteq> set items \<and> (\<forall>i \<in> set (pw_trash pw). di_status i = ''trash'')"
    show "hoare (?A s cursor items pw) (bind (trash_items rn ss (pw_trash pw) pw) f) Q (cursor_inv pair)"
      by (rule hoare_bind [OF hoare_trash_items that]) (use t in auto)
  qed
  have batches: "hoare (?A s cursor items pw) (ship_batches rn ss (chunks_of PULL_BATCH_SIZE (pw_pull pw)) pw)
      (\<lambda>pw'. ?A s cursor items pw') (cursor_inv pair)" for s pw
    by (rule hoare_ship_batches [OF assms(1)]) (use chunks_of_subset in blast)
  have work: "hoare (\<lambda>w. ?A safe cursor items pw w \<and> snapshot pair known reviews w)
      (let safe1 = (if blocked then safe else fst (advance_safe_cursor_contiguous (pw_converged pw) items safe)) in
       seq (save_cursor safe1)
      (bind (ship_batches rn ss (chunks_of PULL_BATCH_SIZE (pw_pull pw)) pw) (\<lambda>pw2.
       bind (trash_items rn ss (pw_trash pw2) pw2) (\<lambda>pw3.
       let moved = advance_safe_cursor_contiguous (pw_converged pw3) items safe1;
           safe2 = (if blocked then safe1 else fst moved) in
       seq (save_cursor safe2) (ret (safe2, blocked \<or> \<not> snd moved))))))
      (\<lambda>(safe', blocked'). scanning pair safe' blocked' ?c) (cursor_inv pair)" for pw known reviews
  proof -
    have s1: "safe \<le> lift pw safe" "lift pw safe \<le> ?c" using lift_ge lift_le c assms(3) by auto
    have eq: "(if blocked then safe else fst (advance_safe_cursor_contiguous (pw_converged pw) items safe)) = lift pw safe"
      by (simp add: lift_def)
    show ?thesis
      unfolding eq Let_def [of "lift pw safe"]
      by (rule hoare_pre [OF hoare_seq [OF save [OF order_refl] hoare_bind [OF batches trash [OF ending [OF s1]]]]]) simp
  qed
  have inv: "in_page pair safe cursor items w \<Longrightarrow> cursor_inv pair w" for w by (rule in_page_inv)
  have report: "hoare (in_page pair safe cursor items) (report f) (\<lambda>_. in_page pair safe cursor items) (cursor_inv pair)" for f
    by (rule hoare_conseq [OF hoare_growing [OF growing_report kept_page]]) (auto intro: inv)
  have start: "at_page pair safe cursor items no_work w \<and> snapshot pair known reviews w"
    if "(in_page pair safe cursor items w \<and> known = ps_known (w_state w)) \<and> reviews = w_review w" for known reviews w
  proof -
    have "snapshot pair (ps_known (w_state w)) (w_review w) w" using world_grows_refl unfolding snapshot_def by blast
    with that show ?thesis by (auto simp: at_page_def work_ok_def no_work_def)
  qed
  show ?thesis
    unfolding scan_page_def
    by (rule hoare_seq [OF report], rule hoare_bind [OF hoare_query], erule inv, rule hoare_bind [OF hoare_query], erule conjE, erule inv)
      (rule hoare_pre [OF hoare_bind [OF hoare_sort_items [OF assms(1) order_refl] work]], erule start)
next
  case False
  then show ?thesis by (auto simp: hoare_def)
qed

subsection \<open>All pages\<close>

lemma digest_items_fetch:
  "digest_items (calls @ [DigestCall c a]) = digest_items calls
     \<union> (case a of Some (Given items) \<Rightarrow>
          if digest_typed items \<and> length items \<le> DIGEST_PAGE_SIZE \<and> digest_order c [] items then set items else {}
        | _ \<Rightarrow> {})"
  by (auto simp: digest_items_def split: option.splits answer.splits)

lemma covered_call: "covered pair w i \<Longrightarrow> covered pair (w\<lparr>w_trace := w_trace w @ calls\<rparr>) i"
  using said_mono(3,5) [of "w_trace w" "w_trace w @ calls" "di_uuid i"]
  by (auto simp: covered_def known_of_unit_def split: option.splits)

lemma fetch_digest_world:
  "fetch_digest rn c env n w = (r, n', w') \<Longrightarrow>
     w' = w \<or> w' = w\<lparr>w_trace := w_trace w @ [DigestCall c (rn_digest rn n)]\<rparr> \<and>
       ((\<exists>items. r = Inr items \<and> rn_digest rn n = Some (Given items)) \<or> digest_items (w_trace w') = digest_items (w_trace w))"
  by (auto simp: fetch_digest_def bind_def seq_def call_out_def ensure_def ret_def fail_def digest_items_fetch
      split: option.splits answer.splits if_splits)

lemma hoare_fetch:
  "hoare (scanning pair safe blocked cursor) (fetch_digest rn cursor)
    (\<lambda>items w. if items = [] then scanning pair safe blocked cursor w
       else in_page pair safe cursor items w \<and> safe \<le> cursor \<and> (blocked \<or> cursor \<le> safe))
    (scanning pair safe blocked cursor)"
proof (rule hoareI)
  fix env n w r n' w' assume P: "scanning pair safe blocked cursor w" and run: "fetch_digest rn cursor env n w = (r, n', w')"
  have below: "covered_below pair safe (w\<lparr>w_trace := w_trace w @ [DigestCall cursor a]\<rparr>)"
    if "\<forall>i \<in> digest_items (w_trace w @ [DigestCall cursor a]). i \<in> digest_items (w_trace w) \<or> cursor < di_local_id i" for a
    using P that covered_call by (fastforce simp: scanning_def covered_below_def)
  show "case r of Inl _ \<Rightarrow> scanning pair safe blocked cursor w'
    | Inr items \<Rightarrow> if items = [] then scanning pair safe blocked cursor w'
       else in_page pair safe cursor items w' \<and> safe \<le> cursor \<and> (blocked \<or> cursor \<le> safe)"
  proof (cases r)
    case (Inl e)
    from fetch_digest_world [OF run] Inl have "w' = w \<or> w' = w\<lparr>w_trace := w_trace w @ [DigestCall cursor (rn_digest rn n)]\<rparr>
        \<and> digest_items (w_trace w') = digest_items (w_trace w)" by auto
    with P below [of "rn_digest rn n"] have "scanning pair safe blocked cursor w'" by (auto simp: scanning_def)
    with Inl show ?thesis by simp
  next
    case (Inr items)
    from run Inr have f: "rn_digest rn n = Some (Given items)" "digest_typed items" "length items \<le> DIGEST_PAGE_SIZE"
        "digest_order cursor [] items" and w': "w' = w\<lparr>w_trace := w_trace w @ [DigestCall cursor (Some (Given items))]\<rparr>"
      by (auto simp: fetch_digest_Inr)
    have d: "digest_items (w_trace w') = digest_items (w_trace w) \<union> set items"
      using f by (simp add: w' digest_items_fetch)
    have "covered_below pair safe w'"
      unfolding w' by (rule below) (use d digest_order_ids [OF f(4)] in \<open>auto simp: w'\<close>)
    with P d f(4) Inr show ?thesis by (auto simp: scanning_def in_page_def w')
  qed
qed

lemma scanning_inv: "scanning pair safe blocked cursor w \<Longrightarrow> cursor_inv pair w"
  by (auto simp: scanning_def cursor_inv_def covered_below_def)

lemma growing_finish: "growing pair P (finish_with_error p e)" "growing pair P (finish_run p safe)"
proof -
  have doc: "growing pair (\<lambda>w. True) (update_doc (\<lambda>now w. w\<lparr>w_pairs := f now w\<rparr>))" for f
    by (rule growing_update) (rule grows_same; simp)
  have "growing pair (\<lambda>w. True) (finish_with_error p e)"
    unfolding finish_with_error_def by (intro growing_seq kept_true growing_report doc)
  then show "growing pair P (finish_with_error p e)" by (rule growing_weaken) simp
  have "growing pair (\<lambda>w. True) (finish_run p safe)" unfolding finish_run_def by (rule doc)
  then show "growing pair P (finish_run p safe)" by (rule growing_weaken) simp
qed

lemma hoare_inv: "growing pair (\<lambda>w. True) m \<Longrightarrow> hoare (cursor_inv pair) m (\<lambda>_. cursor_inv pair) (cursor_inv pair)"
  by (rule hoare_growing [OF growing_weaken kept_inv]) auto

lemma hoare_scan_pages:
  assumes "pair = pair_key ss"
  shows "hoare (scanning pair safe blocked cursor) (scan_pages rn ss fuel cursor safe blocked) (\<lambda>_. cursor_inv pair) (cursor_inv pair)"
proof (induction fuel arbitrary: safe blocked cursor)
  case 0
  show ?case by (auto intro: hoare_ret scanning_inv)
next
  case (Suc fuel)
  let ?I = "cursor_inv pair"
  let ?c = "\<lambda>items. foldl max cursor (map di_local_id items)"
  have rest: "hoare (\<lambda>w. case sb of (s, b) \<Rightarrow> scanning pair s b (?c items) w)
      (case sb of (s, b) \<Rightarrow> if length items < DIGEST_PAGE_SIZE then ret (Scanned s) else scan_pages rn ss fuel (?c items) s b)
      (\<lambda>_. ?I) ?I" for sb items
    using Suc.IH by (cases sb) (auto intro: hoare_ret scanning_inv)
  have page: "hoare (\<lambda>w. in_page pair safe cursor items w \<and> safe \<le> cursor \<and> (blocked \<or> cursor \<le> safe))
      (bind (scan_page rn ss items safe blocked) (\<lambda>(s, b). if length items < DIGEST_PAGE_SIZE then ret (Scanned s)
         else scan_pages rn ss fuel (?c items) s b)) (\<lambda>_. ?I) ?I" if "items \<noteq> []" for items
  proof (rule hoare_assume)
    show "safe \<le> cursor \<and> (blocked \<or> cursor \<le> safe)"
      if "in_page pair safe cursor items w \<and> safe \<le> cursor \<and> (blocked \<or> cursor \<le> safe)" for w using that by blast
    assume "safe \<le> cursor \<and> (blocked \<or> cursor \<le> safe)"
    then have "hoare (in_page pair safe cursor items) (scan_page rn ss items safe blocked)
        (\<lambda>sb w. case sb of (s, b) \<Rightarrow> scanning pair s b (?c items) w) ?I"
      using hoare_scan_page [OF assms that, of safe cursor blocked rn] by (simp add: case_prod_unfold)
    from hoare_bind [OF this rest]
    show "hoare (\<lambda>w. in_page pair safe cursor items w \<and> safe \<le> cursor \<and> (blocked \<or> cursor \<le> safe))
      (bind (scan_page rn ss items safe blocked) (\<lambda>(s, b). if length items < DIGEST_PAGE_SIZE then ret (Scanned s)
         else scan_pages rn ss fuel (?c items) s b)) (\<lambda>_. ?I) ?I"
      by (rule hoare_pre) blast
  qed
  have stop: "hoare (scanning pair safe blocked cursor) (seq (finish_with_error (ss_pair ss) e) (ret RunOver)) (\<lambda>_. ?I) ?I" for e
    by (rule hoare_pre [OF hoare_seq [OF hoare_inv [OF growing_finish(1)] hoare_ret]]) (auto intro: scanning_inv)
  have tail: "hoare (\<lambda>w. case r of Inl _ \<Rightarrow> scanning pair safe blocked cursor w
        | Inr items \<Rightarrow> (if items = [] then scanning pair safe blocked cursor w
            else in_page pair safe cursor items w \<and> safe \<le> cursor \<and> (blocked \<or> cursor \<le> safe)))
      (case r of Inl e \<Rightarrow> seq (finish_with_error (ss_pair ss) e) (ret RunOver)
        | Inr items \<Rightarrow> if items = [] then ret (Scanned safe)
            else bind (scan_page rn ss items safe blocked) (\<lambda>(s, b). if length items < DIGEST_PAGE_SIZE then ret (Scanned s)
              else scan_pages rn ss fuel (?c items) s b)) (\<lambda>_. ?I) ?I" for r
    using stop page by (cases r) (auto intro: hoare_ret scanning_inv)
  show ?case
    unfolding scan_pages.simps by (rule hoare_bind [OF hoare_attempt [OF hoare_fetch] tail])
qed

subsection \<open>The rotation and the whole run\<close>

lemma growing_bind_with:
  assumes "kept pair P" "growing pair P m" "hoare P m R anything" "\<And>a. growing pair (\<lambda>w. P w \<and> R a w) (f a)"
  shows "growing pair P (bind m f)"
  unfolding growing_def
proof (intro allI impI)
  fix env n w r n' w' assume P: "P w" and run: "bind m f env n w = (r, n', w')"
  obtain r1 n1 w1 where m: "m env n w = (r1, n1, w1)" by (metis prod_cases3)
  from growingD [OF assms(2) P m] have g: "grows pair w w1" .
  show "grows pair w w'"
  proof (cases r1)
    case (Inr a)
    with run m have "f a env n1 w1 = (r, n', w')" by (simp add: bind_def)
    moreover have "P w1 \<and> R a w1" using keptD [OF assms(1) P g] hoareD [OF assms(3) P m] Inr by simp
    ultimately have "grows pair w1 w'" using growingD [OF assms(4)] by blast
    with g show ?thesis by (rule world_grows_trans)
  qed (use run m g in \<open>simp add: bind_def\<close>)
qed

lemma growing_error: "growing pair P (record_item_error e)" and growing_skipped: "growing pair P skipped_one"
  unfolding record_item_error_def skipped_one_def by (rule growing_report)+

lemma growing_reship: "growing pair (\<lambda>w. \<forall>p \<in> set ps. pulled (w_trace w) p) (reship ss ps)"
proof (induction ps)
  case (Cons p ps)
  have "growing pair (\<lambda>w. \<forall>q \<in> set (p # ps). pulled (w_trace w) q) (ship_one_packet ss p)"
    by (rule growing_weaken [OF growing_packet]) simp
  moreover have "growing pair (\<lambda>w. \<forall>q \<in> set (p # ps). pulled (w_trace w) q) (reship ss ps)"
    by (rule growing_weaken [OF Cons.IH]) simp
  ultimately show ?case
    unfolding reship.simps
    by (intro growing_bind [OF kept_pulled_all] growing_attempt growing_seq [OF kept_pulled_all] growing_cases growing_ret growing_error)
qed (simp add: growing_ret)

lemma hoare_pulled: "hoare P (pull_packets rn us) (\<lambda>ps w. \<forall>p \<in> set ps. pulled (w_trace w) p) anything"
  using pull_packets_Inr by (fastforce simp: hoare_def split: sum.splits)

lemma growing_newer: "growing pair (\<lambda>w. True) (entity_newer rn ss k)"
proof -
  have pull: "hoare anything (attempt (pull_packets rn us))
      (\<lambda>r w. case r of Inl _ \<Rightarrow> True | Inr ps \<Rightarrow> \<forall>p \<in> set ps. pulled (w_trace w) p) anything" for us
    by (rule hoare_attempt [OF hoare_pulled])
  have tail: "growing pair (\<lambda>w. anything w \<and> (case r of Inl _ \<Rightarrow> True | Inr ps \<Rightarrow> \<forall>p \<in> set ps. pulled (w_trace w) p))
      (case r of Inl e \<Rightarrow> record_item_error e | Inr packets \<Rightarrow> if packets = [] then record_item_error NoRows else reship ss packets)"
    for r :: "db_error + sync_packet list"
    by (cases r) (auto intro: growing_error growing_weaken [OF growing_reship])
  show ?thesis
    unfolding entity_newer_def
    by (intro growing_bind [OF kept_true growing_query] growing_cases growing_skipped
        growing_bind_with [OF kept_true growing_attempt [OF growing_pull] pull tail])
qed

text \<open>A verdict that was received.\<close>

definition judged :: "(string, string) fmap \<Rightarrow> sync_world \<Rightarrow> bool" where
  "judged verdicts w \<longleftrightarrow> (\<forall>u. fmlookup verdicts u = Some ''missing'' \<longrightarrow> reported_missing (w_trace w) u)"

lemma kept_judged: "kept pair (judged verdicts)"
  unfolding kept_def judged_def grows_def using said_mono(4) by blast

lemma growing_missing: "fmlookup verdicts (kn_uuid k) = Some ''missing'' \<Longrightarrow> growing pair (judged verdicts) (entity_missing rn ss k)"
proof -
  assume v: "fmlookup verdicts (kn_uuid k) = Some ''missing''"
  have drop: "growing pair (judged verdicts) (update_pair_state (\<lambda>now. drop_known (kn_uuid k)))"
    by (rule growing_drop) (use v in \<open>auto simp: judged_def reported_gone_def\<close>)
  then show ?thesis
    unfolding entity_missing_def
    by (intro growing_cases growing_seq [OF kept_judged] growing_bind [OF kept_judged] growing_skipped growing_tombstone_of
        growing_attempt growing_tombstone growing_report growing_error)
qed

lemma growing_verdicts: "growing pair (judged verdicts) (apply_verdicts rn ss verdicts ks)"
proof (induction ks)
  case (Cons k ks)
  have "growing pair (judged verdicts) (if fmlookup verdicts (kn_uuid k) = Some ''missing'' then entity_missing rn ss k
      else if fmlookup verdicts (kn_uuid k) = Some ''source_newer'' then entity_newer rn ss k else ret ())"
    by (intro growing_cases growing_missing growing_weaken [OF growing_newer] growing_ret) auto
  with Cons.IH show ?case unfolding apply_verdicts.simps by (intro growing_seq [OF kept_judged])
qed (simp add: growing_ret)

lemma growing_reconcile_call: "growing pair (\<lambda>w. True) (reconcile_fingerprints rn fs)"
  unfolding reconcile_fingerprints_def
  by (rule growing_bind [OF kept_true growing_plain_call(8)])
    (auto intro!: growing_seq growing_ensure growing_ret growing_fail kept_true split: answer.split)

lemma hoare_judged: "hoare anything (attempt (reconcile_fingerprints rn fs))
    (\<lambda>r w. case r of Inl _ \<Rightarrow> True | Inr verdicts \<Rightarrow> judged verdicts w) anything"
proof (rule hoare_attempt, rule hoareI)
  fix env n w r n' w' assume run: "reconcile_fingerprints rn fs env n w = (r, n', w')"
  have "ReconcileCall fs (Some (Given vs)) \<in> set (w_trace w')" if "r = Inr vs" for vs
    using run that by (auto simp: reconcile_fingerprints_def bind_def seq_def call_out_def ensure_def ret_def fail_def
        split: option.splits answer.splits if_splits)
  then show "case r of Inl _ \<Rightarrow> True | Inr verdicts \<Rightarrow> judged verdicts w'"
    by (cases r) (auto simp: judged_def reported_missing_def)
qed

lemma growing_reconcile: "growing pair (\<lambda>w. True) (reconcile_phase rn ss)"
proof -
  have tail: "growing pair (\<lambda>w. anything w \<and> (case r of Inl _ \<Rightarrow> True | Inr verdicts \<Rightarrow> judged verdicts w))
      (case r of Inl e \<Rightarrow> record_item_error e | Inr verdicts \<Rightarrow> apply_verdicts rn ss verdicts ks)" for r ks
    by (cases r) (auto intro: growing_error growing_weaken [OF growing_verdicts])
  have cursor: "growing pair (\<lambda>w. True) (update_pair_state (\<lambda>now st. st\<lparr>ps_reconcile_cursor := c\<rparr>))" for c
    by (rule growing_pair_state) (simp_all add: known_step_def known_of_unit_def)
  show ?thesis
    unfolding reconcile_phase_def case_prod_unfold
    by (intro growing_bind [OF kept_true growing_query] growing_cases growing_ret growing_seq [OF kept_true] cursor
        growing_bind_with [OF kept_true growing_attempt [OF growing_reconcile_call] hoare_judged tail])
qed

lemma growing_inflight: "growing pair (\<lambda>w. True) (inflight_check ss)"
  unfolding inflight_check_def
  by (intro growing_bind [OF kept_true growing_attempt [OF growing_on_db]] growing_cases growing_error growing_ret)

lemma hoare_run:
  "hoare (\<lambda>w. digest_items (w_trace w) = {}) (sync_pair_run rn fuel pair_id) (\<lambda>_. cursor_inv pair_id) (cursor_inv pair_id)"
proof -
  let ?I = "cursor_inv pair_id"
  let ?S = "\<lambda>c w. digest_items (w_trace w) = {} \<and> c = ps_last_seen (w_state w)"
  have fresh: "digest_items (w_trace w) = {} \<Longrightarrow> ?I w" for w by (simp add: cursor_inv_def covered_below_def)
  have start: "?S c w \<Longrightarrow> scanning pair_id c False c w" for c w by (simp add: scanning_def covered_below_def)
  have inv: "?S c w \<Longrightarrow> ?I w" for c w by (rule fresh) simp
  have fin: "hoare (?S c) (seq (finish_with_error pair e) (ret RunOver)) (\<lambda>_. ?I) ?I" for c pair e
    by (rule hoare_pre [OF hoare_seq [OF hoare_inv [OF growing_finish(1)] hoare_ret]]) (auto intro: fresh)
  have scan: "hoare (?S c) (bind (scan_pages rn ss fuel c c False) (\<lambda>scanned. case scanned of
      Scanned safe \<Rightarrow> seq (reconcile_phase rn ss) (seq (inflight_check ss) (seq (finish_run pair safe) (ret (Scanned safe))))
    | other \<Rightarrow> ret other)) (\<lambda>_. ?I) ?I" if "pair_id = pair_key ss" for c ss pair
  proof -
    have "hoare ?I (case scanned of Scanned safe \<Rightarrow> seq (reconcile_phase rn ss) (seq (inflight_check ss)
        (seq (finish_run pair safe) (ret (Scanned safe)))) | other \<Rightarrow> ret other) (\<lambda>_. ?I) ?I" for scanned
      using hoare_seq [OF hoare_inv [OF growing_reconcile] hoare_seq [OF hoare_inv [OF growing_inflight]
          hoare_seq [OF hoare_inv [OF growing_finish(2)] hoare_ret]]]
      by (cases scanned) (auto intro: hoare_ret)
    from hoare_pre [OF hoare_bind [OF hoare_scan_pages [OF that] this] start] show ?thesis .
  qed
  have keep: "hoare (?S c) m (\<lambda>_. ?S c) ?I" if "\<And>P. growing pair_id P m" for c m
  proof -
    have "kept pair_id (?S c)" by (auto simp: kept_def grows_def)
    from hoare_growing [OF that this] show ?thesis by (rule hoare_conseq) (auto intro: fresh)
  qed
  have body: "hoare (?S c) (seq (if parks_in_review_inbox pair then query (\<lambda>w. ()) else ret ()) (seq (report (\<lambda>_. empty_report))
      (if sp_status pair = PausedPair then ret RunOver
       else if \<not> rn_source_paired rn \<or> \<not> rn_target_paired rn then seq (finish_with_error pair MissingComponent) (ret RunOver)
       else if \<not> rn_secrets_read rn then fail KeyFailure
       else case run_translator pair (ss_translator (rn_ship rn)) of
           Inl e \<Rightarrow> seq (finish_with_error pair e) (ret RunOver)
         | Inr translator \<Rightarrow>
             let ss = (rn_ship rn)\<lparr>ss_pair := pair, ss_translator := translator\<rparr> in
             if \<not> rn_clients_build rn then fail KeyFailure
             else if \<not> rn_db_opens rn then seq (finish_with_error pair SqlFault) (ret RunOver)
             else bind (scan_pages rn ss fuel c c False) (\<lambda>scanned. case scanned of
                 Scanned safe \<Rightarrow> seq (reconcile_phase rn ss) (seq (inflight_check ss) (seq (finish_run pair safe) (ret (Scanned safe))))
               | other \<Rightarrow> ret other)))) (\<lambda>_. ?I) ?I" if "sp_id pair = pair_id" for c pair
  proof -
    have k: "pair_id = pair_key ((rn_ship rn)\<lparr>ss_pair := pair, ss_translator := t\<rparr>)" for t
      using that by (simp add: pair_key_def)
    have g: "growing pair_id P (if parks_in_review_inbox pair then query (\<lambda>w. ()) else ret ())" for P
      by (intro growing_cases growing_query growing_ret)
    show ?thesis
      by (rule hoare_seq [OF keep [OF g]], rule hoare_seq [OF keep [OF growing_report]])
        (use fin scan [OF k] inv in \<open>auto simp: Let_def intro: hoare_ret hoare_fail split: sum.split\<close>)
  qed
  have found: "hoare (\<lambda>w. digest_items (w_trace w) = {} \<and> f = find (\<lambda>p. sp_id p = pair_id) (w_pairs w)) m Q ?I"
    if "\<And>p. f = Some p \<Longrightarrow> sp_id p = pair_id \<Longrightarrow> hoare (\<lambda>w. digest_items (w_trace w) = {}) m Q ?I"
      "f = None \<Longrightarrow> hoare (\<lambda>w. digest_items (w_trace w) = {}) m Q ?I" for f m and Q :: "scan_end \<Rightarrow> sync_world \<Rightarrow> bool"
  proof (rule hoare_assume)
    show "\<forall>p. f = Some p \<longrightarrow> sp_id p = pair_id"
      if "digest_items (w_trace w) = {} \<and> f = find (\<lambda>p. sp_id p = pair_id) (w_pairs w)" for w
      using that by (auto dest: find_SomeD)
    assume "\<forall>p. f = Some p \<longrightarrow> sp_id p = pair_id"
    with that have "hoare (\<lambda>w. digest_items (w_trace w) = {}) m Q ?I" by (cases f) auto
    then show "hoare (\<lambda>w. digest_items (w_trace w) = {} \<and> f = find (\<lambda>p. sp_id p = pair_id) (w_pairs w)) m Q ?I"
      by (rule hoare_pre) simp
  qed
  show ?thesis
    unfolding sync_pair_run_def
    by (rule hoare_bind [OF hoare_query], erule fresh, rule found)
      (simp only: option.case, rule hoare_bind [OF hoare_query body], erule fresh, assumption,
       simp only: option.case, rule hoare_fail, erule fresh)
qed

text \<open>
  C3: The cursor of a pair never passes an object that still has to be shipped. Take one run, with any answers of the sites
  and failures at any statement or call, so also a stop anywhere: every item that a valid digest reported at or
  below the saved cursor waits in the review inbox, is known at a version that the source reported or sent in
  this run, or is not known because the source reported it trashed or missing. What could not be
  shipped lies above the cursor, and the next run sees it again.
\<close>

theorem cursor_passes_only_covered:
  assumes "w_trace w = []" "sync_pair_run rn fuel pair_id env n w = (r, n', w')"
    "i \<in> digest_items (w_trace w')" "di_local_id i \<le> ps_last_seen (w_state w')"
  shows "covered pair_id w' i"
proof -
  have "digest_items (w_trace w) = {}" using assms(1) by (simp add: digest_items_def)
  from hoareD [OF hoare_run this assms(2)] have "cursor_inv pair_id w'" by (cases r) simp_all
  with assms(3,4) show ?thesis by (simp add: cursor_inv_def covered_below_def)
qed

theorem cursor_passes_only_covered_witness:
  "\<exists>w. sync_pair_run (sample_run 52) 1 ''p'' (calm 7) 0 sample_world = (Inr (Scanned 3), 38, w) \<and> covered ''p'' w gone_item"
proof -
  obtain w where run: "sync_pair_run (sample_run 52) (Suc 0) ''p'' (calm 7) 0 sample_world = (Inr (Scanned 3), 38, w)"
    "ps_last_seen (w_state w) = 3"
    "w_trace w = [DigestCall 0 (Some (Given [gone_item, sample_item])), PushCall sample_tombstone None, ReconcileCall [(''u'', ''f1'', 2)] None]"
    using first_sample_run [of 52 0] by auto
  have ok: "digest_typed [gone_item, sample_item]" "length [gone_item, sample_item] \<le> DIGEST_PAGE_SIZE"
    "digest_order 0 [] [gone_item, sample_item]"
    using sample_digest(1) [of 0 52 sample_world] by (simp_all add: fetch_digest_Inr)
  then have "gone_item \<in> digest_items (w_trace w)" unfolding digest_items_def run(3) by force
  then have "covered ''p'' w gone_item"
    by (intro cursor_passes_only_covered [OF _ run(1)]) (simp_all add: sample_world_def sample_item_fields run(2))
  with run(1) show ?thesis by auto
qed

end
