(* ===== verification/RunProtocol.thy ===== *)
theory RunProtocol
  imports RunSample
begin

text \<open>
  The protocol on the wire over whole runs: the scan, the rotation and everything they ship keep the invariant of
  \<open>ShipProtocol\<close>, so what holds of the calls of shipments holds of the calls of any sequence of runs over a pair, under any settings.
\<close>

section \<open>Computations that keep the protocol\<close>

lemma keeps_hoare: "keeps P m \<longleftrightarrow> hoare P m (\<lambda>_. P) P"
  unfolding keeps_def hoare_def by (auto split: sum.split)

lemma keeps_ret: "keeps P (ret a)" and keeps_fail: "keeps P (fail e)"
  by (simp_all add: keeps_def ret_def fail_def)

lemma keeps_bind: "keeps P m \<Longrightarrow> (\<And>a. keeps P (f a)) \<Longrightarrow> keeps P (bind m f)"
  unfolding keeps_hoare by (rule hoare_bind)

lemma keeps_seq: "keeps P m \<Longrightarrow> keeps P k \<Longrightarrow> keeps P (seq m k)"
  unfolding seq_def by (rule keeps_bind)

lemma keeps_attempt: "keeps P m \<Longrightarrow> keeps P (attempt m)"
  unfolding keeps_def attempt_def by (auto split: prod.splits)

lemma keeps_cases:
  "(b \<Longrightarrow> keeps P m) \<Longrightarrow> (\<not> b \<Longrightarrow> keeps P k) \<Longrightarrow> keeps P (if b then m else k)"
  "(x = None \<Longrightarrow> keeps P m) \<Longrightarrow> (\<And>a. x = Some a \<Longrightarrow> keeps P (f a)) \<Longrightarrow> keeps P (case x of None \<Rightarrow> m | Some a \<Rightarrow> f a)"
  "(\<And>e. r = Inl e \<Longrightarrow> keeps P (g e)) \<Longrightarrow> (\<And>a. r = Inr a \<Longrightarrow> keeps P (h a)) \<Longrightarrow> keeps P (case r of Inl e \<Rightarrow> g e | Inr a \<Rightarrow> h a)"
  "(\<And>c. keeps P (rf c)) \<Longrightarrow> keeps P u \<Longrightarrow> (\<And>a. keeps P (gv a)) \<Longrightarrow> keeps P (case an of Refused c \<Rightarrow> rf c | Unreadable \<Rightarrow> u | Given a \<Rightarrow> gv a)"
proof -
  show "(b \<Longrightarrow> keeps P m) \<Longrightarrow> (\<not> b \<Longrightarrow> keeps P k) \<Longrightarrow> keeps P (if b then m else k)" by simp
  show "(x = None \<Longrightarrow> keeps P m) \<Longrightarrow> (\<And>a. x = Some a \<Longrightarrow> keeps P (f a)) \<Longrightarrow> keeps P (case x of None \<Rightarrow> m | Some a \<Rightarrow> f a)"
    by (cases x) simp_all
  show "(\<And>e. r = Inl e \<Longrightarrow> keeps P (g e)) \<Longrightarrow> (\<And>a. r = Inr a \<Longrightarrow> keeps P (h a)) \<Longrightarrow> keeps P (case r of Inl e \<Rightarrow> g e | Inr a \<Rightarrow> h a)"
    by (cases r) simp_all
  show "(\<And>c. keeps P (rf c)) \<Longrightarrow> keeps P u \<Longrightarrow> (\<And>a. keeps P (gv a)) \<Longrightarrow> keeps P (case an of Refused c \<Rightarrow> rf c | Unreadable \<Rightarrow> u | Given a \<Rightarrow> gv a)"
    by (cases an) simp_all
qed

lemma protocol_inv_same:
  "w_db w' = w_db w \<Longrightarrow> w_trace w' = w_trace w \<Longrightarrow> w_review w' = w_review w \<Longrightarrow>
     protocol_inv strict ss w' = protocol_inv strict ss w"
  by (simp add: protocol_inv_def wire_ok_def unit_view_def tracks_def reviewed_def)

lemma keeps_query: "keeps P (query f)"
  by (auto simp: keeps_def query_def execute_def split: if_splits)

lemma keeps_report: "keeps (protocol_inv strict ss) (report f)"
proof -
  have "protocol_inv strict ss (w\<lparr>w_report := r\<rparr>) = protocol_inv strict ss w" for w r by (rule protocol_inv_same) simp_all
  then show ?thesis by (auto simp: keeps_def report_def)
qed

lemma keeps_fresh: "keeps P (fresh_id ss)" and keeps_now: "keeps P now_ts"
  by (auto simp: keeps_def fresh_id_def now_ts_def)

lemma keeps_ensure: "keeps P (ensure b e)"
  by (simp add: ensure_def keeps_ret keeps_fail)

lemma keeps_lease: "keeps P unit_lease"
  unfolding unit_lease_def by (rule keeps_query)

lemma keeps_doc:
  assumes "\<And>now w. w_db (f now w) = w_db w \<and> w_trace (f now w) = w_trace w \<and> w_review (f now w) = w_review w"
  shows "keeps (protocol_inv strict ss) (update_doc f)"
proof -
  have "protocol_inv strict ss (f now w) = protocol_inv strict ss w" for now w using assms by (intro protocol_inv_same) auto
  then have "keeps (protocol_inv strict ss) (update_stmt f)"
    by (auto simp: keeps_def update_stmt_def execute_def split: if_splits)
  then show ?thesis unfolding update_doc_def by (intro keeps_seq keeps_lease)
qed

lemma keeps_pair_state: "keeps (protocol_inv strict ss) (update_pair_state f)"
  unfolding update_pair_state_def by (rule keeps_doc) simp

lemma keeps_read_db:
  assumes "\<And>env n s r n' s'. m env n s = (r, n', s') \<Longrightarrow> s' = s"
  shows "keeps (protocol_inv strict ss) (on_db m)"
  unfolding keeps_def
proof (intro allI impI)
  fix env n w r n' w' assume inv: "protocol_inv strict ss w" and run: "on_db m env n w = (r, n', w')"
  obtain r1 n1 s1 where m: "m env n (w_db w) = (r1, n1, s1)" by (metis prod_cases3)
  with assms have "s1 = w_db w" by blast
  with m run have "w' = w" by (simp add: on_db_def zoom_def)
  with inv show "protocol_inv strict ss w'" by simp
qed

text \<open>A call that concerns no unit.\<close>

lemma protocol_neutral:
  assumes "protocol_inv strict ss w" "\<And>st. wire_step ss st c = Some st"
  shows "protocol_inv strict ss (w\<lparr>w_trace := w_trace w @ [c]\<rparr>)"
proof -
  have "wire_run ss g (w_trace w @ [c]) = wire_run ss g (w_trace w)" for g
    using assms(2) by (auto simp: wire_run_snoc split: option.split)
  with assms(1) show ?thesis by (simp add: protocol_inv_def wire_ok_def unit_view_def tracks_def reviewed_def)
qed

lemma keeps_call:
  assumes "\<And>a st. wire_step ss st (ev a) = Some st"
  shows "keeps (protocol_inv strict ss) (call_out ev answer)"
  using protocol_neutral [OF _ assms] by (auto simp: keeps_def call_out_def split: if_splits)

lemmas keeps_intros = keeps_ret keeps_fail keeps_bind keeps_seq keeps_attempt keeps_query keeps_report keeps_fresh keeps_now
  keeps_ensure keeps_lease keeps_pair_state

section \<open>The parts of a run\<close>

lemma keeps_source_calls:
  "keeps (protocol_inv strict ss) (fetch_digest rn c)"
  "keeps (protocol_inv strict ss) (pull_packets rn us)"
  "keeps (protocol_inv strict ss) (reconcile_fingerprints rn fs)"
  unfolding fetch_digest_def pull_packets_def reconcile_fingerprints_def
  by (rule keeps_bind [OF keeps_call]; auto intro!: keeps_intros split: answer.split)+

lemma keeps_ship:
  assumes "ship_laws ss"
  shows "(strict \<Longrightarrow> \<not> parks_in_review_inbox (ss_pair ss)) \<Longrightarrow> keeps (protocol_inv strict ss) (ship_one_packet ss p)"
    "keeps (protocol_inv strict ss) (ship_tombstone_packet ss t)"
proof -
  show "(strict \<Longrightarrow> \<not> parks_in_review_inbox (ss_pair ss)) \<Longrightarrow> keeps (protocol_inv strict ss) (ship_one_packet ss p)"
    unfolding keeps_hoare ship_one_packet_def by (rule hoare_ship_unit [OF assms refl hoare_inner [OF assms refl]])
  show "keeps (protocol_inv strict ss) (ship_tombstone_packet ss t)"
    unfolding ship_tombstone_packet_def
    by (intro keeps_cases keeps_fail) (unfold keeps_hoare, rule hoare_ship_unit [OF assms refl hoare_tombstone_inner [OF assms refl]])
qed

lemma keeps_errors: "keeps (protocol_inv strict ss) (record_item_error e)" "keeps (protocol_inv strict ss) skipped_one"
  "keeps (protocol_inv strict ss) (finish_with_error pair e)" "keeps (protocol_inv strict ss) (finish_run pair safe)"
  unfolding record_item_error_def skipped_one_def finish_with_error_def finish_run_def
  by (auto intro!: keeps_intros keeps_doc)

lemma keeps_sort: "keeps (protocol_inv strict ss) (sort_items ss known reviews items pw)"
  by (induction items arbitrary: pw) (auto simp: sort_item_def intro!: keeps_intros keeps_errors split: option.split)

lemma keeps_tombstone_of: "keeps (protocol_inv strict ss) (tombstone_of rn ss u t k c a)"
  unfolding tombstone_of_def by (intro keeps_intros)

lemma keeps_ship_packets:
  assumes "ship_laws ss" "strict \<Longrightarrow> \<not> parks_in_review_inbox (ss_pair ss)"
  shows "keeps (protocol_inv strict ss) (ship_packets ss batch ps pw)"
proof (induction ps arbitrary: pw)
  case (Cons p ps)
  show ?case
    unfolding ship_packets.simps
    by (intro keeps_bind keeps_attempt keeps_ship(1) [OF assms] keeps_cases keeps_seq keeps_errors Cons.IH)
qed (simp add: keeps_ret)

lemma keeps_ship_batches:
  assumes "ship_laws ss" "strict \<Longrightarrow> \<not> parks_in_review_inbox (ss_pair ss)"
  shows "keeps (protocol_inv strict ss) (ship_batches rn ss batches pw)"
proof (induction batches arbitrary: pw)
  case (Cons b bs)
  show ?case
    unfolding ship_batches.simps
    by (intro keeps_bind keeps_attempt keeps_source_calls keeps_ship_packets [OF assms] keeps_cases keeps_seq keeps_errors
        keeps_report keeps_ret Cons.IH)
qed (simp add: keeps_ret)

lemma keeps_trash_items:
  assumes "ship_laws ss"
  shows "keeps (protocol_inv strict ss) (trash_items rn ss ts pw)"
proof (induction ts arbitrary: pw)
  case (Cons t ts)
  show ?case
    unfolding trash_items.simps
    by (intro keeps_bind keeps_attempt keeps_tombstone_of keeps_ship(2) [OF assms] keeps_cases keeps_seq keeps_errors
        keeps_report keeps_pair_state Cons.IH)
qed (simp add: keeps_ret)

lemma keeps_scan_page:
  assumes "ship_laws ss" "strict \<Longrightarrow> \<not> parks_in_review_inbox (ss_pair ss)"
  shows "keeps (protocol_inv strict ss) (scan_page rn ss items safe blocked)"
  unfolding scan_page_def save_cursor_def Let_def
  by (intro keeps_bind keeps_seq keeps_report keeps_query keeps_sort keeps_pair_state keeps_ship_batches [OF assms]
      keeps_trash_items [OF assms(1)] keeps_ret)

lemma keeps_scan_pages:
  assumes "ship_laws ss" "strict \<Longrightarrow> \<not> parks_in_review_inbox (ss_pair ss)"
  shows "keeps (protocol_inv strict ss) (scan_pages rn ss fuel cursor safe blocked)"
proof (induction fuel arbitrary: cursor safe blocked)
  case (Suc fuel)
  show ?case
    unfolding scan_pages.simps case_prod_unfold
    by (intro keeps_bind keeps_attempt keeps_source_calls keeps_cases keeps_seq keeps_errors keeps_ret
        keeps_scan_page [OF assms] Suc.IH)
qed (simp add: keeps_ret)

lemma keeps_reship:
  assumes "ship_laws ss" "strict \<Longrightarrow> \<not> parks_in_review_inbox (ss_pair ss)"
  shows "keeps (protocol_inv strict ss) (reship ss ps)"
proof (induction ps)
  case (Cons p ps)
  show ?case
    unfolding reship.simps
    by (intro keeps_bind keeps_attempt keeps_ship(1) [OF assms] keeps_seq keeps_cases keeps_ret keeps_errors Cons.IH)
qed (simp add: keeps_ret)

lemma keeps_verdicts:
  assumes "ship_laws ss" "strict \<Longrightarrow> \<not> parks_in_review_inbox (ss_pair ss)"
  shows "keeps (protocol_inv strict ss) (apply_verdicts rn ss verdicts ks)"
proof (induction ks)
  case (Cons k ks)
  have "keeps (protocol_inv strict ss) (entity_missing rn ss k)"
    unfolding entity_missing_def
    by (intro keeps_bind keeps_attempt keeps_tombstone_of keeps_ship(2) [OF assms(1)] keeps_cases keeps_seq keeps_errors
        keeps_report keeps_pair_state)
  moreover have "keeps (protocol_inv strict ss) (entity_newer rn ss k)"
    unfolding entity_newer_def
    by (intro keeps_bind keeps_attempt keeps_query keeps_source_calls keeps_cases keeps_errors keeps_reship [OF assms])
  ultimately show ?case
    unfolding apply_verdicts.simps by (intro keeps_seq keeps_cases keeps_ret Cons.IH)
qed (simp add: keeps_ret)

lemma keeps_reconcile:
  assumes "ship_laws ss" "strict \<Longrightarrow> \<not> parks_in_review_inbox (ss_pair ss)"
  shows "keeps (protocol_inv strict ss) (reconcile_phase rn ss)"
  unfolding reconcile_phase_def case_prod_unfold
  by (intro keeps_bind keeps_query keeps_cases keeps_ret keeps_seq keeps_attempt keeps_source_calls keeps_errors
      keeps_verdicts [OF assms] keeps_pair_state)

lemma list_pair_reads: "list_pair_shipping cx pair env n s = (r, n', s') \<Longrightarrow> s' = s"
  by (auto simp: list_pair_shipping_def bind_def query_def execute_def lift_read_def ret_def fail_def split: if_splits sum.splits)

lemma keeps_inflight: "keeps (protocol_inv strict ss) (inflight_check ss)"
  unfolding inflight_check_def
  by (intro keeps_bind keeps_attempt keeps_read_db keeps_cases keeps_errors keeps_ret) (rule list_pair_reads)

text \<open>The invariant looks at the codec, the key of the pair and the target, not at the settings of the pair.\<close>

lemma proofs_session:
  assumes "ss_target_uuid ss' = ss_target_uuid ss" "ss_url_ok ss' = ss_url_ok ss"
  shows "proves_receipt ss' = proves_receipt ss" "proves_absence ss' = proves_absence ss"
proof -
  have v: "validate_packet_receipt ss' = validate_packet_receipt ss" "absence_proof ss' = absence_proof ss"
    by (intro ext, simp only: validate_packet_receipt_def absence_proof_def assms)+
  show "proves_receipt ss' = proves_receipt ss" "proves_absence ss' = proves_absence ss"
    by (intro ext, simp only: proves_receipt_def proves_absence_def v)+
qed

lemma protocol_inv_session:
  assumes "ss_codec ss' = ss_codec ss" "pair_key ss' = pair_key ss" "ss_print ss' = ss_print ss"
    "ss_target_uuid ss' = ss_target_uuid ss" "ss_url_ok ss' = ss_url_ok ss"
  shows "protocol_inv strict ss' w = protocol_inv strict ss w"
proof -
  have step: "wire_step ss' = wire_step ss"
    by (intro ext) (rename_tac st c, case_tac c; simp add: proofs_session [OF assms(4,5)])
  then have "wire_run ss' = wire_run ss" by (intro ext) (simp only: wire_run_def step)
  with assms show ?thesis
    by (simp add: protocol_inv_def wire_ok_def unit_view_def tracks_def reviewed_def linked_def [abs_def] cong: option.case_cong)
qed

definition base_session :: "run_inputs \<Rightarrow> string \<Rightarrow> session" where
  "base_session rn pair_id = (rn_ship rn)\<lparr>ss_pair := empty_pair\<lparr>sp_id := pair_id\<rparr>\<rparr>"

lemma keeps_run:
  assumes "ship_laws (rn_ship rn)"
  shows "hoare (\<lambda>w. protocol_inv strict (base_session rn pair_id) w \<and> (\<forall>p \<in> set (w_pairs w). sp_id p = pair_id \<and> strict \<longrightarrow> \<not> parks_in_review_inbox p))
    (sync_pair_run rn fuel pair_id) (\<lambda>_. protocol_inv strict (base_session rn pair_id)) (protocol_inv strict (base_session rn pair_id))"
proof -
  let ?b = "base_session rn pair_id"
  let ?ss = "\<lambda>pair t. (rn_ship rn)\<lparr>ss_pair := pair, ss_translator := t\<rparr>"
  have laws: "ship_laws (?ss pair t)" for pair t using assms by (simp add: ship_laws_def)
  have same: "protocol_inv strict (?ss pair t) = protocol_inv strict ?b" if "sp_id pair = pair_id" for pair t
    using that by (intro ext protocol_inv_session) (simp_all add: base_session_def pair_key_def)
  have body: "keeps (protocol_inv strict ?b) (bind (query (\<lambda>w. ps_last_seen (w_state w))) (\<lambda>cursor.
      seq (if parks_in_review_inbox pair then query (\<lambda>w. ()) else ret ()) (seq (report (\<lambda>_. empty_report))
      (if sp_status pair = PausedPair then ret RunOver
       else if \<not> rn_source_paired rn \<or> \<not> rn_target_paired rn then seq (finish_with_error pair MissingComponent) (ret RunOver)
       else if \<not> rn_secrets_read rn then fail KeyFailure
       else case run_translator pair (ss_translator (rn_ship rn)) of
           Inl e \<Rightarrow> seq (finish_with_error pair e) (ret RunOver)
         | Inr translator \<Rightarrow>
             let ss = ?ss pair translator in
             if \<not> rn_clients_build rn then fail KeyFailure
             else if \<not> rn_db_opens rn then seq (finish_with_error pair SqlFault) (ret RunOver)
             else bind (scan_pages rn ss fuel cursor cursor False) (\<lambda>scanned. case scanned of
                 Scanned safe \<Rightarrow> seq (reconcile_phase rn ss) (seq (inflight_check ss) (seq (finish_run pair safe) (ret (Scanned safe))))
               | other \<Rightarrow> ret other)))))"
    if "sp_id pair = pair_id" "strict \<Longrightarrow> \<not> parks_in_review_inbox pair" for pair
  proof -
    have np: "strict \<Longrightarrow> \<not> parks_in_review_inbox (ss_pair (?ss pair t))" for t using that(2) by simp
    have parts: "keeps (protocol_inv strict ?b) (scan_pages rn (?ss pair t) fuel c c False)"
      "keeps (protocol_inv strict ?b) (reconcile_phase rn (?ss pair t))"
      "keeps (protocol_inv strict ?b) (inflight_check (?ss pair t))" for t c
      unfolding same [OF that(1), of t, symmetric]
      by (rule keeps_scan_pages [OF laws], erule np, rule keeps_reconcile [OF laws], erule np, rule keeps_inflight)
    have scan: "keeps (protocol_inv strict ?b) (bind (scan_pages rn (?ss pair t) fuel c c False) (\<lambda>scanned. case scanned of
        Scanned safe \<Rightarrow> seq (reconcile_phase rn (?ss pair t)) (seq (inflight_check (?ss pair t)) (seq (finish_run pair safe) (ret (Scanned safe))))
      | other \<Rightarrow> ret other))" for t c
    proof (rule keeps_bind [OF parts(1)])
      show "keeps (protocol_inv strict ?b) (case scanned of
        Scanned safe \<Rightarrow> seq (reconcile_phase rn (?ss pair t)) (seq (inflight_check (?ss pair t)) (seq (finish_run pair safe) (ret (Scanned safe))))
      | other \<Rightarrow> ret other)" for scanned
        by (cases scanned) (simp_all add: keeps_ret keeps_seq [OF parts(2) keeps_seq [OF parts(3) keeps_seq [OF keeps_errors(4) keeps_ret]]])
    qed
    show ?thesis
      unfolding Let_def
      by (intro keeps_bind keeps_query keeps_seq keeps_cases keeps_report keeps_ret keeps_fail keeps_errors scan)
  qed
  have found: "hoare (\<lambda>w. (protocol_inv strict ?b w \<and> (\<forall>p \<in> set (w_pairs w). sp_id p = pair_id \<and> strict \<longrightarrow> \<not> parks_in_review_inbox p))
      \<and> f = find (\<lambda>p. sp_id p = pair_id) (w_pairs w)) (m f) Q (protocol_inv strict ?b)"
    if "\<And>p. sp_id p = pair_id \<Longrightarrow> (strict \<Longrightarrow> \<not> parks_in_review_inbox p) \<Longrightarrow> hoare (protocol_inv strict ?b) (m (Some p)) Q (protocol_inv strict ?b)"
      "hoare (protocol_inv strict ?b) (m None) Q (protocol_inv strict ?b)" for f m and Q :: "scan_end \<Rightarrow> sync_world \<Rightarrow> bool"
  proof (rule hoare_assume)
    show "\<forall>p. f = Some p \<longrightarrow> sp_id p = pair_id \<and> (strict \<longrightarrow> \<not> parks_in_review_inbox p)"
      if "(protocol_inv strict ?b w \<and> (\<forall>p \<in> set (w_pairs w). sp_id p = pair_id \<and> strict \<longrightarrow> \<not> parks_in_review_inbox p))
        \<and> f = find (\<lambda>p. sp_id p = pair_id) (w_pairs w)" for w
      using that by (auto dest: find_SomeD)
    assume "\<forall>p. f = Some p \<longrightarrow> sp_id p = pair_id \<and> (strict \<longrightarrow> \<not> parks_in_review_inbox p)"
    with that have "hoare (protocol_inv strict ?b) (m f) Q (protocol_inv strict ?b)" by (cases f) auto
    then show "hoare (\<lambda>w. (protocol_inv strict ?b w \<and> (\<forall>p \<in> set (w_pairs w). sp_id p = pair_id \<and> strict \<longrightarrow> \<not> parks_in_review_inbox p))
      \<and> f = find (\<lambda>p. sp_id p = pair_id) (w_pairs w)) (m f) Q (protocol_inv strict ?b)" by (rule hoare_pre) simp
  qed
  show ?thesis
    unfolding sync_pair_run_def
    by (rule hoare_bind [OF hoare_query], erule conjunct1, rule found)
      (unfold option.case, rule body [unfolded keeps_hoare], assumption, blast, rule keeps_fail [unfolded keeps_hoare])
qed

section \<open>Any sequence of runs\<close>

text \<open>A run over the pairs document as it is then; between runs the pairs can be edited.\<close>

definition pair_step :: "run_inputs \<Rightarrow> string \<Rightarrow> sync_pair list \<times> nat \<Rightarrow> scan_end shipping" where
  "pair_step rn pair_id x env n w = sync_pair_run rn (snd x) pair_id env n (w\<lparr>w_pairs := fst x\<rparr>)"

definition pushes_directly :: "string \<Rightarrow> sync_pair list \<Rightarrow> bool" where
  "pushes_directly pair_id pairs \<longleftrightarrow> list_all (\<lambda>p. sp_id p \<noteq> pair_id \<or> \<not> parks_in_review_inbox p) pairs"

lemma runs_keep:
  assumes "ship_laws (rn_ship rn)" "strict \<longrightarrow> list_all (\<lambda>x. pushes_directly pair_id (fst x)) ops" "protocol_inv strict (base_session rn pair_id) w"
  shows "protocol_inv strict (base_session rn pair_id) (run_ops (pair_step rn pair_id) env ops n w)"
  using assms(2,3)
proof (induction ops arbitrary: n w)
  case (Cons x ops)
  let ?I = "protocol_inv strict (base_session rn pair_id)"
  obtain r n' w' where run: "sync_pair_run rn (snd x) pair_id env n (w\<lparr>w_pairs := fst x\<rparr>) = (r, n', w')" by (metis prod_cases3)
  have "?I (w\<lparr>w_pairs := fst x\<rparr>)" using Cons.prems(2) protocol_inv_same [of "w\<lparr>w_pairs := fst x\<rparr>" w] by simp
  moreover have "\<forall>p \<in> set (fst x). sp_id p = pair_id \<and> strict \<longrightarrow> \<not> parks_in_review_inbox p"
    using Cons.prems(1) by (auto simp: pushes_directly_def list_all_iff)
  ultimately have "?I w'" using hoareD [OF keeps_run [OF assms(1)] _ run] by (cases r) simp_all
  with Cons.IH Cons.prems(1) run show ?case by (simp add: pair_step_def)
qed simp

text \<open>A tracked wire gives the fate of the packet before; an untracked one says that the unit is in the review inbox.\<close>

lemma runs_known_fate:
  assumes "ship_laws (rn_ship rn)" "strict \<longrightarrow> list_all (\<lambda>x. pushes_directly pair_id (fst x)) ops"
    "w_trace w = []" "inflight (w_db w) = []" "w' = run_ops (pair_step rn pair_id) env ops n w"
    "w_trace w' = before @ PushCall p a # between @ PushCall q b # after"
    "en_guid q = en_guid p" "\<not> pushes (en_guid p) between"
  shows "proves_receipt (rn_ship rn) p a \<or> receipt_seen (rn_ship rn) p between
    \<or> (q = p \<and> absence_seen (rn_ship rn) p between)
    \<or> \<not> strict \<and> (\<exists>i \<in> set (w_review w'). rv_pair i = pair_id \<and> rv_uuid i = en_guid p)"
proof -
  let ?b = "base_session rn pair_id"
  have same: "proves_receipt ?b = proves_receipt (rn_ship rn)" "proves_absence ?b = proves_absence (rn_ship rn)"
    "pair_key ?b = pair_id"
    using proofs_session [of ?b "rn_ship rn"] by (simp_all add: base_session_def pair_key_def)
  from runs_keep [OF assms(1,2) protocol_start [OF assms(3,4)], of env n] assms(5)
  obtain st where "tracks strict ?b (en_guid p) w' st" by (auto simp: protocol_inv_def wire_ok_def)
  then consider "\<not> strict" "reviewed ?b (en_guid p) w'" | "wire_run ?b (en_guid p) (w_trace w') \<noteq> None"
    by (auto simp: tracks_def)
  then show ?thesis
  proof cases
    case 1
    then show ?thesis by (auto simp: reviewed_def same)
  next
    case 2
    from known_fate [OF this assms(6-8)] show ?thesis by (auto simp: same receipt_seen_def absence_seen_def)
  qed
qed

text \<open>
  C2: No packet is sent while the fate of the one before is unknown, unless a review setting intervened. Take any sequence
  of runs over a pair, with failures and lost answers at any statement or call, so also a stop and a restart at any
  point, and settings that change between the runs. When a unit is pushed twice, then between the two pushes the
  client received the target's valid receipt of the first packet (with the push itself or when it asked), or
  the target proved that it has no effect of exactly that packet, and the second push sends exactly the
  same packet again. The one exception is a unit that waits in the review inbox, under a run whose settings did not push
  directly: parking closes the row of a submitted packet without asking for its receipt (\<open>submitted_unit_parked\<close>).
\<close>

theorem runs_push_only_after_known_fate:
  assumes "ship_laws (rn_ship rn)" "w_trace w = []" "inflight (w_db w) = []"
    "w' = run_ops (pair_step rn pair_id) env ops n w"
    "w_trace w' = before @ PushCall p a # between @ PushCall q b # after"
    "en_guid q = en_guid p" "\<not> pushes (en_guid p) between"
  shows "proves_receipt (rn_ship rn) p a \<or> receipt_seen (rn_ship rn) p between
    \<or> (q = p \<and> absence_seen (rn_ship rn) p between)
    \<or> (\<exists>i \<in> set (w_review w'). rv_pair i = pair_id \<and> rv_uuid i = en_guid p)
      \<and> list_ex (\<lambda>x. \<not> pushes_directly pair_id (fst x)) ops"
proof (cases "list_all (\<lambda>x. pushes_directly pair_id (fst x)) ops")
  case True
  with runs_known_fate [OF assms(1) _ assms(2-7), of True] show ?thesis by auto
next
  case False
  with runs_known_fate [OF assms(1) _ assms(2-7), of False] show ?thesis by (auto simp: list_all_iff list_ex_iff)
qed

theorem runs_push_only_after_known_fate_witness:
  "proves_receipt (sample_session 52) sample_tombstone None
    \<or> receipt_seen (sample_session 52) sample_tombstone
        [ReconcileCall [(''u'', ''f1'', 2)] None, DigestCall 3 (Some (Given [sample_item])), ReceiptCall sample_tombstone (Some (SiteData absent_data))]
    \<or> sample_tombstone = sample_tombstone \<and> absence_seen (sample_session 52) sample_tombstone
        [ReconcileCall [(''u'', ''f1'', 2)] None, DigestCall 3 (Some (Given [sample_item])), ReceiptCall sample_tombstone (Some (SiteData absent_data))]"
proof -
  let ?op = "([sample_pair], 1)"
  obtain w1 where one: "pair_step (sample_run 52) ''p'' ?op (calm 7) 0 sample_world = (Inr (Scanned 3), 38, w1)"
    "w_db w1 = submitted_db 1" "w_review w1 = []" "ps_last_seen (w_state w1) = 3" "ps_known (w_state w1) = [(''u'', sample_known)]"
    "w_trace w1 = [DigestCall 0 (Some (Given [gone_item, sample_item])), PushCall sample_tombstone None, ReconcileCall [(''u'', ''f1'', 2)] None]"
    using first_sample_run [of 52 0] by (auto simp: pair_step_def sample_world_def)
  obtain w2 where two: "pair_step (sample_run 52) ''p'' ?op (calm 7) 38 w1 = (Inr (Scanned 3), 65, w2)"
    "w_trace w2 = w_trace w1 @ [DigestCall 3 (Some (Given [sample_item])),
        ReceiptCall sample_tombstone (Some (SiteData absent_data)), PushCall sample_tombstone None, ReconcileCall [(''u'', ''f1'', 2)] None]"
    using second_sample_run [of "w1\<lparr>w_pairs := [sample_pair]\<rparr>" 0] one by (auto simp: pair_step_def)
  have laws: "ship_laws (rn_ship (sample_run 52))"
    by (simp add: sample_run_def ship_laws_def sample_fields sample_sync_laws sample_print_reads)
  have pairs: "list_all (\<lambda>x. pushes_directly ''p'' (fst x)) [?op, ?op]"
    by (simp add: pushes_directly_def sample_pair_fields)
  have trace: "w_trace (run_ops (pair_step (sample_run 52) ''p'') (calm 7) [?op, ?op] 0 sample_world)
    = [DigestCall 0 (Some (Given [gone_item, sample_item]))] @ PushCall sample_tombstone None
      # [ReconcileCall [(''u'', ''f1'', 2)] None, DigestCall 3 (Some (Given [sample_item])), ReceiptCall sample_tombstone (Some (SiteData absent_data))]
      @ PushCall sample_tombstone None # [ReconcileCall [(''u'', ''f1'', 2)] None]"
    using one two by simp
  have "rn_ship (sample_run 52) = sample_session 52" by (simp add: sample_run_def)
  then show ?thesis
    using runs_push_only_after_known_fate [OF laws _ _ refl trace] pairs
    by (simp add: sample_world_def no_flight_def pushes_def)
qed

end
