(* ===== verification/TemplateText.thy ===== *)
theory TemplateText
  imports FieldActions "HOL-Library.Finite_Map"
begin

text \<open>
  The text side of a provider template, from \<open>component_rt/runner/request.rs\<close>, \<open>runner/async_poll.rs\<close>,
  \<open>runner/provider_recovery.rs\<close> and \<open>runner.rs\<close>: JSON paths, the rendering of tokens, what an answer adds to the context,
  and the evidence that an operation exists at the provider. The context is a hash map: a finite map, and where
  its iteration order can be seen, the list of its entries in that order. Printing a JSON value is an argument.
\<close>

section \<open>Templates\<close>

text \<open>The parts of the template that the modelled code reads; a map that is only iterated is the list of its entries.\<close>

record request_spec =
  rq_method :: utext
  rq_url :: utext
  rq_headers :: "(utext \<times> utext) list option"
  rq_body :: "utext json option"
  rq_body_type :: "utext option"
  rq_response_type :: "utext option"

record reconcile_spec =
  rc_request :: request_spec
  rc_matches_path :: utext
  rc_attempt_id_path :: utext
  rc_binding_path :: utext
  rc_job_id_path :: utext
  rc_status_path :: utext
  rc_resumable_values :: "utext list"

record poll_spec =
  ap_job_id_path :: utext
  ap_reconcile :: "reconcile_spec option"
  ap_submit_extract :: "(utext \<times> utext) list"
  ap_request :: request_spec
  ap_status_path :: "utext option"
  ap_done_values :: "utext list"
  ap_failed_values :: "utext list"
  ap_timeout_seconds :: "nat option"
  ap_result_text_path :: "utext option"

record provider_template =
  tp_id :: utext
  tp_default_values :: "utext json option"
  tp_request :: request_spec
  tp_translated_text_path :: "utext option"
  tp_async_poll :: "poll_spec option"

type_synonym ctx = "(utext, utext) fmap"

section \<open>Paths\<close>

text \<open>\<open>str::parse::<u64>\<close>, also for \<open>usize\<close>: decimal digits after an optional plus sign.\<close>

definition digits_value :: "utext \<Rightarrow> nat" where
  "digits_value ds = foldl (\<lambda>a c. 10 * a + (c - 48)) 0 ds"

definition parse_u64 :: "utext \<Rightarrow> nat option" where
  "parse_u64 s =
     (let ds = (case s of [] \<Rightarrow> [] | c # r \<Rightarrow> if c = 43 then r else s) in
      if ds = [] \<or> \<not> list_all (\<lambda>c. 48 \<le> c \<and> c \<le> 57) ds \<or> u64_max < digits_value ds then None
      else Some (digits_value ds))"

fun json_step :: "utext json \<Rightarrow> utext list \<Rightarrow> utext json option" where
  "json_step v [] = Some v"
| "json_step v (p # ps) =
     (if p = [] then json_step v ps
      else case v of
        JObject ms \<Rightarrow> (case map_of ms p of None \<Rightarrow> None | Some x \<Rightarrow> json_step x ps)
      | JArray xs \<Rightarrow> (case parse_u64 p of None \<Rightarrow> None | Some i \<Rightarrow> if i < length xs then json_step (xs ! i) ps else None)
      | _ \<Rightarrow> None)"

definition extract_json_path :: "utext json \<Rightarrow> utext \<Rightarrow> utext json option" where
  "extract_json_path v path = json_step v (split_on (cps ''.'') path)"

fun is_scalar :: "'t json \<Rightarrow> bool" where
  "is_scalar (JBool b) = True"
| "is_scalar (JInt i) = True"
| "is_scalar (JNum t) = True"
| "is_scalar _ = False"

abbreviation trim_cp :: "utext \<Rightarrow> utext" where
  "trim_cp \<equiv> trim_by is_ws_cp"

definition extract_json_path_string :: "(utext json \<Rightarrow> utext) \<Rightarrow> utext json \<Rightarrow> utext \<Rightarrow> utext option" where
  "extract_json_path_string print v path =
     (let trimmed = trim_cp path in
      if trimmed = [] then None
      else Option.bind (extract_json_path v trimmed) (\<lambda>x.
        case as_str x of Some s \<Rightarrow> Some s | None \<Rightarrow> if is_scalar x then Some (print x) else None))"

section \<open>Status values\<close>

definition normalize_status_value :: "utext \<Rightarrow> utext" where
  "normalize_status_value raw = map ascii_lower_cp (trim_cp raw)"

definition normalize_status_values :: "utext list \<Rightarrow> utext list" where
  "normalize_status_values vs = foldl (\<lambda>acc v.
     let n = normalize_status_value v in if n = [] \<or> n \<in> set acc then acc else acc @ [n]) [] vs"

definition status_values_contains :: "utext list \<Rightarrow> utext \<Rightarrow> bool" where
  "status_values_contains vs status \<longleftrightarrow> normalize_status_value status \<in> set vs"

lemma normalize_status_values_set: "set (normalize_status_values vs) = normalize_status_value ` set vs - {[]}"
proof -
  have "set (foldl (\<lambda>acc v. let n = normalize_status_value v in if n = [] \<or> n \<in> set acc then acc else acc @ [n]) acc vs)
      = set acc \<union> (normalize_status_value ` set vs - {[]})" for acc
    by (induction vs arbitrary: acc) (auto simp: Let_def)
  then show ?thesis by (simp add: normalize_status_values_def)
qed

section \<open>Rendering\<close>

definition token_of :: "utext \<Rightarrow> utext" where
  "token_of key = cps ''{{'' @ key @ cps ''}}''"

definition render_template_string :: "utext \<Rightarrow> (utext \<times> utext) list \<Rightarrow> utext" where
  "render_template_string input entries = foldl (\<lambda>out (key, v). replace_all (token_of key) v out) input entries"

definition resolve_template_json_path :: "utext \<Rightarrow> (utext \<times> utext) list \<Rightarrow> utext option" where
  "resolve_template_json_path path entries =
     (let trimmed = trim_cp (render_template_string path entries) in if trimmed = [] then None else Some trimmed)"

section \<open>The context\<close>

definition insert_component_text_context :: "utext \<Rightarrow> utext \<Rightarrow> utext \<Rightarrow> ctx \<Rightarrow> ctx" where
  "insert_component_text_context input source target c =
     fmupd (cps ''payload.target_lang'') target (fmupd (cps ''payload.source_lang'') source (fmupd (cps ''payload.text'') input
    (fmupd (cps ''input.target_lang'') target (fmupd (cps ''input.source_lang'') source (fmupd (cps ''input.text'') input c)))))"

fun flatten_default_values :: "(utext json \<Rightarrow> utext) \<Rightarrow> utext \<Rightarrow> utext json \<Rightarrow> ctx \<Rightarrow> ctx"
  and flatten_members :: "(utext json \<Rightarrow> utext) \<Rightarrow> utext \<Rightarrow> (utext \<times> utext json) list \<Rightarrow> ctx \<Rightarrow> ctx" where
  "flatten_default_values print pfx (JObject ms) c = flatten_members print pfx ms c"
| "flatten_default_values print pfx (JString v) c = fmupd pfx v c"
| "flatten_default_values print pfx JNull c = c"
| "flatten_default_values print pfx v c = fmupd pfx (print v) c"
| "flatten_members print pfx [] c = c"
| "flatten_members print pfx ((key, v) # ms) c =
     flatten_members print pfx ms
       (flatten_default_values print ((if pfx = [] then cps ''default_values'' else pfx) @ cps ''.'' @ key) v c)"

definition insert_component_default_values_context :: "(utext json \<Rightarrow> utext) \<Rightarrow> utext json option \<Rightarrow> ctx \<Rightarrow> ctx" where
  "insert_component_default_values_context print defaults c =
     (case defaults of None \<Rightarrow> c | Some v \<Rightarrow> flatten_default_values print [] v c)"

definition map_language :: "ctx \<Rightarrow> utext \<Rightarrow> ctx \<Rightarrow> ctx" where
  "map_language language_map key c =
     (case fmlookup c key of
        None \<Rightarrow> c
      | Some code \<Rightarrow>
          (case fmlookup language_map code of
             Some mapped \<Rightarrow> fmupd key mapped c
           | None \<Rightarrow>
               (case fmlookup language_map (hd (split_on (cps ''_'') code)) of
                  Some mapped \<Rightarrow> fmupd key mapped c
                | None \<Rightarrow> c)))"

definition apply_language_map :: "ctx \<Rightarrow> ctx \<Rightarrow> ctx" where
  "apply_language_map language_map c =
     (if language_map = fmempty then c
      else foldl (\<lambda>c key. map_language language_map key c) c
        (map cps [''input.source_lang'', ''input.target_lang'', ''payload.source_lang'', ''payload.target_lang'']))"

definition extracted_text :: "(utext json \<Rightarrow> utext) \<Rightarrow> utext json option \<Rightarrow> utext" where
  "extracted_text print x =
     (case x of
        None \<Rightarrow> []
      | Some JNull \<Rightarrow> []
      | Some (JString s) \<Rightarrow> trim_cp s
      | Some v \<Rightarrow> print v)"

text \<open>An error stops the extraction; the callers drop the context then.\<close>

fun apply_json_extract_map :: "(utext json \<Rightarrow> utext) \<Rightarrow> (utext \<times> utext) list \<Rightarrow> utext json \<Rightarrow> ctx \<Rightarrow> ctx option" where
  "apply_json_extract_map print [] response c = Some c"
| "apply_json_extract_map print ((raw_key, raw_path) # rest) response c =
     (let key = trim_cp raw_key; path = trim_cp raw_path; v = extracted_text print (extract_json_path response path) in
      if key = [] then apply_json_extract_map print rest response c
      else if path = [] \<or> trim_cp v = [] then None
      else apply_json_extract_map print rest response
             (fmupd (if prefix (cps ''computed.'') key then key else cps ''computed.'' @ key) v c))"

section \<open>Evidence of an operation\<close>

definition ATTEMPT_TOKEN :: utext where "ATTEMPT_TOKEN = cps ''{{operation.attempt_id}}''"
definition BINDING_TOKEN :: utext where "BINDING_TOKEN = cps ''{{operation.binding}}''"

definition opt_json :: "('a \<Rightarrow> utext json) \<Rightarrow> 'a option \<Rightarrow> utext json" where
  "opt_json f x = (case x of None \<Rightarrow> JNull | Some a \<Rightarrow> f a)"

definition submit_value :: "request_spec \<Rightarrow> utext json" where
  "submit_value rq = JObject
     [(cps ''url'', JString (rq_url rq)),
      (cps ''headers'', opt_json (\<lambda>hs. JObject (map (\<lambda>(k, v). (k, JString v)) hs)) (rq_headers rq)),
      (cps ''body'', opt_json (\<lambda>v. v) (if rq_body_type rq = Some (cps ''none'') then None else rq_body rq))]"

definition explicit_path :: "utext \<Rightarrow> bool" where
  "explicit_path path \<longleftrightarrow> trim_cp path \<noteq> [] \<and> \<not> str_contains path (cps ''{{'') \<and> \<not> str_contains path (cps ''}}'')"

definition read_only_query :: "request_spec \<Rightarrow> bool" where
  "read_only_query rq \<longleftrightarrow> rq_method rq = cps ''GET'' \<and> rq_body rq = None
     \<and> (case rq_body_type rq of None \<Rightarrow> True | Some k \<Rightarrow> k = cps ''none'')
     \<and> (case rq_response_type rq of None \<Rightarrow> True | Some k \<Rightarrow> k = cps ''json'')
     \<and> str_contains (rq_url rq) ATTEMPT_TOKEN"

definition validate_contract :: "(utext json \<Rightarrow> utext) \<Rightarrow> provider_template \<Rightarrow> bool" where
  "validate_contract print tp =
     (case tp_async_poll tp of
        None \<Rightarrow> True
      | Some poll \<Rightarrow>
          (case ap_reconcile poll of
             None \<Rightarrow> True
           | Some spec \<Rightarrow>
               let submit = print (submit_value (tp_request tp));
                   accepted = normalize_status_values (rc_resumable_values spec);
                   failed = normalize_status_values (ap_failed_values poll) in
               read_only_query (rc_request spec)
               \<and> str_contains submit ATTEMPT_TOKEN \<and> str_contains submit BINDING_TOKEN
               \<and> list_all explicit_path [rc_matches_path spec, rc_attempt_id_path spec, rc_binding_path spec,
                    rc_job_id_path spec, rc_status_path spec]
               \<and> accepted \<noteq> [] \<and> \<not> list_ex (\<lambda>v. v \<in> set failed) accepted))"

definition is_job_char :: "nat \<Rightarrow> bool" where
  "is_job_char c \<longleftrightarrow> (48 \<le> c \<and> c \<le> 57) \<or> (65 \<le> c \<and> c \<le> 90) \<or> (97 \<le> c \<and> c \<le> 122) \<or> c \<in> set (cps ''-_.:~'')"

definition safe_job :: "utext \<Rightarrow> bool" where
  "safe_job job \<longleftrightarrow> job \<noteq> [] \<and> blen job \<le> 512 \<and> \<not> str_contains job (cps ''..'') \<and> list_all is_job_char job"

definition reconcile_of :: "provider_template \<Rightarrow> reconcile_spec option" where
  "reconcile_of tp = Option.bind (tp_async_poll tp) ap_reconcile"

definition validate_record :: "(utext json \<Rightarrow> utext) \<Rightarrow> provider_template \<Rightarrow> utext \<Rightarrow> utext \<Rightarrow> utext json \<Rightarrow> utext \<Rightarrow> bool" where
  "validate_record print tp attempt binding rec job =
     (case reconcile_of tp of
        None \<Rightarrow> False
      | Some spec \<Rightarrow>
          is_object rec
          \<and> Option.bind (extract_json_path rec (rc_attempt_id_path spec)) as_str = Some attempt
          \<and> Option.bind (extract_json_path rec (rc_binding_path spec)) as_str = Some binding
          \<and> extract_json_path_string print rec (rc_job_id_path spec) = Some job
          \<and> (case Option.bind (extract_json_path rec (rc_status_path spec)) as_str of
               None \<Rightarrow> False
             | Some status \<Rightarrow> normalize_status_value status \<in> set (normalize_status_values (rc_resumable_values spec)))
          \<and> safe_job job)"

text \<open>The job of the one matching record, and the context that the submission would have had.\<close>

definition recorded_job :: "(utext json \<Rightarrow> utext) \<Rightarrow> utext json option \<Rightarrow> utext option" where
  "recorded_job print x =
     (case x of
        Some (JString s) \<Rightarrow> Some s
      | Some (JInt i) \<Rightarrow> if 0 < i \<and> i \<le> int u64_max then Some (print (JInt i)) else None
      | _ \<Rightarrow> None)"

definition with_job :: "utext \<Rightarrow> ctx \<Rightarrow> ctx" where
  "with_job job c = fmupd (cps ''computed.async_job_id'') job (fmupd (cps ''computed.job_id'') job c)"

definition names_job :: "utext \<Rightarrow> ctx \<Rightarrow> bool" where
  "names_job job c \<longleftrightarrow> fmlookup c (cps ''computed.job_id'') = Some job \<and> fmlookup c (cps ''computed.async_job_id'') = Some job"

definition verified_job_context ::
  "(utext json \<Rightarrow> utext) \<Rightarrow> provider_template \<Rightarrow> utext \<Rightarrow> utext \<Rightarrow> ctx \<Rightarrow> utext json \<Rightarrow> (utext \<times> ctx \<times> utext json) option" where
  "verified_job_context print tp attempt binding c proof_value =
     Option.bind (tp_async_poll tp) (\<lambda>poll.
     Option.bind (ap_reconcile poll) (\<lambda>spec.
     case Option.bind (extract_json_path proof_value (rc_matches_path spec)) as_array of
       Some [rec] \<Rightarrow>
         Option.bind (recorded_job print (extract_json_path rec (rc_job_id_path spec))) (\<lambda>job.
         if \<not> validate_record print tp attempt binding rec job then None
         else Option.bind (apply_json_extract_map print (ap_submit_extract poll) rec (with_job job c)) (\<lambda>c'.
           if names_job job c' then Some (job, c', rec) else None))
     | _ \<Rightarrow> None))"

section \<open>What holds of the texts\<close>

text \<open>The order in which the context is iterated shows in the rendering: a value that holds a token is expanded or not.\<close>

lemma rendering_order_matters:
  "render_template_string (cps ''{{input.text}}'') [(cps ''input.text'', cps ''{{auth.key}}''), (cps ''auth.key'', cps ''secret'')]
     = cps ''secret''"
  "render_template_string (cps ''{{input.text}}'') [(cps ''auth.key'', cps ''secret''), (cps ''input.text'', cps ''{{auth.key}}'')]
     = cps ''{{auth.key}}''"
  by (simp_all add: render_template_string_def replace_all_def token_of_def cps_def split_on.simps)

text \<open>
  Evidence is bound to its operation: when a query result of the provider is accepted, exactly one record matched, that
  record names the committed attempt and binding and a job that is safe in an address, its status is one the template
  accepts and not one that the template calls failed, and the rebuilt context names that job.
\<close>

theorem accepted_evidence_is_own:
  assumes "verified_job_context print tp attempt binding c v = Some (job, c', rec)" "validate_contract print tp"
    "tp_async_poll tp = Some poll" "ap_reconcile poll = Some spec"
  shows "Option.bind (extract_json_path v (rc_matches_path spec)) as_array = Some [rec]
    \<and> Option.bind (extract_json_path rec (rc_attempt_id_path spec)) as_str = Some attempt
    \<and> Option.bind (extract_json_path rec (rc_binding_path spec)) as_str = Some binding
    \<and> safe_job job \<and> names_job job c'
    \<and> (\<exists>status. Option.bind (extract_json_path rec (rc_status_path spec)) as_str = Some status
        \<and> \<not> status_values_contains (normalize_status_values (ap_failed_values poll)) status)"
proof -
  have "validate_record print tp attempt binding rec job" "names_job job c'"
    "Option.bind (extract_json_path v (rc_matches_path spec)) as_array = Some [rec]"
    using assms(1,3,4)
    by (auto simp: verified_job_context_def bind_eq_Some_conv split: option.splits list.splits if_splits)
  moreover have "\<forall>s \<in> set (normalize_status_values (rc_resumable_values spec)). s \<notin> set (normalize_status_values (ap_failed_values poll))"
    using assms(2,3,4) by (auto simp: validate_contract_def Let_def list_ex_iff)
  ultimately show ?thesis
    using assms(3,4) by (auto simp: validate_record_def reconcile_of_def status_values_contains_def split: option.splits)
qed

end
