(* ===== verification/ProviderLedger.thy ===== *)
theory ProviderLedger
  imports PendingCallbacks TemplateText "HOL-Library.Char_ord"
begin

text \<open>
  The durable ledger of provider calls: \<open>db/async_jobs.rs\<close> with \<open>ledger.rs\<close>, \<open>ledger/reconciliation.rs\<close> and
  \<open>execution.rs\<close>, over the tables \<open>system_config\<close>, \<open>async_jobs\<close> and \<open>retained_capacity\<close> (\<open>db/capacity.rs\<close>). One encrypted
  operation per translation unit says whether a paid request may have been sent, which job it became and what it
  returned; a row of \<open>async_jobs\<close> projects a job that is being polled, and an encrypted claim fences every write.

  The native lock of a unit and the booking files of \<open>storage_capacity.rs\<close> are outside the tables: using one is a
  step that can fail. Random identifiers and nonces are arguments, the digest of a downloaded asset and the serde
  encodings are fields of \<open>ledger_codec\<close>.
\<close>

section \<open>Data\<close>

record async_unit =
  au_site_key :: string
  au_relation_id :: int
  au_object_type :: utext
  au_object_id :: int
  au_field_name :: utext
  au_chunk_index :: int
  au_lane :: utext
  au_source_snapshot :: "utext json option"

record async_env =
  ae_domain :: string
  ae_relation_id :: int
  ae_object_type :: utext
  ae_object_id :: int
  ae_field_name :: utext
  ae_chunk_index :: int
  ae_lane :: utext
  ae_source_snapshot :: "utext json option"
  ae_resume_binding :: "utext option"

record async_row =
  aj_domain :: string
  aj_relation_id :: int
  aj_object_type :: utext
  aj_object_id :: int
  aj_field_name :: utext
  aj_chunk_index :: int
  aj_lane :: utext
  aj_component_id :: utext
  aj_job_id :: utext
  aj_ctx_json :: bytes
  aj_source_lang :: utext
  aj_target_lang :: utext
  aj_status :: string
  aj_attempts :: int
  aj_error :: utext
  aj_created_at :: int
  aj_updated_at :: int

record saved_context =
  sc_format :: string
  sc_unit :: async_unit
  sc_component_id :: utext
  sc_source_lang :: utext
  sc_target_lang :: utext
  sc_resume_binding :: "utext option"
  sc_job_id :: utext
  sc_ctx :: ctx

record stored_unit =
  su_status :: string
  su_job_id :: utext
  su_ctx :: ctx
  su_attempts :: int
  su_component_id :: utext
  su_source_lang :: utext
  su_target_lang :: utext
  su_resume_binding :: "utext option"

record evidence =
  ev_record :: "utext json"
  ev_sha256 :: string
  ev_verified_at :: int

record recovery_snapshot =
  rs_domain :: string
  rs_template :: provider_template
  rs_language_map :: ctx
  rs_input :: "utext json"
  rs_submit_context_ready :: bool
  rs_proxy_profile_id :: "utext option"
  rs_evidence :: "evidence option"

record operation =
  op_format :: string
  op_unit :: async_unit
  op_binding :: utext
  op_attempt_id :: string
  op_component_id :: utext
  op_source_lang :: utext
  op_target_lang :: utext
  op_state :: string
  op_job_id :: "utext option"
  op_ctx :: ctx
  op_result :: "utext json option"
  op_asset_sha256 :: "string option"
  op_recovery :: "recovery_snapshot option"

record saved_claim =
  cl_format :: string
  cl_unit :: async_unit
  cl_binding :: "utext option"
  cl_owner :: string

text \<open>The authority of a runner; the native lock it holds is not in the state.\<close>

record provider_execution =
  pe_env :: async_env
  pe_key :: string
  pe_raw :: bytes

record ledger_db =
  lg_config :: "(string, bytes) fmap"
  lg_jobs :: "async_row list"
  lg_capacity :: "(string, nat \<times> int) fmap"

record ledger_codec =
  lx_crates :: crates
  lx_sources :: secret_sources
  lx_print :: "utext json \<Rightarrow> utext"
  lx_encode :: "utext json \<Rightarrow> bytes"
  lx_read :: "bytes \<Rightarrow> utext json option"
  operation_value :: "operation \<Rightarrow> utext json"
  value_operation :: "utext json \<Rightarrow> operation option"
  claim_value :: "saved_claim \<Rightarrow> utext json"
  value_claim :: "utext json \<Rightarrow> saved_claim option"
  context_value :: "saved_context \<Rightarrow> utext json"
  value_context :: "utext json \<Rightarrow> saved_context option"
  template_value :: "provider_template \<Rightarrow> utext json"
  asset_sha256 :: "nat \<Rightarrow> utext \<Rightarrow> string option"
  url_origin :: "string \<Rightarrow> utext option"
  redact_text :: "utext \<Rightarrow> utext"

section \<open>Digests and keys\<close>

definition json_digest :: "ledger_codec \<Rightarrow> utext json \<Rightarrow> string" where
  "json_digest cx v = sha256_hex (lx_crates cx) (lx_encode cx (canonicalize v))"

definition site_key :: "ledger_codec \<Rightarrow> string \<Rightarrow> string" where
  "site_key cx url = ''wptsall-site-v1:'' @ sha256_hex (lx_crates cx) (utf8_bytes url)"

definition unit_of :: "ledger_codec \<Rightarrow> async_env \<Rightarrow> async_unit" where
  "unit_of cx e = \<lparr>au_site_key = site_key cx (ae_domain e), au_relation_id = ae_relation_id e, au_object_type = ae_object_type e,
     au_object_id = ae_object_id e, au_field_name = ae_field_name e, au_chunk_index = ae_chunk_index e, au_lane = ae_lane e,
     au_source_snapshot = ae_source_snapshot e\<rparr>"

definition unit_value :: "async_unit \<Rightarrow> utext json" where
  "unit_value u = JObject
     [(cps ''site_key'', JString (cps (au_site_key u))), (cps ''relation_id'', JInt (au_relation_id u)),
      (cps ''object_type'', JString (au_object_type u)), (cps ''object_id'', JInt (au_object_id u)),
      (cps ''field_name'', JString (au_field_name u)), (cps ''chunk_index'', JInt (au_chunk_index u)),
      (cps ''lane'', JString (au_lane u)), (cps ''source_snapshot'', opt_json (\<lambda>v. v) (au_source_snapshot u))]"

definition OPERATION_PREFIX :: string where "OPERATION_PREFIX = ''provider-operation-v1:''"
definition CLAIM_PREFIX :: string where "CLAIM_PREFIX = ''provider-execution-claim-v1:''"

definition operation_key :: "ledger_codec \<Rightarrow> async_unit \<Rightarrow> string" where
  "operation_key cx u = OPERATION_PREFIX @ json_digest cx (JObject [(cps ''unit'', unit_value u)])"

definition unit_key :: "ledger_codec \<Rightarrow> async_unit \<Rightarrow> string" where
  "unit_key cx u = CLAIM_PREFIX @ json_digest cx (unit_value (u\<lparr>au_source_snapshot := None\<rparr>))"

definition text_map :: "ctx \<Rightarrow> utext json" where
  "text_map m = JObject (map (\<lambda>(k, v). (k, JString v)) (sorted_list_of_fmap m))"

definition runtime_binding ::
  "ledger_codec \<Rightarrow> provider_template \<Rightarrow> ctx \<Rightarrow> utext json option \<Rightarrow> utext json \<Rightarrow> utext \<Rightarrow> utext \<Rightarrow> utext" where
  "runtime_binding cx tp language_map snapshot input source target = cps (json_digest cx (JObject
     [(cps ''template'', template_value cx tp), (cps ''language_map'', text_map language_map),
      (cps ''source_snapshot'', opt_json (\<lambda>v. v) snapshot), (cps ''input'', input),
      (cps ''source_lang'', JString source), (cps ''target_lang'', JString target)]))"

text \<open>A text that \<open>Uuid::parse_str\<close> reads and prints back unchanged, and that is not the nil UUID.\<close>

definition canonical_uuid :: "string \<Rightarrow> bool" where
  "canonical_uuid s \<longleftrightarrow> length s = 36 \<and> list_all (\<lambda>i. if i \<in> {8, 13, 18, 23} then s ! i = CHR ''-''
       else s ! i \<in> set ''0123456789abcdef'') [0..<36] \<and> \<not> list_all (\<lambda>c. c \<in> set ''-0'') s"

section \<open>The encrypted documents\<close>

definition seal_value :: "ledger_codec \<Rightarrow> bytes \<Rightarrow> utext json \<Rightarrow> ('s, bytes) dbm" where
  "seal_value cx nonce v =
     (case encrypt_config_value (lx_crates cx) (lx_sources cx) nonce (lx_encode cx v) of
        Inl _ \<Rightarrow> fail KeyFailure
      | Inr raw \<Rightarrow> ret raw)"

definition unseal_value :: "ledger_codec \<Rightarrow> bytes \<Rightarrow> db_error + utext json" where
  "unseal_value cx raw =
     (case decrypt_config_value (lx_crates cx) (lx_sources cx) raw of
        Inl _ \<Rightarrow> Inl KeyFailure
      | Inr plain \<Rightarrow> (case lx_read cx plain of None \<Rightarrow> Inl DamagedRow | Some v \<Rightarrow> Inr v))"

definition proven_evidence :: "ledger_codec \<Rightarrow> provider_template \<Rightarrow> operation \<Rightarrow> evidence \<Rightarrow> bool" where
  "proven_evidence cx tp op ev \<longleftrightarrow>
     op_state op \<noteq> ''submit_unknown'' \<and> 0 < ev_verified_at ev \<and> ev_sha256 ev = json_digest cx (ev_record ev)
     \<and> (case op_job_id op of
          None \<Rightarrow> False
        | Some job \<Rightarrow> validate_record (lx_print cx) tp (cps (op_attempt_id op)) (op_binding op) (ev_record ev) job)"

definition validate_snapshot :: "ledger_codec \<Rightarrow> recovery_snapshot \<Rightarrow> operation \<Rightarrow> bool" where
  "validate_snapshot cx r op \<longleftrightarrow>
     site_key cx (rs_domain r) = au_site_key (op_unit op) \<and> tp_id (rs_template r) = op_component_id op
     \<and> runtime_binding cx (rs_template r) (rs_language_map r) (au_source_snapshot (op_unit op)) (rs_input r)
         (op_source_lang op) (op_target_lang op) = op_binding op
     \<and> fmlookup (op_ctx op) (cps ''operation.attempt_id'') = Some (cps (op_attempt_id op))
     \<and> fmlookup (op_ctx op) (cps ''operation.binding'') = Some (op_binding op)
     \<and> (case rs_evidence r of None \<Rightarrow> True | Some ev \<Rightarrow> proven_evidence cx (rs_template r) op ev)"

definition snapshot_ok :: "ledger_codec \<Rightarrow> operation \<Rightarrow> bool" where
  "snapshot_ok cx op \<longleftrightarrow> (case op_recovery op of None \<Rightarrow> True | Some r \<Rightarrow> validate_snapshot cx r op)"

definition state_ok :: "operation \<Rightarrow> bool" where
  "state_ok op \<longleftrightarrow>
     (if op_state op = ''submit_unknown'' then op_job_id op = None \<and> op_result op = None \<and> op_asset_sha256 op = None
      else if op_state op = ''polling''
      then (case op_job_id op of None \<Rightarrow> False | Some job \<Rightarrow> job \<noteq> []) \<and> op_result op = None \<and> op_asset_sha256 op = None
      else op_state op = ''result_ready'' \<and> op_result op \<noteq> None)"

definition operation_ok :: "operation \<Rightarrow> bool" where
  "operation_ok op \<longleftrightarrow> op_format op = ''provider-operation-v1'' \<and> canonical_uuid (op_attempt_id op)
     \<and> op_component_id op \<noteq> [] \<and> op_source_lang op \<noteq> [] \<and> op_target_lang op \<noteq> []"

definition decode_operation :: "ledger_codec \<Rightarrow> bytes \<Rightarrow> db_error + operation" where
  "decode_operation cx raw =
     (if \<not> sealed raw then Inl DamagedRow
      else case unseal_value cx raw of
        Inl e \<Rightarrow> Inl e
      | Inr v \<Rightarrow>
          (case value_operation cx v of
             None \<Rightarrow> Inl DamagedRow
           | Some op \<Rightarrow>
               if \<not> operation_ok op then Inl ScopeChanged
               else if \<not> state_ok op then Inl DamagedRow
               else if \<not> snapshot_ok cx op then Inl ScopeChanged
               else Inr op))"

text \<open>
  What the code relies on: the laws of the crates, JSON that reads back and is UTF-8, encodings that read back, and the
  first characters of the Base64 text of an envelope.
\<close>

definition ledger_laws :: "ledger_codec \<Rightarrow> bool" where
  "ledger_laws cx \<longleftrightarrow> crate_laws (lx_crates cx)
     \<and> (\<forall>v. lx_read cx (lx_encode cx v) = Some v \<and> valid_utf8 (lx_encode cx v))
     \<and> (\<forall>op. value_operation cx (operation_value cx op) = Some op)
     \<and> (\<forall>c. value_claim cx (claim_value cx c) = Some c)
     \<and> (\<forall>c. value_context cx (context_value cx c) = Some c)
     \<and> (\<forall>r. sealed (base64_encode (lx_crates cx) (WPTC_MAGIC @ WPTC_VERSION # r)))"

section \<open>Statements\<close>

definition get_config :: "string \<Rightarrow> (ledger_db, bytes option) dbm" where
  "get_config k = query (\<lambda>s. fmlookup (lg_config s) k)"

text \<open>\<open>UPDATE ... WHERE key AND value\<close>, or \<open>INSERT\<close>; the number of changed rows.\<close>

definition put_config :: "string \<Rightarrow> bytes option \<Rightarrow> bytes \<Rightarrow> (ledger_db, nat) dbm" where
  "put_config k prior v = execute (\<lambda>now s.
     case prior of
       Some raw \<Rightarrow>
         if fmlookup (lg_config s) k = Some raw then Inr (1, s\<lparr>lg_config := fmupd k v (lg_config s)\<rparr>) else Inr (0, s)
     | None \<Rightarrow>
         if fmlookup (lg_config s) k = None then Inr (1, s\<lparr>lg_config := fmupd k v (lg_config s)\<rparr>) else Inl UniqueViolation)"

text \<open>A step outside the tables, such as a lock or a booking file, and one whose answer matters.\<close>

definition outside_step :: "('s, unit) dbm" where
  "outside_step = query (\<lambda>_. ())"

definition outside :: "(nat \<Rightarrow> 'a option) \<Rightarrow> ('s, 'a) dbm" where
  "outside f env n s =
     (if fault env n then (Inl SqlFault, Suc n, s)
      else case f n of None \<Rightarrow> (Inl NoReply, Suc n, s) | Some a \<Rightarrow> (Inr a, Suc n, s))"

text \<open>\<open>db.savepoint()\<close>: dropped without a commit it rolls back, which is also how an early return without changes ends.\<close>

definition scoped :: "('s, bool \<times> 'a) dbm \<Rightarrow> ('s, 'a) dbm" where
  "scoped m env n s =
     (if fault env n then (Inl SqlFault, Suc n, s)
      else case m env (Suc n) s of
        (Inl e, n', s') \<Rightarrow> (Inl e, n', s)
      | (Inr (commit, a), n', s') \<Rightarrow>
          if \<not> commit then (Inr a, n', s)
          else if fault env n' then (Inl SqlFault, Suc n', s)
          else (Inr a, Suc n', s'))"

definition lift_sum :: "db_error + 'a \<Rightarrow> ('s, 'a) dbm" where
  "lift_sum r = (case r of Inl e \<Rightarrow> fail e | Inr a \<Rightarrow> ret a)"

section \<open>The projection of a job\<close>

definition same_unit :: "async_env \<Rightarrow> async_row \<Rightarrow> bool" where
  "same_unit e r \<longleftrightarrow> aj_relation_id r = ae_relation_id e \<and> aj_object_type r = ae_object_type e
     \<and> aj_object_id r = ae_object_id e \<and> aj_field_name r = ae_field_name e \<and> aj_chunk_index r = ae_chunk_index e
     \<and> aj_lane r = ae_lane e"

definition row_of :: "ledger_codec \<Rightarrow> async_env \<Rightarrow> async_row \<Rightarrow> bool" where
  "row_of cx e r \<longleftrightarrow> (aj_domain r = site_key cx (ae_domain e) \<or> aj_domain r = ae_domain e) \<and> same_unit e r"

definition legacy_variables :: "utext json \<Rightarrow> bool" where
  "legacy_variables v \<longleftrightarrow>
     (case as_object v of None \<Rightarrow> False | Some ms \<Rightarrow> list_all (\<lambda>(k, x). as_str x \<noteq> None) ms)
     \<and> \<not> (case Option.bind (jget (cps ''format'') v) as_str of
            None \<Rightarrow> False | Some format \<Rightarrow> prefix (cps ''wptsall-async-context-'') format)"

definition string_map :: "utext json \<Rightarrow> ctx" where
  "string_map v = (case as_object v of None \<Rightarrow> fmempty
     | Some ms \<Rightarrow> fmap_of_list (List.map_filter (\<lambda>(k, x). map_option (Pair k) (as_str x)) ms))"

definition saved_matches :: "ledger_codec \<Rightarrow> async_env \<Rightarrow> async_row \<Rightarrow> saved_context \<Rightarrow> bool" where
  "saved_matches cx e r c \<longleftrightarrow> sc_format c = ''wptsall-async-context-v1'' \<and> aj_domain r = site_key cx (ae_domain e)
     \<and> sc_unit c = unit_of cx e \<and> sc_component_id c = aj_component_id r \<and> sc_source_lang c = aj_source_lang r
     \<and> sc_target_lang c = aj_target_lang r \<and> sc_job_id c = aj_job_id r
     \<and> (case ae_resume_binding e of None \<Rightarrow> True | Some b \<Rightarrow> sc_resume_binding c = Some b)"

definition resume_context :: "ledger_codec \<Rightarrow> async_env \<Rightarrow> async_row \<Rightarrow> utext json \<Rightarrow> db_error + ctx \<times> utext option" where
  "resume_context cx e r v =
     (if legacy_variables v
      then if ae_resume_binding e \<noteq> None then Inl ScopeChanged else Inr (string_map v, None)
      else case value_context cx v of
        None \<Rightarrow> Inl DamagedRow
      | Some c \<Rightarrow> if saved_matches cx e r c then Inr (sc_ctx c, sc_resume_binding c) else Inl ScopeChanged)"

definition stored_row :: "ledger_codec \<Rightarrow> async_env \<Rightarrow> async_row \<Rightarrow> db_error + stored_unit" where
  "stored_row cx e r =
     (if prefix ''wptsall-site-v1:'' (aj_domain r) \<and> \<not> sealed (aj_ctx_json r) then Inl DamagedRow
      else if aj_status r \<notin> {''polling'', ''failed''} then Inl DamagedRow
      else if trim_cp (aj_job_id r) = [] \<or> trim_cp (aj_component_id r) = [] \<or> aj_attempts r < 0 then Inl DamagedRow
      else case unseal_value cx (aj_ctx_json r) of
        Inl x \<Rightarrow> Inl x
      | Inr v \<Rightarrow>
          (case resume_context cx e r v of
             Inl x \<Rightarrow> Inl x
           | Inr (c, b) \<Rightarrow> Inr \<lparr>su_status = aj_status r, su_job_id = aj_job_id r, su_ctx = c, su_attempts = aj_attempts r,
               su_component_id = aj_component_id r, su_source_lang = aj_source_lang r, su_target_lang = aj_target_lang r,
               su_resume_binding = b\<rparr>))"

definition read_unit :: "ledger_codec \<Rightarrow> async_env \<Rightarrow> (ledger_db, stored_unit option) dbm" where
  "read_unit cx e =
     bind (query (\<lambda>s. take 2 (filter (row_of cx e) (lg_jobs s)))) (\<lambda>rows.
     case rows of
       [] \<Rightarrow> ret None
     | [r] \<Rightarrow> bind (lift_sum (stored_row cx e r)) (\<lambda>u. ret (Some u))
     | _ \<Rightarrow> fail AmbiguousRow)"

section \<open>The operation\<close>

definition load_operation :: "ledger_codec \<Rightarrow> async_env \<Rightarrow> (ledger_db, (bytes \<times> operation) option) dbm" where
  "load_operation cx e =
     (case ae_resume_binding e of
        None \<Rightarrow> fail InvalidRequest
      | Some b \<Rightarrow>
          bind (get_config (operation_key cx (unit_of cx e))) (\<lambda>found.
          case found of
            None \<Rightarrow> ret None
          | Some raw \<Rightarrow>
              bind (lift_sum (decode_operation cx raw)) (\<lambda>op.
              seq (ensure (op_unit op = unit_of cx e \<and> op_binding op = b) ScopeChanged) (ret (Some (raw, op))))))"

definition projection_matches :: "operation \<Rightarrow> stored_unit \<Rightarrow> bool" where
  "projection_matches op u \<longleftrightarrow> op_job_id op = Some (su_job_id u) \<and> op_component_id op = su_component_id u
     \<and> op_ctx op = su_ctx u \<and> op_source_lang op = su_source_lang u \<and> op_target_lang op = su_target_lang u"

definition assert_projection :: "operation \<Rightarrow> stored_unit option \<Rightarrow> (ledger_db, unit) dbm" where
  "assert_projection op row = (case row of None \<Rightarrow> ret () | Some u \<Rightarrow> ensure (projection_matches op u) Conflict)"

text \<open>The credit itself is an entry of a booking file; finding it is one step outside the tables.\<close>

definition continuation_credit :: "ledger_codec \<Rightarrow> async_env \<Rightarrow> (ledger_db, unit) dbm" where
  "continuation_credit cx e =
     bind (if ae_resume_binding e \<noteq> None then load_operation cx e else ret None) (\<lambda>found.
     bind (read_unit cx e) (\<lambda>row.
     case found of
       Some (raw, op) \<Rightarrow> seq (assert_projection op row) outside_step
     | None \<Rightarrow> if row = None then ret () else outside_step))"

section \<open>Retained capacity\<close>

definition DEFAULT_MAX_RETAINED_UNITS :: nat where "DEFAULT_MAX_RETAINED_UNITS = 10000"
definition DEFAULT_MAX_RESERVED_BYTES :: nat where "DEFAULT_MAX_RESERVED_BYTES = 32 * 1024 * 1024 * 1024"
definition TEXT_RESERVATION_BYTES :: nat where "TEXT_RESERVATION_BYTES = 256 * 1024"
definition MEDIA_RESERVATION_BYTES :: nat where "MEDIA_RESERVATION_BYTES = 2 * 1024 * 1024 * 1024"
definition MAX_CONFIG_LIMIT :: nat where "MAX_CONFIG_LIMIT = 9007199254740991"

definition capacity_limit :: "string \<Rightarrow> nat \<Rightarrow> (ledger_db, nat) dbm" where
  "capacity_limit k preset =
     bind (get_config k) (\<lambda>found.
     case found of
       None \<Rightarrow> ret preset
     | Some raw \<Rightarrow>
         (case parse_u64 (map unat raw) of
            None \<Rightarrow> fail DamagedRow
          | Some v \<Rightarrow> seq (ensure (1 \<le> v \<and> v \<le> MAX_CONFIG_LIMIT) InvalidRequest) (ret v)))"

text \<open>\<open>LIKE\<close> ignores the case of ASCII letters; the pattern is a prefix.\<close>

definition key_like :: "string \<Rightarrow> string \<Rightarrow> bool" where
  "key_like p k \<longleftrightarrow> map ascii_lower (take (length p) k) = p"

definition keys_like :: "string \<Rightarrow> ledger_db \<Rightarrow> string list" where
  "keys_like p s = filter (key_like p) (sorted_list_of_fset (fmdom (lg_config s)))"

record capacity_counts =
  ci_retained_units :: nat
  ci_reserved_bytes :: nat
  ci_legacy_units :: nat
  ci_max_retained_units :: nat
  ci_max_reserved_bytes :: nat

definition capacity_sums :: "ledger_db \<Rightarrow> nat \<times> nat" where
  "capacity_sums s = (let rows = map snd (sorted_list_of_fmap (lg_capacity s)) in (length rows, sum_list (map fst rows)))"

definition capacity_inventory :: "(ledger_db, capacity_counts) dbm" where
  "capacity_inventory =
     bind (execute (\<lambda>now s. case capacity_sums s of (u, b) \<Rightarrow> if i64_max < b then Inl CounterOverflow else Inr ((u, b), s))) (\<lambda>sums.
     bind (query (\<lambda>s. length (filter (\<lambda>k. fmlookup (lg_capacity s) k = None) (keys_like OPERATION_PREFIX s)))) (\<lambda>legacy.
     seq (ensure (legacy * MEDIA_RESERVATION_BYTES \<le> u64_max \<and> snd sums + legacy * MEDIA_RESERVATION_BYTES \<le> u64_max
            \<and> fst sums + legacy \<le> u64_max) CounterOverflow)
    (bind (capacity_limit ''storage_max_retained_units'' DEFAULT_MAX_RETAINED_UNITS) (\<lambda>max_units.
     bind (capacity_limit ''storage_max_reserved_bytes'' DEFAULT_MAX_RESERVED_BYTES) (\<lambda>max_bytes.
     seq outside_step
         (ret \<lparr>ci_retained_units = fst sums + legacy, ci_reserved_bytes = snd sums + legacy * MEDIA_RESERVATION_BYTES,
            ci_legacy_units = legacy, ci_max_retained_units = max_units, ci_max_reserved_bytes = max_bytes\<rparr>)))))) "

definition record_capacity :: "string \<Rightarrow> nat \<Rightarrow> (ledger_db, unit) dbm" where
  "record_capacity k bytes =
     seq (execute (\<lambda>now s.
            if fmlookup (lg_capacity s) k \<noteq> None then Inl UniqueViolation
            else Inr ((), s\<lparr>lg_capacity := fmupd k (bytes, unix_ts now) (lg_capacity s)\<rparr>)))
    (bind (query (\<lambda>s. map_option fst (fmlookup (lg_capacity s) k))) (\<lambda>saved.
     ensure (saved = Some bytes) NotCommitted))"

definition reserve_new :: "string \<Rightarrow> nat \<Rightarrow> (ledger_db, unit) dbm" where
  "reserve_new k bytes =
     seq (ensure (0 < bytes \<and> bytes \<le> MAX_CONFIG_LIMIT) InvalidRequest)
    (bind (query (\<lambda>s. length (keys_like ''integration-save-v1:'' s))) (\<lambda>unresolved.
     seq (ensure (unresolved = 0) Conflict)
    (bind capacity_inventory (\<lambda>ci.
     seq (ensure (ci_retained_units ci < ci_max_retained_units ci \<and> ci_reserved_bytes ci + bytes \<le> u64_max
            \<and> ci_reserved_bytes ci + bytes \<le> ci_max_reserved_bytes ci) NotCommitted)
         (savepoint (seq (record_capacity k bytes) outside_step))))))"

definition record_existing :: "string \<Rightarrow> nat \<Rightarrow> (ledger_db, unit) dbm" where
  "record_existing k bytes =
     seq (ensure (0 < bytes \<and> bytes \<le> MAX_CONFIG_LIMIT) InvalidRequest) (record_capacity k bytes)"

section \<open>Writing the operation\<close>

definition admit_operation :: "ledger_codec \<Rightarrow> async_env \<Rightarrow> operation \<Rightarrow> bytes \<Rightarrow> (ledger_db, unit) dbm" where
  "admit_operation cx e op encoded =
     (let least = (if au_lane (op_unit op) = cps ''text'' then TEXT_RESERVATION_BYTES else MEDIA_RESERVATION_BYTES);
          frozen = 4 * length encoded; k = operation_key cx (unit_of cx e) in
      seq (ensure (frozen \<le> u64_max) CounterOverflow)
          (if op_state op = ''polling''
           then
             bind (read_unit cx e) (\<lambda>row.
             case row of
               None \<Rightarrow> fail NoRows
             | Some u \<Rightarrow> seq (ensure (projection_matches op u) Conflict) (record_existing k (max least frozen)))
           else reserve_new k (max least frozen)))"

definition install :: "ledger_codec \<Rightarrow> bytes \<Rightarrow> async_env \<Rightarrow> bytes option \<Rightarrow> operation \<Rightarrow> (ledger_db, unit) dbm" where
  "install cx nonce e prior op =
     bind (seal_value cx nonce (operation_value cx op)) (\<lambda>encoded.
     seq (if prior = None then admit_operation cx e op encoded else ret ())
    (bind (put_config (operation_key cx (unit_of cx e)) prior encoded) (\<lambda>affected.
     seq (ensure (affected = 1) NotCommitted)
    (bind (get_config (operation_key cx (unit_of cx e))) (\<lambda>saved.
     ensure (saved = Some encoded) NotCommitted)))))"

section \<open>The owner of a unit\<close>

definition claim_ok :: "ledger_codec \<Rightarrow> string \<Rightarrow> saved_claim \<Rightarrow> bool" where
  "claim_ok cx k c \<longleftrightarrow> cl_format c = ''provider-execution-claim-v1'' \<and> unit_key cx (cl_unit c) = k \<and> canonical_uuid (cl_owner c)"

definition check_claim :: "ledger_codec \<Rightarrow> string \<Rightarrow> bytes option \<Rightarrow> (ledger_db, unit) dbm" where
  "check_claim cx k prior =
     (case prior of
        None \<Rightarrow> ret ()
      | Some raw \<Rightarrow>
          seq (ensure (sealed raw) DamagedRow)
         (bind (lift_sum (unseal_value cx raw)) (\<lambda>v.
          case value_claim cx v of None \<Rightarrow> fail DamagedRow | Some c \<Rightarrow> ensure (claim_ok cx k c) ScopeChanged)))"

definition acquire :: "ledger_codec \<Rightarrow> bytes \<Rightarrow> string \<Rightarrow> async_env \<Rightarrow> (ledger_db, provider_execution) dbm" where
  "acquire cx nonce owner e =
     (let k = unit_key cx (unit_of cx e) in
      seq outside_step
     (savepoint
       (bind (get_config k) (\<lambda>prior.
        seq (check_claim cx k prior)
       (bind (seal_value cx nonce (claim_value cx \<lparr>cl_format = ''provider-execution-claim-v1'', cl_unit = unit_of cx e,
            cl_binding = ae_resume_binding e, cl_owner = owner\<rparr>)) (\<lambda>raw.
        seq (continuation_credit cx e)
       (bind (put_config k prior raw) (\<lambda>affected.
        seq (ensure (affected = 1) NotCommitted)
            (ret \<lparr>pe_env = e, pe_key = k, pe_raw = raw\<rparr>)))))))))"

definition assert_owner :: "provider_execution \<Rightarrow> (ledger_db, unit) dbm" where
  "assert_owner ex = bind (get_config (pe_key ex)) (\<lambda>v. ensure (v = Some (pe_raw ex)) ScopeChanged)"

section \<open>Jobs being polled\<close>

definition assert_polling_operation :: "ledger_codec \<Rightarrow> async_env \<Rightarrow> (ledger_db, unit) dbm" where
  "assert_polling_operation cx e =
     (if ae_resume_binding e = None then ret ()
      else bind (load_operation cx e) (\<lambda>found.
        case found of
          None \<Rightarrow> ret ()
        | Some (raw, op) \<Rightarrow>
            seq (ensure (op_state op = ''polling'') Conflict) (bind (read_unit cx e) (assert_projection op))))"

definition snapshot_matches :: "operation \<Rightarrow> saved_context \<Rightarrow> bool" where
  "snapshot_matches op c \<longleftrightarrow> op_job_id op = Some (sc_job_id c) \<and> op_component_id op = sc_component_id c \<and> op_ctx op = sc_ctx c
     \<and> op_source_lang op = sc_source_lang c \<and> op_target_lang op = sc_target_lang c"

definition still_polling :: "stored_unit option \<Rightarrow> bool" where
  "still_polling row \<longleftrightarrow> (case row of None \<Rightarrow> True | Some u \<Rightarrow> su_status u = ''polling'')"

definition assert_job_projection :: "ledger_codec \<Rightarrow> async_env \<Rightarrow> saved_context \<Rightarrow> (ledger_db, unit) dbm" where
  "assert_job_projection cx e c =
     (if ae_resume_binding e = None then ret ()
      else bind (load_operation cx e) (\<lambda>found.
        case found of
          None \<Rightarrow> ret ()
        | Some (raw, op) \<Rightarrow>
            seq (assert_polling_operation cx e)
           (seq (ensure (snapshot_matches op c) Conflict)
           (bind (read_unit cx e) (\<lambda>row. ensure (still_polling row) Conflict)))))"

definition assert_ready_operation :: "ledger_codec \<Rightarrow> async_env \<Rightarrow> (ledger_db, unit) dbm" where
  "assert_ready_operation cx e =
     (if ae_resume_binding e = None then ret ()
      else bind (load_operation cx e) (\<lambda>found.
        case found of
          None \<Rightarrow> fail NoRows
        | Some (raw, op) \<Rightarrow>
            seq (ensure (op_state op = ''result_ready'') Conflict)
           (bind (read_unit cx e) (\<lambda>row.
            case row of None \<Rightarrow> fail NoRows | Some u \<Rightarrow> ensure (projection_matches op u) Conflict))))"

definition same_job :: "async_env \<Rightarrow> saved_context \<Rightarrow> stored_unit \<Rightarrow> bool" where
  "same_job e c u \<longleftrightarrow> su_job_id u = sc_job_id c \<and> su_component_id u = sc_component_id c \<and> su_source_lang u = sc_source_lang c
     \<and> su_target_lang u = sc_target_lang c \<and> su_resume_binding u = ae_resume_binding e \<and> su_ctx u = sc_ctx c"

definition delete_jobs :: "(async_row \<Rightarrow> bool) \<Rightarrow> (ledger_db, nat) dbm" where
  "delete_jobs p = execute (\<lambda>now s.
     Inr (length (filter p (lg_jobs s)), s\<lparr>lg_jobs := filter (\<lambda>r. \<not> p r) (lg_jobs s)\<rparr>))"

definition update_jobs :: "(async_row \<Rightarrow> bool) \<Rightarrow> (int \<Rightarrow> async_row \<Rightarrow> async_row) \<Rightarrow> (ledger_db, nat) dbm" where
  "update_jobs p f = execute (\<lambda>now s.
     case update_where p (f (unix_ts now)) (lg_jobs s) of (changed, rows) \<Rightarrow> Inr (changed, s\<lparr>lg_jobs := rows\<rparr>))"

text \<open>\<open>INSERT OR REPLACE\<close>: a row with the same primary key goes.\<close>

definition replace_job :: "async_env \<Rightarrow> (int \<Rightarrow> async_row) \<Rightarrow> (ledger_db, unit) dbm" where
  "replace_job e mk = execute (\<lambda>now s. let r = mk (unix_ts now) in
     Inr ((), s\<lparr>lg_jobs := filter (\<lambda>q. \<not> (aj_domain q = aj_domain r \<and> same_unit e q)) (lg_jobs s) @ [r]\<rparr>))"

definition polling_row :: "ledger_codec \<Rightarrow> async_env \<Rightarrow> saved_context \<Rightarrow> bytes \<Rightarrow> int \<Rightarrow> async_row" where
  "polling_row cx e c sealed_ctx now =
     \<lparr>aj_domain = site_key cx (ae_domain e), aj_relation_id = ae_relation_id e, aj_object_type = ae_object_type e,
      aj_object_id = ae_object_id e, aj_field_name = ae_field_name e, aj_chunk_index = ae_chunk_index e, aj_lane = ae_lane e,
      aj_component_id = sc_component_id c, aj_job_id = sc_job_id c, aj_ctx_json = sealed_ctx,
      aj_source_lang = sc_source_lang c, aj_target_lang = sc_target_lang c, aj_status = ''polling'', aj_attempts = 0,
      aj_error = [], aj_created_at = now, aj_updated_at = now\<rparr>"

definition upsert_polling_job ::
  "ledger_codec \<Rightarrow> bytes \<Rightarrow> provider_execution \<Rightarrow> utext \<Rightarrow> utext \<Rightarrow> ctx \<Rightarrow> utext \<Rightarrow> utext \<Rightarrow> (ledger_db, unit) dbm" where
  "upsert_polling_job cx nonce ex component job c source target =
     (let e = pe_env ex;
          saved = \<lparr>sc_format = ''wptsall-async-context-v1'', sc_unit = unit_of cx e, sc_component_id = component,
            sc_source_lang = source, sc_target_lang = target, sc_resume_binding = ae_resume_binding e, sc_job_id = job,
            sc_ctx = c\<rparr> in
      seq (ensure (trim_cp component \<noteq> [] \<and> trim_cp job \<noteq> [] \<and> source \<noteq> [] \<and> target \<noteq> []) InvalidRequest)
     (bind (seal_value cx nonce (context_value cx saved)) (\<lambda>sealed_ctx.
      savepoint
       (seq (assert_owner ex)
       (seq (assert_job_projection cx e saved)
       (bind (read_unit cx e) (\<lambda>row.
        if (case row of None \<Rightarrow> False | Some u \<Rightarrow> su_status u = ''polling'')
        then ensure (\<exists>u. row = Some u \<and> same_job e saved u) Conflict
        else
          seq (continuation_credit cx e)
         (seq (delete_jobs (\<lambda>r. aj_domain r = ae_domain e \<and> same_unit e r))
              (replace_job e (polling_row cx e saved sealed_ctx))))))))))"

definition find_polling_job :: "ledger_codec \<Rightarrow> async_env \<Rightarrow> (ledger_db, stored_unit option) dbm" where
  "find_polling_job cx e =
     bind (read_unit cx e) (\<lambda>row. ret (case row of None \<Rightarrow> None | Some u \<Rightarrow> if su_status u = ''polling'' then Some u else None))"

definition touch_polling_job :: "ledger_codec \<Rightarrow> provider_execution \<Rightarrow> int \<Rightarrow> (ledger_db, unit) dbm" where
  "touch_polling_job cx ex attempts =
     savepoint
      (seq (assert_owner ex)
      (seq (assert_polling_operation cx (pe_env ex))
      (bind (read_unit cx (pe_env ex)) (\<lambda>row.
       case row of
         None \<Rightarrow> fail NoRows
       | Some u \<Rightarrow>
           seq (ensure (su_status u = ''polling'' \<and> su_attempts u \<le> attempts) Conflict)
          (seq (continuation_credit cx (pe_env ex))
          (bind (update_jobs (\<lambda>r. row_of cx (pe_env ex) r \<and> aj_status r = ''polling'')
                  (\<lambda>now r. r\<lparr>aj_attempts := attempts, aj_updated_at := now\<rparr>)) (\<lambda>affected.
           ensure (affected = 1) NotCommitted)))))))"

definition mark_job_failed :: "ledger_codec \<Rightarrow> provider_execution \<Rightarrow> utext \<Rightarrow> (ledger_db, unit) dbm" where
  "mark_job_failed cx ex snippet =
     savepoint
      (seq (assert_owner ex)
      (seq (assert_polling_operation cx (pe_env ex))
      (bind (read_unit cx (pe_env ex)) (\<lambda>row.
       case row of
         None \<Rightarrow> fail NoRows
       | Some u \<Rightarrow>
           seq (ensure (su_status u = ''polling'') Conflict)
          (seq (continuation_credit cx (pe_env ex))
          (bind (update_jobs (row_of cx (pe_env ex))
                  (\<lambda>now r. r\<lparr>aj_status := ''failed'', aj_error := redact_text cx snippet, aj_updated_at := now\<rparr>)) (\<lambda>affected.
           ensure (affected = 1) NotCommitted)))))))"

definition close_job :: "ledger_codec \<Rightarrow> provider_execution \<Rightarrow> (ledger_db, unit) dbm" where
  "close_job cx ex =
     savepoint
      (seq (assert_owner ex)
      (seq (assert_ready_operation cx (pe_env ex))
      (bind (read_unit cx (pe_env ex)) (\<lambda>row.
       case row of
         None \<Rightarrow> fail NoRows
       | Some u \<Rightarrow>
           seq (ensure (su_status u = ''polling'') Conflict)
          (seq (continuation_credit cx (pe_env ex))
          (bind (delete_jobs (row_of cx (pe_env ex))) (\<lambda>affected. ensure (affected = 1) NotCommitted)))))))"

definition async_jobs_inventory :: "(ledger_db, nat \<times> nat) dbm" where
  "async_jobs_inventory =
     bind (query (\<lambda>s. length (filter (\<lambda>r. aj_status r = ''failed'') (lg_jobs s)))) (\<lambda>failed.
     bind (query (\<lambda>s. length (filter (\<lambda>r. aj_status r = ''polling'') (lg_jobs s)))) (\<lambda>polling.
     ret (failed, polling)))"

section \<open>The life of an operation\<close>

definition validate_result :: "async_env \<Rightarrow> utext json \<Rightarrow> bool" where
  "validate_result e v =
     (if ae_lane e = cps ''text''
      then (case as_str v of None \<Rightarrow> False | Some t \<Rightarrow> trim_cp t \<noteq> [])
      else
        (case as_object v of None \<Rightarrow> False | Some ms \<Rightarrow> length ms = 2)
        \<and> (\<exists>r. Option.bind (jget (cps ''translated_ref'') v) as_str = Some r)
        \<and> (\<exists>t. Option.bind (jget (cps ''translated_text'') v) as_str = Some t)
        \<and> list_ex (\<lambda>k. case Option.bind (jget k v) as_str of None \<Rightarrow> False | Some t \<Rightarrow> trim_cp t \<noteq> [])
             [cps ''translated_ref'', cps ''translated_text''])"

text \<open>Opening and reading the file of a downloaded asset is one step.\<close>

definition asset_digest :: "ledger_codec \<Rightarrow> utext json \<Rightarrow> (ledger_db, string option) dbm" where
  "asset_digest cx v =
     (case Option.bind (Option.bind (jget (cps ''translated_ref'') v) as_str) (strip_pfx (cps ''file://'')) of
        None \<Rightarrow> ret None
      | Some path \<Rightarrow> bind (outside (\<lambda>n. asset_sha256 cx n path)) (\<lambda>d. ret (Some d)))"

datatype provider_recovery = Vacant | Polling utext ctx int | Ready "utext json"

text \<open>Releasing an unused booking can fail without an effect here; it is only logged.\<close>

definition recover_provider_operation :: "ledger_codec \<Rightarrow> async_env \<Rightarrow> (ledger_db, provider_recovery) dbm" where
  "recover_provider_operation cx e =
     bind (load_operation cx e) (\<lambda>found.
     case found of
       None \<Rightarrow> ret Vacant
     | Some (raw, op) \<Rightarrow>
         bind (read_unit cx e) (\<lambda>row.
         seq (assert_projection op row)
         (if op_state op = ''submit_unknown'' then fail Conflict
          else if op_state op = ''result_ready''
          then (case op_result op of
              None \<Rightarrow> fail DamagedRow
            | Some v \<Rightarrow>
                seq (ensure (validate_result e v) InvalidRequest)
               (bind (asset_digest cx v) (\<lambda>d.
                seq (ensure (d = op_asset_sha256 op) Conflict) (ret (Ready v)))))
          else (case op_job_id op of
              None \<Rightarrow> fail DamagedRow
            | Some job \<Rightarrow>
                seq (ensure (still_polling row) Conflict)
                    (ret (Polling job (op_ctx op) (case row of None \<Rightarrow> 0 | Some u \<Rightarrow> su_attempts u)))))))"

definition new_operation ::
  "ledger_codec \<Rightarrow> async_env \<Rightarrow> utext \<Rightarrow> string \<Rightarrow> utext \<Rightarrow> utext \<Rightarrow> utext \<Rightarrow> ctx \<Rightarrow> operation" where
  "new_operation cx e b attempt component source target c =
     \<lparr>op_format = ''provider-operation-v1'', op_unit = unit_of cx e, op_binding = b, op_attempt_id = attempt,
      op_component_id = component, op_source_lang = source, op_target_lang = target, op_state = ''submit_unknown'',
      op_job_id = None, op_ctx = c, op_result = None, op_asset_sha256 = None, op_recovery = None\<rparr>"

definition as_polling :: "utext \<Rightarrow> ctx \<Rightarrow> operation \<Rightarrow> operation" where
  "as_polling job c op = op\<lparr>op_state := ''polling'', op_job_id := Some job, op_ctx := c\<rparr>"

definition save_provider_job ::
  "ledger_codec \<Rightarrow> bytes \<Rightarrow> string \<Rightarrow> provider_execution \<Rightarrow> utext \<Rightarrow> utext \<Rightarrow> ctx \<Rightarrow> utext \<Rightarrow> utext \<Rightarrow> (ledger_db, unit) dbm" where
  "save_provider_job cx nonce attempt ex component job c source target =
     (let e = pe_env ex in
      seq (ensure (job \<noteq> []) InvalidRequest)
     (scoped
      (seq (assert_owner ex)
      (bind (read_unit cx e) (\<lambda>row0.
       seq (ensure (still_polling row0) Conflict)
      (bind (load_operation cx e) (\<lambda>prior.
       bind (case prior of
           Some (raw, op) \<Rightarrow>
             bind (read_unit cx e) (\<lambda>row.
             seq (assert_projection op row)
            (seq (ensure (op_component_id op = component \<and> op_source_lang op = source \<and> op_target_lang op = target) Conflict)
                 (if op_state op = ''polling''
                  then seq (ensure (op_job_id op = Some job \<and> op_ctx op = c) Conflict) (ret None)
                  else seq (ensure (op_state op = ''submit_unknown'') Conflict) (ret (Some op)))))
         | None \<Rightarrow>
             bind (read_unit cx e) (\<lambda>row.
             case row of
               None \<Rightarrow> fail NoRows
             | Some u \<Rightarrow>
                 seq (ensure (su_job_id u = job \<and> su_ctx u = c \<and> su_component_id u = component
                        \<and> su_source_lang u = source \<and> su_target_lang u = target) Conflict)
                     (ret (Some (new_operation cx e (the (ae_resume_binding e)) attempt component source target c))))) (\<lambda>todo.
       case todo of
         None \<Rightarrow> ret (False, ())
       | Some op \<Rightarrow>
           seq (continuation_credit cx e)
          (seq (install cx nonce e (map_option fst prior) (as_polling job c op)) (ret (True, ())))))))))))"

definition save_provider_result :: "ledger_codec \<Rightarrow> bytes \<Rightarrow> provider_execution \<Rightarrow> utext json \<Rightarrow> (ledger_db, unit) dbm" where
  "save_provider_result cx nonce ex v =
     (let e = pe_env ex in
      seq (ensure (validate_result e v) InvalidRequest)
     (bind (asset_digest cx v) (\<lambda>d.
      bind (scoped
        (seq (assert_owner ex)
        (bind (read_unit cx e) (\<lambda>row0.
         seq (ensure (still_polling row0) Conflict)
        (bind (load_operation cx e) (\<lambda>found.
         case found of
           None \<Rightarrow> fail NoRows
         | Some (raw, op) \<Rightarrow>
             bind (read_unit cx e) (\<lambda>row.
             seq (assert_projection op row)
             (if op_state op = ''result_ready''
              then seq (ensure (op_result op = Some v \<and> op_asset_sha256 op = d) Conflict) (ret (False, False))
              else
                seq (ensure (op_state op \<in> {''submit_unknown'', ''polling''}) Conflict)
               (seq outside_step
               (seq (install cx nonce e (Some raw) (op\<lparr>op_state := ''result_ready'', op_result := Some v, op_asset_sha256 := d\<rparr>))
                    (ret (True, True)))))))))))) (\<lambda>installed.
      if installed then outside_step else ret ()))))"

definition reserved_context :: "ctx \<Rightarrow> bool" where
  "reserved_context c \<longleftrightarrow> (\<exists>k \<in> fset (fmdom c). prefix (cps ''operation.'') k)"

definition intent_operation ::
  "ledger_codec \<Rightarrow> async_env \<Rightarrow> utext \<Rightarrow> string \<Rightarrow> provider_template \<Rightarrow> ctx \<Rightarrow> utext option \<Rightarrow> utext json \<Rightarrow> ctx
    \<Rightarrow> utext \<Rightarrow> utext \<Rightarrow> operation" where
  "intent_operation cx e b attempt tp language_map proxy input c source target =
     (new_operation cx e b attempt (tp_id tp) source target
        (fmupd (cps ''operation.binding'') b (fmupd (cps ''operation.attempt_id'') (cps attempt) c)))
       \<lparr>op_recovery := Some \<lparr>rs_domain = ae_domain e, rs_template = tp, rs_language_map = language_map, rs_input = input,
          rs_submit_context_ready = False, rs_proxy_profile_id = proxy, rs_evidence = None\<rparr>\<rparr>"

definition begin_provider_runtime_intent ::
  "ledger_codec \<Rightarrow> bytes \<Rightarrow> string \<Rightarrow> provider_execution \<Rightarrow> provider_template \<Rightarrow> ctx \<Rightarrow> utext option \<Rightarrow> utext json \<Rightarrow> ctx
    \<Rightarrow> utext \<Rightarrow> utext \<Rightarrow> (ledger_db, ctx) dbm" where
  "begin_provider_runtime_intent cx nonce attempt ex tp language_map proxy input c source target =
     (let e = pe_env ex in
      seq (ensure (validate_contract (lx_print cx) tp) InvalidRequest)
     (seq (ensure (\<not> reserved_context c) InvalidRequest)
     (savepoint
      (seq (assert_owner ex)
      (bind (load_operation cx e) (\<lambda>found.
       seq (ensure (found = None) Conflict)
      (bind (read_unit cx e) (\<lambda>row.
       seq (ensure (row = None) Conflict)
       (case ae_resume_binding e of
          None \<Rightarrow> fail InvalidRequest
        | Some b \<Rightarrow>
            let op = intent_operation cx e b attempt tp language_map proxy input c source target in
            seq (ensure (snapshot_ok cx op) ScopeChanged)
           (seq (install cx nonce e None op) (ret (op_ctx op)))))))))))) "

definition commit_provider_submit_context :: "ledger_codec \<Rightarrow> bytes \<Rightarrow> provider_execution \<Rightarrow> ctx \<Rightarrow> (ledger_db, unit) dbm" where
  "commit_provider_submit_context cx nonce ex c =
     savepoint
      (seq (assert_owner ex)
      (bind (load_operation cx (pe_env ex)) (\<lambda>found.
       case found of
         None \<Rightarrow> fail NoRows
       | Some (raw, op) \<Rightarrow>
           seq (ensure (op_state op = ''submit_unknown'') Conflict)
           (case op_recovery op of
              None \<Rightarrow> fail NoRows
            | Some r \<Rightarrow>
                seq (ensure (\<not> rs_submit_context_ready r) Conflict)
                (let op' = op\<lparr>op_ctx := c, op_recovery := Some (r\<lparr>rs_submit_context_ready := True\<rparr>)\<rparr> in
                 seq (ensure (snapshot_ok cx op') ScopeChanged)
                (seq (continuation_credit cx (pe_env ex))
                     (install cx nonce (pe_env ex) (Some raw) op')))))))"

section \<open>Review of an unknown submission\<close>

text \<open>Every stored operation must decode, under its own key, with an attempt of its own.\<close>

primrec check_records :: "ledger_codec \<Rightarrow> string set \<Rightarrow> (string \<times> bytes) list \<Rightarrow> db_error + (bytes \<times> operation) list" where
  "check_records cx ids [] = Inr []"
| "check_records cx ids (x # xs) =
     (case decode_operation cx (snd x) of
        Inl err \<Rightarrow> Inl err
      | Inr op \<Rightarrow>
          if fst x = operation_key cx (op_unit op) \<and> op_attempt_id op \<notin> ids
          then (case check_records cx (insert (op_attempt_id op) ids) xs of
              Inl err \<Rightarrow> Inl err
            | Inr rest \<Rightarrow> Inr ((snd x, op) # rest))
          else Inl AmbiguousRow)"

definition operation_records :: "ledger_codec \<Rightarrow> (ledger_db, (bytes \<times> operation) list) dbm" where
  "operation_records cx =
     bind (query (\<lambda>s. map (\<lambda>k. (k, the (fmlookup (lg_config s) k))) (keys_like OPERATION_PREFIX s))) (\<lambda>rows.
     lift_sum (check_records cx {} rows))"

record operation_summary =
  os_operation_id :: string
  os_site :: "utext option"
  os_component_id :: utext
  os_unit :: async_unit
  os_source_lang :: utext
  os_target_lang :: utext
  os_state :: string
  os_can_reconcile :: bool

definition can_reconcile :: "operation \<Rightarrow> bool" where
  "can_reconcile op \<longleftrightarrow> op_state op = ''submit_unknown''
     \<and> (case op_recovery op of
          None \<Rightarrow> False
        | Some r \<Rightarrow> rs_submit_context_ready r \<and> rs_proxy_profile_id r = None \<and> reconcile_of (rs_template r) \<noteq> None)"

definition summary_of :: "ledger_codec \<Rightarrow> operation \<Rightarrow> operation_summary" where
  "summary_of cx op = \<lparr>os_operation_id = op_attempt_id op,
     os_site = Option.bind (op_recovery op) (\<lambda>r. url_origin cx (rs_domain r)), os_component_id = op_component_id op,
     os_unit = op_unit op, os_source_lang = op_source_lang op, os_target_lang = op_target_lang op, os_state = op_state op,
     os_can_reconcile = can_reconcile op\<rparr>"

definition list_provider_operations :: "ledger_codec \<Rightarrow> (ledger_db, operation_summary list) dbm" where
  "list_provider_operations cx = bind (operation_records cx) (\<lambda>ops. ret (map (\<lambda>x. summary_of cx (snd x)) ops))"

record provider_review =
  pr_env :: async_env
  pr_raw :: bytes
  pr_op :: operation

definition env_of_operation :: "operation \<Rightarrow> recovery_snapshot \<Rightarrow> async_env" where
  "env_of_operation op r = \<lparr>ae_domain = rs_domain r, ae_relation_id = au_relation_id (op_unit op),
     ae_object_type = au_object_type (op_unit op), ae_object_id = au_object_id (op_unit op),
     ae_field_name = au_field_name (op_unit op), ae_chunk_index = au_chunk_index (op_unit op), ae_lane = au_lane (op_unit op),
     ae_source_snapshot = au_source_snapshot (op_unit op), ae_resume_binding = Some (op_binding op)\<rparr>"

definition review_provider_operation :: "ledger_codec \<Rightarrow> string \<Rightarrow> (ledger_db, provider_review) dbm" where
  "review_provider_operation cx operation_id =
     seq (ensure (canonical_uuid operation_id) InvalidRequest)
    (bind (operation_records cx) (\<lambda>ops.
     case find (\<lambda>x. op_attempt_id (snd x) = operation_id) ops of
       None \<Rightarrow> fail NoRows
     | Some (raw, op) \<Rightarrow>
         seq (ensure (op_state op = ''submit_unknown'') Conflict)
         (case op_recovery op of
            None \<Rightarrow> fail NoRows
          | Some r \<Rightarrow>
              seq (ensure (rs_submit_context_ready r) Conflict)
             (seq (ensure (rs_proxy_profile_id r = None) Conflict)
             (seq (ensure (reconcile_of (rs_template r) \<noteq> None) Conflict)
             (seq (ensure (au_lane (op_unit op) \<in> {cps ''text'', cps ''non_text''}) InvalidRequest)
             (bind (read_unit cx (env_of_operation op r)) (\<lambda>row.
              seq (ensure (row = None) Conflict)
                  (ret \<lparr>pr_env = env_of_operation op r, pr_raw = raw, pr_op = op\<rparr>)))))))))"

definition plain_job :: "(nat \<Rightarrow> bool) \<Rightarrow> utext \<Rightarrow> bool" where
  "plain_job is_control job \<longleftrightarrow> trim_cp job \<noteq> [] \<and> trim_cp job = job \<and> blen job \<le> 512 \<and> \<not> list_ex is_control job"

text \<open>\<open>char::is_control\<close>.\<close>

definition is_control :: "nat \<Rightarrow> bool" where
  "is_control c \<longleftrightarrow> c < 32 \<or> (127 \<le> c \<and> c < 160)"

definition adopted :: "ledger_codec \<Rightarrow> recovery_snapshot \<Rightarrow> utext \<Rightarrow> ctx \<Rightarrow> utext json \<Rightarrow> int \<Rightarrow> operation \<Rightarrow> operation" where
  "adopted cx r job c rec now op = (as_polling job c op)\<lparr>op_recovery := Some (r\<lparr>rs_evidence :=
     Some \<lparr>ev_record = rec, ev_sha256 = json_digest cx rec, ev_verified_at = unix_ts now\<rparr>\<rparr>)\<rparr>"

definition commit_provider_reconciliation ::
  "ledger_codec \<Rightarrow> bytes \<Rightarrow> bytes \<Rightarrow> string \<Rightarrow> provider_review \<Rightarrow> utext \<Rightarrow> ctx \<Rightarrow> utext json \<Rightarrow> (ledger_db, unit) dbm" where
  "commit_provider_reconciliation cx nonce1 nonce2 owner review job c rec =
     seq (ensure (plain_job is_control job) InvalidRequest)
    (bind (acquire cx nonce1 owner (pr_env review)) (\<lambda>ex.
     savepoint
      (seq (assert_owner ex)
      (bind (load_operation cx (pr_env review)) (\<lambda>found.
       case found of
         None \<Rightarrow> fail NoRows
       | Some (raw, op) \<Rightarrow>
           seq (ensure (raw = pr_raw review \<and> op_state op = ''submit_unknown''
                  \<and> op_attempt_id op = op_attempt_id (pr_op review)) ScopeChanged)
          (bind (read_unit cx (pr_env review)) (\<lambda>row.
           seq (ensure (row = None) Conflict)
          (seq (ensure (names_job job c) Conflict)
          (case (op_recovery (pr_op review), op_recovery op) of
             (Some reviewed, Some r) \<Rightarrow>
               seq (ensure (validate_record (lx_print cx) (rs_template reviewed) (cps (op_attempt_id (pr_op review)))
                      (op_binding (pr_op review)) rec job) ScopeChanged)
              (bind now_ts (\<lambda>now.
               let op' = adopted cx r job c rec now op in
               seq (ensure (snapshot_ok cx op') ScopeChanged)
              (seq (continuation_credit cx (pr_env review))
                   (install cx nonce2 (pr_env review) (Some raw) op'))))
           | _ \<Rightarrow> fail NoRows))))))))) "

section \<open>All operations\<close>

datatype ledger_op =
    Acquire bytes string async_env
  | Begin bytes string provider_execution provider_template ctx "utext option" "utext json" ctx utext utext
  | Boundary bytes provider_execution ctx
  | SaveJob bytes string provider_execution utext utext ctx utext utext
  | SaveResult bytes provider_execution "utext json"
  | Upsert bytes provider_execution utext utext ctx utext utext
  | Touch provider_execution int
  | MarkFailed provider_execution utext
  | CloseJob provider_execution
  | Reconcile bytes bytes string provider_review utext ctx "utext json"
  | Recover async_env
  | FindPolling async_env
  | Inventory
  | ListOperations
  | Review string

fun ledger_step :: "ledger_codec \<Rightarrow> ledger_op \<Rightarrow> (ledger_db, unit) dbm" where
  "ledger_step cx (Acquire nonce owner e) = discard (acquire cx nonce owner e)"
| "ledger_step cx (Begin nonce attempt ex tp lm proxy input c source target) =
     discard (begin_provider_runtime_intent cx nonce attempt ex tp lm proxy input c source target)"
| "ledger_step cx (Boundary nonce ex c) = commit_provider_submit_context cx nonce ex c"
| "ledger_step cx (SaveJob nonce attempt ex component job c source target) =
     save_provider_job cx nonce attempt ex component job c source target"
| "ledger_step cx (SaveResult nonce ex v) = save_provider_result cx nonce ex v"
| "ledger_step cx (Upsert nonce ex component job c source target) = upsert_polling_job cx nonce ex component job c source target"
| "ledger_step cx (Touch ex attempts) = touch_polling_job cx ex attempts"
| "ledger_step cx (MarkFailed ex snippet) = mark_job_failed cx ex snippet"
| "ledger_step cx (CloseJob ex) = close_job cx ex"
| "ledger_step cx (Reconcile nonce1 nonce2 owner review job c rec) =
     commit_provider_reconciliation cx nonce1 nonce2 owner review job c rec"
| "ledger_step cx (Recover e) = discard (recover_provider_operation cx e)"
| "ledger_step cx (FindPolling e) = discard (find_polling_job cx e)"
| "ledger_step cx Inventory = discard async_jobs_inventory"
| "ledger_step cx ListOperations = discard (list_provider_operations cx)"
| "ledger_step cx (Review k) = discard (review_provider_operation cx k)"

section \<open>Runs\<close>

lemma put_config_Inr [run_simps]:
  "put_config k prior v env n s = (Inr m, n', s') \<longleftrightarrow> \<not> fault env n \<and> n' = Suc n
     \<and> (m = 1 \<and> fmlookup (lg_config s) k = prior \<and> s' = s\<lparr>lg_config := fmupd k v (lg_config s)\<rparr>
        \<or> m = 0 \<and> prior \<noteq> None \<and> fmlookup (lg_config s) k \<noteq> prior \<and> s' = s)"
  by (auto simp: put_config_def execute_Inr split: option.splits if_splits)

lemma scoped_Inr [run_simps]:
  "scoped m env n s = (Inr a, n', s') \<longleftrightarrow> \<not> fault env n
     \<and> (\<exists>n1 s1. m env (Suc n) s = (Inr (True, a), n1, s1) \<and> s' = s1 \<and> \<not> fault env n1 \<and> n' = Suc n1
        \<or> m env (Suc n) s = (Inr (False, a), n1, s1) \<and> s' = s \<and> n' = n1)"
  by (auto simp: scoped_def split: prod.splits sum.splits if_splits)

lemma case_run [run_simps]:
  "(case x of None \<Rightarrow> m | Some a \<Rightarrow> f a) env n s = (Inr b, n', s') \<longleftrightarrow>
     x = None \<and> m env n s = (Inr b, n', s') \<or> (\<exists>a. x = Some a \<and> f a env n s = (Inr b, n', s'))"
  by (auto split: option.split)

lemma if_run:
  "(if c then m else k) env n s = (Inr b, n', s') \<longleftrightarrow> c \<and> m env n s = (Inr b, n', s') \<or> \<not> c \<and> k env n s = (Inr b, n', s')"
  by simp

lemma scoped_Inl: "scoped m env n s = (Inl err, n', s') \<Longrightarrow> s' = s"
  by (auto simp: scoped_def split: prod.splits sum.splits if_splits)

lemma savepoint_Inl: "savepoint m env n s = (Inl err, n', s') \<Longrightarrow> s' = s"
  using atomic_savepoint [of m] by (auto simp: atomic_def)

lemma asset_text: "asset_digest cx (JString t) = ret None"
  by (simp add: asset_digest_def jget_def)

end
