(* ===== verification/LedgerSample.thy ===== *)
theory LedgerSample
  imports ProviderLedger JsonText
begin

text \<open>A concrete codec of the ledger and a unit whose operation has begun, for the examples.\<close>

section \<open>Values as bytes\<close>

definition utext_bytes :: "utext \<Rightarrow> bytes" where
  "utext_bytes xs = concat (map (\<lambda>n. replicate n 1 @ [0]) xs)"

primrec bytes_utext :: "nat \<Rightarrow> bytes \<Rightarrow> utext" where
  "bytes_utext k [] = []"
| "bytes_utext k (b # bs) = (if b = 0 then k # bytes_utext 0 bs else bytes_utext (Suc k) bs)"

lemma bytes_utext_ones: "bytes_utext k (replicate n 1 @ 0 # r) = (k + n) # bytes_utext 0 r"
  by (induction n arbitrary: k) simp_all

lemma bytes_utext_of: "bytes_utext 0 (utext_bytes xs) = xs"
  by (induction xs) (simp_all add: utext_bytes_def bytes_utext_ones)

definition value_bytes :: "utext json \<Rightarrow> bytes" where
  "value_bytes v = put_json (map_json utext_bytes v)"

definition bytes_value :: "bytes \<Rightarrow> utext json option" where
  "bytes_value bs = map_option (map_json (bytes_utext 0)) (read_json bs)"

lemma value_bytes_read: "bytes_value (value_bytes v) = Some v" "valid_utf8 (value_bytes v)"
  by (simp_all add: bytes_value_def value_bytes_def json_text_laws json.map_comp comp_def bytes_utext_of json.map_ident)

section \<open>Records as values\<close>

fun arr :: "utext json \<Rightarrow> utext json list" where
  "arr (JArray vs) = vs"
| "arr _ = []"

fun raw_text :: "utext json \<Rightarrow> utext" where
  "raw_text (JString t) = t"
| "raw_text _ = []"

fun raw_int :: "utext json \<Rightarrow> int" where
  "raw_int (JInt i) = i"
| "raw_int _ = 0"

fun raw_bool :: "utext json \<Rightarrow> bool" where
  "raw_bool (JBool b) = b"
| "raw_bool _ = False"

definition js :: "string \<Rightarrow> utext json" where "js s = JString (cps s)"
definition sj :: "utext json \<Rightarrow> string" where "sj v = map char_of (raw_text v)"

definition jl :: "('a \<Rightarrow> utext json) \<Rightarrow> 'a list \<Rightarrow> utext json" where "jl f xs = JArray (map f xs)"
definition lj :: "(utext json \<Rightarrow> 'a) \<Rightarrow> utext json \<Rightarrow> 'a list" where "lj g v = map g (arr v)"

fun jo :: "('a \<Rightarrow> utext json) \<Rightarrow> 'a option \<Rightarrow> utext json" where
  "jo f None = JArray []"
| "jo f (Some x) = JArray [f x]"

definition oj :: "(utext json \<Rightarrow> 'a) \<Rightarrow> utext json \<Rightarrow> 'a option" where
  "oj g v = (case arr v of [] \<Rightarrow> None | x # _ \<Rightarrow> Some (g x))"

definition jp :: "utext \<times> utext \<Rightarrow> utext json" where "jp e = JArray [JString (fst e), JString (snd e)]"
definition pj :: "utext json \<Rightarrow> utext \<times> utext" where "pj v = (raw_text (arr v ! 0), raw_text (arr v ! 1))"

definition jm :: "ctx \<Rightarrow> utext json" where "jm m = jl jp (sorted_list_of_fmap m)"
definition mj :: "utext json \<Rightarrow> ctx" where "mj v = fmap_of_list (lj pj v)"

lemma read_js [simp]: "sj (js s) = s"
  by (simp add: sj_def js_def cps_def comp_def)

lemma read_jl: "(\<And>x. g (f x) = x) \<Longrightarrow> lj g (jl f xs) = xs"
  by (simp add: lj_def jl_def comp_def)

lemma read_jo: "(\<And>x. g (f x) = x) \<Longrightarrow> oj g (jo f xo) = xo"
  by (cases xo) (simp_all add: oj_def)

lemma read_jp [simp]: "pj (jp e) = e"
  by (simp add: pj_def jp_def)

lemma read_jm [simp]: "mj (jm m) = m"
  by (simp add: mj_def jm_def read_jl) (rule fmap_ext, simp add: fmlookup_of_list)

definition j_request :: "request_spec \<Rightarrow> utext json" where
  "j_request r = JArray [JString (rq_method r), JString (rq_url r), jo (jl jp) (rq_headers r), jo (\<lambda>v. v) (rq_body r),
     jo JString (rq_body_type r), jo JString (rq_response_type r)]"

definition request_j :: "utext json \<Rightarrow> request_spec" where
  "request_j v = (let a = arr v in \<lparr>rq_method = raw_text (a ! 0), rq_url = raw_text (a ! 1), rq_headers = oj (lj pj) (a ! 2),
     rq_body = oj (\<lambda>v. v) (a ! 3), rq_body_type = oj raw_text (a ! 4), rq_response_type = oj raw_text (a ! 5)\<rparr>)"

lemma read_request [simp]: "request_j (j_request r) = r"
  by (simp add: request_j_def j_request_def read_jo read_jl)

definition j_reconcile :: "reconcile_spec \<Rightarrow> utext json" where
  "j_reconcile r = JArray [j_request (rc_request r), JString (rc_matches_path r), JString (rc_attempt_id_path r),
     JString (rc_binding_path r), JString (rc_job_id_path r), JString (rc_status_path r), jl JString (rc_resumable_values r)]"

definition reconcile_j :: "utext json \<Rightarrow> reconcile_spec" where
  "reconcile_j v = (let a = arr v in \<lparr>rc_request = request_j (a ! 0), rc_matches_path = raw_text (a ! 1),
     rc_attempt_id_path = raw_text (a ! 2), rc_binding_path = raw_text (a ! 3), rc_job_id_path = raw_text (a ! 4),
     rc_status_path = raw_text (a ! 5), rc_resumable_values = lj raw_text (a ! 6)\<rparr>)"

lemma read_reconcile [simp]: "reconcile_j (j_reconcile r) = r"
  by (simp add: reconcile_j_def j_reconcile_def read_jl)

definition j_poll :: "poll_spec \<Rightarrow> utext json" where
  "j_poll p = JArray [JString (ap_job_id_path p), jo j_reconcile (ap_reconcile p), jl jp (ap_submit_extract p),
     j_request (ap_request p), jo JString (ap_status_path p), jl JString (ap_done_values p), jl JString (ap_failed_values p),
     jo (\<lambda>n. JInt (int n)) (ap_timeout_seconds p), jo JString (ap_result_text_path p)]"

definition poll_j :: "utext json \<Rightarrow> poll_spec" where
  "poll_j v = (let a = arr v in \<lparr>ap_job_id_path = raw_text (a ! 0), ap_reconcile = oj reconcile_j (a ! 1),
     ap_submit_extract = lj pj (a ! 2), ap_request = request_j (a ! 3), ap_status_path = oj raw_text (a ! 4),
     ap_done_values = lj raw_text (a ! 5), ap_failed_values = lj raw_text (a ! 6),
     ap_timeout_seconds = oj (\<lambda>x. nat (raw_int x)) (a ! 7), ap_result_text_path = oj raw_text (a ! 8)\<rparr>)"

lemma read_poll [simp]: "poll_j (j_poll p) = p"
  by (simp add: poll_j_def j_poll_def read_jo read_jl)

definition j_template :: "provider_template \<Rightarrow> utext json" where
  "j_template t = JArray [JString (tp_id t), jo (\<lambda>v. v) (tp_default_values t), j_request (tp_request t),
     jo JString (tp_translated_text_path t), jo j_poll (tp_async_poll t)]"

definition template_j :: "utext json \<Rightarrow> provider_template" where
  "template_j v = (let a = arr v in \<lparr>tp_id = raw_text (a ! 0), tp_default_values = oj (\<lambda>v. v) (a ! 1),
     tp_request = request_j (a ! 2), tp_translated_text_path = oj raw_text (a ! 3), tp_async_poll = oj poll_j (a ! 4)\<rparr>)"

lemma read_template [simp]: "template_j (j_template t) = t"
  by (simp add: template_j_def j_template_def read_jo)

definition j_unit :: "async_unit \<Rightarrow> utext json" where
  "j_unit u = JArray [js (au_site_key u), JInt (au_relation_id u), JString (au_object_type u), JInt (au_object_id u),
     JString (au_field_name u), JInt (au_chunk_index u), JString (au_lane u), jo (\<lambda>v. v) (au_source_snapshot u)]"

definition unit_j :: "utext json \<Rightarrow> async_unit" where
  "unit_j v = (let a = arr v in \<lparr>au_site_key = sj (a ! 0), au_relation_id = raw_int (a ! 1), au_object_type = raw_text (a ! 2),
     au_object_id = raw_int (a ! 3), au_field_name = raw_text (a ! 4), au_chunk_index = raw_int (a ! 5),
     au_lane = raw_text (a ! 6), au_source_snapshot = oj (\<lambda>v. v) (a ! 7)\<rparr>)"

lemma read_unit_value [simp]: "unit_j (j_unit u) = u"
  by (simp add: unit_j_def j_unit_def read_jo)

definition j_evidence :: "evidence \<Rightarrow> utext json" where
  "j_evidence e = JArray [ev_record e, js (ev_sha256 e), JInt (ev_verified_at e)]"

definition evidence_j :: "utext json \<Rightarrow> evidence" where
  "evidence_j v = (let a = arr v in \<lparr>ev_record = a ! 0, ev_sha256 = sj (a ! 1), ev_verified_at = raw_int (a ! 2)\<rparr>)"

lemma read_evidence [simp]: "evidence_j (j_evidence e) = e"
  by (simp add: evidence_j_def j_evidence_def)

definition j_recovery :: "recovery_snapshot \<Rightarrow> utext json" where
  "j_recovery r = JArray [js (rs_domain r), j_template (rs_template r), jm (rs_language_map r), rs_input r,
     JBool (rs_submit_context_ready r), jo JString (rs_proxy_profile_id r), jo j_evidence (rs_evidence r)]"

definition recovery_j :: "utext json \<Rightarrow> recovery_snapshot" where
  "recovery_j v = (let a = arr v in \<lparr>rs_domain = sj (a ! 0), rs_template = template_j (a ! 1), rs_language_map = mj (a ! 2),
     rs_input = a ! 3, rs_submit_context_ready = raw_bool (a ! 4), rs_proxy_profile_id = oj raw_text (a ! 5),
     rs_evidence = oj evidence_j (a ! 6)\<rparr>)"

lemma read_recovery [simp]: "recovery_j (j_recovery r) = r"
  by (simp add: recovery_j_def j_recovery_def read_jo)

definition j_operation :: "operation \<Rightarrow> utext json" where
  "j_operation p = JArray [js (op_format p), j_unit (op_unit p), JString (op_binding p), js (op_attempt_id p),
     JString (op_component_id p), JString (op_source_lang p), JString (op_target_lang p), js (op_state p),
     jo JString (op_job_id p), jm (op_ctx p), jo (\<lambda>v. v) (op_result p), jo js (op_asset_sha256 p), jo j_recovery (op_recovery p)]"

definition operation_j :: "utext json \<Rightarrow> operation" where
  "operation_j v = (let a = arr v in \<lparr>op_format = sj (a ! 0), op_unit = unit_j (a ! 1), op_binding = raw_text (a ! 2),
     op_attempt_id = sj (a ! 3), op_component_id = raw_text (a ! 4), op_source_lang = raw_text (a ! 5),
     op_target_lang = raw_text (a ! 6), op_state = sj (a ! 7), op_job_id = oj raw_text (a ! 8), op_ctx = mj (a ! 9),
     op_result = oj (\<lambda>v. v) (a ! 10), op_asset_sha256 = oj sj (a ! 11), op_recovery = oj recovery_j (a ! 12)\<rparr>)"

lemma read_operation [simp]: "operation_j (j_operation p) = p"
  by (simp add: operation_j_def j_operation_def read_jo)

definition j_claim :: "saved_claim \<Rightarrow> utext json" where
  "j_claim c = JArray [js (cl_format c), j_unit (cl_unit c), jo JString (cl_binding c), js (cl_owner c)]"

definition claim_j :: "utext json \<Rightarrow> saved_claim" where
  "claim_j v = (let a = arr v in \<lparr>cl_format = sj (a ! 0), cl_unit = unit_j (a ! 1), cl_binding = oj raw_text (a ! 2),
     cl_owner = sj (a ! 3)\<rparr>)"

lemma read_claim [simp]: "claim_j (j_claim c) = c"
  by (simp add: claim_j_def j_claim_def read_jo)

definition j_context :: "saved_context \<Rightarrow> utext json" where
  "j_context c = JArray [js (sc_format c), j_unit (sc_unit c), JString (sc_component_id c), JString (sc_source_lang c),
     JString (sc_target_lang c), jo JString (sc_resume_binding c), JString (sc_job_id c), jm (sc_ctx c)]"

definition context_j :: "utext json \<Rightarrow> saved_context" where
  "context_j v = (let a = arr v in \<lparr>sc_format = sj (a ! 0), sc_unit = unit_j (a ! 1), sc_component_id = raw_text (a ! 2),
     sc_source_lang = raw_text (a ! 3), sc_target_lang = raw_text (a ! 4), sc_resume_binding = oj raw_text (a ! 5),
     sc_job_id = raw_text (a ! 6), sc_ctx = mj (a ! 7)\<rparr>)"

lemma read_context [simp]: "context_j (j_context c) = c"
  by (simp add: context_j_def j_context_def read_jo)

section \<open>The codec\<close>

definition sample_ledger :: ledger_codec where
  "sample_ledger = \<lparr>lx_crates = cc_crates sample_codec, lx_sources = cc_sources sample_codec, lx_print = (\<lambda>v. []),
     lx_encode = value_bytes, lx_read = bytes_value, operation_value = j_operation, value_operation = (\<lambda>v. Some (operation_j v)),
     claim_value = j_claim, value_claim = (\<lambda>v. Some (claim_j v)), context_value = j_context,
     value_context = (\<lambda>v. Some (context_j v)), template_value = j_template, asset_sha256 = (\<lambda>n path. None),
     url_origin = (\<lambda>d. None), redact_text = (\<lambda>t. t)\<rparr>"

lemma sample_ledger_laws: "ledger_laws sample_ledger"
  by (simp add: ledger_laws_def sample_ledger_def value_bytes_read)
    (simp add: crate_laws_def sealed_def sample_codec_def ascii_def)

definition ledger_seal :: "utext json \<Rightarrow> bytes" where
  "ledger_seal v = ascii ''V1BUQw'' @ WPTC_MAGIC @ [WPTC_VERSION] @ replicate 12 7 @ replicate 16 0 @ value_bytes v"

lemma ledger_encrypts:
  "encrypt_config_value (lx_crates sample_ledger) (lx_sources sample_ledger) (replicate 12 7) (lx_encode sample_ledger v)
    = Inr (ledger_seal v)"
  by (simp add: sample_ledger_def encrypt_config_value_def encrypt_for_save_def sample_secret sample_key)
    (simp add: sample_codec_def ledger_seal_def)

lemma ledger_seals [simp]: "seal_value sample_ledger (replicate 12 7) v env n s = (Inr (ledger_seal v), n, s)"
  by (simp add: seal_value_def ledger_encrypts ret_def)

lemma ledger_unseals [simp]: "unseal_value sample_ledger (ledger_seal v) = Inr v" "sealed (ledger_seal v)"
proof -
  have "decrypt_config_value (lx_crates sample_ledger) (lx_sources sample_ledger) (ledger_seal v) = Inr (lx_encode sample_ledger v)"
    using sample_ledger_laws by (intro decrypt_own_value [OF ledger_encrypts]) (simp_all add: ledger_laws_def)
  then show "unseal_value sample_ledger (ledger_seal v) = Inr v"
    using sample_ledger_laws by (simp add: unseal_value_def ledger_laws_def)
  show "sealed (ledger_seal v)" by (simp add: ledger_seal_def sealed_def ascii_def)
qed

lemma ledger_digest [simp]: "json_digest sample_ledger v = []" "site_key sample_ledger d = ''wptsall-site-v1:''"
  "operation_key sample_ledger u = OPERATION_PREFIX" "unit_key sample_ledger u = CLAIM_PREFIX"
  "runtime_binding sample_ledger tp m sn i a b = []"
  by (simp_all add: json_digest_def site_key_def operation_key_def unit_key_def runtime_binding_def sha256_hex_def sample_ledger_def
    sample_codec_def cps_def)

lemma sample_values [simp]: "value_operation sample_ledger (j_operation p) = Some p" "operation_value sample_ledger = j_operation"
  "value_claim sample_ledger (j_claim c) = Some c" "claim_value sample_ledger = j_claim"
  by (simp_all add: sample_ledger_def)

lemma sample_decodes [simp]:
  "operation_ok p \<Longrightarrow> state_ok p \<Longrightarrow> snapshot_ok sample_ledger p \<Longrightarrow> decode_operation sample_ledger (ledger_seal (j_operation p)) = Inr p"
  by (simp add: decode_operation_def)

section \<open>An operation that has begun\<close>

definition sample_env :: async_env where
  "sample_env = \<lparr>ae_domain = ''d'', ae_relation_id = 1, ae_object_type = cps ''post_type'', ae_object_id = 5,
     ae_field_name = cps ''title'', ae_chunk_index = 0, ae_lane = cps ''text'', ae_source_snapshot = None, ae_resume_binding = Some []\<rparr>"

definition sample_tp :: provider_template where
  "sample_tp = \<lparr>tp_id = cps ''c'', tp_default_values = None,
     tp_request = \<lparr>rq_method = cps ''POST'', rq_url = [], rq_headers = None, rq_body = None, rq_body_type = None, rq_response_type = None\<rparr>,
     tp_translated_text_path = None, tp_async_poll = None\<rparr>"

definition first_owner :: string where "first_owner = ''11111111-1111-1111-1111-111111111111''"
definition second_owner :: string where "second_owner = ''22222222-2222-2222-2222-222222222222''"

definition owner_claim :: "string \<Rightarrow> bytes" where
  "owner_claim w = ledger_seal (j_claim \<lparr>cl_format = ''provider-execution-claim-v1'', cl_unit = unit_of sample_ledger sample_env,
     cl_binding = Some [], cl_owner = w\<rparr>)"

definition owned :: "string \<Rightarrow> provider_execution" where
  "owned w = \<lparr>pe_env = sample_env, pe_key = CLAIM_PREFIX, pe_raw = owner_claim w\<rparr>"

definition sample_op :: operation where
  "sample_op = intent_operation sample_ledger sample_env [] first_owner sample_tp fmempty None JNull fmempty (cps ''en'') (cps ''de'')"

definition vacant_db :: ledger_db where
  "vacant_db = \<lparr>lg_config = fmempty, lg_jobs = [], lg_capacity = fmempty\<rparr>"

definition claimed_db :: "string \<Rightarrow> ledger_db" where
  "claimed_db w = vacant_db\<lparr>lg_config := fmupd CLAIM_PREFIX (owner_claim w) fmempty\<rparr>"

lemma sample_prefixes [simp]: "OPERATION_PREFIX \<noteq> CLAIM_PREFIX" "CLAIM_PREFIX \<noteq> OPERATION_PREFIX"
  by (simp_all add: OPERATION_PREFIX_def CLAIM_PREFIX_def)

lemma sample_uuids: "canonical_uuid first_owner" "canonical_uuid second_owner"
  by (simp_all add: canonical_uuid_def first_owner_def second_owner_def upt_rec)

lemma sample_acquire:
  "\<exists>n. acquire sample_ledger (replicate 12 7) w sample_env (calm 7) 0 vacant_db = (Inr (owned w), n, claimed_db w)"
  by (simp add: acquire_def Let_def dbm_simps outside_step_def get_config_def check_claim_def continuation_credit_def load_operation_def
    read_unit_def put_config_def vacant_db_def claimed_db_def owned_def owner_claim_def sample_env_def)

lemma sample_acquire_again:
  "\<exists>n. acquire sample_ledger (replicate 12 7) w sample_env (calm 7) 0 (claimed_db first_owner) = (Inr (owned w), n, claimed_db w)"
  by (simp add: acquire_def Let_def dbm_simps outside_step_def get_config_def check_claim_def continuation_credit_def load_operation_def
    read_unit_def put_config_def vacant_db_def claimed_db_def owned_def owner_claim_def sample_env_def lift_sum_def claim_ok_def sample_uuids)

definition ledger_with :: "operation \<Rightarrow> ledger_db" where
  "ledger_with p = vacant_db\<lparr>lg_config := fmupd OPERATION_PREFIX (ledger_seal (j_operation p))
     (fmupd CLAIM_PREFIX (owner_claim first_owner) fmempty)\<rparr>"

definition crossed_op :: operation where
  "crossed_op = sample_op\<lparr>op_recovery := map_option (\<lambda>r. r\<lparr>rs_submit_context_ready := True\<rparr>) (op_recovery sample_op)\<rparr>"

definition paid_op :: operation where
  "paid_op = crossed_op\<lparr>op_state := ''result_ready'', op_result := Some (JString (cps ''x'')), op_asset_sha256 := None\<rparr>"

lemma sample_op_ok:
  "operation_ok sample_op" "state_ok sample_op" "snapshot_ok sample_ledger sample_op"
  "operation_ok crossed_op" "state_ok crossed_op" "snapshot_ok sample_ledger crossed_op"
  "operation_ok paid_op" "state_ok paid_op" "snapshot_ok sample_ledger paid_op"
  by (simp_all add: paid_op_def crossed_op_def sample_op_def intent_operation_def new_operation_def operation_ok_def state_ok_def
    snapshot_ok_def validate_snapshot_def sample_uuids unit_of_def sample_tp_def)

lemma sample_op_unit [simp]:
  "op_unit sample_op = unit_of sample_ledger sample_env" "op_binding sample_op = []"
  "op_unit crossed_op = unit_of sample_ledger sample_env" "op_binding crossed_op = []"
  "op_unit paid_op = unit_of sample_ledger sample_env" "op_binding paid_op = []" "pe_env (owned w) = sample_env"
  by (simp_all add: paid_op_def crossed_op_def sample_op_def intent_operation_def new_operation_def owned_def)

lemma loads_sample:
  assumes "operation_ok p" "state_ok p" "snapshot_ok sample_ledger p" "op_unit p = unit_of sample_ledger sample_env" "op_binding p = []"
  shows "load_operation sample_ledger sample_env (calm 7) n (ledger_with p) = (Inr (Some (ledger_seal (j_operation p), p)), n + 1, ledger_with p)"
    and "read_unit sample_ledger sample_env (calm 7) n (ledger_with p) = (Inr None, n + 1, ledger_with p)"
    and "assert_owner (owned first_owner) (calm 7) n (ledger_with p) = (Inr (), n + 1, ledger_with p)"
    and "continuation_credit sample_ledger sample_env (calm 7) n (ledger_with p) = (Inr (), n + 3, ledger_with p)"
proof -
  show l: "load_operation sample_ledger sample_env (calm 7) n (ledger_with p) = (Inr (Some (ledger_seal (j_operation p), p)), n + 1, ledger_with p)" for n
    using assms by (simp add: load_operation_def get_config_def lift_sum_def dbm_simps ledger_with_def sample_env_def)
  show r: "read_unit sample_ledger sample_env (calm 7) n (ledger_with p) = (Inr None, n + 1, ledger_with p)" for n
    by (simp add: read_unit_def dbm_simps ledger_with_def vacant_db_def)
  show "assert_owner (owned first_owner) (calm 7) n (ledger_with p) = (Inr (), n + 1, ledger_with p)"
    by (simp add: assert_owner_def get_config_def dbm_simps ledger_with_def owned_def)
  show "continuation_credit sample_ledger sample_env (calm 7) n (ledger_with p) = (Inr (), n + 3, ledger_with p)"
    by (simp add: continuation_credit_def l r bind_def seq_def assert_projection_def ret_def outside_step_def query_def execute_def)
      (simp add: sample_env_def)
qed

lemma installs_sample:
  "install sample_ledger (replicate 12 7) sample_env (Some (ledger_seal (j_operation p))) q (calm 7) n (ledger_with p)
    = (Inr (), n + 2, ledger_with q)"
  by (simp add: install_def put_config_def get_config_def dbm_simps ledger_with_def)

lemma sample_boundary:
  "commit_provider_submit_context sample_ledger (replicate 12 7) (owned first_owner) (op_ctx sample_op) (calm 7) 0 (ledger_with sample_op)
    = (Inr (), 9, ledger_with crossed_op)"
proof -
  have "op_state sample_op = ''submit_unknown''" "\<exists>r. op_recovery sample_op = Some r \<and> \<not> rs_submit_context_ready r"
    by (simp_all add: sample_op_def intent_operation_def new_operation_def)
  then obtain r where r: "op_state sample_op = ''submit_unknown''" "op_recovery sample_op = Some r" "\<not> rs_submit_context_ready r" by blast
  then have c: "sample_op\<lparr>op_recovery := Some (r\<lparr>rs_submit_context_ready := True\<rparr>)\<rparr> = crossed_op"
    by (simp add: crossed_op_def)
  show ?thesis
    unfolding commit_provider_submit_context_def Let_def
    by (simp add: run_simps loads_sample sample_op_ok r c installs_sample case_run)
qed

lemma sample_result:
  "save_provider_result sample_ledger (replicate 12 7) (owned first_owner) (JString (cps ''x'')) (calm 7) 0 (ledger_with crossed_op)
    = (Inr (), 10, ledger_with paid_op)"
proof -
  have st: "op_state crossed_op = ''submit_unknown''"
    by (simp add: crossed_op_def sample_op_def intent_operation_def new_operation_def)
  have v: "validate_result sample_env (JString (cps ''x''))" by (simp add: validate_result_def sample_env_def cps_def trim_by_def is_ws_cp_def)
  show ?thesis
    unfolding save_provider_result_def Let_def
    by (auto simp: run_simps loads_sample sample_op_ok installs_sample st v asset_text case_run still_polling_def assert_projection_def
       outside_step_def simp flip: paid_op_def)
qed

end
