(* ===== verification/ProviderSafety.thy ===== *)
theory ProviderSafety
  imports LedgerSample
begin

text \<open>
  What the ledger of provider calls guarantees, over any sequence of its operations and with a failure at any statement:
  it refines a machine of one operation, whose states only go forward. So a request that may cost money crosses the
  submit boundary once, a paid result is kept and replayed, and a superseded execution writes nothing.
\<close>

section \<open>Computations that only read\<close>

definition reads :: "('s, 'a) dbm \<Rightarrow> bool" where
  "reads m \<longleftrightarrow> (\<forall>env n s r n' s'. m env n s = (r, n', s') \<longrightarrow> s' = s)"

lemma readsD: "reads m \<Longrightarrow> m env n s = (r, n', s') \<Longrightarrow> s' = s"
  by (auto simp: reads_def)

lemma reads_basic: "reads (ret a)" "reads (fail e)" "reads (query f)" "reads (ensure b e)" "reads outside_step" "reads (outside g)"
  "reads (lift_sum x)" "reads now_ts"
  by (auto simp: reads_def ret_def fail_def query_def execute_def ensure_def outside_step_def outside_def lift_sum_def now_ts_def
    split: if_splits sum.splits option.splits)

lemma reads_bind: "reads m \<Longrightarrow> (\<And>a. reads (f a)) \<Longrightarrow> reads (bind m f)"
  unfolding reads_def bind_def by (fastforce split: prod.splits sum.splits)

lemma reads_seq: "reads m \<Longrightarrow> reads k \<Longrightarrow> reads (seq m k)"
  unfolding seq_def by (rule reads_bind)

lemma reads_cases:
  "(b \<Longrightarrow> reads m) \<Longrightarrow> (\<not> b \<Longrightarrow> reads k) \<Longrightarrow> reads (if b then m else k)"
  "(x = None \<Longrightarrow> reads m) \<Longrightarrow> (\<And>a. x = Some a \<Longrightarrow> reads (f a)) \<Longrightarrow> reads (case x of None \<Rightarrow> m | Some a \<Rightarrow> f a)"
  by (simp_all split: option.split)

lemma reads_get: "reads (get_config k)"
  by (simp add: get_config_def reads_basic)

lemma reads_seal: "reads (seal_value cx nonce v)"
  by (simp add: seal_value_def reads_basic split: sum.split)

lemmas reads_intros = reads_basic reads_get reads_seal reads_bind reads_seq reads_cases

lemma reads_read_unit: "reads (read_unit cx e)"
  unfolding read_unit_def by (intro reads_intros) (auto intro!: reads_intros split: list.split)

lemma reads_load: "reads (load_operation cx e)"
  unfolding load_operation_def by (auto intro!: reads_intros split: option.split)

lemma reads_assert: "reads (assert_projection op row)"
  unfolding assert_projection_def by (auto intro!: reads_intros)

lemma reads_credit: "reads (continuation_credit cx e)"
  unfolding continuation_credit_def
  by (rule reads_bind) (auto intro!: reads_intros reads_load reads_read_unit reads_assert split: option.split)

lemma reads_claim: "reads (check_claim cx k prior)"
  unfolding check_claim_def by (auto intro!: reads_intros split: option.split)

lemma reads_owner: "reads (assert_owner ex)"
  unfolding assert_owner_def by (intro reads_intros)

lemma reads_polling: "reads (assert_polling_operation cx e)"
  unfolding assert_polling_operation_def by (auto intro!: reads_intros reads_load reads_read_unit reads_assert split: option.split)

lemma reads_ready: "reads (assert_ready_operation cx e)"
  unfolding assert_ready_operation_def by (auto intro!: reads_intros reads_load reads_read_unit split: option.split)

lemma reads_projection: "reads (assert_job_projection cx e c)"
  unfolding assert_job_projection_def
  by (auto intro!: reads_intros reads_load reads_read_unit reads_polling split: option.split)

lemma reads_asset: "reads (asset_digest cx v)"
  unfolding asset_digest_def by (auto intro!: reads_intros split: option.split)

lemmas reads_ops = reads_read_unit reads_load reads_assert reads_credit reads_claim reads_owner reads_polling reads_ready
  reads_projection reads_asset

section \<open>What a stored text holds\<close>

definition content :: "ledger_codec \<Rightarrow> bytes \<Rightarrow> operation option" where
  "content cx raw = (case unseal_value cx raw of Inl _ \<Rightarrow> None | Inr v \<Rightarrow> value_operation cx v)"

definition held :: "ledger_codec \<Rightarrow> ledger_db \<Rightarrow> string \<Rightarrow> operation option" where
  "held cx s k = Option.bind (fmlookup (lg_config s) k) (content cx)"

lemma decode_content: "decode_operation cx raw = Inr op \<Longrightarrow> content cx raw = Some op"
  by (auto simp: decode_operation_def content_def split: if_splits sum.splits option.splits)

lemma seal_content:
  assumes "ledger_laws cx" "length nonce = 12" "seal_value cx nonce (operation_value cx op) env n s = (Inr raw, n', s')"
  shows "content cx raw = Some op"
proof -
  from assms(3) have "encrypt_config_value (lx_crates cx) (lx_sources cx) nonce (lx_encode cx (operation_value cx op)) = Inr raw"
    by (auto simp: seal_value_def ret_def fail_def split: sum.splits)
  from decrypt_own_value [OF this assms(2)] assms(1)
  show ?thesis by (simp add: content_def unseal_value_def ledger_laws_def)
qed

section \<open>The machine of an operation\<close>

text \<open>
  What a committed write can do to one operation: the submit boundary is recorded, a job is known (from the answer of the
  provider or from evidence), or the result is saved.
\<close>

inductive op_step :: "operation \<Rightarrow> operation \<Rightarrow> bool" where
  boundary: "op_state op = ''submit_unknown'' \<Longrightarrow> op_recovery op = Some r \<Longrightarrow> \<not> rs_submit_context_ready r
    \<Longrightarrow> op_step op (op\<lparr>op_ctx := c, op_recovery := Some (r\<lparr>rs_submit_context_ready := True\<rparr>)\<rparr>)"
| job: "op_state op = ''submit_unknown'' \<Longrightarrow> job \<noteq> [] \<Longrightarrow> op_step op (as_polling job c op)"
| evidence: "op_state op = ''submit_unknown'' \<Longrightarrow> op_recovery op = Some r \<Longrightarrow> op_step op (adopted cx r job c rec now op)"
| result: "op_state op \<in> {''submit_unknown'', ''polling''}
    \<Longrightarrow> op_step op (op\<lparr>op_state := ''result_ready'', op_result := Some v, op_asset_sha256 := d\<rparr>)"

inductive_cases op_stepE: "op_step op op'"

definition born :: "operation \<Rightarrow> bool" where
  "born op \<longleftrightarrow> op_result op = None
     \<and> (op_state op = ''submit_unknown'' \<and> op_job_id op = None
          \<and> (\<exists>r. op_recovery op = Some r \<and> \<not> rs_submit_context_ready r \<and> rs_evidence r = None)
        \<or> op_state op = ''polling'' \<and> op_job_id op \<noteq> None \<and> op_recovery op = None)"

text \<open>One row of the configuration: unchanged, a new operation, or one step of the operation in it.\<close>

definition row_step :: "ledger_codec \<Rightarrow> bytes option \<Rightarrow> bytes option \<Rightarrow> bool" where
  "row_step cx old new \<longleftrightarrow> new = old
     \<or> (\<exists>raw op. new = Some raw \<and> content cx raw = Some op
          \<and> (old = None \<and> born op \<or> (\<exists>raw0 op0. old = Some raw0 \<and> content cx raw0 = Some op0 \<and> op_step op0 op)))"

definition advance :: "ledger_codec \<Rightarrow> ledger_db \<Rightarrow> ledger_db \<Rightarrow> bool" where
  "advance cx s s' \<longleftrightarrow> (\<forall>k. prefix OPERATION_PREFIX k \<longrightarrow> row_step cx (fmlookup (lg_config s) k) (fmlookup (lg_config s') k))"

text \<open>The claims: unchanged, or written by an owner of the given set.\<close>

definition claim_owner :: "ledger_codec \<Rightarrow> bytes \<Rightarrow> string option" where
  "claim_owner cx raw = (case unseal_value cx raw of Inl _ \<Rightarrow> None | Inr v \<Rightarrow> map_option cl_owner (value_claim cx v))"

definition claims_by :: "ledger_codec \<Rightarrow> string set \<Rightarrow> ledger_db \<Rightarrow> ledger_db \<Rightarrow> bool" where
  "claims_by cx W s s' \<longleftrightarrow> (\<forall>k. prefix CLAIM_PREFIX k \<longrightarrow> fmlookup (lg_config s') k = fmlookup (lg_config s) k
     \<or> (\<exists>raw w. fmlookup (lg_config s') k = Some raw \<and> claim_owner cx raw = Some w \<and> w \<in> W))"

definition steps_to :: "ledger_codec \<Rightarrow> string set \<Rightarrow> ledger_db \<Rightarrow> ledger_db \<Rightarrow> bool" where
  "steps_to cx W s s' \<longleftrightarrow> advance cx s s' \<and> claims_by cx W s s'"

definition quiet :: "ledger_db \<Rightarrow> ledger_db \<Rightarrow> bool" where
  "quiet s s' \<longleftrightarrow> (\<forall>k. prefix OPERATION_PREFIX k \<longrightarrow> fmlookup (lg_config s') k = fmlookup (lg_config s) k)"

lemma quiet_advance: "quiet s s' \<Longrightarrow> advance cx s s'"
  by (simp add: quiet_def advance_def row_step_def)

lemma quiet_then: "quiet s s1 \<Longrightarrow> advance cx s1 s2 \<Longrightarrow> advance cx s s2"
  by (simp add: quiet_def advance_def)

lemma claims_then: "claims_by cx W s s1 \<Longrightarrow> claims_by cx W s1 s2 \<Longrightarrow> claims_by cx W s s2"
  unfolding claims_by_def by metis

lemma steps_config: "lg_config s' = lg_config s \<Longrightarrow> steps_to cx W s s'"
  by (simp add: steps_to_def claims_by_def advance_def row_step_def)

lemma steps_refl [simp]: "steps_to cx W s s"
  by (rule steps_config) simp

lemma prefixes_apart: "\<not> prefix OPERATION_PREFIX (CLAIM_PREFIX @ x)" "\<not> prefix CLAIM_PREFIX (OPERATION_PREFIX @ x)"
  by (simp_all add: OPERATION_PREFIX_def CLAIM_PREFIX_def)

section \<open>What the statements did\<close>

lemma lift_sum_Inr: "lift_sum x env n s = (Inr a, n', s') \<longleftrightarrow> x = Inr a \<and> n' = n \<and> s' = s"
  by (auto simp: lift_sum_def ret_def fail_def split: sum.split)

lemma load_Inr:
  "load_operation cx e env n s = (Inr found, n', s') \<Longrightarrow> s' = s \<and> ae_resume_binding e \<noteq> None
    \<and> (case found of
         None \<Rightarrow> fmlookup (lg_config s) (operation_key cx (unit_of cx e)) = None
       | Some (raw, op) \<Rightarrow> fmlookup (lg_config s) (operation_key cx (unit_of cx e)) = Some raw \<and> decode_operation cx raw = Inr op
           \<and> op_unit op = unit_of cx e \<and> Some (op_binding op) = ae_resume_binding e)"
  unfolding load_operation_def get_config_def
  by (auto simp: run_simps lift_sum_Inr)

text \<open>Reserving capacity changes neither the configuration nor the jobs.\<close>

definition books :: "(ledger_db, 'a) dbm \<Rightarrow> bool" where
  "books m \<longleftrightarrow> (\<forall>env n s r n' s'. m env n s = (r, n', s') \<longrightarrow> lg_config s' = lg_config s \<and> lg_jobs s' = lg_jobs s)"

lemma books_reads: "reads m \<Longrightarrow> books m"
  by (auto simp: books_def dest: readsD)

lemma books_bind: "books m \<Longrightarrow> (\<And>a. books (f a)) \<Longrightarrow> books (bind m f)"
  unfolding books_def bind_def by (fastforce split: prod.splits sum.splits)

lemma books_seq: "books m \<Longrightarrow> books k \<Longrightarrow> books (seq m k)"
  unfolding seq_def by (rule books_bind)

lemma books_savepoint: "books m \<Longrightarrow> books (savepoint m)"
  unfolding books_def savepoint_def by (fastforce split: prod.splits sum.splits if_splits)

lemma books_record: "books (record_capacity k bytes)"
  unfolding record_capacity_def
  by (intro books_seq books_bind books_reads [OF reads_basic(3)] books_reads [OF reads_basic(4)])
    (auto simp: books_def execute_def split: if_splits)

lemma reads_inventory: "reads capacity_inventory"
proof -
  have "reads (capacity_limit k d)" for k d
    unfolding capacity_limit_def by (auto intro!: reads_intros split: option.split)
  moreover have "reads (execute (\<lambda>now s. case capacity_sums s of (u, b) \<Rightarrow> if i64_max < b then Inl CounterOverflow else Inr ((u, b), s)))"
    by (auto simp: reads_def execute_def split: if_splits prod.splits)
  ultimately show ?thesis
    unfolding capacity_inventory_def by (intro reads_intros)
qed

lemma books_admit: "books (admit_operation cx e op encoded)"
proof -
  have "books (reserve_new k b)" for k b
    unfolding reserve_new_def
    by (intro books_seq books_bind books_savepoint books_record books_reads reads_basic reads_inventory)
  moreover have "books (record_existing k b)" for k b
    unfolding record_existing_def by (intro books_seq books_record books_reads reads_basic)
  ultimately show ?thesis
    unfolding admit_operation_def Let_def
    by (auto intro!: books_seq books_bind books_reads [OF reads_basic(2)] books_reads [OF reads_basic(4)]
        books_reads [OF reads_read_unit] split: option.split)
qed

lemma install_Inr:
  assumes "install cx nonce e prior op env n s = (Inr u, n', s')" "ledger_laws cx" "length nonce = 12"
  shows "\<exists>raw. content cx raw = Some op \<and> fmlookup (lg_config s) (operation_key cx (unit_of cx e)) = prior
    \<and> lg_config s' = fmupd (operation_key cx (unit_of cx e)) raw (lg_config s) \<and> lg_jobs s' = lg_jobs s"
proof -
  from assms(1) obtain raw n1 s1 n2 s2 n3 s3 m where
    sealed: "seal_value cx nonce (operation_value cx op) env n s = (Inr raw, n1, s1)" and
    admit: "(if prior = None then admit_operation cx e op raw else ret ()) env n1 s1 = (Inr (), n2, s2)" and
    put: "put_config (operation_key cx (unit_of cx e)) prior raw env n2 s2 = (Inr m, n3, s3)" and m: "m = 1" "s' = s3"
    unfolding install_def get_config_def by (auto simp: bind_Inr seq_Inr ensure_Inr query_Inr)
  have "s1 = s" using readsD [OF reads_seal sealed] .
  with admit have "lg_config s2 = lg_config s" "lg_jobs s2 = lg_jobs s"
    using books_admit [unfolded books_def] by (auto simp: ret_def split: if_splits)
  with put m seal_content [OF assms(2,3) sealed] show ?thesis by (auto simp: put_config_Inr)
qed

lemma steps_install:
  assumes "install cx nonce e prior op env n s = (Inr u, n', s')" "ledger_laws cx" "length nonce = 12"
    and "case prior of None \<Rightarrow> born op | Some raw0 \<Rightarrow> \<exists>op0. content cx raw0 = Some op0 \<and> op_step op0 op"
  shows "steps_to cx W s s'"
proof -
  from install_Inr [OF assms(1-3)] obtain raw where
    raw: "content cx raw = Some op" and old: "fmlookup (lg_config s) (operation_key cx (unit_of cx e)) = prior"
    and new: "lg_config s' = fmupd (operation_key cx (unit_of cx e)) raw (lg_config s)" by blast
  from raw assms(4) have "row_step cx prior (Some raw)"
    by (auto simp: row_step_def split: option.splits)
  then have "advance cx s s'" by (simp add: advance_def new old row_step_def)
  moreover have "\<not> prefix CLAIM_PREFIX (operation_key cx (unit_of cx e))" by (simp add: operation_key_def prefixes_apart)
  ultimately show ?thesis by (auto simp: steps_to_def claims_by_def new)
qed

lemma quiet_credit: "continuation_credit cx e env n s = (r, n', s') \<Longrightarrow> s' = s"
  by (rule readsD [OF reads_credit])

definition moves :: "ledger_codec \<Rightarrow> string set \<Rightarrow> (ledger_db, 'a) dbm \<Rightarrow> bool" where
  "moves cx W m \<longleftrightarrow> (\<forall>env n s r n' s'. m env n s = (r, n', s') \<longrightarrow> steps_to cx W s s')"

lemma moves_reads: "reads m \<Longrightarrow> moves cx W m"
  by (auto simp: moves_def intro!: steps_refl dest: readsD)

lemma moves_savepoint:
  "(\<And>env n s a n' s'. m env n s = (Inr a, n', s') \<Longrightarrow> steps_to cx W s s') \<Longrightarrow> moves cx W (savepoint m)"
  by (auto simp: moves_def savepoint_def steps_refl split: if_splits prod.splits sum.splits)

lemma moves_scoped:
  "(\<And>env n s a n' s'. m env n s = (Inr (True, a), n', s') \<Longrightarrow> steps_to cx W s s') \<Longrightarrow> moves cx W (scoped m)"
  by (auto simp: moves_def scoped_def steps_refl split: if_splits prod.splits sum.splits)

lemma moves_after: "reads m \<Longrightarrow> (\<And>a. moves cx W (f a)) \<Longrightarrow> moves cx W (bind m f)"
  unfolding moves_def bind_def by (fastforce simp: steps_refl split: prod.splits sum.splits dest: readsD)

lemma moves_after_seq: "reads m \<Longrightarrow> moves cx W k \<Longrightarrow> moves cx W (seq m k)"
  unfolding seq_def by (rule moves_after)

lemma moves_before: "moves cx W m \<Longrightarrow> (\<And>a. reads (f a)) \<Longrightarrow> moves cx W (bind m f)"
  unfolding moves_def bind_def by (fastforce simp: steps_refl split: prod.splits sum.splits dest: readsD)

lemmas read_runs = readsD [OF reads_owner] readsD [OF reads_read_unit] readsD [OF reads_assert] readsD [OF reads_asset]
  readsD [OF reads_credit] readsD [OF reads_basic(5)] readsD [OF reads_get] readsD [OF reads_claim] readsD [OF reads_seal]
  readsD [OF reads_polling] readsD [OF reads_ready] readsD [OF reads_projection]

lemma begin_moves:
  assumes laws: "ledger_laws cx" "length nonce = 12"
  shows "moves cx W (begin_provider_runtime_intent cx nonce attempt ex tp lm proxy input c source target)"
  unfolding begin_provider_runtime_intent_def Let_def
  apply (intro moves_after_seq moves_savepoint reads_basic)
  apply (clarsimp simp: run_simps dest!: read_runs load_Inr)
  apply (rule steps_install [OF _ laws], assumption)
  apply (simp add: born_def intent_operation_def new_operation_def)
  done

lemma boundary_moves:
  assumes laws: "ledger_laws cx" "length nonce = 12"
  shows "moves cx W (commit_provider_submit_context cx nonce ex c)"
  unfolding commit_provider_submit_context_def Let_def
  apply (rule moves_savepoint)
  apply (clarsimp simp: run_simps dest!: read_runs load_Inr)
  apply (rule steps_install [OF _ laws], assumption)
  apply (auto intro: decode_content op_step.boundary)
  done

lemma save_result_moves:
  assumes laws: "ledger_laws cx" "length nonce = 12"
  shows "moves cx W (save_provider_result cx nonce ex v)"
proof -
  have "moves cx W (if b then outside_step else ret ())" for b by (simp add: moves_reads reads_basic)
  show ?thesis
    unfolding save_provider_result_def Let_def
    apply (rule moves_after_seq [OF reads_basic(4)])
    apply (rule moves_after [OF reads_asset])
    apply (rule moves_before [OF moves_scoped])
     apply (clarsimp simp: run_simps if_run dest!: read_runs load_Inr)
     apply (rule steps_install [OF _ laws], assumption)
     apply (auto intro: decode_content op_step.result reads_basic)
    done
qed

lemma moves_ensure: "(b \<Longrightarrow> moves cx W k) \<Longrightarrow> moves cx W (seq (ensure b err) k)"
  by (auto simp: moves_def seq_def bind_def ensure_def ret_def fail_def steps_refl)

lemma save_job_moves:
  assumes laws: "ledger_laws cx" "length nonce = 12"
  shows "moves cx W (save_provider_job cx nonce attempt ex component job c source target)"
  unfolding save_provider_job_def Let_def
  apply (rule moves_ensure)
  apply (rule moves_scoped)
  apply (clarsimp simp: run_simps if_run dest!: read_runs load_Inr)
  apply (elim disjE conjE exE)
   apply (clarsimp dest!: read_runs)
   apply (rule steps_install [OF _ laws], assumption)
   apply (simp add: born_def new_operation_def as_polling_def)
  apply (clarsimp dest!: read_runs)
  apply (rule steps_install [OF _ laws], assumption)
  apply (auto intro: decode_content op_step.job)
  done

lemma seal_claim:
  assumes "ledger_laws cx" "length nonce = 12" "seal_value cx nonce (claim_value cx c) env n s = (Inr raw, n', s')"
  shows "claim_owner cx raw = Some (cl_owner c)"
proof -
  from assms(3) have "encrypt_config_value (lx_crates cx) (lx_sources cx) nonce (lx_encode cx (claim_value cx c)) = Inr raw"
    by (auto simp: seal_value_def ret_def fail_def split: sum.splits)
  from decrypt_own_value [OF this assms(2)] assms(1)
  show ?thesis by (simp add: claim_owner_def unseal_value_def ledger_laws_def)
qed

lemma acquire_Inr:
  assumes "acquire cx nonce owner e env n s = (Inr ex, n', s')" "ledger_laws cx" "length nonce = 12"
  shows "\<exists>raw. claim_owner cx raw = Some owner \<and> ex = \<lparr>pe_env = e, pe_key = unit_key cx (unit_of cx e), pe_raw = raw\<rparr>
    \<and> s' = s\<lparr>lg_config := fmupd (unit_key cx (unit_of cx e)) raw (lg_config s)\<rparr>"
  using assms(1)
  apply (clarsimp simp: acquire_def Let_def run_simps dest!: readsD [OF reads_basic(5)] readsD [OF reads_get] readsD [OF reads_claim]
      readsD [OF reads_credit])
  apply (frule readsD [OF reads_seal])
  apply (drule seal_claim [OF assms(2,3)])
  apply auto
  done

lemma acquire_quiet:
  assumes "acquire cx nonce owner e env n s = (r, n', s')" "ledger_laws cx" "length nonce = 12"
  shows "quiet s s' \<and> claims_by cx {owner} s s'"
proof (cases r)
  case (Inl err)
  with assms have "s' = s"
    by (auto simp: acquire_def Let_def seq_def bind_def split: prod.splits sum.splits
        dest!: savepoint_Inl readsD [OF reads_basic(5)])
  then show ?thesis by (simp add: quiet_def claims_by_def)
next
  case (Inr ex)
  with acquire_Inr [OF assms(1) [unfolded Inr] assms(2,3)] show ?thesis
    by (auto simp: quiet_def claims_by_def unit_key_def prefixes_apart)
qed

lemma acquire_steps: "quiet s s1 \<and> claims_by cx W s s1 \<Longrightarrow> steps_to cx W s1 s2 \<Longrightarrow> steps_to cx W s s2"
  by (auto simp: steps_to_def intro: quiet_then claims_then)

lemma reconciliation_moves:
  assumes laws: "ledger_laws cx" and nonces: "length nonce1 = 12" "length nonce2 = 12"
  shows "moves cx {owner} (commit_provider_reconciliation cx nonce1 nonce2 owner review job c rec)"
proof -
  have after: "moves cx {owner} (bind (acquire cx nonce1 owner e) f)" if "\<And>a. moves cx {owner} (f a)" for e f
    using that unfolding moves_def bind_def
    by (auto intro: acquire_steps [OF acquire_quiet [OF _ laws nonces(1)]] acquire_steps [OF _ steps_refl]
        acquire_quiet [OF _ laws nonces(1)] split: prod.splits sum.splits)
  show ?thesis
    unfolding commit_provider_reconciliation_def Let_def
    apply (intro moves_ensure after moves_savepoint)
    apply (clarsimp simp: run_simps prod.case_distrib dest!: read_runs load_Inr split: option.splits)
    apply (rule steps_install [OF _ laws nonces(2)], assumption)
    apply (auto intro: decode_content op_step.evidence)
    done
qed

definition jobs_only :: "(ledger_db, 'a) dbm \<Rightarrow> bool" where
  "jobs_only m \<longleftrightarrow> (\<forall>env n s r n' s'. m env n s = (r, n', s') \<longrightarrow> lg_config s' = lg_config s)"

lemma jobs_only_moves: "jobs_only m \<Longrightarrow> moves cx W m"
  by (auto simp: jobs_only_def moves_def intro!: steps_config)

lemma jobs_only_reads: "reads m \<Longrightarrow> jobs_only m"
  by (auto simp: jobs_only_def dest: readsD)

lemma jobs_only_writes: "jobs_only (delete_jobs p)" "jobs_only (update_jobs p f)" "jobs_only (replace_job e mk)"
  by (auto simp: jobs_only_def delete_jobs_def update_jobs_def replace_job_def execute_def Let_def split: if_splits prod.splits)

lemma jobs_only_bind: "jobs_only m \<Longrightarrow> (\<And>a. jobs_only (f a)) \<Longrightarrow> jobs_only (bind m f)"
  unfolding jobs_only_def bind_def by (fastforce split: prod.splits sum.splits)

lemma jobs_only_seq: "jobs_only m \<Longrightarrow> jobs_only k \<Longrightarrow> jobs_only (seq m k)"
  unfolding seq_def by (rule jobs_only_bind)

lemma jobs_only_savepoint: "jobs_only m \<Longrightarrow> jobs_only (savepoint m)"
  unfolding jobs_only_def savepoint_def by (fastforce split: prod.splits sum.splits if_splits)

lemma jobs_only_cases:
  "jobs_only m \<Longrightarrow> jobs_only k \<Longrightarrow> jobs_only (if b then m else k)"
  "jobs_only m \<Longrightarrow> (\<And>a. jobs_only (f a)) \<Longrightarrow> jobs_only (case x of None \<Rightarrow> m | Some a \<Rightarrow> f a)"
  by (simp_all split: option.split)

lemmas jobs_only_intros = jobs_only_writes jobs_only_bind jobs_only_seq jobs_only_savepoint jobs_only_cases
  reads_ops [THEN jobs_only_reads] reads_basic [THEN jobs_only_reads] reads_seal [THEN jobs_only_reads]

lemma jobs_only_ops:
  "jobs_only (upsert_polling_job cx nonce ex component job c source target)"
  "jobs_only (touch_polling_job cx ex attempts)" "jobs_only (mark_job_failed cx ex snippet)" "jobs_only (close_job cx ex)"
  unfolding upsert_polling_job_def touch_polling_job_def mark_job_failed_def close_job_def Let_def
  by (intro jobs_only_intros)+

lemma reads_records: "reads (operation_records cx)"
  unfolding operation_records_def by (intro reads_intros)

lemma reads_recover: "reads (recover_provider_operation cx e)"
  unfolding recover_provider_operation_def
  by (auto intro!: reads_intros reads_ops split: option.split)

lemma reads_review: "reads (review_provider_operation cx i)"
  unfolding review_provider_operation_def
  by (auto intro!: reads_intros reads_records reads_ops split: option.split)

lemma reads_lists: "reads (find_polling_job cx e)" "reads async_jobs_inventory" "reads (list_provider_operations cx)"
  unfolding find_polling_job_def async_jobs_inventory_def list_provider_operations_def
  by (intro reads_intros reads_ops reads_records)+

lemma reads_discard: "reads m \<Longrightarrow> reads (discard m)"
  unfolding discard_def by (intro reads_intros)

lemma moves_discard: "moves cx W m \<Longrightarrow> moves cx W (discard m)"
  unfolding discard_def by (rule moves_before [OF _ reads_basic(1)])

fun nonces :: "ledger_op \<Rightarrow> bytes list" where
  "nonces (Acquire nonce owner e) = [nonce]"
| "nonces (Begin nonce attempt ex tp lm proxy input c source target) = [nonce]"
| "nonces (Boundary nonce ex c) = [nonce]"
| "nonces (SaveJob nonce attempt ex component job c source target) = [nonce]"
| "nonces (SaveResult nonce ex v) = [nonce]"
| "nonces (Upsert nonce ex component job c source target) = [nonce]"
| "nonces (Reconcile nonce1 nonce2 owner review job c rec) = [nonce1, nonce2]"
| "nonces _ = []"

definition sealed_op :: "ledger_op \<Rightarrow> bool" where
  "sealed_op x \<longleftrightarrow> list_all (\<lambda>nonce. length nonce = 12) (nonces x)"

lemma acquire_moves: "ledger_laws cx \<Longrightarrow> length nonce = 12 \<Longrightarrow> moves cx {owner} (acquire cx nonce owner e)"
  by (auto simp: moves_def intro: acquire_steps [OF _ steps_refl] dest: acquire_quiet)

fun owners :: "ledger_op \<Rightarrow> string set" where
  "owners (Acquire nonce owner e) = {owner}"
| "owners (Reconcile nonce1 nonce2 owner review job c rec) = {owner}"
| "owners _ = {}"

lemma step_moves: "ledger_laws cx \<Longrightarrow> sealed_op x \<Longrightarrow> moves cx (owners x) (ledger_step cx x)"
  by (cases x) (auto simp: sealed_op_def intro!: moves_discard acquire_moves begin_moves boundary_moves save_job_moves save_result_moves
    reconciliation_moves jobs_only_ops [THEN jobs_only_moves] reads_recover [THEN moves_reads] reads_review [THEN moves_reads]
    reads_lists [THEN moves_reads])

lemma step_steps:
  "ledger_laws cx \<Longrightarrow> sealed_op x \<Longrightarrow> ledger_step cx x env n s = (r, n', s') \<Longrightarrow> steps_to cx (owners x) s s'"
  using step_moves [of cx x] by (auto simp: moves_def)

lemma step_advances:
  "ledger_laws cx \<Longrightarrow> sealed_op x \<Longrightarrow> ledger_step cx x env n s = (r, n', s') \<Longrightarrow> advance cx s s'"
  using step_steps by (auto simp: steps_to_def)

text \<open>
  C6: The encrypted operations of the ledger refine the machine of an operation: whatever an operation of the ledger
  does, whether it succeeds or fails, at whichever statement, every row under the operation prefix is unchanged, or new
  with an operation that has not been submitted (or a job that was already polled), or holds one step of the machine: the
  submit boundary, a job the provider named, a job proven by evidence, or a result. No state is skipped back and no
  operation is forgotten.
\<close>

theorem ledger_refines_operation_machine:
  assumes "ledger_laws cx" "sealed_op x" "ledger_step cx x env n s = (r, n', s')"
  shows "advance cx s s'"
  using assms by (rule step_advances)

theorem ledger_refines_operation_machine_witness:
  "advance sample_ledger (ledger_with sample_op) (ledger_with crossed_op)"
  using ledger_refines_operation_machine [OF sample_ledger_laws, of "Boundary (replicate 12 7) (owned first_owner) (op_ctx sample_op)",
      OF _ trans [OF _ sample_boundary]]
  by (simp add: sealed_op_def)

definition rank :: "operation \<Rightarrow> nat" where
  "rank op = (if op_state op = ''submit_unknown''
     then (case op_recovery op of None \<Rightarrow> 0 | Some r \<Rightarrow> if rs_submit_context_ready r then 1 else 0)
     else if op_state op = ''polling'' then 2 else 3)"

lemma rank_grows: "op_step op op' \<Longrightarrow> rank op < rank op'"
  by (auto elim!: op_stepE simp: rank_def as_polling_def adopted_def split: option.splits)

lemma held_kept:
  assumes "advance cx s s'" "prefix OPERATION_PREFIX k" "held cx s k = Some op"
  shows "\<exists>op'. held cx s' k = Some op' \<and> op_step\<^sup>*\<^sup>* op op'"
  using assms unfolding advance_def row_step_def held_def
  by (auto simp: bind_eq_Some_conv)

lemma rank_steps: "op_step\<^sup>*\<^sup>* op op' \<Longrightarrow> rank op \<le> rank op'"
  by (induction rule: rtranclp_induct) (auto dest: rank_grows)

lemma held_runs:
  "ledger_laws cx \<Longrightarrow> list_all sealed_op ops \<Longrightarrow> prefix OPERATION_PREFIX k \<Longrightarrow> held cx s k = Some op
    \<Longrightarrow> \<exists>op'. held cx (run_ops (ledger_step cx) env ops n s) k = Some op' \<and> op_step\<^sup>*\<^sup>* op op'"
proof (induction ops arbitrary: n s op)
  case (Cons x ops)
  obtain r n' s' where run: "ledger_step cx x env n s = (r, n', s')" by (cases "ledger_step cx x env n s") auto
  with Cons.prems have "advance cx s s'" by (auto intro: step_advances)
  with Cons.prems obtain op1 where "held cx s' k = Some op1" "op_step\<^sup>*\<^sup>* op op1" by (blast dest: held_kept)
  with Cons.IH [of s' op1 n'] Cons.prems run show ?case by (auto intro: rtranclp_trans)
qed auto

lemma operation_key_prefix [simp]: "prefix OPERATION_PREFIX (operation_key cx u)"
  by (simp add: operation_key_def)

lemma boundary_committed:
  assumes "ledger_laws cx" "length nonce = 12" "commit_provider_submit_context cx nonce ex c env n s = (Inr u, n', s')"
  shows "(\<exists>op. held cx s (operation_key cx (unit_of cx (pe_env ex))) = Some op \<and> rank op = 0)
    \<and> (\<exists>op. held cx s' (operation_key cx (unit_of cx (pe_env ex))) = Some op \<and> rank op = 1)"
  using assms(3)
  apply (clarsimp simp: commit_provider_submit_context_def Let_def run_simps dest!: read_runs load_Inr)
  apply (frule install_Inr [OF _ assms(1,2)])
  apply (drule decode_content)
  apply (clarsimp simp: held_def)
  apply (simp add: rank_def)
  done

text \<open>
  C4: A paid request crosses the submit boundary at most once: after one commit of the submit context for a
  unit, no later commit for the same unit succeeds, whatever operations run in between and wherever they fail, and it
  changes nothing; nor can a new intent be recorded for the unit.
\<close>

theorem submit_boundary_crossed_once:
  assumes "ledger_laws cx" "length nonce = 12" "length nonce' = 12" "list_all sealed_op ops"
    and first: "commit_provider_submit_context cx nonce ex c env n s = (Inr (), n1, s1)"
    and later: "s2 = run_ops (ledger_step cx) env1 ops n1 s1"
    and same: "unit_of cx (pe_env ex') = unit_of cx (pe_env ex)"
  shows "(\<exists>err n'. commit_provider_submit_context cx nonce' ex' c' env2 n2 s2 = (Inl err, n', s2))
    \<and> (\<exists>err. fst (begin_provider_runtime_intent cx nonce' attempt ex' tp lm proxy input c' source target env2 n2 s2) = Inl err)"
proof -
  let ?k = "operation_key cx (unit_of cx (pe_env ex))"
  from boundary_committed [OF assms(1,2) first] obtain op where "held cx s1 ?k = Some op" "rank op = 1" by blast
  with held_runs [OF assms(1,4), of ?k s1 op env1 n1] obtain op' where later: "held cx s2 ?k = Some op'" "rank op' \<noteq> 0"
    by (fastforce simp: later dest: rank_steps)
  obtain r n' s' where run: "commit_provider_submit_context cx nonce' ex' c' env2 n2 s2 = (r, n', s')"
    by (cases "commit_provider_submit_context cx nonce' ex' c' env2 n2 s2") auto
  with boundary_committed [OF assms(1,3)] later same obtain err where "r = Inl err" by (cases r) fastforce+
  with run have boundary: "\<exists>err n'. commit_provider_submit_context cx nonce' ex' c' env2 n2 s2 = (Inl err, n', s2)"
    by (auto simp: commit_provider_submit_context_def dest: savepoint_Inl)
  have "\<exists>err. fst (begin_provider_runtime_intent cx nonce' attempt ex' tp lm proxy input c' source target env2 n2 s2) = Inl err"
  proof (cases "begin_provider_runtime_intent cx nonce' attempt ex' tp lm proxy input c' source target env2 n2 s2")
    case (fields r n3 s3)
    with later(1) show ?thesis
      by (cases r) (auto simp: begin_provider_runtime_intent_def Let_def run_simps held_def same dest!: load_Inr read_runs)
  qed
  with boundary show ?thesis by blast
qed

theorem submit_boundary_crossed_once_witness:
  "\<exists>err n'. commit_provider_submit_context sample_ledger (replicate 12 7) (owned first_owner) fmempty (calm 7) 0 (ledger_with crossed_op)
     = (Inl err, n', ledger_with crossed_op)"
  using submit_boundary_crossed_once [OF sample_ledger_laws _ _ _ sample_boundary, where ops = "[]" and ex' = "owned first_owner"
      and ?env2.0 = "calm 7" and ?n2.0 = "0" and nonce' = "replicate 12 7" and c' = fmempty]
  by simp

section \<open>A superseded execution\<close>

definition refuses :: "'s \<Rightarrow> ('s, 'a) dbm \<Rightarrow> bool" where
  "refuses s m \<longleftrightarrow> (\<forall>env n r n' s'. m env n s = (r, n', s') \<longrightarrow> s' = s \<and> (\<exists>err. r = Inl err))"

lemma refuses_first: "refuses s m \<Longrightarrow> refuses s (bind m f)" "refuses s m \<Longrightarrow> refuses s (seq m k)"
  unfolding refuses_def seq_def bind_def by (fastforce split: prod.splits sum.splits)+

lemma refuses_after: "reads m \<Longrightarrow> (\<And>a. refuses s (f a)) \<Longrightarrow> refuses s (bind m f)"
  unfolding refuses_def bind_def by (fastforce split: prod.splits sum.splits dest: readsD)

lemma refuses_after_seq: "reads m \<Longrightarrow> refuses s k \<Longrightarrow> refuses s (seq m k)"
  unfolding seq_def by (rule refuses_after)

lemma refuses_run: "refuses s m \<Longrightarrow> \<exists>err n'. m env n s = (Inl err, n', s)"
  unfolding refuses_def by (cases "m env n s") blast

lemma refuses_savepoint: "refuses s m \<Longrightarrow> refuses s (savepoint m)"
  unfolding refuses_def [of s "savepoint m"] savepoint_def by (auto dest: refuses_run split: if_splits prod.splits sum.splits)
    (metis Inl_Inr_False Pair_inject refuses_run)+

lemma refuses_scoped: "refuses s m \<Longrightarrow> refuses s (scoped m)"
  unfolding refuses_def [of s "scoped m"] scoped_def by (auto dest: refuses_run split: if_splits prod.splits sum.splits)
    (metis Inl_Inr_False Pair_inject refuses_run)+

lemmas refuses_wrapped = refuses_savepoint refuses_scoped

lemma refuses_owner: "fmlookup (lg_config s) (pe_key ex) \<noteq> Some (pe_raw ex) \<Longrightarrow> refuses s (assert_owner ex)"
  by (auto simp: refuses_def assert_owner_def get_config_def dbm_simps split: if_splits)

lemma refuses_discard: "refuses s m \<Longrightarrow> refuses s (discard m)"
  unfolding discard_def by (rule refuses_first)

lemma refuses_upsert:
  "refuses s (assert_owner ex) \<Longrightarrow> refuses s (upsert_polling_job cx nonce ex component job c source target)"
  unfolding upsert_polling_job_def Let_def
  by (intro refuses_after_seq refuses_after refuses_wrapped reads_basic reads_seal refuses_first)

lemma refuses_begin:
  "refuses s (assert_owner ex) \<Longrightarrow> refuses s (begin_provider_runtime_intent cx nonce attempt ex tp lm proxy input c source target)"
  unfolding begin_provider_runtime_intent_def Let_def
  apply (rule refuses_after_seq [OF reads_basic(4)])
  apply (rule refuses_after_seq [OF reads_basic(4)])
  apply (rule refuses_wrapped)
  apply (rule refuses_first, assumption)
  done

fun fence_of :: "ledger_op \<Rightarrow> provider_execution option" where
  "fence_of (Begin nonce attempt ex tp lm proxy input c source target) = Some ex"
| "fence_of (Boundary nonce ex c) = Some ex"
| "fence_of (SaveJob nonce attempt ex component job c source target) = Some ex"
| "fence_of (SaveResult nonce ex v) = Some ex"
| "fence_of (Upsert nonce ex component job c source target) = Some ex"
| "fence_of (Touch ex attempts) = Some ex"
| "fence_of (MarkFailed ex snippet) = Some ex"
| "fence_of (CloseJob ex) = Some ex"
| "fence_of _ = None"

lemma refuses_fenced:
  assumes "fence_of x = Some ex" "refuses s (assert_owner ex)"
  shows "refuses s (ledger_step cx x)"
  using assms
  by (cases x) (auto simp: commit_provider_submit_context_def save_provider_job_def save_provider_result_def
      touch_polling_job_def mark_job_failed_def close_job_def Let_def
      intro!: refuses_discard refuses_begin refuses_upsert refuses_savepoint refuses_scoped refuses_after_seq [OF reads_basic(4)]
      refuses_after [OF reads_asset] intro: refuses_first)

definition claimed_by :: "ledger_codec \<Rightarrow> ledger_db \<Rightarrow> string \<Rightarrow> string set \<Rightarrow> bool" where
  "claimed_by cx s k W \<longleftrightarrow> (\<exists>raw w. fmlookup (lg_config s) k = Some raw \<and> claim_owner cx raw = Some w \<and> w \<in> W)"

lemma claimed_runs:
  "ledger_laws cx \<Longrightarrow> list_all sealed_op ops \<Longrightarrow> prefix CLAIM_PREFIX k \<Longrightarrow> claimed_by cx s k W
    \<Longrightarrow> (\<Union>x \<in> set ops. owners x) \<subseteq> W \<Longrightarrow> claimed_by cx (run_ops (ledger_step cx) env ops n s) k W"
proof (induction ops arbitrary: n s)
  case (Cons x ops)
  obtain r n' s' where run: "ledger_step cx x env n s = (r, n', s')" by (cases "ledger_step cx x env n s") auto
  with Cons.prems have "claims_by cx (owners x) s s'" by (auto simp: steps_to_def dest: step_steps)
  with Cons.prems have "claimed_by cx s' k W" unfolding claims_by_def claimed_by_def by fastforce
  with Cons.IH [of s' n'] Cons.prems run show ?case by simp
qed simp

text \<open>
  C7: A superseded execution changes nothing: when another owner has acquired the unit, every writing operation under the
  earlier authority fails and leaves the ledger as it was, after any operations of other owners.
\<close>

theorem superseded_execution_changes_nothing:
  assumes "ledger_laws cx" "length nonce = 12" "length nonce' = 12" "list_all sealed_op ops"
    and first: "acquire cx nonce owner e env n s = (Inr ex, n1, s1)"
    and second: "acquire cx nonce' owner' e' env' n2 s2 = (Inr ex', n3, s3)"
    and same: "unit_key cx (unit_of cx e') = unit_key cx (unit_of cx e)"
    and others: "owner' \<noteq> owner" "\<forall>x \<in> set ops. owner \<notin> owners x"
    and fenced: "fence_of x = Some ex"
  shows "\<exists>err n'. ledger_step cx x env2 n4 (run_ops (ledger_step cx) env1 ops n3 s3)
     = (Inl err, n', run_ops (ledger_step cx) env1 ops n3 s3)"
proof -
  from acquire_Inr [OF first assms(1,2)] obtain raw where
    ex: "ex = \<lparr>pe_env = e, pe_key = unit_key cx (unit_of cx e), pe_raw = raw\<rparr>" "claim_owner cx raw = Some owner" by blast
  from acquire_Inr [OF second assms(1,3)] others have "claimed_by cx s3 (pe_key ex) (- {owner})"
    by (auto simp: claimed_by_def ex same)
  from claimed_runs [OF assms(1,4) _ this] others
  have "claimed_by cx (run_ops (ledger_step cx) env1 ops n3 s3) (pe_key ex) (- {owner})"
    by (auto simp: ex unit_key_def)
  with ex have "refuses (run_ops (ledger_step cx) env1 ops n3 s3) (assert_owner ex)"
    by (intro refuses_owner) (auto simp: claimed_by_def)
  from refuses_run [OF refuses_fenced [OF fenced this]] show ?thesis .
qed

theorem superseded_execution_changes_nothing_witness:
  "\<exists>err n'. ledger_step sample_ledger (Touch (owned first_owner) 1) (calm 7) 0 (claimed_db second_owner)
     = (Inl err, n', claimed_db second_owner)"
proof -
  obtain n1 n2 where
    "acquire sample_ledger (replicate 12 7) first_owner sample_env (calm 7) 0 vacant_db = (Inr (owned first_owner), n1, claimed_db first_owner)"
    "acquire sample_ledger (replicate 12 7) second_owner sample_env (calm 7) 0 (claimed_db first_owner)
       = (Inr (owned second_owner), n2, claimed_db second_owner)"
    using sample_acquire sample_acquire_again by blast
  from superseded_execution_changes_nothing [OF sample_ledger_laws _ _ _ this refl, of "[]" "Touch (owned first_owner) 1"]
  show ?thesis by (simp add: first_owner_def second_owner_def)
qed

section \<open>A paid result\<close>

definition ready_row :: "ledger_codec \<Rightarrow> ledger_db \<Rightarrow> string \<Rightarrow> operation \<Rightarrow> bool" where
  "ready_row cx s k op \<longleftrightarrow> (\<exists>raw. fmlookup (lg_config s) k = Some raw \<and> decode_operation cx raw = Inr op)
     \<and> op_state op = ''result_ready''"

lemma ready_kept:
  assumes "advance cx s s'" "prefix OPERATION_PREFIX k" "ready_row cx s k op"
  shows "ready_row cx s' k op"
proof -
  from assms(3) obtain raw where raw: "fmlookup (lg_config s) k = Some raw" "decode_operation cx raw = Inr op"
    and st: "op_state op = ''result_ready''" by (auto simp: ready_row_def)
  from assms(1,2) raw decode_content [OF raw(2)] st have "fmlookup (lg_config s') k = Some raw"
    by (auto simp: advance_def row_step_def elim!: op_stepE dest!: spec [of _ k])
  with raw st show ?thesis by (simp add: ready_row_def)
qed

lemma ready_runs:
  "ledger_laws cx \<Longrightarrow> list_all sealed_op ops \<Longrightarrow> prefix OPERATION_PREFIX k \<Longrightarrow> ready_row cx s k op
    \<Longrightarrow> ready_row cx (run_ops (ledger_step cx) env ops n s) k op"
proof (induction ops arbitrary: n s)
  case (Cons x ops)
  obtain r n' s' where run: "ledger_step cx x env n s = (r, n', s')" by (cases "ledger_step cx x env n s") auto
  with Cons.prems have "ready_row cx s' k op" by (auto intro: ready_kept step_advances)
  with Cons.IH [of s' n'] Cons.prems run show ?case by simp
qed simp

lemma seal_decodes:
  assumes "ledger_laws cx" "length nonce = 12" "seal_value cx nonce (operation_value cx op) env n s = (Inr raw, n', s')"
    and "operation_ok op" "state_ok op" "snapshot_ok cx op"
  shows "decode_operation cx raw = Inr op"
proof -
  from assms(3) have enc: "encrypt_config_value (lx_crates cx) (lx_sources cx) nonce (lx_encode cx (operation_value cx op)) = Inr raw"
    by (auto simp: seal_value_def ret_def fail_def split: sum.splits)
  with assms(1) have "sealed raw"
    by (auto simp: encrypt_config_value_def encrypt_for_save_def ledger_laws_def split: sum.splits option.splits)
  with decrypt_own_value [OF enc assms(2)] assms(1,4-6) show ?thesis
    by (simp add: decode_operation_def unseal_value_def ledger_laws_def)
qed

lemma decode_ok: "decode_operation cx raw = Inr op \<Longrightarrow> operation_ok op \<and> state_ok op \<and> snapshot_ok cx op"
  by (auto simp: decode_operation_def split: if_splits sum.splits option.splits)

lemma ready_ok:
  assumes "operation_ok op" "snapshot_ok cx op" "op' = op\<lparr>op_state := ''result_ready'', op_result := Some v, op_asset_sha256 := d\<rparr>"
  shows "operation_ok op' \<and> state_ok op' \<and> snapshot_ok cx op'"
  using assms
  by (auto simp: operation_ok_def state_ok_def snapshot_ok_def validate_snapshot_def proven_evidence_def split: option.splits)

lemma install_decodes:
  assumes "install cx nonce e prior op env n s = (Inr u, n', s')" "ledger_laws cx" "length nonce = 12"
    and "operation_ok op \<and> state_ok op \<and> snapshot_ok cx op" "op_state op = ''result_ready''"
  shows "ready_row cx s' (operation_key cx (unit_of cx e)) op"
proof -
  from assms(1) obtain raw n1 s1 where sealed: "seal_value cx nonce (operation_value cx op) env n s = (Inr raw, n1, s1)"
    and "fmlookup (lg_config s') (operation_key cx (unit_of cx e)) = Some raw"
    unfolding install_def get_config_def by (auto simp: bind_Inr seq_Inr ensure_Inr query_Inr)
  with seal_decodes [OF assms(2,3) sealed] assms(4,5) show ?thesis by (simp add: ready_row_def)
qed

lemmas unit_runs = readsD [OF reads_owner] readsD [OF reads_read_unit] readsD [OF reads_assert] readsD [OF reads_basic(5)]

lemma result_saved:
  assumes "ledger_laws cx" "length nonce = 12" "save_provider_result cx nonce ex v env n s = (Inr u, n', s')"
  shows "\<exists>op d n0. ready_row cx s' (operation_key cx (unit_of cx (pe_env ex))) op \<and> op_result op = Some v
    \<and> op_unit op = unit_of cx (pe_env ex) \<and> Some (op_binding op) = ae_resume_binding (pe_env ex)
    \<and> validate_result (pe_env ex) v \<and> asset_digest cx v env n s = (Inr d, n0, s) \<and> op_asset_sha256 op = d"
  using assms(3)
  apply (clarsimp simp: save_provider_result_def Let_def run_simps if_run)
  apply (frule readsD [OF reads_asset])
  apply (elim disjE)
     apply (clarsimp dest!: unit_runs load_Inr)
     apply (drule install_decodes [OF _ assms(1,2)])
       apply (rule ready_ok [OF _ _ refl]; blast dest: decode_ok)
      apply simp
     apply (rule exI, rule conjI, assumption, simp)
    apply (clarsimp dest!: unit_runs load_Inr)
   apply (clarsimp dest!: unit_runs load_Inr)
  apply (clarsimp dest!: unit_runs load_Inr)
  apply (auto simp: ready_row_def)
  done

lemma recover_ready:
  assumes "ready_row cx s (operation_key cx (unit_of cx e)) op" "op_result op = Some v"
    "recover_provider_operation cx e env n s = (Inr a, n', s')"
  shows "a = Ready v"
  using assms
  by (auto simp: ready_row_def recover_provider_operation_def run_simps if_run dest!: load_Inr read_runs)

lemma recover_text:
  assumes "ready_row cx s (operation_key cx (unit_of cx e)) op" "op_result op = Some v" "v = JString t" "op_asset_sha256 op = None"
    "op_unit op = unit_of cx e" "ae_resume_binding e = Some (op_binding op)" "validate_result e v"
    "filter (row_of cx e) (lg_jobs s) = []" "\<not> fault env n" "\<not> fault env (Suc n)"
  shows "recover_provider_operation cx e env n s = (Inr (Ready v), Suc (Suc n), s)"
proof -
  from assms(1) obtain raw where "fmlookup (lg_config s) (operation_key cx (unit_of cx e)) = Some raw" "decode_operation cx raw = Inr op"
    and "op_state op = ''result_ready''" by (auto simp: ready_row_def)
  with assms(2-) show ?thesis
    by (simp add: recover_provider_operation_def load_operation_def get_config_def lift_sum_def read_unit_def assert_projection_def
      asset_text dbm_simps)
qed

text \<open>
  C5: A paid result is kept and used: once \<open>save_provider_result\<close> has committed a result for a unit, then after any
  sequence of operations of the ledger, with any failures between them, \<open>recover_provider_operation\<close> answers this result
  or an error, never that the unit is free or still polled; no submission of the unit can cross its boundary; and for a
  text of whose unit no job row is left, with no failure, the answer is the result.
\<close>

theorem paid_result_replayed:
  assumes "ledger_laws cx" "length nonce = 12" "list_all sealed_op ops"
    and saved: "save_provider_result cx nonce ex v env n s = (Inr (), n1, s1)"
    and later: "s2 = run_ops (ledger_step cx) env1 ops n1 s1"
    and same: "unit_of cx (pe_env ex') = unit_of cx (pe_env ex)"
  shows "(fst (recover_provider_operation cx (pe_env ex) env2 n2 s2) = Inr (Ready v)
        \<or> (\<exists>err. fst (recover_provider_operation cx (pe_env ex) env2 n2 s2) = Inl err))
    \<and> (\<exists>err. fst (commit_provider_submit_context cx nonce' ex' c env2 n2 s2) = Inl err)
    \<and> ((\<exists>t. v = JString t) \<and> filter (row_of cx (pe_env ex)) (lg_jobs s2) = [] \<and> \<not> fault env2 n2 \<and> \<not> fault env2 (Suc n2)
        \<longrightarrow> recover_provider_operation cx (pe_env ex) env2 n2 s2 = (Inr (Ready v), Suc (Suc n2), s2))"
proof -
  from result_saved [OF assms(1,2) saved] obtain op where
    row: "ready_row cx s1 (operation_key cx (unit_of cx (pe_env ex))) op" and op: "op_result op = Some v"
    "op_unit op = unit_of cx (pe_env ex)" "Some (op_binding op) = ae_resume_binding (pe_env ex)" "validate_result (pe_env ex) v"
    and digest: "\<exists>n0. asset_digest cx v env n s = (Inr (op_asset_sha256 op), n0, s)" by blast
  from ready_runs [OF assms(1,3) _ row] have kept: "ready_row cx s2 (operation_key cx (unit_of cx (pe_env ex))) op"
    by (simp add: later)
  have answer: "fst (recover_provider_operation cx (pe_env ex) env2 n2 s2) = Inr (Ready v)
      \<or> (\<exists>err. fst (recover_provider_operation cx (pe_env ex) env2 n2 s2) = Inl err)"
    using recover_ready [OF kept op(1)]
    by (cases "recover_provider_operation cx (pe_env ex) env2 n2 s2"; cases "fst (recover_provider_operation cx (pe_env ex) env2 n2 s2)") auto
  have closed: "\<exists>err. fst (commit_provider_submit_context cx nonce' ex' c env2 n2 s2) = Inl err"
  proof (cases "commit_provider_submit_context cx nonce' ex' c env2 n2 s2")
    case (fields r n3 s3)
    with kept show ?thesis
      by (cases r) (auto simp: commit_provider_submit_context_def Let_def run_simps ready_row_def same dest!: load_Inr read_runs)
  qed
  have "recover_provider_operation cx (pe_env ex) env2 n2 s2 = (Inr (Ready v), Suc (Suc n2), s2)"
    if "v = JString t" "filter (row_of cx (pe_env ex)) (lg_jobs s2) = []" "\<not> fault env2 n2" "\<not> fault env2 (Suc n2)" for t
    by (rule recover_text [OF kept op(1)]) (use that op digest in \<open>auto simp: asset_text ret_def\<close>)
  with answer closed show ?thesis by blast
qed

theorem paid_result_replayed_witness:
  "recover_provider_operation sample_ledger sample_env (calm 7) 0 (ledger_with paid_op)
     = (Inr (Ready (JString (cps ''x''))), Suc (Suc 0), ledger_with paid_op)
   \<and> (\<exists>err. fst (commit_provider_submit_context sample_ledger (replicate 12 7) (owned first_owner) fmempty (calm 7) 0 (ledger_with paid_op)) = Inl err)"
  using paid_result_replayed [OF sample_ledger_laws _ _ sample_result, where ops = "[]" and ex' = "owned first_owner"
      and ?env2.0 = "calm 7" and ?n2.0 = "0" and nonce' = "replicate 12 7" and c = fmempty]
  by (simp add: ledger_with_def vacant_db_def)

end
