(* ===== verification/Spec2Isabelle.thy ===== *)
theory Spec2Isabelle
  imports Prelude Bindings Selector Dispatch Backoff TextChunks HtmlChunks ContentSafety PhpSerialized StructuredContent FieldActions
    FieldRouting ItemTranslation Db Jobs DiscoveryTasks KeyPool ConfigEnvelope PendingCallbacks Translations Completion
    JsonText SyncInflight SyncPlan SyncShip ShipSample ShipProtocol SyncRun RunSample RunSafety RunProtocol TemplateText ProviderLedger LedgerSample ProviderSafety
begin

text \<open>
  A verification library for the wptsall client (\<open>client-wpplugin/source/src\<close>, Rust): the program that
  discovers content on WordPress sites, has it translated by provider components, delivers the result, and ships
  content between pairs of sites. File names below are under that directory.

  \<^bold>\<open>How the parts interact.\<close> A discovery task claims an object (\<open>DiscoveryTasks\<close>), opens a job item for it (\<open>Jobs\<close>) and
  translates the object field by field (\<open>ItemTranslation\<close>): each field gets an action, a content format and a
  group (\<open>FieldActions\<close>, \<open>FieldRouting\<close>), each group a component (\<open>Bindings\<close>, \<open>Selector\<close>, \<open>Dispatch\<close>), each call a
  key (\<open>KeyPool\<close>) and a circuit (\<open>Backoff\<close>); long texts are cut and joined (\<open>TextChunks\<close>, \<open>HtmlChunks\<close>), structured ones
  are walked (\<open>PhpSerialized\<close>, \<open>StructuredContent\<close>), and what comes back is checked (\<open>ContentSafety\<close>). The result is
  saved before it is sent (\<open>PendingCallbacks\<close>), and when the site has confirmed it, the item, the counters of its
  job, the history and the saved result change together (\<open>Completion\<close>, \<open>Translations\<close>). Independently, a run over a pair of sites (\<open>SyncRun\<close>) pulls
  what changed at the source, relays it (\<open>SyncPlan\<close>), and ships it (\<open>SyncShip\<close>) over rows that survive a crash
  (\<open>SyncInflight\<close>).

  \<^bold>\<open>Conventions.\<close> Texts whose length or case matters are lists of code points (\<open>utext\<close>); others are \<open>string\<close>, bytes are
  lists of numbers. Unsigned machine integers are \<open>nat\<close> with the bound, the saturation or the wrap written out, signed ones
  \<open>int\<close>. A fallible function returns a sum with the error on the left; a panic is an error value that no handler
  catches. Code that touches the database or the sites is a function of an environment, the number of
  statements and calls made so far, and the state (\<open>Db\<close>): the environment says which statement or call fails and what
  the clock reads at it. So a crash is an environment in which everything from some number on fails, and a
  statement over all environments covers every point of failure. Crates, the answers of sites and providers, random
  draws and the wall clock are arguments; what is relied on is a named law (\<open>crate_laws\<close>, \<open>codec_laws\<close>, \<open>ship_laws\<close>, \<open>ledger_laws\<close>),
  and a concrete codec (\<open>JsonText\<close>, \<open>ShipSample\<close>) has all of them.

  \<^bold>\<open>The theories.\<close>

  \<^item> \<open>Prelude\<close>: bounds, saturating arithmetic, the string functions of Rust, a JSON value, lemmas on lists and maps.
  \<^item> \<open>Db\<close>: statements, savepoints (\<open>JobMutation\<close>, \<open>CallbackMutation\<close>, \<open>RetainedMutation\<close>), operations in
    sequence, and the interfaces of tables with their laws.
  \<^item> \<open>Jobs\<close> (\<open>db/jobs.rs\<close>, \<open>db/runtime.rs\<close>): jobs and items; the counters are the counts of the rows after any
    operations; a failed operation changes nothing.
  \<^item> \<open>DiscoveryTasks\<close> (\<open>db/discovery_tasks.rs\<close>): settings rows and claims; at most one pipeline holds an object.
  \<^item> \<open>Translations\<close> (\<open>db/translations.rs\<close>): history and retry queue; a pending retry is kept until its unit is done.
  \<^item> \<open>PendingCallbacks\<close> (\<open>db/pending_callbacks.rs\<close>): saved results; they are sound, and each stays until its
    own unit is confirmed.
  \<^item> \<open>Completion\<close> (\<open>complete_saved_callback\<close> of \<open>db/jobs.rs\<close>): the one operation over the items, the jobs, the
    history and the saved results; it commits its changes to all of them or changes nothing.
  \<^item> \<open>ConfigEnvelope\<close> (\<open>bindings/crypto.rs\<close>, \<open>db/system.rs\<close>): encryption of the configuration; round trip, no plain-text
    fallback for an envelope, and the panic on some secrets.
  \<^item> \<open>TextChunks\<close>, \<open>HtmlChunks\<close> (\<open>component_rt/runner/chunking.rs\<close>): cutting and joining; when a text is cut and within
    which bounds, what the blocks of a document join to, when the cut of unclosed blocks duplicates text, when the recursion ends and when it does not.
  \<^item> \<open>ContentSafety\<close>, \<open>PhpSerialized\<close> (\<open>component_rt/content_safety.rs\<close>): placeholders, comments and blocks
    of a document (the check is a block grammar), and the strings of serialized values.
  \<^item> \<open>FieldActions\<close>, \<open>FieldRouting\<close>, \<open>StructuredContent\<close>, \<open>ItemTranslation\<close> (\<open>task_engine/pipeline.rs\<close>,
    \<open>field_action.rs\<close>, \<open>content_class.rs\<close>, \<open>component_rt/contract.rs\<close>): the run over one object; every planned field has a
    row, the payload is exactly the successful rows, the provider only sees translated fields, a PHP value and its JSON
    form are translated alike.
  \<^item> \<open>Bindings\<close> (\<open>bindings/task_rules.rs\<close>, \<open>binding_v2.rs\<close>), \<open>Selector\<close> (\<open>component_rt/selector.rs\<close>), \<open>Dispatch\<close>
    (\<open>task_engine/executor.rs\<close> and the calls of the pipeline): which component does the work; resolution is a table of
    priorities whatever order hash maps iterate in, and a component is selected for a group of the object, and
    one that another relation claims only when the settings or the bindings name it.
  \<^item> \<open>KeyPool\<close> (\<open>component_rt/key_pool.rs\<close>, \<open>key_registry.rs\<close>, \<open>file_limits.rs\<close>): keys under concurrent callers, as a step
    relation with one step for one atomic operation; the limit holds, and a caller only sleeps while every key that
    accepts its request is full.
  \<^item> \<open>Backoff\<close> (\<open>task_engine/backoff.rs\<close>): cooldowns, circuits and permanent skips.
  \<^item> \<open>TemplateText\<close> (\<open>component_rt/runner/request.rs\<close>, \<open>async_poll.rs\<close>, \<open>provider_recovery.rs\<close>): paths, rendering and evidence
    of a provider template; accepted evidence belongs to its own operation.
  \<^item> \<open>ProviderLedger\<close> (\<open>db/async_jobs.rs\<close> and its modules, \<open>db/capacity.rs\<close>): the encrypted operation, the claim and
    the polling row of each paid provider call, and the capacity reserved for its result.
  \<^item> \<open>LedgerSample\<close>, \<open>ProviderSafety\<close>: a codec with the laws, and the guarantees of the ledger: it refines a machine of one
    operation, a request crosses the submit boundary once, a paid result is replayed, a superseded runner writes nothing.
  \<^item> \<open>JsonText\<close>: a JSON printer and reader for the examples.
  \<^item> \<open>SyncInflight\<close> (\<open>db/sync_inflight.rs\<close>): the sealed row of a unit between the sites; it refines a machine of the
    unit, keeps what was paid for, and its receipt belongs to its packet.
  \<^item> \<open>SyncPlan\<close> (\<open>sync_engine/types.rs\<close>, \<open>field_plan.rs\<close>, \<open>packet.rs\<close>, \<open>relay_packet_for_target\<close> and
    \<open>build_tombstone_packet\<close> of \<open>shipper.rs\<close>): pairs, plans, packets; what the relay changes of a packet, exactly.
  \<^item> \<open>SyncShip\<close> (\<open>ship_one_packet\<close>, \<open>ship_tombstone_packet\<close> and their parts in \<open>sync_engine/discoverer.rs\<close>, the calls of
    \<open>shipper.rs\<close>, \<open>state.rs\<close>, \<open>review.rs\<close>): one shipment; every call that leaves the client is in a trace.
  \<^item> \<open>ShipSample\<close>: a session with a packet codec, and a shipment that loses an answer.
  \<^item> \<open>ShipProtocol\<close>: triples with a postcondition for errors, and the automaton that the calls for one unit follow
    as long as it is not parked for review.
  \<^item> \<open>SyncRun\<close> (\<open>sync_pair_run\<close> of \<open>discoverer.rs\<close>, \<open>fetch_digest\<close>, \<open>pull_packets\<close>, \<open>reconcile_fingerprints\<close> of
    \<open>shipper.rs\<close>, \<open>reconcile_batch\<close> of \<open>state.rs\<close>): the run over a pair; it ends.
  \<^item> \<open>RunSample\<close>, \<open>RunSafety\<close>, \<open>RunProtocol\<close>: two sample runs, the cursor never passes an object that still has to be
    shipped, and over any sequence of runs a packet is sent again only after the fate of the one before is proven, or
    after its unit was parked for review.

  \<^bold>\<open>Fuel and bounds.\<close> The recursive HTML split has fuel: \<open>rich_split_complete\<close> gives an amount that is enough for tidy
  documents, and \<open>unclosed_block_never_returns\<close> an input for which none is. The scan of a run has fuel: more rounds than the
  largest id are enough, because each page starts above the one before (\<open>sync_pair_run_ends\<close>). All other recursions are
  total functions. Instants of the back-off are nanoseconds without an upper bound.

  \<^bold>\<open>Not modelled.\<close> The web UI and its routes (HTTP and forms over the stores above), the loader, runner, request
  templates, signing plugins and OAuth of components (provider HTTP, WASM, cryptography), the discovery loop, the submitter and
  the language packs (HTTP and files around the modelled steps), the worker and start-up, logging, self-update, the SQLite
  VFS shim and disk accounting, native file and unit locks, the review attempts, the
  workflow interpreter and its event waiter, media upload and signed transport of the sync engine (their outcomes are
  arguments of \<open>SyncShip\<close>), the desktop shell, the shared libraries, and the test infrastructure. Log events have no effect in
  the model. Listings whose SQL leaves the order of ties open, and statistics, are left out of the tables.
\<close>

section \<open>Properties across components\<close>

text \<open>
  C26: The check and the scanner agree: when the source check accepts a Gutenberg document, the scanner
  that cuts it into top-level blocks ends with every block closed, so the blocks join to exactly the
  document. The duplication of unclosed blocks cannot reach an accepted Gutenberg document at its top level.
\<close>

theorem accepted_gutenberg_blocks_exact:
  assumes "validate_rich_html_source parse html = None" "is_gutenberg_content html"
  shows "concat (map ctext (raw_blocks html)) = html"
proof -
  obtain cs where "comments_loop parse html 0 [] = Inr cs"
    using assms(1) by (auto simp: validate_rich_html_source_def html_comments_def split: sum.splits)
  from accepted_scan_closes [OF this, of scan_init]
  have d: "depth (gutenberg_scan html 0 scan_init) = 0" by (simp add: scan_init_def)
  with scan_inv_depth [OF gutenberg_final] assms(2) have "rich_closed html"
    by (simp add: rich_closed_def closed_scan_def)
  with raw_blocks_texts [OF gutenberg_raw_not_Nil [OF assms(2) d]] show ?thesis
    by (simp add: texts_of_def)
qed

theorem accepted_gutenberg_blocks_exact_witness:
  "concat (map ctext (raw_blocks (cps ''<!-- wp:p -->a<!-- /wp:p -->'')))
    = cps ''<!-- wp:p -->a<!-- /wp:p -->''"
  by (rule accepted_gutenberg_blocks_exact [OF block_example])

text \<open>
  C25: No damaged structure is delivered. Whatever the provider answers for the chunks or for the whole
  document, a translation that the rich-HTML routine returns has the comments of the source, in order,
  passes the source check itself, and has the same placeholders the same number of times.
\<close>

theorem delivered_translation_keeps_structure:
  assumes "translate_rich_html_blocks fuel provider whole
      (\<lambda>h. map_option wrap (validate_rich_html_source parse h))
      (\<lambda>s t. map_option wrap (validate_rich_html_translation parse s t)) html mx = Some (Inr t)"
  shows "html_comments parse t = html_comments parse html
    \<and> validate_rich_html_source parse t = None
    \<and> interpolation_tokens t = interpolation_tokens html"
proof -
  have "validate_rich_html_translation parse html t = None"
    using assms
      translate_split_checked [where check = "\<lambda>s t. map_option wrap (validate_rich_html_translation parse s t)"]
    by (auto simp: translate_rich_html_blocks_def split: option.splits)
  then show ?thesis
    by (auto simp: validate_rich_html_translation_def validate_rich_html_source_def
        validate_interpolation_tokens_def split: sum.splits if_splits)
qed

theorem delivered_translation_keeps_structure_witness:
  "html_comments (\<lambda>t. None) (cps ''%s{x}ho'') = html_comments (\<lambda>t. None) (cps ''hi%s{x}'')
    \<and> validate_rich_html_source (\<lambda>t. None) (cps ''%s{x}ho'') = None
    \<and> interpolation_tokens (cps ''%s{x}ho'') = interpolation_tokens (cps ''hi%s{x}'')"
  by (rule delivered_translation_keeps_structure [OF translation_example])

end
